(* ===== verification/Prelude.thy ===== *)
theory Prelude
  imports Main "HOL-Library.Word"
begin

text \<open>
  Shared vocabulary of the development: names for the machine types of the modelled C and C++
  headers, the collections of simplification rules the component theories feed, and generic
  facts on machine words and lists that several components use.
\<close>

unbundle bit_operations_syntax

section \<open>Machine types\<close>

text \<open>
  The integer types of \<^verbatim>\<open>my_global.h\<close>. \<open>uint\<close> is 32 bits wide on every platform the server
  is built for, \<open>ulonglong\<close> and \<open>size_t\<close> are 64 bits wide on the x86-64 Windows build that
  the repository ships.
\<close>

type_synonym uchar = "8 word"
type_synonym uint8 = "8 word"
type_synonym uint16 = "16 word"
type_synonym uint32 = "32 word"
type_synonym uint = "32 word"
type_synonym ulonglong = "64 word"

section \<open>Rule collections\<close>

named_theorems word_conv \<open>reading word operations as arithmetic on nat\<close>
named_theorems heap_simps \<open>reading and writing pointer cells\<close>

section \<open>Words\<close>

lemma unat_drop_bit [word_conv]: "unat (drop_bit n (v :: 'a::len word)) = unat v div 2 ^ n"
  by (simp flip: drop_bit_eq_div add: unat_drop_bit_eq)

lemma drop_bit_eq_0_iff_div: "drop_bit n (v :: 'a::len word) = 0 \<longleftrightarrow> unat v div 2 ^ n = 0"
  by (metis unat_drop_bit unat_eq_zero)

lemma and_high_mask: "(v :: 'a::len word) AND NOT (mask n) = push_bit n (drop_bit n v)"
  by (rule bit_word_eqI) (auto simp: bit_simps)

lemma push_drop_eq_0_iff: "push_bit n (drop_bit n (v :: 'a::len word)) = 0 \<longleftrightarrow> drop_bit n v = 0"
proof
  assume "push_bit n (drop_bit n v) = 0"
  then have "drop_bit n (push_bit n (drop_bit n v)) = 0" by simp
  moreover have "drop_bit n (push_bit n (drop_bit n v)) = drop_bit n v"
    by (rule bit_word_eqI) (auto simp: bit_simps dest: bit_imp_le_length)
  ultimately show "drop_bit n v = 0" by simp
qed simp

lemma and_high_mask_eq_0_iff:
  "(v :: 'a::len word) AND NOT (mask n) = 0 \<longleftrightarrow> unat v div 2 ^ n = 0"
  by (simp add: and_high_mask push_drop_eq_0_iff drop_bit_eq_0_iff_div)

lemma and_low_mask:
  "(x :: 'a::len word) AND 7 = take_bit 3 x" "x AND 0xF = take_bit 4 x" "x AND 0xFF = take_bit 8 x"
  by (simp_all add: take_bit_eq_mask mask_eq_exp_minus_1)

lemma unat_ucast_small:
  assumes "unat (v :: 'a::len word) < 2 ^ LENGTH('b)"
  shows "unat (ucast v :: 'b::len word) = unat v"
  using assms by (simp add: unsigned_ucast_eq take_bit_nat_eq_self_iff)

lemma unat_exp: "n < LENGTH('a) \<Longrightarrow> unat (2 ^ n :: 'a::len word) = 2 ^ n"
  using unsigned_of_nat [of "2 ^ n", where 'b = 'a and 'a = nat] by (simp add: take_bit_nat_eq_self)

lemma unat_plus_small:
  assumes "unat (a :: 'a::len word) + unat b < 2 ^ LENGTH('a)"
  shows "unat (a + b) = unat a + unat b"
  using assms by (simp add: unat_word_ariths)

lemma sint_uint_64: "sint (w :: 64 word) = (if uint w < 2 ^ 63 then uint w else uint w - 2 ^ 64)"
proof -
  have w: "uint w < 2 ^ 64" using uint_lt2p [of w] by simp
  have s: "sint w = (uint w + 2 ^ 63) mod 2 ^ 64 - 2 ^ 63"
    by (simp add: sint_uint signed_take_bit_eq_take_bit_shift take_bit_eq_mod)
  show ?thesis
  proof (cases "uint w < 2 ^ 63")
    case True
    then have "(uint w + 2 ^ 63) mod 2 ^ 64 = uint w + 2 ^ 63" by (intro mod_pos_pos_trivial) simp_all
    then show ?thesis using True s by simp
  next
    case False
    then have "(uint w - 2 ^ 63) mod 2 ^ 64 = uint w - 2 ^ 63" using w by (intro mod_pos_pos_trivial) simp_all
    then have "(uint w - 2 ^ 63 + 2 ^ 64) mod 2 ^ 64 = uint w - 2 ^ 63" unfolding mod_add_self2 .
    moreover have "uint w - 2 ^ 63 + 2 ^ 64 = uint w + 2 ^ 63" by simp
    ultimately have "(uint w + 2 ^ 63) mod 2 ^ 64 = uint w - 2 ^ 63" by (simp only:)
    then show ?thesis using False unfolding s by simp
  qed
qed

section \<open>Lists\<close>

lemma all_set_take: "n \<le> length b \<Longrightarrow> (\<forall>x \<in> set (take n b). P x) \<longleftrightarrow> (\<forall>i<n. P (b ! i))"
  by (auto simp: all_set_conv_all_nth)

lemma all_set_drop: "(\<forall>x \<in> set (drop n b). P x) \<longleftrightarrow> (\<forall>i<length b. n \<le> i \<longrightarrow> P (b ! i))"
proof -
  have "(\<forall>x \<in> set (drop n b). P x) \<longleftrightarrow> (\<forall>j<length b - n. P (b ! (n + j)))"
    by (auto simp: all_set_conv_all_nth)
  also have "\<dots> \<longleftrightarrow> (\<forall>i<length b. n \<le> i \<longrightarrow> P (b ! i))"
    by (metis add_diff_inverse_nat diff_less_mono le_add1 less_diff_conv add.commute not_less)
  finally show ?thesis .
qed

end
