(* ===== verification/My_Bit.thy ===== *)
theory My_Bit
  imports Prelude
begin

text \<open>
  The bit functions of \<^verbatim>\<open>mariadb-fp/include/mysql/server/private/my_bit.h\<close>.
\<close>

section \<open>Position of the highest bit\<close>

(* @my_bit.h 46-50 my_bit_log2_hex_digit *)
definition my_bit_log2_hex_digit :: "uint8 \<Rightarrow> uint" where
  "my_bit_log2_hex_digit value =
     (if value AND 0x0C \<noteq> 0
      then (if value AND 0x08 \<noteq> 0 then 3 else 2)
      else (if value AND 0x02 \<noteq> 0 then 1 else 0))"

(* @my_bit.h 51-55 my_bit_log2_uint8 *)
definition my_bit_log2_uint8 :: "uint8 \<Rightarrow> uint" where
  "my_bit_log2_uint8 value =
     (if value AND 0xF0 \<noteq> 0 then my_bit_log2_hex_digit (drop_bit 4 value) + 4
      else my_bit_log2_hex_digit value)"

(* @my_bit.h 56-60 my_bit_log2_uint16 *)
definition my_bit_log2_uint16 :: "uint16 \<Rightarrow> uint" where
  "my_bit_log2_uint16 value =
     (if value AND 0xFF00 \<noteq> 0 then my_bit_log2_uint8 (ucast (drop_bit 8 value)) + 8
      else my_bit_log2_uint8 (ucast value))"

(* @my_bit.h 61-66 my_bit_log2_uint32 *)
definition my_bit_log2_uint32 :: "uint32 \<Rightarrow> uint" where
  "my_bit_log2_uint32 value =
     (if value AND 0xFFFF0000 \<noteq> 0 then my_bit_log2_uint16 (ucast (drop_bit 16 value)) + 16
      else my_bit_log2_uint16 (ucast value))"

(* @my_bit.h 67-72 my_bit_log2_uint64 *)
definition my_bit_log2_uint64 :: "ulonglong \<Rightarrow> uint" where
  "my_bit_log2_uint64 value =
     (if value AND 0xFFFFFFFF00000000 \<noteq> 0
      then my_bit_log2_uint32 (ucast (drop_bit 32 value)) + 32
      else my_bit_log2_uint32 (ucast value))"

(* @my_bit.h 73-82 my_bit_log2_size_t *)
definition my_bit_log2_size_t :: "64 word \<Rightarrow> uint" where
  "my_bit_log2_size_t value = my_bit_log2_uint64 value"

definition is_log2 :: "nat \<Rightarrow> nat \<Rightarrow> bool" where
  "is_log2 r v \<longleftrightarrow> (if v = 0 then r = 0 else 2 ^ r \<le> v \<and> v < 2 ^ (r + 1))"

lemma is_log2_high:
  assumes "is_log2 r (v div 2 ^ n)" and "v div 2 ^ n \<noteq> 0"
  shows "is_log2 (r + n) v"
proof -
  from assms have lo: "2 ^ r \<le> v div 2 ^ n" and hi: "v div 2 ^ n < 2 ^ (r + 1)"
    by (auto simp: is_log2_def)
  from lo have "2 ^ r * 2 ^ n \<le> v" by (metis less_eq_div_iff_mult_less_eq zero_less_numeral zero_less_power)
  moreover from hi have "v < 2 ^ (r + 1) * 2 ^ n" by (simp add: div_less_iff_less_mult)
  ultimately show ?thesis using assms(2) by (auto simp: is_log2_def power_add mult_ac)
qed

lemma is_log2_bound: "is_log2 r v \<Longrightarrow> v < 2 ^ n \<Longrightarrow> 0 < n \<Longrightarrow> r < n"
  by (metis is_log2_def le_less_trans nat_power_less_imp_less zero_less_numeral)

lemma log2_hex_digit:
  assumes "unat v < 16"
  shows "is_log2 (unat (my_bit_log2_hex_digit v)) (unat v)"
proof -
  have "\<forall>k \<in> {..<16}. is_log2 (unat (my_bit_log2_hex_digit (word_of_nat k))) k"
    by code_simp
  with assms have "is_log2 (unat (my_bit_log2_hex_digit (word_of_nat (unat v)))) (unat v)" by blast
  then show ?thesis by simp
qed

lemma log2_split:
  fixes v :: "'a::len word" and hi lo k :: uint
  assumes hi: "unat v div 2 ^ n \<noteq> 0 \<Longrightarrow> is_log2 (unat hi) (unat v div 2 ^ n)"
    and lo: "unat v div 2 ^ n = 0 \<Longrightarrow> is_log2 (unat lo) (unat v)"
    and len: "LENGTH('a) = 2 * n" "0 < n" "n \<le> 32" "unat k = n"
  shows "is_log2 (unat (if v AND NOT (mask n) \<noteq> 0 then hi + k else lo)) (unat v)"
proof (cases "unat v div 2 ^ n = 0")
  case True
  then show ?thesis using lo by (simp add: and_high_mask_eq_0_iff)
next
  case False
  have "unat v < 2 ^ n * 2 ^ n"
    using unsigned_less [of v] len(1) by (simp add: mult_2 power_add)
  then have "unat v div 2 ^ n < 2 ^ n" by (simp add: less_mult_imp_div_less)
  with hi [OF False] have "unat hi < n" by (rule is_log2_bound) (fact len(2))
  then have "unat (hi + k) = unat hi + n"
    using len(3,4) by (simp add: unat_plus_small)
  then show ?thesis using is_log2_high [OF hi [OF False] False] False
    by (simp add: and_high_mask_eq_0_iff)
qed

lemma log2_halves:
  fixes v :: "'a::len word" and f :: "'b::len word \<Rightarrow> uint"
  assumes f: "\<And>w. is_log2 (unat (f w)) (unat w)"
    and len: "LENGTH('a) = 2 * n" "LENGTH('b) = n" "n \<le> 32" "unat k = n"
  shows "is_log2 (unat (if v AND NOT (mask n) \<noteq> 0
      then f (ucast (drop_bit n v)) + k else f (ucast v))) (unat v)"
proof (intro log2_split)
  have "unat v < 2 ^ n * 2 ^ n"
    using unsigned_less [of v] len(1) by (simp add: mult_2 power_add)
  then have "unat v div 2 ^ n < 2 ^ n" by (simp add: less_mult_imp_div_less)
  then show "is_log2 (unat (f (ucast (drop_bit n v)))) (unat v div 2 ^ n)"
    using f [of "ucast (drop_bit n v)"] by (simp add: unat_ucast_small unat_drop_bit len(2))
  show "is_log2 (unat (f (ucast v))) (unat v)" if "unat v div 2 ^ n = 0"
    using f [of "ucast v"] that by (simp add: unat_ucast_small div_eq_0_iff len(2))
  show "0 < n" using len(2) len_gt_0 [where 'a = 'b] by simp
qed (use len in simp_all)

lemma high_masks:
  "(0xF0 :: 8 word) = NOT (mask 4)" "(0xFF00 :: 16 word) = NOT (mask 8)"
  "(0xFFFF0000 :: 32 word) = NOT (mask 16)" "(0xFFFFFFFF00000000 :: 64 word) = NOT (mask 32)"
  by (simp_all add: mask_eq_exp_minus_1)

lemma log2_uint8: "is_log2 (unat (my_bit_log2_uint8 v)) (unat v)"
  unfolding my_bit_log2_uint8_def high_masks
proof (intro log2_split)
  have "unat v < 2 ^ LENGTH(8)" by (rule unsigned_less)
  then show "is_log2 (unat (my_bit_log2_hex_digit (drop_bit 4 v))) (unat v div 2 ^ 4)"
    using log2_hex_digit [of "drop_bit 4 v"] by (simp add: unat_drop_bit)
  show "is_log2 (unat (my_bit_log2_hex_digit v)) (unat v)" if "unat v div 2 ^ 4 = 0"
    using that by (intro log2_hex_digit) (simp add: div_eq_0_iff)
qed simp_all

lemma log2_uint16: "is_log2 (unat (my_bit_log2_uint16 v)) (unat v)"
  unfolding my_bit_log2_uint16_def high_masks by (intro log2_halves log2_uint8) simp_all

lemma log2_uint32: "is_log2 (unat (my_bit_log2_uint32 v)) (unat v)"
  unfolding my_bit_log2_uint32_def high_masks by (intro log2_halves log2_uint16) simp_all

lemma log2_uint64: "is_log2 (unat (my_bit_log2_uint64 v)) (unat v)"
  unfolding my_bit_log2_uint64_def high_masks by (intro log2_halves log2_uint32) simp_all

section \<open>Counting bits\<close>

(* @my_bit.h 85-99 my_count_bits_uint32 *)
definition my_count_bits_uint32 :: "uint32 \<Rightarrow> uint" where
  "my_count_bits_uint32 v0 =
     (let v = v0 - (drop_bit 1 v0 AND 0x55555555);
          v = (v AND 0x33333333) + (drop_bit 2 v AND 0x33333333)
      in drop_bit 24 (((v + drop_bit 4 v) AND 0xF0F0F0F) * 0x1010101))"

(* @my_bit.h 102-105 my_count_bits *)
definition my_count_bits :: "ulonglong \<Rightarrow> uint" where
  "my_count_bits x =
     my_count_bits_uint32 (ucast x) + my_count_bits_uint32 (ucast (drop_bit 32 x))"

text \<open>The reference: the number of bit positions that are set.\<close>

definition popcount :: "'a::len word \<Rightarrow> nat" where
  "popcount w = length (filter (bit w) [0..<LENGTH('a)])"

text \<open>
  The parallel count works on the four bytes of the word at once. \<open>bytes4\<close> writes a number as
  four base-256 digits; masks, shifts, sums and differences act on the digits one by one as
  long as no digit overflows, and the action on one digit is checked for all 256 values.
\<close>

definition byte :: "int \<Rightarrow> bool" where
  "byte a \<longleftrightarrow> 0 \<le> a \<and> a < 2 ^ 8"

definition bytes4 :: "int \<Rightarrow> int \<Rightarrow> int \<Rightarrow> int \<Rightarrow> int" where
  "bytes4 a b c d = a + 2 ^ 8 * (b + 2 ^ 8 * (c + 2 ^ 8 * d))"

definition word4 :: "int \<Rightarrow> int \<Rightarrow> int \<Rightarrow> int \<Rightarrow> uint32" where
  "word4 a b c d = word_of_int (bytes4 a b c d)"

definition cb1 :: "int \<Rightarrow> int" where
  "cb1 x = x - (drop_bit 1 x AND 0x55)"
definition cb2 :: "int \<Rightarrow> int" where
  "cb2 x = (x AND 0x33) + (drop_bit 2 x AND 0x33)"
definition cb3 :: "int \<Rightarrow> int" where
  "cb3 x = (x + drop_bit 4 x) AND 0xF"
definition bits_upto :: "nat \<Rightarrow> int \<Rightarrow> int" where
  "bits_upto n x = sum_list (map (\<lambda>i. if bit x i then 1 else 0) [0..<n])"
lemma byte_steps:
  "\<forall>x \<in> {0..255}. drop_bit 1 x AND 0x55 \<le> x \<and> 0 \<le> drop_bit 1 x AND 0x55 \<and> cb1 x < 256 \<and> 0 \<le> cb1 x \<and> cb2 (cb1 x) \<le> 0x44 \<and>
     cb2 (cb1 x) mod 16 \<le> 4 \<and> 0 \<le> cb2 (cb1 x) \<and> cb3 (cb2 (cb1 x)) = bits_upto 8 x \<and> 0 \<le> bits_upto 8 x \<and> bits_upto 8 x \<le> 8"
  by code_simp
lemma shift_digit:
  fixes a r :: int assumes "0 \<le> a" "a < 2 ^ 8" "n \<le> 8"
  shows "drop_bit n (a + 2 ^ 8 * r) = (drop_bit n a + 2 ^ (8 - n) * (take_bit n r)) + 2 ^ 8 * drop_bit n r"
proof -
  have e: "(2::int) ^ 8 = 2 ^ n * 2 ^ (8 - n)" using assms(3) by (simp flip: power_add)
  have "(a + 2 ^ 8 * r) div 2 ^ n = a div 2 ^ n + 2 ^ (8 - n) * r"
    unfolding e by (simp add: mult.assoc)
  also have "2 ^ (8 - n) * r = 2 ^ (8 - n) * (r mod 2 ^ n + 2 ^ n * (r div 2 ^ n))" by simp
  also have "\<dots> = 2 ^ (8 - n) * (r mod 2 ^ n) + 2 ^ 8 * (r div 2 ^ n)"
    unfolding e by (simp only: distrib_left mult_ac)
  finally show ?thesis by (simp only: drop_bit_eq_div take_bit_eq_mod add.assoc)
qed
lemma mult_digits:
  fixes a b c d :: int
  assumes "0 \<le> a" "a \<le> 8" "0 \<le> b" "b \<le> 8" "0 \<le> c" "c \<le> 8" "0 \<le> d" "d \<le> 8"
  shows "drop_bit 24 (take_bit 32 ((a + 2 ^ 8 * (b + 2 ^ 8 * (c + 2 ^ 8 * d))) * 0x1010101)) = a + b + c + d"
proof -
  let ?lo = "a + 2 ^ 8 * (a + b) + 2 ^ 16 * (a + b + c)" and ?hi = "b + c + d + 2 ^ 8 * (c + d) + 2 ^ 16 * d"
  have "(a + 2 ^ 8 * (b + 2 ^ 8 * (c + 2 ^ 8 * d))) * 0x1010101 = ?lo + 2 ^ 24 * (a + b + c + d) + 2 ^ 32 * ?hi"
    by (simp add: algebra_simps)
  then have "take_bit 32 ((a + 2 ^ 8 * (b + 2 ^ 8 * (c + 2 ^ 8 * d))) * 0x1010101) = (?lo + 2 ^ 24 * (a + b + c + d)) mod 2 ^ 32"
    by (simp only: take_bit_eq_mod mod_mult_self2)
  also have "\<dots> = ?lo + 2 ^ 24 * (a + b + c + d)"
    using assms by (intro mod_pos_pos_trivial) simp_all
  finally show ?thesis using assms by (simp add: drop_bit_eq_div) 
qed

lemma byte_take: "byte a \<longleftrightarrow> take_bit 8 a = a"
  by (auto simp: byte_def take_bit_int_eq_self_iff)

lemma byte_concat: "byte a \<Longrightarrow> a + 2 ^ 8 * r = concat_bit 8 a r"
  by (simp add: concat_bit_eq byte_take push_bit_eq_mult)

lemma byte_and: "byte a \<Longrightarrow> byte (a AND m)" "byte a \<Longrightarrow> byte (m AND a)"
  unfolding byte_take by (metis and.assoc take_bit_eq_mask and.commute)+

lemma byte_drop: "byte a \<Longrightarrow> byte (drop_bit n a)"
  unfolding byte_take by (metis drop_bit_take_bit take_bit_take_bit min.absorb2 diff_le_self)

lemma bit_byte: "byte a \<Longrightarrow> bit a i \<Longrightarrow> i < 8"
  unfolding byte_take by (metis bit_take_bit_iff)

lemma shift_and_digit:
  assumes "byte a" and m: "take_bit (8 - n) m = m" and "n \<le> 8"
  shows "drop_bit n (a + 2 ^ 8 * r) AND (m + 2 ^ 8 * s) = (drop_bit n a AND m) + 2 ^ 8 * (drop_bit n r AND s)"
proof -
  have "byte m" unfolding byte_take using m by (metis take_bit_take_bit min.absorb2 diff_le_self)
  moreover have "byte (drop_bit n a AND m)" using assms(1) by (intro byte_and byte_drop)
  moreover have mb: "bit m i \<Longrightarrow> n + i < 8" for i
    using m assms(3) by (metis bit_take_bit_iff less_diff_conv add.commute)
  ultimately show ?thesis using assms(1,3)
    by (simp only: byte_concat) (rule bit_eqI, auto simp: bit_simps dest: bit_byte mb)
qed

lemma and_digit':
  assumes "byte a" "byte m"
  shows "(a + 2 ^ 8 * r) AND (m + 2 ^ 8 * s) = (a AND m) + 2 ^ 8 * (r AND s)"
  using assms shift_and_digit [of a 0 m r s] by (simp add: byte_take)

lemma bytes4_and:
  assumes "byte a" "byte b" "byte c" "byte m"
  shows "bytes4 a b c d AND bytes4 m m m m = bytes4 (a AND m) (b AND m) (c AND m) (d AND m)"
  using assms by (simp only: bytes4_def and_digit')

lemma bytes4_shift_and:
  assumes "byte a" "byte b" "byte c" "take_bit (8 - n) m = m" "n \<le> 8"
  shows "drop_bit n (bytes4 a b c d) AND bytes4 m m m m =
    bytes4 (drop_bit n a AND m) (drop_bit n b AND m) (drop_bit n c AND m) (drop_bit n d AND m)"
  using assms by (simp only: bytes4_def shift_and_digit)

lemma bytes4_arith:
  "bytes4 a b c d + bytes4 a' b' c' d' = bytes4 (a + a') (b + b') (c + c') (d + d')"
  "bytes4 a b c d - bytes4 a' b' c' d' = bytes4 (a - a') (b - b') (c - c') (d - d')"
  by (simp_all add: bytes4_def algebra_simps)

lemma bytes4_range:
  assumes "byte a" "byte b" "byte c" "byte d"
  shows "take_bit 32 (bytes4 a b c d) = bytes4 a b c d"
  using assms by (simp add: byte_def bytes4_def take_bit_int_eq_self_iff)

lemma bytes4_drop4:
  assumes "byte a" "byte b" "byte c"
  shows "drop_bit 4 (bytes4 a b c d) = bytes4 (drop_bit 4 a + 16 * (b mod 16))
     (drop_bit 4 b + 16 * (c mod 16)) (drop_bit 4 c + 16 * (d mod 16)) (drop_bit 4 d)"
proof -
  have tb: "take_bit 4 (x + 2 ^ 8 * r) = x mod 16" for x r :: int
    using mod_mult_self2 [of x 16 "16 * r"] by (simp add: take_bit_eq_mod algebra_simps)
  have td: "take_bit 4 x = x mod 16" for x :: int by (simp add: take_bit_eq_mod)
  show ?thesis using assms
    by (simp only: bytes4_def shift_digit byte_def tb) (simp add: td)
qed

lemma bytes4_of_uint32:
  fixes v :: "32 word"
  obtains a b c d where "uint v = bytes4 a b c d" "byte a" "byte b" "byte c" "byte d"
proof
  let ?u = "uint v"
  show "?u = bytes4 (?u mod 2 ^ 8) (?u div 2 ^ 8 mod 2 ^ 8) (?u div 2 ^ 8 div 2 ^ 8 mod 2 ^ 8)
      (?u div 2 ^ 8 div 2 ^ 8 div 2 ^ 8)"
    unfolding bytes4_def by (simp only: mod_mult_div_eq)
  have "?u < 2 ^ LENGTH(32)" by (rule uint_bounded)
  then have "?u div 2 ^ 8 div 2 ^ 8 div 2 ^ 8 < 2 ^ 8" by simp
  moreover have "0 \<le> ?u" by (rule uint_ge_0)
  ultimately show "byte (?u div 2 ^ 8 div 2 ^ 8 div 2 ^ 8)"
    by (simp add: byte_def pos_imp_zdiv_nonneg_iff)
qed (simp_all add: byte_def)

lemma bits_upto_Suc: "bits_upto (Suc n) x = bits_upto n x + (if bit x n then 1 else 0)"
  by (simp add: bits_upto_def)

lemma bits_upto_digit:
  assumes "byte a"
  shows "bits_upto (8 + n) (a + 2 ^ 8 * r) = bits_upto 8 a + bits_upto n r"
proof (induction n)
  case 0
  have "bit (a + 2 ^ 8 * r) i = bit a i" if "i < 8" for i
    using that assms by (simp only: byte_concat) (simp add: bit_concat_bit_iff)
  then show ?case unfolding bits_upto_def by (auto intro!: arg_cong [where f = sum_list])
next
  case (Suc n)
  have "bit (a + 2 ^ 8 * r) (8 + n) = bit r n"
    using assms by (simp only: byte_concat) (simp add: bit_concat_bit_iff)
  with Suc show ?case by (simp only: add_Suc_right bits_upto_Suc)
qed

lemma popcount_bits_upto: "int (popcount (w :: 'a::len word)) = bits_upto LENGTH('a) (uint w)"
proof -
  have "int (length (filter (bit w) xs)) = sum_list (map (\<lambda>i. if bit (uint w) i then 1 else 0) xs)" for xs
    by (induction xs) (auto simp: bit_uint_iff bit_imp_le_length)
  then show ?thesis by (simp add: popcount_def bits_upto_def)
qed

lemma bits_upto_bytes4:
  assumes "byte a" "byte b" "byte c"
  shows "bits_upto 32 (bytes4 a b c d) = bits_upto 8 a + bits_upto 8 b + bits_upto 8 c + bits_upto 8 d"
  using bits_upto_digit [of a 24 "b + 2 ^ 8 * (c + 2 ^ 8 * d)"] bits_upto_digit [of b 16 "c + 2 ^ 8 * d"]
    bits_upto_digit [of c 8 d] assms by (simp add: bytes4_def)

lemma cb3_shifted: "(x + (drop_bit 4 x + 16 * y)) AND 0xF = cb3 x" for x y :: int
proof -
  have "(15::int) = mask 4" by (simp add: mask_eq_exp_minus_1)
  moreover have "take_bit 4 (x + (drop_bit 4 x + 16 * y)) = take_bit 4 (x + drop_bit 4 x)"
    by (simp add: take_bit_eq_mod add.assoc [symmetric])
  ultimately show ?thesis by (simp add: cb3_def take_bit_eq_mask)
qed

lemma drop_bit_word_of_int:
  assumes "take_bit LENGTH('a) x = x"
  shows "drop_bit n (word_of_int x :: 'a::len word) = word_of_int (drop_bit n x)"
proof -
  have "bit x i \<Longrightarrow> i < LENGTH('a)" for i using assms by (metis bit_take_bit_iff)
  then show ?thesis by (intro bit_word_eqI) (auto simp: bit_simps)
qed

lemma word4_masks:
  "(0x55555555 :: 32 word) = word4 0x55 0x55 0x55 0x55"
  "(0x33333333 :: 32 word) = word4 0x33 0x33 0x33 0x33"
  "(0xF0F0F0F :: 32 word) = word4 0xF 0xF 0xF 0xF"
  by (simp_all add: word4_def bytes4_def)

lemma word4_arith:
  "word4 a b c d + word4 a' b' c' d' = word4 (a + a') (b + b') (c + c') (d + d')"
  "word4 a b c d - word4 a' b' c' d' = word4 (a - a') (b - b') (c - c') (d - d')"
  unfolding word4_def by (simp_all flip: of_int_diff of_int_add add: bytes4_arith)

lemma word4_shift_and:
  assumes "byte a" "byte b" "byte c" "byte d" "take_bit (8 - n) m = m" "n \<le> 8"
  shows "drop_bit n (word4 a b c d) AND word4 m m m m =
    word4 (drop_bit n a AND m) (drop_bit n b AND m) (drop_bit n c AND m) (drop_bit n d AND m)"
  using assms unfolding word4_def
  by (simp add: drop_bit_word_of_int bytes4_range bytes4_shift_and flip: of_int_and_eq)

lemma word4_and:
  assumes "byte a" "byte b" "byte c" "byte d" "byte m"
  shows "word4 a b c d AND word4 m m m m = word4 (a AND m) (b AND m) (c AND m) (d AND m)"
  using word4_shift_and [of a b c d 0 m] assms by (simp add: byte_take)

lemma word4_drop4:
  assumes "byte a" "byte b" "byte c" "byte d"
  shows "drop_bit 4 (word4 a b c d) = word4 (drop_bit 4 a + 16 * (b mod 16))
    (drop_bit 4 b + 16 * (c mod 16)) (drop_bit 4 c + 16 * (d mod 16)) (drop_bit 4 d + 16 * 0)"
  using assms unfolding word4_def by (simp add: drop_bit_word_of_int bytes4_range bytes4_drop4)

lemma word4_mult:
  assumes "0 \<le> a" "a \<le> 8" "0 \<le> b" "b \<le> 8" "0 \<le> c" "c \<le> 8" "0 \<le> d" "d \<le> 8"
  shows "drop_bit 24 (word4 a b c d * 0x1010101) = word_of_int (a + b + c + d)"
proof -
  have "word_of_int (take_bit LENGTH(32) y) = (word_of_int y :: 32 word)" for y
    by (rule bit_word_eqI) (simp add: bit_simps)
  then have "word4 a b c d * 0x1010101 = word_of_int (take_bit 32 (bytes4 a b c d * 0x1010101))"
    unfolding word4_def by simp
  then show ?thesis using mult_digits [OF assms]
    by (simp add: drop_bit_word_of_int bytes4_def)
qed

lemma byte_facts:
  assumes "byte x"
  shows "byte (cb1 x)" "byte (cb2 (cb1 x))" "cb2 (cb1 x) \<le> 0x44" "cb2 (cb1 x) mod 16 \<le> 4"
    "cb3 (cb2 (cb1 x)) = bits_upto 8 x" "0 \<le> bits_upto 8 x" "bits_upto 8 x \<le> 8"
  using byte_steps [THEN bspec, of x] assms by (simp_all add: byte_def)

lemma cb3_sum_byte:
  assumes "byte x" "y mod 16 \<le> 4" "cb2 (cb1 x) = z"
  shows "byte (z + (drop_bit 4 z + 16 * (y mod 16)))"
proof -
  have "0 \<le> y mod 16" by simp
  moreover have "0 \<le> z" "z \<le> 0x44" using byte_facts [OF assms(1)] assms(3) by (simp_all add: byte_def)
  moreover from this have "0 \<le> drop_bit 4 z" "drop_bit 4 z \<le> 4" by (simp_all add: drop_bit_eq_div)
  ultimately show ?thesis using assms(2) unfolding byte_def by simp
qed

lemma byte_masks: "byte 0x33" "byte 0xF"
  by (simp_all add: byte_def)

lemma word4_cb1:
  assumes "byte a" "byte b" "byte c" "byte d"
  shows "word4 a b c d - (drop_bit 1 (word4 a b c d) AND 0x55555555) = word4 (cb1 a) (cb1 b) (cb1 c) (cb1 d)"
  using assms by (simp add: word4_masks word4_shift_and word4_arith cb1_def)

lemma word4_cb2:
  assumes "byte a" "byte b" "byte c" "byte d"
  shows "(word4 a b c d AND 0x33333333) + (drop_bit 2 (word4 a b c d) AND 0x33333333) =
    word4 (cb2 a) (cb2 b) (cb2 c) (cb2 d)"
  using assms by (simp add: word4_masks word4_shift_and word4_and word4_arith cb2_def byte_masks)

lemma count_bits_word4:
  assumes b: "byte a" "byte b" "byte c" "byte d"
  shows "my_count_bits_uint32 (word4 a b c d) =
    word_of_int (bits_upto 8 a + bits_upto 8 b + bits_upto 8 c + bits_upto 8 d)"
proof -
  let ?v2 = "word4 (cb2 (cb1 a)) (cb2 (cb1 b)) (cb2 (cb1 c)) (cb2 (cb1 d))"
  have "(?v2 + drop_bit 4 ?v2) AND 0xF0F0F0F =
      word4 (bits_upto 8 a) (bits_upto 8 b) (bits_upto 8 c) (bits_upto 8 d)"
    using b cb3_sum_byte [of d 0]
    by (simp add: word4_drop4 word4_arith byte_facts word4_masks word4_and cb3_sum_byte
        cb3_shifted cb3_shifted [of _ 0, simplified] byte_masks)
  then show ?thesis unfolding my_count_bits_uint32_def Let_def
    using b by (simp only: word4_cb1 word4_cb2 byte_facts) (simp add: word4_mult byte_facts)
qed

lemma my_count_bits_uint32_correct: "unat (my_count_bits_uint32 v) = popcount v"
proof -
  obtain a b c d where v: "uint v = bytes4 a b c d" and b: "byte a" "byte b" "byte c" "byte d"
    by (rule bytes4_of_uint32)
  then have "v = word4 a b c d" by (metis word4_def word_of_int_uint)
  moreover have "int (popcount v) = bits_upto 8 a + bits_upto 8 b + bits_upto 8 c + bits_upto 8 d"
    using popcount_bits_upto [of v] bits_upto_bytes4 [of a b c d] v b by simp
  ultimately have "my_count_bits_uint32 v = word_of_nat (popcount v)"
    using count_bits_word4 [OF b] by (metis of_int_of_nat_eq)
  moreover have "popcount v \<le> length [0..<LENGTH(32)]"
    unfolding popcount_def by (rule length_filter_le)
  ultimately show ?thesis by (simp add: unsigned_of_nat take_bit_nat_eq_self)
qed

lemma popcount_halves: "popcount (x :: 64 word) = popcount (ucast x :: 32 word) + popcount (ucast (drop_bit 32 x) :: 32 word)"
proof -
  have e: "[0..<64] = [0..<32] @ map (\<lambda>i. i + 32) [0..<32]"
    using upt_add_eq_append [of 0 32 32] map_add_upt [of 32 32] by simp
  have lo: "filter (bit (ucast x :: 32 word)) [0..<32] = filter (bit x) [0..<32]"
    by (rule filter_cong) (auto simp: bit_simps)
  have hi: "filter (bit (ucast (drop_bit 32 x) :: 32 word)) [0..<32] = filter (\<lambda>i. bit x (i + 32)) [0..<32]"
    by (rule filter_cong) (auto simp: bit_simps add.commute)
  show ?thesis unfolding popcount_def by (simp add: e lo hi filter_map comp_def)
qed

lemma popcount_le: "popcount (w :: 'a::len word) \<le> LENGTH('a)"
  unfolding popcount_def using length_filter_le [of "bit w" "[0..<LENGTH('a)]"] by simp

lemma my_count_bits_popcount: "unat (my_count_bits x) = popcount x"
  unfolding my_count_bits_def popcount_halves [of x]
  using popcount_le [of "ucast x :: 32 word"] popcount_le [of "ucast (drop_bit 32 x) :: 32 word"]
  by (subst unat_plus_small) (simp_all add: my_count_bits_uint32_correct)

section \<open>Powers of two and the highest bit\<close>

(* @my_bit.h 110-138 my_round_up_to_next_power *)
definition my_round_up_to_next_power :: "uint32 \<Rightarrow> uint32" where
  "my_round_up_to_next_power v0 =
     (let v = v0 - 1;
          v = v OR drop_bit 1 v;
          v = v OR drop_bit 2 v;
          v = v OR drop_bit 4 v;
          v = v OR drop_bit 8 v;
          v = v OR drop_bit 16 v
      in v + 1)"

(* @my_bit.h 140-149 my_clear_highest_bit *)
definition my_clear_highest_bit :: "uint32 \<Rightarrow> uint32" where
  "my_clear_highest_bit v =
     (let w = drop_bit 1 v;
          w = w OR drop_bit 1 w;
          w = w OR drop_bit 2 w;
          w = w OR drop_bit 4 w;
          w = w OR drop_bit 8 w;
          w = w OR drop_bit 16 w
      in v AND w)"

text \<open>Both smear the highest set bit to the right. A window of set bits doubles at every step.\<close>

definition smeared :: "nat \<Rightarrow> 'a::len word \<Rightarrow> 'a word \<Rightarrow> bool" where
  "smeared k v w \<longleftrightarrow> (\<forall>i. bit w i \<longleftrightarrow> (\<exists>j<k. bit v (i + j)))"

lemma smeared_1: "smeared 1 v v"
  by (simp add: smeared_def)

lemma smeared_step:
  assumes "smeared k v w"
  shows "smeared (2 * k) v (w OR drop_bit k w)"
proof -
  have "(\<exists>j<k. bit v (i + j)) \<or> (\<exists>j<k. bit v (k + i + j)) \<longleftrightarrow> (\<exists>j<2 * k. bit v (i + j))" for i
  proof
    assume "\<exists>j<2 * k. bit v (i + j)"
    then obtain j where j: "j < 2 * k" "bit v (i + j)" by blast
    show "(\<exists>j<k. bit v (i + j)) \<or> (\<exists>j<k. bit v (k + i + j))"
    proof (cases "j < k")
      case False
      then have "j - k < k" "bit v (k + i + (j - k))" using j by (simp_all add: algebra_simps)
      then show ?thesis by blast
    qed (use j in blast)
  next
    assume "(\<exists>j<k. bit v (i + j)) \<or> (\<exists>j<k. bit v (k + i + j))"
    then show "\<exists>j<2 * k. bit v (i + j)"
    proof
      assume "\<exists>j<k. bit v (k + i + j)"
      then obtain j where "j < k" "bit v (k + i + j)" by blast
      then have "k + j < 2 * k" "bit v (i + (k + j))" by (simp_all add: algebra_simps)
      then show ?thesis by blast
    qed (metis trans_less_add2 mult_2)
  qed
  then show ?thesis using assms by (auto simp: smeared_def bit_simps)
qed

definition smear :: "uint32 \<Rightarrow> uint32" where
  "smear v =
     (let v = v OR drop_bit 1 v; v = v OR drop_bit 2 v; v = v OR drop_bit 4 v;
          v = v OR drop_bit 8 v in v OR drop_bit 16 v)"

lemma round_up_smear: "my_round_up_to_next_power v = smear (v - 1) + 1"
  by (simp only: my_round_up_to_next_power_def smear_def Let_def)

lemma clear_highest_smear: "my_clear_highest_bit v = v AND smear (drop_bit 1 v)"
  by (simp only: my_clear_highest_bit_def smear_def Let_def)

lemma bit_smear: "bit (smear v) i \<longleftrightarrow> (\<exists>j\<ge>i. bit v j)"
proof -
  define w1 where "w1 = v OR drop_bit 1 v"
  define w2 where "w2 = w1 OR drop_bit 2 w1"
  define w4 where "w4 = w2 OR drop_bit 4 w2"
  define w8 where "w8 = w4 OR drop_bit 8 w4"
  have "smeared 2 v w1" using smeared_step [OF smeared_1 [of v]] by (simp add: w1_def)
  then have "smeared 4 v w2" using smeared_step [of 2 v w1] by (simp add: w2_def)
  then have "smeared 8 v w4" using smeared_step [of 4 v w2] by (simp add: w4_def)
  then have "smeared 16 v w8" using smeared_step [of 8 v w4] by (simp add: w8_def)
  then have "smeared 32 v (w8 OR drop_bit 16 w8)" using smeared_step [of 16 v w8] by simp
  moreover have "smear v = w8 OR drop_bit 16 w8"
    by (simp only: smear_def Let_def w1_def w2_def w4_def w8_def)
  ultimately have "smeared 32 v (smear v)" by simp
  then have "bit (smear v) i \<longleftrightarrow> (\<exists>j<32. bit v (i + j))" by (simp add: smeared_def)
  also have "\<dots> \<longleftrightarrow> (\<exists>j\<ge>i. bit v j)"
  proof
    assume "\<exists>j\<ge>i. bit v j"
    then obtain j where "i \<le> j" "bit v j" by blast
    moreover from this have "j < LENGTH(32)" by (rule_tac bit_imp_le_length)
    ultimately show "\<exists>j<32. bit v (i + j)" by (intro exI [of _ "j - i"]) simp
  qed (metis le_add1)
  finally show ?thesis .
qed

lemma highest_bit:
  fixes v :: "'a::len word"
  assumes "2 ^ h \<le> unat v" and "unat v < 2 ^ (h + 1)"
  shows "bit v h" and "bit v j \<Longrightarrow> j \<le> h"
proof -
  have "unat v div 2 ^ h = 1" using assms by (simp add: div_nat_eqI)
  then have "bit (unat v) h" by (simp add: bit_iff_odd)
  then show "bit v h" by (simp add: bit_unsigned_iff)
  show "j \<le> h" if "bit v j"
  proof (rule ccontr)
    assume "\<not> j \<le> h"
    then have "(2::nat) ^ (h + 1) \<le> 2 ^ j" by (intro power_increasing) simp_all
    then have "unat v div 2 ^ j = 0" using assms(2) by (simp add: div_eq_0_iff)
    moreover have "bit (unat v) j" using that by (simp add: bit_unsigned_iff bit_imp_le_length)
    ultimately show False by (simp add: bit_iff_odd)
  qed
qed

lemma highest_bit_iff:
  fixes v :: "'a::len word"
  assumes "2 ^ h \<le> unat v" and "unat v < 2 ^ (h + 1)"
  shows "(\<exists>j\<ge>i. bit v j) \<longleftrightarrow> i \<le> h"
  using highest_bit [OF assms] by (meson le_trans)

lemma highest_bit_exists:
  fixes v :: uint32
  assumes "v \<noteq> 0"
  obtains h where "2 ^ h \<le> unat v" "unat v < 2 ^ (h + 1)" "h < 32"
proof
  let ?h = "unat (my_bit_log2_uint32 v)"
  have "is_log2 ?h (unat v)" by (rule log2_uint32)
  then show "2 ^ ?h \<le> unat v" "unat v < 2 ^ (?h + 1)"
    using assms by (simp_all add: is_log2_def unat_eq_zero)
  have "unat v < 2 ^ LENGTH(32)" by (rule unsigned_less)
  then show "?h < 32" using is_log2_bound [OF log2_uint32, of v 32] by simp
qed

lemma smear_mask:
  assumes "2 ^ h \<le> unat v" and "unat v < 2 ^ (h + 1)"
  shows "smear v = mask (h + 1)"
  by (rule bit_word_eqI) (simp add: bit_smear highest_bit_iff [OF assms] bit_mask_iff less_Suc_eq_le)

lemma round_up_power:
  assumes "1 < unat v" and "2 ^ h \<le> unat v - 1" and "unat v - 1 < 2 ^ (h + 1)"
  shows "my_round_up_to_next_power v = 2 ^ (h + 1)"
proof -
  have "unat (v - 1) = unat v - 1" using assms(1) by (intro unat_minus_one) auto
  then have "smear (v - 1) = mask (h + 1)" using assms(2,3) by (intro smear_mask) simp_all
  then show ?thesis by (simp add: round_up_smear mask_eq_exp_minus_1)
qed

lemma clear_highest_bit_take:
  assumes "2 ^ h \<le> unat v" and "unat v < 2 ^ (h + 1)"
  shows "my_clear_highest_bit v = take_bit h v"
proof (rule bit_word_eqI)
  fix i
  have "(\<exists>j\<ge>i. bit (drop_bit 1 v) j) \<longleftrightarrow> (\<exists>j\<ge>Suc i. bit v j)"
  proof
    assume "\<exists>j\<ge>Suc i. bit v j"
    then obtain j where "Suc i \<le> j" "bit v j" by blast
    then show "\<exists>j\<ge>i. bit (drop_bit 1 v) j"
      by (intro exI [of _ "j - 1"]) (simp add: bit_drop_bit_eq)
  qed (metis Suc_le_mono bit_drop_bit_eq comp_apply plus_1_eq_Suc)
  then have "bit (my_clear_highest_bit v) i \<longleftrightarrow> bit v i \<and> Suc i \<le> h"
    by (simp only: clear_highest_smear bit_and_iff bit_smear highest_bit_iff [OF assms])
  then show "bit (my_clear_highest_bit v) i = bit (take_bit h v) i"
    by (auto simp: bit_take_bit_iff)
qed

lemma round_up_cases:
  "my_round_up_to_next_power 0 = 0" "my_round_up_to_next_power 1 = 1"
  by code_simp+

section \<open>Reversing bits\<close>

text \<open>
  The table \<^verbatim>\<open>_my_bits_reverse_table\<close> is defined in a file outside the repository, so it is a
  parameter; \<open>reverse_table\<close> states what its name documents: entry \<open>b\<close> is the byte \<open>b\<close>
  with its bits in reverse order.
\<close>

(* @my_bit.h 151-158 my_reverse_bits *)
definition my_reverse_bits :: "(nat \<Rightarrow> uchar) \<Rightarrow> uint32 \<Rightarrow> uint32" where
  "my_reverse_bits tab key =
     push_bit 24 (ucast (tab (unat (key AND 255)))) OR
     push_bit 16 (ucast (tab (unat (drop_bit 8 key AND 255)))) OR
     push_bit 8 (ucast (tab (unat (drop_bit 16 key AND 255)))) OR
     ucast (tab (unat (drop_bit 24 key)))"

definition reverse_table :: "(nat \<Rightarrow> uchar) \<Rightarrow> bool" where
  "reverse_table tab \<longleftrightarrow> (\<forall>b<256. \<forall>i<8. bit (tab b) i = bit b (7 - i))"

lemma unat_and_255: "unat ((x :: uint32) AND 255) = take_bit 8 (unat x)"
  unfolding and_low_mask by (simp add: unsigned_take_bit_eq)

lemma reverse_byte:
  fixes x :: uint32
  assumes "reverse_table tab" and "unat y = take_bit 8 (unat x)" and "i < 8"
  shows "bit (tab (unat (y :: uint32))) i = bit x (7 - i)"
proof -
  have "take_bit 8 (unat x) < 256" using take_bit_nat_less_exp [of 8 "unat x"] by simp
  with assms have "bit (tab (unat y)) i = bit (take_bit 8 (unat x)) (7 - i)"
    by (auto simp: reverse_table_def)
  moreover have "7 - i < 8" by simp
  ultimately show ?thesis using assms(3) by (simp only: bit_take_bit_iff bit_unsigned_iff) simp
qed

lemma unat_drop_24: "unat (drop_bit 24 (key :: uint32)) = take_bit 8 (unat (drop_bit 24 key))"
proof -
  have "unat key < 2 ^ LENGTH(32)" by (rule unsigned_less)
  then show ?thesis by (simp add: unat_drop_bit take_bit_nat_eq_self)
qed

lemma my_reverse_bits_bit:
  assumes "reverse_table tab"
  shows "bit (my_reverse_bits tab key) i \<longleftrightarrow> i < 32 \<and> bit key (31 - i)"
proof -
  have byte_range: "bit (t :: uchar) k \<Longrightarrow> k < 8" for t k using bit_imp_le_length [of t k] by simp
  note r = reverse_byte [OF assms unat_and_255] reverse_byte [OF assms unat_drop_24]
  consider "i < 8" | "8 \<le> i" "i < 16" | "16 \<le> i" "i < 24" | "24 \<le> i" "i < 32" | "32 \<le> i" by linarith
  then show ?thesis
    by cases (auto simp: my_reverse_bits_def bit_simps r dest: byte_range)
qed

section \<open>Masks\<close>

text \<open>
  Shifting by a negative amount or by the width of the operand is undefined in C; the model
  of \<open>my_set_bits\<close> returns \<open>None\<close> there.
\<close>

(* @my_bit.h 160-167 my_set_bits *)
definition my_set_bits :: "int \<Rightarrow> ulonglong option" where
  "my_set_bits n =
     (if 0 \<le> n - 1 \<and> n - 1 < 64
      then Some (push_bit 1 (push_bit (nat (n - 1)) 1 - 1) OR 1) else None)"

(* @my_bit.h 169-176 last_byte_mask *)
definition last_byte_mask :: "uint \<Rightarrow> uchar" where
  "last_byte_mask bits =
     (let used = (bits - 1) AND 7 in ucast (push_bit (unat used) (2 :: uint) - 1))"

lemma push_one_minus: "push_bit k 1 - 1 = (mask k :: 'a::len word)"
  by (simp add: mask_eq_exp_minus_1 push_bit_eq_mult)

lemma my_set_bits_mask:
  assumes "k < 64"
  shows "my_set_bits (int k + 1) = Some (mask (Suc k))"
proof -
  have "push_bit 1 (mask k) OR 1 = (mask (Suc k) :: 64 word)"
    by (rule bit_word_eqI)
      (auto simp: bit_or_iff bit_push_bit_iff bit_mask_iff bit_1_iff simp del: push_bit_of_Suc_0 push_bit_Suc)
  moreover have "nat (int k + 1 - 1) = k" by simp
  ultimately show ?thesis using assms unfolding my_set_bits_def by (simp only: push_one_minus) simp
qed

lemma my_set_bits_undefined: "n < 1 \<or> 64 < n \<Longrightarrow> my_set_bits n = None"
  by (auto simp: my_set_bits_def)

lemma last_byte_mask_mask: "last_byte_mask bits = mask (Suc (unat (bits - 1) mod 8))"
proof -
  define u where "u = unat ((bits - 1) AND 7)"
  have u: "u = unat (bits - 1) mod 8"
    unfolding u_def and_low_mask unsigned_take_bit_eq by (simp add: take_bit_eq_mod)
  have "push_bit u (2 :: uint) - 1 = mask (Suc u)"
    by (simp add: mask_eq_exp_minus_1 push_bit_eq_mult mult.commute)
  moreover have "ucast (mask (Suc u) :: uint) = (mask (Suc u) :: uchar)"
    using u by (intro bit_word_eqI) (auto simp: bit_simps)
  ultimately show ?thesis unfolding last_byte_mask_def Let_def by (simp add: u_def [symmetric] u)
qed

section \<open>Position of the lowest bit\<close>

text \<open>
  The portable branch of \<open>my_find_first_bit\<close> scans the word nibble by nibble. The loop has no
  bound of its own; \<open>None\<close> is non-termination.
\<close>

(* @my_bit.h 207-210 last_bit *)
definition last_bit :: "nat list" where
  "last_bit = [32, 0, 1, 0, 2, 0, 1, 0, 3, 0, 1, 0, 2, 0, 1, 0]"

(* @my_bit.h 204-214 my_find_first_bit *)
partial_function (option) find_first_loop :: "ulonglong \<Rightarrow> nat \<Rightarrow> nat option" where
  "find_first_loop n shift =
     (let b = last_bit ! unat (drop_bit shift n AND 0xF)
      in if b = 32 then find_first_loop n (shift + 4) else Some (shift + b))"

(* @my_bit.h 182-216 my_find_first_bit *)
definition my_find_first_bit :: "ulonglong \<Rightarrow> nat option" where
  "my_find_first_bit n = (if n = 0 then Some 64 else find_first_loop n 0)"

definition lowest_bit :: "'a::len word \<Rightarrow> nat \<Rightarrow> bool" where
  "lowest_bit n k \<longleftrightarrow> bit n k \<and> (\<forall>j<k. \<not> bit n j)"

lemma last_bit_correct:
  assumes "0 < t" and "t < (16 :: int)"
  shows "last_bit ! nat t \<noteq> 32 \<and> last_bit ! nat t < 4 \<and> bit t (last_bit ! nat t) \<and>
    (\<forall>j<last_bit ! nat t. \<not> bit t j)"
proof -
  have "\<forall>t \<in> set [1..15]. last_bit ! nat t \<noteq> 32 \<and> last_bit ! nat t < 4 \<and> bit t (last_bit ! nat t) \<and>
    (\<forall>j \<in> set [0..<last_bit ! nat t]. \<not> bit t j)" by code_simp
  moreover have "t \<in> set [1..15]" using assms by simp
  ultimately have "last_bit ! nat t \<noteq> 32 \<and> last_bit ! nat t < 4 \<and> bit t (last_bit ! nat t) \<and>
    (\<forall>j \<in> set [0..<last_bit ! nat t]. \<not> bit t j)" by (rule bspec)
  then show ?thesis by simp
qed

lemma bit_nibble: "bit (uint (drop_bit s n AND 0xF)) j \<longleftrightarrow> j < 4 \<and> bit (n :: ulonglong) (s + j)"
  unfolding and_low_mask
  by (auto simp: bit_uint_iff bit_take_bit_iff bit_drop_bit_eq dest: bit_imp_le_length)

lemma nibble_lt: "uint (drop_bit s (n :: ulonglong) AND 0xF) < 16"
  using take_bit_int_less_exp [of 4 "uint (drop_bit s n)"]
  unfolding and_low_mask unsigned_take_bit_eq by simp

lemma find_first_loop_finds:
  assumes "lowest_bit n k" and "s \<le> k"
  shows "find_first_loop n s = Some k"
  using assms(2)
proof (induction "k - s" arbitrary: s rule: less_induct)
  case less
  define t where "t = uint (drop_bit s n AND 0xF)"
  have u: "unat (drop_bit s n AND 0xF) = nat t" unfolding t_def by simp
  have tb: "bit t j \<longleftrightarrow> j < 4 \<and> bit n (s + j)" for j unfolding t_def by (rule bit_nibble)
  have t16: "t < 16" "0 \<le> t" unfolding t_def using nibble_lt by simp_all
  show ?case
  proof (cases "t = 0")
    case True
    then have "\<not> bit n (s + j)" if "j < 4" for j using tb [of j] that by simp
    moreover have "bit n (s + (k - s))" using assms(1) less.prems by (simp add: lowest_bit_def)
    ultimately have "s + 4 \<le> k" using less.prems by (metis leI less_diff_conv2 add.commute)
    then show ?thesis using less.hyps [of "s + 4"] less.prems True
      by (subst find_first_loop.simps) (simp add: u Let_def last_bit_def)
  next
    case False
    let ?b = "last_bit ! nat t"
    have b: "?b \<noteq> 32" "?b < 4" "bit t ?b" "\<forall>j<?b. \<not> bit t j"
      using last_bit_correct [of t] t16 False by auto
    have "s + ?b = k"
    proof (rule antisym)
      show "s + ?b \<le> k"
      proof (rule ccontr)
        assume "\<not> s + ?b \<le> k"
        then have "k - s < ?b" using less.prems by linarith
        moreover have "bit n (s + (k - s))" using assms(1) less.prems by (simp add: lowest_bit_def)
        ultimately show False using b(2,4) tb [of "k - s"] by auto
      qed
      show "k \<le> s + ?b" using b(3) assms(1) tb [of ?b] by (meson lowest_bit_def leI)
    qed
    then show ?thesis using b(1) by (subst find_first_loop.simps) (simp add: u Let_def)
  qed
qed

lemma lowest_bit_exists: "n \<noteq> 0 \<Longrightarrow> \<exists>k. lowest_bit (n :: 'a::len word) k"
proof -
  assume "n \<noteq> 0"
  then obtain k where "bit n k" by (metis bit_0_eq bit_eq_iff bot_apply bot_bool_def)
  then show ?thesis unfolding lowest_bit_def
    by (intro exI [of _ "LEAST k. bit n k"]) (auto intro: LeastI dest: not_less_Least)
qed

lemma my_find_first_bit_lowest: "lowest_bit n k \<Longrightarrow> my_find_first_bit n = Some k"
  using find_first_loop_finds [of n k 0] by (auto simp: my_find_first_bit_def lowest_bit_def)

section \<open>Properties\<close>

text \<open>C40: \<open>my_count_bits\<close>, which counts the bits of the four bytes of each half in parallel,
  returns the number of set bit positions of its 64-bit argument.\<close>

theorem my_count_bits_correct: "unat (my_count_bits x) = popcount x"
  by (rule my_count_bits_popcount)

text \<open>\<open>my_bit_log2_size_t\<close> returns the integer part of the binary logarithm of a nonzero
  argument (so 1 for 3, where the comment above the code announces 2), and 0 for 0.\<close>

theorem my_bit_log2_correct:
  "my_bit_log2_size_t 0 = 0 \<and> my_bit_log2_size_t 3 = 1 \<and>
   (v = 0 \<or> 2 ^ unat (my_bit_log2_size_t v) \<le> unat v \<and> unat v < 2 ^ (unat (my_bit_log2_size_t v) + 1))"
proof (intro conjI)
  show "my_bit_log2_size_t 0 = 0" "my_bit_log2_size_t 3 = 1" by code_simp+
  show "v = 0 \<or> 2 ^ unat (my_bit_log2_size_t v) \<le> unat v \<and> unat v < 2 ^ (unat (my_bit_log2_size_t v) + 1)"
    using log2_uint64 [of v] by (auto simp: is_log2_def my_bit_log2_size_t_def unat_eq_zero)
qed

text \<open>\<open>my_round_up_to_next_power\<close> returns the least power of two that is not below its
  argument; for 0 and for arguments above $2^{31}$ the 32-bit result wraps to 0.\<close>

theorem my_round_up_to_next_power_correct:
  "if v = 0 \<or> 2 ^ 31 < unat v then my_round_up_to_next_power v = 0
   else \<exists>m. unat (my_round_up_to_next_power v) = 2 ^ m \<and> unat v \<le> 2 ^ m \<and> 2 ^ m < 2 * unat v"
proof -
  consider "v = 0" | "v = 1" | "1 < unat v" by (metis less_one linorder_neqE_nat unat_1 unat_eq_zero word_unat_eq_iff)
  then show ?thesis
  proof cases
    case 1
    then show ?thesis by (simp add: round_up_cases)
  next
    case 2
    then show ?thesis by (simp add: round_up_cases exI [of _ 0])
  next
    case 3
    then have u: "unat (v - 1) = unat v - 1" by (intro unat_minus_one) auto
    with 3 have "v - 1 \<noteq> 0" by (metis less_numeral_extra(3) unat_eq_zero zero_less_diff)
    then obtain h where h: "2 ^ h \<le> unat v - 1" "unat v - 1 < 2 ^ (h + 1)" "h < 32"
      using u by (metis highest_bit_exists)
    have r: "my_round_up_to_next_power v = 2 ^ (h + 1)" by (rule round_up_power [OF 3 h(1,2)])
    show ?thesis
    proof (cases "h = 31")
      case True
      have "2 ^ 31 < unat v" using h(1) 3 True by simp
      moreover have "my_round_up_to_next_power v = 0" using r True by simp
      ultimately show ?thesis by simp
    next
      case False
      then have "Suc h \<le> 31" using h(3) by simp
      then have "(2::nat) ^ Suc h \<le> 2 ^ 31" by (intro power_increasing) simp_all
      with h 3 have "\<not> 2 ^ 31 < unat v" by simp
      moreover have "unat (my_round_up_to_next_power v) = 2 ^ (h + 1)"
        using unat_exp [of "h + 1", where 'a = 32] r \<open>Suc h \<le> 31\<close> by simp
      ultimately show ?thesis using h 3 by (auto intro!: exI [of _ "h + 1"])
    qed
  qed
qed

text \<open>for every nonzero word the scan of \<open>my_find_first_bit\<close> terminates and returns the
  position of the lowest set bit; for 0 the function returns 64.\<close>

theorem my_find_first_bit_correct:
  "\<exists>k. my_find_first_bit n = Some k \<and> (if n = 0 then k = 64 else bit n k \<and> (\<forall>j<k. \<not> bit n j))"
proof (cases "n = 0")
  case False
  then obtain k where k: "lowest_bit n k" using lowest_bit_exists by blast
  then show ?thesis using False my_find_first_bit_lowest [OF k] by (auto simp: lowest_bit_def)
qed (simp add: my_find_first_bit_def)

theorem my_find_first_bit_witness:
  "\<exists>k. my_find_first_bit 12 = Some k \<and> bit (12 :: ulonglong) k \<and> k \<le> 2"
proof -
  obtain k where k: "my_find_first_bit 12 = Some k" "bit (12 :: ulonglong) k"
      "\<forall>j<k. \<not> bit (12 :: ulonglong) j"
    using my_find_first_bit_correct [of 12] by auto
  moreover have "bit (12 :: ulonglong) 2" by simp
  ultimately show ?thesis by (intro exI [of _ k]) (meson leI)
qed

text \<open>given a table that holds every byte with its bits reversed, \<open>my_reverse_bits\<close> puts
  bit \<open>31 - i\<close> of its argument at position \<open>i\<close>.\<close>

theorem my_reverse_bits_correct:
  assumes "reverse_table tab" and "i < 32"
  shows "bit (my_reverse_bits tab key) i = bit key (31 - i)"
  using assms by (simp add: my_reverse_bits_bit)

definition sample_reverse_table :: "nat \<Rightarrow> uchar" where
  "sample_reverse_table b = horner_sum of_bool 2 (map (\<lambda>i. bit b (7 - i)) [0..<8])"

theorem my_reverse_bits_witness:
  "reverse_table sample_reverse_table \<and> bit (my_reverse_bits sample_reverse_table 1) 31"
proof -
  have t: "reverse_table sample_reverse_table"
    by (simp add: reverse_table_def sample_reverse_table_def bit_horner_sum_bit_word_iff)
  with my_reverse_bits_correct [OF t, of 31 1] show ?thesis by simp
qed

end
