(* ===== verification/Sql_Bitmap.thy ===== *)
theory Sql_Bitmap
  imports My_Bit
begin

text \<open>
  The class template \<open>Bitmap<width>\<close> and the iterators of
  \<^verbatim>\<open>mariadb-fp/include/mysql/server/private/sql_bitmap.h\<close>. The template parameter \<open>width\<close> is the
  argument \<open>w\<close> of every operation; the only member of the class is the array \<open>buffer\<close>, a list
  of 64-bit words. Operations follow the release build, where \<open>DBUG_ASSERT\<close> is empty; an access
  outside the array and a shift by 64 or more are undefined and give \<open>None\<close>.
\<close>

section \<open>The class\<close>

type_synonym bitmap = "ulonglong list"

(* @sql_bitmap.h 63-68 Bitmap::BITS_PER_ELEMENT *)
definition BITS_PER_ELEMENT :: nat where
  "BITS_PER_ELEMENT = 64"

(* @sql_bitmap.h 65-65 Bitmap::ARRAY_ELEMENTS *)
definition ARRAY_ELEMENTS :: "nat \<Rightarrow> nat" where
  "ARRAY_ELEMENTS w = (w + BITS_PER_ELEMENT - 1) div BITS_PER_ELEMENT"

(* @sql_bitmap.h 66-66 Bitmap::ALL_BITS_SET *)
definition ALL_BITS_SET :: ulonglong where
  "ALL_BITS_SET = - 1"

(* @sql_bitmap.h 70-74 Bitmap::bit_index *)
definition bm_bit_index :: "nat \<Rightarrow> nat \<Rightarrow> nat" where
  "bm_bit_index w n = (if ARRAY_ELEMENTS w = 1 then 0 else n div BITS_PER_ELEMENT)"

(* @sql_bitmap.h 75-79 Bitmap::bit_mask *)
definition bm_bit_mask :: "nat \<Rightarrow> nat \<Rightarrow> ulonglong" where
  "bm_bit_mask w n =
     (if ARRAY_ELEMENTS w = 1 then push_bit n 1 else push_bit (n mod BITS_PER_ELEMENT) 1)"

(* @sql_bitmap.h 80-84 Bitmap::last_element_mask *)
definition bm_last_element_mask :: "nat \<Rightarrow> nat \<Rightarrow> ulonglong" where
  "bm_last_element_mask w n = bm_bit_mask w n - 1"

definition in_buffer :: "nat \<Rightarrow> nat \<Rightarrow> bool" where
  "in_buffer w n \<longleftrightarrow> n < BITS_PER_ELEMENT * ARRAY_ELEMENTS w"

(* @sql_bitmap.h 107-110 Bitmap::set_bit *)
definition bm_set_bit :: "nat \<Rightarrow> nat \<Rightarrow> bitmap \<Rightarrow> bitmap option" where
  "bm_set_bit w n b =
     (if in_buffer w n then Some (b[bm_bit_index w n := b ! bm_bit_index w n OR bm_bit_mask w n]) else None)"

(* @sql_bitmap.h 111-114 Bitmap::clear_bit *)
definition bm_clear_bit :: "nat \<Rightarrow> nat \<Rightarrow> bitmap \<Rightarrow> bitmap option" where
  "bm_clear_bit w n b =
     (if in_buffer w n then Some (b[bm_bit_index w n := b ! bm_bit_index w n AND NOT (bm_bit_mask w n)]) else None)"

(* @sql_bitmap.h 115-118 Bitmap::is_set *)
definition bm_is_set :: "nat \<Rightarrow> nat \<Rightarrow> bitmap \<Rightarrow> bool option" where
  "bm_is_set w n b =
     (if in_buffer w n then Some (b ! bm_bit_index w n AND bm_bit_mask w n \<noteq> 0) else None)"

(* @sql_bitmap.h 119-133 Bitmap::set_prefix *)
definition bm_set_prefix :: "nat \<Rightarrow> nat \<Rightarrow> bitmap" where
  "bm_set_prefix w prefix =
     (let prefix_size = min prefix w;
          idx = prefix_size div BITS_PER_ELEMENT;
          full = replicate idx ALL_BITS_SET;
          part = (if prefix_size mod BITS_PER_ELEMENT \<noteq> 0 then [bm_last_element_mask w prefix_size] else [])
      in full @ part @ replicate (ARRAY_ELEMENTS w - length (full @ part)) 0)"

(* @sql_bitmap.h 95-102 Bitmap::init *)
definition bm_init :: "nat \<Rightarrow> nat \<Rightarrow> bitmap" where
  "bm_init w prefix = bm_set_prefix w prefix"

(* @sql_bitmap.h 103-106 Bitmap::length *)
definition bm_length :: "nat \<Rightarrow> nat" where
  "bm_length w = w"

(* @sql_bitmap.h 134-153 Bitmap::is_prefix *)
definition bm_is_prefix :: "nat \<Rightarrow> nat \<Rightarrow> bitmap \<Rightarrow> bool" where
  "bm_is_prefix w prefix_size b =
     (let idx = prefix_size div BITS_PER_ELEMENT in
      if \<exists>x \<in> set (take idx b). x \<noteq> ALL_BITS_SET then False
      else if prefix_size mod BITS_PER_ELEMENT \<noteq> 0
      then (if b ! idx \<noteq> bm_last_element_mask w prefix_size then False
            else \<forall>x \<in> set (drop (Suc idx) b). x = 0)
      else \<forall>x \<in> set (drop idx b). x = 0)"

(* @sql_bitmap.h 154-162 Bitmap::set_all *)
definition bm_set_all :: "nat \<Rightarrow> bitmap" where
  "bm_set_all w =
     (if w mod BITS_PER_ELEMENT \<noteq> 0 then bm_set_prefix w w
      else if ARRAY_ELEMENTS w > 1 then replicate (ARRAY_ELEMENTS w) (- 1)
      else [ALL_BITS_SET])"

(* @sql_bitmap.h 163-169 Bitmap::clear_all *)
definition bm_clear_all :: "nat \<Rightarrow> bitmap" where
  "bm_clear_all w = (if ARRAY_ELEMENTS w > 1 then replicate (ARRAY_ELEMENTS w) 0 else [0])"

(* @sql_bitmap.h 170-174 Bitmap::intersect *)
definition bm_intersect :: "bitmap \<Rightarrow> bitmap \<Rightarrow> bitmap" where
  "bm_intersect b other = map (\<lambda>(x, y). x AND y) (zip b other)"

(* @sql_bitmap.h 176-191 Bitmap::intersect_and_pad *)
definition bm_intersect_and_pad :: "nat \<Rightarrow> ulonglong \<Rightarrow> bool \<Rightarrow> bitmap \<Rightarrow> bitmap" where
  "bm_intersect_and_pad w map2buff pad_with_ones b =
     (let b = b[0 := b ! 0 AND map2buff];
          b = take 1 b @ replicate (ARRAY_ELEMENTS w - 1) (if pad_with_ones then ALL_BITS_SET else 0)
      in if ARRAY_ELEMENTS w > 1 \<and> w mod BITS_PER_ELEMENT \<noteq> 0 \<and> pad_with_ones
         then b[ARRAY_ELEMENTS w - 1 := bm_last_element_mask w w] else b)"

(* @sql_bitmap.h 194-197 Bitmap::intersect(ulonglong) *)
definition bm_intersect_buff :: "nat \<Rightarrow> ulonglong \<Rightarrow> bitmap \<Rightarrow> bitmap" where
  "bm_intersect_buff w map2buff b = bm_intersect_and_pad w map2buff False b"

(* @sql_bitmap.h 198-202 Bitmap::intersect_extended *)
definition bm_intersect_extended :: "nat \<Rightarrow> ulonglong \<Rightarrow> bitmap \<Rightarrow> bitmap" where
  "bm_intersect_extended w map2buff b = bm_intersect_and_pad w map2buff (map2buff AND push_bit 63 1 \<noteq> 0) b"

(* @sql_bitmap.h 203-207 Bitmap::subtract *)
definition bm_subtract :: "bitmap \<Rightarrow> bitmap \<Rightarrow> bitmap" where
  "bm_subtract b other = map (\<lambda>(x, y). x AND NOT y) (zip b other)"

(* @sql_bitmap.h 208-212 Bitmap::merge *)
definition bm_merge :: "bitmap \<Rightarrow> bitmap \<Rightarrow> bitmap" where
  "bm_merge b other = map (\<lambda>(x, y). x OR y) (zip b other)"

(* @sql_bitmap.h 213-219 Bitmap::is_clear_all *)
definition bm_is_clear_all :: "bitmap \<Rightarrow> bool" where
  "bm_is_clear_all b = (\<forall>x \<in> set b. x = 0)"

(* @sql_bitmap.h 220-226 Bitmap::is_subset *)
definition bm_is_subset :: "bitmap \<Rightarrow> bitmap \<Rightarrow> bool" where
  "bm_is_subset b other = (\<forall>(x, y) \<in> set (zip b other). x AND NOT y = 0)"

(* @sql_bitmap.h 227-233 Bitmap::is_overlapping *)
definition bm_is_overlapping :: "bitmap \<Rightarrow> bitmap \<Rightarrow> bool" where
  "bm_is_overlapping b other = (\<exists>(x, y) \<in> set (zip b other). x AND y \<noteq> 0)"

(* @sql_bitmap.h 234-239 Bitmap::operator== *)
definition bm_eq :: "nat \<Rightarrow> bitmap \<Rightarrow> bitmap \<Rightarrow> bool" where
  "bm_eq w b other = (if ARRAY_ELEMENTS w > 1 then b = other else b ! 0 = other ! 0)"

(* @sql_bitmap.h 240-243 Bitmap::operator!= *)
definition bm_neq :: "nat \<Rightarrow> bitmap \<Rightarrow> bitmap \<Rightarrow> bool" where
  "bm_neq w b other = (\<not> bm_eq w b other)"

(* @sql_bitmap.h 269-272 Bitmap::to_ulonglong *)
definition bm_to_ulonglong :: "bitmap \<Rightarrow> ulonglong" where
  "bm_to_ulonglong b = b ! 0"

(* @sql_bitmap.h 273-279 Bitmap::bits_set *)
definition bm_bits_set :: "bitmap \<Rightarrow> uint" where
  "bm_bits_set b = foldl (\<lambda>res x. res + my_count_bits x) 0 b"

section \<open>Iterators and printing\<close>

(* @sql_bitmap.h 31-47 Table_map_iterator::next_bit *)
definition tmi_next_bit :: "ulonglong \<Rightarrow> (nat \<times> ulonglong) option" where
  "tmi_next_bit bmp =
     (if bmp = 0 then Some (64, bmp)
      else case my_find_first_bit bmp of
          None \<Rightarrow> None
        | Some b \<Rightarrow> Some (b, bmp AND NOT (push_bit b 1)))"

(* @sql_bitmap.h 280-285 Bitmap::Iterator *)
record bm_iterator =
  it_offset :: nat
  it_tmi :: ulonglong

(* @sql_bitmap.h 286-286 Bitmap::Iterator::Iterator *)
definition bm_iter_init :: "bitmap \<Rightarrow> bm_iterator" where
  "bm_iter_init b = \<lparr>it_offset = 0, it_tmi = b ! 0\<rparr>"

(* @sql_bitmap.h 287-303 Bitmap::Iterator::operator++ *)
function bm_iter_next :: "nat \<Rightarrow> bitmap \<Rightarrow> bm_iterator \<Rightarrow> (nat \<times> bm_iterator) option" where
  "bm_iter_next w b it =
     (case tmi_next_bit (it_tmi it) of
        None \<Rightarrow> None
      | Some (nextbit, bmp) \<Rightarrow>
          let it = it\<lparr>it_tmi := bmp\<rparr> in
          if nextbit \<noteq> 64 then Some (it_offset it + nextbit, it)
          else if it_offset it + BITS_PER_ELEMENT \<ge> bm_length w then Some (w, it)
          else let off = it_offset it + BITS_PER_ELEMENT
               in bm_iter_next w b \<lparr>it_offset = off, it_tmi = b ! (off div BITS_PER_ELEMENT)\<rparr>)"
  by pat_completeness auto
termination
  by (relation "measure (\<lambda>(w, b, it). w - it_offset it)")
    (auto simp: bm_length_def BITS_PER_ELEMENT_def)

declare bm_iter_next.simps [simp del]

text \<open>
  The loop a client runs: call the iterator until it returns \<open>BITMAP_END\<close>, which is the width.
  The first argument bounds the number of calls.
\<close>

fun bm_iter_collect :: "nat \<Rightarrow> nat \<Rightarrow> bitmap \<Rightarrow> bm_iterator \<Rightarrow> nat list option" where
  "bm_iter_collect 0 w b it = None"
| "bm_iter_collect (Suc calls) w b it =
     (case bm_iter_next w b it of
        None \<Rightarrow> None
      | Some (n, it') \<Rightarrow> if n = w then Some [] else map_option (Cons n) (bm_iter_collect calls w b it'))"

text \<open>
  \<open>print\<close> writes into a caller's buffer, a partial map from positions to characters. The digit
  table \<^verbatim>\<open>_dig_vec_upper\<close> and \<^verbatim>\<open>longlong2str\<close> are defined outside the repository and are parameters.
\<close>

(* @sql_bitmap.h 252-252 Bitmap::print (last non-zero element) *)
fun bm_last_nonzero :: "nat \<Rightarrow> bitmap \<Rightarrow> nat" where
  "bm_last_nonzero 0 b = 0"
| "bm_last_nonzero (Suc i) b = (if b ! Suc i \<noteq> 0 then Suc i else bm_last_nonzero i b)"

(* @sql_bitmap.h 257-264 Bitmap::print (digits of one element) *)
fun bm_print_digits :: "(nat \<Rightarrow> char) \<Rightarrow> ulonglong \<Rightarrow> nat \<Rightarrow> nat \<Rightarrow> nat \<Rightarrow> (nat \<rightharpoonup> char) \<Rightarrow> (nat \<rightharpoonup> char) option" where
  "bm_print_digits dig num shift pos 0 buf = Some buf"
| "bm_print_digits dig num shift pos (Suc k) buf =
     (if shift < 64
      then bm_print_digits dig num (shift + 4) (Suc pos) k (buf(pos \<mapsto> dig (unat (drop_bit shift num AND 0xf))))
      else None)"

(* @sql_bitmap.h 254-265 Bitmap::print (loop over elements) *)
fun bm_print_elements :: "(nat \<Rightarrow> char) \<Rightarrow> bitmap \<Rightarrow> nat \<Rightarrow> nat \<Rightarrow> (nat \<rightharpoonup> char) \<Rightarrow> (nat \<rightharpoonup> char) option" where
  "bm_print_elements dig b i 0 buf = Some buf"
| "bm_print_elements dig b i (Suc k) buf =
     (case bm_print_digits dig (b ! i) (BITS_PER_ELEMENT - 4) (i * (BITS_PER_ELEMENT div 4)) (BITS_PER_ELEMENT div 4) buf of
        None \<Rightarrow> None
      | Some buf' \<Rightarrow> bm_print_elements dig b (Suc i) k buf')"

(* @sql_bitmap.h 244-268 Bitmap::print *)
definition bm_print :: "(nat \<Rightarrow> char) \<Rightarrow> (ulonglong \<Rightarrow> nat \<Rightarrow> (nat \<rightharpoonup> char) \<Rightarrow> (nat \<rightharpoonup> char)) \<Rightarrow> nat \<Rightarrow> bitmap \<Rightarrow>
    (nat \<rightharpoonup> char) \<Rightarrow> (nat \<rightharpoonup> char) option" where
  "bm_print dig longlong2str w b buf =
     (let l = bm_last_nonzero (ARRAY_ELEMENTS w - 1) b
      in map_option (longlong2str (b ! l) 16) (bm_print_elements dig b 0 l buf))"

section \<open>The set a bitmap stands for\<close>

definition bm_bit :: "bitmap \<Rightarrow> nat \<Rightarrow> bool" where
  "bm_bit b n \<longleftrightarrow> n div 64 < length b \<and> bit (b ! (n div 64)) (n mod 64)"

definition members :: "bitmap \<Rightarrow> nat set" where
  "members b = {n. bm_bit b n}"

text \<open>Well-formed: the array has the declared length and the padding bits are clear.\<close>

definition bm_wf :: "nat \<Rightarrow> bitmap \<Rightarrow> bool" where
  "bm_wf w b \<longleftrightarrow> 0 < w \<and> length b = ARRAY_ELEMENTS w \<and> members b \<subseteq> {..<w}"

lemmas bm_consts = BITS_PER_ELEMENT_def ARRAY_ELEMENTS_def

lemma ARRAY_ELEMENTS_pos: "0 < w \<Longrightarrow> 0 < ARRAY_ELEMENTS w"
  by (simp add: bm_consts)

lemma one_element: "0 < w \<Longrightarrow> ARRAY_ELEMENTS w = 1 \<longleftrightarrow> w \<le> 64"
  by (auto simp: bm_consts)

lemma width_le: "w \<le> 64 * ARRAY_ELEMENTS w"
  unfolding bm_consts by simp

lemma div_less_elements: "(n :: nat) < 64 * k \<Longrightarrow> n div 64 < k"
  by (simp add: less_mult_imp_div_less mult.commute)

lemma members_ext: "length b = length c \<Longrightarrow> (\<And>n. n < 64 * length b \<Longrightarrow> bm_bit b n = bm_bit c n) \<Longrightarrow> b = c"
proof (rule nth_equalityI)
  fix i assume eq: "\<And>n. n < 64 * length b \<Longrightarrow> bm_bit b n = bm_bit c n" and l: "length b = length c" "i < length b"
  show "b ! i = c ! i"
  proof (rule bit_word_eqI)
    fix k assume "k < LENGTH(64)"
    then have "64 * i + k < 64 * length b" "(64 * i + k) div 64 = i" "(64 * i + k) mod 64 = k" using l by auto
    then show "bit (b ! i) k = bit (c ! i) k" using eq [of "64 * i + k"] l by (simp add: bm_bit_def)
  qed
qed

lemma bm_bit_in_range: "bm_bit b n \<Longrightarrow> n < 64 * length b"
  unfolding bm_bit_def by (simp add: div_less_iff_less_mult mult.commute)

lemma bit_index_mask:
  assumes "0 < w" and "in_buffer w n"
  shows "bm_bit_index w n = n div 64" and "bm_bit_mask w n = push_bit (n mod 64) 1"
    and "n div 64 < ARRAY_ELEMENTS w"
proof -
  have n: "n < 64 * ARRAY_ELEMENTS w" using assms(2) by (simp add: in_buffer_def BITS_PER_ELEMENT_def)
  then show "n div 64 < ARRAY_ELEMENTS w" by (rule div_less_elements)
  show "bm_bit_index w n = n div 64" "bm_bit_mask w n = push_bit (n mod 64) 1"
    using n by (auto simp: bm_bit_index_def bm_bit_mask_def BITS_PER_ELEMENT_def)
qed

lemma bit64: "bit (x :: ulonglong) n \<Longrightarrow> n < 64"
  using bit_imp_le_length [of x n] by simp

lemma bit_push_1: "bit (2 ^ k :: ulonglong) j \<longleftrightarrow> j = k \<and> k < 64"
  by (auto simp: bit_exp_iff)

lemma bm_bit_set_bit:
  assumes "0 < w" "length b = ARRAY_ELEMENTS w" "bm_set_bit w n b = Some b'"
  shows "length b' = length b" and "bm_bit b' m \<longleftrightarrow> bm_bit b m \<or> m = n"
proof -
  have n: "in_buffer w n" "b' = b[n div 64 := b ! (n div 64) OR push_bit (n mod 64) 1]"
    using assms bit_index_mask [of w n] by (auto simp: bm_set_bit_def split: if_splits)
  show "length b' = length b" using n by simp
  have "m = n \<longleftrightarrow> m div 64 = n div 64 \<and> m mod 64 = n mod 64" by (metis mod_div_mult_eq)
  then show "bm_bit b' m \<longleftrightarrow> bm_bit b m \<or> m = n"
    using n(2) bit_index_mask(3) [OF assms(1) n(1)] assms(2)
    by (auto simp: bm_bit_def nth_list_update bit_or_iff bit_push_1)
qed

lemma bm_bit_clear_bit:
  assumes "0 < w" "length b = ARRAY_ELEMENTS w" "bm_clear_bit w n b = Some b'"
  shows "length b' = length b" and "bm_bit b' m \<longleftrightarrow> bm_bit b m \<and> m \<noteq> n"
proof -
  have n: "in_buffer w n" "b' = b[n div 64 := b ! (n div 64) AND NOT (2 ^ (n mod 64))]"
    using assms bit_index_mask [of w n] by (auto simp: bm_clear_bit_def split: if_splits)
  show "length b' = length b" using n by simp
  have "m = n \<longleftrightarrow> m div 64 = n div 64 \<and> m mod 64 = n mod 64" by (metis mod_div_mult_eq)
  then show "bm_bit b' m \<longleftrightarrow> bm_bit b m \<and> m \<noteq> n"
    using n(2) bit_index_mask(3) [OF assms(1) n(1)] assms(2)
    by (auto simp: bm_bit_def nth_list_update bit_and_iff bit_not_iff bit_push_1)
qed

lemma and_push_1: "x AND (2 ^ k :: ulonglong) \<noteq> 0 \<longleftrightarrow> bit x k"
proof -
  have "x AND 2 ^ k = (if bit x k then 2 ^ k else 0)"
    by (rule bit_word_eqI) (auto simp: bit_and_iff bit_push_1)
  then show ?thesis by (auto simp: bit_exp_iff dest: bit_imp_le_length)
qed

lemma bm_is_set_bit:
  assumes "0 < w" "length b = ARRAY_ELEMENTS w" "in_buffer w n"
  shows "bm_is_set w n b = Some (bm_bit b n)"
  using assms bit_index_mask [OF assms(1,3)]
  by (simp add: bm_is_set_def bm_bit_def and_push_1)

lemma in_buffer_width: "n < w \<Longrightarrow> in_buffer w n"
  using width_le [of w] by (simp add: in_buffer_def BITS_PER_ELEMENT_def)

lemma prefix_elems:
  assumes "q \<le> w"
  shows "q mod 64 \<noteq> 0 \<Longrightarrow> q div 64 < ARRAY_ELEMENTS w" and "q div 64 \<le> ARRAY_ELEMENTS w"
proof -
  have q: "q = q div 64 * 64 + q mod 64" by simp
  show "q div 64 \<le> ARRAY_ELEMENTS w" using assms by (simp add: bm_consts div_le_mono)
  assume "q mod 64 \<noteq> 0"
  then have "Suc (q div 64) * 64 \<le> w + 63" using q assms unfolding mult_Suc by linarith
  then have "Suc (q div 64) \<le> (w + 63) div 64" by (simp only: less_eq_div_iff_mult_less_eq)
  then show "q div 64 < ARRAY_ELEMENTS w" by (simp add: bm_consts add.commute)
qed

lemma last_element_mask_mask:
  assumes "0 < n" "n \<le> w" "n mod 64 \<noteq> 0"
  shows "bm_last_element_mask w n = mask (n mod 64)"
proof (cases "ARRAY_ELEMENTS w = 1")
  case True
  then have "n \<le> 64" using assms one_element [of w] by simp
  moreover have "n \<noteq> 64" using assms(3) by auto
  ultimately have "n < 64" by simp
  then show ?thesis using True
    by (simp add: bm_last_element_mask_def bm_bit_mask_def mask_eq_exp_minus_1)
next
  case False
  then show ?thesis
    by (simp add: bm_last_element_mask_def bm_bit_mask_def BITS_PER_ELEMENT_def mask_eq_exp_minus_1)
qed

lemma set_prefix_length: "0 < w \<Longrightarrow> length (bm_set_prefix w p) = ARRAY_ELEMENTS w"
  using prefix_elems [of "min p w" w]
  by (auto simp: bm_set_prefix_def Let_def BITS_PER_ELEMENT_def)

lemma set_prefix_elem:
  assumes "0 < w" and "i < ARRAY_ELEMENTS w"
  shows "bm_set_prefix w p ! i =
    (let q = min p w in if i < q div 64 then - 1 else if i = q div 64 then mask (q mod 64) else 0)"
proof -
  let ?q = "min p w"
  have "bm_last_element_mask w ?q = mask (?q mod 64)" if "?q mod 64 \<noteq> 0"
    using that by (intro last_element_mask_mask) auto
  then show ?thesis using assms prefix_elems [of ?q w]
    by (auto simp: bm_set_prefix_def Let_def BITS_PER_ELEMENT_def ALL_BITS_SET_def nth_append nth_Cons'
        intro!: nth_replicate) linarith
qed

lemma less_by_digits: "(n :: nat) < q \<longleftrightarrow> n div 64 < q div 64 \<or> n div 64 = q div 64 \<and> n mod 64 < q mod 64"
proof -
  have "n = n div 64 * 64 + n mod 64" "q = q div 64 * 64 + q mod 64" "n mod 64 < 64" "q mod 64 < 64"
    by simp_all
  then show ?thesis by linarith
qed

lemma bm_bit_set_prefix:
  assumes "0 < w"
  shows "bm_bit (bm_set_prefix w p) n \<longleftrightarrow> n < min p w"
proof -
  define q where "q = min p w"
  have "n < q \<Longrightarrow> n div 64 < ARRAY_ELEMENTS w"
    using width_le [of w] by (intro div_less_elements) (simp add: q_def)
  moreover have "bm_bit (bm_set_prefix w p) n \<longleftrightarrow> n div 64 < ARRAY_ELEMENTS w \<and> n < q"
    using assms less_by_digits [of n q]
    by (auto simp: bm_bit_def set_prefix_length set_prefix_elem Let_def q_def bit_mask_iff
        bit_minus_1_iff split: if_splits)
  ultimately show ?thesis by (auto simp: q_def)
qed

lemma bm_bit_ops:
  assumes "length b = length c"
  shows "bm_bit (bm_intersect b c) n \<longleftrightarrow> bm_bit b n \<and> bm_bit c n"
    and "bm_bit (bm_subtract b c) n \<longleftrightarrow> bm_bit b n \<and> \<not> bm_bit c n"
    and "bm_bit (bm_merge b c) n \<longleftrightarrow> bm_bit b n \<or> bm_bit c n"
  using assms unfolding bm_intersect_def bm_subtract_def bm_merge_def
  by (auto simp: bm_bit_def bit_and_iff bit_or_iff bit_not_iff)

lemma length_ops [simp]:
  "length (bm_intersect b c) = min (length b) (length c)"
  "length (bm_subtract b c) = min (length b) (length c)"
  "length (bm_merge b c) = min (length b) (length c)"
  by (simp_all add: bm_intersect_def bm_subtract_def bm_merge_def)

lemma word_zero_iff: "x = 0 \<longleftrightarrow> (\<forall>k<64. \<not> bit (x :: ulonglong) k)"
  by (auto intro!: bit_word_eqI)

lemma bm_bit_elem: "i < length b \<Longrightarrow> k < 64 \<Longrightarrow> bit (b ! i) k \<longleftrightarrow> bm_bit b (64 * i + k)"
  by (simp add: bm_bit_def)

lemma all_bits_iff: "(\<forall>n. bm_bit b n \<longrightarrow> P n) \<longleftrightarrow> (\<forall>i<length b. \<forall>k<64. bit (b ! i) k \<longrightarrow> P (64 * i + k))"
proof
  assume r: "\<forall>i<length b. \<forall>k<64. bit (b ! i) k \<longrightarrow> P (64 * i + k)"
  show "\<forall>n. bm_bit b n \<longrightarrow> P n"
  proof (intro allI impI)
    fix n assume "bm_bit b n"
    then have "n div 64 < length b" "bit (b ! (n div 64)) (n mod 64)" by (simp_all add: bm_bit_def)
    then have "P (64 * (n div 64) + n mod 64)" using r [rule_format, of "n div 64" "n mod 64"] by simp
    then show "P n" by simp
  qed
qed (auto simp: bm_bit_elem)

lemma is_clear_all_iff: "bm_is_clear_all b \<longleftrightarrow> members b = {}"
  using all_bits_iff [of b "\<lambda>_. False"]
  by (auto simp: bm_is_clear_all_def members_def word_zero_iff all_set_conv_all_nth)

lemma is_subset_iff:
  assumes "length b = length c"
  shows "bm_is_subset b c \<longleftrightarrow> members b \<subseteq> members c"
proof -
  have "bm_is_subset b c \<longleftrightarrow> (\<forall>i<length b. \<forall>k<64. bit (b ! i) k \<longrightarrow> bm_bit c (64 * i + k))"
    using assms by (auto simp: bm_is_subset_def set_zip word_zero_iff bit_and_iff bit_not_iff bm_bit_def)
  then show ?thesis using all_bits_iff [of b "bm_bit c"] by (auto simp: members_def)
qed

lemma is_overlapping_iff:
  assumes "length b = length c"
  shows "bm_is_overlapping b c \<longleftrightarrow> members b \<inter> members c \<noteq> {}"
proof -
  have "\<not> bm_is_overlapping b c \<longleftrightarrow> (\<forall>i<length b. \<forall>k<64. bit (b ! i) k \<longrightarrow> \<not> bm_bit c (64 * i + k))"
    using assms by (auto simp: bm_is_overlapping_def set_zip word_zero_iff bit_and_iff bm_bit_def)
  then show ?thesis using all_bits_iff [of b "\<lambda>n. \<not> bm_bit c n"] by (auto simp: members_def)
qed

lemma eq_iff_members:
  assumes "bm_wf w b" "bm_wf w c"
  shows "bm_eq w b c \<longleftrightarrow> members b = members c"
proof -
  have l: "length b = ARRAY_ELEMENTS w" "length c = ARRAY_ELEMENTS w" "0 < ARRAY_ELEMENTS w"
    using assms ARRAY_ELEMENTS_pos by (auto simp: bm_wf_def)
  have "b = c" if "members b = members c"
    using that l by (intro members_ext) (auto simp: members_def)
  moreover have "bm_eq w b c \<longleftrightarrow> b = c"
  proof (cases "ARRAY_ELEMENTS w > 1")
    case False
    then have "ARRAY_ELEMENTS w = Suc 0" using l by simp
    then show ?thesis using l by (auto simp: bm_eq_def length_Suc_conv)
  qed (simp add: bm_eq_def)
  ultimately show ?thesis by blast
qed

lemma is_prefix_eq:
  assumes "0 < w" and l: "length b = ARRAY_ELEMENTS w" and "p \<le> w"
  shows "bm_is_prefix w p b \<longleftrightarrow> b = bm_set_prefix w p"
proof -
  have m: "bm_last_element_mask w p = mask (p mod 64)" if "p mod 64 \<noteq> 0"
    using assms(3) that by (intro last_element_mask_mask) auto
  have "b = bm_set_prefix w p \<longleftrightarrow> (\<forall>i<length b. b ! i = bm_set_prefix w p ! i)"
    using assms by (auto simp: set_prefix_length list_eq_iff_nth_eq)
  also have "\<dots> \<longleftrightarrow> (\<forall>i<length b. b ! i =
      (if i < p div 64 then - 1 else if i = p div 64 then mask (p mod 64) else 0))"
    using assms by (simp add: set_prefix_elem min_absorb1 Let_def)
  also have "\<dots> \<longleftrightarrow> bm_is_prefix w p b"
  proof -
    let ?d = "p div 64"
    have t: "(\<forall>x \<in> set (take ?d b). x = - 1) \<longleftrightarrow> (\<forall>i<?d. b ! i = - 1)"
      using prefix_elems(2) [OF assms(3)] l by (intro all_set_take) simp
    show ?thesis
    proof (cases "p mod 64 = 0")
      case True
      then have "bm_is_prefix w p b \<longleftrightarrow> (\<forall>i<?d. b ! i = - 1) \<and> (\<forall>i<length b. ?d \<le> i \<longrightarrow> b ! i = 0)"
        using t by (auto simp: bm_is_prefix_def Let_def BITS_PER_ELEMENT_def ALL_BITS_SET_def all_set_drop)
      moreover have "?d \<le> length b" using prefix_elems(2) [OF assms(3)] l by simp
      ultimately show ?thesis unfolding True mask_0
        by (intro iffI conjI allI impI) (auto simp: not_less split: if_splits dest: less_le_trans)
    next
      case False
      then have "bm_is_prefix w p b \<longleftrightarrow> (\<forall>i<?d. b ! i = - 1) \<and> b ! ?d = mask (p mod 64) \<and>
          (\<forall>i<length b. Suc ?d \<le> i \<longrightarrow> b ! i = 0)"
        using t m by (auto simp: bm_is_prefix_def Let_def BITS_PER_ELEMENT_def ALL_BITS_SET_def all_set_drop)
      moreover have "?d < length b" using prefix_elems(1) [OF assms(3) False] l by simp
      ultimately show ?thesis
        by (intro iffI conjI allI impI) (auto simp: not_less split: if_splits dest: less_trans)
    qed
  qed
  finally show ?thesis by blast
qed

lemma is_prefix_iff:
  assumes "bm_wf w b" and "p \<le> w"
  shows "bm_is_prefix w p b \<longleftrightarrow> members b = {..<p}"
proof -
  have "b = bm_set_prefix w p \<longleftrightarrow> members b = {..<p}"
    using assms
    by (auto simp: bm_wf_def members_def bm_bit_set_prefix set_prefix_length intro!: members_ext)
  then show ?thesis using assms is_prefix_eq [of w b p] by (simp add: bm_wf_def)
qed

lemma members_Cons: "members (x # b) = {k. bit x k} \<union> (\<lambda>n. n + 64) ` members b"
proof -
  have "bm_bit (x # b) n \<longleftrightarrow> bit x n \<or> 64 \<le> n \<and> bm_bit b (n - 64)" for n
  proof (cases "n < 64")
    case False
    then obtain m where "n = m + 64" by (metis le_add_diff_inverse2 not_less)
    moreover have "(m + 64) div 64 = Suc (m div 64)" by simp
    ultimately show ?thesis using bit_imp_le_length [of x n] by (auto simp: bm_bit_def)
  qed (auto simp: bm_bit_def)
  then have "members (x # b) = {k. bit x k} \<union> {n. 64 \<le> n \<and> n - 64 \<in> members b}"
    by (auto simp: members_def)
  also have "{n. 64 \<le> n \<and> n - 64 \<in> members b} = (\<lambda>n. n + 64) ` members b"
  proof (intro equalityI subsetI)
    fix n assume "n \<in> {n. 64 \<le> n \<and> n - 64 \<in> members b}"
    then show "n \<in> (\<lambda>n. n + 64) ` members b" by (intro image_eqI [of _ _ "n - 64"]) simp_all
  qed auto
  finally show ?thesis .
qed

lemma members_Nil: "members [] = {}"
  by (simp add: members_def bm_bit_def)

lemma popcount_card: "popcount (x :: ulonglong) = card {k. bit x k}"
proof -
  have "{k. bit x k} = set (filter (bit x) [0..<64])" using bit_imp_le_length [of x] by auto
  then show ?thesis by (simp add: popcount_def distinct_card [symmetric] del: set_filter)
qed

lemma finite_members: "finite (members b)"
  by (rule finite_subset [of _ "{..<64 * length b}"]) (auto simp: members_def dest: bm_bit_in_range)

lemma card_members: "card (members b) = sum_list (map popcount b)"
proof (induction b)
  case (Cons x b)
  have "{k. bit x k} \<inter> (\<lambda>n. n + 64) ` members b = {}" using bit_imp_le_length [of x] by force
  then show ?case using Cons finite_members [of "[x]"]
    by (simp add: members_Cons members_Nil card_Un_disjoint finite_members popcount_card card_image)
qed (simp add: members_Nil)

lemma foldl_count:
  assumes "unat r + sum_list (map popcount b) < 2 ^ 32"
  shows "unat (foldl (\<lambda>res x. res + my_count_bits x) r b) = unat r + sum_list (map popcount b)"
  using assms
proof (induction b arbitrary: r)
  case (Cons x b)
  then have "unat (r + my_count_bits x) = unat r + popcount x"
    by (subst unat_plus_small) (simp_all add: my_count_bits_popcount)
  then show ?case using Cons by simp
qed simp

lemma bits_set_card:
  assumes "64 * length b < 2 ^ 32"
  shows "unat (bm_bits_set b) = card (members b)"
proof -
  have "sum_list (map popcount b) \<le> 64 * length b"
    by (induction b) (use popcount_le [where 'a = 64] in \<open>auto simp: add_mono\<close>)
  then show ?thesis using assms foldl_count [of 0 b] by (simp add: bm_bits_set_def card_members)
qed

section \<open>Iteration\<close>

definition iter_rest :: "bitmap \<Rightarrow> bm_iterator \<Rightarrow> nat set" where
  "iter_rest b it = {it_offset it + k | k. bit (it_tmi it) k} \<union> {n. it_offset it + 64 \<le> n \<and> bm_bit b n}"

definition iter_ok :: "nat \<Rightarrow> bm_iterator \<Rightarrow> bool" where
  "iter_ok w it \<longleftrightarrow> 64 dvd it_offset it \<and> it_offset it < w"

lemma tmi_next_bit_0: "tmi_next_bit 0 = Some (64, 0)"
  by (simp add: tmi_next_bit_def)

lemma tmi_next_bit_lowest:
  assumes "lowest_bit bmp k"
  shows "tmi_next_bit bmp = Some (k, bmp AND NOT (2 ^ k))" and "k < 64" and "bmp \<noteq> 0"
  using assms my_find_first_bit_lowest [OF assms] bit_imp_le_length [of bmp k]
  by (auto simp: tmi_next_bit_def lowest_bit_def)

lemma iter_next_element:
  assumes "lowest_bit (it_tmi it) k"
  shows "bm_iter_next w b it = Some (it_offset it + k, it\<lparr>it_tmi := it_tmi it AND NOT (2 ^ k)\<rparr>)"
  using tmi_next_bit_lowest [OF assms] by (simp add: bm_iter_next.simps [of w b it])

lemma iter_next_skip:
  assumes "it_tmi it = 0" and "it_offset it + 64 < w"
  shows "bm_iter_next w b it =
    bm_iter_next w b \<lparr>it_offset = it_offset it + 64, it_tmi = b ! ((it_offset it + 64) div 64)\<rparr>"
  using assms by (simp add: Let_def bm_iter_next.simps [of w b it] tmi_next_bit_0 bm_length_def BITS_PER_ELEMENT_def)

lemma iter_next_end:
  assumes "it_tmi it = 0" and "w \<le> it_offset it + 64"
  shows "bm_iter_next w b it = Some (w, it)"
  using assms by (simp add: bm_iter_next.simps [of w b it] tmi_next_bit_0 bm_length_def BITS_PER_ELEMENT_def)

lemma iter_rest_lowest:
  assumes "lowest_bit (it_tmi it) k"
  shows "Min (iter_rest b it) = it_offset it + k" and "it_offset it + k \<in> iter_rest b it"
    and "iter_rest b (it\<lparr>it_tmi := it_tmi it AND NOT (2 ^ k)\<rparr>) = iter_rest b it - {it_offset it + k}"
proof -
  have k: "bit (it_tmi it) k" "\<And>j. bit (it_tmi it) j \<Longrightarrow> k \<le> j" "k < 64"
    using assms tmi_next_bit_lowest(2) [OF assms] by (auto simp: lowest_bit_def not_less [symmetric])
  show "it_offset it + k \<in> iter_rest b it" using k by (auto simp: iter_rest_def)
  moreover have "finite (iter_rest b it)"
    by (rule finite_subset [of _ "{..<it_offset it + 64} \<union> members b"])
      (auto simp: iter_rest_def members_def finite_members [unfolded members_def] dest: bit_imp_le_length)
  ultimately show "Min (iter_rest b it) = it_offset it + k"
    using k by (intro Min_eqI) (auto simp: iter_rest_def)
  show "iter_rest b (it\<lparr>it_tmi := it_tmi it AND NOT (2 ^ k)\<rparr>) = iter_rest b it - {it_offset it + k}"
    using k by (auto simp: iter_rest_def bit_and_iff bit_not_iff bit_push_1 dest: bit64)
qed

lemma iter_rest_skip:
  assumes "it_tmi it = 0" and "64 dvd it_offset it" and "it_offset it + 64 < 64 * length b"
  shows "iter_rest b \<lparr>it_offset = it_offset it + 64, it_tmi = b ! ((it_offset it + 64) div 64)\<rparr> = iter_rest b it"
proof -
  obtain q where q: "it_offset it = 64 * q" using assms(2) by auto
  have "{64 * q + 64 + k | k. bit (b ! Suc q) k} = {n. 64 * q + 64 \<le> n \<and> n < 64 * q + 128 \<and> bm_bit b n}"
  proof (intro equalityI subsetI)
    fix n assume "n \<in> {64 * q + 64 + k | k. bit (b ! Suc q) k}"
    then obtain k where "n = 64 * Suc q + k" "bit (b ! Suc q) k" by auto
    moreover from this have "k < LENGTH(64)" by (rule_tac bit_imp_le_length)
    ultimately show "n \<in> {n. 64 * q + 64 \<le> n \<and> n < 64 * q + 128 \<and> bm_bit b n}"
      using assms(3) q bm_bit_elem [of "Suc q" b k] by simp
  next
    fix n assume n: "n \<in> {n. 64 * q + 64 \<le> n \<and> n < 64 * q + 128 \<and> bm_bit b n}"
    then obtain k where k: "n = 64 * Suc q + k" by (metis (no_types, lifting) le_Suc_ex mem_Collect_eq mult_Suc_right add.commute)
    with n show "n \<in> {64 * q + 64 + k | k. bit (b ! Suc q) k}"
      using assms(3) q bm_bit_elem [of "Suc q" b k] by auto
  qed
  then show ?thesis using assms(1) q by (auto simp: iter_rest_def)
qed

lemma iter_next_correct:
  assumes "iter_ok w it" and l: "length b = ARRAY_ELEMENTS w" and m: "members b \<subseteq> {..<w}"
  shows "if iter_rest b it = {} then \<exists>it'. bm_iter_next w b it = Some (w, it')
    else \<exists>it'. bm_iter_next w b it = Some (Min (iter_rest b it), it') \<and> iter_ok w it' \<and>
      iter_rest b it' = iter_rest b it - {Min (iter_rest b it)}"
  using assms(1)
proof (induction "w - it_offset it" arbitrary: it rule: less_induct)
  case less
  show ?case
  proof (cases "it_tmi it = 0")
    case False
    then obtain k where k: "lowest_bit (it_tmi it) k" using lowest_bit_exists by blast
    then show ?thesis using iter_next_element [OF k, of w b] iter_rest_lowest [OF k, of b] less.prems
      by (auto simp: iter_ok_def)
  next
    case True
    show ?thesis
    proof (cases "it_offset it + 64 < w")
      case False
      then have "iter_rest b it = {}" using True m by (auto simp: iter_rest_def members_def)
      then show ?thesis using iter_next_end [of it w b] True False by simp
    next
      case skip: True
      let ?it = "\<lparr>it_offset = it_offset it + 64, it_tmi = b ! ((it_offset it + 64) div 64)\<rparr>"
      have "iter_ok w ?it" using less.prems skip by (simp add: iter_ok_def)
      then have IH: "if iter_rest b ?it = {} then \<exists>it'. bm_iter_next w b ?it = Some (w, it')
          else \<exists>it'. bm_iter_next w b ?it = Some (Min (iter_rest b ?it), it') \<and> iter_ok w it' \<and>
            iter_rest b it' = iter_rest b ?it - {Min (iter_rest b ?it)}"
        using less.prems skip by (intro less.hyps) (simp_all add: iter_ok_def)
      have eq: "iter_rest b ?it = iter_rest b it"
        using less.prems skip True l width_le [of w] by (intro iter_rest_skip) (auto simp: iter_ok_def)
      show ?thesis using IH unfolding eq iter_next_skip [OF True skip, of b] .
    qed
  qed
qed

lemma iter_rest_bound:
  assumes "iter_ok w it" and "members b \<subseteq> {..<w}" and "iter_rest b it \<subseteq> {..<w}"
  shows "w \<notin> iter_rest b it"
  using assms(3) by auto

lemma iter_collect_correct:
  assumes "iter_ok w it" and "length b = ARRAY_ELEMENTS w" and "members b \<subseteq> {..<w}"
    and "iter_rest b it \<subseteq> {..<w}" and "card (iter_rest b it) < calls"
  shows "bm_iter_collect calls w b it = Some (sorted_list_of_set (iter_rest b it))"
  using assms(1,4,5)
proof (induction calls arbitrary: it)
  case (Suc calls)
  note step = iter_next_correct [OF Suc.prems(1) assms(2,3)]
  have fin: "finite (iter_rest b it)" using Suc.prems(2) by (rule finite_subset) simp
  show ?case
  proof (cases "iter_rest b it = {}")
    case False
    let ?m = "Min (iter_rest b it)"
    have mem: "?m \<in> iter_rest b it" using fin False by (rule Min_in)
    obtain it' where it': "bm_iter_next w b it = Some (?m, it')" "iter_ok w it'"
        "iter_rest b it' = iter_rest b it - {?m}"
      using step False by auto
    have "?m \<noteq> w" using mem Suc.prems(2) by auto
    moreover have "bm_iter_collect calls w b it' = Some (sorted_list_of_set (iter_rest b it'))"
      using it' Suc.prems mem card_Diff1_less [OF fin mem] by (intro Suc.IH) auto
    ultimately show ?thesis using it' sorted_list_of_set_nonempty [OF fin False] by simp
  qed (use step in auto)
qed simp

lemma iter_init_rest:
  assumes "bm_wf w b"
  shows "iter_ok w (bm_iter_init b)" and "iter_rest b (bm_iter_init b) = members b"
proof -
  have "0 < length b" using assms ARRAY_ELEMENTS_pos by (auto simp: bm_wf_def)
  then have h: "bit (b ! 0) n \<longleftrightarrow> n < 64 \<and> bm_bit b n" for n
    by (cases "n < 64") (auto simp: bm_bit_def dest: bit64)
  have "{k. bit (b ! 0) k} \<union> {n. 64 \<le> n \<and> bm_bit b n} = {n. bm_bit b n}"
    unfolding h by auto
  then show "iter_rest b (bm_iter_init b) = members b"
    by (simp add: iter_rest_def bm_iter_init_def members_def)
  show "iter_ok w (bm_iter_init b)" using assms by (simp add: iter_ok_def bm_iter_init_def bm_wf_def)
qed

section \<open>Every operation keeps the representation and acts as the set operation\<close>

lemma bm_wfD: "bm_wf w b \<Longrightarrow> 0 < w \<and> length b = ARRAY_ELEMENTS w"
  by (simp add: bm_wf_def)

lemma set_bit_set:
  assumes "bm_wf w b" and "n < w"
  shows "\<exists>b'. bm_set_bit w n b = Some b' \<and> bm_wf w b' \<and> members b' = insert n (members b)"
proof -
  obtain b' where b': "bm_set_bit w n b = Some b'"
    using in_buffer_width [OF assms(2)] by (simp add: bm_set_bit_def)
  then show ?thesis using assms bm_bit_set_bit [of w b n b'] by (auto simp: bm_wf_def members_def)
qed

lemma clear_bit_set:
  assumes "bm_wf w b" and "n < w"
  shows "\<exists>b'. bm_clear_bit w n b = Some b' \<and> bm_wf w b' \<and> members b' = members b - {n}"
proof -
  obtain b' where b': "bm_clear_bit w n b = Some b'"
    using in_buffer_width [OF assms(2)] by (simp add: bm_clear_bit_def)
  then show ?thesis using assms bm_bit_clear_bit [of w b n b'] by (auto simp: bm_wf_def members_def)
qed

lemma is_set_set: "bm_wf w b \<Longrightarrow> n < w \<Longrightarrow> bm_is_set w n b = Some (n \<in> members b)"
  using bm_is_set_bit [of w b n] in_buffer_width [of n w] by (simp add: bm_wf_def members_def)

lemma set_ops:
  assumes "bm_wf w b" and "bm_wf w c"
  shows "bm_wf w (bm_intersect b c) \<and> members (bm_intersect b c) = members b \<inter> members c"
    and "bm_wf w (bm_merge b c) \<and> members (bm_merge b c) = members b \<union> members c"
    and "bm_wf w (bm_subtract b c) \<and> members (bm_subtract b c) = members b - members c"
  using assms bm_bit_ops [of b c] by (auto simp: bm_wf_def members_def)

lemma set_prefix_set:
  "0 < w \<Longrightarrow> bm_wf w (bm_set_prefix w p) \<and> members (bm_set_prefix w p) = {..<min p w}"
  by (auto simp: bm_wf_def members_def bm_bit_set_prefix set_prefix_length)

lemma replicate_ones: "w mod 64 = 0 \<Longrightarrow> 0 < w \<Longrightarrow> replicate (ARRAY_ELEMENTS w) (- 1) = bm_set_prefix w w"
  using prefix_elems(2) [of w w]
  by (auto simp: bm_set_prefix_def Let_def BITS_PER_ELEMENT_def ALL_BITS_SET_def ARRAY_ELEMENTS_def)

lemma set_all_set: "0 < w \<Longrightarrow> bm_wf w (bm_set_all w) \<and> members (bm_set_all w) = {..<w}"
proof -
  assume w: "0 < w"
  have "bm_set_all w = bm_set_prefix w w"
    using w replicate_ones [of w] ARRAY_ELEMENTS_pos [OF w]
    by (cases "ARRAY_ELEMENTS w = 1") (auto simp: bm_set_all_def BITS_PER_ELEMENT_def ALL_BITS_SET_def)
  then show ?thesis using set_prefix_set [OF w, of w] by simp
qed

lemma clear_all_set: "0 < w \<Longrightarrow> bm_wf w (bm_clear_all w) \<and> members (bm_clear_all w) = {}"
proof -
  assume w: "0 < w"
  have "bm_clear_all w = replicate (ARRAY_ELEMENTS w) 0"
    using ARRAY_ELEMENTS_pos [OF w] by (cases "ARRAY_ELEMENTS w = 1") (auto simp: bm_clear_all_def)
  then show ?thesis using w by (auto simp: bm_wf_def members_def bm_bit_def)
qed

lemma ARRAY_ELEMENTS_div: "ARRAY_ELEMENTS w = w div 64 + (if w mod 64 = 0 then 0 else 1)"
proof -
  have "w + 64 - 1 = w mod 64 + 63 + 64 * (w div 64)" by simp
  then have "ARRAY_ELEMENTS w = (w mod 64 + 63) div 64 + w div 64"
    unfolding bm_consts by (simp only: div_mult_self2 zero_neq_numeral not_False_eq_True add.commute)
  moreover have "(w mod 64 + 63) div 64 = 1" if "w mod 64 \<noteq> 0"
  proof (rule div_nat_eqI)
    have "w mod 64 < 64" by simp
    with that show "64 * 1 \<le> w mod 64 + 63" "w mod 64 + 63 < 64 * Suc 1" by simp_all
  qed
  ultimately show ?thesis by simp
qed

lemma intersect_and_pad_elem:
  assumes "bm_wf w b" and "i < ARRAY_ELEMENTS w"
  shows "bm_intersect_and_pad w m pad b ! i =
    (if i = 0 then b ! 0 AND m else if pad then bm_set_prefix w w ! i else 0)"
    and "length (bm_intersect_and_pad w m pad b) = ARRAY_ELEMENTS w"
proof -
  have w: "0 < w" "length b = ARRAY_ELEMENTS w" "0 < ARRAY_ELEMENTS w"
    using assms ARRAY_ELEMENTS_pos by (auto simp: bm_wf_def)
  show "length (bm_intersect_and_pad w m pad b) = ARRAY_ELEMENTS w"
    using w by (auto simp: bm_intersect_and_pad_def Let_def)
  have ae: "w mod 64 \<noteq> 0 \<Longrightarrow> w div 64 = ARRAY_ELEMENTS w - 1" "w mod 64 = 0 \<Longrightarrow> w div 64 = ARRAY_ELEMENTS w"
    by (simp_all add: ARRAY_ELEMENTS_div)
  have "bm_last_element_mask w w = mask (w mod 64)" if "w mod 64 \<noteq> 0"
    using w that by (intro last_element_mask_mask) auto
  then show "bm_intersect_and_pad w m pad b ! i =
      (if i = 0 then b ! 0 AND m else if pad then bm_set_prefix w w ! i else 0)"
    using w assms(2) ae
    by (auto simp: bm_intersect_and_pad_def Let_def BITS_PER_ELEMENT_def ALL_BITS_SET_def nth_append
        set_prefix_elem nth_list_update)
qed

lemma intersect_and_pad_set:
  assumes "bm_wf w b"
  shows "bm_wf w (bm_intersect_and_pad w m pad b) \<and>
    members (bm_intersect_and_pad w m pad b) =
      {n \<in> members b. bit m n} \<union> (if pad then {64..<w} else {})"
proof -
  have w: "0 < w" "length b = ARRAY_ELEMENTS w" "0 < ARRAY_ELEMENTS w" "members b \<subseteq> {..<w}"
    using assms ARRAY_ELEMENTS_pos by (auto simp: bm_wf_def)
  have "bm_bit (bm_intersect_and_pad w m pad b) n \<longleftrightarrow>
      (bm_bit b n \<and> bit m n) \<or> (pad \<and> 64 \<le> n \<and> n < w)" for n
  proof (cases "n < 64")
    case True
    then show ?thesis using w intersect_and_pad_elem [OF assms, of 0 m pad] by (simp add: bm_bit_def bit_and_iff)
  next
    case False
    then have "n div 64 \<noteq> 0" by (simp add: div_eq_0_iff)
    moreover have "\<not> bit m n" using False by (auto dest: bit64)
    ultimately show ?thesis
      using w intersect_and_pad_elem [OF assms, of "n div 64" m pad] False
        intersect_and_pad_elem(2) [OF assms w(3), of m pad]
        bm_bit_set_prefix [OF w(1), of w n] set_prefix_length [OF w(1), of w]
      by (cases pad) (auto simp: bm_bit_def)
  qed
  then show ?thesis using w intersect_and_pad_elem(2) [OF assms w(3), of m pad]
    by (auto simp: bm_wf_def members_def)
qed

section \<open>The set interface\<close>

text \<open>
  What the query optimizer relies on: the class is a set of numbers below a fixed width. The
  laws are stated once over an abstract carrier; the facts a client uses follow from them.
\<close>

locale fixed_width_set =
  fixes wf :: "'b \<Rightarrow> bool" and elems :: "'b \<Rightarrow> nat set" and width :: nat
    and add rem :: "nat \<Rightarrow> 'b \<Rightarrow> 'b option" and has :: "nat \<Rightarrow> 'b \<Rightarrow> bool option"
    and inter union diff :: "'b \<Rightarrow> 'b \<Rightarrow> 'b" and subset overlap same :: "'b \<Rightarrow> 'b \<Rightarrow> bool"
  assumes add: "wf b \<Longrightarrow> n < width \<Longrightarrow> \<exists>b'. add n b = Some b' \<and> wf b' \<and> elems b' = insert n (elems b)"
    and rem: "wf b \<Longrightarrow> n < width \<Longrightarrow> \<exists>b'. rem n b = Some b' \<and> wf b' \<and> elems b' = elems b - {n}"
    and has: "wf b \<Longrightarrow> n < width \<Longrightarrow> has n b = Some (n \<in> elems b)"
    and inter: "wf b \<Longrightarrow> wf c \<Longrightarrow> wf (inter b c) \<and> elems (inter b c) = elems b \<inter> elems c"
    and union: "wf b \<Longrightarrow> wf c \<Longrightarrow> wf (union b c) \<and> elems (union b c) = elems b \<union> elems c"
    and diff: "wf b \<Longrightarrow> wf c \<Longrightarrow> wf (diff b c) \<and> elems (diff b c) = elems b - elems c"
    and subset: "wf b \<Longrightarrow> wf c \<Longrightarrow> subset b c \<longleftrightarrow> elems b \<subseteq> elems c"
    and overlap: "wf b \<Longrightarrow> wf c \<Longrightarrow> overlap b c \<longleftrightarrow> elems b \<inter> elems c \<noteq> {}"
    and same: "wf b \<Longrightarrow> wf c \<Longrightarrow> same b c \<longleftrightarrow> elems b = elems c"
begin

lemma has_after_add:
  "wf b \<Longrightarrow> n < width \<Longrightarrow> m < width \<Longrightarrow>
    \<exists>b'. add n b = Some b' \<and> wf b' \<and> has m b' = (if m = n then Some True else has m b)"
  using add [of b n] by (auto simp: has)

lemma has_after_rem:
  "wf b \<Longrightarrow> n < width \<Longrightarrow> m < width \<Longrightarrow>
    \<exists>b'. rem n b = Some b' \<and> wf b' \<and> has m b' = (if m = n then Some False else has m b)"
  using rem [of b n] by (auto simp: has)

lemma diff_disjoint: "wf b \<Longrightarrow> wf c \<Longrightarrow> \<not> overlap (diff b c) c"
  using diff [of b c] by (auto simp: overlap)

lemma split_parts: "wf b \<Longrightarrow> wf c \<Longrightarrow> same (union (diff b c) (inter b c)) b"
  using diff [of b c] inter [of b c] union [of "diff b c" "inter b c"] by (auto simp: same)

lemma subset_union_iff: "wf b \<Longrightarrow> wf c \<Longrightarrow> subset b c \<longleftrightarrow> same (union b c) c"
  using union [of b c] by (auto simp: subset same)

end

interpretation bm: fixed_width_set "bm_wf w" members w "bm_set_bit w" "bm_clear_bit w" "bm_is_set w"
    bm_intersect bm_merge bm_subtract bm_is_subset bm_is_overlapping "bm_eq w"
  by unfold_locales
    (simp_all add: set_bit_set clear_bit_set is_set_set set_ops is_subset_iff is_overlapping_iff
      eq_iff_members bm_wfD)

section \<open>Printing\<close>

lemma print_digits_undefined: "bm_print_digits dig num 60 pos 16 buf = None"
  by (simp add: numeral_eq_Suc)

lemma last_nonzero_pos: "0 < i \<Longrightarrow> i \<le> k \<Longrightarrow> b ! i \<noteq> 0 \<Longrightarrow> 0 < bm_last_nonzero k b"
  by (induction k) (auto simp: le_Suc_eq)

lemma print_elements_undefined: "0 < k \<Longrightarrow> bm_print_elements dig b i k buf = None"
  by (cases k) (simp_all add: BITS_PER_ELEMENT_def print_digits_undefined)

section \<open>Properties\<close>

text \<open>on well-formed bitmaps of any width, setting or clearing a bit below the width
  succeeds, keeps the bitmap well formed, and changes the answer of \<open>is_set\<close> for exactly that
  bit.\<close>

theorem bitmap_set_clear_is_set:
  assumes "bm_wf w b" and "n < w" and "m < w"
  shows "(\<exists>b'. bm_set_bit w n b = Some b' \<and> bm_wf w b' \<and>
            bm_is_set w m b' = (if m = n then Some True else bm_is_set w m b)) \<and>
         (\<exists>b'. bm_clear_bit w n b = Some b' \<and> bm_wf w b' \<and>
            bm_is_set w m b' = (if m = n then Some False else bm_is_set w m b))"
  using bm.has_after_add [OF assms] bm.has_after_rem [OF assms] by blast

lemma wf_clear_all_70: "bm_wf 70 [0, 0]"
  using clear_all_set [of 70] by (simp add: bm_clear_all_def bm_consts numeral_2_eq_2)

lemma members_clear_70: "members [0, 0] = {}"
  using is_clear_all_iff [of "[0, 0]"] by (simp add: bm_is_clear_all_def)

theorem bitmap_set_clear_is_set_witness:
  "bm_wf 70 [0, 0] \<and> (\<exists>b'. bm_set_bit 70 66 [0, 0] = Some b' \<and> bm_wf 70 b' \<and> bm_is_set 70 66 b' = Some True)"
  using bitmap_set_clear_is_set [OF wf_clear_all_70, of 66 66] wf_clear_all_70 by auto

text \<open>C32: the word-wise loops of \<open>intersect\<close>, \<open>merge\<close>, \<open>subtract\<close>, \<open>is_subset\<close>,
  \<open>is_overlapping\<close>, \<open>==\<close>, \<open>is_clear_all\<close> and \<open>is_prefix\<close> compute intersection, union,
  difference, inclusion, overlap, equality, emptiness and \<open>{0..<p}\<close> on the sets the bitmaps
  stand for.\<close>

theorem bitmap_set_algebra:
  assumes "bm_wf w b" and "bm_wf w c" and "p \<le> w"
  shows "members (bm_intersect b c) = members b \<inter> members c \<and>
    members (bm_merge b c) = members b \<union> members c \<and>
    members (bm_subtract b c) = members b - members c \<and>
    (bm_is_subset b c \<longleftrightarrow> members b \<subseteq> members c) \<and>
    (bm_is_overlapping b c \<longleftrightarrow> members b \<inter> members c \<noteq> {}) \<and>
    (bm_eq w b c \<longleftrightarrow> members b = members c) \<and>
    (bm_is_clear_all b \<longleftrightarrow> members b = {}) \<and>
    (bm_is_prefix w p b \<longleftrightarrow> members b = {..<p})"
  by (intro conjI bm.subset [OF assms(1,2)] bm.overlap [OF assms(1,2)] bm.same [OF assms(1,2)]
      is_clear_all_iff is_prefix_iff [OF assms(1,3)] set_ops [OF assms(1,2), THEN conjunct2])

theorem bitmap_set_algebra_witness: "bm_wf 70 [0, 0] \<and> bm_is_prefix 70 0 [0, 0]"
  using bitmap_set_algebra [OF wf_clear_all_70 wf_clear_all_70, of 0] wf_clear_all_70
  by (simp add: members_clear_70)

text \<open>\<open>set_prefix\<close>, \<open>set_all\<close> and \<open>clear_all\<close> build well-formed bitmaps with exactly the
  intended bits, and \<open>intersect_extended\<close> keeps the bits of the first word that are in its
  argument and extends bit 63 of the argument to every position from 64 up to the width.\<close>

theorem bitmap_builders:
  assumes "bm_wf w b"
  shows "bm_wf w (bm_set_prefix w p) \<and> members (bm_set_prefix w p) = {..<min p w} \<and>
    bm_wf w (bm_set_all w) \<and> members (bm_set_all w) = {..<w} \<and>
    bm_wf w (bm_clear_all w) \<and> members (bm_clear_all w) = {} \<and>
    bm_wf w (bm_intersect_extended w m b) \<and>
    members (bm_intersect_extended w m b) = {n \<in> members b. bit m n} \<union> (if bit m 63 then {64..<w} else {})"
proof -
  have w: "0 < w" using assms by (simp add: bm_wf_def)
  have "bm_intersect_extended w m b = bm_intersect_and_pad w m (bit m 63) b"
    using and_push_1 [of m 63] by (simp add: bm_intersect_extended_def)
  then show ?thesis
    using set_prefix_set [OF w, of p] set_all_set [OF w] clear_all_set [OF w]
      intersect_and_pad_set [OF assms, of m "bit m 63"] by simp
qed

theorem bitmap_builders_witness:
  "bm_wf 70 [0, 0] \<and> members (bm_set_all 70) = {..<70}"
  using bitmap_builders [OF wf_clear_all_70, of 0 0] wf_clear_all_70 by blast

text \<open>a client that calls the iterator until it returns \<open>BITMAP_END\<close> gets every element
  of the set once, in increasing order, and stops after at most one call more than there are
  elements; \<open>bits_set\<close> is the number of elements.\<close>

theorem bitmap_iteration:
  assumes "bm_wf w b" and "card (members b) < calls" and "64 * length b < 2 ^ 32"
  shows "bm_iter_collect calls w b (bm_iter_init b) = Some (sorted_list_of_set (members b)) \<and>
    unat (bm_bits_set b) = length (sorted_list_of_set (members b))"
  using iter_collect_correct [of w "bm_iter_init b" b calls] iter_init_rest [OF assms(1)] assms
    bits_set_card [OF assms(3)] by (simp add: bm_wf_def)

theorem bitmap_iteration_witness:
  "bm_iter_collect 2 70 [0, 0] (bm_iter_init [0, 0]) = Some []"
  using bitmap_iteration [OF wf_clear_all_70, of 2] by (simp add: members_clear_70)

text \<open>\<open>print\<close> is undefined on every bitmap that has a bit set beyond the first word: the
  shift that selects a digit starts at 60 and grows by 4, so the second digit shifts by 64.\<close>

theorem bitmap_print_undefined:
  assumes "bm_wf w b" and "n \<in> members b" and "64 \<le> n"
  shows "bm_print dig longlong2str w b buf = None"
proof -
  have n: "n div 64 < length b" "bit (b ! (n div 64)) (n mod 64)" using assms(2) by (simp_all add: members_def bm_bit_def)
  then have "b ! (n div 64) \<noteq> 0" by auto
  moreover have "0 < n div 64" using assms(3) by (simp add: div_greater_zero_iff)
  moreover have "n div 64 \<le> ARRAY_ELEMENTS w - 1" using n(1) assms(1) by (simp add: bm_wf_def)
  ultimately have "0 < bm_last_nonzero (ARRAY_ELEMENTS w - 1) b" by (intro last_nonzero_pos)
  then show ?thesis by (simp add: bm_print_def Let_def print_elements_undefined)
qed

theorem bitmap_print_undefined_witness:
  "bm_print (\<lambda>_. CHR ''0'') (\<lambda>_ _ buf. buf) 70 (bm_set_all 70) Map.empty = None"
  using set_all_set [of 70] by (intro bitmap_print_undefined [of 70 _ 69]) auto

end
