(* ===== verification/Byte_Order.thy ===== *)
theory Byte_Order
  imports Prelude
begin

text \<open>
  Reading and writing integers of two to eight bytes with the low byte first: the portable
  macros of \<^verbatim>\<open>byte_order_generic.h\<close> and the direct accesses of \<^verbatim>\<open>byte_order_generic_x86_64.h\<close> and
  \<^verbatim>\<open>byte_order_generic_x86.h\<close> that \<^verbatim>\<open>my_byteorder.h\<close> selects on Intel processors. Memory maps
  addresses to bytes, a pointer is an address. Signed results are given as words, to be read
  with \<open>sint\<close>. The locale \<open>byte_codec\<close> states what a reader and a writer owe each other; every pair
  of macros is an interpretation of it.
\<close>

type_synonym memory = "nat \<Rightarrow> uchar"

section \<open>Words from bytes\<close>

primrec le_bytes :: "nat \<Rightarrow> (nat \<Rightarrow> uchar) \<Rightarrow> 'a::len word" where
  "le_bytes 0 f = 0"
| "le_bytes (Suc n) f = le_bytes n f OR push_bit (8 * n) (ucast (f n))"

section \<open>Portable little-endian access (\<^verbatim>\<open>byte_order_generic.h\<close>)\<close>

(* @byte_order_generic.h 21-22 sint2korr *)
definition sint2korr :: "memory \<Rightarrow> nat \<Rightarrow> uint16" where
  "sint2korr m A =
     (ucast (m A) :: uint16) OR
     push_bit 8 (ucast (m (A + 1)) :: uint16)"

(* @byte_order_generic.h 23-30 sint3korr *)
definition sint3korr :: "memory \<Rightarrow> nat \<Rightarrow> uint32" where
  "sint3korr m A =
     (if m (A + 2) AND 128 \<noteq> 0
      then push_bit 24 255 OR
        push_bit 16 (ucast (m (A + 2)) :: uint32) OR
        push_bit 8 (ucast (m (A + 1)) :: uint32) OR
        (ucast (m A) :: uint32)
      else
        push_bit 16 (ucast (m (A + 2)) :: uint32) OR
        push_bit 8 (ucast (m (A + 1)) :: uint32) OR
        (ucast (m A) :: uint32))"

(* @byte_order_generic.h 31-34 sint4korr *)
definition sint4korr :: "memory \<Rightarrow> nat \<Rightarrow> uint32" where
  "sint4korr m A =
     (ucast (m A) :: uint32) OR
     push_bit 8 (ucast (m (A + 1)) :: uint32) OR
     push_bit 16 (ucast (m (A + 2)) :: uint32) OR
     push_bit 24 (ucast (m (A + 3)) :: uint32)"

(* @byte_order_generic.h 36-37 uint2korr *)
definition uint2korr :: "memory \<Rightarrow> nat \<Rightarrow> uint16" where
  "uint2korr m A =
     (ucast (m A) :: uint16) OR
     push_bit 8 (ucast (m (A + 1)) :: uint16)"

(* @byte_order_generic.h 38-40 uint3korr *)
definition uint3korr :: "memory \<Rightarrow> nat \<Rightarrow> uint32" where
  "uint3korr m A =
     (ucast (m A) :: uint32) OR
     push_bit 8 (ucast (m (A + 1)) :: uint32) OR
     push_bit 16 (ucast (m (A + 2)) :: uint32)"

(* @byte_order_generic.h 41-44 uint4korr *)
definition uint4korr :: "memory \<Rightarrow> nat \<Rightarrow> uint32" where
  "uint4korr m A =
     (ucast (m A) :: uint32) OR
     push_bit 8 (ucast (m (A + 1)) :: uint32) OR
     push_bit 16 (ucast (m (A + 2)) :: uint32) OR
     push_bit 24 (ucast (m (A + 3)) :: uint32)"

(* @byte_order_generic.h 45-49 uint5korr *)
definition uint5korr :: "memory \<Rightarrow> nat \<Rightarrow> ulonglong" where
  "uint5korr m A =
     ucast ((ucast (m A) :: uint32) OR
          push_bit 8 (ucast (m (A + 1)) :: uint32) OR
          push_bit 16 (ucast (m (A + 2)) :: uint32) OR
          push_bit 24 (ucast (m (A + 3)) :: uint32)) OR
     push_bit 32 (ucast (m (A + 4)) :: ulonglong)"

(* @byte_order_generic.h 50-55 uint6korr *)
definition uint6korr :: "memory \<Rightarrow> nat \<Rightarrow> ulonglong" where
  "uint6korr m A =
     ucast ((ucast (m A) :: uint32) OR
          push_bit 8 (ucast (m (A + 1)) :: uint32) OR
          push_bit 16 (ucast (m (A + 2)) :: uint32) OR
          push_bit 24 (ucast (m (A + 3)) :: uint32)) OR
     push_bit 32 (ucast (m (A + 4)) :: ulonglong) OR
     push_bit 40 (ucast (m (A + 5)) :: ulonglong)"

(* @byte_order_generic.h 56-64 uint8korr *)
definition uint8korr :: "memory \<Rightarrow> nat \<Rightarrow> ulonglong" where
  "uint8korr m A =
     ucast ((ucast (m A) :: uint32) OR
          push_bit 8 (ucast (m (A + 1)) :: uint32) OR
          push_bit 16 (ucast (m (A + 2)) :: uint32) OR
          push_bit 24 (ucast (m (A + 3)) :: uint32)) OR
     push_bit 32 (ucast ((ucast (m (A + 4)) :: uint32) OR
          push_bit 8 (ucast (m (A + 5)) :: uint32) OR
          push_bit 16 (ucast (m (A + 6)) :: uint32) OR
          push_bit 24 (ucast (m (A + 7)) :: uint32)))"

(* @byte_order_generic.h 35-35 sint8korr *)
definition sint8korr :: "memory \<Rightarrow> nat \<Rightarrow> ulonglong" where
  "sint8korr m A = uint8korr m A"

(* @byte_order_generic.h 65-68 int2store *)
definition int2store :: "memory \<Rightarrow> nat \<Rightarrow> uint32 \<Rightarrow> memory" where
  "int2store m T a = m(T := ucast a, T + 1 := ucast (drop_bit 8 a))"

(* @byte_order_generic.h 69-73 int3store *)
definition int3store :: "memory \<Rightarrow> nat \<Rightarrow> uint32 \<Rightarrow> memory" where
  "int3store m T a = m(T := ucast a, T + 1 := ucast (drop_bit 8 a), T + 2 := ucast (drop_bit 16 a))"

(* @byte_order_generic.h 74-78 int4store *)
definition int4store :: "memory \<Rightarrow> nat \<Rightarrow> uint32 \<Rightarrow> memory" where
  "int4store m T a = m(T := ucast a, T + 1 := ucast (drop_bit 8 a), T + 2 := ucast (drop_bit 16 a), T + 3 := ucast (drop_bit 24 a))"

(* @byte_order_generic.h 79-84 int5store *)
definition int5store :: "memory \<Rightarrow> nat \<Rightarrow> ulonglong \<Rightarrow> memory" where
  "int5store m T a = m(T := ucast a, T + 1 := ucast (drop_bit 8 a), T + 2 := ucast (drop_bit 16 a), T + 3 := ucast (drop_bit 24 a), T + 4 := ucast (drop_bit 32 a))"

(* @byte_order_generic.h 85-91 int6store *)
definition int6store :: "memory \<Rightarrow> nat \<Rightarrow> ulonglong \<Rightarrow> memory" where
  "int6store m T a = m(T := ucast a, T + 1 := ucast (drop_bit 8 a), T + 2 := ucast (drop_bit 16 a), T + 3 := ucast (drop_bit 24 a), T + 4 := ucast (drop_bit 32 a), T + 5 := ucast (drop_bit 40 a))"

(* @byte_order_generic.h 92-96 int8store *)
definition int8store :: "memory \<Rightarrow> nat \<Rightarrow> ulonglong \<Rightarrow> memory" where
  "int8store m T a =
     (let def_temp = ucast a; def_temp2 = ucast (drop_bit 32 a)
      in int4store (int4store m T def_temp) (T + 4) def_temp2)"

section \<open>Direct access on x86-64 (\<^verbatim>\<open>byte_order_generic_x86_64.h\<close>)\<close>

text \<open>
  A load or store through a cast pointer moves two, four or eight bytes at once; the processor
  keeps the least significant byte at the lowest address. \<open>peek\<close> and \<open>poke\<close> are these accesses.
\<close>

definition peek :: "memory \<Rightarrow> nat \<Rightarrow> 'a::len word" where
  "peek m A = le_bytes (LENGTH('a) div 8) (\<lambda>i. m (A + i))"

definition poke :: "memory \<Rightarrow> nat \<Rightarrow> 'a::len word \<Rightarrow> memory" where
  "poke m T a =
     (\<lambda>j. if T \<le> j \<and> j < T + LENGTH('a) div 8 then ucast (drop_bit (8 * (j - T)) a) else m j)"

(* @byte_order_generic_x86_64.h 21-21 sint2korr *)
definition sint2korr_x86 :: "memory \<Rightarrow> nat \<Rightarrow> uint16" where
  "sint2korr_x86 m A = peek m A"

(* @byte_order_generic_x86_64.h 22-29 sint3korr *)
definition sint3korr_x86 :: "memory \<Rightarrow> nat \<Rightarrow> uint32" where
  "sint3korr_x86 m A =
     (if m (A + 2) AND 128 \<noteq> 0
      then push_bit 24 255 OR
        push_bit 16 (ucast (m (A + 2)) :: uint32) OR
        push_bit 8 (ucast (m (A + 1)) :: uint32) OR
        (ucast (m A) :: uint32)
      else
        push_bit 16 (ucast (m (A + 2)) :: uint32) OR
        push_bit 8 (ucast (m (A + 1)) :: uint32) OR
        (ucast (m A) :: uint32))"

(* @byte_order_generic_x86_64.h 30-30 sint4korr *)
definition sint4korr_x86 :: "memory \<Rightarrow> nat \<Rightarrow> uint32" where
  "sint4korr_x86 m A = peek m A"

(* @byte_order_generic_x86_64.h 31-31 uint2korr *)
definition uint2korr_x86 :: "memory \<Rightarrow> nat \<Rightarrow> uint16" where
  "uint2korr_x86 m A = peek m A"

(* @byte_order_generic_x86_64.h 32-34 uint3korr *)
definition uint3korr_x86 :: "memory \<Rightarrow> nat \<Rightarrow> uint32" where
  "uint3korr_x86 m A =
     (ucast (m A) :: uint32) OR
     push_bit 8 (ucast (m (A + 1)) :: uint32) OR
     push_bit 16 (ucast (m (A + 2)) :: uint32)"

(* @byte_order_generic_x86_64.h 35-35 uint4korr *)
definition uint4korr_x86 :: "memory \<Rightarrow> nat \<Rightarrow> uint32" where
  "uint4korr_x86 m A = peek m A"

(* @byte_order_generic_x86_64.h 38-43 uint5korr *)
definition uint5korr_x86 :: "memory \<Rightarrow> nat \<Rightarrow> ulonglong" where
  "uint5korr_x86 m p =
     (let a = ucast (peek m p :: uint32); b = ucast (m (p + 4)) in a OR push_bit 32 b)"

(* @byte_order_generic_x86_64.h 44-49 uint6korr *)
definition uint6korr_x86 :: "memory \<Rightarrow> nat \<Rightarrow> ulonglong" where
  "uint6korr_x86 m p =
     (let a = ucast (peek m p :: uint32); b = ucast (peek m (p + 4) :: uint16) in a OR push_bit 32 b)"

(* @byte_order_generic_x86_64.h 51-51 uint8korr *)
definition uint8korr_x86 :: "memory \<Rightarrow> nat \<Rightarrow> ulonglong" where
  "uint8korr_x86 m A = peek m A"

(* @byte_order_generic_x86_64.h 52-52 sint8korr *)
definition sint8korr_x86 :: "memory \<Rightarrow> nat \<Rightarrow> ulonglong" where
  "sint8korr_x86 m A = peek m A"

(* @byte_order_generic_x86_64.h 54-56 int2store *)
definition int2store_x86 :: "memory \<Rightarrow> nat \<Rightarrow> uint32 \<Rightarrow> memory" where
  "int2store_x86 m T a = poke m T (ucast a :: uint16)"

(* @byte_order_generic_x86_64.h 58-61 int3store *)
definition int3store_x86 :: "memory \<Rightarrow> nat \<Rightarrow> uint32 \<Rightarrow> memory" where
  "int3store_x86 m T a = m(T := ucast a, T + 1 := ucast (drop_bit 8 a), T + 2 := ucast (drop_bit 16 a))"

(* @byte_order_generic_x86_64.h 63-65 int4store *)
definition int4store_x86 :: "memory \<Rightarrow> nat \<Rightarrow> uint32 \<Rightarrow> memory" where
  "int4store_x86 m T a = poke m T a"

(* @byte_order_generic_x86_64.h 67-70 int5store *)
definition int5store_x86 :: "memory \<Rightarrow> nat \<Rightarrow> ulonglong \<Rightarrow> memory" where
  "int5store_x86 m T a =
     (poke m T (ucast a :: uint32))(T + 4 := ucast (drop_bit 32 a))"

(* @byte_order_generic_x86_64.h 72-75 int6store *)
definition int6store_x86 :: "memory \<Rightarrow> nat \<Rightarrow> ulonglong \<Rightarrow> memory" where
  "int6store_x86 m T a =
     poke (poke m T (ucast a :: uint32)) (T + 4) (ucast (drop_bit 32 a) :: uint16)"

(* @byte_order_generic_x86_64.h 77-79 int8store *)
definition int8store_x86 :: "memory \<Rightarrow> nat \<Rightarrow> ulonglong \<Rightarrow> memory" where
  "int8store_x86 m T a = poke m T a"

section \<open>Direct access on 32-bit x86 (\<^verbatim>\<open>byte_order_generic_x86.h\<close>)\<close>

(* @byte_order_generic_x86.h 21-21 sint2korr *)
definition sint2korr_i386 :: "memory \<Rightarrow> nat \<Rightarrow> uint16" where
  "sint2korr_i386 m A = peek m A"

(* @byte_order_generic_x86.h 22-29 sint3korr *)
definition sint3korr_i386 :: "memory \<Rightarrow> nat \<Rightarrow> uint32" where
  "sint3korr_i386 m A =
     (if m (A + 2) AND 128 \<noteq> 0
      then push_bit 24 255 OR
        push_bit 16 (ucast (m (A + 2)) :: uint32) OR
        push_bit 8 (ucast (m (A + 1)) :: uint32) OR
        (ucast (m A) :: uint32)
      else
        push_bit 16 (ucast (m (A + 2)) :: uint32) OR
        push_bit 8 (ucast (m (A + 1)) :: uint32) OR
        (ucast (m A) :: uint32))"

(* @byte_order_generic_x86.h 30-30 sint4korr *)
definition sint4korr_i386 :: "memory \<Rightarrow> nat \<Rightarrow> uint32" where
  "sint4korr_i386 m A = peek m A"

(* @byte_order_generic_x86.h 31-31 uint2korr *)
definition uint2korr_i386 :: "memory \<Rightarrow> nat \<Rightarrow> uint16" where
  "uint2korr_i386 m A = peek m A"

(* @byte_order_generic_x86.h 32-34 uint3korr *)
definition uint3korr_i386 :: "memory \<Rightarrow> nat \<Rightarrow> uint32" where
  "uint3korr_i386 m A =
     (ucast (m A) :: uint32) OR
     push_bit 8 (ucast (m (A + 1)) :: uint32) OR
     push_bit 16 (ucast (m (A + 2)) :: uint32)"

(* @byte_order_generic_x86.h 35-35 uint4korr *)
definition uint4korr_i386 :: "memory \<Rightarrow> nat \<Rightarrow> uint32" where
  "uint4korr_i386 m A = peek m A"

(* @byte_order_generic_x86.h 36-40 uint5korr *)
definition uint5korr_i386 :: "memory \<Rightarrow> nat \<Rightarrow> ulonglong" where
  "uint5korr_i386 m A =
     ucast ((ucast (m A) :: uint32) OR
          push_bit 8 (ucast (m (A + 1)) :: uint32) OR
          push_bit 16 (ucast (m (A + 2)) :: uint32) OR
          push_bit 24 (ucast (m (A + 3)) :: uint32)) OR
     push_bit 32 (ucast (m (A + 4)) :: ulonglong)"

(* @byte_order_generic_x86.h 41-46 uint6korr *)
definition uint6korr_i386 :: "memory \<Rightarrow> nat \<Rightarrow> ulonglong" where
  "uint6korr_i386 m A =
     ucast ((ucast (m A) :: uint32) OR
          push_bit 8 (ucast (m (A + 1)) :: uint32) OR
          push_bit 16 (ucast (m (A + 2)) :: uint32) OR
          push_bit 24 (ucast (m (A + 3)) :: uint32)) OR
     push_bit 32 (ucast (m (A + 4)) :: ulonglong) OR
     push_bit 40 (ucast (m (A + 5)) :: ulonglong)"

(* @byte_order_generic_x86.h 47-47 uint8korr *)
definition uint8korr_i386 :: "memory \<Rightarrow> nat \<Rightarrow> ulonglong" where
  "uint8korr_i386 m A = peek m A"

(* @byte_order_generic_x86.h 48-48 sint8korr *)
definition sint8korr_i386 :: "memory \<Rightarrow> nat \<Rightarrow> ulonglong" where
  "sint8korr_i386 m A = peek m A"

(* @byte_order_generic_x86.h 50-50 int2store *)
definition int2store_i386 :: "memory \<Rightarrow> nat \<Rightarrow> uint32 \<Rightarrow> memory" where
  "int2store_i386 m T a = poke m T (ucast a :: uint16)"

(* @byte_order_generic_x86.h 51-54 int3store *)
definition int3store_i386 :: "memory \<Rightarrow> nat \<Rightarrow> uint32 \<Rightarrow> memory" where
  "int3store_i386 m T a = m(T := ucast a, T + 1 := ucast (drop_bit 8 a), T + 2 := ucast (drop_bit 16 a))"

(* @byte_order_generic_x86.h 55-55 int4store *)
definition int4store_i386 :: "memory \<Rightarrow> nat \<Rightarrow> uint32 \<Rightarrow> memory" where
  "int4store_i386 m T a = poke m T a"

(* @byte_order_generic_x86.h 56-61 int5store *)
definition int5store_i386 :: "memory \<Rightarrow> nat \<Rightarrow> ulonglong \<Rightarrow> memory" where
  "int5store_i386 m T a = m(T := ucast a, T + 1 := ucast (drop_bit 8 a), T + 2 := ucast (drop_bit 16 a), T + 3 := ucast (drop_bit 24 a), T + 4 := ucast (drop_bit 32 a))"

(* @byte_order_generic_x86.h 62-68 int6store *)
definition int6store_i386 :: "memory \<Rightarrow> nat \<Rightarrow> ulonglong \<Rightarrow> memory" where
  "int6store_i386 m T a = m(T := ucast a, T + 1 := ucast (drop_bit 8 a), T + 2 := ucast (drop_bit 16 a), T + 3 := ucast (drop_bit 24 a), T + 4 := ucast (drop_bit 32 a), T + 5 := ucast (drop_bit 40 a))"

(* @byte_order_generic_x86.h 69-69 int8store *)
definition int8store_i386 :: "memory \<Rightarrow> nat \<Rightarrow> ulonglong \<Rightarrow> memory" where
  "int8store_i386 m T a = poke m T a"

section \<open>Bytes of words\<close>

lemma bit_le_bytes:
  "bit (le_bytes n f :: 'a::len word) k \<longleftrightarrow>
     k < 8 * n \<and> k < LENGTH('a) \<and> bit (f (k div 8)) (k mod 8)"
proof (induction n)
  case (Suc n)
  have "bit (f n) (k - 8 * n) \<longleftrightarrow> k < 8 * Suc n \<and> bit (f (k div 8)) (k mod 8)"
    if "8 * n \<le> k"
  proof (cases "k < 8 * Suc n")
    case True
    with that obtain r where "k = 8 * n + r" "r < 8"
      by (metis add.commute add_less_cancel_left less_eqE mult_Suc_right)
    then show ?thesis using True by simp
  next
    case False
    then have "8 \<le> k - 8 * n" by simp
    then show ?thesis using False by (auto dest: bit_imp_le_length)
  qed
  then show ?case using Suc by (auto simp: bit_simps)
qed simp

lemma le_bytes_cong: "(\<And>i. i < n \<Longrightarrow> f i = g i) \<Longrightarrow> le_bytes n f = le_bytes n g"
  by (induction n) simp_all

lemma le_bytes_add:
  "le_bytes (j + k) f = (le_bytes j f :: 'a::len word) OR push_bit (8 * j) (le_bytes k (\<lambda>i. f (j + i)))"
  by (induction k) (simp_all add: or.assoc push_bit_or distrib_left add.commute)

lemma ucast_le_bytes:
  "8 * n \<le> LENGTH('b) \<Longrightarrow> 8 * n \<le> LENGTH('a) \<Longrightarrow>
   ucast (le_bytes n f :: 'a::len word) = (le_bytes n f :: 'b::len word)"
  by (rule bit_word_eqI) (auto simp: bit_simps bit_le_bytes)

lemma le_bytes_digits:
  "8 * n \<le> LENGTH('a) \<Longrightarrow>
   le_bytes n (\<lambda>i. ucast (drop_bit (8 * i) w)) = (ucast (take_bit (8 * n) (w :: 'b::len word)) :: 'a::len word)"
  by (rule bit_word_eqI) (auto simp: bit_simps bit_le_bytes dest: bit_imp_le_length)

lemma byte_of_le_bytes:
  assumes "i < n" "8 * n \<le> LENGTH('a)"
  shows "ucast (drop_bit (8 * i) (le_bytes n f :: 'a::len word)) = f i"
proof (rule bit_word_eqI)
  fix k assume "k < LENGTH(8)"
  then have "k < 8" by simp
  then have "8 * i + k < 8 * n" "(8 * i + k) div 8 = i" "(8 * i + k) mod 8 = k" using assms by auto
  then show "bit (ucast (drop_bit (8 * i) (le_bytes n f :: 'a word)) :: 8 word) k \<longleftrightarrow> bit (f i) k"
    using assms \<open>k < 8\<close> by (simp add: bit_simps bit_le_bytes)
qed

lemma unat_or_push_bit:
  assumes "unat (x :: 'a::len word) < 2 ^ k" "unat y * 2 ^ k < 2 ^ LENGTH('a)"
  shows "unat (x OR push_bit k y) = unat x + unat y * 2 ^ k"
proof -
  have "take_bit k (unat x) = unat x" using assms(1) by (simp add: take_bit_nat_eq_self_iff)
  then have "\<not> bit (unat x) n \<or> \<not> bit (push_bit k (unat y)) n" for n
    by (metis bit_push_bit_iff bit_take_bit_iff leD)
  then have "unat x OR push_bit k (unat y) = unat x + push_bit k (unat y)"
    by (simp only: disjunctive_add)
  moreover have "unat (push_bit k y) = push_bit k (unat y)"
    using assms(2) unsigned_push_bit_eq [of k y, where ?'a = nat]
    by (simp only: take_bit_nat_eq_self_iff push_bit_eq_mult)
  ultimately show ?thesis by (simp only: unsigned_or_eq push_bit_eq_mult)
qed

lemma unat_le_bytes:
  "8 * n \<le> LENGTH('a) \<Longrightarrow> unat (le_bytes n f :: 'a::len word) = (\<Sum>i<n. unat (f i) * 256 ^ i)"
proof (induction n)
  case (Suc n)
  have p: "(2::nat) ^ (8 * n) = 256 ^ n" by (simp add: power_mult)
  have "take_bit (8 * n) (le_bytes n f :: 'a word) = le_bytes n f"
    by (rule bit_word_eqI) (auto simp: bit_simps bit_le_bytes)
  then have x: "unat (le_bytes n f :: 'a word) < 2 ^ (8 * n)"
    by (metis take_bit_nat_less_exp unsigned_take_bit_eq)
  have b: "unat (f n) < 2 ^ 8" using unsigned_less [of "f n"] by simp
  have l: "8 \<le> LENGTH('a)" "8 + 8 * n \<le> LENGTH('a)" using Suc.prems by auto
  have "unat (f n) * 2 ^ (8 * n) < 2 ^ 8 * 2 ^ (8 * n)" using b by simp
  also have "\<dots> \<le> 2 ^ LENGTH('a)" unfolding power_add [symmetric] using l by (intro power_increasing) auto
  finally have y: "unat (f n) * 2 ^ (8 * n) < 2 ^ LENGTH('a)" .
  have "2 ^ 8 \<le> (2::nat) ^ LENGTH('a)" using l by (intro power_increasing) auto
  then have u: "unat (ucast (f n) :: 'a word) = unat (f n)" using b by (intro unat_ucast_small) linarith
  show ?case using Suc x y u by (simp add: unat_or_push_bit p)
qed simp

lemma ucast_push_byte:
  "k + 8 \<le> LENGTH('b) \<Longrightarrow>
   ucast (push_bit k (ucast (b :: uchar)) :: 'b::len word) = (push_bit k (ucast b) :: 'a::len word)"
  by (rule bit_word_eqI) (auto simp: bit_simps dest: bit_imp_le_length)

lemma ucast_ucast_byte:
  "8 \<le> LENGTH('b) \<Longrightarrow> ucast (ucast (b :: uchar) :: 'b::len word) = (ucast b :: 'a::len word)"
  using ucast_push_byte [of 0] by simp

lemma le_bytes_numeral:
  "le_bytes (numeral k) f = le_bytes (pred_numeral k) f OR push_bit (8 * pred_numeral k) (ucast (f (pred_numeral k)))"
  by (simp add: numeral_eq_Suc)

lemma ucast_drop_ucast:
  "k + 8 \<le> LENGTH('b) \<Longrightarrow>
   ucast (drop_bit k (ucast (a :: 'a::len word) :: 'b::len word)) = (ucast (drop_bit k a) :: uchar)"
  by (rule bit_word_eqI) (auto simp: bit_simps)

lemma ucast_ucast_low:
  "8 \<le> LENGTH('b) \<Longrightarrow> ucast (ucast (a :: 'a::len word) :: 'b::len word) = (ucast a :: uchar)"
  using ucast_drop_ucast [of 0] by simp

text \<open>Reading an access as the bytes it is made of.\<close>

lemmas byte_reads = le_bytes_numeral ucast_push_byte ucast_ucast_byte unsigned_or_eq push_bit_or
  or.assoc peek_def

lemma less_cases:
  "i < (2::nat) \<longleftrightarrow> i = 0 \<or> i = 1" "i < (3::nat) \<longleftrightarrow> i = 0 \<or> i = 1 \<or> i = 2"
  "i < (4::nat) \<longleftrightarrow> i = 0 \<or> i = 1 \<or> i = 2 \<or> i = 3"
  "i < (5::nat) \<longleftrightarrow> i = 0 \<or> i = 1 \<or> i = 2 \<or> i = 3 \<or> i = 4"
  "i < (6::nat) \<longleftrightarrow> i = 0 \<or> i = 1 \<or> i = 2 \<or> i = 3 \<or> i = 4 \<or> i = 5"
  "i < (7::nat) \<longleftrightarrow> i = 0 \<or> i = 1 \<or> i = 2 \<or> i = 3 \<or> i = 4 \<or> i = 5 \<or> i = 6"
  "i < (8::nat) \<longleftrightarrow> i = 0 \<or> i = 1 \<or> i = 2 \<or> i = 3 \<or> i = 4 \<or> i = 5 \<or> i = 6 \<or> i = 7"
  by auto

lemmas byte_writes = less_cases poke_def ucast_drop_ucast ucast_ucast_low

section \<open>What a reader and a writer owe each other\<close>

text \<open>
  \<open>n\<close> bytes at an address hold a number; byte \<open>i\<close> of the number (from the least significant one)
  lies at offset \<open>pos i\<close>.
\<close>

locale byte_codec =
  fixes korr :: "memory \<Rightarrow> nat \<Rightarrow> 'a::len word"
    and store :: "memory \<Rightarrow> nat \<Rightarrow> 'b::len word \<Rightarrow> memory"
    and n :: nat
    and pos :: "nat \<Rightarrow> nat"
  assumes width: "8 * n \<le> LENGTH('a)" "8 * n \<le> LENGTH('b)"
    and pos: "bij_betw pos {..<n} {..<n}"
    and korr_bytes: "korr m A = le_bytes n (\<lambda>i. m (A + pos i))"
    and store_bytes: "i < n \<Longrightarrow> store m T a (T + pos i) = ucast (drop_bit (8 * i) a)"
    and store_frame: "j < T \<or> T + n \<le> j \<Longrightarrow> store m T a j = m j"
begin

lemma pos_less: "i < n \<Longrightarrow> pos i < n"
  using pos by (auto simp: bij_betw_def)

lemma pos_surj: "j < n \<Longrightarrow> \<exists>i<n. j = pos i"
  using pos unfolding bij_betw_def by (metis imageE lessThan_iff)

lemma round_trip: "korr (store m T a) T = ucast (take_bit (8 * n) a)"
proof -
  have "korr (store m T a) T = le_bytes n (\<lambda>i. ucast (drop_bit (8 * i) a))"
    unfolding korr_bytes by (rule le_bytes_cong) (rule store_bytes)
  then show ?thesis using width by (simp add: le_bytes_digits)
qed

lemma korr_frame: "A + n \<le> T \<or> T + n \<le> A \<Longrightarrow> korr (store m T a) A = korr m A"
  unfolding korr_bytes by (rule le_bytes_cong) (use pos_less in \<open>force intro!: store_frame\<close>)

lemma store_at: "j < n \<Longrightarrow> \<exists>i<n. j = pos i \<and> store m T a (T + j) = ucast (drop_bit (8 * i) a)"
  using pos_surj store_bytes by metis

lemma outside_or_at: "(j < T \<or> T + n \<le> j) \<or> (\<exists>i<n. j = T + pos i)" for j T :: nat
  by (metis le_add_diff_inverse less_diff_conv2 add.commute not_le pos_surj)

lemma store_korr: "store m A (ucast (korr m A)) = m"
proof
  fix j
  have w: "ucast (korr m A) = (le_bytes n (\<lambda>i. m (A + pos i)) :: 'b word)"
    unfolding korr_bytes using width by (simp add: ucast_le_bytes)
  show "store m A (ucast (korr m A)) j = m j"
    using outside_or_at [of j A] width(2) by (auto simp: store_frame store_bytes w byte_of_le_bytes)
qed

lemma store_store: "store (store m T a) T b = store m T b"
proof
  fix j show "store (store m T a) T b j = store m T b j"
    using outside_or_at [of j T] by (auto simp: store_frame store_bytes)
qed

lemma korr_eq_iff: "korr m A = korr m' B \<longleftrightarrow> (\<forall>j<n. m (A + j) = m' (B + j))"
proof
  assume "korr m A = korr m' B"
  then have "m (A + pos i) = m' (B + pos i)" if "i < n" for i
    using byte_of_le_bytes [OF that width(1)] unfolding korr_bytes by metis
  then show "\<forall>j<n. m (A + j) = m' (B + j)" using pos_surj by blast
next
  assume "\<forall>j<n. m (A + j) = m' (B + j)"
  then show "korr m A = korr m' B"
    unfolding korr_bytes by (intro le_bytes_cong) (use pos_less in blast)
qed

lemma korr_value: "unat (korr m A) = (\<Sum>i<n. unat (m (A + pos i)) * 256 ^ i)"
  unfolding korr_bytes by (rule unat_le_bytes [OF width(1)])

end

locale le_codec =
  fixes korr :: "memory \<Rightarrow> nat \<Rightarrow> 'a::len word"
    and store :: "memory \<Rightarrow> nat \<Rightarrow> 'b::len word \<Rightarrow> memory"
    and n :: nat
  assumes le_width: "8 * n \<le> LENGTH('a)" "8 * n \<le> LENGTH('b)"
    and le_korr: "korr m A = le_bytes n (\<lambda>i. m (A + i))"
    and le_store: "i < n \<Longrightarrow> store m T a (T + i) = ucast (drop_bit (8 * i) a)"
    and le_frame: "j < T \<or> T + n \<le> j \<Longrightarrow> store m T a j = m j"

sublocale le_codec \<subseteq> byte_codec korr store n "\<lambda>i. i"
  by unfold_locales (auto simp: le_korr le_store le_frame bij_betw_def intro: le_width)

section \<open>The macros meet the contract\<close>

interpretation le2: le_codec uint2korr int2store 2
  by unfold_locales (auto simp: uint2korr_def int2store_def byte_reads byte_writes)

interpretation le3: le_codec uint3korr int3store 3
  by unfold_locales (auto simp: uint3korr_def int3store_def byte_reads byte_writes)

interpretation le4: le_codec uint4korr int4store 4
  by unfold_locales (auto simp: uint4korr_def int4store_def byte_reads byte_writes)

interpretation le5: le_codec uint5korr int5store 5
  by unfold_locales (auto simp: uint5korr_def int5store_def byte_reads byte_writes)

interpretation le6: le_codec uint6korr int6store 6
  by unfold_locales (auto simp: uint6korr_def int6store_def byte_reads byte_writes)

interpretation le8: le_codec uint8korr int8store 8
  by unfold_locales (auto simp: uint8korr_def int8store_def int4store_def Let_def byte_reads byte_writes)

interpretation x86le2: le_codec uint2korr_x86 int2store_x86 2
  by unfold_locales (auto simp: uint2korr_x86_def int2store_x86_def byte_reads byte_writes)

interpretation x86le3: le_codec uint3korr_x86 int3store_x86 3
  by unfold_locales (auto simp: uint3korr_x86_def int3store_x86_def byte_reads byte_writes)

interpretation x86le4: le_codec uint4korr_x86 int4store_x86 4
  by unfold_locales (auto simp: uint4korr_x86_def int4store_x86_def byte_reads byte_writes)

interpretation x86le5: le_codec uint5korr_x86 int5store_x86 5
  by unfold_locales (auto simp: uint5korr_x86_def int5store_x86_def Let_def byte_reads byte_writes)

interpretation x86le6: le_codec uint6korr_x86 int6store_x86 6
  by unfold_locales (auto simp: uint6korr_x86_def int6store_x86_def Let_def add.commute byte_reads byte_writes)

interpretation x86le8: le_codec uint8korr_x86 int8store_x86 8
  by unfold_locales (auto simp: uint8korr_x86_def int8store_x86_def byte_reads byte_writes)

interpretation i386le2: le_codec uint2korr_i386 int2store_i386 2
  by unfold_locales (auto simp: uint2korr_i386_def int2store_i386_def byte_reads byte_writes)

interpretation i386le3: le_codec uint3korr_i386 int3store_i386 3
  by unfold_locales (auto simp: uint3korr_i386_def int3store_i386_def byte_reads byte_writes)

interpretation i386le4: le_codec uint4korr_i386 int4store_i386 4
  by unfold_locales (auto simp: uint4korr_i386_def int4store_i386_def byte_reads byte_writes)

interpretation i386le5: le_codec uint5korr_i386 int5store_i386 5
  by unfold_locales (auto simp: uint5korr_i386_def int5store_i386_def byte_reads byte_writes)

interpretation i386le6: le_codec uint6korr_i386 int6store_i386 6
  by unfold_locales (auto simp: uint6korr_i386_def int6store_i386_def byte_reads byte_writes)

interpretation i386le8: le_codec uint8korr_i386 int8store_i386 8
  by unfold_locales (auto simp: uint8korr_i386_def int8store_i386_def byte_reads byte_writes)

text \<open>The signed readers differ from the unsigned ones in the type of the result, apart from three bytes.\<close>

lemma sint_readers:
  "sint2korr m A = uint2korr m A" "sint4korr m A = uint4korr m A" "sint8korr m A = uint8korr m A"
  "sint2korr_x86 m A = uint2korr_x86 m A" "sint4korr_x86 m A = uint4korr_x86 m A"
  "sint8korr_x86 m A = uint8korr_x86 m A"
  "sint2korr_i386 m A = uint2korr_i386 m A" "sint4korr_i386 m A = uint4korr_i386 m A"
  "sint8korr_i386 m A = uint8korr_i386 m A"
  by (simp_all add: sint2korr_def uint2korr_def sint4korr_def uint4korr_def sint8korr_def
      sint2korr_x86_def uint2korr_x86_def sint4korr_x86_def uint4korr_x86_def sint8korr_x86_def
      uint8korr_x86_def sint2korr_i386_def uint2korr_i386_def sint4korr_i386_def
      uint4korr_i386_def sint8korr_i386_def uint8korr_i386_def)

lemma le_store_unique:
  assumes "le_codec k s n" "le_codec k' s' n"
  shows "s = s'"
proof (intro ext)
  fix m T a j
  show "s m T a j = s' m T a j"
  proof (cases "j < T \<or> T + n \<le> j")
    case True
    then show ?thesis by (simp add: le_codec.le_frame [OF assms(1)] le_codec.le_frame [OF assms(2)])
  next
    case False
    then obtain i where "i < n" "j = T + i" by (metis add_less_cancel_left le_iff_add not_less)
    then show ?thesis by (simp add: le_codec.le_store [OF assms(1)] le_codec.le_store [OF assms(2)])
  qed
qed

lemma le_korr_unique: "le_codec k s n \<Longrightarrow> le_codec k' s' n \<Longrightarrow> k = k'"
  by (intro ext) (simp add: le_codec.le_korr)

lemma ucast_take16: "ucast (take_bit 16 (a :: uint32)) = (ucast a :: uint16)"
  by (rule bit_word_eqI) (simp add: bit_simps)

lemmas arch_unique =
  le_korr_unique [OF x86le2.le_codec_axioms le2.le_codec_axioms]
  le_store_unique [OF x86le2.le_codec_axioms le2.le_codec_axioms]
  le_korr_unique [OF x86le3.le_codec_axioms le3.le_codec_axioms]
  le_store_unique [OF x86le3.le_codec_axioms le3.le_codec_axioms]
  le_korr_unique [OF x86le4.le_codec_axioms le4.le_codec_axioms]
  le_store_unique [OF x86le4.le_codec_axioms le4.le_codec_axioms]
  le_korr_unique [OF x86le5.le_codec_axioms le5.le_codec_axioms]
  le_store_unique [OF x86le5.le_codec_axioms le5.le_codec_axioms]
  le_korr_unique [OF x86le6.le_codec_axioms le6.le_codec_axioms]
  le_store_unique [OF x86le6.le_codec_axioms le6.le_codec_axioms]
  le_korr_unique [OF x86le8.le_codec_axioms le8.le_codec_axioms]
  le_store_unique [OF x86le8.le_codec_axioms le8.le_codec_axioms]
  le_korr_unique [OF i386le2.le_codec_axioms le2.le_codec_axioms]
  le_store_unique [OF i386le2.le_codec_axioms le2.le_codec_axioms]
  le_korr_unique [OF i386le3.le_codec_axioms le3.le_codec_axioms]
  le_store_unique [OF i386le3.le_codec_axioms le3.le_codec_axioms]
  le_korr_unique [OF i386le4.le_codec_axioms le4.le_codec_axioms]
  le_store_unique [OF i386le4.le_codec_axioms le4.le_codec_axioms]
  le_korr_unique [OF i386le5.le_codec_axioms le5.le_codec_axioms]
  le_store_unique [OF i386le5.le_codec_axioms le5.le_codec_axioms]
  le_korr_unique [OF i386le6.le_codec_axioms le6.le_codec_axioms]
  le_store_unique [OF i386le6.le_codec_axioms le6.le_codec_axioms]
  le_korr_unique [OF i386le8.le_codec_axioms le8.le_codec_axioms]
  le_store_unique [OF i386le8.le_codec_axioms le8.le_codec_axioms]

text \<open>Three bytes are sign-extended by hand.\<close>

lemma bit7_of_mask: "b AND 128 \<noteq> 0 \<longleftrightarrow> bit (b :: uchar) 7"
  by (simp add: bit_iff_and_push_bit_not_eq_0)

lemma sint3korr_signed: "sint3korr m A = signed_take_bit 23 (uint3korr m A)"
proof (rule bit_word_eqI)
  fix k assume "k < LENGTH(32)"
  then have k: "k < 32" by simp
  have top: "bit (push_bit 24 255 :: uint32) k \<longleftrightarrow> 24 \<le> k"
  proof -
    have "push_bit 24 255 = (push_bit 24 (mask 8) :: uint32)" by (simp add: mask_eq_exp_minus_1)
    then show ?thesis using k by (simp only: bit_push_bit_iff bit_mask_iff) auto
  qed
  have u: "uint3korr m A = le_bytes 3 (\<lambda>i. m (A + i))" by (rule le3.korr_bytes)
  have s: "sint3korr m A = (if bit (m (A + 2)) 7 then push_bit 24 255 else 0) OR uint3korr m A"
    unfolding sint3korr_def uint3korr_def bit7_of_mask by (simp add: or.commute or.left_commute)
  show "bit (sint3korr m A) k \<longleftrightarrow> bit (signed_take_bit 23 (uint3korr m A)) k"
    unfolding s u using k top
    by (cases k "23::nat" rule: linorder_cases) (auto simp: bit_or_iff bit_signed_take_bit_iff bit_le_bytes min_def)
qed

section \<open>Properties\<close>

text \<open>C39: A number stored with one of the portable macros is read back by the macro of the same width:
  two, three, five and six bytes keep the low 16, 24, 40 and 48 bits, four and eight bytes the
  whole value. Every byte outside the stored range, below or above it, is untouched.\<close>

theorem byte_order_round_trip:
  "uint2korr (int2store m T a) T = ucast a \<and> uint3korr (int3store m T a) T = take_bit 24 a \<and>
   uint4korr (int4store m T a) T = a \<and> uint5korr (int5store m T b) T = take_bit 40 b \<and>
   uint6korr (int6store m T b) T = take_bit 48 b \<and> uint8korr (int8store m T b) T = b \<and>
   (\<forall>j. j < T \<or> T + 2 \<le> j \<longrightarrow> int2store m T a j = m j) \<and> (\<forall>j. j < T \<or> T + 3 \<le> j \<longrightarrow> int3store m T a j = m j) \<and>
   (\<forall>j. j < T \<or> T + 4 \<le> j \<longrightarrow> int4store m T a j = m j) \<and> (\<forall>j. j < T \<or> T + 5 \<le> j \<longrightarrow> int5store m T b j = m j) \<and>
   (\<forall>j. j < T \<or> T + 6 \<le> j \<longrightarrow> int6store m T b j = m j) \<and> (\<forall>j. j < T \<or> T + 8 \<le> j \<longrightarrow> int8store m T b j = m j)"
  by (simp add: le2.round_trip le3.round_trip le4.round_trip le5.round_trip le6.round_trip
      le8.round_trip le2.store_frame le3.store_frame le4.store_frame le5.store_frame
      le6.store_frame le8.store_frame ucast_take16 take_bit_word_eq_self)

theorem byte_order_round_trip_witness:
  "uint3korr (int3store (\<lambda>_. 7) 5 0x12345678) 5 = 0x345678 \<and>
   int3store (\<lambda>_. 7) 5 0x12345678 4 = 7 \<and> int3store (\<lambda>_. 7) 5 0x12345678 8 = 7"
proof -
  note t = byte_order_round_trip [where m = "\<lambda>_. 7" and T = 5 and a = "0x12345678"]
  have "uint3korr (int3store (\<lambda>_. 7) 5 0x12345678) 5 = take_bit 24 0x12345678" using t by blast
  moreover have "int3store (\<lambda>_. 7) 5 0x12345678 j = 7" if "j < 5 \<or> 5 + 3 \<le> j" for j using t that by blast
  ultimately show ?thesis by simp
qed

text \<open>The direct accesses used on 64-bit and on 32-bit Intel processors read and write exactly the
  same bytes as the portable macros, so data written by either is readable by the other.\<close>

theorem byte_order_arch_equiv:
  "uint2korr_x86 = uint2korr \<and> uint3korr_x86 = uint3korr \<and> uint4korr_x86 = uint4korr \<and>
   uint5korr_x86 = uint5korr \<and> uint6korr_x86 = uint6korr \<and> uint8korr_x86 = uint8korr \<and>
   int2store_x86 = int2store \<and> int3store_x86 = int3store \<and> int4store_x86 = int4store \<and>
   int5store_x86 = int5store \<and> int6store_x86 = int6store \<and> int8store_x86 = int8store \<and>
   sint2korr_x86 = sint2korr \<and> sint3korr_x86 = sint3korr \<and> sint4korr_x86 = sint4korr \<and>
   sint8korr_x86 = sint8korr \<and>
   uint2korr_i386 = uint2korr \<and> uint3korr_i386 = uint3korr \<and> uint4korr_i386 = uint4korr \<and>
   uint5korr_i386 = uint5korr \<and> uint6korr_i386 = uint6korr \<and> uint8korr_i386 = uint8korr \<and>
   int2store_i386 = int2store \<and> int3store_i386 = int3store \<and> int4store_i386 = int4store \<and>
   int5store_i386 = int5store \<and> int6store_i386 = int6store \<and> int8store_i386 = int8store \<and>
   sint2korr_i386 = sint2korr \<and> sint3korr_i386 = sint3korr \<and> sint4korr_i386 = sint4korr \<and>
   sint8korr_i386 = sint8korr"
  by (auto simp: arch_unique sint_readers fun_eq_iff sint3korr_x86_def sint3korr_i386_def sint3korr_def)

text \<open>The three-byte signed readers extend the sign: the result is the stored 24-bit number read in
  two's complement, and every number from \<open>-2^23\<close> to \<open>2^23 - 1\<close> survives storing and reading.\<close>

theorem sint3korr_correct:
  "sint (sint3korr m A) =
     (if uint (uint3korr m A) < 2 ^ 23 then uint (uint3korr m A) else uint (uint3korr m A) - 2 ^ 24) \<and>
   sint3korr (int3store m T a) T = signed_take_bit 23 a"
proof
  have v: "uint (uint3korr m A) < 2 ^ 24"
  proof -
    have "take_bit 24 (uint3korr m A) = uint3korr m A"
      unfolding le3.korr_bytes by (rule bit_word_eqI) (auto simp: bit_take_bit_iff bit_le_bytes)
    then show ?thesis by (metis take_bit_int_less_exp unsigned_take_bit_eq)
  qed
  then have w: "sint (uint3korr m A) = uint (uint3korr m A)" 
    by (simp add: sint_uint signed_take_bit_eq_take_bit_shift take_bit_eq_mod add.commute)
  have c: "sint (signed_take_bit 23 x) = signed_take_bit 23 (sint x)" for x :: uint32
    by (rule bit_eqI) (auto simp: bit_simps min_def)
  show "sint (sint3korr m A) =
     (if uint (uint3korr m A) < 2 ^ 23 then uint (uint3korr m A) else uint (uint3korr m A) - 2 ^ 24)"
  proof -
    have "signed_take_bit 23 x = (if x < 2 ^ 23 then x else x - 2 ^ 24)" if "0 \<le> x" "x < 2 ^ 24" for x :: int
      using that mod_pos_pos_trivial [of "x - 2 ^ 23" "2 ^ 24"] mod_add_self2 [of "x - 2 ^ 23" "2 ^ 24"]
      by (auto simp: signed_take_bit_eq_take_bit_shift take_bit_eq_mod add.commute)
    then show ?thesis using v by (simp add: sint3korr_signed c w)
  qed
  show "sint3korr (int3store m T a) T = signed_take_bit 23 a"
    by (simp add: sint3korr_signed le3.round_trip signed_take_bit_take_bit)
qed

end
