(* ===== verification/Myisampack.thy ===== *)
theory Myisampack
  imports Byte_Order
begin

text \<open>
  Numbers stored with the high byte first, as in the keys and the row and file pointers of a
  MyISAM index: the macros of \<^verbatim>\<open>myisampack.h\<close>, \<open>int4net\<close> of \<^verbatim>\<open>my_byteorder.h\<close>, and the versions of
  five to eight bytes of \<^verbatim>\<open>byte_order_generic_x86_64.h\<close> built on a byte swap. The point of the
  format is that the bytes of two numbers compare like the numbers.
\<close>

section \<open>High byte first\<close>

(* @myisampack.h 28-29 mi_sint1korr *)
definition mi_sint1korr :: "memory \<Rightarrow> nat \<Rightarrow> uint8" where
  "mi_sint1korr m A = m A"

(* @myisampack.h 30-30 mi_uint1korr *)
definition mi_uint1korr :: "memory \<Rightarrow> nat \<Rightarrow> uint8" where
  "mi_uint1korr m A = m A"

(* @myisampack.h 32-33 mi_sint2korr *)
definition mi_sint2korr :: "memory \<Rightarrow> nat \<Rightarrow> uint16" where
  "mi_sint2korr m A =
     (ucast (m (A + 1)) :: uint16) OR
     push_bit 8 (ucast (m A) :: uint16)"

(* @myisampack.h 34-41 mi_sint3korr *)
definition mi_sint3korr :: "memory \<Rightarrow> nat \<Rightarrow> uint32" where
  "mi_sint3korr m A =
     (if m A AND 128 \<noteq> 0
      then push_bit 24 255 OR
        push_bit 16 (ucast (m A) :: uint32) OR
        push_bit 8 (ucast (m (A + 1)) :: uint32) OR
        (ucast (m (A + 2)) :: uint32)
      else
        push_bit 16 (ucast (m A) :: uint32) OR
        push_bit 8 (ucast (m (A + 1)) :: uint32) OR
        (ucast (m (A + 2)) :: uint32))"

(* @myisampack.h 42-45 mi_sint4korr *)
definition mi_sint4korr :: "memory \<Rightarrow> nat \<Rightarrow> uint32" where
  "mi_sint4korr m A =
     (ucast (m (A + 3)) :: uint32) OR
     push_bit 8 (ucast (m (A + 2)) :: uint32) OR
     push_bit 16 (ucast (m (A + 1)) :: uint32) OR
     push_bit 24 (ucast (m A) :: uint32)"

(* @myisampack.h 47-48 mi_uint2korr *)
definition mi_uint2korr :: "memory \<Rightarrow> nat \<Rightarrow> uint16" where
  "mi_uint2korr m A =
     (ucast (m (A + 1)) :: uint16) OR
     push_bit 8 (ucast (m A) :: uint16)"

(* @myisampack.h 49-51 mi_uint3korr *)
definition mi_uint3korr :: "memory \<Rightarrow> nat \<Rightarrow> uint32" where
  "mi_uint3korr m A =
     (ucast (m (A + 2)) :: uint32) OR
     push_bit 8 (ucast (m (A + 1)) :: uint32) OR
     push_bit 16 (ucast (m A) :: uint32)"

(* @myisampack.h 52-55 mi_uint4korr *)
definition mi_uint4korr :: "memory \<Rightarrow> nat \<Rightarrow> uint32" where
  "mi_uint4korr m A =
     (ucast (m (A + 3)) :: uint32) OR
     push_bit 8 (ucast (m (A + 2)) :: uint32) OR
     push_bit 16 (ucast (m (A + 1)) :: uint32) OR
     push_bit 24 (ucast (m A) :: uint32)"

(* @myisampack.h 57-63 mi_uint5korr *)
definition mi_uint5korr :: "memory \<Rightarrow> nat \<Rightarrow> ulonglong" where
  "mi_uint5korr m A =
     ucast ((ucast (m (A + 4)) :: uint32) OR
          push_bit 8 (ucast (m (A + 3)) :: uint32) OR
          push_bit 16 (ucast (m (A + 2)) :: uint32) OR
          push_bit 24 (ucast (m (A + 1)) :: uint32)) OR
     push_bit 32 (ucast (m A) :: ulonglong)"

(* @myisampack.h 65-73 mi_uint6korr *)
definition mi_uint6korr :: "memory \<Rightarrow> nat \<Rightarrow> ulonglong" where
  "mi_uint6korr m A =
     ucast ((ucast (m (A + 5)) :: uint32) OR
          push_bit 8 (ucast (m (A + 4)) :: uint32) OR
          push_bit 16 (ucast (m (A + 3)) :: uint32) OR
          push_bit 24 (ucast (m (A + 2)) :: uint32)) OR
     push_bit 32 (ucast ((ucast (m (A + 1)) :: uint32) OR
          push_bit 8 (ucast (m A) :: uint32)))"

(* @myisampack.h 75-84 mi_uint7korr *)
definition mi_uint7korr :: "memory \<Rightarrow> nat \<Rightarrow> ulonglong" where
  "mi_uint7korr m A =
     ucast ((ucast (m (A + 6)) :: uint32) OR
          push_bit 8 (ucast (m (A + 5)) :: uint32) OR
          push_bit 16 (ucast (m (A + 4)) :: uint32) OR
          push_bit 24 (ucast (m (A + 3)) :: uint32)) OR
     push_bit 32 (ucast ((ucast (m (A + 2)) :: uint32) OR
          push_bit 8 (ucast (m (A + 1)) :: uint32) OR
          push_bit 16 (ucast (m A) :: uint32)))"

(* @myisampack.h 86-96 mi_uint8korr *)
definition mi_uint8korr :: "memory \<Rightarrow> nat \<Rightarrow> ulonglong" where
  "mi_uint8korr m A =
     ucast ((ucast (m (A + 7)) :: uint32) OR
          push_bit 8 (ucast (m (A + 6)) :: uint32) OR
          push_bit 16 (ucast (m (A + 5)) :: uint32) OR
          push_bit 24 (ucast (m (A + 4)) :: uint32)) OR
     push_bit 32 (ucast ((ucast (m (A + 3)) :: uint32) OR
          push_bit 8 (ucast (m (A + 2)) :: uint32) OR
          push_bit 16 (ucast (m (A + 1)) :: uint32) OR
          push_bit 24 (ucast (m A) :: uint32)))"

(* @myisampack.h 46-46 mi_sint8korr *)
definition mi_sint8korr :: "memory \<Rightarrow> nat \<Rightarrow> ulonglong" where
  "mi_sint8korr m A = mi_uint8korr m A"

(* @my_byteorder.h 20-27 int4net *)
definition int4net :: "memory \<Rightarrow> nat \<Rightarrow> uint32" where
  "int4net m A =
     (ucast (m (A + 3)) :: uint32) OR
     push_bit 8 (ucast (m (A + 2)) :: uint32) OR
     push_bit 16 (ucast (m (A + 1)) :: uint32) OR
     push_bit 24 (ucast (m A) :: uint32)"

text \<open>
  \<open>ulong\<close> is 32 bits wide on the Windows build; the macros for five to eight bytes therefore
  split their argument into two halves.
\<close>

(* @myisampack.h 98-99 mi_int1store *)
definition mi_int1store :: "memory \<Rightarrow> nat \<Rightarrow> uint32 \<Rightarrow> memory" where
  "mi_int1store m T a = m(T := ucast a)"

(* @myisampack.h 101-103 mi_int2store *)
definition mi_int2store :: "memory \<Rightarrow> nat \<Rightarrow> uint32 \<Rightarrow> memory" where
  "mi_int2store m T a = m(T + 1 := ucast a, T := ucast (drop_bit 8 a))"

(* @myisampack.h 104-109 mi_int3store *)
definition mi_int3store :: "memory \<Rightarrow> nat \<Rightarrow> uint32 \<Rightarrow> memory" where
  "mi_int3store m T a = m(T + 2 := ucast a, T + 1 := ucast (drop_bit 8 a), T := ucast (drop_bit 16 a))"

(* @myisampack.h 110-114 mi_int4store *)
definition mi_int4store :: "memory \<Rightarrow> nat \<Rightarrow> uint32 \<Rightarrow> memory" where
  "mi_int4store m T a = m(T + 3 := ucast a, T + 2 := ucast (drop_bit 8 a), T + 1 := ucast (drop_bit 16 a), T := ucast (drop_bit 24 a))"

(* @myisampack.h 115-121 mi_int5store *)
definition mi_int5store :: "memory \<Rightarrow> nat \<Rightarrow> ulonglong \<Rightarrow> memory" where
  "mi_int5store m T a =
     (let def_temp = ucast a :: uint32; def_temp2 = ucast (drop_bit 32 a) :: uint32
      in m(T + 4 := ucast def_temp, T + 3 := ucast (drop_bit 8 def_temp), T + 2 := ucast (drop_bit 16 def_temp), T + 1 := ucast (drop_bit 24 def_temp), T := ucast def_temp2))"

(* @myisampack.h 122-129 mi_int6store *)
definition mi_int6store :: "memory \<Rightarrow> nat \<Rightarrow> ulonglong \<Rightarrow> memory" where
  "mi_int6store m T a =
     (let def_temp = ucast a :: uint32; def_temp2 = ucast (drop_bit 32 a) :: uint32
      in m(T + 5 := ucast def_temp, T + 4 := ucast (drop_bit 8 def_temp), T + 3 := ucast (drop_bit 16 def_temp), T + 2 := ucast (drop_bit 24 def_temp), T + 1 := ucast def_temp2, T := ucast (drop_bit 8 def_temp2)))"

(* @myisampack.h 130-138 mi_int7store *)
definition mi_int7store :: "memory \<Rightarrow> nat \<Rightarrow> ulonglong \<Rightarrow> memory" where
  "mi_int7store m T a =
     (let def_temp = ucast a :: uint32; def_temp2 = ucast (drop_bit 32 a) :: uint32
      in m(T + 6 := ucast def_temp, T + 5 := ucast (drop_bit 8 def_temp), T + 4 := ucast (drop_bit 16 def_temp), T + 3 := ucast (drop_bit 24 def_temp), T + 2 := ucast def_temp2, T + 1 := ucast (drop_bit 8 def_temp2), T := ucast (drop_bit 16 def_temp2)))"

(* @myisampack.h 139-142 mi_int8store *)
definition mi_int8store :: "memory \<Rightarrow> nat \<Rightarrow> ulonglong \<Rightarrow> memory" where
  "mi_int8store m T a =
     (let def_temp3 = ucast a; def_temp4 = ucast (drop_bit 32 a)
      in mi_int4store (mi_int4store m T def_temp4) (T + 4) def_temp3)"

text \<open>
  Row numbers and file sizes: \<open>BIG_TABLES\<close> is defined in \<^verbatim>\<open>my_config.h\<close>, and \<^verbatim>\<open>my_global.h\<close> sets
  \<open>SIZEOF_OFF_T\<close> to 8 on Windows.
\<close>

(* @myisampack.h 237-238 mi_rowstore *)
definition mi_rowstore :: "memory \<Rightarrow> nat \<Rightarrow> ulonglong \<Rightarrow> memory" where
  "mi_rowstore m T a = mi_int8store m T a"

(* @myisampack.h 239-239 mi_rowkorr *)
definition mi_rowkorr :: "memory \<Rightarrow> nat \<Rightarrow> ulonglong" where
  "mi_rowkorr m T = mi_uint8korr m T"

(* @myisampack.h 246-247 mi_sizestore *)
definition mi_sizestore :: "memory \<Rightarrow> nat \<Rightarrow> ulonglong \<Rightarrow> memory" where
  "mi_sizestore m T a = mi_int8store m T a"

(* @myisampack.h 248-248 mi_sizekorr *)
definition mi_sizekorr :: "memory \<Rightarrow> nat \<Rightarrow> ulonglong" where
  "mi_sizekorr m T = mi_uint8korr m T"
section \<open>Byte swaps\<close>

text \<open>The instruction \<open>bswapq\<close> reverses the eight bytes of a register.\<close>

definition bswapq :: "ulonglong \<Rightarrow> ulonglong" where
  "bswapq v = le_bytes 8 (\<lambda>i. ucast (drop_bit (8 * (7 - i)) v))"

(* @byte_order_generic_x86_64.h 90-97 mi_uint5korr *)
definition mi_uint5korr_x86 :: "memory \<Rightarrow> nat \<Rightarrow> ulonglong" where
  "mi_uint5korr_x86 m p =
     (let a = ucast (peek m p :: uint32); b = ucast (m (p + 4));
          v = push_bit 24 (a OR push_bit 32 b)
      in bswapq v)"

(* @byte_order_generic_x86_64.h 99-106 mi_uint6korr *)
definition mi_uint6korr_x86 :: "memory \<Rightarrow> nat \<Rightarrow> ulonglong" where
  "mi_uint6korr_x86 m p =
     (let a = ucast (peek m p :: uint32); b = ucast (peek m (p + 4) :: uint16);
          v = push_bit 16 (a OR push_bit 32 b)
      in bswapq v)"

(* @byte_order_generic_x86_64.h 108-116 mi_uint7korr *)
definition mi_uint7korr_x86 :: "memory \<Rightarrow> nat \<Rightarrow> ulonglong" where
  "mi_uint7korr_x86 m p =
     (let a = ucast (peek m p :: uint32); b = ucast (peek m (p + 4) :: uint16); c = ucast (m (p + 6));
          v = push_bit 8 (a OR push_bit 32 b OR push_bit 48 c)
      in bswapq v)"

(* @byte_order_generic_x86_64.h 118-123 mi_uint8korr *)
definition mi_uint8korr_x86 :: "memory \<Rightarrow> nat \<Rightarrow> ulonglong" where
  "mi_uint8korr_x86 m p = bswapq (peek m p)"

section \<open>The big-endian contract\<close>

text \<open>\<open>memcmp\<close> compares two byte ranges as unsigned characters, the first difference decides.\<close>

primrec memcmp_less :: "nat \<Rightarrow> memory \<Rightarrow> nat \<Rightarrow> nat \<Rightarrow> bool" where
  "memcmp_less 0 m A B = False"
| "memcmp_less (Suc n) m A B = (m A < m B \<or> (m A = m B \<and> memcmp_less n m (A + 1) (B + 1)))"

definition be_value :: "nat \<Rightarrow> memory \<Rightarrow> nat \<Rightarrow> nat" where
  "be_value n m A = (\<Sum>i<n. unat (m (A + (n - 1 - i))) * 256 ^ i)"

lemma be_value_Suc: "be_value (Suc n) m A = unat (m A) * 256 ^ n + be_value n m (A + 1)"
proof -
  have "(\<Sum>i<n. unat (m (A + (n - i))) * 256 ^ i) = (\<Sum>i<n. unat (m (A + 1 + (n - 1 - i))) * 256 ^ i)"
    by (rule sum.cong) (simp_all add: Suc_diff_Suc)
  then show ?thesis by (simp add: be_value_def)
qed

lemma be_value_bound: "be_value n m A < 256 ^ n"
proof (induction n arbitrary: A)
  case (Suc n)
  have "unat (m A) \<le> 255" using unsigned_less [of "m A", where ?'a = nat] by simp
  then have "unat (m A) * 256 ^ n \<le> 255 * 256 ^ n" by simp
  then show ?case using Suc [of "A + 1"] unfolding be_value_Suc power_Suc by linarith
qed (simp add: be_value_def)

lemma digit_less:
  assumes "x < p" "y < (p :: nat)"
  shows "a * p + x < b * p + y \<longleftrightarrow> a < b \<or> (a = b \<and> x < y)"
proof -
  have "a * p + x < b * p + y" if "a < b" "x < p" for a b x y :: nat
    using that mult_le_mono1 [of "Suc a" b p] by simp
  then show ?thesis using assms by (metis add_less_cancel_left linorder_neqE_nat order_less_asym)
qed

lemma be_value_less: "be_value n m A < be_value n m B \<longleftrightarrow> memcmp_less n m A B"
proof (induction n arbitrary: A B)
  case (Suc n)
  show ?case
    using Suc [of "A + 1" "B + 1"]
    by (simp add: be_value_Suc digit_less be_value_bound word_less_nat_alt flip: word_unat_eq_iff)
qed (simp add: be_value_def)

locale be_codec =
  fixes korr :: "memory \<Rightarrow> nat \<Rightarrow> 'a::len word"
    and store :: "memory \<Rightarrow> nat \<Rightarrow> 'b::len word \<Rightarrow> memory"
    and n :: nat
  assumes be_width: "8 * n \<le> LENGTH('a)" "8 * n \<le> LENGTH('b)"
    and be_korr: "korr m A = le_bytes n (\<lambda>i. m (A + (n - 1 - i)))"
    and be_store: "i < n \<Longrightarrow> store m T a (T + (n - 1 - i)) = ucast (drop_bit (8 * i) a)"
    and be_frame: "j < T \<or> T + n \<le> j \<Longrightarrow> store m T a j = m j"

lemma bij_betw_reverse: "bij_betw (\<lambda>i. n - 1 - i) {..<n} {..<n :: nat}"
  by (rule bij_betw_byWitness [where f' = "\<lambda>i. n - 1 - i"]) auto

sublocale be_codec \<subseteq> byte_codec korr store n "\<lambda>i. n - 1 - i"
  by unfold_locales (use be_width be_korr be_store be_frame bij_betw_reverse in \<open>blast+\<close>)

context be_codec
begin

lemma memcmp_order: "korr m A < korr m B \<longleftrightarrow> memcmp_less n m A B"
  unfolding word_less_nat_alt korr_value be_value_def [symmetric] by (rule be_value_less)

end

section \<open>The macros meet the contract\<close>

interpretation be1: be_codec mi_uint1korr mi_int1store 1
  by unfold_locales (auto simp: mi_uint1korr_def mi_int1store_def)

interpretation be2: be_codec mi_uint2korr mi_int2store 2
  by unfold_locales (auto simp: mi_uint2korr_def mi_int2store_def byte_reads byte_writes)

interpretation be3: be_codec mi_uint3korr mi_int3store 3
  by unfold_locales (auto simp: mi_uint3korr_def mi_int3store_def byte_reads byte_writes)

interpretation be4: be_codec mi_uint4korr mi_int4store 4
  by unfold_locales (auto simp: mi_uint4korr_def mi_int4store_def byte_reads byte_writes)

interpretation be5: be_codec mi_uint5korr mi_int5store 5
  by unfold_locales (auto simp: mi_uint5korr_def mi_int5store_def Let_def byte_reads byte_writes)

interpretation be6: be_codec mi_uint6korr mi_int6store 6
  by unfold_locales (auto simp: mi_uint6korr_def mi_int6store_def Let_def byte_reads byte_writes)

interpretation be7: be_codec mi_uint7korr mi_int7store 7
  by unfold_locales (auto simp: mi_uint7korr_def mi_int7store_def Let_def byte_reads byte_writes)

interpretation be8: be_codec mi_uint8korr mi_int8store 8
  by unfold_locales (auto simp: mi_uint8korr_def mi_int8store_def mi_int4store_def Let_def byte_reads byte_writes)

lemma ucast_take8: "ucast (take_bit 8 (a :: uint32)) = (ucast a :: uint8)"
  by (rule bit_word_eqI) (simp add: bit_simps)

section \<open>Byte swaps read the big-endian number\<close>

lemma bswapq_shifted:
  assumes "n \<le> 8" "0 < n"
  shows "bswapq (push_bit (8 * (8 - n)) (le_bytes n f)) = le_bytes n (\<lambda>i. f (n - 1 - i))"
proof (rule bit_word_eqI)
  fix k assume "k < LENGTH(64)"
  then have k: "k < 64" by simp
  define i r where "i = k div 8" and "r = k mod 8"
  have ir: "i < 8" "r < 8" "k < 8 * n \<longleftrightarrow> i < n" using k by (auto simp: i_def r_def)
  have "bit (bswapq (push_bit (8 * (8 - n)) (le_bytes n f))) k \<longleftrightarrow>
      8 * (8 - n) \<le> 8 * (7 - i) + r \<and> bit (le_bytes n f :: ulonglong) (8 * (7 - i) + r - 8 * (8 - n))"
    using k ir by (auto simp: bswapq_def bit_le_bytes bit_simps simp flip: i_def r_def)
  also have "\<dots> \<longleftrightarrow> i < n \<and> bit (f (n - 1 - i)) r"
  proof (cases "i < n")
    case True
    then have "8 * (7 - i) + r - 8 * (8 - n) = 8 * (n - 1 - i) + r" "8 * (8 - n) \<le> 8 * (7 - i) + r"
      using assms by auto
    moreover have "8 * (n - 1 - i) + r < 8 * n" "(8 * (n - 1 - i) + r) div 8 = n - 1 - i"
      "(8 * (n - 1 - i) + r) mod 8 = r"
      using ir True by auto
    ultimately show ?thesis using True assms by (simp add: bit_le_bytes)
  qed (use ir assms in auto)
  also have "\<dots> \<longleftrightarrow> bit (le_bytes n (\<lambda>i. f (n - 1 - i)) :: ulonglong) k"
    using k ir by (simp add: bit_le_bytes flip: i_def r_def)
  finally show "bit (bswapq (push_bit (8 * (8 - n)) (le_bytes n f))) k \<longleftrightarrow>
      bit (le_bytes n (\<lambda>i. f (n - 1 - i)) :: ulonglong) k" .
qed

lemma mi_readers_x86:
  "mi_uint5korr_x86 m p = bswapq (push_bit (8 * (8 - 5)) (uint5korr m p))"
  "mi_uint6korr_x86 m p = bswapq (push_bit (8 * (8 - 6)) (uint6korr m p))"
  "mi_uint7korr_x86 m p = bswapq (push_bit (8 * (8 - 7)) (le_bytes 7 (\<lambda>i. m (p + i))))"
  "mi_uint8korr_x86 m p = bswapq (push_bit (8 * (8 - 8)) (uint8korr m p))"
proof -
  have eq: "uint5korr_x86 = uint5korr" "uint6korr_x86 = uint6korr" "uint8korr_x86 = uint8korr"
    by (auto simp: arch_unique)
  show "mi_uint5korr_x86 m p = bswapq (push_bit (8 * (8 - 5)) (uint5korr m p))"
    by (simp add: mi_uint5korr_x86_def uint5korr_x86_def Let_def flip: eq)
  show "mi_uint6korr_x86 m p = bswapq (push_bit (8 * (8 - 6)) (uint6korr m p))"
    by (simp add: mi_uint6korr_x86_def uint6korr_x86_def Let_def flip: eq)
  have "le_bytes 7 (\<lambda>i. m (p + i)) = uint6korr_x86 m p OR push_bit 48 (ucast (m (p + 6)))"
    by (simp add: le_bytes_numeral x86le6.le_korr)
  then show "mi_uint7korr_x86 m p = bswapq (push_bit (8 * (8 - 7)) (le_bytes 7 (\<lambda>i. m (p + i))))"
    by (simp add: mi_uint7korr_x86_def uint6korr_x86_def Let_def or.assoc)
  show "mi_uint8korr_x86 m p = bswapq (push_bit (8 * (8 - 8)) (uint8korr m p))"
    by (simp add: mi_uint8korr_x86_def uint8korr_x86_def flip: eq)
qed

lemma mi_sint3korr_signed: "mi_sint3korr m A = sint3korr (\<lambda>i. m (A + (2 - i))) 0"
  by (simp add: mi_sint3korr_def sint3korr_def numeral_2_eq_2)

section \<open>Properties\<close>

text \<open>Numbers of one to eight bytes stored high byte first are ordered by a byte comparison of their
  images in the same way as by their values, which is what lets an index compare keys with
  \<open>memcmp\<close>.\<close>

theorem mi_korr_memcmp_order:
  "(mi_uint1korr m A < mi_uint1korr m B \<longleftrightarrow> memcmp_less 1 m A B) \<and>
   (mi_uint2korr m A < mi_uint2korr m B \<longleftrightarrow> memcmp_less 2 m A B) \<and>
   (mi_uint3korr m A < mi_uint3korr m B \<longleftrightarrow> memcmp_less 3 m A B) \<and>
   (mi_uint4korr m A < mi_uint4korr m B \<longleftrightarrow> memcmp_less 4 m A B) \<and>
   (mi_uint5korr m A < mi_uint5korr m B \<longleftrightarrow> memcmp_less 5 m A B) \<and>
   (mi_uint6korr m A < mi_uint6korr m B \<longleftrightarrow> memcmp_less 6 m A B) \<and>
   (mi_uint7korr m A < mi_uint7korr m B \<longleftrightarrow> memcmp_less 7 m A B) \<and>
   (mi_uint8korr m A < mi_uint8korr m B \<longleftrightarrow> memcmp_less 8 m A B)"
  by (simp only: be1.memcmp_order be2.memcmp_order be3.memcmp_order be4.memcmp_order
      be5.memcmp_order be6.memcmp_order be7.memcmp_order be8.memcmp_order simp_thms)

text \<open>A number stored with one of the high-byte-first macros is read back with its low bits intact,
  and reading a number and storing it again leaves the memory as it was.\<close>

theorem mi_round_trip:
  "mi_uint1korr (mi_int1store m T a) T = ucast a \<and> mi_uint2korr (mi_int2store m T a) T = ucast a \<and>
   mi_uint3korr (mi_int3store m T a) T = take_bit 24 a \<and> mi_uint4korr (mi_int4store m T a) T = a \<and>
   mi_uint5korr (mi_int5store m T b) T = take_bit 40 b \<and> mi_uint6korr (mi_int6store m T b) T = take_bit 48 b \<and>
   mi_uint7korr (mi_int7store m T b) T = take_bit 56 b \<and> mi_uint8korr (mi_int8store m T b) T = b \<and>
   mi_rowkorr (mi_rowstore m T b) T = b \<and> mi_sizekorr (mi_sizestore m T b) T = b \<and>
   int4net (mi_int4store m T a) T = a \<and> mi_sint3korr (mi_int3store m T a) T = signed_take_bit 23 a \<and>
   mi_int4store m T (mi_uint4korr m T) = m \<and> mi_int8store m T (mi_uint8korr m T) = m"
proof -
  have net: "int4net = mi_uint4korr" by (simp add: fun_eq_iff int4net_def mi_uint4korr_def)
  have ids: "mi_int4store m T (mi_uint4korr m T) = m" "mi_int8store m T (mi_uint8korr m T) = m"
    using be4.store_korr [of m T] be8.store_korr [of m T] by simp_all
  have s3: "mi_sint3korr (mi_int3store m T a) T = signed_take_bit 23 a"
    unfolding mi_sint3korr_signed sint3korr_signed le3.korr_bytes
    using be3.round_trip [of m T a]
    by (simp add: be3.korr_bytes signed_take_bit_take_bit)
  show ?thesis
    using s3 ids
    by (simp add: net mi_rowkorr_def mi_rowstore_def mi_sizekorr_def mi_sizestore_def ucast_take16
        be1.round_trip be2.round_trip be3.round_trip be4.round_trip be5.round_trip
        be6.round_trip be7.round_trip be8.round_trip take_bit_word_eq_self ucast_take8)
qed

text \<open>The readers of five to eight bytes that load a register and swap its bytes return the same
  number as the portable macros.\<close>

theorem mi_bswap_equiv:
  "mi_uint5korr_x86 = mi_uint5korr \<and> mi_uint6korr_x86 = mi_uint6korr \<and>
   mi_uint7korr_x86 = mi_uint7korr \<and> mi_uint8korr_x86 = mi_uint8korr"
  by (simp add: fun_eq_iff mi_readers_x86 le5.korr_bytes le6.korr_bytes le8.korr_bytes
      be5.korr_bytes be6.korr_bytes be7.korr_bytes be8.korr_bytes bswapq_shifted [of 5, simplified]
      bswapq_shifted [of 6, simplified] bswapq_shifted [of 7, simplified] bswapq_shifted [of 8, simplified])

end
