(* ===== verification/Float_Order.thy ===== *)
theory Float_Order
  imports Myisampack
begin

text \<open>
  Moving floating-point and machine-order values between variables and memory:
  \<^verbatim>\<open>little_endian.h\<close>, \<^verbatim>\<open>big_endian.h\<close>, the floating-point macros of \<^verbatim>\<open>myisampack.h\<close> and of
  \<^verbatim>\<open>byte_order_generic_x86.h\<close>, every preprocessor branch. A variable is an object of its own, a
  map from byte offsets to bytes in the order the machine keeps them; the macros copy four or
  eight of its bytes and never look at the number they encode. The suffix \<open>be\<close> marks the
  branches for machines that store integers and floats high byte first, \<open>wbe\<close> those for
  machines that store only the two words of a double in that order.
\<close>

type_synonym object = "nat \<Rightarrow> uchar"

text \<open>\<open>memcpy\<close> between a variable and memory.\<close>

definition memcpy_to :: "memory \<Rightarrow> nat \<Rightarrow> object \<Rightarrow> nat \<Rightarrow> memory" where
  "memcpy_to m T v n = (\<lambda>j. if T \<le> j \<and> j < T + n then v (j - T) else m j)"

definition memcpy_from :: "object \<Rightarrow> memory \<Rightarrow> nat \<Rightarrow> nat \<Rightarrow> object" where
  "memcpy_from v m M n = (\<lambda>j. if j < n then m (M + j) else v j)"

section \<open>Index files (\<^verbatim>\<open>myisampack.h\<close>)\<close>

(* @myisampack.h 146-149 mi_float4store *)
definition mi_float4store_be :: "memory \<Rightarrow> nat \<Rightarrow> object \<Rightarrow> memory" where
  "mi_float4store_be m T v =
     m(T := v 0, T + 1 := v 1, T + 2 := v 2, T + 3 := v 3)"

(* @myisampack.h 151-156 mi_float4get *)
definition mi_float4get_be :: "object \<Rightarrow> memory \<Rightarrow> nat \<Rightarrow> object" where
  "mi_float4get_be v m M =
     v(0 := m M, 1 := m (M + 1), 2 := m (M + 2), 3 := m (M + 3))"

(* @myisampack.h 158-165 mi_float8store *)
definition mi_float8store_be :: "memory \<Rightarrow> nat \<Rightarrow> object \<Rightarrow> memory" where
  "mi_float8store_be m T v =
     m(T := v 0, T + 1 := v 1, T + 2 := v 2, T + 3 := v 3, T + 4 := v 4, T + 5 := v 5, T + 6 := v 6, T + 7 := v 7)"

(* @myisampack.h 167-176 mi_float8get *)
definition mi_float8get_be :: "object \<Rightarrow> memory \<Rightarrow> nat \<Rightarrow> object" where
  "mi_float8get_be v m M =
     v(0 := m M, 1 := m (M + 1), 2 := m (M + 2), 3 := m (M + 3), 4 := m (M + 4), 5 := m (M + 5), 6 := m (M + 6), 7 := m (M + 7))"

(* @myisampack.h 179-182 mi_float4store *)
definition mi_float4store :: "memory \<Rightarrow> nat \<Rightarrow> object \<Rightarrow> memory" where
  "mi_float4store m T v =
     m(T := v 3, T + 1 := v 2, T + 2 := v 1, T + 3 := v 0)"

(* @myisampack.h 184-189 mi_float4get *)
definition mi_float4get :: "object \<Rightarrow> memory \<Rightarrow> nat \<Rightarrow> object" where
  "mi_float4get v m M =
     v(0 := m (M + 3), 1 := m (M + 2), 2 := m (M + 1), 3 := m M)"

(* @myisampack.h 192-199 mi_float8store *)
definition mi_float8store_wbe :: "memory \<Rightarrow> nat \<Rightarrow> object \<Rightarrow> memory" where
  "mi_float8store_wbe m T v =
     m(T := v 3, T + 1 := v 2, T + 2 := v 1, T + 3 := v 0, T + 4 := v 7, T + 5 := v 6, T + 6 := v 5, T + 7 := v 4)"

(* @myisampack.h 201-210 mi_float8get *)
definition mi_float8get_wbe :: "object \<Rightarrow> memory \<Rightarrow> nat \<Rightarrow> object" where
  "mi_float8get_wbe v m M =
     v(0 := m (M + 3), 1 := m (M + 2), 2 := m (M + 1), 3 := m M, 4 := m (M + 7), 5 := m (M + 6), 6 := m (M + 5), 7 := m (M + 4))"

(* @myisampack.h 213-220 mi_float8store *)
definition mi_float8store :: "memory \<Rightarrow> nat \<Rightarrow> object \<Rightarrow> memory" where
  "mi_float8store m T v =
     m(T := v 7, T + 1 := v 6, T + 2 := v 5, T + 3 := v 4, T + 4 := v 3, T + 5 := v 2, T + 6 := v 1, T + 7 := v 0)"

(* @myisampack.h 222-231 mi_float8get *)
definition mi_float8get :: "object \<Rightarrow> memory \<Rightarrow> nat \<Rightarrow> object" where
  "mi_float8get v m M =
     v(0 := m (M + 7), 1 := m (M + 6), 2 := m (M + 5), 3 := m (M + 4), 4 := m (M + 3), 5 := m (M + 2), 6 := m (M + 1), 7 := m M)"

section \<open>Low byte first on big-endian machines (\<^verbatim>\<open>big_endian.h\<close>)\<close>

(* @big_endian.h 19-22 float4store *)
definition float4store_be :: "memory \<Rightarrow> nat \<Rightarrow> object \<Rightarrow> memory" where
  "float4store_be m T v =
     m(T := v 3, T + 1 := v 2, T + 2 := v 1, T + 3 := v 0)"

(* @big_endian.h 24-29 float4get *)
definition float4get_be :: "object \<Rightarrow> memory \<Rightarrow> nat \<Rightarrow> object" where
  "float4get_be v m M =
     v(0 := m (M + 3), 1 := m (M + 2), 2 := m (M + 1), 3 := m M)"

(* @big_endian.h 31-38 float8store *)
definition float8store_be :: "memory \<Rightarrow> nat \<Rightarrow> object \<Rightarrow> memory" where
  "float8store_be m T v =
     m(T := v 7, T + 1 := v 6, T + 2 := v 5, T + 3 := v 4, T + 4 := v 3, T + 5 := v 2, T + 6 := v 1, T + 7 := v 0)"

(* @big_endian.h 40-49 float8get *)
definition float8get_be :: "object \<Rightarrow> memory \<Rightarrow> nat \<Rightarrow> object" where
  "float8get_be v m M =
     v(0 := m (M + 7), 1 := m (M + 6), 2 := m (M + 5), 3 := m (M + 4), 4 := m (M + 3), 5 := m (M + 2), 6 := m (M + 1), 7 := m M)"

text \<open>
  Integers in machine order. \<open>longget\<close> and \<open>ulongget\<close> copy the bytes of the variable, which on these
  machines holds its high byte first.
\<close>

(* @big_endian.h 51-52 ushortget *)
definition ushortget_be :: "memory \<Rightarrow> nat \<Rightarrow> uint16" where
  "ushortget_be m M = (ucast (m (M + 1)) :: uint16) + push_bit 8 (ucast (m M) :: uint16)"

(* @big_endian.h 53-54 shortget *)
definition shortget_be :: "memory \<Rightarrow> nat \<Rightarrow> uint16" where
  "shortget_be m M = (ucast (m (M + 1)) :: uint16) + push_bit 8 (ucast (m M) :: uint16)"

(* @big_endian.h 55-60 longget *)
definition longget_be :: "object \<Rightarrow> memory \<Rightarrow> nat \<Rightarrow> object" where
  "longget_be v m M =
     v(0 := m M, 1 := m (M + 1), 2 := m (M + 2), 3 := m (M + 3))"

(* @big_endian.h 61-66 ulongget *)
definition ulongget_be :: "object \<Rightarrow> memory \<Rightarrow> nat \<Rightarrow> object" where
  "ulongget_be v m M =
     v(0 := m M, 1 := m (M + 1), 2 := m (M + 2), 3 := m (M + 3))"

(* @big_endian.h 67-69 shortstore *)
definition shortstore_be :: "memory \<Rightarrow> nat \<Rightarrow> uint32 \<Rightarrow> memory" where
  "shortstore_be m T def_temp = m(T + 1 := ucast def_temp, T := ucast (drop_bit 8 def_temp))"

(* @big_endian.h 70-73 longstore *)
definition longstore_be :: "memory \<Rightarrow> nat \<Rightarrow> uint32 \<Rightarrow> memory" where
  "longstore_be m T a =
     m(T + 3 := ucast a, T + 2 := ucast (drop_bit 8 a), T + 1 := ucast (drop_bit 16 a), T := ucast (drop_bit 24 a))"

(* @big_endian.h 75-75 floatget *)
definition floatget_be :: "object \<Rightarrow> memory \<Rightarrow> nat \<Rightarrow> object" where
  "floatget_be v m M =
     memcpy_from v m M 4"

(* @big_endian.h 77-77 floatstore *)
definition floatstore_be :: "memory \<Rightarrow> nat \<Rightarrow> object \<Rightarrow> memory" where
  "floatstore_be m T v =
     memcpy_to m T v 4"

(* @big_endian.h 78-78 doubleget *)
definition doubleget_be :: "object \<Rightarrow> memory \<Rightarrow> nat \<Rightarrow> object" where
  "doubleget_be v m M =
     memcpy_from v m M 8"

(* @big_endian.h 80-80 doublestore *)
definition doublestore_be :: "memory \<Rightarrow> nat \<Rightarrow> object \<Rightarrow> memory" where
  "doublestore_be m T v =
     memcpy_to m T v 8"

(* @big_endian.h 81-81 longlongget *)
definition longlongget_be :: "object \<Rightarrow> memory \<Rightarrow> nat \<Rightarrow> object" where
  "longlongget_be v m M =
     memcpy_from v m M 8"

(* @big_endian.h 82-82 longlongstore *)
definition longlongstore_be :: "memory \<Rightarrow> nat \<Rightarrow> object \<Rightarrow> memory" where
  "longlongstore_be m T v =
     memcpy_to m T v 8"

section \<open>Low byte first on little-endian machines (\<^verbatim>\<open>little_endian.h\<close>)\<close>

(* @little_endian.h 21-21 float4get *)
definition float4get :: "object \<Rightarrow> memory \<Rightarrow> nat \<Rightarrow> object" where
  "float4get v m M =
     memcpy_from v m M 4"

(* @little_endian.h 22-22 float4store *)
definition float4store :: "memory \<Rightarrow> nat \<Rightarrow> object \<Rightarrow> memory" where
  "float4store m T v =
     memcpy_to m T v 4"

(* @little_endian.h 28-36 doublestore *)
definition doublestore_wbe :: "memory \<Rightarrow> nat \<Rightarrow> object \<Rightarrow> memory" where
  "doublestore_wbe m T v =
     m(T := v 4, T + 1 := v 5, T + 2 := v 6, T + 3 := v 7, T + 4 := v 0, T + 5 := v 1, T + 6 := v 2, T + 7 := v 3)"

(* @little_endian.h 37-46 doubleget *)
definition doubleget_wbe :: "object \<Rightarrow> memory \<Rightarrow> nat \<Rightarrow> object" where
  "doubleget_wbe v m M =
     v(0 := m (M + 4), 1 := m (M + 5), 2 := m (M + 6), 3 := m (M + 7), 4 := m M, 5 := m (M + 1), 6 := m (M + 2), 7 := m (M + 3))"

(* @little_endian.h 50-50 doublestore *)
definition doublestore :: "memory \<Rightarrow> nat \<Rightarrow> object \<Rightarrow> memory" where
  "doublestore m T v =
     memcpy_to m T v 8"

(* @little_endian.h 51-51 doubleget *)
definition doubleget :: "object \<Rightarrow> memory \<Rightarrow> nat \<Rightarrow> object" where
  "doubleget v m M =
     memcpy_from v m M 8"

(* @little_endian.h 23-23 float8get *)
definition float8get :: "object \<Rightarrow> memory \<Rightarrow> nat \<Rightarrow> object" where
  "float8get v m M =
     doubleget v m M"

(* @little_endian.h 24-24 float8store *)
definition float8store :: "memory \<Rightarrow> nat \<Rightarrow> object \<Rightarrow> memory" where
  "float8store m T v =
     doublestore m T v"

(* @little_endian.h 57-57 ushortget *)
definition ushortget :: "memory \<Rightarrow> nat \<Rightarrow> uint16" where
  "ushortget pM M =
     uint2korr pM M"

(* @little_endian.h 58-58 shortget *)
definition shortget :: "memory \<Rightarrow> nat \<Rightarrow> uint16" where
  "shortget pM M =
     sint2korr pM M"

(* @little_endian.h 59-59 longget *)
definition longget :: "memory \<Rightarrow> nat \<Rightarrow> uint32" where
  "longget pM M =
     sint4korr pM M"

(* @little_endian.h 60-60 ulongget *)
definition ulongget :: "memory \<Rightarrow> nat \<Rightarrow> uint32" where
  "ulongget pM M =
     uint4korr pM M"

(* @little_endian.h 61-61 shortstore *)
definition shortstore :: "memory \<Rightarrow> nat \<Rightarrow> uint32 \<Rightarrow> memory" where
  "shortstore m T V =
     int2store m T V"

(* @little_endian.h 62-62 longstore *)
definition longstore :: "memory \<Rightarrow> nat \<Rightarrow> uint32 \<Rightarrow> memory" where
  "longstore m T V =
     int4store m T V"

(* @little_endian.h 66-66 floatstore *)
definition floatstore :: "memory \<Rightarrow> nat \<Rightarrow> object \<Rightarrow> memory" where
  "floatstore m T v =
     memcpy_to m T v 4"

(* @little_endian.h 67-67 floatget *)
definition floatget :: "object \<Rightarrow> memory \<Rightarrow> nat \<Rightarrow> object" where
  "floatget v m M =
     memcpy_from v m M 4"

(* @little_endian.h 74-74 longlongget *)
definition longlongget :: "object \<Rightarrow> memory \<Rightarrow> nat \<Rightarrow> object" where
  "longlongget v m M =
     memcpy_from v m M 8"

(* @little_endian.h 75-75 longlongstore *)
definition longlongstore :: "memory \<Rightarrow> nat \<Rightarrow> object \<Rightarrow> memory" where
  "longlongstore m T v =
     memcpy_to m T v 8"

section \<open>32-bit Intel processors (\<^verbatim>\<open>byte_order_generic_x86.h\<close>)\<close>

text \<open>A double is moved as its two 32-bit halves \<open>m[0]\<close> and \<open>m[1]\<close>; \<open>long\<close> is 32 bits wide.\<close>

(* @byte_order_generic_x86.h 70-78 doubleget *)
definition doubleget_i386 :: "object \<Rightarrow> memory \<Rightarrow> nat \<Rightarrow> object" where
  "doubleget_i386 v m M =
     (let tmp = poke v 0 (peek m M :: uint32) in poke tmp 4 (peek m (M + 4) :: uint32))"

(* @byte_order_generic_x86.h 79-82 doublestore *)
definition doublestore_i386 :: "memory \<Rightarrow> nat \<Rightarrow> object \<Rightarrow> memory" where
  "doublestore_i386 m T v =
     (let m1 = poke m T (peek v 0 :: uint32) in poke m1 (T + 4) (peek v 4 :: uint32))"

(* @byte_order_generic_x86.h 83-84 float4get *)
definition float4get_i386 :: "object \<Rightarrow> memory \<Rightarrow> nat \<Rightarrow> object" where
  "float4get_i386 v m M =
     poke v 0 (peek m M :: uint32)"

(* @byte_order_generic_x86.h 85-85 float8get *)
definition float8get_i386 :: "object \<Rightarrow> memory \<Rightarrow> nat \<Rightarrow> object" where
  "float8get_i386 v m M =
     doubleget_i386 v m M"

(* @byte_order_generic_x86.h 86-86 float4store *)
definition float4store_i386 :: "memory \<Rightarrow> nat \<Rightarrow> object \<Rightarrow> memory" where
  "float4store_i386 m T v =
     memcpy_to m T v 4"

(* @byte_order_generic_x86.h 87-87 floatstore *)
definition floatstore_i386 :: "memory \<Rightarrow> nat \<Rightarrow> object \<Rightarrow> memory" where
  "floatstore_i386 m T v =
     memcpy_to m T v 4"

(* @byte_order_generic_x86.h 88-88 floatget *)
definition floatget_i386 :: "object \<Rightarrow> memory \<Rightarrow> nat \<Rightarrow> object" where
  "floatget_i386 v m M =
     memcpy_from v m M 4"

(* @byte_order_generic_x86.h 89-89 float8store *)
definition float8store_i386 :: "memory \<Rightarrow> nat \<Rightarrow> object \<Rightarrow> memory" where
  "float8store_i386 m T v =
     doublestore_i386 m T v"

section \<open>What a pair of macros promises\<close>

text \<open>
  \<open>store\<close> puts byte \<open>pos i\<close> of the variable at offset \<open>i\<close>, \<open>get\<close> takes it back from there; nothing
  else changes.
\<close>

locale object_codec =
  fixes get :: "object \<Rightarrow> memory \<Rightarrow> nat \<Rightarrow> object"
    and store :: "memory \<Rightarrow> nat \<Rightarrow> object \<Rightarrow> memory"
    and n :: nat
    and pos :: "nat \<Rightarrow> nat"
  assumes pos_inv: "i < n \<Longrightarrow> pos i < n" "i < n \<Longrightarrow> pos (pos i) = i"
    and get_byte: "i < n \<Longrightarrow> get v m M i = m (M + pos i)"
    and store_byte: "i < n \<Longrightarrow> store m T v (T + i) = v (pos i)"
    and store_rest: "j < T \<or> T + n \<le> j \<Longrightarrow> store m T v j = m j"
begin

lemma object_round_trip: "map (get v0 (store m T v) T) [0..<n] = map v [0..<n]"
  by (simp add: get_byte store_byte pos_inv)

lemma image: "map (\<lambda>i. store m T v (T + i)) [0..<n] = map (\<lambda>i. v (pos i)) [0..<n]"
  by (simp add: store_byte)

end

lemma peek_byte:
  "i < 4 \<Longrightarrow> ucast (drop_bit (8 * i) (peek m M :: uint32)) = m (M + i)"
  unfolding peek_def by (rule byte_of_le_bytes) simp_all

lemmas object_access = less_cases memcpy_to_def memcpy_from_def poke_def
  peek_byte [of 0, simplified] peek_byte [of 1, simplified] peek_byte [of 2, simplified] peek_byte [of 3, simplified]

interpretation mf4: object_codec mi_float4get mi_float4store 4 "\<lambda>i. 3 - i"
  by unfold_locales (auto simp: mi_float4get_def mi_float4store_def object_access)

interpretation mf8: object_codec mi_float8get mi_float8store 8 "\<lambda>i. 7 - i"
  by unfold_locales (auto simp: mi_float8get_def mi_float8store_def object_access)

interpretation mf4be: object_codec mi_float4get_be mi_float4store_be 4 "\<lambda>i. i"
  by unfold_locales (auto simp: mi_float4get_be_def mi_float4store_be_def object_access)

interpretation mf8be: object_codec mi_float8get_be mi_float8store_be 8 "\<lambda>i. i"
  by unfold_locales (auto simp: mi_float8get_be_def mi_float8store_be_def object_access)

interpretation mf8wbe: object_codec mi_float8get_wbe mi_float8store_wbe 8 "\<lambda>i. if i < 4 then 3 - i else 11 - i"
  by unfold_locales (auto simp: mi_float8get_wbe_def mi_float8store_wbe_def object_access)

interpretation f4be: object_codec float4get_be float4store_be 4 "\<lambda>i. 3 - i"
  by unfold_locales (auto simp: float4get_be_def float4store_be_def object_access)

interpretation f8be: object_codec float8get_be float8store_be 8 "\<lambda>i. 7 - i"
  by unfold_locales (auto simp: float8get_be_def float8store_be_def object_access)

interpretation fbe: object_codec floatget_be floatstore_be 4 "\<lambda>i. i"
  by unfold_locales (auto simp: floatget_be_def floatstore_be_def object_access)

interpretation dbe: object_codec doubleget_be doublestore_be 8 "\<lambda>i. i"
  by unfold_locales (auto simp: doubleget_be_def doublestore_be_def object_access)

interpretation llbe: object_codec longlongget_be longlongstore_be 8 "\<lambda>i. i"
  by unfold_locales (auto simp: longlongget_be_def longlongstore_be_def object_access)

interpretation f4: object_codec float4get float4store 4 "\<lambda>i. i"
  by unfold_locales (auto simp: float4get_def float4store_def object_access)

interpretation f8: object_codec float8get float8store 8 "\<lambda>i. i"
  by unfold_locales (auto simp: float8get_def float8store_def doubleget_def doublestore_def object_access)

interpretation dwbe: object_codec doubleget_wbe doublestore_wbe 8 "\<lambda>i. if i < 4 then i + 4 else i - 4"
  by unfold_locales (auto simp: doubleget_wbe_def doublestore_wbe_def object_access)

interpretation d: object_codec doubleget doublestore 8 "\<lambda>i. i"
  by unfold_locales (auto simp: doubleget_def doublestore_def object_access)

interpretation f: object_codec floatget floatstore 4 "\<lambda>i. i"
  by unfold_locales (auto simp: floatget_def floatstore_def object_access)

interpretation ll: object_codec longlongget longlongstore 8 "\<lambda>i. i"
  by unfold_locales (auto simp: longlongget_def longlongstore_def object_access)

interpretation f4i: object_codec float4get_i386 float4store_i386 4 "\<lambda>i. i"
  by unfold_locales (auto simp: float4get_i386_def float4store_i386_def object_access)

interpretation di: object_codec doubleget_i386 doublestore_i386 8 "\<lambda>i. i"
  by unfold_locales (auto simp: doubleget_i386_def doublestore_i386_def Let_def object_access add.commute numeral_2_eq_2)

text \<open>An object seen by a machine that keeps the eight bytes, the four bytes, or the two words in the opposite order.\<close>

definition rev8 :: "object \<Rightarrow> object" where "rev8 v i = v (7 - i)"

definition rev4 :: "object \<Rightarrow> object" where "rev4 v i = v (3 - i)"

definition swap_words :: "object \<Rightarrow> object" where "swap_words v i = v (if i < 4 then i + 4 else i - 4)"

lemma ushort_be: "ushortget_be m M = mi_uint2korr m M" "shortget_be m M = mi_uint2korr m M"
proof -
  have d: "\<not> bit (ucast (m (M + 1)) :: uint16) n \<or> \<not> bit (push_bit 8 (ucast (m M)) :: uint16) n" for n
    by (auto simp: bit_simps dest: bit_imp_le_length)
  show "ushortget_be m M = mi_uint2korr m M" "shortget_be m M = mi_uint2korr m M"
    using disjunctive_add [OF d] by (simp_all add: ushortget_be_def shortget_be_def mi_uint2korr_def)
qed

lemma store_ext:
  assumes "object_codec g s n p" "object_codec g' s' n p'" "\<And>i. i < n \<Longrightarrow> v' (p' i) = v (p i)"
  shows "s' m T v' = s m T v"
proof
  fix j show "s' m T v' j = s m T v j"
  proof (cases "j < T \<or> T + n \<le> j")
    case True
    then show ?thesis
      by (simp add: object_codec.store_rest [OF assms(1)] object_codec.store_rest [OF assms(2)])
  next
    case False
    then obtain i where "i < n" "j = T + i" by (metis add_less_cancel_left le_iff_add not_less)
    then show ?thesis
      by (simp add: object_codec.store_byte [OF assms(1)] object_codec.store_byte [OF assms(2)] assms(3))
  qed
qed

section \<open>Properties\<close>

text \<open>Whatever the byte order of the machine, a floating-point variable written by a store macro is
  restored byte for byte by the matching get macro.\<close>

theorem float_round_trip:
  "map (mi_float4get v0 (mi_float4store m T v) T) [0..<4] = map v [0..<4] \<and>
   map (mi_float8get v0 (mi_float8store m T v) T) [0..<8] = map v [0..<8] \<and>
   map (mi_float4get_be v0 (mi_float4store_be m T v) T) [0..<4] = map v [0..<4] \<and>
   map (mi_float8get_be v0 (mi_float8store_be m T v) T) [0..<8] = map v [0..<8] \<and>
   map (mi_float8get_wbe v0 (mi_float8store_wbe m T v) T) [0..<8] = map v [0..<8] \<and>
   map (float4get_be v0 (float4store_be m T v) T) [0..<4] = map v [0..<4] \<and>
   map (float8get_be v0 (float8store_be m T v) T) [0..<8] = map v [0..<8] \<and>
   map (float4get v0 (float4store m T v) T) [0..<4] = map v [0..<4] \<and>
   map (float8get v0 (float8store m T v) T) [0..<8] = map v [0..<8] \<and>
   map (doubleget_wbe v0 (doublestore_wbe m T v) T) [0..<8] = map v [0..<8] \<and>
   map (float4get_i386 v0 (float4store_i386 m T v) T) [0..<4] = map v [0..<4] \<and>
   map (doubleget_i386 v0 (doublestore_i386 m T v) T) [0..<8] = map v [0..<8]"
  by (simp only: mf4.object_round_trip mf8.object_round_trip mf4be.object_round_trip
      mf8be.object_round_trip mf8wbe.object_round_trip f4be.object_round_trip f8be.object_round_trip
      f4.object_round_trip f8.object_round_trip dwbe.object_round_trip f4i.object_round_trip
      di.object_round_trip simp_thms)

text \<open>The stored image of a number does not depend on the machine: a big-endian machine, a machine
  with swapped double words, a 32-bit and a 64-bit Intel machine write the same bytes for the
  same number, both in the index format and in the low-byte-first format.\<close>

theorem float_image_portable:
  "mi_float4store_be m T (rev4 v) = mi_float4store m T v \<and>
   mi_float8store_be m T (rev8 v) = mi_float8store m T v \<and>
   mi_float8store_wbe m T (swap_words v) = mi_float8store m T v \<and>
   float4store_be m T (rev4 v) = float4store m T v \<and>
   float8store_be m T (rev8 v) = float8store m T v \<and>
   doublestore_wbe m T (swap_words v) = float8store m T v \<and>
   float8store_i386 m T v = float8store m T v \<and> float4store_i386 m T v = float4store m T v"
proof (intro conjI)
  show "mi_float4store_be m T (rev4 v) = mi_float4store m T v"
    "mi_float8store_be m T (rev8 v) = mi_float8store m T v"
    "mi_float8store_wbe m T (swap_words v) = mi_float8store m T v"
    by (simp_all add: mi_float4store_be_def mi_float4store_def mi_float8store_be_def mi_float8store_def
        mi_float8store_wbe_def rev4_def rev8_def swap_words_def)
  show "float4store_be m T (rev4 v) = float4store m T v"
    by (rule store_ext [OF f4.object_codec_axioms f4be.object_codec_axioms]) (simp add: rev4_def)
  show "float8store_be m T (rev8 v) = float8store m T v"
    by (rule store_ext [OF f8.object_codec_axioms f8be.object_codec_axioms]) (simp add: rev8_def)
  show "doublestore_wbe m T (swap_words v) = float8store m T v"
    by (rule store_ext [OF f8.object_codec_axioms dwbe.object_codec_axioms]) (auto simp: swap_words_def)
  show "float8store_i386 m T v = float8store m T v" "float4store_i386 m T v = float4store m T v"
    using store_ext [OF f8.object_codec_axioms di.object_codec_axioms, of v v]
      store_ext [OF f4.object_codec_axioms f4i.object_codec_axioms, of v v]
    by (simp_all add: float8store_i386_def)
qed
end
