(* ===== verification/Containers.thy ===== *)
theory Containers
  imports Main
begin

text \<open>
  Interfaces that several containers of the server implement. A \<open>fifo\<close> stores elements at the
  end and hands out the first one; \<open>val\<close> is what a client sees of an element, \<open>fresh\<close> when an element
  may be added. The lemmas below hold for every implementation.
\<close>

primrec put_all :: "('h \<Rightarrow> 'x \<Rightarrow> 'h option) \<Rightarrow> 'h \<Rightarrow> 'x list \<Rightarrow> 'h option" where
  "put_all put h [] = Some h"
| "put_all put h (x # xs) = Option.bind (put h x) (\<lambda>h'. put_all put h' xs)"

primrec get_all :: "('h \<Rightarrow> ('h \<times> 'y) option) \<Rightarrow> nat \<Rightarrow> 'h \<Rightarrow> ('h \<times> 'y list) option" where
  "get_all get 0 h = Some (h, [])"
| "get_all get (Suc n) h =
     Option.bind (get h) (\<lambda>(h', y). Option.bind (get_all get n h') (\<lambda>(h'', ys). Some (h'', y # ys)))"

primrec fresh_all :: "('x list \<Rightarrow> 'x \<Rightarrow> bool) \<Rightarrow> 'x list \<Rightarrow> 'x list \<Rightarrow> bool" where
  "fresh_all fresh xs [] \<longleftrightarrow> True"
| "fresh_all fresh xs (y # ys) \<longleftrightarrow> fresh xs y \<and> fresh_all fresh (xs @ [y]) ys"

locale fifo =
  fixes is_seq :: "'h \<Rightarrow> 'x list \<Rightarrow> bool"
    and put :: "'h \<Rightarrow> 'x \<Rightarrow> 'h option"
    and get :: "'h \<Rightarrow> ('h \<times> 'y) option"
    and val :: "'x \<Rightarrow> 'y"
    and fresh :: "'x list \<Rightarrow> 'x \<Rightarrow> bool"
  assumes put_law: "is_seq h xs \<Longrightarrow> fresh xs x \<Longrightarrow> \<exists>h'. put h x = Some h' \<and> is_seq h' (xs @ [x])"
    and get_law: "is_seq h (x # xs) \<Longrightarrow> \<exists>h'. get h = Some (h', val x) \<and> is_seq h' xs"
begin

lemma put_all_seq:
  "is_seq h xs \<Longrightarrow> fresh_all fresh xs ys \<Longrightarrow> \<exists>h'. put_all put h ys = Some h' \<and> is_seq h' (xs @ ys)"
proof (induction ys arbitrary: h xs)
  case (Cons y ys)
  obtain h1 where h1: "put h y = Some h1" "is_seq h1 (xs @ [y])"
    using put_law [of h xs y] Cons.prems by auto
  then show ?case using Cons.IH [of h1 "xs @ [y]"] Cons.prems by auto
qed simp

lemma get_all_seq:
  "is_seq h (xs @ ys) \<Longrightarrow> \<exists>h'. get_all get (length xs) h = Some (h', map val xs) \<and> is_seq h' ys"
proof (induction xs arbitrary: h)
  case (Cons x xs)
  obtain h1 where "get h = Some (h1, val x)" "is_seq h1 (xs @ ys)"
    using get_law [of h x "xs @ ys"] Cons.prems by auto
  then show ?case using Cons.IH [of h1] by auto
qed simp

text \<open>Elements come out in the order they went in.\<close>

lemma fifo_order:
  assumes "is_seq h xs" "fresh_all fresh xs ys"
  shows "\<exists>h' h''. put_all put h ys = Some h' \<and>
    get_all get (length (xs @ ys)) h' = Some (h'', map val (xs @ ys)) \<and> is_seq h'' []"
proof -
  obtain h' where "put_all put h ys = Some h'" "is_seq h' (xs @ ys)" using put_all_seq assms by blast
  then show ?thesis using get_all_seq [of h' "xs @ ys" "[]"] by auto
qed

end

text \<open>
  A \<open>lifo\<close> hands out the element that was stored last. \<open>src h x\<close> is what storing \<open>x\<close> in the state \<open>h\<close> will keep,
  \<open>fits h n\<close> that there is room for \<open>n\<close> more elements.
\<close>

locale lifo =
  fixes is_stack :: "'h \<Rightarrow> 'y list \<Rightarrow> bool"
    and fits :: "'h \<Rightarrow> nat \<Rightarrow> bool"
    and ok :: "'h \<Rightarrow> 'x \<Rightarrow> bool"
    and src :: "'h \<Rightarrow> 'x \<Rightarrow> 'y"
    and push :: "'h \<Rightarrow> 'x \<Rightarrow> 'h option"
    and pop :: "'h \<Rightarrow> ('h \<times> 'y) option"
  assumes push_law: "is_stack h ys \<Longrightarrow> fits h (Suc n) \<Longrightarrow> ok h x \<Longrightarrow>
      \<exists>h'. push h x = Some h' \<and> is_stack h' (src h x # ys) \<and> fits h' n \<and>
        (\<forall>x'. ok h x' \<longrightarrow> ok h' x' \<and> src h' x' = src h x')"
    and pop_law: "is_stack h (y # ys) \<Longrightarrow> \<exists>h'. pop h = Some (h', y) \<and> is_stack h' ys"
    and pop_empty: "is_stack h [] \<Longrightarrow> pop h = None"
begin

lemma push_all:
  "is_stack h ys \<Longrightarrow> fits h (length xs) \<Longrightarrow> \<forall>x \<in> set xs. ok h x \<Longrightarrow>
   \<exists>h'. put_all push h xs = Some h' \<and> is_stack h' (rev (map (src h) xs) @ ys)"
proof (induction xs arbitrary: h ys)
  case (Cons x xs)
  then obtain h1 where h1: "push h x = Some h1" "is_stack h1 (src h x # ys)" "fits h1 (length xs)"
    "\<forall>x'. ok h x' \<longrightarrow> ok h1 x' \<and> src h1 x' = src h x'"
    using push_law [of h ys "length xs" x] by auto
  have e: "map (src h1) xs = map (src h) xs" "\<forall>x \<in> set xs. ok h1 x" using h1(4) Cons.prems(3) by auto
  from Cons.IH [OF h1(2,3) e(2), unfolded e(1)] show ?case using h1(1) by simp
qed simp

lemma pop_all: "is_stack h (xs @ ys) \<Longrightarrow> \<exists>h'. get_all pop (length xs) h = Some (h', xs) \<and> is_stack h' ys"
proof (induction xs arbitrary: h)
  case (Cons x xs)
  obtain h1 where "pop h = Some (h1, x)" "is_stack h1 (xs @ ys)" using pop_law [of h x "xs @ ys"] Cons.prems by auto
  then show ?case using Cons.IH [of h1] by auto
qed simp

text \<open>Elements come out in the reverse of the order they went in, and then those that were there.\<close>

lemma lifo_order:
  assumes "is_stack h ys" "fits h (length xs)" "\<forall>x \<in> set xs. ok h x"
  shows "\<exists>h' h''. put_all push h xs = Some h' \<and>
    get_all pop (length xs + length ys) h' = Some (h'', rev (map (src h) xs) @ ys) \<and> pop h'' = None"
proof -
  obtain h' where "put_all push h xs = Some h'" "is_stack h' (rev (map (src h) xs) @ ys)"
    using push_all [OF assms] by blast
  then show ?thesis using pop_all [of h' "rev (map (src h) xs) @ ys" "[]"] pop_empty by auto
qed

end

end
