(* ===== verification/Sql_List.thy ===== *)
theory Sql_List
  imports Prelude Containers "HOL-Library.Monad_Syntax" "HOL-Library.Multiset"
begin

text \<open>
  The singly linked lists of \<^verbatim>\<open>sql_list.h\<close>: \<open>base_list\<close> (and its typed wrapper \<open>List\<close>), the
  iterators over it, \<open>bubble_sort\<close> and \<open>list_copy_and_replace_each_value\<close>. The nodes and the list
  objects live in one heap, because lists share nodes and the field \<open>last\<close> points into them: it
  is the address of the cell that holds the pointer to \<open>end_of_list\<close>, either the field \<open>first\<close> of a
  list object or the field \<open>next\<close> of a node. Following a null pointer has the value \<open>None\<close>.
\<close>

section \<open>The heap\<close>

text \<open>A pointer to a node: null, the static \<open>end_of_list\<close>, or an allocated node.\<close>

(* @sql_list.h 118-134 list_node* *)
datatype nptr = Null | End | Node nat

text \<open>A pointer to a pointer to a node: the field \<open>first\<close> of a list object or \<open>next\<close> of a node.\<close>

datatype slot = First nat | Next nptr

text \<open>
  \<open>next\<close> and \<open>info\<close> of every node (an \<open>info\<close> of \<open>None\<close> is a null pointer), and \<open>first\<close>, \<open>last\<close> and
  \<open>elements\<close> of every list object.
\<close>

(* @sql_list.h 136-142 base_list *)
record 'v heap =
  nnext :: "nptr \<Rightarrow> nptr"
  ninfo :: "nptr \<Rightarrow> 'v option"
  lfirst :: "nat \<Rightarrow> nptr"
  llast :: "nat \<Rightarrow> slot"
  lelements :: "nat \<Rightarrow> uint"

definition node_next :: "'v heap \<Rightarrow> nptr \<Rightarrow> nptr option" where
  "node_next h p = (if p = Null then None else Some (nnext h p))"

definition node_info :: "'v heap \<Rightarrow> nptr \<Rightarrow> 'v option option" where
  "node_info h p = (if p = Null then None else Some (ninfo h p))"

fun load :: "'v heap \<Rightarrow> slot \<Rightarrow> nptr option" where
  "load h (First l) = Some (lfirst h l)"
| "load h (Next p) = node_next h p"

fun store :: "'v heap \<Rightarrow> slot \<Rightarrow> nptr \<Rightarrow> 'v heap option" where
  "store h (First l) v = Some (h\<lparr>lfirst := (lfirst h)(l := v)\<rparr>)"
| "store h (Next p) v = (if p = Null then None else Some (h\<lparr>nnext := (nnext h)(p := v)\<rparr>))"

definition store_info :: "'v heap \<Rightarrow> nptr \<Rightarrow> 'v option \<Rightarrow> 'v heap option" where
  "store_info h p x = (if p = Null then None else Some (h\<lparr>ninfo := (ninfo h)(p := x)\<rparr>))"

definition set_last :: "'v heap \<Rightarrow> nat \<Rightarrow> slot \<Rightarrow> 'v heap" where
  "set_last h l s = h\<lparr>llast := (llast h)(l := s)\<rparr>"

definition set_first :: "'v heap \<Rightarrow> nat \<Rightarrow> nptr \<Rightarrow> 'v heap" where
  "set_first h l p = h\<lparr>lfirst := (lfirst h)(l := p)\<rparr>"

definition set_elements :: "'v heap \<Rightarrow> nat \<Rightarrow> uint \<Rightarrow> 'v heap" where
  "set_elements h l n = h\<lparr>lelements := (lelements h)(l := n)\<rparr>"

text \<open>
  \<open>new list_node(info, next)\<close>: the allocator returns the address \<open>a\<close> of a node, or null when memory
  is exhausted, and then nothing is constructed.
\<close>

(* @sql_list.h 122-124 list_node::list_node *)
definition new_node :: "'v heap \<Rightarrow> nat option \<Rightarrow> 'v option \<Rightarrow> nptr \<Rightarrow> 'v heap \<times> nptr" where
  "new_node h alloc val nx = (case alloc of
     None \<Rightarrow> (h, Null)
   | Some a \<Rightarrow> (h\<lparr>nnext := (nnext h)(Node a := nx), ninfo := (ninfo h)(Node a := val)\<rparr>, Node a))"

(* @sql_list.h 125-129 list_node::list_node *)
definition init_end_of_list :: "'v heap \<Rightarrow> 'v heap" where
  "init_end_of_list h = h\<lparr>nnext := (nnext h)(End := End), ninfo := (ninfo h)(End := None)\<rparr>"

section \<open>\<open>base_list\<close>\<close>

(* @sql_list.h 144-150 base_list::operator== *)
definition bl_eq :: "'v heap \<Rightarrow> nat \<Rightarrow> nat \<Rightarrow> bool" where
  "bl_eq h l rhs \<longleftrightarrow> lelements h l = lelements h rhs \<and> lfirst h l = lfirst h rhs \<and> llast h l = llast h rhs"

(* @sql_list.h 151-173 base_list::operator= *)
definition bl_assign :: "'v heap \<Rightarrow> nat \<Rightarrow> nat \<Rightarrow> 'v heap" where
  "bl_assign h l rhs =
     (let h1 = set_elements h l (lelements h rhs);
          h2 = set_first h1 l (lfirst h1 rhs)
      in set_last h2 l (if lelements h2 l \<noteq> 0 then llast h2 rhs else First l))"

(* @sql_list.h 159-160 base_list::empty *)
definition bl_empty :: "'v heap \<Rightarrow> nat \<Rightarrow> 'v heap" where
  "bl_empty h l = set_last (set_first (set_elements h l 0) l End) l (First l)"

(* @sql_list.h 302-302 base_list::is_empty *)
definition bl_is_empty :: "'v heap \<Rightarrow> nat \<Rightarrow> bool" where
  "bl_is_empty h l \<longleftrightarrow> lfirst h l = End"

(* @sql_list.h 183-202 base_list::push_back *)
definition bl_push_back :: "'v heap \<Rightarrow> nat \<Rightarrow> 'v option \<Rightarrow> nat option \<Rightarrow> ('v heap \<times> bool) option" where
  "bl_push_back h l val alloc = do {
     let (h1, p) = new_node h alloc val End;
     h2 \<leftarrow> store h1 (llast h1 l) p;
     if p \<noteq> Null then do {
       q \<leftarrow> load h2 (llast h2 l);
       let h3 = set_last h2 l (Next q);
       Some (set_elements h3 l (lelements h3 l + 1), False)
     } else Some (h2, True)
   }"

(* @sql_list.h 203-214 base_list::push_front_impl *)
definition bl_push_front_impl :: "'v heap \<Rightarrow> nat \<Rightarrow> nptr \<Rightarrow> 'v heap \<times> bool" where
  "bl_push_front_impl h l node =
     (if node \<noteq> Null then
        let h1 = (if llast h l = First l then set_last h l (Next node) else h);
            h2 = set_first h1 l node
        in (set_elements h2 l (lelements h2 l + 1), False)
      else (h, True))"

(* @sql_list.h 215-218 base_list::push_front *)
definition bl_push_front :: "'v heap \<Rightarrow> nat \<Rightarrow> 'v option \<Rightarrow> nat option \<Rightarrow> 'v heap \<times> bool" where
  "bl_push_front h l val alloc =
     (let (h1, p) = new_node h alloc val (lfirst h l) in bl_push_front_impl h1 l p)"

text \<open>\<open>delete *prev\<close> releases nothing: \<open>Sql_alloc\<close> memory is freed with its memory root.\<close>

(* @sql_list.h 219-228 base_list::remove *)
definition bl_remove :: "'v heap \<Rightarrow> nat \<Rightarrow> slot \<Rightarrow> 'v heap option" where
  "bl_remove h l prev = do {
     p \<leftarrow> load h prev;
     node \<leftarrow> node_next h p;
     let h1 = set_elements h l (lelements h l - 1);
     let h2 = (if lelements h1 l = 0 then set_last h1 l (First l)
               else if llast h1 l = Next p then set_last h1 l prev else h1);
     store h2 prev node
   }"

(* @sql_list.h 229-242 base_list::append *)
definition bl_append :: "'v heap \<Rightarrow> nat \<Rightarrow> nat \<Rightarrow> 'v heap option" where
  "bl_append h l r =
     (if \<not> bl_is_empty h r then
        if bl_is_empty h l then Some (bl_assign h l r)
        else do {
          h1 \<leftarrow> store h (llast h l) (lfirst h r);
          let h2 = set_last h1 l (llast h1 r);
          Some (set_elements h2 l (lelements h2 l + lelements h2 r))
        }
      else Some h)"

(* @sql_list.h 243-251 base_list::pop *)
definition bl_pop :: "'v heap \<Rightarrow> nat \<Rightarrow> ('v heap \<times> 'v option) option" where
  "bl_pop h l =
     (if lfirst h l = End then Some (h, None)
      else do {
        let tmp = lfirst h l;
        nx \<leftarrow> node_next h (lfirst h l);
        let h1 = set_first h l nx;
        let h2 = set_elements h1 l (lelements h1 l - 1);
        let h3 = (if lelements h2 l = 0 then set_last h2 l (First l) else h2);
        val \<leftarrow> node_info h3 tmp;
        Some (h3, val)
      })"

(* @sql_list.h 264-271 base_list::disjoin *)
partial_function (option) disjoin_loop ::
  "'v heap \<Rightarrow> nat \<Rightarrow> nptr \<Rightarrow> slot \<Rightarrow> nptr \<Rightarrow> ('v heap \<times> slot option) option" where
  "disjoin_loop h l list_first prev node =
     (if node \<noteq> End \<and> node \<noteq> list_first then do {
        node' \<leftarrow> node_next h node;
        let h' = set_elements h l (lelements h l + 1);
        if node' = End then Some (h', None)
        else disjoin_loop h' l list_first (Next node) node'
      } else Some (h, Some prev))"

(* @sql_list.h 253-274 base_list::disjoin *)
definition bl_disjoin :: "'v heap \<Rightarrow> nat \<Rightarrow> nat \<Rightarrow> 'v heap option" where
  "bl_disjoin h l r = do {
     (h1, stop) \<leftarrow> disjoin_loop (set_elements h l 0) l (lfirst h r) (First l) (lfirst h l);
     case stop of
       None \<Rightarrow> Some h1
     | Some prev \<Rightarrow> do {
         h2 \<leftarrow> store h1 prev End;
         Some (set_last h2 l prev)
       }
   }"

(* @sql_list.h 275-285 base_list::prepend *)
definition bl_prepend :: "'v heap \<Rightarrow> nat \<Rightarrow> nat \<Rightarrow> 'v heap option" where
  "bl_prepend h l r =
     (if \<not> bl_is_empty h r then do {
        let h1 = (if bl_is_empty h l then set_last h l (llast h r) else h);
        h2 \<leftarrow> store h1 (llast h1 r) (lfirst h1 l);
        let h3 = set_first h2 l (lfirst h2 r);
        Some (set_elements h3 l (lelements h3 l + lelements h3 r))
      } else Some h)"

(* @sql_list.h 286-296 base_list::swap *)
definition bl_swap :: "'v heap \<Rightarrow> nat \<Rightarrow> nat \<Rightarrow> 'v heap" where
  "bl_swap h l rhs =
     (let rhs_last = llast h rhs;
          h1 = set_first (set_first h l (lfirst h rhs)) rhs (lfirst h l);
          h2 = set_elements (set_elements h1 l (lelements h1 rhs)) rhs (lelements h1 l);
          h3 = set_last h2 rhs (if llast h2 l = First l then First rhs else llast h2 l)
      in set_last h3 l (if rhs_last = First rhs then First l else rhs_last))"

(* @sql_list.h 298-298 base_list::last_node *)
definition bl_last_node :: "'v heap \<Rightarrow> nat \<Rightarrow> nptr option" where
  "bl_last_node h l = load h (llast h l)"

(* @sql_list.h 299-299 base_list::first_node *)
definition bl_first_node :: "'v heap \<Rightarrow> nat \<Rightarrow> nptr" where
  "bl_first_node h l = lfirst h l"

(* @sql_list.h 300-300 base_list::head *)
definition bl_head :: "'v heap \<Rightarrow> nat \<Rightarrow> 'v option option" where
  "bl_head h l = node_info h (lfirst h l)"

text \<open>The address of the field \<open>info\<close> of a node is named by the node; \<open>Null\<close> is the null reference.\<close>

(* @sql_list.h 301-301 base_list::head_ref *)
definition bl_head_ref :: "'v heap \<Rightarrow> nat \<Rightarrow> nptr" where
  "bl_head_ref h l = (if lfirst h l \<noteq> End then lfirst h l else Null)"

(* @sql_list.h 303-303 base_list::last_ref *)
definition bl_last_ref :: "nptr" where
  "bl_last_ref = End"

(* @sql_list.h 306-309 base_list::add_unique *)
partial_function (option) find_loop ::
  "'v heap \<Rightarrow> ('v option \<Rightarrow> 'v option \<Rightarrow> bool) \<Rightarrow> 'v option \<Rightarrow> nptr \<Rightarrow> nptr option" where
  "find_loop h eq val node =
     (if node = End then Some node
      else do {
        x \<leftarrow> node_info h node;
        if eq x val then Some node
        else do { nx \<leftarrow> node_next h node; find_loop h eq val nx }
      })"

(* @sql_list.h 304-313 base_list::add_unique *)
definition bl_add_unique ::
  "'v heap \<Rightarrow> nat \<Rightarrow> 'v option \<Rightarrow> ('v option \<Rightarrow> 'v option \<Rightarrow> bool) \<Rightarrow> nat option \<Rightarrow> ('v heap \<times> bool) option" where
  "bl_add_unique h l val eq alloc = do {
     node \<leftarrow> find_loop h eq val (lfirst h l);
     if node = End then bl_push_back h l val alloc else Some (h, True)
   }"

(* @sql_list.h 326-335 base_list::elem *)
partial_function (option) elem_loop ::
  "'v heap \<Rightarrow> uint \<Rightarrow> uint \<Rightarrow> nptr \<Rightarrow> 'v option \<Rightarrow> 'v option option" where
  "elem_loop h n i node data =
     (if i \<le> n then
        if node = End then Some None
        else do {
          data' \<leftarrow> node_info h node;
          node' \<leftarrow> node_next h node;
          elem_loop h n (i + 1) node' data'
        }
      else Some data)"

(* @sql_list.h 318-337 base_list::elem *)
definition bl_elem :: "'v heap \<Rightarrow> nat \<Rightarrow> uint \<Rightarrow> 'v option option" where
  "bl_elem h l n = elem_loop h n 0 (lfirst h l) None"

(* @sql_list.h 361-371 base_list::check_list *)
partial_function (option) check_loop :: "'v heap \<Rightarrow> nptr \<Rightarrow> uint \<Rightarrow> (nptr \<times> uint) option option" where
  "check_loop h node cnt = do {
     nx \<leftarrow> node_next h node;
     if nx \<noteq> End then
       if ninfo h node = None then Some None
       else check_loop h nx (cnt + 1)
     else Some (Some (node, cnt))
   }"

(* @sql_list.h 340-384 base_list::check_list *)
definition bl_check_list :: "'v heap \<Rightarrow> nat \<Rightarrow> bool option" where
  "bl_check_list h l = do {
     r \<leftarrow> check_loop h (lfirst h l) 0;
     case r of
       None \<Rightarrow> Some False
     | Some (node, cnt) \<Rightarrow>
         if llast h l \<noteq> Next node then Some False
         else if cnt + 1 \<noteq> lelements h l then Some False
         else Some True
   }"

(* @sql_list.h 388-395 base_list::after *)
definition bl_after :: "'v heap \<Rightarrow> nat \<Rightarrow> 'v option \<Rightarrow> nptr \<Rightarrow> nat option \<Rightarrow> 'v heap option" where
  "bl_after h l val node alloc = do {
     nx \<leftarrow> node_next h node;
     let (h1, p) = new_node h alloc val nx;
     h2 \<leftarrow> store h1 (Next node) p;
     let h3 = set_elements h2 l (lelements h2 l + 1);
     Some (if llast h3 l = Next node then set_last h3 l (Next p) else h3)
   }"

section \<open>\<open>base_list_iterator\<close>\<close>

(* @sql_list.h 399-403 base_list_iterator *)
record bl_iter =
  it_list :: "nat option"
  it_el :: "slot option"
  it_prev :: "slot option"
  it_current :: nptr

(* @sql_list.h 411-413 base_list_iterator::base_list_iterator *)
definition bli_default :: "bl_iter" where
  "bli_default = \<lparr>it_list = None, it_el = None, it_prev = None, it_current = Null\<rparr>"

(* @sql_list.h 415-424 base_list_iterator::init *)
definition bli_init :: "nat \<Rightarrow> bl_iter" where
  "bli_init l = \<lparr>it_list = Some l, it_el = Some (First l), it_prev = None, it_current = Null\<rparr>"

(* @sql_list.h 404-409 base_list_iterator::sublist *)
definition bli_sublist :: "'v heap \<Rightarrow> bl_iter \<Rightarrow> nat \<Rightarrow> uint \<Rightarrow> 'v heap option" where
  "bli_sublist h it ls elm = do {
     el \<leftarrow> it_el it;
     p \<leftarrow> load h el;
     let h1 = set_first h ls p;
     l \<leftarrow> it_list it;
     let h2 = set_last h1 ls (llast h1 l);
     Some (set_elements h2 ls elm)
   }"

(* @sql_list.h 426-432 base_list_iterator::next *)
definition bli_next :: "'v heap \<Rightarrow> bl_iter \<Rightarrow> (bl_iter \<times> 'v option) option" where
  "bli_next h it = do {
     el \<leftarrow> it_el it;
     p \<leftarrow> load h el;
     x \<leftarrow> node_info h p;
     Some (it\<lparr>it_prev := Some el, it_current := p, it_el := Some (Next p)\<rparr>, x)
   }"

(* @sql_list.h 433-437 base_list_iterator::peek *)
definition bli_peek :: "'v heap \<Rightarrow> bl_iter \<Rightarrow> 'v option option" where
  "bli_peek h it = do {
     el \<leftarrow> it_el it;
     p \<leftarrow> load h el;
     node_info h p
   }"

(* @sql_list.h 438-444 base_list_iterator::next_fast *)
definition bli_next_fast :: "'v heap \<Rightarrow> bl_iter \<Rightarrow> (bl_iter \<times> 'v option) option" where
  "bli_next_fast h it = do {
     el \<leftarrow> it_el it;
     tmp \<leftarrow> load h el;
     x \<leftarrow> node_info h tmp;
     Some (it\<lparr>it_el := Some (Next tmp)\<rparr>, x)
   }"

(* @sql_list.h 445-448 base_list_iterator::rewind *)
definition bli_rewind :: "bl_iter \<Rightarrow> bl_iter option" where
  "bli_rewind it = do {
     l \<leftarrow> it_list it;
     Some (it\<lparr>it_el := Some (First l)\<rparr>)
   }"

(* @sql_list.h 449-455 base_list_iterator::replace *)
definition bli_replace :: "'v heap \<Rightarrow> bl_iter \<Rightarrow> 'v option \<Rightarrow> ('v heap \<times> 'v option) option" where
  "bli_replace h it element = do {
     tmp \<leftarrow> node_info h (it_current it);
     h1 \<leftarrow> store_info h (it_current it) element;
     Some (h1, tmp)
   }"

(* @sql_list.h 456-469 base_list_iterator::replace *)
definition bli_replace_list :: "'v heap \<Rightarrow> bl_iter \<Rightarrow> nat \<Rightarrow> ('v heap \<times> 'v option) option" where
  "bli_replace_list h it new_list = do {
     ret_value \<leftarrow> node_info h (it_current it);
     if \<not> bl_is_empty h new_list then do {
       l \<leftarrow> it_list it;
       nx \<leftarrow> node_next h (it_current it);
       h1 \<leftarrow> store h (llast h new_list) nx;
       x \<leftarrow> node_info h1 (lfirst h1 new_list);
       h2 \<leftarrow> store_info h1 (it_current it) x;
       nx2 \<leftarrow> node_next h2 (lfirst h2 new_list);
       h3 \<leftarrow> store h2 (Next (it_current it)) nx2;
       let h4 = (if llast h3 l = Next (it_current it) \<and> lelements h3 new_list > 1
                 then set_last h3 l (llast h3 new_list) else h3);
       Some (set_elements h4 l (lelements h4 l + (lelements h4 new_list - 1)), ret_value)
     } else Some (h, ret_value)
   }"

(* @sql_list.h 470-475 base_list_iterator::remove *)
definition bli_remove :: "'v heap \<Rightarrow> bl_iter \<Rightarrow> ('v heap \<times> bl_iter) option" where
  "bli_remove h it = do {
     l \<leftarrow> it_list it;
     prev \<leftarrow> it_prev it;
     h1 \<leftarrow> bl_remove h l prev;
     Some (h1, it\<lparr>it_el := Some prev, it_current := Null\<rparr>)
   }"

(* @sql_list.h 476-481 base_list_iterator::after *)
definition bli_after :: "'v heap \<Rightarrow> bl_iter \<Rightarrow> 'v option \<Rightarrow> nat option \<Rightarrow> ('v heap \<times> bl_iter) option" where
  "bli_after h it element alloc = do {
     l \<leftarrow> it_list it;
     h1 \<leftarrow> bl_after h l element (it_current it) alloc;
     p \<leftarrow> node_next h1 (it_current it);
     Some (h1, it\<lparr>it_current := p, it_el := Some (Next p)\<rparr>)
   }"

(* @sql_list.h 482-485 base_list_iterator::ref *)
definition bli_ref :: "bl_iter \<Rightarrow> nptr" where
  "bli_ref it = it_current it"

(* @sql_list.h 486-489 base_list_iterator::is_last *)
definition bli_is_last :: "bl_iter \<Rightarrow> bool" where
  "bli_is_last it \<longleftrightarrow> it_el it = Some (Next bl_last_ref)"

(* @sql_list.h 490-493 base_list_iterator::at_end *)
definition bli_at_end :: "bl_iter \<Rightarrow> bool" where
  "bli_at_end it \<longleftrightarrow> it_current it = End"

section \<open>\<open>List\<close>\<close>

text \<open>
  \<open>delete_elements\<close> destroys the objects the list points to; \<open>deleted\<close> is the sequence of pointers
  handed to \<open>delete\<close>, in order.
\<close>

(* @sql_list.h 521-526 List::delete_elements *)
partial_function (option) delete_loop :: "'v heap \<Rightarrow> nptr \<Rightarrow> 'v option list \<Rightarrow> 'v option list option" where
  "delete_loop h element deleted =
     (if element \<noteq> End then do {
        nx \<leftarrow> node_next h element;
        x \<leftarrow> node_info h element;
        delete_loop h nx (deleted @ [x])
      } else Some deleted)"

(* @sql_list.h 519-528 List::delete_elements *)
definition list_delete_elements :: "'v heap \<Rightarrow> nat \<Rightarrow> ('v heap \<times> 'v option list) option" where
  "list_delete_elements h l = do {
     deleted \<leftarrow> delete_loop h (lfirst h l) [];
     Some (bl_empty h l, deleted)
   }"

(* @sql_list.h 530-535 List::make *)
definition list_make ::
  "'v heap \<Rightarrow> nat option \<Rightarrow> 'v option \<Rightarrow> nat option \<Rightarrow> ('v heap \<times> nat option) option" where
  "list_make h res fst_elem alloc = (case res of
     None \<Rightarrow> Some (h, None)
   | Some l \<Rightarrow> do {
       (h1, failed) \<leftarrow> bl_push_back (bl_empty h l) l fst_elem alloc;
       Some (h1, if failed then None else Some l)
     })"

(* @sql_list.h 542-543 List::begin *)
definition list_begin :: "'v heap \<Rightarrow> nat \<Rightarrow> nptr" where
  "list_begin h l = lfirst h l"

(* @sql_list.h 543-543 List::end *)
definition list_end :: nptr where
  "list_end = End"

(* @sql_list.h 556-562 List::Iterator::operator++ *)
definition list_iterator_incr :: "'v heap \<Rightarrow> nptr \<Rightarrow> nptr option" where
  "list_iterator_incr h node = node_next h node"

(* @sql_list.h 571-572 List::Iterator::operator* *)
definition list_iterator_deref :: "'v heap \<Rightarrow> nptr \<Rightarrow> 'v option option" where
  "list_iterator_deref h node = node_info h node"

section \<open>\<open>bubble_sort\<close>\<close>

text \<open>
  The references \<open>ref1\<close> and \<open>ref2\<close> are addresses of \<open>info\<close> fields, named by their nodes.
  \<open>sort_func\<close> stands for the comparison with its third argument already supplied.
\<close>

(* @sql_list.h 653-664 bubble_sort *)
partial_function (option) bubble_inner ::
  "('v option \<Rightarrow> 'v option \<Rightarrow> int) \<Rightarrow> nptr \<Rightarrow> 'v heap \<Rightarrow> bl_iter \<Rightarrow> 'v option \<Rightarrow> nptr \<Rightarrow> bool \<Rightarrow>
   ('v heap \<times> bl_iter \<times> nptr \<times> bool) option" where
  "bubble_inner sort_func last_ref h it item1 ref1 swap = do {
     (it', item2) \<leftarrow> bli_next h it;
     if item2 = None then Some (h, it', ref1, swap)
     else do {
       let ref2 = bli_ref it';
       if ref2 = last_ref then Some (h, it', ref1, swap)
       else if sort_func item1 item2 > 0 then do {
         h1 \<leftarrow> store_info h ref1 item2;
         h2 \<leftarrow> store_info h1 ref2 item1;
         bubble_inner sort_func last_ref h2 it' item1 ref2 True
       }
       else bubble_inner sort_func last_ref h it' item2 ref2 swap
     }
   }"

(* @sql_list.h 645-666 bubble_sort *)
partial_function (option) bubble_outer ::
  "('v option \<Rightarrow> 'v option \<Rightarrow> int) \<Rightarrow> 'v heap \<Rightarrow> bl_iter \<Rightarrow> nptr \<Rightarrow> 'v heap option" where
  "bubble_outer sort_func h it ref1 = do {
     let last_ref = ref1;
     (it1, item1) \<leftarrow> bli_next h it;
     let ref1 = bli_ref it1;
     (h1, it2, ref1', swap) \<leftarrow> bubble_inner sort_func last_ref h it1 item1 ref1 False;
     it3 \<leftarrow> bli_rewind it2;
     if swap then bubble_outer sort_func h1 it3 ref1' else Some h1
   }"

(* @sql_list.h 629-667 bubble_sort *)
definition bubble_sort :: "'v heap \<Rightarrow> nat \<Rightarrow> ('v option \<Rightarrow> 'v option \<Rightarrow> int) \<Rightarrow> 'v heap option" where
  "bubble_sort h list_to_sort sort_func = bubble_outer sort_func h (bli_init list_to_sort) Null"

text \<open>\<open>clone\<close> is the method of the element type; it may return null.\<close>

(* @sql_list.h 868-869 list_copy_and_replace_each_value *)
partial_function (option) replace_loop :: "('v \<Rightarrow> 'v option) \<Rightarrow> 'v heap \<Rightarrow> bl_iter \<Rightarrow> 'v heap option" where
  "replace_loop clone h it = do {
     (it', el) \<leftarrow> bli_next h it;
     case el of
       None \<Rightarrow> Some h
     | Some x \<Rightarrow> do {
         (h', old) \<leftarrow> bli_replace h it' (clone x);
         replace_loop clone h' it'
       }
   }"

(* @sql_list.h 845-870 list_copy_and_replace_each_value *)
definition list_copy_and_replace_each_value :: "('v \<Rightarrow> 'v option) \<Rightarrow> 'v heap \<Rightarrow> nat \<Rightarrow> 'v heap option" where
  "list_copy_and_replace_each_value clone h l = replace_loop clone h (bli_init l)"

section \<open>What a list represents\<close>

text \<open>\<open>seg nx v ps w\<close>: following \<open>nx\<close> from \<open>v\<close> visits the nodes \<open>ps\<close> and arrives at \<open>w\<close>.\<close>

primrec seg :: "(nptr \<Rightarrow> nptr) \<Rightarrow> nptr \<Rightarrow> nat list \<Rightarrow> nptr \<Rightarrow> bool" where
  "seg nx v [] w \<longleftrightarrow> v = w"
| "seg nx v (p # ps) w \<longleftrightarrow> v = Node p \<and> seg nx (nx (Node p)) ps w"

definition last_slot :: "nat \<Rightarrow> nat list \<Rightarrow> slot" where
  "last_slot l ps = (if ps = [] then First l else Next (Node (last ps)))"

text \<open>The invariant of a list object: its nodes, in order, are \<open>ps\<close>.\<close>

definition rep :: "'v heap \<Rightarrow> nat \<Rightarrow> nat list \<Rightarrow> bool" where
  "rep h l ps \<longleftrightarrow> seg (nnext h) (lfirst h l) ps End \<and> distinct ps \<and> llast h l = last_slot l ps \<and>
     length ps < 2 ^ 32 \<and> lelements h l = of_nat (length ps)"

definition end_ok :: "'v heap \<Rightarrow> bool" where
  "end_ok h \<longleftrightarrow> nnext h End = End \<and> ninfo h End = None"

definition contents :: "'v heap \<Rightarrow> nat list \<Rightarrow> 'v option list" where
  "contents h ps = map (\<lambda>p. ninfo h (Node p)) ps"

lemma seg_append: "seg nx v (ps @ qs) w \<longleftrightarrow> (\<exists>u. seg nx v ps u \<and> seg nx u qs w)"
  by (induction ps arbitrary: v) auto

lemma seg_cong: "(\<And>p. p \<in> set ps \<Longrightarrow> nx' (Node p) = nx (Node p)) \<Longrightarrow> seg nx' v ps w = seg nx v ps w"
  by (induction ps arbitrary: v) auto

lemma seg_upd [simp]: "p \<notin> set ps \<Longrightarrow> seg (nx(Node p := x)) v ps w = seg nx v ps w"
  by (rule seg_cong) auto

lemma seg_upd_End [simp]: "seg (nx(End := x)) v ps w = seg nx v ps w"
  by (rule seg_cong) auto

lemma seg_relink:
  assumes "seg nx v ps w" "distinct ps" "ps \<noteq> []"
  shows "seg (nx(Node (last ps) := x)) v ps x"
  using assms by (induction ps arbitrary: v) auto

lemma seg_last: "seg nx v ps w \<Longrightarrow> ps \<noteq> [] \<Longrightarrow> nx (Node (last ps)) = w"
  by (induction ps arbitrary: v) auto

lemma seg_unique: "seg nx v ps End \<Longrightarrow> seg nx v qs End \<Longrightarrow> ps = qs"
proof (induction ps arbitrary: v qs)
  case Nil then show ?case by (cases qs) auto
next
  case (Cons p ps) then show ?case by (cases qs) auto
qed

lemma seg_distinct: "seg nx v ps End \<Longrightarrow> distinct ps"
proof (induction ps arbitrary: v)
  case (Cons p ps)
  have "p \<notin> set ps"
  proof
    assume "p \<in> set ps"
    then obtain as bs where ps: "ps = as @ p # bs" by (auto simp: in_set_conv_decomp)
    then have "seg nx (nx (Node p)) bs End" using Cons.prems by (auto simp: seg_append)
    then have "bs = ps" using Cons.prems seg_unique by auto
    then show False using ps by simp
  qed
  then show ?case using Cons by auto
qed simp

lemma rep_unique: "rep h l ps \<Longrightarrow> rep h l qs \<Longrightarrow> ps = qs"
  by (auto simp: rep_def dest: seg_unique)

text \<open>Reading the fields of a represented list.\<close>

lemma rep_empty_iff: "rep h l ps \<Longrightarrow> bl_is_empty h l \<longleftrightarrow> ps = []"
  by (cases ps) (auto simp: rep_def bl_is_empty_def)

lemma rep_first: "rep h l ps \<Longrightarrow> lfirst h l = (case ps of [] \<Rightarrow> End | p # _ \<Rightarrow> Node p)"
  by (auto simp: rep_def split: list.splits)

lemma contents_simps [simp]:
  "contents h [] = []" "contents h (p # ps) = ninfo h (Node p) # contents h ps"
  "contents h (ps @ qs) = contents h ps @ contents h qs" "length (contents h ps) = length ps"
  by (simp_all add: contents_def)

lemma contents_cong: "(\<And>p. p \<in> set ps \<Longrightarrow> ninfo h' (Node p) = ninfo h (Node p)) \<Longrightarrow> contents h' ps = contents h ps"
  by (simp add: contents_def)

lemmas setters = set_last_def set_first_def set_elements_def

lemma of_nat_uint_eq_0: "n < 2 ^ 32 \<Longrightarrow> (of_nat n :: uint) = 0 \<longleftrightarrow> n = 0"
  by (auto simp: word_of_nat_eq_0_iff dest: nat_dvd_not_less)

section \<open>Frame\<close>

text \<open>
  A list keeps its nodes when an operation leaves its object and the \<open>next\<close> fields of its nodes
  alone, and its contents when it leaves their \<open>info\<close> fields alone.
\<close>

definition same_list :: "'v heap \<Rightarrow> 'v heap \<Rightarrow> nat \<Rightarrow> nat list \<Rightarrow> bool" where
  "same_list h h' l ps \<longleftrightarrow> lfirst h' l = lfirst h l \<and> llast h' l = llast h l \<and> lelements h' l = lelements h l \<and>
     (\<forall>p \<in> set ps. nnext h' (Node p) = nnext h (Node p) \<and> ninfo h' (Node p) = ninfo h (Node p))"

lemma same_list_rep: "same_list h h' l ps \<Longrightarrow> rep h l ps \<Longrightarrow> rep h' l ps \<and> contents h' ps = contents h ps"
  by (auto simp: same_list_def rep_def contents_def intro: seg_cong [THEN iffD2])

lemmas op_simps = new_node_def node_next_def node_info_def setters Let_def last_slot_def

section \<open>Operations on represented lists\<close>

lemma bl_empty_rep: "rep (bl_empty h l) l []"
  by (simp add: bl_empty_def rep_def op_simps)

lemma bl_push_back_rep:
  assumes "rep h l ps" "a \<notin> set ps" "Suc (length ps) < 2 ^ 32"
  shows "\<exists>h'. bl_push_back h l x (Some a) = Some (h', False) \<and> rep h' l (ps @ [a]) \<and>
    contents h' (ps @ [a]) = contents h ps @ [x] \<and> (end_ok h \<longrightarrow> end_ok h') \<and>
    (\<forall>l' qs. l' \<noteq> l \<longrightarrow> set qs \<inter> set (a # ps) = {} \<longrightarrow> same_list h h' l' qs)"
proof (cases "ps = []")
  case True
  then show ?thesis using assms
    by (auto simp: bl_push_back_def rep_def op_simps same_list_def end_ok_def)
next
  case False
  then have l: "last ps \<in> set ps" "last ps \<noteq> a" using assms by auto
  have "seg (nnext h) (lfirst h l) ps End" "distinct ps" using assms(1) by (auto simp: rep_def)
  then have "seg ((nnext h)(Node a := End, Node (last ps) := Node a)) (lfirst h l) ps (Node a)"
    using assms(2) False by (intro seg_relink) auto
  then show ?thesis using assms False l
    by (auto simp: bl_push_back_def rep_def op_simps same_list_def end_ok_def seg_append contents_def)
qed

lemma bl_push_back_oom:
  assumes "rep h l ps"
  shows "\<exists>h'. bl_push_back h l x None = Some (h', True) \<and> load h' (llast h' l) = Some Null \<and> lelements h' l = lelements h l"
  using assms by (auto simp: bl_push_back_def rep_def op_simps)

lemma bl_push_front_rep:
  assumes "rep h l ps" "a \<notin> set ps" "Suc (length ps) < 2 ^ 32"
  shows "\<exists>h'. bl_push_front h l x (Some a) = (h', False) \<and> rep h' l (a # ps) \<and>
    contents h' (a # ps) = x # contents h ps \<and> (end_ok h \<longrightarrow> end_ok h') \<and>
    (\<forall>l' qs. l' \<noteq> l \<longrightarrow> a \<notin> set qs \<longrightarrow> same_list h h' l' qs)"
  using assms
  by (auto simp: bl_push_front_def bl_push_front_impl_def rep_def op_simps same_list_def end_ok_def contents_def)

lemma uint_pred: "0 < n \<Longrightarrow> n < 2 ^ 32 \<Longrightarrow> (of_nat n :: uint) - 1 = of_nat (n - 1)"
  by (cases n) simp_all

lemma bl_pop_rep:
  assumes "rep h l (p # ps)"
  shows "\<exists>h'. bl_pop h l = Some (h', ninfo h (Node p)) \<and> rep h' l ps \<and> nnext h' = nnext h \<and> ninfo h' = ninfo h \<and>
    (\<forall>l'. l' \<noteq> l \<longrightarrow> lfirst h' l' = lfirst h l' \<and> llast h' l' = llast h l' \<and> lelements h' l' = lelements h l')"
proof -
  have n: "(of_nat (length ps) :: uint) = 0 \<longleftrightarrow> ps = []" "length ps < 2 ^ 32"
    using assms of_nat_uint_eq_0 [of "length ps"] by (auto simp: rep_def)
  show ?thesis using assms n by (auto simp: bl_pop_def rep_def op_simps)
qed

lemma bl_pop_empty: "rep h l [] \<Longrightarrow> bl_pop h l = Some (h, None)"
  by (simp add: bl_pop_def rep_def)

text \<open>The cell in front of position \<open>i\<close>: what an iterator keeps in \<open>prev\<close>.\<close>

lemma slot_in_front:
  assumes "rep h l (ps @ q # qs)"
  shows "load h (last_slot l ps) = Some (Node q)"
  using assms seg_last [of "nnext h" "lfirst h l" ps "Node q"]
  by (auto simp: rep_def last_slot_def seg_append node_next_def)

lemma bl_remove_rep:
  assumes r: "rep h l (ps @ q # qs)"
  shows "\<exists>h'. bl_remove h l (last_slot l ps) = Some h' \<and> rep h' l (ps @ qs) \<and> ninfo h' = ninfo h \<and>
    nnext h' End = nnext h End \<and> (\<forall>l' rs. l' \<noteq> l \<longrightarrow> set rs \<inter> set ps = {} \<longrightarrow> same_list h h' l' rs)"
proof -
  let ?n = "length (ps @ qs)"
  have n: "(of_nat ?n :: uint) = 0 \<longleftrightarrow> ps = [] \<and> qs = []" "?n < 2 ^ 32"
    using r of_nat_uint_eq_0 [of ?n] by (auto simp: rep_def)
  have e: "lelements h l - 1 = of_nat ?n" using r by (simp add: rep_def)
  have s: "seg (nnext h) (lfirst h l) ps (Node q)" "seg (nnext h) (nnext h (Node q)) qs End"
    "distinct (ps @ q # qs)" "llast h l = Next (Node (last (q # qs)))"
    using r by (auto simp: rep_def seg_append last_slot_def)
  have qs: "last qs \<noteq> q" "last qs \<notin> set ps" if "qs \<noteq> []" using s(3) that last_in_set [OF that] by auto
  show ?thesis
  proof (cases "ps = []")
    case True
    then show ?thesis using n e s r slot_in_front [OF r] qs
      by (auto simp: bl_remove_def rep_def op_simps same_list_def)
  next
    case False
    have "seg ((nnext h)(Node (last ps) := nnext h (Node q))) (lfirst h l) ps (nnext h (Node q))"
      using s False by (intro seg_relink) auto
    moreover have "last ps \<notin> set qs" "last ps \<noteq> q"
      using s(3) last_in_set [OF False] by (metis disjoint_iff distinct_append list.set_intros)+
    moreover have "nnext h (Node (last ps)) = Node q" using seg_last [OF s(1) False] .
    ultimately show ?thesis using n e s r slot_in_front [OF r] qs False
      by (auto simp: bl_remove_def rep_def op_simps same_list_def seg_append)
  qed
qed

lemma same_list_refl [simp]: "same_list h h l ps"
  by (simp add: same_list_def)

lemma bl_append_rep:
  assumes "rep h l ps" "rep h r qs" "set ps \<inter> set qs = {}" "l \<noteq> r" "length ps + length qs < 2 ^ 32"
  shows "\<exists>h'. bl_append h l r = Some h' \<and> rep h' l (ps @ qs) \<and> ninfo h' = ninfo h \<and>
    nnext h' End = nnext h End \<and> (\<forall>l' rs. l' \<noteq> l \<longrightarrow> set rs \<inter> set ps = {} \<longrightarrow> same_list h h' l' rs)"
proof (cases "qs = [] \<or> ps = []")
  case True
  then show ?thesis
    using assms rep_empty_iff [OF assms(1)] rep_empty_iff [OF assms(2)] of_nat_uint_eq_0 [of "length qs"]
    by (auto simp: bl_append_def rep_def bl_assign_def op_simps same_list_def)
next
  case False
  have "seg ((nnext h)(Node (last ps) := lfirst h r)) (lfirst h l) ps (lfirst h r)"
    using assms False by (intro seg_relink) (auto simp: rep_def)
  moreover have "last ps \<notin> set qs" using assms(3) False last_in_set [of ps] by blast
  ultimately show ?thesis
    using assms False rep_empty_iff [OF assms(1)] rep_empty_iff [OF assms(2)]
    by (auto simp: bl_append_def rep_def op_simps same_list_def seg_append)
qed

lemma bl_prepend_rep:
  assumes "rep h l ps" "rep h r qs" "set ps \<inter> set qs = {}" "l \<noteq> r" "length ps + length qs < 2 ^ 32"
  shows "\<exists>h'. bl_prepend h l r = Some h' \<and> rep h' l (qs @ ps) \<and> ninfo h' = ninfo h \<and>
    nnext h' End = nnext h End \<and> (\<forall>l' rs. l' \<noteq> l \<longrightarrow> set rs \<inter> set qs = {} \<longrightarrow> same_list h h' l' rs)"
proof (cases "qs = []")
  case True
  then show ?thesis
    using assms rep_empty_iff [OF assms(2)] by (auto simp: bl_prepend_def rep_def)
next
  case False
  have "seg ((nnext h)(Node (last qs) := lfirst h l)) (lfirst h r) qs (lfirst h l)"
    using assms False by (intro seg_relink) (auto simp: rep_def)
  moreover have "last qs \<notin> set ps" using assms(3) False last_in_set [of qs] by blast
  ultimately show ?thesis
    using assms False rep_empty_iff [OF assms(1)] rep_empty_iff [OF assms(2)]
    by (auto simp: bl_prepend_def rep_def op_simps same_list_def seg_append add.commute)
qed

lemma bl_swap_rep:
  assumes "rep h l ps" "rep h r qs" "l \<noteq> r"
  shows "rep (bl_swap h l r) l qs \<and> rep (bl_swap h l r) r ps \<and> ninfo (bl_swap h l r) = ninfo h \<and>
    nnext (bl_swap h l r) = nnext h"
  using assms by (auto simp: bl_swap_def rep_def op_simps)

lemma bl_assign_rep:
  assumes "rep h r qs"
  shows "rep (bl_assign h l r) l qs"
  using assms of_nat_uint_eq_0 [of "length qs"] by (auto simp: bl_assign_def rep_def op_simps)

lemma bl_after_rep:
  assumes r: "rep h l (ps @ q # qs)" and a: "a \<notin> set (ps @ q # qs)" and n: "Suc (length (ps @ q # qs)) < 2 ^ 32"
  shows "\<exists>h'. bl_after h l x (Node q) (Some a) = Some h' \<and> rep h' l (ps @ q # a # qs) \<and>
    contents h' (ps @ q # a # qs) = contents h (ps @ [q]) @ x # contents h qs \<and>
    nnext h' (Node q) = Node a \<and> (end_ok h \<longrightarrow> end_ok h')"
proof -
  have d: "distinct (ps @ q # qs)" using r by (simp add: rep_def)
  have "q \<noteq> last qs" if "qs \<noteq> []" using d last_in_set [OF that] by auto
  then show ?thesis using r a n d
    by (auto simp: bl_after_def rep_def op_simps seg_append contents_def end_ok_def)
qed

lemma set_elements_again [simp]: "set_elements (set_elements h l m) l n = set_elements h l n"
  by (simp add: set_elements_def)

lemma set_elements_fields [simp]:
  "lelements (set_elements h l n) l = n" "nnext (set_elements h l n) = nnext h"
  "ninfo (set_elements h l n) = ninfo h" "lfirst (set_elements h l n) = lfirst h"
  "llast (set_elements h l n) = llast h"
  by (simp_all add: set_elements_def)

lemma disjoin_loop_found:
  "seg (nnext h) node ps (Node q) \<Longrightarrow> q \<notin> set ps \<Longrightarrow>
   disjoin_loop h l (Node q) prev node =
     Some (set_elements h l (lelements h l + of_nat (length ps)),
           Some (if ps = [] then prev else Next (Node (last ps))))"
proof (induction ps arbitrary: h prev node)
  case Nil
  then show ?case by (subst disjoin_loop.simps) (simp add: set_elements_def)
next
  case (Cons p ps)
  let ?h = "set_elements h l (lelements h l + 1)"
  have ih: "disjoin_loop ?h l (Node q) (Next (Node p)) (nnext h (Node p)) =
      Some (set_elements h l (lelements h l + of_nat (length (p # ps))),
            Some (Next (Node (last (p # ps)))))"
    using Cons.IH [of ?h "nnext h (Node p)" "Next (Node p)"] Cons.prems by (simp add: algebra_simps)
  have "nnext h (Node p) \<noteq> End" using Cons.prems by (cases ps) auto
  then show ?case
    using Cons.prems ih by (subst disjoin_loop.simps) (simp add: node_next_def Let_def)
qed

lemma disjoin_loop_not_found:
  "seg (nnext h) (Node p) ps End \<Longrightarrow> lf \<noteq> End \<Longrightarrow> lf \<notin> Node ` set ps \<Longrightarrow>
   disjoin_loop h l lf prev (Node p) = Some (set_elements h l (lelements h l + of_nat (length ps)), None)"
proof (induction ps arbitrary: h prev p)
  case (Cons q ps)
  let ?h = "set_elements h l (lelements h l + 1)"
  show ?case
  proof (cases ps)
    case Nil
    then show ?thesis using Cons.prems by (subst disjoin_loop.simps) (auto simp: node_next_def)
  next
    case (Cons r rs)
    then have "nnext h (Node p) = Node r" using Cons.prems by simp
    then show ?thesis
      using Cons.prems Cons.IH [of ?h r "Next (Node p)"] Cons
      by (subst disjoin_loop.simps) (auto simp: node_next_def algebra_simps)
  qed
qed simp

lemma bl_disjoin_tail:
  assumes "rep h l (ps @ qs)" "rep h r qs" "qs \<noteq> []" "l \<noteq> r"
  shows "\<exists>h'. bl_disjoin h l r = Some h' \<and> rep h' l ps \<and> ninfo h' = ninfo h \<and> nnext h' End = nnext h End"
proof -
  obtain q qs' where qs: "qs = q # qs'" using assms(3) by (cases qs) auto
  have s: "seg (nnext h) (lfirst h l) ps (Node q)" "q \<notin> set ps" "lfirst h r = Node q" "distinct ps"
    using assms qs by (auto simp: rep_def seg_append)
  have loop: "disjoin_loop (set_elements h l 0) l (lfirst h r) (First l) (lfirst h l) =
     Some (set_elements h l (of_nat (length ps)), Some (last_slot l ps))"
    using disjoin_loop_found [of "set_elements h l 0" "lfirst h l" ps q l "First l"] s
    by (simp add: last_slot_def)
  have "ps \<noteq> [] \<Longrightarrow> seg ((nnext h)(Node (last ps) := End)) (lfirst h l) ps End"
    using s by (intro seg_relink) auto
  then show ?thesis using assms s loop
    by (auto simp: bl_disjoin_def rep_def last_slot_def set_last_def)
qed

lemma find_loop_first:
  "seg (nnext h) node ps End \<Longrightarrow>
   find_loop h eq x node =
     Some (case dropWhile (\<lambda>p. \<not> eq (ninfo h (Node p)) x) ps of [] \<Rightarrow> End | p # _ \<Rightarrow> Node p)"
proof (induction ps arbitrary: node)
  case Nil then show ?case by (subst find_loop.simps) simp
next
  case (Cons p ps)
  then show ?case by (subst find_loop.simps) (simp add: node_info_def node_next_def)
qed

lemma elem_loop_nth:
  assumes "seg (nnext h) node ps End" "unat i + length ps < 2 ^ 32" "i \<le> n"
  shows "elem_loop h n i node d =
    Some (if unat n - unat i < length ps then ninfo h (Node (ps ! (unat n - unat i))) else None)"
  using assms
proof (induction ps arbitrary: node i d)
  case Nil then show ?case by (subst elem_loop.simps) simp
next
  case (Cons p ps)
  have u: "unat (i + 1) = Suc (unat i)"
    using Cons.prems(2) by (subst unat_plus_small) auto
  show ?case
  proof (cases "i = n")
    case True
    then have "\<not> i + 1 \<le> n" using u by (simp add: word_le_nat_alt)
    moreover have "elem_loop h n (i + 1) (nnext h (Node p)) (ninfo h (Node p)) = Some (ninfo h (Node p))"
      using calculation by (subst elem_loop.simps) simp
    ultimately show ?thesis
      using Cons.prems True by (subst elem_loop.simps) (simp add: node_info_def node_next_def)
  next
    case False
    then have lt: "unat i < unat n"
      using Cons.prems(3) by (metis le_neq_implies_less word_le_nat_alt word_unat_eq_iff)
    then have le: "i + 1 \<le> n" using u by (simp add: word_le_nat_alt)
    have "unat n - unat i = Suc (unat n - unat (i + 1))" using lt u by simp
    then show ?thesis
      using Cons.prems Cons.IH [of "nnext h (Node p)" "i + 1" "ninfo h (Node p)"] u le
      by (subst elem_loop.simps) (simp add: node_info_def node_next_def)
  qed
qed

lemma bl_elem_nth:
  assumes "rep h l ps"
  shows "bl_elem h l n = Some (if unat n < length ps then contents h ps ! unat n else None)"
  using elem_loop_nth [of h "lfirst h l" ps 0 n None] assms
  by (auto simp: bl_elem_def rep_def contents_def)

lemma check_loop_last:
  "seg (nnext h) (Node p) (ps @ [q]) End \<Longrightarrow> None \<notin> set (contents h ps) \<Longrightarrow>
   check_loop h (Node p) cnt = Some (Some (Node q, cnt + of_nat (length ps)))"
proof (induction ps arbitrary: p cnt)
  case Nil then show ?case by (subst check_loop.simps) (simp add: node_next_def)
next
  case (Cons r ps)
  then obtain r' where "nnext h (Node p) = Node r'" by (cases ps) auto
  then show ?case
    using Cons.prems Cons.IH [of r' "cnt + 1"] by (subst check_loop.simps) (auto simp: node_next_def algebra_simps simp flip: not_None_eq)
qed

lemma bl_check_list_rep:
  assumes "rep h l ps" "ps \<noteq> []" "None \<notin> set (contents h ps)"
  shows "bl_check_list h l = Some True"
proof -
  obtain qs q where ps: "ps = qs @ [q]" using assms(2) rev_exhaust by blast
  obtain p where p: "lfirst h l = Node p" using rep_first [OF assms(1)] assms(2) by (cases ps) auto
  have "check_loop h (lfirst h l) 0 = Some (Some (Node q, 0 + of_nat (length qs)))"
    unfolding p using assms ps p by (intro check_loop_last) (auto simp: rep_def)
  then show ?thesis using assms(1) ps by (simp add: bl_check_list_def rep_def last_slot_def)
qed

section \<open>Iterators\<close>

text \<open>The iterator stands between the nodes \<open>ps\<close> it has passed and the nodes \<open>qs\<close> still to come.\<close>

definition iter_at :: "bl_iter \<Rightarrow> nat \<Rightarrow> nat list \<Rightarrow> bool" where
  "iter_at it l ps \<longleftrightarrow> it_list it = Some l \<and> it_el it = Some (last_slot l ps)"

lemma bli_init_at [simp]: "iter_at (bli_init l) l []"
  by (simp add: iter_at_def bli_init_def last_slot_def)

lemma last_slot_snoc [simp]: "last_slot l (ps @ [q]) = Next (Node q)"
  by (simp add: last_slot_def)

lemma bli_next_node:
  assumes "rep h l (ps @ q # qs)" "iter_at it l ps"
  shows "\<exists>it'. bli_next h it = Some (it', ninfo h (Node q)) \<and> iter_at it' l (ps @ [q]) \<and>
    it_current it' = Node q \<and> it_prev it' = Some (last_slot l ps)"
  using assms slot_in_front [OF assms(1)] by (simp add: bli_next_def iter_at_def node_info_def)

lemma load_last_slot: "rep h l ps \<Longrightarrow> load h (last_slot l ps) = Some End"
  using seg_last [of "nnext h" "lfirst h l" ps End] by (auto simp: rep_def last_slot_def node_next_def)

lemma bli_next_end:
  assumes "rep h l ps" "end_ok h" "iter_at it l ps"
  shows "\<exists>it'. bli_next h it = Some (it', None) \<and> it_list it' = Some l \<and> it_current it' = End"
  using assms load_last_slot [OF assms(1)] by (simp add: bli_next_def iter_at_def node_info_def end_ok_def)

lemma bli_remove_current:
  assumes "rep h l (ps @ q # qs)" "iter_at it l (ps @ [q])" "it_prev it = Some (last_slot l ps)"
  shows "\<exists>h' it'. bli_remove h it = Some (h', it') \<and> rep h' l (ps @ qs) \<and> iter_at it' l ps \<and>
    contents h' (ps @ qs) = contents h (ps @ qs)"
proof -
  obtain h' where h': "bl_remove h l (last_slot l ps) = Some h'" "rep h' l (ps @ qs)" "ninfo h' = ninfo h"
    using bl_remove_rep [OF assms(1)] by blast
  then show ?thesis using assms(2,3) by (auto simp: bli_remove_def iter_at_def contents_def)
qed

lemma bli_after_current:
  assumes "rep h l (ps @ q # qs)" "it_list it = Some l" "it_current it = Node q"
    "a \<notin> set (ps @ q # qs)" "Suc (length (ps @ q # qs)) < 2 ^ 32"
  shows "\<exists>h' it'. bli_after h it x (Some a) = Some (h', it') \<and> rep h' l (ps @ q # a # qs) \<and>
    iter_at it' l (ps @ [q, a]) \<and> contents h' (ps @ q # a # qs) = contents h (ps @ [q]) @ x # contents h qs"
proof -
  obtain h' where "bl_after h l x (Node q) (Some a) = Some h'" "rep h' l (ps @ q # a # qs)"
    "contents h' (ps @ q # a # qs) = contents h (ps @ [q]) @ x # contents h qs" "nnext h' (Node q) = Node a"
    using bl_after_rep [OF assms(1,4,5), of x] by blast
  then show ?thesis
    using assms(2,3) last_slot_snoc [of l "ps @ [q]" a] by (auto simp: bli_after_def iter_at_def node_next_def)
qed

text \<open>Splicing a whole list in place of the current element.\<close>

lemma bli_replace_list_rep:
  assumes r: "rep h l (ps @ q # qs)" "rep h nl (n # ns)" "l \<noteq> nl" "set (ps @ q # qs) \<inter> set (n # ns) = {}"
    and it: "it_list it = Some l" "it_current it = Node q"
    and len: "length (ps @ q # qs) + length ns < 2 ^ 32"
  shows "\<exists>h'. bli_replace_list h it nl = Some (h', ninfo h (Node q)) \<and> rep h' l (ps @ q # ns @ qs) \<and>
    contents h' (ps @ q # ns @ qs) = contents h ps @ contents h (n # ns) @ contents h qs"
proof -
  have d: "distinct (ps @ q # qs)" "distinct (n # ns)" using r by (auto simp: rep_def)
  have e: "lelements h nl = of_nat (Suc (length ns))" "lelements h l = of_nat (length (ps @ q # qs))"
    using r by (auto simp: rep_def)
  have gt: "(1 :: uint) < of_nat (Suc (length ns)) \<longleftrightarrow> ns \<noteq> []"
    using r(2) by (cases ns) (auto simp: rep_def word_less_nat_alt unsigned_of_nat take_bit_nat_eq_self simp del: of_nat_Suc)
  have lq: "qs \<noteq> [] \<Longrightarrow> last qs \<noteq> q" using d(1) last_in_set [of qs] by auto
  have f: "lfirst h nl = Node n" "llast h nl = Next (Node (last (n # ns)))"
    "llast h l = Next (Node (last (q # qs)))" "\<not> bl_is_empty h nl"
    using r by (auto simp: rep_def last_slot_def bl_is_empty_def)
  have s: "seg (nnext h) (lfirst h l) ps (Node q)" "seg (nnext h) (nnext h (Node q)) qs End"
    "seg (nnext h) (nnext h (Node n)) ns End"
    using r by (auto simp: rep_def seg_append)
  show ?thesis
  proof (cases "ns = []")
    case True
    have "n \<noteq> q" "n \<notin> set qs" "n \<notin> set ps" using r(4) by auto
    then show ?thesis using True f it e gt s d r(1)
      by (auto simp: bli_replace_list_def rep_def store_info_def op_simps seg_append contents_def)
  next
    case False
    let ?nx = "nnext h"
    have "seg (?nx(Node (last ns) := ?nx (Node q))) (?nx (Node n)) ns (?nx (Node q))"
      using s(3) d(2) False by (intro seg_relink) auto
    moreover have "last ns \<notin> set ps" "last ns \<noteq> q" "last ns \<notin> set qs" "last ns \<noteq> n"
      using r(4) d(2) last_in_set [OF False] by auto
    moreover have "q \<notin> set ns" "q \<noteq> n" "set ps \<inter> set ns = {}" "set qs \<inter> set ns = {}" using r(4) by auto
    ultimately show ?thesis using False f it e gt s d lq len
      by (auto simp: bli_replace_list_def rep_def store_info_def op_simps seg_append contents_def)
  qed
qed

lemma delete_loop_contents:
  "seg (nnext h) node ps End \<Longrightarrow> delete_loop h node acc = Some (acc @ contents h ps)"
proof (induction ps arbitrary: node acc)
  case Nil then show ?case by (subst delete_loop.simps) simp
next
  case (Cons p ps)
  then show ?case by (subst delete_loop.simps) (simp add: node_next_def node_info_def)
qed

lemma replace_loop_map:
  assumes "rep h l (ps @ qs)" "end_ok h" "iter_at it l ps" "None \<notin> set (contents h qs)"
  shows "\<exists>h'. replace_loop clone h it = Some h' \<and> rep h' l (ps @ qs) \<and> end_ok h' \<and>
    contents h' (ps @ qs) = contents h ps @ map (\<lambda>x. Option.bind x clone) (contents h qs)"
  using assms
proof (induction qs arbitrary: h it ps)
  case Nil
  then show ?case using bli_next_end [of h l ps it] by (subst replace_loop.simps) auto
next
  case (Cons q qs)
  obtain it' where it': "bli_next h it = Some (it', ninfo h (Node q))" "iter_at it' l (ps @ [q])"
    "it_current it' = Node q"
    using bli_next_node [OF Cons.prems(1,3)] by blast
  obtain x where x: "ninfo h (Node q) = Some x" using Cons.prems(4) by (cases "ninfo h (Node q)") auto
  define h1 where "h1 = h\<lparr>ninfo := (ninfo h)(Node q := clone x)\<rparr>"
  have d: "q \<notin> set ps" "q \<notin> set qs" using Cons.prems(1) by (auto simp: rep_def)
  have h1: "rep h1 l ((ps @ [q]) @ qs)" "end_ok h1" "contents h1 qs = contents h qs" "contents h1 ps = contents h ps"
    using Cons.prems(1,2) d by (auto simp: h1_def rep_def end_ok_def contents_def)
  obtain h2 where h2: "replace_loop clone h1 it' = Some h2" "rep h2 l ((ps @ [q]) @ qs)" "end_ok h2"
    "contents h2 ((ps @ [q]) @ qs) = contents h1 (ps @ [q]) @ map (\<lambda>x. Option.bind x clone) (contents h1 qs)"
    using Cons.IH [OF h1(1,2) it'(2)] Cons.prems(4) h1(3) by auto
  have "bli_replace h it' (clone x) = Some (h1, ninfo h (Node q))"
    using it'(3) by (simp add: bli_replace_def node_info_def store_info_def h1_def)
  then have "replace_loop clone h it = Some h2"
    using it'(1) x h2(1) by (subst replace_loop.simps) simp
  then show ?case using h2 h1 x by (simp add: h1_def)
qed

section \<open>Bubble sort\<close>

text \<open>One pass over \<open>x # ys\<close>, and the passes until one makes no exchange.\<close>

fun bubble_pass :: "('a \<Rightarrow> 'a \<Rightarrow> int) \<Rightarrow> 'a \<Rightarrow> 'a list \<Rightarrow> 'a list \<times> bool" where
  "bubble_pass f x [] = ([x], False)"
| "bubble_pass f x (y # ys) =
     (if f x y > 0 then (y # fst (bubble_pass f x ys), True)
      else (x # fst (bubble_pass f y ys), snd (bubble_pass f y ys)))"

lemma length_bubble_pass [simp]: "length (fst (bubble_pass f x ys)) = Suc (length ys)"
  by (induction f x ys rule: bubble_pass.induct) auto

lemma bubble_pass_nonempty [simp]: "fst (bubble_pass f x ys) \<noteq> []"
  by (metis length_bubble_pass list.size(3) nat.distinct(1))

function bubble_rounds :: "('a \<Rightarrow> 'a \<Rightarrow> int) \<Rightarrow> 'a list \<Rightarrow> 'a list \<Rightarrow> 'a list" where
  "bubble_rounds f [] cs = cs"
| "bubble_rounds f (x # xs) cs =
     (let ys = fst (bubble_pass f x xs)
      in if snd (bubble_pass f x xs) then bubble_rounds f (butlast ys) (last ys # cs) else ys @ cs)"
  by pat_completeness auto

termination
  by (relation "measure (\<lambda>(f, xs, cs). length xs)") auto

lemma mset_bubble_pass [simp]: "mset (fst (bubble_pass f x ys)) = add_mset x (mset ys)"
  by (induction f x ys rule: bubble_pass.induct) auto

lemma set_bubble_pass: "set (fst (bubble_pass f x ys)) = insert x (set ys)"
  by (metis mset_bubble_pass set_mset_add_mset_insert set_mset_mset)

lemma mset_bubble_rounds: "mset (bubble_rounds f xs cs) = mset xs + mset cs"
proof (induction f xs cs rule: bubble_rounds.induct)
  case (2 f x xs cs)
  have "mset (butlast ys) + mset (last ys # cs) = mset ys + mset cs" if "ys \<noteq> []" for ys :: "'a list"
    using that by (cases ys rule: rev_cases) auto
  then show ?case using 2 by (simp add: Let_def)
qed simp

text \<open>A comparison that reports a total preorder: \<open>f x y > 0\<close> when \<open>x\<close> must come after \<open>y\<close>.\<close>

locale comparison =
  fixes f :: "'a \<Rightarrow> 'a \<Rightarrow> int"
  assumes total: "f x y > 0 \<Longrightarrow> \<not> f y x > 0"
    and trans: "\<not> f x y > 0 \<Longrightarrow> \<not> f y z > 0 \<Longrightarrow> \<not> f x z > 0"
begin

abbreviation R :: "'a \<Rightarrow> 'a \<Rightarrow> bool" where
  "R x y \<equiv> \<not> f x y > 0"

lemma bubble_pass_last: "z \<in> insert x (set ys) \<Longrightarrow> R z (last (fst (bubble_pass f x ys)))"
proof (induction ys arbitrary: x z)
  case Nil
  then show ?case using total by auto
next
  case (Cons y ys)
  show ?case
  proof (cases "f x y > 0")
    case True
    have "R x (last (fst (bubble_pass f x ys)))" using Cons.IH by blast
    then show ?thesis using Cons True total [OF True] trans by auto
  next
    case False
    have "R y (last (fst (bubble_pass f y ys)))" using Cons.IH by blast
    then show ?thesis using Cons False trans by auto
  qed
qed

lemma bubble_pass_stays: "\<not> snd (bubble_pass f x ys) \<Longrightarrow> fst (bubble_pass f x ys) = x # ys \<and> sorted_wrt R (x # ys)"
proof (induction ys arbitrary: x)
  case (Cons y ys)
  have xy: "R x y" and st: "\<not> snd (bubble_pass f y ys)" using Cons.prems by (auto split: if_splits)
  have "sorted_wrt R (y # ys)" using Cons.IH [OF st] by blast
  then have "\<forall>z \<in> set (y # ys). R x z" using xy trans by auto
  then show ?case using xy Cons.IH [OF st] by simp
qed simp

lemma bubble_rounds_sorted:
  "sorted_wrt R cs \<Longrightarrow> \<forall>x \<in> set xs. \<forall>c \<in> set cs. R x c \<Longrightarrow> sorted_wrt R (bubble_rounds f xs cs)"
proof (induction "length xs" arbitrary: xs cs)
  case (Suc n)
  obtain x xs' where xs: "xs = x # xs'" using Suc(2) by (cases xs) auto
  define ys where "ys = fst (bubble_pass f x xs')"
  have ys: "set ys = set xs" "ys \<noteq> []" by (simp_all add: ys_def xs set_bubble_pass)
  have last: "R z (last ys)" if "z \<in> set xs" for z
    using bubble_pass_last that by (auto simp: ys_def xs)
  show ?case
  proof (cases "snd (bubble_pass f x xs')")
    case True
    have "last ys \<in> set xs" using ys last_in_set by blast
    moreover have "set (butlast ys) \<subseteq> set xs" using ys(1) by (auto dest: in_set_butlastD)
    ultimately have "sorted_wrt R (bubble_rounds f (butlast ys) (last ys # cs))"
      using Suc.prems last Suc(2) by (intro Suc(1)) (auto simp: ys_def xs)
    then show ?thesis using True by (simp add: xs ys_def Let_def)
  next
    case False
    then show ?thesis using bubble_pass_stays [OF False] Suc.prems by (auto simp: xs sorted_wrt_append)
  qed
qed simp

end

text \<open>The loops of \<open>bubble_sort\<close> perform these passes on the \<open>info\<close> fields and leave the nodes alone.\<close>

definition put_contents :: "'v heap \<Rightarrow> nat list \<Rightarrow> 'v option list \<Rightarrow> 'v heap" where
  "put_contents h ps xs = h\<lparr>ninfo := (\<lambda>q. case q of Node n \<Rightarrow>
     (case map_of (zip ps xs) n of Some x \<Rightarrow> x | None \<Rightarrow> ninfo h q) | _ \<Rightarrow> ninfo h q)\<rparr>"

lemma put_contents_fields [simp]:
  "nnext (put_contents h ps xs) = nnext h" "lfirst (put_contents h ps xs) = lfirst h"
  "llast (put_contents h ps xs) = llast h" "lelements (put_contents h ps xs) = lelements h"
  "rep (put_contents h ps xs) l qs = rep h l qs" "end_ok (put_contents h ps xs) = end_ok h"
  by (simp_all add: put_contents_def rep_def end_ok_def)

lemma put_contents_Cons:
  "distinct (p # ps) \<Longrightarrow> length xs = length ps \<Longrightarrow>
   put_contents h (p # ps) (x # xs) = put_contents (h\<lparr>ninfo := (ninfo h)(Node p := x)\<rparr>) ps xs"
  by (auto simp: put_contents_def fun_eq_iff split: nptr.splits option.splits
      dest: map_of_SomeD set_zip_leftD intro!: heap.fold_congs)

lemma contents_put:
  "distinct ps \<Longrightarrow> length xs = length ps \<Longrightarrow> contents (put_contents h ps xs) ps = xs"
  by (auto simp: contents_def put_contents_def list_eq_iff_nth_eq map_of_zip_nth)

lemma contents_put_other:
  "set ps \<inter> set qs = {} \<Longrightarrow> contents (put_contents h ps xs) qs = contents h qs"
  by (auto simp: contents_def put_contents_def split: option.splits dest!: map_of_SomeD set_zip_leftD)

lemma put_contents_absorb:
  assumes "p \<in> set ps" "length xs = length ps"
  shows "put_contents (h\<lparr>ninfo := (ninfo h)(Node p := x)\<rparr>) ps xs = put_contents h ps xs"
proof -
  have "map_of (zip ps xs) p \<noteq> None" using assms by (simp add: map_of_zip_is_None)
  then show ?thesis by (auto simp: put_contents_def fun_eq_iff split: nptr.splits option.splits intro!: heap.fold_congs)
qed

lemma put_contents_same [simp]: "put_contents h [p] [ninfo h (Node p)] = h"
proof -
  have "(\<lambda>q. case q of Node n \<Rightarrow> (case map_of (zip [p] [ninfo h (Node p)]) n of Some x \<Rightarrow> x | None \<Rightarrow> ninfo h q)
      | _ \<Rightarrow> ninfo h q) = ninfo h"
    by (auto simp: fun_eq_iff split: nptr.splits)
  then show ?thesis unfolding put_contents_def by simp
qed

definition stop_ref :: "nat list \<Rightarrow> nptr" where
  "stop_ref cs = (case cs of [] \<Rightarrow> Null | c # _ \<Rightarrow> Node c)"

lemma bubble_inner_step:
  assumes r: "rep h l (as @ p # b # bs @ cs)" and it: "iter_at it l (as @ [p])" and x: "ninfo h (Node b) \<noteq> None"
  shows "\<exists>it'. iter_at it' l (as @ [p, b]) \<and>
    bubble_inner f (stop_ref cs) h it x1 (Node p) sw =
      (if f x1 (ninfo h (Node b)) > 0
       then bubble_inner f (stop_ref cs) (h\<lparr>ninfo := (ninfo h)(Node p := ninfo h (Node b), Node b := x1)\<rparr>) it' x1 (Node b) True
       else bubble_inner f (stop_ref cs) h it' (ninfo h (Node b)) (Node b) sw)"
proof -
  obtain it' where it': "bli_next h it = Some (it', ninfo h (Node b))" "iter_at it' l ((as @ [p]) @ [b])"
    "it_current it' = Node b"
    using bli_next_node [of h l "as @ [p]" b "bs @ cs" it] r it by auto
  have "Node b \<noteq> stop_ref cs" using r by (auto simp: stop_ref_def rep_def split: list.splits)
  then show ?thesis using it' x 
    by (subst bubble_inner.simps) (intro exI [of _ it'], auto simp: bli_ref_def store_info_def Let_def)
qed

lemma bubble_inner_pass:
  assumes "rep h l (as @ p # bs @ cs)" "end_ok h" "iter_at it l (as @ [p])" "None \<notin> set (contents h (bs @ cs))"
  shows "\<exists>it'. it_list it' = Some l \<and>
    bubble_inner f (stop_ref cs) h it (ninfo h (Node p)) (Node p) sw =
      Some (put_contents h (p # bs) (fst (bubble_pass f (ninfo h (Node p)) (contents h bs))), it',
        Node (last (p # bs)), sw \<or> snd (bubble_pass f (ninfo h (Node p)) (contents h bs)))"
  using assms
proof (induction bs arbitrary: h it as p sw)
  case Nil
  show ?case
  proof (cases cs)
    case Nil
    then show ?thesis using Nil.prems bli_next_end [of h l "as @ [p]" it]
      by (subst bubble_inner.simps) auto
  next
    case (Cons c cs')
    then obtain it' where "bli_next h it = Some (it', ninfo h (Node c))" "it_current it' = Node c" "it_list it' = Some l"
      using bli_next_node [of h l "as @ [p]" c cs' it] Nil.prems by (auto simp: iter_at_def)
    then show ?thesis using Nil.prems Cons
      by (subst bubble_inner.simps) (auto simp: bli_ref_def stop_ref_def)
  qed
next
  case (Cons b bs)
  have d: "distinct (p # b # bs)" using Cons.prems(1) by (auto simp: rep_def)
  have nb: "ninfo h (Node b) \<noteq> None" using Cons.prems(4) by (metis append_Cons contents_simps(2) list.set_intros(1))
  let ?x = "ninfo h (Node p)" and ?y = "ninfo h (Node b)"
  define h2 where "h2 = h\<lparr>ninfo := (ninfo h)(Node p := ?y, Node b := ?x)\<rparr>"
  have h2b: "ninfo h2 (Node b) = ?x" by (simp add: h2_def)
  have cb: "contents h2 bs = contents h bs" "None \<notin> set (contents h2 (bs @ cs))"
    using d Cons.prems(1,4) by (auto simp: contents_def rep_def h2_def)
  have r2: "rep h l ((as @ [p]) @ b # bs @ cs)" "rep h2 l ((as @ [p]) @ b # bs @ cs)" "end_ok h2"
    using Cons.prems(1,2) by (auto simp: rep_def end_ok_def h2_def)
  obtain it' where it': "iter_at it' l ((as @ [p]) @ [b])"
    "bubble_inner f (stop_ref cs) h it ?x (Node p) sw =
      (if f ?x ?y > 0 then bubble_inner f (stop_ref cs) h2 it' ?x (Node b) True
       else bubble_inner f (stop_ref cs) h it' ?y (Node b) sw)"
    using bubble_inner_step [of h l as p b bs cs it f ?x sw] Cons.prems(1,3) nb by (auto simp: h2_def)
  show ?case
  proof (cases "f ?x ?y > 0")
    case True
    have "put_contents h (p # b # bs) (?y # zs) = put_contents h2 (b # bs) zs" if "length zs = Suc (length bs)" for zs
      using d that put_contents_absorb [of b "b # bs" zs "h\<lparr>ninfo := (ninfo h)(Node p := ?y)\<rparr>" ?x]
      by (simp add: put_contents_Cons h2_def)
    then show ?thesis
      using Cons.IH [OF r2(2,3) it'(1) cb(2), of True] it'(2) True cb(1) h2b by simp
  next
    case False
    have "put_contents h (p # b # bs) (?x # zs) = put_contents h (b # bs) zs" if "length zs = Suc (length bs)" for zs
      using d that by (simp add: put_contents_Cons)
    then show ?thesis
      using Cons.IH [OF r2(1) Cons.prems(2) it'(1), of sw] it'(2) False Cons.prems(4) by simp
  qed
qed

lemma contents_butlast: "contents h (butlast ps) = butlast (contents h ps)"
  by (simp add: contents_def map_butlast)

lemma contents_last: "ps \<noteq> [] \<Longrightarrow> ninfo h (Node (last ps)) = last (contents h ps)"
  by (simp add: contents_def last_map)

lemma bubble_outer_rounds:
  assumes "rep h l (as @ cs)" "as \<noteq> []" "end_ok h" "iter_at it l []" "None \<notin> set (contents h (as @ cs))"
  shows "\<exists>h'. bubble_outer f h it (stop_ref cs) = Some h' \<and> rep h' l (as @ cs) \<and> end_ok h' \<and>
    contents h' (as @ cs) = bubble_rounds f (contents h as) (contents h cs)"
  using assms
proof (induction "length as" arbitrary: h it as cs rule: less_induct)
  case less
  obtain p bs where as: "as = p # bs" using less.prems(2) by (cases as) auto
  have d: "distinct (as @ cs)" using less.prems(1) by (simp add: rep_def)
  obtain it1 where it1: "bli_next h it = Some (it1, ninfo h (Node p))" "iter_at it1 l ([] @ [p])" "it_current it1 = Node p"
    using bli_next_node [of h l "[]" p "bs @ cs" it] less.prems as by auto
  define ys where "ys = fst (bubble_pass f (ninfo h (Node p)) (contents h bs))"
  define sw where "sw = snd (bubble_pass f (ninfo h (Node p)) (contents h bs))"
  define h1 where "h1 = put_contents h as ys"
  have r1: "rep h1 l (as @ cs)" "end_ok h1" using less.prems by (simp_all add: h1_def)
  have len: "length ys = length as" by (simp add: ys_def as)
  have c1: "contents h1 as = ys" "contents h1 cs = contents h cs"
    using d len by (auto simp: h1_def contents_put contents_put_other)
  obtain it2 where it2: "it_list it2 = Some l"
    "bubble_inner f (stop_ref cs) h it1 (ninfo h (Node p)) (Node p) False = Some (h1, it2, Node (last as), sw)"
    using bubble_inner_pass [of h l "[]" p bs cs it1 f False] less.prems it1 as
    by (auto simp: h1_def ys_def sw_def)
  define it3 where "it3 = it2\<lparr>it_el := Some (First l)\<rparr>"
  have it3: "bli_rewind it2 = Some it3" "iter_at it3 l []"
    using it2 by (simp_all add: bli_rewind_def it3_def iter_at_def last_slot_def)
  have step: "bubble_outer f h it (stop_ref cs) = (if sw then bubble_outer f h1 it3 (Node (last as)) else Some h1)"
    using it1 it2 it3 by (subst bubble_outer.simps) (simp add: bli_ref_def)
  show ?case
  proof (cases sw)
    case False
    then show ?thesis
      using step r1 c1 as by (simp add: Let_def ys_def sw_def)
  next
    case True
    then have bs: "bs \<noteq> []" by (auto simp: sw_def)
    have split: "butlast as @ last as # cs = as @ cs" using as by (metis append_butlast_last_id append_Cons append_Nil append_assoc list.distinct(1))
    have eq: "stop_ref (last as # cs) = Node (last as)" by (simp add: stop_ref_def)
    have "set ys = set (contents h as)" by (simp add: ys_def set_bubble_pass as)
    then have "None \<notin> set (contents h1 (as @ cs))" using less.prems(5) c1 by simp
    then obtain h2 where h2: "bubble_outer f h1 it3 (Node (last as)) = Some h2" "rep h2 l (as @ cs)" "end_ok h2"
      "contents h2 (as @ cs) = bubble_rounds f (contents h1 (butlast as)) (contents h1 (last as # cs))"
      using less.hyps [of "butlast as" h1 "last as # cs" it3] r1 it3 as bs unfolding split eq by auto
    moreover have "bubble_rounds f (contents h as) (contents h cs) = bubble_rounds f (butlast ys) (last ys # contents h cs)"
      using True by (simp add: as Let_def ys_def sw_def)
    moreover have "contents h1 (butlast as) = butlast ys" "contents h1 (last as # cs) = last ys # contents h cs"
      using c1 contents_last [of as h1] less.prems(2) by (simp_all add: contents_butlast)
    ultimately show ?thesis using step True by metis
  qed
qed

lemma bubble_sort_rounds:
  assumes "rep h l ps" "end_ok h" "None \<notin> set (contents h ps)"
  shows "\<exists>h'. bubble_sort h l f = Some h' \<and> rep h' l ps \<and> contents h' ps = bubble_rounds f (contents h ps) []"
proof (cases "ps = []")
  case True
  obtain it where it: "bli_next h (bli_init l) = Some (it, None)" "it_list it = Some l" "it_current it = End"
    using bli_next_end [of h l ps "bli_init l"] assms True by auto
  have el: "it_el it = Some (Next End)"
    using it(1) assms by (auto simp: bli_next_def bli_init_def True rep_def node_info_def split: if_splits)
  have "bli_next h it = Some (it\<lparr>it_prev := Some (Next End)\<rparr>, None)"
    using assms(2) el it(3) by (cases it) (auto simp: bli_next_def node_next_def node_info_def end_ok_def)
  then have "bubble_outer f h (bli_init l) Null = Some h"
    using it el by (subst bubble_outer.simps, subst bubble_inner.simps) (simp add: bli_rewind_def)
  then show ?thesis using assms True by (simp add: bubble_sort_def)
next
  case False
  then show ?thesis
    using bubble_outer_rounds [of h l ps "[]" "bli_init l" f] assms
    by (auto simp: bubble_sort_def stop_ref_def)
qed

section \<open>Lists as queues\<close>

text \<open>An element of the queue is a node together with the pointer it carries.\<close>

definition bl_seq :: "nat \<Rightarrow> 'v heap \<Rightarrow> (nat \<times> 'v option) list \<Rightarrow> bool" where
  "bl_seq l h xs \<longleftrightarrow> rep h l (map fst xs) \<and> contents h (map fst xs) = map snd xs"

definition bl_put :: "nat \<Rightarrow> 'v heap \<Rightarrow> nat \<times> 'v option \<Rightarrow> 'v heap option" where
  "bl_put l h x = map_option fst (bl_push_back h l (snd x) (Some (fst x)))"

definition bl_fresh :: "(nat \<times> 'v option) list \<Rightarrow> nat \<times> 'v option \<Rightarrow> bool" where
  "bl_fresh xs x \<longleftrightarrow> fst x \<notin> fst ` set xs \<and> Suc (length xs) < 2 ^ 32"

interpretation bl: fifo "bl_seq l" "bl_put l" "\<lambda>h. bl_pop h l" snd bl_fresh
proof
  fix h :: "'v heap" and xs x
  assume "bl_seq l h xs" "bl_fresh xs x"
  then show "\<exists>h'. bl_put l h x = Some h' \<and> bl_seq l h' (xs @ [x])"
    using bl_push_back_rep [of h l "map fst xs" "fst x" "snd x"]
    by (auto simp: bl_seq_def bl_fresh_def bl_put_def)
next
  fix h :: "'v heap" and x xs
  assume "bl_seq l h (x # xs)"
  then show "\<exists>h'. bl_pop h l = Some (h', snd x) \<and> bl_seq l h' xs"
    using bl_pop_rep [of h l "fst x" "map fst xs"] by (auto simp: bl_seq_def contents_def)
qed

section \<open>Properties\<close>

text \<open>A heap with two lists: list 0 holds the nodes 1 and 2, list 1 the node 3.\<close>

definition ex_heap :: "nat heap" where
  "ex_heap = \<lparr>nnext = (\<lambda>p. if p = Node 1 then Node 2 else End),
     ninfo = (\<lambda>p. if p = Node 1 then Some 20 else if p = Node 2 then Some 10 else if p = Node 3 then Some 30 else None),
     lfirst = (\<lambda>l. if l = 0 then Node 1 else if l = 1 then Node 3 else End),
     llast = (\<lambda>l. if l = 0 then Next (Node 2) else if l = 1 then Next (Node 3) else First l),
     lelements = (\<lambda>l. if l = 0 then 2 else if l = 1 then 1 else 0)\<rparr>"

lemma ex_rep: "rep ex_heap 0 [1, 2]" "rep ex_heap 1 [3]" "end_ok ex_heap" "contents ex_heap [1, 2] = [Some 20, Some 10]"
  by (simp_all add: ex_heap_def rep_def last_slot_def end_ok_def contents_def)

text \<open>When the allocator fails, \<open>push_back\<close> reports the error and keeps the count, but it has already
  stored the null pointer in the final cell: the chain of nodes no longer ends in \<open>end_of_list\<close>,
  and the next \<open>push_back\<close> with memory available repairs it.\<close>

lemma base_list_push_back_oom:
  assumes "rep h l ps" "a \<notin> set ps" "Suc (length ps) < 2 ^ 32"
  shows "\<exists>h'. bl_push_back h l x None = Some (h', True) \<and> load h' (llast h' l) = Some Null \<and>
    (\<forall>qs. \<not> rep h' l qs) \<and>
    (\<exists>h''. bl_push_back h' l y (Some a) = Some (h'', False) \<and> rep h'' l (ps @ [a]))"
proof -
  obtain h' where h': "bl_push_back h l x None = Some (h', True)" "load h' (llast h' l) = Some Null"
    using bl_push_back_oom [OF assms(1)] by blast
  have "\<not> rep h' l qs" for qs
    using h'(2) load_last_slot [of h' l qs] by (auto simp: rep_def)
  moreover obtain h1 where h1: "bl_push_back h l y (Some a) = Some (h1, False)" "rep h1 l (ps @ [a])"
    using bl_push_back_rep [OF assms, of y] by blast
  moreover have "bl_push_back h' l y (Some a) = bl_push_back h l y (Some a)"
    using h'(1) assms(1,2) by (cases "ps = []") (auto simp: bl_push_back_def rep_def op_simps fun_upd_twist)
  ultimately show ?thesis using h' by auto
qed

text \<open>C19: On a list whose nodes are \<open>ps\<close>, fewer than $2^{32} - 1$, adding a fresh node at the back or at the front and taking
  the first element succeed, keep the list well formed (\<open>last\<close> addresses the final cell and
  \<open>elements\<close> counts the nodes) and change the sequence of elements as the names say; every other list
  with other nodes keeps its nodes and elements under each of the three, and elements come out in the
  order they were pushed. When the node cannot be allocated, \<open>push_front\<close> reports it and changes nothing,
  while \<open>push_back\<close> reports it and leaves the null pointer in the final cell: the list is no longer
  well formed until the next \<open>push_back\<close> succeeds.\<close>

theorem base_list_ends:
  assumes "rep h l ps" "a \<notin> set ps" "Suc (length ps) < 2 ^ 32" "bl_seq l h xs" "fresh_all bl_fresh xs ys"
  shows "(\<exists>h'. bl_push_back h l x (Some a) = Some (h', False) \<and> rep h' l (ps @ [a]) \<and>
      contents h' (ps @ [a]) = contents h ps @ [x] \<and>
      (\<forall>l' qs. l' \<noteq> l \<longrightarrow> set qs \<inter> set (a # ps) = {} \<longrightarrow> rep h l' qs \<longrightarrow> rep h' l' qs \<and> contents h' qs = contents h qs)) \<and>
    (\<exists>h'. bl_push_front h l x (Some a) = (h', False) \<and> rep h' l (a # ps) \<and>
      contents h' (a # ps) = x # contents h ps \<and>
      (\<forall>l' qs. l' \<noteq> l \<longrightarrow> a \<notin> set qs \<longrightarrow> rep h l' qs \<longrightarrow> rep h' l' qs \<and> contents h' qs = contents h qs)) \<and>
    (case ps of [] \<Rightarrow> bl_pop h l = Some (h, None)
     | p # ps' \<Rightarrow> \<exists>h'. bl_pop h l = Some (h', ninfo h (Node p)) \<and> rep h' l ps' \<and> contents h' ps' = contents h ps' \<and>
         (\<forall>l' qs. l' \<noteq> l \<longrightarrow> rep h l' qs \<longrightarrow> rep h' l' qs \<and> contents h' qs = contents h qs)) \<and>
    bl_push_front h l x None = (h, True) \<and>
    (\<exists>h'. bl_push_back h l x None = Some (h', True) \<and> load h' (llast h' l) = Some Null \<and> (\<forall>qs. \<not> rep h' l qs) \<and>
      (\<exists>h''. bl_push_back h' l x (Some a) = Some (h'', False) \<and> rep h'' l (ps @ [a]))) \<and>
    (\<exists>h' h''. put_all (bl_put l) h ys = Some h' \<and>
      get_all (\<lambda>h. bl_pop h l) (length (xs @ ys)) h' = Some (h'', map snd (xs @ ys)) \<and> bl_seq l h'' [])"
proof (intro conjI)
  show "\<exists>h'. bl_push_back h l x (Some a) = Some (h', False) \<and> rep h' l (ps @ [a]) \<and>
      contents h' (ps @ [a]) = contents h ps @ [x] \<and>
      (\<forall>l' qs. l' \<noteq> l \<longrightarrow> set qs \<inter> set (a # ps) = {} \<longrightarrow> rep h l' qs \<longrightarrow> rep h' l' qs \<and> contents h' qs = contents h qs)"
    using bl_push_back_rep [OF assms(1-3), of x] same_list_rep by blast
  show "\<exists>h'. bl_push_front h l x (Some a) = (h', False) \<and> rep h' l (a # ps) \<and>
      contents h' (a # ps) = x # contents h ps \<and>
      (\<forall>l' qs. l' \<noteq> l \<longrightarrow> a \<notin> set qs \<longrightarrow> rep h l' qs \<longrightarrow> rep h' l' qs \<and> contents h' qs = contents h qs)"
    using bl_push_front_rep [OF assms(1-3), of x] same_list_rep by blast
  show "case ps of [] \<Rightarrow> bl_pop h l = Some (h, None)
     | p # ps' \<Rightarrow> \<exists>h'. bl_pop h l = Some (h', ninfo h (Node p)) \<and> rep h' l ps' \<and> contents h' ps' = contents h ps' \<and>
         (\<forall>l' qs. l' \<noteq> l \<longrightarrow> rep h l' qs \<longrightarrow> rep h' l' qs \<and> contents h' qs = contents h qs)"
  proof (cases ps)
    case (Cons p ps')
    then obtain h' where h': "bl_pop h l = Some (h', ninfo h (Node p))" "rep h' l ps'" "nnext h' = nnext h" "ninfo h' = ninfo h"
      "\<forall>l'. l' \<noteq> l \<longrightarrow> lfirst h' l' = lfirst h l' \<and> llast h' l' = llast h l' \<and> lelements h' l' = lelements h l'"
      using bl_pop_rep [of h l p ps'] assms(1) by blast
    have "contents h' qs = contents h qs" for qs using h'(4) by (simp add: contents_def)
    moreover have "rep h' l' qs" if "l' \<noteq> l" "rep h l' qs" for l' qs using that h'(3,5) by (simp add: rep_def)
    ultimately show ?thesis using h' Cons by auto
  qed (use bl_pop_empty assms(1) in simp)
  show "bl_push_front h l x None = (h, True)" by (simp add: bl_push_front_def bl_push_front_impl_def op_simps)
  show "\<exists>h'. bl_push_back h l x None = Some (h', True) \<and> load h' (llast h' l) = Some Null \<and> (\<forall>qs. \<not> rep h' l qs) \<and>
      (\<exists>h''. bl_push_back h' l x (Some a) = Some (h'', False) \<and> rep h'' l (ps @ [a]))"
    by (rule base_list_push_back_oom [OF assms(1-3)])
  show "\<exists>h' h''. put_all (bl_put l) h ys = Some h' \<and>
      get_all (\<lambda>h. bl_pop h l) (length (xs @ ys)) h' = Some (h'', map snd (xs @ ys)) \<and> bl_seq l h'' []"
    by (rule bl.fifo_order [OF assms(4,5)])
qed

theorem base_list_ends_witness:
  "\<exists>h'. bl_push_back ex_heap 0 (Some 5) (Some 7) = Some (h', False) \<and> rep h' 0 [1, 2, 7] \<and>
    contents h' [1, 2, 7] = [Some 20, Some 10, Some 5] \<and> rep h' 1 [3]"
proof -
  have "bl_seq 0 ex_heap [(1, Some 20), (2, Some 10)]" "fresh_all bl_fresh [(1, Some 20), (2, Some 10)] [(7, Some 5)]"
    using ex_rep by (simp_all add: bl_seq_def bl_fresh_def)
  from base_list_ends [OF ex_rep(1) _ _ this, of 7 "Some 5", THEN conjunct1] obtain h' where
    h': "bl_push_back ex_heap 0 (Some 5) (Some 7) = Some (h', False)" "rep h' 0 [1, 2, 7]"
      "contents h' [1, 2, 7] = contents ex_heap [1, 2] @ [Some 5]"
    and f: "\<forall>l' qs. l' \<noteq> 0 \<longrightarrow> set qs \<inter> set [7, 1, 2] = {} \<longrightarrow> rep ex_heap l' qs \<longrightarrow> rep h' l' qs \<and> contents h' qs = contents ex_heap qs"
    by auto
  then show ?thesis using ex_rep(2,4) f [rule_format, of 1 "[3]"] by (intro exI [of _ h']) simp
qed

text \<open>Appending and prepending a list with other nodes concatenate the two sequences, swapping two
  list objects exchanges them, and \<open>disjoin\<close> cuts off a shared tail; each leaves a well-formed list.\<close>

theorem base_list_splice:
  assumes "rep h l ps" "rep h r qs" "set ps \<inter> set qs = {}" "l \<noteq> r" "length ps + length qs < 2 ^ 32"
  shows "(\<exists>h'. bl_append h l r = Some h' \<and> rep h' l (ps @ qs) \<and> contents h' (ps @ qs) = contents h ps @ contents h qs) \<and>
    (\<exists>h'. bl_prepend h l r = Some h' \<and> rep h' l (qs @ ps) \<and> contents h' (qs @ ps) = contents h qs @ contents h ps) \<and>
    rep (bl_swap h l r) l qs \<and> rep (bl_swap h l r) r ps \<and>
    (rep h d (ts @ qs) \<and> qs \<noteq> [] \<and> d \<noteq> r \<longrightarrow>
      (\<exists>h'. bl_disjoin h d r = Some h' \<and> rep h' d ts \<and> contents h' ts = contents h ts))"
proof (intro conjI impI)
  show "\<exists>h'. bl_append h l r = Some h' \<and> rep h' l (ps @ qs) \<and> contents h' (ps @ qs) = contents h ps @ contents h qs"
    using bl_append_rep [OF assms] by (auto simp: contents_def)
  show "\<exists>h'. bl_prepend h l r = Some h' \<and> rep h' l (qs @ ps) \<and> contents h' (qs @ ps) = contents h qs @ contents h ps"
    using bl_prepend_rep [OF assms] by (auto simp: contents_def)
  show "rep (bl_swap h l r) l qs" "rep (bl_swap h l r) r ps"
    using bl_swap_rep assms by blast+
  show "\<exists>h'. bl_disjoin h d r = Some h' \<and> rep h' d ts \<and> contents h' ts = contents h ts"
    if "rep h d (ts @ qs) \<and> qs \<noteq> [] \<and> d \<noteq> r"
    using bl_disjoin_tail [of h d ts qs r] that assms(2) by (auto simp: contents_def)
qed

theorem base_list_splice_witness:
  "\<exists>h'. bl_append ex_heap 0 1 = Some h' \<and> rep h' 0 [1, 2, 3] \<and> contents h' [1, 2, 3] = [Some 20, Some 10, Some 30]"
  using base_list_splice [of ex_heap 0 "[1, 2]" 1 "[3]" 0 "[]"] ex_rep
  by (simp add: contents_def ex_heap_def)

text \<open>C20: An iterator that has just returned the node \<open>q\<close> can remove it, insert a fresh node behind it, or
  replace it by a whole list, wherever it stands, including at the last node: the list stays well
  formed, the sequence changes at that place only, and after a removal the iterator continues
  with the element that followed.\<close>

theorem base_list_iterator_edits:
  assumes "rep h l (ps @ q # qs)" "end_ok h" "iter_at it l ps"
    "a \<notin> set (ps @ q # qs)" "Suc (length (ps @ q # qs)) + length ns < 2 ^ 32"
    "rep h nl (n # ns)" "l \<noteq> nl" "set (ps @ q # qs) \<inter> set (n # ns) = {}"
  shows "\<exists>it1. bli_next h it = Some (it1, ninfo h (Node q)) \<and>
    (\<exists>h' it'. bli_remove h it1 = Some (h', it') \<and> rep h' l (ps @ qs) \<and> iter_at it' l ps \<and>
      contents h' (ps @ qs) = contents h (ps @ qs)) \<and>
    (\<exists>h' it'. bli_after h it1 x (Some a) = Some (h', it') \<and> rep h' l (ps @ q # a # qs) \<and>
      iter_at it' l (ps @ [q, a]) \<and> contents h' (ps @ q # a # qs) = contents h (ps @ [q]) @ x # contents h qs) \<and>
    (\<exists>h'. bli_replace_list h it1 nl = Some (h', ninfo h (Node q)) \<and> rep h' l (ps @ q # ns @ qs) \<and>
      contents h' (ps @ q # ns @ qs) = contents h ps @ contents h (n # ns) @ contents h qs)"
proof -
  obtain it1 where it1: "bli_next h it = Some (it1, ninfo h (Node q))" "iter_at it1 l (ps @ [q])"
    "it_current it1 = Node q" "it_prev it1 = Some (last_slot l ps)"
    using bli_next_node [OF assms(1,3)] by blast
  moreover have "it_list it1 = Some l" using it1(2) by (simp add: iter_at_def)
  ultimately show ?thesis
    using bli_remove_current [OF assms(1) it1(2,4)] bli_after_current [OF assms(1) _ it1(3) assms(4), of x]
      bli_replace_list_rep [OF assms(1,6,7,8) _ it1(3)] assms(5) by auto
qed

theorem base_list_iterator_edits_witness:
  "\<exists>it1. bli_next ex_heap (bli_init 0) = Some (it1, Some 20) \<and>
    (\<exists>h' it'. bli_remove ex_heap it1 = Some (h', it') \<and> rep h' 0 [2])"
  using base_list_iterator_edits [of ex_heap 0 "[]" 1 "[2]" "bli_init 0" 7 "[]" 1 3] ex_rep by simp blast

text \<open>C18: \<open>bubble_sort\<close> terminates on every list without null elements, whatever the comparison
  returns; it keeps the nodes, permutes the elements, and when the comparison is a total
  preorder the result is sorted by it.\<close>

theorem bubble_sort_correct:
  assumes "rep h l ps" "end_ok h" "None \<notin> set (contents h ps)"
  shows "\<exists>h'. bubble_sort h l f = Some h' \<and> rep h' l ps \<and> mset (contents h' ps) = mset (contents h ps) \<and>
    (comparison f \<longrightarrow> sorted_wrt (\<lambda>x y. \<not> f x y > 0) (contents h' ps))"
proof -
  obtain h' where "bubble_sort h l f = Some h'" "rep h' l ps" "contents h' ps = bubble_rounds f (contents h ps) []"
    using bubble_sort_rounds [OF assms] by blast
  then show ?thesis using comparison.bubble_rounds_sorted [of f "[]" "contents h ps"]
    by (auto simp: mset_bubble_rounds)
qed

text \<open>Comparing the numbers an element points to.\<close>

definition cmp_nat :: "nat option \<Rightarrow> nat option \<Rightarrow> int" where
  "cmp_nat x y = int (case x of None \<Rightarrow> 0 | Some n \<Rightarrow> n) - int (case y of None \<Rightarrow> 0 | Some n \<Rightarrow> n)"

interpretation nat_cmp: comparison cmp_nat
  by unfold_locales (auto simp: cmp_nat_def)

theorem bubble_sort_witness:
  "\<exists>h'. bubble_sort ex_heap 0 cmp_nat = Some h' \<and> rep h' 0 [1, 2] \<and>
    sorted_wrt (\<lambda>x y. \<not> cmp_nat x y > 0) (contents h' [1, 2])"
  using bubble_sort_correct [of ex_heap 0 "[1, 2]" cmp_nat] ex_rep nat_cmp.comparison_axioms
  by (simp add: ex_heap_def) blast

text \<open>\<open>elem\<close> returns the element at an index and null beyond the end, \<open>add_unique\<close> adds an element
  exactly when no equal one is present, \<open>delete_elements\<close> destroys every element once in order, and
  \<open>list_copy_and_replace_each_value\<close> replaces every element by its clone. The debug check accepts every
  well-formed list that is not empty and rejects the empty one.\<close>

theorem base_list_queries:
  assumes "rep h l ps" "end_ok h" "a \<notin> set ps" "Suc (length ps) < 2 ^ 32" "None \<notin> set (contents h ps)"
  shows "bl_elem h l n = Some (if unat n < length ps then contents h ps ! unat n else None) \<and>
    (\<exists>h'. bl_add_unique h l x eq (Some a) = Some (h', \<exists>y \<in> set (contents h ps). eq y x) \<and>
      (if \<exists>y \<in> set (contents h ps). eq y x then h' = h
       else rep h' l (ps @ [a]) \<and> contents h' (ps @ [a]) = contents h ps @ [x])) \<and>
    (\<exists>h'. list_delete_elements h l = Some (h', contents h ps) \<and> rep h' l []) \<and>
    (\<exists>h'. list_copy_and_replace_each_value clone h l = Some h' \<and> rep h' l ps \<and>
      contents h' ps = map (\<lambda>y. Option.bind y clone) (contents h ps)) \<and>
    bl_check_list h l = Some (ps \<noteq> [])"
proof (intro conjI)
  have s: "seg (nnext h) (lfirst h l) ps End" using assms(1) by (simp add: rep_def)
  show "bl_elem h l n = Some (if unat n < length ps then contents h ps ! unat n else None)"
    by (rule bl_elem_nth [OF assms(1)])
  have "dropWhile (\<lambda>p. \<not> eq (ninfo h (Node p)) x) ps = [] \<longleftrightarrow> \<not> (\<exists>y \<in> set (contents h ps). eq y x)"
    by (auto simp: contents_def dropWhile_eq_Nil_conv)
  then show "\<exists>h'. bl_add_unique h l x eq (Some a) = Some (h', \<exists>y \<in> set (contents h ps). eq y x) \<and>
      (if \<exists>y \<in> set (contents h ps). eq y x then h' = h
       else rep h' l (ps @ [a]) \<and> contents h' (ps @ [a]) = contents h ps @ [x])"
    using find_loop_first [OF s, of eq x] bl_push_back_rep [OF assms(1,3,4), of x]
    by (cases "dropWhile (\<lambda>p. \<not> eq (ninfo h (Node p)) x) ps") (auto simp: bl_add_unique_def)
  show "\<exists>h'. list_delete_elements h l = Some (h', contents h ps) \<and> rep h' l []"
    by (simp add: list_delete_elements_def delete_loop_contents [OF s] bl_empty_rep)
  show "\<exists>h'. list_copy_and_replace_each_value clone h l = Some h' \<and> rep h' l ps \<and>
      contents h' ps = map (\<lambda>y. Option.bind y clone) (contents h ps)"
    using replace_loop_map [of h l "[]" ps "bli_init l" clone] assms(1,2,5)
    by (auto simp: list_copy_and_replace_each_value_def)
  show "bl_check_list h l = Some (ps \<noteq> [])"
  proof (cases "ps = []")
    case True
    have "check_loop h End 0 = Some (Some (End, 0))"
      using assms(2) by (subst check_loop.simps) (simp add: node_next_def end_ok_def)
    then show ?thesis using assms(1) True by (simp add: bl_check_list_def rep_def last_slot_def)
  qed (simp add: bl_check_list_rep [OF assms(1)] assms(5))
qed

theorem base_list_queries_witness:
  "bl_elem ex_heap 0 1 = Some (Some 10) \<and> bl_check_list ex_heap 0 = Some True"
  using base_list_queries [of ex_heap 0 "[1, 2]" 7 1] ex_rep by (simp add: ex_heap_def)

end
