(* ===== verification/Dlist_Heap.thy ===== *)
theory Dlist_Heap
  imports Prelude
begin

text \<open>
  Chains of nodes with forward pointers and back references, as the intrusive lists of the
  server use them: a back reference is the address of the cell that points to the node. The
  predicate below is shared by \<open>base_ilist\<close>, whose chain ends in a sentinel, and \<open>I_P_List\<close>, whose
  chain ends in a null pointer.
\<close>

text \<open>
  \<open>nx\<close> and \<open>pv\<close> are the fields of the nodes, \<open>nd\<close> the pointer to a node and \<open>sl\<close> the address of its
  forward cell. \<open>dseg s v ps e t\<close>: the cell \<open>s\<close> holds \<open>v\<close>, from which the nodes \<open>ps\<close> lead to \<open>e\<close>, held by
  the cell \<open>t\<close>.
\<close>

primrec dseg :: "(nat \<Rightarrow> 'p) \<Rightarrow> (nat \<Rightarrow> 's) \<Rightarrow> (nat \<Rightarrow> 'p) \<Rightarrow> (nat \<Rightarrow> 's) \<Rightarrow> 's \<Rightarrow> 'p \<Rightarrow> nat list \<Rightarrow> 'p \<Rightarrow> 's \<Rightarrow> bool" where
  "dseg nx pv nd sl s v [] e t \<longleftrightarrow> v = e \<and> s = t"
| "dseg nx pv nd sl s v (p # ps) e t \<longleftrightarrow> v = nd p \<and> pv p = s \<and> dseg nx pv nd sl (sl p) (nx p) ps e t"

lemma dseg_append:
  "dseg nx pv nd sl s v (ps @ qs) e t \<longleftrightarrow>
     (\<exists>u m. dseg nx pv nd sl s v ps u m \<and> dseg nx pv nd sl m u qs e t)"
  by (induction ps arbitrary: s v) auto

lemma dseg_cong:
  "(\<And>p. p \<in> set ps \<Longrightarrow> nx' p = nx p \<and> pv' p = pv p) \<Longrightarrow>
   dseg nx' pv' nd sl s v ps e t = dseg nx pv nd sl s v ps e t"
  by (induction ps arbitrary: s v) auto

lemma dseg_cell: "dseg nx pv nd sl s v ps e t \<Longrightarrow> t = (if ps = [] then s else sl (last ps))"
  by (induction ps arbitrary: s v) auto

lemma dseg_start: "dseg nx pv nd sl s v ps e t \<Longrightarrow> v = (if ps = [] then e else nd (hd ps))"
  by (cases ps) auto

lemma dseg_last_next: "dseg nx pv nd sl s v ps e t \<Longrightarrow> ps \<noteq> [] \<Longrightarrow> nx (last ps) = e"
  by (induction ps arbitrary: s v) (auto split: if_splits)

text \<open>The forward chain alone.\<close>

lemma dseg_forget: "dseg nx pv nd sl s v ps e t \<Longrightarrow> dseg nx (\<lambda>_. ()) nd (\<lambda>_. ()) () v ps e ()"
  by (induction ps arbitrary: s v) auto

text \<open>Redirecting the final cell of a segment.\<close>

lemma dseg_relink:
  assumes "dseg nx pv nd sl s v ps e t" "distinct ps" "ps \<noteq> []"
    "\<And>p. p \<in> set ps \<Longrightarrow> nx' p = (if p = last ps then x else nx p) \<and> pv' p = pv p"
  shows "dseg nx' pv' nd sl s v ps x t"
  using assms
proof (induction ps arbitrary: s v)
  case (Cons p ps)
  show ?case
  proof (cases "ps = []")
    case False
    then have "p \<noteq> last ps" using Cons.prems(2) by auto
    moreover have "dseg nx' pv' nd sl (sl p) (nx p) ps x t"
      using Cons.prems False by (intro Cons.IH) auto
    ultimately show ?thesis using Cons.prems False by auto
  qed (use Cons.prems in auto)
qed simp

text \<open>Moving a segment to another cell.\<close>

lemma dseg_reprev:
  assumes "dseg nx pv nd sl s v (p # ps) e t" "p \<notin> set ps"
    "\<And>q. q \<in> set (p # ps) \<Longrightarrow> nx' q = nx q \<and> pv' q = (if q = p then s' else pv q)"
  shows "dseg nx' pv' nd sl s' v (p # ps) e t"
proof -
  have "dseg nx' pv' nd sl (sl p) (nx p) ps e t = dseg nx pv nd sl (sl p) (nx p) ps e t"
    using assms(2,3) by (intro dseg_cong) auto
  then show ?thesis using assms by auto
qed

end
