(* ===== verification/I_List.thy ===== *)
theory I_List
  imports Dlist_Heap Containers "HOL-Library.Monad_Syntax"
begin

text \<open>
  The intrusive lists of \<^verbatim>\<open>sql_list.h\<close>. \<open>SQL_I_List\<close> chains elements through a field of their own and
  remembers the cell that ends the chain; \<open>base_ilist\<close> (and its typed wrapper \<open>I_List\<close>) is doubly
  linked, with a sentinel \<open>ilink\<close> inside the list object, so that an element can leave its list
  without knowing it.
\<close>

section \<open>\<open>SQL_I_List\<close>\<close>

text \<open>A cell that holds a pointer to an element: the field \<open>first\<close> of a list or the link field of an element.\<close>

datatype sslot = SFirst nat | SLink nat

(* @sql_list.h 34-42 SQL_I_List *)
record sheap =
  slink :: "nat \<Rightarrow> nat option"
  sfirst :: "nat \<Rightarrow> nat option"
  snext :: "nat \<Rightarrow> sslot"
  selements :: "nat \<Rightarrow> uint"

fun sstore :: "sheap \<Rightarrow> sslot \<Rightarrow> nat option \<Rightarrow> sheap" where
  "sstore h (SFirst l) v = h\<lparr>sfirst := (sfirst h)(l := v)\<rparr>"
| "sstore h (SLink e) v = h\<lparr>slink := (slink h)(e := v)\<rparr>"

(* @sql_list.h 46-51 SQL_I_List::SQL_I_List *)
definition sil_copy :: "sheap \<Rightarrow> nat \<Rightarrow> nat \<Rightarrow> sheap" where
  "sil_copy h l tmp = h\<lparr>selements := (selements h)(l := selements h tmp),
     sfirst := (sfirst h)(l := sfirst h tmp),
     snext := (snext h)(l := (if selements h tmp \<noteq> 0 then snext h tmp else SFirst l))\<rparr>"

(* @sql_list.h 53-59 SQL_I_List::operator= *)
definition sil_assign :: "sheap \<Rightarrow> nat \<Rightarrow> nat \<Rightarrow> sheap" where
  "sil_assign h l tmp = h\<lparr>selements := (selements h)(l := selements h tmp),
     sfirst := (sfirst h)(l := sfirst h tmp), snext := (snext h)(l := snext h tmp)\<rparr>"

(* @sql_list.h 61-66 SQL_I_List::empty *)
definition sil_empty :: "sheap \<Rightarrow> nat \<Rightarrow> sheap" where
  "sil_empty h l = h\<lparr>selements := (selements h)(l := 0), sfirst := (sfirst h)(l := None),
     snext := (snext h)(l := SFirst l)\<rparr>"

(* @sql_list.h 68-74 SQL_I_List::link_in_list *)
definition sil_link_in_list :: "sheap \<Rightarrow> nat \<Rightarrow> nat \<Rightarrow> sslot \<Rightarrow> sheap" where
  "sil_link_in_list h l element next_ptr =
     (let h1 = h\<lparr>selements := (selements h)(l := selements h l + 1)\<rparr>;
          h2 = sstore h1 (snext h1 l) (Some element);
          h3 = h2\<lparr>snext := (snext h2)(l := next_ptr)\<rparr>
      in sstore h3 (snext h3 l) None)"

(* @sql_list.h 76-80 SQL_I_List::save_and_clear *)
definition sil_save_and_clear :: "sheap \<Rightarrow> nat \<Rightarrow> nat \<Rightarrow> sheap" where
  "sil_save_and_clear h l save = sil_empty (sil_assign h save l) l"

(* @sql_list.h 82-88 SQL_I_List::push_front *)
definition sil_push_front :: "sheap \<Rightarrow> nat \<Rightarrow> nat \<Rightarrow> sheap" where
  "sil_push_front h l save =
     (let h1 = sstore h (snext h save) (sfirst h l);
          h2 = h1\<lparr>sfirst := (sfirst h1)(l := sfirst h1 save)\<rparr>
      in h2\<lparr>selements := (selements h2)(l := selements h2 l + selements h2 save)\<rparr>)"

(* @sql_list.h 90-98 SQL_I_List::push_back *)
definition sil_push_back :: "sheap \<Rightarrow> nat \<Rightarrow> nat \<Rightarrow> sheap" where
  "sil_push_back h l save =
     (if sfirst h save \<noteq> None then
        let h1 = sstore h (snext h l) (sfirst h save);
            h2 = h1\<lparr>snext := (snext h1)(l := snext h1 save)\<rparr>
        in h2\<lparr>selements := (selements h2)(l := selements h2 l + selements h2 save)\<rparr>
      else h)"

section \<open>\<open>ilink\<close> and \<open>base_ilist\<close>\<close>

text \<open>A pointer to an \<open>ilink\<close>: null, the sentinel \<open>last\<close> of a list object, or a link.\<close>

datatype iptr = INull | Sentinel nat | Link nat

datatype islot = IFirst nat | INext iptr

(* @sql_list.h 675-677 ilink *)
record iheap =
  inext :: "iptr \<Rightarrow> iptr"
  iprev :: "iptr \<Rightarrow> islot option"
  ifirst :: "nat \<Rightarrow> iptr"

fun istore :: "iheap \<Rightarrow> islot \<Rightarrow> iptr \<Rightarrow> iheap option" where
  "istore h (IFirst l) v = Some (h\<lparr>ifirst := (ifirst h)(l := v)\<rparr>)"
| "istore h (INext p) v = (if p = INull then None else Some (h\<lparr>inext := (inext h)(p := v)\<rparr>))"

fun iload :: "iheap \<Rightarrow> islot \<Rightarrow> iptr option" where
  "iload h (IFirst l) = Some (ifirst h l)"
| "iload h (INext p) = (if p = INull then None else Some (inext h p))"

definition set_iprev :: "iheap \<Rightarrow> iptr \<Rightarrow> islot option \<Rightarrow> iheap option" where
  "set_iprev h p s = (if p = INull then None else Some (h\<lparr>iprev := (iprev h)(p := s)\<rparr>))"

definition set_inext :: "iheap \<Rightarrow> iptr \<Rightarrow> iptr \<Rightarrow> iheap option" where
  "set_inext h p v = (if p = INull then None else Some (h\<lparr>inext := (inext h)(p := v)\<rparr>))"

(* @sql_list.h 688-691 ilink::ilink *)
definition ilink_init :: "iheap \<Rightarrow> iptr \<Rightarrow> iheap" where
  "ilink_init h p = h\<lparr>iprev := (iprev h)(p := None), inext := (inext h)(p := INull)\<rparr>"

(* @sql_list.h 692-698 ilink::unlink *)
definition ilink_unlink :: "iheap \<Rightarrow> iptr \<Rightarrow> iheap option" where
  "ilink_unlink h p = do {
     h1 \<leftarrow> (case iprev h p of None \<Rightarrow> Some h | Some s \<Rightarrow> istore h s (inext h p));
     h2 \<leftarrow> (if inext h1 p \<noteq> INull then set_iprev h1 (inext h1 p) (iprev h1 p) else Some h1);
     Some (h2\<lparr>iprev := (iprev h2)(p := None), inext := (inext h2)(p := INull)\<rparr>)
   }"

(* @sql_list.h 736-742 base_ilist::empty *)
definition il_empty :: "iheap \<Rightarrow> nat \<Rightarrow> iheap" where
  "il_empty h l = h\<lparr>ifirst := (ifirst h)(l := Sentinel l), iprev := (iprev h)(Sentinel l := Some (IFirst l))\<rparr>"

(* @sql_list.h 743-743 base_ilist::is_empty *)
definition il_is_empty :: "iheap \<Rightarrow> nat \<Rightarrow> bool" where
  "il_is_empty h l \<longleftrightarrow> ifirst h l = Sentinel l"

(* @sql_list.h 744-746 base_ilist::is_last *)
definition il_is_last :: "iheap \<Rightarrow> nat \<Rightarrow> iptr \<Rightarrow> bool" where
  "il_is_last h l p \<longleftrightarrow> inext h p = INull \<or> inext h p = Sentinel l"

(* @sql_list.h 747-751 base_ilist::append *)
definition il_append :: "iheap \<Rightarrow> nat \<Rightarrow> nat \<Rightarrow> iheap option" where
  "il_append h l a = do {
     h1 \<leftarrow> set_iprev h (ifirst h l) (Some (INext (Link a)));
     h2 \<leftarrow> set_inext h1 (Link a) (ifirst h1 l);
     h3 \<leftarrow> set_iprev h2 (Link a) (Some (IFirst l));
     Some (h3\<lparr>ifirst := (ifirst h3)(l := Link a)\<rparr>)
   }"

(* @sql_list.h 752-758 base_ilist::push_back *)
definition il_push_back :: "iheap \<Rightarrow> nat \<Rightarrow> nat \<Rightarrow> iheap option" where
  "il_push_back h l a = do {
     s \<leftarrow> iprev h (Sentinel l);
     h1 \<leftarrow> istore h s (Link a);
     h2 \<leftarrow> set_inext h1 (Link a) (Sentinel l);
     h3 \<leftarrow> set_iprev h2 (Link a) (iprev h2 (Sentinel l));
     set_iprev h3 (Sentinel l) (Some (INext (Link a)))
   }"

(* @sql_list.h 759-766 base_ilist::get *)
definition il_get :: "iheap \<Rightarrow> nat \<Rightarrow> (iheap \<times> iptr) option" where
  "il_get h l =
     (let first_link = ifirst h l
      in if first_link = Sentinel l then Some (h, INull)
         else do { h1 \<leftarrow> ilink_unlink h first_link; Some (h1, first_link) })"

(* @sql_list.h 767-770 base_ilist::head *)
definition il_head :: "iheap \<Rightarrow> nat \<Rightarrow> iptr" where
  "il_head h l = (if ifirst h l \<noteq> Sentinel l then ifirst h l else INull)"

text \<open>\<open>new_owner->last= last\<close> copies both fields of the sentinel.\<close>

(* @sql_list.h 772-785 base_ilist::move_elements_to *)
definition il_move_elements_to :: "iheap \<Rightarrow> nat \<Rightarrow> nat \<Rightarrow> iheap" where
  "il_move_elements_to h l new_owner =
     (let h1 = h\<lparr>ifirst := (ifirst h)(new_owner := ifirst h l)\<rparr>;
          h2 = h1\<lparr>iprev := (iprev h1)(Sentinel new_owner := iprev h1 (Sentinel l)),
                  inext := (inext h1)(Sentinel new_owner := inext h1 (Sentinel l))\<rparr>
      in il_empty h2 l)"

(* @sql_list.h 799-803 base_ilist_iterator *)
record il_iter =
  ili_list :: nat
  ili_el :: islot
  ili_current :: iptr

(* @sql_list.h 804-805 base_ilist_iterator::base_ilist_iterator *)
definition ili_init :: "nat \<Rightarrow> il_iter" where
  "ili_init l = \<lparr>ili_list = l, ili_el = IFirst l, ili_current = INull\<rparr>"

(* @sql_list.h 806-813 base_ilist_iterator::next *)
definition ili_next :: "iheap \<Rightarrow> il_iter \<Rightarrow> (il_iter \<times> iptr) option" where
  "ili_next h it = do {
     c \<leftarrow> iload h (ili_el it);
     let it1 = it\<lparr>ili_current := c\<rparr>;
     if c = Sentinel (ili_list it1) then Some (it1, INull)
     else Some (it1\<lparr>ili_el := INext c\<rparr>, c)
   }"

section \<open>What the lists represent\<close>

text \<open>The elements of an \<open>SQL_I_List\<close>: back references play no role.\<close>

abbreviation spath :: "(nat \<Rightarrow> nat option) \<Rightarrow> nat option \<Rightarrow> nat list \<Rightarrow> nat option \<Rightarrow> bool" where
  "spath lk v ps e \<equiv> dseg lk (\<lambda>_. ()) Some (\<lambda>_. ()) () v ps e ()"

definition scell :: "nat \<Rightarrow> nat list \<Rightarrow> sslot" where
  "scell l ps = (if ps = [] then SFirst l else SLink (last ps))"

definition srep :: "sheap \<Rightarrow> nat \<Rightarrow> nat list \<Rightarrow> bool" where
  "srep h l ps \<longleftrightarrow> spath (slink h) (sfirst h l) ps None \<and> distinct ps \<and> snext h l = scell l ps \<and>
     selements h l = of_nat (length ps)"

lemma spath_relink:
  "spath lk v ps e \<Longrightarrow> distinct ps \<Longrightarrow> ps \<noteq> [] \<Longrightarrow> spath (lk(last ps := x)) v ps x"
  by (erule dseg_relink) auto

lemma spath_upd: "a \<notin> set ps \<Longrightarrow> spath (lk(a := x)) v ps e = spath lk v ps e"
  by (rule dseg_cong) auto

lemma sil_link_rep:
  assumes "srep h l ps" "a \<notin> set ps"
  shows "srep (sil_link_in_list h l a (SLink a)) l (ps @ [a])"
proof (cases "ps = []")
  case True
  then show ?thesis using assms by (simp add: sil_link_in_list_def srep_def scell_def)
next
  case False
  then have "last ps \<noteq> a" using assms(2) by auto
  then show ?thesis
    using assms False spath_relink [of "slink h" "sfirst h l" ps None "Some a"]
    by (auto simp: sil_link_in_list_def srep_def scell_def dseg_append spath_upd)
qed

lemma sil_push_back_rep:
  assumes "srep h l ps" "srep h s qs" "set ps \<inter> set qs = {}" "l \<noteq> s"
  shows "srep (sil_push_back h l s) l (ps @ qs)"
proof -
  have first: "sfirst h s = None \<longleftrightarrow> qs = []" using assms(2) by (cases qs) (auto simp: srep_def)
  show ?thesis
  proof (cases "ps = [] \<or> qs = []")
    case True
    then show ?thesis using assms first by (auto simp: sil_push_back_def srep_def scell_def Let_def)
  next
    case False
    then have "last ps \<notin> set qs" using assms(3) last_in_set [of ps] by blast
    then show ?thesis
      using assms False first spath_relink [of "slink h" "sfirst h l" ps None "sfirst h s"]
      by (auto simp: sil_push_back_def srep_def scell_def Let_def dseg_append spath_upd)
  qed
qed

lemma sil_push_front_rep:
  assumes "srep h l ps" "srep h s qs" "set ps \<inter> set qs = {}" "l \<noteq> s" "ps \<noteq> []"
  shows "srep (sil_push_front h l s) l (qs @ ps)"
proof (cases "qs = []")
  case True
  then show ?thesis using assms by (auto simp: sil_push_front_def srep_def scell_def Let_def)
next
  case False
  then have "last qs \<notin> set ps" using assms(3) last_in_set [of qs] by blast
  then show ?thesis
    using assms False spath_relink [of "slink h" "sfirst h s" qs None "sfirst h l"]
    by (auto simp: sil_push_front_def srep_def scell_def Let_def dseg_append spath_upd add.commute)
qed

text \<open>The links of a \<open>base_ilist\<close>, up to its sentinel.\<close>

abbreviation ilseg :: "iheap \<Rightarrow> islot option \<Rightarrow> iptr \<Rightarrow> nat list \<Rightarrow> iptr \<Rightarrow> islot option \<Rightarrow> bool" where
  "ilseg h \<equiv> dseg (\<lambda>p. inext h (Link p)) (\<lambda>p. iprev h (Link p)) Link (\<lambda>p. Some (INext (Link p)))"

definition irep :: "iheap \<Rightarrow> nat \<Rightarrow> nat list \<Rightarrow> bool" where
  "irep h l ps \<longleftrightarrow> ilseg h (Some (IFirst l)) (ifirst h l) ps (Sentinel l) (iprev h (Sentinel l)) \<and> distinct ps"

lemmas il_simps = set_iprev_def set_inext_def

lemma il_empty_rep: "irep (il_empty h l) l []"
  by (simp add: irep_def il_empty_def)

lemma il_append_rep:
  assumes "irep h l ps" "a \<notin> set ps"
  shows "\<exists>h'. il_append h l a = Some h' \<and> irep h' l (a # ps)"
proof (cases ps)
  case Nil
  then show ?thesis using assms by (auto simp: il_append_def irep_def il_simps)
next
  case (Cons p qs)
  have d: "ilseg h (Some (IFirst l)) (ifirst h l) (p # qs) (Sentinel l) (iprev h (Sentinel l))" "p \<notin> set qs"
    using assms(1) Cons by (auto simp: irep_def)
  then have f: "ifirst h l = Link p" by simp
  define h' where "h' = h\<lparr>iprev := (iprev h)(Link p := Some (INext (Link a)), Link a := Some (IFirst l)),
    inext := (inext h)(Link a := Link p), ifirst := (ifirst h)(l := Link a)\<rparr>"
  have "il_append h l a = Some h'" by (simp add: il_append_def il_simps f h'_def)
  moreover have "ilseg h' (Some (INext (Link a))) (Link p) (p # qs) (Sentinel l) (iprev h (Sentinel l))"
    using assms(2) Cons d f by (intro dseg_reprev [OF d(1) [unfolded f] d(2)]) (auto simp: h'_def)
  ultimately show ?thesis using assms Cons by (auto simp: irep_def h'_def)
qed

lemma ilseg_cong:
  "(\<And>p. p \<in> set ps \<Longrightarrow> inext h' (Link p) = inext h (Link p) \<and> iprev h' (Link p) = iprev h (Link p)) \<Longrightarrow>
   ilseg h' s v ps e t = ilseg h s v ps e t"
  by (rule dseg_cong) auto

lemma il_push_back_rep:
  assumes "irep h l ps" "a \<notin> set ps"
  shows "\<exists>h'. il_push_back h l a = Some h' \<and> irep h' l (ps @ [a])"
proof -
  have d: "ilseg h (Some (IFirst l)) (ifirst h l) ps (Sentinel l) (iprev h (Sentinel l))" "distinct ps"
    using assms(1) by (auto simp: irep_def)
  have c: "iprev h (Sentinel l) = (if ps = [] then Some (IFirst l) else Some (INext (Link (last ps))))"
    using dseg_cell [OF d(1)] by simp
  show ?thesis
  proof (cases "ps = []")
    case True
    then show ?thesis using c by (auto simp: il_push_back_def il_simps irep_def)
  next
    case False
    define h' where "h' = h\<lparr>inext := (inext h)(Link (last ps) := Link a, Link a := Sentinel l),
      iprev := (iprev h)(Link a := iprev h (Sentinel l), Sentinel l := Some (INext (Link a)))\<rparr>"
    have "il_push_back h l a = Some h'" using c False by (simp add: il_push_back_def il_simps h'_def)
    moreover have "ilseg h' (Some (IFirst l)) (ifirst h l) ps (Link a) (iprev h (Sentinel l))"
      using assms(2) False by (intro dseg_relink [OF d(1,2)]) (auto simp: h'_def)
    ultimately show ?thesis using assms d by (auto simp: irep_def dseg_append h'_def)
  qed
qed

text \<open>Taking a link out of the middle.\<close>

lemma ilink_unlink_rep:
  assumes "irep h l (as @ p # bs)"
  shows "\<exists>h'. ilink_unlink h (Link p) = Some h' \<and> irep h' l (as @ bs) \<and>
    iprev h' (Link p) = None \<and> inext h' (Link p) = INull"
proof -
  obtain m where m: "ilseg h (Some (IFirst l)) (ifirst h l) as (Link p) m" "iprev h (Link p) = m"
    "ilseg h (Some (INext (Link p))) (inext h (Link p)) bs (Sentinel l) (iprev h (Sentinel l))"
    using assms by (auto simp: irep_def dseg_append)
  have d: "distinct (as @ p # bs)" using assms by (simp add: irep_def)
  have cell: "m = (if as = [] then Some (IFirst l) else Some (INext (Link (last as))))"
    using dseg_cell [OF m(1)] by simp
  have lp: "as \<noteq> [] \<Longrightarrow> last as \<noteq> p \<and> last as \<notin> set bs" using d last_in_set [of as] by (metis disjoint_iff distinct_append list.set_intros)
  define nx where "nx = inext h (Link p)"
  have nx: "nx = (if bs = [] then Sentinel l else Link (hd bs))" using dseg_start [OF m(3)] by (simp add: nx_def)
  define h' where "h' = h\<lparr>inext := (if as = [] then inext h else (inext h)(Link (last as) := nx))(Link p := INull),
      iprev := (iprev h)(nx := m, Link p := None),
      ifirst := (if as = [] then (ifirst h)(l := nx) else ifirst h)\<rparr>"
  have nxp: "nx \<noteq> INull" "nx \<noteq> Link p" using nx d by (auto split: if_splits)
  have un: "ilink_unlink h (Link p) = Some h'"
    using m(2) cell nxp lp
    by (cases "as = []") (auto simp: ilink_unlink_def il_simps h'_def fun_upd_twist simp flip: nx_def)
  have first: "ilseg h' (Some (IFirst l)) (ifirst h' l) as nx m"
  proof (cases "as = []")
    case True
    then show ?thesis using cell by (simp add: h'_def)
  next
    case False
    have "ilseg h' (Some (IFirst l)) (ifirst h l) as nx m"
      using False d nx by (intro dseg_relink [OF m(1)]) (auto simp: h'_def split: if_splits)
    then show ?thesis using False by (simp add: h'_def)
  qed
  have second: "ilseg h' m nx bs (Sentinel l) (iprev h' (Sentinel l))"
  proof (cases bs)
    case Nil
    then show ?thesis using nx by (simp add: h'_def)
  next
    case (Cons b bs')
    have nb: "nx = Link b" using nx Cons by simp
    have "ilseg h' m nx (b # bs') (Sentinel l) (iprev h (Sentinel l))"
      using d Cons lp nb by (intro dseg_reprev [OF m(3) [unfolded Cons, folded nx_def]]) (auto simp: h'_def)
    then show ?thesis using Cons nb by (simp add: h'_def)
  qed
  have "irep h' l (as @ bs)" unfolding irep_def dseg_append using first second d by auto
  moreover have "iprev h' (Link p) = None" "inext h' (Link p) = INull" by (simp_all add: h'_def)
  ultimately show ?thesis using un by blast
qed

lemma il_get_rep:
  assumes "irep h l (p # ps)"
  shows "\<exists>h'. il_get h l = Some (h', Link p) \<and> irep h' l ps"
  using ilink_unlink_rep [of h l "[]" p ps] assms by (auto simp: il_get_def irep_def)

interpretation il: fifo "\<lambda>h ps. irep h l ps" "\<lambda>h a. il_push_back h l a" "\<lambda>h. il_get h l" Link "\<lambda>xs x. x \<notin> set xs"
  by unfold_locales (auto intro: il_push_back_rep il_get_rep)

section \<open>Iteration\<close>

text \<open>The pointers a client gets from an iterator until it returns null, in at most \<open>n\<close> calls.\<close>

fun ili_collect :: "nat \<Rightarrow> iheap \<Rightarrow> il_iter \<Rightarrow> iptr list option" where
  "ili_collect 0 h it = None"
| "ili_collect (Suc n) h it = (case ili_next h it of
     None \<Rightarrow> None
   | Some (it', p) \<Rightarrow> if p = INull then Some [] else map_option ((#) p) (ili_collect n h it'))"

abbreviation ichain :: "iheap \<Rightarrow> iptr \<Rightarrow> nat list \<Rightarrow> iptr \<Rightarrow> bool" where
  "ichain h v ps e \<equiv> dseg (\<lambda>p. inext h (Link p)) (\<lambda>_. ()) Link (\<lambda>_. ()) () v ps e ()"

lemma ichain_end: "ichain h v ps (Sentinel l) \<Longrightarrow> ichain h v qs (Sentinel n) \<Longrightarrow> l = n"
proof (induction ps arbitrary: v qs)
  case Nil then show ?case by (cases qs) auto
next
  case (Cons p ps) then show ?case by (cases qs) auto
qed

lemma ili_collect_chain:
  assumes "ichain h v ps e" "iload h (ili_el it) = Some v"
  shows "\<exists>it'. iload h (ili_el it') = Some e \<and> ili_list it' = ili_list it \<and>
    ili_collect (length ps + n) h it = map_option ((@) (map Link ps)) (ili_collect n h it')"
  using assms
proof (induction ps arbitrary: v it)
  case Nil
  then show ?case by (intro exI [of _ it]) (cases "ili_collect n h it", auto)
next
  case (Cons p ps)
  let ?it = "it\<lparr>ili_current := Link p, ili_el := INext (Link p)\<rparr>"
  have "ili_next h it = Some (?it, Link p)" using Cons.prems by (simp add: ili_next_def)
  moreover obtain it' where "iload h (ili_el it') = Some e" "ili_list it' = ili_list it"
    "ili_collect (length ps + n) h ?it = map_option ((@) (map Link ps)) (ili_collect n h it')"
    using Cons.IH [of "inext h (Link p)" ?it] Cons.prems by auto
  ultimately show ?case by (intro exI [of _ it']) (simp add: option.map_comp comp_def)
qed

lemma ili_collect_all:
  assumes "irep h l ps"
  shows "ili_collect (Suc (length ps)) h (ili_init l) = Some (map Link ps)"
proof -
  have "ichain h (ifirst h l) ps (Sentinel l)" using assms by (auto simp: irep_def intro: dseg_forget)
  then obtain it where "iload h (ili_el it) = Some (Sentinel l)" "ili_list it = l"
    "ili_collect (length ps + 1) h (ili_init l) = map_option ((@) (map Link ps)) (ili_collect 1 h it)"
    using ili_collect_chain [of h "ifirst h l" ps "Sentinel l" "ili_init l" 1] by (auto simp: ili_init_def)
  then show ?thesis by (simp add: ili_next_def)
qed

section \<open>Properties\<close>

definition ex_sheap :: sheap where
  "ex_sheap = \<lparr>slink = (\<lambda>_. None), sfirst = (\<lambda>l. if l = 1 then Some 5 else None),
     snext = (\<lambda>l. if l = 1 then SLink 5 else SFirst l), selements = (\<lambda>l. if l = 1 then 1 else 0)\<rparr>"

lemma ex_srep: "srep ex_sheap 0 []" "srep ex_sheap 1 [5]"
  by (simp_all add: ex_sheap_def srep_def scell_def)

text \<open>Linking an element into an \<open>SQL_I_List\<close> and appending another list extend the sequence of elements;
  \<open>push_front\<close> puts the saved list in front of a list that has elements. Into an empty list \<open>push_front\<close>
  leaves the end pointer at the head: the chain and the counter are right, the list is not well
  formed, and the next element linked in replaces all the saved ones.\<close>

theorem sql_i_list_ops:
  assumes "srep h l ps" "srep h s qs" "set ps \<inter> set qs = {}" "l \<noteq> s" "a \<notin> set ps"
  shows "srep (sil_link_in_list h l a (SLink a)) l (ps @ [a]) \<and>
    srep (sil_push_back h l s) l (ps @ qs) \<and>
    (ps \<noteq> [] \<longrightarrow> srep (sil_push_front h l s) l (qs @ ps)) \<and>
    (ps = [] \<and> qs \<noteq> [] \<longrightarrow>
      spath (slink (sil_push_front h l s)) (sfirst (sil_push_front h l s) l) qs None \<and>
      (\<forall>rs. \<not> srep (sil_push_front h l s) l rs) \<and>
      spath (slink (sil_link_in_list (sil_push_front h l s) l a (SLink a)))
        (sfirst (sil_link_in_list (sil_push_front h l s) l a (SLink a)) l) [a] None)"
proof (intro conjI impI allI)
  show "srep (sil_link_in_list h l a (SLink a)) l (ps @ [a])" by (rule sil_link_rep [OF assms(1,5)])
  show "srep (sil_push_back h l s) l (ps @ qs)" by (rule sil_push_back_rep [OF assms(1-4)])
  show "srep (sil_push_front h l s) l (qs @ ps)" if "ps \<noteq> []" by (rule sil_push_front_rep [OF assms(1-4) that])
next
  assume e: "ps = [] \<and> qs \<noteq> []"
  let ?h = "sil_push_front h l s"
  have f: "sfirst ?h l = sfirst h s" "snext ?h l = SFirst l"
    using assms e by (auto simp: sil_push_front_def srep_def scell_def Let_def)
  show p: "spath (slink ?h) (sfirst ?h l) qs None"
    using f assms e spath_relink [of "slink h" "sfirst h s" qs None None]
    by (auto simp: sil_push_front_def srep_def scell_def Let_def)
  show "\<not> srep ?h l rs" for rs
  proof
    assume r: "srep ?h l rs"
    then have "rs = []" using f(2) by (auto simp: srep_def scell_def split: if_splits)
    then show False using r p e by (cases qs) (auto simp: srep_def)
  qed
  show "spath (slink (sil_link_in_list ?h l a (SLink a))) (sfirst (sil_link_in_list ?h l a (SLink a)) l) [a] None"
    using f(2) by (simp add: sil_link_in_list_def Let_def)
qed

theorem sql_i_list_ops_witness:
  "\<forall>rs. \<not> srep (sil_push_front ex_sheap 0 1) 0 rs"
  using sql_i_list_ops [OF ex_srep, of 7] by simp

text \<open>Putting a link at the front or at the back of a \<open>base_ilist\<close>, taking the first one and unlinking any
  one keep the list well formed in both directions; links come out of \<open>get\<close> in the order they
  were pushed, an unlinked element is marked as such, and the iterator visits every link once.\<close>

theorem base_ilist_ops:
  assumes "irep h l (as @ p # bs)" "a \<notin> set (as @ p # bs)" "fresh_all (\<lambda>xs x. x \<notin> set xs) (as @ p # bs) ys"
  shows "(\<exists>h'. il_append h l a = Some h' \<and> irep h' l (a # as @ p # bs)) \<and>
    (\<exists>h'. il_push_back h l a = Some h' \<and> irep h' l (as @ p # bs @ [a])) \<and>
    (\<exists>h'. ilink_unlink h (Link p) = Some h' \<and> irep h' l (as @ bs) \<and>
      iprev h' (Link p) = None \<and> inext h' (Link p) = INull) \<and>
    (\<exists>h' h''. put_all (\<lambda>h a. il_push_back h l a) h ys = Some h' \<and>
      get_all (\<lambda>h. il_get h l) (length ((as @ p # bs) @ ys)) h' = Some (h'', map Link ((as @ p # bs) @ ys)) \<and>
      irep h'' l []) \<and>
    ili_collect (Suc (length (as @ p # bs))) h (ili_init l) = Some (map Link (as @ p # bs))"
proof (intro conjI)
  show "\<exists>h'. il_append h l a = Some h' \<and> irep h' l (a # as @ p # bs)"
    using il_append_rep [OF assms(1,2)] .
  show "\<exists>h'. il_push_back h l a = Some h' \<and> irep h' l (as @ p # bs @ [a])"
    using il_push_back_rep [OF assms(1,2)] by simp
  show "\<exists>h'. ilink_unlink h (Link p) = Some h' \<and> irep h' l (as @ bs) \<and>
      iprev h' (Link p) = None \<and> inext h' (Link p) = INull"
    by (rule ilink_unlink_rep [OF assms(1)])
  show "\<exists>h' h''. put_all (\<lambda>h a. il_push_back h l a) h ys = Some h' \<and>
      get_all (\<lambda>h. il_get h l) (length ((as @ p # bs) @ ys)) h' = Some (h'', map Link ((as @ p # bs) @ ys)) \<and>
      irep h'' l []"
    by (rule il.fifo_order [OF assms(1,3)])
  show "ili_collect (Suc (length (as @ p # bs))) h (ili_init l) = Some (map Link (as @ p # bs))"
    by (rule ili_collect_all [OF assms(1)])
qed

definition ex_iheap :: iheap where
  "ex_iheap = \<lparr>inext = (\<lambda>p. if p = Link 1 then Sentinel 0 else INull),
     iprev = (\<lambda>p. case p of Link n \<Rightarrow> (if n = 1 then Some (IFirst 0) else None)
       | Sentinel l \<Rightarrow> (if l = 0 then Some (INext (Link 1)) else Some (IFirst l)) | INull \<Rightarrow> None),
     ifirst = (\<lambda>l. if l = 0 then Link 1 else Sentinel l)\<rparr>"

lemma ex_irep: "irep ex_iheap 0 ([] @ 1 # [])" "irep ex_iheap 2 []" "inext ex_iheap (Sentinel 0) = INull"
  by (simp_all add: irep_def ex_iheap_def)

theorem base_ilist_ops_witness:
  "\<exists>h'. il_push_back ex_iheap 0 4 = Some h' \<and> irep h' 0 [1, 4]"
  using base_ilist_ops [OF ex_irep(1), of 4 "[]"] by simp

text \<open>\<open>move_elements_to\<close> empties the old owner but does not make the new owner a list: the last link
  still points to the sentinel of the old owner. Iterating over the new owner returns the links
  followed by that sentinel as if it were an element, and moving an empty list makes the new
  owner look non-empty.\<close>

theorem move_elements_to_broken:
  assumes "irep h l ps" "irep h n []" "l \<noteq> n" "inext h (Sentinel l) = INull"
  shows "irep (il_move_elements_to h l n) l [] \<and> \<not> il_is_empty (il_move_elements_to h l n) n \<and>
    (\<forall>qs. \<not> irep (il_move_elements_to h l n) n qs) \<and>
    ili_collect (Suc (Suc (length ps))) (il_move_elements_to h l n) (ili_init n) = Some (map Link ps @ [Sentinel l])"
proof -
  let ?h = "il_move_elements_to h l n"
  have f: "ifirst ?h n = ifirst h l" "inext ?h (Sentinel l) = INull" "\<And>p. inext ?h (Link p) = inext h (Link p)"
    using assms(3,4) by (simp_all add: il_move_elements_to_def il_empty_def)
  have ch: "ichain h (ifirst h l) ps (Sentinel l)" using assms(1) by (auto simp: irep_def intro: dseg_forget)
  then have ch': "ichain ?h (ifirst ?h n) ps (Sentinel l)" using f by simp
  then obtain it where it: "iload ?h (ili_el it) = Some (Sentinel l)" "ili_list it = n"
    "ili_collect (length ps + 2) ?h (ili_init n) = map_option ((@) (map Link ps)) (ili_collect 2 ?h it)"
    using ili_collect_chain [of ?h "ifirst ?h n" ps "Sentinel l" "ili_init n" 2] by (auto simp: ili_init_def)
  have "ili_collect 2 ?h it = Some [Sentinel l]"
    using it(1,2) f(2) assms(3) by (simp add: numeral_2_eq_2 ili_next_def)
  then have c: "ili_collect (Suc (Suc (length ps))) ?h (ili_init n) = Some (map Link ps @ [Sentinel l])"
    using it(3) by simp
  have ne: "ifirst ?h n \<noteq> Sentinel n" using ch' assms(3) by (cases ps) auto
  have "\<not> irep ?h n qs" for qs
  proof
    assume "irep ?h n qs"
    then have "ichain ?h (ifirst ?h n) qs (Sentinel n)" by (auto simp: irep_def intro: dseg_forget)
    then show False using ichain_end [OF ch'] assms(3) by simp
  qed
  then show ?thesis using c ne by (simp add: il_is_empty_def) (simp add: il_move_elements_to_def il_empty_rep Let_def)
qed

theorem move_elements_to_broken_witness:
  "ili_collect 3 (il_move_elements_to ex_iheap 0 2) (ili_init 2) = Some [Link 1, Sentinel 0]"
  using move_elements_to_broken [OF ex_irep(1,2) _ ex_irep(3)] by (simp add: numeral_3_eq_3)
end
