(* ===== verification/Sql_Plist.thy ===== *)
theory Sql_Plist
  imports Dlist_Heap Containers
begin

text \<open>
  The intrusive parameterised list of \<^verbatim>\<open>sql_plist.h\<close>, \<open>I_P_List\<close>, with its counting and insertion
  policies. An element keeps a pointer to the next element and the address of the cell that
  points to it. The operations are modelled with the policies \<open>I_P_List_counter\<close> and
  \<open>I_P_List_fast_push_back\<close>; with the null policies the fields \<open>pcounter\<close> and \<open>plast\<close> do not exist.
\<close>

section \<open>The heap and the policies\<close>

datatype pslot = PFirst nat | PNext nat

(* @sql_plist.h 62-67 I_P_List *)
record pheap =
  pnext :: "nat \<Rightarrow> nat option"
  pprev :: "nat \<Rightarrow> pslot"
  pfirst :: "nat \<Rightarrow> nat option"
  plast :: "nat \<Rightarrow> pslot"
  pcounter :: "nat \<Rightarrow> uint"

fun pload :: "pheap \<Rightarrow> pslot \<Rightarrow> nat option" where
  "pload h (PFirst l) = pfirst h l"
| "pload h (PNext p) = pnext h p"

fun pstore :: "pheap \<Rightarrow> pslot \<Rightarrow> nat option \<Rightarrow> pheap" where
  "pstore h (PFirst l) v = h\<lparr>pfirst := (pfirst h)(l := v)\<rparr>"
| "pstore h (PNext p) v = h\<lparr>pnext := (pnext h)(p := v)\<rparr>"

definition set_pprev :: "pheap \<Rightarrow> nat \<Rightarrow> pslot \<Rightarrow> pheap" where
  "set_pprev h p s = h\<lparr>pprev := (pprev h)(p := s)\<rparr>"

(* @sql_plist.h 247-252 I_P_List_counter::reset *)
definition counter_reset :: "pheap \<Rightarrow> nat \<Rightarrow> pheap" where
  "counter_reset h l = h\<lparr>pcounter := (pcounter h)(l := 0)\<rparr>"

(* @sql_plist.h 253-253 I_P_List_counter::inc *)
definition counter_inc :: "pheap \<Rightarrow> nat \<Rightarrow> pheap" where
  "counter_inc h l = h\<lparr>pcounter := (pcounter h)(l := pcounter h l + 1)\<rparr>"

(* @sql_plist.h 254-254 I_P_List_counter::dec *)
definition counter_dec :: "pheap \<Rightarrow> nat \<Rightarrow> pheap" where
  "counter_dec h l = h\<lparr>pcounter := (pcounter h)(l := pcounter h l - 1)\<rparr>"

(* @sql_plist.h 255-256 I_P_List_counter::swap *)
definition counter_swap :: "pheap \<Rightarrow> nat \<Rightarrow> nat \<Rightarrow> pheap" where
  "counter_swap h l rhs = h\<lparr>pcounter := (pcounter h)(l := pcounter h rhs, rhs := pcounter h l)\<rparr>"

(* @sql_plist.h 258-258 I_P_List_counter::elements *)
definition counter_elements :: "pheap \<Rightarrow> nat \<Rightarrow> uint" where
  "counter_elements h l = pcounter h l"

(* @sql_plist.h 286-291 I_P_List_fast_push_back::set_last *)
definition fast_set_last :: "pheap \<Rightarrow> nat \<Rightarrow> pslot \<Rightarrow> pheap" where
  "fast_set_last h l a = h\<lparr>plast := (plast h)(l := a)\<rparr>"

(* @sql_plist.h 292-292 I_P_List_fast_push_back::get_last *)
definition fast_get_last :: "pheap \<Rightarrow> nat \<Rightarrow> pslot" where
  "fast_get_last h l = plast h l"

section \<open>Operations\<close>

(* @sql_plist.h 75-81 I_P_List::empty *)
definition ipl_empty :: "pheap \<Rightarrow> nat \<Rightarrow> pheap" where
  "ipl_empty h l = fast_set_last (counter_reset (h\<lparr>pfirst := (pfirst h)(l := None)\<rparr>) l) l (PFirst l)"

(* @sql_plist.h 82-82 I_P_List::is_empty *)
definition ipl_is_empty :: "pheap \<Rightarrow> nat \<Rightarrow> bool" where
  "ipl_is_empty h l \<longleftrightarrow> pfirst h l = None"

(* @sql_plist.h 83-93 I_P_List::push_front *)
definition ipl_push_front :: "pheap \<Rightarrow> nat \<Rightarrow> nat \<Rightarrow> pheap" where
  "ipl_push_front h l a =
     (let h1 = pstore h (PNext a) (pfirst h l);
          h2 = (case pfirst h1 l of
                  Some f \<Rightarrow> set_pprev h1 f (PNext a)
                | None \<Rightarrow> fast_set_last h1 l (PNext a));
          h3 = pstore h2 (PFirst l) (Some a);
          h4 = set_pprev h3 a (PFirst l)
      in counter_inc h4 l)"

(* @sql_plist.h 94-102 I_P_List::push_back *)
definition ipl_push_back :: "pheap \<Rightarrow> nat \<Rightarrow> nat \<Rightarrow> pheap" where
  "ipl_push_back h l a =
     (let last = fast_get_last h l;
          h1 = pstore h (PNext a) (pload h last);
          h2 = pstore h1 last (Some a);
          h3 = set_pprev h2 a last;
          h4 = fast_set_last h3 l (PNext a)
      in counter_inc h4 l)"

(* @sql_plist.h 103-121 I_P_List::insert_after *)
definition ipl_insert_after :: "pheap \<Rightarrow> nat \<Rightarrow> nat option \<Rightarrow> nat \<Rightarrow> pheap" where
  "ipl_insert_after h l pos a = (case pos of
     None \<Rightarrow> ipl_push_front h l a
   | Some p \<Rightarrow>
       let h1 = pstore h (PNext a) (pnext h p);
           h2 = set_pprev h1 a (PNext p);
           h3 = pstore h2 (PNext p) (Some a);
           h4 = (case pnext h3 a of
                   Some old_next \<Rightarrow> set_pprev h3 old_next (PNext a)
                 | None \<Rightarrow> fast_set_last h3 l (PNext a))
       in counter_inc h4 l)"

(* @sql_plist.h 122-131 I_P_List::remove *)
definition ipl_remove :: "pheap \<Rightarrow> nat \<Rightarrow> nat \<Rightarrow> pheap" where
  "ipl_remove h l a =
     (let nx = pnext h a;
          h1 = (case nx of
                  Some n \<Rightarrow> set_pprev h n (pprev h a)
                | None \<Rightarrow> fast_set_last h l (pprev h a));
          h2 = pstore h1 (pprev h1 a) nx
      in counter_dec h2 l)"

(* @sql_plist.h 132-133 I_P_List::front *)
definition ipl_front :: "pheap \<Rightarrow> nat \<Rightarrow> nat option" where
  "ipl_front h l = pfirst h l"

(* @sql_plist.h 134-142 I_P_List::pop_front *)
definition ipl_pop_front :: "pheap \<Rightarrow> nat \<Rightarrow> pheap \<times> nat option" where
  "ipl_pop_front h l = (case ipl_front h l of
     None \<Rightarrow> (h, None)
   | Some r \<Rightarrow> (ipl_remove h l r, Some r))"

text \<open>
  The type of its argument restricts \<open>swap\<close> to lists with the policy \<open>I_P_List_no_push_back\<close>, whose
  \<open>swap\<close> and \<open>set_last\<close> do nothing.
\<close>

(* @sql_plist.h 143-156 I_P_List::swap *)
definition ipl_swap :: "pheap \<Rightarrow> nat \<Rightarrow> nat \<Rightarrow> pheap" where
  "ipl_swap h l rhs =
     (let h1 = h\<lparr>pfirst := (pfirst h)(l := pfirst h rhs, rhs := pfirst h l)\<rparr>;
          h2 = (case pfirst h1 l of Some f \<Rightarrow> set_pprev h1 f (PFirst l) | None \<Rightarrow> h1);
          h3 = (case pfirst h2 rhs of Some f \<Rightarrow> set_pprev h2 f (PFirst rhs) | None \<Rightarrow> h2)
      in counter_swap h3 l rhs)"

section \<open>Iterator\<close>

(* @sql_plist.h 178-186 I_P_List_iterator::init *)
definition ipli_init :: "pheap \<Rightarrow> nat \<Rightarrow> nat option" where
  "ipli_init h l = pfirst h l"

(* @sql_plist.h 187-199 I_P_List_iterator::operator++ *)
definition ipli_post_incr :: "pheap \<Rightarrow> nat option \<Rightarrow> nat option \<times> nat option" where
  "ipli_post_incr h current = (case current of
     None \<Rightarrow> (None, None)
   | Some p \<Rightarrow> (pnext h p, Some p))"

text \<open>The prefix form follows the current pointer without a test.\<close>

(* @sql_plist.h 200-205 I_P_List_iterator::operator++ *)
definition ipli_pre_incr :: "pheap \<Rightarrow> nat option \<Rightarrow> nat option option" where
  "ipli_pre_incr h current = (case current of None \<Rightarrow> None | Some p \<Rightarrow> Some (pnext h p))"

(* @sql_plist.h 206-209 I_P_List_iterator::rewind *)
definition ipli_rewind :: "pheap \<Rightarrow> nat \<Rightarrow> nat option" where
  "ipli_rewind h l = pfirst h l"

section \<open>What a list represents\<close>

abbreviation pseg :: "pheap \<Rightarrow> pslot \<Rightarrow> nat option \<Rightarrow> nat list \<Rightarrow> nat option \<Rightarrow> pslot \<Rightarrow> bool" where
  "pseg h \<equiv> dseg (pnext h) (pprev h) Some PNext"

definition prep :: "pheap \<Rightarrow> nat \<Rightarrow> nat list \<Rightarrow> bool" where
  "prep h l ps \<longleftrightarrow> pseg h (PFirst l) (pfirst h l) ps None (plast h l) \<and> distinct ps \<and>
     pcounter h l = of_nat (length ps)"

text \<open>The same without the pointer to the last cell.\<close>

definition prep0 :: "pheap \<Rightarrow> nat \<Rightarrow> nat list \<Rightarrow> bool" where
  "prep0 h l ps \<longleftrightarrow> (\<exists>t. pseg h (PFirst l) (pfirst h l) ps None t) \<and> distinct ps \<and>
     pcounter h l = of_nat (length ps)"

lemmas ipl_simps = set_pprev_def counter_inc_def counter_dec_def counter_swap_def counter_reset_def
  fast_set_last_def fast_get_last_def Let_def

text \<open>The fields after an operation.\<close>

lemma ipl_insert_after_fields:
  assumes "p \<noteq> a"
  shows "pnext (ipl_insert_after h l (Some p) a) q = (if q = p then Some a else if q = a then pnext h p else pnext h q)"
    "pprev (ipl_insert_after h l (Some p) a) q =
      (if pnext h p = Some q then PNext a else if q = a then PNext p else pprev h q)"
    "pfirst (ipl_insert_after h l (Some p) a) = pfirst h"
    "plast (ipl_insert_after h l (Some p) a) l = (if pnext h p = None then PNext a else plast h l)"
    "pcounter (ipl_insert_after h l (Some p) a) l = pcounter h l + 1"
  using assms by (cases "pnext h p"; simp add: ipl_insert_after_def ipl_simps)+

lemma ipl_remove_fields:
  assumes "pnext h a \<noteq> Some a"
  shows "pnext (ipl_remove h l a) q = (if pprev h a = PNext q then pnext h a else pnext h q)"
    "pprev (ipl_remove h l a) q = (if pnext h a = Some q then pprev h a else pprev h q)"
    "pfirst (ipl_remove h l a) k = (if pprev h a = PFirst k then pnext h a else pfirst h k)"
    "plast (ipl_remove h l a) l = (if pnext h a = None then pprev h a else plast h l)"
    "pcounter (ipl_remove h l a) l = pcounter h l - 1"
  using assms by (cases "pnext h a"; cases "pprev h a"; simp add: ipl_remove_def ipl_simps)+

lemma ipl_swap_fields:
  assumes "l \<noteq> r"
  shows "pnext (ipl_swap h l r) = pnext h"
    "pprev (ipl_swap h l r) q =
      (if pfirst h l = Some q then PFirst r else if pfirst h r = Some q then PFirst l else pprev h q)"
    "pfirst (ipl_swap h l r) l = pfirst h r" "pfirst (ipl_swap h l r) r = pfirst h l"
    "pcounter (ipl_swap h l r) l = pcounter h r" "pcounter (ipl_swap h l r) r = pcounter h l"
  using assms by (cases "pfirst h l"; cases "pfirst h r"; simp add: ipl_swap_def ipl_simps)+

lemma ipl_empty_rep: "prep (ipl_empty h l) l []"
  by (simp add: ipl_empty_def prep_def ipl_simps)

lemma ipl_push_front_rep:
  assumes "prep h l ps" "a \<notin> set ps"
  shows "prep (ipl_push_front h l a) l (a # ps)"
proof (cases ps)
  case Nil
  then have "pfirst h l = None" "pcounter h l = 0" using assms(1) by (auto simp: prep_def)
  then show ?thesis using Nil by (simp add: ipl_push_front_def prep_def ipl_simps)
next
  case (Cons p qs)
  have d: "pseg h (PFirst l) (Some p) (p # qs) None (plast h l)" "p \<notin> set qs" "pfirst h l = Some p"
    using assms(1) Cons by (auto simp: prep_def)
  have "pseg (ipl_push_front h l a) (PNext a) (Some p) (p # qs) None (plast h l)"
    using assms(2) Cons d(3) by (intro dseg_reprev [OF d(1,2)]) (auto simp: ipl_push_front_def ipl_simps)
  then show ?thesis using assms Cons d(3) by (auto simp: prep_def ipl_push_front_def ipl_simps)
qed

lemma ipl_push_back_rep:
  assumes "prep h l ps" "a \<notin> set ps"
  shows "prep (ipl_push_back h l a) l (ps @ [a])"
proof -
  have d: "pseg h (PFirst l) (pfirst h l) ps None (plast h l)" "distinct ps" using assms(1) by (auto simp: prep_def)
  have c: "plast h l = (if ps = [] then PFirst l else PNext (last ps))" using dseg_cell [OF d(1)] .
  show ?thesis
  proof (cases "ps = []")
    case True
    then have "plast h l = PFirst l" "pfirst h l = None" "pcounter h l = 0" using c assms(1) by (auto simp: prep_def)
    then show ?thesis using True by (simp add: ipl_push_back_def prep_def ipl_simps)
  next
    case False
    have n: "pnext h (last ps) = None" "last ps \<noteq> a" using dseg_last_next [OF d(1) False] False assms(2) by auto
    have "pseg (ipl_push_back h l a) (PFirst l) (pfirst h l) ps (Some a) (plast h l)"
      using assms(2) False c by (intro dseg_relink [OF d False]) (auto simp: ipl_push_back_def ipl_simps)
    then show ?thesis using assms False c n by (auto simp: prep_def dseg_append ipl_push_back_def ipl_simps)
  qed
qed

lemma ipl_insert_after_rep:
  assumes "prep h l (as @ p # bs)" "a \<notin> set (as @ p # bs)"
  shows "prep (ipl_insert_after h l (Some p) a) l (as @ p # a # bs)"
proof -
  let ?h = "ipl_insert_after h l (Some p) a"
  obtain m where m: "pseg h (PFirst l) (pfirst h l) as (Some p) m" "pprev h p = m"
    "pseg h (PNext p) (pnext h p) bs None (plast h l)"
    using assms(1) by (auto simp: prep_def dseg_append)
  have d: "distinct (as @ p # bs)" using assms(1) by (simp add: prep_def)
  have nx: "pnext h p = (if bs = [] then None else Some (hd bs))" using dseg_start [OF m(3)] .
  have pa: "p \<noteq> a" using assms(2) by auto
  have hb: "bs \<noteq> [] \<Longrightarrow> hd bs \<noteq> p \<and> hd bs \<noteq> a \<and> hd bs \<notin> set as" using d assms(2) hd_in_set [of bs] by auto
  note flds = ipl_insert_after_fields [OF pa]
  have "pseg ?h (PFirst l) (pfirst h l) as (Some p) m = pseg h (PFirst l) (pfirst h l) as (Some p) m"
    using d assms(2) nx hb by (intro dseg_cong) (auto simp: flds)
  moreover have "pseg ?h (PNext a) (pnext h p) bs None (plast ?h l)"
  proof (cases bs)
    case Nil
    then show ?thesis using nx by (simp add: flds)
  next
    case (Cons b bs')
    have "pseg ?h (PNext a) (pnext h p) (b # bs') None (plast h l)"
      using d assms(2) nx Cons by (intro dseg_reprev [OF m(3) [unfolded Cons]]) (auto simp: flds)
    then show ?thesis using nx Cons by (simp add: flds del: dseg.simps)
  qed
  moreover have "pprev ?h p = m" "pprev ?h a = PNext p" using m(2) nx hb pa by (auto simp: flds)
  ultimately show ?thesis using m(1) d assms pa by (auto simp: prep_def dseg_append flds)
qed

lemma ipl_remove_rep:
  assumes "prep h l (as @ p # bs)"
  shows "prep (ipl_remove h l p) l (as @ bs) \<and> pnext (ipl_remove h l p) p = pnext h p"
proof -
  let ?h = "ipl_remove h l p"
  obtain m where m: "pseg h (PFirst l) (pfirst h l) as (Some p) m" "pprev h p = m"
    "pseg h (PNext p) (pnext h p) bs None (plast h l)"
    using assms by (auto simp: prep_def dseg_append)
  have d: "distinct (as @ p # bs)" using assms by (simp add: prep_def)
  have nx: "pnext h p = (if bs = [] then None else Some (hd bs))" using dseg_start [OF m(3)] .
  have cell: "m = (if as = [] then PFirst l else PNext (last as))" using dseg_cell [OF m(1)] .
  have la: "as \<noteq> [] \<Longrightarrow> last as \<noteq> p \<and> last as \<notin> set bs"
    using d last_in_set [of as] by (metis disjoint_iff distinct_append list.set_intros)
  have hb: "bs \<noteq> [] \<Longrightarrow> hd bs \<noteq> p \<and> hd bs \<notin> set as" using d hd_in_set [of bs] by auto
  have "pnext h p \<noteq> Some p" using nx hb by auto
  note flds = ipl_remove_fields [OF this]
  have first: "pseg ?h (PFirst l) (pfirst ?h l) as (pnext h p) m"
  proof (cases "as = []")
    case True
    then show ?thesis using m(2) cell by (simp add: flds)
  next
    case False
    have "pseg ?h (PFirst l) (pfirst h l) as (pnext h p) m"
      using False d m(2) cell nx hb by (intro dseg_relink [OF m(1)]) (auto simp: flds)
    then show ?thesis using False m(2) cell by (simp add: flds)
  qed
  have second: "pseg ?h m (pnext h p) bs None (plast ?h l)"
  proof (cases bs)
    case Nil
    then show ?thesis using nx m(2) by (simp add: flds)
  next
    case (Cons b bs')
    have "pseg ?h m (pnext h p) (b # bs') None (plast h l)"
      using d Cons nx m(2) cell la by (intro dseg_reprev [OF m(3) [unfolded Cons]]) (auto simp: flds)
    then show ?thesis using nx Cons by (simp add: flds del: dseg.simps)
  qed
  have "pcounter ?h l = of_nat (length (as @ bs))" using assms by (simp add: prep_def flds)
  then have "prep ?h l (as @ bs)" unfolding prep_def dseg_append using first second d by auto
  moreover have "pnext ?h p = pnext h p" using m(2) cell la by (auto simp: flds)
  ultimately show ?thesis by simp
qed

lemma ipl_pop_front_rep:
  "prep h l (p # ps) \<Longrightarrow> snd (ipl_pop_front h l) = Some p \<and> prep (fst (ipl_pop_front h l)) l ps"
  using ipl_remove_rep [of h l "[]" p ps] by (auto simp: ipl_pop_front_def ipl_front_def prep_def)

interpretation ipl: fifo "\<lambda>h ps. prep h l ps" "\<lambda>h a. Some (ipl_push_back h l a)" "\<lambda>h. Some (ipl_pop_front h l)"
  Some "\<lambda>xs x. x \<notin> set xs"
  by unfold_locales (auto simp: ipl_push_back_rep prod_eq_iff dest: ipl_pop_front_rep)

lemma ipl_swap_rep:
  assumes "prep0 h l ps" "prep0 h r qs" "l \<noteq> r" "set ps \<inter> set qs = {}"
  shows "prep0 (ipl_swap h l r) l qs \<and> prep0 (ipl_swap h l r) r ps"
proof -
  let ?h = "ipl_swap h l r"
  obtain t u where t: "pseg h (PFirst l) (pfirst h l) ps None t" and u: "pseg h (PFirst r) (pfirst h r) qs None u"
    using assms(1,2) by (auto simp: prep0_def)
  have f: "pfirst h l = (if ps = [] then None else Some (hd ps))" "pfirst h r = (if qs = [] then None else Some (hd qs))"
    using dseg_start [OF t] dseg_start [OF u] by auto
  have d: "distinct ps" "distinct qs" using assms by (auto simp: prep0_def)
  note flds = ipl_swap_fields [OF assms(3)]
  have dis: "hd ps \<notin> set qs" if "ps \<noteq> []" using assms(4) that hd_in_set by blast
  have dis': "hd qs \<notin> set ps" if "qs \<noteq> []" using assms(4) that hd_in_set by blast
  have "\<exists>t. pseg ?h (PFirst l) (pfirst h r) qs None t"
  proof (cases qs)
    case (Cons q qs')
    have "pseg ?h (PFirst l) (pfirst h r) (q # qs') None u"
      using d Cons f dis by (intro dseg_reprev [OF u [unfolded Cons]]) (auto simp: flds)
    then show ?thesis using Cons by auto
  qed (use f in auto)
  moreover have "\<exists>t. pseg ?h (PFirst r) (pfirst h l) ps None t"
  proof (cases ps)
    case (Cons p ps')
    have "pseg ?h (PFirst r) (pfirst h l) (p # ps') None t"
      using d Cons f dis' by (intro dseg_reprev [OF t [unfolded Cons]]) (auto simp: flds)
    then show ?thesis using Cons by auto
  qed (use f in auto)
  ultimately show ?thesis using assms d by (auto simp: prep0_def flds)
qed

section \<open>Properties\<close>

definition ex_pheap :: pheap where
  "ex_pheap = \<lparr>pnext = (\<lambda>p. if p = 1 then Some 2 else None),
     pprev = (\<lambda>p. if p = 1 then PFirst 0 else PNext 1),
     pfirst = (\<lambda>l. if l = 0 then Some 1 else None), plast = (\<lambda>l. if l = 0 then PNext 2 else PFirst l),
     pcounter = (\<lambda>l. if l = 0 then 2 else 0)\<rparr>"

lemma ex_prep: "prep ex_pheap 0 ([1] @ 2 # [])" "prep0 ex_pheap 0 [1, 2]" "prep0 ex_pheap 3 []"
  by (simp_all add: ex_pheap_def prep_def prep0_def)

text \<open>Adding an element at either end or behind any element, removing any element and taking the
  first one keep an \<open>I_P_List\<close> linked in both directions, with the right last cell and count; elements
  come out of the front in the order they were pushed at the back.\<close>

theorem i_p_list_ops:
  assumes "prep h l (as @ p # bs)" "a \<notin> set (as @ p # bs)" "fresh_all (\<lambda>xs x. x \<notin> set xs) (as @ p # bs) ys"
  shows "prep (ipl_push_front h l a) l (a # as @ p # bs) \<and>
    prep (ipl_push_back h l a) l (as @ p # bs @ [a]) \<and>
    prep (ipl_insert_after h l (Some p) a) l (as @ p # a # bs) \<and>
    prep (ipl_remove h l p) l (as @ bs) \<and>
    (\<exists>h' h''. put_all (\<lambda>h a. Some (ipl_push_back h l a)) h ys = Some h' \<and>
      get_all (\<lambda>h. Some (ipl_pop_front h l)) (length ((as @ p # bs) @ ys)) h' = Some (h'', map Some ((as @ p # bs) @ ys)) \<and>
      prep h'' l [])"
  using ipl_push_front_rep [OF assms(1,2)] ipl_push_back_rep [OF assms(1,2)] ipl_insert_after_rep [OF assms(1,2)]
    ipl_remove_rep [OF assms(1)] ipl.fifo_order [OF assms(1,3)]
  by simp

theorem i_p_list_ops_witness:
  "prep (ipl_insert_after ex_pheap 0 (Some 2) 7) 0 [1, 2, 7]"
  using i_p_list_ops [OF ex_prep(1), of 7 "[]"] by simp

text \<open>The iterator of an \<open>I_P_List\<close> has moved on before it returns an element, so removing that element
  does not disturb it: the iterator stands at the element that followed, in a list without the
  removed one. Swapping two lists exchanges their elements and counts.\<close>

theorem i_p_list_iterate_and_swap:
  assumes "prep h l (as @ p # bs)" "prep0 h x ps" "prep0 h y qs" "x \<noteq> y" "set ps \<inter> set qs = {}"
  shows "ipli_post_incr h (Some p) = (if bs = [] then None else Some (hd bs), Some p) \<and>
    prep (ipl_remove h l p) l (as @ bs) \<and>
    (bs \<noteq> [] \<longrightarrow> ipli_post_incr (ipl_remove h l p) (Some (hd bs)) =
      (if tl bs = [] then None else Some (hd (tl bs)), Some (hd bs))) \<and>
    prep0 (ipl_swap h x y) x qs \<and> prep0 (ipl_swap h x y) y ps"
proof -
  have nx: "pnext g q = (if cs = [] then None else Some (hd cs))" if "prep g l (ds @ q # cs)" for g q cs ds
    using that dseg_start by (fastforce simp: prep_def dseg_append)
  note r = ipl_remove_rep [OF assms(1), THEN conjunct1]
  have "ipli_post_incr (ipl_remove h l p) (Some (hd bs)) =
      (if tl bs = [] then None else Some (hd (tl bs)), Some (hd bs))" if "bs \<noteq> []"
    using nx [of "ipl_remove h l p" as "hd bs" "tl bs"] r that by (simp add: ipli_post_incr_def)
  then show ?thesis
    using nx [OF assms(1)] r ipl_swap_rep [OF assms(2-5)] by (simp add: ipli_post_incr_def)
qed

theorem i_p_list_iterate_and_swap_witness:
  "prep0 (ipl_swap ex_pheap 0 3) 3 [1, 2]"
  using i_p_list_iterate_and_swap [OF ex_prep(1) ex_prep(2,3)] by simp

end
