(* ===== verification/Ilist.thy ===== *)
theory Ilist
  imports Dlist_Heap Containers
begin

text \<open>
  The circular intrusive list \<open>ilist\<close> and its counting variant \<open>sized_ilist\<close> of \<^verbatim>\<open>ilist.h\<close>. Nodes are
  identified by their addresses; the list object is the address of its sentinel, which is a node
  like the others. The \<open>DBUG_OFF\<close> build is modelled, in which \<open>erase\<close> leaves the fields of the
  erased node as they are. The lemmas show that every operation but \<open>pop_back\<close> does on the sequence
  of elements what its name says; \<open>pop_back\<close> erases the sentinel.
\<close>

section \<open>Nodes and iterators\<close>

(* @ilist.h 27-44 ilist_node *)
record nheap =
  nnext :: "nat \<Rightarrow> nat"
  nprev :: "nat \<Rightarrow> nat"

text \<open>An \<open>Iterator\<close> is the address of a node.\<close>

(* @ilist.h 83-88 Iterator::operator++ *)
definition it_incr :: "nheap \<Rightarrow> nat \<Rightarrow> nat" where
  "it_incr h node = nnext h node"

(* @ilist.h 89-94 Iterator::operator++(int) *)
definition it_post_incr :: "nheap \<Rightarrow> nat \<Rightarrow> nat \<times> nat" where
  "it_post_incr h node = (let tmp = node; node' = it_incr h node in (node', tmp))"

(* @ilist.h 96-101 Iterator::operator-- *)
definition it_decr :: "nheap \<Rightarrow> nat \<Rightarrow> nat" where
  "it_decr h node = nprev h node"

(* @ilist.h 102-107 Iterator::operator--(int) *)
definition it_post_decr :: "nheap \<Rightarrow> nat \<Rightarrow> nat \<times> nat" where
  "it_post_decr h node = (let tmp = node; node' = it_decr h node in (node', tmp))"

(* @ilist.h 116-119 operator== *)
definition it_eq :: "nat \<Rightarrow> nat \<Rightarrow> bool" where
  "it_eq lhs rhs \<longleftrightarrow> lhs = rhs"

(* @ilist.h 120-123 operator!= *)
definition it_ne :: "nat \<Rightarrow> nat \<Rightarrow> bool" where
  "it_ne lhs rhs \<longleftrightarrow> \<not> it_eq lhs rhs"

section \<open>The list\<close>

(* @ilist.h 131-131 ilist::ilist *)
definition ilist_new :: "nheap \<Rightarrow> nat \<Rightarrow> nheap" where
  "ilist_new h s = h\<lparr>nnext := (nnext h)(s := s), nprev := (nprev h)(s := s)\<rparr>"

(* @ilist.h 138-142 ilist::begin *)
definition il_begin :: "nheap \<Rightarrow> nat \<Rightarrow> nat" where
  "il_begin h s = nnext h s"

(* @ilist.h 143-147 ilist::end *)
definition il_end :: "nat \<Rightarrow> nat" where
  "il_end s = s"

(* @ilist.h 133-135 ilist::front *)
definition ilist_front :: "nheap \<Rightarrow> nat \<Rightarrow> nat" where
  "ilist_front h s = il_begin h s"

(* @ilist.h 134-136 ilist::back *)
definition ilist_back :: "nheap \<Rightarrow> nat \<Rightarrow> nat" where
  "ilist_back h s = it_decr h (il_end s)"

text \<open>
  A \<open>std::reverse_iterator\<close> holds the position behind the element it denotes: dereferencing it
  steps back once.
\<close>

(* @ilist.h 149-153 ilist::rbegin *)
definition il_rbegin :: "nat \<Rightarrow> nat" where
  "il_rbegin s = il_end s"

(* @ilist.h 154-158 ilist::rend *)
definition il_rend :: "nheap \<Rightarrow> nat \<Rightarrow> nat" where
  "il_rend h s = il_begin h s"

(* @ilist.h 160-160 ilist::empty *)
definition ilist_empty :: "nheap \<Rightarrow> nat \<Rightarrow> bool" where
  "ilist_empty h s \<longleftrightarrow> nnext h s = s"

(* @ilist.h 168-172 ilist::clear *)
definition ilist_clear :: "nheap \<Rightarrow> nat \<Rightarrow> nheap" where
  "ilist_clear h s =
     (let h1 = h\<lparr>nnext := (nnext h)(s := s)\<rparr>
      in h1\<lparr>nprev := (nprev h1)(s := s)\<rparr>)"

(* @ilist.h 174-186 ilist::insert *)
definition ilist_insert :: "nheap \<Rightarrow> nat \<Rightarrow> nat \<Rightarrow> nheap \<times> nat" where
  "ilist_insert h pos value =
     (let curr = pos;
          prev = nprev h pos;
          h1 = h\<lparr>nnext := (nnext h)(prev := value)\<rparr>;
          h2 = h1\<lparr>nprev := (nprev h1)(curr := value)\<rparr>;
          h3 = h2\<lparr>nprev := (nprev h2)(value := prev)\<rparr>;
          h4 = h3\<lparr>nnext := (nnext h3)(value := curr)\<rparr>
      in (h4, value))"

(* @ilist.h 188-203 ilist::erase *)
definition ilist_erase :: "nheap \<Rightarrow> nat \<Rightarrow> nheap \<times> nat" where
  "ilist_erase h pos =
     (let prev = nprev h pos;
          nxt = nnext h pos;
          h1 = h\<lparr>nnext := (nnext h)(prev := nxt)\<rparr>;
          h2 = h1\<lparr>nprev := (nprev h1)(nxt := prev)\<rparr>
      in (h2, nxt))"

(* @ilist.h 205-205 ilist::push_back *)
definition ilist_push_back :: "nheap \<Rightarrow> nat \<Rightarrow> nat \<Rightarrow> nheap" where
  "ilist_push_back h s value = fst (ilist_insert h (il_end s) value)"

(* @ilist.h 206-206 ilist::pop_back *)
definition ilist_pop_back :: "nheap \<Rightarrow> nat \<Rightarrow> nheap" where
  "ilist_pop_back h s = fst (ilist_erase h (il_end s))"

(* @ilist.h 208-208 ilist::push_front *)
definition ilist_push_front :: "nheap \<Rightarrow> nat \<Rightarrow> nat \<Rightarrow> nheap" where
  "ilist_push_front h s value = fst (ilist_insert h (il_begin h s) value)"

(* @ilist.h 209-209 ilist::pop_front *)
definition ilist_pop_front :: "nheap \<Rightarrow> nat \<Rightarrow> nheap" where
  "ilist_pop_front h s = fst (ilist_erase h (il_begin h s))"

(* @ilist.h 211-213 ilist::remove *)
definition ilist_remove :: "nheap \<Rightarrow> nat \<Rightarrow> nheap" where
  "ilist_remove h value = fst (ilist_erase h value)"

section \<open>The list with a size\<close>

(* @ilist.h 269-271 sized_ilist *)
record sheap = nheap +
  lsize :: "64 word"

(* @ilist.h 239-239 sized_ilist::sized_ilist *)
definition sized_new :: "sheap \<Rightarrow> nat \<Rightarrow> sheap" where
  "sized_new h s = h\<lparr>nnext := (nnext h)(s := s), nprev := (nprev h)(s := s), lsize := 0\<rparr>"

(* @ilist.h 241-241 sized_ilist::size *)
definition sized_size :: "sheap \<Rightarrow> 64 word" where
  "sized_size h = lsize h"

text \<open>Runs an operation of the base class on the nodes.\<close>

definition on_nodes :: "(nheap \<Rightarrow> nheap) \<Rightarrow> sheap \<Rightarrow> sheap" where
  "on_nodes f h = (let g = f (nheap.truncate h) in h\<lparr>nnext := nnext g, nprev := nprev g\<rparr>)"

(* @ilist.h 243-247 sized_ilist::clear *)
definition sized_clear :: "sheap \<Rightarrow> nat \<Rightarrow> sheap" where
  "sized_clear h s = (on_nodes (\<lambda>g. ilist_clear g s) h)\<lparr>lsize := 0\<rparr>"

(* @ilist.h 249-253 sized_ilist::insert *)
definition sized_insert :: "sheap \<Rightarrow> nat \<Rightarrow> nat \<Rightarrow> sheap \<times> nat" where
  "sized_insert h pos value =
     (let h1 = h\<lparr>lsize := lsize h + 1\<rparr>
      in (on_nodes (\<lambda>g. fst (ilist_insert g pos value)) h1, snd (ilist_insert (nheap.truncate h1) pos value)))"

(* @ilist.h 255-259 sized_ilist::erase *)
definition sized_erase :: "sheap \<Rightarrow> nat \<Rightarrow> sheap \<times> nat" where
  "sized_erase h pos =
     (let h1 = h\<lparr>lsize := lsize h - 1\<rparr>
      in (on_nodes (\<lambda>g. fst (ilist_erase g pos)) h1, snd (ilist_erase (nheap.truncate h1) pos)))"

(* @ilist.h 261-261 sized_ilist::push_back *)
definition sized_push_back :: "sheap \<Rightarrow> nat \<Rightarrow> nat \<Rightarrow> sheap" where
  "sized_push_back h s value = fst (sized_insert h (il_end s) value)"

(* @ilist.h 262-262 sized_ilist::pop_back *)
definition sized_pop_back :: "sheap \<Rightarrow> nat \<Rightarrow> sheap" where
  "sized_pop_back h s = fst (sized_erase h (il_end s))"

(* @ilist.h 264-264 sized_ilist::push_front *)
definition sized_push_front :: "sheap \<Rightarrow> nat \<Rightarrow> nat \<Rightarrow> sheap" where
  "sized_push_front h s value = fst (sized_insert h (il_begin (nheap.truncate h) s) value)"

(* @ilist.h 265-265 sized_ilist::pop_front *)
definition sized_pop_front :: "sheap \<Rightarrow> nat \<Rightarrow> sheap" where
  "sized_pop_front h s = fst (sized_erase h (il_begin (nheap.truncate h) s))"

(* @ilist.h 267-267 sized_ilist::remove *)
definition sized_remove :: "sheap \<Rightarrow> nat \<Rightarrow> sheap" where
  "sized_remove h value = fst (sized_erase h value)"

section \<open>What a list represents\<close>

abbreviation nseg :: "nheap \<Rightarrow> nat \<Rightarrow> nat \<Rightarrow> nat list \<Rightarrow> nat \<Rightarrow> nat \<Rightarrow> bool" where
  "nseg h \<equiv> dseg (nnext h) (nprev h) (\<lambda>p. p) (\<lambda>p. p)"

definition nrep :: "nheap \<Rightarrow> nat \<Rightarrow> nat list \<Rightarrow> bool" where
  "nrep h s ps \<longleftrightarrow> nseg h s (nnext h s) ps s (nprev h s) \<and> distinct (s # ps)"

lemma ilist_insert_fields:
  "nnext (fst (ilist_insert h pos v)) q = (if q = v then pos else if q = nprev h pos then v else nnext h q)"
  "nprev (fst (ilist_insert h pos v)) q = (if q = v then nprev h pos else if q = pos then v else nprev h q)"
  "snd (ilist_insert h pos v) = v"
  by (simp_all add: ilist_insert_def Let_def)

lemma ilist_erase_fields:
  "nnext (fst (ilist_erase h pos)) q = (if q = nprev h pos then nnext h pos else nnext h q)"
  "nprev (fst (ilist_erase h pos)) q = (if q = nnext h pos then nprev h pos else nprev h q)"
  "snd (ilist_erase h pos) = nnext h pos"
  by (simp_all add: ilist_erase_def Let_def)

text \<open>Two pieces of a list around a position.\<close>

lemma nrep_split:
  assumes "nrep h s (as @ bs)"
  shows "nseg h s (nnext h s) as (hd (bs @ [s])) (last (s # as))"
    "nseg h (last (s # as)) (hd (bs @ [s])) bs s (nprev h s)"
    "nprev h (hd (bs @ [s])) = last (s # as)" "nnext h (last (s # as)) = hd (bs @ [s])"
proof -
  obtain u m where m: "nseg h s (nnext h s) as u m" "nseg h m u bs s (nprev h s)"
    using assms by (auto simp: nrep_def dseg_append)
  have c: "m = last (s # as)" "u = hd (bs @ [s])" using dseg_cell [OF m(1)] dseg_start [OF m(2)] by auto
  show "nseg h s (nnext h s) as (hd (bs @ [s])) (last (s # as))"
    "nseg h (last (s # as)) (hd (bs @ [s])) bs s (nprev h s)" using m by (simp_all add: c)
  show "nprev h (hd (bs @ [s])) = last (s # as)" using m(2) c by (cases bs) auto
  show "nnext h (last (s # as)) = hd (bs @ [s])" using m(1) c dseg_last_next [OF m(1)] by (cases as) auto
qed

text \<open>Joining two pieces with new fields at the seam.\<close>

lemma nrep_join:
  assumes m: "nseg h s (nnext h s) as u (last (s # as))" "nseg h m (hd (bs @ [s])) bs s (nprev h s)"
    and d: "distinct (s # as @ bs)"
    and g: "\<And>q. q \<in> set (s # as @ bs) \<Longrightarrow> nnext g q = (if q = last (s # as) then x else nnext h q) \<and>
      nprev g q = (if q = hd (bs @ [s]) then y else nprev h q)"
  shows "nseg g s (nnext g s) as x (last (s # as))" "nseg g y (hd (bs @ [s])) bs s (nprev g s)"
proof -
  show "nseg g s (nnext g s) as x (last (s # as))"
  proof (cases "as = []")
    case False
    have "nseg g s (nnext h s) as x (last (s # as))"
    proof (rule dseg_relink [OF m(1) _ False])
      fix p assume p: "p \<in> set as"
      then have "p \<noteq> hd (bs @ [s])" using d by (cases bs) auto
      then show "nnext g p = (if p = last as then x else nnext h p) \<and> nprev g p = nprev h p"
        using g [of p] p False by auto
    qed (use d in auto)
    moreover have "last (s # as) \<noteq> s" using d False last_in_set [of as] by auto
    ultimately show ?thesis using g [of s] by auto
  qed (use g [of s] in auto)
  show "nseg g y (hd (bs @ [s])) bs s (nprev g s)"
  proof (cases bs)
    case (Cons b bs')
    have "nseg g y (hd (bs @ [s])) (b # bs') s (nprev h s)"
    proof (rule dseg_reprev)
      show "nseg h m (hd (bs @ [s])) (b # bs') s (nprev h s)" using m(2) Cons by simp
      show "b \<notin> set bs'" using d Cons by simp
      fix q assume q: "q \<in> set (b # bs')"
      then have "q \<noteq> last (s # as)" using d Cons by (metis Un_iff disjoint_iff distinct_append last_in_set list.distinct(1) set_append append_Cons)
      then show "nnext g q = nnext h q \<and> nprev g q = (if q = b then y else nprev h q)"
        using g [of q] q Cons by auto
    qed
    then show ?thesis using g [of s] d Cons by (auto simp del: dseg.simps)
  qed (use g [of s] in auto)
qed


lemma ilist_insert_rep:
  assumes "nrep h s (as @ bs)" "v \<notin> set (s # as @ bs)"
  shows "nrep (fst (ilist_insert h (hd (bs @ [s])) v)) s (as @ v # bs) \<and>
    snd (ilist_insert h (hd (bs @ [s])) v) = v"
proof -
  let ?g = "fst (ilist_insert h (hd (bs @ [s])) v)"
  note m = nrep_split [OF assms(1)]
  have d: "distinct (s # as @ bs)" using assms(1) by (simp add: nrep_def)
  have "nnext ?g q = (if q = last (s # as) then v else nnext h q) \<and>
    nprev ?g q = (if q = hd (bs @ [s]) then v else nprev h q)" if "q \<in> set (s # as @ bs)" for q
    using assms(2) that by (auto simp: ilist_insert_fields m(3))
  note j = nrep_join [OF m(1,2) d this]
  have "nprev ?g v = last (s # as)" "nnext ?g v = hd (bs @ [s])" 
    unfolding ilist_insert_fields m(3) by simp_all
  then show ?thesis unfolding nrep_def dseg_append using j assms(2) d by (auto simp: ilist_insert_fields(3))
qed

lemma ilist_erase_rep:
  assumes "nrep h s (as @ p # bs)"
  shows "nrep (fst (ilist_erase h p)) s (as @ bs) \<and> snd (ilist_erase h p) = hd (bs @ [s])"
proof -
  let ?g = "fst (ilist_erase h p)"
  have d: "distinct (s # as @ p # bs)" using assms by (simp add: nrep_def)
  have a2: "nrep h s ((as @ [p]) @ bs)" using assms by simp
  have n: "nprev h p = last (s # as)" "nnext h p = hd (bs @ [s])"
    using nrep_split(3) [OF assms] nrep_split(4) [OF a2] by auto
  have m: "nseg h s (nnext h s) as p (last (s # as))" "nseg h p (hd (bs @ [s])) bs s (nprev h s)"
    using nrep_split(1) [OF assms] nrep_split(2) [OF a2] by auto
  have "nnext ?g q = (if q = last (s # as) then hd (bs @ [s]) else nnext h q) \<and>
    nprev ?g q = (if q = hd (bs @ [s]) then last (s # as) else nprev h q)" if "q \<in> set (s # as @ bs)" for q
    unfolding ilist_erase_fields n by simp
  note j = nrep_join [OF m _ this]
  then show ?thesis unfolding nrep_def dseg_append using d n by (auto simp: ilist_erase_fields(3))
qed

lemma ilist_new_rep: "nrep (ilist_new h s) s []" "nrep (ilist_clear h s) s []"
  by (simp_all add: nrep_def ilist_new_def ilist_clear_def Let_def)

lemma ilist_push_back_rep: "nrep h s ps \<Longrightarrow> v \<notin> set (s # ps) \<Longrightarrow> nrep (ilist_push_back h s v) s (ps @ [v])"
  using ilist_insert_rep [of h s ps "[]" v] by (simp add: ilist_push_back_def il_end_def)

lemma il_begin_rep: "nrep h s ps \<Longrightarrow> il_begin h s = hd (ps @ [s])"
  using nrep_split(4) [of h s "[]" ps] by (simp add: il_begin_def)

lemma ilist_push_front_rep: "nrep h s ps \<Longrightarrow> v \<notin> set (s # ps) \<Longrightarrow> nrep (ilist_push_front h s v) s (v # ps)"
  using ilist_insert_rep [of h s "[]" ps v] by (simp add: ilist_push_front_def il_begin_rep)

lemma ilist_pop_front_rep: "nrep h s (p # ps) \<Longrightarrow> ilist_front h s = p \<and> nrep (ilist_pop_front h s) s ps"
  using ilist_erase_rep [of h s "[]" p ps] by (simp add: ilist_pop_front_def ilist_front_def il_begin_rep)

lemma ilist_back_rep: "nrep h s ps \<Longrightarrow> ilist_back h s = last (s # ps)"
  using nrep_split(3) [of h s ps "[]"] by (simp add: ilist_back_def it_decr_def il_end_def)

lemma ilist_empty_rep: "nrep h s ps \<Longrightarrow> ilist_empty h s \<longleftrightarrow> ps = []"
  using il_begin_rep [of h s ps] by (cases ps) (auto simp: ilist_empty_def il_begin_def nrep_def)

interpretation iln: fifo "\<lambda>h ps. nrep h s ps" "\<lambda>h v. Some (ilist_push_back h s v)"
  "\<lambda>h. Some (ilist_pop_front h s, ilist_front h s)" "\<lambda>p. p" "\<lambda>xs x. x \<notin> set (s # xs)"
  by unfold_locales (auto simp: ilist_push_back_rep dest: ilist_pop_front_rep)

section \<open>Walking a list\<close>

lemma nseg_walk:
  "nseg h s v ps e t \<Longrightarrow> k \<le> length ps \<Longrightarrow> (it_incr h ^^ k) v = (ps @ [e]) ! k"
proof (induction ps arbitrary: s v k)
  case (Cons p ps)
  then show ?case by (cases k) (auto simp: it_incr_def simp del: funpow.simps(2) simp add: funpow_Suc_right)
qed simp

lemma nseg_walk_back:
  "nseg h s v ps e t \<Longrightarrow> k \<le> length ps \<Longrightarrow> (it_decr h ^^ k) t = (rev ps @ [s]) ! k"
proof (induction ps arbitrary: e t k rule: rev_induct)
  case (snoc p ps)
  obtain u m where "nseg h s v ps u m" "nseg h m u [p] e t" using snoc.prems(1) by (simp only: dseg_append) blast
  then have m: "nseg h s v ps p m" "nprev h p = m" "t = p" by auto
  show ?case
  proof (cases k)
    case (Suc j)
    have "(it_decr h ^^ Suc j) t = (it_decr h ^^ j) m" using m(2,3) by (simp only: funpow_Suc_right o_apply it_decr_def)
    then show ?thesis using snoc.IH [OF m(1), of j] snoc.prems(2) Suc by simp
  qed (simp add: m(3))
qed simp

lemma ilist_walk:
  assumes "nrep h s ps" "k \<le> length ps"
  shows "(it_incr h ^^ k) (il_begin h s) = (ps @ [il_end s]) ! k"
    "(it_decr h ^^ Suc k) (il_rbegin s) = (rev ps @ [il_end s]) ! k"
proof -
  have d: "nseg h s (nnext h s) ps s (nprev h s)" using assms(1) by (simp add: nrep_def)
  show "(it_incr h ^^ k) (il_begin h s) = (ps @ [il_end s]) ! k"
    using nseg_walk [OF d assms(2)] by (simp only: il_begin_def il_end_def)
  have "(it_decr h ^^ Suc k) (il_rbegin s) = (it_decr h ^^ k) (nprev h s)"
    by (simp only: funpow_Suc_right o_apply it_decr_def il_rbegin_def il_end_def)
  then show "(it_decr h ^^ Suc k) (il_rbegin s) = (rev ps @ [il_end s]) ! k"
    using nseg_walk_back [OF d assms(2)] by (simp only: il_end_def)
qed

text \<open>Erasing the sentinel leaves a ring of the elements only.\<close>

lemma pop_back_step:
  assumes "nrep h s ps" "q \<in> set ps"
  shows "it_incr (ilist_pop_back h s) q \<in> set ps"
proof -
  obtain as bs where ps: "ps = as @ q # bs" using assms(2) split_list by fastforce
  have a2: "nrep h s ((as @ [q]) @ bs)" using assms(1) ps by simp
  have n: "nnext h q = hd (bs @ [s])" using nrep_split(4) [OF a2] by simp
  have l: "nprev h s = last (s # ps)" "nnext h s = hd (ps @ [s])"
    using nrep_split(3) [of h s ps "[]"] nrep_split(4) [of h s "[]" ps] assms(1) by auto
  have "q = last ps \<longleftrightarrow> bs = []" using assms(1) ps by (auto simp: nrep_def)
  moreover have "last (s # ps) = last ps" using ps by simp
  moreover have "hd (ps @ [s]) \<in> set ps" using ps by (cases as) auto
  ultimately show ?thesis using n l ps
    unfolding it_incr_def ilist_pop_back_def ilist_erase_fields il_end_def by (cases bs) simp_all
qed

lemma pop_back_walk:
  assumes "nrep h s ps" "ps \<noteq> []"
  shows "(it_incr (ilist_pop_back h s) ^^ k) (il_begin (ilist_pop_back h s) s) \<in> set ps"
proof (induction k)
  case 0
  have "s \<noteq> nprev h s" using nrep_split(3) [of h s ps "[]"] assms by (auto simp: nrep_def)
  then show ?case using il_begin_rep [OF assms(1)] assms(2)
    by (simp add: il_begin_def ilist_pop_back_def ilist_erase_fields il_end_def)
next
  case (Suc k)
  then show ?case using pop_back_step [OF assms(1)] by simp
qed

section \<open>The size\<close>

definition sized_rep :: "sheap \<Rightarrow> nat \<Rightarrow> nat list \<Rightarrow> bool" where
  "sized_rep h s ps \<longleftrightarrow> nrep (nheap.truncate h) s ps \<and> lsize h = of_nat (length ps)"

lemma on_nodes_truncate [simp]: "nheap.truncate (on_nodes f h) = f (nheap.truncate h)"
  "lsize (on_nodes f h) = lsize h"
  by (simp_all add: on_nodes_def nheap.truncate_def Let_def)

lemma truncate_update [simp]: "nheap.truncate (h\<lparr>lsize := n\<rparr>) = nheap.truncate h"
  by (simp add: nheap.truncate_def)

lemma sized_insert_rep:
  "sized_rep h s (as @ bs) \<Longrightarrow> v \<notin> set (s # as @ bs) \<Longrightarrow> sized_rep (fst (sized_insert h (hd (bs @ [s])) v)) s (as @ v # bs)"
  using ilist_insert_rep [of "nheap.truncate h" s as bs v] by (simp add: sized_rep_def sized_insert_def Let_def)

lemma sized_erase_rep: "sized_rep h s (as @ p # bs) \<Longrightarrow> sized_rep (fst (sized_erase h p)) s (as @ bs)"
  using ilist_erase_rep [of "nheap.truncate h" s as p bs] by (simp add: sized_rep_def sized_erase_def Let_def)

lemma sized_begin_rep: "sized_rep h s ps \<Longrightarrow> il_begin (nheap.truncate h) s = hd (ps @ [s])"
  by (simp add: sized_rep_def il_begin_rep)

section \<open>Properties\<close>

text \<open>C35: An \<open>ilist\<close> is the sequence of its elements. On every list, the empty one included, inserting before any
  position (the end too), \<open>push_back\<close>, \<open>push_front\<close>, \<open>clear\<close> and \<open>empty\<close> do to the sequence what they say;
  erasing or removing any element and, on a list that is not empty, \<open>pop_front\<close>, \<open>front\<close> and \<open>back\<close> as well;
  walking forward from \<open>begin()\<close> visits it in order and arrives at \<open>end()\<close>, walking backward visits it in
  reverse. The remaining operation, \<open>pop_back\<close>, does not.\<close>

theorem ilist_ops:
  assumes "nrep h s (as @ bs)" "v \<notin> set (s # as @ bs)" "k \<le> length (as @ bs)"
  shows "nrep (fst (ilist_insert h (hd (bs @ [il_end s])) v)) s (as @ v # bs) \<and>
    snd (ilist_insert h (hd (bs @ [il_end s])) v) = v \<and>
    nrep (ilist_push_back h s v) s (as @ bs @ [v]) \<and>
    nrep (ilist_push_front h s v) s (v # as @ bs) \<and>
    nrep (ilist_clear h s) s [] \<and> (ilist_empty h s \<longleftrightarrow> as @ bs = []) \<and>
    (\<forall>p cs. bs = p # cs \<longrightarrow> nrep (fst (ilist_erase h p)) s (as @ cs) \<and> snd (ilist_erase h p) = hd (cs @ [il_end s]) \<and>
      nrep (ilist_remove h p) s (as @ cs)) \<and>
    (as @ bs \<noteq> [] \<longrightarrow> nrep (ilist_pop_front h s) s (tl (as @ bs)) \<and>
      ilist_front h s = hd (as @ bs) \<and> ilist_back h s = last (as @ bs)) \<and>
    (it_incr h ^^ k) (il_begin h s) = ((as @ bs) @ [il_end s]) ! k \<and>
    (it_decr h ^^ Suc k) (il_rbegin s) = (rev (as @ bs) @ [il_end s]) ! k"
proof (intro conjI allI impI)
  show "nrep (fst (ilist_insert h (hd (bs @ [il_end s])) v)) s (as @ v # bs)"
    "snd (ilist_insert h (hd (bs @ [il_end s])) v) = v"
    using ilist_insert_rep [OF assms(1,2)] by (simp_all add: il_end_def)
  show "nrep (fst (ilist_erase h p)) s (as @ cs)" "snd (ilist_erase h p) = hd (cs @ [il_end s])"
    "nrep (ilist_remove h p) s (as @ cs)" if "bs = p # cs" for p cs
    using ilist_erase_rep [of h s as p cs] assms(1) that by (simp_all add: ilist_remove_def il_end_def)
  assume ne: "as @ bs \<noteq> []"
  then show "nrep (ilist_pop_front h s) s (tl (as @ bs))" "ilist_front h s = hd (as @ bs)"
    using ilist_pop_front_rep [of h s "hd (as @ bs)" "tl (as @ bs)"] assms(1) by simp_all
  show "ilist_back h s = last (as @ bs)" using ilist_back_rep [OF assms(1)] ne by (simp del: append_is_Nil_conv)
qed (use ilist_push_back_rep [OF assms(1,2)] ilist_push_front_rep [OF assms(1,2)] ilist_new_rep(2) ilist_empty_rep [OF assms(1)]
      ilist_walk [OF assms(1,3)] in \<open>simp_all\<close>)

definition ex_nheap :: nheap where
  "ex_nheap = ilist_push_back (ilist_push_back (ilist_new \<lparr>nnext = id, nprev = id\<rparr> 0) 0 1) 0 2"

lemma ex_nrep: "nrep ex_nheap 0 ([1] @ 2 # [])"
  using ilist_push_back_rep [OF ilist_push_back_rep [OF ilist_new_rep(1)], of 1 0 2] by (simp add: ex_nheap_def)

theorem ilist_ops_witness:
  "nrep (fst (ilist_insert ex_nheap 2 7)) 0 [1, 7, 2] \<and> (it_incr ex_nheap ^^ 2) (il_begin ex_nheap 0) = il_end 0 \<and>
   nrep (ilist_push_front (ilist_new ex_nheap 5) 5 7) 5 [7]"
proof (intro conjI)
  show "nrep (fst (ilist_insert ex_nheap 2 7)) 0 [1, 7, 2]" "(it_incr ex_nheap ^^ 2) (il_begin ex_nheap 0) = il_end 0"
    using ilist_ops [OF ex_nrep, of 7 2] by (simp_all del: funpow.simps)
  have "nrep (ilist_new ex_nheap 5) 5 ([] @ [])" by (simp add: ilist_new_rep)
  from ilist_ops [OF this, of 7 0] show "nrep (ilist_push_front (ilist_new ex_nheap 5) 5 7) 5 [7]" by simp
qed

text \<open>C36: \<open>pop_back\<close> removes no element from a list that is not empty. It unlinks the sentinel instead:
  the elements form a ring in which a loop from \<open>begin()\<close> to \<open>end()\<close> never arrives, and the counting
  list has lost one from its size; on an empty counting list the size wraps around.\<close>

theorem pop_back_unlinks_sentinel:
  assumes "sized_rep h s ps" "ps \<noteq> []"
  shows "(\<forall>k. it_ne ((it_incr (ilist_pop_back (nheap.truncate h) s) ^^ k)
        (il_begin (ilist_pop_back (nheap.truncate h) s) s)) (il_end s)) \<and>
    nheap.truncate (sized_pop_back h s) = ilist_pop_back (nheap.truncate h) s \<and>
    sized_size (sized_pop_back h s) = of_nat (length ps - 1) \<and>
    sized_size (sized_pop_back (sized_new h s) s) = - 1"
proof -
  have r: "nrep (nheap.truncate h) s ps" "lsize h = of_nat (length ps)" using assms(1) by (auto simp: sized_rep_def)
  have "s \<notin> set ps" using r by (simp add: nrep_def)
  then have "it_ne ((it_incr (ilist_pop_back (nheap.truncate h) s) ^^ k)
        (il_begin (ilist_pop_back (nheap.truncate h) s) s)) (il_end s)" for k
    using pop_back_walk [OF r(1) assms(2), of k] by (auto simp: it_ne_def it_eq_def il_end_def)
  moreover have "of_nat (length ps) - 1 = (of_nat (length ps - 1) :: 64 word)" using assms(2) by (cases ps) auto
  ultimately show ?thesis using r
    by (simp add: sized_pop_back_def sized_erase_def sized_size_def sized_new_def Let_def ilist_pop_back_def)
qed

definition ex_sheap :: sheap where
  "ex_sheap = sized_push_back (sized_new \<lparr>nnext = id, nprev = id, lsize = 5\<rparr> 0) 0 1"

lemma ex_sized_rep: "sized_rep ex_sheap 0 [1]"
  using sized_insert_rep [of "sized_new \<lparr>nnext = id, nprev = id, lsize = 5\<rparr> 0" 0 "[]" "[]" 1]
  by (simp add: ex_sheap_def sized_push_back_def il_end_def sized_rep_def sized_new_def nrep_def nheap.truncate_def)

theorem pop_back_unlinks_sentinel_witness: "sized_size (sized_pop_back ex_sheap 0) = 0"
  using pop_back_unlinks_sentinel [OF ex_sized_rep] by simp

text \<open>The size a \<open>sized_ilist\<close> keeps is the number of its elements after every insertion and every
  removal at a position of the list, and a list used as a queue hands its elements out in order.\<close>

theorem sized_ilist_ops:
  assumes "sized_rep h s (as @ p # bs)" "v \<notin> set (s # as @ p # bs)"
  shows "sized_rep (fst (sized_insert h p v)) s (as @ v # p # bs) \<and>
    sized_rep (sized_push_back h s v) s (as @ p # bs @ [v]) \<and>
    sized_rep (sized_push_front h s v) s (v # as @ p # bs) \<and>
    sized_rep (fst (sized_erase h p)) s (as @ bs) \<and> sized_rep (sized_remove h p) s (as @ bs) \<and>
    sized_rep (sized_pop_front h s) s (tl (as @ p # bs)) \<and> sized_rep (sized_clear h s) s [] \<and>
    sized_size h = of_nat (length (as @ p # bs))"
proof (intro conjI)
  show "sized_rep (fst (sized_insert h p v)) s (as @ v # p # bs)"
    using sized_insert_rep [of h s as "p # bs" v] assms by simp
  show "sized_rep (sized_push_back h s v) s (as @ p # bs @ [v])"
    using sized_insert_rep [of h s "as @ p # bs" "[]" v] assms by (simp add: sized_push_back_def il_end_def)
  show "sized_rep (sized_push_front h s v) s (v # as @ p # bs)"
    using sized_insert_rep [of h s "[]" "as @ p # bs" v] assms by (simp add: sized_push_front_def sized_begin_rep)
  show "sized_rep (sized_pop_front h s) s (tl (as @ p # bs))"
    using sized_erase_rep [of h s "[]" "hd (as @ [p])" "tl (as @ p # bs)"] assms(1)
    by (cases as) (simp_all add: sized_pop_front_def sized_begin_rep)
  show "sized_rep (sized_clear h s) s []" by (simp add: sized_rep_def sized_clear_def ilist_new_rep)
qed (use sized_erase_rep [OF assms(1)] assms(1) in \<open>simp_all add: sized_remove_def sized_size_def sized_rep_def\<close>)

theorem sized_ilist_ops_witness: "sized_rep (sized_push_front ex_sheap 0 9) 0 [9, 1]"
  using sized_ilist_ops [of ex_sheap 0 "[]" 1 "[]" 9] ex_sized_rep by simp

end
