(* ===== verification/Hash_Filo.thy ===== *)
theory Hash_Filo
  imports Dlist_Heap
begin

text \<open>
  The hash with a used-chain, \<open>hash_filo\<close> of \<^verbatim>\<open>hash_filo.h\<close>: a cache of bounded size from which the
  entry that was not used for the longest time is evicted. The hash table itself, \<^verbatim>\<open>my_hash_search\<close>,
  \<^verbatim>\<open>my_hash_insert\<close>, \<^verbatim>\<open>my_hash_delete\<close>, \<^verbatim>\<open>my_hash_free\<close> and \<^verbatim>\<open>my_hash_init\<close>, is not part of the headers and
  is a parameter, the record \<open>hash_api\<close>; what the cache relies on is the predicate \<open>hash_laws\<close>. The
  result \<open>None\<close> of an operation is undefined behaviour: a null pointer that is followed, a mutex that
  is used before its initialisation, or a thread that waits for itself.
\<close>

section \<open>The hash table\<close>

record ('c, 'k) hash_api =
  my_hash_search :: "'c \<Rightarrow> 'k \<Rightarrow> nat option"
  my_hash_insert :: "'c \<Rightarrow> nat \<Rightarrow> 'c \<times> bool"
  my_hash_delete :: "'c \<Rightarrow> nat \<Rightarrow> 'c"
  my_hash_free :: "'c \<Rightarrow> 'c"
  my_hash_init :: "'c \<Rightarrow> uint \<Rightarrow> 'c"
  hash_records :: "'c \<Rightarrow> uint"
  hash_buffer :: "'c \<Rightarrow> bool"

text \<open>
  \<open>ents\<close> are the entries in the table and \<open>key\<close> is the key of an entry. A search finds an entry with the
  key if there is one; the insertion of an entry that is not in the table adds it or fails and changes
  nothing; \<open>records\<close> counts the entries; a table that was freed and initialised is empty.
\<close>

definition hash_laws :: "('c, 'k) hash_api \<Rightarrow> ('c \<Rightarrow> nat set) \<Rightarrow> (nat \<Rightarrow> 'k) \<Rightarrow> bool" where
  "hash_laws api ents key \<longleftrightarrow>
     (\<forall>c k e. my_hash_search api c k = Some e \<longrightarrow> e \<in> ents c \<and> key e = k) \<and>
     (\<forall>c k. my_hash_search api c k = None \<longrightarrow> (\<forall>e \<in> ents c. key e \<noteq> k)) \<and>
     (\<forall>c e. e \<notin> ents c \<longrightarrow>
        ents (fst (my_hash_insert api c e)) = (if snd (my_hash_insert api c e) then ents c else insert e (ents c))) \<and>
     (\<forall>c e. ents (my_hash_delete api c e) = ents c - {e}) \<and>
     (\<forall>c n. ents (my_hash_init api (my_hash_free api c) n) = {}) \<and>
     (\<forall>c. hash_records api c = of_nat (card (ents c)))"

section \<open>State\<close>

datatype mutex = Uninitialized | Unlocked | Locked

(* @hash_filo.h 33-64 hash_filo *)
record 'c hash_filo =
  m_size :: uint
  free_element :: bool
  init :: bool
  first_link :: "nat option"
  last_link :: "nat option"
  lock :: mutex
  cache :: 'c
  next_used :: "nat \<Rightarrow> nat option"
  prev_used :: "nat \<Rightarrow> nat option"
  freed :: "nat list"

definition mutex_lock :: "'c hash_filo \<Rightarrow> 'c hash_filo option" where
  "mutex_lock f = (if lock f = Unlocked then Some (f\<lparr>lock := Locked\<rparr>) else None)"

definition mutex_unlock :: "'c hash_filo \<Rightarrow> 'c hash_filo option" where
  "mutex_unlock f = (if lock f = Locked then Some (f\<lparr>lock := Unlocked\<rparr>) else None)"

section \<open>Operations\<close>

text \<open>The cache starts as the zeroed table \<open>zero\<close>; the links of the entries are arbitrary.\<close>

(* @hash_filo.h 65-74 hash_filo::hash_filo *)
definition hf_new :: "'c \<Rightarrow> uint \<Rightarrow> bool \<Rightarrow> (nat \<Rightarrow> nat option) \<Rightarrow> (nat \<Rightarrow> nat option) \<Rightarrow> 'c hash_filo" where
  "hf_new zero size_arg free_arg nx pv =
     \<lparr>m_size = size_arg, free_element = free_arg, init = False, first_link = None, last_link = None,
      lock = Uninitialized, cache = zero, next_used = nx, prev_used = pv, freed = []\<rparr>"

(* @hash_filo.h 76-84 hash_filo::~hash_filo *)
definition hf_destroy :: "('c, 'k) hash_api \<Rightarrow> 'c hash_filo \<Rightarrow> 'c hash_filo" where
  "hf_destroy api f =
     (if init f
      then (if hash_buffer api (cache f) then f\<lparr>cache := my_hash_free api (cache f)\<rparr> else f)\<lparr>lock := Uninitialized\<rparr>
      else f)"

(* @hash_filo.h 85-101 hash_filo::clear *)
definition hf_clear :: "('c, 'k) hash_api \<Rightarrow> 'c hash_filo \<Rightarrow> bool \<Rightarrow> 'c hash_filo option" where
  "hf_clear api f locked =
     (let f1 = (if \<not> init f then f\<lparr>init := True, lock := Unlocked\<rparr> else f)
      in Option.bind (if \<not> locked then mutex_lock f1 else Some f1) (\<lambda>f2.
         let f3 = f2\<lparr>first_link := None, last_link := None,
                     cache := my_hash_init api (my_hash_free api (cache f2)) (m_size f2)\<rparr>
         in if \<not> locked then mutex_unlock f3 else Some f3))"

(* @hash_filo.h 103-107 hash_filo::first *)
definition hf_first :: "'c hash_filo \<Rightarrow> nat option" where
  "hf_first f = first_link f"

(* @hash_filo.h 109-113 hash_filo::last *)
definition hf_last :: "'c hash_filo \<Rightarrow> nat option" where
  "hf_last f = last_link f"

text \<open>The branch of \<open>search\<close> that takes an entry out of the used-chain.\<close>

(* @hash_filo.h 127-143 hash_filo::search *)
definition hf_unlink :: "'c hash_filo \<Rightarrow> nat \<Rightarrow> 'c hash_filo option" where
  "hf_unlink f entry =
     (if last_link f = Some entry then
        (case prev_used f entry of
           None \<Rightarrow> None
         | Some p \<Rightarrow> Some (f\<lparr>last_link := Some p, next_used := (next_used f)(p := None)\<rparr>))
      else
        (case next_used f entry of
           None \<Rightarrow> None
         | Some n \<Rightarrow>
             let f1 = f\<lparr>prev_used := (prev_used f)(n := prev_used f entry)\<rparr>
             in (case prev_used f1 entry of
                   None \<Rightarrow> None
                 | Some p \<Rightarrow> Some (f1\<lparr>next_used := (next_used f1)(p := next_used f1 entry)\<rparr>))))"

(* @hash_filo.h 115-152 hash_filo::search *)
definition hf_search :: "('c, 'k) hash_api \<Rightarrow> 'c hash_filo \<Rightarrow> 'k \<Rightarrow> ('c hash_filo \<times> nat option) option" where
  "hf_search api f key = (case my_hash_search api (cache f) key of
     None \<Rightarrow> Some (f, None)
   | Some entry \<Rightarrow>
       if first_link f \<noteq> Some entry then
         Option.bind (hf_unlink f entry) (\<lambda>f1.
           let f2 = f1\<lparr>prev_used := (prev_used f1)(entry := None)\<rparr>;
               f3 = f2\<lparr>next_used := (next_used f2)(entry := first_link f2)\<rparr>
           in (case first_link f3 of
                 None \<Rightarrow> None
               | Some q \<Rightarrow> Some (f3\<lparr>prev_used := (prev_used f3)(q := Some entry), first_link := Some entry\<rparr>,
                                  Some entry)))
       else Some (f, Some entry))"

text \<open>The branch of \<open>add\<close> that makes room.\<close>

(* @hash_filo.h 157-171 hash_filo::add *)
definition hf_evict :: "('c, 'k) hash_api \<Rightarrow> 'c hash_filo \<Rightarrow> 'c hash_filo option" where
  "hf_evict api f = (case last_link f of
     None \<Rightarrow> None
   | Some tmp \<Rightarrow>
       let f1 = f\<lparr>last_link := prev_used f tmp\<rparr>;
           f2 = (case last_link f1 of
                   Some l \<Rightarrow> f1\<lparr>next_used := (next_used f1)(l := None)\<rparr>
                 | None \<Rightarrow> f1\<lparr>first_link := None\<rparr>)
       in Some (f2\<lparr>cache := my_hash_delete api (cache f2) tmp\<rparr>))"

(* @hash_filo.h 154-187 hash_filo::add *)
definition hf_add :: "('c, 'k) hash_api \<Rightarrow> 'c hash_filo \<Rightarrow> nat \<Rightarrow> ('c hash_filo \<times> bool) option" where
  "hf_add api f entry =
     (if m_size f = 0 then Some (f, True)
      else Option.bind (if hash_records api (cache f) = m_size f then hf_evict api f else Some f) (\<lambda>f1.
        let (c, failed) = my_hash_insert api (cache f1) entry; f2 = f1\<lparr>cache := c\<rparr>
        in if failed then Some (if free_element f2 then f2\<lparr>freed := freed f2 @ [entry]\<rparr> else f2, True)
           else
             let f3 = f2\<lparr>prev_used := (prev_used f2)(entry := None)\<rparr>;
                 f4 = f3\<lparr>next_used := (next_used f3)(entry := first_link f3)\<rparr>;
                 f5 = (case first_link f4 of
                         Some q \<Rightarrow> f4\<lparr>prev_used := (prev_used f4)(q := Some entry)\<rparr>
                       | None \<Rightarrow> f4\<lparr>last_link := Some entry\<rparr>)
             in Some (f5\<lparr>first_link := Some entry\<rparr>, False)))"

(* @hash_filo.h 189-190 hash_filo::size *)
definition hf_size :: "'c hash_filo \<Rightarrow> uint" where
  "hf_size f = m_size f"

(* @hash_filo.h 192-198 hash_filo::resize *)
definition hf_resize :: "('c, 'k) hash_api \<Rightarrow> 'c hash_filo \<Rightarrow> uint \<Rightarrow> 'c hash_filo option" where
  "hf_resize api f new_size =
     Option.bind (mutex_lock f) (\<lambda>f1.
     Option.bind (hf_clear api (f1\<lparr>m_size := new_size\<rparr>) True) mutex_unlock)"

section \<open>The used-chain\<close>

definition chain :: "(nat \<Rightarrow> nat option) \<Rightarrow> (nat \<Rightarrow> nat option) \<Rightarrow> nat option \<Rightarrow> nat option \<Rightarrow> nat list \<Rightarrow> bool" where
  "chain nx pv fi la es \<longleftrightarrow> dseg nx pv Some Some None fi es None la \<and> distinct es"

lemma chain_Nil [simp]: "chain nx pv fi la [] \<longleftrightarrow> fi = None \<and> la = None"
  by (auto simp: chain_def)

lemma chain_first: "chain nx pv fi la es \<Longrightarrow> fi = (if es = [] then None else Some (hd es))"
  unfolding chain_def using dseg_start by fastforce

lemma chain_last: "chain nx pv fi la es \<Longrightarrow> la = (if es = [] then None else Some (last es))"
  unfolding chain_def using dseg_cell by fastforce

lemma chain_cons:
  assumes "chain nx pv fi la es" "e \<notin> set es"
    and "\<And>q. nx' q = (if q = e then fi else nx q)"
    and "\<And>q. pv' q = (if q = e then None else if fi = Some q then Some e else pv q)"
  shows "chain nx' pv' (Some e) (if es = [] then Some e else la) (e # es)"
proof (cases es)
  case (Cons p ps)
  have d: "dseg nx pv Some Some None fi (p # ps) None la" "p \<notin> set ps" "fi = Some p"
    using assms(1) chain_first [OF assms(1)] Cons by (auto simp: chain_def)
  have "dseg nx' pv' Some Some (Some e) fi (p # ps) None la"
    using assms(2) Cons d(3) by (intro dseg_reprev [OF d(1,2)]) (auto simp: assms(3,4))
  then show ?thesis using assms Cons by (simp add: chain_def)
qed (use assms in \<open>simp add: chain_def\<close>)

lemma chain_remove:
  assumes "chain nx pv fi la (as @ e # bs)" "as \<noteq> []"
    and "\<And>q. nx' q = (if q = last as then nx e else nx q)"
    and "\<And>q. pv' q = (if nx e = Some q then pv e else pv q)"
  shows "chain nx' pv' fi (if bs = [] then Some (last as) else la) (as @ bs)"
proof -
  have d: "distinct (as @ e # bs)" using assms(1) by (simp add: chain_def)
  obtain m where m: "dseg nx pv Some Some None fi as (Some e) m" "pv e = m" "dseg nx pv Some Some (Some e) (nx e) bs None la"
    using assms(1) by (auto simp: chain_def dseg_append)
  have mc: "m = Some (last as)" using dseg_cell [OF m(1)] assms(2) by simp
  have nx: "nx e = (if bs = [] then None else Some (hd bs))" using dseg_start [OF m(3)] .
  have hb: "bs \<noteq> [] \<Longrightarrow> hd bs \<notin> set as" using d hd_in_set [of bs] by auto
  have lb: "last as \<notin> set bs" using d assms(2) by (metis disjoint_iff distinct_append last_in_set list.set_intros(2))
  have "dseg nx' pv' Some Some None fi as (nx e) m"
    using d assms(2) nx hb by (intro dseg_relink [OF m(1)]) (auto simp: assms(3,4))
  moreover have "dseg nx' pv' Some Some m (nx e) bs None (if bs = [] then Some (last as) else la)"
  proof (cases bs)
    case (Cons b bs')
    have "dseg nx' pv' Some Some m (nx e) (b # bs') None la"
      using d Cons nx m(2) lb by (intro dseg_reprev [OF m(3) [unfolded Cons]]) (auto simp: assms(3,4))
    then show ?thesis using Cons by simp
  qed (use nx mc in simp)
  ultimately show ?thesis unfolding chain_def dseg_append using d by auto
qed

section \<open>What a cache represents\<close>

text \<open>The entries in the order of their last use, the most recent one first.\<close>

definition hf_rep :: "('c \<Rightarrow> nat set) \<Rightarrow> 'c hash_filo \<Rightarrow> nat list \<Rightarrow> bool" where
  "hf_rep ents f es \<longleftrightarrow> chain (next_used f) (prev_used f) (first_link f) (last_link f) es \<and>
     ents (cache f) = set es \<and> length es \<le> unat (m_size f)"

lemma chain_split:
  assumes "chain nx pv fi la (as @ e # bs)"
  shows "pv e = (if as = [] then None else Some (last as))" "nx e = (if bs = [] then None else Some (hd bs))"
proof -
  obtain m where m: "dseg nx pv Some Some None fi as (Some e) m" "pv e = m" "dseg nx pv Some Some (Some e) (nx e) bs None la"
    using assms by (auto simp: chain_def dseg_append)
  show "pv e = (if as = [] then None else Some (last as))" using dseg_cell [OF m(1)] m(2) by simp
  show "nx e = (if bs = [] then None else Some (hd bs))" using dseg_start [OF m(3)] .
qed

lemma hf_unlink_chain:
  assumes "chain (next_used f) (prev_used f) (first_link f) (last_link f) (as @ e # bs)" "as \<noteq> []"
  shows "\<exists>g. hf_unlink f e = Some g \<and> first_link g = first_link f \<and> cache g = cache f \<and> m_size g = m_size f \<and>
    init g = init f \<and> lock g = lock f \<and>
    chain (next_used g) (prev_used g) (first_link g) (last_link g) (as @ bs)"
proof -
  note sp = chain_split [OF assms(1)]
  have l: "last_link f = Some (last (e # bs))" using chain_last [OF assms(1)] by simp
  have d: "distinct (as @ e # bs)" using assms(1) by (simp add: chain_def)
  note cr = chain_remove [OF assms]
  show ?thesis
  proof (cases "bs = []")
    case True
    then show ?thesis
      using sp assms(2) l cr [of "(next_used f)(last as := None)" "prev_used f"] by (simp add: hf_unlink_def)
  next
    case False
    have n: "last_link f \<noteq> Some e" "hd bs \<noteq> e" using l d False last_in_set [of bs] hd_in_set [of bs] by auto
    show ?thesis
      using sp assms(2) False n
        cr [of "(next_used f)(last as := Some (hd bs))" "(prev_used f)(hd bs := Some (last as))"]
      by (simp add: hf_unlink_def Let_def)
  qed
qed

lemma hf_search_rep:
  assumes "hash_laws api ents key" "hf_rep ents f es"
  shows "\<exists>g r. hf_search api f k = Some (g, r) \<and> m_size g = m_size f \<and> init g = init f \<and> lock g = lock f \<and>
    (case r of None \<Rightarrow> g = f \<and> (\<forall>e \<in> set es. key e \<noteq> k)
     | Some e \<Rightarrow> e \<in> set es \<and> key e = k \<and> hf_rep ents g (e # remove1 e es))"
proof (cases "my_hash_search api (cache f) k")
  case None
  then show ?thesis using assms by (auto simp: hf_search_def hash_laws_def hf_rep_def)
next
  case (Some e)
  have e: "e \<in> set es" "key e = k" using assms Some by (auto simp: hash_laws_def hf_rep_def)
  have c: "chain (next_used f) (prev_used f) (first_link f) (last_link f) es" "distinct es"
    using assms(2) by (auto simp: hf_rep_def chain_def)
  obtain as bs where es: "es = as @ e # bs" "e \<notin> set as" using e(1) split_list_first by metis
  show ?thesis
  proof (cases "as = []")
    case True
    then show ?thesis using Some e es assms(2) chain_first [OF c(1)] by (simp add: hf_search_def)
  next
    case False
    obtain g where g: "hf_unlink f e = Some g" "first_link g = first_link f" "cache g = cache f" "m_size g = m_size f"
      "init g = init f" "lock g = lock f" "chain (next_used g) (prev_used g) (first_link g) (last_link g) (as @ bs)"
      using hf_unlink_chain [OF c(1) [unfolded es(1)] False] by blast
    have f: "first_link f = Some (hd as)" "hd as \<noteq> e" "e \<notin> set (as @ bs)" using chain_first [OF c(1)] False es c(2) by auto
    have "chain ((next_used g)(e := Some (hd as))) ((prev_used g)(e := None, hd as := Some e)) (Some e) (last_link g) (e # as @ bs)"
      using chain_cons [OF g(7) f(3), of "(next_used g)(e := Some (hd as))" "(prev_used g)(e := None, hd as := Some e)"]
        f g(2) False by auto
    then show ?thesis using Some f g e es assms(2) False
      by (auto simp: hf_search_def Let_def hf_rep_def remove1_append)
  qed
qed

lemma hf_evict_rep:
  assumes "hash_laws api ents key" "hf_rep ents f es" "es \<noteq> []"
  shows "\<exists>g. hf_evict api f = Some g \<and> m_size g = m_size f \<and> init g = init f \<and> lock g = lock f \<and>
    hf_rep ents g (butlast es)"
proof -
  obtain as e where es: "es = as @ [e]" using assms(3) by (metis rev_exhaust)
  have c: "chain (next_used f) (prev_used f) (first_link f) (last_link f) (as @ [e])" "distinct (as @ [e])"
    "ents (cache f) = set (as @ [e])" "length (as @ [e]) \<le> unat (m_size f)"
    using assms(2) es by (auto simp: hf_rep_def chain_def)
  have l: "last_link f = Some e" "prev_used f e = (if as = [] then None else Some (last as))" "next_used f e = None"
    using chain_last [OF c(1)] chain_split [OF c(1)] by auto
  have "ents (my_hash_delete api (cache f) e) = set as" using assms(1) c(2,3) by (auto simp: hash_laws_def)
  moreover have "as \<noteq> [] \<Longrightarrow>
      chain ((next_used f)(last as := None)) (prev_used f) (first_link f) (Some (last as)) as"
    using chain_remove [OF c(1), of "(next_used f)(last as := None)" "prev_used f"] l(3) by simp
  ultimately show ?thesis using l es c(4) by (cases "as = []") (simp_all add: hf_evict_def Let_def hf_rep_def)
qed

text \<open>The entries kept when a new one comes.\<close>

definition lru_keep :: "uint \<Rightarrow> nat list \<Rightarrow> nat list" where
  "lru_keep n es = (if length es = unat n then butlast es else es)"

lemma set_lru_keep: "set (lru_keep n es) \<subseteq> set es"
  by (auto simp: lru_keep_def dest: in_set_butlastD)

lemma hf_room_rep:
  assumes "hash_laws api ents key" "hf_rep ents f es" "m_size f \<noteq> 0"
  shows "\<exists>g. (if hash_records api (cache f) = m_size f then hf_evict api f else Some f) = Some g \<and>
    m_size g = m_size f \<and> init g = init f \<and> lock g = lock f \<and> hf_rep ents g (lru_keep (m_size f) es) \<and>
    length (lru_keep (m_size f) es) < unat (m_size f)"
proof -
  have d: "distinct es" "length es \<le> unat (m_size f)" using assms(2) by (auto simp: hf_rep_def chain_def)
  have u: "0 < unat (m_size f)" "unat (m_size f) < 2 ^ 32" using assms(3) unsigned_less [of "m_size f"]
    by (auto simp: unsigned_greater_eq zero_less_iff_neq_zero unat_eq_zero)
  have "hash_records api (cache f) = of_nat (length es)"
    using assms(1,2) distinct_card [OF d(1)] by (simp add: hash_laws_def hf_rep_def)
  moreover have "unat (of_nat (length es) :: uint) = length es"
    using d(2) u(2) by (simp add: unsigned_of_nat take_bit_nat_eq_self)
  ultimately have r: "hash_records api (cache f) = m_size f \<longleftrightarrow> length es = unat (m_size f)" by (metis unsigned_word_eqI)
  show ?thesis
  proof (cases "length es = unat (m_size f)")
    case True
    then have "es \<noteq> []" using u by auto
    then show ?thesis using hf_evict_rep [OF assms(1,2)] r True u by (auto simp: lru_keep_def)
  qed (use r d(2) assms(2) in \<open>auto simp: lru_keep_def\<close>)
qed

lemma hf_add_rep:
  assumes "hash_laws api ents key" "hf_rep ents f es" "m_size f \<noteq> 0" "e \<notin> set es"
  shows "\<exists>g failed. hf_add api f e = Some (g, failed) \<and> m_size g = m_size f \<and> init g = init f \<and> lock g = lock f \<and>
    hf_rep ents g (if failed then lru_keep (m_size f) es else e # lru_keep (m_size f) es)"
proof -
  let ?k = "lru_keep (m_size f) es"
  obtain g where g: "(if hash_records api (cache f) = m_size f then hf_evict api f else Some f) = Some g"
    "m_size g = m_size f" "init g = init f" "lock g = lock f" "hf_rep ents g ?k" "length ?k < unat (m_size f)"
    using hf_room_rep [OF assms(1-3)] by blast
  obtain c failed where i: "my_hash_insert api (cache g) e = (c, failed)" by fastforce
  have ek: "e \<notin> set ?k" using set_lru_keep assms(4) by blast
  have ch: "chain (next_used g) (prev_used g) (first_link g) (last_link g) ?k" and en: "ents (cache g) = set ?k"
    using g(5) by (auto simp: hf_rep_def)
  have ec: "ents c = (if failed then set ?k else insert e (set ?k))"
    using assms(1) i en ek unfolding hash_laws_def by (metis fst_conv snd_conv)
  note fi = chain_first [OF ch]
  show ?thesis
  proof (cases failed)
    case True
    let ?h = "if free_element g then g\<lparr>cache := c, freed := freed g @ [e]\<rparr> else g\<lparr>cache := c\<rparr>"
    have "hf_add api f e = Some (?h, True)" using g(1) i True assms(3) by (simp add: hf_add_def Let_def)
    moreover have "hf_rep ents ?h ?k" using ch ec True g(2,6) by (simp add: hf_rep_def)
    ultimately show ?thesis using g(2-4) by (intro exI [of _ ?h] exI [of _ True]) simp
  next
    case False
    note cc = chain_cons [OF ch ek]
    show ?thesis
    proof (cases "?k = []")
      case True
      let ?h = "g\<lparr>cache := c, prev_used := (prev_used g)(e := None), next_used := (next_used g)(e := None),
        last_link := Some e, first_link := Some e\<rparr>"
      have fn: "first_link g = None" using fi True by simp
      have "hf_add api f e = Some (?h, False)" using g(1) i False assms(3) fn by (simp add: hf_add_def Let_def)
      moreover have "hf_rep ents ?h (e # ?k)"
        using True False g(2,6) ec fn cc [of "(next_used g)(e := None)" "(prev_used g)(e := None)"] by (simp add: hf_rep_def)
      ultimately show ?thesis using g(2-4) by (intro exI [of _ ?h] exI [of _ False]) simp
    next
      case nonempty: False
      let ?nx = "(next_used g)(e := Some (hd ?k))" and ?pv = "(prev_used g)(e := None, hd ?k := Some e)"
      let ?h = "g\<lparr>cache := c, prev_used := ?pv, next_used := ?nx, first_link := Some e\<rparr>"
      have q: "first_link g = Some (hd ?k)" "hd ?k \<noteq> e" using fi nonempty ek by auto
      have "hf_add api f e = Some (?h, False)" using g(1) i False assms(3) q by (simp add: hf_add_def Let_def)
      moreover have "chain ?nx ?pv (Some e) (last_link g) (e # ?k)" using cc [of ?nx ?pv] q nonempty by auto
      then have "hf_rep ents ?h (e # ?k)" using False g(2,6) ec by (simp add: hf_rep_def)
      ultimately show ?thesis using g(2-4) by (intro exI [of _ ?h] exI [of _ False]) simp
    qed
  qed
qed

lemmas hf_lock_defs = hf_clear_def hf_resize_def mutex_lock_def mutex_unlock_def Let_def

lemma hf_clear_rep:
  assumes "hash_laws api ents key" "hf_clear api f locked = Some g"
  shows "hf_rep ents g [] \<and> m_size g = m_size f \<and> init g \<and> (init f \<and> locked \<longrightarrow> lock g = lock f) \<and>
    (\<not> locked \<longrightarrow> lock g = Unlocked)"
  using assms by (auto simp: hf_lock_defs hf_rep_def hash_laws_def split: if_splits bind_splits)

lemma hf_resize_rep:
  assumes "hash_laws api ents key" "hf_resize api f n = Some g" "init f"
  shows "hf_rep ents g [] \<and> m_size g = n \<and> init g \<and> lock g = Unlocked"
  using assms by (auto simp: hf_lock_defs hf_rep_def hash_laws_def split: if_splits)

section \<open>Clients of the cache\<close>

text \<open>
  What clients can call. \<open>hf_exec\<close> runs one call in any state, without regard to any rule; \<open>None\<close> is
  undefined behaviour or a thread that waits for itself.
\<close>

datatype 'k filo_op = Lock | Unlock | Search 'k | Add nat | Clear bool | Resize uint

fun hf_exec :: "('c, 'k) hash_api \<Rightarrow> 'c hash_filo \<Rightarrow> 'k filo_op \<Rightarrow> 'c hash_filo option" where
  "hf_exec api f Lock = mutex_lock f"
| "hf_exec api f Unlock = mutex_unlock f"
| "hf_exec api f (Search k) = map_option fst (hf_search api f k)"
| "hf_exec api f (Add e) = map_option fst (hf_add api f e)"
| "hf_exec api f (Clear locked) = hf_clear api f locked"
| "hf_exec api f (Resize n) = hf_resize api f n"

fun hf_runs :: "('c, 'k) hash_api \<Rightarrow> 'c hash_filo \<Rightarrow> 'k filo_op list \<Rightarrow> 'c hash_filo option" where
  "hf_runs api f [] = Some f"
| "hf_runs api f (p # ps) = Option.bind (hf_exec api f p) (\<lambda>g. hf_runs api g ps)"

text \<open>
  The rules for clients: the mutex is taken when it is free and given back when it is held; \<open>search\<close> (which
  asserts it) and \<open>add\<close> are called with the mutex held, and \<open>add\<close> with an entry that is not in the cache;
  the argument of \<open>clear\<close> says truthfully whether the mutex is held; \<open>resize\<close> is called when it is free.
  A new object has no mutex yet, so the first call can only be \<open>clear\<close>.
\<close>

fun permitted :: "('c \<Rightarrow> nat set) \<Rightarrow> 'c hash_filo \<Rightarrow> 'k filo_op \<Rightarrow> bool" where
  "permitted ents f Lock = (lock f = Unlocked)"
| "permitted ents f Unlock = (lock f = Locked)"
| "permitted ents f (Search k) = (lock f = Locked)"
| "permitted ents f (Add e) = (lock f = Locked \<and> e \<notin> ents (cache f))"
| "permitted ents f (Clear locked) = (locked = (lock f = Locked))"
| "permitted ents f (Resize n) = (lock f = Unlocked)"

fun follows :: "('c, 'k) hash_api \<Rightarrow> ('c \<Rightarrow> nat set) \<Rightarrow> 'c hash_filo \<Rightarrow> 'k filo_op list \<Rightarrow> bool" where
  "follows api ents f [] = True"
| "follows api ents f (p # ps) =
     (permitted ents f p \<and> (case hf_exec api f p of None \<Rightarrow> True | Some g \<Rightarrow> follows api ents g ps))"

definition hf_inv :: "('c \<Rightarrow> nat set) \<Rightarrow> 'c hash_filo \<Rightarrow> bool" where
  "hf_inv ents f \<longleftrightarrow> (\<exists>es. hf_rep ents f es) \<and> init f \<and> lock f \<noteq> Uninitialized"

text \<open>Before the first call.\<close>

definition hf_fresh :: "'c hash_filo \<Rightarrow> bool" where
  "hf_fresh f \<longleftrightarrow> \<not> init f \<and> lock f = Uninitialized"

lemma hf_add_total:
  assumes "hash_laws api ents key" "hf_rep ents f es" "e \<notin> set es"
  shows "\<exists>g b es'. hf_add api f e = Some (g, b) \<and> hf_rep ents g es' \<and> init g = init f \<and> lock g = lock f"
proof (cases "m_size f = 0")
  case True
  then show ?thesis using assms(2) by (auto simp: hf_add_def)
next
  case False
  then show ?thesis using hf_add_rep [OF assms(1,2) _ assms(3)] by blast
qed

lemma hf_exec_fresh:
  assumes "hash_laws api ents key" "hf_fresh f" "permitted ents f p"
  shows "\<exists>g. hf_exec api f p = Some g \<and> hf_inv ents g"
proof -
  have p: "p = Clear False" using assms(2,3) by (cases p) (auto simp: hf_fresh_def)
  then obtain g where g: "hf_clear api f False = Some g" using assms(2) by (auto simp: hf_fresh_def hf_lock_defs)
  then show ?thesis using hf_clear_rep [OF assms(1) g] p by (auto simp: hf_inv_def)
qed

lemma hf_exec_inv:
  assumes laws: "hash_laws api ents key" and "hf_inv ents f" "permitted ents f p"
  shows "\<exists>g. hf_exec api f p = Some g \<and> hf_inv ents g"
proof -
  obtain es where es: "hf_rep ents f es" and i: "init f" "lock f \<noteq> Uninitialized"
    using assms(2) by (auto simp: hf_inv_def)
  show ?thesis
  proof (cases p)
    case (Search k)
    then show ?thesis using hf_search_rep [OF laws es, of k] es i
      by (auto simp: hf_inv_def split: option.splits)
  next
    case (Add e)
    then have "e \<notin> set es" using assms(3) es by (simp add: hf_rep_def)
    then show ?thesis using hf_add_total [OF laws es] Add i by (fastforce simp: hf_inv_def)
  next
    case (Clear locked)
    have "hf_clear api f locked \<noteq> None" using Clear assms(3) i by (cases "lock f") (auto simp: hf_lock_defs)
    then obtain g where g: "hf_clear api f locked = Some g" by blast
    then show ?thesis using hf_clear_rep [OF laws g] Clear assms(3) i by (auto simp: hf_inv_def)
  next
    case (Resize n)
    have "hf_resize api f n \<noteq> None" using Resize assms(3) i by (simp add: hf_lock_defs)
    then obtain g where g: "hf_resize api f n = Some g" by blast
    then show ?thesis using hf_resize_rep [OF laws g i(1)] Resize by (auto simp: hf_inv_def)
  qed (use assms(3) es i in \<open>auto simp: hf_inv_def mutex_lock_def mutex_unlock_def hf_rep_def\<close>)
qed

lemma hf_runs_inv:
  assumes "hash_laws api ents key" "hf_inv ents f \<or> hf_fresh f" "follows api ents f ps"
  shows "\<exists>g. hf_runs api f ps = Some g \<and> (hf_inv ents g \<or> ps = [] \<and> g = f)"
  using assms(2,3)
proof (induction ps arbitrary: f)
  case (Cons p ps)
  then obtain g where g: "hf_exec api f p = Some g" "hf_inv ents g"
    using hf_exec_inv [OF assms(1)] hf_exec_fresh [OF assms(1)] by (metis follows.simps(2))
  then obtain h where "hf_runs api g ps = Some h" "hf_inv ents h"
    using Cons.IH [of g] Cons.prems(2) by auto
  then show ?case using g by simp
qed simp

text \<open>An entry that is added while it is the first of the chain becomes its own successor.\<close>

lemma hf_add_twice:
  assumes "hf_rep ents f (e # es)" "m_size f \<noteq> 0" "hash_records api (cache f) \<noteq> m_size f"
    "\<not> snd (my_hash_insert api (cache f) e)"
  shows "\<exists>g. hf_add api f e = Some (g, False) \<and> next_used g e = Some e \<and> first_link g = Some e \<and> (\<forall>es'. \<not> hf_rep ents g es')"
proof -
  have fl: "first_link f = Some e" using assms(1) chain_first by (fastforce simp: hf_rep_def)
  obtain g where g: "hf_add api f e = Some (g, False)" "next_used g e = Some e" "first_link g = Some e"
    using assms(2-4) fl by (cases "my_hash_insert api (cache f) e") (simp add: hf_add_def Let_def)
  have False if "hf_rep ents g es'" for es'
  proof -
    have c: "chain (next_used g) (prev_used g) (first_link g) (last_link g) es'" using that by (simp add: hf_rep_def)
    then obtain xs where xs: "es' = e # xs" using chain_first [OF c] g(3) by (cases es') auto
    have "next_used g e = (if xs = [] then None else Some (hd xs))"
      using chain_split(2) [of _ _ _ _ "[]" e xs] c xs by simp
    then have "e \<in> set xs" using g(2) hd_in_set [of xs] by (auto split: if_splits)
    then show False using c xs by (simp add: chain_def)
  qed
  then show ?thesis using g by blast
qed

section \<open>A table for the examples\<close>

definition list_hash :: "(nat list, nat) hash_api" where
  "list_hash = \<lparr>my_hash_search = (\<lambda>c k. if k \<in> set c then Some k else None),
     my_hash_insert = (\<lambda>c e. (List.insert e c, False)), my_hash_delete = (\<lambda>c e. removeAll e c),
     my_hash_free = (\<lambda>c. []), my_hash_init = (\<lambda>c n. []),
     hash_records = (\<lambda>c. of_nat (length (remdups c))), hash_buffer = (\<lambda>c. True)\<rparr>"

lemma list_hash_laws: "hash_laws list_hash set id"
  by (auto simp: hash_laws_def list_hash_def length_remdups_card_conv)

definition ex_filo :: "nat list hash_filo" where
  "ex_filo = \<lparr>m_size = 2, free_element = True, init = True, first_link = Some 5, last_link = Some 6,
     lock = Locked, cache = [5, 6], next_used = (\<lambda>_. None)(5 := Some 6), prev_used = (\<lambda>_. None)(6 := Some 5),
     freed = []\<rparr>"

lemma ex_filo_rep: "hf_rep set ex_filo [5, 6]"
  by (simp add: hf_rep_def ex_filo_def chain_def)

section \<open>Properties\<close>

text \<open>C7: The cache is a list of entries in the order of their last use. A search finds an entry with the
  key exactly when the list has one and moves it to the front; a new entry goes to the front, and when
  the cache is full the entry at the end, and no other, makes room for it.\<close>

theorem hash_filo_lru:
  assumes "hash_laws api ents key" "hf_rep ents f es" "m_size f \<noteq> 0" "e \<notin> set es"
  shows "(\<exists>g r. hf_search api f k = Some (g, r) \<and>
      (case r of None \<Rightarrow> g = f \<and> (\<forall>e \<in> set es. key e \<noteq> k)
       | Some e' \<Rightarrow> e' \<in> set es \<and> key e' = k \<and> hf_rep ents g (e' # remove1 e' es) \<and> hf_first g = Some e')) \<and>
    (\<exists>g failed. hf_add api f e = Some (g, failed) \<and>
      hf_rep ents g ((if failed then [] else [e]) @ (if length es = unat (hf_size f) then butlast es else es)) \<and>
      (\<not> failed \<longrightarrow> hf_first g = Some e))"
proof -
  have first: "hf_first g = Some x" if "hf_rep ents g (x # xs)" for g x xs
    using that chain_first by (fastforce simp: hf_rep_def hf_first_def)
  obtain g r where "hf_search api f k = Some (g, r)"
    "case r of None \<Rightarrow> g = f \<and> (\<forall>e \<in> set es. key e \<noteq> k)
     | Some e \<Rightarrow> e \<in> set es \<and> key e = k \<and> hf_rep ents g (e # remove1 e es)"
    using hf_search_rep [OF assms(1,2)] by blast
  moreover obtain g' failed where "hf_add api f e = Some (g', failed)"
    "hf_rep ents g' (if failed then lru_keep (m_size f) es else e # lru_keep (m_size f) es)"
    using hf_add_rep [OF assms] by blast
  ultimately show ?thesis using first by (cases r; cases failed) (auto simp: lru_keep_def hf_size_def)
qed

theorem hash_filo_lru_witness:
  "\<exists>g failed. hf_add list_hash ex_filo 7 = Some (g, failed) \<and> hf_rep set g ((if failed then [] else [7]) @ [5])"
proof -
  have p: "m_size ex_filo \<noteq> 0" "(7::nat) \<notin> set [5, 6]" "butlast [5, 6 :: nat] = [5]"
    "length [5, 6 :: nat] = unat (hf_size ex_filo)" by (simp_all add: ex_filo_def hf_size_def)
  from hash_filo_lru [OF list_hash_laws ex_filo_rep p(1,2), of 0, unfolded p(3) if_P [OF p(4)]] show ?thesis by blast
qed

text \<open>C6: Clients that follow the rules are safe: any sequence of calls on a new object in which the first call
  is \<open>clear\<close>, \<open>search\<close> and \<open>add\<close> run under the mutex, only entries that are not in the cache are added and
  \<open>clear\<close> is told truthfully whether the mutex is held, runs to its end without undefined behaviour or a
  deadlock, and after it the cache holds no more entries than its size and the used-chain exactly the
  entries of the hash table. The rules are needed: a resize before the first \<open>clear\<close> uses a mutex that is
  not initialised, an untruthful \<open>clear\<close> waits for its own thread, and adding the first entry of the
  chain once more makes it its own successor, so that the chain has no end.\<close>

theorem hash_filo_safe:
  assumes "hash_laws api ents key" "follows api ents (hf_new zero n fr nx pv) ops"
  shows "(\<exists>f. hf_runs api (hf_new zero n fr nx pv) ops = Some f \<and>
      (ops \<noteq> [] \<longrightarrow> card (ents (cache f)) \<le> unat (hf_size f) \<and>
        (\<exists>es. chain (next_used f) (prev_used f) (hf_first f) (hf_last f) es \<and> set es = ents (cache f)))) \<and>
    hf_exec api (hf_new zero n fr nx pv) (Resize n') = None \<and>
    (init g \<and> lock g = Locked \<longrightarrow> hf_exec api g (Clear False) = None \<and> hf_exec api g (Resize n') = None) \<and>
    (hf_rep ents g (e # es) \<and> m_size g \<noteq> 0 \<and> hash_records api (cache g) \<noteq> m_size g \<and>
        \<not> snd (my_hash_insert api (cache g) e) \<longrightarrow>
      (\<exists>h. hf_exec api g (Add e) = Some h \<and> next_used h e = Some e \<and> (\<forall>es'. \<not> hf_rep ents h es')))"
proof (intro conjI impI)
  let ?f = "hf_new zero n fr nx pv"
  have "hf_fresh ?f" by (simp add: hf_fresh_def hf_new_def)
  then obtain f where f: "hf_runs api ?f ops = Some f" "hf_inv ents f \<or> ops = []"
    using hf_runs_inv [OF assms(1) _ assms(2)] by blast
  have "card (ents (cache f)) \<le> unat (hf_size f) \<and>
        (\<exists>es. chain (next_used f) (prev_used f) (hf_first f) (hf_last f) es \<and> set es = ents (cache f))" if ne: "ops \<noteq> []"
  proof -
    obtain es where es: "hf_rep ents f es" using f(2) ne by (auto simp: hf_inv_def)
    then show ?thesis using card_length [of es] by (auto simp: hf_rep_def hf_size_def hf_first_def hf_last_def)
  qed
  then show "\<exists>f. hf_runs api ?f ops = Some f \<and>
      (ops \<noteq> [] \<longrightarrow> card (ents (cache f)) \<le> unat (hf_size f) \<and>
        (\<exists>es. chain (next_used f) (prev_used f) (hf_first f) (hf_last f) es \<and> set es = ents (cache f)))"
    using f(1) by blast
  show "hf_exec api ?f (Resize n') = None" by (simp add: hf_lock_defs hf_new_def)
  show "hf_exec api g (Clear False) = None" "hf_exec api g (Resize n') = None" if "init g \<and> lock g = Locked"
    using that by (simp_all add: hf_lock_defs)
  assume a: "hf_rep ents g (e # es) \<and> m_size g \<noteq> 0 \<and> hash_records api (cache g) \<noteq> m_size g \<and>
        \<not> snd (my_hash_insert api (cache g) e)"
  show "\<exists>h. hf_exec api g (Add e) = Some h \<and> next_used h e = Some e \<and> (\<forall>es'. \<not> hf_rep ents h es')"
    using hf_add_twice [of ents g e es api] a by auto
qed

text \<open>Three entries are added to a cache of size two, after a search for the first one.\<close>

definition ex_ops :: "nat filo_op list" where
  "ex_ops = [Clear False, Lock, Add 5, Add 6, Search 5, Add 7, Clear True, Add 6, Unlock, Resize 1, Lock, Add 8]"

theorem hash_filo_safe_witness:
  "follows list_hash set (hf_new [] 2 True (\<lambda>_. None) (\<lambda>_. None)) ex_ops \<and>
   (\<exists>f. hf_runs list_hash (hf_new [] 2 True (\<lambda>_. None) (\<lambda>_. None)) ex_ops = Some f \<and> card (set (cache f)) \<le> unat (hf_size f) \<and>
     (\<exists>es. chain (next_used f) (prev_used f) (hf_first f) (hf_last f) es \<and> set es = set (cache f))) \<and>
   hf_exec list_hash ex_filo (Clear False) = None"
proof -
  have fo: "follows list_hash set (hf_new [] 2 True (\<lambda>_. None) (\<lambda>_. None)) ex_ops"
    by (simp add: ex_ops_def hf_new_def hf_lock_defs hf_add_def hf_search_def hf_unlink_def hf_evict_def list_hash_def)
  have "ex_ops \<noteq> []" "init ex_filo \<and> lock ex_filo = Locked" by (simp_all add: ex_ops_def ex_filo_def)
  then show ?thesis using fo hash_filo_safe [OF list_hash_laws fo, of 1 ex_filo 0 "[]"] by simp
qed

text \<open>A cache of size 0 takes no entry. Changing the size of a cache that was never cleared uses a mutex
  that is not initialised, and clearing a cache without saying so while holding its mutex waits forever.\<close>

theorem hash_filo_errors:
  "(m_size f = 0 \<longrightarrow> hf_add api f e = Some (f, True)) \<and>
   hf_resize api (hf_new zero n fr nx pv) n' = None \<and>
   (init f \<and> lock f = Locked \<longrightarrow> hf_clear api f False = None \<and> hf_resize api f n' = None)"
  by (simp add: hf_add_def hf_lock_defs hf_new_def)

theorem hash_filo_errors_witness: "hf_clear list_hash ex_filo False = None"
  using hash_filo_errors [of ex_filo list_hash 1 "[]" 1 True "\<lambda>_. None" "\<lambda>_. None" 3] by (simp add: ex_filo_def)

end
