(* ===== verification/Lifo_Buffer.thy ===== *)
theory Lifo_Buffer
  imports Prelude Containers
begin

text \<open>
  The last-in-first-out buffers of \<^verbatim>\<open>sql_lifo_buffer.h\<close>: elements of a fixed size, single byte
  strings or pairs, are stacked in memory that the caller provides, upward by \<open>Forward_lifo_buffer\<close>
  and downward by \<open>Backward_lifo_buffer\<close>. Memory is a function from addresses to bytes; addresses are
  unbounded integers, sizes are 64-bit words. The result \<open>None\<close> is undefined behaviour: a null pointer
  that is copied from, copying between overlapping areas, a division by zero. The trash fill of the
  debug build is not modelled.
\<close>

section \<open>Memory\<close>

type_synonym memory = "int \<Rightarrow> uchar"

definition bytes :: "memory \<Rightarrow> int \<Rightarrow> nat \<Rightarrow> uchar list" where
  "bytes m a n = map (\<lambda>i. m (a + int i)) [0..<n]"

definition memcpy :: "memory \<Rightarrow> int \<Rightarrow> int option \<Rightarrow> nat \<Rightarrow> memory option" where
  "memcpy m dst src n = (if n = 0 then Some m else case src of
     None \<Rightarrow> None
   | Some s \<Rightarrow> if \<bar>dst - s\<bar> < int n then None
               else Some (\<lambda>a. if dst \<le> a \<and> a < dst + int n then m (s + (a - dst)) else m a))"

section \<open>The base class\<close>

(* @sql_lifo_buffer.h 72-75 Lifo_buffer::enum_direction *)
datatype enum_direction = BACKWARD | FORWARD

text \<open>The class of an object decides the virtual calls; it is a field of the record.\<close>

(* @sql_lifo_buffer.h 44-69 Lifo_buffer *)
record lifo_buffer =
  lb_class :: enum_direction
  size1 :: "64 word"
  size2 :: "64 word"
  write_ptr1 :: "int option"
  write_ptr2 :: "int option"
  read_ptr1 :: int
  read_ptr2 :: int
  start :: int
  bend :: int
  pos :: int

section \<open>Forward buffer\<close>

(* @sql_lifo_buffer.h 166-169 Forward_lifo_buffer::used_size *)
definition fl_used_size :: "lifo_buffer \<Rightarrow> 64 word" where
  "fl_used_size b = word_of_int (pos b - start b)"

(* @sql_lifo_buffer.h 170-173 Forward_lifo_buffer::reset *)
definition fl_reset :: "lifo_buffer \<Rightarrow> lifo_buffer" where
  "fl_reset b = b\<lparr>pos := start b\<rparr>"

(* @sql_lifo_buffer.h 174-174 Forward_lifo_buffer::end_of_space *)
definition fl_end_of_space :: "lifo_buffer \<Rightarrow> int" where
  "fl_end_of_space b = pos b"

(* @sql_lifo_buffer.h 175-178 Forward_lifo_buffer::have_space_for *)
definition fl_have_space_for :: "lifo_buffer \<Rightarrow> 64 word \<Rightarrow> bool" where
  "fl_have_space_for b n \<longleftrightarrow> pos b + int (unat n) < bend b"

(* @sql_lifo_buffer.h 186-191 Forward_lifo_buffer::write_bytes *)
definition fl_write_bytes :: "memory \<Rightarrow> lifo_buffer \<Rightarrow> int option \<Rightarrow> 64 word \<Rightarrow> (memory \<times> lifo_buffer) option" where
  "fl_write_bytes m b data n =
     Option.bind (memcpy m (pos b) data (unat n)) (\<lambda>m'. Some (m', b\<lparr>pos := pos b + int (unat n)\<rparr>))"

(* @sql_lifo_buffer.h 180-185 Forward_lifo_buffer::write *)
definition fl_write :: "memory \<Rightarrow> lifo_buffer \<Rightarrow> (memory \<times> lifo_buffer) option" where
  "fl_write m b =
     Option.bind (fl_write_bytes m b (write_ptr1 b) (size1 b)) (\<lambda>(m1, b1).
     if size2 b1 \<noteq> 0 then fl_write_bytes m1 b1 (write_ptr2 b1) (size2 b1) else Some (m1, b1))"

(* @sql_lifo_buffer.h 192-195 Forward_lifo_buffer::have_data *)
definition fl_have_data :: "lifo_buffer \<Rightarrow> int \<Rightarrow> 64 word \<Rightarrow> bool" where
  "fl_have_data b position n \<longleftrightarrow> position - start b \<ge> sint n"

(* @sql_lifo_buffer.h 196-201 Forward_lifo_buffer::read_bytes *)
definition fl_read_bytes :: "int \<Rightarrow> 64 word \<Rightarrow> int \<times> int" where
  "fl_read_bytes position n = (let position' = position - int (unat n) in (position', position'))"

text \<open>
  Reading moves a position and stores one or two pointers; the result is the position, the pointers
  and whether the end was reached.
\<close>

(* @sql_lifo_buffer.h 203-211 Forward_lifo_buffer::read *)
definition fl_read_at :: "lifo_buffer \<Rightarrow> int \<Rightarrow> int \<Rightarrow> int \<Rightarrow> int \<times> int \<times> int \<times> bool" where
  "fl_read_at b position ptr1 ptr2 =
     (if \<not> fl_have_data b position (size1 b + size2 b) then (position, ptr1, ptr2, True)
      else
        let (position1, ptr2') = (if size2 b \<noteq> 0 then fl_read_bytes position (size2 b) else (position, ptr2));
            (position2, ptr1') = fl_read_bytes position1 (size1 b)
        in (position2, ptr1', ptr2', False))"

(* @sql_lifo_buffer.h 202-202 Forward_lifo_buffer::read *)
definition fl_read :: "lifo_buffer \<Rightarrow> lifo_buffer \<times> bool" where
  "fl_read b = (let (p, r1, r2, eof) = fl_read_at b (pos b) (read_ptr1 b) (read_ptr2 b)
                in (b\<lparr>pos := p, read_ptr1 := r1, read_ptr2 := r2\<rparr>, eof))"

(* @sql_lifo_buffer.h 223-229 Forward_lifo_buffer::grow *)
definition fl_grow :: "lifo_buffer \<Rightarrow> int \<Rightarrow> int \<Rightarrow> lifo_buffer" where
  "fl_grow b unused_start unused_end = b\<lparr>bend := unused_end\<rparr>"

(* @sql_lifo_buffer.h 231-231 Forward_lifo_buffer::used_area *)
definition fl_used_area :: "lifo_buffer \<Rightarrow> int" where
  "fl_used_area b = start b"

section \<open>Backward buffer\<close>

(* @sql_lifo_buffer.h 259-262 Backward_lifo_buffer::used_size *)
definition bl_used_size :: "lifo_buffer \<Rightarrow> 64 word" where
  "bl_used_size b = word_of_int (bend b - pos b)"

(* @sql_lifo_buffer.h 263-266 Backward_lifo_buffer::reset *)
definition bl_reset :: "lifo_buffer \<Rightarrow> lifo_buffer" where
  "bl_reset b = b\<lparr>pos := bend b\<rparr>"

(* @sql_lifo_buffer.h 267-267 Backward_lifo_buffer::end_of_space *)
definition bl_end_of_space :: "lifo_buffer \<Rightarrow> int" where
  "bl_end_of_space b = bend b"

(* @sql_lifo_buffer.h 268-271 Backward_lifo_buffer::have_space_for *)
definition bl_have_space_for :: "lifo_buffer \<Rightarrow> 64 word \<Rightarrow> bool" where
  "bl_have_space_for b n \<longleftrightarrow> pos b - int (unat n) \<ge> start b"

(* @sql_lifo_buffer.h 278-283 Backward_lifo_buffer::write_bytes *)
definition bl_write_bytes :: "memory \<Rightarrow> lifo_buffer \<Rightarrow> int option \<Rightarrow> 64 word \<Rightarrow> (memory \<times> lifo_buffer) option" where
  "bl_write_bytes m b data n =
     (let b1 = b\<lparr>pos := pos b - int (unat n)\<rparr>
      in Option.bind (memcpy m (pos b1) data (unat n)) (\<lambda>m'. Some (m', b1)))"

(* @sql_lifo_buffer.h 272-277 Backward_lifo_buffer::write *)
definition bl_write :: "memory \<Rightarrow> lifo_buffer \<Rightarrow> (memory \<times> lifo_buffer) option" where
  "bl_write m b =
     Option.bind (if write_ptr2 b \<noteq> None then bl_write_bytes m b (write_ptr2 b) (size2 b) else Some (m, b))
       (\<lambda>(m1, b1). bl_write_bytes m1 b1 (write_ptr1 b1) (size1 b1))"

(* @sql_lifo_buffer.h 297-300 Backward_lifo_buffer::have_data *)
definition bl_have_data :: "lifo_buffer \<Rightarrow> int \<Rightarrow> 64 word \<Rightarrow> bool" where
  "bl_have_data b position n \<longleftrightarrow> bend b - position \<ge> sint n"

(* @sql_lifo_buffer.h 301-307 Backward_lifo_buffer::read_bytes *)
definition bl_read_bytes :: "int \<Rightarrow> 64 word \<Rightarrow> int \<times> int" where
  "bl_read_bytes position n = (let ret = position in (position + int (unat n), ret))"

(* @sql_lifo_buffer.h 288-296 Backward_lifo_buffer::read *)
definition bl_read_at :: "lifo_buffer \<Rightarrow> int \<Rightarrow> int \<Rightarrow> int \<Rightarrow> int \<times> int \<times> int \<times> bool" where
  "bl_read_at b position ptr1 ptr2 =
     (if \<not> bl_have_data b position (size1 b + size2 b) then (position, ptr1, ptr2, True)
      else
        let (position1, ptr1') = bl_read_bytes position (size1 b);
            (position2, ptr2') = (if size2 b \<noteq> 0 then bl_read_bytes position1 (size2 b) else (position1, ptr2))
        in (position2, ptr1', ptr2', False))"

(* @sql_lifo_buffer.h 284-287 Backward_lifo_buffer::read *)
definition bl_read :: "lifo_buffer \<Rightarrow> lifo_buffer \<times> bool" where
  "bl_read b = (let (p, r1, r2, eof) = bl_read_at b (pos b) (read_ptr1 b) (read_ptr2 b)
                in (b\<lparr>pos := p, read_ptr1 := r1, read_ptr2 := r2\<rparr>, eof))"

(* @sql_lifo_buffer.h 313-318 Backward_lifo_buffer::remove_unused_space *)
definition bl_remove_unused_space :: "lifo_buffer \<Rightarrow> lifo_buffer \<times> int \<times> int" where
  "bl_remove_unused_space b = (b\<lparr>start := pos b\<rparr>, start b, pos b)"

(* @sql_lifo_buffer.h 324-324 Backward_lifo_buffer::used_area *)
definition bl_used_area :: "lifo_buffer \<Rightarrow> int" where
  "bl_used_area b = pos b"

section \<open>Virtual calls and the operations of the base class\<close>

(* @sql_lifo_buffer.h 77-77 Lifo_buffer::type *)
definition lb_type :: "lifo_buffer \<Rightarrow> enum_direction" where
  "lb_type b = lb_class b"

(* @sql_lifo_buffer.h 115-115 Lifo_buffer::write *)
definition lb_write :: "memory \<Rightarrow> lifo_buffer \<Rightarrow> (memory \<times> lifo_buffer) option" where
  "lb_write m b = (case lb_class b of FORWARD \<Rightarrow> fl_write m b | BACKWARD \<Rightarrow> bl_write m b)"

(* @sql_lifo_buffer.h 118-118 Lifo_buffer::read *)
definition lb_read :: "lifo_buffer \<Rightarrow> lifo_buffer \<times> bool" where
  "lb_read b = (case lb_class b of FORWARD \<Rightarrow> fl_read b | BACKWARD \<Rightarrow> bl_read b)"

(* @sql_lifo_buffer.h 127-127 Lifo_buffer::reset *)
definition lb_reset :: "lifo_buffer \<Rightarrow> lifo_buffer" where
  "lb_reset b = (case lb_class b of FORWARD \<Rightarrow> fl_reset b | BACKWARD \<Rightarrow> bl_reset b)"

(* @sql_lifo_buffer.h 128-128 Lifo_buffer::end_of_space *)
definition lb_end_of_space :: "lifo_buffer \<Rightarrow> int" where
  "lb_end_of_space b = (case lb_class b of FORWARD \<Rightarrow> fl_end_of_space b | BACKWARD \<Rightarrow> bl_end_of_space b)"

(* @sql_lifo_buffer.h 130-130 Lifo_buffer::used_size *)
definition lb_used_size :: "lifo_buffer \<Rightarrow> 64 word" where
  "lb_used_size b = (case lb_class b of FORWARD \<Rightarrow> fl_used_size b | BACKWARD \<Rightarrow> bl_used_size b)"

(* @sql_lifo_buffer.h 132-134 Lifo_buffer::read *)
definition lb_read_at :: "lifo_buffer \<Rightarrow> int \<Rightarrow> int \<Rightarrow> int \<Rightarrow> int \<times> int \<times> int \<times> bool" where
  "lb_read_at b = (case lb_class b of FORWARD \<Rightarrow> fl_read_at b | BACKWARD \<Rightarrow> bl_read_at b)"

(* @sql_lifo_buffer.h 137-137 Lifo_buffer::have_space_for *)
definition lb_have_space_for :: "lifo_buffer \<Rightarrow> 64 word \<Rightarrow> bool" where
  "lb_have_space_for b n =
     (case lb_class b of FORWARD \<Rightarrow> fl_have_space_for b n | BACKWARD \<Rightarrow> bl_have_space_for b n)"

(* @sql_lifo_buffer.h 140-140 Lifo_buffer::used_area *)
definition lb_used_area :: "lifo_buffer \<Rightarrow> int" where
  "lb_used_area b = (case lb_class b of FORWARD \<Rightarrow> fl_used_area b | BACKWARD \<Rightarrow> bl_used_area b)"

(* @sql_lifo_buffer.h 82-89 Lifo_buffer::set_buffer_space *)
definition set_buffer_space :: "lifo_buffer \<Rightarrow> int \<Rightarrow> int \<Rightarrow> lifo_buffer" where
  "set_buffer_space b start_arg end_arg = lb_reset (b\<lparr>start := start_arg, bend := end_arg\<rparr>)"

(* @sql_lifo_buffer.h 95-99 Lifo_buffer::setup_writing *)
definition setup_writing :: "lifo_buffer \<Rightarrow> 64 word \<Rightarrow> 64 word \<Rightarrow> lifo_buffer" where
  "setup_writing b len1 len2 = b\<lparr>size1 := len1, size2 := len2\<rparr>"

(* @sql_lifo_buffer.h 111-114 Lifo_buffer::can_write *)
definition can_write :: "lifo_buffer \<Rightarrow> bool" where
  "can_write b \<longleftrightarrow> lb_have_space_for b (size1 b + size2 b)"

(* @sql_lifo_buffer.h 117-117 Lifo_buffer::is_empty *)
definition lb_is_empty :: "lifo_buffer \<Rightarrow> bool" where
  "lb_is_empty b \<longleftrightarrow> lb_used_size b = 0"

text \<open>The sort routine, \<^verbatim>\<open>my_qsort2\<close>, is a parameter.\<close>

(* @sql_lifo_buffer.h 120-125 Lifo_buffer::sort *)
definition lb_sort ::
  "(memory \<Rightarrow> int \<Rightarrow> 64 word \<Rightarrow> 64 word \<Rightarrow> memory) \<Rightarrow> memory \<Rightarrow> lifo_buffer \<Rightarrow> memory option" where
  "lb_sort my_qsort2 m b =
     (let elem_size = size1 b + size2 b
      in if elem_size = 0 then None
         else let n_elements = lb_used_size b div elem_size
              in Some (my_qsort2 m (lb_used_area b) n_elements elem_size))"

section \<open>Iterator\<close>

(* @sql_lifo_buffer.h 331-340 Lifo_buffer_iterator *)
record lifo_iterator =
  it_pos :: int
  it_read_ptr1 :: int
  it_read_ptr2 :: int

(* @sql_lifo_buffer.h 341-345 Lifo_buffer_iterator::init *)
definition lbi_init :: "lifo_iterator \<Rightarrow> lifo_buffer \<Rightarrow> lifo_iterator" where
  "lbi_init it b = it\<lparr>it_pos := pos b\<rparr>"

(* @sql_lifo_buffer.h 353-356 Lifo_buffer_iterator::read *)
definition lbi_read :: "lifo_buffer \<Rightarrow> lifo_iterator \<Rightarrow> lifo_iterator \<times> bool" where
  "lbi_read b it = (let (p, r1, r2, eof) = lb_read_at b (it_pos it) (it_read_ptr1 it) (it_read_ptr2 it)
                    in (\<lparr>it_pos = p, it_read_ptr1 = r1, it_read_ptr2 = r2\<rparr>, eof))"

section \<open>Reading and copying memory\<close>

lemma length_bytes [simp]: "length (bytes m a n) = n"
  by (simp add: bytes_def)

lemma bytes_0 [simp]: "bytes m a 0 = []"
  by (simp add: bytes_def)

lemma bytes_cong: "(\<And>a. p \<le> a \<Longrightarrow> a < p + int n \<Longrightarrow> m' a = m a) \<Longrightarrow> bytes m' p n = bytes m p n"
  by (simp add: bytes_def)

lemma word_bytes_cong:
  "(\<And>a. p \<le> a \<Longrightarrow> a < p + uint n \<Longrightarrow> m' a = m a) \<Longrightarrow> bytes m' p (unat n) = bytes m p (unat (n :: 64 word))"
  by (rule bytes_cong) simp

text \<open>What a copy leaves alone and what it copies.\<close>

lemma memcpy_ok:
  assumes "n = 0 \<or> (\<exists>s. src = Some s \<and> int n \<le> \<bar>dst - s\<bar>)"
  shows "\<exists>m'. memcpy m dst src n = Some m' \<and> (\<forall>a. a < dst \<or> dst + int n \<le> a \<longrightarrow> m' a = m a) \<and>
    (\<forall>s. src = Some s \<longrightarrow> bytes m' dst n = bytes m s n)"
proof (cases "n = 0")
  case False
  then obtain s where s: "src = Some s" "int n \<le> \<bar>dst - s\<bar>" using assms by auto
  let ?m = "\<lambda>a. if dst \<le> a \<and> a < dst + int n then m (s + (a - dst)) else m a"
  have "memcpy m dst src n = Some ?m" using False s by (simp add: memcpy_def)
  moreover have "bytes ?m dst n = bytes m s n" by (auto simp: bytes_def)
  ultimately show ?thesis using s(1) by (intro exI [of _ ?m]) auto
qed (simp add: memcpy_def)

lemma word_memcpy_ok:
  assumes "n = 0 \<or> (\<exists>s. src = Some s \<and> uint n \<le> \<bar>dst - s\<bar>)"
  shows "\<exists>m'. memcpy m dst src (unat (n :: 64 word)) = Some m' \<and> (\<forall>a. a < dst \<or> dst + uint n \<le> a \<longrightarrow> m' a = m a) \<and>
    (\<forall>s. src = Some s \<longrightarrow> bytes m' dst (unat n) = bytes m s (unat n))"
  using memcpy_ok [of "unat n" src dst m] assms by (simp add: unat_eq_zero)

section \<open>Sizes\<close>

abbreviation s1 :: "lifo_buffer \<Rightarrow> int" where "s1 b \<equiv> uint (size1 b)"
abbreviation s2 :: "lifo_buffer \<Rightarrow> int" where "s2 b \<equiv> uint (size2 b)"

text \<open>Elements that are not empty and whose size is a \<open>ptrdiff_t\<close>.\<close>

definition sizes_ok :: "lifo_buffer \<Rightarrow> bool" where
  "sizes_ok b \<longleftrightarrow> 0 < s1 b + s2 b \<and> s1 b + s2 b < 2 ^ 63"

lemma size_nonneg: "0 \<le> s1 b" "0 \<le> s2 b"
  by simp_all

lemma elem_size:
  assumes "sizes_ok b"
  shows "uint (size1 b + size2 b) = s1 b + s2 b" "sint (size1 b + size2 b) = s1 b + s2 b"
proof -
  have lt: "s1 b + s2 b < 2 ^ 63" using assms by (simp add: sizes_ok_def)
  then show u: "uint (size1 b + size2 b) = s1 b + s2 b"
    by (simp add: uint_word_ariths take_bit_int_eq_self)
  have "sint (size1 b + size2 b) = signed_take_bit 63 (s1 b + s2 b)" using u by (simp add: sint_uint)
  moreover have "signed_take_bit 63 (s1 b + s2 b) = s1 b + s2 b"
    using lt size_nonneg [of b] by (intro signed_take_bit_int_eq_self) linarith+
  ultimately show "sint (size1 b + size2 b) = s1 b + s2 b" by simp
qed

section \<open>What a buffer represents\<close>

text \<open>The elements, pairs of byte strings, the one written last first.\<close>

type_synonym element = "uchar list \<times> uchar list"

primrec fstack :: "memory \<Rightarrow> lifo_buffer \<Rightarrow> int \<Rightarrow> element list \<Rightarrow> bool" where
  "fstack m b p [] \<longleftrightarrow> p = start b"
| "fstack m b p (y # ys) \<longleftrightarrow> y = (bytes m (p - s2 b - s1 b) (unat (size1 b)), bytes m (p - s2 b) (unat (size2 b))) \<and>
     fstack m b (p - s2 b - s1 b) ys"

primrec bstack :: "memory \<Rightarrow> lifo_buffer \<Rightarrow> int \<Rightarrow> element list \<Rightarrow> bool" where
  "bstack m b p [] \<longleftrightarrow> p = bend b"
| "bstack m b p (y # ys) \<longleftrightarrow> y = (bytes m p (unat (size1 b)), bytes m (p + s1 b) (unat (size2 b))) \<and>
     bstack m b (p + s1 b + s2 b) ys"

definition lrep :: "memory \<times> lifo_buffer \<Rightarrow> element list \<Rightarrow> bool" where
  "lrep h ys \<longleftrightarrow> (case h of (m, b) \<Rightarrow> sizes_ok b \<and> start b \<le> pos b \<and> pos b \<le> bend b \<and>
     (case lb_class b of FORWARD \<Rightarrow> fstack m b (pos b) ys | BACKWARD \<Rightarrow> bstack m b (pos b) ys))"

text \<open>The client's view: store the bytes behind two pointers, fetch an element.\<close>

definition lb_put :: "memory \<times> lifo_buffer \<Rightarrow> int \<times> int option \<Rightarrow> (memory \<times> lifo_buffer) option" where
  "lb_put h x = (case (h, x) of ((m, b), (p1, p2)) \<Rightarrow>
     let b1 = b\<lparr>write_ptr1 := Some p1, write_ptr2 := p2\<rparr> in if can_write b1 then lb_write m b1 else None)"

definition lb_get :: "memory \<times> lifo_buffer \<Rightarrow> ((memory \<times> lifo_buffer) \<times> element) option" where
  "lb_get h = (case h of (m, b) \<Rightarrow> let (b', eof) = lb_read b
     in if eof then None
        else Some ((m, b'), (bytes m (read_ptr1 b') (unat (size1 b)), bytes m (read_ptr2 b') (unat (size2 b)))))"

text \<open>The source areas lie outside the buffer, and a pair has both pointers.\<close>

definition outside :: "lifo_buffer \<Rightarrow> int \<Rightarrow> int \<Rightarrow> bool" where
  "outside b p n \<longleftrightarrow> p + n \<le> start b \<or> bend b \<le> p"

definition lb_ok :: "memory \<times> lifo_buffer \<Rightarrow> int \<times> int option \<Rightarrow> bool" where
  "lb_ok h x \<longleftrightarrow> (case (h, x) of ((m, b), (p1, p2)) \<Rightarrow> outside b p1 (s1 b) \<and>
     (case p2 of None \<Rightarrow> size2 b = 0 | Some q \<Rightarrow> outside b q (s2 b)))"

definition lb_src :: "memory \<times> lifo_buffer \<Rightarrow> int \<times> int option \<Rightarrow> element" where
  "lb_src h x = (case (h, x) of ((m, b), (p1, p2)) \<Rightarrow>
     (bytes m p1 (unat (size1 b)), case p2 of None \<Rightarrow> [] | Some q \<Rightarrow> bytes m q (unat (size2 b))))"

definition lb_fits :: "memory \<times> lifo_buffer \<Rightarrow> nat \<Rightarrow> bool" where
  "lb_fits h n \<longleftrightarrow> (case h of (m, b) \<Rightarrow> n = 0 \<or>
     (case lb_class b of FORWARD \<Rightarrow> pos b + int n * (s1 b + s2 b) < bend b
      | BACKWARD \<Rightarrow> start b \<le> pos b - int n * (s1 b + s2 b)))"

lemma fstack_ge: "fstack m b p ys \<Longrightarrow> start b + int (length ys) * (s1 b + s2 b) = p"
proof (induction ys arbitrary: p)
  case (Cons y ys)
  then show ?case using Cons.IH [of "p - s2 b - s1 b"] by (simp add: algebra_simps)
qed simp

lemma bstack_le: "bstack m b p ys \<Longrightarrow> p + int (length ys) * (s1 b + s2 b) = bend b"
proof (induction ys arbitrary: p)
  case (Cons y ys)
  then show ?case using Cons.IH [of "p + s1 b + s2 b"] by (simp add: algebra_simps)
qed simp

lemma stack_bounds:
  "fstack m b p ys \<Longrightarrow> start b \<le> p" "bstack m b p ys \<Longrightarrow> p \<le> bend b"
  using fstack_ge [of m b p ys] bstack_le [of m b p ys] mult_nonneg_nonneg [of "int (length ys)" "s1 b + s2 b"] size_nonneg [of b]
  by linarith+

lemma fstack_cong:
  assumes "\<And>a. start b \<le> a \<Longrightarrow> a < p \<Longrightarrow> m' a = m a"
    "size1 b' = size1 b" "size2 b' = size2 b" "start b' = start b"
  shows "fstack m b p ys \<Longrightarrow> fstack m' b' p ys"
  using assms(1)
proof (induction ys arbitrary: p)
  case (Cons y ys)
  have st: "fstack m b (p - s2 b - s1 b) ys" using Cons.prems(1) by simp
  note le = stack_bounds(1) [OF st] size_nonneg [of b]
  have "bytes m' (p - s2 b - s1 b) (unat (size1 b)) = bytes m (p - s2 b - s1 b) (unat (size1 b))"
    by (rule word_bytes_cong, rule Cons.prems(2)) (use le in linarith)+
  moreover have "bytes m' (p - s2 b) (unat (size2 b)) = bytes m (p - s2 b) (unat (size2 b))"
    by (rule word_bytes_cong, rule Cons.prems(2)) (use le in linarith)+
  moreover have "fstack m' b' (p - s2 b - s1 b) ys"
    by (rule Cons.IH [OF st], rule Cons.prems(2)) (use le in linarith)+
  ultimately show ?case using Cons.prems(1) assms(2-4) by simp
qed (use assms(4) in simp)

lemma bstack_cong:
  assumes "\<And>a. p \<le> a \<Longrightarrow> a < bend b \<Longrightarrow> m' a = m a"
    "size1 b' = size1 b" "size2 b' = size2 b" "bend b' = bend b"
  shows "bstack m b p ys \<Longrightarrow> bstack m' b' p ys"
  using assms(1)
proof (induction ys arbitrary: p)
  case (Cons y ys)
  have st: "bstack m b (p + s1 b + s2 b) ys" using Cons.prems(1) by simp
  note le = stack_bounds(2) [OF st] size_nonneg [of b]
  have "bytes m' p (unat (size1 b)) = bytes m p (unat (size1 b))"
    by (rule word_bytes_cong, rule Cons.prems(2)) (use le in linarith)+
  moreover have "bytes m' (p + s1 b) (unat (size2 b)) = bytes m (p + s1 b) (unat (size2 b))"
    by (rule word_bytes_cong, rule Cons.prems(2)) (use le in linarith)+
  moreover have "bstack m' b' (p + s1 b + s2 b) ys"
    by (rule Cons.IH [OF st], rule Cons.prems(2)) (use le in linarith)+
  ultimately show ?case using Cons.prems(1) assms(2-4) by simp
qed (use assms(4) in simp)

text \<open>Two copies into adjacent areas of the buffer from areas outside of it.\<close>

definition copied :: "memory \<Rightarrow> memory \<Rightarrow> lifo_buffer \<Rightarrow> int \<Rightarrow> element \<Rightarrow> bool" where
  "copied m m' b p y \<longleftrightarrow> (\<forall>a. a < p \<or> p + s1 b + s2 b \<le> a \<longrightarrow> m' a = m a) \<and>
     y = (bytes m' p (unat (size1 b)), bytes m' (p + s1 b) (unat (size2 b)))"

lemma outside_dist:
  assumes "outside b p n" "start b \<le> d" "d + n \<le> bend b"
  shows "n \<le> \<bar>d - p\<bar>"
  using assms by (auto simp: outside_def)

lemma outside_bytes:
  assumes "outside b p (uint n)" "\<And>a. a < start b \<or> bend b \<le> a \<Longrightarrow> m' a = m a"
  shows "bytes m' p (unat n) = bytes m p (unat (n :: 64 word))"
  using assms by (intro word_bytes_cong) (auto simp: outside_def)

lemma copy_first:
  assumes "lb_ok (m, b) (p1, p2)" "start b \<le> p" "p + s1 b + s2 b \<le> bend b"
  shows "\<exists>h'. memcpy h p (Some p1) (unat (size1 b)) = Some h' \<and> (\<forall>a. a < p \<or> p + s1 b \<le> a \<longrightarrow> h' a = h a) \<and>
    bytes h' p (unat (size1 b)) = bytes h p1 (unat (size1 b))"
proof -
  have "outside b p1 (s1 b)" using assms(1) by (simp add: lb_ok_def)
  then have "s1 b \<le> \<bar>p - p1\<bar>" using outside_dist [of b p1 "s1 b" p] assms(2,3) size_nonneg [of b] by linarith
  then show ?thesis using word_memcpy_ok [of "size1 b" "Some p1" p h] by auto
qed

lemma copy_second:
  assumes "lb_ok (m, b) (p1, p2)" "start b \<le> p" "p + s1 b + s2 b \<le> bend b"
  shows "\<exists>h'. memcpy h (p + s1 b) p2 (unat (size2 b)) = Some h' \<and>
    (\<forall>a. a < p + s1 b \<or> p + s1 b + s2 b \<le> a \<longrightarrow> h' a = h a) \<and>
    bytes h' (p + s1 b) (unat (size2 b)) = (case p2 of None \<Rightarrow> [] | Some q \<Rightarrow> bytes h q (unat (size2 b)))"
proof (cases p2)
  case None
  then show ?thesis using assms(1) by (simp add: lb_ok_def memcpy_def)
next
  case (Some q)
  have "outside b q (s2 b)" using assms(1) Some by (simp add: lb_ok_def)
  then have "s2 b \<le> \<bar>(p + s1 b) - q\<bar>"
    using outside_dist [of b q "s2 b" "p + s1 b"] assms(2,3) size_nonneg [of b] by linarith
  then show ?thesis using word_memcpy_ok [of "size2 b" "Some q" "p + s1 b" h] Some by auto
qed

lemma copy_up:
  assumes "lb_ok (m, b) (p1, p2)" "start b \<le> p" "p + s1 b + s2 b \<le> bend b"
  shows "\<exists>m1 m2. memcpy m p (Some p1) (unat (size1 b)) = Some m1 \<and>
    memcpy m1 (p + s1 b) p2 (unat (size2 b)) = Some m2 \<and> copied m m2 b p (lb_src (m, b) (p1, p2))"
proof -
  note nn = size_nonneg [of b]
  obtain m1 where m1: "memcpy m p (Some p1) (unat (size1 b)) = Some m1"
    "\<And>a. a < p \<or> p + s1 b \<le> a \<Longrightarrow> m1 a = m a" "bytes m1 p (unat (size1 b)) = bytes m p1 (unat (size1 b))"
    using copy_first [OF assms, of m] by blast
  obtain m2 where m2: "memcpy m1 (p + s1 b) p2 (unat (size2 b)) = Some m2"
    "\<And>a. a < p + s1 b \<or> p + s1 b + s2 b \<le> a \<Longrightarrow> m2 a = m1 a"
    "bytes m2 (p + s1 b) (unat (size2 b)) = (case p2 of None \<Rightarrow> [] | Some q \<Rightarrow> bytes m1 q (unat (size2 b)))"
    using copy_second [OF assms, of m1] by blast
  have "bytes m2 p (unat (size1 b)) = bytes m1 p (unat (size1 b))" by (rule word_bytes_cong) (simp add: m2(2))
  moreover have "bytes m1 q (unat (size2 b)) = bytes m q (unat (size2 b))" if "p2 = Some q" for q
  proof (rule outside_bytes)
    show "outside b q (s2 b)" using assms(1) that by (simp add: lb_ok_def)
    show "m1 a = m a" if "a < start b \<or> bend b \<le> a" for a using that assms(2,3) nn by (intro m1(2)) linarith
  qed
  moreover have "m2 a = m a" if "a < p \<or> p + s1 b + s2 b \<le> a" for a
  proof -
    have "m2 a = m1 a" using that nn by (intro m2(2)) linarith
    also have "m1 a = m a" using that nn by (intro m1(2)) linarith
    finally show ?thesis .
  qed
  ultimately have "copied m m2 b p (lb_src (m, b) (p1, p2))"
    using m1(3) m2(3) by (cases p2) (simp_all add: copied_def lb_src_def)
  then show ?thesis using m1(1) m2(1) by blast
qed

lemma copy_down:
  assumes "lb_ok (m, b) (p1, p2)" "start b \<le> p" "p + s1 b + s2 b \<le> bend b"
  shows "\<exists>m1 m2. memcpy m (p + s1 b) p2 (unat (size2 b)) = Some m1 \<and>
    memcpy m1 p (Some p1) (unat (size1 b)) = Some m2 \<and> copied m m2 b p (lb_src (m, b) (p1, p2))"
proof -
  note nn = size_nonneg [of b]
  obtain m1 where m1: "memcpy m (p + s1 b) p2 (unat (size2 b)) = Some m1"
    "\<And>a. a < p + s1 b \<or> p + s1 b + s2 b \<le> a \<Longrightarrow> m1 a = m a"
    "bytes m1 (p + s1 b) (unat (size2 b)) = (case p2 of None \<Rightarrow> [] | Some q \<Rightarrow> bytes m q (unat (size2 b)))"
    using copy_second [OF assms, of m] by blast
  obtain m2 where m2: "memcpy m1 p (Some p1) (unat (size1 b)) = Some m2"
    "\<And>a. a < p \<or> p + s1 b \<le> a \<Longrightarrow> m2 a = m1 a" "bytes m2 p (unat (size1 b)) = bytes m1 p1 (unat (size1 b))"
    using copy_first [OF assms, of m1] by blast
  have "bytes m2 (p + s1 b) (unat (size2 b)) = bytes m1 (p + s1 b) (unat (size2 b))"
    by (rule word_bytes_cong) (simp add: m2(2))
  moreover have "bytes m1 p1 (unat (size1 b)) = bytes m p1 (unat (size1 b))"
  proof (rule outside_bytes)
    show "outside b p1 (s1 b)" using assms(1) by (simp add: lb_ok_def)
    show "m1 a = m a" if "a < start b \<or> bend b \<le> a" for a using that assms(2,3) nn by (intro m1(2)) linarith
  qed
  moreover have "m2 a = m a" if "a < p \<or> p + s1 b + s2 b \<le> a" for a
  proof -
    have "m2 a = m1 a" using that nn by (intro m2(2)) linarith
    also have "m1 a = m a" using that nn by (intro m1(2)) linarith
    finally show ?thesis .
  qed
  ultimately have "copied m m2 b p (lb_src (m, b) (p1, p2))"
    using m1(3) m2(3) by (cases p2) (simp_all add: copied_def lb_src_def)
  then show ?thesis using m1(1) m2(1) by blast
qed

text \<open>What one write does.\<close>

lemma lb_put_step:
  assumes "lrep (m, b) ys" "lb_fits (m, b) (Suc n)" "lb_ok (m, b) (p1, p2)"
  defines "p \<equiv> (case lb_class b of FORWARD \<Rightarrow> pos b | BACKWARD \<Rightarrow> pos b - s2 b - s1 b)"
  shows "\<exists>m'. lb_put (m, b) (p1, p2) = Some (m', b\<lparr>write_ptr1 := Some p1, write_ptr2 := p2,
      pos := (case lb_class b of FORWARD \<Rightarrow> pos b + s1 b + s2 b | BACKWARD \<Rightarrow> pos b - s2 b - s1 b)\<rparr>) \<and>
    copied m m' b p (lb_src (m, b) (p1, p2)) \<and> start b \<le> p \<and> p + s1 b + s2 b \<le> bend b"
proof -
  have sz: "sizes_ok b" and bd: "start b \<le> pos b" "pos b \<le> bend b" using assms(1) by (auto simp: lrep_def)
  have ge: "s1 b + s2 b \<le> int (Suc n) * (s1 b + s2 b)"
    using mult_right_mono [of 1 "int (Suc n)" "s1 b + s2 b"] size_nonneg [of b] by simp
  note es = elem_size [OF sz]
  show ?thesis
  proof (cases "lb_class b")
    case FORWARD
    have room: "pos b + s1 b + s2 b < bend b" using assms(2) FORWARD ge by (simp add: lb_fits_def)
    obtain m1 m2 where c: "memcpy m (pos b) (Some p1) (unat (size1 b)) = Some m1"
      "memcpy m1 (pos b + s1 b) p2 (unat (size2 b)) = Some m2" "copied m m2 b (pos b) (lb_src (m, b) (p1, p2))"
      using copy_up [OF assms(3) bd(1)] room by auto
    have "size2 b = 0 \<Longrightarrow> m1 = m2" using c(2) by (simp add: memcpy_def)
    then show ?thesis using c FORWARD room bd es
      by (cases "size2 b = 0") (auto simp: lb_put_def can_write_def lb_have_space_for_def fl_have_space_for_def lb_write_def
          fl_write_def fl_write_bytes_def p_def Let_def)
  next
    case BACKWARD
    have room: "start b \<le> pos b - s2 b - s1 b" using assms(2) BACKWARD ge by (simp add: lb_fits_def)
    obtain m1 m2 where c: "memcpy m (pos b - s2 b - s1 b + s1 b) p2 (unat (size2 b)) = Some m1"
      "memcpy m1 (pos b - s2 b - s1 b) (Some p1) (unat (size1 b)) = Some m2"
      "copied m m2 b (pos b - s2 b - s1 b) (lb_src (m, b) (p1, p2))"
      using copy_down [OF assms(3) room] bd(2) by auto
    have "p2 = None \<Longrightarrow> size2 b = 0 \<and> m1 = m" using c(1) assms(3) by (auto simp: lb_ok_def memcpy_def)
    then show ?thesis using c BACKWARD room bd es
      by (cases p2) (auto simp: lb_put_def can_write_def lb_have_space_for_def bl_have_space_for_def lb_write_def bl_write_def
          bl_write_bytes_def p_def Let_def)
  qed
qed

lemma lb_put_rep:
  assumes "lrep h ys" "lb_fits h (Suc n)" "lb_ok h x"
  shows "\<exists>h'. lb_put h x = Some h' \<and> lrep h' (lb_src h x # ys) \<and> lb_fits h' n \<and>
    (\<forall>x'. lb_ok h x' \<longrightarrow> lb_ok h' x' \<and> lb_src h' x' = lb_src h x')"
proof -
  obtain m b p1 p2 where hx: "h = (m, b)" "x = (p1, p2)" by (cases h; cases x)
  let ?p = "case lb_class b of FORWARD \<Rightarrow> pos b | BACKWARD \<Rightarrow> pos b - s2 b - s1 b"
  let ?b = "b\<lparr>write_ptr1 := Some p1, write_ptr2 := p2,
      pos := (case lb_class b of FORWARD \<Rightarrow> pos b + s1 b + s2 b | BACKWARD \<Rightarrow> pos b - s2 b - s1 b)\<rparr>"
  obtain m' where m': "lb_put h x = Some (m', ?b)" "copied m m' b ?p (lb_src h x)"
    "start b \<le> ?p" "?p + s1 b + s2 b \<le> bend b"
    using lb_put_step [of m b ys n p1 p2] assms hx by blast
  note nn = size_nonneg [of b]
  have st: "sizes_ok b" "start b \<le> pos b" "pos b \<le> bend b"
    "case lb_class b of FORWARD \<Rightarrow> fstack m b (pos b) ys | BACKWARD \<Rightarrow> bstack m b (pos b) ys"
    using assms(1) hx by (auto simp: lrep_def)
  have fr: "m' a = m a" if "a < ?p \<or> ?p + s1 b + s2 b \<le> a" for a using m'(2) that unfolding copied_def by blast
  have "lrep (m', ?b) (lb_src h x # ys)"
  proof (cases "lb_class b")
    case FORWARD
    have "fstack m' ?b (pos b) ys"
      by (rule fstack_cong [where m = m and b = b]) (use fr FORWARD st(4) in simp_all)
    then show ?thesis using FORWARD m' st(1-3) by (simp add: lrep_def copied_def sizes_ok_def algebra_simps)
  next
    case BACKWARD
    have "bstack m' ?b (pos b) ys"
      by (rule bstack_cong [where m = m and b = b]) (use fr BACKWARD st(4) in simp_all)
    then show ?thesis using BACKWARD m' st(1-3) by (simp add: lrep_def copied_def sizes_ok_def algebra_simps)
  qed
  moreover have "lb_fits (m', ?b) n"
    using assms(2) hx(1) by (cases "lb_class b") (auto simp: lb_fits_def algebra_simps)
  moreover have "lb_ok (m', ?b) x' \<and> lb_src (m', ?b) x' = lb_src h x'" if ok: "lb_ok h x'" for x'
  proof -
    obtain q1 q2 where q: "x' = (q1, q2)" by (cases x')
    have out: "m' a = m a" if "a < start b \<or> bend b \<le> a" for a using that m'(3,4) by (intro fr) linarith
    have "bytes m' q1 (unat (size1 b)) = bytes m q1 (unat (size1 b))"
      using ok hx q by (intro outside_bytes [OF _ out]) (auto simp: lb_ok_def)
    moreover have "bytes m' q (unat (size2 b)) = bytes m q (unat (size2 b))" if "q2 = Some q" for q
      using ok hx \<open>x' = _\<close> that by (intro outside_bytes [OF _ out]) (auto simp: lb_ok_def)
    ultimately show ?thesis using ok hx(1) q by (cases q2) (auto simp: lb_ok_def lb_src_def outside_def)
  qed
  ultimately show ?thesis using m'(1) by blast
qed

lemma lb_get_rep:
  assumes "lrep h (y # ys)"
  shows "\<exists>h'. lb_get h = Some (h', y) \<and> lrep h' ys"
proof -
  obtain m b where h: "h = (m, b)" by (cases h)
  have sz: "sizes_ok b" using assms h by (simp add: lrep_def)
  note es = elem_size [OF sz] and nn = size_nonneg [of b]
  show ?thesis
  proof (cases "lb_class b")
    case FORWARD
    have st: "fstack m b (pos b - s2 b - s1 b) ys" "pos b \<le> bend b"
      "y = (bytes m (pos b - s2 b - s1 b) (unat (size1 b)), bytes m (pos b - s2 b) (unat (size2 b)))"
      using assms h FORWARD by (auto simp: lrep_def)
    note ge = stack_bounds(1) [OF st(1)]
    let ?b = "fst (fl_read b)"
    have r: "snd (fl_read b) = False" "pos ?b = pos b - s2 b - s1 b" "read_ptr1 ?b = pos b - s2 b - s1 b"
      "size2 b \<noteq> 0 \<Longrightarrow> read_ptr2 ?b = pos b - s2 b" "size1 ?b = size1 b" "size2 ?b = size2 b" "start ?b = start b"
      "bend ?b = bend b" "lb_class ?b = lb_class b"
      using ge es by (auto simp: fl_read_def fl_read_at_def fl_have_data_def fl_read_bytes_def Let_def)
    have "lb_get h = Some ((m, ?b), y)"
      using r st(3) FORWARD h by (cases "size2 b = 0") (auto simp: lb_get_def lb_read_def split_beta Let_def)
    moreover have "fstack m ?b (pos ?b) ys" using fstack_cong [OF _ r(5-7) st(1)] r(2) by simp
    then have "lrep (m, ?b) ys" using r sz ge st(2) nn FORWARD by (simp add: lrep_def sizes_ok_def)
    ultimately show ?thesis by blast
  next
    case BACKWARD
    have st: "bstack m b (pos b + s1 b + s2 b) ys" "start b \<le> pos b"
      "y = (bytes m (pos b) (unat (size1 b)), bytes m (pos b + s1 b) (unat (size2 b)))"
      using assms h BACKWARD by (auto simp: lrep_def)
    note le = stack_bounds(2) [OF st(1)]
    let ?b = "fst (bl_read b)"
    have r: "snd (bl_read b) = False" "pos ?b = pos b + s1 b + s2 b" "read_ptr1 ?b = pos b"
      "size2 b \<noteq> 0 \<Longrightarrow> read_ptr2 ?b = pos b + s1 b" "size1 ?b = size1 b" "size2 ?b = size2 b" "bend ?b = bend b"
      "start ?b = start b" "lb_class ?b = lb_class b"
      using le es by (auto simp: bl_read_def bl_read_at_def bl_have_data_def bl_read_bytes_def Let_def)
    have "lb_get h = Some ((m, ?b), y)"
      using r st(3) BACKWARD h by (cases "size2 b = 0") (auto simp: lb_get_def lb_read_def split_beta Let_def)
    moreover have "bstack m ?b (pos ?b) ys" using bstack_cong [OF _ r(5-7) st(1)] r(2) by simp
    then have "lrep (m, ?b) ys" using r sz le st(2) nn BACKWARD by (simp add: lrep_def sizes_ok_def)
    ultimately show ?thesis by blast
  qed
qed

lemma lb_get_empty: "lrep h [] \<Longrightarrow> lb_get h = None"
  using elem_size(2) [of "snd h"]
  by (auto simp: lrep_def lb_get_def lb_read_def fl_read_def bl_read_def fl_read_at_def bl_read_at_def
      fl_have_data_def bl_have_data_def sizes_ok_def split: enum_direction.splits)

interpretation lb: lifo lrep lb_fits lb_ok lb_src lb_put lb_get
  by unfold_locales (rule lb_put_rep lb_get_rep lb_get_empty; assumption)+

section \<open>Iterating without reading\<close>

definition lbi_get :: "memory \<Rightarrow> lifo_buffer \<Rightarrow> lifo_iterator \<Rightarrow> (lifo_iterator \<times> element) option" where
  "lbi_get m b it = (let (it', eof) = lbi_read b it
     in if eof then None
        else Some (it', (bytes m (it_read_ptr1 it') (unat (size1 b)), bytes m (it_read_ptr2 it') (unat (size2 b)))))"

text \<open>The buffer an iterator would be after as many reads.\<close>

definition view :: "lifo_buffer \<Rightarrow> lifo_iterator \<Rightarrow> lifo_buffer" where
  "view b it = b\<lparr>pos := it_pos it, read_ptr1 := it_read_ptr1 it, read_ptr2 := it_read_ptr2 it\<rparr>"

lemma lb_get_view:
  "lb_get (m, view b it) = map_option (\<lambda>(it', y). ((m, view b it'), y)) (lbi_get m b it)"
  by (cases "lb_class b") (auto simp: lb_get_def lbi_get_def lb_read_def lbi_read_def lb_read_at_def view_def fl_read_def
      bl_read_def fl_read_at_def bl_read_at_def fl_have_data_def bl_have_data_def Let_def split_beta)

lemma get_all_view:
  "get_all lb_get n (m, view b it) = map_option (\<lambda>(it', ys). ((m, view b it'), ys)) (get_all (lbi_get m b) n it)"
proof (induction n arbitrary: it)
  case (Suc n)
  show ?case
    by (cases "lbi_get m b it") (auto simp: lb_get_view Suc.IH option.map_comp comp_def bind_map_option
        map_option_bind split_beta intro!: Option.bind_cong)
qed simp

lemma view_rep:
  assumes "lrep (m, b) ys"
  shows "lrep (m, view b (lbi_init it b)) ys"
proof (cases "lb_class b")
  case FORWARD
  then show ?thesis
    using assms fstack_cong [of b "pos b" m m "view b (lbi_init it b)" ys] by (auto simp: lrep_def view_def lbi_init_def sizes_ok_def)
next
  case BACKWARD
  then show ?thesis
    using assms bstack_cong [of "pos b" b m m "view b (lbi_init it b)" ys] by (auto simp: lrep_def view_def lbi_init_def sizes_ok_def)
qed

section \<open>Two buffers in one space\<close>

lemma lrep_shrink:
  assumes "lrep (m, g) ys" "lb_class g = BACKWARD"
  shows "lrep (m, fst (bl_remove_unused_space g)) ys"
  using assms bstack_cong [of "pos g" g m m "g\<lparr>start := pos g\<rparr>" ys] by (auto simp: lrep_def bl_remove_unused_space_def sizes_ok_def)

lemma lrep_grow:
  assumes "lrep (m, f) xs" "lb_class f = FORWARD" "bend f \<le> e"
  shows "lrep (m, fl_grow f s e) xs"
  using assms fstack_cong [of f "pos f" m m "fl_grow f s e" xs] by (auto simp: lrep_def fl_grow_def sizes_ok_def)

text \<open>A write touches the space of the buffer only.\<close>

lemma lb_put_frame:
  assumes "lrep (m, f) xs" "lb_fits (m, f) (Suc n)" "lb_ok (m, f) x" "lb_put (m, f) x = Some (m', f')"
    "a < start f \<or> bend f \<le> a"
  shows "m' a = m a"
proof -
  obtain p1 p2 where x: "x = (p1, p2)" by (cases x)
  show ?thesis using lb_put_step [OF assms(1,2) assms(3) [unfolded x]] assms(4,5) x by (auto simp: copied_def)
qed

lemma lrep_outside:
  assumes "lrep (m, g) ys" "lb_class g = BACKWARD" "\<And>a. start g \<le> a \<Longrightarrow> m' a = m a"
  shows "lrep (m', g) ys"
  using assms bstack_cong [of "pos g" g m' m g ys] by (auto simp: lrep_def)

section \<open>Properties\<close>

text \<open>C33: Both buffers are stacks: elements written while there is room are read back in the reverse of
  the order they were written, before those that were there, byte for byte, and then the end is reported.
  An iterator yields the elements in the same order without taking them out.\<close>

theorem lifo_buffer_order:
  assumes "lrep (m, b) ys" "lb_fits (m, b) (length xs)" "\<forall>x \<in> set xs. lb_ok (m, b) x"
  shows "(\<exists>h' h''. put_all lb_put (m, b) xs = Some h' \<and>
      get_all lb_get (length xs + length ys) h' = Some (h'', rev (map (lb_src (m, b)) xs) @ ys) \<and> lb_get h'' = None) \<and>
    (\<exists>it'. get_all (lbi_get m b) (length ys) (lbi_init it b) = Some (it', ys) \<and> lbi_get m b it' = None)"
proof -
  obtain h where "get_all lb_get (length ys) (m, view b (lbi_init it b)) = Some (h, ys)" "lb_get h = None"
    using lb.pop_all [of "(m, view b (lbi_init it b))" ys "[]"] view_rep [OF assms(1)] lb_get_empty by auto
  then have "\<exists>it'. get_all (lbi_get m b) (length ys) (lbi_init it b) = Some (it', ys) \<and> lbi_get m b it' = None"
    by (auto simp: get_all_view lb_get_view)
  then show ?thesis using lb.lifo_order [OF assms] by blast
qed

text \<open>A backward buffer may hand its unused space to a forward buffer in front of it: both keep their
  elements, their spaces stay adjacent, and what the forward buffer then writes does not change the
  elements of the backward one.\<close>

theorem lifo_handover:
  assumes "lrep (m, f) xs" "lb_class f = FORWARD" "lrep (m, g) ys" "lb_class g = BACKWARD" "bend f = start g"
    "bl_remove_unused_space g = (g', unused_start, unused_end)"
  shows "lrep (m, fl_grow f unused_start unused_end) xs \<and> lrep (m, g') ys \<and>
    bend (fl_grow f unused_start unused_end) = start g' \<and>
    (lb_fits (m, fl_grow f unused_start unused_end) 1 \<and> lb_ok (m, fl_grow f unused_start unused_end) x \<longrightarrow>
     (\<exists>m' f'. lb_put (m, fl_grow f unused_start unused_end) x = Some (m', f') \<and>
        lrep (m', f') (lb_src (m, fl_grow f unused_start unused_end) x # xs) \<and> lrep (m', g') ys))"
proof -
  let ?f = "fl_grow f unused_start unused_end"
  have g: "g' = g\<lparr>start := pos g\<rparr>" "unused_start = start g" "unused_end = pos g" "start g \<le> pos g"
    using assms(3,6) by (auto simp: bl_remove_unused_space_def lrep_def)
  have f: "lrep (m, ?f) xs" using lrep_grow [OF assms(1,2)] assms(5) g by simp
  have r: "lrep (m, g') ys" "lb_class g' = BACKWARD" using lrep_shrink [OF assms(3,4)] assms(4,6) g by auto
  have e: "bend ?f = start g'" using g by (simp add: fl_grow_def)
  have "\<exists>m' f'. lb_put (m, ?f) x = Some (m', f') \<and> lrep (m', f') (lb_src (m, ?f) x # xs) \<and> lrep (m', g') ys"
    if p: "lb_fits (m, ?f) 1" "lb_ok (m, ?f) x"
  proof -
    have p1: "lb_fits (m, ?f) (Suc 0)" using p(1) by simp
    obtain m' f' where m': "lb_put (m, ?f) x = Some (m', f')" "lrep (m', f') (lb_src (m, ?f) x # xs)"
      using lb_put_rep [OF f p1 p(2)] by auto
    have "lrep (m', g') ys" using lb_put_frame [OF f p1 p(2) m'(1)] e by (intro lrep_outside [OF r]) auto
    then show ?thesis using m' by blast
  qed
  then show ?thesis using f r e by blast
qed

definition ex_lifo :: "enum_direction \<Rightarrow> int \<Rightarrow> int \<Rightarrow> lifo_buffer" where
  "ex_lifo c s e = set_buffer_space (setup_writing \<lparr>lb_class = c, size1 = 0, size2 = 0, write_ptr1 = None,
     write_ptr2 = None, read_ptr1 = 0, read_ptr2 = 0, start = 0, bend = 0, pos = 0\<rparr> 1 1) s e"

lemmas ex_lifo_defs = ex_lifo_def set_buffer_space_def setup_writing_def lb_reset_def fl_reset_def bl_reset_def

lemma ex_lifo_rep: "lrep (\<lambda>a. of_int a, ex_lifo FORWARD 0 8) []" "lrep (\<lambda>a. of_int a, ex_lifo BACKWARD 8 16) []"
  by (simp_all add: lrep_def ex_lifo_defs sizes_ok_def)

theorem lifo_buffer_order_witness:
  "\<exists>h' h''. put_all lb_put (\<lambda>a. of_int a, ex_lifo FORWARD 0 8) [(20, Some 21), (30, Some 40)] = Some h' \<and>
     get_all lb_get 2 h' = Some (h'', [([30], [40]), ([20], [21])])"
proof -
  let ?xs = "[(20, Some 21), (30, Some 40)] :: (int \<times> int option) list"
  have "lb_fits (\<lambda>a. of_int a, ex_lifo FORWARD 0 8) (length ?xs)"
    "\<forall>x \<in> set ?xs. lb_ok (\<lambda>a. of_int a, ex_lifo FORWARD 0 8) x"
    by (simp_all add: lb_fits_def lb_ok_def outside_def ex_lifo_defs)
  note t = lifo_buffer_order [OF ex_lifo_rep(1) this, THEN conjunct1]
  have "rev (map (lb_src (\<lambda>a. of_int a, ex_lifo FORWARD 0 8)) ?xs) @ [] = [([30], [40]), ([20], [21])]"
    by (simp add: lb_src_def ex_lifo_defs bytes_def)
  moreover have "length ?xs + length ([] :: element list) = 2" by simp
  ultimately show ?thesis using t by metis
qed

theorem lifo_handover_witness:
  "lrep (\<lambda>a. of_int a, fl_grow (ex_lifo FORWARD 0 8) 8 16) []"
proof -
  have "lb_class (ex_lifo FORWARD 0 8) = FORWARD" "lb_class (ex_lifo BACKWARD 8 16) = BACKWARD"
    "bend (ex_lifo FORWARD 0 8) = start (ex_lifo BACKWARD 8 16)"
    "bl_remove_unused_space (ex_lifo BACKWARD 8 16) = ((ex_lifo BACKWARD 8 16)\<lparr>start := 16\<rparr>, 8, 16)"
    by (simp_all add: ex_lifo_defs bl_remove_unused_space_def)
  from lifo_handover [OF ex_lifo_rep(1) this(1) ex_lifo_rep(2) this(2-4)] show ?thesis by blast
qed

end
