(* ===== verification/Window_Funcs.thy ===== *)
theory Window_Funcs
  imports Complex_Main Prelude "HOL-Library.Signed_Division"
begin

text \<open>
  The window functions of \<^verbatim>\<open>item_windowfunc.h\<close>: \<open>ROW_NUMBER\<close>, \<open>PERCENT_RANK\<close>, \<open>CUME_DIST\<close>, \<open>NTILE\<close>,
  \<open>PERCENTILE_DISC\<close> and \<open>PERCENTILE_CONT\<close>, the group tracker and the phases of \<open>Item_window_func\<close>. The
  executor calls \<open>clear\<close> at the start of a partition, \<open>set_partition_row_count\<close> with its size and \<open>add\<close>
  for every row. Row counts are 64-bit words. A \<open>double\<close> is a real number and every arithmetic
  operation on doubles rounds its exact result with the function \<open>rnd\<close>; what the theorems need
  of rounding (it is monotone and keeps small integers) is a hypothesis on \<open>rnd\<close>.
\<close>

section \<open>Kinds of functions\<close>

(* @item_sum.h 351-360 Item_sum::Sumfunctype *)
datatype sumfunctype =
  COUNT_FUNC | COUNT_DISTINCT_FUNC | SUM_FUNC | SUM_DISTINCT_FUNC | AVG_FUNC |
  AVG_DISTINCT_FUNC | MIN_FUNC | MAX_FUNC | STD_FUNC |
  VARIANCE_FUNC | SUM_BIT_FUNC | UDF_SUM_FUNC | GROUP_CONCAT_FUNC |
  ROW_NUMBER_FUNC | RANK_FUNC | DENSE_RANK_FUNC | PERCENT_RANK_FUNC |
  CUME_DIST_FUNC | NTILE_FUNC | FIRST_VALUE_FUNC | LAST_VALUE_FUNC |
  NTH_VALUE_FUNC | LEAD_FUNC | LAG_FUNC | PERCENTILE_CONT_FUNC |
  PERCENTILE_DISC_FUNC | SP_AGGREGATE_FUNC | JSON_ARRAYAGG_FUNC | JSON_OBJECTAGG_FUNC

(* @item_windowfunc.h 1102-1117 Item_window_func::is_frame_prohibited *)
fun is_frame_prohibited :: "sumfunctype \<Rightarrow> bool" where
  "is_frame_prohibited ROW_NUMBER_FUNC = True"
| "is_frame_prohibited RANK_FUNC = True"
| "is_frame_prohibited DENSE_RANK_FUNC = True"
| "is_frame_prohibited PERCENT_RANK_FUNC = True"
| "is_frame_prohibited CUME_DIST_FUNC = True"
| "is_frame_prohibited NTILE_FUNC = True"
| "is_frame_prohibited PERCENTILE_CONT_FUNC = True"
| "is_frame_prohibited PERCENTILE_DISC_FUNC = True"
| "is_frame_prohibited _ = False"

(* @item_windowfunc.h 1119-1131 Item_window_func::requires_special_cursors *)
fun requires_special_cursors :: "sumfunctype \<Rightarrow> bool" where
  "requires_special_cursors FIRST_VALUE_FUNC = True"
| "requires_special_cursors LAST_VALUE_FUNC = True"
| "requires_special_cursors NTH_VALUE_FUNC = True"
| "requires_special_cursors LAG_FUNC = True"
| "requires_special_cursors LEAD_FUNC = True"
| "requires_special_cursors _ = False"

(* @item_windowfunc.h 1133-1145 Item_window_func::requires_partition_size *)
fun requires_partition_size :: "sumfunctype \<Rightarrow> bool" where
  "requires_partition_size PERCENT_RANK_FUNC = True"
| "requires_partition_size CUME_DIST_FUNC = True"
| "requires_partition_size NTILE_FUNC = True"
| "requires_partition_size PERCENTILE_CONT_FUNC = True"
| "requires_partition_size PERCENTILE_DISC_FUNC = True"
| "requires_partition_size _ = False"

(* @item_windowfunc.h 1147-1155 Item_window_func::requires_peer_size *)
fun requires_peer_size :: "sumfunctype \<Rightarrow> bool" where
  "requires_peer_size CUME_DIST_FUNC = True"
| "requires_peer_size _ = False"

(* @item_windowfunc.h 1157-1172 Item_window_func::is_order_list_mandatory *)
fun is_order_list_mandatory :: "sumfunctype \<Rightarrow> bool" where
  "is_order_list_mandatory RANK_FUNC = True"
| "is_order_list_mandatory DENSE_RANK_FUNC = True"
| "is_order_list_mandatory PERCENT_RANK_FUNC = True"
| "is_order_list_mandatory CUME_DIST_FUNC = True"
| "is_order_list_mandatory LAG_FUNC = True"
| "is_order_list_mandatory LEAD_FUNC = True"
| "is_order_list_mandatory PERCENTILE_CONT_FUNC = True"
| "is_order_list_mandatory PERCENTILE_DISC_FUNC = True"
| "is_order_list_mandatory _ = False"

(* @item_windowfunc.h 1174-1183 Item_window_func::only_single_element_order_list *)
fun only_single_element_order_list :: "sumfunctype \<Rightarrow> bool" where
  "only_single_element_order_list PERCENTILE_CONT_FUNC = True"
| "only_single_element_order_list PERCENTILE_DISC_FUNC = True"
| "only_single_element_order_list _ = False"

section \<open>Group tracker\<close>

text \<open>
  \<open>test_if_group_changed\<close> is not part of the headers; its result for the current row is the
  argument \<open>changed\<close>. The results of \<open>cmp_read_only\<close> of the cached fields are the list \<open>cmps\<close>.
\<close>

(* @item_windowfunc.h 42-45 Group_bound_tracker::init *)
definition gbt_init :: bool where
  "gbt_init = True"

(* @item_windowfunc.h 47-63 Group_bound_tracker::check_if_next_group *)
definition check_if_next_group :: "int \<Rightarrow> bool \<Rightarrow> bool \<times> bool" where
  "check_if_next_group changed first_check =
     (if changed > - 1 \<or> first_check then (False, True) else (first_check, False))"

(* @item_windowfunc.h 65-83 Group_bound_tracker::compare_with_cache *)
fun compare_with_cache :: "int list \<Rightarrow> int" where
  "compare_with_cache [] = 0"
| "compare_with_cache (res # cmps) = (if res \<noteq> 0 then res else compare_with_cache cmps)"

section \<open>Row counts\<close>

(* @item_windowfunc.h 112-133 Item_sum_row_number *)
definition row_number_add :: "ulonglong \<Rightarrow> ulonglong \<times> bool" where
  "row_number_add count = (count + 1, False)"

(* @item_windowfunc.h 124-127 Item_sum_row_number::clear *)
definition row_number_clear :: ulonglong where
  "row_number_clear = 0"

(* @item_windowfunc.h 143-146 Item_sum_row_number::val_int *)
definition row_number_val_int :: "ulonglong \<Rightarrow> int" where
  "row_number_val_int count = sint count"

text \<open>A counter converted to a \<open>double\<close>.\<close>

definition to_double :: "(real \<Rightarrow> real) \<Rightarrow> ulonglong \<Rightarrow> real" where
  "to_double rnd n = rnd (real (unat n))"

(* @item_windowfunc.h 471-477 Partition_row_count::calc_val_real *)
definition calc_val_real :: "(real \<Rightarrow> real) \<Rightarrow> ulonglong \<Rightarrow> ulonglong \<Rightarrow> real \<times> bool" where
  "calc_val_real rnd partition_row_count current_row_count =
     (if partition_row_count = 0 then (0, True)
      else (rnd (to_double rnd current_row_count / to_double rnd partition_row_count), False))"

section \<open>\<open>PERCENT_RANK\<close>\<close>

(* @item_windowfunc.h 505-510 Item_sum_percent_rank *)
record percent_rank =
  pr_partition_row_count :: ulonglong
  pr_cur_rank :: ulonglong
  pr_row_number :: ulonglong
  pr_null_value :: bool

(* @item_windowfunc.h 522-533 Item_sum_percent_rank::val_real *)
definition pr_val_real :: "(real \<Rightarrow> real) \<Rightarrow> percent_rank \<Rightarrow> percent_rank \<times> real" where
  "pr_val_real rnd s =
     (let partition_rows = pr_partition_row_count s;
          s' = s\<lparr>pr_null_value := (if partition_rows > 0 then False else True)\<rparr>
      in (s', if partition_rows > 1
              then rnd (rnd (real_of_int (sint (pr_cur_rank s - 1))) / to_double rnd (partition_rows - 1))
              else 0))"

(* @item_windowfunc.h 548-552 Item_sum_percent_rank::clear *)
definition pr_clear :: "percent_rank \<Rightarrow> percent_rank" where
  "pr_clear s = s\<lparr>pr_cur_rank := 1, pr_row_number := 0\<rparr>"

(* @item_windowfunc.h 568-571 Item_sum_percent_rank::set_partition_row_count *)
definition pr_set_partition_row_count :: "percent_rank \<Rightarrow> ulonglong \<Rightarrow> percent_rank" where
  "pr_set_partition_row_count s count = s\<lparr>pr_partition_row_count := count\<rparr>"

section \<open>\<open>CUME_DIST\<close>\<close>

(* @item_windowfunc.h 607-613 Item_sum_cume_dist *)
record cume_dist =
  cd_partition_row_count :: ulonglong
  cd_current_row_count :: ulonglong
  cd_null_value :: bool

(* @item_windowfunc.h 615-618 Item_sum_cume_dist::val_real *)
definition cd_val_real :: "(real \<Rightarrow> real) \<Rightarrow> cume_dist \<Rightarrow> cume_dist \<times> real" where
  "cd_val_real rnd s =
     (let (v, null) = calc_val_real rnd (cd_partition_row_count s) (cd_current_row_count s)
      in (s\<lparr>cd_null_value := null\<rparr>, v))"

(* @item_windowfunc.h 620-624 Item_sum_cume_dist::add *)
definition cd_add :: "cume_dist \<Rightarrow> cume_dist" where
  "cd_add s = s\<lparr>cd_current_row_count := cd_current_row_count s + 1\<rparr>"

(* @item_windowfunc.h 631-635 Item_sum_cume_dist::clear *)
definition cd_clear :: "cume_dist \<Rightarrow> cume_dist" where
  "cd_clear s = s\<lparr>cd_current_row_count := 0, cd_partition_row_count := 0\<rparr>"

(* @item_windowfunc.h 656-659 Item_sum_cume_dist::set_partition_row_count *)
definition cd_set_partition_row_count :: "cume_dist \<Rightarrow> ulonglong \<Rightarrow> cume_dist" where
  "cd_set_partition_row_count s count = s\<lparr>cd_partition_row_count := count\<rparr>"

section \<open>\<open>NTILE\<close>\<close>

(* @item_windowfunc.h 666-673 Item_sum_ntile *)
record ntile =
  nt_partition_row_count :: ulonglong
  nt_current_row_count :: ulonglong
  nt_n_old_val :: ulonglong
  nt_null_value :: bool

text \<open>
  \<open>num_quantiles\<close> is the value of the argument for the current row. The first division is signed;
  a division by zero is \<open>None\<close>. The flag says that \<open>ER_INVALID_NTILE_ARGUMENT\<close> was raised.
\<close>

(* @item_windowfunc.h 675-700 Item_sum_ntile::val_int *)
definition nt_val_int :: "ulonglong \<Rightarrow> ntile \<Rightarrow> (ntile \<times> ulonglong \<times> bool) option" where
  "nt_val_int num_quantiles s =
     (if nt_partition_row_count s = 0 then Some (s\<lparr>nt_null_value := True\<rparr>, 0, False)
      else if sint num_quantiles \<le> 0 \<or> (num_quantiles \<noteq> nt_n_old_val s \<and> nt_n_old_val s > 0)
      then Some (s, 1, True)
      else
        let s' = s\<lparr>nt_n_old_val := num_quantiles, nt_null_value := False\<rparr>;
            quantile_size = word_of_int (sint (nt_partition_row_count s) sdiv sint num_quantiles);
            extra_rows = nt_partition_row_count s - quantile_size * num_quantiles
        in if nt_current_row_count s \<le> extra_rows * (quantile_size + 1)
           then if quantile_size + 1 = 0 then None
                else Some (s', (nt_current_row_count s - 1) div (quantile_size + 1) + 1, False)
           else if quantile_size = 0 then None
                else Some (s', (nt_current_row_count s - 1 - extra_rows) div quantile_size + 1, False))"

(* @item_windowfunc.h 702-706 Item_sum_ntile::add *)
definition nt_add :: "ntile \<Rightarrow> ntile" where
  "nt_add s = s\<lparr>nt_current_row_count := nt_current_row_count s + 1\<rparr>"

(* @item_windowfunc.h 713-718 Item_sum_ntile::clear *)
definition nt_clear :: "ntile \<Rightarrow> ntile" where
  "nt_clear s = s\<lparr>nt_current_row_count := 0, nt_partition_row_count := 0, nt_n_old_val := 0\<rparr>"

(* @item_windowfunc.h 733-736 Item_sum_ntile::set_partition_row_count *)
definition nt_set_partition_row_count :: "ntile \<Rightarrow> ulonglong \<Rightarrow> ntile" where
  "nt_set_partition_row_count s count = s\<lparr>nt_partition_row_count := count\<rparr>"

section \<open>\<open>PERCENTILE_DISC\<close>\<close>

datatype win_error = ER_ARGUMENT_OUT_OF_RANGE | ER_ARGUMENT_NOT_CONSTANT

text \<open>\<open>pd_value\<close> is the cached value of the ordering expression, \<open>None\<close> when it is null.\<close>

(* @item_windowfunc.h 746-755 Item_sum_percentile_disc *)
record 'v percentile_disc =
  pd_partition_row_count :: ulonglong
  pd_current_row_count :: ulonglong
  pd_null_value :: bool
  pd_value :: "'v option"
  pd_val_calculated :: bool
  pd_first_call :: bool
  pd_prev_value :: real

text \<open>
  The six accessors differ in the type of the result only; \<open>arg\<close> is the first argument of the
  function for the current row.
\<close>

(* @item_windowfunc.h 757-821 Item_sum_percentile_disc::val_real *)
definition pd_val :: "real option \<Rightarrow> 'v percentile_disc \<Rightarrow> 'v percentile_disc \<times> 'v option" where
  "pd_val arg s =
     (if pd_partition_row_count s = 0 \<or> arg = None then (s\<lparr>pd_null_value := True\<rparr>, None)
      else (s\<lparr>pd_null_value := False\<rparr>, pd_value s))"

(* @item_windowfunc.h 823-862 Item_sum_percentile_disc::add *)
definition pd_add :: "(real \<Rightarrow> real) \<Rightarrow> real option \<Rightarrow> 'v option \<Rightarrow> 'v percentile_disc \<Rightarrow>
  'v percentile_disc \<times> win_error option" where
  "pd_add rnd arg order_item s = (case arg of
     None \<Rightarrow> (s, None)
   | Some arg_val \<Rightarrow>
       if pd_first_call s \<and> (arg_val > 1 \<or> arg_val < 0)
       then (s\<lparr>pd_prev_value := arg_val\<rparr>, Some ER_ARGUMENT_OUT_OF_RANGE)
       else
         let s1 = (if pd_first_call s then s\<lparr>pd_prev_value := arg_val, pd_first_call := False\<rparr> else s)
         in if pd_prev_value s1 \<noteq> arg_val then (s1, Some ER_ARGUMENT_NOT_CONSTANT)
            else if pd_val_calculated s1 then (s1, None)
            else
              let s2 = s1\<lparr>pd_value := order_item\<rparr>
              in if order_item = None then (s2, None)
                 else
                   let s3 = s2\<lparr>pd_current_row_count := pd_current_row_count s2 + 1\<rparr>;
                       (val, null) = calc_val_real rnd (pd_partition_row_count s3) (pd_current_row_count s3);
                       s4 = s3\<lparr>pd_null_value := null\<rparr>
                   in (if val \<ge> pd_prev_value s4 \<and> \<not> pd_val_calculated s4
                       then s4\<lparr>pd_val_calculated := True\<rparr> else s4, None))"

(* @item_windowfunc.h 869-876 Item_sum_percentile_disc::clear *)
definition pd_clear :: "'v percentile_disc \<Rightarrow> 'v percentile_disc" where
  "pd_clear s = s\<lparr>pd_val_calculated := False, pd_first_call := True, pd_value := None,
     pd_partition_row_count := 0, pd_current_row_count := 0\<rparr>"

(* @item_windowfunc.h 897-900 Item_sum_percentile_disc::set_partition_row_count *)
definition pd_set_partition_row_count :: "'v percentile_disc \<Rightarrow> ulonglong \<Rightarrow> 'v percentile_disc" where
  "pd_set_partition_row_count s count = s\<lparr>pd_partition_row_count := count\<rparr>"

section \<open>\<open>PERCENTILE_CONT\<close>\<close>

text \<open>The two caches hold the \<open>double\<close> value of the ordering expression, \<open>None\<close> when null or cleared.\<close>

(* @item_windowfunc.h 916-923 Item_sum_percentile_cont *)
record percentile_cont =
  pc_partition_row_count :: ulonglong
  pc_current_row_count :: ulonglong
  pc_null_value :: bool
  pc_floor_value :: "real option"
  pc_ceil_value :: "real option"
  pc_first_call :: bool
  pc_prev_value :: real
  pc_ceil_val_calculated :: bool
  pc_floor_val_calculated :: bool

text \<open>The position \<open>1 + prev_value * (get_row_count() - 1)\<close>; the row count is read as a signed number.\<close>

definition pc_position :: "(real \<Rightarrow> real) \<Rightarrow> percentile_cont \<Rightarrow> real" where
  "pc_position rnd s =
     rnd (1 + rnd (pc_prev_value s * rnd (real_of_int (sint (pc_partition_row_count s - 1)))))"

definition cache_val_real :: "real option \<Rightarrow> real" where
  "cache_val_real c = (case c of None \<Rightarrow> 0 | Some x \<Rightarrow> x)"

(* @item_windowfunc.h 925-950 Item_sum_percentile_cont::val_real *)
definition pc_val_real :: "(real \<Rightarrow> real) \<Rightarrow> real option \<Rightarrow> percentile_cont \<Rightarrow> percentile_cont \<times> real" where
  "pc_val_real rnd arg s =
     (if pc_partition_row_count s = 0 \<or> arg = None then (s\<lparr>pc_null_value := True\<rparr>, 0)
      else
        let s' = s\<lparr>pc_null_value := False\<rparr>;
            val = pc_position rnd s
        in if \<lceil>val\<rceil> = \<lfloor>val\<rfloor> then (s', cache_val_real (pc_floor_value s))
           else (s', rnd (rnd (rnd (val - of_int \<lfloor>val\<rfloor>) * cache_val_real (pc_ceil_value s)) +
                          rnd (rnd (of_int \<lceil>val\<rceil> - val) * cache_val_real (pc_floor_value s)))))"

text \<open>\<open>pc_record\<close> is the part of \<open>add\<close> after the checks of the argument.\<close>

(* @item_windowfunc.h 976-1000 Item_sum_percentile_cont::add *)
definition pc_record :: "(real \<Rightarrow> real) \<Rightarrow> real option \<Rightarrow> percentile_cont \<Rightarrow> percentile_cont" where
  "pc_record rnd order_item s1 =
     (let s2 = (if \<not> pc_floor_val_calculated s1 then s1\<lparr>pc_floor_value := order_item\<rparr> else s1)
      in if \<not> pc_floor_val_calculated s1 \<and> order_item = None then s2
         else
           let s3 = (if pc_floor_val_calculated s2 \<and> \<not> pc_ceil_val_calculated s2
                     then s2\<lparr>pc_ceil_value := order_item\<rparr> else s2)
           in if pc_floor_val_calculated s2 \<and> \<not> pc_ceil_val_calculated s2 \<and> order_item = None then s3
              else
                let s4 = s3\<lparr>pc_current_row_count := pc_current_row_count s3 + 1\<rparr>;
                    val = pc_position rnd s4;
                    s5 = (if \<not> pc_floor_val_calculated s4 \<and>
                             to_double rnd (pc_current_row_count s4) = of_int \<lfloor>val\<rfloor>
                          then s4\<lparr>pc_floor_val_calculated := True\<rparr> else s4)
                in if \<not> pc_ceil_val_calculated s5 \<and>
                      to_double rnd (pc_current_row_count s5) = of_int \<lceil>val\<rceil>
                   then s5\<lparr>pc_ceil_val_calculated := True\<rparr> else s5)"

(* @item_windowfunc.h 952-1000 Item_sum_percentile_cont::add *)
definition pc_add :: "(real \<Rightarrow> real) \<Rightarrow> real option \<Rightarrow> real option \<Rightarrow> percentile_cont \<Rightarrow>
  percentile_cont \<times> win_error option" where
  "pc_add rnd arg order_item s = (case arg of
     None \<Rightarrow> (s, None)
   | Some arg_val \<Rightarrow>
       let s1 = (if pc_first_call s then s\<lparr>pc_first_call := False, pc_prev_value := arg_val\<rparr> else s)
       in if pc_first_call s \<and> (arg_val > 1 \<or> arg_val < 0) then (s1, Some ER_ARGUMENT_OUT_OF_RANGE)
          else if pc_prev_value s1 \<noteq> arg_val then (s1, Some ER_ARGUMENT_NOT_CONSTANT)
          else (pc_record rnd order_item s1, None))"

(* @item_windowfunc.h 1007-1016 Item_sum_percentile_cont::clear *)
definition pc_clear :: "percentile_cont \<Rightarrow> percentile_cont" where
  "pc_clear s = s\<lparr>pc_first_call := True, pc_floor_value := None, pc_ceil_value := None,
     pc_floor_val_calculated := False, pc_ceil_val_calculated := False,
     pc_partition_row_count := 0, pc_current_row_count := 0\<rparr>"

(* @item_windowfunc.h 1034-1037 Item_sum_percentile_cont::set_partition_row_count *)
definition pc_set_partition_row_count :: "percentile_cont \<Rightarrow> ulonglong \<Rightarrow> percentile_cont" where
  "pc_set_partition_row_count s count = s\<lparr>pc_partition_row_count := count\<rparr>"

section \<open>Phases of \<open>Item_window_func\<close>\<close>

(* @item_windowfunc.h 1201-1222 Item_window_func *)
record window_func =
  wf_force_return_blank :: bool
  wf_read_value_from_result_field :: bool

(* @item_windowfunc.h 1226-1230 Item_window_func::set_phase_to_initial *)
definition set_phase_to_initial :: "window_func \<Rightarrow> window_func" where
  "set_phase_to_initial w = w\<lparr>wf_force_return_blank := True, wf_read_value_from_result_field := False\<rparr>"

(* @item_windowfunc.h 1231-1235 Item_window_func::set_phase_to_computation *)
definition set_phase_to_computation :: "window_func \<Rightarrow> window_func" where
  "set_phase_to_computation w = w\<lparr>wf_force_return_blank := False, wf_read_value_from_result_field := False\<rparr>"

(* @item_windowfunc.h 1236-1240 Item_window_func::set_phase_to_retrieval *)
definition set_phase_to_retrieval :: "window_func \<Rightarrow> window_func" where
  "set_phase_to_retrieval w = w\<lparr>wf_force_return_blank := False, wf_read_value_from_result_field := True\<rparr>"

text \<open>
  \<open>field\<close> and \<open>func\<close> give the value read from the temporary table and from the function itself,
  each with its null flag; the result carries the new \<open>null_value\<close> of the item.
\<close>

(* @item_windowfunc.h 1242-1251 Item_window_func::is_null *)
definition wf_is_null :: "window_func \<Rightarrow> bool \<Rightarrow> bool \<Rightarrow> bool" where
  "wf_is_null w field_null func_null =
     (if wf_force_return_blank w then True
      else if wf_read_value_from_result_field w then field_null
      else func_null)"

(* @item_windowfunc.h 1253-1272 Item_window_func::val_real *)
definition wf_val_real :: "window_func \<Rightarrow> real \<times> bool \<Rightarrow> real \<times> bool \<Rightarrow> real \<times> bool" where
  "wf_val_real w field func =
     (if wf_force_return_blank w then (0, True)
      else if wf_read_value_from_result_field w then field
      else func)"

(* @item_windowfunc.h 1274-1293 Item_window_func::val_int *)
definition wf_val_int :: "window_func \<Rightarrow> ulonglong \<times> bool \<Rightarrow> ulonglong \<times> bool \<Rightarrow> ulonglong \<times> bool" where
  "wf_val_int w field func =
     (if wf_force_return_blank w then (0, True)
      else if wf_read_value_from_result_field w then field
      else func)"

(* @item_windowfunc.h 1295-1316 Item_window_func::val_str *)
definition wf_val_str :: "window_func \<Rightarrow> 's \<times> bool \<Rightarrow> 's option \<times> bool \<Rightarrow> 's option \<times> bool" where
  "wf_val_str w field func =
     (if wf_force_return_blank w then (None, True)
      else if wf_read_value_from_result_field w
      then if snd field then (None, True) else (Some (fst field), False)
      else func)"

(* @item_windowfunc.h 1327-1348 Item_window_func::val_decimal *)
definition wf_val_decimal :: "window_func \<Rightarrow> 'd \<times> bool \<Rightarrow> 'd option \<times> bool \<Rightarrow> 'd option \<times> bool" where
  "wf_val_decimal w field func =
     (if wf_force_return_blank w then (None, True)
      else if wf_read_value_from_result_field w
      then if snd field then (None, True) else (Some (fst field), False)
      else func)"

text \<open>\<open>get_date\<close> returns true for an error or a null, with the date it filled in.\<close>

(* @item_windowfunc.h 1350-1371 Item_window_func::get_date *)
definition wf_get_date :: "window_func \<Rightarrow> bool \<Rightarrow> bool \<times> 't \<Rightarrow> (bool \<times> 't) \<times> bool \<Rightarrow> 't \<Rightarrow> (bool \<times> 't) \<times> bool" where
  "wf_get_date w field_null field func ltime =
     (if wf_force_return_blank w then ((True, ltime), True)
      else if wf_read_value_from_result_field w
      then if field_null then ((True, ltime), True) else (field, False)
      else func)"

section \<open>\<open>NTILE\<close> splits a partition evenly\<close>

text \<open>The formula on natural numbers, and the number of rows in the groups before group \<open>k\<close>.\<close>

definition ntile_formula :: "nat \<Rightarrow> nat \<Rightarrow> nat \<Rightarrow> nat" where
  "ntile_formula N n r =
     (if r \<le> (N mod n) * (N div n + 1) then (r - 1) div (N div n + 1) + 1
      else (r - 1 - N mod n) div (N div n) + 1)"

definition tile_start :: "nat \<Rightarrow> nat \<Rightarrow> nat \<Rightarrow> nat" where
  "tile_start N n k = (k - 1) * (N div n) + min (k - 1) (N mod n)"

lemma extra_rows_bound: "(N mod n) * (N div n + 1) \<le> (N :: nat)"
proof (cases "n = 0")
  case False
  then have "(N mod n) * (N div n) \<le> n * (N div n)" by (intro mult_le_mono1) (simp add: less_imp_le)
  then show ?thesis using mult_div_mod_eq [of n N] unfolding distrib_left mult_1_right by linarith
qed simp

lemma quotient_positive:
  assumes "0 < n" "r \<le> (N :: nat)" "\<not> r \<le> (N mod n) * (N div n + 1)"
  shows "0 < N div n"
proof (rule ccontr)
  assume "\<not> 0 < N div n"
  then have "N div n = 0" by (simp only: not_gr_zero)
  then have "N mod n = N" using mult_div_mod_eq [of n N] by simp
  then show False using assms \<open>N div n = 0\<close> by simp
qed

lemma ntile_formula_bounds:
  assumes "0 < n" "1 \<le> r" "r \<le> N"
  shows "tile_start N n (ntile_formula N n r) < r \<and> r \<le> tile_start N n (Suc (ntile_formula N n r))"
proof -
  define q e where "q = N div n" and "e = N mod n"
  show ?thesis
  proof (cases "r \<le> e * (q + 1)")
    case True
    define j where "j = (r - 1) div (q + 1)"
    have k: "ntile_formula N n r = Suc j" using True by (simp add: ntile_formula_def q_def e_def j_def)
    have "r - 1 < e * (q + 1)" using True assms(2) by simp
    then have "j < e" unfolding j_def by (simp add: less_mult_imp_div_less)
    moreover have "j * (q + 1) \<le> r - 1" "r - 1 < Suc j * (q + 1)"
      unfolding j_def using dividend_less_div_times [of "q + 1" "r - 1"]
      by (simp_all add: div_times_less_eq_dividend del: mult_Suc_right)
    ultimately show ?thesis
      using assms(2) unfolding k tile_start_def by (simp add: q_def [symmetric] e_def [symmetric] algebra_simps) linarith
  next
    case False
    then have q: "0 < q" using quotient_positive [OF assms(1,3)] by (simp add: q_def e_def)
    define j where "j = (r - 1 - e) div q"
    have k: "ntile_formula N n r = Suc j" using False by (simp add: ntile_formula_def q_def e_def j_def)
    have "e * q \<le> r - 1 - e" using False by simp
    then have "e \<le> j" unfolding j_def using q by (simp add: less_eq_div_iff_mult_less_eq)
    moreover have "j * q \<le> r - 1 - e" "r - 1 - e < Suc j * q"
      unfolding j_def using q dividend_less_div_times [of q "r - 1 - e"]
      by (simp_all add: div_times_less_eq_dividend)
    moreover have "e < r" using False by auto
    ultimately show ?thesis
      using assms(2) unfolding k tile_start_def by (simp add: q_def [symmetric] e_def [symmetric] algebra_simps) linarith
  qed
qed

lemma tile_start_mono: "i \<le> j \<Longrightarrow> tile_start N n i \<le> tile_start N n j"
  unfolding tile_start_def by (intro add_mono mult_le_mono1 min.mono) auto

lemma tile_start_end: "0 < n \<Longrightarrow> tile_start N n (Suc n) = N"
  by (simp add: tile_start_def less_imp_le)

lemma tile_unique:
  assumes "tile_start N n i < r" "r \<le> tile_start N n (Suc i)" "tile_start N n j < r" "r \<le> tile_start N n (Suc j)"
  shows "i = j"
proof (rule ccontr)
  assume "i \<noteq> j"
  then consider "Suc i \<le> j" | "Suc j \<le> i" by linarith
  then show False using tile_start_mono [of "Suc i" j N n] tile_start_mono [of "Suc j" i N n] assms by cases auto
qed

lemma ntile_group:
  assumes "0 < n" "k \<in> {1..n}"
  shows "{r \<in> {1..N}. ntile_formula N n r = k} = {tile_start N n k <.. tile_start N n (Suc k)}"
proof (intro set_eqI iffI)
  fix r assume "r \<in> {r \<in> {1..N}. ntile_formula N n r = k}"
  then show "r \<in> {tile_start N n k <.. tile_start N n (Suc k)}"
    using ntile_formula_bounds [OF assms(1), of r N] by auto
next
  fix r assume r: "r \<in> {tile_start N n k <.. tile_start N n (Suc k)}"
  then have "r \<in> {1..N}"
    using tile_start_mono [of "Suc k" "Suc n" N n] tile_start_end [OF assms(1), of N] assms(2) by auto
  then show "r \<in> {r \<in> {1..N}. ntile_formula N n r = k}"
    using tile_unique [of N n k r] ntile_formula_bounds [OF assms(1), of r N] r by auto
qed

lemma ntile_range:
  assumes "0 < n" "r \<in> {1..N}"
  shows "ntile_formula N n r \<in> {1..n}"
proof -
  let ?k = "ntile_formula N n r"
  have b: "tile_start N n ?k < r" using ntile_formula_bounds [OF assms(1), of r N] assms(2) by auto
  have "\<not> Suc n \<le> ?k"
    using tile_start_mono [of "Suc n" ?k N n] b assms(2) tile_start_end [OF assms(1), of N] by auto
  then show ?thesis by (auto simp: ntile_formula_def)
qed

lemma ntile_monotone:
  assumes "0 < n" "r \<in> {1..N}" "r' \<in> {1..N}" "r \<le> r'"
  shows "ntile_formula N n r \<le> ntile_formula N n r'"
proof (rule ccontr)
  assume "\<not> ?thesis"
  then show False
    using tile_start_mono [of "Suc (ntile_formula N n r')" "ntile_formula N n r" N n] assms
      ntile_formula_bounds [OF assms(1), of r N] ntile_formula_bounds [OF assms(1), of r' N] by auto
qed

text \<open>The 64-bit computation follows the formula.\<close>

lemma unat_of_nat64: "k < 2 ^ 64 \<Longrightarrow> unat (of_nat k :: ulonglong) = k"
  by (simp add: unsigned_of_nat take_bit_nat_eq_self)

lemma sint_of_nat64: "k < 2 ^ 63 \<Longrightarrow> sint (of_nat k :: ulonglong) = int k"
  by (simp add: signed_of_nat signed_take_bit_int_eq_self)

lemma of_nat64_div: "a < 2 ^ 64 \<Longrightarrow> b < 2 ^ 64 \<Longrightarrow> (of_nat a :: ulonglong) div of_nat b = of_nat (a div b)"
  by (simp add: word_arith_nat_div unat_of_nat64)

lemma of_nat64_eq_0: "a < 2 ^ 64 \<Longrightarrow> (of_nat a :: ulonglong) = 0 \<longleftrightarrow> a = 0"
  by (auto simp: word_of_nat_eq_0_iff dest: nat_dvd_not_less)

lemma of_nat64_le: "a < 2 ^ 64 \<Longrightarrow> b < 2 ^ 64 \<Longrightarrow> (of_nat a :: ulonglong) \<le> of_nat b \<longleftrightarrow> a \<le> b"
  by (simp add: word_le_nat_alt unat_of_nat64)

lemma of_nat64_diff: "b \<le> a \<Longrightarrow> (of_nat a :: ulonglong) - of_nat b = of_nat (a - b)"
  by simp

lemma nt_val_int_formula:
  assumes "0 < n" "n < 2 ^ 63" "N < 2 ^ 63" "r \<in> {1..N}"
    and s: "nt_partition_row_count s = of_nat N" "nt_current_row_count s = of_nat r"
      "nt_n_old_val s = 0 \<or> nt_n_old_val s = of_nat n"
  shows "nt_val_int (of_nat n) s =
    Some (s\<lparr>nt_n_old_val := of_nat n, nt_null_value := False\<rparr>, of_nat (ntile_formula N n r), False)"
proof -
  define q e where "q = N div n" and "e = N mod n"
  have N: "N < 2 ^ 64" "n < 2 ^ 64" "r < 2 ^ 64" "N \<noteq> 0" "1 \<le> r" "r \<le> N" using assms by auto
  have qb: "q \<le> N" by (simp add: q_def)
  have eb: "e * (q + 1) \<le> N" "e \<le> N" using extra_rows_bound [of N n] by (simp_all add: q_def e_def)
  have quot: "word_of_int (sint (of_nat N :: ulonglong) sdiv sint (of_nat n :: ulonglong)) = (of_nat q :: ulonglong)"
  proof -
    have "int N sdiv int n = int q"
      using assms(1) N(4) by (simp add: signed_divide_int_def zdiv_int q_def)
    then show ?thesis using assms(2,3) by (simp add: sint_of_nat64)
  qed
  have extra: "(of_nat N :: ulonglong) - of_nat q * of_nat n = of_nat e"
  proof -
    have "of_nat N = (of_nat (q * n + e) :: ulonglong)" by (simp add: q_def e_def)
    then show ?thesis by simp
  qed
  have lim: "(of_nat e :: ulonglong) * (of_nat q + 1) = of_nat (e * (q + 1))" by (simp add: algebra_simps)
  have cond: "(of_nat r :: ulonglong) \<le> of_nat (e * (q + 1)) \<longleftrightarrow> r \<le> e * (q + 1)"
    using N eb by (intro of_nat64_le) auto
  have q1: "(of_nat q :: ulonglong) + 1 = of_nat (q + 1)" "(of_nat (q + 1) :: ulonglong) \<noteq> 0"
    using N qb assms(3) of_nat64_eq_0 [of "q + 1"] by auto
  have r1: "(of_nat r :: ulonglong) - 1 = of_nat (r - 1)" using N(5) of_nat64_diff [of 1 r] by simp
  have start: "nt_val_int (of_nat n) s =
     (if r \<le> e * (q + 1)
      then Some (s\<lparr>nt_n_old_val := of_nat n, nt_null_value := False\<rparr>, of_nat (r - 1) div of_nat (q + 1) + 1, False)
      else if (of_nat q :: ulonglong) = 0 then None
      else Some (s\<lparr>nt_n_old_val := of_nat n, nt_null_value := False\<rparr>, (of_nat (r - 1) - of_nat e) div of_nat q + 1, False))"
    unfolding nt_val_int_def Let_def s quot extra r1
    using s(3) N assms(1,2) q1 cond lim of_nat64_eq_0 [of N] by (auto simp: sint_of_nat64 simp del: of_nat_Suc of_nat_add of_nat_mult)
  show ?thesis
  proof (cases "r \<le> e * (q + 1)")
    case True
    have "(of_nat (r - 1) :: ulonglong) div of_nat (q + 1) = of_nat ((r - 1) div (q + 1))"
      using N qb assms(3) by (intro of_nat64_div) simp_all
    then show ?thesis
      using start True unfolding ntile_formula_def q_def [symmetric] e_def [symmetric] by (simp del: of_nat_diff)
  next
    case False
    have q: "0 < q" using quotient_positive [OF assms(1) N(6)] False by (simp add: q_def e_def)
    have "(of_nat (r - 1) :: ulonglong) - of_nat e = of_nat (r - 1 - e)" using False by (intro of_nat64_diff) auto
    moreover have "(of_nat (r - 1 - e) :: ulonglong) div of_nat q = of_nat ((r - 1 - e) div q)"
      using N qb by (intro of_nat64_div) linarith+
    moreover have "(of_nat q :: ulonglong) \<noteq> 0" using of_nat64_eq_0 [of q] q qb N(1) by linarith
    ultimately show ?thesis
      using start False unfolding ntile_formula_def q_def [symmetric] e_def [symmetric] by (simp del: of_nat_diff)
  qed
qed

section \<open>Rounding\<close>

text \<open>Rounding to the nearest \<open>double\<close> is monotone and keeps the integers up to \<open>2^53\<close>; \<open>N\<close> is the largest one needed.\<close>

definition rounding :: "(real \<Rightarrow> real) \<Rightarrow> nat \<Rightarrow> bool" where
  "rounding rnd N \<longleftrightarrow> mono rnd \<and> (\<forall>k\<le>N. rnd (real k) = real k)"

lemma rounding_between:
  "rounding rnd N \<Longrightarrow> real a \<le> x \<Longrightarrow> x \<le> real b \<Longrightarrow> a \<le> N \<Longrightarrow> b \<le> N \<Longrightarrow> real a \<le> rnd x \<and> rnd x \<le> real b"
  unfolding rounding_def by (metis monoD)

lemma rounding_id: "rounding (\<lambda>x. x) N"
  by (simp add: rounding_def mono_def)

lemma to_double_of_nat: "rounding rnd N \<Longrightarrow> k \<le> N \<Longrightarrow> N < 2 ^ 64 \<Longrightarrow> to_double rnd (of_nat k) = real k"
  by (simp add: to_double_def rounding_def unat_of_nat64)

section \<open>\<open>PERCENTILE_DISC\<close> returns the first row that reaches the fraction\<close>

text \<open>The rows of a partition with the constant argument \<open>p\<close>, and the errors they raise.\<close>

primrec pd_rows :: "(real \<Rightarrow> real) \<Rightarrow> real \<Rightarrow> 'v list \<Rightarrow> 'v percentile_disc \<Rightarrow> 'v percentile_disc \<times> win_error option list" where
  "pd_rows rnd p [] s = (s, [])"
| "pd_rows rnd p (v # vs) s =
     (let (s1, e) = pd_add rnd (Some p) (Some v) s; (s2, es) = pd_rows rnd p vs s1 in (s2, e # es))"

lemma pd_rows_done:
  "pd_val_calculated s \<Longrightarrow> \<not> pd_first_call s \<Longrightarrow> pd_prev_value s = p \<Longrightarrow>
   pd_rows rnd p vs s = (s, replicate (length vs) None)"
  by (induction vs) (simp_all add: pd_add_def)

lemma pd_add_step:
  assumes "rounding rnd N" "N < 2 ^ 64" "i < N" "0 \<le> p" "p \<le> 1"
    and s: "pd_partition_row_count s = of_nat N" "pd_current_row_count s = of_nat i" "\<not> pd_val_calculated s"
      "pd_first_call s \<or> pd_prev_value s = p"
  shows "\<exists>s'. pd_add rnd (Some p) (Some v) s = (s', None) \<and> pd_partition_row_count s' = of_nat N \<and>
    pd_current_row_count s' = of_nat (Suc i) \<and> pd_value s' = Some v \<and> \<not> pd_first_call s' \<and> pd_prev_value s' = p \<and>
    pd_val_calculated s' = (p \<le> rnd (real (Suc i) / real N))"
proof -
  have "(of_nat N :: ulonglong) \<noteq> 0" using assms(2,3) of_nat64_eq_0 [of N] by simp
  moreover have "to_double rnd (of_nat i + 1) = real (Suc i)" "to_double rnd (of_nat N) = real N"
    using to_double_of_nat [OF assms(1), of "Suc i"] to_double_of_nat [OF assms(1), of N] assms(2,3)
    by (simp_all add: add.commute)
  ultimately show ?thesis
    using s assms(4,5) by (auto simp: pd_add_def calc_val_real_def Let_def add.commute)
qed

lemma pd_rows_first:
  assumes "rounding rnd N" "N < 2 ^ 64" "0 \<le> p" "p \<le> 1" "i + length vs = N" "vs \<noteq> []"
    and "pd_partition_row_count s = of_nat N" "pd_current_row_count s = of_nat i" "\<not> pd_val_calculated s"
      "pd_first_call s \<or> pd_prev_value s = p"
    and "\<forall>j\<in>{1..i}. rnd (real j / real N) < p"
  shows "\<exists>s' k. pd_rows rnd p vs s = (s', replicate (length vs) None) \<and> pd_partition_row_count s' = of_nat N \<and>
    k \<in> {Suc i..N} \<and> pd_value s' = Some (vs ! (k - Suc i)) \<and> p \<le> rnd (real k / real N) \<and>
    (\<forall>j\<in>{1..<k}. rnd (real j / real N) < p)"
  using assms
proof (induction vs arbitrary: s i)
  case (Cons v vs)
  have iN: "i < N" using Cons.prems(5) by simp
  obtain s1 where s1: "pd_add rnd (Some p) (Some v) s = (s1, None)" "pd_partition_row_count s1 = of_nat N"
    "pd_current_row_count s1 = of_nat (Suc i)" "pd_value s1 = Some v" "\<not> pd_first_call s1" "pd_prev_value s1 = p"
    "pd_val_calculated s1 = (p \<le> rnd (real (Suc i) / real N))"
    using pd_add_step [OF Cons.prems(1,2) iN Cons.prems(3,4,7-10)] by blast
  show ?case
  proof (cases "p \<le> rnd (real (Suc i) / real N)")
    case True
    then have "pd_rows rnd p (v # vs) s = (s1, replicate (length (v # vs)) None)"
      using s1 pd_rows_done [of s1 p rnd vs] by simp
    then show ?thesis
      using s1 True Cons.prems(11) iN by (intro exI [of _ s1] exI [of _ "Suc i"]) auto
  next
    case False
    have "rnd (real N / real N) = 1" using Cons.prems(1) iN by (auto simp: rounding_def dest: spec [of _ 1])
    then have ne: "vs \<noteq> []" using False Cons.prems(4,5) by auto
    have "\<forall>j\<in>{1..Suc i}. rnd (real j / real N) < p"
      using Cons.prems(11) False by (auto simp: atLeastAtMostSuc_conv)
    then obtain s' k where "pd_rows rnd p vs s1 = (s', replicate (length vs) None)" "pd_partition_row_count s' = of_nat N"
      "k \<in> {Suc (Suc i)..N}" "pd_value s' = Some (vs ! (k - Suc (Suc i)))" "p \<le> rnd (real k / real N)"
      "\<forall>j\<in>{1..<k}. rnd (real j / real N) < p"
      using Cons.IH [OF Cons.prems(1-4) _ ne s1(2,3)] s1 False Cons.prems(5) by auto
    then show ?thesis
      using s1(1) by (intro exI [of _ s'] exI [of _ k]) (auto simp: nth_Cons' Suc_diff_le)
  qed
qed simp

section \<open>\<open>PERCENTILE_CONT\<close> interpolates between two rows\<close>

primrec pc_rows :: "(real \<Rightarrow> real) \<Rightarrow> real \<Rightarrow> real list \<Rightarrow> percentile_cont \<Rightarrow> percentile_cont \<times> win_error option list" where
  "pc_rows rnd p [] s = (s, [])"
| "pc_rows rnd p (v # vs) s =
     (let (s1, e) = pc_add rnd (Some p) (Some v) s; (s2, es) = pc_rows rnd p vs s1 in (s2, e # es))"

definition cont_position :: "(real \<Rightarrow> real) \<Rightarrow> real \<Rightarrow> nat \<Rightarrow> real" where
  "cont_position rnd p N = rnd (1 + rnd (p * real (N - 1)))"

lemma cont_position_range:
  assumes "rounding rnd N" "0 < N" "0 \<le> p" "p \<le> 1"
  shows "1 \<le> cont_position rnd p N \<and> cont_position rnd p N \<le> real N"
proof -
  have "p * real (N - 1) \<le> real (N - 1)" using assms(3,4) by (simp add: mult_left_le_one_le)
  then have "0 \<le> rnd (p * real (N - 1)) \<and> rnd (p * real (N - 1)) \<le> real (N - 1)"
    using rounding_between [OF assms(1), of 0 "p * real (N - 1)" "N - 1"] assms(3) by simp
  then show ?thesis
    using rounding_between [OF assms(1), of 1 "1 + rnd (p * real (N - 1))" N] assms(2)
    by (simp add: cont_position_def of_nat_diff)
qed

lemma pc_position_eq:
  assumes "rounding rnd N" "0 < N" "N < 2 ^ 63" "pc_partition_row_count s = of_nat N" "pc_prev_value s = p"
  shows "pc_position rnd s = cont_position rnd p N"
proof -
  have "(of_nat N :: ulonglong) - 1 = of_nat (N - 1)" using assms(2) by (simp add: of_nat_diff)
  then have "sint (pc_partition_row_count s - 1) = int (N - 1)"
    using assms(3,4) sint_of_nat64 [of "N - 1"] by simp
  moreover have "rnd (real (N - 1)) = real (N - 1)" using assms(1) by (simp add: rounding_def)
  ultimately show ?thesis using assms(5) by (simp add: pc_position_def cont_position_def)
qed

text \<open>What is known after \<open>i\<close> of the rows \<open>ws\<close>; \<open>f\<close> and \<open>c\<close> are the rows below and above the position.\<close>

definition pc_inv :: "nat \<Rightarrow> real \<Rightarrow> nat \<Rightarrow> nat \<Rightarrow> real list \<Rightarrow> nat \<Rightarrow> percentile_cont \<Rightarrow> bool" where
  "pc_inv N p f c ws i s \<longleftrightarrow>
     pc_partition_row_count s = of_nat N \<and> pc_current_row_count s = of_nat i \<and>
     (if pc_first_call s then i = 0 else pc_prev_value s = p) \<and>
     (pc_floor_val_calculated s \<longleftrightarrow> f \<le> i) \<and> (pc_ceil_val_calculated s \<longleftrightarrow> c \<le> i) \<and>
     (f \<le> i \<longrightarrow> pc_floor_value s = Some (ws ! (f - 1))) \<and>
     (f < c \<and> c \<le> i \<longrightarrow> pc_ceil_value s = Some (ws ! (c - 1)))"

lemma pc_add_started:
  assumes "0 \<le> p" "p \<le> 1" "pc_first_call s \<or> pc_prev_value s = p"
  shows "pc_add rnd (Some p) x s = (pc_record rnd x (s\<lparr>pc_first_call := False, pc_prev_value := p\<rparr>), None)"
proof (cases "pc_first_call s")
  case False
  then have eq: "s\<lparr>pc_first_call := False, pc_prev_value := p\<rparr> = s" using assms(3) by (cases s) simp
  show ?thesis unfolding eq using assms False by (simp add: pc_add_def)
qed (use assms in \<open>simp add: pc_add_def\<close>)

lemma pc_add_step:
  assumes "rounding rnd N" "N < 2 ^ 63" "i < N" "0 \<le> p" "p \<le> 1" "i < length ws"
    and fc: "int f = \<lfloor>cont_position rnd p N\<rfloor>" "int c = \<lceil>cont_position rnd p N\<rceil>" "1 \<le> f" "c = f \<or> c = Suc f"
    and inv: "pc_inv N p f c ws i s"
  shows "\<exists>s'. pc_add rnd (Some p) (Some (ws ! i)) s = (s', None) \<and> pc_inv N p f c ws (Suc i) s'"
proof -
  define t where "t = s\<lparr>pc_first_call := False, pc_prev_value := p\<rparr>"
  have t: "pc_partition_row_count t = of_nat N" "pc_current_row_count t = of_nat i" "\<not> pc_first_call t"
    "pc_prev_value t = p" "pc_floor_val_calculated t \<longleftrightarrow> f \<le> i" "pc_ceil_val_calculated t \<longleftrightarrow> c \<le> i"
    "f \<le> i \<longrightarrow> pc_floor_value t = Some (ws ! (f - 1))"
    "f < c \<and> c \<le> i \<longrightarrow> pc_ceil_value t = Some (ws ! (c - 1))"
    using inv by (simp_all add: t_def pc_inv_def)
  have pos: "pc_position rnd s' = cont_position rnd (pc_prev_value s') N"
    if "pc_partition_row_count s' = of_nat N" for s'
    using pc_position_eq [OF assms(1) _ assms(2) that] assms(3) by simp
  have cur: "to_double rnd (of_nat (Suc i)) = real (Suc i)"
    using to_double_of_nat [OF assms(1), of "Suc i"] assms(2,3) by simp
  have row: "to_double rnd (of_nat (Suc i)) = of_int \<lfloor>cont_position rnd p N\<rfloor> \<longleftrightarrow> Suc i = f"
    "to_double rnd (of_nat (Suc i)) = of_int \<lceil>cont_position rnd p N\<rceil> \<longleftrightarrow> Suc i = c"
    unfolding fc(1,2) [symmetric] cur by (simp_all only: of_int_of_nat_eq of_nat_eq_iff)
  have succ: "(of_nat i :: ulonglong) + 1 = of_nat (Suc i)" by simp
  have "pc_inv N p f c ws (Suc i) (pc_record rnd (Some (ws ! i)) t)"
  proof (cases "i < f")
    case True
    then show ?thesis using t fc(3,4) row
      by (auto simp: pc_record_def pc_inv_def Let_def pos succ simp del: of_nat_Suc)
  next
    case False
    then show ?thesis using t fc(3,4) row
      by (auto simp: pc_record_def pc_inv_def Let_def pos succ simp del: of_nat_Suc)
  qed
  moreover have "pc_first_call s \<or> pc_prev_value s = p" using inv by (auto simp: pc_inv_def split: if_splits)
  ultimately show ?thesis using pc_add_started [OF assms(4,5)] unfolding t_def by metis
qed

lemma pc_rows_inv:
  assumes "rounding rnd N" "N < 2 ^ 63" "0 \<le> p" "p \<le> 1"
    and fc: "int f = \<lfloor>cont_position rnd p N\<rfloor>" "int c = \<lceil>cont_position rnd p N\<rceil>" "1 \<le> f" "c = f \<or> c = Suc f"
    and "pc_inv N p f c ws i s" "vs = drop i ws" "length ws = N" "i \<le> N"
  shows "\<exists>s'. pc_rows rnd p vs s = (s', replicate (length vs) None) \<and> pc_inv N p f c ws N s'"
  using assms(9-)
proof (induction vs arbitrary: s i)
  case Nil
  then have "i = N" by simp
  then show ?case using Nil by simp
next
  case (Cons v vs)
  have l: "i < length ws" using Cons.prems(2) by (metis drop_all list.distinct(1) not_le)
  then have i: "i < N" "v = ws ! i" "vs = drop (Suc i) ws"
    using Cons.prems(2,3) Cons_nth_drop_Suc [OF l] by (metis list.inject)+
  obtain s1 where s1: "pc_add rnd (Some p) (Some v) s = (s1, None)" "pc_inv N p f c ws (Suc i) s1"
    using pc_add_step [OF assms(1,2) i(1) assms(3,4) l fc Cons.prems(1)] i(2) by blast
  then show ?case using Cons.IH [OF s1(2) i(3) Cons.prems(3)] i(1) by auto
qed

section \<open>Sample states\<close>

definition ex_pd :: "nat percentile_disc" where
  "ex_pd = \<lparr>pd_partition_row_count = 0, pd_current_row_count = 0, pd_null_value = False, pd_value = None,
     pd_val_calculated = False, pd_first_call = True, pd_prev_value = 0\<rparr>"

definition ex_pc :: percentile_cont where
  "ex_pc = \<lparr>pc_partition_row_count = 0, pc_current_row_count = 0, pc_null_value = False, pc_floor_value = None,
     pc_ceil_value = None, pc_first_call = True, pc_prev_value = 0, pc_ceil_val_calculated = False,
     pc_floor_val_calculated = False\<rparr>"

section \<open>Properties\<close>

text \<open>\<open>NTILE(n)\<close> numbers the rows of a partition of \<open>N\<close> rows with groups from 1 to \<open>n\<close> in order;
  every group has \<open>N div n\<close> rows, and the first \<open>N mod n\<close> groups have one more. No division by zero
  and no overflow occurs, also when there are more groups than rows.\<close>

theorem ntile_correct:
  assumes "0 < n" "n < 2 ^ 63" "0 < N" "N < 2 ^ 63"
    and s: "nt_partition_row_count s = of_nat N" "nt_n_old_val s = 0 \<or> nt_n_old_val s = of_nat n"
  shows "\<exists>tile. (\<forall>r \<in> {1..N}. nt_val_int (of_nat n) (s\<lparr>nt_current_row_count := of_nat r\<rparr>) =
        Some (s\<lparr>nt_current_row_count := of_nat r, nt_n_old_val := of_nat n, nt_null_value := False\<rparr>, of_nat (tile r), False) \<and>
        tile r \<in> {1..n}) \<and>
    (\<forall>r \<in> {1..N}. \<forall>r' \<in> {1..N}. r \<le> r' \<longrightarrow> tile r \<le> tile r') \<and>
    (\<forall>k \<in> {1..n}. card {r \<in> {1..N}. tile r = k} = N div n + (if k \<le> N mod n then 1 else 0))"
proof (intro exI [of _ "ntile_formula N n"] conjI ballI impI)
  fix r assume r: "r \<in> {1..N}"
  show "nt_val_int (of_nat n) (s\<lparr>nt_current_row_count := of_nat r\<rparr>) =
    Some (s\<lparr>nt_current_row_count := of_nat r, nt_n_old_val := of_nat n, nt_null_value := False\<rparr>,
      of_nat (ntile_formula N n r), False)"
    using nt_val_int_formula [OF assms(1,2,4) r, of "s\<lparr>nt_current_row_count := of_nat r\<rparr>"] s by simp
  show "ntile_formula N n r \<in> {1..n}" by (rule ntile_range [OF assms(1) r])
next
  fix r r' assume "r \<in> {1..N}" "r' \<in> {1..N}" "r \<le> r'"
  then show "ntile_formula N n r \<le> ntile_formula N n r'" using ntile_monotone [OF assms(1)] by blast
next
  fix k assume k: "k \<in> {1..n}"
  then obtain j where "k = Suc j" by (cases k) auto
  then show "card {r \<in> {1..N}. ntile_formula N n r = k} = N div n + (if k \<le> N mod n then 1 else 0)"
    unfolding ntile_group [OF assms(1) k] by (auto simp: tile_start_def min_def)
qed

theorem ntile_witness:
  "\<exists>tile. \<forall>k \<in> {1..3::nat}. card {r \<in> {1..7::nat}. tile r = k} = 7 div 3 + (if k \<le> 7 mod 3 then 1 else 0 :: nat)"
proof -
  let ?s = "\<lparr>nt_partition_row_count = 7, nt_current_row_count = 0, nt_n_old_val = 0, nt_null_value = False\<rparr>"
  have "(0::nat) < 3" "(3::nat) < 2 ^ 63" "(0::nat) < 7" "(7::nat) < 2 ^ 63"
    "nt_partition_row_count ?s = of_nat 7" "nt_n_old_val ?s = 0 \<or> nt_n_old_val ?s = of_nat 3" by simp_all
  from ntile_correct [OF this] show ?thesis by blast
qed

text \<open>\<open>PERCENTILE_DISC(p)\<close> over a partition raises no error for a constant \<open>p\<close> between 0 and 1 and
  returns the value of the first row whose cumulative distribution reaches \<open>p\<close>; such a row
  always exists.\<close>

theorem percentile_disc_correct:
  assumes "rounding rnd (length vs)" "length vs < 2 ^ 64" "vs \<noteq> []" "0 \<le> p" "p \<le> 1"
  shows "\<exists>s k. pd_rows rnd p vs (pd_set_partition_row_count (pd_clear s0) (of_nat (length vs))) =
      (s, replicate (length vs) None) \<and>
    k \<in> {1..length vs} \<and> snd (pd_val (Some p) s) = Some (vs ! (k - 1)) \<and>
    p \<le> rnd (real k / real (length vs)) \<and> (\<forall>j\<in>{1..<k}. rnd (real j / real (length vs)) < p)"
proof -
  let ?s = "pd_set_partition_row_count (pd_clear s0) (of_nat (length vs))"
  have "(of_nat (length vs) :: ulonglong) \<noteq> 0" using assms(2,3) of_nat64_eq_0 [of "length vs"] by simp
  moreover obtain s k where "pd_rows rnd p vs ?s = (s, replicate (length vs) None)"
    "pd_partition_row_count s = of_nat (length vs)" "k \<in> {Suc 0..length vs}" "pd_value s = Some (vs ! (k - Suc 0))"
    "p \<le> rnd (real k / real (length vs))" "\<forall>j\<in>{1..<k}. rnd (real j / real (length vs)) < p"
    using pd_rows_first [OF assms(1,2,4,5), of 0 vs ?s] assms(3)
    by (auto simp: pd_set_partition_row_count_def pd_clear_def)
  ultimately show ?thesis by (intro exI [of _ s] exI [of _ k]) (auto simp: pd_val_def)
qed

theorem percentile_disc_witness:
  "\<exists>s k. pd_rows (\<lambda>x. x) (1 / 2) [10, 20, 30] (pd_set_partition_row_count (pd_clear ex_pd) (of_nat (length [10, 20, 30 :: nat]))) =
     (s, replicate (length [10, 20, 30 :: nat]) None) \<and> k \<in> {1..length [10, 20, 30 :: nat]} \<and>
     snd (pd_val (Some (1 / 2)) s) = Some ([10, 20, 30] ! (k - 1))"
proof -
  have "length [10, 20, 30 :: nat] < 2 ^ 64" "[10, 20, 30 :: nat] \<noteq> []" "0 \<le> (1 / 2 :: real)" "1 / 2 \<le> (1 :: real)"
    by simp_all
  from percentile_disc_correct [OF rounding_id this, of ex_pd] show ?thesis by blast
qed

text \<open>\<open>PERCENTILE_CONT(p)\<close> raises no error for a constant \<open>p\<close> between 0 and 1, finds the rows below and
  above the position \<open>1 + p * (N - 1)\<close> within the partition, and returns the value of the row when
  the position is a row, the weighted mean of the two otherwise.\<close>

theorem percentile_cont_correct:
  assumes "rounding rnd (length vs)" "length vs < 2 ^ 63" "vs \<noteq> []" "0 \<le> p" "p \<le> 1"
  shows "\<exists>s f c. pc_rows rnd p vs (pc_set_partition_row_count (pc_clear s0) (of_nat (length vs))) =
      (s, replicate (length vs) None) \<and>
    int f = \<lfloor>cont_position rnd p (length vs)\<rfloor> \<and> int c = \<lceil>cont_position rnd p (length vs)\<rceil> \<and>
    1 \<le> f \<and> c \<le> length vs \<and>
    snd (pc_val_real rnd (Some p) s) =
      (if c = f then vs ! (f - 1)
       else rnd (rnd (rnd (cont_position rnd p (length vs) - real f) * vs ! (c - 1)) +
                 rnd (rnd (real c - cont_position rnd p (length vs)) * vs ! (f - 1))))"
proof -
  define N where "N = length vs"
  let ?s = "pc_set_partition_row_count (pc_clear s0) (of_nat N)" and ?x = "cont_position rnd p N"
  have N: "0 < N" "N < 2 ^ 63" "rounding rnd N" using assms by (auto simp: N_def)
  have x: "1 \<le> ?x" "?x \<le> real N" using cont_position_range [OF N(3,1) assms(4,5)] by auto
  define f c where "f = nat \<lfloor>?x\<rfloor>" and "c = nat \<lceil>?x\<rceil>"
  have fc: "int f = \<lfloor>?x\<rfloor>" "int c = \<lceil>?x\<rceil>" "1 \<le> f" "c = f \<or> c = Suc f" "c \<le> N"
  proof -
    have "1 \<le> \<lfloor>?x\<rfloor>" "\<lceil>?x\<rceil> \<le> int N" "\<lceil>?x\<rceil> = \<lfloor>?x\<rfloor> \<or> \<lceil>?x\<rceil> = \<lfloor>?x\<rfloor> + 1"
      using x by (simp_all add: le_floor_iff ceiling_le_iff) (simp add: ceiling_altdef)
    then show "int f = \<lfloor>?x\<rfloor>" "int c = \<lceil>?x\<rceil>" "1 \<le> f" "c = f \<or> c = Suc f" "c \<le> N"
      unfolding f_def c_def by linarith+
  qed
  have inv: "pc_inv N p f c vs 0 ?s"
    using fc(3,4) by (auto simp: pc_inv_def pc_set_partition_row_count_def pc_clear_def)
  have d: "vs = drop 0 vs" "length vs = N" "0 \<le> N" by (simp_all add: N_def)
  obtain s where s: "pc_rows rnd p vs ?s = (s, replicate (length vs) None)" "pc_inv N p f c vs N s"
    using pc_rows_inv [OF N(3,2) assms(4,5) fc(1-4) inv d] by blast
  have prev: "pc_prev_value s = p" "pc_partition_row_count s = of_nat N" "pc_partition_row_count s \<noteq> 0"
    using s(2) N of_nat64_eq_0 [of N] by (auto simp: pc_inv_def split: if_splits)
  have pos: "pc_position rnd s = ?x" using pc_position_eq [OF N(3,1,2)] prev by simp
  have iff: "\<lceil>?x\<rceil> = \<lfloor>?x\<rfloor> \<longleftrightarrow> c = f" by (simp flip: fc(1,2))
  have rc: "real_of_int \<lceil>?x\<rceil> = real c" "real_of_int \<lfloor>?x\<rfloor> = real f" by (simp_all flip: fc(1,2))
  have "snd (pc_val_real rnd (Some p) s) = (if c = f then cache_val_real (pc_floor_value s)
       else rnd (rnd (rnd (?x - real f) * cache_val_real (pc_ceil_value s)) +
                 rnd (rnd (real c - ?x) * cache_val_real (pc_floor_value s))))"
    using prev(3) unfolding pc_val_real_def Let_def pos iff rc by simp
  moreover have "pc_floor_value s = Some (vs ! (f - 1))" "c \<noteq> f \<Longrightarrow> pc_ceil_value s = Some (vs ! (c - 1))"
    using s(2) fc(4,5) by (auto simp: pc_inv_def)
  ultimately have "snd (pc_val_real rnd (Some p) s) = (if c = f then vs ! (f - 1)
       else rnd (rnd (rnd (?x - real f) * vs ! (c - 1)) + rnd (rnd (real c - ?x) * vs ! (f - 1))))"
    by (simp add: cache_val_real_def)
  then show ?thesis using s(1) fc unfolding N_def by blast
qed

theorem percentile_cont_witness:
  "\<exists>s f c. pc_rows (\<lambda>x. x) (1 / 2) [10, 20] (pc_set_partition_row_count (pc_clear ex_pc) (of_nat (length [10, 20 :: real]))) =
     (s, replicate (length [10, 20 :: real]) None) \<and> 1 \<le> (f :: nat) \<and> (c :: nat) \<le> length [10, 20 :: real]"
proof -
  have "length [10, 20 :: real] < 2 ^ 63" "[10, 20 :: real] \<noteq> []" "0 \<le> (1 / 2 :: real)" "1 / 2 \<le> (1 :: real)"
    by simp_all
  from percentile_cont_correct [OF rounding_id this, of ex_pc] show ?thesis by blast
qed

text \<open>Within a partition \<open>PERCENT_RANK\<close> and \<open>CUME_DIST\<close> lie between 0 and 1: the first rank is 0, the last
  row has cumulative distribution 1, and a partition of one row has percent rank 0. An empty
  partition gives null.\<close>

theorem relative_ranks_bounds:
  assumes "rounding rnd N" "N < 2 ^ 63" "1 \<le> r" "r \<le> N"
    and "pr_partition_row_count s = of_nat N" "pr_cur_rank s = of_nat r"
    and "cd_partition_row_count t = of_nat N" "cd_current_row_count t = of_nat r"
  shows "0 \<le> snd (pr_val_real rnd s) \<and> snd (pr_val_real rnd s) \<le> 1 \<and> \<not> pr_null_value (fst (pr_val_real rnd s)) \<and>
    (r = 1 \<longrightarrow> snd (pr_val_real rnd s) = 0) \<and>
    0 \<le> snd (cd_val_real rnd t) \<and> snd (cd_val_real rnd t) \<le> 1 \<and> \<not> cd_null_value (fst (cd_val_real rnd t)) \<and>
    (r = N \<longrightarrow> snd (cd_val_real rnd t) = 1) \<and>
    cd_null_value (fst (cd_val_real rnd (cd_clear t))) \<and> snd (pr_val_real rnd (s\<lparr>pr_partition_row_count := 1\<rparr>)) = 0"
proof -
  have N: "0 < N" "1 \<le> N" "N < 2 ^ 64" "(of_nat N :: ulonglong) \<noteq> 0" using assms(2-4) of_nat64_eq_0 [of N] by auto
  have w: "(of_nat N :: ulonglong) - 1 = of_nat (N - 1)" "(of_nat r :: ulonglong) - 1 = of_nat (r - 1)"
    using N assms(3) by (simp_all add: of_nat_diff)
  have gt: "(1 :: ulonglong) < of_nat N \<longleftrightarrow> 1 < N" "(0 :: ulonglong) < of_nat N"
    using N by (simp_all add: word_less_nat_alt unat_of_nat64)
  have e: "rnd (real k) = real k" if "k \<le> N" for k using assms(1) that by (simp add: rounding_def)
  have "0 \<le> rnd (real a / real b) \<and> rnd (real a / real b) \<le> 1" if "a \<le> b" for a b
    using rounding_between [OF assms(1), of 0 "real a / real b" 1] that N by (cases "b = 0") auto
  moreover have "sint ((of_nat r :: ulonglong) - 1) = int (r - 1)" unfolding w using assms(2,4) by (intro sint_of_nat64) simp
  moreover have "to_double rnd (of_nat (N - 1)) = real (N - 1)" "to_double rnd (of_nat N) = real N" "to_double rnd (of_nat r) = real r"
    using to_double_of_nat [OF assms(1)] N assms(4) by (auto simp del: of_nat_diff)
  moreover have "rnd 0 = 0" "rnd 1 = 1" using e [of 0] e [of 1] N by simp_all
  moreover have "r - 1 \<le> N - 1" using assms(4) by simp
  ultimately show ?thesis
    using assms(3-8) N gt e [of "r - 1"] w
    by (auto simp: pr_val_real_def cd_val_real_def calc_val_real_def cd_clear_def Let_def simp del: of_nat_diff)
qed

theorem relative_ranks_witness:
  "0 \<le> snd (pr_val_real (\<lambda>x. x) \<lparr>pr_partition_row_count = 4, pr_cur_rank = 2, pr_row_number = 2, pr_null_value = False\<rparr>)"
  using relative_ranks_bounds [OF rounding_id, of 4 2
      "\<lparr>pr_partition_row_count = 4, pr_cur_rank = 2, pr_row_number = 2, pr_null_value = False\<rparr>"
      "\<lparr>cd_partition_row_count = 4, cd_current_row_count = 2, cd_null_value = False\<rparr>"] by simp

end
