(* ===== verification/Privilege.thy ===== *)
theory Privilege
  imports My_Bit
begin

text \<open>
  The privilege bits of \<^verbatim>\<open>privilege.h\<close>: the bits, the combinations the server grants at each level, the
  privileges that individual statements and variables require, and the conversions between the bits and the
  compact sets stored in the tables \<^verbatim>\<open>mysql.db\<close>, \<^verbatim>\<open>mysql.tables_priv\<close>, \<^verbatim>\<open>mysql.columns_priv\<close> and
  \<^verbatim>\<open>mysql.procs_priv\<close>. The lemmas show that the conversions are inverse to each other on the privileges of
  their level and drop everything else, and that the levels are nested.
\<close>

section \<open>Bits\<close>

type_synonym privilege_t = ulonglong

text \<open>\<open>1UL\<close> is a 32-bit number on the platform of the build, \<open>1ULL\<close> a 64-bit one.\<close>

definition bit_UL :: "nat \<Rightarrow> ulonglong" where
  "bit_UL n = ucast (push_bit n (1 :: uint32))"

definition bit_ULL :: "nat \<Rightarrow> ulonglong" where
  "bit_ULL n = push_bit n 1"

(* @privilege.h 31-31 NO_ACL *)
definition NO_ACL :: privilege_t where
  "NO_ACL = 0"

(* @privilege.h 32-32 SELECT_ACL *)
definition SELECT_ACL :: privilege_t where
  "SELECT_ACL = bit_UL 0"

(* @privilege.h 33-33 INSERT_ACL *)
definition INSERT_ACL :: privilege_t where
  "INSERT_ACL = bit_UL 1"

(* @privilege.h 34-34 UPDATE_ACL *)
definition UPDATE_ACL :: privilege_t where
  "UPDATE_ACL = bit_UL 2"

(* @privilege.h 35-35 DELETE_ACL *)
definition DELETE_ACL :: privilege_t where
  "DELETE_ACL = bit_UL 3"

(* @privilege.h 36-36 CREATE_ACL *)
definition CREATE_ACL :: privilege_t where
  "CREATE_ACL = bit_UL 4"

(* @privilege.h 37-37 DROP_ACL *)
definition DROP_ACL :: privilege_t where
  "DROP_ACL = bit_UL 5"

(* @privilege.h 38-38 RELOAD_ACL *)
definition RELOAD_ACL :: privilege_t where
  "RELOAD_ACL = bit_UL 6"

(* @privilege.h 39-39 SHUTDOWN_ACL *)
definition SHUTDOWN_ACL :: privilege_t where
  "SHUTDOWN_ACL = bit_UL 7"

(* @privilege.h 40-40 PROCESS_ACL *)
definition PROCESS_ACL :: privilege_t where
  "PROCESS_ACL = bit_UL 8"

(* @privilege.h 41-41 FILE_ACL *)
definition FILE_ACL :: privilege_t where
  "FILE_ACL = bit_UL 9"

(* @privilege.h 42-42 GRANT_ACL *)
definition GRANT_ACL :: privilege_t where
  "GRANT_ACL = bit_UL 10"

(* @privilege.h 43-43 REFERENCES_ACL *)
definition REFERENCES_ACL :: privilege_t where
  "REFERENCES_ACL = bit_UL 11"

(* @privilege.h 44-44 INDEX_ACL *)
definition INDEX_ACL :: privilege_t where
  "INDEX_ACL = bit_UL 12"

(* @privilege.h 45-45 ALTER_ACL *)
definition ALTER_ACL :: privilege_t where
  "ALTER_ACL = bit_UL 13"

(* @privilege.h 46-46 SHOW_DB_ACL *)
definition SHOW_DB_ACL :: privilege_t where
  "SHOW_DB_ACL = bit_UL 14"

(* @privilege.h 47-47 SUPER_ACL *)
definition SUPER_ACL :: privilege_t where
  "SUPER_ACL = bit_UL 15"

(* @privilege.h 48-48 CREATE_TMP_ACL *)
definition CREATE_TMP_ACL :: privilege_t where
  "CREATE_TMP_ACL = bit_UL 16"

(* @privilege.h 49-49 LOCK_TABLES_ACL *)
definition LOCK_TABLES_ACL :: privilege_t where
  "LOCK_TABLES_ACL = bit_UL 17"

(* @privilege.h 50-50 EXECUTE_ACL *)
definition EXECUTE_ACL :: privilege_t where
  "EXECUTE_ACL = bit_UL 18"

(* @privilege.h 51-51 REPL_SLAVE_ACL *)
definition REPL_SLAVE_ACL :: privilege_t where
  "REPL_SLAVE_ACL = bit_UL 19"

(* @privilege.h 52-52 BINLOG_MONITOR_ACL *)
definition BINLOG_MONITOR_ACL :: privilege_t where
  "BINLOG_MONITOR_ACL = bit_UL 20"

(* @privilege.h 53-53 CREATE_VIEW_ACL *)
definition CREATE_VIEW_ACL :: privilege_t where
  "CREATE_VIEW_ACL = bit_UL 21"

(* @privilege.h 54-54 SHOW_VIEW_ACL *)
definition SHOW_VIEW_ACL :: privilege_t where
  "SHOW_VIEW_ACL = bit_UL 22"

(* @privilege.h 55-55 CREATE_PROC_ACL *)
definition CREATE_PROC_ACL :: privilege_t where
  "CREATE_PROC_ACL = bit_UL 23"

(* @privilege.h 56-56 ALTER_PROC_ACL *)
definition ALTER_PROC_ACL :: privilege_t where
  "ALTER_PROC_ACL = bit_UL 24"

(* @privilege.h 57-57 CREATE_USER_ACL *)
definition CREATE_USER_ACL :: privilege_t where
  "CREATE_USER_ACL = bit_UL 25"

(* @privilege.h 58-58 EVENT_ACL *)
definition EVENT_ACL :: privilege_t where
  "EVENT_ACL = bit_UL 26"

(* @privilege.h 59-59 TRIGGER_ACL *)
definition TRIGGER_ACL :: privilege_t where
  "TRIGGER_ACL = bit_UL 27"

(* @privilege.h 60-60 CREATE_TABLESPACE_ACL *)
definition CREATE_TABLESPACE_ACL :: privilege_t where
  "CREATE_TABLESPACE_ACL = bit_UL 28"

(* @privilege.h 61-61 DELETE_HISTORY_ACL *)
definition DELETE_HISTORY_ACL :: privilege_t where
  "DELETE_HISTORY_ACL = bit_UL 29"

(* @privilege.h 62-62 SET_USER_ACL *)
definition SET_USER_ACL :: privilege_t where
  "SET_USER_ACL = bit_UL 30"

(* @privilege.h 63-63 FEDERATED_ADMIN_ACL *)
definition FEDERATED_ADMIN_ACL :: privilege_t where
  "FEDERATED_ADMIN_ACL = bit_UL 31"

(* @privilege.h 64-64 CONNECTION_ADMIN_ACL *)
definition CONNECTION_ADMIN_ACL :: privilege_t where
  "CONNECTION_ADMIN_ACL = bit_ULL 32"

(* @privilege.h 65-65 READ_ONLY_ADMIN_ACL *)
definition READ_ONLY_ADMIN_ACL :: privilege_t where
  "READ_ONLY_ADMIN_ACL = bit_ULL 33"

(* @privilege.h 66-66 REPL_SLAVE_ADMIN_ACL *)
definition REPL_SLAVE_ADMIN_ACL :: privilege_t where
  "REPL_SLAVE_ADMIN_ACL = bit_ULL 34"

(* @privilege.h 67-67 REPL_MASTER_ADMIN_ACL *)
definition REPL_MASTER_ADMIN_ACL :: privilege_t where
  "REPL_MASTER_ADMIN_ACL = bit_ULL 35"

(* @privilege.h 68-68 BINLOG_ADMIN_ACL *)
definition BINLOG_ADMIN_ACL :: privilege_t where
  "BINLOG_ADMIN_ACL = bit_ULL 36"

(* @privilege.h 69-69 BINLOG_REPLAY_ACL *)
definition BINLOG_REPLAY_ACL :: privilege_t where
  "BINLOG_REPLAY_ACL = bit_ULL 37"

(* @privilege.h 70-70 SLAVE_MONITOR_ACL *)
definition SLAVE_MONITOR_ACL :: privilege_t where
  "SLAVE_MONITOR_ACL = bit_ULL 38"

section \<open>Versions\<close>

(* @privilege.h 97-100 ALL_KNOWN_BITS *)
definition ALL_KNOWN_BITS :: "privilege_t \<Rightarrow> privilege_t" where
  "ALL_KNOWN_BITS x = x OR (x - 1)"

(* @privilege.h 103-103 LAST_100304_ACL *)
definition LAST_100304_ACL :: privilege_t where
  "LAST_100304_ACL = DELETE_HISTORY_ACL"

(* @privilege.h 104-104 LAST_100502_ACL *)
definition LAST_100502_ACL :: privilege_t where
  "LAST_100502_ACL = BINLOG_REPLAY_ACL"

(* @privilege.h 105-105 LAST_100508_ACL *)
definition LAST_100508_ACL :: privilege_t where
  "LAST_100508_ACL = SLAVE_MONITOR_ACL"

(* @privilege.h 108-108 LAST_CURRENT_ACL *)
definition LAST_CURRENT_ACL :: privilege_t where
  "LAST_CURRENT_ACL = LAST_100508_ACL"

(* @privilege.h 117-117 ALL_KNOWN_ACL_100304 *)
definition ALL_KNOWN_ACL_100304 :: privilege_t where
  "ALL_KNOWN_ACL_100304 = ALL_KNOWN_BITS LAST_100304_ACL"

(* @privilege.h 120-120 ALL_KNOWN_ACL_100502 *)
definition ALL_KNOWN_ACL_100502 :: privilege_t where
  "ALL_KNOWN_ACL_100502 = ALL_KNOWN_BITS LAST_100502_ACL"

(* @privilege.h 123-123 ALL_KNOWN_ACL_100508 *)
definition ALL_KNOWN_ACL_100508 :: privilege_t where
  "ALL_KNOWN_ACL_100508 = ALL_KNOWN_BITS LAST_100508_ACL"

(* @privilege.h 126-126 ALL_KNOWN_ACL_100509 *)
definition ALL_KNOWN_ACL_100509 :: privilege_t where
  "ALL_KNOWN_ACL_100509 = ALL_KNOWN_ACL_100508"

(* @privilege.h 129-129 ALL_KNOWN_ACL *)
definition ALL_KNOWN_ACL :: privilege_t where
  "ALL_KNOWN_ACL = ALL_KNOWN_BITS LAST_CURRENT_ACL"

(* @privilege.h 109-110 PRIVILEGE_T_MAX_BIT *)
definition PRIVILEGE_T_MAX_BIT :: uint where
  "PRIVILEGE_T_MAX_BIT = my_bit_log2_uint64 LAST_CURRENT_ACL"

section \<open>Combinations\<close>

(* @privilege.h 233-240 GLOBAL_SUPER_ADDED_SINCE_USER_TABLE_ACLS *)
definition GLOBAL_SUPER_ADDED_SINCE_USER_TABLE_ACLS :: privilege_t where
  "GLOBAL_SUPER_ADDED_SINCE_USER_TABLE_ACLS = SET_USER_ACL OR FEDERATED_ADMIN_ACL OR CONNECTION_ADMIN_ACL OR READ_ONLY_ADMIN_ACL OR
     REPL_SLAVE_ADMIN_ACL OR BINLOG_ADMIN_ACL OR BINLOG_REPLAY_ACL"

(* @privilege.h 243-244 COL_DML_ACLS *)
definition COL_DML_ACLS :: privilege_t where
  "COL_DML_ACLS = SELECT_ACL OR INSERT_ACL OR UPDATE_ACL OR DELETE_ACL"

(* @privilege.h 246-247 VIEW_ACLS *)
definition VIEW_ACLS :: privilege_t where
  "VIEW_ACLS = CREATE_VIEW_ACL OR SHOW_VIEW_ACL"

(* @privilege.h 249-250 STD_TABLE_DDL_ACLS *)
definition STD_TABLE_DDL_ACLS :: privilege_t where
  "STD_TABLE_DDL_ACLS = CREATE_ACL OR DROP_ACL OR ALTER_ACL"

(* @privilege.h 252-253 ALL_TABLE_DDL_ACLS *)
definition ALL_TABLE_DDL_ACLS :: privilege_t where
  "ALL_TABLE_DDL_ACLS = STD_TABLE_DDL_ACLS OR INDEX_ACL"

(* @privilege.h 255-256 COL_ACLS *)
definition COL_ACLS :: privilege_t where
  "COL_ACLS = SELECT_ACL OR INSERT_ACL OR UPDATE_ACL OR REFERENCES_ACL"

(* @privilege.h 258-259 PROC_DDL_ACLS *)
definition PROC_DDL_ACLS :: privilege_t where
  "PROC_DDL_ACLS = CREATE_PROC_ACL OR ALTER_PROC_ACL"

(* @privilege.h 261-262 SHOW_PROC_ACLS *)
definition SHOW_PROC_ACLS :: privilege_t where
  "SHOW_PROC_ACLS = PROC_DDL_ACLS OR EXECUTE_ACL"

(* @privilege.h 264-267 TABLE_ACLS *)
definition TABLE_ACLS :: privilege_t where
  "TABLE_ACLS = COL_DML_ACLS OR ALL_TABLE_DDL_ACLS OR VIEW_ACLS OR GRANT_ACL OR REFERENCES_ACL OR TRIGGER_ACL OR
     DELETE_HISTORY_ACL"

(* @privilege.h 269-271 DB_ACLS *)
definition DB_ACLS :: privilege_t where
  "DB_ACLS = TABLE_ACLS OR PROC_DDL_ACLS OR EXECUTE_ACL OR CREATE_TMP_ACL OR LOCK_TABLES_ACL OR EVENT_ACL"

(* @privilege.h 273-274 PROC_ACLS *)
definition PROC_ACLS :: privilege_t where
  "PROC_ACLS = ALTER_PROC_ACL OR EXECUTE_ACL OR GRANT_ACL"

(* @privilege.h 276-282 GLOBAL_ACLS *)
definition GLOBAL_ACLS :: privilege_t where
  "GLOBAL_ACLS = DB_ACLS OR SHOW_DB_ACL OR CREATE_USER_ACL OR CREATE_TABLESPACE_ACL OR SUPER_ACL OR RELOAD_ACL OR
     SHUTDOWN_ACL OR PROCESS_ACL OR FILE_ACL OR REPL_SLAVE_ACL OR BINLOG_MONITOR_ACL OR
     GLOBAL_SUPER_ADDED_SINCE_USER_TABLE_ACLS OR REPL_MASTER_ADMIN_ACL OR SLAVE_MONITOR_ACL"

(* @privilege.h 284-285 DEFAULT_CREATE_PROC_ACLS *)
definition DEFAULT_CREATE_PROC_ACLS :: privilege_t where
  "DEFAULT_CREATE_PROC_ACLS = ALTER_PROC_ACL OR EXECUTE_ACL"

(* @privilege.h 287-289 SHOW_CREATE_TABLE_ACLS *)
definition SHOW_CREATE_TABLE_ACLS :: privilege_t where
  "SHOW_CREATE_TABLE_ACLS = COL_DML_ACLS OR ALL_TABLE_DDL_ACLS OR TRIGGER_ACL OR REFERENCES_ACL OR GRANT_ACL OR VIEW_ACLS"

(* @privilege.h 295-296 TMP_TABLE_ACLS *)
definition TMP_TABLE_ACLS :: privilege_t where
  "TMP_TABLE_ACLS = COL_DML_ACLS OR ALL_TABLE_DDL_ACLS"

section \<open>What statements and variables require\<close>

(* @privilege.h 299-299 PRIV_LOCK_TABLES *)
definition PRIV_LOCK_TABLES :: privilege_t where
  "PRIV_LOCK_TABLES = SELECT_ACL OR LOCK_TABLES_ACL"

(* @privilege.h 306-306 PRIV_DEFINER_CLAUSE *)
definition PRIV_DEFINER_CLAUSE :: privilege_t where
  "PRIV_DEFINER_CLAUSE = SET_USER_ACL OR SUPER_ACL"

(* @privilege.h 322-322 PRIV_REVEAL_MISSING_DEFINER *)
definition PRIV_REVEAL_MISSING_DEFINER :: privilege_t where
  "PRIV_REVEAL_MISSING_DEFINER = SET_USER_ACL OR SUPER_ACL"

(* @privilege.h 325-325 PRIV_DES_DECRYPT_ONE_ARG *)
definition PRIV_DES_DECRYPT_ONE_ARG :: privilege_t where
  "PRIV_DES_DECRYPT_ONE_ARG = SUPER_ACL"

(* @privilege.h 326-326 PRIV_LOG_BIN_TRUSTED_SP_CREATOR *)
definition PRIV_LOG_BIN_TRUSTED_SP_CREATOR :: privilege_t where
  "PRIV_LOG_BIN_TRUSTED_SP_CREATOR = SUPER_ACL"

(* @privilege.h 327-327 PRIV_DEBUG *)
definition PRIV_DEBUG :: privilege_t where
  "PRIV_DEBUG = SUPER_ACL"

(* @privilege.h 328-328 PRIV_SET_GLOBAL_SYSTEM_VARIABLE *)
definition PRIV_SET_GLOBAL_SYSTEM_VARIABLE :: privilege_t where
  "PRIV_SET_GLOBAL_SYSTEM_VARIABLE = SUPER_ACL"

(* @privilege.h 329-329 PRIV_SET_RESTRICTED_SESSION_SYSTEM_VARIABLE *)
definition PRIV_SET_RESTRICTED_SESSION_SYSTEM_VARIABLE :: privilege_t where
  "PRIV_SET_RESTRICTED_SESSION_SYSTEM_VARIABLE = SUPER_ACL"

(* @privilege.h 332-333 PRIV_SET_SYSTEM_VAR_BINLOG_FORMAT *)
definition PRIV_SET_SYSTEM_VAR_BINLOG_FORMAT :: privilege_t where
  "PRIV_SET_SYSTEM_VAR_BINLOG_FORMAT = SUPER_ACL OR BINLOG_ADMIN_ACL"

(* @privilege.h 335-336 PRIV_SET_SYSTEM_VAR_BINLOG_DIRECT_NON_TRANSACTIONAL_UPDATES *)
definition PRIV_SET_SYSTEM_VAR_BINLOG_DIRECT_NON_TRANSACTIONAL_UPDATES :: privilege_t where
  "PRIV_SET_SYSTEM_VAR_BINLOG_DIRECT_NON_TRANSACTIONAL_UPDATES = SUPER_ACL OR BINLOG_ADMIN_ACL"

(* @privilege.h 338-339 PRIV_SET_SYSTEM_VAR_BINLOG_ANNOTATE_ROW_EVENTS *)
definition PRIV_SET_SYSTEM_VAR_BINLOG_ANNOTATE_ROW_EVENTS :: privilege_t where
  "PRIV_SET_SYSTEM_VAR_BINLOG_ANNOTATE_ROW_EVENTS = SUPER_ACL OR BINLOG_ADMIN_ACL"

(* @privilege.h 341-342 PRIV_SET_SYSTEM_VAR_BINLOG_ROW_IMAGE *)
definition PRIV_SET_SYSTEM_VAR_BINLOG_ROW_IMAGE :: privilege_t where
  "PRIV_SET_SYSTEM_VAR_BINLOG_ROW_IMAGE = SUPER_ACL OR BINLOG_ADMIN_ACL"

(* @privilege.h 344-345 PRIV_SET_SYSTEM_VAR_SQL_LOG_BIN *)
definition PRIV_SET_SYSTEM_VAR_SQL_LOG_BIN :: privilege_t where
  "PRIV_SET_SYSTEM_VAR_SQL_LOG_BIN = SUPER_ACL OR BINLOG_ADMIN_ACL"

(* @privilege.h 347-348 PRIV_SET_SYSTEM_GLOBAL_VAR_BINLOG_CACHE_SIZE *)
definition PRIV_SET_SYSTEM_GLOBAL_VAR_BINLOG_CACHE_SIZE :: privilege_t where
  "PRIV_SET_SYSTEM_GLOBAL_VAR_BINLOG_CACHE_SIZE = SUPER_ACL OR BINLOG_ADMIN_ACL"

(* @privilege.h 350-351 PRIV_SET_SYSTEM_GLOBAL_VAR_BINLOG_FILE_CACHE_SIZE *)
definition PRIV_SET_SYSTEM_GLOBAL_VAR_BINLOG_FILE_CACHE_SIZE :: privilege_t where
  "PRIV_SET_SYSTEM_GLOBAL_VAR_BINLOG_FILE_CACHE_SIZE = SUPER_ACL OR BINLOG_ADMIN_ACL"

(* @privilege.h 353-354 PRIV_SET_SYSTEM_GLOBAL_VAR_BINLOG_STMT_CACHE_SIZE *)
definition PRIV_SET_SYSTEM_GLOBAL_VAR_BINLOG_STMT_CACHE_SIZE :: privilege_t where
  "PRIV_SET_SYSTEM_GLOBAL_VAR_BINLOG_STMT_CACHE_SIZE = SUPER_ACL OR BINLOG_ADMIN_ACL"

(* @privilege.h 356-357 PRIV_SET_SYSTEM_GLOBAL_VAR_BINLOG_COMMIT_WAIT_COUNT *)
definition PRIV_SET_SYSTEM_GLOBAL_VAR_BINLOG_COMMIT_WAIT_COUNT :: privilege_t where
  "PRIV_SET_SYSTEM_GLOBAL_VAR_BINLOG_COMMIT_WAIT_COUNT = SUPER_ACL OR BINLOG_ADMIN_ACL"

(* @privilege.h 359-360 PRIV_SET_SYSTEM_GLOBAL_VAR_BINLOG_COMMIT_WAIT_USEC *)
definition PRIV_SET_SYSTEM_GLOBAL_VAR_BINLOG_COMMIT_WAIT_USEC :: privilege_t where
  "PRIV_SET_SYSTEM_GLOBAL_VAR_BINLOG_COMMIT_WAIT_USEC = SUPER_ACL OR BINLOG_ADMIN_ACL"

(* @privilege.h 362-363 PRIV_SET_SYSTEM_GLOBAL_VAR_BINLOG_ROW_METADATA *)
definition PRIV_SET_SYSTEM_GLOBAL_VAR_BINLOG_ROW_METADATA :: privilege_t where
  "PRIV_SET_SYSTEM_GLOBAL_VAR_BINLOG_ROW_METADATA = SUPER_ACL OR BINLOG_ADMIN_ACL"

(* @privilege.h 365-366 PRIV_SET_SYSTEM_GLOBAL_VAR_EXPIRE_LOGS_DAYS *)
definition PRIV_SET_SYSTEM_GLOBAL_VAR_EXPIRE_LOGS_DAYS :: privilege_t where
  "PRIV_SET_SYSTEM_GLOBAL_VAR_EXPIRE_LOGS_DAYS = SUPER_ACL OR BINLOG_ADMIN_ACL"

(* @privilege.h 368-369 PRIV_SET_SYSTEM_GLOBAL_VAR_LOG_BIN_COMPRESS *)
definition PRIV_SET_SYSTEM_GLOBAL_VAR_LOG_BIN_COMPRESS :: privilege_t where
  "PRIV_SET_SYSTEM_GLOBAL_VAR_LOG_BIN_COMPRESS = SUPER_ACL OR BINLOG_ADMIN_ACL"

(* @privilege.h 371-372 PRIV_SET_SYSTEM_GLOBAL_VAR_LOG_BIN_COMPRESS_MIN_LEN *)
definition PRIV_SET_SYSTEM_GLOBAL_VAR_LOG_BIN_COMPRESS_MIN_LEN :: privilege_t where
  "PRIV_SET_SYSTEM_GLOBAL_VAR_LOG_BIN_COMPRESS_MIN_LEN = SUPER_ACL OR BINLOG_ADMIN_ACL"

(* @privilege.h 374-375 PRIV_SET_SYSTEM_GLOBAL_VAR_LOG_BIN_TRUST_FUNCTION_CREATORS *)
definition PRIV_SET_SYSTEM_GLOBAL_VAR_LOG_BIN_TRUST_FUNCTION_CREATORS :: privilege_t where
  "PRIV_SET_SYSTEM_GLOBAL_VAR_LOG_BIN_TRUST_FUNCTION_CREATORS = SUPER_ACL OR BINLOG_ADMIN_ACL"

(* @privilege.h 377-378 PRIV_SET_SYSTEM_GLOBAL_VAR_MAX_BINLOG_CACHE_SIZE *)
definition PRIV_SET_SYSTEM_GLOBAL_VAR_MAX_BINLOG_CACHE_SIZE :: privilege_t where
  "PRIV_SET_SYSTEM_GLOBAL_VAR_MAX_BINLOG_CACHE_SIZE = SUPER_ACL OR BINLOG_ADMIN_ACL"

(* @privilege.h 380-381 PRIV_SET_SYSTEM_GLOBAL_VAR_MAX_BINLOG_STMT_CACHE_SIZE *)
definition PRIV_SET_SYSTEM_GLOBAL_VAR_MAX_BINLOG_STMT_CACHE_SIZE :: privilege_t where
  "PRIV_SET_SYSTEM_GLOBAL_VAR_MAX_BINLOG_STMT_CACHE_SIZE = SUPER_ACL OR BINLOG_ADMIN_ACL"

(* @privilege.h 383-384 PRIV_SET_SYSTEM_GLOBAL_VAR_MAX_BINLOG_SIZE *)
definition PRIV_SET_SYSTEM_GLOBAL_VAR_MAX_BINLOG_SIZE :: privilege_t where
  "PRIV_SET_SYSTEM_GLOBAL_VAR_MAX_BINLOG_SIZE = SUPER_ACL OR BINLOG_ADMIN_ACL"

(* @privilege.h 386-387 PRIV_SET_SYSTEM_GLOBAL_VAR_SYNC_BINLOG *)
definition PRIV_SET_SYSTEM_GLOBAL_VAR_SYNC_BINLOG :: privilege_t where
  "PRIV_SET_SYSTEM_GLOBAL_VAR_SYNC_BINLOG = SUPER_ACL OR BINLOG_ADMIN_ACL"

(* @privilege.h 393-393 PRIV_IGNORE_READ_ONLY *)
definition PRIV_IGNORE_READ_ONLY :: privilege_t where
  "PRIV_IGNORE_READ_ONLY = READ_ONLY_ADMIN_ACL OR SUPER_ACL"

(* @privilege.h 395-396 PRIV_SET_SYSTEM_GLOBAL_VAR_READ_ONLY *)
definition PRIV_SET_SYSTEM_GLOBAL_VAR_READ_ONLY :: privilege_t where
  "PRIV_SET_SYSTEM_GLOBAL_VAR_READ_ONLY = READ_ONLY_ADMIN_ACL OR SUPER_ACL"

(* @privilege.h 402-402 PRIV_IGNORE_INIT_CONNECT *)
definition PRIV_IGNORE_INIT_CONNECT :: privilege_t where
  "PRIV_IGNORE_INIT_CONNECT = CONNECTION_ADMIN_ACL OR SUPER_ACL"

(* @privilege.h 404-404 PRIV_IGNORE_MAX_USER_CONNECTIONS *)
definition PRIV_IGNORE_MAX_USER_CONNECTIONS :: privilege_t where
  "PRIV_IGNORE_MAX_USER_CONNECTIONS = CONNECTION_ADMIN_ACL OR SUPER_ACL"

(* @privilege.h 406-406 PRIV_IGNORE_MAX_CONNECTIONS *)
definition PRIV_IGNORE_MAX_CONNECTIONS :: privilege_t where
  "PRIV_IGNORE_MAX_CONNECTIONS = CONNECTION_ADMIN_ACL OR SUPER_ACL"

(* @privilege.h 408-408 PRIV_IGNORE_MAX_PASSWORD_ERRORS *)
definition PRIV_IGNORE_MAX_PASSWORD_ERRORS :: privilege_t where
  "PRIV_IGNORE_MAX_PASSWORD_ERRORS = CONNECTION_ADMIN_ACL OR SUPER_ACL"

(* @privilege.h 410-410 PRIV_KILL_OTHER_USER_PROCESS *)
definition PRIV_KILL_OTHER_USER_PROCESS :: privilege_t where
  "PRIV_KILL_OTHER_USER_PROCESS = CONNECTION_ADMIN_ACL OR SUPER_ACL"

(* @privilege.h 413-414 PRIV_SET_SYSTEM_GLOBAL_VAR_CONNECT_TIMEOUT *)
definition PRIV_SET_SYSTEM_GLOBAL_VAR_CONNECT_TIMEOUT :: privilege_t where
  "PRIV_SET_SYSTEM_GLOBAL_VAR_CONNECT_TIMEOUT = CONNECTION_ADMIN_ACL OR SUPER_ACL"

(* @privilege.h 416-417 PRIV_SET_SYSTEM_GLOBAL_VAR_DISCONNECT_ON_EXPIRED_PASSWORD *)
definition PRIV_SET_SYSTEM_GLOBAL_VAR_DISCONNECT_ON_EXPIRED_PASSWORD :: privilege_t where
  "PRIV_SET_SYSTEM_GLOBAL_VAR_DISCONNECT_ON_EXPIRED_PASSWORD = CONNECTION_ADMIN_ACL OR SUPER_ACL"

(* @privilege.h 419-420 PRIV_SET_SYSTEM_GLOBAL_VAR_EXTRA_MAX_CONNECTIONS *)
definition PRIV_SET_SYSTEM_GLOBAL_VAR_EXTRA_MAX_CONNECTIONS :: privilege_t where
  "PRIV_SET_SYSTEM_GLOBAL_VAR_EXTRA_MAX_CONNECTIONS = CONNECTION_ADMIN_ACL OR SUPER_ACL"

(* @privilege.h 422-423 PRIV_SET_SYSTEM_GLOBAL_VAR_INIT_CONNECT *)
definition PRIV_SET_SYSTEM_GLOBAL_VAR_INIT_CONNECT :: privilege_t where
  "PRIV_SET_SYSTEM_GLOBAL_VAR_INIT_CONNECT = CONNECTION_ADMIN_ACL OR SUPER_ACL"

(* @privilege.h 425-426 PRIV_SET_SYSTEM_GLOBAL_VAR_MAX_CONNECTIONS *)
definition PRIV_SET_SYSTEM_GLOBAL_VAR_MAX_CONNECTIONS :: privilege_t where
  "PRIV_SET_SYSTEM_GLOBAL_VAR_MAX_CONNECTIONS = CONNECTION_ADMIN_ACL OR SUPER_ACL"

(* @privilege.h 428-429 PRIV_SET_SYSTEM_GLOBAL_VAR_MAX_CONNECT_ERRORS *)
definition PRIV_SET_SYSTEM_GLOBAL_VAR_MAX_CONNECT_ERRORS :: privilege_t where
  "PRIV_SET_SYSTEM_GLOBAL_VAR_MAX_CONNECT_ERRORS = CONNECTION_ADMIN_ACL OR SUPER_ACL"

(* @privilege.h 431-432 PRIV_SET_SYSTEM_GLOBAL_VAR_MAX_PASSWORD_ERRORS *)
definition PRIV_SET_SYSTEM_GLOBAL_VAR_MAX_PASSWORD_ERRORS :: privilege_t where
  "PRIV_SET_SYSTEM_GLOBAL_VAR_MAX_PASSWORD_ERRORS = CONNECTION_ADMIN_ACL OR SUPER_ACL"

(* @privilege.h 434-435 PRIV_SET_SYSTEM_GLOBAL_VAR_PROXY_PROTOCOL_NETWORKS *)
definition PRIV_SET_SYSTEM_GLOBAL_VAR_PROXY_PROTOCOL_NETWORKS :: privilege_t where
  "PRIV_SET_SYSTEM_GLOBAL_VAR_PROXY_PROTOCOL_NETWORKS = CONNECTION_ADMIN_ACL OR SUPER_ACL"

(* @privilege.h 437-438 PRIV_SET_SYSTEM_GLOBAL_VAR_SECURE_AUTH *)
definition PRIV_SET_SYSTEM_GLOBAL_VAR_SECURE_AUTH :: privilege_t where
  "PRIV_SET_SYSTEM_GLOBAL_VAR_SECURE_AUTH = CONNECTION_ADMIN_ACL OR SUPER_ACL"

(* @privilege.h 440-441 PRIV_SET_SYSTEM_GLOBAL_VAR_SLOW_LAUNCH_TIME *)
definition PRIV_SET_SYSTEM_GLOBAL_VAR_SLOW_LAUNCH_TIME :: privilege_t where
  "PRIV_SET_SYSTEM_GLOBAL_VAR_SLOW_LAUNCH_TIME = CONNECTION_ADMIN_ACL OR SUPER_ACL"

(* @privilege.h 444-445 PRIV_SET_SYSTEM_GLOBAL_VAR_THREAD_POOL *)
definition PRIV_SET_SYSTEM_GLOBAL_VAR_THREAD_POOL :: privilege_t where
  "PRIV_SET_SYSTEM_GLOBAL_VAR_THREAD_POOL = CONNECTION_ADMIN_ACL OR SUPER_ACL"

(* @privilege.h 459-459 PRIV_STMT_SHOW_BINLOG_STATUS *)
definition PRIV_STMT_SHOW_BINLOG_STATUS :: privilege_t where
  "PRIV_STMT_SHOW_BINLOG_STATUS = BINLOG_MONITOR_ACL OR SUPER_ACL"

(* @privilege.h 465-465 PRIV_STMT_SHOW_BINARY_LOGS *)
definition PRIV_STMT_SHOW_BINARY_LOGS :: privilege_t where
  "PRIV_STMT_SHOW_BINARY_LOGS = BINLOG_MONITOR_ACL OR SUPER_ACL"

(* @privilege.h 468-468 PRIV_STMT_PURGE_BINLOG *)
definition PRIV_STMT_PURGE_BINLOG :: privilege_t where
  "PRIV_STMT_PURGE_BINLOG = BINLOG_ADMIN_ACL OR SUPER_ACL"

(* @privilege.h 471-471 PRIV_STMT_SHOW_BINLOG_EVENTS *)
definition PRIV_STMT_SHOW_BINLOG_EVENTS :: privilege_t where
  "PRIV_STMT_SHOW_BINLOG_EVENTS = BINLOG_MONITOR_ACL"

(* @privilege.h 478-478 PRIV_COM_REGISTER_SLAVE *)
definition PRIV_COM_REGISTER_SLAVE :: privilege_t where
  "PRIV_COM_REGISTER_SLAVE = REPL_SLAVE_ACL"

(* @privilege.h 479-479 PRIV_COM_BINLOG_DUMP *)
definition PRIV_COM_BINLOG_DUMP :: privilege_t where
  "PRIV_COM_BINLOG_DUMP = REPL_SLAVE_ACL"

(* @privilege.h 481-481 PRIV_STMT_SHOW_SLAVE_HOSTS *)
definition PRIV_STMT_SHOW_SLAVE_HOSTS :: privilege_t where
  "PRIV_STMT_SHOW_SLAVE_HOSTS = REPL_MASTER_ADMIN_ACL"

(* @privilege.h 487-488 PRIV_SET_SYSTEM_GLOBAL_VAR_RPL_SEMI_SYNC_MASTER_ENABLED *)
definition PRIV_SET_SYSTEM_GLOBAL_VAR_RPL_SEMI_SYNC_MASTER_ENABLED :: privilege_t where
  "PRIV_SET_SYSTEM_GLOBAL_VAR_RPL_SEMI_SYNC_MASTER_ENABLED = REPL_MASTER_ADMIN_ACL OR SUPER_ACL"

(* @privilege.h 489-490 PRIV_SET_SYSTEM_GLOBAL_VAR_RPL_SEMI_SYNC_MASTER_TIMEOUT *)
definition PRIV_SET_SYSTEM_GLOBAL_VAR_RPL_SEMI_SYNC_MASTER_TIMEOUT :: privilege_t where
  "PRIV_SET_SYSTEM_GLOBAL_VAR_RPL_SEMI_SYNC_MASTER_TIMEOUT = REPL_MASTER_ADMIN_ACL OR SUPER_ACL"

(* @privilege.h 491-492 PRIV_SET_SYSTEM_GLOBAL_VAR_RPL_SEMI_SYNC_MASTER_WAIT_NO_SLAVE *)
definition PRIV_SET_SYSTEM_GLOBAL_VAR_RPL_SEMI_SYNC_MASTER_WAIT_NO_SLAVE :: privilege_t where
  "PRIV_SET_SYSTEM_GLOBAL_VAR_RPL_SEMI_SYNC_MASTER_WAIT_NO_SLAVE = REPL_MASTER_ADMIN_ACL OR SUPER_ACL"

(* @privilege.h 493-494 PRIV_SET_SYSTEM_GLOBAL_VAR_RPL_SEMI_SYNC_MASTER_TRACE_LEVEL *)
definition PRIV_SET_SYSTEM_GLOBAL_VAR_RPL_SEMI_SYNC_MASTER_TRACE_LEVEL :: privilege_t where
  "PRIV_SET_SYSTEM_GLOBAL_VAR_RPL_SEMI_SYNC_MASTER_TRACE_LEVEL = REPL_MASTER_ADMIN_ACL OR SUPER_ACL"

(* @privilege.h 495-496 PRIV_SET_SYSTEM_GLOBAL_VAR_RPL_SEMI_SYNC_MASTER_WAIT_POINT *)
definition PRIV_SET_SYSTEM_GLOBAL_VAR_RPL_SEMI_SYNC_MASTER_WAIT_POINT :: privilege_t where
  "PRIV_SET_SYSTEM_GLOBAL_VAR_RPL_SEMI_SYNC_MASTER_WAIT_POINT = REPL_MASTER_ADMIN_ACL OR SUPER_ACL"

(* @privilege.h 498-499 PRIV_SET_SYSTEM_GLOBAL_VAR_MASTER_VERIFY_CHECKSUM *)
definition PRIV_SET_SYSTEM_GLOBAL_VAR_MASTER_VERIFY_CHECKSUM :: privilege_t where
  "PRIV_SET_SYSTEM_GLOBAL_VAR_MASTER_VERIFY_CHECKSUM = REPL_MASTER_ADMIN_ACL OR SUPER_ACL"

(* @privilege.h 501-502 PRIV_SET_SYSTEM_GLOBAL_VAR_GTID_BINLOG_STATE *)
definition PRIV_SET_SYSTEM_GLOBAL_VAR_GTID_BINLOG_STATE :: privilege_t where
  "PRIV_SET_SYSTEM_GLOBAL_VAR_GTID_BINLOG_STATE = REPL_MASTER_ADMIN_ACL OR SUPER_ACL"

(* @privilege.h 504-505 PRIV_SET_SYSTEM_GLOBAL_VAR_SERVER_ID *)
definition PRIV_SET_SYSTEM_GLOBAL_VAR_SERVER_ID :: privilege_t where
  "PRIV_SET_SYSTEM_GLOBAL_VAR_SERVER_ID = REPL_MASTER_ADMIN_ACL OR SUPER_ACL"

(* @privilege.h 507-508 PRIV_SET_SYSTEM_GLOBAL_VAR_GTID_DOMAIN_ID *)
definition PRIV_SET_SYSTEM_GLOBAL_VAR_GTID_DOMAIN_ID :: privilege_t where
  "PRIV_SET_SYSTEM_GLOBAL_VAR_GTID_DOMAIN_ID = REPL_MASTER_ADMIN_ACL OR SUPER_ACL"

(* @privilege.h 513-513 PRIV_STMT_START_SLAVE *)
definition PRIV_STMT_START_SLAVE :: privilege_t where
  "PRIV_STMT_START_SLAVE = REPL_SLAVE_ADMIN_ACL OR SUPER_ACL"

(* @privilege.h 515-515 PRIV_STMT_STOP_SLAVE *)
definition PRIV_STMT_STOP_SLAVE :: privilege_t where
  "PRIV_STMT_STOP_SLAVE = REPL_SLAVE_ADMIN_ACL OR SUPER_ACL"

(* @privilege.h 517-517 PRIV_STMT_CHANGE_MASTER *)
definition PRIV_STMT_CHANGE_MASTER :: privilege_t where
  "PRIV_STMT_CHANGE_MASTER = REPL_SLAVE_ADMIN_ACL OR SUPER_ACL"

(* @privilege.h 520-520 PRIV_STMT_SHOW_SLAVE_STATUS *)
definition PRIV_STMT_SHOW_SLAVE_STATUS :: privilege_t where
  "PRIV_STMT_SHOW_SLAVE_STATUS = SLAVE_MONITOR_ACL OR SUPER_ACL"

(* @privilege.h 523-523 PRIV_STMT_SHOW_RELAYLOG_EVENTS *)
definition PRIV_STMT_SHOW_RELAYLOG_EVENTS :: privilege_t where
  "PRIV_STMT_SHOW_RELAYLOG_EVENTS = SLAVE_MONITOR_ACL"

(* @privilege.h 529-529 PRIV_STMT_BINLOG *)
definition PRIV_STMT_BINLOG :: privilege_t where
  "PRIV_STMT_BINLOG = BINLOG_REPLAY_ACL OR SUPER_ACL"

(* @privilege.h 531-532 PRIV_SET_SYSTEM_SESSION_VAR_GTID_SEQ_NO *)
definition PRIV_SET_SYSTEM_SESSION_VAR_GTID_SEQ_NO :: privilege_t where
  "PRIV_SET_SYSTEM_SESSION_VAR_GTID_SEQ_NO = BINLOG_REPLAY_ACL OR SUPER_ACL"

(* @privilege.h 534-535 PRIV_SET_SYSTEM_SESSION_VAR_PSEUDO_THREAD_ID *)
definition PRIV_SET_SYSTEM_SESSION_VAR_PSEUDO_THREAD_ID :: privilege_t where
  "PRIV_SET_SYSTEM_SESSION_VAR_PSEUDO_THREAD_ID = BINLOG_REPLAY_ACL OR SUPER_ACL"

(* @privilege.h 537-538 PRIV_SET_SYSTEM_SESSION_VAR_SERVER_ID *)
definition PRIV_SET_SYSTEM_SESSION_VAR_SERVER_ID :: privilege_t where
  "PRIV_SET_SYSTEM_SESSION_VAR_SERVER_ID = BINLOG_REPLAY_ACL OR SUPER_ACL"

(* @privilege.h 540-541 PRIV_SET_SYSTEM_SESSION_VAR_GTID_DOMAIN_ID *)
definition PRIV_SET_SYSTEM_SESSION_VAR_GTID_DOMAIN_ID :: privilege_t where
  "PRIV_SET_SYSTEM_SESSION_VAR_GTID_DOMAIN_ID = BINLOG_REPLAY_ACL OR SUPER_ACL"

(* @privilege.h 547-548 PRIV_SET_SYSTEM_GLOBAL_VAR_REPLICATE_EVENTS_MARKED_FOR_SKIP *)
definition PRIV_SET_SYSTEM_GLOBAL_VAR_REPLICATE_EVENTS_MARKED_FOR_SKIP :: privilege_t where
  "PRIV_SET_SYSTEM_GLOBAL_VAR_REPLICATE_EVENTS_MARKED_FOR_SKIP = REPL_SLAVE_ADMIN_ACL OR SUPER_ACL"

(* @privilege.h 549-550 PRIV_SET_SYSTEM_GLOBAL_VAR_REPLICATE_DO_DB *)
definition PRIV_SET_SYSTEM_GLOBAL_VAR_REPLICATE_DO_DB :: privilege_t where
  "PRIV_SET_SYSTEM_GLOBAL_VAR_REPLICATE_DO_DB = REPL_SLAVE_ADMIN_ACL OR SUPER_ACL"

(* @privilege.h 551-552 PRIV_SET_SYSTEM_GLOBAL_VAR_REPLICATE_DO_TABLE *)
definition PRIV_SET_SYSTEM_GLOBAL_VAR_REPLICATE_DO_TABLE :: privilege_t where
  "PRIV_SET_SYSTEM_GLOBAL_VAR_REPLICATE_DO_TABLE = REPL_SLAVE_ADMIN_ACL OR SUPER_ACL"

(* @privilege.h 553-554 PRIV_SET_SYSTEM_GLOBAL_VAR_REPLICATE_IGNORE_DB *)
definition PRIV_SET_SYSTEM_GLOBAL_VAR_REPLICATE_IGNORE_DB :: privilege_t where
  "PRIV_SET_SYSTEM_GLOBAL_VAR_REPLICATE_IGNORE_DB = REPL_SLAVE_ADMIN_ACL OR SUPER_ACL"

(* @privilege.h 555-556 PRIV_SET_SYSTEM_GLOBAL_VAR_REPLICATE_IGNORE_TABLE *)
definition PRIV_SET_SYSTEM_GLOBAL_VAR_REPLICATE_IGNORE_TABLE :: privilege_t where
  "PRIV_SET_SYSTEM_GLOBAL_VAR_REPLICATE_IGNORE_TABLE = REPL_SLAVE_ADMIN_ACL OR SUPER_ACL"

(* @privilege.h 557-558 PRIV_SET_SYSTEM_GLOBAL_VAR_REPLICATE_WILD_DO_TABLE *)
definition PRIV_SET_SYSTEM_GLOBAL_VAR_REPLICATE_WILD_DO_TABLE :: privilege_t where
  "PRIV_SET_SYSTEM_GLOBAL_VAR_REPLICATE_WILD_DO_TABLE = REPL_SLAVE_ADMIN_ACL OR SUPER_ACL"

(* @privilege.h 559-560 PRIV_SET_SYSTEM_GLOBAL_VAR_REPLICATE_WILD_IGNORE_TABLE *)
definition PRIV_SET_SYSTEM_GLOBAL_VAR_REPLICATE_WILD_IGNORE_TABLE :: privilege_t where
  "PRIV_SET_SYSTEM_GLOBAL_VAR_REPLICATE_WILD_IGNORE_TABLE = REPL_SLAVE_ADMIN_ACL OR SUPER_ACL"

(* @privilege.h 561-562 PRIV_SET_SYSTEM_GLOBAL_VAR_READ_BINLOG_SPEED_LIMIT *)
definition PRIV_SET_SYSTEM_GLOBAL_VAR_READ_BINLOG_SPEED_LIMIT :: privilege_t where
  "PRIV_SET_SYSTEM_GLOBAL_VAR_READ_BINLOG_SPEED_LIMIT = REPL_SLAVE_ADMIN_ACL OR SUPER_ACL"

(* @privilege.h 563-564 PRIV_SET_SYSTEM_GLOBAL_VAR_SLAVE_COMPRESSED_PROTOCOL *)
definition PRIV_SET_SYSTEM_GLOBAL_VAR_SLAVE_COMPRESSED_PROTOCOL :: privilege_t where
  "PRIV_SET_SYSTEM_GLOBAL_VAR_SLAVE_COMPRESSED_PROTOCOL = REPL_SLAVE_ADMIN_ACL OR SUPER_ACL"

(* @privilege.h 565-566 PRIV_SET_SYSTEM_GLOBAL_VAR_SLAVE_DDL_EXEC_MODE *)
definition PRIV_SET_SYSTEM_GLOBAL_VAR_SLAVE_DDL_EXEC_MODE :: privilege_t where
  "PRIV_SET_SYSTEM_GLOBAL_VAR_SLAVE_DDL_EXEC_MODE = REPL_SLAVE_ADMIN_ACL OR SUPER_ACL"

(* @privilege.h 567-568 PRIV_SET_SYSTEM_GLOBAL_VAR_SLAVE_DOMAIN_PARALLEL_THREADS *)
definition PRIV_SET_SYSTEM_GLOBAL_VAR_SLAVE_DOMAIN_PARALLEL_THREADS :: privilege_t where
  "PRIV_SET_SYSTEM_GLOBAL_VAR_SLAVE_DOMAIN_PARALLEL_THREADS = REPL_SLAVE_ADMIN_ACL OR SUPER_ACL"

(* @privilege.h 569-570 PRIV_SET_SYSTEM_GLOBAL_VAR_SLAVE_EXEC_MODE *)
definition PRIV_SET_SYSTEM_GLOBAL_VAR_SLAVE_EXEC_MODE :: privilege_t where
  "PRIV_SET_SYSTEM_GLOBAL_VAR_SLAVE_EXEC_MODE = REPL_SLAVE_ADMIN_ACL OR SUPER_ACL"

(* @privilege.h 571-572 PRIV_SET_SYSTEM_GLOBAL_VAR_SLAVE_MAX_ALLOWED_PACKET *)
definition PRIV_SET_SYSTEM_GLOBAL_VAR_SLAVE_MAX_ALLOWED_PACKET :: privilege_t where
  "PRIV_SET_SYSTEM_GLOBAL_VAR_SLAVE_MAX_ALLOWED_PACKET = REPL_SLAVE_ADMIN_ACL OR SUPER_ACL"

(* @privilege.h 573-574 PRIV_SET_SYSTEM_GLOBAL_VAR_SLAVE_NET_TIMEOUT *)
definition PRIV_SET_SYSTEM_GLOBAL_VAR_SLAVE_NET_TIMEOUT :: privilege_t where
  "PRIV_SET_SYSTEM_GLOBAL_VAR_SLAVE_NET_TIMEOUT = REPL_SLAVE_ADMIN_ACL OR SUPER_ACL"

(* @privilege.h 575-576 PRIV_SET_SYSTEM_GLOBAL_VAR_SLAVE_PARALLEL_MAX_QUEUED *)
definition PRIV_SET_SYSTEM_GLOBAL_VAR_SLAVE_PARALLEL_MAX_QUEUED :: privilege_t where
  "PRIV_SET_SYSTEM_GLOBAL_VAR_SLAVE_PARALLEL_MAX_QUEUED = REPL_SLAVE_ADMIN_ACL OR SUPER_ACL"

(* @privilege.h 577-578 PRIV_SET_SYSTEM_GLOBAL_VAR_SLAVE_PARALLEL_MODE *)
definition PRIV_SET_SYSTEM_GLOBAL_VAR_SLAVE_PARALLEL_MODE :: privilege_t where
  "PRIV_SET_SYSTEM_GLOBAL_VAR_SLAVE_PARALLEL_MODE = REPL_SLAVE_ADMIN_ACL OR SUPER_ACL"

(* @privilege.h 579-580 PRIV_SET_SYSTEM_GLOBAL_VAR_SLAVE_PARALLEL_THREADS *)
definition PRIV_SET_SYSTEM_GLOBAL_VAR_SLAVE_PARALLEL_THREADS :: privilege_t where
  "PRIV_SET_SYSTEM_GLOBAL_VAR_SLAVE_PARALLEL_THREADS = REPL_SLAVE_ADMIN_ACL OR SUPER_ACL"

(* @privilege.h 581-582 PRIV_SET_SYSTEM_GLOBAL_VAR_SLAVE_PARALLEL_WORKERS *)
definition PRIV_SET_SYSTEM_GLOBAL_VAR_SLAVE_PARALLEL_WORKERS :: privilege_t where
  "PRIV_SET_SYSTEM_GLOBAL_VAR_SLAVE_PARALLEL_WORKERS = REPL_SLAVE_ADMIN_ACL OR SUPER_ACL"

(* @privilege.h 583-584 PRIV_SET_SYSTEM_GLOBAL_VAR_SLAVE_RUN_TRIGGERS_FOR_RBR *)
definition PRIV_SET_SYSTEM_GLOBAL_VAR_SLAVE_RUN_TRIGGERS_FOR_RBR :: privilege_t where
  "PRIV_SET_SYSTEM_GLOBAL_VAR_SLAVE_RUN_TRIGGERS_FOR_RBR = REPL_SLAVE_ADMIN_ACL OR SUPER_ACL"

(* @privilege.h 585-586 PRIV_SET_SYSTEM_GLOBAL_VAR_SLAVE_SQL_VERIFY_CHECKSUM *)
definition PRIV_SET_SYSTEM_GLOBAL_VAR_SLAVE_SQL_VERIFY_CHECKSUM :: privilege_t where
  "PRIV_SET_SYSTEM_GLOBAL_VAR_SLAVE_SQL_VERIFY_CHECKSUM = REPL_SLAVE_ADMIN_ACL OR SUPER_ACL"

(* @privilege.h 587-588 PRIV_SET_SYSTEM_GLOBAL_VAR_SLAVE_TRANSACTION_RETRY_INTERVAL *)
definition PRIV_SET_SYSTEM_GLOBAL_VAR_SLAVE_TRANSACTION_RETRY_INTERVAL :: privilege_t where
  "PRIV_SET_SYSTEM_GLOBAL_VAR_SLAVE_TRANSACTION_RETRY_INTERVAL = REPL_SLAVE_ADMIN_ACL OR SUPER_ACL"

(* @privilege.h 589-590 PRIV_SET_SYSTEM_GLOBAL_VAR_SLAVE_TYPE_CONVERSIONS *)
definition PRIV_SET_SYSTEM_GLOBAL_VAR_SLAVE_TYPE_CONVERSIONS :: privilege_t where
  "PRIV_SET_SYSTEM_GLOBAL_VAR_SLAVE_TYPE_CONVERSIONS = REPL_SLAVE_ADMIN_ACL OR SUPER_ACL"

(* @privilege.h 591-592 PRIV_SET_SYSTEM_GLOBAL_VAR_INIT_SLAVE *)
definition PRIV_SET_SYSTEM_GLOBAL_VAR_INIT_SLAVE :: privilege_t where
  "PRIV_SET_SYSTEM_GLOBAL_VAR_INIT_SLAVE = REPL_SLAVE_ADMIN_ACL OR SUPER_ACL"

(* @privilege.h 594-595 PRIV_SET_SYSTEM_GLOBAL_VAR_RPL_SEMI_SYNC_SLAVE_ENABLED *)
definition PRIV_SET_SYSTEM_GLOBAL_VAR_RPL_SEMI_SYNC_SLAVE_ENABLED :: privilege_t where
  "PRIV_SET_SYSTEM_GLOBAL_VAR_RPL_SEMI_SYNC_SLAVE_ENABLED = REPL_SLAVE_ADMIN_ACL OR SUPER_ACL"

(* @privilege.h 596-597 PRIV_SET_SYSTEM_GLOBAL_VAR_RPL_SEMI_SYNC_SLAVE_TRACE_LEVEL *)
definition PRIV_SET_SYSTEM_GLOBAL_VAR_RPL_SEMI_SYNC_SLAVE_TRACE_LEVEL :: privilege_t where
  "PRIV_SET_SYSTEM_GLOBAL_VAR_RPL_SEMI_SYNC_SLAVE_TRACE_LEVEL = REPL_SLAVE_ADMIN_ACL OR SUPER_ACL"

(* @privilege.h 598-599 PRIV_SET_SYSTEM_GLOBAL_VAR_RPL_SEMI_SYNC_SLAVE_DELAY_MASTER *)
definition PRIV_SET_SYSTEM_GLOBAL_VAR_RPL_SEMI_SYNC_SLAVE_DELAY_MASTER :: privilege_t where
  "PRIV_SET_SYSTEM_GLOBAL_VAR_RPL_SEMI_SYNC_SLAVE_DELAY_MASTER = REPL_SLAVE_ADMIN_ACL OR SUPER_ACL"

(* @privilege.h 600-601 PRIV_SET_SYSTEM_GLOBAL_VAR_RPL_SEMI_SYNC_SLAVE_KILL_CONN_TIMEOUT *)
definition PRIV_SET_SYSTEM_GLOBAL_VAR_RPL_SEMI_SYNC_SLAVE_KILL_CONN_TIMEOUT :: privilege_t where
  "PRIV_SET_SYSTEM_GLOBAL_VAR_RPL_SEMI_SYNC_SLAVE_KILL_CONN_TIMEOUT = REPL_SLAVE_ADMIN_ACL OR SUPER_ACL"

(* @privilege.h 603-604 PRIV_SET_SYSTEM_GLOBAL_VAR_RELAY_LOG_PURGE *)
definition PRIV_SET_SYSTEM_GLOBAL_VAR_RELAY_LOG_PURGE :: privilege_t where
  "PRIV_SET_SYSTEM_GLOBAL_VAR_RELAY_LOG_PURGE = REPL_SLAVE_ADMIN_ACL OR SUPER_ACL"

(* @privilege.h 605-606 PRIV_SET_SYSTEM_GLOBAL_VAR_RELAY_LOG_RECOVERY *)
definition PRIV_SET_SYSTEM_GLOBAL_VAR_RELAY_LOG_RECOVERY :: privilege_t where
  "PRIV_SET_SYSTEM_GLOBAL_VAR_RELAY_LOG_RECOVERY = REPL_SLAVE_ADMIN_ACL OR SUPER_ACL"

(* @privilege.h 607-608 PRIV_SET_SYSTEM_GLOBAL_VAR_SYNC_MASTER_INFO *)
definition PRIV_SET_SYSTEM_GLOBAL_VAR_SYNC_MASTER_INFO :: privilege_t where
  "PRIV_SET_SYSTEM_GLOBAL_VAR_SYNC_MASTER_INFO = REPL_SLAVE_ADMIN_ACL OR SUPER_ACL"

(* @privilege.h 609-610 PRIV_SET_SYSTEM_GLOBAL_VAR_SYNC_RELAY_LOG *)
definition PRIV_SET_SYSTEM_GLOBAL_VAR_SYNC_RELAY_LOG :: privilege_t where
  "PRIV_SET_SYSTEM_GLOBAL_VAR_SYNC_RELAY_LOG = REPL_SLAVE_ADMIN_ACL OR SUPER_ACL"

(* @privilege.h 611-612 PRIV_SET_SYSTEM_GLOBAL_VAR_SYNC_RELAY_LOG_INFO *)
definition PRIV_SET_SYSTEM_GLOBAL_VAR_SYNC_RELAY_LOG_INFO :: privilege_t where
  "PRIV_SET_SYSTEM_GLOBAL_VAR_SYNC_RELAY_LOG_INFO = REPL_SLAVE_ADMIN_ACL OR SUPER_ACL"

(* @privilege.h 614-615 PRIV_SET_SYSTEM_GLOBAL_VAR_GTID_CLEANUP_BATCH_SIZE *)
definition PRIV_SET_SYSTEM_GLOBAL_VAR_GTID_CLEANUP_BATCH_SIZE :: privilege_t where
  "PRIV_SET_SYSTEM_GLOBAL_VAR_GTID_CLEANUP_BATCH_SIZE = REPL_SLAVE_ADMIN_ACL OR SUPER_ACL"

(* @privilege.h 616-617 PRIV_SET_SYSTEM_GLOBAL_VAR_GTID_IGNORE_DUPLICATES *)
definition PRIV_SET_SYSTEM_GLOBAL_VAR_GTID_IGNORE_DUPLICATES :: privilege_t where
  "PRIV_SET_SYSTEM_GLOBAL_VAR_GTID_IGNORE_DUPLICATES = REPL_SLAVE_ADMIN_ACL OR SUPER_ACL"

(* @privilege.h 618-619 PRIV_SET_SYSTEM_GLOBAL_VAR_GTID_POS_AUTO_ENGINES *)
definition PRIV_SET_SYSTEM_GLOBAL_VAR_GTID_POS_AUTO_ENGINES :: privilege_t where
  "PRIV_SET_SYSTEM_GLOBAL_VAR_GTID_POS_AUTO_ENGINES = REPL_SLAVE_ADMIN_ACL OR SUPER_ACL"

(* @privilege.h 620-621 PRIV_SET_SYSTEM_GLOBAL_VAR_GTID_SLAVE_POS *)
definition PRIV_SET_SYSTEM_GLOBAL_VAR_GTID_SLAVE_POS :: privilege_t where
  "PRIV_SET_SYSTEM_GLOBAL_VAR_GTID_SLAVE_POS = REPL_SLAVE_ADMIN_ACL OR SUPER_ACL"

(* @privilege.h 622-623 PRIV_SET_SYSTEM_GLOBAL_VAR_GTID_STRICT_MODE *)
definition PRIV_SET_SYSTEM_GLOBAL_VAR_GTID_STRICT_MODE :: privilege_t where
  "PRIV_SET_SYSTEM_GLOBAL_VAR_GTID_STRICT_MODE = REPL_SLAVE_ADMIN_ACL OR SUPER_ACL"

(* @privilege.h 628-628 PRIV_STMT_CREATE_SERVER *)
definition PRIV_STMT_CREATE_SERVER :: privilege_t where
  "PRIV_STMT_CREATE_SERVER = FEDERATED_ADMIN_ACL OR SUPER_ACL"

(* @privilege.h 630-630 PRIV_STMT_ALTER_SERVER *)
definition PRIV_STMT_ALTER_SERVER :: privilege_t where
  "PRIV_STMT_ALTER_SERVER = FEDERATED_ADMIN_ACL OR SUPER_ACL"

(* @privilege.h 632-632 PRIV_STMT_DROP_SERVER *)
definition PRIV_STMT_DROP_SERVER :: privilege_t where
  "PRIV_STMT_DROP_SERVER = FEDERATED_ADMIN_ACL OR SUPER_ACL"

(* @privilege.h 636-636 PRIV_COM_PROCESS_INFO *)
definition PRIV_COM_PROCESS_INFO :: privilege_t where
  "PRIV_COM_PROCESS_INFO = PROCESS_ACL"

(* @privilege.h 637-637 PRIV_STMT_SHOW_EXPLAIN *)
definition PRIV_STMT_SHOW_EXPLAIN :: privilege_t where
  "PRIV_STMT_SHOW_EXPLAIN = PROCESS_ACL"

(* @privilege.h 638-638 PRIV_STMT_SHOW_ENGINE_STATUS *)
definition PRIV_STMT_SHOW_ENGINE_STATUS :: privilege_t where
  "PRIV_STMT_SHOW_ENGINE_STATUS = PROCESS_ACL"

(* @privilege.h 639-639 PRIV_STMT_SHOW_ENGINE_MUTEX *)
definition PRIV_STMT_SHOW_ENGINE_MUTEX :: privilege_t where
  "PRIV_STMT_SHOW_ENGINE_MUTEX = PROCESS_ACL"

(* @privilege.h 640-640 PRIV_STMT_SHOW_PROCESSLIST *)
definition PRIV_STMT_SHOW_PROCESSLIST :: privilege_t where
  "PRIV_STMT_SHOW_PROCESSLIST = PROCESS_ACL"

section \<open>Conversions to and from the privilege tables\<close>

(* @privilege.h 649-649 DB_CHUNK0 *)
definition DB_CHUNK0 :: privilege_t where
  "DB_CHUNK0 = COL_DML_ACLS OR CREATE_ACL OR DROP_ACL"

(* @privilege.h 650-650 DB_CHUNK1 *)
definition DB_CHUNK1 :: privilege_t where
  "DB_CHUNK1 = GRANT_ACL OR REFERENCES_ACL OR INDEX_ACL OR ALTER_ACL"

(* @privilege.h 651-651 DB_CHUNK2 *)
definition DB_CHUNK2 :: privilege_t where
  "DB_CHUNK2 = CREATE_TMP_ACL OR LOCK_TABLES_ACL"

(* @privilege.h 652-652 DB_CHUNK3 *)
definition DB_CHUNK3 :: privilege_t where
  "DB_CHUNK3 = VIEW_ACLS OR PROC_DDL_ACLS"

(* @privilege.h 653-653 DB_CHUNK4 *)
definition DB_CHUNK4 :: privilege_t where
  "DB_CHUNK4 = EXECUTE_ACL"

(* @privilege.h 654-654 DB_CHUNK5 *)
definition DB_CHUNK5 :: privilege_t where
  "DB_CHUNK5 = EVENT_ACL OR TRIGGER_ACL"

(* @privilege.h 655-655 DB_CHUNK6 *)
definition DB_CHUNK6 :: privilege_t where
  "DB_CHUNK6 = DELETE_HISTORY_ACL"

(* @privilege.h 658-669 fix_rights_for_db *)
definition fix_rights_for_db :: "privilege_t \<Rightarrow> privilege_t" where
  "fix_rights_for_db A =
     (A AND DB_CHUNK0) OR (push_bit 4 A AND DB_CHUNK1) OR (push_bit 6 A AND DB_CHUNK2) OR
     (push_bit 9 A AND DB_CHUNK3) OR (push_bit 2 A AND DB_CHUNK4) OR (push_bit 9 A AND DB_CHUNK5) OR
     (push_bit 10 A AND DB_CHUNK6)"

(* @privilege.h 671-682 get_rights_for_db *)
definition get_rights_for_db :: "privilege_t \<Rightarrow> privilege_t" where
  "get_rights_for_db A =
     (A AND DB_CHUNK0) OR drop_bit 4 (A AND DB_CHUNK1) OR drop_bit 6 (A AND DB_CHUNK2) OR
     drop_bit 9 (A AND DB_CHUNK3) OR drop_bit 2 (A AND DB_CHUNK4) OR drop_bit 9 (A AND DB_CHUNK5) OR
     drop_bit 10 (A AND DB_CHUNK6)"

(* @privilege.h 685-685 TBL_CHUNK0 *)
definition TBL_CHUNK0 :: privilege_t where
  "TBL_CHUNK0 = DB_CHUNK0"

(* @privilege.h 686-686 TBL_CHUNK1 *)
definition TBL_CHUNK1 :: privilege_t where
  "TBL_CHUNK1 = DB_CHUNK1"

(* @privilege.h 687-687 TBL_CHUNK2 *)
definition TBL_CHUNK2 :: privilege_t where
  "TBL_CHUNK2 = CREATE_VIEW_ACL OR SHOW_VIEW_ACL"

(* @privilege.h 688-688 TBL_CHUNK3 *)
definition TBL_CHUNK3 :: privilege_t where
  "TBL_CHUNK3 = TRIGGER_ACL"

(* @privilege.h 689-689 TBL_CHUNK4 *)
definition TBL_CHUNK4 :: privilege_t where
  "TBL_CHUNK4 = DELETE_HISTORY_ACL"

(* @privilege.h 692-701 fix_rights_for_table *)
definition fix_rights_for_table :: "privilege_t \<Rightarrow> privilege_t" where
  "fix_rights_for_table A =
     (A AND TBL_CHUNK0) OR (push_bit 4 A AND TBL_CHUNK1) OR (push_bit 11 A AND TBL_CHUNK2) OR
     (push_bit 15 A AND TBL_CHUNK3) OR (push_bit 16 A AND TBL_CHUNK4)"

(* @privilege.h 704-713 get_rights_for_table *)
definition get_rights_for_table :: "privilege_t \<Rightarrow> privilege_t" where
  "get_rights_for_table A =
     (A AND TBL_CHUNK0) OR drop_bit 4 (A AND TBL_CHUNK1) OR drop_bit 11 (A AND TBL_CHUNK2) OR
     drop_bit 15 (A AND TBL_CHUNK3) OR drop_bit 16 (A AND TBL_CHUNK4)"

(* @privilege.h 716-720 fix_rights_for_column *)
definition fix_rights_for_column :: "privilege_t \<Rightarrow> privilege_t" where
  "fix_rights_for_column A =
     (let msk = SELECT_ACL OR INSERT_ACL OR UPDATE_ACL
      in (A AND msk) OR push_bit 8 (A AND NOT msk))"

(* @privilege.h 723-728 get_rights_for_column *)
definition get_rights_for_column :: "privilege_t \<Rightarrow> privilege_t" where
  "get_rights_for_column A =
     (let msk = SELECT_ACL OR INSERT_ACL OR UPDATE_ACL
      in (A AND msk) OR drop_bit 8 A)"

(* @privilege.h 731-738 fix_rights_for_procedure *)
definition fix_rights_for_procedure :: "privilege_t \<Rightarrow> privilege_t" where
  "fix_rights_for_procedure A =
     (push_bit 18 A AND EXECUTE_ACL) OR (push_bit 23 A AND ALTER_PROC_ACL) OR (push_bit 8 A AND GRANT_ACL)"

(* @privilege.h 741-748 get_rights_for_procedure *)
definition get_rights_for_procedure :: "privilege_t \<Rightarrow> privilege_t" where
  "get_rights_for_procedure A =
     drop_bit 18 (A AND EXECUTE_ACL) OR drop_bit 23 (A AND ALTER_PROC_ACL) OR drop_bit 8 (A AND GRANT_ACL)"

section \<open>Bits as numbers\<close>

lemma bit_UL_val [simp]: "n < 32 \<Longrightarrow> bit_UL n = 2 ^ n"
  by (rule bit_word_eqI) (auto simp: bit_UL_def bit_simps)

lemma bit_ULL_val [simp]: "bit_ULL n = 2 ^ n"
  by (simp add: bit_ULL_def push_bit_eq_mult)

lemmas acl_defs =
  NO_ACL_def SELECT_ACL_def INSERT_ACL_def UPDATE_ACL_def DELETE_ACL_def CREATE_ACL_def DROP_ACL_def
  RELOAD_ACL_def SHUTDOWN_ACL_def PROCESS_ACL_def FILE_ACL_def GRANT_ACL_def REFERENCES_ACL_def INDEX_ACL_def
  ALTER_ACL_def SHOW_DB_ACL_def SUPER_ACL_def CREATE_TMP_ACL_def LOCK_TABLES_ACL_def EXECUTE_ACL_def
  REPL_SLAVE_ACL_def BINLOG_MONITOR_ACL_def CREATE_VIEW_ACL_def SHOW_VIEW_ACL_def CREATE_PROC_ACL_def
  ALTER_PROC_ACL_def CREATE_USER_ACL_def EVENT_ACL_def TRIGGER_ACL_def CREATE_TABLESPACE_ACL_def
  DELETE_HISTORY_ACL_def SET_USER_ACL_def FEDERATED_ADMIN_ACL_def CONNECTION_ADMIN_ACL_def
  READ_ONLY_ADMIN_ACL_def REPL_SLAVE_ADMIN_ACL_def REPL_MASTER_ADMIN_ACL_def BINLOG_ADMIN_ACL_def
  BINLOG_REPLAY_ACL_def SLAVE_MONITOR_ACL_def

lemmas version_defs = LAST_100304_ACL_def LAST_100502_ACL_def LAST_100508_ACL_def LAST_CURRENT_ACL_def
  ALL_KNOWN_ACL_100304_def ALL_KNOWN_ACL_100502_def ALL_KNOWN_ACL_100508_def ALL_KNOWN_ACL_100509_def ALL_KNOWN_ACL_def

lemmas acl_groups =
  GLOBAL_SUPER_ADDED_SINCE_USER_TABLE_ACLS_def COL_DML_ACLS_def VIEW_ACLS_def STD_TABLE_DDL_ACLS_def
  ALL_TABLE_DDL_ACLS_def COL_ACLS_def PROC_DDL_ACLS_def SHOW_PROC_ACLS_def TABLE_ACLS_def DB_ACLS_def
  PROC_ACLS_def GLOBAL_ACLS_def DEFAULT_CREATE_PROC_ACLS_def SHOW_CREATE_TABLE_ACLS_def TMP_TABLE_ACLS_def

lemmas priv_defs =
  PRIV_LOCK_TABLES_def PRIV_DEFINER_CLAUSE_def PRIV_REVEAL_MISSING_DEFINER_def PRIV_DES_DECRYPT_ONE_ARG_def
  PRIV_LOG_BIN_TRUSTED_SP_CREATOR_def PRIV_DEBUG_def PRIV_SET_GLOBAL_SYSTEM_VARIABLE_def
  PRIV_SET_RESTRICTED_SESSION_SYSTEM_VARIABLE_def PRIV_SET_SYSTEM_VAR_BINLOG_FORMAT_def
  PRIV_SET_SYSTEM_VAR_BINLOG_DIRECT_NON_TRANSACTIONAL_UPDATES_def
  PRIV_SET_SYSTEM_VAR_BINLOG_ANNOTATE_ROW_EVENTS_def PRIV_SET_SYSTEM_VAR_BINLOG_ROW_IMAGE_def
  PRIV_SET_SYSTEM_VAR_SQL_LOG_BIN_def PRIV_SET_SYSTEM_GLOBAL_VAR_BINLOG_CACHE_SIZE_def
  PRIV_SET_SYSTEM_GLOBAL_VAR_BINLOG_FILE_CACHE_SIZE_def PRIV_SET_SYSTEM_GLOBAL_VAR_BINLOG_STMT_CACHE_SIZE_def
  PRIV_SET_SYSTEM_GLOBAL_VAR_BINLOG_COMMIT_WAIT_COUNT_def
  PRIV_SET_SYSTEM_GLOBAL_VAR_BINLOG_COMMIT_WAIT_USEC_def PRIV_SET_SYSTEM_GLOBAL_VAR_BINLOG_ROW_METADATA_def
  PRIV_SET_SYSTEM_GLOBAL_VAR_EXPIRE_LOGS_DAYS_def PRIV_SET_SYSTEM_GLOBAL_VAR_LOG_BIN_COMPRESS_def
  PRIV_SET_SYSTEM_GLOBAL_VAR_LOG_BIN_COMPRESS_MIN_LEN_def
  PRIV_SET_SYSTEM_GLOBAL_VAR_LOG_BIN_TRUST_FUNCTION_CREATORS_def
  PRIV_SET_SYSTEM_GLOBAL_VAR_MAX_BINLOG_CACHE_SIZE_def
  PRIV_SET_SYSTEM_GLOBAL_VAR_MAX_BINLOG_STMT_CACHE_SIZE_def PRIV_SET_SYSTEM_GLOBAL_VAR_MAX_BINLOG_SIZE_def
  PRIV_SET_SYSTEM_GLOBAL_VAR_SYNC_BINLOG_def PRIV_IGNORE_READ_ONLY_def
  PRIV_SET_SYSTEM_GLOBAL_VAR_READ_ONLY_def PRIV_IGNORE_INIT_CONNECT_def PRIV_IGNORE_MAX_USER_CONNECTIONS_def
  PRIV_IGNORE_MAX_CONNECTIONS_def PRIV_IGNORE_MAX_PASSWORD_ERRORS_def PRIV_KILL_OTHER_USER_PROCESS_def
  PRIV_SET_SYSTEM_GLOBAL_VAR_CONNECT_TIMEOUT_def PRIV_SET_SYSTEM_GLOBAL_VAR_DISCONNECT_ON_EXPIRED_PASSWORD_def
  PRIV_SET_SYSTEM_GLOBAL_VAR_EXTRA_MAX_CONNECTIONS_def PRIV_SET_SYSTEM_GLOBAL_VAR_INIT_CONNECT_def
  PRIV_SET_SYSTEM_GLOBAL_VAR_MAX_CONNECTIONS_def PRIV_SET_SYSTEM_GLOBAL_VAR_MAX_CONNECT_ERRORS_def
  PRIV_SET_SYSTEM_GLOBAL_VAR_MAX_PASSWORD_ERRORS_def PRIV_SET_SYSTEM_GLOBAL_VAR_PROXY_PROTOCOL_NETWORKS_def
  PRIV_SET_SYSTEM_GLOBAL_VAR_SECURE_AUTH_def PRIV_SET_SYSTEM_GLOBAL_VAR_SLOW_LAUNCH_TIME_def
  PRIV_SET_SYSTEM_GLOBAL_VAR_THREAD_POOL_def PRIV_STMT_SHOW_BINLOG_STATUS_def PRIV_STMT_SHOW_BINARY_LOGS_def
  PRIV_STMT_PURGE_BINLOG_def PRIV_STMT_SHOW_BINLOG_EVENTS_def PRIV_COM_REGISTER_SLAVE_def
  PRIV_COM_BINLOG_DUMP_def PRIV_STMT_SHOW_SLAVE_HOSTS_def
  PRIV_SET_SYSTEM_GLOBAL_VAR_RPL_SEMI_SYNC_MASTER_ENABLED_def
  PRIV_SET_SYSTEM_GLOBAL_VAR_RPL_SEMI_SYNC_MASTER_TIMEOUT_def
  PRIV_SET_SYSTEM_GLOBAL_VAR_RPL_SEMI_SYNC_MASTER_WAIT_NO_SLAVE_def
  PRIV_SET_SYSTEM_GLOBAL_VAR_RPL_SEMI_SYNC_MASTER_TRACE_LEVEL_def
  PRIV_SET_SYSTEM_GLOBAL_VAR_RPL_SEMI_SYNC_MASTER_WAIT_POINT_def
  PRIV_SET_SYSTEM_GLOBAL_VAR_MASTER_VERIFY_CHECKSUM_def PRIV_SET_SYSTEM_GLOBAL_VAR_GTID_BINLOG_STATE_def
  PRIV_SET_SYSTEM_GLOBAL_VAR_SERVER_ID_def PRIV_SET_SYSTEM_GLOBAL_VAR_GTID_DOMAIN_ID_def
  PRIV_STMT_START_SLAVE_def PRIV_STMT_STOP_SLAVE_def PRIV_STMT_CHANGE_MASTER_def
  PRIV_STMT_SHOW_SLAVE_STATUS_def PRIV_STMT_SHOW_RELAYLOG_EVENTS_def PRIV_STMT_BINLOG_def
  PRIV_SET_SYSTEM_SESSION_VAR_GTID_SEQ_NO_def PRIV_SET_SYSTEM_SESSION_VAR_PSEUDO_THREAD_ID_def
  PRIV_SET_SYSTEM_SESSION_VAR_SERVER_ID_def PRIV_SET_SYSTEM_SESSION_VAR_GTID_DOMAIN_ID_def
  PRIV_SET_SYSTEM_GLOBAL_VAR_REPLICATE_EVENTS_MARKED_FOR_SKIP_def
  PRIV_SET_SYSTEM_GLOBAL_VAR_REPLICATE_DO_DB_def PRIV_SET_SYSTEM_GLOBAL_VAR_REPLICATE_DO_TABLE_def
  PRIV_SET_SYSTEM_GLOBAL_VAR_REPLICATE_IGNORE_DB_def PRIV_SET_SYSTEM_GLOBAL_VAR_REPLICATE_IGNORE_TABLE_def
  PRIV_SET_SYSTEM_GLOBAL_VAR_REPLICATE_WILD_DO_TABLE_def
  PRIV_SET_SYSTEM_GLOBAL_VAR_REPLICATE_WILD_IGNORE_TABLE_def
  PRIV_SET_SYSTEM_GLOBAL_VAR_READ_BINLOG_SPEED_LIMIT_def
  PRIV_SET_SYSTEM_GLOBAL_VAR_SLAVE_COMPRESSED_PROTOCOL_def PRIV_SET_SYSTEM_GLOBAL_VAR_SLAVE_DDL_EXEC_MODE_def
  PRIV_SET_SYSTEM_GLOBAL_VAR_SLAVE_DOMAIN_PARALLEL_THREADS_def PRIV_SET_SYSTEM_GLOBAL_VAR_SLAVE_EXEC_MODE_def
  PRIV_SET_SYSTEM_GLOBAL_VAR_SLAVE_MAX_ALLOWED_PACKET_def PRIV_SET_SYSTEM_GLOBAL_VAR_SLAVE_NET_TIMEOUT_def
  PRIV_SET_SYSTEM_GLOBAL_VAR_SLAVE_PARALLEL_MAX_QUEUED_def PRIV_SET_SYSTEM_GLOBAL_VAR_SLAVE_PARALLEL_MODE_def
  PRIV_SET_SYSTEM_GLOBAL_VAR_SLAVE_PARALLEL_THREADS_def PRIV_SET_SYSTEM_GLOBAL_VAR_SLAVE_PARALLEL_WORKERS_def
  PRIV_SET_SYSTEM_GLOBAL_VAR_SLAVE_RUN_TRIGGERS_FOR_RBR_def
  PRIV_SET_SYSTEM_GLOBAL_VAR_SLAVE_SQL_VERIFY_CHECKSUM_def
  PRIV_SET_SYSTEM_GLOBAL_VAR_SLAVE_TRANSACTION_RETRY_INTERVAL_def
  PRIV_SET_SYSTEM_GLOBAL_VAR_SLAVE_TYPE_CONVERSIONS_def PRIV_SET_SYSTEM_GLOBAL_VAR_INIT_SLAVE_def
  PRIV_SET_SYSTEM_GLOBAL_VAR_RPL_SEMI_SYNC_SLAVE_ENABLED_def
  PRIV_SET_SYSTEM_GLOBAL_VAR_RPL_SEMI_SYNC_SLAVE_TRACE_LEVEL_def
  PRIV_SET_SYSTEM_GLOBAL_VAR_RPL_SEMI_SYNC_SLAVE_DELAY_MASTER_def
  PRIV_SET_SYSTEM_GLOBAL_VAR_RPL_SEMI_SYNC_SLAVE_KILL_CONN_TIMEOUT_def
  PRIV_SET_SYSTEM_GLOBAL_VAR_RELAY_LOG_PURGE_def PRIV_SET_SYSTEM_GLOBAL_VAR_RELAY_LOG_RECOVERY_def
  PRIV_SET_SYSTEM_GLOBAL_VAR_SYNC_MASTER_INFO_def PRIV_SET_SYSTEM_GLOBAL_VAR_SYNC_RELAY_LOG_def
  PRIV_SET_SYSTEM_GLOBAL_VAR_SYNC_RELAY_LOG_INFO_def PRIV_SET_SYSTEM_GLOBAL_VAR_GTID_CLEANUP_BATCH_SIZE_def
  PRIV_SET_SYSTEM_GLOBAL_VAR_GTID_IGNORE_DUPLICATES_def PRIV_SET_SYSTEM_GLOBAL_VAR_GTID_POS_AUTO_ENGINES_def
  PRIV_SET_SYSTEM_GLOBAL_VAR_GTID_SLAVE_POS_def PRIV_SET_SYSTEM_GLOBAL_VAR_GTID_STRICT_MODE_def
  PRIV_STMT_CREATE_SERVER_def PRIV_STMT_ALTER_SERVER_def PRIV_STMT_DROP_SERVER_def PRIV_COM_PROCESS_INFO_def
  PRIV_STMT_SHOW_EXPLAIN_def PRIV_STMT_SHOW_ENGINE_STATUS_def PRIV_STMT_SHOW_ENGINE_MUTEX_def
  PRIV_STMT_SHOW_PROCESSLIST_def

lemmas chunk_defs = DB_CHUNK0_def DB_CHUNK1_def DB_CHUNK2_def DB_CHUNK3_def DB_CHUNK4_def DB_CHUNK5_def DB_CHUNK6_def
  TBL_CHUNK0_def TBL_CHUNK1_def TBL_CHUNK2_def TBL_CHUNK3_def TBL_CHUNK4_def

text \<open>Every chunk is a run of bits.\<close>

definition run :: "nat \<Rightarrow> nat \<Rightarrow> ulonglong" where
  "run k w = push_bit k (mask w)"

lemma bit_run: "bit (run k w) n \<longleftrightarrow> n < 64 \<and> k \<le> n \<and> n < k + w"
  by (auto simp: run_def bit_simps)

lemma chunk_runs:
  "DB_CHUNK0 = run 0 6" "DB_CHUNK1 = run 10 4" "DB_CHUNK2 = run 16 2" "DB_CHUNK3 = run 21 4" "DB_CHUNK4 = run 18 1"
  "DB_CHUNK5 = run 26 2" "DB_CHUNK6 = run 29 1"
  "TBL_CHUNK0 = run 0 6" "TBL_CHUNK1 = run 10 4" "TBL_CHUNK2 = run 21 2" "TBL_CHUNK3 = run 27 1" "TBL_CHUNK4 = run 29 1"
  "SELECT_ACL OR INSERT_ACL OR UPDATE_ACL = run 0 3" "EXECUTE_ACL = run 18 1" "ALTER_PROC_ACL = run 24 1" "GRANT_ACL = run 10 1"
  "REFERENCES_ACL = run 11 1"
  by (simp_all add: chunk_defs acl_groups acl_defs run_def mask_eq_exp_minus_1 push_bit_eq_mult)

lemma level_runs:
  "DB_ACLS = run 0 6 OR run 10 4 OR run 16 2 OR run 21 4 OR run 18 1 OR run 26 2 OR run 29 1"
  "TABLE_ACLS = run 0 6 OR run 10 4 OR run 21 2 OR run 27 1 OR run 29 1"
  "COL_ACLS = run 0 3 OR run 11 1"
  "PROC_ACLS = run 18 1 OR run 24 1 OR run 10 1"
  by (simp_all add: acl_groups acl_defs run_def mask_eq_exp_minus_1 push_bit_eq_mult)

lemma upt_64: "[0..<64 :: nat] = [0, 1, 2, 3, 4, 5, 6, 7, 8, 9, 10, 11, 12, 13, 14, 15, 16, 17, 18, 19, 20, 21, 22, 23, 24, 25, 26,
    27, 28, 29, 30, 31, 32, 33, 34, 35, 36, 37, 38, 39, 40, 41, 42, 43, 44, 45, 46, 47, 48, 49, 50, 51, 52, 53, 54, 55, 56, 57, 58, 59, 60, 61, 62, 63]"
  by (simp add: upt_rec)

lemma word64_eqI:
  assumes "list_all (\<lambda>n. bit a n = bit b n) [0..<64]"
  shows "a = (b :: ulonglong)"
  using assms by (intro bit_word_eqI) (simp add: list_all_iff del: upt_rec_numeral)

text \<open>The bits of the terms of a conversion.\<close>

lemma bit_shifts:
  "bit (drop_bit s (A :: ulonglong)) n \<longleftrightarrow> bit A (s + n)"
  "bit (push_bit s (A :: ulonglong)) n \<longleftrightarrow> n < 64 \<and> s \<le> n \<and> bit A (n - s)"
  by (auto simp: bit_simps)

lemmas rights_bits = bit_or_iff bit_and_iff bit_shifts bit_run

lemma mask_run: "(mask n :: ulonglong) = run 0 n"
  by (simp add: run_def)

lemmas db_bits = fix_rights_for_db_def get_rights_for_db_def chunk_runs level_runs mask_run rights_bits
lemmas table_bits = fix_rights_for_table_def get_rights_for_table_def chunk_runs level_runs mask_run rights_bits
lemmas column_bits = fix_rights_for_column_def get_rights_for_column_def Let_def chunk_runs level_runs mask_run
  bit_not_iff possible_bit_word rights_bits
lemmas procedure_bits = fix_rights_for_procedure_def get_rights_for_procedure_def chunk_runs level_runs mask_run rights_bits

text \<open>Taking a set of privileges to a table and back, and a stored set to privileges and back.\<close>

lemma fix_get_db: "fix_rights_for_db (get_rights_for_db A) = A AND DB_ACLS"
  by (rule word64_eqI) (simp only: list.pred_inject upt_64 db_bits, simp)

lemma get_fix_db: "get_rights_for_db (fix_rights_for_db T) = T AND mask 20"
  by (rule word64_eqI) (simp only: list.pred_inject upt_64 db_bits, simp)

lemma fix_get_table: "fix_rights_for_table (get_rights_for_table A) = A AND TABLE_ACLS"
  by (rule word64_eqI) (simp only: list.pred_inject upt_64 table_bits, simp)

lemma get_fix_table: "get_rights_for_table (fix_rights_for_table T) = T AND mask 14"
  by (rule word64_eqI) (simp only: list.pred_inject upt_64 table_bits, simp)

lemma fix_get_column: "fix_rights_for_column (get_rights_for_column (A AND COL_ACLS)) = A AND COL_ACLS"
  by (rule word64_eqI) (simp only: list.pred_inject upt_64 column_bits, simp)

lemma get_fix_column: "get_rights_for_column (fix_rights_for_column (T AND mask 4)) = T AND mask 4"
  by (rule word64_eqI) (simp only: list.pred_inject upt_64 column_bits, simp)

lemma fix_get_procedure: "fix_rights_for_procedure (get_rights_for_procedure A) = A AND PROC_ACLS"
  by (rule word64_eqI) (simp only: list.pred_inject upt_64 procedure_bits, simp)

lemma get_fix_procedure: "get_rights_for_procedure (fix_rights_for_procedure T) = T AND mask 3"
  by (rule word64_eqI) (simp only: list.pred_inject upt_64 procedure_bits, simp)

section \<open>Actions that were reserved to SUPER\<close>

text \<open>The constants of the header that include the \<open>SUPER\<close> privilege.\<close>

definition super_actions :: "privilege_t list" where
  "super_actions = [
    PRIV_DEFINER_CLAUSE, PRIV_REVEAL_MISSING_DEFINER, PRIV_DES_DECRYPT_ONE_ARG, PRIV_LOG_BIN_TRUSTED_SP_CREATOR,
    PRIV_DEBUG, PRIV_SET_GLOBAL_SYSTEM_VARIABLE, PRIV_SET_RESTRICTED_SESSION_SYSTEM_VARIABLE,
    PRIV_SET_SYSTEM_VAR_BINLOG_FORMAT, PRIV_SET_SYSTEM_VAR_BINLOG_DIRECT_NON_TRANSACTIONAL_UPDATES,
    PRIV_SET_SYSTEM_VAR_BINLOG_ANNOTATE_ROW_EVENTS, PRIV_SET_SYSTEM_VAR_BINLOG_ROW_IMAGE,
    PRIV_SET_SYSTEM_VAR_SQL_LOG_BIN, PRIV_SET_SYSTEM_GLOBAL_VAR_BINLOG_CACHE_SIZE,
    PRIV_SET_SYSTEM_GLOBAL_VAR_BINLOG_FILE_CACHE_SIZE, PRIV_SET_SYSTEM_GLOBAL_VAR_BINLOG_STMT_CACHE_SIZE,
    PRIV_SET_SYSTEM_GLOBAL_VAR_BINLOG_COMMIT_WAIT_COUNT, PRIV_SET_SYSTEM_GLOBAL_VAR_BINLOG_COMMIT_WAIT_USEC,
    PRIV_SET_SYSTEM_GLOBAL_VAR_BINLOG_ROW_METADATA, PRIV_SET_SYSTEM_GLOBAL_VAR_EXPIRE_LOGS_DAYS,
    PRIV_SET_SYSTEM_GLOBAL_VAR_LOG_BIN_COMPRESS, PRIV_SET_SYSTEM_GLOBAL_VAR_LOG_BIN_COMPRESS_MIN_LEN,
    PRIV_SET_SYSTEM_GLOBAL_VAR_LOG_BIN_TRUST_FUNCTION_CREATORS,
    PRIV_SET_SYSTEM_GLOBAL_VAR_MAX_BINLOG_CACHE_SIZE, PRIV_SET_SYSTEM_GLOBAL_VAR_MAX_BINLOG_STMT_CACHE_SIZE,
    PRIV_SET_SYSTEM_GLOBAL_VAR_MAX_BINLOG_SIZE, PRIV_SET_SYSTEM_GLOBAL_VAR_SYNC_BINLOG, PRIV_IGNORE_READ_ONLY,
    PRIV_SET_SYSTEM_GLOBAL_VAR_READ_ONLY, PRIV_IGNORE_INIT_CONNECT, PRIV_IGNORE_MAX_USER_CONNECTIONS,
    PRIV_IGNORE_MAX_CONNECTIONS, PRIV_IGNORE_MAX_PASSWORD_ERRORS, PRIV_KILL_OTHER_USER_PROCESS,
    PRIV_SET_SYSTEM_GLOBAL_VAR_CONNECT_TIMEOUT, PRIV_SET_SYSTEM_GLOBAL_VAR_DISCONNECT_ON_EXPIRED_PASSWORD,
    PRIV_SET_SYSTEM_GLOBAL_VAR_EXTRA_MAX_CONNECTIONS, PRIV_SET_SYSTEM_GLOBAL_VAR_INIT_CONNECT,
    PRIV_SET_SYSTEM_GLOBAL_VAR_MAX_CONNECTIONS, PRIV_SET_SYSTEM_GLOBAL_VAR_MAX_CONNECT_ERRORS,
    PRIV_SET_SYSTEM_GLOBAL_VAR_MAX_PASSWORD_ERRORS, PRIV_SET_SYSTEM_GLOBAL_VAR_PROXY_PROTOCOL_NETWORKS,
    PRIV_SET_SYSTEM_GLOBAL_VAR_SECURE_AUTH, PRIV_SET_SYSTEM_GLOBAL_VAR_SLOW_LAUNCH_TIME,
    PRIV_SET_SYSTEM_GLOBAL_VAR_THREAD_POOL, PRIV_STMT_SHOW_BINLOG_STATUS, PRIV_STMT_SHOW_BINARY_LOGS,
    PRIV_STMT_PURGE_BINLOG, PRIV_SET_SYSTEM_GLOBAL_VAR_RPL_SEMI_SYNC_MASTER_ENABLED,
    PRIV_SET_SYSTEM_GLOBAL_VAR_RPL_SEMI_SYNC_MASTER_TIMEOUT,
    PRIV_SET_SYSTEM_GLOBAL_VAR_RPL_SEMI_SYNC_MASTER_WAIT_NO_SLAVE,
    PRIV_SET_SYSTEM_GLOBAL_VAR_RPL_SEMI_SYNC_MASTER_TRACE_LEVEL,
    PRIV_SET_SYSTEM_GLOBAL_VAR_RPL_SEMI_SYNC_MASTER_WAIT_POINT,
    PRIV_SET_SYSTEM_GLOBAL_VAR_MASTER_VERIFY_CHECKSUM, PRIV_SET_SYSTEM_GLOBAL_VAR_GTID_BINLOG_STATE,
    PRIV_SET_SYSTEM_GLOBAL_VAR_SERVER_ID, PRIV_SET_SYSTEM_GLOBAL_VAR_GTID_DOMAIN_ID, PRIV_STMT_START_SLAVE,
    PRIV_STMT_STOP_SLAVE, PRIV_STMT_CHANGE_MASTER, PRIV_STMT_SHOW_SLAVE_STATUS, PRIV_STMT_BINLOG,
    PRIV_SET_SYSTEM_SESSION_VAR_GTID_SEQ_NO, PRIV_SET_SYSTEM_SESSION_VAR_PSEUDO_THREAD_ID,
    PRIV_SET_SYSTEM_SESSION_VAR_SERVER_ID, PRIV_SET_SYSTEM_SESSION_VAR_GTID_DOMAIN_ID,
    PRIV_SET_SYSTEM_GLOBAL_VAR_REPLICATE_EVENTS_MARKED_FOR_SKIP, PRIV_SET_SYSTEM_GLOBAL_VAR_REPLICATE_DO_DB,
    PRIV_SET_SYSTEM_GLOBAL_VAR_REPLICATE_DO_TABLE, PRIV_SET_SYSTEM_GLOBAL_VAR_REPLICATE_IGNORE_DB,
    PRIV_SET_SYSTEM_GLOBAL_VAR_REPLICATE_IGNORE_TABLE, PRIV_SET_SYSTEM_GLOBAL_VAR_REPLICATE_WILD_DO_TABLE,
    PRIV_SET_SYSTEM_GLOBAL_VAR_REPLICATE_WILD_IGNORE_TABLE, PRIV_SET_SYSTEM_GLOBAL_VAR_READ_BINLOG_SPEED_LIMIT,
    PRIV_SET_SYSTEM_GLOBAL_VAR_SLAVE_COMPRESSED_PROTOCOL, PRIV_SET_SYSTEM_GLOBAL_VAR_SLAVE_DDL_EXEC_MODE,
    PRIV_SET_SYSTEM_GLOBAL_VAR_SLAVE_DOMAIN_PARALLEL_THREADS, PRIV_SET_SYSTEM_GLOBAL_VAR_SLAVE_EXEC_MODE,
    PRIV_SET_SYSTEM_GLOBAL_VAR_SLAVE_MAX_ALLOWED_PACKET, PRIV_SET_SYSTEM_GLOBAL_VAR_SLAVE_NET_TIMEOUT,
    PRIV_SET_SYSTEM_GLOBAL_VAR_SLAVE_PARALLEL_MAX_QUEUED, PRIV_SET_SYSTEM_GLOBAL_VAR_SLAVE_PARALLEL_MODE,
    PRIV_SET_SYSTEM_GLOBAL_VAR_SLAVE_PARALLEL_THREADS, PRIV_SET_SYSTEM_GLOBAL_VAR_SLAVE_PARALLEL_WORKERS,
    PRIV_SET_SYSTEM_GLOBAL_VAR_SLAVE_RUN_TRIGGERS_FOR_RBR, PRIV_SET_SYSTEM_GLOBAL_VAR_SLAVE_SQL_VERIFY_CHECKSUM,
    PRIV_SET_SYSTEM_GLOBAL_VAR_SLAVE_TRANSACTION_RETRY_INTERVAL,
    PRIV_SET_SYSTEM_GLOBAL_VAR_SLAVE_TYPE_CONVERSIONS, PRIV_SET_SYSTEM_GLOBAL_VAR_INIT_SLAVE,
    PRIV_SET_SYSTEM_GLOBAL_VAR_RPL_SEMI_SYNC_SLAVE_ENABLED,
    PRIV_SET_SYSTEM_GLOBAL_VAR_RPL_SEMI_SYNC_SLAVE_TRACE_LEVEL,
    PRIV_SET_SYSTEM_GLOBAL_VAR_RPL_SEMI_SYNC_SLAVE_DELAY_MASTER,
    PRIV_SET_SYSTEM_GLOBAL_VAR_RPL_SEMI_SYNC_SLAVE_KILL_CONN_TIMEOUT,
    PRIV_SET_SYSTEM_GLOBAL_VAR_RELAY_LOG_PURGE, PRIV_SET_SYSTEM_GLOBAL_VAR_RELAY_LOG_RECOVERY,
    PRIV_SET_SYSTEM_GLOBAL_VAR_SYNC_MASTER_INFO, PRIV_SET_SYSTEM_GLOBAL_VAR_SYNC_RELAY_LOG,
    PRIV_SET_SYSTEM_GLOBAL_VAR_SYNC_RELAY_LOG_INFO, PRIV_SET_SYSTEM_GLOBAL_VAR_GTID_CLEANUP_BATCH_SIZE,
    PRIV_SET_SYSTEM_GLOBAL_VAR_GTID_IGNORE_DUPLICATES, PRIV_SET_SYSTEM_GLOBAL_VAR_GTID_POS_AUTO_ENGINES,
    PRIV_SET_SYSTEM_GLOBAL_VAR_GTID_SLAVE_POS, PRIV_SET_SYSTEM_GLOBAL_VAR_GTID_STRICT_MODE,
    PRIV_STMT_CREATE_SERVER, PRIV_STMT_ALTER_SERVER, PRIV_STMT_DROP_SERVER]"

section \<open>Properties\<close>

text \<open>C38: Storing the privileges of a database, table, column or procedure in its table and reading them back
  gives exactly the privileges of that level, and reading a stored set and storing it again gives the set,
  within the 20, 14, 4 and 3 members the columns have. A column set is only converted correctly when it
  holds column privileges: \<open>PROCESS\<close> would be stored as \<open>SELECT\<close>.\<close>

theorem stored_privileges_round_trip:
  "fix_rights_for_db (get_rights_for_db A) = A AND DB_ACLS \<and>
   get_rights_for_db (fix_rights_for_db T) = T AND mask 20 \<and>
   fix_rights_for_table (get_rights_for_table A) = A AND TABLE_ACLS \<and>
   get_rights_for_table (fix_rights_for_table T) = T AND mask 14 \<and>
   fix_rights_for_column (get_rights_for_column (A AND COL_ACLS)) = A AND COL_ACLS \<and>
   get_rights_for_column (fix_rights_for_column (T AND mask 4)) = T AND mask 4 \<and>
   get_rights_for_column PROCESS_ACL = SELECT_ACL \<and>
   fix_rights_for_procedure (get_rights_for_procedure A) = A AND PROC_ACLS \<and>
   get_rights_for_procedure (fix_rights_for_procedure T) = T AND mask 3"
  using fix_get_db get_fix_db fix_get_table get_fix_table fix_get_column get_fix_column fix_get_procedure get_fix_procedure
  by (simp add: get_rights_for_column_def acl_defs drop_bit_eq_div)

text \<open>The levels of privileges are nested: column in table, table and procedure in database, database in
  global. The global level has exactly the bits of the current version, the last of which is the bit
  \<open>PRIVILEGE_T_MAX_BIT\<close>, and every user of the older versions keeps the bits known then.\<close>

theorem privilege_levels:
  "COL_ACLS OR TABLE_ACLS = TABLE_ACLS \<and> TABLE_ACLS OR DB_ACLS = DB_ACLS \<and> PROC_ACLS OR DB_ACLS = DB_ACLS \<and>
   DB_ACLS OR GLOBAL_ACLS = GLOBAL_ACLS \<and> GLOBAL_ACLS = ALL_KNOWN_ACL \<and>
   push_bit (unat PRIVILEGE_T_MAX_BIT) 1 = LAST_CURRENT_ACL \<and>
   ALL_KNOWN_ACL_100304 = mask 30 \<and> ALL_KNOWN_ACL_100502 = mask 38 \<and> ALL_KNOWN_ACL_100509 = mask 39"
  by (simp add: acl_groups acl_defs version_defs ALL_KNOWN_BITS_def PRIVILEGE_T_MAX_BIT_def my_bit_log2_uint64_def
      my_bit_log2_uint32_def my_bit_log2_uint16_def my_bit_log2_uint8_def my_bit_log2_hex_digit_def mask_eq_exp_minus_1
      push_bit_eq_mult drop_bit_eq_div)

text \<open>Whoever has \<open>SUPER\<close> may do every action whose constant names it, and a user upgraded from the old
  format of the user table has a second privilege for it, unless it is reserved to \<open>SUPER\<close>, monitoring,
  or one of the actions of \<open>REPL_MASTER_ADMIN\<close>: these were \<open>SUPER\<close> actions before, and the
  privilege is missing from the combination added by the upgrade.\<close>

theorem super_privileges:
  "\<forall>p \<in> set super_actions. p AND SUPER_ACL \<noteq> NO_ACL \<and>
     (p AND GLOBAL_SUPER_ADDED_SINCE_USER_TABLE_ACLS = NO_ACL \<longleftrightarrow>
      p \<in> {SUPER_ACL, REPL_MASTER_ADMIN_ACL OR SUPER_ACL, BINLOG_MONITOR_ACL OR SUPER_ACL, SLAVE_MONITOR_ACL OR SUPER_ACL})"
  unfolding super_actions_def priv_defs acl_groups by (simp add: acl_defs)

theorem super_privileges_witness:
  "PRIV_KILL_OTHER_USER_PROCESS AND SUPER_ACL \<noteq> NO_ACL"
  using super_privileges by (rule ballE [of _ _ PRIV_KILL_OTHER_USER_PROCESS]) (simp_all add: super_actions_def)

end
