(* ===== verification/Thread_Cache.thy ===== *)
theory Thread_Cache
  imports Prelude
begin

text \<open>
  The cache of threads for the scheduler with one thread per connection, \<open>Thread_cache\<close> of
  \<^verbatim>\<open>thread_cache.h\<close>, as a system of threads. A piece of code under the mutex is one step of the relation
  below, and a step interleaves with the steps of all other threads; waits may end by a signal, by a
  timeout or spuriously, and signals are sent outside of the mutex. The counter \<open>kill_cached_threads\<close> is
  the one variable that is also accessed without the mutex, by \<open>final_flush\<close>: every read and every write of
  it in an increment or decrement is a step of its own, and the mutex has an owner in between. The queue
  of connections is the sequence that the intrusive list represents. The counters are words of 32 bits,
  the width of \<open>uint32_t\<close> and of \<open>ulong\<close> on Windows (elsewhere \<open>ulong\<close> is wider, and the bound on the
  number of threads below keeps both from wrapping around). A load or store of one counter is atomic.
\<close>

section \<open>Shared state\<close>

(* @thread_cache.h 25-41 Thread_cache *)
record thread_cache =
  conns :: "nat list"
  cached_thread_count :: "32 word"
  kill_cached_threads :: "32 word"

(* @thread_cache.h 44-67 Thread_cache::init *)
definition tc_init :: thread_cache where
  "tc_init = \<lparr>conns = [], cached_thread_count = 0, kill_cached_threads = 0\<rparr>"

section \<open>The pieces of the operations\<close>

text \<open>
  \<open>flush\<close> under the mutex: the store of its first increment, with the value that was loaded before it; the
  test of the loop, which says whether it broadcasts to the parked threads and waits; and the store of
  the final decrement.
\<close>

(* @thread_cache.h 86-89 Thread_cache::flush *)
definition tc_flush :: "32 word \<Rightarrow> thread_cache \<Rightarrow> thread_cache" where
  "tc_flush loaded c = c\<lparr>kill_cached_threads := loaded + 1\<rparr>"

(* @thread_cache.h 90-94 Thread_cache::flush *)
definition tc_flush_loop :: "thread_cache \<Rightarrow> bool" where
  "tc_flush_loop c \<longleftrightarrow> cached_thread_count c \<noteq> 0"

(* @thread_cache.h 95-97 Thread_cache::flush *)
definition tc_flush_leave :: "32 word \<Rightarrow> thread_cache \<Rightarrow> thread_cache" where
  "tc_flush_leave loaded c = c\<lparr>kill_cached_threads := loaded - 1\<rparr>"

text \<open>The store of the increment in \<open>final_flush\<close>, which does not take the mutex.\<close>

(* @thread_cache.h 105-109 Thread_cache::final_flush *)
definition tc_final_flush :: "32 word \<Rightarrow> thread_cache \<Rightarrow> thread_cache" where
  "tc_final_flush loaded c = c\<lparr>kill_cached_threads := loaded + 1\<rparr>"

(* @thread_cache.h 119-132 Thread_cache::enqueue *)
definition tc_enqueue :: "thread_cache \<Rightarrow> nat \<Rightarrow> thread_cache \<times> bool" where
  "tc_enqueue c connect =
     (if cached_thread_count c \<noteq> 0
      then (c\<lparr>conns := conns c @ [connect], cached_thread_count := cached_thread_count c - 1\<rparr>, True)
      else (c, False))"

text \<open>\<open>park\<close> returns with or without a connection, or waits.\<close>

datatype park_result = Return "nat option" bool | Wait

(* @thread_cache.h 166-173 Thread_cache::park *)
definition tc_park :: "32 word \<Rightarrow> thread_cache \<Rightarrow> thread_cache \<times> park_result" where
  "tc_park thread_cache_size c = (case conns c of
     connect # rest \<Rightarrow>
       (c\<lparr>conns := rest, cached_thread_count := cached_thread_count c + 1\<rparr>, Return (Some connect) False)
   | [] \<Rightarrow>
       if cached_thread_count c < thread_cache_size \<and> kill_cached_threads c = 0
       then (c\<lparr>cached_thread_count := cached_thread_count c + 1\<rparr>, Wait)
       else (c, Return None False))"

text \<open>The loop body after a wait that ended with or without a timeout.\<close>

(* @thread_cache.h 174-193 Thread_cache::park *)
definition tc_park_loop :: "thread_cache \<Rightarrow> bool \<Rightarrow> thread_cache \<times> park_result" where
  "tc_park_loop c timeout =
     (let flushed = kill_cached_threads c \<noteq> 0
      in case conns c of
           connect # rest \<Rightarrow> (c\<lparr>conns := rest\<rparr>, Return (Some connect) flushed)
         | [] \<Rightarrow>
             if flushed \<or> timeout
             then (c\<lparr>cached_thread_count := cached_thread_count c - 1\<rparr>, Return None flushed)
             else (c, Wait))"

(* @thread_cache.h 201-207 Thread_cache::size *)
definition tc_size :: "thread_cache \<Rightarrow> 32 word" where
  "tc_size c = cached_thread_count c"

section \<open>Threads\<close>

text \<open>
  Where a thread is: outside the cache; waiting on \<open>COND_thread_cache\<close>; awake from that wait and about to
  take the mutex again (with a timeout or not); about to signal \<open>COND_flush_thread_cache\<close> or
  \<open>COND_thread_cache\<close>; in \<open>flush\<close> with the mutex after the load of the increment, at the test of the loop, or
  after the load of the decrement; waiting on \<open>COND_flush_thread_cache\<close> or awake from that wait; in
  \<open>final_flush\<close> after the load of its increment, or before its call of \<open>flush\<close>.
\<close>

datatype place = Outside | Parked | Awake bool | Signal_Flush | Signal_Cache
  | Flush_Inc "32 word" | Flush_Loop | Flush_Dec "32 word" | Flush_Wait | Flush_Awake
  | Final "32 word" | Final_Call

text \<open>The mutex has an owner between two steps only inside \<open>flush\<close>.\<close>

record system =
  shared :: thread_cache
  owner :: "nat option"
  place_of :: "nat \<Rightarrow> place"

definition move :: "system \<Rightarrow> thread_cache \<Rightarrow> nat \<Rightarrow> place \<Rightarrow> system" where
  "move s c t p = s\<lparr>shared := c, place_of := (place_of s)(t := p)\<rparr>"

text \<open>A broadcast on \<open>COND_thread_cache\<close>.\<close>

definition wake_all :: "(nat \<Rightarrow> place) \<Rightarrow> nat \<Rightarrow> place" where
  "wake_all pl = (\<lambda>t. if pl t = Parked then Awake False else pl t)"

text \<open>Lock the mutex and load the counter that \<open>flush\<close> increments.\<close>

definition flush_lock :: "system \<Rightarrow> nat \<Rightarrow> system" where
  "flush_lock s t = (move s (shared s) t (Flush_Inc (kill_cached_threads (shared s))))\<lparr>owner := Some t\<rparr>"

text \<open>After the test of the loop: broadcast, wait and give the mutex back, or load the counter to decrement.\<close>

definition flush_to :: "system \<Rightarrow> bool \<Rightarrow> nat \<Rightarrow> system" where
  "flush_to s waits t =
     (if waits then s\<lparr>owner := None, place_of := (wake_all (place_of s))(t := Flush_Wait)\<rparr>
      else move s (shared s) t (Flush_Dec (kill_cached_threads (shared s))))"

definition park_to :: "system \<Rightarrow> thread_cache \<times> park_result \<Rightarrow> nat \<Rightarrow> system" where
  "park_to s r t = (case r of
     (c, Wait) \<Rightarrow> move s c t Parked
   | (c, Return connect flushed) \<Rightarrow> move s c t (if flushed then Signal_Flush else Outside))"

text \<open>
  The labels tell the steps apart: \<open>Park t sz\<close> is the start of \<open>park\<close> when the system variable
  \<open>thread_cache_size\<close> has the value \<open>sz\<close>, \<open>Shutdown t\<close> a step of \<open>final_flush\<close>, \<open>Spurious t\<close> the end of a wait
  without a signal, and \<open>Run t\<close> any other step of the thread \<open>t\<close>.
\<close>

datatype label = Park nat "32 word" | Run nat | Spurious nat | Shutdown nat

text \<open>
  One step of one of the \<open>n\<close> threads. A signal wakes one of the waiting threads, if there is one; a wait on
  \<open>COND_thread_cache\<close> may end by a timeout at any moment, and every wait may end spuriously.
\<close>

inductive tc_step :: "nat \<Rightarrow> label \<Rightarrow> system \<Rightarrow> system \<Rightarrow> bool" for n where
  park: "t < n \<Longrightarrow> place_of s t = Outside \<Longrightarrow> owner s = None \<Longrightarrow>
    tc_step n (Park t sz) s (park_to s (tc_park sz (shared s)) t)"
| park_timeout: "place_of s t = Parked \<Longrightarrow> tc_step n (Run t) s (move s (shared s) t (Awake True))"
| park_spurious: "place_of s t = Parked \<Longrightarrow> tc_step n (Spurious t) s (move s (shared s) t (Awake False))"
| park_awake: "place_of s t = Awake timeout \<Longrightarrow> owner s = None \<Longrightarrow>
    tc_step n (Run t) s (park_to s (tc_park_loop (shared s) timeout) t)"
| signal_flush: "place_of s t = Signal_Flush \<Longrightarrow> place_of s u = Flush_Wait \<Longrightarrow>
    tc_step n (Run t) s (move (move s (shared s) t Outside) (shared s) u Flush_Awake)"
| signal_flush_none: "place_of s t = Signal_Flush \<Longrightarrow> \<forall>u. place_of s u \<noteq> Flush_Wait \<Longrightarrow>
    tc_step n (Run t) s (move s (shared s) t Outside)"
| enqueue: "t < n \<Longrightarrow> place_of s t = Outside \<Longrightarrow> owner s = None \<Longrightarrow> tc_enqueue (shared s) connect = (c, r) \<Longrightarrow>
    tc_step n (Run t) s (move s c t (if r then Signal_Cache else Outside))"
| signal_cache: "place_of s t = Signal_Cache \<Longrightarrow> place_of s u = Parked \<Longrightarrow>
    tc_step n (Run t) s (move (move s (shared s) t Outside) (shared s) u (Awake False))"
| signal_cache_none: "place_of s t = Signal_Cache \<Longrightarrow> \<forall>u. place_of s u \<noteq> Parked \<Longrightarrow>
    tc_step n (Run t) s (move s (shared s) t Outside)"
| flush: "t < n \<Longrightarrow> place_of s t = Outside \<Longrightarrow> owner s = None \<Longrightarrow> tc_step n (Run t) s (flush_lock s t)"
| flush_store: "place_of s t = Flush_Inc v \<Longrightarrow>
    tc_step n (Run t) s (move s (tc_flush v (shared s)) t Flush_Loop)"
| flush_loop: "place_of s t = Flush_Loop \<Longrightarrow> tc_step n (Run t) s (flush_to s (tc_flush_loop (shared s)) t)"
| flush_awake: "place_of s t = Flush_Awake \<Longrightarrow> owner s = None \<Longrightarrow>
    tc_step n (Run t) s ((move s (shared s) t Flush_Loop)\<lparr>owner := Some t\<rparr>)"
| flush_spurious: "place_of s t = Flush_Wait \<Longrightarrow> tc_step n (Spurious t) s (move s (shared s) t Flush_Awake)"
| flush_leave: "place_of s t = Flush_Dec v \<Longrightarrow>
    tc_step n (Run t) s ((move s (tc_flush_leave v (shared s)) t Outside)\<lparr>owner := None\<rparr>)"
| final_load: "t < n \<Longrightarrow> place_of s t = Outside \<Longrightarrow>
    tc_step n (Shutdown t) s (move s (shared s) t (Final (kill_cached_threads (shared s))))"
| final_store: "place_of s t = Final v \<Longrightarrow>
    tc_step n (Shutdown t) s (move s (tc_final_flush v (shared s)) t Final_Call)"
| final_call: "place_of s t = Final_Call \<Longrightarrow> owner s = None \<Longrightarrow> tc_step n (Shutdown t) s (flush_lock s t)"

text \<open>Histories whose steps have labels in a set.\<close>

definition tc_steps :: "nat \<Rightarrow> label set \<Rightarrow> system \<Rightarrow> system \<Rightarrow> bool" where
  "tc_steps n A = (\<lambda>s s'. \<exists>l\<in>A. tc_step n l s s')\<^sup>*\<^sup>*"

definition tc_start :: system where
  "tc_start = \<lparr>shared = tc_init, owner = None, place_of = (\<lambda>_. Outside)\<rparr>"

section \<open>Invariant\<close>

fun in_cache :: "place \<Rightarrow> bool" where
  "in_cache Parked = True" | "in_cache (Awake _) = True" | "in_cache _ = False"

text \<open>Between the store of the increment of \<open>flush\<close> and the store of its decrement.\<close>

fun flushing :: "place \<Rightarrow> bool" where
  "flushing Flush_Loop = True" | "flushing (Flush_Dec _) = True" | "flushing Flush_Wait = True"
| "flushing Flush_Awake = True" | "flushing _ = False"

fun holding :: "place \<Rightarrow> bool" where
  "holding (Flush_Inc _) = True" | "holding Flush_Loop = True" | "holding (Flush_Dec _) = True" | "holding _ = False"

definition among :: "(place \<Rightarrow> bool) \<Rightarrow> (nat \<Rightarrow> place) \<Rightarrow> nat set" where
  "among P pl = {t. P (pl t)}"

definition num :: "(place \<Rightarrow> bool) \<Rightarrow> (nat \<Rightarrow> place) \<Rightarrow> int" where
  "num P pl = int (card (among P pl))"

text \<open>
  Every thread in the cache is counted or has a connection waiting for it, and the owner of the mutex is
  where the mutex is held.
\<close>

definition tc_inv :: "nat \<Rightarrow> system \<Rightarrow> bool" where
  "tc_inv n s \<longleftrightarrow> (\<forall>t. n \<le> t \<longrightarrow> place_of s t = Outside) \<and> (\<forall>t. owner s = Some t \<longleftrightarrow> holding (place_of s t)) \<and>
     uint (cached_thread_count (shared s)) + int (length (conns (shared s))) = num in_cache (place_of s)"

text \<open>Without \<open>final_flush\<close> the flush requests in progress are counted.\<close>

definition kill_inv :: "system \<Rightarrow> bool" where
  "kill_inv s \<longleftrightarrow> uint (kill_cached_threads (shared s)) = num flushing (place_of s) \<and>
     (\<forall>t v. place_of s t = Flush_Inc v \<or> place_of s t = Flush_Dec v \<longrightarrow> v = kill_cached_threads (shared s)) \<and>
     (\<forall>t v. place_of s t \<noteq> Final v \<and> place_of s t \<noteq> Final_Call)"

lemma among_upd: "among P (pl(t := p)) = (if P p then insert t (among P pl) else among P pl - {t})"
  by (auto simp: among_def)

lemma among_wake: "among in_cache (wake_all pl) = among in_cache pl" "among flushing (wake_all pl) = among flushing pl"
  by (auto simp: among_def wake_all_def)

lemma num_upd:
  "finite (among P pl) \<Longrightarrow> num P (pl(t := p)) = num P pl + (if P p then 1 else 0) - (if P (pl t) then 1 else 0)"
proof -
  assume f: "finite (among P pl)"
  have m: "t \<in> among P pl \<longleftrightarrow> P (pl t)" by (simp add: among_def)
  then have "P (pl t) \<Longrightarrow> 0 < card (among P pl)" using f by (auto simp: card_gt_0_iff)
  then show ?thesis using f m by (auto simp: num_def among_upd insert_absorb of_nat_diff)
qed

lemma num_wake: "num in_cache (wake_all pl) = num in_cache pl" "num flushing (wake_all pl) = num flushing pl"
  by (simp_all add: num_def among_wake)

lemma num_pos: "finite (among P pl) \<Longrightarrow> P (pl t) \<Longrightarrow> 0 < num P pl"
  by (auto simp: num_def among_def card_gt_0_iff)

text \<open>The threads at some places are among the first \<open>n\<close>, and not all of them.\<close>

lemma among_finite:
  assumes "\<forall>t. n \<le> t \<longrightarrow> pl t = Outside" "\<not> P Outside"
  shows "finite (among P pl)"
proof -
  have "among P pl \<subseteq> {..<n}" using assms by (auto simp: among_def not_le [symmetric])
  then show ?thesis by (rule finite_subset) simp
qed

lemma num_less:
  assumes "\<forall>t. n \<le> t \<longrightarrow> pl t = Outside" "\<not> P Outside" "t < n" "\<not> P (pl t)"
  shows "num P pl < int n"
proof -
  have "among P pl \<subseteq> {..<n} - {t}" using assms by (auto simp: among_def not_le [symmetric])
  then have "card (among P pl) \<le> card ({..<n} - {t})" by (intro card_mono) auto
  then show ?thesis using assms(3) by (simp add: num_def)
qed

lemma wake_all_simps: "wake_all pl t = (if pl t = Parked then Awake False else pl t)"
  by (simp add: wake_all_def)

lemma uint_incr: "uint (w :: 32 word) + 1 < 2 ^ 32 \<Longrightarrow> uint (w + 1) = uint w + 1"
  by (simp add: uint_word_ariths)

lemma uint_decr: "w \<noteq> 0 \<Longrightarrow> uint (w - 1 :: 32 word) = uint w - 1"
  by (metis uint_minus_simple_alt uint_1 word_gt_0 linorder_not_less word_less_1 nle_le)

lemma uint_pos: "0 < uint w \<Longrightarrow> w \<noteq> (0 :: 32 word)"
  by auto

lemmas tc_defs = tc_flush_loop_def tc_flush_def tc_flush_leave_def tc_final_flush_def tc_enqueue_def tc_park_def
  tc_park_loop_def move_def flush_lock_def flush_to_def park_to_def Let_def

lemma tc_inv_among:
  assumes "tc_inv n s"
  shows "finite (among in_cache (place_of s))" "finite (among flushing (place_of s))"
  using assms by (auto simp: tc_inv_def intro: among_finite)

lemma tc_inv_room:
  assumes "tc_inv n s" "n < 2 ^ 32" "t < n" "\<not> in_cache (place_of s t)"
  shows "uint (cached_thread_count (shared s) + 1) = uint (cached_thread_count (shared s)) + 1"
proof (rule uint_incr)
  have "num in_cache (place_of s) < int n" by (rule num_less) (use assms in \<open>auto simp: tc_inv_def\<close>)
  then have "uint (cached_thread_count (shared s)) + 1 \<le> int n" using assms(1) by (simp add: tc_inv_def)
  also have "int n < 2 ^ 32" using assms(2) by simp
  finally show "uint (cached_thread_count (shared s)) + 1 < 2 ^ 32" .
qed

lemma tc_inv_counted:
  assumes "tc_inv n s" "in_cache (place_of s t)" "conns (shared s) = []"
  shows "uint (cached_thread_count (shared s) - 1) = uint (cached_thread_count (shared s)) - 1"
proof (intro uint_decr uint_pos)
  show "0 < uint (cached_thread_count (shared s))"
    using num_pos [OF tc_inv_among(1) [OF assms(1)] assms(2)] assms by (simp add: tc_inv_def)
qed

lemma tc_inv_owner: "tc_inv n s \<Longrightarrow> holding (place_of s u) \<Longrightarrow> holding (place_of s t) \<Longrightarrow> u = t"
  unfolding tc_inv_def by (metis option.inject)

lemma tc_step_inv:
  assumes "tc_step n l s s'" "n < 2 ^ 32" "tc_inv n s"
  shows "tc_inv n s'"
proof -
  note fin = tc_inv_among [OF assms(3)]
  note i = assms(3) [unfolded tc_inv_def]
  from assms(1) show ?thesis
  proof (cases rule: tc_step.cases)
    case (park t sz)
    then show ?thesis using tc_inv_room [OF assms(3,2), of t] fin i
      by (auto simp: tc_inv_def tc_defs num_upd split: list.splits)
  next
    case (park_awake t timeout)
    then show ?thesis using tc_inv_counted [OF assms(3), of t] fin i
      by (auto simp: tc_inv_def tc_defs num_upd split: list.splits)
  next
    case (enqueue t connect c r)
    then show ?thesis using uint_decr [of "cached_thread_count (shared s)"] fin i
      by (auto simp: tc_inv_def tc_defs num_upd split: if_splits)
  next
    case (flush_loop t)
    then have "\<not> holding (place_of s u)" if "u \<noteq> t" for u using tc_inv_owner [OF assms(3), of u t] that by auto
    then show ?thesis using flush_loop fin i
      by (auto simp: tc_inv_def tc_defs num_upd num_wake among_wake wake_all_simps split: if_splits)
  next
    case (flush_leave t v)
    then have "\<not> holding (place_of s u)" if "u \<noteq> t" for u using tc_inv_owner [OF assms(3), of u t] that by auto
    then show ?thesis using flush_leave fin i by (auto simp: tc_inv_def tc_defs num_upd)
  qed (use fin i in \<open>auto simp: tc_inv_def tc_defs num_upd among_upd split: if_splits\<close>)
qed

lemma kill_step_inv:
  assumes "tc_step n l s s'" "n < 2 ^ 32" "tc_inv n s" "kill_inv s" "\<forall>t. l \<noteq> Shutdown t"
  shows "kill_inv s'"
proof -
  note fin = tc_inv_among [OF assms(3)]
  note h = tc_inv_owner [OF assms(3)]
  note i = assms(3) [unfolded tc_inv_def] assms(4) [unfolded kill_inv_def]
  from assms(1) show ?thesis
  proof (cases rule: tc_step.cases)
    case (flush_store t v)
    have n: "t < n" using i(1) flush_store by (metis not_le place.distinct(5) place.simps)
    have "num flushing (place_of s) < int n" by (rule num_less [OF _ _ n]) (use i flush_store in auto)
    then have "uint (v + 1) = uint v + 1" using i(2) flush_store assms(2) by (intro uint_incr) auto
    moreover have "place_of s u \<noteq> Flush_Inc w" "place_of s u \<noteq> Flush_Dec w" if "u \<noteq> t" for u w
      using h [of u t] that flush_store by auto
    ultimately show ?thesis using flush_store fin i(2) by (auto simp: kill_inv_def tc_defs num_upd)
  next
    case (flush_leave t v)
    have "0 < num flushing (place_of s)" by (rule num_pos [OF fin(2), of t]) (use flush_leave in simp)
    then have "uint (v - 1) = uint v - 1" using i(2) flush_leave by (intro uint_decr uint_pos) auto
    moreover have "place_of s u \<noteq> Flush_Inc w" "place_of s u \<noteq> Flush_Dec w" if "u \<noteq> t" for u w
      using h [of u t] that flush_leave by auto
    ultimately show ?thesis using flush_leave fin i(2) by (auto simp: kill_inv_def tc_defs num_upd)
  next
    case (flush_loop t)
    then show ?thesis using fin i(2)
      by (auto simp: kill_inv_def tc_defs num_upd num_wake among_wake wake_all_simps split: if_splits)
  qed (use fin i(2) assms(5) in \<open>auto simp: kill_inv_def tc_defs num_upd among_upd split: if_splits list.splits\<close>)
qed

lemma tc_steps_inv:
  assumes "tc_steps n A tc_start s" "n < 2 ^ 32"
  shows "tc_inv n s \<and> (A \<inter> range Shutdown = {} \<longrightarrow> kill_inv s)"
  using assms(1) unfolding tc_steps_def
proof (induction rule: rtranclp_induct)
  case base
  show ?case by (simp add: tc_inv_def kill_inv_def tc_start_def tc_init_def among_def num_def)
next
  case (step s s')
  then obtain l where l: "l \<in> A" "tc_step n l s s'" by blast
  then have "\<forall>t. l \<noteq> Shutdown t" if "A \<inter> range Shutdown = {}" using that by blast
  then show ?case
    using step.IH tc_step_inv [OF l(2) assms(2)] kill_step_inv [OF l(2) assms(2)] by blast
qed

lemma tc_steps_refl: "tc_steps n A s s"
  by (simp add: tc_steps_def)

lemma tc_steps_step: "tc_step n l s s' \<Longrightarrow> l \<in> A \<Longrightarrow> tc_steps n A s' s'' \<Longrightarrow> tc_steps n A s s''"
  unfolding tc_steps_def by (rule converse_rtranclp_into_rtranclp) blast+

lemma tc_steps_trans [trans]: "tc_steps n A s s' \<Longrightarrow> tc_steps n A s' s'' \<Longrightarrow> tc_steps n A s s''"
  unfolding tc_steps_def by (rule rtranclp_trans)

section \<open>A flush that nobody wakes\<close>

text \<open>
  The thread \<open>b\<close> waits in \<open>flush\<close> although the cache is empty, and no thread is on its way to signal.
\<close>

definition forgotten :: "nat \<Rightarrow> nat \<Rightarrow> system \<Rightarrow> bool" where
  "forgotten n b s \<longleftrightarrow> tc_inv n s \<and> kill_inv s \<and> place_of s b = Flush_Wait \<and>
     cached_thread_count (shared s) = 0 \<and> conns (shared s) = [] \<and> (\<forall>t. place_of s t \<noteq> Signal_Flush)"

lemma forgotten_alone:
  assumes "forgotten n b s"
  shows "\<not> in_cache (place_of s t)" "kill_cached_threads (shared s) \<noteq> 0"
proof -
  have i: "tc_inv n s" "kill_inv s" using assms by (auto simp: forgotten_def)
  show "\<not> in_cache (place_of s t)"
    using num_pos [OF tc_inv_among(1) [OF i(1)], of t] i assms by (auto simp: forgotten_def tc_inv_def)
  show "kill_cached_threads (shared s) \<noteq> 0"
    using num_pos [OF tc_inv_among(2) [OF i(1)], of b] i assms by (auto simp: forgotten_def kill_inv_def)
qed

lemma forgotten_step:
  assumes "tc_step n l s s'" "forgotten n b s" "n < 2 ^ 32" "l \<noteq> Spurious b" "\<forall>t. l \<noteq> Shutdown t"
  shows "forgotten n b s'"
proof -
  have a: "in_cache (place_of s t) = False" "kill_cached_threads (shared s) \<noteq> 0" for t
    using forgotten_alone [OF assms(2)] by auto
  have np: "place_of s t \<noteq> Parked" "place_of s t \<noteq> Awake x" for t x using a(1) [of t] by auto
  have i: "tc_inv n s" "kill_inv s" using assms(2) by (auto simp: forgotten_def)
  have "tc_inv n s'" "kill_inv s'"
    using tc_step_inv [OF assms(1,3) i(1)] kill_step_inv [OF assms(1,3) i assms(5)] by auto
  with assms(1) show ?thesis
    by (cases rule: tc_step.cases)
      (use np a(2) assms(2,4,5) in \<open>auto simp: forgotten_def tc_defs wake_all_simps split: if_splits\<close>)
qed

lemma forgotten_forever:
  assumes "tc_steps n A s s'" "forgotten n b s" "n < 2 ^ 32" "A \<inter> range Shutdown = {}" "Spurious b \<notin> A"
  shows "forgotten n b s'"
  using assms(1,2) unfolding tc_steps_def
proof (induction rule: rtranclp_induct)
  case (step u v)
  then obtain l where "l \<in> A" "tc_step n l u v" by blast
  then show ?case using step assms(3-5) by (intro forgotten_step [of n l u v b]) blast+
qed simp

text \<open>States of three threads, for the histories below.\<close>

definition three :: "32 word \<Rightarrow> 32 word \<Rightarrow> nat option \<Rightarrow> place \<Rightarrow> place \<Rightarrow> place \<Rightarrow> system" where
  "three n k ow p0 p1 p2 = \<lparr>shared = \<lparr>conns = [], cached_thread_count = n, kill_cached_threads = k\<rparr>,
     owner = ow, place_of = (\<lambda>_. Outside)(0 := p0, 1 := p1, 2 := p2)\<rparr>"

lemma three_start: "tc_start = three 0 0 None Outside Outside Outside"
  by (simp add: three_def tc_start_def tc_init_def fun_eq_iff)

lemma tc_step_eq: "tc_step n l s x \<Longrightarrow> x = y \<Longrightarrow> tc_step n l s y"
  by simp

lemmas three_simps = three_def tc_defs wake_all_def fun_eq_iff

text \<open>A flush of the empty cache, by the thread 1 or 2.\<close>

lemma three_flush_lock:
  "2 < n \<Longrightarrow> tc_step n (Run 1) (three c k None p0 Outside p2) (three c k (Some 1) p0 (Flush_Inc k) p2)"
  "2 < n \<Longrightarrow> tc_step n (Run 2) (three c k None p0 p1 Outside) (three c k (Some 2) p0 p1 (Flush_Inc k))"
  by (rule tc_step_eq [OF flush]; auto simp: three_simps)+

lemma three_flush_store:
  "tc_step n (Run 1) (three c k ow p0 (Flush_Inc v) p2) (three c (v + 1) ow p0 Flush_Loop p2)"
  "tc_step n (Run 2) (three c k ow p0 p1 (Flush_Inc v)) (three c (v + 1) ow p0 p1 Flush_Loop)"
  by (rule tc_step_eq [OF flush_store]; auto simp: three_simps)+

lemma three_flush_wait:
  "c \<noteq> 0 \<Longrightarrow> p \<in> {Parked, Awake False} \<Longrightarrow> p2 \<noteq> Parked \<Longrightarrow>
    tc_step n (Run 1) (three c k ow p Flush_Loop p2) (three c k None (Awake False) Flush_Wait p2)"
  "c \<noteq> 0 \<Longrightarrow> p \<in> {Parked, Awake False} \<Longrightarrow> p1 \<noteq> Parked \<Longrightarrow>
    tc_step n (Run 2) (three c k ow p p1 Flush_Loop) (three c k None (Awake False) p1 Flush_Wait)"
  by (rule tc_step_eq [OF flush_loop]; auto simp: three_simps)+

lemma three_flush_load:
  "tc_step n (Run 1) (three 0 k ow p0 Flush_Loop p2) (three 0 k ow p0 (Flush_Dec k) p2)"
  "tc_step n (Run 2) (three 0 k ow p0 p1 Flush_Loop) (three 0 k ow p0 p1 (Flush_Dec k))"
  by (rule tc_step_eq [OF flush_loop]; auto simp: three_simps)+

lemma three_flush_leave:
  "tc_step n (Run 1) (three c k ow p0 (Flush_Dec v) p2) (three c (v - 1) None p0 Outside p2)"
  "tc_step n (Run 2) (three c k ow p0 p1 (Flush_Dec v)) (three c (v - 1) None p0 p1 Outside)"
  by (rule tc_step_eq [OF flush_leave]; auto simp: three_simps)+

text \<open>The thread 0 parks, and leaves when it is flushed.\<close>

lemma three_park:
  "2 < n \<Longrightarrow> 0 < sz \<Longrightarrow>
    tc_step n (Park 0 sz) (three 0 0 None Outside Outside Outside) (three 1 0 None Parked Outside Outside)"
  "k \<noteq> 0 \<Longrightarrow> tc_step n (Run 0) (three c k None (Awake False) p1 p2) (three (c - 1) k None Signal_Flush p1 p2)"
  "tc_step n (Run 0) (three c k ow Signal_Flush Flush_Wait p2) (three c k ow Outside Flush_Awake p2)"
  "tc_step n (Run 1) (three c k None p0 Flush_Awake p2) (three c k (Some 1) p0 Flush_Loop p2)"
     apply (rule tc_step_eq [OF park]; auto simp: three_simps)
    apply (rule tc_step_eq [OF park_awake]; auto simp: three_simps)
   apply (rule tc_step_eq [OF signal_flush [of _ 0 1]]; auto simp: three_simps)
  apply (rule tc_step_eq [OF flush_awake]; auto simp: three_simps)
  done


text \<open>Two flushes of a cache with one parked thread, of which the signal wakes one.\<close>

lemma lost_reachable:
  assumes "0 < sz" "2 < n" "range Run \<union> range (\<lambda>t. Park t sz) \<subseteq> A"
  shows "tc_steps n A tc_start (three 0 1 None Outside Outside Flush_Wait)"
proof -
  have A: "Run t \<in> A" "Park t sz \<in> A" for t using assms(3) by auto
  note st = tc_steps_step [OF _ A(1)] and refl = tc_steps_refl
  have "tc_steps n A (three 0 0 None Outside Outside Outside) (three 1 0 None Parked Outside Outside)"
    by (rule tc_steps_step [OF three_park(1) [OF assms(2,1)] A(2) refl])
  also have "tc_steps n A \<dots> (three 1 (0 + 1) None (Awake False) Flush_Wait Outside)"
    by (rule st [OF three_flush_lock(1) [OF assms(2)] st [OF three_flush_store(1) st [OF three_flush_wait(1) refl]]]) simp_all
  also have "tc_steps n A \<dots> (three 1 (0 + 1 + 1) None (Awake False) Flush_Wait Flush_Wait)"
    by (rule st [OF three_flush_lock(2) [OF assms(2)] st [OF three_flush_store(2) st [OF three_flush_wait(2) refl]]]) simp_all
  also have "tc_steps n A \<dots> (three (1 - 1) (0 + 1 + 1) None Outside Flush_Awake Flush_Wait)"
    by (rule st [OF three_park(2) st [OF three_park(3) refl]]) simp
  also have "three (1 - 1) (0 + 1 + 1) None Outside Flush_Awake Flush_Wait = three 0 2 None Outside Flush_Awake Flush_Wait"
    by simp
  also have "tc_steps n A \<dots> (three 0 (2 - 1) None Outside Outside Flush_Wait)"
    by (rule st [OF three_park(4) st [OF three_flush_load(1) st [OF three_flush_leave(1) refl]]])
  finally show ?thesis by (simp add: three_start)
qed


section \<open>Properties\<close>

text \<open>C5: In every interleaving of fewer than $2^{32}$ threads, with timeouts, spurious wakeups and the
  unlocked increment of \<open>final_flush\<close>, the cache counts right: the threads in the cache are those counted
  by \<open>size\<close> and one for each queued connection, so a connection that \<open>enqueue\<close> accepted has a thread in the
  cache to serve it and the count never wraps around. In a history without steps of \<open>final_flush\<close> the
  counter of flush requests is the number of threads between the increment and the decrement of \<open>flush\<close>.\<close>

theorem thread_cache_counts:
  assumes "tc_steps n A tc_start s" "n < 2 ^ 32"
  shows "uint (tc_size (shared s)) + int (length (conns (shared s))) = num in_cache (place_of s) \<and>
    (conns (shared s) \<noteq> [] \<longrightarrow> (\<exists>t<n. in_cache (place_of s t))) \<and>
    (A \<inter> range Shutdown = {} \<longrightarrow> uint (kill_cached_threads (shared s)) = num flushing (place_of s))"
proof -
  have i: "tc_inv n s" "A \<inter> range Shutdown = {} \<Longrightarrow> kill_inv s" using tc_steps_inv [OF assms] by auto
  have "\<exists>t<n. in_cache (place_of s t)" if c: "conns (shared s) \<noteq> []"
  proof (rule ccontr)
    assume "\<not> (\<exists>t<n. in_cache (place_of s t))"
    then have "\<not> in_cache (place_of s t)" for t
      using i(1) by (cases "t < n") (auto simp: tc_inv_def)
    then have "num in_cache (place_of s) = 0" by (simp add: num_def among_def)
    moreover have "0 \<le> uint (cached_thread_count (shared s))" "0 < length (conns (shared s))" using c by auto
    ultimately show False using i(1) unfolding tc_inv_def by linarith
  qed
  then show ?thesis using i by (auto simp: tc_inv_def kill_inv_def tc_size_def)
qed

text \<open>A thread parks, wakes up spuriously, and another one enqueues the connection 7 for it.\<close>

definition one_queued :: system where
  "one_queued = \<lparr>shared = \<lparr>conns = [7], cached_thread_count = 0, kill_cached_threads = 0\<rparr>, owner = None,
     place_of = (\<lambda>_. Outside)(0 := Awake False, 1 := Signal_Cache)\<rparr>"

lemma one_queued_reachable: "tc_steps 3 (- range Shutdown) tc_start one_queued"
proof -
  have "tc_step 3 (Spurious 0) (three 1 0 None Parked Outside Outside) (three 1 0 None (Awake False) Outside Outside)"
    by (rule tc_step_eq [OF park_spurious]) (auto simp: three_simps)
  moreover have "tc_step 3 (Run 1) (three 1 0 None (Awake False) Outside Outside) one_queued"
    by (rule tc_step_eq [OF enqueue [of 1 3 _ 7]]) (auto simp: three_simps one_queued_def)
  moreover have "tc_step 3 (Park 0 1) (three 0 0 None Outside Outside Outside) (three 1 0 None Parked Outside Outside)"
    by (rule three_park(1)) simp_all
  moreover have "Park 0 1 \<in> - range Shutdown" "Spurious 0 \<in> - range Shutdown" "Run 1 \<in> - range Shutdown" by auto
  ultimately show ?thesis unfolding three_start by (meson tc_steps_step tc_steps_refl)
qed

theorem thread_cache_counts_witness:
  "tc_steps 3 (- range Shutdown) tc_start one_queued \<and> conns (shared one_queued) = [7] \<and>
    num in_cache (place_of one_queued) = 1 \<and> (\<exists>t<3. in_cache (place_of one_queued t)) \<and>
    num flushing (place_of one_queued) = 0"
proof -
  have c: "conns (shared one_queued) = [7]" "tc_size (shared one_queued) = 0" "kill_cached_threads (shared one_queued) = 0"
    by (simp_all add: one_queued_def tc_size_def)
  have d: "- range Shutdown \<inter> range Shutdown = {}" by blast
  show ?thesis
    using thread_cache_counts [OF one_queued_reachable] one_queued_reachable d by (simp add: c)
qed

text \<open>C4: Two threads that flush the cache at the same time can lose a wakeup. The last parked thread
  signals only one of them, which returns without signalling the other; since the other one still holds
  a flush request no thread parks any more, so the program never signals it again: whatever the threads do,
  short of \<open>final_flush\<close>, it stays in its wait unless the wait itself ends spuriously.\<close>

theorem thread_cache_lost_wakeup:
  assumes "0 < thread_cache_size" "2 < n" "n < 2 ^ 32"
  shows "\<exists>s. tc_steps n (range Run \<union> range (\<lambda>t. Park t thread_cache_size)) tc_start s \<and>
    place_of s 2 = Flush_Wait \<and> tc_size (shared s) = 0 \<and>
    (\<forall>A s'. A \<inter> range Shutdown = {} \<and> Spurious 2 \<notin> A \<and> tc_steps n A s s' \<longrightarrow>
      place_of s' 2 = Flush_Wait \<and> tc_size (shared s') = 0)"
proof -
  let ?s = "three 0 1 None Outside Outside Flush_Wait"
  let ?A = "range Run \<union> range (\<lambda>t. Park t thread_cache_size)"
  have r: "tc_steps n ?A tc_start ?s" by (rule lost_reachable [OF assms(1,2) subset_refl])
  have "?A \<inter> range Shutdown = {}" by auto
  then have f: "forgotten n 2 ?s"
    using tc_steps_inv [OF r assms(3)] by (simp add: forgotten_def three_def)
  have "place_of s' 2 = Flush_Wait \<and> tc_size (shared s') = 0"
    if "A \<inter> range Shutdown = {} \<and> Spurious 2 \<notin> A \<and> tc_steps n A ?s s'" for A s'
    using forgotten_forever [OF _ f assms(3), of A s'] that by (simp add: forgotten_def tc_size_def)
  then show ?thesis using r by (intro exI [of _ ?s]) (simp add: tc_size_def three_def)
qed

theorem thread_cache_lost_wakeup_witness:
  "\<exists>s. tc_steps 3 (range Run \<union> range (\<lambda>t. Park t 256)) tc_start s \<and> tc_size (shared s) = 0 \<and>
    (\<forall>s'. tc_steps 3 (range Run \<union> range (\<lambda>t. Park t 256)) s s' \<longrightarrow> place_of s' 2 = Flush_Wait)"
proof -
  let ?A = "range Run \<union> range (\<lambda>t. Park t 256)"
  have "(0 :: 32 word) < 256" "2 < (3 :: nat)" "(3 :: nat) < 2 ^ 32" by simp_all
  from thread_cache_lost_wakeup [OF this] obtain s where s: "tc_steps 3 ?A tc_start s" "tc_size (shared s) = 0"
    and f: "\<And>A s'. A \<inter> range Shutdown = {} \<Longrightarrow> Spurious 2 \<notin> A \<Longrightarrow> tc_steps 3 A s s' \<Longrightarrow> place_of s' 2 = Flush_Wait"
    by metis
  have "?A \<inter> range Shutdown = {}" "Spurious 2 \<notin> ?A" by auto
  then show ?thesis using s f [of ?A] by (intro exI [of _ s]) simp
qed



end
