(* ===== verification/Sql_Limit.thy ===== *)
theory Sql_Limit
  imports Prelude
begin

text \<open>
  The LIMIT and OFFSET counters of \<^verbatim>\<open>sql_limit.h\<close>. \<open>ha_rows\<close> is a 64-bit word, and the guard of
  \<open>set_limit\<close> against a sum that wraps around is modelled with the wrap-around.
\<close>

type_synonym ha_rows = "64 word"

(* @my_base.h 670-670 HA_POS_ERROR *)
definition HA_POS_ERROR :: ha_rows where
  "HA_POS_ERROR = NOT 0"

(* @sql_limit.h 23-26 Select_limit_counters *)
record limit_counters =
  select_limit_cnt :: ha_rows
  offset_limit_cnt :: ha_rows
  with_ties :: bool

(* @sql_limit.h 29-31 Select_limit_counters::Select_limit_counters *)
definition slc_new :: limit_counters where
  "slc_new = \<lparr>select_limit_cnt = 0, offset_limit_cnt = 0, with_ties = False\<rparr>"

(* @sql_limit.h 38-55 Select_limit_counters::set_limit *)
definition set_limit :: "limit_counters \<Rightarrow> ha_rows \<Rightarrow> ha_rows \<Rightarrow> bool \<Rightarrow> limit_counters" where
  "set_limit l limit offset with_ties_arg =
     (let offset' = (if limit = 0 then 0 else offset);
          l1 = l\<lparr>offset_limit_cnt := offset', select_limit_cnt := limit, with_ties := with_ties_arg\<rparr>
      in if select_limit_cnt l1 + offset_limit_cnt l1 \<ge> select_limit_cnt l1
         then l1\<lparr>select_limit_cnt := select_limit_cnt l1 + offset_limit_cnt l1\<rparr>
         else l1\<lparr>select_limit_cnt := HA_POS_ERROR\<rparr>)"

(* @sql_limit.h 57-62 Select_limit_counters::set_single_row *)
definition set_single_row :: "limit_counters \<Rightarrow> limit_counters" where
  "set_single_row l = l\<lparr>offset_limit_cnt := 0, select_limit_cnt := 1, with_ties := False\<rparr>"

(* @sql_limit.h 64-65 Select_limit_counters::is_unlimited *)
definition is_unlimited :: "limit_counters \<Rightarrow> bool" where
  "is_unlimited l \<longleftrightarrow> select_limit_cnt l = HA_POS_ERROR"

(* @sql_limit.h 66-72 Select_limit_counters::set_unlimited *)
definition set_unlimited :: "limit_counters \<Rightarrow> limit_counters" where
  "set_unlimited l = l\<lparr>select_limit_cnt := HA_POS_ERROR\<rparr>"

(* @sql_limit.h 74-76 Select_limit_counters::clear *)
definition slc_clear :: "limit_counters \<Rightarrow> limit_counters" where
  "slc_clear l = l\<lparr>select_limit_cnt := HA_POS_ERROR, offset_limit_cnt := 0, with_ties := False\<rparr>"

(* @sql_limit.h 78-81 Select_limit_counters::check_offset *)
definition check_offset :: "limit_counters \<Rightarrow> ha_rows \<Rightarrow> bool" where
  "check_offset l sent \<longleftrightarrow> sent < offset_limit_cnt l"

(* @sql_limit.h 82-82 Select_limit_counters::remove_offset *)
definition remove_offset :: "limit_counters \<Rightarrow> limit_counters" where
  "remove_offset l = l\<lparr>offset_limit_cnt := 0\<rparr>"

(* @sql_limit.h 84-85 Select_limit_counters::get_select_limit *)
definition get_select_limit :: "limit_counters \<Rightarrow> ha_rows" where
  "get_select_limit l = select_limit_cnt l"

(* @sql_limit.h 86-87 Select_limit_counters::get_offset_limit *)
definition get_offset_limit :: "limit_counters \<Rightarrow> ha_rows" where
  "get_offset_limit l = offset_limit_cnt l"

section \<open>The rows of a query\<close>

text \<open>The rows that a loop over a result sends: those before the limit that the offset does not skip.\<close>

definition rows_sent :: "limit_counters \<Rightarrow> nat \<Rightarrow> nat list" where
  "rows_sent l n = filter (\<lambda>i. of_nat i < get_select_limit l \<and> \<not> check_offset l (of_nat i)) [0..<n]"

lemma unat_HA_POS_ERROR: "unat HA_POS_ERROR = 2 ^ 64 - 1"
  by (simp add: HA_POS_ERROR_def unsigned_minus_1_eq_mask mask_eq_exp_minus_1)

lemma limit_sum:
  fixes a b :: ha_rows
  shows "a \<le> a + b \<longleftrightarrow> unat a + unat b < 2 ^ 64"
proof (cases "unat a + unat b < 2 ^ 64")
  case True
  then show ?thesis using unat_plus_small [of a b] by (simp add: word_le_nat_alt)
next
  case False
  have lt: "unat a < 2 ^ 64" "unat b < 2 ^ 64" using unsigned_less [of a] unsigned_less [of b] by simp_all
  have "unat (a + b) = (unat a + unat b) mod 2 ^ 64" using unat_word_ariths(1) [of a b] by simp
  also have "\<dots> = unat a + unat b - 2 ^ 64" using False lt by (simp add: le_mod_geq)
  finally show ?thesis using False lt(2) by (simp add: word_le_nat_alt)
qed

lemma set_limit_fields:
  "unat (offset_limit_cnt (set_limit l limit offset t)) = (if limit = 0 then 0 else unat offset)"
  "unat (select_limit_cnt (set_limit l limit offset t)) =
     (if limit = 0 then 0 else min (unat limit + unat offset) (2 ^ 64 - 1))"
proof -
  show "unat (offset_limit_cnt (set_limit l limit offset t)) = (if limit = 0 then 0 else unat offset)"
    by (simp add: set_limit_def Let_def)
  show "unat (select_limit_cnt (set_limit l limit offset t)) =
     (if limit = 0 then 0 else min (unat limit + unat offset) (2 ^ 64 - 1))"
  proof (cases "limit = 0")
    case False
    then show ?thesis
      using limit_sum [of limit offset] by (auto simp: set_limit_def Let_def unat_HA_POS_ERROR unat_plus_small)
  qed (simp add: set_limit_def)
qed

lemma filter_upt: "filter (\<lambda>i. a \<le> i \<and> i < b) [0..<n] = [a..<min n b]"
proof (induction n)
  case (Suc n)
  consider "n < b" | "b < n" | "n = b" by linarith
  then show ?case by cases (use Suc in \<open>auto simp: min_def\<close>)
qed simp

lemma rows_sent_upt:
  assumes "n < 2 ^ 64"
  shows "rows_sent l n = [unat (offset_limit_cnt l)..<min n (unat (select_limit_cnt l))]"
proof -
  have "(of_nat i < get_select_limit l \<and> \<not> check_offset l (of_nat i)) \<longleftrightarrow>
      unat (offset_limit_cnt l) \<le> i \<and> i < unat (select_limit_cnt l)" if "i < n" for i
    using that assms by (auto simp: get_select_limit_def check_offset_def word_less_nat_alt unsigned_of_nat take_bit_nat_eq_self)
  then have "rows_sent l n = filter (\<lambda>i. unat (offset_limit_cnt l) \<le> i \<and> i < unat (select_limit_cnt l)) [0..<n]"
    unfolding rows_sent_def by (intro filter_cong) auto
  then show ?thesis by (simp add: filter_upt)
qed

section \<open>Properties\<close>

text \<open>\<open>LIMIT k OFFSET o\<close> sends exactly the rows from \<open>o\<close> up to, not including, \<open>o + k\<close> of any result, for all
  64-bit values of both: where the sum wraps around the query has no limit, and then the result ends before
  the limit would.\<close>

theorem limit_offset_rows:
  assumes "n < 2 ^ 64"
  shows "rows_sent (set_limit l k o' t) n = [unat o'..<min n (unat o' + unat k)] \<and>
    rows_sent (slc_clear l) n = [0..<min n (2 ^ 64 - 1)] \<and>
    rows_sent (set_single_row l) n = [0..<min n 1] \<and>
    (is_unlimited (set_limit l k o' t) \<longleftrightarrow> k \<noteq> 0 \<and> 2 ^ 64 - 1 \<le> unat k + unat o')"
proof (intro conjI)
  show "rows_sent (set_limit l k o' t) n = [unat o'..<min n (unat o' + unat k)]"
    using assms by (auto simp: rows_sent_upt [OF assms] set_limit_fields min_def add.commute)
  show "rows_sent (slc_clear l) n = [0..<min n (2 ^ 64 - 1)]"
    by (simp add: rows_sent_upt [OF assms] slc_clear_def unat_HA_POS_ERROR)
  show "rows_sent (set_single_row l) n = [0..<min n 1]"
    by (simp add: rows_sent_upt [OF assms] set_single_row_def)
  have "is_unlimited (set_limit l k o' t) \<longleftrightarrow> unat (select_limit_cnt (set_limit l k o' t)) = 2 ^ 64 - 1"
    unfolding is_unlimited_def by (metis unat_HA_POS_ERROR unsigned_word_eqI)
  then show "is_unlimited (set_limit l k o' t) \<longleftrightarrow> k \<noteq> 0 \<and> 2 ^ 64 - 1 \<le> unat k + unat o'"
    by (auto simp: set_limit_fields min_def)
qed

theorem limit_offset_rows_witness: "rows_sent (set_limit slc_new 3 4 False) 10 = [4, 5, 6]"
  using limit_offset_rows [of 10 slc_new 3 4 False] by simp

end
