(* ===== verification/Mem_Root_Array.thy ===== *)
theory Mem_Root_Array
  imports Prelude
begin

text \<open>
  The growing array \<open>Mem_root_array\<close> of \<^verbatim>\<open>mem_root_array.h\<close>. Memory is a set of blocks; a cell of a block
  holds an object or none, and a block has a size in bytes. Constructing, copying or destroying an object
  outside of its block, or using a cell without an object, is undefined behaviour, the result \<open>None\<close>. The
  allocator \<^verbatim>\<open>alloc_root\<close> is outside of the headers: its result, a new block or a failure, is an argument.
  The size of an element and whether its destructor is trivial are the parameters \<open>esz\<close> and \<open>triv\<close> of the
  template; \<open>destroyed\<close> records the destructor calls.
\<close>

(* @mem_root_array.h 233-237 Mem_root_array *)
record 'e mra =
  blk :: "nat \<Rightarrow> nat \<Rightarrow> 'e option"
  bsize :: "nat \<Rightarrow> nat"
  m_array :: "nat option"
  m_size :: "64 word"
  m_capacity :: "64 word"
  destroyed :: "'e list"

section \<open>Cells\<close>

text \<open>The address of the element \<open>i\<close> of the array of block \<open>a\<close>, if it lies within the block.\<close>

definition in_block :: "nat \<Rightarrow> 'e mra \<Rightarrow> nat option \<Rightarrow> nat \<Rightarrow> nat option" where
  "in_block esz h a i = (case a of None \<Rightarrow> None | Some b \<Rightarrow> if (i + 1) * esz \<le> bsize h b then Some b else None)"

definition cell_construct :: "nat \<Rightarrow> 'e mra \<Rightarrow> nat option \<Rightarrow> nat \<Rightarrow> 'e \<Rightarrow> 'e mra option" where
  "cell_construct esz h a i x =
     Option.bind (in_block esz h a i) (\<lambda>b. Some (h\<lparr>blk := (blk h)(b := (blk h b)(i := Some x))\<rparr>))"

definition cell_read :: "nat \<Rightarrow> 'e mra \<Rightarrow> nat option \<Rightarrow> nat \<Rightarrow> 'e option" where
  "cell_read esz h a i = Option.bind (in_block esz h a i) (\<lambda>b. blk h b i)"

definition cell_destroy :: "nat \<Rightarrow> 'e mra \<Rightarrow> nat option \<Rightarrow> nat \<Rightarrow> 'e mra option" where
  "cell_destroy esz h a i =
     Option.bind (in_block esz h a i) (\<lambda>b. Option.bind (blk h b i) (\<lambda>x.
       Some (h\<lparr>blk := (blk h)(b := (blk h b)(i := None)), destroyed := destroyed h @ [x]\<rparr>)))"

section \<open>Operations\<close>

(* @mem_root_array.h 53-57 Mem_root_array::Mem_root_array *)
definition mra_new :: "(nat \<Rightarrow> nat \<Rightarrow> 'e option) \<Rightarrow> (nat \<Rightarrow> nat) \<Rightarrow> 'e mra" where
  "mra_new bl bs = \<lparr>blk = bl, bsize = bs, m_array = None, m_size = 0, m_capacity = 0, destroyed = []\<rparr>"

(* @mem_root_array.h 227-227 Mem_root_array::capacity *)
definition mra_capacity :: "'e mra \<Rightarrow> 64 word" where
  "mra_capacity h = m_capacity h"

(* @mem_root_array.h 230-230 Mem_root_array::size *)
definition mra_size :: "'e mra \<Rightarrow> 64 word" where
  "mra_size h = m_size h"

(* @mem_root_array.h 229-229 Mem_root_array::empty *)
definition mra_empty :: "'e mra \<Rightarrow> bool" where
  "mra_empty h \<longleftrightarrow> mra_size h = 0"

(* @mem_root_array.h 70-80 Mem_root_array::at *)
definition mra_at :: "64 word \<Rightarrow> 'e mra \<Rightarrow> 64 word \<Rightarrow> 'e option" where
  "mra_at esz h n = cell_read (unat esz) h (m_array h) (unat n)"

(* @mem_root_array.h 85-86 Mem_root_array::back *)
definition mra_back :: "64 word \<Rightarrow> 'e mra \<Rightarrow> 'e option" where
  "mra_back esz h = mra_at esz h (mra_size h - 1)"

(* @mem_root_array.h 112-116 Mem_root_array::chop *)
fun chop_loop :: "64 word \<Rightarrow> 'e mra \<Rightarrow> nat list \<Rightarrow> 'e mra option" where
  "chop_loop esz h [] = Some h"
| "chop_loop esz h (ix # ixs) = Option.bind (cell_destroy (unat esz) h (m_array h) ix) (\<lambda>h1. chop_loop esz h1 ixs)"

(* @mem_root_array.h 103-119 Mem_root_array::chop *)
definition mra_chop :: "64 word \<Rightarrow> bool \<Rightarrow> 'e mra \<Rightarrow> 64 word \<Rightarrow> 'e mra option" where
  "mra_chop esz triv h ps =
     Option.bind (if \<not> triv then chop_loop esz h [unat ps..<unat (m_size h)] else Some h) (\<lambda>h1.
     Some (h1\<lparr>m_size := ps\<rparr>))"

(* @mem_root_array.h 96-101 Mem_root_array::clear *)
definition mra_clear :: "64 word \<Rightarrow> bool \<Rightarrow> 'e mra \<Rightarrow> 'e mra option" where
  "mra_clear esz triv h = (if \<not> mra_empty h then mra_chop esz triv h 0 else Some h)"

text \<open>One round of the copying loop: the element is copied to the new array, then the old one is destroyed.\<close>

(* @mem_root_array.h 139-146 Mem_root_array::reserve *)
fun copy_loop :: "64 word \<Rightarrow> bool \<Rightarrow> nat option \<Rightarrow> 'e mra \<Rightarrow> nat list \<Rightarrow> 'e mra option" where
  "copy_loop esz triv array h [] = Some h"
| "copy_loop esz triv array h (ix # ixs) =
     Option.bind (cell_read (unat esz) h (m_array h) ix) (\<lambda>x.
     Option.bind (cell_construct (unat esz) h array ix x) (\<lambda>h1.
     Option.bind (if \<not> triv then cell_destroy (unat esz) h1 (m_array h1) ix else Some h1) (\<lambda>h2.
     copy_loop esz triv array h2 ixs)))"

text \<open>The requested size \<open>n * element_size()\<close> is a product of 64-bit words; the new block has that many bytes.\<close>

(* @mem_root_array.h 128-152 Mem_root_array::reserve *)
definition mra_reserve :: "64 word \<Rightarrow> bool \<Rightarrow> nat option \<Rightarrow> 'e mra \<Rightarrow> 64 word \<Rightarrow> ('e mra \<times> bool) option" where
  "mra_reserve esz triv mem h n =
     (if n \<le> m_capacity h then Some (h, False)
      else case mem of
        None \<Rightarrow> Some (h, True)
      | Some b \<Rightarrow>
          let h1 = h\<lparr>bsize := (bsize h)(b := unat (n * esz)), blk := (blk h)(b := (\<lambda>_. None))\<rparr>
          in Option.bind (copy_loop esz triv (Some b) h1 [0..<unat (m_size h1)]) (\<lambda>h2.
             Some (h2\<lparr>m_array := Some b, m_capacity := n\<rparr>, False)))"

text \<open>The argument of \<open>push_back\<close> is a reference: it is read when the copy is made, after the array has grown.\<close>

(* @mem_root_array.h 162-173 Mem_root_array::push_back *)
definition mra_push_back ::
  "64 word \<Rightarrow> bool \<Rightarrow> nat option \<Rightarrow> 'e mra \<Rightarrow> ('e mra \<Rightarrow> 'e option) \<Rightarrow> ('e mra \<times> bool) option" where
  "mra_push_back esz triv mem h element =
     Option.bind (if m_capacity h = 0 then mra_reserve esz triv mem h 20 else Some (h, False)) (\<lambda>(h1, oom1).
     if oom1 then Some (h1, True)
     else Option.bind (if m_size h1 = m_capacity h1 then mra_reserve esz triv mem h1 (m_capacity h1 * 2)
                       else Some (h1, False)) (\<lambda>(h2, oom2).
       if oom2 then Some (h2, True)
       else
         let ix = m_size h2; h3 = h2\<lparr>m_size := m_size h2 + 1\<rparr>
         in Option.bind (element h3) (\<lambda>x.
            Option.bind (cell_construct (unat esz) h3 (m_array h3) (unat ix) x) (\<lambda>h4. Some (h4, False)))))"

(* @mem_root_array.h 179-185 Mem_root_array::pop_back *)

text \<open>After \<open>reserve (n)\<close> the loop does not allocate; a failing allocator stands for that.\<close>


section \<open>What an array represents\<close>

text \<open>
  The elements are the objects in the first cells of the block, which has room for as many as the
  capacity says. Cells beyond the size hold no object when the destructor is not trivial.
\<close>

definition mra_rep :: "64 word \<Rightarrow> 'e mra \<Rightarrow> 'e list \<Rightarrow> bool" where
  "mra_rep esz h xs \<longleftrightarrow> unat (m_size h) = length xs \<and> m_size h \<le> m_capacity h \<and>
     (case m_array h of
        None \<Rightarrow> m_capacity h = 0
      | Some b \<Rightarrow> unat (m_capacity h) * unat esz \<le> bsize h b \<and> (\<forall>i < length xs. blk h b i = Some (xs ! i)))"

lemma mra_new_rep: "mra_rep esz (mra_new bl bs) []"
  by (simp add: mra_rep_def mra_new_def)

lemma mra_rep_block:
  assumes "mra_rep esz h xs" "i < length xs"
  shows "\<exists>b. m_array h = Some b \<and> in_block (unat esz) h (m_array h) i = Some b \<and> blk h b i = Some (xs ! i)"
proof -
  have le: "length xs \<le> unat (m_capacity h)" using assms(1) by (auto simp: mra_rep_def word_le_nat_alt)
  obtain b where b: "m_array h = Some b" "unat (m_capacity h) * unat esz \<le> bsize h b" "blk h b i = Some (xs ! i)"
    using assms le by (cases "m_array h") (auto simp: mra_rep_def)
  have "(i + 1) * unat esz \<le> unat (m_capacity h) * unat esz" using assms(2) le by (intro mult_le_mono1) simp
  then show ?thesis using b by (simp add: in_block_def)
qed


section \<open>Growing\<close>

lemma in_block_Some: "n * e \<le> bsize h b \<Longrightarrow> i < n \<Longrightarrow> in_block e h (Some b) i = Some b"
  using mult_le_mono1 [of "i + 1" n e] by (simp add: in_block_def)

lemma copy_loop_ok:
  assumes "m_array h = Some a" "a \<noteq> b" "length xs * unat esz \<le> bsize h a" "length xs * unat esz \<le> bsize h b"
    "\<And>i. k \<le> i \<Longrightarrow> i < length xs \<Longrightarrow> blk h a i = Some (xs ! i)" "k \<le> length xs"
  shows "\<exists>g. copy_loop esz triv (Some b) h [k..<length xs] = Some g \<and> m_array g = Some a \<and> m_size g = m_size h \<and>
    m_capacity g = m_capacity h \<and> bsize g = bsize h \<and> destroyed g = destroyed h @ (if triv then [] else drop k xs) \<and>
    (\<forall>i. blk g b i = (if k \<le> i \<and> i < length xs then Some (xs ! i) else blk h b i)) \<and>
    (\<forall>i. blk g a i = (if \<not> triv \<and> k \<le> i \<and> i < length xs then None else blk h a i))"
  using assms
proof (induction "length xs - k" arbitrary: h k)
  case 0
  then show ?case by auto
next
  case (Suc d)
  then have k: "k < length xs" by simp
  then have up: "[k..<length xs] = k # [Suc k..<length xs]" by (simp add: upt_conv_Cons)
  let ?h1 = "h\<lparr>blk := (blk h)(b := (blk h b)(k := Some (xs ! k)))\<rparr>"
  let ?h2 = "if triv then ?h1
    else ?h1\<lparr>blk := (blk ?h1)(a := (blk ?h1 a)(k := None)), destroyed := destroyed h @ [xs ! k]\<rparr>"
  have cells: "in_block (unat esz) h (Some a) k = Some a" "in_block (unat esz) h (Some b) k = Some b"
    "in_block (unat esz) ?h1 (Some a) k = Some a"
    using in_block_Some [OF Suc.prems(3) k] in_block_Some [OF Suc.prems(4) k] by (simp_all add: in_block_def)
  have "copy_loop esz triv (Some b) h [k..<length xs] = copy_loop esz triv (Some b) ?h2 [Suc k..<length xs]"
    using Suc.prems(1,2) Suc.prems(5) [of k] k cells unfolding up
    by (simp add: cell_read_def cell_construct_def cell_destroy_def)
  moreover obtain g where g: "copy_loop esz triv (Some b) ?h2 [Suc k..<length xs] = Some g \<and> m_array g = Some a \<and> m_size g = m_size ?h2 \<and>
    m_capacity g = m_capacity ?h2 \<and> bsize g = bsize ?h2 \<and> destroyed g = destroyed ?h2 @ (if triv then [] else drop (Suc k) xs) \<and>
    (\<forall>i. blk g b i = (if Suc k \<le> i \<and> i < length xs then Some (xs ! i) else blk ?h2 b i)) \<and>
    (\<forall>i. blk g a i = (if \<not> triv \<and> Suc k \<le> i \<and> i < length xs then None else blk ?h2 a i))"
    using Suc.prems Suc.hyps(2) k Suc.hyps(1) [of "Suc k" ?h2] by (fastforce split: if_splits)
  moreover have "drop k xs = xs ! k # drop (Suc k) xs" using k by (simp add: Cons_nth_drop_Suc)
  ultimately show ?case using Suc.prems(2) k by (intro exI [of _ g]) (auto simp: Suc_le_eq le_less)
qed

text \<open>What growing does when the requested size does not wrap around.\<close>

lemma mra_reserve_rep:
  assumes "mra_rep esz h xs" "m_array h \<noteq> Some b" "\<not> n \<le> m_capacity h" "unat n * unat esz < 2 ^ 64"
  shows "\<exists>g. mra_reserve esz triv (Some b) h n = Some (g, False) \<and> mra_rep esz g xs \<and> m_capacity g = n \<and>
    m_array g = Some b \<and> m_size g = m_size h \<and>
    destroyed g = destroyed h @ (if triv then [] else xs) \<and>
    (\<forall>a i. m_array h = Some a \<and> \<not> triv \<and> i < length xs \<longrightarrow> blk g a i = None) \<and>
    (\<forall>a i. m_array h = Some a \<and> triv \<longrightarrow> blk g a i = blk h a i \<and> bsize g a = bsize h a)"
proof -
  have pr: "unat (n * esz) = unat n * unat esz"
    using assms(4) by (simp add: unat_word_ariths)
  have sz: "unat (m_size h) = length xs" "length xs < unat n"
    using assms(1,3) by (auto simp: mra_rep_def word_le_nat_alt)
  have room: "length xs * unat esz \<le> unat n * unat esz" using sz(2) by (intro mult_le_mono1) simp
  let ?h1 = "h\<lparr>bsize := (bsize h)(b := unat (n * esz)), blk := (blk h)(b := (\<lambda>_. None))\<rparr>"
  have le: "m_size h \<le> n" using assms(1,3) by (auto simp: mra_rep_def)
  show ?thesis
  proof (cases "m_array h")
    case None
    then have "xs = []" using assms(1) sz by (auto simp: mra_rep_def)
    then show ?thesis using None assms(3) sz le pr by (simp add: mra_reserve_def mra_rep_def)
  next
    case (Some a)
    have c: "length xs \<le> unat (m_capacity h)" "unat (m_capacity h) * unat esz \<le> bsize h a"
      using assms(1) Some by (auto simp: mra_rep_def word_le_nat_alt)
    have "length xs * unat esz \<le> bsize h a" using mult_le_mono1 [OF c(1)] c(2) by (rule order_trans)
    then have "\<exists>g. copy_loop esz triv (Some b) ?h1 [0..<length xs] = Some g \<and> m_array g = Some a \<and> m_size g = m_size ?h1 \<and>
      m_capacity g = m_capacity ?h1 \<and> bsize g = bsize ?h1 \<and> destroyed g = destroyed ?h1 @ (if triv then [] else drop 0 xs) \<and>
      (\<forall>i. blk g b i = (if 0 \<le> i \<and> i < length xs then Some (xs ! i) else blk ?h1 b i)) \<and>
      (\<forall>i. blk g a i = (if \<not> triv \<and> 0 \<le> i \<and> i < length xs then None else blk ?h1 a i))"
      using assms(1,2) Some room pr by (intro copy_loop_ok) (auto simp: mra_rep_def)
    then obtain g where g: "copy_loop esz triv (Some b) ?h1 [0..<length xs] = Some g" "m_size g = m_size h" "bsize g = bsize ?h1"
      "destroyed g = destroyed h @ (if triv then [] else xs)" "\<And>i. i < length xs \<Longrightarrow> blk g b i = Some (xs ! i)"
      "\<And>i. blk g a i = (if \<not> triv \<and> i < length xs then None else blk h a i)"
      using assms(2) Some by auto
    have "mra_reserve esz triv (Some b) h n = Some (g\<lparr>m_array := Some b, m_capacity := n\<rparr>, False)"
      using assms(3) sz g(1) by (simp add: mra_reserve_def)
    then show ?thesis using g(2-6) sz le pr assms(2) Some by (auto simp: mra_rep_def)
  qed
qed


text \<open>Writing the element behind the last one.\<close>

lemma construct_rep:
  assumes "mra_rep esz h xs" "m_size h < m_capacity h"
  shows "\<exists>g. cell_construct (unat esz) (h\<lparr>m_size := m_size h + 1\<rparr>) (m_array h) (unat (m_size h)) x = Some g \<and>
    mra_rep esz g (xs @ [x]) \<and> m_capacity g = m_capacity h \<and> m_array g = m_array h \<and> m_size g = m_size h + 1 \<and> destroyed g = destroyed h"
proof -
  obtain b where b: "m_array h = Some b" "unat (m_capacity h) * unat esz \<le> bsize h b"
    using assms by (cases "m_array h") (auto simp: mra_rep_def)
  have sz: "unat (m_size h) = length xs" "length xs < unat (m_capacity h)"
    using assms by (auto simp: mra_rep_def word_less_nat_alt)
  have "unat (m_capacity h) < 2 ^ 64" using unsigned_less [of "m_capacity h"] by simp
  then have "unat (m_size h + 1) = length xs + 1" using sz unat_plus_small [of "m_size h" 1] by simp
  then have "m_size h + 1 \<le> m_capacity h" "unat (m_size h + 1) = Suc (length xs)" using sz by (simp_all add: word_le_nat_alt)
  moreover have "in_block (unat esz) (h\<lparr>m_size := m_size h + 1\<rparr>) (Some b) (length xs) = Some b"
    using in_block_Some [OF b(2) sz(2)] by (simp add: in_block_def)
  ultimately show ?thesis using assms(1) b sz
    by (simp add: cell_construct_def) (auto simp: mra_rep_def nth_append less_Suc_eq)
qed

text \<open>When \<open>push_back\<close> has to grow, and to what capacity.\<close>

definition grows :: "'e mra \<Rightarrow> bool" where
  "grows h \<longleftrightarrow> m_capacity h = 0 \<or> m_size h = m_capacity h"

definition grown :: "'e mra \<Rightarrow> 64 word" where
  "grown h = (if m_capacity h = 0 then 20 else m_capacity h * 2)"

lemma grown_larger:
  assumes "mra_rep esz h xs" "0 < esz" "2 * unat (m_capacity h) * unat esz < 2 ^ 64"
  shows "\<not> grown h \<le> m_capacity h" "m_capacity h \<noteq> 0 \<Longrightarrow> unat (grown h) = 2 * unat (m_capacity h)"
proof -
  have e: "1 \<le> unat esz" using assms(2) by (metis less_one not_le unat_eq_zero word_not_simps(1))
  have "2 * unat (m_capacity h) * 1 \<le> 2 * unat (m_capacity h) * unat esz" using e by (intro mult_le_mono2)
  then have "2 * unat (m_capacity h) < 2 ^ 64" using assms(3) by linarith
  then have u: "unat (m_capacity h * 2) = 2 * unat (m_capacity h)" by (simp add: unat_word_ariths)
  then show "m_capacity h \<noteq> 0 \<Longrightarrow> unat (grown h) = 2 * unat (m_capacity h)" by (simp add: grown_def)
  show "\<not> grown h \<le> m_capacity h"
    using u by (auto simp: grown_def word_le_nat_alt unat_eq_zero)
qed


text \<open>The state in which \<open>push_back\<close> writes its element.\<close>

lemma mra_push_back_grown:
  assumes "mra_rep esz h xs" "0 < esz" "m_array h \<noteq> Some b"
    "20 * unat esz < 2 ^ 64" "2 * unat (m_capacity h) * unat esz < 2 ^ 64"
  shows "\<exists>g. mra_rep esz g xs \<and> m_size g < m_capacity g \<and> m_size g = m_size h \<and>
    m_capacity g = (if grows h then grown h else m_capacity h) \<and>
    (if grows h then mra_reserve esz triv (Some b) h (grown h) = Some (g, False) else g = h) \<and>
    destroyed g = destroyed h @ (if triv \<or> \<not> grows h then [] else xs) \<and>
    mra_push_back esz triv (Some b) h element = Option.bind (element (g\<lparr>m_size := m_size g + 1\<rparr>)) (\<lambda>x.
      Option.bind (cell_construct (unat esz) (g\<lparr>m_size := m_size g + 1\<rparr>) (m_array g) (unat (m_size g)) x)
        (\<lambda>h4. Some (h4, False)))"
proof (cases "grows h")
  case True
  note gr = grown_larger [OF assms(1,2,5)]
  have "unat (grown h) * unat esz < 2 ^ 64" using gr(2) assms(4,5) by (cases "m_capacity h = 0") (simp_all add: grown_def)
  then obtain g where g: "mra_reserve esz triv (Some b) h (grown h) = Some (g, False)" "mra_rep esz g xs"
    "m_capacity g = grown h" "m_size g = m_size h" "destroyed g = destroyed h @ (if triv then [] else xs)"
    using mra_reserve_rep [OF assms(1,3) gr(1)] by blast
  have le: "m_size h \<le> m_capacity h" using assms(1) by (simp add: mra_rep_def)
  then have lt: "m_size g < m_capacity g" using gr(1) g(3,4) by auto
  then have "m_size g \<noteq> m_capacity g" by auto
  then show ?thesis using True g lt le
    by (intro exI [of _ g]) (auto simp: mra_push_back_def grown_def grows_def Let_def split: if_splits)
next
  case False
  then have "m_size h < m_capacity h" using assms(1) by (auto simp: mra_rep_def grows_def)
  then show ?thesis using False assms(1) by (intro exI [of _ h]) (auto simp: mra_push_back_def grows_def Let_def)
qed




section \<open>Shrinking\<close>









section \<open>Properties\<close>


definition ex_mra :: "nat mra" where
  "ex_mra = \<lparr>blk = (\<lambda>b i. if b = 0 \<and> i < 2 then Some (i + 5) else None), bsize = (\<lambda>b. if b = 0 then 16 else 0),
     m_array = Some 0, m_size = 2, m_capacity = 2, destroyed = []\<rparr>"

lemma ex_mra_rep: "mra_rep 8 ex_mra [5, 6]"
  by (simp add: mra_rep_def ex_mra_def) (auto simp: nth_Cons split: nat.splits)


text \<open>Two uses of the array are undefined. Appending one of its own elements to a full array whose elements
  have a destructor copies an object that was just destroyed, and a request whose size in bytes wraps around
  returns success with a block that is too small: the next \<open>push_back\<close> writes outside of it.\<close>

theorem mem_root_array_hazards:
  assumes "mra_rep esz h xs" "0 < esz" "m_array h = Some a" "a \<noteq> b" "i < length xs" "mra_size h = mra_capacity h"
    "2 * unat (m_capacity h) * unat esz < 2 ^ 64" "20 * unat esz < 2 ^ 64" "mra_rep 8 h' []" "m_capacity h' < 2 ^ 61"
  shows "mra_push_back esz False (Some b) h (\<lambda>g. cell_read (unat esz) g (Some a) i) = None \<and>
    (\<exists>g. mra_push_back esz True (Some b) h (\<lambda>g. cell_read (unat esz) g (Some a) i) = Some (g, False) \<and>
      mra_rep esz g (xs @ [xs ! i])) \<and>
    (\<exists>g. mra_reserve 8 triv (Some b) h' (2 ^ 61) = Some (g, False) \<and> mra_capacity g = 2 ^ 61 \<and>
      mra_push_back 8 triv mem g (\<lambda>_. Some x) = None)"
proof (intro conjI)
  have gr: "grows h" "m_array h \<noteq> Some b" using assms(3,4,6) by (simp_all add: grows_def mra_size_def mra_capacity_def)
  have grown: "\<exists>g. mra_reserve esz t (Some b) h (grown h) = Some (g, False) \<and> mra_rep esz g xs \<and> m_size g < m_capacity g \<and>
      (\<not> t \<longrightarrow> blk g a i = None) \<and> (t \<longrightarrow> blk g a i = blk h a i \<and> bsize g a = bsize h a) \<and>
      mra_push_back esz t (Some b) h el = Option.bind (el (g\<lparr>m_size := m_size g + 1\<rparr>)) (\<lambda>x.
        Option.bind (cell_construct (unat esz) (g\<lparr>m_size := m_size g + 1\<rparr>) (m_array g) (unat (m_size g)) x)
          (\<lambda>h4. Some (h4, False)))" for t el
  proof -
    have "unat (grown h) * unat esz < 2 ^ 64"
      using grown_larger(2) [OF assms(1,2,7)] assms(7,8) by (cases "m_capacity h = 0") (simp_all add: grown_def)
    from mra_reserve_rep [OF assms(1) gr(2) grown_larger(1) [OF assms(1,2,7)] this, of t]
      mra_push_back_grown [OF assms(1,2) gr(2) assms(8,7), of t el]
    show ?thesis using gr(1) assms(3,5) by auto
  qed
  obtain g where g: "blk g a i = None" "mra_push_back esz False (Some b) h (\<lambda>g. cell_read (unat esz) g (Some a) i) =
      Option.bind (cell_read (unat esz) (g\<lparr>m_size := m_size g + 1\<rparr>) (Some a) i) (\<lambda>x.
        Option.bind (cell_construct (unat esz) (g\<lparr>m_size := m_size g + 1\<rparr>) (m_array g) (unat (m_size g)) x)
          (\<lambda>h4. Some (h4, False)))"
    using grown [of False "\<lambda>g. cell_read (unat esz) g (Some a) i"] by blast
  then show "mra_push_back esz False (Some b) h (\<lambda>g. cell_read (unat esz) g (Some a) i) = None"
    by (auto simp: cell_read_def in_block_def)
  obtain g where g: "mra_rep esz g xs" "m_size g < m_capacity g" "blk g a i = blk h a i" "bsize g a = bsize h a"
    "mra_push_back esz True (Some b) h (\<lambda>g. cell_read (unat esz) g (Some a) i) =
      Option.bind (cell_read (unat esz) (g\<lparr>m_size := m_size g + 1\<rparr>) (Some a) i) (\<lambda>x.
        Option.bind (cell_construct (unat esz) (g\<lparr>m_size := m_size g + 1\<rparr>) (m_array g) (unat (m_size g)) x)
          (\<lambda>h4. Some (h4, False)))"
    using grown [of True "\<lambda>g. cell_read (unat esz) g (Some a) i"] by blast
  have "cell_read (unat esz) (g\<lparr>m_size := m_size g + 1\<rparr>) (Some a) i = Some (xs ! i)"
    using mra_rep_block [OF assms(1,5)] assms(3) g(3,4) by (auto simp: cell_read_def in_block_def split: if_splits)
  then show "\<exists>g. mra_push_back esz True (Some b) h (\<lambda>g. cell_read (unat esz) g (Some a) i) = Some (g, False) \<and>
      mra_rep esz g (xs @ [xs ! i])"
    using g(5) construct_rep [OF g(1,2), of "xs ! i"] by auto
  have z: "m_size h' = 0" "\<not> 2 ^ 61 \<le> m_capacity h'" using assms(9,10) by (auto simp: mra_rep_def unat_eq_zero)
  let ?g = "h'\<lparr>bsize := (bsize h')(b := 0), blk := (blk h')(b := (\<lambda>_. None)), m_array := Some b, m_capacity := 2 ^ 61\<rparr>"
  have "mra_reserve 8 triv (Some b) h' (2 ^ 61) = Some (?g, False)" using z by (simp add: mra_reserve_def)
  moreover have "mra_push_back 8 triv mem ?g (\<lambda>_. Some x) = None"
    using z by (simp add: mra_push_back_def cell_construct_def in_block_def)
  ultimately show "\<exists>g. mra_reserve 8 triv (Some b) h' (2 ^ 61) = Some (g, False) \<and> mra_capacity g = 2 ^ 61 \<and>
      mra_push_back 8 triv mem g (\<lambda>_. Some x) = None"
    by (intro exI [of _ ?g]) (simp add: mra_capacity_def)
qed

theorem mem_root_array_hazards_witness:
  "mra_push_back 8 False (Some 1) ex_mra (\<lambda>g. cell_read 8 g (Some 0) 0) = None"
proof -
  have "(0 :: 64 word) < 8" "m_array ex_mra = Some 0" "(0 :: nat) \<noteq> 1" "0 < length [5, 6 :: nat]"
    "mra_size ex_mra = mra_capacity ex_mra" "2 * unat (m_capacity ex_mra) * unat (8 :: 64 word) < 2 ^ 64"
    "20 * unat (8 :: 64 word) < 2 ^ 64"
    by (simp_all add: ex_mra_def mra_size_def mra_capacity_def)
  note t = mem_root_array_hazards [OF ex_mra_rep this mra_new_rep]
  have "m_capacity (mra_new (\<lambda>_ _. None) (\<lambda>_. 0) :: nat mra) < 2 ^ 61" by (simp add: mra_new_def)
  from t [OF this, THEN conjunct1] show ?thesis by simp
qed

end
