(* ===== verification/Bin_String.thy ===== *)
theory Bin_String
  imports Byte_Order "HOL-Library.Monad_Syntax"
begin

text \<open>
  The growing byte strings of \<^verbatim>\<open>sql_string.h\<close>: the class \<open>Binary_string\<close>, which every \<open>String\<close> of the
  server extends. A string is a pointer, a length, the size of the writable buffer and a flag that
  says whether the object owns the buffer; it may also point into memory of somebody else, and then
  the buffer size is 0 when that memory is constant.

  Memory is a set of blocks of bytes; a pointer is a block and an offset, and a freed block is no
  longer there. The result \<open>None\<close> is undefined behaviour: an access outside a block or through a null
  pointer, a write to constant memory, overlapping \<open>memcpy\<close>, freeing what is not the start of a
  live block. Lengths are 32-bit, arguments of type \<open>size_t\<close> 64-bit words.

  \<open>realloc_raw\<close> and \<open>real_alloc\<close> are defined outside the headers: they are arguments of the definitions,
  and \<open>realloc_law\<close> states what the callers rely on. So are the digits table, \<open>ll2str\<close> and
  \<open>net_store_length\<close>.
\<close>

section \<open>Memory\<close>

type_synonym ptr = "(nat \<times> nat) option"

record mem =
  blocks :: "nat \<Rightarrow> uchar list option"
  is_const :: "nat \<Rightarrow> bool"

definition ptr_add :: "ptr \<Rightarrow> nat \<Rightarrow> ptr" where
  "ptr_add p n = map_option (\<lambda>(b, off). (b, off + n)) p"

definition get_bytes :: "mem \<Rightarrow> ptr \<Rightarrow> nat \<Rightarrow> uchar list option" where
  "get_bytes m p n =
     (if n = 0 then Some []
      else do {
        (b, off) \<leftarrow> p;
        xs \<leftarrow> blocks m b;
        if off + n \<le> length xs then Some (take n (drop off xs)) else None
      })"

definition put_bytes :: "mem \<Rightarrow> ptr \<Rightarrow> uchar list \<Rightarrow> mem option" where
  "put_bytes m p ys =
     (if ys = [] then Some m
      else do {
        (b, off) \<leftarrow> p;
        xs \<leftarrow> blocks m b;
        if is_const m b \<or> length xs < off + length ys then None
        else Some (m\<lparr>blocks := (blocks m)(b \<mapsto> take off xs @ ys @ drop (off + length ys) xs)\<rparr>)
      })"

definition memcpy :: "mem \<Rightarrow> ptr \<Rightarrow> ptr \<Rightarrow> nat \<Rightarrow> mem option" where
  "memcpy m dst src n =
     (if n \<noteq> 0 \<and> (\<exists>b o1 o2. dst = Some (b, o1) \<and> src = Some (b, o2) \<and> o1 < o2 + n \<and> o2 < o1 + n) then None
      else do { ys \<leftarrow> get_bytes m src n; put_bytes m dst ys })"

definition my_free :: "mem \<Rightarrow> ptr \<Rightarrow> mem option" where
  "my_free m p =
     (case p of
        None \<Rightarrow> Some m
      | Some (b, off) \<Rightarrow>
         if off = 0 \<and> blocks m b \<noteq> None \<and> \<not> is_const m b
         then Some (m\<lparr>blocks := (blocks m)(b := None)\<rparr>) else None)"

section \<open>The object\<close>

(* @sql_string.h 210-215 Binary_string *)
record bstr =
  Ptr :: ptr
  str_length :: uint32
  Alloced_length :: uint32
  extra_alloc :: uint32
  alloced :: bool
  thread_specific :: bool

(* @sql_string.h 216-221 Binary_string::init_private_data *)
definition init_private_data :: bstr where
  "init_private_data = \<lparr>Ptr = None, str_length = 0, Alloced_length = 0, extra_alloc = 0,
     alloced = False, thread_specific = False\<rparr>"

(* @sql_string.h 222-229 Binary_string::free_buffer *)
definition free_buffer :: "mem \<Rightarrow> bstr \<Rightarrow> (mem \<times> bstr) option" where
  "free_buffer m s =
     (if alloced s then do { m' \<leftarrow> my_free m (Ptr s); Some (m', s\<lparr>alloced := False\<rparr>) }
      else Some (m, s))"

(* @sql_string.h 231-234 Binary_string::Binary_string() *)
definition bs_new :: bstr where
  "bs_new = init_private_data"

type_synonym allocator = "mem \<Rightarrow> bstr \<Rightarrow> ulonglong \<Rightarrow> mem \<times> bstr \<times> bool"

(* @sql_string.h 235-239 Binary_string::Binary_string(size_t) *)
definition bs_new_length :: "allocator \<Rightarrow> mem \<Rightarrow> ulonglong \<Rightarrow> mem \<times> bstr" where
  "bs_new_length real_alloc m length_arg =
     (case real_alloc m init_private_data length_arg of (m', s, _) \<Rightarrow> (m', s))"

(* @sql_string.h 245-252 Binary_string::Binary_string(const char ptr, size_t) *)
definition bs_new_const :: "ptr \<Rightarrow> ulonglong \<Rightarrow> bstr" where
  "bs_new_const str len = \<lparr>Ptr = str, str_length = ucast len, Alloced_length = 0, extra_alloc = 0,
     alloced = False, thread_specific = False\<rparr>"

(* @sql_string.h 253-259 Binary_string::Binary_string(char ptr, size_t) *)
definition bs_new_buffer :: "ptr \<Rightarrow> ulonglong \<Rightarrow> bstr" where
  "bs_new_buffer str len = \<lparr>Ptr = str, str_length = ucast len, Alloced_length = ucast len, extra_alloc = 0,
     alloced = False, thread_specific = False\<rparr>"

(* @sql_string.h 260-267 Binary_string::Binary_string(const Binary_string&) *)
definition bs_new_copy :: "bstr \<Rightarrow> bstr" where
  "bs_new_copy str = \<lparr>Ptr = Ptr str, str_length = str_length str, Alloced_length = Alloced_length str,
     extra_alloc = 0, alloced = False, thread_specific = False\<rparr>"

(* @sql_string.h 678-688 Binary_string::free *)
definition bs_free :: "mem \<Rightarrow> bstr \<Rightarrow> (mem \<times> bstr) option" where
  "bs_free m s = do {
     (m', s1) \<leftarrow> free_buffer m s;
     Some (m', s1\<lparr>Ptr := None, str_length := 0, Alloced_length := 0, extra_alloc := 0\<rparr>)
   }"

(* @sql_string.h 269-272 Binary_string::~Binary_string *)
definition bs_destroy :: "mem \<Rightarrow> bstr \<Rightarrow> mem option" where
  "bs_destroy m s = do { (m', _) \<leftarrow> bs_free m s; Some m' }"

section \<open>Reading\<close>

(* @sql_string.h 274-274 Binary_string::length() *)
definition bs_length :: "bstr \<Rightarrow> uint32" where
  "bs_length s = str_length s"

(* @sql_string.h 275-275 Binary_string::operator[] *)
definition bs_at :: "mem \<Rightarrow> bstr \<Rightarrow> ulonglong \<Rightarrow> uchar option" where
  "bs_at m s i = map_option hd (get_bytes m (ptr_add (Ptr s) (unat i)) 1)"

(* @sql_string.h 276-276 Binary_string::length(size_t) *)
definition bs_set_length :: "bstr \<Rightarrow> ulonglong \<Rightarrow> bstr" where
  "bs_set_length s len = s\<lparr>str_length := ucast len\<rparr>"

(* @sql_string.h 277-277 Binary_string::is_empty *)
definition bs_is_empty :: "bstr \<Rightarrow> bool" where
  "bs_is_empty s \<longleftrightarrow> str_length s = 0"

(* @m_ctype.h 1602-1602 my_isascii *)
definition my_isascii :: "uchar \<Rightarrow> bool" where
  "my_isascii c \<longleftrightarrow> c AND NOT 0x7F = 0"

fun has_8bit_loop :: "mem \<Rightarrow> ptr \<Rightarrow> nat \<Rightarrow> bool option" where
  "has_8bit_loop m c 0 = Some False"
| "has_8bit_loop m c (Suc n) = do {
     xs \<leftarrow> get_bytes m c 1;
     if \<not> my_isascii (hd xs) then Some True else has_8bit_loop m (ptr_add c 1) n
   }"

(* @sql_string.h 280-288 Binary_string::has_8bit_bytes *)
definition has_8bit_bytes :: "mem \<Rightarrow> bstr \<Rightarrow> bool option" where
  "has_8bit_bytes m s = has_8bit_loop m (Ptr s) (unat (str_length s))"

(* @sql_string.h 290-294 Binary_string::bin_eq *)
definition bin_eq :: "mem \<Rightarrow> bstr \<Rightarrow> bstr \<Rightarrow> bool option" where
  "bin_eq m s other =
     (if bs_length s = bs_length other
      then do {
        xs \<leftarrow> get_bytes m (Ptr s) (unat (bs_length s));
        ys \<leftarrow> get_bytes m (Ptr other) (unat (bs_length s));
        Some (xs = ys)
      } else Some False)"

section \<open>Writing into the buffer\<close>

(* @sql_string.h 317-325 Binary_string::chop *)
definition chop :: "mem \<Rightarrow> bstr \<Rightarrow> (mem \<times> bstr) option" where
  "chop m s =
     (if str_length s \<noteq> 0 then do {
        let s1 = s\<lparr>str_length := str_length s - 1\<rparr>;
        m' \<leftarrow> put_bytes m (ptr_add (Ptr s1) (unat (str_length s1))) [0];
        Some (m', s1)
      } else Some (m, s))"

text \<open>The bytes that a store macro of \<^verbatim>\<open>byte_order_generic.h\<close> writes.\<close>

definition stored :: "nat \<Rightarrow> (memory \<Rightarrow> nat \<Rightarrow> uint32 \<Rightarrow> memory) \<Rightarrow> uint32 \<Rightarrow> uchar list" where
  "stored k store n = map (store (\<lambda>_. 0) 0 n) [0..<k]"

definition q_store :: "mem \<Rightarrow> bstr \<Rightarrow> uchar list \<Rightarrow> (mem \<times> bstr) option" where
  "q_store m s xs = do {
     m' \<leftarrow> put_bytes m (ptr_add (Ptr s) (unat (str_length s))) xs;
     Some (m', s\<lparr>str_length := str_length s + of_nat (length xs)\<rparr>)
   }"

(* @sql_string.h 338-342 Binary_string::q_append(char) *)
definition q_append_char :: "mem \<Rightarrow> bstr \<Rightarrow> uchar \<Rightarrow> (mem \<times> bstr) option" where
  "q_append_char m s c = q_store m s [c]"

(* @sql_string.h 343-348 Binary_string::q_append2b *)
definition q_append2b :: "mem \<Rightarrow> bstr \<Rightarrow> uint32 \<Rightarrow> (mem \<times> bstr) option" where
  "q_append2b m s n = q_store m s (stored 2 int2store n)"

(* @sql_string.h 349-354 Binary_string::q_append(uint32) *)
definition q_append_uint32 :: "mem \<Rightarrow> bstr \<Rightarrow> uint32 \<Rightarrow> (mem \<times> bstr) option" where
  "q_append_uint32 m s n = q_store m s (stored 4 int4store n)"

(* @sql_string.h 367-374 Binary_string::q_append(const char ptr, size_t) *)
definition q_append :: "mem \<Rightarrow> bstr \<Rightarrow> ptr \<Rightarrow> ulonglong \<Rightarrow> (mem \<times> bstr) option" where
  "q_append m s data data_len = do {
     m' \<leftarrow> (if data_len \<noteq> 0 then memcpy m (ptr_add (Ptr s) (unat (str_length s))) data (unat data_len)
            else Some m);
     Some (m', s\<lparr>str_length := str_length s + ucast data_len\<rparr>)
   }"

(* @sql_string.h 375-381 Binary_string::q_append(LEX_CSTRING) *)
definition q_append_lex :: "mem \<Rightarrow> bstr \<Rightarrow> ptr \<times> ulonglong \<Rightarrow> (mem \<times> bstr) option" where
  "q_append_lex m s ls = q_append m s (fst ls) (ucast (ucast (snd ls) :: uint32))"

(* @sql_string.h 383-387 Binary_string::write_at_position *)
definition write_at_position :: "mem \<Rightarrow> bstr \<Rightarrow> uint32 \<Rightarrow> uint32 \<Rightarrow> mem option" where
  "write_at_position m s position v = put_bytes m (ptr_add (Ptr s) (unat position)) (stored 4 int4store v)"

(* @sql_string.h 400-405 Binary_string::qs_append(char) *)
definition qs_append_char :: "mem \<Rightarrow> bstr \<Rightarrow> uchar \<Rightarrow> (mem \<times> bstr) option" where
  "qs_append_char m s c = do {
     m' \<leftarrow> put_bytes m (ptr_add (Ptr s) (unat (str_length s))) [c];
     Some (m', s\<lparr>str_length := str_length s + 1\<rparr>)
   }"

text \<open>\<open>ll2str\<close> writes the digits and a terminating zero and returns the address of the latter.\<close>

(* @sql_string.h 416-422 Binary_string::qs_append(longlong, int) *)
definition qs_append_int :: "(64 word \<Rightarrow> int \<Rightarrow> uchar list) \<Rightarrow> mem \<Rightarrow> bstr \<Rightarrow> 64 word \<Rightarrow> int \<Rightarrow> (mem \<times> bstr) option" where
  "qs_append_int ll2str m s i radix = do {
     m' \<leftarrow> put_bytes m (ptr_add (Ptr s) (unat (str_length s))) (ll2str i radix @ [0]);
     Some (m', s\<lparr>str_length := str_length s + of_nat (length (ll2str i radix))\<rparr>)
   }"

(* @sql_string.h 775-780 Binary_string::q_net_store_length *)
definition q_net_store_length :: "(ulonglong \<Rightarrow> uchar list) \<Rightarrow> mem \<Rightarrow> bstr \<Rightarrow> ulonglong \<Rightarrow> (mem \<times> bstr) option" where
  "q_net_store_length net_store_length m s n = q_store m s (net_store_length n)"

(* @sql_string.h 781-788 Binary_string::q_net_store_data *)
definition q_net_store_data ::
  "(ulonglong \<Rightarrow> uchar list) \<Rightarrow> mem \<Rightarrow> bstr \<Rightarrow> ptr \<Rightarrow> ulonglong \<Rightarrow> (mem \<times> bstr) option" where
  "q_net_store_data net_store_length m s from n = do {
     (m1, s1) \<leftarrow> q_net_store_length net_store_length m s n;
     q_append m1 s1 from (ucast (ucast n :: uint32))
   }"

section \<open>Attributes and ownership\<close>

(* @sql_string.h 425-429 Binary_string::set_thread_specific *)
definition set_thread_specific :: "bstr \<Rightarrow> bstr" where
  "set_thread_specific s = (if \<not> alloced s then s\<lparr>thread_specific := True\<rparr> else s)"

(* @sql_string.h 430-430 Binary_string::is_alloced *)
definition is_alloced :: "bstr \<Rightarrow> bool" where
  "is_alloced s = alloced s"

(* @sql_string.h 431-431 Binary_string::alloced_length *)
definition alloced_length :: "bstr \<Rightarrow> uint32" where
  "alloced_length s = Alloced_length s"

(* @sql_string.h 432-433 Binary_string::extra_allocation *)
definition extra_allocation :: "bstr \<Rightarrow> ulonglong \<Rightarrow> bstr" where
  "extra_allocation s len = s\<lparr>extra_alloc := ucast len\<rparr>"

(* @sql_string.h 434-434 Binary_string::mark_as_const *)
definition mark_as_const :: "bstr \<Rightarrow> bstr" where
  "mark_as_const s = s\<lparr>Alloced_length := 0\<rparr>"

(* @sql_string.h 436-439 Binary_string::uses_buffer_owned_by *)
definition uses_buffer_owned_by :: "bstr \<Rightarrow> bstr \<Rightarrow> bool" where
  "uses_buffer_owned_by t s =
     (alloced s \<and> (case (Ptr t, Ptr s) of
        (Some (b, o1), Some (c, o2)) \<Rightarrow> b = c \<and> o2 \<le> o1 \<and> o1 < o2 + unat (Alloced_length s)
      | _ \<Rightarrow> False))"

(* @sql_string.h 442-448 Binary_string::swap *)
definition bs_swap :: "bstr \<Rightarrow> bstr \<Rightarrow> bstr \<times> bstr" where
  "bs_swap t s =
     (t\<lparr>Ptr := Ptr s, str_length := str_length s, Alloced_length := Alloced_length s, alloced := alloced s\<rparr>,
      s\<lparr>Ptr := Ptr t, str_length := str_length t, Alloced_length := Alloced_length t, alloced := alloced t\<rparr>)"

(* @sql_string.h 457-464 Binary_string::set_alloced *)
definition set_alloced :: "mem \<Rightarrow> bstr \<Rightarrow> ptr \<Rightarrow> ulonglong \<Rightarrow> ulonglong \<Rightarrow> (mem \<times> bstr) option" where
  "set_alloced m s str len alen = do {
     (m', s1) \<leftarrow> free_buffer m s;
     Some (m', s1\<lparr>Ptr := str, str_length := ucast len, Alloced_length := ucast alen\<rparr>)
   }"

(* @sql_string.h 465-468 Binary_string::set(char ptr, size_t) *)
definition bs_set :: "mem \<Rightarrow> bstr \<Rightarrow> ptr \<Rightarrow> ulonglong \<Rightarrow> (mem \<times> bstr) option" where
  "bs_set m s str arg_length = set_alloced m s str arg_length arg_length"

(* @sql_string.h 469-475 Binary_string::set(const char ptr, size_t) *)
definition bs_set_const :: "mem \<Rightarrow> bstr \<Rightarrow> ptr \<Rightarrow> ulonglong \<Rightarrow> (mem \<times> bstr) option" where
  "bs_set_const m s str len = do {
     (m', s1) \<leftarrow> free_buffer m s;
     Some (m', s1\<lparr>Ptr := str, str_length := ucast len, Alloced_length := 0\<rparr>)
   }"

(* @sql_string.h 477-486 Binary_string::set(Binary_string&, size_t, size_t) *)
definition bs_set_sub :: "mem \<Rightarrow> bstr \<Rightarrow> bstr \<Rightarrow> ulonglong \<Rightarrow> ulonglong \<Rightarrow> (mem \<times> bstr) option" where
  "bs_set_sub m s str offset len = do {
     (m', s1) \<leftarrow> free_buffer m s;
     let s2 = s1\<lparr>Ptr := ptr_add (Ptr str) (unat offset), str_length := ucast len, Alloced_length := 0\<rparr>;
     Some (m', if Alloced_length str \<noteq> 0
               then s2\<lparr>Alloced_length := ucast (ucast (Alloced_length str) - offset)\<rparr> else s2)
   }"

(* @sql_string.h 487-497 Binary_string::to_lex_cstring *)
definition to_lex_cstring :: "bstr \<Rightarrow> ptr \<times> ulonglong" where
  "to_lex_cstring s = (Ptr s, ucast (str_length s))"

(* @sql_string.h 500-504 Binary_string::reset *)
definition bs_reset :: "mem \<Rightarrow> bstr \<Rightarrow> ptr \<Rightarrow> ulonglong \<Rightarrow> ulonglong \<Rightarrow> (mem \<times> bstr) option" where
  "bs_reset m s ptr_arg length_arg alloced_length_arg = do {
     (m', s1) \<leftarrow> set_alloced m s ptr_arg length_arg alloced_length_arg;
     Some (m', s1\<lparr>alloced := (ptr_arg \<noteq> None)\<rparr>)
   }"

(* @sql_string.h 507-512 Binary_string::release *)
definition bs_release :: "bstr \<Rightarrow> bstr \<times> ptr" where
  "bs_release s = (init_private_data, Ptr s)"

(* @sql_string.h 520-533 Binary_string::set_buffer_if_not_allocated *)
definition set_buffer_if_not_allocated :: "bstr \<Rightarrow> ptr \<Rightarrow> ulonglong \<Rightarrow> bstr" where
  "set_buffer_if_not_allocated s str arg_length =
     (if \<not> alloced s
      then s\<lparr>Ptr := str, str_length := ucast arg_length, Alloced_length := ucast arg_length\<rparr> else s)"

text \<open>Assignment between two objects; assigning an object to itself does nothing.\<close>

(* @sql_string.h 535-547 Binary_string::operator= *)
definition bs_assign :: "mem \<Rightarrow> bstr \<Rightarrow> bstr \<Rightarrow> (mem \<times> bstr) option" where
  "bs_assign m t s = set_alloced m t (Ptr s) (ucast (str_length s)) (ucast (Alloced_length s))"

(* @sql_string.h 735-742 Binary_string::move *)
definition bs_move :: "mem \<Rightarrow> bstr \<Rightarrow> bstr \<Rightarrow> (mem \<times> bstr \<times> bstr) option" where
  "bs_move m t s = do {
     (m', t1) \<leftarrow> set_alloced m t (Ptr s) (ucast (str_length s)) (ucast (Alloced_length s));
     Some (m', t1\<lparr>extra_alloc := extra_alloc s, alloced := alloced s, thread_specific := thread_specific s\<rparr>,
           s\<lparr>alloced := False\<rparr>)
   }"

section \<open>Growing\<close>

(* @sql_string.h 690-704 Binary_string::alloc *)
definition bs_alloc :: "allocator \<Rightarrow> mem \<Rightarrow> bstr \<Rightarrow> ulonglong \<Rightarrow> mem \<times> bstr \<times> bool" where
  "bs_alloc real_alloc m s arg_length =
     (if arg_length \<le> ucast (Alloced_length s) \<and> Alloced_length s \<noteq> 0 then (m, s, False)
      else real_alloc m s arg_length)"

definition put_zero :: "mem \<Rightarrow> bstr \<Rightarrow> ulonglong \<Rightarrow> (mem \<times> bstr \<times> bool) option" where
  "put_zero m s i = do {
     m' \<leftarrow> put_bytes m (ptr_add (Ptr s) (unat i)) [0];
     Some (m', s, False)
   }"

(* @sql_string.h 707-713 Binary_string::realloc *)
definition bs_realloc :: "allocator \<Rightarrow> mem \<Rightarrow> bstr \<Rightarrow> ulonglong \<Rightarrow> (mem \<times> bstr \<times> bool) option" where
  "bs_realloc realloc_raw m s arg_length =
     (case realloc_raw m s (arg_length + 1) of
        (m1, s1, True) \<Rightarrow> Some (m1, s1, True)
      | (m1, s1, False) \<Rightarrow> put_zero m1 s1 arg_length)"

(* @sql_string.h 714-722 Binary_string::realloc_with_extra *)
definition realloc_with_extra :: "allocator \<Rightarrow> mem \<Rightarrow> bstr \<Rightarrow> ulonglong \<Rightarrow> (mem \<times> bstr \<times> bool) option" where
  "realloc_with_extra realloc_raw m s arg_length =
     (let s0 = (if extra_alloc s < 4096 then s\<lparr>extra_alloc := extra_alloc s * 2 + 128\<rparr> else s)
      in case realloc_raw m s0 (arg_length + ucast (extra_alloc s0)) of
           (m1, s1, True) \<Rightarrow> Some (m1, s1, True)
         | (m1, s1, False) \<Rightarrow> put_zero m1 s1 arg_length)"

(* @sql_string.h 723-731 Binary_string::realloc_with_extra_if_needed *)
definition realloc_with_extra_if_needed :: "allocator \<Rightarrow> mem \<Rightarrow> bstr \<Rightarrow> ulonglong \<Rightarrow> (mem \<times> bstr \<times> bool) option" where
  "realloc_with_extra_if_needed realloc_raw m s arg_length =
     (if arg_length < ucast (Alloced_length s) then put_zero m s arg_length
      else realloc_with_extra realloc_raw m s arg_length)"

(* @sql_string.h 570-578 Binary_string::append(const char ptr, size_t) *)
definition bs_append :: "allocator \<Rightarrow> mem \<Rightarrow> bstr \<Rightarrow> ptr \<Rightarrow> ulonglong \<Rightarrow> (mem \<times> bstr \<times> bool) option" where
  "bs_append realloc_raw m s src n =
     (if n = 0 then Some (m, s, False)
      else do {
        (m1, s1, fail) \<leftarrow> realloc_with_extra_if_needed realloc_raw m s (ucast (str_length s) + n);
        if fail then Some (m1, s1, True)
        else do { (m2, s2) \<leftarrow> q_append m1 s1 src n; Some (m2, s2, False) }
      })"

(* @sql_string.h 579-586 Binary_string::append(const Binary_string&) *)
definition bs_append_str :: "allocator \<Rightarrow> mem \<Rightarrow> bstr \<Rightarrow> bstr \<Rightarrow> (mem \<times> bstr \<times> bool) option" where
  "bs_append_str realloc_raw m s t = bs_append realloc_raw m s (Ptr t) (ucast (bs_length t))"

(* @sql_string.h 589-602 Binary_string::append_char *)
definition append_char :: "allocator \<Rightarrow> mem \<Rightarrow> bstr \<Rightarrow> uchar \<Rightarrow> (mem \<times> bstr \<times> bool) option" where
  "append_char realloc_raw m s chr =
     (if str_length s < Alloced_length s
      then do { (m', s') \<leftarrow> q_store m s [chr]; Some (m', s', False) }
      else do {
        (m1, s1, fail) \<leftarrow> realloc_with_extra realloc_raw m s (ucast (str_length s + 1));
        if fail then Some (m1, s1, True)
        else do { (m', s') \<leftarrow> q_store m1 s1 [chr]; Some (m', s', False) }
      })"

fun append_hex_loop :: "allocator \<Rightarrow> (nat \<Rightarrow> uchar) \<Rightarrow> mem \<Rightarrow> bstr \<Rightarrow> ptr \<Rightarrow> nat \<Rightarrow> (mem \<times> bstr \<times> bool) option" where
  "append_hex_loop realloc_raw dig m s src 0 = Some (m, s, False)"
| "append_hex_loop realloc_raw dig m s src (Suc n) = do {
     c1 \<leftarrow> get_bytes m src 1;
     (m1, s1, f1) \<leftarrow> append_char realloc_raw m s (dig (unat (drop_bit 4 (hd c1))));
     if f1 then Some (m1, s1, True) else do {
       c2 \<leftarrow> get_bytes m1 src 1;
       (m2, s2, f2) \<leftarrow> append_char realloc_raw m1 s1 (dig (unat (hd c2 AND 0x0F)));
       if f2 then Some (m2, s2, True) else append_hex_loop realloc_raw dig m2 s2 (ptr_add src 1) n
     }
   }"

(* @sql_string.h 603-612 Binary_string::append_hex *)
definition append_hex :: "allocator \<Rightarrow> (nat \<Rightarrow> uchar) \<Rightarrow> mem \<Rightarrow> bstr \<Rightarrow> ptr \<Rightarrow> uint32 \<Rightarrow> (mem \<times> bstr \<times> bool) option" where
  "append_hex realloc_raw dig m s src srclen = append_hex_loop realloc_raw dig m s src (unat srclen)"

(* @sql_string.h 614-622 Binary_string::append_with_step *)
definition append_with_step :: "allocator \<Rightarrow> mem \<Rightarrow> bstr \<Rightarrow> ptr \<Rightarrow> uint32 \<Rightarrow> uint32 \<Rightarrow> (mem \<times> bstr \<times> bool) option" where
  "append_with_step realloc_raw m s src arg_length step_alloc = do {
     let new_length = arg_length + str_length s;
     (m1, s1, fail) \<leftarrow> (if new_length > Alloced_length s
                       then bs_realloc realloc_raw m s (ucast (new_length + step_alloc)) else Some (m, s, False));
     if fail then Some (m1, s1, True)
     else do { (m2, s2) \<leftarrow> q_append m1 s1 src (ucast arg_length); Some (m2, s2, False) }
   }"

text \<open>\<open>c_ptr\<close> returns the pointer of the string; \<open>lit\<close> is the address of the literal it returns for
  a null pointer.\<close>

(* @sql_string.h 624-653 Binary_string::c_ptr *)
definition c_ptr :: "allocator \<Rightarrow> ptr \<Rightarrow> mem \<Rightarrow> bstr \<Rightarrow> (mem \<times> bstr \<times> ptr) option" where
  "c_ptr realloc_raw lit m s =
     (if Ptr s = None then Some (m, s, lit)
      else do {
        z \<leftarrow> (if \<not> alloced s then do { xs \<leftarrow> get_bytes m (ptr_add (Ptr s) (unat (str_length s))) 1; Some (hd xs = 0) }
              else Some False);
        if z then Some (m, s, Ptr s)
        else if str_length s < Alloced_length s
        then do { m' \<leftarrow> put_bytes m (ptr_add (Ptr s) (unat (str_length s))) [0]; Some (m', s, Ptr s) }
        else do { (m1, s1, _) \<leftarrow> bs_realloc realloc_raw m s (ucast (str_length s)); Some (m1, s1, Ptr s1) }
      })"

(* @sql_string.h 658-676 Binary_string::c_ptr_safe *)
definition c_ptr_safe :: "allocator \<Rightarrow> mem \<Rightarrow> bstr \<Rightarrow> (mem \<times> bstr \<times> ptr) option" where
  "c_ptr_safe realloc_raw m s =
     (if Ptr s \<noteq> None \<and> str_length s < Alloced_length s
      then do { m' \<leftarrow> put_bytes m (ptr_add (Ptr s) (unat (str_length s))) [0]; Some (m', s, Ptr s) }
      else do { (m1, s1, _) \<leftarrow> bs_realloc realloc_raw m s (ucast (str_length s)); Some (m1, s1, Ptr s1) })"

(* @sql_string.h 754-758 Binary_string::reserve *)
definition bs_reserve :: "allocator \<Rightarrow> mem \<Rightarrow> bstr \<Rightarrow> ulonglong \<Rightarrow> (mem \<times> bstr \<times> bool) option" where
  "bs_reserve realloc_raw m s space_needed = bs_realloc realloc_raw m s (ucast (str_length s) + space_needed)"

(* @sql_string.h 761-772 Binary_string::prep_append *)
definition prep_append :: "allocator \<Rightarrow> mem \<Rightarrow> bstr \<Rightarrow> uint32 \<Rightarrow> uint32 \<Rightarrow> (mem \<times> bstr \<times> ptr) option" where
  "prep_append realloc_raw m s arg_length step_alloc = do {
     let new_length = arg_length + str_length s;
     (m1, s1, fail) \<leftarrow> (if new_length > Alloced_length s
                       then bs_realloc realloc_raw m s (ucast (new_length + step_alloc)) else Some (m, s, False));
     if fail then Some (m1, s1, None)
     else Some (m1, s1\<lparr>str_length := str_length s1 + arg_length\<rparr>, ptr_add (Ptr s1) (unat (str_length s1)))
   }"

(* @sql_string.h 1077-1081 StringBuffer::StringBuffer *)
definition string_buffer :: "nat \<Rightarrow> ulonglong \<Rightarrow> bstr" where
  "string_buffer buff buff_sz = bs_set_length (bs_new_buffer (Some (buff, 0)) buff_sz) 0"

section \<open>What a string holds\<close>

definition block_of :: "ptr \<Rightarrow> nat option" where
  "block_of p = map_option fst p"

text \<open>The string \<open>s\<close> holds the bytes \<open>xs\<close>: they are where it points to; a buffer with a size is
  writable and has room for them; an owned buffer is a whole live block.\<close>

definition bs_rep :: "mem \<Rightarrow> bstr \<Rightarrow> uchar list \<Rightarrow> bool" where
  "bs_rep m s xs \<longleftrightarrow>
     length xs = unat (str_length s) \<and> get_bytes m (Ptr s) (length xs) = Some xs \<and>
     (Alloced_length s \<noteq> 0 \<longrightarrow> length xs \<le> unat (Alloced_length s) \<and>
        (\<exists>b off ys. Ptr s = Some (b, off) \<and> blocks m b = Some ys \<and> \<not> is_const m b \<and>
           off + unat (Alloced_length s) \<le> length ys)) \<and>
     (alloced s \<longrightarrow> (\<exists>b ys. Ptr s = Some (b, 0) \<and> blocks m b = Some ys \<and> \<not> is_const m b))"

text \<open>The writable buffer with its content.\<close>

definition buf :: "mem \<Rightarrow> bstr \<Rightarrow> uchar list \<Rightarrow> bool" where
  "buf m s zs \<longleftrightarrow> length zs = unat (Alloced_length s) \<and>
     (\<exists>b off ys. Ptr s = Some (b, off) \<and> blocks m b = Some ys \<and> \<not> is_const m b \<and>
        off + length zs \<le> length ys \<and> take (length zs) (drop off ys) = zs)"

text \<open>\<open>m'\<close> differs from \<open>m\<close> only in the content of one block.\<close>

definition only_block :: "nat option \<Rightarrow> mem \<Rightarrow> mem \<Rightarrow> bool" where
  "only_block k m m' \<longleftrightarrow> is_const m' = is_const m \<and> (\<forall>b. Some b \<noteq> k \<longrightarrow> blocks m' b = blocks m b) \<and>
     (\<forall>b. blocks m' b = None \<longleftrightarrow> blocks m b = None)"

text \<open>What the callers of \<open>realloc_raw\<close> rely on: a failure changes nothing; after success the string
  holds the same bytes in a buffer of at least the requested size, the blocks of others are
  untouched and are not used, and memory that the string did not own stays.\<close>

definition realloc_law :: "allocator \<Rightarrow> bool" where
  "realloc_law realloc_raw \<longleftrightarrow>
     (\<forall>m s n xs m' s' fail. bs_rep m s xs \<and> length xs \<le> unat n \<and> realloc_raw m s n = (m', s', fail) \<longrightarrow>
       (if fail then m' = m \<and> s' = s
        else bs_rep m' s' xs \<and> unat n \<le> unat (Alloced_length s') \<and>
          str_length s' = str_length s \<and> extra_alloc s' = extra_alloc s \<and>
          (\<forall>b. blocks m b \<noteq> None \<and> Some b \<noteq> block_of (Ptr s) \<longrightarrow>
             Some b \<noteq> block_of (Ptr s') \<and> blocks m' b = blocks m b \<and> is_const m' b = is_const m b) \<and>
          (\<forall>b. \<not> alloced s \<and> block_of (Ptr s) = Some b \<and> blocks m b \<noteq> None \<longrightarrow> blocks m' b = blocks m b \<and> is_const m' b = is_const m b)))"

section \<open>Lemmas on memory\<close>

lemma get_bytes_Some:
  "get_bytes m (Some (b, off)) n = Some zs \<longleftrightarrow>
     (if n = 0 then zs = [] else \<exists>xs. blocks m b = Some xs \<and> off + n \<le> length xs \<and> zs = take n (drop off xs))"
  by (auto simp: get_bytes_def bind_eq_Some_conv)

lemma get_bytes_0 [simp]: "get_bytes m p 0 = Some []"
  by (simp add: get_bytes_def)

lemma get_bytes_cong:
  "(\<And>b. block_of p = Some b \<Longrightarrow> blocks m' b = blocks m b) \<Longrightarrow> get_bytes m' p n = get_bytes m p n"
  by (cases p) (auto simp: get_bytes_def block_of_def)

lemma block_of_add [simp]: "block_of (ptr_add p n) = block_of p"
  by (cases p) (auto simp: block_of_def ptr_add_def)

lemma ptr_add_0 [simp]: "ptr_add p 0 = p"
  by (cases p) (auto simp: ptr_add_def)

lemma ptr_add_add [simp]: "ptr_add (ptr_add p i) j = ptr_add p (i + j)"
  by (cases p) (auto simp: ptr_add_def)

lemma get_bytes_length: "get_bytes m p n = Some xs \<Longrightarrow> length xs = n"
  by (cases p) (auto simp: get_bytes_def bind_eq_Some_conv split: if_splits)

lemma buf_put:
  assumes "buf m s zs" and "i + length ys \<le> length zs"
  shows "\<exists>m'. put_bytes m (ptr_add (Ptr s) i) ys = Some m' \<and>
     buf m' s (take i zs @ ys @ drop (i + length ys) zs) \<and> only_block (block_of (Ptr s)) m m'"
proof -
  obtain b off bs where p: "Ptr s = Some (b, off)" "blocks m b = Some bs" "\<not> is_const m b"
    "off + length zs \<le> length bs" "take (length zs) (drop off bs) = zs" "length zs = unat (Alloced_length s)"
    using assms(1) unfolding buf_def by blast
  show ?thesis
  proof (cases "ys = []")
    case True
    then show ?thesis using assms by (simp add: put_bytes_def only_block_def)
  next
    case False
    let ?bs = "take (off + i) bs @ ys @ drop (off + i + length ys) bs"
    let ?m = "m\<lparr>blocks := (blocks m)(b \<mapsto> ?bs)\<rparr>"
    have l: "off + i + length ys \<le> length bs" using p(4) assms(2) by simp
    then have put: "put_bytes m (ptr_add (Ptr s) i) ys = Some ?m"
      using p False by (simp add: put_bytes_def ptr_add_def)
    have "take (length zs) (drop off ?bs) = take i zs @ ys @ drop (i + length ys) zs"
    proof (rule nth_equalityI)
      show "length (take (length zs) (drop off ?bs)) = length (take i zs @ ys @ drop (i + length ys) zs)"
        using l p(4) assms(2) by simp
      fix j assume j: "j < length (take (length zs) (drop off ?bs))"
      have "zs ! k = bs ! (off + k)" if "k < length zs" for k
        using p(4,5) that by (metis add_leD1 nth_drop nth_take)
      then show "take (length zs) (drop off ?bs) ! j = (take i zs @ ys @ drop (i + length ys) zs) ! j"
        using j l p(4) assms(2) by (auto simp: nth_append)
    qed
    then have "buf ?m s (take i zs @ ys @ drop (i + length ys) zs)"
      using p assms(2) l unfolding buf_def by (intro conjI exI [of _ b] exI [of _ off] exI [of _ ?bs]) auto
    moreover have "only_block (block_of (Ptr s)) m ?m"
      using p by (simp add: only_block_def block_of_def)
    ultimately show ?thesis using put by blast
  qed
qed

lemma buf_get:
  assumes "buf m s zs" and "i + n \<le> length zs"
  shows "get_bytes m (ptr_add (Ptr s) i) n = Some (take n (drop i zs))"
proof -
  obtain b off bs where p: "Ptr s = Some (b, off)" "blocks m b = Some bs"
    "off + length zs \<le> length bs" "take (length zs) (drop off bs) = zs"
    using assms(1) unfolding buf_def by blast
  have "take n (drop i (take (length zs) (drop off bs))) = take n (drop (off + i) bs)"
    using assms(2) by (simp add: drop_take add.commute min_def)
  then have "take n (drop i zs) = take n (drop (off + i) bs)" using p(4) by simp
  then show ?thesis using p assms(2) by (auto simp: get_bytes_def ptr_add_def)
qed

lemma bs_rep_buf:
  assumes "bs_rep m s xs" "Alloced_length s \<noteq> 0"
  obtains zs where "buf m s zs" "take (length xs) zs = xs" "length xs \<le> length zs"
proof -
  obtain b off ys where p: "Ptr s = Some (b, off)" "blocks m b = Some ys" "\<not> is_const m b"
     "off + unat (Alloced_length s) \<le> length ys" "length xs \<le> unat (Alloced_length s)"
    using assms unfolding bs_rep_def by blast
  let ?zs = "take (unat (Alloced_length s)) (drop off ys)"
  have "buf m s ?zs" using p unfolding buf_def by (intro conjI exI [of _ b] exI [of _ off] exI [of _ ys]) auto
  moreover have "take (length xs) ?zs = xs"
    using assms(1) p by (auto simp: bs_rep_def get_bytes_Some min_def split: if_splits)
  moreover have "length xs \<le> length ?zs" using p by simp
  ultimately show ?thesis using that by blast
qed

lemma buf_bs_rep:
  assumes "buf m s zs" "length xs = unat (str_length s)" "length xs \<le> length zs" "take (length xs) zs = xs"
    and "alloced s \<longrightarrow> (\<exists>b ys. Ptr s = Some (b, 0) \<and> blocks m b = Some ys \<and> \<not> is_const m b)"
  shows "bs_rep m s xs"
  using assms buf_get [OF assms(1), of 0 "length xs"] unfolding bs_rep_def buf_def by auto

lemma only_block_trans: "only_block k m m1 \<Longrightarrow> only_block k m1 m2 \<Longrightarrow> only_block k m m2"
  by (auto simp: only_block_def)

lemma only_block_refl [simp]: "only_block k m m"
  by (simp add: only_block_def)

text \<open>A string in another block keeps its bytes.\<close>

lemma bs_rep_frame:
  assumes "bs_rep m t ys" and "\<And>b. block_of (Ptr t) = Some b \<Longrightarrow> blocks m b \<noteq> None \<Longrightarrow> blocks m' b = blocks m b \<and> is_const m' b = is_const m b"
  shows "bs_rep m' t ys"
proof (cases "Ptr t")
  case None
  then show ?thesis using assms(1) by (auto simp: bs_rep_def get_bytes_def split: if_splits)
next
  case (Some p)
  obtain b off where p: "p = (b, off)" by (cases p)
  show ?thesis
  proof (cases "blocks m b")
    case None
    then show ?thesis using assms(1) Some p by (auto simp: bs_rep_def get_bytes_def split: if_splits)
  next
    case (Some bs)
    then have eq: "blocks m' b = blocks m b" "is_const m' b = is_const m b"
      using assms(2) \<open>Ptr t = Some p\<close> p by (simp_all add: block_of_def)
    then have "get_bytes m' (Ptr t) n = get_bytes m (Ptr t) n" for n
      using \<open>Ptr t = Some p\<close> p by (simp add: get_bytes_def)
    then show ?thesis using assms(1) eq \<open>Ptr t = Some p\<close> p unfolding bs_rep_def by auto
  qed
qed

section \<open>Storing and growing\<close>

lemma bs_rep_extra [simp]: "bs_rep m (s\<lparr>extra_alloc := e\<rparr>) xs = bs_rep m s xs"
  by (simp add: bs_rep_def)

lemma buf_length: "buf m (s\<lparr>str_length := l\<rparr>) zs = buf m s zs"
  by (simp add: buf_def)

lemma bs_rep_alloced: "bs_rep m s xs \<Longrightarrow> alloced s \<Longrightarrow> \<exists>b ys. Ptr s = Some (b, 0) \<and> blocks m b = Some ys \<and> \<not> is_const m b"
  by (simp add: bs_rep_def)

lemma owned_only_block:
  "only_block k m m' \<Longrightarrow> (\<exists>b ys. p = Some (b, 0) \<and> blocks m b = Some ys \<and> \<not> is_const m b) \<Longrightarrow>
     \<exists>b ys. p = Some (b, 0) \<and> blocks m' b = Some ys \<and> \<not> is_const m' b"
  unfolding only_block_def by (metis option.exhaust)

text \<open>Every \<open>q_\<close> method: the bytes are appended when the buffer has room for them, and the bytes behind
  them are kept.\<close>

lemma q_store_rep:
  assumes "bs_rep m s xs" and "length xs + length ys \<le> unat (Alloced_length s)"
  shows "\<exists>m'. q_store m s ys = Some (m', s\<lparr>str_length := str_length s + of_nat (length ys)\<rparr>) \<and>
     bs_rep m' (s\<lparr>str_length := str_length s + of_nat (length ys)\<rparr>) (xs @ ys) \<and>
     only_block (block_of (Ptr s)) m m' \<and>
     (\<forall>i n. length xs + length ys \<le> i \<and> i + n \<le> unat (Alloced_length s) \<longrightarrow>
        get_bytes m' (ptr_add (Ptr s) i) n = get_bytes m (ptr_add (Ptr s) i) n)"
proof (cases "Alloced_length s = 0")
  case True
  then have "ys = []" "xs = []" using assms by auto
  then show ?thesis using assms by (simp add: q_store_def put_bytes_def)
next
  case False
  let ?s = "s\<lparr>str_length := str_length s + of_nat (length ys)\<rparr>"
  obtain zs where z: "buf m s zs" "take (length xs) zs = xs" "length xs \<le> length zs"
    using bs_rep_buf [OF assms(1) False] by blast
  have lz: "length zs = unat (Alloced_length s)" using z(1) by (simp add: buf_def)
  let ?zs = "take (length xs) zs @ ys @ drop (length xs + length ys) zs"
  from buf_put [OF z(1), of "length xs" ys] lz assms(2) obtain m' where
    p: "put_bytes m (ptr_add (Ptr s) (length xs)) ys = Some m'" "buf m' s ?zs" "only_block (block_of (Ptr s)) m m'"
    by auto
  have len: "length xs = unat (str_length s)" using assms(1) by (simp add: bs_rep_def)
  have "unat (Alloced_length s) < 2 ^ LENGTH(32)" by (rule unsigned_less)
  then have sl: "unat (str_length s + of_nat (length ys)) = length xs + length ys"
    using assms(2) len by (simp add: unat_word_ariths unat_of_nat)
  have own: "alloced s \<longrightarrow> (\<exists>b ys. Ptr s = Some (b, 0) \<and> blocks m' b = Some ys \<and> \<not> is_const m' b)"
    using owned_only_block [OF p(3)] bs_rep_alloced [OF assms(1)] by blast
  have "buf m' ?s ?zs" using p(2) by (simp only: buf_length)
  then have "bs_rep m' ?s (xs @ ys)"
    by (rule buf_bs_rep) (use sl z(2) lz assms(2) own in auto)
  moreover have "get_bytes m' (ptr_add (Ptr s) i) n = get_bytes m (ptr_add (Ptr s) i) n"
    if "length xs + length ys \<le> i" "i + n \<le> unat (Alloced_length s)" for i n
    using buf_get [OF p(2), of i n] buf_get [OF z(1), of i n] that lz z(2,3) assms(2)
    by (simp add: drop_append)
  ultimately show ?thesis using p len by (auto simp: q_store_def)
qed

text \<open>\<open>q_append\<close> copies from another block.\<close>

lemma q_append_eq:
  assumes "get_bytes m src (unat n) = Some ys" "block_of src \<noteq> block_of (Ptr s)"
  shows "q_append m s src n = q_store m s ys"
proof -
  have l: "length ys = unat n" using assms(1) by (rule get_bytes_length)
  have w: "of_nat (length ys) = (ucast n :: uint32)" unfolding l by simp
  have no: "\<nexists>b o1 o2. ptr_add (Ptr s) (unat (str_length s)) = Some (b, o1) \<and> src = Some (b, o2) \<and> o1 < o2 + unat n \<and> o2 < o1 + unat n"
    using assms(2) by (cases "Ptr s") (auto simp: block_of_def ptr_add_def)
  then have "memcpy m (ptr_add (Ptr s) (unat (str_length s))) src (unat n) =
      put_bytes m (ptr_add (Ptr s) (unat (str_length s))) ys"
    using assms(1) unfolding memcpy_def by (simp only: no simp_thms if_False) simp
  moreover have "n = 0 \<Longrightarrow> ys = []" using l by simp
  ultimately show ?thesis
    by (auto simp: q_append_def q_store_def w put_bytes_def)
qed

text \<open>The other blocks after an operation that may move the buffer.\<close>

definition others_kept :: "mem \<Rightarrow> bstr \<Rightarrow> mem \<Rightarrow> bstr \<Rightarrow> bool" where
  "others_kept m s m' s' \<longleftrightarrow>
     (\<forall>b. blocks m b \<noteq> None \<and> Some b \<noteq> block_of (Ptr s) \<longrightarrow>
        Some b \<noteq> block_of (Ptr s') \<and> blocks m' b = blocks m b \<and> is_const m' b = is_const m b)"

lemma others_kept_refl [simp]: "others_kept m s m s"
  by (simp add: others_kept_def)

lemma others_kept_trans: "others_kept m s m1 s1 \<Longrightarrow> others_kept m1 s1 m2 s2 \<Longrightarrow> others_kept m s m2 s2"
  unfolding others_kept_def by metis

lemma others_kept_only: "only_block (block_of (Ptr s)) m m' \<Longrightarrow> Ptr s' = Ptr s \<Longrightarrow> others_kept m s m' s'"
  by (auto simp: others_kept_def only_block_def)

lemma others_kept_rep:
  "others_kept m s m' s' \<Longrightarrow> bs_rep m t ys \<Longrightarrow> Ptr t = None \<or> block_of (Ptr t) \<noteq> block_of (Ptr s) \<Longrightarrow> bs_rep m' t ys"
  by (erule bs_rep_frame) (auto simp: others_kept_def block_of_def)

lemma others_kept_get:
  "others_kept m s m' s' \<Longrightarrow> get_bytes m p n = Some ys \<Longrightarrow> block_of p \<noteq> block_of (Ptr s) \<Longrightarrow> 
     get_bytes m' p n = Some ys \<and> (n \<noteq> 0 \<longrightarrow> block_of p \<noteq> block_of (Ptr s'))"
proof (cases p)
  case (Some q)
  assume o: "others_kept m s m' s'" and g: "get_bytes m p n = Some ys" and b: "block_of p \<noteq> block_of (Ptr s)"
  have "blocks m (fst q) \<noteq> None" if "n \<noteq> 0"
    using g Some that by (cases q) (auto simp: get_bytes_Some)
  then have "Some (fst q) \<noteq> block_of (Ptr s') \<and> blocks m' (fst q) = blocks m (fst q)" if "n \<noteq> 0"
    using o b Some that unfolding others_kept_def block_of_def by simp
  then show ?thesis using g Some by (cases q; cases "n = 0") (auto simp: get_bytes_Some block_of_def)
qed (auto simp: get_bytes_def split: if_splits)

lemma put_zero_rep:
  assumes "bs_rep m s xs" "length xs \<le> unat i" "unat i < unat (Alloced_length s)"
  shows "\<exists>m'. put_zero m s i = Some (m', s, False) \<and> bs_rep m' s xs \<and> only_block (block_of (Ptr s)) m m' \<and>
     get_bytes m' (ptr_add (Ptr s) (unat i)) 1 = Some [0]"
proof -
  have A: "Alloced_length s \<noteq> 0" using assms(3) by auto
  obtain zs where z: "buf m s zs" "take (length xs) zs = xs" "length xs \<le> length zs"
    using bs_rep_buf [OF assms(1) A] by blast
  have lz: "length zs = unat (Alloced_length s)" using z(1) by (simp add: buf_def)
  let ?zs = "take (unat i) zs @ [0] @ drop (unat i + 1) zs"
  from buf_put [OF z(1), of "unat i" "[0]"] lz assms(3) obtain m' where
    p: "put_bytes m (ptr_add (Ptr s) (unat i)) [0] = Some m'" "buf m' s ?zs" "only_block (block_of (Ptr s)) m m'"
    by auto
  have own: "alloced s \<longrightarrow> (\<exists>b ys. Ptr s = Some (b, 0) \<and> blocks m' b = Some ys \<and> \<not> is_const m' b)"
    using owned_only_block [OF p(3)] bs_rep_alloced [OF assms(1)] by blast
  have len: "length xs = unat (str_length s)" using assms(1) by (simp add: bs_rep_def)
  have "take (length xs) (take (unat i) zs) = xs" using z(2) assms(2) by (simp add: min_absorb1)
  then have "take (length xs) ?zs = xs" using assms(2,3) lz by (simp add: min_absorb1)
  then have "bs_rep m' s xs"
    using buf_bs_rep [OF p(2) len _ _ own] assms(2,3) lz by simp
  moreover have "get_bytes m' (ptr_add (Ptr s) (unat i)) 1 = Some [0]"
    using buf_get [OF p(2), of "unat i" 1] lz assms(3) by (simp add: drop_append)
  ultimately show ?thesis using p by (simp add: put_zero_def)
qed

text \<open>The three growing operations share one contract: either nothing but \<open>extra_alloc\<close> changed and
  true is returned, or the string holds the same bytes, has room for one byte more than the argument,
  and is zero-terminated at the argument.\<close>

definition grown :: "mem \<Rightarrow> bstr \<Rightarrow> uchar list \<Rightarrow> nat \<Rightarrow> mem \<times> bstr \<times> bool \<Rightarrow> bool" where
  "grown m s xs n r \<longleftrightarrow> (case r of (m1, s1, fail) \<Rightarrow>
     str_length s1 = str_length s \<and> bs_rep m1 s1 xs \<and>
     (if fail then m1 = m \<and> Ptr s1 = Ptr s
      else n < unat (Alloced_length s1) \<and> get_bytes m1 (ptr_add (Ptr s1) n) 1 = Some [0] \<and> others_kept m s m1 s1))"

lemma grown_extra: "grown m (s\<lparr>extra_alloc := e\<rparr>) xs n r = grown m s xs n r"
  by (simp add: grown_def others_kept_def)

lemma unat_ucast_32_64 [simp]: "unat (ucast (w :: uint32) :: ulonglong) = unat w"
proof -
  have "unat w < 2 ^ LENGTH(32)" by (rule unsigned_less)
  then show ?thesis by (intro unat_ucast_small) simp
qed

lemma ucast_ucast_32_64 [simp]: "(ucast (ucast (w :: uint32) :: ulonglong) :: uint32) = w"
proof (rule unsigned_word_eqI [where 'a = nat])
  have "unat (ucast w :: ulonglong) < 2 ^ LENGTH(32)" using unsigned_less [of w, where 'a = nat] by simp
  then show "unat (ucast (ucast w :: ulonglong) :: uint32) = unat w" by (subst unat_ucast_small) simp_all
qed

lemma realloc_law_D:
  assumes "realloc_law realloc_raw" "bs_rep m s xs" "length xs \<le> unat n" "realloc_raw m s n = (m1, s1, f)"
  shows "f \<Longrightarrow> m1 = m \<and> s1 = s"
    and "\<not> f \<Longrightarrow> bs_rep m1 s1 xs \<and> unat n \<le> unat (Alloced_length s1) \<and> str_length s1 = str_length s \<and>
       extra_alloc s1 = extra_alloc s \<and> others_kept m s m1 s1"
  using assms unfolding realloc_law_def others_kept_def by metis+

lemma raw_then_zero:
  assumes law: "realloc_law realloc_raw" and "bs_rep m s xs" and "length xs \<le> unat i" "unat i < unat n"
    and r: "realloc_raw m s n = (m1, s1, f)"
  shows "\<exists>r. (if f then Some (m1, s1, True) else put_zero m1 s1 i) = Some r \<and> grown m s xs (unat i) r"
proof (cases f)
  case True
  then show ?thesis using realloc_law_D(1) [OF law assms(2) _ r] assms(2-4) by (simp add: grown_def)
next
  case False
  have "length xs \<le> unat n" using assms(3,4) by simp
  note k = realloc_law_D(2) [OF law assms(2) this r False]
  from put_zero_rep [of m1 s1 xs i] k assms(3,4) obtain m' where
    "put_zero m1 s1 i = Some (m', s1, False)" "bs_rep m' s1 xs" "only_block (block_of (Ptr s1)) m1 m'"
    "get_bytes m' (ptr_add (Ptr s1) (unat i)) 1 = Some [0]" by auto
  moreover have "others_kept m s m' s1"
    using others_kept_trans others_kept_only [of s1 m1 m' s1] k calculation(3) by blast
  ultimately show ?thesis using False k assms(4) by (simp add: grown_def)
qed

lemma case_raw: "(case r of (m1, s1, True) \<Rightarrow> A m1 s1 | (m1, s1, False) \<Rightarrow> B m1 s1) =
    (case r of (m1, s1, f) \<Rightarrow> if f then A m1 s1 else B m1 s1)"
  by (auto split: prod.splits)

lemma bs_realloc_grown:
  assumes "realloc_law realloc_raw" "bs_rep m s xs" "length xs \<le> unat i" "unat i < 2 ^ 33"
  shows "\<exists>r. bs_realloc realloc_raw m s i = Some r \<and> grown m s xs (unat i) r"
proof -
  have "unat (i + 1) = unat i + 1" using assms(4) by (simp add: unat_word_ariths)
  moreover obtain m1 s1 f where r: "realloc_raw m s (i + 1) = (m1, s1, f)" by (metis prod_cases3)
  ultimately show ?thesis
    using raw_then_zero [OF assms(1-3) _ r] by (simp add: bs_realloc_def case_raw)
qed

lemma realloc_with_extra_grown:
  assumes "realloc_law realloc_raw" "bs_rep m s xs" "length xs \<le> unat i" "unat i < 2 ^ 33"
  shows "\<exists>r. realloc_with_extra realloc_raw m s i = Some r \<and> grown m s xs (unat i) r"
proof -
  define e where "e = (if extra_alloc s < 4096 then extra_alloc s * 2 + 128 else extra_alloc s)"
  let ?s = "s\<lparr>extra_alloc := e\<rparr>"
  have s0: "(if extra_alloc s < 4096 then s\<lparr>extra_alloc := extra_alloc s * 2 + 128\<rparr> else s) = ?s"
    by (simp add: e_def)
  have e0: "0 < unat e"
  proof (cases "extra_alloc s < 4096")
    case True
    then have "unat (extra_alloc s) < 4096" by (simp add: word_less_nat_alt)
    then have "unat e = unat (extra_alloc s) * 2 + 128"
      using True by (simp add: e_def unat_word_ariths)
    then show ?thesis by simp
  next
    case False
    then show ?thesis by (auto simp: e_def word_less_nat_alt)
  qed
  have "unat e < 2 ^ LENGTH(32)" by (rule unsigned_less)
  then have "unat (i + ucast e) = unat i + unat e"
    using assms(4) by (simp add: unat_word_ariths)
  then have n: "unat i < unat (i + ucast e)" using e0 by simp
  obtain m1 s1 f where r: "realloc_raw m ?s (i + ucast e) = (m1, s1, f)" by (metis prod_cases3)
  have "bs_rep m ?s xs" using assms(2) by simp
  from raw_then_zero [OF assms(1) this assms(3) n r] show ?thesis
    by (simp add: realloc_with_extra_def s0 Let_def case_raw r grown_extra)
qed

lemma realloc_if_needed_grown:
  assumes "realloc_law realloc_raw" "bs_rep m s xs" "length xs \<le> unat i" "unat i < 2 ^ 33"
  shows "\<exists>r. realloc_with_extra_if_needed realloc_raw m s i = Some r \<and> grown m s xs (unat i) r"
proof (cases "i < ucast (Alloced_length s)")
  case True
  then have "unat i < unat (Alloced_length s)" by (simp add: word_less_nat_alt)
  then show ?thesis
    using put_zero_rep [OF assms(2,3)] True others_kept_only
    by (fastforce simp: realloc_with_extra_if_needed_def grown_def)
next
  case False
  then show ?thesis
    using realloc_with_extra_grown [OF assms] by (simp add: realloc_with_extra_if_needed_def)
qed

section \<open>Appending\<close>

text \<open>What a failing \<open>append\<close> leaves: only the extra amount has grown.\<close>

lemma realloc_with_extra_failed:
  assumes "realloc_law realloc_raw" "bs_rep m s xs" "length xs \<le> unat i" "unat i < 2 ^ 33"
    and "realloc_with_extra realloc_raw m s i = Some (m', s', True)"
  shows "m' = m \<and> s' = (if extra_alloc s < 4096 then s\<lparr>extra_alloc := extra_alloc s * 2 + 128\<rparr> else s)"
proof -
  let ?s = "if extra_alloc s < 4096 then s\<lparr>extra_alloc := extra_alloc s * 2 + 128\<rparr> else s"
  obtain m1 s1 f where r: "realloc_raw m ?s (i + ucast (extra_alloc ?s)) = (m1, s1, f)" by (metis prod_cases3)
  have f: f "m1 = m'" "s1 = s'"
    using assms(5) r by (auto simp: realloc_with_extra_def Let_def case_raw put_zero_def bind_eq_Some_conv split: if_splits)
  have "unat (extra_alloc ?s) < 2 ^ LENGTH(32)" by (rule unsigned_less)
  then have "unat (i + ucast (extra_alloc ?s)) = unat i + unat (extra_alloc ?s)"
    using assms(4) by (subst unat_plus_small) simp_all
  then have "length xs \<le> unat (i + ucast (extra_alloc ?s))" using assms(3) by simp
  moreover have "bs_rep m ?s xs" using assms(2) by simp
  ultimately show ?thesis using realloc_law_D(1) [OF assms(1) _ _ r] f by blast
qed

lemma bs_append_failed:
  assumes "realloc_law realloc_raw" "bs_rep m s xs" "length xs + unat n < 2 ^ 32"
    and "bs_append realloc_raw m s src n = Some (m', s', True)"
  shows "m' = m \<and> s' = (if extra_alloc s < 4096 then s\<lparr>extra_alloc := extra_alloc s * 2 + 128\<rparr> else s) \<and>
    unat (Alloced_length s) \<le> length xs + unat n"
proof -
  let ?i = "ucast (str_length s) + n"
  have l: "unat (str_length s) = length xs" using assms(2) by (simp add: bs_rep_def)
  have i: "unat ?i = length xs + unat n" using assms(3) l by (subst unat_plus_small) simp_all
  have "realloc_with_extra_if_needed realloc_raw m s ?i = Some (m', s', True)"
    using assms(4) by (auto simp: bs_append_def bind_eq_Some_conv split: if_splits)
  then have n: "\<not> ?i < ucast (Alloced_length s)" and r: "realloc_with_extra realloc_raw m s ?i = Some (m', s', True)"
    by (auto simp: realloc_with_extra_if_needed_def put_zero_def bind_eq_Some_conv split: if_splits)
  have "unat (Alloced_length s) \<le> length xs + unat n" using n i by (simp add: word_less_nat_alt not_less)
  moreover have "length xs \<le> unat ?i" "unat ?i < 2 ^ 33" using i assms(3) by simp_all
  ultimately show ?thesis using realloc_with_extra_failed [OF assms(1,2) _ _ r] by blast
qed

lemma get_bytes_append:
  assumes "get_bytes m p i = Some xs" and "get_bytes m (ptr_add p i) j = Some ys"
  shows "get_bytes m p (i + j) = Some (xs @ ys)"
proof (cases p)
  case None
  then show ?thesis using assms by (auto simp: get_bytes_def ptr_add_def split: if_splits)
next
  case (Some q)
  obtain b off where q: "q = (b, off)" by (cases q)
  show ?thesis
    using assms Some q by (auto simp: ptr_add_def get_bytes_Some take_add add.commute split: if_splits)
qed

lemma bs_rep_get: "bs_rep m s xs \<Longrightarrow> get_bytes m (Ptr s) (length xs) = Some xs"
  unfolding bs_rep_def by blast

text \<open>What an appending operation that returns does.\<close>

definition appended :: "mem \<Rightarrow> bstr \<Rightarrow> uchar list \<Rightarrow> uchar list \<Rightarrow> mem \<times> bstr \<times> bool \<Rightarrow> bool" where
  "appended m s xs ys r \<longleftrightarrow> (case r of (m', s', fail) \<Rightarrow>
     bs_rep m' s' (if fail then xs else xs @ ys) \<and> (fail \<longrightarrow> m' = m \<and> Ptr s' = Ptr s) \<and> others_kept m s m' s')"

lemma grown_store:
  assumes "grown m s xs n (m1, s1, False)" and "n = length xs + length ys"
  shows "\<exists>m2 s2. q_store m1 s1 ys = Some (m2, s2) \<and> appended m s xs ys (m2, s2, False) \<and>
     get_bytes m2 (Ptr s2) (n + 1) = Some (xs @ ys @ [0])"
proof -
  have g: "bs_rep m1 s1 xs" "n < unat (Alloced_length s1)" "get_bytes m1 (ptr_add (Ptr s1) n) 1 = Some [0]"
    "others_kept m s m1 s1"
    using assms(1) by (simp_all add: grown_def)
  from q_store_rep [OF g(1), of ys] g(2) assms(2) obtain m2 where
    q: "q_store m1 s1 ys = Some (m2, s1\<lparr>str_length := str_length s1 + of_nat (length ys)\<rparr>)"
    "bs_rep m2 (s1\<lparr>str_length := str_length s1 + of_nat (length ys)\<rparr>) (xs @ ys)"
    "only_block (block_of (Ptr s1)) m1 m2"
    "get_bytes m2 (ptr_add (Ptr s1) n) 1 = get_bytes m1 (ptr_add (Ptr s1) n) 1"
    by (metis Suc_eq_plus1 Suc_leI less_imp_le order_refl)
  let ?s2 = "s1\<lparr>str_length := str_length s1 + of_nat (length ys)\<rparr>"
  have "get_bytes m2 (Ptr s1) (n + 1) = Some ((xs @ ys) @ [0])"
    using get_bytes_append [of m2 "Ptr s1" n "xs @ ys" 1 "[0]"] bs_rep_get [OF q(2)] q(4) g(3) assms(2) by simp
  moreover have "others_kept m s m2 ?s2"
    using others_kept_trans [OF g(4)] others_kept_only [OF q(3), of ?s2] by simp
  ultimately show ?thesis using q(1,2) by (simp add: appended_def)
qed

lemma bs_append_rep:
  assumes law: "realloc_law realloc_raw" and rep: "bs_rep m s xs" and src: "get_bytes m src (unat n) = Some ys"
    and blk: "block_of src \<noteq> block_of (Ptr s)" and len: "length xs + unat n < 2 ^ 32"
  shows "\<exists>m' s' fail. bs_append realloc_raw m s src n = Some (m', s', fail) \<and> appended m s xs ys (m', s', fail) \<and>
     (\<not> fail \<and> n \<noteq> 0 \<longrightarrow> get_bytes m' (Ptr s') (length xs + length ys + 1) = Some (xs @ ys @ [0]))"
proof (cases "n = 0")
  case True
  then show ?thesis using rep src by (intro exI [of _ m] exI [of _ s] exI [of _ False]) (simp add: bs_append_def appended_def)
next
  case False
  have ly: "length ys = unat n" using get_bytes_length [OF src] .
  have lx: "length xs = unat (str_length s)" using rep by (simp add: bs_rep_def)
  let ?n = "ucast (str_length s) + n"
  have un: "unat ?n = length xs + length ys"
    using len lx ly by (subst unat_plus_small) simp_all
  from realloc_if_needed_grown [OF law rep, of ?n] un len ly obtain r where
    r: "realloc_with_extra_if_needed realloc_raw m s ?n = Some r" "grown m s xs (length xs + length ys) r" by auto
  obtain m1 s1 f where rr: "r = (m1, s1, f)" by (cases r)
  show ?thesis
  proof (cases f)
    case True
    then have "bs_append realloc_raw m s src n = Some (m1, s1, True)" using False r(1) rr by (simp add: bs_append_def)
    moreover have "appended m s xs ys (m1, s1, True)"
      using r(2) rr True by (auto simp: appended_def grown_def others_kept_def)
    ultimately show ?thesis by blast
  next
    case nf: False
    then have g: "grown m s xs (length xs + length ys) (m1, s1, False)" using r(2) rr by simp
    then have "others_kept m s m1 s1" by (simp add: grown_def)
    from others_kept_get [OF this src blk] False have
      "get_bytes m1 src (unat n) = Some ys" "block_of src \<noteq> block_of (Ptr s1)" by (simp_all add: unat_eq_zero)
    then have qa: "q_append m1 s1 src n = q_store m1 s1 ys" by (rule q_append_eq)
    from grown_store [OF g refl] obtain m2 s2 where
      "q_store m1 s1 ys = Some (m2, s2)" "appended m s xs ys (m2, s2, False)"
      "get_bytes m2 (Ptr s2) (length xs + length ys + 1) = Some (xs @ ys @ [0])" by blast
    moreover then have "bs_append realloc_raw m s src n = Some (m2, s2, False)"
      using False r(1) rr nf qa by (simp add: bs_append_def)
    ultimately show ?thesis by blast
  qed
qed

lemma append_char_rep:
  assumes law: "realloc_law realloc_raw" and rep: "bs_rep m s xs" and len: "length xs + 1 < 2 ^ 32"
  shows "\<exists>r. append_char realloc_raw m s c = Some r \<and> appended m s xs [c] r"
proof (cases "str_length s < Alloced_length s")
  case True
  have "length xs + length [c] \<le> unat (Alloced_length s)"
    using True rep by (simp add: bs_rep_def word_less_nat_alt)
  from q_store_rep [OF rep this] True show ?thesis
    using others_kept_only by (fastforce simp: append_char_def appended_def)
next
  case False
  have lx: "length xs = unat (str_length s)" using rep by (simp add: bs_rep_def)
  then have un: "unat (ucast (str_length s + 1) :: ulonglong) = length xs + length [c]"
    using len by (simp add: unat_plus_small)
  from realloc_with_extra_grown [OF law rep, of "ucast (str_length s + 1)"] un len obtain m1 s1 f where
    r: "realloc_with_extra realloc_raw m s (ucast (str_length s + 1)) = Some (m1, s1, f)"
    "grown m s xs (length xs + length [c]) (m1, s1, f)" by auto
  show ?thesis
  proof (cases f)
    case True
    then have "appended m s xs [c] (m1, s1, True)"
      using r(2) by (auto simp: appended_def grown_def others_kept_def)
    then show ?thesis using r(1) True False by (auto simp: append_char_def)
  next
    case nf: False
    from grown_store [of m s xs _ m1 s1 "[c]", OF _ refl] r(2) nf obtain m2 s2 where
      "q_store m1 s1 [c] = Some (m2, s2)" "appended m s xs [c] (m2, s2, False)" by auto
    then show ?thesis using r(1) nf False by (auto simp: append_char_def)
  qed
qed

definition hex_byte :: "(nat \<Rightarrow> uchar) \<Rightarrow> uchar \<Rightarrow> uchar list" where
  "hex_byte dig c = [dig (unat c div 16), dig (unat c mod 16)]"

lemma hex_digits: "unat (drop_bit 4 (c :: uchar)) = unat c div 16" "unat (c AND 0x0F) = unat c mod 16"
proof -
  show "unat (drop_bit 4 c) = unat c div 16" by (simp add: unat_drop_bit)
  have "c AND 0x0F = take_bit 4 c" by (simp add: and_low_mask)
  then show "unat (c AND 0x0F) = unat c mod 16"
    by (simp only: unsigned_take_bit_eq) (simp add: take_bit_eq_mod)
qed

lemma appended_trans:
  assumes "appended m s xs ys (m1, s1, False)" "appended m1 s1 (xs @ ys) zs (m2, s2, False)"
  shows "appended m s xs (ys @ zs) (m2, s2, False)"
  using assms others_kept_trans by (auto simp: appended_def)

text \<open>The hex digits come in order; when the memory runs out, a part of them has been appended.\<close>

lemma append_hex_loop_rep:
  assumes law: "realloc_law realloc_raw"
  shows "bs_rep m s xs \<Longrightarrow> get_bytes m src n = Some ys \<Longrightarrow> block_of src \<noteq> block_of (Ptr s) \<Longrightarrow> length xs + 2 * n < 2 ^ 32 \<Longrightarrow>
     \<exists>m' s' fail. append_hex_loop realloc_raw dig m s src n = Some (m', s', fail) \<and> others_kept m s m' s' \<and>
       (\<exists>zs. bs_rep m' s' (xs @ zs) \<and> (\<exists>ws. zs @ ws = concat (map (hex_byte dig) ys) \<and> (\<not> fail \<longrightarrow> ws = [])))"
proof (induction n arbitrary: m s xs src ys)
  case 0
  then show ?case by (intro exI [of _ m] exI [of _ s] exI [of _ False]) simp
next
  case (Suc n)
  obtain b off bs where p: "src = Some (b, off)" "blocks m b = Some bs" "off + Suc n \<le> length bs" "ys = take (Suc n) (drop off bs)"
    using Suc.prems(2) by (cases src) (auto simp: get_bytes_def bind_eq_Some_conv split: if_splits)
  obtain y ys' where ys: "ys = y # ys'" using p(3,4) by (cases "drop off bs") auto
  have g1: "get_bytes m src 1 = Some [y]"
    using p ys by (auto simp: get_bytes_Some take_Suc split: list.splits)
  have gr: "get_bytes m (ptr_add src 1) n = Some ys'"
    using p ys by (auto simp: get_bytes_Some ptr_add_def take_Suc drop_Suc tl_drop)
  let ?h = "dig (unat y div 16)" and ?l = "dig (unat y mod 16)"
  have "length xs + 1 < 2 ^ 32" using Suc.prems(4) by simp
  from append_char_rep [OF law Suc.prems(1) this, of ?h] obtain m1 s1 f1 where
    a1: "append_char realloc_raw m s ?h = Some (m1, s1, f1)" "appended m s xs [?h] (m1, s1, f1)" by auto
  show ?case
  proof (cases f1)
    case True
    then have "append_hex_loop realloc_raw dig m s src (Suc n) = Some (m1, s1, True)" "others_kept m s m1 s1" "bs_rep m1 s1 (xs @ [])"
      using a1 g1 by (auto simp: hex_digits appended_def)
    then show ?thesis by (metis append_Nil)
  next
    case nf1: False
    have r1: "bs_rep m1 s1 (xs @ [?h])" "others_kept m s m1 s1" using a1(2) nf1 by (simp_all add: appended_def)
    have k1: "get_bytes m1 src 1 = Some [y]" "block_of src \<noteq> block_of (Ptr s1)"
      using others_kept_get [OF r1(2) g1 Suc.prems(3)] by simp_all
    have k1r: "get_bytes m1 (ptr_add src 1) n = Some ys'"
      using others_kept_get [OF r1(2) gr] Suc.prems(3) by simp
    have "length (xs @ [?h]) + 1 < 2 ^ 32" using Suc.prems(4) by simp
    from append_char_rep [OF law r1(1) this, of ?l] obtain m2 s2 f2 where
      a2: "append_char realloc_raw m1 s1 ?l = Some (m2, s2, f2)" "appended m1 s1 (xs @ [?h]) [?l] (m2, s2, f2)" by auto
    show ?thesis
    proof (cases f2)
      case True
      then have "append_hex_loop realloc_raw dig m s src (Suc n) = Some (m2, s2, True)"
        using a1(1) a2(1) g1 k1(1) nf1 by (simp add: hex_digits)
      moreover have "others_kept m s m2 s2" "bs_rep m2 s2 (xs @ [?h])"
        using a2(2) True others_kept_trans [OF r1(2)] by (auto simp: appended_def)
      moreover have "[?h] @ (?l # concat (map (hex_byte dig) ys')) = concat (map (hex_byte dig) ys)"
        using ys by (simp add: hex_byte_def)
      ultimately show ?thesis by blast
    next
      case nf2: False
      have r2: "bs_rep m2 s2 (xs @ [?h, ?l])" "others_kept m1 s1 m2 s2" using a2(2) nf2 by (simp_all add: appended_def)
      have k2: "get_bytes m2 (ptr_add src 1) n = Some ys'" "block_of (ptr_add src 1) \<noteq> block_of (Ptr s2)"
        using others_kept_get [OF r2(2) k1r] others_kept_get [OF r2(2) k1(1)] k1(2) by simp_all
      have "length (xs @ [?h, ?l]) + 2 * n < 2 ^ 32" using Suc.prems(4) by simp
      from Suc.IH [OF r2(1) k2 this] obtain m3 s3 f3 zs ws where
        i: "append_hex_loop realloc_raw dig m2 s2 (ptr_add src 1) n = Some (m3, s3, f3)" "others_kept m2 s2 m3 s3"
        "bs_rep m3 s3 ((xs @ [?h, ?l]) @ zs)" "zs @ ws = concat (map (hex_byte dig) ys')" "\<not> f3 \<longrightarrow> ws = []" by blast
      have "append_hex_loop realloc_raw dig m s src (Suc n) = Some (m3, s3, f3)"
        using a1(1) a2(1) g1 k1(1) nf1 nf2 i(1) by (simp add: hex_digits)
      moreover have "others_kept m s m3 s3"
        using others_kept_trans [OF r1(2)] others_kept_trans [OF r2(2) i(2)] by blast
      moreover have "bs_rep m3 s3 (xs @ ([?h, ?l] @ zs))" "([?h, ?l] @ zs) @ ws = concat (map (hex_byte dig) ys)"
        using i(3,4) ys by (simp_all add: hex_byte_def)
      ultimately show ?thesis using i(5) by blast
    qed
  qed
qed

section \<open>A concrete allocator\<close>

text \<open>It serves one request by moving the string to block \<open>k\<close> and frees the old buffer if it was owned.\<close>

definition alloc_at :: "nat \<Rightarrow> allocator" where
  "alloc_at k m s n =
     (if unat n \<le> unat (Alloced_length s) then (m, s, False)
      else if blocks m k \<noteq> None \<or> 2 ^ 32 \<le> unat n then (m, s, True)
      else case get_bytes m (Ptr s) (unat (str_length s)) of
        None \<Rightarrow> (m, s, True)
      | Some xs \<Rightarrow>
         (\<lparr>blocks = (\<lambda>b. if b = k then Some (xs @ replicate (unat n - length xs) 0)
                        else if alloced s \<and> block_of (Ptr s) = Some b then None else blocks m b),
           is_const = (is_const m)(k := False)\<rparr>,
          s\<lparr>Ptr := Some (k, 0), Alloced_length := ucast n, alloced := True\<rparr>, False))"

lemma alloc_at_law: "realloc_law (alloc_at k)"
  unfolding realloc_law_def
proof (intro allI impI, elim conjE)
  fix m s n xs m' s' fail
  assume rep: "bs_rep m s xs" and len: "length xs \<le> unat n" and r: "alloc_at k m s n = (m', s', fail)"
  have g: "get_bytes m (Ptr s) (unat (str_length s)) = Some xs" and l: "length xs = unat (str_length s)"
    using rep unfolding bs_rep_def by auto
  consider "unat n \<le> unat (Alloced_length s)" | "\<not> unat n \<le> unat (Alloced_length s)" "blocks m k \<noteq> None \<or> 2 ^ 32 \<le> unat n"
    | "\<not> unat n \<le> unat (Alloced_length s)" "blocks m k = None" "unat n < 2 ^ 32" by fastforce
  then show "if fail then m' = m \<and> s' = s
        else bs_rep m' s' xs \<and> unat n \<le> unat (Alloced_length s') \<and>
          str_length s' = str_length s \<and> extra_alloc s' = extra_alloc s \<and>
          (\<forall>b. blocks m b \<noteq> None \<and> Some b \<noteq> block_of (Ptr s) \<longrightarrow>
             Some b \<noteq> block_of (Ptr s') \<and> blocks m' b = blocks m b \<and> is_const m' b = is_const m b) \<and>
          (\<forall>b. \<not> alloced s \<and> block_of (Ptr s) = Some b \<and> blocks m b \<noteq> None \<longrightarrow> blocks m' b = blocks m b \<and> is_const m' b = is_const m b)"
  proof cases
    case 1
    then show ?thesis using r rep by (auto simp: alloc_at_def)
  next
    case 2
    then show ?thesis using r by (auto simp: alloc_at_def)
  next
    case 3
    have u: "unat (ucast n :: uint32) = unat n" using 3(3) by (intro unat_ucast_small) simp
    have s': "fail = False" "s' = s\<lparr>Ptr := Some (k, 0), Alloced_length := ucast n, alloced := True\<rparr>"
      "blocks m' = (\<lambda>b. if b = k then Some (xs @ replicate (unat n - length xs) 0)
                        else if alloced s \<and> block_of (Ptr s) = Some b then None else blocks m b)"
      "is_const m' = (is_const m)(k := False)"
      using r 3 g by (auto simp: alloc_at_def)
    show ?thesis
      using 3 u l len by (auto simp: s' bs_rep_def get_bytes_Some block_of_def)
  qed
qed

section \<open>Reading and views\<close>

lemma my_isascii_iff: "my_isascii c \<longleftrightarrow> unat c < 128"
proof -
  have "c AND NOT 0x7F = push_bit 7 (drop_bit 7 c)"
    using and_high_mask [of c 7] by (simp add: mask_eq_exp_minus_1)
  then show ?thesis by (simp add: my_isascii_def push_drop_eq_0_iff drop_bit_eq_0_iff_div div_eq_0_iff)
qed

lemma get_bytes_split:
  assumes "get_bytes m p (Suc n) = Some (x # xs)"
  shows "get_bytes m p 1 = Some [x]" "get_bytes m (ptr_add p 1) n = Some xs"
proof -
  obtain b off bs where p: "p = Some (b, off)" "blocks m b = Some bs" "off + Suc n \<le> length bs" "x # xs = take (Suc n) (drop off bs)"
    using assms by (cases p) (auto simp: get_bytes_def bind_eq_Some_conv split: if_splits)
  then show "get_bytes m p 1 = Some [x]" "get_bytes m (ptr_add p 1) n = Some xs"
    by (auto simp: get_bytes_Some ptr_add_def take_Suc drop_Suc tl_drop split: list.splits)
qed

lemma has_8bit_loop_rep: "get_bytes m p n = Some xs \<Longrightarrow> has_8bit_loop m p n = Some (\<exists>c \<in> set xs. 128 \<le> unat c)"
proof (induction n arbitrary: p xs)
  case (Suc n)
  then obtain y ys where xs: "xs = y # ys" using get_bytes_length by (metis length_Suc_conv)
  note g = get_bytes_split [OF Suc.prems [unfolded xs]]
  show ?case using g(1) Suc.IH [OF g(2)] xs by (auto simp: my_isascii_iff)
qed simp

lemma has_8bit_bytes_rep: "bs_rep m s xs \<Longrightarrow> has_8bit_bytes m s = Some (\<exists>c \<in> set xs. 128 \<le> unat c)"
  unfolding has_8bit_bytes_def by (rule has_8bit_loop_rep) (auto simp: bs_rep_def)

lemma bin_eq_rep:
  assumes "bs_rep m s xs" "bs_rep m t ys"
  shows "bin_eq m s t = Some (xs = ys)"
proof -
  have l: "length xs = unat (str_length s)" "length ys = unat (str_length t)" using assms by (simp_all add: bs_rep_def)
  show ?thesis
  proof (cases "str_length s = str_length t")
    case True
    then show ?thesis using bs_rep_get [OF assms(1)] bs_rep_get [OF assms(2)] l by (simp add: bin_eq_def bs_length_def)
  next
    case False
    then have "xs \<noteq> ys" using l unsigned_word_eqI [of "str_length s" "str_length t", where 'a = nat] by auto
    then show ?thesis using False by (simp add: bin_eq_def bs_length_def)
  qed
qed

text \<open>A substring shares the buffer of the other string, whose bytes are kept.\<close>

lemma bs_set_sub_rep:
  assumes "bs_rep m s []" "\<not> alloced s" and "bs_rep m t ys" and "unat off + unat len \<le> length ys"
  shows "\<exists>s'. bs_set_sub m s t off len = Some (m, s') \<and> bs_rep m s' (take (unat len) (drop (unat off) ys)) \<and> \<not> alloced s'"
proof -
  have ly: "length ys = unat (str_length t)" using assms(3) by (simp add: bs_rep_def)
  have b32: "unat off + unat len < 2 ^ 32" using assms(4) ly unsigned_less [of "str_length t", where 'a = nat] by simp
  then have ul: "unat (ucast len :: uint32) = unat len" by (intro unat_ucast_small) simp
  define a where "a = (if Alloced_length t \<noteq> 0 then ucast (ucast (Alloced_length t) - off) else 0 :: uint32)"
  let ?s = "s\<lparr>Ptr := ptr_add (Ptr t) (unat off), str_length := ucast len, Alloced_length := a\<rparr>"
  have op: "bs_set_sub m s t off len = Some (m, ?s)" using assms(2) by (simp add: bs_set_sub_def free_buffer_def a_def)
  have ua: "unat a = unat (Alloced_length t) - unat off" "length ys \<le> unat (Alloced_length t)" if "Alloced_length t \<noteq> 0"
  proof -
    show le: "length ys \<le> unat (Alloced_length t)" using assms(3) that by (simp add: bs_rep_def)
    then have "off \<le> ucast (Alloced_length t)" using assms(4) by (simp add: word_le_nat_alt)
    then have "unat (ucast (Alloced_length t) - off :: ulonglong) = unat (Alloced_length t) - unat off" by (simp add: unat_sub)
    moreover have "unat (Alloced_length t) - unat off < 2 ^ LENGTH(32)" using unsigned_less [of "Alloced_length t", where 'a = nat] by simp
    ultimately show "unat a = unat (Alloced_length t) - unat off" using that by (simp add: unat_ucast_small a_def)
  qed
  have g: "get_bytes m (ptr_add (Ptr t) (unat off)) (unat len) = Some (take (unat len) (drop (unat off) ys))"
  proof (cases "Ptr t")
    case None
    then have "ys = []" using bs_rep_get [OF assms(3)] by (auto simp: get_bytes_def split: if_splits)
    then show ?thesis using assms(4) by simp
  next
    case (Some q)
    have sub: "take (unat len) (drop (unat off) (take (length ys) (drop b xs))) = take (unat len) (drop (b + unat off) xs)" for b xs
      using assms(4) by (simp add: drop_take add.commute min_def)
    obtain b k where q: "q = (b, k)" by (cases q)
    show ?thesis
    proof (cases "unat len = 0")
      case nz: False
      then obtain bs where "blocks m b = Some bs" "k + length ys \<le> length bs" "ys = take (length ys) (drop k bs)"
        using bs_rep_get [OF assms(3)] Some q assms(4) by (auto simp: get_bytes_Some split: if_splits)
      then show ?thesis using sub [of k bs] nz Some q assms(4) by (auto simp: get_bytes_Some ptr_add_def)
    qed simp
  qed
  have lz: "length (take (unat len) (drop (unat off) ys)) = unat len" using assms(4) by simp
  have room: "unat len \<le> unat a \<and> (\<exists>b k bs. ptr_add (Ptr t) (unat off) = Some (b, k) \<and> blocks m b = Some bs \<and> \<not> is_const m b \<and>
      k + unat a \<le> length bs)" if a: "a \<noteq> 0"
  proof -
    have t: "Alloced_length t \<noteq> 0" using a by (auto simp: a_def split: if_splits)
    obtain b k bs where "Ptr t = Some (b, k)" "blocks m b = Some bs" "\<not> is_const m b" "k + unat (Alloced_length t) \<le> length bs"
      using assms(3) t unfolding bs_rep_def by blast
    then show ?thesis using ua [OF t] assms(4) by (auto simp: ptr_add_def)
  qed
  have "bs_rep m ?s (take (unat len) (drop (unat off) ys))"
    unfolding bs_rep_def lz using assms(2) g ul room by simp
  then show ?thesis using op assms(2) by auto
qed

section \<open>Properties\<close>

lemma chop_rep:
  assumes "bs_rep m s (xs @ [c])" "Alloced_length s \<noteq> 0"
  shows "\<exists>m' s'. chop m s = Some (m', s') \<and> bs_rep m' s' xs \<and> get_bytes m' (Ptr s') (length xs + 1) = Some (xs @ [0]) \<and>
     only_block (block_of (Ptr s)) m m'"
proof -
  let ?s = "s\<lparr>str_length := str_length s - 1\<rparr>"
  have len: "unat (str_length s) = length xs + 1" "length xs < unat (Alloced_length s)"
    using assms by (auto simp: bs_rep_def)
  then have len': "unat (str_length s - 1) = length xs" by (subst unat_minus_one) auto
  obtain zs where z: "buf m s zs" "take (length (xs @ [c])) zs = xs @ [c]" "length (xs @ [c]) \<le> length zs"
    using bs_rep_buf [OF assms] by blast
  let ?zs = "take (length xs) zs @ [0] @ drop (length xs + 1) zs"
  from buf_put [OF z(1), of "length xs" "[0]"] z(3) obtain m' where
    p: "put_bytes m (ptr_add (Ptr s) (length xs)) [0] = Some m'" "buf m' s ?zs" "only_block (block_of (Ptr s)) m m'" by auto
  have t: "take (length xs) zs = xs"
    using z(2) by (metis append_eq_conv_conj append_take_drop_id take_append append_assoc)
  have own: "alloced ?s \<longrightarrow> (\<exists>b ys. Ptr ?s = Some (b, 0) \<and> blocks m' b = Some ys \<and> \<not> is_const m' b)"
    using owned_only_block [OF p(3), of "Ptr s"] bs_rep_alloced [OF assms(1)] by auto
  have "buf m' ?s ?zs" using p(2) by (simp only: buf_length)
  then have "bs_rep m' ?s xs"
    by (rule buf_bs_rep) (use len' t z(3) own in auto)
  moreover have "get_bytes m' (Ptr s) (length xs + 1) = Some (xs @ [0])"
    using buf_get [OF p(2), of 0 "length xs + 1"] t z(3) by (simp add: take_Suc_conv_app_nth)
  moreover have "chop m s = Some (m', ?s)"
    using p(1) len len' by (auto simp: chop_def Let_def)
  ultimately show ?thesis using p(3) by auto
qed

text \<open>C21: Appending \<open>n\<close> bytes from memory outside the block of the string, to a total length below $2^{32}$,
  whatever the allocator does within its contract. Nothing happens for no bytes. Otherwise either true
  is returned, no memory has changed and of the string only the amount of extra memory that the next
  attempt will ask for has grown, which happens only when the buffer has no room for the result and its
  terminating zero; or the string holds the old bytes followed by the new ones, with a terminating
  zero behind them. Every string that lives in another block still holds its bytes.\<close>

theorem append_correct:
  assumes "realloc_law realloc_raw" and "bs_rep m s xs" and "get_bytes m src (unat n) = Some ys"
    and "block_of src \<noteq> block_of (Ptr s)" and "length xs + unat n < 2 ^ 32"
  shows "\<exists>m' s' fail. bs_append realloc_raw m s src n = Some (m', s', fail) \<and>
     (n = 0 \<longrightarrow> m' = m \<and> s' = s \<and> \<not> fail) \<and>
     (fail \<longrightarrow> m' = m \<and>
        s' = (if extra_alloc s < 4096 then s\<lparr>extra_alloc := extra_alloc s * 2 + 128\<rparr> else s) \<and>
        unat (Alloced_length s) \<le> length xs + unat n) \<and>
     (\<not> fail \<longrightarrow> bs_rep m' s' (xs @ ys) \<and>
        (n \<noteq> 0 \<longrightarrow> get_bytes m' (Ptr s') (length xs + length ys + 1) = Some (xs @ ys @ [0]))) \<and>
     (\<forall>t zs. bs_rep m t zs \<and> (Ptr t = None \<or> block_of (Ptr t) \<noteq> block_of (Ptr s)) \<longrightarrow> bs_rep m' t zs)"
proof -
  from bs_append_rep [OF assms] obtain m' s' fail where
    r: "bs_append realloc_raw m s src n = Some (m', s', fail)" "appended m s xs ys (m', s', fail)"
    "\<not> fail \<and> n \<noteq> 0 \<longrightarrow> get_bytes m' (Ptr s') (length xs + length ys + 1) = Some (xs @ ys @ [0])" by blast
  have o: "\<forall>t zs. bs_rep m t zs \<and> (Ptr t = None \<or> block_of (Ptr t) \<noteq> block_of (Ptr s)) \<longrightarrow> bs_rep m' t zs"
    using r(2) others_kept_rep unfolding appended_def by blast
  have z: "n = 0 \<longrightarrow> m' = m \<and> s' = s \<and> \<not> fail" using r(1) by (auto simp: bs_append_def)
  have f: "fail \<longrightarrow> m' = m \<and>
      s' = (if extra_alloc s < 4096 then s\<lparr>extra_alloc := extra_alloc s * 2 + 128\<rparr> else s) \<and>
      unat (Alloced_length s) \<le> length xs + unat n"
    using bs_append_failed [OF assms(1,2,5), of src m' s'] r(1) by (cases fail) simp_all
  show ?thesis using r o z f by (intro exI [of _ m'] exI [of _ s'] exI [of _ fail]) (auto simp: appended_def)
qed

text \<open>\<open>append_hex\<close> appends two digits for every byte, high digit first, so that distinct inputs of the
  same length give distinct strings.\<close>

theorem append_hex_correct:
  assumes "realloc_law realloc_raw" and "bs_rep m s xs" and "get_bytes m src (unat n) = Some ys"
    and "block_of src \<noteq> block_of (Ptr s)" and "length xs + 2 * unat n < 2 ^ 32"
  shows "(\<exists>m' s' fail. append_hex realloc_raw dig m s src n = Some (m', s', fail) \<and>
       (\<not> fail \<longrightarrow> bs_rep m' s' (xs @ concat (map (\<lambda>c. [dig (unat c div 16), dig (unat c mod 16)]) ys)))) \<and>
     (inj_on dig {..<16} \<and> length ys' = length ys \<and>
        concat (map (\<lambda>c. [dig (unat c div 16), dig (unat c mod 16)]) ys) =
        concat (map (\<lambda>c. [dig (unat c div 16), dig (unat c mod 16)]) ys') \<longrightarrow> ys = ys')"
proof (intro conjI impI)
  from append_hex_loop_rep [OF assms(1-5), of dig] show "\<exists>m' s' fail. append_hex realloc_raw dig m s src n = Some (m', s', fail) \<and>
       (\<not> fail \<longrightarrow> bs_rep m' s' (xs @ concat (map (\<lambda>c. [dig (unat c div 16), dig (unat c mod 16)]) ys)))"
    unfolding append_hex_def hex_byte_def by (metis append_Nil2)
next
  assume a: "inj_on dig {..<16} \<and> length ys' = length ys \<and>
        concat (map (\<lambda>c. [dig (unat c div 16), dig (unat c mod 16)]) ys) =
        concat (map (\<lambda>c. [dig (unat c div 16), dig (unat c mod 16)]) ys')"
  have one: "c = d" if "dig (unat c div 16) = dig (unat d div 16)" "dig (unat c mod 16) = dig (unat d mod 16)" for c d :: uchar
  proof -
    have b: "unat e div 16 < 16" for e :: uchar
    proof -
      have "unat e < 2 ^ LENGTH(8)" by (rule unsigned_less)
      then show ?thesis by simp
    qed
    have "unat c div 16 = unat d div 16" "unat c mod 16 = unat d mod 16"
      using a that b by (auto simp: inj_on_eq_iff)
    then have "unat c = unat d" by (metis div_mult_mod_eq)
    then show ?thesis by (rule unsigned_word_eqI [where 'a = nat])
  qed
  from a have "length ys' = length ys" "concat (map (\<lambda>c. [dig (unat c div 16), dig (unat c mod 16)]) ys) =
        concat (map (\<lambda>c. [dig (unat c div 16), dig (unat c mod 16)]) ys')" by auto
  then show "ys = ys'"
    by (induction ys arbitrary: ys') (auto simp: length_Suc_conv dest: one)
qed

text \<open>\<open>chop\<close> removes the last byte of a string with a writable buffer and terminates the rest by a
  zero. On a non-empty string over constant memory, whose buffer size is 0 to mark it as not writable,
  it writes nevertheless: undefined behaviour.\<close>

theorem chop_correct:
  "(bs_rep m s (xs @ [c]) \<and> Alloced_length s \<noteq> 0 \<longrightarrow>
     (\<exists>m' s'. chop m s = Some (m', s') \<and> bs_rep m' s' xs \<and> get_bytes m' (Ptr s') (length xs + 1) = Some (xs @ [0]))) \<and>
   (is_const m b \<and> len \<noteq> 0 \<and> len < 2 ^ 32 \<longrightarrow> chop m (bs_new_const (Some (b, off)) len) = None)"
proof (intro conjI impI; elim conjE)
  assume "bs_rep m s (xs @ [c])" "Alloced_length s \<noteq> 0"
  from chop_rep [OF this] show "\<exists>m' s'. chop m s = Some (m', s') \<and> bs_rep m' s' xs \<and>
      get_bytes m' (Ptr s') (length xs + 1) = Some (xs @ [0])" by blast
next
  assume c: "is_const m b" and l: "len \<noteq> 0" "len < 2 ^ 32"
  have "unat (ucast len :: uint32) = unat len"
    using l(2) by (intro unat_ucast_small) (simp add: word_less_nat_alt)
  then have "(ucast len :: uint32) \<noteq> 0" using l(1) by (metis unat_eq_zero unsigned_0)
  then show "chop m (bs_new_const (Some (b, off)) len) = None"
    using c by (auto simp: chop_def bs_new_const_def Let_def put_bytes_def ptr_add_def bind_eq_None_conv)
qed

lemma put_bytes_freed: "put_bytes m p ys = Some m' \<Longrightarrow> blocks m b = None \<Longrightarrow> blocks m' b = None"
  by (auto simp: put_bytes_def bind_eq_Some_conv split: if_splits)

text \<open>Two appending operations are not safe for all arguments. \<open>append_with_step\<close> adds the lengths in 32
  bits: when the sum wraps around it does not grow the buffer and copies beyond its end. And a
  string appended to itself is read from the freed buffer when growing moves it; while the buffer has
  room the same call doubles the string.\<close>

theorem append_hazards:
  assumes "bs_rep m s xs" and "Ptr s = Some (b, 0)" and "blocks m b = Some bs" and "length bs = unat (Alloced_length s)"
    and "alloced s" and "xs \<noteq> []"
  shows "(2 ^ 32 \<le> unat arg + length xs \<and> unat arg + length xs - 2 ^ 32 \<le> length bs \<longrightarrow>
       append_with_step realloc_raw m s src arg step_alloc = None) \<and>
     (length bs \<le> 2 * length xs \<and> length xs < 2 ^ 30 \<and> extra_alloc s < 4096 \<and> blocks m k = None \<and> k \<noteq> b \<longrightarrow>
       bs_append_str (alloc_at k) m s s = None) \<and>
     (2 * length xs < length bs \<longrightarrow> (\<exists>m' s'. bs_append_str realloc_raw m s s = Some (m', s', False) \<and> bs_rep m' s' (xs @ xs)))"
proof (intro conjI impI; (elim conjE)?)
  have lx: "length xs = unat (str_length s)" using assms(1) by (simp add: bs_rep_def)
  have A: "unat (Alloced_length s) < 2 ^ LENGTH(32)" by (rule unsigned_less)
  show "append_with_step realloc_raw m s src arg step_alloc = None"
    if w: "2 ^ 32 \<le> unat arg + length xs" "unat arg + length xs - 2 ^ 32 \<le> length bs"
  proof -
    have "unat (arg + str_length s) = unat arg + length xs - 2 ^ 32"
      using w(1) lx unsigned_less [of arg, where 'a = nat] unsigned_less [of "str_length s", where 'a = nat]
      by (simp add: unat_word_ariths mod_if)
    then have ng: "\<not> Alloced_length s < arg + str_length s" using w(2) assms(4) by (simp add: word_less_nat_alt)
    have "arg \<noteq> 0" using w(1) lx unsigned_less [of "str_length s", where 'a = nat] by auto
    moreover have "memcpy m (ptr_add (Ptr s) (unat (str_length s))) src (unat arg) = None"
    proof (cases "get_bytes m src (unat arg)")
      case None
      then show ?thesis by (simp add: memcpy_def)
    next
      case (Some ys)
      have "length ys = unat arg" using Some by (rule get_bytes_length)
      then have "put_bytes m (ptr_add (Ptr s) (unat (str_length s))) ys = None"
        using w(1) lx A assms(2-4) \<open>arg \<noteq> 0\<close> by (auto simp: put_bytes_def ptr_add_def unat_eq_zero)
      then show ?thesis using Some by (simp add: memcpy_def)
    qed
    moreover have "(ucast arg :: ulonglong) \<noteq> 0" using \<open>arg \<noteq> 0\<close> by (metis unat_ucast_32_64 unat_eq_zero unsigned_0)
    ultimately show ?thesis using ng by (simp add: append_with_step_def q_append_def Let_def)
  qed
  have n: "unat (ucast (str_length s) + ucast (bs_length s) :: ulonglong) = 2 * length xs"
    using lx by (subst unat_plus_small) (use unsigned_less [of "str_length s", where 'a = nat] in \<open>auto simp: bs_length_def\<close>)
  have n0: "(ucast (bs_length s) :: ulonglong) \<noteq> 0"
    using assms(6) lx by (metis bs_length_def length_0_conv unat_ucast_32_64 unsigned_0)
  show "bs_append_str (alloc_at k) m s s = None"
    if full: "length bs \<le> 2 * length xs" "length xs < 2 ^ 30" "extra_alloc s < 4096" "blocks m k = None" "k \<noteq> b"
  proof -
    let ?n = "ucast (str_length s) + ucast (bs_length s) :: ulonglong"
    let ?s = "s\<lparr>extra_alloc := extra_alloc s * 2 + 128\<rparr>"
    have "unat (extra_alloc s) < 4096" using full(3) by (simp add: word_less_nat_alt)
    then have e: "unat (extra_alloc s * 2 + 128) = unat (extra_alloc s) * 2 + 128" "unat (extra_alloc s) * 2 + 128 < 8320"
      by (simp_all add: unat_word_ariths)
    then have u: "unat (?n + ucast (extra_alloc s * 2 + 128)) = 2 * length xs + (unat (extra_alloc s) * 2 + 128)"
      using n full(2) by (subst unat_plus_small) simp_all
    have "get_bytes m (Ptr s) (unat (str_length s)) = Some xs" using bs_rep_get [OF assms(1)] lx by simp
    then obtain m1 s1 where raw: "alloc_at k m ?s (?n + ucast (extra_alloc s * 2 + 128)) = (m1, s1, False)" "blocks m1 b = None"
      using u full(1,2,4,5) e(2) assms(2,4,5) by (auto simp: alloc_at_def block_of_def)
    have r: "realloc_with_extra_if_needed (alloc_at k) m s ?n = put_zero m1 s1 ?n"
      using full(1,3) n assms(4) raw(1)
      by (simp add: realloc_with_extra_if_needed_def realloc_with_extra_def Let_def word_less_nat_alt)
    have "q_append m2 s1 (Ptr s) (ucast (bs_length s)) = None" if "put_zero m1 s1 ?n = Some (m2, s2, f)" for m2 s2 f
    proof -
      have "blocks m2 b = None" using that raw(2) put_bytes_freed by (auto simp: put_zero_def bind_eq_Some_conv)
      moreover have "unat (str_length s) \<noteq> 0" using assms(6) unfolding lx [symmetric] by simp
      ultimately have "get_bytes m2 (Ptr s) (unat (bs_length s)) = None"
        using assms(2) by (simp add: get_bytes_def bs_length_def)
      then show ?thesis using n0 by (simp add: q_append_def memcpy_def)
    qed
    then show ?thesis
      using n0 unfolding bs_append_str_def bs_append_def r
      by (auto simp: put_zero_def bind_eq_None_conv)
  qed
  show "\<exists>m' s'. bs_append_str realloc_raw m s s = Some (m', s', False) \<and> bs_rep m' s' (xs @ xs)"
    if room: "2 * length xs < length bs"
  proof -
    let ?n = "ucast (str_length s) + ucast (bs_length s) :: ulonglong"
    have "?n < ucast (Alloced_length s)" using room n assms(4) by (simp add: word_less_nat_alt)
    moreover from put_zero_rep [OF assms(1), of ?n] n room assms(4) obtain m1 where
      z: "put_zero m s ?n = Some (m1, s, False)" "bs_rep m1 s xs" by auto
    ultimately have g: "realloc_with_extra_if_needed realloc_raw m s ?n = Some (m1, s, False)"
      by (simp add: realloc_with_extra_if_needed_def)
    have "length xs + length xs \<le> unat (Alloced_length s)" using room assms(4) by simp
    from q_store_rep [OF z(2) this] obtain m2 where
      q: "q_store m1 s xs = Some (m2, s\<lparr>str_length := str_length s + of_nat (length xs)\<rparr>)"
      "bs_rep m2 (s\<lparr>str_length := str_length s + of_nat (length xs)\<rparr>) (xs @ xs)" by blast
    have "memcpy m1 (ptr_add (Ptr s) (unat (str_length s))) (Ptr s) (unat (str_length s)) =
        put_bytes m1 (ptr_add (Ptr s) (unat (str_length s))) xs"
      using bs_rep_get [OF z(2)] lx assms(2) by (simp add: memcpy_def ptr_add_def)
    then have "q_append m1 s (Ptr s) (ucast (bs_length s)) = q_store m1 s xs"
      using n0 lx by (simp add: q_append_def q_store_def bs_length_def)
    then show ?thesis using g q n0 by (auto simp: bs_append_str_def bs_append_def)
  qed
qed

text \<open>Destroying a string that holds bytes frees its own buffer and nothing else.\<close>

lemma bs_destroy_rep:
  assumes "bs_rep m s xs"
  shows "bs_destroy m s = Some (if alloced s then m\<lparr>blocks := (blocks m)(fst (the (Ptr s)) := None)\<rparr> else m)"
  using bs_rep_alloced [OF assms] by (auto simp: bs_destroy_def bs_free_def free_buffer_def my_free_def)

lemma set_alloced_rep:
  assumes "bs_rep m t xs"
  shows "set_alloced m t p l a = Some (if alloced t then m\<lparr>blocks := (blocks m)(fst (the (Ptr t)) := None)\<rparr> else m,
     t\<lparr>alloced := False, Ptr := p, str_length := ucast l, Alloced_length := ucast a\<rparr>)"
  using bs_rep_alloced [OF assms] by (auto simp: set_alloced_def free_buffer_def my_free_def)

text \<open>The owned block of a string, if any.\<close>

definition owned :: "bstr \<Rightarrow> nat set" where
  "owned s = (if alloced s then {fst (the (Ptr s))} else {})"

definition freed :: "nat set \<Rightarrow> mem \<Rightarrow> mem" where
  "freed B m = m\<lparr>blocks := (\<lambda>b. if b \<in> B then None else blocks m b)\<rparr>"

lemma bs_destroy_freed: "bs_rep m s xs \<Longrightarrow> bs_destroy m s = Some (freed (owned s) m)"
  by (auto simp: bs_destroy_rep owned_def freed_def intro!: arg_cong [of _ _ "\<lambda>f. m\<lparr>blocks := f\<rparr>"])

lemma set_alloced_freed:
  "bs_rep m t xs \<Longrightarrow> set_alloced m t p l a = Some (freed (owned t) m,
     t\<lparr>alloced := False, Ptr := p, str_length := ucast l, Alloced_length := ucast a\<rparr>)"
  by (auto simp: set_alloced_rep owned_def freed_def intro!: arg_cong [of _ _ "\<lambda>f. m\<lparr>blocks := f\<rparr>"])

lemma freed_rep:
  assumes "bs_rep m s ys" and "\<And>b. block_of (Ptr s) = Some b \<Longrightarrow> b \<notin> B"
  shows "bs_rep (freed B m) s ys"
  using assms(1) by (rule bs_rep_frame) (use assms(2) in \<open>auto simp: freed_def\<close>)

lemma freed_freed [simp]: "freed A (freed B m) = freed (A \<union> B) m"
  by (auto simp: freed_def intro!: arg_cong [of _ _ "\<lambda>f. m\<lparr>blocks := f\<rparr>"])

lemma freed_empty [simp]: "freed {} m = m"
  by (simp add: freed_def)

lemma bs_rep_view:
  "Ptr t = Ptr s \<Longrightarrow> str_length t = str_length s \<Longrightarrow> Alloced_length t = Alloced_length s \<Longrightarrow> (alloced t \<longrightarrow> alloced s) \<Longrightarrow>
     bs_rep m s ys \<Longrightarrow> bs_rep m t ys"
  unfolding bs_rep_def by metis

lemma owned_block: "bs_rep m s xs \<Longrightarrow> b \<in> owned s \<Longrightarrow> block_of (Ptr s) = Some b"
  using bs_rep_alloced [of m s xs] by (auto simp: owned_def block_of_def split: if_splits)

text \<open>C22: Handing over buffers never frees one twice and never loses one. Of two strings in different
  blocks, \<open>move\<close>, \<open>swap\<close> and assignment leave the target with the bytes of the source; when both
  objects are destroyed afterwards, in either order, exactly the blocks that the two owned at the
  start have been freed.\<close>

theorem ownership_transfer:
  assumes t: "bs_rep m t xs" and s: "bs_rep m s ys" and d: "block_of (Ptr t) \<noteq> block_of (Ptr s)"
  shows "(\<exists>m' t' s'. bs_move m t s = Some (m', t', s') \<and> bs_rep m' t' ys \<and> bs_rep m' s' ys \<and>
       Option.bind (bs_destroy m' s') (\<lambda>m''. bs_destroy m'' t') = Some (freed (owned t \<union> owned s) m) \<and>
       Option.bind (bs_destroy m' t') (\<lambda>m''. bs_destroy m'' s') = Some (freed (owned t \<union> owned s) m)) \<and>
     (\<exists>t' s'. bs_swap t s = (t', s') \<and> bs_rep m t' ys \<and> bs_rep m s' xs \<and>
       Option.bind (bs_destroy m s') (\<lambda>m''. bs_destroy m'' t') = Some (freed (owned t \<union> owned s) m)) \<and>
     (\<exists>m' t'. bs_assign m t s = Some (m', t') \<and> bs_rep m' t' ys \<and> bs_rep m' s ys \<and> \<not> alloced t' \<and>
       Option.bind (bs_destroy m' t') (\<lambda>m''. bs_destroy m'' s) = Some (freed (owned t \<union> owned s) m))"
proof (intro conjI)
  have dt: "block_of (Ptr s) = Some b \<Longrightarrow> b \<notin> owned t" for b
    using d owned_block [OF t] by metis
  let ?m = "freed (owned t) m"
  have s1: "bs_rep ?m s ys" using freed_rep [OF s dt] .
  show "\<exists>m' t' s'. bs_move m t s = Some (m', t', s') \<and> bs_rep m' t' ys \<and> bs_rep m' s' ys \<and>
       Option.bind (bs_destroy m' s') (\<lambda>m''. bs_destroy m'' t') = Some (freed (owned t \<union> owned s) m) \<and>
       Option.bind (bs_destroy m' t') (\<lambda>m''. bs_destroy m'' s') = Some (freed (owned t \<union> owned s) m)"
  proof -
    let ?t = "t\<lparr>alloced := alloced s, Ptr := Ptr s, str_length := str_length s, Alloced_length := Alloced_length s,
        extra_alloc := extra_alloc s, thread_specific := thread_specific s\<rparr>"
    let ?s = "s\<lparr>alloced := False\<rparr>"
    have mv: "bs_move m t s = Some (?m, ?t, ?s)" by (simp add: bs_move_def set_alloced_freed [OF t])
    have r: "bs_rep ?m ?t ys" "bs_rep ?m ?s ys" by (rule bs_rep_view [OF _ _ _ _ s1]; simp)+
    have o: "owned ?t = owned s" "owned ?s = {}" by (simp_all add: owned_def)
    have ns: "bs_destroy n ?s = Some n" for n by (simp add: bs_destroy_def bs_free_def free_buffer_def)
    have "bs_destroy ?m ?t = Some (freed (owned t \<union> owned s) m)"
      using bs_destroy_freed [OF r(1)] o by (simp add: Un_commute)
    then show ?thesis using mv r ns by (intro exI [of _ ?m] exI [of _ ?t] exI [of _ ?s]) simp
  qed
  show "\<exists>t' s'. bs_swap t s = (t', s') \<and> bs_rep m t' ys \<and> bs_rep m s' xs \<and>
       Option.bind (bs_destroy m s') (\<lambda>m''. bs_destroy m'' t') = Some (freed (owned t \<union> owned s) m)"
  proof -
    obtain t' s' where w: "bs_swap t s = (t', s')" by fastforce
    have v: "Ptr t' = Ptr s" "str_length t' = str_length s" "Alloced_length t' = Alloced_length s" "alloced t' = alloced s"
      "Ptr s' = Ptr t" "str_length s' = str_length t" "Alloced_length s' = Alloced_length t" "alloced s' = alloced t"
      using w by (auto simp: bs_swap_def)
    have r: "bs_rep m t' ys" "bs_rep m s' xs" using bs_rep_view [OF _ _ _ _ s] bs_rep_view [OF _ _ _ _ t] v by simp_all
    have o: "owned t' = owned s" "owned s' = owned t" using v by (simp_all add: owned_def)
    have "bs_rep ?m t' ys" using freed_rep [OF r(1)] dt v(1) by simp
    then have "bs_destroy ?m t' = Some (freed (owned t \<union> owned s) m)"
      using bs_destroy_freed o by (simp add: Un_commute)
    then show ?thesis using w r bs_destroy_freed [OF r(2)] o by simp
  qed
  show "\<exists>m' t'. bs_assign m t s = Some (m', t') \<and> bs_rep m' t' ys \<and> bs_rep m' s ys \<and> \<not> alloced t' \<and>
       Option.bind (bs_destroy m' t') (\<lambda>m''. bs_destroy m'' s) = Some (freed (owned t \<union> owned s) m)"
  proof -
    let ?t = "t\<lparr>alloced := False, Ptr := Ptr s, str_length := str_length s, Alloced_length := Alloced_length s\<rparr>"
    have a: "bs_assign m t s = Some (?m, ?t)" by (simp add: bs_assign_def set_alloced_freed [OF t])
    have r: "bs_rep ?m ?t ys" by (rule bs_rep_view [OF _ _ _ _ s1]) simp_all
    have "bs_destroy ?m ?t = Some ?m" by (simp add: bs_destroy_def bs_free_def free_buffer_def)
    moreover have "bs_destroy ?m s = Some (freed (owned t \<union> owned s) m)"
      using bs_destroy_freed [OF s1] by (simp add: Un_commute)
    ultimately show ?thesis using a r s1 by (intro exI [of _ ?m] exI [of _ ?t]) simp
  qed
qed

text \<open>\<open>c_ptr\<close> returns a zero-terminated copy of the string's bytes in place: for a string that is not
  null and, unless it owns its buffer, is followed by an accessible byte, the result is the pointer of
  the string, which still holds its bytes; a zero follows them unless the allocator failed.\<close>

theorem c_ptr_correct:
  assumes "realloc_law realloc_raw" and "bs_rep m s xs" and "Ptr s \<noteq> None"
    and "alloced s \<or> get_bytes m (ptr_add (Ptr s) (length xs)) 1 \<noteq> None"
  shows "\<exists>m' s'. c_ptr realloc_raw lit m s = Some (m', s', Ptr s') \<and> bs_rep m' s' xs \<and>
     (get_bytes m' (Ptr s') (length xs + 1) = Some (xs @ [0]) \<or>
      m' = m \<and> snd (snd (realloc_raw m s (ucast (str_length s) + 1))))"
proof -
  have lx: "unat (str_length s) = length xs" using assms(2) by (simp add: bs_rep_def)
  consider (z) "\<not> alloced s" "get_bytes m (ptr_add (Ptr s) (length xs)) 1 = Some [0]"
    | (room) "alloced s \<or> (\<exists>c. get_bytes m (ptr_add (Ptr s) (length xs)) 1 = Some [c] \<and> c \<noteq> 0)" "str_length s < Alloced_length s"
    | (grow) "alloced s \<or> (\<exists>c. get_bytes m (ptr_add (Ptr s) (length xs)) 1 = Some [c] \<and> c \<noteq> 0)" "\<not> str_length s < Alloced_length s"
  proof -
    have "\<exists>c. ys = [c]" if "get_bytes m (ptr_add (Ptr s) (length xs)) 1 = Some ys" for ys
      using get_bytes_length [OF that] by (simp add: length_Suc_conv)
    then show ?thesis using assms(4) z room grow by (cases "alloced s") fastforce+
  qed
  then show ?thesis
  proof cases
    case z
    have "c_ptr realloc_raw lit m s = Some (m, s, Ptr s)" using z assms(3) lx by (auto simp: c_ptr_def)
    then show ?thesis using get_bytes_append [OF bs_rep_get [OF assms(2)] z(2)] assms(2) by blast
  next
    case room
    have "length xs < unat (Alloced_length s)" using room(2) lx by (simp add: word_less_nat_alt)
    with put_zero_rep [OF assms(2), of "ucast (str_length s)"] lx obtain m' where
      p: "put_bytes m (ptr_add (Ptr s) (length xs)) [0] = Some m'" "bs_rep m' s xs"
      "get_bytes m' (ptr_add (Ptr s) (length xs)) 1 = Some [0]"
      by (auto simp: put_zero_def bind_eq_Some_conv)
    have "c_ptr realloc_raw lit m s = Some (m', s, Ptr s)"
      using room p(1) assms(3) lx by (auto simp: c_ptr_def)
    then show ?thesis using get_bytes_append [OF bs_rep_get [OF p(2)] p(3)] p(2) by blast
  next
    case grow
    have "length xs < 2 ^ 33" using lx unsigned_less [of "str_length s", where 'a = nat] by simp
    with bs_realloc_grown [OF assms(1,2), of "ucast (str_length s)"] lx obtain m1 s1 f where
      r: "bs_realloc realloc_raw m s (ucast (str_length s)) = Some (m1, s1, f)" "grown m s xs (length xs) (m1, s1, f)" by auto
    have c: "c_ptr realloc_raw lit m s = Some (m1, s1, Ptr s1)"
      using grow r(1) assms(3) lx by (auto simp: c_ptr_def)
    show ?thesis
    proof (cases f)
      case True
      then have "snd (snd (realloc_raw m s (ucast (str_length s) + 1)))"
        using r(1) by (auto simp: bs_realloc_def case_raw put_zero_def bind_eq_Some_conv split: prod.splits if_splits)
      then show ?thesis using c r(2) True by (auto simp: grown_def)
    next
      case False
      then have "get_bytes m1 (Ptr s1) (length xs + 1) = Some (xs @ [0])" "bs_rep m1 s1 xs"
        using r(2) get_bytes_append [of m1 "Ptr s1" "length xs" xs 1 "[0]"] bs_rep_get by (auto simp: grown_def)
      then show ?thesis using c by blast
    qed
  qed
qed

lemma stored_read:
  assumes "length xs = i"
  shows "uint4korr (\<lambda>j. (xs @ stored 4 int4store v @ zs) ! j) i = v"
proof -
  have "uint4korr (\<lambda>j. (xs @ stored 4 int4store v @ zs) ! j) i = uint4korr (int4store (\<lambda>_. 0) 0 v) 0"
    unfolding le4.korr_eq_iff using assms by (auto simp: nth_append stored_def)
  also have "\<dots> = v" by (simp add: le4.round_trip take_bit_word_eq_self)
  finally show ?thesis .
qed

lemma overwrite_rep:
  assumes "bs_rep m s (xs @ ys @ zs)" "length ws = length ys" "Alloced_length s \<noteq> 0"
  shows "\<exists>m'. put_bytes m (ptr_add (Ptr s) (length xs)) ws = Some m' \<and> bs_rep m' s (xs @ ws @ zs)"
proof -
  obtain bs where z: "buf m s bs" "take (length (xs @ ys @ zs)) bs = xs @ ys @ zs" "length (xs @ ys @ zs) \<le> length bs"
    using bs_rep_buf [OF assms(1,3)] by blast
  have bs: "bs = xs @ ys @ zs @ drop (length (xs @ ys @ zs)) bs"
    using z(2) by (metis append_assoc append_take_drop_id)
  let ?bs = "take (length xs) bs @ ws @ drop (length xs + length ws) bs"
  have eq: "?bs = xs @ ws @ zs @ drop (length (xs @ ys @ zs)) bs"
    by (subst (1 2) bs) (simp add: assms(2))
  from buf_put [OF z(1), of "length xs" ws] z(3) assms(2) obtain m' where
    p: "put_bytes m (ptr_add (Ptr s) (length xs)) ws = Some m'" "buf m' s ?bs" "only_block (block_of (Ptr s)) m m'" by auto
  have own: "alloced s \<longrightarrow> (\<exists>b ys. Ptr s = Some (b, 0) \<and> blocks m' b = Some ys \<and> \<not> is_const m' b)"
    using owned_only_block [OF p(3), of "Ptr s"] bs_rep_alloced [OF assms(1)] by auto
  have "length (xs @ ws @ zs) = unat (str_length s)" using assms(1,2) by (simp add: bs_rep_def)
  then have "bs_rep m' s (xs @ ws @ zs)"
    using buf_bs_rep [OF p(2) _ _ _ own] unfolding eq by simp
  then show ?thesis using p(1) by blast
qed

text \<open>Numbers stored into a string are read back: \<open>q_append(uint32)\<close> appends four bytes from which
  \<open>uint4korr\<close> gives the number, and \<open>write_at_position\<close> replaces them later, keeping what is
  before and after them.\<close>

theorem uint32_field_round_trip:
  assumes "bs_rep m s xs" and "length xs + 4 + length zs \<le> unat (Alloced_length s)"
  shows "\<exists>m1 s1 m2 s2 m3 bs cs.
     q_append_uint32 m s v = Some (m1, s1) \<and> bs_rep m1 s1 (xs @ bs) \<and> uint4korr (\<lambda>i. (xs @ bs) ! i) (length xs) = v \<and>
     q_store m1 s1 zs = Some (m2, s2) \<and>
     write_at_position m2 s2 (str_length s) w = Some m3 \<and> bs_rep m3 s2 (xs @ cs @ zs) \<and>
     uint4korr (\<lambda>i. (xs @ cs @ zs) ! i) (length xs) = w"
proof -
  have l4: "length (stored 4 int4store u) = 4" for u by (simp add: stored_def)
  let ?s1 = "s\<lparr>str_length := str_length s + of_nat (length (stored 4 int4store v))\<rparr>"
  from q_store_rep [OF assms(1), of "stored 4 int4store v"] assms(2) l4 obtain m1 where
    a: "q_append_uint32 m s v = Some (m1, ?s1)" "bs_rep m1 ?s1 (xs @ stored 4 int4store v)"
    unfolding q_append_uint32_def by auto
  let ?s2 = "?s1\<lparr>str_length := str_length ?s1 + of_nat (length zs)\<rparr>"
  from q_store_rep [OF a(2), of zs] assms(2) l4 obtain m2 where
    b: "q_store m1 ?s1 zs = Some (m2, ?s2)" "bs_rep m2 ?s2 (xs @ stored 4 int4store v @ zs)" by auto
  have A: "Alloced_length ?s2 \<noteq> 0" using assms(2) by auto
  have "unat (str_length s) = length xs" using assms(1) by (simp add: bs_rep_def)
  with overwrite_rep [OF b(2) _ A, of "stored 4 int4store w"] l4 obtain m3 where
    c: "write_at_position m2 ?s2 (str_length s) w = Some m3" "bs_rep m3 ?s2 (xs @ stored 4 int4store w @ zs)"
    unfolding write_at_position_def by auto
  show ?thesis
    using a b(1) c stored_read [of xs "length xs" v "[]"] stored_read [of xs "length xs" w zs]
    by (intro exI [of _ m1] exI [of _ ?s1] exI [of _ m2] exI [of _ ?s2] exI [of _ m3]
        exI [of _ "stored 4 int4store v"] exI [of _ "stored 4 int4store w"]) simp
qed

section \<open>Concrete instances\<close>

text \<open>Block 1 is the literal \<open>"hi"\<close>, blocks 2 and 4 are buffers of eight bytes.\<close>

definition demo_mem :: mem where
  "demo_mem = \<lparr>blocks = [1 \<mapsto> [104, 105, 0], 2 \<mapsto> [65, 66, 0, 0, 0, 0, 0, 0], 4 \<mapsto> [67, 0, 0, 0, 0, 0, 0, 0]],
     is_const = (\<lambda>b. b = 1)\<rparr>"

definition demo_str :: bstr where
  "demo_str = \<lparr>Ptr = Some (2, 0), str_length = 2, Alloced_length = 8, extra_alloc = 0, alloced = True, thread_specific = False\<rparr>"

definition demo_str2 :: bstr where
  "demo_str2 = \<lparr>Ptr = Some (4, 0), str_length = 1, Alloced_length = 8, extra_alloc = 0, alloced = True, thread_specific = False\<rparr>"

lemma demo_rep: "bs_rep demo_mem demo_str [65, 66]" "bs_rep demo_mem demo_str2 [67]"
  by (simp_all add: bs_rep_def demo_mem_def demo_str_def demo_str2_def get_bytes_def)

lemma demo_src: "get_bytes demo_mem (Some (1, 0)) (unat (2 :: ulonglong)) = Some [104, 105]"
  "get_bytes demo_mem (Some (1, 0)) (unat (2 :: uint32)) = Some [104, 105]"
  by (simp_all add: demo_mem_def get_bytes_def)

lemma demo_blk: "block_of (Some (1, 0)) \<noteq> block_of (Ptr demo_str)"
  by (simp add: demo_str_def block_of_def)

theorem append_correct_witness:
  "\<exists>m' s' fail. bs_append (alloc_at 3) demo_mem demo_str (Some (1, 0)) 2 = Some (m', s', fail) \<and>
     (\<not> fail \<longrightarrow> bs_rep m' s' [65, 66, 104, 105]) \<and> bs_rep m' demo_str2 [67]"
  using append_correct [OF alloc_at_law demo_rep(1) demo_src(1) demo_blk, of 3] demo_rep(2)
  by (fastforce simp: demo_str_def demo_str2_def block_of_def)

theorem append_hex_correct_witness:
  "\<exists>m' s' fail. append_hex (alloc_at 3) of_nat demo_mem demo_str (Some (1, 0)) 2 = Some (m', s', fail) \<and>
     (\<not> fail \<longrightarrow> bs_rep m' s' ([65, 66] @ [6, 8, 6, 9]))"
  using append_hex_correct [OF alloc_at_law demo_rep(1) demo_src(2) demo_blk, of 3 of_nat "[]"] by simp

theorem chop_correct_witness:
  "(\<exists>m' s'. chop demo_mem demo_str = Some (m', s') \<and> bs_rep m' s' [65]) \<and>
   chop demo_mem (bs_new_const (Some (1, 0)) 2) = None"
proof -
  have "bs_rep demo_mem demo_str ([65] @ [66])" "Alloced_length demo_str \<noteq> 0"
    using demo_rep(1) by (simp_all add: demo_str_def)
  moreover have "is_const demo_mem 1" by (simp add: demo_mem_def)
  ultimately show ?thesis using chop_correct [of demo_mem demo_str "[65]" 66 1 2 0] by auto
qed

theorem append_hazards_witness:
  "append_with_step (alloc_at 3) demo_mem demo_str (Some (1, 0)) 0xFFFFFFFF 0 = None \<and>
   (\<exists>m' s'. bs_append_str (alloc_at 3) demo_mem demo_str demo_str = Some (m', s', False) \<and> bs_rep m' s' [65, 66, 65, 66])"
proof -
  have "Ptr demo_str = Some (2, 0)" "blocks demo_mem 2 = Some [65, 66, 0, 0, 0, 0, 0, 0]"
    "length [65, 66, 0, 0, 0, 0, 0, 0 :: uchar] = unat (Alloced_length demo_str)" "alloced demo_str" "[65, 66 :: uchar] \<noteq> []"
    by (simp_all add: demo_str_def demo_mem_def)
  note h = append_hazards [OF demo_rep(1) this]
  have "unat (0xFFFFFFFF :: uint32) = 2 ^ 32 - 1" by simp
  then show ?thesis using h [where arg = "0xFFFFFFFF" and realloc_raw = "alloc_at 3" and src = "Some (1, 0)" and step_alloc = 0] by simp
qed

theorem ownership_transfer_witness:
  "\<exists>m' t' s'. bs_move demo_mem demo_str demo_str2 = Some (m', t', s') \<and> bs_rep m' t' [67] \<and>
     Option.bind (bs_destroy m' s') (\<lambda>m''. bs_destroy m'' t') = Some (freed {2, 4} demo_mem)"
proof -
  have "block_of (Ptr demo_str) \<noteq> block_of (Ptr demo_str2)" by (simp add: demo_str_def demo_str2_def block_of_def)
  moreover have "owned demo_str \<union> owned demo_str2 = {2, 4}" by (auto simp: owned_def demo_str_def demo_str2_def)
  ultimately show ?thesis using ownership_transfer [OF demo_rep] by metis
qed

theorem c_ptr_correct_witness:
  "\<exists>m' s'. c_ptr (alloc_at 3) None demo_mem demo_str = Some (m', s', Ptr s') \<and> bs_rep m' s' [65, 66]"
proof -
  have "Ptr demo_str \<noteq> None" "alloced demo_str" by (simp_all add: demo_str_def)
  then show ?thesis using c_ptr_correct [OF alloc_at_law demo_rep(1), of 3 None] by blast
qed

theorem uint32_field_round_trip_witness:
  "\<exists>m1 s1 bs. q_append_uint32 demo_mem demo_str 1000 = Some (m1, s1) \<and> bs_rep m1 s1 ([65, 66] @ bs) \<and>
     uint4korr (\<lambda>i. ([65, 66] @ bs) ! i) (length [65, 66 :: uchar]) = 1000"
proof -
  have "length [65, 66 :: uchar] + 4 + length [0 :: uchar] \<le> unat (Alloced_length demo_str)" by (simp add: demo_str_def)
  from uint32_field_round_trip [OF demo_rep(1) this, of 1000 0] show ?thesis by blast
qed

end
