(* ===== verification/Longlong_Int.thy ===== *)
theory Longlong_Int
  imports My_Bit
begin

text \<open>
  The integer results of SQL expressions, from \<^verbatim>\<open>sql_type_int.h\<close>: \<open>Longlong_null\<close>, a 64-bit integer or
  NULL with the bit operators of SQL, and \<open>Longlong_hybrid\<close>, a 64-bit pattern that is to be read as
  signed or as unsigned, with the comparison across both readings. The limits of the integer types
  in \<^verbatim>\<open>sql_type.h\<close> belong here too. A value is the 64-bit word; \<open>longlong\<close> arithmetic reads it
  with \<open>sint\<close>, \<open>ulonglong\<close> arithmetic with \<open>uint\<close>.
\<close>

section \<open>Nullable integers\<close>

(* @sql_type_int.h 42-53 Longlong_null *)
record longlong_null =
  ln_value :: "64 word"
  ln_is_null :: bool

(* @sql_type_int.h 48-50 Longlong_null::Longlong_null() *)
definition ln_null :: longlong_null where
  "ln_null = \<lparr>ln_value = 0, ln_is_null = True\<rparr>"

(* @sql_type_int.h 51-53 Longlong_null::Longlong_null(longlong) *)
definition ln_of :: "64 word \<Rightarrow> longlong_null" where
  "ln_of nr = \<lparr>ln_value = nr, ln_is_null = False\<rparr>"

(* @sql_type_int.h 54-59 Longlong_null::operator| *)
definition ln_or :: "longlong_null \<Rightarrow> longlong_null \<Rightarrow> longlong_null" where
  "ln_or a b = (if ln_is_null a \<or> ln_is_null b then ln_null else ln_of (ln_value a OR ln_value b))"

(* @sql_type_int.h 60-65 Longlong_null::operator& *)
definition ln_and :: "longlong_null \<Rightarrow> longlong_null \<Rightarrow> longlong_null" where
  "ln_and a b = (if ln_is_null a \<or> ln_is_null b then ln_null else ln_of (ln_value a AND ln_value b))"

(* @sql_type_int.h 66-71 Longlong_null::operator^ *)
definition ln_xor :: "longlong_null \<Rightarrow> longlong_null \<Rightarrow> longlong_null" where
  "ln_xor a b = (if ln_is_null a \<or> ln_is_null b then ln_null else ln_of (ln_value a XOR ln_value b))"

(* @sql_type_int.h 72-77 Longlong_null::operator~ *)
definition ln_not :: "longlong_null \<Rightarrow> longlong_null" where
  "ln_not a = (if ln_is_null a then a else ln_of (NOT (ln_value a)))"

text \<open>The shift count is cast to 32 bits before it is compared with 64.\<close>

(* @sql_type_int.h 78-89 Longlong_null::operator<< *)
definition ln_shl :: "longlong_null \<Rightarrow> longlong_null \<Rightarrow> longlong_null" where
  "ln_shl a llshift =
     (if ln_is_null a \<or> ln_is_null llshift then ln_null
      else let shift = (ucast (ln_value llshift) :: uint);
               res = (if shift < 64 then push_bit (unat shift) (ln_value a) else 0)
           in ln_of res)"

(* @sql_type_int.h 90-101 Longlong_null::operator>> *)
definition ln_shr :: "longlong_null \<Rightarrow> longlong_null \<Rightarrow> longlong_null" where
  "ln_shr a llshift =
     (if ln_is_null a \<or> ln_is_null llshift then ln_null
      else let shift = (ucast (ln_value llshift) :: uint);
               res = (if shift < 64 then drop_bit (unat shift) (ln_value a) else 0)
           in ln_of res)"

(* @sql_type_int.h 102-107 Longlong_null::bit_count *)
definition ln_bit_count :: "longlong_null \<Rightarrow> longlong_null" where
  "ln_bit_count a = (if ln_is_null a then a else ln_of (ucast (my_count_bits (ln_value a))))"

section \<open>Signed or unsigned integers\<close>

(* @sql_type_int.h 112-128 Longlong_hybrid *)
record longlong_hybrid =
  m_value :: "64 word"
  m_unsigned :: bool

(* @sql_type_int.h 116-119 Longlong_hybrid::cmp_signed *)
definition cmp_signed :: "'a longlong_hybrid_scheme \<Rightarrow> 'b longlong_hybrid_scheme \<Rightarrow> int" where
  "cmp_signed a b = (if sint (m_value a) < sint (m_value b) then - 1 else if m_value a = m_value b then 0 else 1)"

(* @sql_type_int.h 120-124 Longlong_hybrid::cmp_unsigned *)
definition cmp_unsigned :: "'a longlong_hybrid_scheme \<Rightarrow> 'b longlong_hybrid_scheme \<Rightarrow> int" where
  "cmp_unsigned a b = (if m_value a < m_value b then - 1 else if m_value a = m_value b then 0 else 1)"

(* @sql_type_int.h 129-129 Longlong_hybrid::is_unsigned *)
definition is_unsigned :: "'a longlong_hybrid_scheme \<Rightarrow> bool" where
  "is_unsigned a = m_unsigned a"

(* @sql_type_int.h 130-133 Longlong_hybrid::is_unsigned_outside_of_signed_range *)
definition is_unsigned_outside_of_signed_range :: "'a longlong_hybrid_scheme \<Rightarrow> bool" where
  "is_unsigned_outside_of_signed_range a \<longleftrightarrow> m_unsigned a \<and> m_value a > 0x7FFFFFFFFFFFFFFF"

(* @sql_type_int.h 134-134 Longlong_hybrid::neg *)
definition ll_neg :: "'a longlong_hybrid_scheme \<Rightarrow> bool" where
  "ll_neg a \<longleftrightarrow> sint (m_value a) < 0 \<and> \<not> m_unsigned a"

(* @sql_type_int.h 135-142 Longlong_hybrid::abs *)
definition ll_abs :: "'a longlong_hybrid_scheme \<Rightarrow> ulonglong" where
  "ll_abs a =
     (if m_unsigned a then m_value a
      else if sint (m_value a) = - (2 ^ 63) then 0x7FFFFFFFFFFFFFFF + 1
      else if sint (m_value a) < 0 then - m_value a else m_value a)"

(* @sql_type_int.h 149-154 Longlong_hybrid::to_ulonglong *)
definition to_ulonglong :: "'a longlong_hybrid_scheme \<Rightarrow> ulonglong \<Rightarrow> ulonglong" where
  "to_ulonglong a upper_bound =
     (if ll_neg a then 0 else if m_value a > upper_bound then upper_bound else m_value a)"

(* @sql_type_int.h 155-158 Longlong_hybrid::to_uint *)
definition to_uint :: "'a longlong_hybrid_scheme \<Rightarrow> uint \<Rightarrow> uint" where
  "to_uint a upper_bound = ucast (to_ulonglong a (ucast upper_bound))"

(* @sql_type_int.h 159-173 Longlong_hybrid::cmp *)
definition ll_cmp :: "'a longlong_hybrid_scheme \<Rightarrow> 'b longlong_hybrid_scheme \<Rightarrow> int" where
  "ll_cmp a b =
     (if m_unsigned a = m_unsigned b then (if m_unsigned a then cmp_unsigned a b else cmp_signed a b)
      else if is_unsigned_outside_of_signed_range a then 1
      else if is_unsigned_outside_of_signed_range b then - 1
      else cmp_signed a b)"

(* @sql_type_int.h 174-177 Longlong_hybrid::operator==(Longlong_hybrid) *)
definition ll_eq :: "'a longlong_hybrid_scheme \<Rightarrow> 'b longlong_hybrid_scheme \<Rightarrow> bool" where
  "ll_eq a nr \<longleftrightarrow> ll_cmp a nr = 0"

(* @sql_type_int.h 178-181 Longlong_hybrid::operator==(ulonglong) *)
definition ll_eq_ulonglong :: "'a longlong_hybrid_scheme \<Rightarrow> ulonglong \<Rightarrow> bool" where
  "ll_eq_ulonglong a nr \<longleftrightarrow> ll_cmp a \<lparr>m_value = nr, m_unsigned = True\<rparr> = 0"

(* @sql_type_int.h 182-185 Longlong_hybrid::operator==(uint) *)
definition ll_eq_uint :: "'a longlong_hybrid_scheme \<Rightarrow> uint \<Rightarrow> bool" where
  "ll_eq_uint a nr \<longleftrightarrow> ll_cmp a \<lparr>m_value = ucast nr, m_unsigned = True\<rparr> = 0"

(* @sql_type_int.h 186-189 Longlong_hybrid::operator==(longlong) *)
definition ll_eq_longlong :: "'a longlong_hybrid_scheme \<Rightarrow> 64 word \<Rightarrow> bool" where
  "ll_eq_longlong a nr \<longleftrightarrow> ll_cmp a \<lparr>m_value = nr, m_unsigned = False\<rparr> = 0"

(* @sql_type_int.h 190-193 Longlong_hybrid::operator==(int) *)
definition ll_eq_int :: "'a longlong_hybrid_scheme \<Rightarrow> 32 word \<Rightarrow> bool" where
  "ll_eq_int a nr \<longleftrightarrow> ll_cmp a \<lparr>m_value = scast nr, m_unsigned = False\<rparr> = 0"

(* @sql_type_int.h 197-205 Longlong_hybrid_null *)
definition hybrid_null :: "longlong_null \<Rightarrow> bool \<Rightarrow> longlong_hybrid \<times> bool" where
  "hybrid_null nr unsigned_flag = (\<lparr>m_value = ln_value nr, m_unsigned = unsigned_flag\<rparr>, ln_is_null nr)"

section \<open>Limits of the integer types\<close>

(* @mysql_com.h 453-453 MAX_TINYINT_WIDTH *)
definition MAX_TINYINT_WIDTH :: uint32 where
  "MAX_TINYINT_WIDTH = 3"

(* @mysql_com.h 454-454 MAX_SMALLINT_WIDTH *)
definition MAX_SMALLINT_WIDTH :: uint32 where
  "MAX_SMALLINT_WIDTH = 5"

(* @mysql_com.h 455-455 MAX_MEDIUMINT_WIDTH *)
definition MAX_MEDIUMINT_WIDTH :: uint32 where
  "MAX_MEDIUMINT_WIDTH = 8"

(* @mysql_com.h 456-456 MAX_INT_WIDTH *)
definition MAX_INT_WIDTH :: uint32 where
  "MAX_INT_WIDTH = 10"

(* @mysql_com.h 457-457 MAX_BIGINT_WIDTH *)
definition MAX_BIGINT_WIDTH :: uint32 where
  "MAX_BIGINT_WIDTH = 20"

(* @sql_type.h 5035-5046 Type_limits_int *)
record type_limits_int =
  m_precision :: uint32
  m_char_length :: uint32

(* @sql_type.h 5053-5059 Type_limits_uint8 *)
definition limits_uint8 :: type_limits_int where
  "limits_uint8 = \<lparr>m_precision = MAX_TINYINT_WIDTH, m_char_length = MAX_TINYINT_WIDTH\<rparr>"

(* @sql_type.h 5062-5068 Type_limits_sint8 *)
definition limits_sint8 :: type_limits_int where
  "limits_sint8 = \<lparr>m_precision = MAX_TINYINT_WIDTH, m_char_length = MAX_TINYINT_WIDTH + 1\<rparr>"

(* @sql_type.h 5075-5081 Type_limits_uint16 *)
definition limits_uint16 :: type_limits_int where
  "limits_uint16 = \<lparr>m_precision = MAX_SMALLINT_WIDTH, m_char_length = MAX_SMALLINT_WIDTH\<rparr>"

(* @sql_type.h 5084-5090 Type_limits_sint16 *)
definition limits_sint16 :: type_limits_int where
  "limits_sint16 = \<lparr>m_precision = MAX_SMALLINT_WIDTH, m_char_length = MAX_SMALLINT_WIDTH + 1\<rparr>"

(* @sql_type.h 5097-5103 Type_limits_uint24 *)
definition limits_uint24 :: type_limits_int where
  "limits_uint24 = \<lparr>m_precision = MAX_MEDIUMINT_WIDTH, m_char_length = MAX_MEDIUMINT_WIDTH\<rparr>"

(* @sql_type.h 5106-5112 Type_limits_sint24 *)
definition limits_sint24 :: type_limits_int where
  "limits_sint24 = \<lparr>m_precision = MAX_MEDIUMINT_WIDTH - 1, m_char_length = MAX_MEDIUMINT_WIDTH\<rparr>"

(* @sql_type.h 5119-5125 Type_limits_uint32 *)
definition limits_uint32 :: type_limits_int where
  "limits_uint32 = \<lparr>m_precision = MAX_INT_WIDTH, m_char_length = MAX_INT_WIDTH\<rparr>"

(* @sql_type.h 5129-5135 Type_limits_sint32 *)
definition limits_sint32 :: type_limits_int where
  "limits_sint32 = \<lparr>m_precision = MAX_INT_WIDTH, m_char_length = MAX_INT_WIDTH + 1\<rparr>"

(* @sql_type.h 5142-5147 Type_limits_uint64 *)
definition limits_uint64 :: type_limits_int where
  "limits_uint64 = \<lparr>m_precision = MAX_BIGINT_WIDTH, m_char_length = MAX_BIGINT_WIDTH\<rparr>"

(* @sql_type.h 5150-5156 Type_limits_sint64 *)
definition limits_sint64 :: type_limits_int where
  "limits_sint64 = \<lparr>m_precision = MAX_BIGINT_WIDTH - 1, m_char_length = MAX_BIGINT_WIDTH\<rparr>"

section \<open>Values\<close>

text \<open>The integer that a hybrid stands for.\<close>

definition ll_val :: "'a longlong_hybrid_scheme \<Rightarrow> int" where
  "ll_val a = (if m_unsigned a then uint (m_value a) else sint (m_value a))"

lemma word64_eq_iff: "(a :: 64 word) = b \<longleftrightarrow> uint a = uint b"
  by (simp add: word_uint_eq_iff)

text \<open>The comparison is the one of the integers.\<close>

lemma cmp_signed_sgn: "cmp_signed a b = sgn (sint (m_value a) - sint (m_value b))"
  by (auto simp: cmp_signed_def sgn_if intro: signed_word_eqI [where 'a = int])

lemma cmp_unsigned_sgn: "cmp_unsigned a b = sgn (uint (m_value a) - uint (m_value b))"
  by (auto simp: cmp_unsigned_def sgn_if word_less_def word64_eq_iff)

lemma outside_iff: "is_unsigned_outside_of_signed_range a \<longleftrightarrow> m_unsigned a \<and> 2 ^ 63 \<le> uint (m_value a)"
  by (auto simp: is_unsigned_outside_of_signed_range_def word_less_def)

lemma ll_cmp_sgn: "ll_cmp a b = sgn (ll_val a - ll_val b)"
  using uint_lt2p [of "m_value a"] uint_lt2p [of "m_value b"]
    uint_ge_0 [of "m_value a"] uint_ge_0 [of "m_value b"]
  by (auto simp: ll_cmp_def cmp_signed_sgn cmp_unsigned_sgn outside_iff ll_val_def sint_uint_64 sgn_if)

text \<open>So hybrids are preordered by value; equal values in the two readings are equivalent.\<close>

instantiation longlong_hybrid_ext :: (type) preorder
begin

definition less_eq_longlong_hybrid_ext :: "'a longlong_hybrid_scheme \<Rightarrow> 'a longlong_hybrid_scheme \<Rightarrow> bool" where
  "less_eq_longlong_hybrid_ext a b \<longleftrightarrow> ll_cmp a b \<le> 0"

definition less_longlong_hybrid_ext :: "'a longlong_hybrid_scheme \<Rightarrow> 'a longlong_hybrid_scheme \<Rightarrow> bool" where
  "less_longlong_hybrid_ext a b \<longleftrightarrow> ll_cmp a b < 0"

instance
  by standard
    (auto simp: less_eq_longlong_hybrid_ext_def less_longlong_hybrid_ext_def ll_cmp_sgn sgn_if split: if_splits)

end

lemma ll_neg_iff: "ll_neg a \<longleftrightarrow> ll_val a < 0"
  by (auto simp: ll_neg_def ll_val_def)

lemma uint_ll_abs: "uint (ll_abs a) = \<bar>ll_val a\<bar>"
proof -
  have neg: "uint (- m_value a) = - sint (m_value a)" if "sint (m_value a) < 0"
    using that uint_lt2p [of "m_value a"] by (simp add: sint_uint_64 uint_word_ariths zmod_zminus1_eq_if split: if_splits)
  show ?thesis
  proof (cases "m_unsigned a \<or> sint (m_value a) \<ge> 0")
    case True
    moreover have "uint (m_value a) = sint (m_value a)" if "0 \<le> sint (m_value a)"
      using that uint_lt2p [of "m_value a"] by (simp add: sint_uint_64 split: if_splits)
    ultimately show ?thesis by (auto simp: ll_abs_def ll_val_def)
  next
    case False
    then show ?thesis using neg by (auto simp: ll_abs_def ll_val_def)
  qed
qed

lemma uint_to_ulonglong: "uint (to_ulonglong a ub) = max 0 (min (ll_val a) (uint ub))"
  using uint_lt2p [of "m_value a"] uint_ge_0 [of ub] uint_ge_0 [of "m_value a"]
  by (auto simp: to_ulonglong_def ll_neg_iff word_less_def) (auto simp: ll_val_def sint_uint_64 split: if_splits)

section \<open>Properties\<close>

text \<open>A 64-bit value with a signedness flag behaves like the integer it stands for: \<open>cmp\<close> is the sign
  of the difference for all four combinations of signedness, \<open>neg\<close> and \<open>abs\<close> are sign and absolute
  value without overflow at the smallest number, and \<open>to_ulonglong\<close> clamps to 0 and the bound.\<close>

theorem longlong_hybrid_is_integer:
  "ll_cmp a b = sgn (ll_val a - ll_val b) \<and> (ll_eq a b \<longleftrightarrow> ll_val a = ll_val b) \<and>
   (ll_neg a \<longleftrightarrow> ll_val a < 0) \<and> uint (ll_abs a) = \<bar>ll_val a\<bar> \<and>
   uint (to_ulonglong a ub) = max 0 (min (ll_val a) (uint ub))"
  by (simp add: ll_cmp_sgn ll_eq_def ll_neg_iff uint_ll_abs uint_to_ulonglong sgn_0_0)

text \<open>The shift operators of SQL: NULL absorbs; counts up to 63 shift and counts from 64 to
  $2^{32} - 1$ give 0; but a count from $2^{32}$ on is taken modulo $2^{32}$, so that shifting by $2^{32}$
  returns the value unchanged although a shift by 64 clears it.\<close>

theorem longlong_shift:
  "(ln_is_null a \<or> ln_is_null n \<longrightarrow> ln_shl a n = ln_null \<and> ln_shr a n = ln_null) \<and>
   (unat (ln_value n) < 2 ^ 32 \<and> \<not> ln_is_null a \<and> \<not> ln_is_null n \<longrightarrow>
      ln_shl a n = ln_of (push_bit (unat (ln_value n)) (ln_value a)) \<and>
      ln_shr a n = ln_of (drop_bit (unat (ln_value n)) (ln_value a))) \<and>
   (\<not> ln_is_null a \<and> n = ln_of (2 ^ 32) \<longrightarrow> ln_shl a n = a \<and> ln_shr a n = a)"
proof (intro conjI impI; (elim conjE)?)
  show "ln_shl a n = ln_null" "ln_shr a n = ln_null" if "ln_is_null a \<or> ln_is_null n"
    using that by (auto simp: ln_shl_def ln_shr_def)
  assume u: "unat (ln_value n) < 2 ^ 32" and nn: "\<not> ln_is_null a" "\<not> ln_is_null n"
  have c: "unat (ucast (ln_value n) :: uint) = unat (ln_value n)"
    using u by (intro unat_ucast_small) simp
  have big: "push_bit k (ln_value a) = 0" "drop_bit k (ln_value a) = 0" if "64 \<le> k" for k
    using that by (auto intro!: bit_word_eqI simp: bit_simps)
  show "ln_shl a n = ln_of (push_bit (unat (ln_value n)) (ln_value a))"
    "ln_shr a n = ln_of (drop_bit (unat (ln_value n)) (ln_value a))"
    using nn c big by (simp_all add: ln_shl_def ln_shr_def Let_def word_less_nat_alt)
next
  assume "\<not> ln_is_null a" "n = ln_of (2 ^ 32)"
  then show "ln_shl a n = a" "ln_shr a n = a" by (simp_all add: ln_shl_def ln_shr_def ln_of_def Let_def)
qed

theorem longlong_shift_witness:
  "ln_shl (ln_of 1) (ln_of (2 ^ 32)) = ln_of 1 \<and> ln_shl (ln_of 1) (ln_of 64) = ln_of 0"
proof -
  have nn: "\<not> ln_is_null (ln_of v)" "ln_value (ln_of v) = v" for v by (simp_all add: ln_of_def)
  have "ln_shl (ln_of 1) (ln_of (2 ^ 32)) = ln_of 1"
    using longlong_shift [of "ln_of 1" "ln_of (2 ^ 32)"] nn(1) by blast
  moreover have "ln_shl (ln_of 1) (ln_of 64) = ln_of (push_bit 64 1)"
    using longlong_shift [of "ln_of 1" "ln_of 64"] by (simp add: nn)
  moreover have "push_bit 64 (1 :: 64 word) = 0" by (simp add: push_bit_eq_mult)
  ultimately show ?thesis by metis
qed

text \<open>The number of decimal digits and of printed characters.\<close>

fun ndigits :: "nat \<Rightarrow> nat" where
  "ndigits n = (if n < 10 then 1 else 1 + ndigits (n div 10))"

declare ndigits.simps [simp del]

definition printed :: "int \<Rightarrow> nat" where
  "printed v = (if v < 0 then 1 else 0) + ndigits (nat \<bar>v\<bar>)"

lemma ndigits_le: "0 < k \<Longrightarrow> ndigits n \<le> k \<longleftrightarrow> n < 10 ^ k"
proof (induction n arbitrary: k rule: ndigits.induct)
  case (1 n)
  obtain j where k: "k = Suc j" using 1(2) by (cases k) auto
  show ?case
  proof (cases "n < 10")
    case True
    then have "n < 10 ^ k" using k by (simp add: order.strict_trans2 [of n 10])
    then show ?thesis using True 1(2) by (simp add: ndigits.simps [of n])
  next
    case False
    then have nd: "ndigits n = Suc (ndigits (n div 10))" by (simp add: ndigits.simps [of n])
    show ?thesis
    proof (cases "j = 0")
      case True
      have "0 < ndigits (n div 10)" by (simp add: ndigits.simps [of "n div 10"])
      then show ?thesis using False k True nd by simp
    next
      case j: False
      then show ?thesis using 1(1) [OF False, of j] k nd by (simp add: div_less_iff_less_mult mult.commute)
    qed
  qed
qed

lemma ndigits_eq: "10 ^ k \<le> n \<Longrightarrow> n < 10 ^ Suc k \<Longrightarrow> ndigits n = Suc k"
proof (cases k)
  case 0
  assume "n < 10 ^ Suc k"
  then show ?thesis using 0 by (simp add: ndigits.simps [of n])
next
  case (Suc j)
  assume "10 ^ k \<le> n" "n < 10 ^ Suc k"
  then have "\<not> ndigits n \<le> k" "ndigits n \<le> Suc k"
    using ndigits_le [of k n] ndigits_le [of "Suc k" n] Suc by auto
  then show ?thesis by simp
qed

text \<open>A type of \<open>bits\<close> bits with the limits \<open>l\<close>: the precision is the number of digits of the largest
  magnitude without sign, and the character length is the length of the longest printed value.\<close>

definition limits_ok :: "nat \<Rightarrow> bool \<Rightarrow> type_limits_int \<Rightarrow> bool" where
  "limits_ok bits sgnd l \<longleftrightarrow>
     (let lo = (if sgnd then - (2 ^ (bits - 1)) else 0 :: int); hi = (if sgnd then 2 ^ (bits - 1) - 1 else 2 ^ bits - 1)
      in ndigits (nat hi) = unat (m_precision l) \<and>
         (\<forall>v. lo \<le> v \<and> v \<le> hi \<longrightarrow> printed v \<le> unat (m_char_length l)) \<and>
         (printed lo = unat (m_char_length l) \<or> printed hi = unat (m_char_length l)))"

lemma printed_le:
  assumes "lo \<le> v" "v \<le> hi" "0 < k" "hi < 10 ^ Suc k" "- lo < 10 ^ k"
  shows "printed v \<le> Suc k"
proof (cases "v < 0")
  case True
  then have "nat \<bar>v\<bar> < 10 ^ k" using assms(1,5) by (simp add: nat_less_iff)
  then show ?thesis using True ndigits_le [OF assms(3)] by (simp add: printed_def)
next
  case False
  then have "nat \<bar>v\<bar> < 10 ^ Suc k" using assms(2,4) by (simp add: nat_less_iff)
  then show ?thesis using False ndigits_le [of "Suc k"] by (simp add: printed_def)
qed

lemma limits_okI:
  fixes lo hi :: int
  assumes "m_precision l = of_nat p" "p < 2 ^ 32" "m_char_length l = of_nat (Suc k)" "Suc k < 2 ^ 32" "0 < k"
    and "10 ^ (p - 1) \<le> hi" "hi < 10 ^ p" "0 < p" "- lo < 10 ^ k" "hi < 10 ^ Suc k"
    and "lo = (if sgnd then - (2 ^ (bits - 1)) else 0)" "hi = (if sgnd then 2 ^ (bits - 1) - 1 else 2 ^ bits - 1)"
    and "(if sgnd then 10 ^ (k - 1) \<le> - lo else 10 ^ k \<le> hi)"
  shows "limits_ok bits sgnd l"
proof -
  have up: "unat (m_precision l) = p" "unat (m_char_length l) = Suc k"
    using assms(1-4) by (simp_all add: unat_of_nat del: of_nat_Suc)
  have "ndigits (nat hi) = Suc (p - 1)"
    using assms(6-8) by (intro ndigits_eq) (simp_all add: le_nat_iff nat_less_iff)
  then have prec: "ndigits (nat hi) = p" using assms(8) by simp
  have len: "\<forall>v. lo \<le> v \<and> v \<le> hi \<longrightarrow> printed v \<le> Suc k" using printed_le [OF _ _ assms(5) assms(10) assms(9)] by blast
  have "printed lo = Suc k \<or> printed hi = Suc k"
  proof (cases sgnd)
    case True
    then have "lo < 0" "10 ^ (k - 1) \<le> - lo" using assms(11,13) by auto
    then have "ndigits (nat \<bar>lo\<bar>) = Suc (k - 1)"
      using assms(9,5) by (intro ndigits_eq) (simp_all add: le_nat_iff nat_less_iff)
    then show ?thesis using \<open>lo < 0\<close> assms(5) by (simp add: printed_def)
  next
    case False
    then have h: "10 ^ k \<le> hi" using assms(13) by simp
    then have "0 \<le> hi" using order.trans [of 0 "10 ^ k" hi] by simp
    then have "ndigits (nat \<bar>hi\<bar>) = Suc k"
      using h assms(10) by (intro ndigits_eq) (simp_all add: le_nat_iff nat_less_iff)
    then show ?thesis using \<open>0 \<le> hi\<close> by (simp add: printed_def)
  qed
  then show ?thesis
    using up prec len assms(11,12) unfolding limits_ok_def Let_def by simp
qed

lemmas limits_defs = MAX_TINYINT_WIDTH_def MAX_SMALLINT_WIDTH_def MAX_MEDIUMINT_WIDTH_def MAX_INT_WIDTH_def MAX_BIGINT_WIDTH_def

text \<open>The limits of the ten integer types are exact: the precision is the number of digits of the
  largest value, every value of the type is printed with at most the stated number of characters,
  and some value needs that many.\<close>

theorem integer_type_limits:
  "limits_ok 8 False limits_uint8 \<and> limits_ok 8 True limits_sint8 \<and>
   limits_ok 16 False limits_uint16 \<and> limits_ok 16 True limits_sint16 \<and>
   limits_ok 24 False limits_uint24 \<and> limits_ok 24 True limits_sint24 \<and>
   limits_ok 32 False limits_uint32 \<and> limits_ok 32 True limits_sint32 \<and>
   limits_ok 64 False limits_uint64 \<and> limits_ok 64 True limits_sint64"
proof (intro conjI)
  show "limits_ok 8 False limits_uint8"
    by (rule limits_okI [of _ 3 2 255 0]) (simp_all add: limits_uint8_def limits_defs)
  show "limits_ok 8 True limits_sint8"
    by (rule limits_okI [of _ 3 3 127 "- 128"]) (simp_all add: limits_sint8_def limits_defs)
  show "limits_ok 16 False limits_uint16"
    by (rule limits_okI [of _ 5 4 65535 0]) (simp_all add: limits_uint16_def limits_defs)
  show "limits_ok 16 True limits_sint16"
    by (rule limits_okI [of _ 5 5 32767 "- 32768"]) (simp_all add: limits_sint16_def limits_defs)
  show "limits_ok 24 False limits_uint24"
    by (rule limits_okI [of _ 8 7 16777215 0]) (simp_all add: limits_uint24_def limits_defs)
  show "limits_ok 24 True limits_sint24"
    by (rule limits_okI [of _ 7 7 8388607 "- 8388608"]) (simp_all add: limits_sint24_def limits_defs)
  show "limits_ok 32 False limits_uint32"
    by (rule limits_okI [of _ 10 9 4294967295 0]) (simp_all add: limits_uint32_def limits_defs)
  show "limits_ok 32 True limits_sint32"
    by (rule limits_okI [of _ 10 10 2147483647 "- 2147483648"]) (simp_all add: limits_sint32_def limits_defs)
  show "limits_ok 64 False limits_uint64"
    by (rule limits_okI [of _ 20 19 18446744073709551615 0]) (simp_all add: limits_uint64_def limits_defs)
  show "limits_ok 64 True limits_sint64"
    by (rule limits_okI [of _ 19 19 9223372036854775807 "- 9223372036854775808"]) (simp_all add: limits_sint64_def limits_defs)
qed

end
