(* ===== verification/My_Time.thy ===== *)
theory My_Time
  imports Longlong_Int "HOL-Library.Signed_Division"
begin

text \<open>
  Time values: the inline functions of \<^verbatim>\<open>my_time.h\<close> on \<open>MYSQL_TIME\<close> (truncation to a number of
  fractional digits, the range check for timestamps) and the fixed-point seconds of \<^verbatim>\<open>sql_type.h\<close>:
  \<open>Sec6\<close> and \<open>Sec9\<close>, used to convert numbers to times, and \<open>Sec6_add\<close>, which adds and subtracts two
  times. The types \<open>long\<close> and \<open>ulong\<close> have 32 bits on the platform of the repository.

  The table \<open>log_10_int\<close> and the functions of \<^verbatim>\<open>my_time.c\<close> and \<^verbatim>\<open>sql_time.cc\<close> are defined elsewhere and are
  arguments. The result \<open>None\<close> is undefined behaviour: an index outside the table or a division by 0.
\<close>

section \<open>Time values\<close>

(* @mysql_time.h 40-44 enum_mysql_timestamp_type *)
datatype timestamp_type = TIMESTAMP_NONE | TIMESTAMP_ERROR | TIMESTAMP_DATE | TIMESTAMP_DATETIME | TIMESTAMP_TIME

(* @mysql_time.h 59-65 MYSQL_TIME *)
record mysql_time =
  year :: uint
  month :: uint
  day :: uint
  hour :: uint
  minute :: uint
  second :: uint
  second_part :: uint32
  neg :: bool
  time_type :: timestamp_type

(* @my_time.h 37-37 TIMESTAMP_MAX_YEAR *)
definition TIMESTAMP_MAX_YEAR :: uint where
  "TIMESTAMP_MAX_YEAR = 2038"

(* @my_time.h 38-43 TIMESTAMP_MIN_YEAR *)
definition TIMESTAMP_MIN_YEAR :: uint where
  "TIMESTAMP_MIN_YEAR = 1900 + 70 - 1"

(* @my_time.h 49-52 IS_TIME_T_VALID_FOR_TIMESTAMP *)
definition is_time_t_valid_for_timestamp :: "int \<Rightarrow> bool" where
  "is_time_t_valid_for_timestamp x \<longleftrightarrow> x \<le> 2 ^ 31 - 1 \<and> x \<ge> 0"

(* @my_time.h 80-80 SECONDS_IN_24H *)
definition SECONDS_IN_24H :: "64 word" where
  "SECONDS_IN_24H = 86400"

(* @my_time.h 85-85 TIME_MAX_INTERVAL_HOUR *)
definition TIME_MAX_INTERVAL_HOUR :: "64 word" where
  "TIME_MAX_INTERVAL_HOUR = 87649415"

(* @my_time.h 93-93 TIME_MAX_HOUR *)
definition TIME_MAX_HOUR :: uint where
  "TIME_MAX_HOUR = 838"

(* @my_time.h 100-101 TIME_MAX_VALUE_SECONDS *)
definition TIME_MAX_VALUE_SECONDS :: "64 word" where
  "TIME_MAX_VALUE_SECONDS = 838 * 3600 + 59 * 60 + 59"

(* @my_time.h 107-112 MYSQL_TIME_STATUS *)
record mysql_time_status =
  st_warnings :: int
  st_precision :: uint
  st_nanoseconds :: uint

(* @my_time.h 114-119 my_time_status_init *)
definition my_time_status_init :: mysql_time_status where
  "my_time_status_init = \<lparr>st_warnings = 0, st_precision = 0, st_nanoseconds = 0\<rparr>"

(* @my_time.h 181-189 validate_timestamp_range *)
definition validate_timestamp_range :: "mysql_time \<Rightarrow> bool" where
  "validate_timestamp_range t =
     (if (year t > TIMESTAMP_MAX_YEAR \<or> year t < TIMESTAMP_MIN_YEAR) \<or>
         (year t = TIMESTAMP_MAX_YEAR \<and> (month t > 1 \<or> day t > 19)) \<or>
         (year t = TIMESTAMP_MIN_YEAR \<and> (month t < 12 \<or> day t < 31))
      then False else True)"

text \<open>The entry of the table for a number of fractional digits; the index is an unsigned difference.\<close>

type_synonym log_table = "nat \<Rightarrow> 64 word"

definition log_entry :: "log_table \<Rightarrow> uint \<Rightarrow> (64 word) option" where
  "log_entry log_10_int digits =
     (let i = unat (6 - digits) in if i < 20 then Some (log_10_int i) else None)"

(* @my_time.h 221-224 sec_part_shift *)
definition sec_part_shift :: "log_table \<Rightarrow> 64 word \<Rightarrow> uint \<Rightarrow> (64 word) option" where
  "sec_part_shift log_10_int x digits =
     Option.bind (log_entry log_10_int digits)
       (\<lambda>d. if d = 0 then None else Some (word_of_int (sint x sdiv sint d)))"

(* @my_time.h 225-228 sec_part_unshift *)
definition sec_part_unshift :: "log_table \<Rightarrow> 64 word \<Rightarrow> uint \<Rightarrow> (64 word) option" where
  "sec_part_unshift log_10_int x digits =
     Option.bind (log_entry log_10_int digits) (\<lambda>d. Some (x * d))"

(* @my_time.h 231-235 my_time_fraction_remainder *)
definition my_time_fraction_remainder :: "log_table \<Rightarrow> 32 word \<Rightarrow> uint \<Rightarrow> (32 word) option" where
  "my_time_fraction_remainder log_10_int nr decimals =
     Option.bind (log_entry log_10_int decimals)
       (\<lambda>d. let l = (ucast d :: 32 word) in if l = 0 then None else Some (word_of_int (sint nr smod sint l)))"

(* @my_time.h 236-239 my_datetime_trunc *)
definition my_datetime_trunc :: "log_table \<Rightarrow> mysql_time \<Rightarrow> uint \<Rightarrow> mysql_time option" where
  "my_datetime_trunc log_10_int t decimals =
     Option.bind (my_time_fraction_remainder log_10_int (second_part t) decimals)
       (\<lambda>r. Some (t\<lparr>second_part := second_part t - r\<rparr>))"

(* @my_time.h 240-246 my_time_trunc *)
definition my_time_trunc :: "log_table \<Rightarrow> mysql_time \<Rightarrow> uint \<Rightarrow> mysql_time option" where
  "my_time_trunc log_10_int t decimals =
     Option.bind (my_time_fraction_remainder log_10_int (second_part t) decimals)
       (\<lambda>r. let t1 = t\<lparr>second_part := second_part t - r\<rparr>
            in Some (if second_part t1 = 0 \<and> neg t1 \<and> hour t1 = 0 \<and> minute t1 = 0 \<and> second t1 = 0
                     then t1\<lparr>neg := False\<rparr> else t1))"

(* @my_time.h 250-253 my_timeval_trunc *)
definition my_timeval_trunc :: "log_table \<Rightarrow> 'a \<times> 32 word \<Rightarrow> uint \<Rightarrow> ('a \<times> 32 word) option" where
  "my_timeval_trunc log_10_int tv decimals =
     Option.bind (my_time_fraction_remainder log_10_int (snd tv) decimals) (\<lambda>r. Some (fst tv, snd tv - r))"

section \<open>Conversion modes\<close>

text \<open>The three mode classes wrap one integer; their operators are those of the integer.\<close>

(* @sql_basic_types.h 37-47 date_conv_mode_t::value_t *)
definition CONV_NONE :: "64 word" where
  "CONV_NONE = 0"

(* @sql_basic_types.h 44-44 date_conv_mode_t::FUZZY_DATES *)
definition FUZZY_DATES :: "64 word" where
  "FUZZY_DATES = 1"

(* @sql_basic_types.h 45-45 date_conv_mode_t::TIME_ONLY *)
definition TIME_ONLY :: "64 word" where
  "TIME_ONLY = 4"

(* @sql_basic_types.h 46-46 date_conv_mode_t::INTERVAL_hhmmssff *)
definition INTERVAL_hhmmssff :: "64 word" where
  "INTERVAL_hhmmssff = 8"

(* @sql_basic_types.h 47-48 date_conv_mode_t::INTERVAL_DAY *)
definition INTERVAL_DAY :: "64 word" where
  "INTERVAL_DAY = 16"

(* @sql_basic_types.h 49-49 date_conv_mode_t::NO_ZERO_IN_DATE *)
definition NO_ZERO_IN_DATE :: "64 word" where
  "NO_ZERO_IN_DATE = push_bit 23 1"

(* @sql_basic_types.h 50-50 date_conv_mode_t::NO_ZERO_DATE *)
definition NO_ZERO_DATE :: "64 word" where
  "NO_ZERO_DATE = push_bit 24 1"

(* @sql_basic_types.h 51-51 date_conv_mode_t::INVALID_DATES *)
definition INVALID_DATES :: "64 word" where
  "INVALID_DATES = push_bit 25 1"

(* @sql_basic_types.h 63-68 date_conv_mode_t::KNOWN_MODES *)
definition CONV_KNOWN_MODES :: "64 word" where
  "CONV_KNOWN_MODES = FUZZY_DATES OR TIME_ONLY OR INTERVAL_hhmmssff OR INTERVAL_DAY OR
     NO_ZERO_IN_DATE OR NO_ZERO_DATE OR INVALID_DATES"

(* @sql_basic_types.h 137-138 time_round_mode_t::FRAC_TRUNCATE *)
definition FRAC_TRUNCATE :: "64 word" where
  "FRAC_TRUNCATE = push_bit 1 INTERVAL_DAY"

(* @sql_basic_types.h 139-139 time_round_mode_t::FRAC_ROUND *)
definition FRAC_ROUND :: "64 word" where
  "FRAC_ROUND = push_bit 2 INTERVAL_DAY"

(* @sql_basic_types.h 142-145 time_round_mode_t::KNOWN_MODES *)
definition ROUND_KNOWN_MODES :: "64 word" where
  "ROUND_KNOWN_MODES = FRAC_TRUNCATE OR FRAC_ROUND"

(* @sql_basic_types.h 217-220 date_mode_t::operator date_conv_mode_t *)
definition conv_mode :: "64 word \<Rightarrow> 64 word" where
  "conv_mode m = m AND CONV_KNOWN_MODES"

(* @sql_basic_types.h 221-224 date_mode_t::operator time_round_mode_t *)
definition round_mode :: "64 word \<Rightarrow> 64 word" where
  "round_mode m = m AND ROUND_KNOWN_MODES"

(* @sql_basic_types.h 278-282 operator|(date_conv_mode_t, time_round_mode_t) *)
definition date_mode_of :: "64 word \<Rightarrow> 64 word \<Rightarrow> 64 word" where
  "date_mode_of a b = a OR b"

(* @sql_basic_types.h 328-331 TIME_MODE_FOR_XXX_TO_DATE *)
definition TIME_MODE_FOR_XXX_TO_DATE :: "64 word" where
  "TIME_MODE_FOR_XXX_TO_DATE = NO_ZERO_IN_DATE OR NO_ZERO_DATE OR INVALID_DATES"

section \<open>Fixed-point seconds\<close>

(* @sql_type.h 498-504 Sec6 *)
record sec6 =
  m_sec :: "64 word"
  m_usec :: "32 word"
  m_neg :: bool
  m_truncated :: bool

(* @sql_type.h 507-513 Sec6::make_from_int *)
definition make_from_int :: "longlong_hybrid \<Rightarrow> sec6" where
  "make_from_int nr = \<lparr>m_sec = ll_abs nr, m_usec = 0, m_neg = ll_neg nr, m_truncated = False\<rparr>"

(* @sql_type.h 514-517 Sec6::reset *)
definition sec6_reset :: sec6 where
  "sec6_reset = \<lparr>m_sec = 0, m_usec = 0, m_neg = False, m_truncated = False\<rparr>"

(* @sql_type.h 519-529 Sec6::add_nanoseconds *)
definition add_nanoseconds :: "sec6 \<Rightarrow> uint \<Rightarrow> sec6 \<times> bool" where
  "add_nanoseconds s nanoseconds =
     (if nanoseconds < 500 then (s, False)
      else let s1 = s\<lparr>m_usec := m_usec s + (nanoseconds + 500) div 1000\<rparr>
           in if m_usec s1 < 1000000 then (s1, False)
              else (s1\<lparr>m_usec := m_usec s1 mod 1000000\<rparr>, True))"

text \<open>The conversions return the failure flag, the time and the warning.\<close>

type_synonym number_to_time = "bool \<Rightarrow> 64 word \<Rightarrow> 32 word \<Rightarrow> 64 word \<Rightarrow> int \<times> mysql_time \<times> int"
type_synonym number_to_date = "64 word \<Rightarrow> 32 word \<Rightarrow> 64 word \<Rightarrow> int \<times> mysql_time \<times> int"

(* @sql_type.h 568-572 Sec6::to_interval_hhmmssff_only *)
definition to_interval_hhmmssff_only :: "number_to_time \<Rightarrow> sec6 \<Rightarrow> bool \<times> mysql_time \<times> int" where
  "to_interval_hhmmssff_only number_to_time_only s =
     (case number_to_time_only (m_neg s) (m_sec s) (m_usec s) TIME_MAX_INTERVAL_HOUR of (rc, t, w) \<Rightarrow> (rc \<noteq> 0, t, w))"

(* @sql_type.h 619-632 Sec6::to_datetime_or_date *)
definition to_datetime_or_date :: "number_to_date \<Rightarrow> sec6 \<Rightarrow> mysql_time \<Rightarrow> 64 word \<Rightarrow> bool \<times> mysql_time \<times> int" where
  "to_datetime_or_date number_to_datetime_or_date s t0 flags =
     (if m_neg s then (True, t0, 2)
      else case number_to_datetime_or_date (m_sec s) (m_usec s) (flags AND TIME_MODE_FOR_XXX_TO_DATE) of (rc, t, w) \<Rightarrow> (rc = - 1, t, w))"

(* @sql_type.h 573-602 Sec6::to_datetime_or_to_interval_hhmmssff *)
definition to_datetime_or_to_interval_hhmmssff ::
  "number_to_time \<Rightarrow> number_to_date \<Rightarrow> sec6 \<Rightarrow> mysql_time \<Rightarrow> bool \<times> mysql_time \<times> int" where
  "to_datetime_or_to_interval_hhmmssff number_to_time_only number_to_datetime_or_date s t0 =
     (if m_sec s > 999999995959 \<and> m_sec s \<le> 99991231235959 \<and> \<not> m_neg s
      then to_datetime_or_date number_to_datetime_or_date s t0 INVALID_DATES
      else if m_sec s div 10000 > TIME_MAX_INTERVAL_HOUR then (True, t0, 2)
      else to_interval_hhmmssff_only number_to_time_only s)"

(* @sql_type.h 605-614 Sec6::to_datetime_or_time *)
definition to_datetime_or_time :: "number_to_time \<Rightarrow> number_to_date \<Rightarrow> sec6 \<Rightarrow> 64 word \<Rightarrow> bool \<times> mysql_time \<times> int" where
  "to_datetime_or_time number_to_time_only number_to_datetime_or_date s flags =
     (if m_sec s > 9999999 \<and> m_sec s \<le> 99991231235959 \<and> \<not> m_neg s
      then (case number_to_datetime_or_date (m_sec s) (m_usec s) (flags AND TIME_MODE_FOR_XXX_TO_DATE) of (rc, t, w) \<Rightarrow> (rc < 0, t, w))
      else (case number_to_time_only (m_neg s) (m_sec s) (m_usec s) (ucast TIME_MAX_HOUR) of (rc, t, w) \<Rightarrow> (rc \<noteq> 0, t, w)))"

(* @sql_type.h 634-652 Sec6::sec_to_time *)
definition sec_to_time ::
  "(timestamp_type \<Rightarrow> mysql_time) \<Rightarrow> (mysql_time \<Rightarrow> uint \<Rightarrow> mysql_time) \<Rightarrow> sec6 \<Rightarrow> uint \<Rightarrow> bool \<times> mysql_time" where
  "sec_to_time set_zero_time check_time_range s dec =
     (let t = (set_zero_time TIMESTAMP_TIME)\<lparr>neg := m_neg s\<rparr> in
      if m_sec s > TIME_MAX_VALUE_SECONDS
      then (True, check_time_range (t\<lparr>hour := TIME_MAX_HOUR + 1\<rparr>) dec)
      else (False, t\<lparr>hour := ucast (m_sec s div 3600), minute := ucast (m_sec s mod 3600) div 60,
                     second := ucast (m_sec s) mod 60, second_part := m_usec s\<rparr>))"

(* @sql_type.h 653-657 Sec6::trunc *)
definition sec6_trunc :: "log_table \<Rightarrow> sec6 \<Rightarrow> uint \<Rightarrow> sec6 option" where
  "sec6_trunc log_10_int s dec =
     Option.bind (my_time_fraction_remainder log_10_int (m_usec s) dec) (\<lambda>r. Some (s\<lparr>m_usec := m_usec s - r\<rparr>))"

(* @sql_type.h 669-679 Sec9 *)
record sec9 = sec6 +
  m_nsec :: "32 word"

(* @sql_type.h 689-694 Sec9::trunc *)
definition sec9_trunc :: "log_table \<Rightarrow> sec9 \<Rightarrow> uint \<Rightarrow> sec9 option" where
  "sec9_trunc log_10_int s dec =
     Option.bind (my_time_fraction_remainder log_10_int (m_usec s) dec)
       (\<lambda>r. Some (s\<lparr>m_nsec := 0, m_usec := m_usec s - r\<rparr>))"

(* @sql_type.h 696-699 Sec9::round(uint, time_round_mode_t) *)
definition sec9_round_mode :: "log_table \<Rightarrow> (sec9 \<Rightarrow> uint \<Rightarrow> sec9) \<Rightarrow> sec9 \<Rightarrow> uint \<Rightarrow> 64 word \<Rightarrow> sec9 option" where
  "sec9_round_mode log_10_int round_dec s dec mode =
     (if mode = FRAC_TRUNCATE then sec9_trunc log_10_int s dec else Some (round_dec s dec))"

section \<open>Adding times\<close>

(* @sql_type.h 747-752 Sec6_add *)
record sec6_add =
  a_sec :: "64 word"
  a_usec :: "32 word"
  a_neg :: bool
  a_error :: bool

text \<open>\<open>calc_time_diff\<close> returns the sign, the seconds and the microseconds.\<close>

type_synonym time_diff = "mysql_time \<Rightarrow> mysql_time \<Rightarrow> int \<Rightarrow> bool \<times> 64 word \<times> 32 word"

text \<open>The fields of an erroneous sum stay uninitialised, \<open>u\<close> in the model.\<close>

(* @sql_type.h 767-779 Sec6_add::Sec6_add *)
definition sec6_add_new :: "time_diff \<Rightarrow> sec6_add \<Rightarrow> mysql_time \<Rightarrow> mysql_time \<Rightarrow> int \<Rightarrow> sec6_add" where
  "sec6_add_new calc_time_diff u t1 t2 sign =
     (if time_type t2 \<noteq> TIMESTAMP_TIME then u\<lparr>a_error := True\<rparr>
      else let sign' = (if neg t1 \<noteq> neg t2 then - sign else sign) in
        case calc_time_diff t1 t2 (- sign') of (n, sec, usec) \<Rightarrow>
          \<lparr>a_sec = sec, a_usec = usec, a_neg = (if neg t1 \<and> (sec \<noteq> 0 \<or> usec \<noteq> 0) then \<not> n else n), a_error = False\<rparr>)"

(* @sql_type.h 753-759 Sec6_add::to_hh24mmssff *)
definition to_hh24mmssff :: "(mysql_time \<Rightarrow> 32 word \<Rightarrow> 32 word \<Rightarrow> mysql_time) \<Rightarrow> sec6_add \<Rightarrow> timestamp_type \<Rightarrow> mysql_time" where
  "to_hh24mmssff calc_time_from_sec a tstype =
     (calc_time_from_sec \<lparr>year = 0, month = 0, day = 0, hour = 0, minute = 0, second = 0, second_part = 0,
        neg = a_neg a, time_type = TIMESTAMP_DATE\<rparr> (ucast (a_sec a mod SECONDS_IN_24H)) (a_usec a))\<lparr>time_type := tstype\<rparr>"

(* @sql_type.h 797-797 Sec6_add::to_days_abs *)
definition to_days_abs :: "sec6_add \<Rightarrow> 32 word" where
  "to_days_abs a = ucast (a_sec a div SECONDS_IN_24H)"

(* @sql_type.h 780-787 Sec6_add::to_time *)
definition sec6_add_to_time ::
  "(mysql_time \<Rightarrow> 32 word \<Rightarrow> 32 word \<Rightarrow> mysql_time) \<Rightarrow> (mysql_time \<Rightarrow> uint \<Rightarrow> mysql_time \<times> bool) \<Rightarrow> sec6_add \<Rightarrow> mysql_time \<Rightarrow> uint \<Rightarrow> mysql_time \<times> bool" where
  "sec6_add_to_time calc_time_from_sec adjust_time_range a t0 decimals =
     (if a_error a then (t0, True)
      else let t = to_hh24mmssff calc_time_from_sec a TIMESTAMP_TIME
           in adjust_time_range (t\<lparr>hour := hour t + to_days_abs a * 24\<rparr>) decimals)"

(* @sql_type.h 788-796 Sec6_add::to_datetime *)
definition sec6_add_to_datetime ::
  "(mysql_time \<Rightarrow> 32 word \<Rightarrow> 32 word \<Rightarrow> mysql_time) \<Rightarrow> (32 word \<Rightarrow> bool \<times> uint \<times> uint \<times> uint) \<Rightarrow> sec6_add \<Rightarrow> mysql_time \<Rightarrow> mysql_time \<times> bool" where
  "sec6_add_to_datetime calc_time_from_sec get_date_from_daynr a t0 =
     (if a_error a \<or> a_neg a then (t0, True)
      else let t = to_hh24mmssff calc_time_from_sec a TIMESTAMP_DATETIME in
        case get_date_from_daynr (to_days_abs a) of (e, y, mo, d) \<Rightarrow>
          (t\<lparr>year := y, month := mo, day := d\<rparr>, e \<or> d = 0))"

section \<open>Truncation\<close>

text \<open>What the code relies on of the table: its entries are the powers of ten.\<close>

definition powers_of_ten :: "log_table \<Rightarrow> bool" where
  "powers_of_ten log_10_int \<longleftrightarrow> (\<forall>i < 20. log_10_int i = 10 ^ i)"

lemma log_entry_Some:
  assumes "powers_of_ten tbl" "d \<le> 6"
  shows "log_entry tbl d = Some (10 ^ (6 - unat d))"
proof -
  have "unat (6 - d) = 6 - unat d" using assms(2) by (simp add: unat_sub)
  then show ?thesis using assms(1) by (simp add: log_entry_def powers_of_ten_def Let_def)
qed

lemma pow10_32: "k \<le> 6 \<Longrightarrow> sint (ucast (10 ^ k :: 64 word) :: 32 word) = 10 ^ k \<and> (ucast (10 ^ k :: 64 word) :: 32 word) \<noteq> 0"
proof -
  assume "k \<le> 6"
  then have "k \<in> {0, 1, 2, 3, 4, 5, 6}" by auto
  then show ?thesis by auto
qed

lemma pow10_64: "k \<le> 6 \<Longrightarrow> sint (10 ^ k :: 64 word) = 10 ^ k \<and> (10 ^ k :: 64 word) \<noteq> 0"
proof -
  assume "k \<le> 6"
  then have "k \<in> {0, 1, 2, 3, 4, 5, 6}" by auto
  then show ?thesis by auto
qed

lemma sint_small:
  assumes "unat (w :: 'a::len word) < 2 ^ (LENGTH('a) - 1)"
  shows "sint w = int (unat w)"
proof -
  have "uint w < 2 ^ (LENGTH('a) - Suc 0)" using assms by (metis One_nat_def of_nat_less_iff of_nat_numeral of_nat_power uint_nat)
  moreover have "- (2 ^ (LENGTH('a) - Suc 0)) \<le> uint w" using uint_ge_0 [of w] by (meson neg_le_0_iff_le order.trans zero_le_numeral zero_le_power)
  ultimately have "signed_take_bit (LENGTH('a) - Suc 0) (uint w) = uint w" by (intro signed_take_bit_int_eq_self)
  then show ?thesis by (simp add: sint_uint)
qed

lemma unat_widen: "unat (ucast (w :: 32 word) :: 64 word) = unat w"
proof -
  have "unat w < 2 ^ LENGTH(64)" using unsigned_less [of w, where 'a = nat] by simp
  then show ?thesis by (rule unat_ucast_small)
qed

lemma sdiv_pow10: "word_of_int (int n sdiv 10 ^ k) = (of_nat (n div 10 ^ k) :: 'a::len word)"
proof -
  have "int n sdiv 10 ^ k = int (n div 10 ^ k)"
    by (cases "n = 0") (simp_all add: signed_divide_int_def zdiv_int)
  then show ?thesis by simp
qed

lemma word_of_int_nat: "word_of_int (int n) = (of_nat n :: 'a::len word)"
  by simp

text \<open>The remainder, the truncated fraction and the stored fraction.\<close>

lemma fraction_remainder:
  assumes "powers_of_ten tbl" "d \<le> 6" "unat nr < 2 ^ 31"
  shows "my_time_fraction_remainder tbl nr d = Some (of_nat (unat nr mod 10 ^ (6 - unat d)))"
proof -
  have k: "6 - unat d \<le> 6" by simp
  have n: "sint nr = int (unat nr)" using assms(3) by (intro sint_small) simp
  have "int (unat nr) smod 10 ^ (6 - unat d) = int (unat nr mod 10 ^ (6 - unat d))"
    by (simp add: smod_mod_positive zmod_int)
  then show ?thesis
    using pow10_32 [OF k] n by (simp add: my_time_fraction_remainder_def log_entry_Some [OF assms(1,2)] Let_def)
qed

lemma sub_remainder:
  assumes "unat (nr :: 32 word) < 2 ^ 31"
  shows "unat (nr - of_nat (unat nr mod m)) = unat nr div m * m"
proof -
  have le: "unat nr mod m \<le> unat nr" by simp
  then have "unat nr mod m < 4294967296" using assms by (rule le_less_trans [THEN less_trans]) simp
  then have "unat (of_nat (unat nr mod m) :: 32 word) = unat nr mod m"
    by (simp add: unat_of_nat)
  moreover from this have "of_nat (unat nr mod m) \<le> nr" using le by (simp add: word_le_nat_alt)
  ultimately have "unat (nr - of_nat (unat nr mod m)) = unat nr - unat nr mod m" by (simp add: unat_sub)
  then show ?thesis by (simp add: minus_mod_eq_div_mult)
qed

text \<open>Truncating a time to \<open>d\<close> fractional digits, $d \le 6$: the microseconds are rounded down to a
  multiple of $10^{6-d}$, nothing else changes, except that a negative time that becomes zero loses its
  sign; truncating again changes nothing. Shifting the fraction to \<open>d\<close> digits and back gives
  the same number.\<close>

theorem time_truncation:
  assumes "powers_of_ten log_10_int" "d \<le> 6" "unat (second_part t) < 1000000"
  shows "\<exists>t'. my_time_trunc log_10_int t d = Some t' \<and>
     unat (second_part t') = unat (second_part t) div 10 ^ (6 - unat d) * 10 ^ (6 - unat d) \<and>
     t' = t\<lparr>second_part := second_part t', neg := neg t'\<rparr> \<and>
     (neg t' \<longleftrightarrow> neg t \<and> \<not> (second_part t' = 0 \<and> hour t = 0 \<and> minute t = 0 \<and> second t = 0)) \<and>
     my_time_trunc log_10_int t' d = Some t' \<and>
     Option.bind (sec_part_shift log_10_int (ucast (second_part t)) d) (\<lambda>x. sec_part_unshift log_10_int x d)
       = Some (ucast (second_part t'))"
proof -
  let ?m = "10 ^ (6 - unat d)"
  let ?r = "of_nat (unat (second_part t) mod ?m) :: 32 word"
  let ?p = "second_part t - ?r"
  let ?n = "neg t \<and> \<not> (?p = 0 \<and> hour t = 0 \<and> minute t = 0 \<and> second t = 0)"
  let ?t = "t\<lparr>second_part := ?p, neg := ?n\<rparr>"
  have small: "unat (second_part t) < 2 ^ 31" using assms(3) by simp
  have tr: "my_time_trunc log_10_int t d = Some ?t"
    using fraction_remainder [OF assms(1,2) small] by (auto simp: my_time_trunc_def Let_def)
  have up: "unat ?p = unat (second_part t) div ?m * ?m" by (rule sub_remainder [OF small])
  then have "unat ?p < 2 ^ 31" using small by (metis div_times_less_eq_dividend order.strict_trans1)
  note again = fraction_remainder [OF assms(1,2) this]
  have "unat ?p mod ?m = 0" unfolding up by simp
  then have tr2: "my_time_trunc log_10_int ?t d = Some ?t"
    using again by (auto simp: my_time_trunc_def Let_def)
  have k: "6 - unat d \<le> 6" by simp
  have s64: "sint (ucast (second_part t) :: 64 word) = int (unat (second_part t))"
    using small by (subst sint_small) (simp_all add: unat_widen del: uint_nat)
  have "sec_part_shift log_10_int (ucast (second_part t)) d = Some (of_nat (unat (second_part t) div ?m))"
    unfolding sec_part_shift_def log_entry_Some [OF assms(1,2)] s64 using pow10_64 [OF k]
    by (simp only: Option.bind.simps sdiv_pow10 if_False)
  moreover have "of_nat (unat (second_part t) div ?m) * 10 ^ (6 - unat d) = (ucast ?p :: 64 word)"
  proof -
    have "(ucast ?p :: 64 word) = of_nat (unat ?p)" by simp
    then show ?thesis unfolding up by simp
  qed
  ultimately have sh: "Option.bind (sec_part_shift log_10_int (ucast (second_part t)) d) (\<lambda>x. sec_part_unshift log_10_int x d)
       = Some (ucast ?p)"
    by (simp add: sec_part_unshift_def log_entry_Some [OF assms(1,2)])
  show ?thesis using tr tr2 up sh by (intro exI [of _ ?t]) simp
qed

lemma time_truncation_witness:
  "\<exists>t'. my_time_trunc ((^) 10) \<lparr>year = 0, month = 0, day = 0, hour = 0, minute = 0, second = 0, second_part = 4567,
       neg = True, time_type = TIMESTAMP_TIME\<rparr> 2 = Some t' \<and> second_part t' = 0 \<and> \<not> neg t'"
proof -
  let ?t = "\<lparr>year = 0, month = 0, day = 0, hour = 0, minute = 0, second = 0, second_part = 4567,
       neg = True, time_type = TIMESTAMP_TIME\<rparr>"
  have "powers_of_ten ((^) 10)" by (simp add: powers_of_ten_def)
  moreover have "(2 :: uint) \<le> 6" "unat (second_part ?t) < 1000000" by simp_all
  ultimately obtain t' where t': "my_time_trunc ((^) 10) ?t 2 = Some t'"
      "unat (second_part t') = unat (second_part ?t) div 10 ^ (6 - unat (2 :: uint)) * 10 ^ (6 - unat (2 :: uint))"
      "neg t' \<longleftrightarrow> neg ?t \<and> \<not> (second_part t' = 0 \<and> hour ?t = 0 \<and> minute ?t = 0 \<and> second ?t = 0)"
    using time_truncation [of "(^) 10" 2 ?t] by blast
  then have "second_part t' = 0" by (simp add: unat_eq_zero)
  with t' show ?thesis by auto
qed

section \<open>Sums of times\<close>

text \<open>The magnitude of a time is given by a function \<open>mag\<close>, in microseconds and without the sign;
  \<open>calc_time_diff\<close> returns the sign and the absolute value of \<open>mag t1 - s * mag t2\<close>.\<close>

definition sec_usec :: "64 word \<Rightarrow> 32 word \<Rightarrow> int" where
  "sec_usec sec usec = int (unat sec) * 1000000 + int (unat usec)"

definition signed_value :: "bool \<Rightarrow> int \<Rightarrow> int" where
  "signed_value n v = (if n then - v else v)"

definition time_diff_law :: "(mysql_time \<Rightarrow> int) \<Rightarrow> time_diff \<Rightarrow> mysql_time \<Rightarrow> mysql_time \<Rightarrow> bool" where
  "time_diff_law mag calc_time_diff t1 t2 \<longleftrightarrow>
     (\<forall>s \<in> {1, - 1}. case calc_time_diff t1 t2 s of (n, sec, usec) \<Rightarrow>
        n = (mag t1 - s * mag t2 < 0) \<and> sec_usec sec usec = \<bar>mag t1 - s * mag t2\<bar> \<and> unat usec < 1000000)"

text \<open>\<open>calc_time_from_sec\<close> splits the seconds of a day.\<close>

definition from_sec_law :: "(mysql_time \<Rightarrow> 32 word \<Rightarrow> 32 word \<Rightarrow> mysql_time) \<Rightarrow> bool" where
  "from_sec_law f \<longleftrightarrow>
     (\<forall>t s u. hour (f t s u) = s div 3600 \<and> minute (f t s u) = s mod 3600 div 60 \<and>
        second (f t s u) = s mod 3600 mod 60 \<and> second_part (f t s u) = u \<and> neg (f t s u) = neg t)"

definition hms :: "mysql_time \<Rightarrow> int" where
  "hms t = int (unat (hour t) * 3600 + unat (minute t) * 60 + unat (second t)) * 1000000 + int (unat (second_part t))"

lemma sec_usec_zero: "sec_usec s u = 0 \<longleftrightarrow> s = 0 \<and> u = 0"
proof -
  have "sec_usec s u = 0 \<longleftrightarrow> unat s * 1000000 + unat u = 0"
    unfolding sec_usec_def by linarith
  then show ?thesis by (simp add: unat_eq_zero)
qed

text \<open>The constructor: value, sign and normal form of the sum.\<close>

lemma sec6_add_value:
  fixes u :: sec6_add
  assumes "time_diff_law mag ctd t1 t2" "time_type t2 = TIMESTAMP_TIME" "sg = 1 \<or> sg = - 1"
  defines "a \<equiv> sec6_add_new ctd u t1 t2 sg"
    and "v \<equiv> signed_value (neg t1) (mag t1) + sg * signed_value (neg t2) (mag t2)"
  shows "\<not> a_error a \<and> sec_usec (a_sec a) (a_usec a) = \<bar>v\<bar> \<and> (a_neg a \<longleftrightarrow> v < 0) \<and> unat (a_usec a) < 1000000"
proof -
  let ?s = "if neg t1 \<noteq> neg t2 then - sg else sg"
  let ?d = "mag t1 + ?s * mag t2"
  obtain n sec usec where c: "ctd t1 t2 (- ?s) = (n, sec, usec)" by (cases "ctd t1 t2 (- ?s)") auto
  have "- ?s \<in> {1, - 1}" using assms(3) by auto
  from bspec [OF assms(1) [unfolded time_diff_law_def] this] have "case ctd t1 t2 (- ?s) of (n, sec, usec) \<Rightarrow>
        n = (mag t1 - (- ?s) * mag t2 < 0) \<and> sec_usec sec usec = \<bar>mag t1 - (- ?s) * mag t2\<bar> \<and> unat usec < 1000000" .
  then have d: "n = (?d < 0)" "sec_usec sec usec = \<bar>?d\<bar>" "unat usec < 1000000" unfolding c by simp_all
  have a: "a = \<lparr>a_sec = sec, a_usec = usec, a_neg = (if neg t1 \<and> (sec \<noteq> 0 \<or> usec \<noteq> 0) then \<not> n else n), a_error = False\<rparr>"
    unfolding a_def sec6_add_new_def using assms(2) c by (simp add: Let_def)
  have v: "v = (if neg t1 then - ?d else ?d)"
    by (cases "neg t1"; cases "neg t2") (simp_all add: v_def signed_value_def)
  have nz: "(sec \<noteq> 0 \<or> usec \<noteq> 0) = (?d \<noteq> 0)" using sec_usec_zero [of sec usec] d(2) by auto
  have "sec_usec (a_sec a) (a_usec a) = \<bar>v\<bar>" using d(2) a v by (simp split: if_splits)
  moreover have "a_neg a \<longleftrightarrow> v < 0" unfolding a v d(1) nz by auto
  ultimately show ?thesis using a d(3) by simp
qed


text \<open>The split of the seconds into days, hours, minutes and seconds loses nothing.\<close>

lemma hms_split:
  fixes s :: "64 word"
  assumes "unat s < 86400 * 2 ^ 26"
  defines "r \<equiv> (ucast (s mod SECONDS_IN_24H) :: 32 word)" and "d \<equiv> (ucast (s div SECONDS_IN_24H) :: 32 word)"
  shows "unat (r div 3600 + d * 24) * 3600 + unat (r mod 3600 div 60) * 60 + unat (r mod 3600 mod 60) = unat s"
proof -
  have r: "unat r = unat s mod 86400" unfolding r_def by (subst unat_ucast_small) (simp_all add: SECONDS_IN_24H_def unat_mod_distrib)
  have dlt: "unat s div 86400 < 2 ^ 26" using assms(1) by (simp add: div_less_iff_less_mult)
  then have d: "unat d = unat s div 86400" unfolding d_def by (subst unat_ucast_small) (simp_all add: SECONDS_IN_24H_def unat_div_distrib)
  have m: "unat (d * 24) = unat d * 24" using dlt d by (simp add: unat_word_ariths)
  have h: "unat (r div 3600) = unat r div 3600" by (simp add: unat_div_distrib)
  have "unat (r div 3600 + d * 24) = unat r div 3600 + unat d * 24"
    using dlt d h m r by (subst unat_plus_small) simp_all
  then show ?thesis using r d by (simp add: unat_div_distrib unat_mod_distrib)
qed

lemma day_bound: "int n * 1000000 < 86400 * 2 ^ 26 * 1000000 \<Longrightarrow> n < 86400 * 2 ^ 26"
  by simp

text \<open>C23: Adding (\<open>sg = 1\<close>) or subtracting (\<open>sg = -1\<close>) a time. Whatever the signs of the two operands, the
  seconds and microseconds that \<open>Sec6_add\<close> keeps are the absolute value of the signed sum, the
  sign is set exactly when the sum is negative, so there is no negative zero. Converted
  to a time, the value handed to the range check has type TIME, that sign and, in hours, minutes,
  seconds and microseconds, that magnitude. A negative sum is refused as a datetime, and a second
  operand that is no TIME gives an error in both conversions.\<close>

theorem sec6_add_correct:
  fixes u :: sec6_add
  assumes "time_diff_law mag calc_time_diff t1 t2" "from_sec_law calc_time_from_sec" "sg = 1 \<or> sg = - 1"
    and "\<bar>signed_value (neg t1) (mag t1) + sg * signed_value (neg t2) (mag t2)\<bar> < 86400 * 2 ^ 26 * 1000000"
  defines "a \<equiv> sec6_add_new calc_time_diff u t1 t2 sg"
    and "v \<equiv> signed_value (neg t1) (mag t1) + sg * signed_value (neg t2) (mag t2)"
  shows "(time_type t2 = TIMESTAMP_TIME \<longrightarrow>
        sec_usec (a_sec a) (a_usec a) = \<bar>v\<bar> \<and> (a_neg a \<longleftrightarrow> v < 0) \<and> unat (a_usec a) < 1000000 \<and>
        (\<exists>t. sec6_add_to_time calc_time_from_sec adjust_time_range a t0 dec = adjust_time_range t dec \<and>
             time_type t = TIMESTAMP_TIME \<and> signed_value (neg t) (hms t) = v) \<and>
        (v < 0 \<longrightarrow> sec6_add_to_datetime calc_time_from_sec get_date_from_daynr a t0 = (t0, True))) \<and>
     (time_type t2 \<noteq> TIMESTAMP_TIME \<longrightarrow>
        sec6_add_to_time calc_time_from_sec adjust_time_range a t0 dec = (t0, True) \<and>
        sec6_add_to_datetime calc_time_from_sec get_date_from_daynr a t0 = (t0, True))"
proof (cases "time_type t2 = TIMESTAMP_TIME")
  case False
  then have "a_error a" by (simp add: a_def sec6_add_new_def)
  with False show ?thesis by (simp add: sec6_add_to_time_def sec6_add_to_datetime_def)
next
  case True
  have a: "\<not> a_error a" "sec_usec (a_sec a) (a_usec a) = \<bar>v\<bar>" "a_neg a \<longleftrightarrow> v < 0" "unat (a_usec a) < 1000000"
    using sec6_add_value [OF assms(1) True assms(3), of u] unfolding a_def v_def by blast+
  have "int (unat (a_sec a)) * 1000000 < 86400 * 2 ^ 26 * 1000000"
    using assms(4) a(2) unfolding v_def [symmetric] sec_usec_def by linarith
  then have "unat (a_sec a) < 86400 * 2 ^ 26" by (rule day_bound)
  note split = hms_split [OF this]
  define h where "h = to_hh24mmssff calc_time_from_sec a TIMESTAMP_TIME"
  define t where "t = h\<lparr>hour := hour h + to_days_abs a * 24\<rparr>"
  have fields: "hour t = ucast (a_sec a mod SECONDS_IN_24H) div 3600 + to_days_abs a * 24"
      "minute t = ucast (a_sec a mod SECONDS_IN_24H) mod 3600 div 60"
      "second t = ucast (a_sec a mod SECONDS_IN_24H) mod 3600 mod 60"
      "second_part t = a_usec a" "neg t = a_neg a" "time_type t = TIMESTAMP_TIME"
    using assms(2) by (simp_all add: t_def h_def to_hh24mmssff_def from_sec_law_def)
  have "hms t = \<bar>v\<bar>"
    unfolding a(2) [symmetric] hms_def sec_usec_def fields to_days_abs_def split ..
  then have "signed_value (neg t) (hms t) = v" using a(3) fields(5) by (simp add: signed_value_def)
  moreover have "sec6_add_to_time calc_time_from_sec adjust_time_range a t0 dec = adjust_time_range t dec"
    using a(1) by (simp add: sec6_add_to_time_def t_def h_def Let_def)
  moreover have "v < 0 \<longrightarrow> sec6_add_to_datetime calc_time_from_sec get_date_from_daynr a t0 = (t0, True)"
    using a(3) by (simp add: sec6_add_to_datetime_def)
  ultimately show ?thesis using True a fields(6) by blast
qed

text \<open>00:00:01 - 00:00:01.5, with functions that follow the two laws.\<close>

definition sample_time :: "bool \<Rightarrow> uint \<Rightarrow> uint32 \<Rightarrow> mysql_time" where
  "sample_time n s u = \<lparr>year = 0, month = 0, day = 0, hour = 0, minute = 0, second = s, second_part = u,
     neg = n, time_type = TIMESTAMP_TIME\<rparr>"

definition sample_diff :: time_diff where
  "sample_diff t1 t2 s =
     (let d = hms t1 - s * hms t2 in (d < 0, word_of_int (\<bar>d\<bar> div 1000000), word_of_int (\<bar>d\<bar> mod 1000000)))"

definition sample_from_sec :: "mysql_time \<Rightarrow> 32 word \<Rightarrow> 32 word \<Rightarrow> mysql_time" where
  "sample_from_sec t s u = t\<lparr>hour := s div 3600, minute := s mod 3600 div 60, second := s mod 3600 mod 60, second_part := u\<rparr>"

lemma sample_laws:
  "time_diff_law hms sample_diff (sample_time False 1 0) (sample_time False 1 500000)" "from_sec_law sample_from_sec"
  by (simp_all add: time_diff_law_def sample_diff_def hms_def sample_time_def sec_usec_def Let_def from_sec_law_def sample_from_sec_def)

lemma sec6_add_correct_witness:
  "\<exists>t. sec6_add_to_time sample_from_sec (\<lambda>t _. (t, False))
         (sec6_add_new sample_diff \<lparr>a_sec = 0, a_usec = 0, a_neg = False, a_error = False\<rparr>
            (sample_time False 1 0) (sample_time False 1 500000) (- 1)) (sample_time False 0 0) 6 = (t, False) \<and>
       time_type t = TIMESTAMP_TIME \<and> signed_value (neg t) (hms t) = - 500000"
proof -
  let ?t1 = "sample_time False 1 0" and ?t2 = "sample_time False 1 500000"
  have v: "signed_value (neg ?t1) (hms ?t1) + - 1 * signed_value (neg ?t2) (hms ?t2) = - 500000"
    by (simp add: signed_value_def hms_def sample_time_def)
  have b: "\<bar>signed_value (neg ?t1) (hms ?t1) + - 1 * signed_value (neg ?t2) (hms ?t2)\<bar> < 86400 * 2 ^ 26 * 1000000"
    unfolding v by simp
  have ty: "time_type ?t2 = TIMESTAMP_TIME" by (simp add: sample_time_def)
  show ?thesis
    using sec6_add_correct [OF sample_laws disjI2 [OF refl] b,
        of "\<lparr>a_sec = 0, a_usec = 0, a_neg = False, a_error = False\<rparr>" "\<lambda>t _. (t, False)" "sample_time False 0 0" 6] ty v
    by auto
qed

section \<open>Numbers as times\<close>

lemma uint_unat_64: "int (unat (w :: 64 word)) = uint w"
  by simp

lemma hms_of_seconds:
  fixes s :: "64 word"
  assumes "unat s < 3600 * 1000"
  shows "unat (ucast (s div 3600) :: 32 word) = unat s div 3600"
    "unat (ucast (s mod 3600) div 60 :: 32 word) = unat s mod 3600 div 60"
    "unat (ucast s mod 60 :: 32 word) = unat s mod 60"
proof -
  have "unat s div 3600 < 1000" using assms by (simp add: div_less_iff_less_mult)
  then show "unat (ucast (s div 3600) :: 32 word) = unat s div 3600"
    by (subst unat_ucast_small) (simp_all add: unat_div_distrib)
  have "unat (ucast (s mod 3600) :: 32 word) = unat s mod 3600"
    by (subst unat_ucast_small) (simp_all add: unat_mod_distrib)
  then show "unat (ucast (s mod 3600) div 60 :: 32 word) = unat s mod 3600 div 60"
    by (simp add: unat_div_distrib)
  have "unat (ucast s :: 32 word) = unat s" using assms by (intro unat_ucast_small) simp
  then show "unat (ucast s mod 60 :: 32 word) = unat s mod 60" by (simp add: unat_mod_distrib)
qed

lemma seconds_split: "(n div 3600) * 3600 + (n mod 3600 div 60) * 60 + n mod 60 = (n :: nat)"
proof -
  have "n mod 3600 mod 60 = n mod 60" by (rule mod_mod_cancel) simp
  then have "(n mod 3600 div 60) * 60 + n mod 60 = n mod 3600" by (metis div_mult_mod_eq)
  then show ?thesis by (metis add.assoc div_mult_mod_eq)
qed

lemma sec_to_time_in_range:
  assumes "unat (m_sec s) \<le> 3020399"
  shows "\<exists>t. sec_to_time set_zero_time check_time_range s dec = (False, t) \<and>
     hms t = int (unat (m_sec s)) * 1000000 + int (unat (m_usec s)) \<and> neg t = m_neg s \<and>
     unat (hour t) \<le> 838 \<and> unat (minute t) < 60 \<and> unat (second t) < 60"
proof -
  have lt: "unat (m_sec s) < 3600 * 1000" using assms by simp
  have "\<not> m_sec s > TIME_MAX_VALUE_SECONDS" using assms by (simp add: TIME_MAX_VALUE_SECONDS_def word_less_nat_alt)
  then obtain t where t: "sec_to_time set_zero_time check_time_range s dec = (False, t)"
      "hour t = ucast (m_sec s div 3600)" "minute t = ucast (m_sec s mod 3600) div 60"
      "second t = ucast (m_sec s) mod 60" "second_part t = m_usec s" "neg t = m_neg s"
    by (simp add: sec_to_time_def Let_def)
  have h: "hms t = int (unat (m_sec s)) * 1000000 + int (unat (m_usec s))"
    unfolding hms_def t(2-5) hms_of_seconds [OF lt] seconds_split ..
  have "unat (m_sec s) div 3600 \<le> 3020399 div 3600" using assms by (rule div_le_mono)
  then have b: "unat (hour t) \<le> 838" unfolding t(2) hms_of_seconds [OF lt] by simp
  have "unat (m_sec s) mod 3600 div 60 < 60" by (simp add: div_less_iff_less_mult)
  then have "unat (minute t) < 60" "unat (second t) < 60" unfolding t(3,4) hms_of_seconds [OF lt] by simp_all
  with t(1,6) h b show ?thesis by blast
qed

lemma mod_one_carry: "1000000 \<le> n \<Longrightarrow> n < 2000000 \<Longrightarrow> n mod 1000000 + 1000000 = (n :: nat)"
  by (simp add: le_mod_geq)

lemma add_nanoseconds_rounds:
  assumes "unat (m_usec s) < 1000000" "unat ns \<le> 1000000000" "add_nanoseconds s ns = (s', carry)"
  shows "unat (m_usec s') + (if carry then 1000000 else 0) = unat (m_usec s) + (unat ns + 500) div 1000 \<and>
     unat (m_usec s') < 1000000 \<and> s' = s\<lparr>m_usec := m_usec s'\<rparr>"
proof (cases "ns < 500")
  case True
  then have "(unat ns + 500) div 1000 = 0" by (simp add: word_less_nat_alt)
  with True assms show ?thesis by (simp add: add_nanoseconds_def)
next
  case False
  let ?u = "m_usec s + (ns + 500) div 1000"
  have p: "unat (ns + 500) = unat ns + 500" using assms(2) by (subst unat_plus_small) simp_all
  have "(unat ns + 500) div 1000 \<le> (1000000000 + 500) div 1000" using assms(2) by (intro div_le_mono) simp
  then have q: "(unat ns + 500) div 1000 \<le> 1000000" by simp
  have d: "unat ((ns + 500) div 1000) = (unat ns + 500) div 1000" using p by (simp add: unat_div_distrib)
  have u: "unat ?u = unat (m_usec s) + (unat ns + 500) div 1000"
    using assms(1) q d by (subst unat_plus_small) simp_all
  show ?thesis
  proof (cases "?u < 1000000")
    case lt: True
    then have "s' = s\<lparr>m_usec := ?u\<rparr>" "\<not> carry" using assms(3) False by (auto simp: add_nanoseconds_def Let_def)
    with lt u show ?thesis by (simp add: word_less_nat_alt)
  next
    case ge: False
    then have s': "s' = s\<lparr>m_usec := ?u mod 1000000\<rparr>" "carry" using assms(3) False by (auto simp: add_nanoseconds_def Let_def)
    have "1000000 \<le> unat ?u" "unat ?u < 2000000" using ge u assms(1) q by (simp_all add: word_less_nat_alt)
    then have "unat ?u mod 1000000 + 1000000 = unat ?u" by (rule mod_one_carry)
    then have "unat (?u mod 1000000) + 1000000 = unat ?u" by (simp add: unat_mod_distrib)
    then show ?thesis using s' u by (simp add: unat_mod_distrib)
  qed
qed

text \<open>An integer taken as seconds. In the range of TIME, 838:59:59 on either side of zero, the conversion
  succeeds and the hours, minutes and seconds are those of the number, with its sign;
  outside it fails and the result is what the range check makes of 839 hours with that sign. Nanoseconds are rounded
  to microseconds half up, and the carry into the seconds is reported exactly when the
  microseconds reach a million.\<close>

theorem seconds_to_time:
  assumes "unat (m_usec s) < 1000000" "unat ns \<le> 1000000000" "add_nanoseconds s ns = (s', carry)"
  shows "(\<bar>ll_val nr\<bar> \<le> 838 * 3600 + 59 * 60 + 59 \<longrightarrow>
       (\<exists>t. sec_to_time set_zero_time check_time_range (make_from_int nr) dec = (False, t) \<and>
            signed_value (neg t) (hms t) = ll_val nr * 1000000 \<and>
            unat (hour t) \<le> 838 \<and> unat (minute t) < 60 \<and> unat (second t) < 60)) \<and>
     (\<bar>ll_val nr\<bar> > 838 * 3600 + 59 * 60 + 59 \<longrightarrow>
       sec_to_time set_zero_time check_time_range (make_from_int nr) dec =
         (True, check_time_range ((set_zero_time TIMESTAMP_TIME)\<lparr>neg := ll_val nr < 0, hour := 839\<rparr>) dec)) \<and>
     unat (m_usec s') + (if carry then 1000000 else 0) = unat (m_usec s) + (unat ns + 500) div 1000 \<and>
     unat (m_usec s') < 1000000 \<and> s' = s\<lparr>m_usec := m_usec s'\<rparr>"
proof -
  let ?s = "make_from_int nr"
  have v: "int (unat (m_sec ?s)) = \<bar>ll_val nr\<bar>" "m_usec ?s = 0" "m_neg ?s = (ll_val nr < 0)"
    using uint_ll_abs [of nr] by (simp_all add: make_from_int_def ll_neg_iff)
  have "\<bar>ll_val nr\<bar> > 838 * 3600 + 59 * 60 + 59 \<Longrightarrow> 3020399 < unat (m_sec ?s)" using v(1) by linarith
  then have out: "\<bar>ll_val nr\<bar> > 838 * 3600 + 59 * 60 + 59 \<longrightarrow>
       sec_to_time set_zero_time check_time_range ?s dec =
         (True, check_time_range ((set_zero_time TIMESTAMP_TIME)\<lparr>neg := ll_val nr < 0, hour := 839\<rparr>) dec)"
    using v(3) by (simp add: sec_to_time_def TIME_MAX_VALUE_SECONDS_def TIME_MAX_HOUR_def Let_def word_less_nat_alt)
  have "\<exists>t. sec_to_time set_zero_time check_time_range ?s dec = (False, t) \<and>
            signed_value (neg t) (hms t) = ll_val nr * 1000000 \<and>
            unat (hour t) \<le> 838 \<and> unat (minute t) < 60 \<and> unat (second t) < 60"
    if le: "\<bar>ll_val nr\<bar> \<le> 838 * 3600 + 59 * 60 + 59"
  proof -
    have "unat (m_sec ?s) \<le> 3020399" using v(1) le by linarith
    then obtain t where t: "sec_to_time set_zero_time check_time_range ?s dec = (False, t)"
        "hms t = int (unat (m_sec ?s)) * 1000000 + int (unat (m_usec ?s))" "neg t = m_neg ?s"
        "unat (hour t) \<le> 838 \<and> unat (minute t) < 60 \<and> unat (second t) < 60"
      using sec_to_time_in_range [of ?s set_zero_time check_time_range dec] by blast
    have "signed_value (neg t) (hms t) = ll_val nr * 1000000"
      unfolding t(2,3) v signed_value_def by simp
    with t(1,4) show ?thesis by blast
  qed
  with out add_nanoseconds_rounds [OF assms] show ?thesis by blast
qed

lemma seconds_to_time_witness:
  "\<exists>t. sec_to_time (\<lambda>_. sample_time False 0 0) (\<lambda>t _. t) (make_from_int \<lparr>m_value = - 3661, m_unsigned = False\<rparr>) 0 = (False, t) \<and>
     signed_value (neg t) (hms t) = - 3661000000"
proof -
  let ?s = "\<lparr>m_sec = 0, m_usec = 999999, m_neg = False, m_truncated = False\<rparr>"
  let ?nr = "\<lparr>m_value = - 3661, m_unsigned = False\<rparr> :: longlong_hybrid"
  have h: "unat (m_usec ?s) < 1000000" "unat (500 :: uint) \<le> 1000000000"
      "add_nanoseconds ?s 500 = (\<lparr>m_sec = 0, m_usec = 0, m_neg = False, m_truncated = False\<rparr>, True)"
    by (simp_all add: add_nanoseconds_def Let_def)
  have v: "ll_val ?nr = - 3661" by (simp add: ll_val_def)
  show ?thesis
    using seconds_to_time [OF h, of ?nr "\<lambda>_. sample_time False 0 0" "\<lambda>t _. t" 0] unfolding v by auto
qed

section \<open>Timestamps and modes\<close>

text \<open>The fields of a calendar date are in range: the check is the interval from 1969-12-31 to 2038-01-19.\<close>

lemma validate_timestamp_range_interval:
  assumes "1 \<le> unat (month t)" "unat (month t) \<le> 12" "unat (day t) \<le> 31"
  defines "date \<equiv> unat (year t) * 10000 + unat (month t) * 100 + unat (day t)"
  shows "validate_timestamp_range t \<longleftrightarrow> 19691231 \<le> date \<and> date \<le> 20380119"
proof -
  have "validate_timestamp_range t \<longleftrightarrow>
      \<not> (unat (year t) > 2038 \<or> unat (year t) < 1969 \<or>
         unat (year t) = 2038 \<and> (unat (month t) > 1 \<or> unat (day t) > 19) \<or>
         unat (year t) = 1969 \<and> (unat (month t) < 12 \<or> unat (day t) < 31))"
    by (simp add: validate_timestamp_range_def TIMESTAMP_MAX_YEAR_def TIMESTAMP_MIN_YEAR_def word_less_nat_alt
        word_unat_eq_iff)
  also have "\<dots> \<longleftrightarrow> 19691231 \<le> date \<and> date \<le> 20380119"
    unfolding date_def using assms(1-3)
    by (cases "unat (year t)" "1969 :: nat" rule: linorder_cases;
        cases "unat (year t)" "2038 :: nat" rule: linorder_cases) (auto simp del: unat_gt_0)
  finally show ?thesis .
qed

text \<open>The bits of a conversion mode and of a rounding mode are disjoint, so both can be read back.\<close>

lemma modes_disjoint: "CONV_KNOWN_MODES AND ROUND_KNOWN_MODES = 0"
  by (simp add: CONV_KNOWN_MODES_def ROUND_KNOWN_MODES_def FUZZY_DATES_def TIME_ONLY_def INTERVAL_hhmmssff_def
      INTERVAL_DAY_def NO_ZERO_IN_DATE_def NO_ZERO_DATE_def INVALID_DATES_def FRAC_TRUNCATE_def FRAC_ROUND_def)

lemma date_mode_round_trip:
  assumes "a AND CONV_KNOWN_MODES = a" "b AND ROUND_KNOWN_MODES = b"
  shows "conv_mode (date_mode_of a b) = a" "round_mode (date_mode_of a b) = b"
proof -
  have "b AND CONV_KNOWN_MODES = b AND (CONV_KNOWN_MODES AND ROUND_KNOWN_MODES)"
    by (subst assms(2) [symmetric]) (simp only: and.assoc and.commute and.left_commute)
  then have "b AND CONV_KNOWN_MODES = 0" by (simp add: modes_disjoint)
  then show "conv_mode (date_mode_of a b) = a" using assms(1) by (simp add: conv_mode_def date_mode_of_def bit.conj_disj_distrib2)
  have "a AND ROUND_KNOWN_MODES = a AND (CONV_KNOWN_MODES AND ROUND_KNOWN_MODES)"
    by (subst assms(1) [symmetric]) (simp only: and.assoc)
  then have "a AND ROUND_KNOWN_MODES = 0" by (simp add: modes_disjoint)
  then show "round_mode (date_mode_of a b) = b" using assms(2) by (simp add: round_mode_def date_mode_of_def bit.conj_disj_distrib2)
qed

end
