(* ===== verification/Sel_Arg.thy ===== *)
theory Sel_Arg
  imports Prelude "HOL-Library.Monad_Syntax"
begin

text \<open>
  The range optimizer's intervals (\<open>SEL_ARG\<close> of \<^verbatim>\<open>opt_range.h\<close>): comparison, intersection and splitting of the elementary
  intervals of one key part, and the construction of the start and end keys of a multi-part range from the
  graph of intervals, with ascending and descending key parts.

  A value is the list of the bytes it points to, a key buffer the list of the bytes written so far. The graph is
  a function from addresses to nodes. The comparison \<open>sel_cmp\<close>, the constructor with seven arguments, \<open>key_cmp\<close> of the
  field and the tree functions \<open>first\<close> and \<open>last\<close> are defined elsewhere and are arguments. \<open>None\<close> is a read
  outside a value. The records have the fields that the modelled operations use; the links of the red-black tree, the use
  counts and the weights are left out.
\<close>

section \<open>Flags\<close>

(* @my_base.h 616-616 NO_MIN_RANGE *)
definition NO_MIN_RANGE :: "'a::len word" where "NO_MIN_RANGE = 1"

(* @my_base.h 617-617 NO_MAX_RANGE *)
definition NO_MAX_RANGE :: "'a::len word" where "NO_MAX_RANGE = 2"

(* @my_base.h 618-618 NEAR_MIN *)
definition NEAR_MIN :: "'a::len word" where "NEAR_MIN = 4"

(* @my_base.h 619-619 NEAR_MAX *)
definition NEAR_MAX :: "'a::len word" where "NEAR_MAX = 8"

(* @my_base.h 621-621 EQ_RANGE *)
definition EQ_RANGE :: "'a::len word" where "EQ_RANGE = 32"

(* @my_base.h 623-623 GEOM_FLAG *)
definition GEOM_FLAG :: "'a::len word" where "GEOM_FLAG = 128"

(* @my_base.h 319-319 HA_REVERSE_SORT *)
definition HA_REVERSE_SORT :: uint8 where "HA_REVERSE_SORT = 128"

(* @opt_range.h 62-68 invert_min_flag *)
definition invert_min_flag :: "uint \<Rightarrow> uint" where
  "invert_min_flag f =
     (let o0 = f AND NOT (NEAR_MIN OR NO_MIN_RANGE);
          o1 = (if f AND NEAR_MIN \<noteq> 0 then o0 OR NEAR_MAX else o0)
      in if f AND NO_MIN_RANGE \<noteq> 0 then o1 OR NO_MAX_RANGE else o1)"

(* @opt_range.h 76-82 invert_max_flag *)
definition invert_max_flag :: "uint \<Rightarrow> uint" where
  "invert_max_flag f =
     (let o0 = f AND NOT (NEAR_MAX OR NO_MAX_RANGE);
          o1 = (if f AND NEAR_MAX \<noteq> 0 then o0 OR NEAR_MIN else o0)
      in if f AND NO_MAX_RANGE \<noteq> 0 then o1 OR NO_MIN_RANGE else o1)"

section \<open>Intervals\<close>

(* @opt_range.h 42-54 KEY_PART *)
record key_part =
  kp_store_length :: uint16
  kp_flag :: uint8

(* @opt_range.h 340-340 SEL_ARG::Type *)
datatype sel_type = IMPOSSIBLE | MAYBE | MAYBE_KEY | KEY_RANGE

(* @opt_range.h 306-340 SEL_ARG *)
record 'f sel_arg =
  min_flag :: uint8
  max_flag :: uint8
  maybe_flag :: uint8
  part :: uint8
  maybe_null :: uint8
  elements :: uint32
  field :: 'f
  min_value :: "uchar list"
  max_value :: "uchar list"
  sa_next :: "nat option"
  sa_prev :: "nat option"
  next_key_part :: "nat option"
  sa_type :: sel_type

type_synonym 'f sel_cmp = "'f \<Rightarrow> uchar list \<Rightarrow> uchar list \<Rightarrow> uint8 \<Rightarrow> uint8 \<Rightarrow> int"
type_synonym 'f sel_new = "'f \<Rightarrow> uint8 \<Rightarrow> uchar list \<Rightarrow> uchar list \<Rightarrow> uint8 \<Rightarrow> uint8 \<Rightarrow> uint8 \<Rightarrow> 'f sel_arg"

(* @opt_range.h 409-412 SEL_ARG::cmp_min_to_min *)
definition cmp_min_to_min :: "'f sel_cmp \<Rightarrow> 'f sel_arg \<Rightarrow> 'f sel_arg \<Rightarrow> int" where
  "cmp_min_to_min sel_cmp s arg = sel_cmp (field s) (min_value s) (min_value arg) (min_flag s) (min_flag arg)"

(* @opt_range.h 413-416 SEL_ARG::cmp_min_to_max *)
definition cmp_min_to_max :: "'f sel_cmp \<Rightarrow> 'f sel_arg \<Rightarrow> 'f sel_arg \<Rightarrow> int" where
  "cmp_min_to_max sel_cmp s arg = sel_cmp (field s) (min_value s) (max_value arg) (min_flag s) (max_flag arg)"

(* @opt_range.h 417-420 SEL_ARG::cmp_max_to_max *)
definition cmp_max_to_max :: "'f sel_cmp \<Rightarrow> 'f sel_arg \<Rightarrow> 'f sel_arg \<Rightarrow> int" where
  "cmp_max_to_max sel_cmp s arg = sel_cmp (field s) (max_value s) (max_value arg) (max_flag s) (max_flag arg)"

(* @opt_range.h 421-424 SEL_ARG::cmp_max_to_min *)
definition cmp_max_to_min :: "'f sel_cmp \<Rightarrow> 'f sel_arg \<Rightarrow> 'f sel_arg \<Rightarrow> int" where
  "cmp_max_to_min sel_cmp s arg = sel_cmp (field s) (max_value s) (min_value arg) (max_flag s) (min_flag arg)"

(* @opt_range.h 375-382 SEL_ARG::is_same *)
definition is_same :: "'f sel_cmp \<Rightarrow> 'f sel_arg \<Rightarrow> 'f sel_arg \<Rightarrow> bool" where
  "is_same sel_cmp s arg =
     (if sa_type s \<noteq> sa_type arg \<or> part s \<noteq> part arg then False
      else if sa_type s \<noteq> KEY_RANGE then True
      else cmp_min_to_min sel_cmp s arg = 0 \<and> cmp_max_to_max sel_cmp s arg = 0)"

text \<open>The loop over the two interval lists; the result holds when both lists end together.\<close>

(* @opt_range.h 399-403 SEL_ARG::all_same *)
partial_function (option) all_same_loop ::
  "'f sel_cmp \<Rightarrow> (nat \<Rightarrow> 'f sel_arg) \<Rightarrow> nat option \<Rightarrow> nat option \<Rightarrow> bool option" where
  "all_same_loop sel_cmp g cur cmp =
     (case (cur, cmp) of
        (Some a, Some b) \<Rightarrow> if is_same sel_cmp (g a) (g b) then all_same_loop sel_cmp g (sa_next (g a)) (sa_next (g b)) else Some False
      | _ \<Rightarrow> Some (cur = None \<and> cmp = None))"

(* @opt_range.h 389-404 SEL_ARG::all_same *)
definition all_same :: "'f sel_cmp \<Rightarrow> (nat \<Rightarrow> nat) \<Rightarrow> (nat \<Rightarrow> 'f sel_arg) \<Rightarrow> nat \<Rightarrow> nat \<Rightarrow> bool option" where
  "all_same sel_cmp first g a b =
     (if sa_type (g a) \<noteq> sa_type (g b) \<or> part (g a) \<noteq> part (g b) then Some False
      else if sa_type (g a) \<noteq> KEY_RANGE then Some True
      else if a = b then Some True
      else all_same_loop sel_cmp g (Some (first a)) (Some (first b)))"

(* @opt_range.h 405-405 SEL_ARG::merge_flags *)
definition merge_flags :: "'f sel_arg \<Rightarrow> 'f sel_arg \<Rightarrow> 'f sel_arg" where
  "merge_flags s arg = s\<lparr>maybe_flag := maybe_flag s OR maybe_flag arg\<rparr>"

(* @opt_range.h 406-406 SEL_ARG::maybe_smaller *)
definition maybe_smaller :: "'f sel_arg \<Rightarrow> 'f sel_arg" where
  "maybe_smaller s = s\<lparr>maybe_flag := 1\<rparr>"

(* @opt_range.h 408-408 SEL_ARG::is_null_interval *)
definition is_null_interval :: "'f sel_arg \<Rightarrow> bool option" where
  "is_null_interval s =
     (if maybe_null s \<noteq> 0 then (case max_value s of [] \<Rightarrow> None | b # _ \<Rightarrow> Some (b = 1)) else Some False)"

(* @opt_range.h 425-449 SEL_ARG::clone_and *)
definition clone_and :: "'f sel_cmp \<Rightarrow> 'f sel_new \<Rightarrow> 'f sel_arg \<Rightarrow> 'f sel_arg \<Rightarrow> 'f sel_arg" where
  "clone_and sel_cmp new_sel_arg s arg =
     (let (new_min, flag_min) = (if cmp_min_to_min sel_cmp s arg \<ge> 0 then (min_value s, min_flag s) else (min_value arg, min_flag arg));
          (new_max, flag_max) = (if cmp_max_to_max sel_cmp s arg \<le> 0 then (max_value s, max_flag s) else (max_value arg, max_flag arg))
      in new_sel_arg (field s) (part s) new_min new_max flag_min flag_max
           (if maybe_flag s \<noteq> 0 \<and> maybe_flag arg \<noteq> 0 then 1 else 0))"

(* @opt_range.h 450-455 SEL_ARG::clone_first *)
definition clone_first :: "'f sel_new \<Rightarrow> 'f sel_arg \<Rightarrow> 'f sel_arg \<Rightarrow> 'f sel_arg" where
  "clone_first new_sel_arg s arg =
     new_sel_arg (field s) (part s) (min_value s) (min_value arg) (min_flag s)
       (if min_flag arg AND NEAR_MIN \<noteq> 0 then 0 else NEAR_MAX) (maybe_flag s OR maybe_flag arg)"

(* @opt_range.h 456-460 SEL_ARG::clone_last *)
definition clone_last :: "'f sel_new \<Rightarrow> 'f sel_arg \<Rightarrow> 'f sel_arg \<Rightarrow> 'f sel_arg" where
  "clone_last new_sel_arg s arg =
     new_sel_arg (field s) (part s) (min_value s) (max_value arg) (min_flag s) (max_flag arg) (maybe_flag s OR maybe_flag arg)"

(* @opt_range.h 463-474 SEL_ARG::copy_min *)
definition copy_min :: "'f sel_cmp \<Rightarrow> 'f sel_arg \<Rightarrow> 'f sel_arg \<Rightarrow> 'f sel_arg \<times> bool" where
  "copy_min sel_cmp s arg =
     (if cmp_min_to_min sel_cmp s arg > 0
      then let s1 = s\<lparr>min_value := min_value arg, min_flag := min_flag arg\<rparr>
           in if max_flag s1 AND (NO_MAX_RANGE OR NO_MIN_RANGE) = NO_MAX_RANGE OR NO_MIN_RANGE then (s1, True)
              else (s1\<lparr>maybe_flag := maybe_flag s1 OR maybe_flag arg\<rparr>, False)
      else (s\<lparr>maybe_flag := maybe_flag s OR maybe_flag arg\<rparr>, False))"

(* @opt_range.h 475-486 SEL_ARG::copy_max *)
definition copy_max :: "'f sel_cmp \<Rightarrow> 'f sel_arg \<Rightarrow> 'f sel_arg \<Rightarrow> 'f sel_arg \<times> bool" where
  "copy_max sel_cmp s arg =
     (if cmp_max_to_max sel_cmp s arg \<le> 0
      then let s1 = s\<lparr>max_value := max_value arg, max_flag := max_flag arg\<rparr>
           in if max_flag s1 AND (NO_MAX_RANGE OR NO_MIN_RANGE) = NO_MAX_RANGE OR NO_MIN_RANGE then (s1, True)
              else (s1\<lparr>maybe_flag := maybe_flag s1 OR maybe_flag arg\<rparr>, False)
      else (s\<lparr>maybe_flag := maybe_flag s OR maybe_flag arg\<rparr>, False))"

(* @opt_range.h 488-491 SEL_ARG::copy_min_to_min *)
definition copy_min_to_min :: "'f sel_arg \<Rightarrow> 'f sel_arg \<Rightarrow> 'f sel_arg" where
  "copy_min_to_min s arg = s\<lparr>min_value := min_value arg, min_flag := min_flag arg\<rparr>"

(* @opt_range.h 492-496 SEL_ARG::copy_min_to_max *)
definition copy_min_to_max :: "'f sel_arg \<Rightarrow> 'f sel_arg \<Rightarrow> 'f sel_arg" where
  "copy_min_to_max s arg =
     s\<lparr>max_value := min_value arg, max_flag := (if min_flag arg AND NEAR_MIN \<noteq> 0 then 0 else NEAR_MAX)\<rparr>"

(* @opt_range.h 497-501 SEL_ARG::copy_max_to_min *)
definition copy_max_to_min :: "'f sel_arg \<Rightarrow> 'f sel_arg \<Rightarrow> 'f sel_arg" where
  "copy_max_to_min s arg =
     s\<lparr>min_value := max_value arg, min_flag := (if max_flag arg AND NEAR_MAX \<noteq> 0 then 0 else NEAR_MIN)\<rparr>"

(* @opt_range.h 686-689 SEL_ARG::simple_key *)
definition simple_key :: "'f sel_arg \<Rightarrow> bool" where
  "simple_key s \<longleftrightarrow> next_key_part s = None \<and> elements s = 1"

(* @opt_range.h 746-770 SEL_ARG::is_singlepoint *)
definition is_singlepoint :: "('f \<Rightarrow> uchar list \<Rightarrow> uchar list \<Rightarrow> int) \<Rightarrow> 'f sel_arg \<Rightarrow> bool option" where
  "is_singlepoint key_cmp s =
     (if min_flag s \<noteq> 0 \<or> max_flag s \<noteq> 0 then Some False
      else if maybe_null s \<noteq> 0 then
        (case (min_value s, max_value s) of
           (a # min_val, b # max_val) \<Rightarrow>
             if a \<noteq> b then Some False else if a \<noteq> 0 then Some True else Some (key_cmp (field s) min_val max_val = 0)
         | _ \<Rightarrow> None)
      else Some (key_cmp (field s) (min_value s) (max_value s) = 0))"

section \<open>Keys\<close>

text \<open>The image of a value in a key: a null is the byte 1 and zeros, other values are copied.\<close>

(* @opt_range.h 510-516 SEL_ARG::store_min *)
definition key_image :: "uint8 \<Rightarrow> uchar list \<Rightarrow> nat \<Rightarrow> uchar list option" where
  "key_image nullable val len =
     (if nullable \<noteq> 0 \<and> val = [] then None
      else if nullable \<noteq> 0 \<and> hd val \<noteq> 0 then (if len = 0 then None else Some (1 # replicate (len - 1) 0))
      else if len \<le> length val then Some (take len val) else None)"

(* @opt_range.h 503-521 SEL_ARG::store_min *)
definition store_min :: "'f sel_arg \<Rightarrow> nat \<Rightarrow> uchar list \<Rightarrow> uint \<Rightarrow> (uint \<times> uchar list) option" where
  "store_min s len min_key min_key_flag =
     (if min_flag s AND GEOM_FLAG \<noteq> 0 \<or>
         min_flag s AND NO_MIN_RANGE = 0 \<and> min_key_flag AND (NO_MIN_RANGE OR NEAR_MIN) = 0
      then do { img \<leftarrow> key_image (maybe_null s) (min_value s) len; Some (1, min_key @ img) }
      else Some (0, min_key))"

(* @opt_range.h 523-539 SEL_ARG::store_max *)
definition store_max :: "'f sel_arg \<Rightarrow> nat \<Rightarrow> uchar list \<Rightarrow> uint \<Rightarrow> (uint \<times> uchar list) option" where
  "store_max s len max_key max_key_flag =
     (if max_flag s AND NO_MAX_RANGE = 0 \<and> max_key_flag AND (NO_MAX_RANGE OR NEAR_MAX) = 0
      then do { img \<leftarrow> key_image (maybe_null s) (max_value s) len; Some (1, max_key @ img) }
      else Some (0, max_key))"

definition reverse_part :: "(nat \<Rightarrow> key_part) \<Rightarrow> uint8 \<Rightarrow> bool" where
  "reverse_part kp p \<longleftrightarrow> kp_flag (kp (unat p)) AND HA_REVERSE_SORT \<noteq> 0"

(* @opt_range.h 542-555 SEL_ARG::store_min_max *)
definition store_min_max ::
  "(nat \<Rightarrow> key_part) \<Rightarrow> 'f sel_arg \<Rightarrow> nat \<Rightarrow> uchar list \<Rightarrow> uint \<Rightarrow> uchar list \<Rightarrow> uint \<Rightarrow> uint \<Rightarrow> uint \<Rightarrow>
   (uchar list \<times> uchar list \<times> uint \<times> uint) option" where
  "store_min_max kp s len min_key minf max_key maxf min_part max_part =
     (if reverse_part kp (part s)
      then do { (a, max_key') \<leftarrow> store_min s len max_key minf;
                (b, min_key') \<leftarrow> store_max s len min_key maxf;
                Some (min_key', max_key', min_part + b, max_part + a) }
      else do { (a, min_key') \<leftarrow> store_min s len min_key minf;
                (b, max_key') \<leftarrow> store_max s len max_key maxf;
                Some (min_key', max_key', min_part + a, max_part + b) })"

(* @opt_range.h 560-563 SEL_ARG::get_min_flag *)
definition get_min_flag :: "(nat \<Rightarrow> key_part) \<Rightarrow> 'f sel_arg \<Rightarrow> uint" where
  "get_min_flag kp s = (if reverse_part kp (part s) then invert_max_flag (ucast (max_flag s)) else ucast (min_flag s))"

(* @opt_range.h 568-571 SEL_ARG::get_max_flag *)
definition get_max_flag :: "(nat \<Rightarrow> key_part) \<Rightarrow> 'f sel_arg \<Rightarrow> uint" where
  "get_max_flag kp s = (if reverse_part kp (part s) then invert_min_flag (ucast (min_flag s)) else ucast (max_flag s))"

(* @opt_range.h 573-576 SEL_ARG::index_order_prev *)
definition index_order_prev :: "(nat \<Rightarrow> key_part) \<Rightarrow> 'f sel_arg \<Rightarrow> nat option" where
  "index_order_prev kp s = (if reverse_part kp (part s) then sa_next s else sa_prev s)"

(* @opt_range.h 578-581 SEL_ARG::index_order_next *)
definition index_order_next :: "(nat \<Rightarrow> key_part) \<Rightarrow> 'f sel_arg \<Rightarrow> nat option" where
  "index_order_next kp s = (if reverse_part kp (part s) then sa_prev s else sa_next s)"

text \<open>The graph with its tree functions. The two functions call each other along \<open>next_key_part\<close>; the first argument bounds the
  depth.\<close>

record 'f sel_graph =
  node :: "nat \<Rightarrow> 'f sel_arg"
  sa_first :: "nat \<Rightarrow> nat"
  sa_last :: "nat \<Rightarrow> nat"

(* @opt_range.h 615-618 SEL_ARG::store_min_key *)
definition next_part :: "'f sel_graph \<Rightarrow> 'f sel_arg \<Rightarrow> uint \<Rightarrow> uint \<Rightarrow> uint \<Rightarrow> nat option" where
  "next_part g s last_part flags stop =
     (case next_key_part s of
        None \<Rightarrow> None
      | Some nkp \<Rightarrow> if sa_type (node g nkp) = KEY_RANGE \<and> ucast (part s) \<noteq> last_part \<and>
                       unat (part (node g nkp)) = unat (part s) + 1 \<and> flags AND stop = 0 then Some nkp else None)"

(* @opt_range.h 601-671 SEL_ARG::store_min_key, SEL_ARG::store_max_key *)
fun store_min_key :: "nat \<Rightarrow> 'f sel_graph \<Rightarrow> (nat \<Rightarrow> key_part) \<Rightarrow> nat \<Rightarrow> uchar list \<Rightarrow> uint \<Rightarrow> uint \<Rightarrow> bool \<Rightarrow> (uint \<times> uchar list \<times> uint) option"
  and store_max_key :: "nat \<Rightarrow> 'f sel_graph \<Rightarrow> (nat \<Rightarrow> key_part) \<Rightarrow> nat \<Rightarrow> uchar list \<Rightarrow> uint \<Rightarrow> uint \<Rightarrow> bool \<Rightarrow> (uint \<times> uchar list \<times> uint) option"
where
  "store_min_key 0 g key t range_key range_key_flag last_part start_key = None"
| "store_min_key (Suc n) g key t range_key range_key_flag last_part start_key =
     (let s = node g (sa_first g t) in
      do { (res, rk) \<leftarrow> store_min s (unat (kp_store_length (key (unat (part s))))) range_key range_key_flag;
           if res = 0 then Some (0, rk, range_key_flag)
           else let fl = range_key_flag OR ucast (min_flag s); asc = (\<not> reverse_part key (part s)) in
             case next_part g s last_part fl (NO_MIN_RANGE OR NEAR_MIN) of
               None \<Rightarrow> Some (res, rk, fl)
             | Some nkp \<Rightarrow>
                 if start_key = asc
                 then do { (r, rk', fl') \<leftarrow> store_min_key n g key nkp rk fl last_part start_key; Some (res + r, rk', fl') }
                 else do { (r, rk', tmp_flag) \<leftarrow> store_max_key n g key nkp rk (invert_min_flag fl) last_part start_key;
                           Some (res + r, rk', invert_max_flag tmp_flag) } })"
| "store_max_key 0 g key t range_key range_key_flag last_part start_key = None"
| "store_max_key (Suc n) g key t range_key range_key_flag last_part start_key =
     (let s = node g (sa_last g t) in
      do { (res, rk) \<leftarrow> store_max s (unat (kp_store_length (key (unat (part s))))) range_key range_key_flag;
           if res = 0 then Some (0, rk, range_key_flag)
           else let fl = range_key_flag OR ucast (max_flag s); asc = (\<not> reverse_part key (part s)) in
             case next_part g s last_part fl (NO_MAX_RANGE OR NEAR_MAX) of
               None \<Rightarrow> Some (res, rk, fl)
             | Some nkp \<Rightarrow>
                 if (\<not> start_key \<and> asc) \<or> (start_key \<and> \<not> asc)
                 then do { (r, rk', fl') \<leftarrow> store_max_key n g key nkp rk fl last_part start_key; Some (res + r, rk', fl') }
                 else do { (r, rk', tmp_flag) \<leftarrow> store_min_key n g key nkp rk (invert_max_flag fl) last_part start_key;
                           Some (res + r, rk', invert_min_flag tmp_flag) } })"

section \<open>Ranges for the storage engine\<close>

(* @my_base.h 83-97 ha_rkey_function *)
datatype ha_rkey_function = HA_READ_KEY_EXACT | HA_READ_KEY_OR_NEXT | HA_READ_KEY_OR_PREV | HA_READ_AFTER_KEY | HA_READ_BEFORE_KEY
  | HA_READ_PREFIX | HA_READ_PREFIX_LAST | HA_READ_PREFIX_LAST_OR_PREV | HA_READ_MBR_CONTAIN | HA_READ_MBR_INTERSECT
  | HA_READ_MBR_WITHIN | HA_READ_MBR_DISJOINT | HA_READ_MBR_EQUAL

(* @my_base.h 625-631 key_range *)
record key_range =
  kr_key :: "uchar list"
  kr_length :: uint
  kr_keypart_map :: uint32
  kr_flag :: ha_rkey_function

(* @opt_range.h 930-935 QUICK_RANGE *)
record quick_range =
  qr_min_key :: "uchar list"
  qr_max_key :: "uchar list"
  qr_min_length :: uint16
  qr_max_length :: uint16
  qr_flag :: uint16
  qr_min_keypart_map :: uint32
  qr_max_keypart_map :: uint32

(* @opt_range.h 988-994 QUICK_RANGE::make_min_endpoint *)
definition make_min_endpoint :: "quick_range \<Rightarrow> key_range" where
  "make_min_endpoint q =
     \<lparr>kr_key = qr_min_key q, kr_length = ucast (qr_min_length q), kr_keypart_map = qr_min_keypart_map q,
      kr_flag = (if qr_flag q AND NEAR_MIN \<noteq> 0 then HA_READ_AFTER_KEY
                 else if qr_flag q AND EQ_RANGE \<noteq> 0 then HA_READ_KEY_EXACT else HA_READ_KEY_OR_NEXT)\<rparr>"

(* @opt_range.h 972-977 QUICK_RANGE::make_min_endpoint *)
definition make_min_endpoint_prefix :: "quick_range \<Rightarrow> uint \<Rightarrow> uint32 \<Rightarrow> key_range" where
  "make_min_endpoint_prefix q prefix_length keypart_map =
     (let kr = make_min_endpoint q
      in kr\<lparr>kr_length := min (kr_length kr) prefix_length, kr_keypart_map := kr_keypart_map kr AND keypart_map\<rparr>)"

(* @opt_range.h 1026-1035 QUICK_RANGE::make_max_endpoint *)
definition make_max_endpoint :: "quick_range \<Rightarrow> key_range" where
  "make_max_endpoint q =
     \<lparr>kr_key = qr_max_key q, kr_length = ucast (qr_max_length q), kr_keypart_map = qr_max_keypart_map q,
      kr_flag = (if qr_flag q AND NEAR_MAX \<noteq> 0 then HA_READ_BEFORE_KEY else HA_READ_AFTER_KEY)\<rparr>"

(* @opt_range.h 1010-1015 QUICK_RANGE::make_max_endpoint *)
definition make_max_endpoint_prefix :: "quick_range \<Rightarrow> uint \<Rightarrow> uint32 \<Rightarrow> key_range" where
  "make_max_endpoint_prefix q prefix_length keypart_map =
     (let kr = make_max_endpoint q
      in kr\<lparr>kr_length := min (kr_length kr) prefix_length, kr_keypart_map := kr_keypart_map kr AND keypart_map\<rparr>)"

section \<open>Intervals as sets\<close>

text \<open>An endpoint is a place on the line of the values of the field: a value, a place just above or just below it, or one of
  the two ends of the line. Values are counted in steps of three to make room for the places between.\<close>

datatype bound = Minus_inf | At int | Plus_inf

instantiation bound :: linorder
begin

fun less_eq_bound :: "bound \<Rightarrow> bound \<Rightarrow> bool" where
  "less_eq_bound Minus_inf b = True"
| "less_eq_bound (At a) Minus_inf = False"
| "less_eq_bound (At a) (At b) = (a \<le> b)"
| "less_eq_bound (At a) Plus_inf = True"
| "less_eq_bound Plus_inf b = (b = Plus_inf)"

definition less_bound :: "bound \<Rightarrow> bound \<Rightarrow> bool" where
  "less_bound a b \<longleftrightarrow> a \<le> b \<and> \<not> b \<le> a"

instance
proof
  fix a b c :: bound
  show "a < b \<longleftrightarrow> a \<le> b \<and> \<not> b \<le> a" by (rule less_bound_def)
  show "a \<le> a" by (cases a) auto
  show "a \<le> b \<Longrightarrow> b \<le> c \<Longrightarrow> a \<le> c" by (cases a; cases b; cases c) auto
  show "a \<le> b \<Longrightarrow> b \<le> a \<Longrightarrow> a = b" by (cases a; cases b) auto
  show "a \<le> b \<or> b \<le> a" by (cases a; cases b) auto
qed

end

lemma At_less [simp]: "At a < At b \<longleftrightarrow> a < b" "Minus_inf < At b" "At a < Plus_inf" "Minus_inf < Plus_inf"
  by (auto simp: less_bound_def)

definition endpoint :: "(uchar list \<Rightarrow> int) \<Rightarrow> uchar list \<Rightarrow> uint8 \<Rightarrow> bound" where
  "endpoint v val fl =
     (if fl AND NO_MIN_RANGE \<noteq> 0 then Minus_inf
      else if fl AND NO_MAX_RANGE \<noteq> 0 then Plus_inf
      else At (3 * v val + (if fl AND NEAR_MIN \<noteq> 0 then 1 else if fl AND NEAR_MAX \<noteq> 0 then - 1 else 0)))"

definition lower :: "(uchar list \<Rightarrow> int) \<Rightarrow> 'f sel_arg \<Rightarrow> bound" where
  "lower v s = endpoint v (min_value s) (min_flag s)"

definition upper :: "(uchar list \<Rightarrow> int) \<Rightarrow> 'f sel_arg \<Rightarrow> bound" where
  "upper v s = endpoint v (max_value s) (max_flag s)"

definition members :: "(uchar list \<Rightarrow> int) \<Rightarrow> 'f sel_arg \<Rightarrow> int set" where
  "members v s = {x. lower v s \<le> At (3 * x) \<and> At (3 * x) \<le> upper v s}"

definition min_flags_ok :: "uint8 \<Rightarrow> bool" where
  "min_flags_ok fl \<longleftrightarrow> fl \<in> {0, NEAR_MIN, NO_MIN_RANGE}"

definition max_flags_ok :: "uint8 \<Rightarrow> bool" where
  "max_flags_ok fl \<longleftrightarrow> fl \<in> {0, NEAR_MAX, NO_MAX_RANGE}"

definition wf_interval :: "'f sel_arg \<Rightarrow> bool" where
  "wf_interval s \<longleftrightarrow> min_flags_ok (min_flag s) \<and> max_flags_ok (max_flag s)"

text \<open>What the code relies on: the sign of \<open>sel_cmp\<close> is the order of the endpoints, and the constructor stores its arguments.\<close>

definition sel_cmp_law :: "'f sel_cmp \<Rightarrow> ('f \<Rightarrow> uchar list \<Rightarrow> int) \<Rightarrow> bool" where
  "sel_cmp_law sel_cmp v \<longleftrightarrow>
     (\<forall>f a b fa fb. (min_flags_ok fa \<or> max_flags_ok fa) \<and> (min_flags_ok fb \<or> max_flags_ok fb) \<longrightarrow>
        (sel_cmp f a b fa fb < 0 \<longleftrightarrow> endpoint (v f) a fa < endpoint (v f) b fb) \<and>
        (sel_cmp f a b fa fb = 0 \<longleftrightarrow> endpoint (v f) a fa = endpoint (v f) b fb))"

definition sel_new_law :: "'f sel_new \<Rightarrow> bool" where
  "sel_new_law new \<longleftrightarrow>
     (\<forall>f p a b fa fb m. field (new f p a b fa fb m) = f \<and> part (new f p a b fa fb m) = p \<and>
        min_value (new f p a b fa fb m) = a \<and> max_value (new f p a b fa fb m) = b \<and>
        min_flag (new f p a b fa fb m) = fa \<and> max_flag (new f p a b fa fb m) = fb)"

lemmas flag_defs = NO_MIN_RANGE_def NO_MAX_RANGE_def NEAR_MIN_def NEAR_MAX_def

lemma flags_ok_cases:
  "min_flags_ok fl \<Longrightarrow> fl = 0 \<or> fl = 4 \<or> fl = 1" "max_flags_ok fl \<Longrightarrow> fl = 0 \<or> fl = 8 \<or> fl = 2"
  by (auto simp: min_flags_ok_def max_flags_ok_def flag_defs)

lemma cmp_laws:
  assumes "sel_cmp_law sel_cmp v" "wf_interval s" "wf_interval arg"
  shows "cmp_min_to_min sel_cmp s arg \<ge> 0 \<longleftrightarrow> lower (v (field s)) arg \<le> lower (v (field s)) s"
    "cmp_min_to_min sel_cmp s arg > 0 \<longleftrightarrow> lower (v (field s)) arg < lower (v (field s)) s"
    "cmp_max_to_max sel_cmp s arg \<le> 0 \<longleftrightarrow> upper (v (field s)) s \<le> upper (v (field s)) arg"
    "cmp_min_to_min sel_cmp s arg = 0 \<longleftrightarrow> lower (v (field s)) s = lower (v (field s)) arg"
    "cmp_max_to_max sel_cmp s arg = 0 \<longleftrightarrow> upper (v (field s)) s = upper (v (field s)) arg"
proof -
  have mm: "(cmp_min_to_min sel_cmp s arg < 0 \<longleftrightarrow> lower (v (field s)) s < lower (v (field s)) arg) \<and>
      (cmp_min_to_min sel_cmp s arg = 0 \<longleftrightarrow> lower (v (field s)) s = lower (v (field s)) arg)"
    using assms unfolding sel_cmp_law_def wf_interval_def cmp_min_to_min_def lower_def by blast
  have xx: "(cmp_max_to_max sel_cmp s arg < 0 \<longleftrightarrow> upper (v (field s)) s < upper (v (field s)) arg) \<and>
      (cmp_max_to_max sel_cmp s arg = 0 \<longleftrightarrow> upper (v (field s)) s = upper (v (field s)) arg)"
    using assms unfolding sel_cmp_law_def wf_interval_def cmp_max_to_max_def upper_def by blast
  show "cmp_min_to_min sel_cmp s arg \<ge> 0 \<longleftrightarrow> lower (v (field s)) arg \<le> lower (v (field s)) s"
    using mm by (metis not_le)
  show "cmp_min_to_min sel_cmp s arg > 0 \<longleftrightarrow> lower (v (field s)) arg < lower (v (field s)) s"
    using mm by (metis less_linear not_less_iff_gr_or_eq)
  show "cmp_max_to_max sel_cmp s arg \<le> 0 \<longleftrightarrow> upper (v (field s)) s \<le> upper (v (field s)) arg"
    using xx by (metis le_less)
  show "cmp_min_to_min sel_cmp s arg = 0 \<longleftrightarrow> lower (v (field s)) s = lower (v (field s)) arg"
    "cmp_max_to_max sel_cmp s arg = 0 \<longleftrightarrow> upper (v (field s)) s = upper (v (field s)) arg"
    using mm xx by blast+
qed

text \<open>The complement of a lower endpoint is the upper endpoint that \<open>clone_first\<close> and \<open>copy_min_to_max\<close> make of it, and dually.\<close>

lemma below_lower:
  assumes "min_flag s \<in> {0, NEAR_MIN}"
  shows "At (3 * x) \<le> endpoint v (min_value s) (if min_flag s AND NEAR_MIN \<noteq> 0 then 0 else NEAR_MAX) \<longleftrightarrow> \<not> lower v s \<le> At (3 * x)"
  using assms by (auto simp: lower_def endpoint_def flag_defs)

lemma above_upper:
  assumes "max_flag s \<in> {0, NEAR_MAX}"
  shows "endpoint v (max_value s) (if max_flag s AND NEAR_MAX \<noteq> 0 then 0 else NEAR_MIN) \<le> At (3 * x) \<longleftrightarrow> \<not> At (3 * x) \<le> upper v s"
  using assms by (auto simp: upper_def endpoint_def flag_defs)

lemma new_members:
  assumes "sel_new_law new"
  shows "members v (new f p a b fa fb m) = {x. endpoint v a fa \<le> At (3 * x) \<and> At (3 * x) \<le> endpoint v b fb}"
  using assms by (simp add: members_def lower_def upper_def sel_new_law_def)

lemma clone_and_members:
  assumes "sel_cmp_law sel_cmp v" "sel_new_law new" "wf_interval s" "wf_interval arg"
  shows "members (v (field s)) (clone_and sel_cmp new s arg) = members (v (field s)) s \<inter> members (v (field s)) arg"
proof -
  note c = cmp_laws [OF assms(1,3,4)]
  have "members (v (field s)) (clone_and sel_cmp new s arg) =
      {x. (if lower (v (field s)) arg \<le> lower (v (field s)) s then lower (v (field s)) s else lower (v (field s)) arg) \<le> At (3 * x) \<and>
          At (3 * x) \<le> (if upper (v (field s)) s \<le> upper (v (field s)) arg then upper (v (field s)) s else upper (v (field s)) arg)}"
    unfolding clone_and_def c(1,3) by (simp add: new_members [OF assms(2)] lower_def upper_def)
  also have "\<dots> = {x. lower (v (field s)) s \<le> At (3 * x) \<and> lower (v (field s)) arg \<le> At (3 * x) \<and>
      At (3 * x) \<le> upper (v (field s)) s \<and> At (3 * x) \<le> upper (v (field s)) arg}"
    by (auto simp: not_le intro: order_trans dest: less_imp_le order_trans)
  finally show ?thesis by (auto simp: members_def)
qed

text \<open>The widening operations never see the whole line: the flags of one endpoint cannot hold both infinite flags.\<close>

lemma no_full_range: "max_flags_ok fl \<Longrightarrow> fl AND (NO_MAX_RANGE OR NO_MIN_RANGE) \<noteq> NO_MAX_RANGE OR NO_MIN_RANGE"
  using flags_ok_cases(2) [of fl] by (auto simp: flag_defs)

lemma copy_min_members:
  assumes "sel_cmp_law sel_cmp v" "wf_interval s" "wf_interval arg"
  shows "snd (copy_min sel_cmp s arg) = False \<and>
    members (v (field s)) (fst (copy_min sel_cmp s arg)) =
      {x. min (lower (v (field s)) s) (lower (v (field s)) arg) \<le> At (3 * x) \<and> At (3 * x) \<le> upper (v (field s)) s}"
proof -
  note c = cmp_laws [OF assms(1,2,3)]
  have "max_flags_ok (max_flag s)" using assms(2) by (simp add: wf_interval_def)
  then have nf: "max_flag s AND (NO_MAX_RANGE OR NO_MIN_RANGE) \<noteq> NO_MAX_RANGE OR NO_MIN_RANGE" by (rule no_full_range)
  show ?thesis using nf unfolding copy_min_def c(2) by (auto simp: Let_def members_def lower_def upper_def min_def)
qed

lemma copy_max_members:
  assumes "sel_cmp_law sel_cmp v" "wf_interval s" "wf_interval arg"
  shows "snd (copy_max sel_cmp s arg) = False \<and>
    members (v (field s)) (fst (copy_max sel_cmp s arg)) =
      {x. lower (v (field s)) s \<le> At (3 * x) \<and> At (3 * x) \<le> max (upper (v (field s)) s) (upper (v (field s)) arg)}"
proof -
  note c = cmp_laws [OF assms(1,2,3)]
  have "max_flags_ok (max_flag arg)" using assms(3) by (simp add: wf_interval_def)
  then have nf: "max_flag arg AND (NO_MAX_RANGE OR NO_MIN_RANGE) \<noteq> NO_MAX_RANGE OR NO_MIN_RANGE" by (rule no_full_range)
  show ?thesis using nf unfolding copy_max_def c(3) by (auto simp: Let_def members_def lower_def upper_def max_def)
qed

text \<open>C27: The operations on intervals as operations on sets of values. \<open>clone_and\<close> is the intersection; \<open>clone_first\<close> and \<open>copy_min_to_max\<close> keep
  the part below the other interval, \<open>copy_max_to_min\<close> the part above it, \<open>clone_last\<close> reaches from the own lower end to the other's
  upper end; \<open>copy_min\<close> and \<open>copy_max\<close> widen to the lower and higher of the two ends; two intervals are the same when their ends are.
  An interval with an infinite end on the side that is taken is excluded where the code makes an endpoint of its value.\<close>

theorem sel_arg_sets:
  assumes "sel_cmp_law sel_cmp v" "sel_new_law new" "wf_interval s" "wf_interval arg"
  defines "M \<equiv> members (v (field s))" and "lo \<equiv> \<lambda>i x. lower (v (field s)) i \<le> At (3 * x)" and "up \<equiv> \<lambda>i x. At (3 * x) \<le> upper (v (field s)) i"
  shows "M (clone_and sel_cmp new s arg) = M s \<inter> M arg \<and>
     (min_flag arg \<noteq> NO_MIN_RANGE \<longrightarrow> M (clone_first new s arg) = {x. lo s x \<and> \<not> lo arg x} \<and>
                                       M (copy_min_to_max s arg) = {x. lo s x \<and> \<not> lo arg x}) \<and>
     (max_flag arg \<noteq> NO_MAX_RANGE \<longrightarrow> M (copy_max_to_min s arg) = {x. \<not> up arg x \<and> up s x}) \<and>
     M (clone_last new s arg) = {x. lo s x \<and> up arg x} \<and>
     M (copy_min_to_min s arg) = {x. lo arg x \<and> up s x} \<and>
     M (fst (copy_min sel_cmp s arg)) = {x. (lo s x \<or> lo arg x) \<and> up s x} \<and>
     M (fst (copy_max sel_cmp s arg)) = {x. lo s x \<and> (up s x \<or> up arg x)} \<and>
     (sa_type s = KEY_RANGE \<and> sa_type arg = KEY_RANGE \<and> part s = part arg \<and> is_same sel_cmp s arg \<longrightarrow> M s = M arg)"
proof -
  have mf: "min_flag arg \<in> {0, NEAR_MIN}" if "min_flag arg \<noteq> NO_MIN_RANGE" using that assms(4) by (auto simp: wf_interval_def min_flags_ok_def)
  have xf: "max_flag arg \<in> {0, NEAR_MAX}" if "max_flag arg \<noteq> NO_MAX_RANGE" using that assms(4) by (auto simp: wf_interval_def max_flags_ok_def)
  have cf: "M (clone_first new s arg) = {x. lo s x \<and> \<not> lo arg x}" "M (copy_min_to_max s arg) = {x. lo s x \<and> \<not> lo arg x}"
    if "min_flag arg \<noteq> NO_MIN_RANGE"
  proof -
    show "M (clone_first new s arg) = {x. lo s x \<and> \<not> lo arg x}"
      unfolding M_def clone_first_def new_members [OF assms(2)] below_lower [OF mf [OF that]] by (simp add: lo_def lower_def)
    show "M (copy_min_to_max s arg) = {x. lo s x \<and> \<not> lo arg x}"
      using below_lower [OF mf [OF that]] unfolding M_def lo_def copy_min_to_max_def by (simp add: members_def lower_def upper_def)
  qed
  have cx: "M (copy_max_to_min s arg) = {x. \<not> up arg x \<and> up s x}" if "max_flag arg \<noteq> NO_MAX_RANGE"
    using above_upper [OF xf [OF that]] unfolding M_def up_def copy_max_to_min_def by (simp add: members_def lower_def upper_def)
  have cl: "M (clone_last new s arg) = {x. lo s x \<and> up arg x}" "M (copy_min_to_min s arg) = {x. lo arg x \<and> up s x}"
    unfolding M_def lo_def up_def clone_last_def copy_min_to_min_def new_members [OF assms(2)]
    by (simp_all add: members_def lower_def upper_def)
  have cm: "M (fst (copy_min sel_cmp s arg)) = {x. (lo s x \<or> lo arg x) \<and> up s x}"
    "M (fst (copy_max sel_cmp s arg)) = {x. lo s x \<and> (up s x \<or> up arg x)}"
    using copy_min_members [OF assms(1,3,4)] copy_max_members [OF assms(1,3,4)] unfolding M_def lo_def up_def
    by (simp_all add: min_le_iff_disj le_max_iff_disj)
  have sm: "M s = M arg" if "sa_type s = KEY_RANGE" "sa_type arg = KEY_RANGE" "part s = part arg" "is_same sel_cmp s arg"
    using that cmp_laws(4,5) [OF assms(1,3,4)] by (simp add: M_def members_def is_same_def)
  show ?thesis
    using clone_and_members [OF assms(1-4)] cf cx cl cm sm unfolding M_def [symmetric] by blast
qed

text \<open>The lists of intervals of two trees are compared element by element; the loop ends with the shorter list.\<close>

fun interval_list :: "(nat \<Rightarrow> 'f sel_arg) \<Rightarrow> nat option \<Rightarrow> nat list \<Rightarrow> bool" where
  "interval_list g a [] \<longleftrightarrow> a = None"
| "interval_list g a (i # is) \<longleftrightarrow> a = Some i \<and> interval_list g (sa_next (g i)) is"

lemma all_same_loop_correct:
  "interval_list g a is \<Longrightarrow> interval_list g b js \<Longrightarrow>
     all_same_loop sel_cmp g a b = Some (list_all2 (\<lambda>i j. is_same sel_cmp (g i) (g j)) is js)"
proof (induction "is" arbitrary: a b js)
  case Nil
  then show ?case by (cases js) (simp_all add: all_same_loop.simps)
next
  case (Cons i is')
  then show ?case by (cases js) (subst all_same_loop.simps, simp)+
qed

text \<open>A field of one byte, ordered like its numbers, with a comparison and a constructor that meet the laws.\<close>

definition byte_value :: "uchar list \<Rightarrow> int" where
  "byte_value bs = (case bs of [] \<Rightarrow> 0 | b # _ \<Rightarrow> int (unat b))"

definition byte_cmp :: "unit sel_cmp" where
  "byte_cmp f a b fa fb =
     (if endpoint byte_value a fa < endpoint byte_value b fb then - 1 else if endpoint byte_value a fa = endpoint byte_value b fb then 0 else 1)"

definition byte_new :: "unit sel_new" where
  "byte_new f p a b fa fb m =
     \<lparr>min_flag = fa, max_flag = fb, maybe_flag = m, part = p, maybe_null = 0, elements = 1, field = f, min_value = a, max_value = b,
      sa_next = None, sa_prev = None, next_key_part = None, sa_type = KEY_RANGE\<rparr>"

lemma byte_laws: "sel_cmp_law byte_cmp (\<lambda>_. byte_value)" "sel_new_law byte_new"
  by (auto simp: sel_cmp_law_def byte_cmp_def sel_new_law_def byte_new_def)

lemma sel_arg_sets_witness:
  "members byte_value (clone_and byte_cmp byte_new (byte_new () 0 [1] [5] NEAR_MIN 0 0) (byte_new () 0 [3] [9] 0 NO_MAX_RANGE 0)) = {3..5}"
proof -
  let ?s = "byte_new () 0 [1] [5] NEAR_MIN 0 0" and ?a = "byte_new () 0 [3] [9] 0 NO_MAX_RANGE 0"
  have w: "wf_interval ?s" "wf_interval ?a" by (simp_all add: wf_interval_def byte_new_def min_flags_ok_def max_flags_ok_def)
  have "members byte_value ?s = {2..5}" "members byte_value ?a = {3..}"
    unfolding new_members [OF byte_laws(2)] by (auto simp: endpoint_def byte_value_def flag_defs)
  then show ?thesis using sel_arg_sets [OF byte_laws w] by auto
qed

text \<open>Widening that reaches the whole line. When \<open>copy_min\<close> or \<open>copy_max\<close> makes an interval without both ends, it returns 0 all the same:
  the test for the full range looks for both infinite flags in the flags of the upper end.\<close>

theorem widening_misses_full_range:
  assumes "sel_cmp_law sel_cmp v" "wf_interval s" "wf_interval arg"
  shows "(max_flag s = NO_MAX_RANGE \<and> min_flag arg = NO_MIN_RANGE \<longrightarrow>
        members (v (field s)) (fst (copy_min sel_cmp s arg)) = UNIV \<and> \<not> snd (copy_min sel_cmp s arg)) \<and>
     (min_flag s = NO_MIN_RANGE \<and> max_flag arg = NO_MAX_RANGE \<longrightarrow>
        members (v (field s)) (fst (copy_max sel_cmp s arg)) = UNIV \<and> \<not> snd (copy_max sel_cmp s arg))"
proof -
  have inf: "upper (v (field s)) i = Plus_inf" if "max_flag i = NO_MAX_RANGE" for i :: "'a sel_arg"
    using that by (simp add: upper_def endpoint_def flag_defs)
  have minf: "lower (v (field s)) i = Minus_inf" if "min_flag i = NO_MIN_RANGE" for i :: "'a sel_arg"
    using that by (simp add: lower_def endpoint_def flag_defs)
  show ?thesis
    using copy_min_members [OF assms] copy_max_members [OF assms] by (auto simp: inf minf min_le_iff_disj le_max_iff_disj)
qed

lemma widening_misses_full_range_witness:
  "\<not> snd (copy_min byte_cmp (byte_new () 0 [5] [] 0 NO_MAX_RANGE 0) (byte_new () 0 [] [3] NO_MIN_RANGE 0 0))"
proof -
  let ?s = "byte_new () 0 [5] [] 0 NO_MAX_RANGE 0" and ?a = "byte_new () 0 [] [3] NO_MIN_RANGE 0 0"
  have w: "wf_interval ?s" "wf_interval ?a" "max_flag ?s = NO_MAX_RANGE" "min_flag ?a = NO_MIN_RANGE"
    by (simp_all add: wf_interval_def byte_new_def min_flags_ok_def max_flags_ok_def)
  then show ?thesis using widening_misses_full_range [OF byte_laws(1) w(1,2)] by blast
qed

section \<open>Keys of a range\<close>

text \<open>Flag words: what is or-ed into them and what the stop masks see.\<close>

lemma stop_bits:
  fixes w u K N :: uint
  assumes "w AND K = 0" "u = 0 \<or> u = N" "K AND N = N" "N \<noteq> 0"
  shows "(w OR u) AND K = 0 \<longleftrightarrow> u = 0" "(w OR u) AND N \<noteq> 0 \<longleftrightarrow> u \<noteq> 0"
proof -
  have "w AND N = (w AND K) AND N" using assms(3) by (simp add: and.assoc)
  then have "w AND N = 0" using assms(1) by simp
  moreover have "N AND K = N" using assms(3) by (simp add: and.commute)
  ultimately show "(w OR u) AND K = 0 \<longleftrightarrow> u = 0" "(w OR u) AND N \<noteq> 0 \<longleftrightarrow> u \<noteq> 0"
    using assms by (auto simp: bit.conj_disj_distrib2)
qed

lemma min_stop:
  assumes "w AND (NO_MIN_RANGE OR NEAR_MIN) = (0 :: uint)" "fl = 0 \<or> fl = (NEAR_MIN :: uint8)"
  shows "(w OR ucast fl) AND (NO_MIN_RANGE OR NEAR_MIN) = 0 \<longleftrightarrow> fl = 0" "(w OR ucast fl) AND NEAR_MIN \<noteq> 0 \<longleftrightarrow> fl \<noteq> 0"
  using stop_bits [OF assms(1), of "ucast fl" NEAR_MIN] assms(2) by (auto simp: flag_defs)

lemma max_stop:
  assumes "w AND (NO_MAX_RANGE OR NEAR_MAX) = (0 :: uint)" "fl = 0 \<or> fl = (NEAR_MAX :: uint8)"
  shows "(w OR ucast fl) AND (NO_MAX_RANGE OR NEAR_MAX) = 0 \<longleftrightarrow> fl = 0" "(w OR ucast fl) AND NEAR_MAX \<noteq> 0 \<longleftrightarrow> fl \<noteq> 0"
  using stop_bits [OF assms(1), of "ucast fl" NEAR_MAX] assms(2) by (auto simp: flag_defs)

text \<open>The intervals of a tree are given by \<open>elems\<close>, the value of a key part by \<open>v\<close>, a row by the values of its key parts. A row satisfies
  a tree when the value of the key part lies in one of its intervals and the row satisfies the tree of the next key part there. A tree of
  another type than \<open>KEY_RANGE\<close> is no restriction.\<close>

inductive sat :: "'f sel_graph \<Rightarrow> (nat \<Rightarrow> nat set) \<Rightarrow> (nat \<Rightarrow> uchar list \<Rightarrow> int) \<Rightarrow> nat \<Rightarrow> (nat \<Rightarrow> int) \<Rightarrow> bool"
  for g elems v where
  sat_end: "i \<in> elems t \<Longrightarrow> p = unat (part (node g i)) \<Longrightarrow> x p \<in> members (v p) (node g i) \<Longrightarrow>
     next_key_part (node g i) = None \<Longrightarrow> sat g elems v t x"
| sat_free: "i \<in> elems t \<Longrightarrow> p = unat (part (node g i)) \<Longrightarrow> x p \<in> members (v p) (node g i) \<Longrightarrow>
     next_key_part (node g i) = Some nkp \<Longrightarrow> sa_type (node g nkp) \<noteq> KEY_RANGE \<Longrightarrow> sat g elems v t x"
| sat_next: "i \<in> elems t \<Longrightarrow> p = unat (part (node g i)) \<Longrightarrow> x p \<in> members (v p) (node g i) \<Longrightarrow>
     next_key_part (node g i) = Some nkp \<Longrightarrow> sat g elems v nkp x \<Longrightarrow> sat g elems v t x"

text \<open>What the code relies on of the graph. The intervals of a tree are for one key part, \<open>first\<close> and \<open>last\<close> are the lowest and highest of them and
  lie apart from the others; the values have the stored length of their key part.\<close>

definition tree_laws :: "'f sel_graph \<Rightarrow> (nat \<Rightarrow> nat set) \<Rightarrow> (nat \<Rightarrow> uchar list \<Rightarrow> int) \<Rightarrow> bool" where
  "tree_laws g elems v \<longleftrightarrow>
     (\<forall>t. sa_first g t \<in> elems t \<and> sa_last g t \<in> elems t \<and>
        (\<forall>i \<in> elems t. part (node g i) = part (node g t) \<and> wf_interval (node g i) \<and>
           (\<forall>x \<in> members (v (unat (part (node g i)))) (node g i).
              (i \<noteq> sa_first g t \<longrightarrow> min_flag (node g (sa_first g t)) \<noteq> NO_MIN_RANGE \<longrightarrow>
                 v (unat (part (node g i))) (min_value (node g (sa_first g t))) < x) \<and>
              (i \<noteq> sa_last g t \<longrightarrow> max_flag (node g (sa_last g t)) \<noteq> NO_MAX_RANGE \<longrightarrow>
                 x < v (unat (part (node g i))) (max_value (node g (sa_last g t)))))))"

definition values_ok :: "'f sel_graph \<Rightarrow> (nat \<Rightarrow> key_part) \<Rightarrow> (nat \<Rightarrow> uchar list \<Rightarrow> int) \<Rightarrow> bool" where
  "values_ok g key v \<longleftrightarrow>
     (\<forall>i. \<forall>w \<in> {min_value (node g i), max_value (node g i)}.
        \<exists>img. key_image (maybe_null (node g i)) w (unat (kp_store_length (key (unat (part (node g i)))))) = Some img \<and>
              v (unat (part (node g i))) img = v (unat (part (node g i))) w)"

text \<open>The values stored in a key, from key part \<open>p\<close> on, and the place of a row relative to them: \<open>up q\<close> tells that larger values of key part \<open>q\<close>
  lie beyond the key.\<close>

fun key_values :: "(nat \<Rightarrow> key_part) \<Rightarrow> (nat \<Rightarrow> uchar list \<Rightarrow> int) \<Rightarrow> nat \<Rightarrow> nat \<Rightarrow> uchar list \<Rightarrow> int list" where
  "key_values key v p 0 bs = []"
| "key_values key v p (Suc c) bs =
     v p (take (unat (kp_store_length (key p))) bs) # key_values key v (p + 1) c (drop (unat (kp_store_length (key p))) bs)"

fun beyond :: "(nat \<Rightarrow> bool) \<Rightarrow> bool \<Rightarrow> nat \<Rightarrow> int list \<Rightarrow> (nat \<Rightarrow> int) \<Rightarrow> bool" where
  "beyond up strict p [] x \<longleftrightarrow> \<not> strict"
| "beyond up strict p (d # ds) x \<longleftrightarrow> (if up p then d < x p else x p < d) \<or> x p = d \<and> beyond up strict (p + 1) ds x"

lemma values_ok_min:
  assumes "values_ok g key v" "unat (part (node g i)) = p"
  obtains img where "key_image (maybe_null (node g i)) (min_value (node g i)) (unat (kp_store_length (key p))) = Some img"
    "v p img = v p (min_value (node g i))"
  using assms unfolding values_ok_def by blast

lemma key_image_length: "key_image nullable val len = Some img \<Longrightarrow> length img = len"
  by (auto simp: key_image_def split: if_splits)

lemma key_values_image:
  assumes "key_image nullable val (unat (kp_store_length (key p))) = Some img"
  shows "key_values key v p (Suc c) (img @ bs) = v p img # key_values key v (p + 1) c bs"
  using key_image_length [OF assms] by simp

lemma tree_ends: "tree_laws g elems v \<Longrightarrow> sa_first g t \<in> elems t" "tree_laws g elems v \<Longrightarrow> sa_last g t \<in> elems t"
  unfolding tree_laws_def by blast+

lemma tree_lawsD:
  assumes "tree_laws g elems v" "i \<in> elems t"
  shows "part (node g i) = part (node g t)" "wf_interval (node g i)"
    "x \<in> members (v (unat (part (node g i)))) (node g i) \<Longrightarrow> i \<noteq> sa_first g t \<Longrightarrow> min_flag (node g (sa_first g t)) \<noteq> NO_MIN_RANGE \<Longrightarrow>
       v (unat (part (node g i))) (min_value (node g (sa_first g t))) < x"
    "x \<in> members (v (unat (part (node g i)))) (node g i) \<Longrightarrow> i \<noteq> sa_last g t \<Longrightarrow> max_flag (node g (sa_last g t)) \<noteq> NO_MAX_RANGE \<Longrightarrow>
       x < v (unat (part (node g i))) (max_value (node g (sa_last g t)))"
  using assms unfolding tree_laws_def by blast+

text \<open>A row of the tree at the lowest interval: it lies above its lower end, or on it when the row also satisfies the next tree.\<close>

lemma sat_first:
  assumes "tree_laws g elems v" "sat g elems v t x"
  defines "s \<equiv> node g (sa_first g t)"
  defines "p \<equiv> unat (part s)"
  assumes "min_flag s \<noteq> NO_MIN_RANGE"
  shows "v p (min_value s) < x p \<or>
     v p (min_value s) = x p \<and> min_flag s = 0 \<and>
       (\<forall>nkp. next_key_part s = Some nkp \<longrightarrow> sa_type (node g nkp) = KEY_RANGE \<longrightarrow> sat g elems v nkp x)"
proof -
  obtain i where i: "i \<in> elems t" "x (unat (part (node g i))) \<in> members (v (unat (part (node g i)))) (node g i)"
      "\<forall>nkp. next_key_part (node g i) = Some nkp \<longrightarrow> sa_type (node g nkp) = KEY_RANGE \<longrightarrow> sat g elems v nkp x"
    using assms(2) by (cases rule: sat.cases) auto
  have "part (node g i) = part s"
    unfolding s_def using tree_lawsD(1) [OF assms(1)] i(1) tree_ends(1) [OF assms(1)] by metis
  then have p: "unat (part (node g i)) = p" by (simp add: p_def)
  show ?thesis
  proof (cases "i = sa_first g t")
    case False
    then have "v p (min_value s) < x p"
      using tree_lawsD(3) [OF assms(1) i(1,2)] assms(5) unfolding p s_def by blast
    then show ?thesis by blast
  next
    case True
    have wf: "wf_interval s" unfolding s_def by (rule tree_lawsD(2) [OF assms(1) tree_ends(1) [OF assms(1)]])
    have "lower (v p) s \<le> At (3 * x p)" using i(2) True p by (simp add: members_def s_def)
    moreover have "min_flag s = 0 \<or> min_flag s = NEAR_MIN" using wf assms(5) by (auto simp: wf_interval_def min_flags_ok_def)
    ultimately have "v p (min_value s) < x p \<or> v p (min_value s) = x p \<and> min_flag s = 0"
      by (auto simp: lower_def endpoint_def flag_defs)
    then show ?thesis using i(3) True by (auto simp: s_def)
  qed
qed

lemma sat_last:
  assumes "tree_laws g elems v" "sat g elems v t x"
  defines "s \<equiv> node g (sa_last g t)"
  defines "p \<equiv> unat (part s)"
  assumes "max_flag s \<noteq> NO_MAX_RANGE"
  shows "x p < v p (max_value s) \<or>
     x p = v p (max_value s) \<and> max_flag s = 0 \<and>
       (\<forall>nkp. next_key_part s = Some nkp \<longrightarrow> sa_type (node g nkp) = KEY_RANGE \<longrightarrow> sat g elems v nkp x)"
proof -
  obtain i where i: "i \<in> elems t" "x (unat (part (node g i))) \<in> members (v (unat (part (node g i)))) (node g i)"
      "\<forall>nkp. next_key_part (node g i) = Some nkp \<longrightarrow> sa_type (node g nkp) = KEY_RANGE \<longrightarrow> sat g elems v nkp x"
    using assms(2) by (cases rule: sat.cases) auto
  have "part (node g i) = part s"
    unfolding s_def using tree_lawsD(1) [OF assms(1)] i(1) tree_ends(2) [OF assms(1)] by metis
  then have p: "unat (part (node g i)) = p" by (simp add: p_def)
  show ?thesis
  proof (cases "i = sa_last g t")
    case False
    then have "x p < v p (max_value s)"
      using tree_lawsD(4) [OF assms(1) i(1,2)] assms(5) unfolding p s_def by blast
    then show ?thesis by blast
  next
    case True
    have wf: "wf_interval s" unfolding s_def by (rule tree_lawsD(2) [OF assms(1) tree_ends(2) [OF assms(1)]])
    have "At (3 * x p) \<le> upper (v p) s" using i(2) True p by (simp add: members_def s_def)
    moreover have "max_flag s = 0 \<or> max_flag s = NEAR_MAX" using wf assms(5) by (auto simp: wf_interval_def max_flags_ok_def)
    ultimately have "x p < v p (max_value s) \<or> x p = v p (max_value s) \<and> max_flag s = 0"
      by (auto simp: upper_def endpoint_def flag_defs)
    then show ?thesis using i(3) True by (auto simp: s_def)
  qed
qed

text \<open>One step of the two functions, and the count of stored parts.\<close>

lemma next_part_SomeD:
  "next_part g s last_part fl stop = Some nkp \<Longrightarrow>
     next_key_part s = Some nkp \<and> sa_type (node g nkp) = KEY_RANGE \<and> unat (part (node g nkp)) = unat (part s) + 1 \<and> fl AND stop = 0"
  by (auto simp: next_part_def split: option.splits if_splits)

lemma unat_one_plus: "unat (r :: uint) \<le> 256 \<Longrightarrow> unat (1 + r) = Suc (unat r)"
  by (subst unat_plus_small) simp_all

lemma store_min_step:
  assumes "wf_interval s" "fl AND (NO_MIN_RANGE OR NEAR_MIN) = 0" "key_image (maybe_null s) (min_value s) len = Some img"
  shows "store_min s len rk fl = (if min_flag s = NO_MIN_RANGE then Some (0, rk) else Some (1, rk @ img))"
  using flags_ok_cases(1) [of "min_flag s"] assms by (auto simp: store_min_def wf_interval_def flag_defs GEOM_FLAG_def)

lemma store_max_step:
  assumes "wf_interval s" "fl AND (NO_MAX_RANGE OR NEAR_MAX) = 0" "key_image (maybe_null s) (max_value s) len = Some img"
  shows "store_max s len rk fl = (if max_flag s = NO_MAX_RANGE then Some (0, rk) else Some (1, rk @ img))"
  using flags_ok_cases(2) [of "max_flag s"] assms by (auto simp: store_max_def wf_interval_def flag_defs)

lemma near_of_stop: "fl AND (NO_MIN_RANGE OR NEAR_MIN) = 0 \<Longrightarrow> fl AND NEAR_MIN = (0 :: uint)"
    "fl AND (NO_MAX_RANGE OR NEAR_MAX) = 0 \<Longrightarrow> fl AND NEAR_MAX = (0 :: uint)"
  using stop_bits(2) [of fl "NO_MIN_RANGE OR NEAR_MIN" 0 NEAR_MIN] stop_bits(2) [of fl "NO_MAX_RANGE OR NEAR_MAX" 0 NEAR_MAX]
  by (auto simp: flag_defs)

lemma store_min_key_bound:
  assumes laws: "tree_laws g elems v" "values_ok g key v" and dir: "\<And>q. (\<not> reverse_part key q) = start_key"
    and "fl AND (NO_MIN_RANGE OR NEAR_MIN) = 0" "256 \<le> unat (part (node g t)) + n" "n \<le> 256"
  shows "\<exists>r ks fl'. store_min_key n g key t rk fl last_part start_key = Some (r, rk @ ks, fl') \<and> unat r \<le> n \<and>
     (sat g elems v t x \<longrightarrow> beyond (\<lambda>_. True) (fl' AND NEAR_MIN \<noteq> 0) (unat (part (node g t)))
        (key_values key v (unat (part (node g t))) (unat r) ks) x)"
  using assms(4-)
proof (induction n arbitrary: t rk fl)
  case 0
  then show ?case using unsigned_less [of "part (node g t)", where 'a = nat] by simp
next
  case (Suc n)
  define s where "s = node g (sa_first g t)"
  define p where "p = unat (part s)"
  have pt: "unat (part (node g t)) = p" unfolding p_def s_def using tree_lawsD(1) [OF laws(1) tree_ends(1) [OF laws(1)], of t] by simp
  have wf: "wf_interval s" unfolding s_def by (rule tree_lawsD(2) [OF laws(1) tree_ends(1) [OF laws(1)]])
  let ?len = "unat (kp_store_length (key p))"
  obtain img where img: "key_image (maybe_null s) (min_value s) ?len = Some img" "v p img = v p (min_value s)"
    using laws(2) unfolding values_ok_def s_def p_def by blast
  note st = store_min_step [OF wf Suc.prems(1) img(1)]
  note kv = key_values_image [where key = key and p = p and v = v, OF img(1), unfolded img(2)]
  show ?case
  proof (cases "min_flag s = NO_MIN_RANGE")
    case True
    then have "store_min_key (Suc n) g key t rk fl last_part start_key = Some (0, rk @ [], fl)"
      using st by (simp add: Let_def s_def [symmetric] p_def [symmetric])
    moreover have "fl AND NEAR_MIN = 0" using near_of_stop(1) [OF Suc.prems(1)] .
    ultimately show ?thesis by (intro exI [of _ 0] exI [of _ "[]"] exI [of _ fl]) simp
  next
    case False
    define fl1 where "fl1 = fl OR ucast (min_flag s)"
    have ms: "min_flag s = 0 \<or> min_flag s = NEAR_MIN" using wf False by (auto simp: wf_interval_def min_flags_ok_def)
    note bits = min_stop [OF Suc.prems(1) ms, folded fl1_def]
    have row: "v p (min_value s) < x p \<or> v p (min_value s) = x p \<and> min_flag s = 0 \<and>
        (\<forall>nkp. next_key_part s = Some nkp \<longrightarrow> sa_type (node g nkp) = KEY_RANGE \<longrightarrow> sat g elems v nkp x)" if "sat g elems v t x"
      using sat_first [OF laws(1) that] False unfolding s_def p_def by blast
    show ?thesis
    proof (cases "next_part g s last_part fl1 (NO_MIN_RANGE OR NEAR_MIN)")
      case None
      then have "store_min_key (Suc n) g key t rk fl last_part start_key = Some (1, rk @ img, fl1)"
        using st False by (simp add: Let_def s_def [symmetric] p_def [symmetric] fl1_def [symmetric])
      moreover have "key_values key v p (unat (1 :: uint)) img = [v p (min_value s)]"
        using kv [of 0 "[]"] by simp
      ultimately show ?thesis unfolding pt using row bits(2) by (intro exI [of _ 1] exI [of _ img] exI [of _ fl1]) auto
    next
      case (Some nkp)
      note nk = next_part_SomeD [OF Some]
      have np: "unat (part (node g nkp)) = p + 1" using nk p_def by simp
      have "fl1 AND (NO_MIN_RANGE OR NEAR_MIN) = 0" "256 \<le> unat (part (node g nkp)) + n" "n \<le> 256"
        using nk np Suc.prems pt by simp_all
      from Suc.IH [OF this, of "rk @ img"] obtain r ks fl' where
        rec: "store_min_key n g key nkp (rk @ img) fl1 last_part start_key = Some (r, (rk @ img) @ ks, fl')" "unat r \<le> n"
          "sat g elems v nkp x \<longrightarrow> beyond (\<lambda>_. True) (fl' AND NEAR_MIN \<noteq> 0) (p + 1) (key_values key v (p + 1) (unat r) ks) x"
        unfolding np by blast
      have "store_min_key (Suc n) g key t rk fl last_part start_key = Some (1 + r, rk @ (img @ ks), fl')"
        using st False Some rec(1) dir [of "part s"] by (simp add: Let_def s_def [symmetric] p_def [symmetric] fl1_def [symmetric])
      moreover have u: "unat (1 + r) = Suc (unat r)" using rec(2) Suc.prems(3) by (intro unat_one_plus) simp
      moreover have "key_values key v p (unat (1 + r)) (img @ ks) = v p (min_value s) # key_values key v (p + 1) (unat r) ks"
        unfolding u by (rule kv)
      moreover have "sat g elems v t x \<longrightarrow> beyond (\<lambda>_. True) (fl' AND NEAR_MIN \<noteq> 0) p
          (v p (min_value s) # key_values key v (p + 1) (unat r) ks) x"
        using row rec(3) nk by auto
      ultimately show ?thesis unfolding pt using rec(2) by (intro exI [of _ "1 + r"] exI [of _ "img @ ks"] exI [of _ fl']) simp
    qed
  qed
qed

lemma store_max_key_bound:
  assumes laws: "tree_laws g elems v" "values_ok g key v" and dir: "\<And>q. reverse_part key q = start_key"
    and "fl AND (NO_MAX_RANGE OR NEAR_MAX) = 0" "256 \<le> unat (part (node g t)) + n" "n \<le> 256"
  shows "\<exists>r ks fl'. store_max_key n g key t rk fl last_part start_key = Some (r, rk @ ks, fl') \<and> unat r \<le> n \<and>
     (sat g elems v t x \<longrightarrow> beyond (\<lambda>_. False) (fl' AND NEAR_MAX \<noteq> 0) (unat (part (node g t)))
        (key_values key v (unat (part (node g t))) (unat r) ks) x)"
  using assms(4-)
proof (induction n arbitrary: t rk fl)
  case 0
  then show ?case using unsigned_less [of "part (node g t)", where 'a = nat] by simp
next
  case (Suc n)
  define s where "s = node g (sa_last g t)"
  define p where "p = unat (part s)"
  have pt: "unat (part (node g t)) = p" unfolding p_def s_def using tree_lawsD(1) [OF laws(1) tree_ends(2) [OF laws(1)], of t] by simp
  have wf: "wf_interval s" unfolding s_def by (rule tree_lawsD(2) [OF laws(1) tree_ends(2) [OF laws(1)]])
  let ?len = "unat (kp_store_length (key p))"
  obtain img where img: "key_image (maybe_null s) (max_value s) ?len = Some img" "v p img = v p (max_value s)"
    using laws(2) unfolding values_ok_def s_def p_def by blast
  note st = store_max_step [OF wf Suc.prems(1) img(1)]
  note kv = key_values_image [where key = key and p = p and v = v, OF img(1), unfolded img(2)]
  show ?case
  proof (cases "max_flag s = NO_MAX_RANGE")
    case True
    then have "store_max_key (Suc n) g key t rk fl last_part start_key = Some (0, rk @ [], fl)"
      using st by (simp add: Let_def s_def [symmetric] p_def [symmetric])
    moreover have "fl AND NEAR_MAX = 0" using near_of_stop(2) [OF Suc.prems(1)] .
    ultimately show ?thesis by (intro exI [of _ 0] exI [of _ "[]"] exI [of _ fl]) simp
  next
    case False
    define fl1 where "fl1 = fl OR ucast (max_flag s)"
    have ms: "max_flag s = 0 \<or> max_flag s = NEAR_MAX" using wf False by (auto simp: wf_interval_def max_flags_ok_def)
    note bits = max_stop [OF Suc.prems(1) ms, folded fl1_def]
    have row: "x p < v p (max_value s) \<or> x p = v p (max_value s) \<and> max_flag s = 0 \<and>
        (\<forall>nkp. next_key_part s = Some nkp \<longrightarrow> sa_type (node g nkp) = KEY_RANGE \<longrightarrow> sat g elems v nkp x)" if "sat g elems v t x"
      using sat_last [OF laws(1) that] False unfolding s_def p_def by blast
    show ?thesis
    proof (cases "next_part g s last_part fl1 (NO_MAX_RANGE OR NEAR_MAX)")
      case None
      then have "store_max_key (Suc n) g key t rk fl last_part start_key = Some (1, rk @ img, fl1)"
        using st False by (simp add: Let_def s_def [symmetric] p_def [symmetric] fl1_def [symmetric])
      moreover have "key_values key v p (unat (1 :: uint)) img = [v p (max_value s)]"
        using kv [of 0 "[]"] by simp
      ultimately show ?thesis unfolding pt using row bits(2) by (intro exI [of _ 1] exI [of _ img] exI [of _ fl1]) auto
    next
      case (Some nkp)
      note nk = next_part_SomeD [OF Some]
      have np: "unat (part (node g nkp)) = p + 1" using nk p_def by simp
      have "fl1 AND (NO_MAX_RANGE OR NEAR_MAX) = 0" "256 \<le> unat (part (node g nkp)) + n" "n \<le> 256"
        using nk np Suc.prems pt by simp_all
      from Suc.IH [OF this, of "rk @ img"] obtain r ks fl' where
        rec: "store_max_key n g key nkp (rk @ img) fl1 last_part start_key = Some (r, (rk @ img) @ ks, fl')" "unat r \<le> n"
          "sat g elems v nkp x \<longrightarrow> beyond (\<lambda>_. False) (fl' AND NEAR_MAX \<noteq> 0) (p + 1) (key_values key v (p + 1) (unat r) ks) x"
        unfolding np by blast
      have "store_max_key (Suc n) g key t rk fl last_part start_key = Some (1 + r, rk @ (img @ ks), fl')"
        using st False Some rec(1) dir [of "part s"] by (simp add: Let_def s_def [symmetric] p_def [symmetric] fl1_def [symmetric])
      moreover have u: "unat (1 + r) = Suc (unat r)" using rec(2) Suc.prems(3) by (intro unat_one_plus) simp
      moreover have "key_values key v p (unat (1 + r)) (img @ ks) = v p (max_value s) # key_values key v (p + 1) (unat r) ks"
        unfolding u by (rule kv)
      moreover have "sat g elems v t x \<longrightarrow> beyond (\<lambda>_. False) (fl' AND NEAR_MAX \<noteq> 0) p
          (v p (max_value s) # key_values key v (p + 1) (unat r) ks) x"
        using row rec(3) nk by auto
      ultimately show ?thesis unfolding pt using rec(2) by (intro exI [of _ "1 + r"] exI [of _ "img @ ks"] exI [of _ fl']) simp
    qed
  qed
qed

text \<open>C8: The start and end keys of a range over several key parts that are all ascending or all descending. For ascending parts the start key
  comes from the lower ends and the end key from the upper ends, for descending parts the other way round. The construction ends within the
  256 possible key parts and appends to the key; every row that satisfies the graph of intervals lies, in the order of the index, at or after
  the start key and at or before the end key, and not on it when the flags of the key say that the key itself is excluded.\<close>

theorem range_keys_bound:
  assumes "tree_laws g elems v" "values_ok g key v" "\<And>q. reverse_part key q = desc"
  shows "(start_key \<noteq> desc \<longrightarrow>
       (\<exists>r ks fl. store_min_key 256 g key t rk 0 last_part start_key = Some (r, rk @ ks, fl) \<and>
          (\<forall>x. sat g elems v t x \<longrightarrow> beyond (\<lambda>_. start_key \<noteq> desc) (fl AND NEAR_MIN \<noteq> 0) (unat (part (node g t)))
                 (key_values key v (unat (part (node g t))) (unat r) ks) x))) \<and>
     (start_key = desc \<longrightarrow>
       (\<exists>r ks fl. store_max_key 256 g key t rk 0 last_part start_key = Some (r, rk @ ks, fl) \<and>
          (\<forall>x. sat g elems v t x \<longrightarrow> beyond (\<lambda>_. start_key \<noteq> desc) (fl AND NEAR_MAX \<noteq> 0) (unat (part (node g t)))
                 (key_values key v (unat (part (node g t))) (unat r) ks) x)))"
proof (intro conjI impI)
  assume d: "start_key \<noteq> desc"
  have m: "\<exists>r ks fl'. store_min_key 256 g key t rk 0 last_part start_key = Some (r, rk @ ks, fl') \<and> unat r \<le> 256 \<and>
     (sat g elems v t x \<longrightarrow> beyond (\<lambda>_. True) (fl' AND NEAR_MIN \<noteq> 0) (unat (part (node g t)))
        (key_values key v (unat (part (node g t))) (unat r) ks) x)" for x
    by (rule store_min_key_bound [OF assms(1,2)]) (use assms(3) d in auto)
  then obtain r ks fl where eq: "store_min_key 256 g key t rk 0 last_part start_key = Some (r, rk @ ks, fl)" by blast
  have b: "beyond (\<lambda>_. True) (fl AND NEAR_MIN \<noteq> 0) (unat (part (node g t))) (key_values key v (unat (part (node g t))) (unat r) ks) x"
    if "sat g elems v t x" for x
    using m [of x] eq that by auto
  show "\<exists>r ks fl. store_min_key 256 g key t rk 0 last_part start_key = Some (r, rk @ ks, fl) \<and>
          (\<forall>x. sat g elems v t x \<longrightarrow> beyond (\<lambda>_. start_key \<noteq> desc) (fl AND NEAR_MIN \<noteq> 0) (unat (part (node g t)))
                 (key_values key v (unat (part (node g t))) (unat r) ks) x)"
    by (intro exI conjI, rule eq) (use b d in simp)
next
  assume d: "start_key = desc"
  have m: "\<exists>r ks fl'. store_max_key 256 g key t rk 0 last_part start_key = Some (r, rk @ ks, fl') \<and> unat r \<le> 256 \<and>
     (sat g elems v t x \<longrightarrow> beyond (\<lambda>_. False) (fl' AND NEAR_MAX \<noteq> 0) (unat (part (node g t)))
        (key_values key v (unat (part (node g t))) (unat r) ks) x)" for x
    by (rule store_max_key_bound [OF assms(1,2)]) (use assms(3) d in auto)
  then obtain r ks fl where eq: "store_max_key 256 g key t rk 0 last_part start_key = Some (r, rk @ ks, fl)" by blast
  have b: "beyond (\<lambda>_. False) (fl AND NEAR_MAX \<noteq> 0) (unat (part (node g t))) (key_values key v (unat (part (node g t))) (unat r) ks) x"
    if "sat g elems v t x" for x
    using m [of x] eq that by auto
  show "\<exists>r ks fl. store_max_key 256 g key t rk 0 last_part start_key = Some (r, rk @ ks, fl) \<and>
          (\<forall>x. sat g elems v t x \<longrightarrow> beyond (\<lambda>_. start_key \<noteq> desc) (fl AND NEAR_MAX \<noteq> 0) (unat (part (node g t)))
                 (key_values key v (unat (part (node g t))) (unat r) ks) x)"
    by (intro exI conjI, rule eq) (use b d in simp)
qed

text \<open>A graph for \<open>kp0 BETWEEN 10 AND 20 AND kp1 BETWEEN 5 AND 7\<close> on bytes.\<close>

definition sample_graph :: "unit sel_graph" where
  "sample_graph = \<lparr>node = (\<lambda>i. if i = 0 then (byte_new () 0 [10] [20] 0 0 0)\<lparr>next_key_part := Some 1\<rparr> else byte_new () 1 [5] [7] 0 0 0),
     sa_first = (\<lambda>t. t), sa_last = (\<lambda>t. t)\<rparr>"

definition sample_key :: "bool \<Rightarrow> nat \<Rightarrow> key_part" where
  "sample_key desc1 p = \<lparr>kp_store_length = 1, kp_flag = (if p = 1 \<and> desc1 then HA_REVERSE_SORT else 0)\<rparr>"

definition sample_row :: "nat \<Rightarrow> int" where
  "sample_row p = (if p = 0 then 10 else 6)"

lemma sample_graph_laws: "tree_laws sample_graph (\<lambda>t. {t}) (\<lambda>_. byte_value)" "values_ok sample_graph (sample_key d) (\<lambda>_. byte_value)"
  by (auto simp: tree_laws_def sample_graph_def byte_new_def wf_interval_def min_flags_ok_def max_flags_ok_def values_ok_def key_image_def sample_key_def)

lemma sample_members:
  "members byte_value (node sample_graph 0) = {10..20}" "members byte_value (node sample_graph 1) = {5..7}"
  by (auto simp: sample_graph_def byte_new_def members_def lower_def upper_def endpoint_def byte_value_def)

lemma sample_parts: "unat (part (node sample_graph 0)) = 0" "unat (part (node sample_graph 1)) = 1"
    "next_key_part (node sample_graph 0) = Some 1" "next_key_part (node sample_graph 1) = None" "sa_type (node sample_graph i) = KEY_RANGE"
  by (simp_all add: sample_graph_def byte_new_def)

lemma sample_sat: "sat sample_graph (\<lambda>t. {t}) (\<lambda>_. byte_value) 0 sample_row"
proof -
  have "sat sample_graph (\<lambda>t. {t}) (\<lambda>_. byte_value) 1 sample_row"
    by (rule sat_end [where i = 1 and p = 1]) (simp_all add: sample_members sample_parts sample_row_def del: One_nat_def)
  then show ?thesis
    by (rule sat_next [where i = 0 and p = 0 and nkp = 1, rotated 4]) (simp_all add: sample_members sample_parts sample_row_def)
qed

lemma range_keys_bound_witness:
  "\<exists>r ks fl. store_min_key 256 sample_graph (sample_key False) 0 [] 0 255 True = Some (r, ks, fl) \<and>
     beyond (\<lambda>_. True) (fl AND NEAR_MIN \<noteq> 0) 0 (key_values (sample_key False) (\<lambda>_. byte_value) 0 (unat r) ks) sample_row"
proof -
  have "reverse_part (sample_key False) q = False" for q by (simp add: reverse_part_def sample_key_def)
  from range_keys_bound [OF sample_graph_laws(1) sample_graph_laws(2) [of False] this, of True 0 "[]" 255]
  show ?thesis using sample_sat unfolding sample_parts by auto
qed

text \<open>C9: Key parts of mixed order. The start key of a range is continued with the lower end of the next key part whenever the current part is
  ascending, even when the next part is descending, whose first value in the index is its upper end: the row with the least value of the first
  part and a value of the second part above its lower end satisfies the range but lies before the start key in the order of the index.\<close>

theorem mixed_order_start_key:
  fixes g :: "'f sel_graph"
  defines "s \<equiv> \<lambda>t. node g (sa_first g t)"
  assumes "tree_laws g elems v" "values_ok g key v" "next_key_part (s t) = Some nkp" "sa_type (node g nkp) = KEY_RANGE"
    and "unat (part (s t)) = p" "unat (part (s nkp)) = p + 1" "next_key_part (s nkp) = None"
    and "ucast (part (s t)) \<noteq> last_part" "\<not> reverse_part key (part (s t))" "reverse_part key (part (s nkp))"
    and "min_flag (s t) = 0" "min_flag (s nkp) = 0" "v p (min_value (s t)) \<in> members (v p) (s t)"
    and "w \<in> members (v (p + 1)) (s nkp)" "v (p + 1) (min_value (s nkp)) < w" "x p = v p (min_value (s t))" "x (p + 1) = w"
  shows "sat g elems v t x \<and>
     (\<exists>r ks fl. store_min_key (Suc (Suc n)) g key t [] 0 last_part True = Some (r, ks, fl) \<and>
        \<not> beyond (\<lambda>q. \<not> reverse_part key (of_nat q)) (fl AND NEAR_MIN \<noteq> 0) p (key_values key v p (unat r) ks) x)"
proof
  have "sat g elems v nkp x"
    by (rule sat_end [where i = "sa_first g nkp" and p = "p + 1"]) (use assms tree_ends(1) [OF assms(2)] in \<open>simp_all add: s_def\<close>)
  then show "sat g elems v t x"
    by (rule sat_next [where i = "sa_first g t" and p = p and nkp = nkp, rotated 4]) (use assms tree_ends(1) [OF assms(2)] in \<open>simp_all add: s_def\<close>)
next
  have wf: "wf_interval (s u)" for u unfolding s_def by (rule tree_lawsD(2) [OF assms(2) tree_ends(1) [OF assms(2)]])
  have pn: "unat (part (node g nkp)) = p + 1"
    using tree_lawsD(1) [OF assms(2) tree_ends(1) [OF assms(2)], of nkp] assms(7) by (simp add: s_def)
  obtain i1 where i1: "key_image (maybe_null (s t)) (min_value (s t)) (unat (kp_store_length (key p))) = Some i1" "v p i1 = v p (min_value (s t))"
    using values_ok_min [OF assms(3), of "sa_first g t" p] assms(6) unfolding s_def by blast
  obtain i2 where i2: "key_image (maybe_null (s nkp)) (min_value (s nkp)) (unat (kp_store_length (key (p + 1)))) = Some i2"
      "v (p + 1) i2 = v (p + 1) (min_value (s nkp))"
    using values_ok_min [OF assms(3), of "sa_first g nkp" "p + 1"] assms(7) unfolding s_def by blast
  have st: "store_min (s t) (unat (kp_store_length (key p))) rk 0 = Some (1, rk @ i1)"
    "store_min (s nkp) (unat (kp_store_length (key (p + 1)))) rk 0 = Some (1, rk @ i2)" for rk
    using store_min_step [OF wf _ i1(1), of 0] store_min_step [OF wf _ i2(1), of 0] assms(12,13) by (simp_all add: flag_defs)
  have np: "next_part g (s t) last_part 0 (NO_MIN_RANGE OR NEAR_MIN) = Some nkp" "next_part g (s nkp) last_part 0 (NO_MIN_RANGE OR NEAR_MIN) = None"
    using assms(4-9) pn by (simp_all add: next_part_def)
  have "store_min_key (Suc n) g key nkp i1 0 last_part True = Some (1, i1 @ i2, 0)"
    using st(2) [of i1] np(2) assms(7,13) by (simp add: Let_def s_def)
  then have run: "store_min_key (Suc (Suc n)) g key t [] 0 last_part True = Some (2, i1 @ i2, 0)"
    using st(1) [of "[]"] np(1) assms(6,10,12) by (simp add: Let_def s_def del: store_min_key.simps(2) add: store_min_key.simps(2) [of "Suc n"])
  have l: "length i1 = unat (kp_store_length (key p))" "length i2 = unat (kp_store_length (key (p + 1)))"
    using key_image_length i1(1) i2(1) by blast+
  have kv: "key_values key v p (unat (2 :: uint)) (i1 @ i2) = [v p (min_value (s t)), v (p + 1) (min_value (s nkp))]"
  proof -
    have u: "unat (2 :: uint) = Suc (Suc 0)" by simp
    show ?thesis unfolding u using l i1(2) i2(2) by simp
  qed
  have "(of_nat (unat (part (s nkp))) :: uint8) = part (s nkp)" "(of_nat (unat (part (s t))) :: uint8) = part (s t)" by simp_all
  then have "(of_nat (p + 1) :: uint8) = part (s nkp)" "(of_nat p :: uint8) = part (s t)" unfolding assms(6,7) .
  then have "\<not> beyond (\<lambda>q. \<not> reverse_part key (of_nat q)) ((0 :: uint) AND NEAR_MIN \<noteq> 0) p (key_values key v p (unat (2 :: uint)) (i1 @ i2)) x"
    unfolding kv using assms(10,11,16-18) by auto
  with run show "\<exists>r ks fl. store_min_key (Suc (Suc n)) g key t [] 0 last_part True = Some (r, ks, fl) \<and>
        \<not> beyond (\<lambda>q. \<not> reverse_part key (of_nat q)) (fl AND NEAR_MIN \<noteq> 0) p (key_values key v p (unat r) ks) x"
    by blast
qed

lemma mixed_order_start_key_witness:
  "sat sample_graph (\<lambda>t. {t}) (\<lambda>_. byte_value) 0 sample_row \<and>
     (\<exists>r ks fl. store_min_key (Suc (Suc 0)) sample_graph (sample_key True) 0 [] 0 255 True = Some (r, ks, fl) \<and>
        \<not> beyond (\<lambda>q. \<not> reverse_part (sample_key True) (of_nat q)) (fl AND NEAR_MIN \<noteq> 0) 0
            (key_values (sample_key True) (\<lambda>_. byte_value) 0 (unat r) ks) sample_row)"
proof -
  have "sa_first sample_graph t = t" for t by (simp add: sample_graph_def)
  moreover have "reverse_part (sample_key True) (part (node sample_graph 1))" "\<not> reverse_part (sample_key True) (part (node sample_graph 0))"
    by (simp_all add: reverse_part_def sample_key_def sample_graph_def byte_new_def HA_REVERSE_SORT_def)
  moreover have "min_value (node sample_graph 0) = [10]" "min_value (node sample_graph 1) = [5]"
      "min_flag (node sample_graph 0) = 0" "min_flag (node sample_graph 1) = 0" "ucast (part (node sample_graph 0)) \<noteq> (255 :: uint)"
    by (simp_all add: sample_graph_def byte_new_def)
  moreover have "byte_value [10] = 10" "byte_value [5] = 5" by (simp_all add: byte_value_def)
  ultimately show ?thesis
    using mixed_order_start_key [OF sample_graph_laws(1) sample_graph_laws(2) [of True], of 0 1 0 255 6 sample_row 0]
    by (simp add: sample_parts sample_members sample_row_def del: store_min_key.simps One_nat_def)
qed

end
