(* ===== verification/Histogram.thy ===== *)
theory Histogram
  imports Complex_Main Byte_Order "HOL-Library.Monad_Syntax" "HOL-Library.Signed_Division"
begin

text \<open>
  Column statistics (\<^verbatim>\<open>sql_statistics.h\<close>): the height-balanced histogram \<open>Histogram_binary\<close>, an array of bucket ends
  stored as fractions of one or two bytes, the binary search for the bucket of a value, and the counters
  that \<open>ANALYZE\<close> collects. A read or write outside the array and a conversion of a floating-point number
  that does not fit are undefined, \<open>None\<close>. The argument \<open>rnd\<close> is the rounding of a floating-point
  product. The indices of the search stay between -1 and 256, so their C types do not wrap.
\<close>

section \<open>Values\<close>

(* @sql_statistics.h 45-52 Histogram_type *)
datatype histogram_type = SINGLE_PREC_HB | DOUBLE_PREC_HB | JSON_HB | INVALID_HISTOGRAM

(* @sql_statistics.h 223-228 Histogram_binary *)
record histogram =
  hb_type :: histogram_type
  hb_size :: uint8
  hb_values :: "uchar list"

(* @sql_statistics.h 230-241 Histogram_binary::prec_factor *)
definition prec_factor :: "histogram \<Rightarrow> nat" where
  "prec_factor h = (case hb_type h of SINGLE_PREC_HB \<Rightarrow> 2 ^ 8 - 1 | DOUBLE_PREC_HB \<Rightarrow> 2 ^ 16 - 1 | _ \<Rightarrow> 1)"

(* @sql_statistics.h 244-255 Histogram_binary::get_width *)
definition get_width :: "histogram \<Rightarrow> nat" where
  "get_width h = (case hb_type h of SINGLE_PREC_HB \<Rightarrow> unat (hb_size h) | DOUBLE_PREC_HB \<Rightarrow> unat (hb_size h) div 2 | _ \<Rightarrow> 0)"

(* @sql_statistics.h 257-269 Histogram_binary::get_value *)
definition get_value :: "histogram \<Rightarrow> int \<Rightarrow> nat option" where
  "get_value h i =
     (case hb_type h of
        SINGLE_PREC_HB \<Rightarrow> if 0 \<le> i \<and> nat i < length (hb_values h) then Some (unat (hb_values h ! nat i)) else None
      | DOUBLE_PREC_HB \<Rightarrow> if 0 \<le> i \<and> 2 * nat i + 1 < length (hb_values h)
                          then Some (unat (uint2korr_x86 (nth (hb_values h)) (2 * nat i))) else None
      | _ \<Rightarrow> Some 0)"

text \<open>The conversion of a floating-point number to an unsigned type of \<open>n\<close> bits.\<close>

definition to_unsigned :: "nat \<Rightarrow> real \<Rightarrow> nat option" where
  "to_unsigned n x = (if - 1 < x \<and> x < 2 ^ n then Some (nat \<lfloor>x\<rfloor>) else None)"

definition write_list :: "uchar list \<Rightarrow> memory \<Rightarrow> uchar list" where
  "write_list xs m = map m [0..<length xs]"

(* @sql_statistics.h 324-337 Histogram_binary::set_value *)
definition set_value :: "(real \<Rightarrow> real) \<Rightarrow> histogram \<Rightarrow> nat \<Rightarrow> real \<Rightarrow> histogram option" where
  "set_value rnd h i v =
     (case hb_type h of
        SINGLE_PREC_HB \<Rightarrow> do {
          x \<leftarrow> to_unsigned 8 (rnd (v * real (prec_factor h)));
          if i < length (hb_values h) then Some (h\<lparr>hb_values := (hb_values h)[i := of_nat x]\<rparr>) else None }
      | DOUBLE_PREC_HB \<Rightarrow> do {
          x \<leftarrow> to_unsigned 16 (rnd (v * real (prec_factor h)));
          if 2 * i + 1 < length (hb_values h)
          then Some (h\<lparr>hb_values := write_list (hb_values h) (int2store_x86 (nth (hb_values h)) (2 * i) (of_nat x))\<rparr>)
          else None }
      | _ \<Rightarrow> Some h)"

(* @sql_statistics.h 339-352 Histogram_binary::set_prev_value *)
definition set_prev_value :: "histogram \<Rightarrow> nat \<Rightarrow> histogram option" where
  "set_prev_value h i =
     (case hb_type h of
        SINGLE_PREC_HB \<Rightarrow> if 0 < i \<and> i < length (hb_values h)
          then Some (h\<lparr>hb_values := (hb_values h)[i := hb_values h ! (i - 1)]\<rparr>) else None
      | DOUBLE_PREC_HB \<Rightarrow> if 0 < i \<and> 2 * i + 1 < length (hb_values h)
          then Some (h\<lparr>hb_values := write_list (hb_values h)
                 (int2store_x86 (nth (hb_values h)) (2 * i) (ucast (uint2korr_x86 (nth (hb_values h)) (2 * i - 2))))\<rparr>)
          else None
      | _ \<Rightarrow> Some h)"

section \<open>Search for a bucket\<close>

(* @sql_statistics.h 279-289 Histogram_binary::find_bucket *)
partial_function (option) bucket_search :: "histogram \<Rightarrow> nat \<Rightarrow> int \<Rightarrow> int \<Rightarrow> int \<Rightarrow> int option" where
  "bucket_search h val lp rp d =
     (if d = 0 then Some (lp + d)
      else do {
        v \<leftarrow> get_value h (lp + d);
        if val = v then Some (lp + d)
        else if val < v then bucket_search h val lp (lp + d) ((lp + d - lp) sdiv 2)
        else do {
          v1 \<leftarrow> get_value h (lp + d + 1);
          if val > v1 then bucket_search h val (lp + d + 1) rp ((rp - (lp + d + 1)) sdiv 2)
          else Some (lp + d) } })"

(* @sql_statistics.h 298-299 Histogram_binary::find_bucket *)
fun bucket_down :: "histogram \<Rightarrow> nat \<Rightarrow> nat \<Rightarrow> nat option" where
  "bucket_down h val 0 = Some 0"
| "bucket_down h val (Suc i) =
     do { v \<leftarrow> get_value h (int i); if val = v then bucket_down h val i else Some (Suc i) }"

(* @sql_statistics.h 303-304 Histogram_binary::find_bucket *)
function bucket_up :: "histogram \<Rightarrow> nat \<Rightarrow> nat \<Rightarrow> nat option" where
  "bucket_up h val i =
     (if i + 1 < get_width h
      then do { v \<leftarrow> get_value h (int i + 1); if val = v then bucket_up h val (i + 1) else Some i }
      else Some i)"
  by pat_completeness auto
termination by (relation "measure (\<lambda>(h, val, i). get_width h - i)") auto

text \<open>The steps after the computation of the integer value of the position.\<close>

(* @sql_statistics.h 275-307 Histogram_binary::find_bucket *)
definition find_bucket_of :: "histogram \<Rightarrow> nat \<Rightarrow> bool \<Rightarrow> nat option" where
  "find_bucket_of h val first =
     do { k \<leftarrow> bucket_search h val 0 (int (get_width h) - 1) (int (get_width h div 2));
          v \<leftarrow> get_value h k;
          let i = (if val > v \<and> (get_width h = 0 \<or> k < int (get_width h) - 1) then k + 1 else k);
          w \<leftarrow> get_value h i;
          if val = w then (if first then bucket_down h val (nat i) else bucket_up h val (nat i)) else Some (nat i) }"

(* @sql_statistics.h 272-274 Histogram_binary::find_bucket *)
definition find_bucket :: "(real \<Rightarrow> real) \<Rightarrow> histogram \<Rightarrow> real \<Rightarrow> bool \<Rightarrow> nat option" where
  "find_bucket rnd h pos first =
     do { val \<leftarrow> to_unsigned 32 (rnd (pos * real (prec_factor h))); find_bucket_of h val first }"

section \<open>Counters\<close>

(* @sql_statistics.h 372-377 Basic_stats_collector *)
record stats_collector =
  sc_count :: "64 word"
  sc_distinct :: "64 word"
  sc_single :: "64 word"

(* @sql_statistics.h 380-385 Basic_stats_collector::Basic_stats_collector *)
definition stats_new :: stats_collector where
  "stats_new = \<lparr>sc_count = 0, sc_distinct = 0, sc_single = 0\<rparr>"

(* @sql_statistics.h 394-400 Basic_stats_collector::next *)
definition stats_next :: "stats_collector \<Rightarrow> uint32 \<Rightarrow> stats_collector" where
  "stats_next c elem_cnt =
     (let c1 = c\<lparr>sc_distinct := sc_distinct c + 1\<rparr>;
          c2 = (if elem_cnt = 1 then c1\<lparr>sc_single := sc_single c1 + 1\<rparr> else c1)
      in c2\<lparr>sc_count := sc_count c2 + ucast elem_cnt\<rparr>)"

section \<open>The search is correct\<close>

text \<open>The array of a histogram has the size that the object records; the bucket ends are its values.\<close>

definition wf_hist :: "histogram \<Rightarrow> bool" where
  "wf_hist h \<longleftrightarrow> hb_type h \<in> {SINGLE_PREC_HB, DOUBLE_PREC_HB} \<and> length (hb_values h) = unat (hb_size h)"

definition bucket_ends :: "histogram \<Rightarrow> nat list" where
  "bucket_ends h = map (\<lambda>i. the (get_value h (int i))) [0..<get_width h]"

lemma length_bucket_ends [simp]: "length (bucket_ends h) = get_width h"
  by (simp add: bucket_ends_def)

lemma get_value_end:
  assumes "wf_hist h" "0 \<le> i" "i < int (get_width h)"
  shows "get_value h i = Some (bucket_ends h ! nat i)"
proof -
  obtain n where n: "i = int n" using assms(2) by (metis nonneg_int_cases)
  then have lt: "n < get_width h" using assms(3) by simp
  have "\<exists>v. get_value h (int n) = Some v"
    using assms(1) lt by (auto simp: wf_hist_def get_value_def get_width_def split: histogram_type.splits)
  then show ?thesis using lt n by (auto simp: bucket_ends_def)
qed

text \<open>Reading one position behind the last bucket end leaves the array of a histogram of one-byte values or of even size.\<close>

lemma get_value_beyond:
  assumes "wf_hist h"
  shows "get_value h (int (get_width h)) = None"
  using assms by (auto simp: wf_hist_def get_value_def get_width_def split: histogram_type.splits)

text \<open>What the loop leaves: an end equal to the value, the last end below it, up to the step that follows, or the
  first end above it.\<close>

definition search_post :: "nat list \<Rightarrow> nat \<Rightarrow> int \<Rightarrow> bool" where
  "search_post xs val k \<longleftrightarrow> 0 \<le> k \<and> k < int (length xs) \<and>
     (xs ! nat k = val \<or>
      xs ! nat k < val \<and> (nat k + 2 < length xs \<longrightarrow> val \<le> xs ! (nat k + 1)) \<or>
      val < xs ! nat k \<and> (\<forall>j < nat k. xs ! j < val))"

lemma sdiv2: "0 \<le> n \<Longrightarrow> n sdiv 2 = n div (2 :: int)"
  by (cases "n = 0") (simp_all add: signed_divide_int_def)

lemma bucket_search_post:
  assumes "wf_hist h" "sorted (bucket_ends h)" "0 \<le> lp" "lp \<le> rp" "rp < int (get_width h)"
    and "d = 0 \<and> rp \<le> lp + 1 \<or> 1 \<le> d \<and> lp + d + 1 \<le> rp"
    and "\<forall>j < nat lp. bucket_ends h ! j < val" "rp < int (get_width h) - 1 \<Longrightarrow> val < bucket_ends h ! nat rp"
  shows "\<exists>k. bucket_search h val lp rp d = Some k \<and> search_post (bucket_ends h) val k"
  using assms(3-)
proof (induction "nat (rp - lp)" arbitrary: lp rp d rule: less_induct)
  case less
  let ?xs = "bucket_ends h"
  have srt: "?xs ! a \<le> ?xs ! b" if "a \<le> b" "b < get_width h" for a b
    using assms(2) that by (simp add: sorted_iff_nth_mono)
  show ?case
  proof (cases "d = 0")
    case True
    then have rp: "rp = lp \<or> rp = lp + 1" using less.prems by linarith
    have "search_post ?xs val lp"
    proof -
      consider "?xs ! nat lp = val" | "val < ?xs ! nat lp" | "?xs ! nat lp < val" by linarith
      then show ?thesis
      proof cases
        case 3
        have "val \<le> ?xs ! (nat lp + 1)" if "nat lp + 2 < get_width h"
        proof -
          have "rp < int (get_width h) - 1" using rp that less.prems(1) by linarith
          then have "val < ?xs ! nat rp" using less.prems(6) by blast
          moreover have "nat rp \<le> nat lp + 1" "nat lp + 1 < get_width h" using rp less.prems(1) that by linarith+
          ultimately show ?thesis using srt [of "nat rp" "nat lp + 1"] by linarith
        qed
        with 3 show ?thesis using less.prems by (simp add: search_post_def)
      qed (use less.prems in \<open>simp_all add: search_post_def\<close>)
    qed
    then show ?thesis using True by (simp add: bucket_search.simps)
  next
    case False
    then have d: "1 \<le> d" "lp + d + 1 \<le> rp" using less.prems(4) by blast+
    have g: "get_value h (lp + d) = Some (?xs ! nat (lp + d))" "get_value h (lp + d + 1) = Some (?xs ! nat (lp + d + 1))"
      using less.prems(1,3) d by (auto intro!: get_value_end [OF assms(1)])
    have n1: "nat (lp + d + 1) = nat (lp + d) + 1" using less.prems(1) d by linarith
    consider "val = ?xs ! nat (lp + d)" | "val < ?xs ! nat (lp + d)"
      | "?xs ! nat (lp + d) < val" "val > ?xs ! nat (lp + d + 1)" | "?xs ! nat (lp + d) < val" "val \<le> ?xs ! nat (lp + d + 1)"
      by linarith
    then show ?thesis
    proof cases
      case 1
      then show ?thesis using g d less.prems by (simp add: bucket_search.simps search_post_def)
    next
      case 2
      have "\<exists>k. bucket_search h val lp (lp + d) (d div 2) = Some k \<and> search_post ?xs val k"
        by (rule less.hyps) (use less.prems d 2 in auto)
      then show ?thesis using False g 2 d by (subst bucket_search.simps) (simp add: sdiv2)
    next
      case 3
      have "\<exists>k. bucket_search h val (lp + d + 1) rp ((rp - (lp + d + 1)) div 2) = Some k \<and> search_post ?xs val k"
      proof (rule less.hyps)
        show "\<forall>j < nat (lp + d + 1). ?xs ! j < val"
        proof (intro allI impI)
          fix j assume "j < nat (lp + d + 1)"
          then have "j \<le> nat (lp + d + 1)" "nat (lp + d + 1) < get_width h" using less.prems(3) d less.prems(1) by linarith+
          then show "?xs ! j < val" using srt 3(2) by (meson le_less_trans)
        qed
      qed (use less.prems d in auto)
      then show ?thesis using False g 3 d by (subst bucket_search.simps) (simp add: sdiv2)
    next
      case 4
      then show ?thesis using g d less.prems n1 by (simp add: bucket_search.simps search_post_def)
    qed
  qed
qed


text \<open>The two scans over equal bucket ends.\<close>

lemma bucket_down_correct:
  assumes "wf_hist h" "sorted (bucket_ends h)" "i < get_width h" "bucket_ends h ! i = val"
  shows "\<exists>k \<le> i. bucket_down h val i = Some k \<and> bucket_ends h ! k = val \<and> (\<forall>j<k. bucket_ends h ! j < val)"
  using assms(3,4)
proof (induction i)
  case (Suc i)
  have g: "get_value h (int i) = Some (bucket_ends h ! i)" using get_value_end [OF assms(1), of "int i"] Suc.prems by simp
  show ?case
  proof (cases "bucket_ends h ! i = val")
    case True
    then obtain k where "k \<le> i" "bucket_down h val i = Some k" "bucket_ends h ! k = val" "\<forall>j<k. bucket_ends h ! j < val"
      using Suc by force
    with g True show ?thesis by (intro exI [of _ k]) simp
  next
    case False
    have "bucket_ends h ! j < val" if "j < Suc i" for j
    proof -
      have "bucket_ends h ! j \<le> bucket_ends h ! i" "bucket_ends h ! i \<le> val"
        using assms(2) Suc.prems that by (auto simp: sorted_iff_nth_mono)
      with False show ?thesis by linarith
    qed
    with g False Suc.prems show ?thesis by (intro exI [of _ "Suc i"]) auto
  qed
qed auto

lemma bucket_up_correct:
  assumes "wf_hist h" "sorted (bucket_ends h)" "i < get_width h" "bucket_ends h ! i = val"
  shows "\<exists>k. bucket_up h val i = Some k \<and> k < get_width h \<and> bucket_ends h ! k = val \<and>
     (\<forall>j. k < j \<and> j < get_width h \<longrightarrow> val < bucket_ends h ! j)"
  using assms(3,4)
proof (induction "get_width h - i" arbitrary: i rule: less_induct)
  case less
  show ?case
  proof (cases "i + 1 < get_width h")
    case lt: True
    have g: "get_value h (int i + 1) = Some (bucket_ends h ! (i + 1))"
      using get_value_end [OF assms(1), of "int i + 1"] lt by (simp add: nat_add_distrib)
    show ?thesis
    proof (cases "bucket_ends h ! (i + 1) = val")
      case True
      then have "\<exists>k. bucket_up h val (i + 1) = Some k \<and> k < get_width h \<and> bucket_ends h ! k = val \<and>
         (\<forall>j. k < j \<and> j < get_width h \<longrightarrow> val < bucket_ends h ! j)"
        using less.hyps [of "i + 1"] lt by fastforce
      with g True lt show ?thesis by (subst bucket_up.simps) simp
    next
      case False
      have "val < bucket_ends h ! j" if "i < j" "j < get_width h" for j
      proof -
        have "val \<le> bucket_ends h ! (i + 1)" "bucket_ends h ! (i + 1) \<le> bucket_ends h ! j"
          using assms(2) less.prems lt that by (auto simp: sorted_iff_nth_mono)
        with False show ?thesis by linarith
      qed
      with g False lt less.prems show ?thesis by (subst bucket_up.simps) auto
    qed
  next
    case False
    with less.prems show ?thesis by (subst bucket_up.simps) auto
  qed
qed

text \<open>The search over the whole array, for any width but two, and for two with a value up to the last end.\<close>

lemma search_total:
  assumes "wf_hist h" "sorted (bucket_ends h)" "0 < get_width h" "get_width h = 2 \<Longrightarrow> val \<le> bucket_ends h ! 1"
  shows "\<exists>k. bucket_search h val 0 (int (get_width h) - 1) (int (get_width h div 2)) = Some k \<and>
     search_post (bucket_ends h) val k"
proof (cases "get_width h = 2")
  case False
  show ?thesis by (rule bucket_search_post [OF assms(1,2)]) (use False assms(3) in auto)
next
  case True
  let ?xs = "bucket_ends h"
  have g: "get_value h 1 = Some (?xs ! 1)" using get_value_end [OF assms(1), of 1] True by simp
  consider "val = ?xs ! 1" | "val < ?xs ! 1" using assms(4) True by linarith
  then show ?thesis
  proof cases
    case 1
    with g True show ?thesis by (auto simp: bucket_search.simps search_post_def)
  next
    case 2
    have "bucket_search h val 0 1 0 = Some 0" by (simp add: bucket_search.simps)
    moreover have "search_post ?xs val 0" using True by (auto simp: search_post_def)
    ultimately show ?thesis using g 2 True by (subst bucket_search.simps) (auto simp: signed_divide_int_def)
  qed
qed


text \<open>What \<open>find_bucket\<close> promises: the first or last end equal to the value, or else the first end above it, or else the
  last one.\<close>

definition is_bucket :: "nat list \<Rightarrow> nat \<Rightarrow> bool \<Rightarrow> nat \<Rightarrow> bool" where
  "is_bucket xs val first i \<longleftrightarrow> i < length xs \<and>
     (if val \<in> set xs
      then xs ! i = val \<and> (if first then \<forall>j<i. xs ! j < val else \<forall>j<length xs. i < j \<longrightarrow> val < xs ! j)
      else (\<forall>j<i. xs ! j < val) \<and> (xs ! i < val \<longrightarrow> i = length xs - 1))"

lemma after_search:
  assumes "sorted xs" "search_post xs val k"
  defines "i \<equiv> if val > xs ! nat k \<and> k < int (length xs) - 1 then k + 1 else k"
  shows "0 \<le> i \<and> i < int (length xs) \<and> (xs ! nat i = val \<or> val \<notin> set xs \<and> is_bucket xs val first (nat i))"
proof -
  have k: "0 \<le> k" "k < int (length xs)" using assms(2) by (simp_all add: search_post_def)
  have le: "xs ! a \<le> xs ! b" if "a \<le> b" "b < length xs" for a b using assms(1) that by (simp add: sorted_iff_nth_mono)
  have lt_all: "\<forall>j \<le> nat k. xs ! j < val" if "xs ! nat k < val"
    using le k(2) that by (meson le_less_trans k(1) nat_less_iff)
  have notin: "val \<notin> set xs" if "0 \<le> m" "m < length xs" "\<forall>j<m. xs ! j < val" "xs ! m \<noteq> val" "val < xs ! m \<or> m = length xs - 1" for m
  proof
    assume "val \<in> set xs"
    then obtain j where j: "j < length xs" "xs ! j = val" by (auto simp: in_set_conv_nth)
    with that have "m < j" by (metis less_irrefl linorder_neqE_nat)
    with j that le [of m j] show False by auto
  qed
  consider "xs ! nat k = val" | "val < xs ! nat k" "\<forall>j < nat k. xs ! j < val"
    | "xs ! nat k < val" "nat k + 2 < length xs \<longrightarrow> val \<le> xs ! (nat k + 1)"
    using assms(2) by (auto simp: search_post_def)
  then show ?thesis
  proof cases
    case 1
    then show ?thesis using k by (simp add: i_def)
  next
    case 2
    then have "i = k" by (simp add: i_def)
    moreover have "val \<notin> set xs" using notin [of "nat k"] 2 k by auto
    ultimately show ?thesis using 2 k by (simp add: is_bucket_def)
  next
    case 3
    show ?thesis
    proof (cases "k < int (length xs) - 1")
      case True
      then have i: "i = k + 1" "nat i = nat k + 1" using 3 k by (simp_all add: i_def)
      have m: "nat k + 1 < length xs" using True k by linarith
      have lt: "\<forall>j < nat k + 1. xs ! j < val" using lt_all 3(1) by simp
      have last: "nat k + 1 = length xs - 1" if "xs ! (nat k + 1) < val" using 3(2) m that by linarith
      show ?thesis
      proof (cases "xs ! (nat k + 1) = val")
        case False
        then have "val < xs ! (nat k + 1) \<or> nat k + 1 = length xs - 1" using last by linarith
        then have "val \<notin> set xs" using notin [of "nat k + 1"] m lt False by blast
        then show ?thesis using i m lt last k by (simp add: is_bucket_def)
      qed (use i m k in simp)
    next
      case False
      then have i: "i = k" and kl: "nat k = length xs - 1" using k by (simp_all add: i_def)
      have "\<forall>j < nat k. xs ! j < val" using lt_all 3(1) by simp
      moreover from this have "val \<notin> set xs" using notin [of "nat k"] 3(1) k kl by auto
      ultimately show ?thesis using i kl k by (auto simp: is_bucket_def)
    qed
  qed
qed

text \<open>With one bucket end, or at least three, or a value up to the last end, the search stays inside the array.\<close>

lemma find_bucket_inside:
  assumes "wf_hist h" "sorted (bucket_ends h)" "0 < get_width h" "get_width h = 2 \<Longrightarrow> val \<le> bucket_ends h ! 1"
    and "to_unsigned 32 (rnd (pos * real (prec_factor h))) = Some val"
  shows "\<exists>i. find_bucket rnd h pos first = Some i \<and> is_bucket (bucket_ends h) val first i"
proof -
  let ?xs = "bucket_ends h"
  obtain k where k: "bucket_search h val 0 (int (get_width h) - 1) (int (get_width h div 2)) = Some k" "search_post ?xs val k"
    using search_total [OF assms(1-4)] by blast
  define i where "i = (if val > ?xs ! nat k \<and> k < int (length ?xs) - 1 then k + 1 else k)"
  have i: "0 \<le> i" "i < int (get_width h)" "?xs ! nat i = val \<or> val \<notin> set ?xs \<and> is_bucket ?xs val first (nat i)"
    using after_search [OF assms(2) k(2), of first] unfolding i_def by auto
  have gk: "get_value h k = Some (?xs ! nat k)" using k(2) get_value_end [OF assms(1)] by (simp add: search_post_def)
  have gi: "get_value h i = Some (?xs ! nat i)" using i(1,2) get_value_end [OF assms(1)] by simp
  have run: "find_bucket rnd h pos first =
      (if val = ?xs ! nat i then (if first then bucket_down h val (nat i) else bucket_up h val (nat i)) else Some (nat i))"
    using assms(3,5) k(1) gk gi by (simp add: find_bucket_def find_bucket_of_def Let_def i_def)
  show ?thesis
  proof (cases "?xs ! nat i = val")
    case False
    with run i(3) show ?thesis by auto
  next
    case True
    have lt: "nat i < get_width h" using i(1,2) by linarith
    have "val \<in> set ?xs" using True lt by (metis length_bucket_ends nth_mem)
    then show ?thesis
      using run True bucket_down_correct [OF assms(1,2) lt True] bucket_up_correct [OF assms(1,2) lt True] lt
      by (cases first) (auto simp: is_bucket_def)
  qed
qed

text \<open>With two bucket ends and a value above the last one, the search compares with a third end and reads behind
  the array.\<close>

lemma find_bucket_reads_outside:
  assumes "wf_hist h" "get_width h = 2"
    and "to_unsigned 32 (rnd (pos * real (prec_factor h))) = Some val" "bucket_ends h ! 1 < val"
  shows "find_bucket rnd h pos first = None \<and> get_value h 1 = Some (bucket_ends h ! 1) \<and> get_value h 2 = None"
proof -
  have g: "get_value h 1 = Some (bucket_ends h ! 1)" "get_value h 2 = None"
    using get_value_end [OF assms(1), of 1] get_value_beyond [OF assms(1)] assms(2) by simp_all
  then have "bucket_search h val 0 1 1 = None" using assms(4) by (subst bucket_search.simps) simp
  then show ?thesis using g assms(2,3) by (simp add: find_bucket_def find_bucket_of_def)
qed

text \<open>C10: The bucket of a position whose value fits an unsigned integer, on a histogram with at least one bucket end, in
  ascending order. Unless there are
  exactly two ends and the value of the position exceeds both, the binary search ends, reads only inside the
  array and returns the bucket: the first (or last) end that equals the value, otherwise the first end above
  it, otherwise the last one. In the excepted case it reads behind the array.\<close>

theorem find_bucket_correct:
  assumes "wf_hist h" "sorted (bucket_ends h)" "0 < get_width h"
    and "to_unsigned 32 (rnd (pos * real (prec_factor h))) = Some val"
  shows "if get_width h = 2 \<and> bucket_ends h ! 1 < val
    then find_bucket rnd h pos first = None \<and> get_value h (int (get_width h)) = None
    else \<exists>i. find_bucket rnd h pos first = Some i \<and> is_bucket (bucket_ends h) val first i"
  using find_bucket_inside [where rnd = rnd, OF assms(1-3) _ assms(4)]
    find_bucket_reads_outside [where rnd = rnd, OF assms(1) _ assms(4)] get_value_beyond [OF assms(1)] by (auto simp: not_less)

definition sample_hist :: "uchar list \<Rightarrow> histogram" where
  "sample_hist xs = \<lparr>hb_type = SINGLE_PREC_HB, hb_size = of_nat (length xs), hb_values = xs\<rparr>"

lemma sample_hist_ends:
  assumes "length xs < 256"
  shows "wf_hist (sample_hist xs)" "get_width (sample_hist xs) = length xs" "bucket_ends (sample_hist xs) = map unat xs"
proof -
  have l: "unat (of_nat (length xs) :: uint8) = length xs" using assms by (simp add: unat_of_nat)
  then show "wf_hist (sample_hist xs)" and w: "get_width (sample_hist xs) = length xs"
    by (simp_all add: wf_hist_def sample_hist_def get_width_def)
  have "bucket_ends (sample_hist xs) = map (\<lambda>i. unat (xs ! i)) [0..<length xs]"
    unfolding bucket_ends_def w by (simp add: get_value_def sample_hist_def)
  also have "\<dots> = map unat xs" by (rule nth_equalityI) simp_all
  finally show "bucket_ends (sample_hist xs) = map unat xs" .
qed

lemma find_bucket_correct_witness:
  "find_bucket (\<lambda>x. x) (sample_hist [10, 20, 20, 20, 51]) (20 / 255) True = Some 1 \<and>
   find_bucket (\<lambda>x. x) (sample_hist [100, 200]) 1 True = None"
proof (rule conjI)
  let ?h = "sample_hist [10, 20, 20, 20, 51]"
  note e = sample_hist_ends [of "[10, 20, 20, 20, 51]", simplified]
  have f: "prec_factor ?h = 255" by (simp add: prec_factor_def sample_hist_def)
  have "to_unsigned 32 (20 / 255 * real (prec_factor ?h)) = Some 20" unfolding f by (simp add: to_unsigned_def)
  with e obtain i where i: "find_bucket (\<lambda>x. x) ?h (20 / 255) True = Some i" "is_bucket (bucket_ends ?h) 20 True i"
    using find_bucket_correct [of ?h "\<lambda>x. x" "20 / 255" 20 True] by auto
  have "i < 5" "[10, 20, 20, 20, 51] ! i = (20 :: nat)" "\<forall>j<i. [10, 20, 20, 20, 51] ! j < (20 :: nat)"
    using i(2) unfolding e by (simp_all add: is_bucket_def)
  moreover have "i \<noteq> 0" using calculation(2) by (cases i) auto
  moreover have "\<not> 1 < i" using calculation(3) by auto
  ultimately have "i = 1" by linarith
  with i(1) show "find_bucket (\<lambda>x. x) ?h (20 / 255) True = Some 1" by simp
next
  let ?h = "sample_hist [100, 200]"
  note e = sample_hist_ends [of "[100, 200]", simplified]
  have f: "prec_factor ?h = 255" by (simp add: prec_factor_def sample_hist_def)
  have "to_unsigned 32 (1 * real (prec_factor ?h)) = Some 255" unfolding f by (simp add: to_unsigned_def)
  with e show "find_bucket (\<lambda>x. x) ?h 1 True = None"
    using find_bucket_correct [of ?h "\<lambda>x. x" 1 255 True] by auto
qed

section \<open>Filling a histogram\<close>

lemma to_unsigned_fraction:
  assumes "0 \<le> x" "x \<le> real (2 ^ n - 1)"
  shows "to_unsigned n x = Some (nat \<lfloor>x\<rfloor>)" "nat \<lfloor>x\<rfloor> < 2 ^ n"
proof -
  have "real (2 ^ n - 1) < 2 ^ n" by (simp add: of_nat_diff)
  then have lt: "x < 2 ^ n" using assms(2) by linarith
  then show "to_unsigned n x = Some (nat \<lfloor>x\<rfloor>)" using assms(1) by (simp add: to_unsigned_def)
  have "\<lfloor>x\<rfloor> < 2 ^ n" using lt by (simp add: floor_less_iff)
  then show "nat \<lfloor>x\<rfloor> < 2 ^ n" using assms(1) by (simp add: nat_less_iff)
qed

text \<open>A stored bucket end is read back, and the other ends keep their values.\<close>

lemma set_value_get_value:
  assumes "wf_hist h" "i < get_width h" "0 \<le> rnd (v * real (prec_factor h))" "rnd (v * real (prec_factor h)) \<le> real (prec_factor h)"
  shows "\<exists>h'. set_value rnd h i v = Some h' \<and> wf_hist h' \<and> get_width h' = get_width h \<and>
     bucket_ends h' = (bucket_ends h)[i := nat \<lfloor>rnd (v * real (prec_factor h))\<rfloor>]"
proof (cases "hb_type h")
  case SINGLE_PREC_HB
  let ?x = "nat \<lfloor>rnd (v * real (prec_factor h))\<rfloor>"
  have x: "to_unsigned 8 (rnd (v * real (prec_factor h))) = Some ?x" "?x < 2 ^ 8"
    using to_unsigned_fraction [of "rnd (v * real (prec_factor h))" 8] assms(3,4) SINGLE_PREC_HB by (simp_all add: prec_factor_def)
  let ?h = "h\<lparr>hb_values := (hb_values h)[i := of_nat ?x]\<rparr>"
  have s: "set_value rnd h i v = Some ?h" "wf_hist ?h" "get_width ?h = get_width h"
    using assms(1,2) x SINGLE_PREC_HB by (simp_all add: set_value_def wf_hist_def get_width_def)
  have "bucket_ends ?h = (bucket_ends h)[i := ?x]"
  proof (rule nth_equalityI)
    fix j assume "j < length (bucket_ends ?h)"
    then have j: "j < get_width h" using s(3) by simp
    have "bucket_ends ?h ! j = the (get_value ?h (int j))" "bucket_ends h ! j = the (get_value h (int j))"
      using j s(3) by (simp_all add: bucket_ends_def)
    then show "bucket_ends ?h ! j = (bucket_ends h)[i := ?x] ! j"
      using j assms(1,2) x(2) SINGLE_PREC_HB
      by (cases "j = i") (simp_all add: get_value_def wf_hist_def get_width_def unat_of_nat)
  qed (use s(3) in simp)
  with s show ?thesis by blast
next
  case DOUBLE_PREC_HB
  define x where "x = nat \<lfloor>rnd (v * real (prec_factor h))\<rfloor>"
  have x: "to_unsigned 16 (rnd (v * real (prec_factor h))) = Some x" "x < 2 ^ 16"
    using to_unsigned_fraction [of "rnd (v * real (prec_factor h))" 16] assms(3,4) DOUBLE_PREC_HB
    by (simp_all add: prec_factor_def x_def)
  define m where "m = int2store_x86 (nth (hb_values h)) (2 * i) (of_nat x)"
  define h' where "h' = h\<lparr>hb_values := write_list (hb_values h) m\<rparr>"
  have inside: "2 * j + 1 < length (hb_values h)" if "j < get_width h" for j
    using that assms(1) DOUBLE_PREC_HB by (simp add: wf_hist_def get_width_def)
  have s: "set_value rnd h i v = Some h'" "wf_hist h'" "get_width h' = get_width h" "hb_values h' = write_list (hb_values h) m"
      "hb_type h' = DOUBLE_PREC_HB"
    using assms(1) x(1) DOUBLE_PREC_HB inside [OF assms(2)]
    by (simp_all add: set_value_def wf_hist_def get_width_def write_list_def h'_def m_def)
  have "bucket_ends h' = (bucket_ends h)[i := x]"
  proof (rule nth_equalityI)
    fix j assume "j < length (bucket_ends h')"
    then have j: "j < get_width h" using s(3) by simp
    have "uint2korr_x86 (nth (hb_values h')) (2 * j) = uint2korr_x86 m (2 * j)"
      using inside [OF j] unfolding s(4) by (simp add: x86le2.korr_eq_iff write_list_def less_2_cases_iff)
    then have b: "bucket_ends h' ! j = unat (uint2korr_x86 m (2 * j))"
        "bucket_ends h ! j = unat (uint2korr_x86 (nth (hb_values h)) (2 * j))"
      using inside [OF j] j s(3-5) DOUBLE_PREC_HB by (simp_all add: bucket_ends_def get_value_def write_list_def)
    show "bucket_ends h' ! j = (bucket_ends h)[i := x] ! j"
    proof (cases "j = i")
      case True
      have "unat (ucast (take_bit 16 (of_nat x :: uint32)) :: uint16) = x"
        using x(2) by (simp add: unsigned_ucast_eq unsigned_take_bit_eq unat_of_nat take_bit_nat_eq_self)
      then show ?thesis using True b(1) j by (simp add: m_def x86le2.round_trip)
    next
      case False
      then have "2 * j + 2 \<le> 2 * i \<or> 2 * i + 2 \<le> 2 * j" by linarith
      then have "uint2korr_x86 m (2 * j) = uint2korr_x86 (nth (hb_values h)) (2 * j)"
        unfolding m_def by (rule x86le2.korr_frame)
      then show ?thesis using b j False by simp
    qed
  qed (use s(3) in simp)
  with s show ?thesis unfolding x_def by blast
qed (use assms(1) in \<open>simp_all add: wf_hist_def\<close>)

text \<open>The counters over the groups of equal values of a column: with fewer than $2^{64}$ rows they are the number of rows, of
  distinct values and of values that occur once.\<close>

lemma stats_counts:
  "foldl stats_next stats_new groups =
     \<lparr>sc_count = of_nat (\<Sum>g\<leftarrow>groups. unat g), sc_distinct = of_nat (length groups),
      sc_single = of_nat (length (filter (\<lambda>g. g = 1) groups))\<rparr>"
proof (induction groups rule: rev_induct)
  case (snoc g gs)
  have "(ucast g :: 64 word) = of_nat (unat g)" by simp
  with snoc show ?case by (simp add: stats_next_def Let_def algebra_simps)
qed (simp add: stats_new_def)

end
