(* ===== verification/Mbr.thy ===== *)
theory Mbr
  imports Complex_Main Prelude
begin

text \<open>
  Minimum bounding rectangles (struct \<open>MBR\<close> of \<^verbatim>\<open>spatial.h\<close>). Coordinates are real numbers: the code compares them, which is
  exact on floating-point numbers, and the one operation that computes, \<open>buffer\<close>, takes the rounding as an
  argument. Not-a-number coordinates are outside the model. \<open>MBR::within\<close> is defined elsewhere and an argument
  of \<open>overlaps\<close>.
\<close>

section \<open>Rectangles\<close>

(* @spatial.h 37-41 st_point_2d *)
type_synonym point_2d = "real \<times> real"

(* @spatial.h 57-59 MBR *)
record mbr =
  xmin :: real
  ymin :: real
  xmax :: real
  ymax :: real

text \<open>The largest finite double.\<close>

definition DBL_MAX :: real where
  "DBL_MAX = (2 - 1 / 2 ^ 52) * 2 ^ 1023"

(* @spatial.h 61-65 MBR::MBR *)
definition mbr_new :: mbr where
  "mbr_new = \<lparr>xmin = DBL_MAX, ymin = DBL_MAX, xmax = - DBL_MAX, ymax = - DBL_MAX\<rparr>"

(* @spatial.h 67-70 MBR::MBR *)
definition mbr_of :: "real \<Rightarrow> real \<Rightarrow> real \<Rightarrow> real \<Rightarrow> mbr" where
  "mbr_of x0 y0 x1 y1 = \<lparr>xmin = x0, ymin = y0, xmax = x1, ymax = y1\<rparr>"

(* @spatial.h 72-74 MBR::MBR *)
definition mbr_of_points :: "point_2d \<Rightarrow> point_2d \<Rightarrow> mbr" where
  "mbr_of_points lo hi = \<lparr>xmin = fst lo, ymin = snd lo, xmax = fst hi, ymax = snd hi\<rparr>"

(* @spatial.h 80-91 MBR::add_xy *)
definition add_xy :: "mbr \<Rightarrow> real \<Rightarrow> real \<Rightarrow> mbr" where
  "add_xy m x y =
     (let m1 = (if x < xmin m then m\<lparr>xmin := x\<rparr> else m);
          m2 = (if x > xmax m1 then m1\<lparr>xmax := x\<rparr> else m1);
          m3 = (if y < ymin m2 then m2\<lparr>ymin := y\<rparr> else m2)
      in if y > ymax m3 then m3\<lparr>ymax := y\<rparr> else m3)"

(* @spatial.h 99-109 MBR::add_mbr *)
definition add_mbr :: "mbr \<Rightarrow> mbr \<Rightarrow> mbr" where
  "add_mbr m r =
     (let m1 = (if xmin r < xmin m then m\<lparr>xmin := xmin r\<rparr> else m);
          m2 = (if xmax r > xmax m1 then m1\<lparr>xmax := xmax r\<rparr> else m1);
          m3 = (if ymin r < ymin m2 then m2\<lparr>ymin := ymin r\<rparr> else m2)
      in if ymax r > ymax m3 then m3\<lparr>ymax := ymax r\<rparr> else m3)"

(* @spatial.h 76-78 MBR::MBR *)
definition mbr_union :: "mbr \<Rightarrow> mbr \<Rightarrow> mbr" where
  "mbr_union m1 m2 = add_mbr m1 m2"

(* @spatial.h 110-116 MBR::buffer *)
definition mbr_buffer :: "(real \<Rightarrow> real) \<Rightarrow> mbr \<Rightarrow> real \<Rightarrow> mbr" where
  "mbr_buffer rnd m d = \<lparr>xmin = rnd (xmin m - d), ymin = rnd (ymin m - d), xmax = rnd (xmax m + d), ymax = rnd (ymax m + d)\<rparr>"

(* @spatial.h 118-123 MBR::equals *)
definition mbr_equals :: "mbr \<Rightarrow> mbr \<Rightarrow> bool" where
  "mbr_equals m r \<longleftrightarrow> xmin r = xmin m \<and> ymin r = ymin m \<and> xmax r = xmax m \<and> ymax r = ymax m"

(* @spatial.h 125-130 MBR::disjoint *)
definition mbr_disjoint :: "mbr \<Rightarrow> mbr \<Rightarrow> bool" where
  "mbr_disjoint m r \<longleftrightarrow> xmin r > xmax m \<or> ymin r > ymax m \<or> xmax r < xmin m \<or> ymax r < ymin m"

(* @spatial.h 132-135 MBR::intersects *)
definition mbr_intersects :: "mbr \<Rightarrow> mbr \<Rightarrow> bool" where
  "mbr_intersects m r \<longleftrightarrow> \<not> mbr_disjoint m r"

(* @spatial.h 137-146 MBR::touches *)
definition mbr_touches :: "mbr \<Rightarrow> mbr \<Rightarrow> bool" where
  "mbr_touches m r \<longleftrightarrow>
     (xmin r = xmax m \<or> xmax r = xmin m) \<and>
       (ymin r \<ge> ymin m \<and> ymin r \<le> ymax m \<or> ymax r \<ge> ymin m \<and> ymax r \<le> ymax m) \<or>
     (ymin r = ymax m \<or> ymax r = ymin m) \<and>
       (xmin r \<ge> xmin m \<and> xmin r \<le> xmax m \<or> xmax r \<ge> xmin m \<and> xmax r \<le> xmax m)"

(* @spatial.h 150-155 MBR::contains *)
definition mbr_contains :: "mbr \<Rightarrow> mbr \<Rightarrow> bool" where
  "mbr_contains m r \<longleftrightarrow> xmin r \<ge> xmin m \<and> ymin r \<ge> ymin m \<and> xmax r \<le> xmax m \<and> ymax r \<le> ymax m"

(* @spatial.h 157-161 MBR::inner_point *)
definition inner_point :: "mbr \<Rightarrow> real \<Rightarrow> real \<Rightarrow> bool" where
  "inner_point m x y \<longleftrightarrow> xmin m < x \<and> xmax m > x \<and> ymin m < y \<and> ymax m > y"

(* @spatial.h 170-185 MBR::dimension *)
definition mbr_dimension :: "mbr \<Rightarrow> int" where
  "mbr_dimension m =
     (if xmin m > xmax m then - 1
      else let d = (if xmin m < xmax m then 1 else 0)
           in if ymin m > ymax m then - 1 else if ymin m < ymax m then d + 1 else d)"

(* @spatial.h 187-203 MBR::overlaps *)
definition mbr_overlaps :: "(mbr \<Rightarrow> mbr \<Rightarrow> bool) \<Rightarrow> mbr \<Rightarrow> mbr \<Rightarrow> bool" where
  "mbr_overlaps is_within m r =
     (let d = mbr_dimension m in
      if d \<noteq> mbr_dimension r \<or> d \<le> 0 \<or> mbr_contains m r \<or> is_within m r then False
      else let i = mbr_of (max (xmin m) (xmin r)) (max (ymin m) (ymin r)) (min (xmax m) (xmax r)) (min (ymax m) (ymax r))
           in d = mbr_dimension i)"

(* @spatial.h 205-206 MBR::valid *)
definition mbr_valid :: "mbr \<Rightarrow> bool" where
  "mbr_valid m \<longleftrightarrow> xmin m \<le> xmax m \<and> ymin m \<le> ymax m"

section \<open>Rectangles as sets of points\<close>

definition points :: "mbr \<Rightarrow> point_2d set" where
  "points m = {xmin m .. xmax m} \<times> {ymin m .. ymax m}"

definition inner :: "mbr \<Rightarrow> point_2d set" where
  "inner m = {xmin m <..< xmax m} \<times> {ymin m <..< ymax m}"

lemma add_mbr_fields:
  "add_mbr m r = \<lparr>xmin = min (xmin m) (xmin r), ymin = min (ymin m) (ymin r), xmax = max (xmax m) (xmax r), ymax = max (ymax m) (ymax r)\<rparr>"
  by (cases m) (auto simp: add_mbr_def Let_def min_def max_def)

lemma add_xy_fields:
  "add_xy m x y = \<lparr>xmin = min (xmin m) x, ymin = min (ymin m) y, xmax = max (xmax m) x, ymax = max (ymax m) y\<rparr>"
  by (cases m) (auto simp: add_xy_def Let_def min_def max_def)

lemma points_ne: "points m \<noteq> {} \<longleftrightarrow> mbr_valid m"
  by (auto simp: points_def mbr_valid_def)

lemma points_inter:
  "points m \<inter> points r =
     points (mbr_of (max (xmin m) (xmin r)) (max (ymin m) (ymin r)) (min (xmax m) (xmax r)) (min (ymax m) (ymax r)))"
  by (auto simp: points_def mbr_of_def)

lemma intersects_points:
  assumes "mbr_valid m" "mbr_valid r"
  shows "mbr_intersects m r \<longleftrightarrow> points m \<inter> points r \<noteq> {}"
  unfolding points_inter points_ne using assms
  by (auto simp: mbr_intersects_def mbr_disjoint_def mbr_valid_def mbr_of_def)

lemma contains_points:
  assumes "mbr_valid r"
  shows "mbr_contains m r \<longleftrightarrow> points r \<subseteq> points m"
  using assms by (auto simp: mbr_contains_def points_def mbr_valid_def times_subset_iff)

lemma equals_points:
  assumes "mbr_valid m" "mbr_valid r"
  shows "mbr_equals m r \<longleftrightarrow> points m = points r"
proof -
  have "points m = points r \<longleftrightarrow> mbr_contains m r \<and> mbr_contains r m"
    using assms by (auto simp: contains_points)
  then show ?thesis by (auto simp: mbr_equals_def mbr_contains_def)
qed

lemma dimension_points:
  assumes "mbr_valid m"
  shows "mbr_dimension m = 2 \<longleftrightarrow> inner m \<noteq> {}" "mbr_dimension m = 0 \<longleftrightarrow> (\<exists>p. points m = {p})" "mbr_dimension m \<in> {0, 1, 2}"
proof -
  show "mbr_dimension m = 2 \<longleftrightarrow> inner m \<noteq> {}" "mbr_dimension m \<in> {0, 1, 2}"
    using assms by (auto simp: mbr_dimension_def inner_def mbr_valid_def Let_def)
  show "mbr_dimension m = 0 \<longleftrightarrow> (\<exists>p. points m = {p})"
  proof
    assume "mbr_dimension m = 0"
    then have "xmin m = xmax m" "ymin m = ymax m" using assms by (auto simp: mbr_dimension_def mbr_valid_def Let_def split: if_splits)
    then show "\<exists>p. points m = {p}" by (simp add: points_def)
  next
    assume "\<exists>p. points m = {p}"
    then obtain p where p: "points m = {p}" by blast
    have "(xmin m, ymin m) \<in> points m" "(xmax m, ymax m) \<in> points m" using assms by (auto simp: points_def mbr_valid_def)
    then have "xmin m = xmax m" "ymin m = ymax m" unfolding p by (auto simp: prod_eq_iff)
    then show "mbr_dimension m = 0" by (simp add: mbr_dimension_def)
  qed
qed

text \<open>Two rectangles that share a side, where the second one extends beyond the first at both ends of that side: they
  have common points and no common inner point, and the second touches the first, but the first does not touch
  the second. \<open>touches\<close> only looks for an end of the second inside the first.\<close>

lemma mbr_touches_asymmetric:
  assumes "mbr_valid m" "mbr_valid r" "xmin r = xmax m" "ymin r < ymin m" "ymax m < ymax r"
  shows "\<not> mbr_touches m r \<and> mbr_touches r m \<and> points m \<inter> points r \<noteq> {} \<and> \<not> (\<exists>x y. inner_point m x y \<and> inner_point r x y)"
proof -
  have "mbr_intersects m r" using assms by (auto simp: mbr_intersects_def mbr_disjoint_def mbr_valid_def)
  then have "points m \<inter> points r \<noteq> {}" using intersects_points assms(1,2) by blast
  moreover have "\<not> mbr_touches m r" "mbr_touches r m" "\<not> (\<exists>x y. inner_point m x y \<and> inner_point r x y)"
    using assms by (auto simp: mbr_touches_def mbr_valid_def inner_point_def)
  ultimately show ?thesis by blast
qed

text \<open>C37: The predicates of two valid rectangles are relations of their sets of points: they intersect when the sets
  have a common point, one contains the other when its set does, they are equal when the sets are; the
  dimension is 2 exactly with inner points and 0 exactly for one point; \<open>overlaps\<close> holds when both have the
  same dimension, above 0, as their intersection, and neither lies in the other (given that \<open>within\<close>, which is
  defined elsewhere, says whether the first lies in the second); \<open>add_mbr\<close> gives the least rectangle around
  both. Only \<open>touches\<close> is not such a relation: touching rectangles have common points but no common inner
  point, but of two rectangles with that property one need not touch the other.\<close>

theorem mbr_point_sets:
  assumes "mbr_valid m" "mbr_valid r" and within: "is_within m r \<longleftrightarrow> points m \<subseteq> points r"
  shows "(mbr_intersects m r \<longleftrightarrow> points m \<inter> points r \<noteq> {}) \<and>
     (mbr_contains m r \<longleftrightarrow> points r \<subseteq> points m) \<and> (mbr_equals m r \<longleftrightarrow> points m = points r) \<and>
     (mbr_dimension m = 2 \<longleftrightarrow> (\<exists>x y. inner_point m x y)) \<and> (mbr_dimension m = 0 \<longleftrightarrow> (\<exists>p. points m = {p})) \<and>
     (mbr_overlaps is_within m r \<longleftrightarrow>
        (\<exists>i. points i = points m \<inter> points r \<and> mbr_valid i \<and> 0 < mbr_dimension i \<and>
             mbr_dimension i = mbr_dimension m \<and> mbr_dimension i = mbr_dimension r) \<and>
        \<not> points r \<subseteq> points m \<and> \<not> points m \<subseteq> points r) \<and>
     (\<forall>u. mbr_valid u \<longrightarrow> (points (add_mbr m r) \<subseteq> points u \<longleftrightarrow> points m \<union> points r \<subseteq> points u)) \<and>
     (mbr_touches m r \<longrightarrow> points m \<inter> points r \<noteq> {} \<and> \<not> (\<exists>x y. inner_point m x y \<and> inner_point r x y)) \<and>
     (\<exists>a b. mbr_valid a \<and> mbr_valid b \<and> points a \<inter> points b \<noteq> {} \<and> \<not> (\<exists>x y. inner_point a x y \<and> inner_point b x y) \<and>
        mbr_touches b a \<and> \<not> mbr_touches a b)"
proof -
  have "inner m = {p. inner_point m (fst p) (snd p)}" by (auto simp: inner_point_def inner_def)
  then have inn: "(\<exists>x y. inner_point m x y) \<longleftrightarrow> inner m \<noteq> {}" by auto
  define i where "i = mbr_of (max (xmin m) (xmin r)) (max (ymin m) (ymin r)) (min (xmax m) (xmax r)) (min (ymax m) (ymax r))"
  have pi: "points i = points m \<inter> points r" unfolding i_def by (rule points_inter [symmetric])
  have neg: "mbr_valid u" if "0 < mbr_dimension u" for u
    using that by (auto simp: mbr_dimension_def mbr_valid_def Let_def split: if_splits)
  have same: "mbr_dimension j = mbr_dimension i" if "points j = points i" "mbr_valid j" for j
  proof -
    have "mbr_valid i" using that points_ne by metis
    then have "mbr_equals j i" using equals_points that by blast
    then show ?thesis by (simp add: mbr_equals_def mbr_dimension_def)
  qed
  have ov: "mbr_overlaps is_within m r \<longleftrightarrow> 0 < mbr_dimension i \<and> mbr_dimension i = mbr_dimension m \<and>
      mbr_dimension i = mbr_dimension r \<and> \<not> points r \<subseteq> points m \<and> \<not> is_within m r"
    unfolding mbr_overlaps_def Let_def i_def [symmetric] contains_points [OF assms(2)] by auto
  have un: "points (add_mbr m r) \<subseteq> points u \<longleftrightarrow> points m \<union> points r \<subseteq> points u" if "mbr_valid u" for u
  proof -
    have "mbr_valid (add_mbr m r)" using assms by (auto simp: add_mbr_fields mbr_valid_def)
    then have "points (add_mbr m r) \<subseteq> points u \<longleftrightarrow> mbr_contains u (add_mbr m r)" by (simp add: contains_points)
    also have "\<dots> \<longleftrightarrow> mbr_contains u m \<and> mbr_contains u r" by (auto simp: mbr_contains_def add_mbr_fields)
    finally show ?thesis using assms by (simp add: contains_points)
  qed
  have tch: "mbr_intersects m r \<and> \<not> (\<exists>x y. inner_point m x y \<and> inner_point r x y)" if "mbr_touches m r"
    using that assms by (auto simp: mbr_touches_def mbr_intersects_def mbr_disjoint_def inner_point_def mbr_valid_def)
  have "(\<exists>i. points i = points m \<inter> points r \<and> mbr_valid i \<and> 0 < mbr_dimension i \<and>
             mbr_dimension i = mbr_dimension m \<and> mbr_dimension i = mbr_dimension r) \<longleftrightarrow>
      0 < mbr_dimension i \<and> mbr_dimension i = mbr_dimension m \<and> mbr_dimension i = mbr_dimension r"
    using pi same neg by metis
  then have ov': "mbr_overlaps is_within m r \<longleftrightarrow>
        (\<exists>i. points i = points m \<inter> points r \<and> mbr_valid i \<and> 0 < mbr_dimension i \<and>
             mbr_dimension i = mbr_dimension m \<and> mbr_dimension i = mbr_dimension r) \<and>
        \<not> points r \<subseteq> points m \<and> \<not> points m \<subseteq> points r"
    unfolding ov within by simp
  have "mbr_valid (mbr_of 0 0 1 1)" "mbr_valid (mbr_of 1 (- 1) 2 2)" by (simp_all add: mbr_valid_def mbr_of_def)
  then have as: "\<exists>a b. mbr_valid a \<and> mbr_valid b \<and> points a \<inter> points b \<noteq> {} \<and> \<not> (\<exists>x y. inner_point a x y \<and> inner_point b x y) \<and>
      mbr_touches b a \<and> \<not> mbr_touches a b"
    using mbr_touches_asymmetric [of "mbr_of 0 0 1 1" "mbr_of 1 (- 1) 2 2"]
    by (intro exI [of _ "mbr_of 0 0 1 1"] exI [of _ "mbr_of 1 (- 1) 2 2"]) (simp add: mbr_of_def)
  note sets = intersects_points [OF assms(1,2)] contains_points [OF assms(2)] equals_points [OF assms(1,2)]
    dimension_points(1) [OF assms(1), folded inn] dimension_points(2) [OF assms(1)]
  show ?thesis
    by (rule conjI [OF sets(1)], rule conjI [OF sets(2)], rule conjI [OF sets(3)], rule conjI [OF sets(4)],
        rule conjI [OF sets(5)], rule conjI [OF ov']) (use un tch sets(1) as in blast)
qed

lemma mbr_point_sets_witness:
  "points (mbr_of 0 0 2 2) \<inter> points (mbr_of 1 1 3 3) \<noteq> {} \<and>
   \<not> points (mbr_of 0 0 2 2) \<subseteq> points (mbr_of 1 1 3 3) \<and>
   mbr_overlaps (\<lambda>a b. mbr_contains b a) (mbr_of 0 0 2 2) (mbr_of 1 1 3 3)"
proof -
  let ?m = "mbr_of 0 0 2 2" and ?r = "mbr_of 1 1 3 3"
  have v: "mbr_valid ?m" "mbr_valid ?r" by (simp_all add: mbr_valid_def mbr_of_def)
  have w: "mbr_contains ?r ?m \<longleftrightarrow> points ?m \<subseteq> points ?r" by (rule contains_points [OF v(1)])
  have "mbr_intersects ?m ?r" by (simp add: mbr_intersects_def mbr_disjoint_def mbr_of_def)
  moreover have "mbr_overlaps (\<lambda>a b. mbr_contains b a) ?m ?r"
    by (simp add: mbr_overlaps_def mbr_dimension_def mbr_contains_def mbr_of_def)
  moreover note mbr_point_sets [of ?m ?r "\<lambda>a b. mbr_contains b a", OF v w]
  ultimately show ?thesis by blast
qed

section \<open>The rectangle of a set of points\<close>

definition add_points :: "mbr \<Rightarrow> point_2d list \<Rightarrow> mbr" where
  "add_points = foldl (\<lambda>m (x, y). add_xy m x y)"

lemma Min_snoc: "xs \<noteq> [] \<Longrightarrow> Min (f ` set (xs @ [p])) = min (Min (f ` set xs)) (f p)" for f :: "'a \<Rightarrow> real"
  by (simp add: min.commute)

lemma Max_snoc: "xs \<noteq> [] \<Longrightarrow> Max (f ` set (xs @ [p])) = max (Max (f ` set xs)) (f p)" for f :: "'a \<Rightarrow> real"
  by (simp add: max.commute)

text \<open>Starting from the empty rectangle and adding points one by one gives the least rectangle around
  them, for one point that point, whatever their order; coordinates are finite doubles.\<close>

theorem mbr_hull:
  assumes "ps \<noteq> []" "\<forall>(x, y) \<in> set ps. \<bar>x\<bar> \<le> DBL_MAX \<and> \<bar>y\<bar> \<le> DBL_MAX"
  shows "add_points mbr_new ps = \<lparr>xmin = Min (fst ` set ps), ymin = Min (snd ` set ps), xmax = Max (fst ` set ps), ymax = Max (snd ` set ps)\<rparr> \<and>
     mbr_valid (add_points mbr_new ps) \<and>
     (\<forall>u. mbr_valid u \<longrightarrow> (points (add_points mbr_new ps) \<subseteq> points u \<longleftrightarrow> set ps \<subseteq> points u))"
proof -
  have eq: "add_points mbr_new ps = \<lparr>xmin = Min (fst ` set ps), ymin = Min (snd ` set ps), xmax = Max (fst ` set ps), ymax = Max (snd ` set ps)\<rparr>"
    using assms
  proof (induction ps rule: rev_induct)
    case (snoc p ps)
    obtain x y where p: "p = (x, y)" by (cases p)
    show ?case
    proof (cases "ps = []")
      case True
      then show ?thesis using snoc.prems p by (auto simp: add_points_def add_xy_fields mbr_new_def min_def max_def)
    next
      case False
      with snoc have "add_points mbr_new ps = \<lparr>xmin = Min (fst ` set ps), ymin = Min (snd ` set ps), xmax = Max (fst ` set ps), ymax = Max (snd ` set ps)\<rparr>"
        by auto
      then have "add_points mbr_new (ps @ [p]) = \<lparr>xmin = min (Min (fst ` set ps)) x, ymin = min (Min (snd ` set ps)) y,
          xmax = max (Max (fst ` set ps)) x, ymax = max (Max (snd ` set ps)) y\<rparr>"
        by (simp add: add_points_def add_xy_fields p)
      then show ?thesis unfolding Min_snoc [OF False] Max_snoc [OF False] by (simp add: p)
    qed
  qed simp
  obtain p where "p \<in> set ps" using assms(1) by (cases ps) auto
  then have "fst p \<in> fst ` set ps" "snd p \<in> snd ` set ps" by auto
  then have "Min (fst ` set ps) \<le> fst p" "fst p \<le> Max (fst ` set ps)" "Min (snd ` set ps) \<le> snd p" "snd p \<le> Max (snd ` set ps)"
    by simp_all
  then have v: "mbr_valid (add_points mbr_new ps)" unfolding eq mbr_valid_def by simp
  have "points (add_points mbr_new ps) \<subseteq> points u \<longleftrightarrow> set ps \<subseteq> points u" for u
  proof -
    have "points (add_points mbr_new ps) \<subseteq> points u \<longleftrightarrow> mbr_contains u (add_points mbr_new ps)" using v by (simp add: contains_points)
    also have "\<dots> \<longleftrightarrow> (\<forall>p \<in> set ps. p \<in> points u)"
      unfolding eq mbr_contains_def points_def using assms(1) by (auto simp: mem_Times_iff)
    finally show ?thesis by auto
  qed
  with eq v show ?thesis by blast
qed

lemma mbr_hull_witness: "add_points mbr_new [(3, 1), (0, 5)] = mbr_of 0 1 3 5"
proof -
  have "5 \<le> DBL_MAX" by (simp add: DBL_MAX_def)
  then show ?thesis using mbr_hull [of "[(3, 1), (0, 5)]"] by (simp add: mbr_of_def)
qed

end
