(* ===== verification/Array_View.thy ===== *)
theory Array_View
  imports Prelude "HOL-Library.Monad_Syntax"
begin

text \<open>
  Views of arrays: \<open>span\<close> of \<^verbatim>\<open>span.h\<close> and \<open>Bounds_checked_array\<close> of \<^verbatim>\<open>sql_array.h\<close>, a pointer and a length that do not own the
  elements, and \<open>Dynamic_array\<close>, the wrapper around the growing arrays of \<^verbatim>\<open>my_sys.h\<close>. The assertions of the code do
  nothing in the release build.

  The elements lie in one array, a list; a pointer is an index into it or null. A read outside the array is
  undefined, \<open>None\<close>. The locale \<open>array_view\<close> states what the two views have in common. The functions on
  \<open>DYNAMIC_ARRAY\<close> are defined elsewhere and are arguments.
\<close>

type_synonym ptr = "nat option"

section \<open>The interface of a view\<close>

definition load :: "'a list \<Rightarrow> ptr \<Rightarrow> nat \<Rightarrow> 'a option" where
  "load m p i = (case p of None \<Rightarrow> None | Some b \<Rightarrow> if b + i < length m then Some (m ! (b + i)) else None)"

definition contents :: "'a list \<Rightarrow> ptr \<Rightarrow> nat \<Rightarrow> 'a list" where
  "contents m p n = (case p of None \<Rightarrow> [] | Some b \<Rightarrow> take n (drop b m))"

definition in_bounds :: "'a list \<Rightarrow> ptr \<Rightarrow> nat \<Rightarrow> bool" where
  "in_bounds m p n \<longleftrightarrow> n = 0 \<or> (\<exists>b. p = Some b \<and> b + n \<le> length m)"

lemma length_contents: "in_bounds m p n \<Longrightarrow> length (contents m p n) = n"
  by (auto simp: in_bounds_def contents_def split: option.splits)

lemma load_contents: "in_bounds m p n \<Longrightarrow> i < n \<Longrightarrow> load m p i = Some (contents m p n ! i)"
  by (auto simp: in_bounds_def contents_def load_def)

locale array_view =
  fixes data :: "'v \<Rightarrow> ptr" and sz :: "'v \<Rightarrow> 64 word" and at :: "'a list \<Rightarrow> 'v \<Rightarrow> 64 word \<Rightarrow> 'a option"
  assumes at_load: "at m v i = load m (data v) (unat i)"
begin

lemma at_inside:
  assumes "in_bounds m (data v) (unat (sz v))" "i < sz v"
  shows "at m v i = Some (contents m (data v) (unat (sz v)) ! unat i)"
  using load_contents [OF assms(1), of "unat i"] assms(2) by (simp add: at_load word_less_nat_alt)

lemma at_all:
  assumes "in_bounds m (data v) (unat (sz v))"
  shows "map (\<lambda>i. at m v (of_nat i)) [0..<unat (sz v)] = map Some (contents m (data v) (unat (sz v)))"
proof (rule nth_equalityI)
  fix i assume "i < length (map (\<lambda>i. at m v (of_nat i)) [0..<unat (sz v)])"
  then have i: "i < unat (sz v)" by simp
  moreover have "unat (sz v) < 2 ^ 64" using unsigned_less [of "sz v", where 'a = nat] by simp
  ultimately have "unat (of_nat i :: 64 word) = i" by (simp add: unat_of_nat)
  then show "map (\<lambda>i. at m v (of_nat i)) [0..<unat (sz v)] ! i = map Some (contents m (data v) (unat (sz v))) ! i"
    using i length_contents [OF assms] load_contents [OF assms i] by (simp add: at_load)
qed (use length_contents [OF assms] in simp)

end

section \<open>Spans\<close>

(* @span.h 156-158 span *)
record span =
  span_data :: ptr
  span_size :: "64 word"

(* @span.h 64-64 span::span *)
definition span_null :: span where
  "span_null = \<lparr>span_data = None, span_size = 0\<rparr>"

(* @span.h 66-66 span::span *)
definition span_of :: "ptr \<Rightarrow> 64 word \<Rightarrow> span" where
  "span_of p count = \<lparr>span_data = p, span_size = count\<rparr>"

(* @span.h 68-68 span::span *)
definition span_range :: "nat \<Rightarrow> nat \<Rightarrow> span" where
  "span_range lo hi = \<lparr>span_data = Some lo, span_size = of_nat hi - of_nat lo\<rparr>"

(* @span.h 104-108 span::first *)
definition span_first :: "span \<Rightarrow> 64 word \<Rightarrow> span" where
  "span_first s count = span_of (span_data s) 1"

definition ptr_plus :: "ptr \<Rightarrow> 64 word \<Rightarrow> ptr" where
  "ptr_plus p n = map_option (\<lambda>b. b + unat n) p"

(* @span.h 109-113 span::last *)
definition span_last :: "span \<Rightarrow> 64 word \<Rightarrow> span" where
  "span_last s count = span_of (ptr_plus (span_data s) (span_size s - 1)) 1"

(* @span.h 114-119 span::subspan *)
definition subspan :: "span \<Rightarrow> 64 word \<Rightarrow> 64 word \<Rightarrow> span" where
  "subspan s offset count = span_of (ptr_plus (span_data s) offset) count"

(* @span.h 122-122 span::size_bytes *)
definition size_bytes :: "64 word \<Rightarrow> span \<Rightarrow> 64 word" where
  "size_bytes size_of s = span_size s * size_of"

(* @span.h 123-126 span::empty *)
definition span_empty :: "span \<Rightarrow> bool" where
  "span_empty s \<longleftrightarrow> span_size s = 0"

(* @span.h 128-132 span::operator[] *)
definition span_at :: "'a list \<Rightarrow> span \<Rightarrow> 64 word \<Rightarrow> 'a option" where
  "span_at m s idx = load m (span_data s) (unat idx)"

(* @span.h 133-137 span::front *)
definition span_front :: "'a list \<Rightarrow> span \<Rightarrow> 'a option" where
  "span_front m s = load m (span_data s) 0"

(* @span.h 138-142 span::back *)
definition span_back :: "'a list \<Rightarrow> span \<Rightarrow> 'a option" where
  "span_back m s = load m (span_data s) (unat (span_size s - 1))"

interpretation spans: array_view span_data span_size span_at
  by unfold_locales (simp add: span_at_def)

section \<open>Bounds-checked arrays\<close>

(* @sql_array.h 103-104 Bounds_checked_array *)
record bounds_checked_array =
  m_array :: ptr
  m_size :: "64 word"

(* @sql_array.h 44-44 Bounds_checked_array::reset *)
definition bca_reset :: bounds_checked_array where
  "bca_reset = \<lparr>m_array = None, m_size = 0\<rparr>"

(* @sql_array.h 46-50 Bounds_checked_array::reset *)
definition bca_reset_to :: "ptr \<Rightarrow> 64 word \<Rightarrow> bounds_checked_array" where
  "bca_reset_to p n = \<lparr>m_array = p, m_size = n\<rparr>"

(* @sql_array.h 57-61 Bounds_checked_array::resize *)
definition bca_resize :: "bounds_checked_array \<Rightarrow> 64 word \<Rightarrow> bounds_checked_array" where
  "bca_resize a new_size = a\<lparr>m_size := new_size\<rparr>"

(* @sql_array.h 63-67 Bounds_checked_array::operator[] *)
definition bca_at :: "'a list \<Rightarrow> bounds_checked_array \<Rightarrow> 64 word \<Rightarrow> 'a option" where
  "bca_at m a n = load m (m_array a) (unat n)"

(* @sql_array.h 78-78 Bounds_checked_array::is_null *)
definition bca_is_null :: "bounds_checked_array \<Rightarrow> bool" where
  "bca_is_null a \<longleftrightarrow> m_array a = None"

(* @sql_array.h 80-85 Bounds_checked_array::pop_front *)
definition bca_pop_front :: "bounds_checked_array \<Rightarrow> bounds_checked_array" where
  "bca_pop_front a = \<lparr>m_array = ptr_plus (m_array a) 1, m_size = m_size a - 1\<rparr>"

(* @sql_array.h 93-96 Bounds_checked_array::operator== *)
definition bca_eq :: "bounds_checked_array \<Rightarrow> bounds_checked_array \<Rightarrow> bool" where
  "bca_eq a b \<longleftrightarrow> m_array a = m_array b \<and> m_size a = m_size b"

interpretation bcas: array_view m_array m_size bca_at
  by unfold_locales (simp add: bca_at_def)

section \<open>Parts of a view\<close>

abbreviation span_elems :: "'a list \<Rightarrow> span \<Rightarrow> 'a list" where
  "span_elems m s \<equiv> contents m (span_data s) (unat (span_size s))"

abbreviation bca_elems :: "'a list \<Rightarrow> bounds_checked_array \<Rightarrow> 'a list" where
  "bca_elems m a \<equiv> contents m (m_array a) (unat (m_size a))"

text \<open>A part of a span holds that part of its elements, and parts of parts compose.\<close>

lemma subspan_elems:
  assumes "in_bounds m (span_data s) (unat (span_size s))" "unat off + unat cnt \<le> unat (span_size s)"
  shows "in_bounds m (span_data (subspan s off cnt)) (unat (span_size (subspan s off cnt))) \<and>
     span_elems m (subspan s off cnt) = take (unat cnt) (drop (unat off) (span_elems m s))"
  using assms by (auto simp: in_bounds_def contents_def subspan_def span_of_def ptr_plus_def drop_take add.commute min_def split: option.splits)

lemma subspan_subspan:
  assumes "unat off + unat off' < 2 ^ 64"
  shows "subspan (subspan s off cnt) off' cnt' = subspan s (off + off') cnt'"
  using assms by (auto simp: subspan_def span_of_def ptr_plus_def option.map_comp o_def unat_plus_small add.assoc split: option.splits)

text \<open>\<open>first\<close> and \<open>last\<close> return one element, whatever count is asked for.\<close>

lemma span_ends_ignore_count:
  assumes "in_bounds m (span_data s) (unat (span_size s))" "\<not> span_empty s"
  shows "span_elems m (span_first s count) = [hd (span_elems m s)]" "span_elems m (span_last s count) = [last (span_elems m s)]"
    "span_front m s = Some (hd (span_elems m s))" "span_back m s = Some (last (span_elems m s))"
proof -
  have n: "0 < unat (span_size s)" using assms(2) by (simp add: span_empty_def unat_gt_0)
  then obtain b where b: "span_data s = Some b" "b + unat (span_size s) \<le> length m" using assms(1) by (auto simp: in_bounds_def)
  have l: "unat (span_size s - 1) = unat (span_size s) - 1"
  proof -
    have "1 \<le> span_size s" using n by (simp add: word_le_nat_alt)
    then show ?thesis by (simp add: unat_sub)
  qed
  have len: "length (span_elems m s) = unat (span_size s)" using length_contents [OF assms(1)] .
  have h: "hd (span_elems m s) = m ! b" "last (span_elems m s) = m ! (b + (unat (span_size s) - 1))"
    using n b len by (simp_all add: contents_def hd_conv_nth last_conv_nth)
  have one: "contents m (Some k) (unat (1 :: 64 word)) = [m ! k]" if "k < length m" for k
    using that by (simp add: contents_def take_Suc hd_drop_conv_nth)
  show "span_elems m (span_first s count) = [hd (span_elems m s)]" using one [of b] b n h by (simp add: span_first_def span_of_def)
  show "span_elems m (span_last s count) = [last (span_elems m s)]"
    using one [of "b + (unat (span_size s) - 1)"] b n h l by (simp add: span_last_def span_of_def ptr_plus_def)
  show "span_front m s = Some (hd (span_elems m s))" "span_back m s = Some (last (span_elems m s))"
    using b n h l by (simp_all add: span_front_def span_back_def load_def)
qed

text \<open>Shrinking and dropping the first element; an array is consumed from the front in order.\<close>

lemma bca_resize_elems:
  assumes "in_bounds m (m_array a) (unat (m_size a))" "new_size \<le> m_size a"
  shows "bca_elems m (bca_resize a new_size) = take (unat new_size) (bca_elems m a)"
  using assms by (auto simp: bca_resize_def contents_def word_le_nat_alt min_def split: option.splits)

lemma bca_pop_front_elems:
  assumes "in_bounds m (m_array a) (unat (m_size a))" "m_size a \<noteq> 0"
  shows "in_bounds m (m_array (bca_pop_front a)) (unat (m_size (bca_pop_front a)))"
    "bca_elems m a = m ! the (m_array a) # bca_elems m (bca_pop_front a)" "bca_at m a 0 = Some (m ! the (m_array a))"
    "unat (m_size (bca_pop_front a)) < unat (m_size a)"
proof -
  have n: "0 < unat (m_size a)" using assms(2) by (simp add: unat_gt_0)
  then obtain b where b: "m_array a = Some b" "b + unat (m_size a) \<le> length m" using assms(1) by (auto simp: in_bounds_def)
  have "1 \<le> m_size a" using n by (simp add: word_le_nat_alt)
  then have l: "unat (m_size a - 1) = unat (m_size a) - 1" by (simp add: unat_sub)
  show "in_bounds m (m_array (bca_pop_front a)) (unat (m_size (bca_pop_front a)))" "bca_at m a 0 = Some (m ! the (m_array a))"
      "unat (m_size (bca_pop_front a)) < unat (m_size a)"
    using b n l by (auto simp: in_bounds_def bca_pop_front_def ptr_plus_def bca_at_def load_def)
  have "drop b m = m ! b # drop (Suc b) m" using b n by (simp add: Cons_nth_drop_Suc)
  then have "take (unat (m_size a)) (drop b m) = m ! b # take (unat (m_size a) - 1) (drop (Suc b) m)"
    using n by (simp add: take_Cons')
  then show "bca_elems m a = m ! the (m_array a) # bca_elems m (bca_pop_front a)"
    using b l by (simp add: contents_def bca_pop_front_def ptr_plus_def)
qed

fun consume :: "nat \<Rightarrow> 'a list \<Rightarrow> bounds_checked_array \<Rightarrow> 'a list option" where
  "consume 0 m a = (if m_size a = 0 then Some [] else None)"
| "consume (Suc n) m a =
     (if m_size a = 0 then Some [] else do { x \<leftarrow> bca_at m a 0; xs \<leftarrow> consume n m (bca_pop_front a); Some (x # xs) })"

lemma consume_elems:
  "in_bounds m (m_array a) (unat (m_size a)) \<Longrightarrow> unat (m_size a) \<le> n \<Longrightarrow> consume n m a = Some (bca_elems m a)"
proof (induction n arbitrary: a)
  case 0
  then show ?case by (simp add: unat_eq_zero contents_def split: option.splits)
next
  case (Suc n)
  show ?case
  proof (cases "m_size a = 0")
    case True
    then show ?thesis by (simp add: contents_def split: option.splits)
  next
    case False
    note p = bca_pop_front_elems [OF Suc.prems(1) False]
    have "consume n m (bca_pop_front a) = Some (bca_elems m (bca_pop_front a))" using Suc.IH [OF p(1)] p(4) Suc.prems(2) by simp
    then show ?thesis using p(2,3) False by simp
  qed
qed

section \<open>Dynamic arrays\<close>

text \<open>The buffer has \<open>max_element\<close> places, its length, of which the first \<open>elements\<close> are in use. A function that may run out of memory returns
  the array and a failure flag.\<close>

(* @my_sys.h 346-354 DYNAMIC_ARRAY *)
record 'e dynamic_array =
  buffer :: "'e list"
  elements :: nat

type_synonym 'e insert_fn = "'e dynamic_array \<Rightarrow> 'e \<Rightarrow> 'e dynamic_array \<times> bool"
type_synonym 'e set_fn = "'e dynamic_array \<Rightarrow> 'e \<Rightarrow> nat \<Rightarrow> 'e dynamic_array \<times> bool"
type_synonym 'e allocate_fn = "'e dynamic_array \<Rightarrow> nat \<Rightarrow> 'e dynamic_array \<times> bool"

(* @sql_array.h 138-147 Dynamic_array::at *)
definition da_at :: "'e dynamic_array \<Rightarrow> nat \<Rightarrow> 'e option" where
  "da_at a idx = (if idx < length (buffer a) then Some (buffer a ! idx) else None)"

(* @sql_array.h 162-171 Dynamic_array::back *)
definition da_back :: "'e dynamic_array \<Rightarrow> int" where
  "da_back a = int (elements a) - 1"

(* @sql_array.h 175-178 Dynamic_array::end *)
definition da_end :: "'e dynamic_array \<Rightarrow> int" where
  "da_end a = da_back a + 1"

(* @sql_array.h 196-199 Dynamic_array::append *)
definition da_append :: "'e insert_fn \<Rightarrow> 'e dynamic_array \<Rightarrow> 'e \<Rightarrow> 'e dynamic_array \<times> bool" where
  "da_append insert_dynamic a el = insert_dynamic a el"

(* @sql_array.h 206-209 Dynamic_array::push *)
definition da_push :: "'e insert_fn \<Rightarrow> 'e dynamic_array \<Rightarrow> 'e \<Rightarrow> 'e dynamic_array \<times> bool" where
  "da_push insert_dynamic a el = da_append insert_dynamic a el"

text \<open>\<open>pop_dynamic\<close> returns a pointer into the buffer, or null; the wrapper follows it.\<close>

(* @sql_array.h 211-215 Dynamic_array::pop *)
definition da_pop :: "('e dynamic_array \<Rightarrow> 'e dynamic_array \<times> ptr) \<Rightarrow> 'e dynamic_array \<Rightarrow> ('e dynamic_array \<times> 'e) option" where
  "da_pop pop_dynamic a =
     (case pop_dynamic a of (a', p) \<Rightarrow> map_option (Pair a') (load (buffer a') p 0))"

(* @sql_array.h 228-232 Dynamic_array::elements *)
definition da_set_elements :: "'e dynamic_array \<Rightarrow> nat \<Rightarrow> 'e dynamic_array" where
  "da_set_elements a num_elements = a\<lparr>elements := num_elements\<rparr>"

(* @sql_array.h 234-237 Dynamic_array::clear *)
definition da_clear :: "'e dynamic_array \<Rightarrow> 'e dynamic_array" where
  "da_clear a = da_set_elements a 0"

(* @sql_array.h 239-242 Dynamic_array::set *)
definition da_set :: "'e set_fn \<Rightarrow> 'e dynamic_array \<Rightarrow> nat \<Rightarrow> 'e \<Rightarrow> 'e dynamic_array" where
  "da_set set_dynamic a idx el = fst (set_dynamic a el idx)"

(* @sql_array.h 249-252 Dynamic_array::reserve *)
definition da_reserve :: "'e allocate_fn \<Rightarrow> 'e dynamic_array \<Rightarrow> nat \<Rightarrow> 'e dynamic_array \<times> bool" where
  "da_reserve allocate_dynamic a new_size = allocate_dynamic a new_size"

(* @sql_array.h 255-270 Dynamic_array::resize *)
definition da_resize :: "'e allocate_fn \<Rightarrow> 'e set_fn \<Rightarrow> 'e dynamic_array \<Rightarrow> nat \<Rightarrow> 'e \<Rightarrow> 'e dynamic_array \<times> bool" where
  "da_resize allocate_dynamic set_dynamic a new_size default_val =
     (let old_size = elements a in
      case da_reserve allocate_dynamic a new_size of
        (a1, True) \<Rightarrow> (a1, True)
      | (a1, False) \<Rightarrow> (if new_size > old_size then (fst (set_dynamic a1 default_val (new_size - 1)), False) else (a1, False)))"

text \<open>What the wrappers rely on. \<open>set_dynamic\<close> on a place behind the elements in use makes it the last one and zeroes the places
  between; \<open>pop_dynamic\<close> of an empty array returns null.\<close>

definition da_elems :: "'e dynamic_array \<Rightarrow> 'e list" where
  "da_elems a = take (elements a) (buffer a)"

definition wf_da :: "'e dynamic_array \<Rightarrow> bool" where
  "wf_da a \<longleftrightarrow> elements a \<le> length (buffer a)"

definition allocate_law :: "'e allocate_fn \<Rightarrow> bool" where
  "allocate_law f \<longleftrightarrow> (\<forall>a n a' fail. wf_da a \<and> f a n = (a', fail) \<longrightarrow>
     da_elems a' = da_elems a \<and> elements a' = elements a \<and> wf_da a' \<and> (\<not> fail \<longrightarrow> n \<le> length (buffer a')))"

definition set_law :: "'e \<Rightarrow> 'e set_fn \<Rightarrow> bool" where
  "set_law zero f \<longleftrightarrow> (\<forall>a el i. wf_da a \<and> i < length (buffer a) \<longrightarrow>
     wf_da (fst (f a el i)) \<and>
     da_elems (fst (f a el i)) =
       (if i < elements a then (da_elems a)[i := el] else da_elems a @ replicate (i - elements a) zero @ [el]))"

definition pop_law :: "('e dynamic_array \<Rightarrow> 'e dynamic_array \<times> ptr) \<Rightarrow> bool" where
  "pop_law f \<longleftrightarrow> (\<forall>a. wf_da a \<longrightarrow>
     f a = (if elements a = 0 then (a, None) else (a\<lparr>elements := elements a - 1\<rparr>, Some (elements a - 1))))"

text \<open>Growing puts the default value at the last new place only; the other new elements are zero. A smaller size keeps all elements. A
  failed allocation is reported and keeps them too.\<close>

lemma da_resize_elems:
  assumes "allocate_law alloc" "set_law zero set_dyn" "wf_da a"
  shows "(\<exists>a'. da_resize alloc set_dyn a n d = (a', True) \<and> da_elems a' = da_elems a) \<or>
     (\<exists>a'. da_resize alloc set_dyn a n d = (a', False) \<and>
        da_elems a' = (if elements a < n then da_elems a @ replicate (n - 1 - elements a) zero @ [d] else da_elems a))"
proof -
  obtain a1 fail where r: "alloc a n = (a1, fail)" by (cases "alloc a n")
  then have a1: "da_elems a1 = da_elems a" "elements a1 = elements a" "wf_da a1" "\<not> fail \<longrightarrow> n \<le> length (buffer a1)"
    using assms(1,3) unfolding allocate_law_def by blast+
  show ?thesis
  proof (cases fail)
    case True
    then show ?thesis using r a1 by (simp add: da_resize_def da_reserve_def Let_def)
  next
    case False
    have "da_elems (fst (set_dyn a1 d (n - 1))) = da_elems a @ replicate (n - 1 - elements a) zero @ [d]" if lt: "elements a < n"
    proof -
      have "n - 1 < length (buffer a1)" "\<not> n - 1 < elements a1" using lt a1(2,4) False by simp_all
      then show ?thesis using assms(2) a1(1-3) unfolding set_law_def by metis
    qed
    then show ?thesis using r a1 False by (simp add: da_resize_def da_reserve_def Let_def)
  qed
qed

text \<open>Popping returns the last element; on an empty array, where it is said to do nothing, a null pointer is followed.\<close>

lemma da_pop_elems:
  assumes "pop_law pop_dyn" "wf_da a"
  shows "elements a = 0 \<longrightarrow> da_pop pop_dyn a = None"
    "0 < elements a \<longrightarrow> (\<exists>a'. da_pop pop_dyn a = Some (a', last (da_elems a)) \<and> da_elems a' = butlast (da_elems a))"
proof -
  have p: "pop_dyn a = (if elements a = 0 then (a, None) else (a\<lparr>elements := elements a - 1\<rparr>, Some (elements a - 1)))"
    using assms unfolding pop_law_def by blast
  then show "elements a = 0 \<longrightarrow> da_pop pop_dyn a = None" by (simp add: da_pop_def load_def)
  have "last (da_elems a) = buffer a ! (elements a - 1)" "butlast (da_elems a) = take (elements a - 1) (buffer a)" if "0 < elements a"
  proof -
    have ne: "da_elems a \<noteq> []" using that assms(2) by (cases "buffer a") (auto simp: wf_da_def da_elems_def)
    show "last (da_elems a) = buffer a ! (elements a - 1)"
      using last_conv_nth [OF ne] that assms(2) by (simp add: wf_da_def da_elems_def min_def)
    show "butlast (da_elems a) = take (elements a - 1) (buffer a)"
      using assms(2) by (simp add: wf_da_def da_elems_def butlast_take)
  qed
  then show "0 < elements a \<longrightarrow> (\<exists>a'. da_pop pop_dyn a = Some (a', last (da_elems a)) \<and> da_elems a' = butlast (da_elems a))"
    using p assms(2) by (auto simp: da_pop_def load_def wf_da_def da_elems_def)
qed

end
