(* ===== verification/Temporal.thy ===== *)
theory Temporal
  imports My_Time
begin

text \<open>
  The base class \<open>Temporal\<close> of the SQL time values (\<^verbatim>\<open>sql_type.h\<close>) with the predicates on dates of
  \<^verbatim>\<open>sql_time.h\<close>, \<open>Temporal_hybrid\<close>, the parts that EXTRACT takes of a value (\<open>Extract_source\<close>) and
  the interval class \<open>Interval_DDhhmmssff\<close>.

  A value is the \<open>MYSQL_TIME\<close> it derives from. \<open>int\<close> and \<open>long\<close> have 32 bits, \<open>longlong\<close> has 64;
  products and sums wrap around. The parsers and range checks that are defined in \<^verbatim>\<open>my_time.c\<close>
  and \<^verbatim>\<open>sql_time.cc\<close> are arguments. The texts that a \<open>Warn\<close> object formats for its messages are not modelled.
\<close>

section \<open>Constants\<close>

(* @my_time.h 64-64 MYSQL_TIME_WARN_TRUNCATED *)
definition WARN_TRUNCATED :: int where "WARN_TRUNCATED = 1"

(* @my_time.h 65-65 MYSQL_TIME_WARN_OUT_OF_RANGE *)
definition WARN_OUT_OF_RANGE :: int where "WARN_OUT_OF_RANGE = 2"

(* @my_time.h 66-66 MYSQL_TIME_WARN_EDOM *)
definition WARN_EDOM :: int where "WARN_EDOM = 4"

(* @my_time.h 67-67 MYSQL_TIME_WARN_ZERO_DATE *)
definition WARN_ZERO_DATE :: int where "WARN_ZERO_DATE = 8"

(* @my_time.h 68-68 MYSQL_TIME_NOTE_TRUNCATED *)
definition NOTE_TRUNCATED :: int where "NOTE_TRUNCATED = 16"

(* @my_time.h 70-73 MYSQL_TIME_WARN_WARNINGS *)
definition WARN_WARNINGS :: int where
  "WARN_WARNINGS = WARN_TRUNCATED OR WARN_OUT_OF_RANGE OR WARN_EDOM OR WARN_ZERO_DATE"

(* @my_time.h 76-76 MYSQL_TIME_WARN_HAVE_WARNINGS *)
definition have_warnings :: "int \<Rightarrow> bool" where
  "have_warnings x \<longleftrightarrow> x AND WARN_WARNINGS \<noteq> 0"

(* @my_time.h 77-77 MYSQL_TIME_WARN_HAVE_NOTES *)
definition have_notes :: "int \<Rightarrow> bool" where
  "have_notes x \<longleftrightarrow> x AND NOTE_TRUNCATED \<noteq> 0"

(* @my_time.h 94-94 TIME_MAX_MINUTE *)
definition TIME_MAX_MINUTE :: uint where "TIME_MAX_MINUTE = 59"

(* @my_time.h 95-95 TIME_MAX_SECOND *)
definition TIME_MAX_SECOND :: uint where "TIME_MAX_SECOND = 59"

(* @my_time.h 96-96 TIME_MAX_SECOND_PART *)
definition TIME_MAX_SECOND_PART :: uint32 where "TIME_MAX_SECOND_PART = 999999"

(* @my_time.h 98-98 TIME_SECOND_PART_DIGITS *)
definition TIME_SECOND_PART_DIGITS :: uint where "TIME_SECOND_PART_DIGITS = 6"

(* @my_time.h 90-90 TIME_MAX_INTERVAL_DAY_CHAR_LENGTH *)
definition TIME_MAX_INTERVAL_DAY_CHAR_LENGTH :: uint where "TIME_MAX_INTERVAL_DAY_CHAR_LENGTH = 7"

(* @sql_basic_types.h 137-137 time_round_mode_t::FRAC_NONE *)
definition FRAC_NONE :: "64 word" where "FRAC_NONE = 0"

section \<open>Predicates on dates\<close>

(* @sql_time.h 62-69 datetime_to_date *)
definition datetime_to_date :: "mysql_time \<Rightarrow> mysql_time" where
  "datetime_to_date t =
     t\<lparr>second := 0, minute := 0, hour := 0, second_part := 0, time_type := TIMESTAMP_DATE\<rparr>"

(* @sql_time.h 70-76 date_to_datetime *)
definition date_to_datetime :: "mysql_time \<Rightarrow> mysql_time" where
  "date_to_datetime t = t\<lparr>time_type := TIMESTAMP_DATETIME\<rparr>"

(* @sql_time.h 152-156 non_zero_hhmmssuu *)
definition non_zero_hhmmssuu :: "mysql_time \<Rightarrow> bool" where
  "non_zero_hhmmssuu t \<longleftrightarrow> hour t \<noteq> 0 \<or> minute t \<noteq> 0 \<or> second t \<noteq> 0 \<or> second_part t \<noteq> 0"

(* @sql_time.h 157-161 non_zero_YYMMDD *)
definition non_zero_YYMMDD :: "mysql_time \<Rightarrow> bool" where
  "non_zero_YYMMDD t \<longleftrightarrow> year t \<noteq> 0 \<or> month t \<noteq> 0 \<or> day t \<noteq> 0"

(* @sql_time.h 162-168 non_zero_date *)
definition non_zero_date :: "mysql_time \<Rightarrow> bool" where
  "non_zero_date t \<longleftrightarrow> non_zero_YYMMDD t \<or> time_type t = TIMESTAMP_DATETIME \<and> non_zero_hhmmssuu t"

text \<open>The check of \<^verbatim>\<open>my_time.c\<close> gets the date, whether it is non-zero and the flags, and returns the
  result with the warning.\<close>

type_synonym date_check = "mysql_time \<Rightarrow> bool \<Rightarrow> 64 word \<Rightarrow> bool \<times> int"

(* @sql_time.h 169-174 check_date *)
definition check_date :: "date_check \<Rightarrow> mysql_time \<Rightarrow> 64 word \<Rightarrow> bool \<times> int" where
  "check_date chk t flags = chk t (non_zero_date t) (flags AND TIME_MODE_FOR_XXX_TO_DATE)"

section \<open>Years\<close>

(* @sql_type.h 801-805 Year *)
record year_value =
  m_year :: uint
  y_truncated :: bool

(* @sql_type.h 808-808 Year::Year *)
definition year_new :: year_value where
  "year_new = \<lparr>m_year = 0, y_truncated = False\<rparr>"

(* @sql_type.h 811-811 Year::to_YYYYMMDD *)
definition to_YYYYMMDD :: "year_value \<Rightarrow> uint" where
  "to_YYYYMMDD y = m_year y * 10000"

section \<open>The class Temporal\<close>

(* @sql_type.h 912-916 Temporal::Options::Options *)
definition temporal_options :: "64 word \<Rightarrow> 64 word \<Rightarrow> 64 word" where
  "temporal_options flags rmode = date_mode_of flags rmode"

(* @sql_type.h 922-926 Temporal::is_valid_temporal *)
definition is_valid_temporal :: "mysql_time \<Rightarrow> bool" where
  "is_valid_temporal t \<longleftrightarrow> time_type t \<noteq> TIMESTAMP_NONE"

(* @sql_type.h 927-937 Temporal::type_name_by_timestamp_type *)
definition type_name_by_timestamp_type :: "timestamp_type \<Rightarrow> string" where
  "type_name_by_timestamp_type ty =
     (case ty of TIMESTAMP_DATE \<Rightarrow> ''date'' | TIMESTAMP_TIME \<Rightarrow> ''time'' | _ \<Rightarrow> ''datetime'')"

text \<open>The enumeration gives \<open>NONE\<close> the value \<open>- 2\<close> and \<open>ERROR\<close> the value \<open>- 1\<close>, so \<open>tstype >= 0\<close> holds of the other three.\<close>

(* @sql_type.h 865-873 Temporal::Warn::push_conversion_warnings *)
definition warned_type_name :: "64 word \<Rightarrow> timestamp_type \<Rightarrow> string" where
  "warned_type_name mode tstype =
     (if tstype \<noteq> TIMESTAMP_NONE \<and> tstype \<noteq> TIMESTAMP_ERROR then type_name_by_timestamp_type tstype
      else if mode AND (INTERVAL_hhmmssff OR INTERVAL_DAY) \<noteq> 0 then ''interval''
      else if mode AND TIME_ONLY \<noteq> 0 then ''time'' else ''datetime'')"

type_synonym zero_time = "mysql_time \<Rightarrow> timestamp_type \<Rightarrow> mysql_time"

(* @sql_type.h 949-969 Temporal::make_fuzzy_date *)
definition make_fuzzy_date :: "zero_time \<Rightarrow> mysql_time \<Rightarrow> 64 word \<Rightarrow> mysql_time" where
  "make_fuzzy_date set_zero_time t fuzzydate =
     (let tstype = (if fuzzydate AND FUZZY_DATES = 0 then TIMESTAMP_NONE
                    else if fuzzydate AND TIME_ONLY \<noteq> 0 then TIMESTAMP_TIME else TIMESTAMP_DATETIME)
      in set_zero_time t tstype)"

(* @sql_type.h 981-985 Temporal::make_from_out_of_range *)
definition make_from_out_of_range :: "mysql_time \<Rightarrow> mysql_time \<times> int" where
  "make_from_out_of_range t = (t\<lparr>time_type := TIMESTAMP_NONE\<rparr>, WARN_OUT_OF_RANGE)"

text \<open>\<open>conv\<close> is \<open>Sec6::convert_to_mysql_time\<close> and \<open>add_round\<close> is \<open>add_nanoseconds_with_round\<close>; both return
  the failure flag, the value and the warnings.\<close>

type_synonym sec_conv = "sec6 \<Rightarrow> int \<Rightarrow> 64 word \<Rightarrow> bool \<times> mysql_time \<times> int"
type_synonym nsec_round = "mysql_time \<Rightarrow> int \<Rightarrow> 64 word \<Rightarrow> uint32 \<Rightarrow> bool \<times> mysql_time \<times> int"

(* @sql_type.h 1156-1161 Temporal::add_nanoseconds *)
definition temporal_add_nanoseconds ::
  "nsec_round \<Rightarrow> mysql_time \<Rightarrow> int \<Rightarrow> 64 word \<Rightarrow> uint32 \<Rightarrow> bool \<times> mysql_time \<times> int" where
  "temporal_add_nanoseconds add_round t warn mode nsec =
     (let cmode = conv_mode mode
      in if round_mode mode = FRAC_ROUND then add_round t warn cmode nsec else (False, t, warn))"

(* @sql_type.h 986-991 Temporal::make_from_sec6 *)
definition make_from_sec6 :: "zero_time \<Rightarrow> sec_conv \<Rightarrow> int \<Rightarrow> sec6 \<Rightarrow> 64 word \<Rightarrow> mysql_time \<times> int" where
  "make_from_sec6 set_zero_time conv warn nr mode =
     (case conv nr warn mode of (fail, t, w) \<Rightarrow>
        if fail then (make_fuzzy_date set_zero_time t (conv_mode mode), w) else (t, w))"

(* @sql_type.h 992-998 Temporal::make_from_sec9 *)
definition make_from_sec9 ::
  "zero_time \<Rightarrow> sec_conv \<Rightarrow> nsec_round \<Rightarrow> int \<Rightarrow> sec9 \<Rightarrow> 64 word \<Rightarrow> mysql_time \<times> int" where
  "make_from_sec9 set_zero_time conv add_round warn nr mode =
     (case conv (sec6.truncate nr) warn mode of (fail, t, w) \<Rightarrow>
        if fail then (make_fuzzy_date set_zero_time t (conv_mode mode), w)
        else case temporal_add_nanoseconds add_round t w mode (m_nsec nr) of (fail', t', w') \<Rightarrow>
          if fail' then (make_fuzzy_date set_zero_time t' (conv_mode mode), w') else (t', w'))"

(* @sql_type.h 1008-1018 Temporal::make_from_longlong_hybrid *)
definition make_from_longlong_hybrid ::
  "zero_time \<Rightarrow> sec_conv \<Rightarrow> int \<Rightarrow> longlong_hybrid \<Rightarrow> 64 word \<Rightarrow> mysql_time \<times> int" where
  "make_from_longlong_hybrid set_zero_time conv warn nr mode =
     make_from_sec6 set_zero_time conv warn (make_from_int nr) mode"

text \<open>A parser gets the text, its length, the value, the flags, the status and, in two of the three cases, the
  limits for the hours, and returns the failure flag with the new value and status.\<close>

type_synonym ('s, 'r) parser = "'s \<Rightarrow> ulonglong \<Rightarrow> mysql_time \<Rightarrow> 64 word \<Rightarrow> mysql_time_status \<Rightarrow> 'r"
type_synonym parsed = "bool \<times> mysql_time \<times> mysql_time_status"

(* @sql_type.h 1037-1053 Temporal::ascii_to_datetime_or_date_or_interval_DDhhmmssff *)
definition ascii_to_datetime_or_date_or_interval_DDhhmmssff ::
  "('s, uint32 \<Rightarrow> uint32 \<Rightarrow> parsed) parser \<Rightarrow> ('s, uint32 \<Rightarrow> uint32 \<Rightarrow> parsed) parser \<Rightarrow>
   mysql_time \<Rightarrow> mysql_time_status \<Rightarrow> 's \<Rightarrow> ulonglong \<Rightarrow> 64 word \<Rightarrow> parsed" where
  "ascii_to_datetime_or_date_or_interval_DDhhmmssff str_to_interval_day str_to_interval_hhmmssff t st str len mode =
     (let cflags = mode AND TIME_MODE_FOR_XXX_TO_DATE
      in if mode AND INTERVAL_DAY \<noteq> 0
         then str_to_interval_day str len t cflags st (ucast TIME_MAX_INTERVAL_HOUR) (ucast TIME_MAX_INTERVAL_HOUR)
         else str_to_interval_hhmmssff str len t cflags st (ucast TIME_MAX_INTERVAL_HOUR) (ucast TIME_MAX_INTERVAL_HOUR))"

(* @sql_type.h 1054-1064 Temporal::ascii_to_datetime_or_date_or_time *)
definition ascii_to_datetime_or_date_or_time ::
  "('s, uint32 \<Rightarrow> uint32 \<Rightarrow> parsed) parser \<Rightarrow>
   mysql_time \<Rightarrow> mysql_time_status \<Rightarrow> 's \<Rightarrow> ulonglong \<Rightarrow> 64 word \<Rightarrow> parsed" where
  "ascii_to_datetime_or_date_or_time str_to_time t st str len fuzzydate =
     str_to_time str len t (fuzzydate AND TIME_MODE_FOR_XXX_TO_DATE) st TIME_MAX_HOUR (NOT 0)"

(* @sql_type.h 1065-1075 Temporal::ascii_to_datetime_or_date *)
definition ascii_to_datetime_or_date ::
  "('s, parsed) parser \<Rightarrow> mysql_time \<Rightarrow> mysql_time_status \<Rightarrow> 's \<Rightarrow> ulonglong \<Rightarrow> 64 word \<Rightarrow> parsed" where
  "ascii_to_datetime_or_date str_to_date t st str len fuzzydate =
     str_to_date str len t (fuzzydate AND TIME_MODE_FOR_XXX_TO_DATE) st"

(* @sql_type.h 1026-1036 Temporal::ascii_to_temporal *)
definition ascii_to_temporal ::
  "('s, uint32 \<Rightarrow> uint32 \<Rightarrow> parsed) parser \<Rightarrow> ('s, uint32 \<Rightarrow> uint32 \<Rightarrow> parsed) parser \<Rightarrow>
   ('s, uint32 \<Rightarrow> uint32 \<Rightarrow> parsed) parser \<Rightarrow> ('s, parsed) parser \<Rightarrow>
   mysql_time \<Rightarrow> mysql_time_status \<Rightarrow> 's \<Rightarrow> ulonglong \<Rightarrow> 64 word \<Rightarrow> parsed" where
  "ascii_to_temporal str_to_interval_day str_to_interval_hhmmssff str_to_time str_to_date t st str len mode =
     (if mode AND (INTERVAL_hhmmssff OR INTERVAL_DAY) \<noteq> 0
      then ascii_to_datetime_or_date_or_interval_DDhhmmssff str_to_interval_day str_to_interval_hhmmssff t st str len mode
      else if mode AND TIME_ONLY \<noteq> 0 then ascii_to_datetime_or_date_or_time str_to_time t st str len mode
      else ascii_to_datetime_or_date str_to_date t st str len mode)"

(* @sql_type.h 1087-1092 Temporal::has_valid_mmssff *)
definition has_valid_mmssff :: "mysql_time \<Rightarrow> bool" where
  "has_valid_mmssff t \<longleftrightarrow>
     minute t \<le> TIME_MAX_MINUTE \<and> second t \<le> TIME_MAX_SECOND \<and> second_part t \<le> TIME_MAX_SECOND_PART"

(* @sql_type.h 1093-1096 Temporal::has_zero_YYYYMM *)
definition has_zero_YYYYMM :: "mysql_time \<Rightarrow> bool" where
  "has_zero_YYYYMM t \<longleftrightarrow> year t = 0 \<and> month t = 0"

(* @sql_type.h 1097-1100 Temporal::has_zero_YYYYMMDD *)
definition has_zero_YYYYMMDD :: "mysql_time \<Rightarrow> bool" where
  "has_zero_YYYYMMDD t \<longleftrightarrow> year t = 0 \<and> month t = 0 \<and> day t = 0"

(* @sql_type.h 1101-1104 Temporal::check_date *)
definition temporal_check_date :: "date_check \<Rightarrow> mysql_time \<Rightarrow> 64 word \<Rightarrow> bool \<times> int" where
  "temporal_check_date chk t flags = check_date chk t flags"

(* @sql_type.h 1105-1111 Temporal::time_hhmmssff_set_max *)
definition time_hhmmssff_set_max :: "mysql_time \<Rightarrow> uint \<Rightarrow> mysql_time" where
  "time_hhmmssff_set_max t max_hour =
     t\<lparr>hour := max_hour, minute := TIME_MAX_MINUTE, second := TIME_MAX_SECOND, second_part := TIME_MAX_SECOND_PART\<rparr>"

(* @sql_type.h 1117-1133 Temporal::add_nanoseconds_ssff *)
definition add_nanoseconds_ssff :: "mysql_time \<Rightarrow> uint \<Rightarrow> mysql_time \<times> bool" where
  "add_nanoseconds_ssff t nanoseconds =
     (if nanoseconds < 500 then (t, False)
      else let t1 = t\<lparr>second_part := second_part t + (nanoseconds + 500) div 1000\<rparr>
           in if second_part t1 < 1000000 then (t1, False)
              else let t2 = t1\<lparr>second_part := second_part t1 mod 1000000\<rparr>
                   in if second t2 < 59 then (t2\<lparr>second := second t2 + 1\<rparr>, False)
                      else (t2\<lparr>second := 0\<rparr>, True))"

(* @sql_type.h 1139-1150 Temporal::add_nanoseconds_mmssff *)
definition add_nanoseconds_mmssff :: "mysql_time \<Rightarrow> uint \<Rightarrow> mysql_time \<times> bool" where
  "add_nanoseconds_mmssff t nanoseconds =
     (case add_nanoseconds_ssff t nanoseconds of (t1, carry) \<Rightarrow>
        if \<not> carry then (t1, False)
        else if minute t1 < 59 then (t1\<lparr>minute := minute t1 + 1\<rparr>, False)
        else (t1\<lparr>minute := 0\<rparr>, True))"

(* @sql_type.h 1170-1173 Temporal::fraction_remainder *)
definition temporal_fraction_remainder :: "log_table \<Rightarrow> mysql_time \<Rightarrow> uint \<Rightarrow> uint32 option" where
  "temporal_fraction_remainder log_10_int t dec = my_time_fraction_remainder log_10_int (second_part t) dec"

section \<open>The class Temporal hybrid\<close>

text \<open>The object is uninitialised before its constructor, \<open>u\<close> in the model.\<close>

(* @sql_type.h 1237-1244 Temporal_hybrid::Temporal_hybrid(THD ptr, Warn ptr, const Longlong_hybrid_null ref, date_mode_t) *)
definition hybrid_of_longlong_null ::
  "zero_time \<Rightarrow> sec_conv \<Rightarrow> mysql_time \<Rightarrow> int \<Rightarrow> longlong_hybrid option \<Rightarrow> 64 word \<Rightarrow> mysql_time \<times> int" where
  "hybrid_of_longlong_null set_zero_time conv u warn nr fuzzydate =
     (case nr of None \<Rightarrow> (u\<lparr>time_type := TIMESTAMP_NONE\<rparr>, warn)
      | Some n \<Rightarrow> make_from_longlong_hybrid set_zero_time conv warn n fuzzydate)"

(* @sql_type.h 1261-1266 Temporal_hybrid::copy_valid_value_to_mysql_time *)
definition copy_valid_value_to_mysql_time :: "mysql_time \<Rightarrow> mysql_time \<times> bool" where
  "copy_valid_value_to_mysql_time t = (t, False)"

text \<open>The packing of the digits by \<^verbatim>\<open>my_time.c\<close> is an argument.\<close>

(* @sql_type.h 1268-1274 Temporal_hybrid::to_longlong *)
definition hybrid_to_longlong :: "(mysql_time \<Rightarrow> ulonglong) \<Rightarrow> mysql_time \<Rightarrow> 64 word" where
  "hybrid_to_longlong TIME_to_ulonglong t =
     (if \<not> is_valid_temporal t then 0
      else let v = TIME_to_ulonglong t in if neg t then - v else v)"

section \<open>The parts of a value\<close>

(* @sql_type.h 1314-1320 Extract_source::time_to_daytime_interval *)
definition time_to_daytime_interval :: "mysql_time \<Rightarrow> mysql_time" where
  "time_to_daytime_interval t = t\<lparr>day := hour t div 24, hour := hour t mod 24\<rparr>"

(* @sql_type.h 1321-1325 Extract_source::is_valid_extract_source_slow *)
definition is_valid_extract_source_slow :: "mysql_time \<Rightarrow> bool" where
  "is_valid_extract_source_slow t \<longleftrightarrow>
     is_valid_temporal t \<and> hour t < 24 \<and> (has_zero_YYYYMM t \<or> time_type t \<noteq> TIMESTAMP_TIME)"

(* @sql_type.h 1326-1329 Extract_source::is_valid_value_slow *)
definition extract_is_valid_value_slow :: "mysql_time \<Rightarrow> bool" where
  "extract_is_valid_value_slow t \<longleftrightarrow> time_type t = TIMESTAMP_NONE \<or> is_valid_extract_source_slow t"

text \<open>\<open>t\<close> is the value of the item as \<open>Temporal_hybrid\<close>.\<close>

(* @sql_type.h 1331-1337 Extract_source::Extract_source *)
definition extract_source :: "mysql_time \<Rightarrow> mysql_time" where
  "extract_source t = (if time_type t = TIMESTAMP_TIME then time_to_daytime_interval t else t)"

(* @sql_type.h 1344-1344 Extract_source::sign *)
definition ex_sign :: "mysql_time \<Rightarrow> 32 word" where
  "ex_sign t = (if neg t then - 1 else 1)"

(* @sql_type.h 1347-1347 Extract_source::day *)
definition ex_day :: "mysql_time \<Rightarrow> 32 word" where
  "ex_day t = day t * ex_sign t"

(* @sql_type.h 1348-1348 Extract_source::hour *)
definition ex_hour :: "mysql_time \<Rightarrow> 32 word" where
  "ex_hour t = hour t * ex_sign t"

(* @sql_type.h 1349-1349 Extract_source::minute *)
definition ex_minute :: "mysql_time \<Rightarrow> 32 word" where
  "ex_minute t = minute t * ex_sign t"

(* @sql_type.h 1350-1350 Extract_source::second *)
definition ex_second :: "mysql_time \<Rightarrow> 32 word" where
  "ex_second t = second t * ex_sign t"

(* @sql_type.h 1351-1351 Extract_source::microsecond *)
definition ex_microsecond :: "mysql_time \<Rightarrow> 32 word" where
  "ex_microsecond t = second_part t * ex_sign t"

(* @sql_type.h 1353-1353 Extract_source::year_month *)
definition year_month :: "mysql_time \<Rightarrow> uint" where
  "year_month t = year t * 100 + month t"

(* @sql_type.h 1354-1354 Extract_source::quarter *)
definition ex_quarter :: "mysql_time \<Rightarrow> uint" where
  "ex_quarter t = (month t + 2) div 3"

(* @sql_type.h 1357-1360 Extract_source::second_microsecond *)
definition second_microsecond :: "mysql_time \<Rightarrow> 64 word" where
  "second_microsecond t = scast (ex_second t) * 1000000 + scast (ex_microsecond t)"

(* @sql_type.h 1363-1366 Extract_source::day_hour *)
definition day_hour :: "mysql_time \<Rightarrow> 64 word" where
  "day_hour t = scast (ex_day t) * 100 + scast (ex_hour t)"

(* @sql_type.h 1367-1370 Extract_source::day_minute *)
definition day_minute :: "mysql_time \<Rightarrow> 64 word" where
  "day_minute t = day_hour t * 100 + scast (ex_minute t)"

(* @sql_type.h 1371-1374 Extract_source::day_second *)
definition day_second :: "mysql_time \<Rightarrow> 64 word" where
  "day_second t = day_minute t * 100 + scast (ex_second t)"

(* @sql_type.h 1375-1378 Extract_source::day_microsecond *)
definition day_microsecond :: "mysql_time \<Rightarrow> 64 word" where
  "day_microsecond t = day_second t * 1000000 + scast (ex_microsecond t)"

(* @sql_type.h 1381-1384 Extract_source::hour_minute *)
definition hour_minute :: "mysql_time \<Rightarrow> 32 word" where
  "hour_minute t = ex_hour t * 100 + ex_minute t"

(* @sql_type.h 1385-1388 Extract_source::hour_second *)
definition hour_second :: "mysql_time \<Rightarrow> 32 word" where
  "hour_second t = hour_minute t * 100 + ex_second t"

(* @sql_type.h 1389-1392 Extract_source::hour_microsecond *)
definition hour_microsecond :: "mysql_time \<Rightarrow> 64 word" where
  "hour_microsecond t = scast (hour_second t) * 1000000 + scast (ex_microsecond t)"

(* @sql_type.h 1395-1398 Extract_source::minute_second *)
definition minute_second :: "mysql_time \<Rightarrow> 32 word" where
  "minute_second t = ex_minute t * 100 + ex_second t"

(* @sql_type.h 1399-1402 Extract_source::minute_microsecond *)
definition minute_microsecond :: "mysql_time \<Rightarrow> 64 word" where
  "minute_microsecond t = scast (minute_second t) * 1000000 + scast (ex_microsecond t)"

section \<open>Intervals\<close>

(* @sql_type.h 1423-1427 Interval_DDhhmmssff::is_valid_interval_DDhhmmssff_slow *)
definition is_valid_interval_DDhhmmssff_slow :: "mysql_time \<Rightarrow> bool" where
  "is_valid_interval_DDhhmmssff_slow t \<longleftrightarrow>
     time_type t = TIMESTAMP_TIME \<and> has_zero_YYYYMMDD t \<and> has_valid_mmssff t"

(* @sql_type.h 1443-1446 Interval_DDhhmmssff::max_useful_hour *)
definition max_useful_hour :: uint where
  "max_useful_hour = ucast TIME_MAX_INTERVAL_HOUR"

(* @sql_type.h 1447-1451 Interval_DDhhmmssff::max_int_part_char_length *)
definition max_int_part_char_length :: uint where
  "max_int_part_char_length = 1 + TIME_MAX_INTERVAL_DAY_CHAR_LENGTH + 1 + 8"

(* @sql_type.h 1452-1456 Interval_DDhhmmssff::max_char_length *)
definition max_char_length :: "uint \<Rightarrow> uint" where
  "max_char_length fsp = max_int_part_char_length + (if fsp \<noteq> 0 then 1 else 0) + fsp"

(* @sql_type.h 1476-1479 Interval_DDhhmmssff::is_valid_interval_DDhhmmssff *)
definition is_valid_interval_DDhhmmssff :: "mysql_time \<Rightarrow> bool" where
  "is_valid_interval_DDhhmmssff t \<longleftrightarrow> time_type t = TIMESTAMP_TIME"

(* @sql_type.h 1480-1483 Interval_DDhhmmssff::is_valid_value *)
definition interval_is_valid_value :: "mysql_time \<Rightarrow> bool" where
  "interval_is_valid_value t \<longleftrightarrow> time_type t = TIMESTAMP_NONE \<or> is_valid_interval_DDhhmmssff t"

section \<open>Adding nanoseconds\<close>

text \<open>The minutes, seconds and microseconds of a value, in microseconds.\<close>

definition mmssff :: "mysql_time \<Rightarrow> nat" where
  "mmssff t = (unat (minute t) * 60 + unat (second t)) * 1000000 + unat (second_part t)"

lemma has_valid_mmssff_iff:
  "has_valid_mmssff t \<longleftrightarrow> unat (minute t) \<le> 59 \<and> unat (second t) \<le> 59 \<and> unat (second_part t) \<le> 999999"
  by (simp add: has_valid_mmssff_def TIME_MAX_MINUTE_def TIME_MAX_SECOND_def TIME_MAX_SECOND_PART_def word_le_nat_alt)

text \<open>The class repeats on its own fields the carry of \<open>Sec6::add_nanoseconds\<close>.\<close>

lemma ssff_by_sec6:
  assumes "add_nanoseconds (sec6_reset\<lparr>m_usec := second_part t\<rparr>) ns = (s, carry)"
  shows "add_nanoseconds_ssff t ns =
     (if \<not> carry then (t\<lparr>second_part := m_usec s\<rparr>, False)
      else if second t < 59 then (t\<lparr>second_part := m_usec s, second := second t + 1\<rparr>, False)
      else (t\<lparr>second_part := m_usec s, second := 0\<rparr>, True))"
  using assms by (auto simp: add_nanoseconds_ssff_def add_nanoseconds_def Let_def split: if_splits)

lemma unat_below_59: "(w :: uint) < 59 \<Longrightarrow> unat (w + 1) = unat w + 1"
  by (subst unat_plus_small) (simp_all add: word_less_nat_alt)

text \<open>C25: Adding up to a second of nanoseconds to a time rounds them to microseconds, half up, and carries from the
  microseconds through the seconds into the minutes: the new time plus the hour that the
  returned flag announces is exactly the old time plus the rounded addend, all fields stay in range and
  the hours and the date are not touched.\<close>

theorem add_nanoseconds_carry:
  assumes "has_valid_mmssff t" and "unat ns \<le> 1000000000" and "add_nanoseconds_mmssff t ns = (t', carry)"
  shows "mmssff t' + (if carry then 3600000000 else 0) = mmssff t + (unat ns + 500) div 1000 \<and>
     has_valid_mmssff t' \<and>
     t' = t\<lparr>minute := minute t', second := second t', second_part := second_part t'\<rparr>"
proof -
  obtain s c where s: "add_nanoseconds (sec6_reset\<lparr>m_usec := second_part t\<rparr>) ns = (s, c)" by fastforce
  have v: "unat (minute t) \<le> 59" "unat (second t) \<le> 59" "unat (second_part t) \<le> 999999"
    using assms(1) by (simp_all add: has_valid_mmssff_iff)
  have u: "unat (m_usec s) + (if c then 1000000 else 0) = unat (second_part t) + (unat ns + 500) div 1000"
      "unat (m_usec s) < 1000000"
    using add_nanoseconds_rounds [OF _ assms(2) s] v(3) by simp_all
  note ss = ssff_by_sec6 [OF s] and mm = assms(3) [unfolded add_nanoseconds_mmssff_def]
  consider "\<not> c" | "c" "second t < 59" | "c" "\<not> second t < 59" "minute t < 59" | "c" "\<not> second t < 59" "\<not> minute t < 59" by blast
  then show ?thesis
  proof cases
    case 1
    then show ?thesis using u v mm ss by (auto simp: mmssff_def has_valid_mmssff_iff)
  next
    case 2
    then show ?thesis
      using u v mm ss unat_below_59 [of "second t"] by (auto simp: mmssff_def has_valid_mmssff_iff word_less_nat_alt)
  next
    case 3
    then have "unat (second t) = 59" using v by (simp add: word_less_nat_alt)
    then show ?thesis
      using 3 u v mm ss unat_below_59 [of "minute t"] by (auto simp: mmssff_def has_valid_mmssff_iff word_less_nat_alt)
  next
    case 4
    then have "unat (second t) = 59" "unat (minute t) = 59" using v by (simp_all add: word_less_nat_alt)
    then show ?thesis using 4 u v mm ss by (auto simp: mmssff_def has_valid_mmssff_iff word_less_nat_alt)
  qed
qed

section \<open>Reading a time from its digits\<close>

lemma sint_of_int:
  assumes "- (2 ^ (LENGTH('a) - 1)) \<le> i" and "i < 2 ^ (LENGTH('a) - 1)"
  shows "sint (of_int i :: 'a::len word) = i"
  using assms by (simp add: signed_of_int signed_take_bit_int_eq_self)

lemma scast_of_int:
  assumes "\<bar>i\<bar> < 2 ^ 31"
  shows "(scast (of_int i :: 32 word) :: 64 word) = of_int i"
proof -
  have "sint (of_int i :: 32 word) = i" using assms by (intro sint_of_int) auto
  then show ?thesis by (simp add: scast_eq)
qed

text \<open>The number of microseconds that the digits \<open>DDhhmmssffffff\<close> stand for.\<close>

definition of_digits :: "int \<Rightarrow> int" where
  "of_digits v = (let a = \<bar>v\<bar> in sgn v * (((a div 10 ^ 12) * 24 * 3600 + (a div 10 ^ 10 mod 100) * 3600 +
     (a div 10 ^ 8 mod 100) * 60 + a div 10 ^ 6 mod 100) * 10 ^ 6 + a mod 10 ^ 6))"

text \<open>The fields of the extracted value carry the sign, and the digit groups are their signed decimal
  combinations.\<close>

definition sgn_of :: "mysql_time \<Rightarrow> int" where
  "sgn_of t = (if neg t then - 1 else 1)"

abbreviation fld :: "(mysql_time \<Rightarrow> 32 word) \<Rightarrow> mysql_time \<Rightarrow> int" where
  "fld f t \<equiv> int (unat (f t))"

lemma ex_fields:
  "ex_day t = of_int (sgn_of t * fld day t)" "ex_hour t = of_int (sgn_of t * fld hour t)"
  "ex_minute t = of_int (sgn_of t * fld minute t)" "ex_second t = of_int (sgn_of t * fld second t)"
  "ex_microsecond t = of_int (sgn_of t * fld second_part t)"
  by (simp_all add: ex_day_def ex_hour_def ex_minute_def ex_second_def ex_microsecond_def ex_sign_def sgn_of_def)

lemma signed_conv:
  assumes "0 \<le> x"
  shows "x < 2 ^ 31 \<Longrightarrow> (scast (of_int (sgn_of t * x) :: 32 word) :: 64 word) = of_int (sgn_of t * x)"
    and "x < 2 ^ 31 \<Longrightarrow> sint (of_int (sgn_of t * x) :: 32 word) = sgn_of t * x"
    and "x < 2 ^ 63 \<Longrightarrow> sint (of_int (sgn_of t * x) :: 64 word) = sgn_of t * x"
proof -
  show "x < 2 ^ 31 \<Longrightarrow> (scast (of_int (sgn_of t * x) :: 32 word) :: 64 word) = of_int (sgn_of t * x)"
    by (rule scast_of_int) (use assms in \<open>simp add: sgn_of_def\<close>)
  show "x < 2 ^ 31 \<Longrightarrow> sint (of_int (sgn_of t * x) :: 32 word) = sgn_of t * x"
    by (rule sint_of_int) (use assms in \<open>simp_all add: sgn_of_def\<close>)
  show "x < 2 ^ 63 \<Longrightarrow> sint (of_int (sgn_of t * x) :: 64 word) = sgn_of t * x"
    by (rule sint_of_int) (use assms in \<open>simp_all add: sgn_of_def\<close>)
qed

text \<open>The bounds under which no digit group overflows.\<close>

definition digit_bounds :: "mysql_time \<Rightarrow> bool" where
  "digit_bounds t \<longleftrightarrow> unat (day t) \<le> 3652058 \<and> unat (hour t) \<le> 23 \<and> unat (minute t) \<le> 59 \<and>
     unat (second t) \<le> 59 \<and> unat (second_part t) \<le> 999999"

lemma digit_groups:
  assumes "digit_bounds t"
  defines "D \<equiv> fld day t" and "H \<equiv> fld hour t" and "M \<equiv> fld minute t" and "S \<equiv> fld second t" and "U \<equiv> fld second_part t"
  shows "sint (day_hour t) = sgn_of t * (D * 100 + H)"
    and "sint (day_minute t) = sgn_of t * ((D * 100 + H) * 100 + M)"
    and "sint (day_second t) = sgn_of t * (((D * 100 + H) * 100 + M) * 100 + S)"
    and "sint (day_microsecond t) = sgn_of t * ((((D * 100 + H) * 100 + M) * 100 + S) * 1000000 + U)"
    and "sint (hour_minute t) = sgn_of t * (H * 100 + M)"
    and "sint (hour_second t) = sgn_of t * ((H * 100 + M) * 100 + S)"
    and "sint (hour_microsecond t) = sgn_of t * (((H * 100 + M) * 100 + S) * 1000000 + U)"
    and "sint (minute_second t) = sgn_of t * (M * 100 + S)"
    and "sint (minute_microsecond t) = sgn_of t * ((M * 100 + S) * 1000000 + U)"
    and "sint (second_microsecond t) = sgn_of t * (S * 1000000 + U)"
proof -
  have b: "0 \<le> D" "D \<le> 3652058" "0 \<le> H" "H \<le> 23" "0 \<le> M" "M \<le> 59" "0 \<le> S" "S \<le> 59" "0 \<le> U" "U \<le> 999999"
    using assms(1) unfolding digit_bounds_def D_def H_def M_def S_def U_def by linarith+
  have sc: "(scast (ex_day t) :: 64 word) = of_int (sgn_of t * D)" "(scast (ex_hour t) :: 64 word) = of_int (sgn_of t * H)"
      "(scast (ex_minute t) :: 64 word) = of_int (sgn_of t * M)" "(scast (ex_second t) :: 64 word) = of_int (sgn_of t * S)"
      "(scast (ex_microsecond t) :: 64 word) = of_int (sgn_of t * U)"
    unfolding ex_fields D_def [symmetric] H_def [symmetric] M_def [symmetric] S_def [symmetric] U_def [symmetric]
    using b by (auto intro!: signed_conv(1) simp del: of_int_mult)
  have hm: "hour_minute t = of_int (sgn_of t * (H * 100 + M))"
    unfolding hour_minute_def ex_fields H_def M_def by (simp add: algebra_simps)
  have hs: "hour_second t = of_int (sgn_of t * ((H * 100 + M) * 100 + S))"
    unfolding hour_second_def hm ex_fields S_def by (simp add: algebra_simps)
  have ms: "minute_second t = of_int (sgn_of t * (M * 100 + S))"
    unfolding minute_second_def ex_fields M_def S_def by (simp add: algebra_simps)
  have dh: "day_hour t = of_int (sgn_of t * (D * 100 + H))"
    unfolding day_hour_def sc by (simp add: algebra_simps)
  have dm: "day_minute t = of_int (sgn_of t * ((D * 100 + H) * 100 + M))"
    unfolding day_minute_def dh sc by (simp add: algebra_simps)
  have ds: "day_second t = of_int (sgn_of t * (((D * 100 + H) * 100 + M) * 100 + S))"
    unfolding day_second_def dm sc by (simp add: algebra_simps)
  have du: "day_microsecond t = of_int (sgn_of t * ((((D * 100 + H) * 100 + M) * 100 + S) * 1000000 + U))"
    unfolding day_microsecond_def ds sc by (simp add: algebra_simps)
  have su: "second_microsecond t = of_int (sgn_of t * (S * 1000000 + U))"
    unfolding second_microsecond_def sc by (simp add: algebra_simps)
  have "(scast (hour_second t) :: 64 word) = of_int (sgn_of t * ((H * 100 + M) * 100 + S))"
    unfolding hs using b by (intro signed_conv(1)) simp_all
  then have hu: "hour_microsecond t = of_int (sgn_of t * (((H * 100 + M) * 100 + S) * 1000000 + U))"
    unfolding hour_microsecond_def sc by (simp add: algebra_simps)
  have "(scast (minute_second t) :: 64 word) = of_int (sgn_of t * (M * 100 + S))"
    unfolding ms using b by (intro signed_conv(1)) simp_all
  then have mu: "minute_microsecond t = of_int (sgn_of t * ((M * 100 + S) * 1000000 + U))"
    unfolding minute_microsecond_def sc by (simp add: algebra_simps)
  show "sint (day_hour t) = sgn_of t * (D * 100 + H)"
    "sint (day_minute t) = sgn_of t * ((D * 100 + H) * 100 + M)"
    "sint (day_second t) = sgn_of t * (((D * 100 + H) * 100 + M) * 100 + S)"
    "sint (day_microsecond t) = sgn_of t * ((((D * 100 + H) * 100 + M) * 100 + S) * 1000000 + U)"
    "sint (hour_minute t) = sgn_of t * (H * 100 + M)"
    "sint (hour_second t) = sgn_of t * ((H * 100 + M) * 100 + S)"
    "sint (hour_microsecond t) = sgn_of t * (((H * 100 + M) * 100 + S) * 1000000 + U)"
    "sint (minute_second t) = sgn_of t * (M * 100 + S)"
    "sint (minute_microsecond t) = sgn_of t * ((M * 100 + S) * 1000000 + U)"
    "sint (second_microsecond t) = sgn_of t * (S * 1000000 + U)"
    unfolding dh dm ds du hm hs hu ms mu su
    using b by (auto intro!: signed_conv(2,3) simp del: of_int_mult of_int_add)
qed

lemma extract_source_fields:
  assumes "time_type t = TIMESTAMP_TIME" and "has_valid_mmssff t" and "hour t \<le> max_useful_hour"
  shows "digit_bounds (extract_source t)" and "sgn_of (extract_source t) = sgn_of t"
    and "hms t = ((fld day (extract_source t) * 24 * 3600 + fld hour (extract_source t) * 3600 +
      fld minute (extract_source t) * 60 + fld second (extract_source t)) * 10 ^ 6 + fld second_part (extract_source t))"
proof -
  have h: "unat (hour t) \<le> 87649415"
    using assms(3) by (simp add: max_useful_hour_def TIME_MAX_INTERVAL_HOUR_def word_le_nat_alt)
  have e: "unat (day (extract_source t)) = unat (hour t) div 24" "unat (hour (extract_source t)) = unat (hour t) mod 24"
    using assms(1) by (simp_all add: extract_source_def time_to_daytime_interval_def unat_div_distrib unat_mod_distrib)
  have r: "minute (extract_source t) = minute t" "second (extract_source t) = second t"
      "second_part (extract_source t) = second_part t" "neg (extract_source t) = neg t"
    by (simp_all add: extract_source_def time_to_daytime_interval_def)
  have "unat (hour t) div 24 \<le> 87649415 div 24" using h by (rule div_le_mono)
  then show "digit_bounds (extract_source t)"
    using assms(2) unfolding digit_bounds_def e r has_valid_mmssff_iff by simp
  show "sgn_of (extract_source t) = sgn_of t" by (simp add: sgn_of_def r)
  have "unat (hour t) = unat (hour t) div 24 * 24 + unat (hour t) mod 24" by simp
  then have "int (unat (hour t)) = int (unat (hour t) div 24) * 24 + int (unat (hour t) mod 24)" by linarith
  then show "hms t = ((fld day (extract_source t) * 24 * 3600 + fld hour (extract_source t) * 3600 +
      fld minute (extract_source t) * 60 + fld second (extract_source t)) * 10 ^ 6 + fld second_part (extract_source t))"
    unfolding hms_def e r by simp
qed

lemma low_digits:
  fixes a b m :: int
  assumes "0 \<le> b" "b < m"
  shows "(a * m + b) div m = a" "(a * m + b) mod m = b"
  using assms by simp_all

lemma digits_apart:
  fixes D H M S U :: int
  assumes "0 \<le> D" "0 \<le> H" "H \<le> 23" "0 \<le> M" "M \<le> 59" "0 \<le> S" "S \<le> 59" "0 \<le> U" "U \<le> 999999"
  defines "v \<equiv> (((D * 100 + H) * 100 + M) * 100 + S) * 1000000 + U"
  shows "v mod 10 ^ 6 = U" "v div 10 ^ 6 = ((D * 100 + H) * 100 + M) * 100 + S" "v div 10 ^ 8 = (D * 100 + H) * 100 + M"
    "v div 10 ^ 10 = D * 100 + H" "v div 10 ^ 12 = D"
proof -
  show "v mod 10 ^ 6 = U" and 6: "v div 10 ^ 6 = ((D * 100 + H) * 100 + M) * 100 + S"
    using low_digits [of U 1000000 "((D * 100 + H) * 100 + M) * 100 + S"] assms(8,9) by (simp_all add: v_def)
  have "v div 10 ^ 8 = v div 10 ^ 6 div 100" by (simp add: zdiv_zmult2_eq)
  then show 8: "v div 10 ^ 8 = (D * 100 + H) * 100 + M" unfolding 6 using assms by (simp add: low_digits del: distrib_right_numeral)
  have "v div 10 ^ 10 = v div 10 ^ 8 div 100" by (simp add: zdiv_zmult2_eq)
  then show 10: "v div 10 ^ 10 = D * 100 + H" unfolding 8 using assms by (simp add: low_digits del: distrib_right_numeral)
  have "v div 10 ^ 12 = v div 10 ^ 10 div 100" by (simp add: zdiv_zmult2_eq)
  then show "v div 10 ^ 12 = D" unfolding 10 using assms by (simp add: low_digits del: distrib_right_numeral)
qed

text \<open>C26: EXTRACT of a time or of an interval, up to the largest useful interval. The digits of \<open>DAY_MICROSECOND\<close>
  determine the value: reading them back as days, hours, minutes, seconds and microseconds gives the
  signed number of microseconds. No group overflows its integer type, and the shorter
  groups that start with the day are the leading digits of the longest one.\<close>

theorem extract_source_digits:
  assumes "time_type t = TIMESTAMP_TIME" and "has_valid_mmssff t" and "hour t \<le> max_useful_hour"
  defines "e \<equiv> extract_source t"
  shows "of_digits (sint (day_microsecond e)) = signed_value (neg t) (hms t) \<and>
     \<bar>sint (day_second e)\<bar> = \<bar>sint (day_microsecond e)\<bar> div 10 ^ 6 \<and>
     \<bar>sint (day_minute e)\<bar> = \<bar>sint (day_microsecond e)\<bar> div 10 ^ 8 \<and>
     \<bar>sint (day_hour e)\<bar> = \<bar>sint (day_microsecond e)\<bar> div 10 ^ 10 \<and>
     sint (hour_microsecond e) = sint (day_microsecond e) - sint (ex_day e) * 10 ^ 12 \<and>
     sint (minute_microsecond e) = sint (hour_microsecond e) - sint (ex_hour e) * 10 ^ 10 \<and>
     sint (second_microsecond e) = sint (minute_microsecond e) - sint (ex_minute e) * 10 ^ 8"
proof -
  note f = extract_source_fields [OF assms(1-3), folded e_def]
  define D H M S U where "D = fld day e" and "H = fld hour e" and "M = fld minute e" and "S = fld second e"
    and "U = fld second_part e"
  define v where "v = (((D * 100 + H) * 100 + M) * 100 + S) * 1000000 + U"
  note g = digit_groups [OF f(1), folded D_def H_def M_def S_def U_def, unfolded f(2)]
  have b: "0 \<le> D" "D \<le> 3652058" "0 \<le> H" "H \<le> 23" "0 \<le> M" "M \<le> 59" "0 \<le> S" "S \<le> 59" "0 \<le> U" "U \<le> 999999"
    using f(1) unfolding digit_bounds_def D_def H_def M_def S_def U_def by linarith+
  note d = digits_apart [OF b(1,3-10), folded v_def]
  have v: "sint (day_microsecond e) = sgn_of t * v" "0 \<le> v" using g(4) b by (simp_all add: v_def)
  have av: "\<bar>sint (day_microsecond e)\<bar> = v" using v by (simp add: sgn_of_def)
  have x: "sint (ex_day e) = sgn_of t * D" "sint (ex_hour e) = sgn_of t * H" "sint (ex_minute e) = sgn_of t * M"
    unfolding ex_fields f(2) D_def [symmetric] H_def [symmetric] M_def [symmetric]
    using b by (auto intro!: signed_conv(2) simp del: of_int_mult)
  have "of_digits (sint (day_microsecond e)) = sgn (sgn_of t * v) * hms t"
  proof -
    have "(D * 100 + H) mod 100 = H" "((D * 100 + H) * 100 + M) mod 100 = M"
        "(((D * 100 + H) * 100 + M) * 100 + S) mod 100 = S"
      using b by (intro low_digits(2); simp)+
    moreover have "\<bar>sgn_of t * v\<bar> = v" using av v(1) by simp
    ultimately show ?thesis
      unfolding of_digits_def Let_def v(1) f(3) D_def [symmetric] H_def [symmetric] M_def [symmetric]
        S_def [symmetric] U_def [symmetric] by (simp only: d)
  qed
  moreover have "v = 0 \<longrightarrow> hms t = 0"
  proof
    assume "v = 0"
    then have "U = 0" "D = 0" "D * 100 + H = 0" "(D * 100 + H) * 100 + M = 0" "((D * 100 + H) * 100 + M) * 100 + S = 0"
      using d by simp_all
    then have "U = 0" "D = 0" "H = 0" "M = 0" "S = 0" by simp_all
    then show "hms t = 0"
      unfolding f(3) D_def [symmetric] H_def [symmetric] M_def [symmetric] S_def [symmetric] U_def [symmetric] by simp
  qed
  ultimately have "of_digits (sint (day_microsecond e)) = signed_value (neg t) (hms t)"
    using v(2) by (auto simp: sgn_of_def signed_value_def sgn_if)
  moreover have "\<bar>sint (day_second e)\<bar> = v div 10 ^ 6" "\<bar>sint (day_minute e)\<bar> = v div 10 ^ 8" "\<bar>sint (day_hour e)\<bar> = v div 10 ^ 10"
    unfolding g d using b by (auto simp: sgn_of_def)
  moreover have "sint (hour_microsecond e) = sgn_of t * v - sgn_of t * D * 10 ^ 12"
      "sint (minute_microsecond e) = sint (hour_microsecond e) - sgn_of t * H * 10 ^ 10"
      "sint (second_microsecond e) = sint (minute_microsecond e) - sgn_of t * M * 10 ^ 8"
    unfolding g v_def by (simp_all add: algebra_simps)
  ultimately show ?thesis unfolding av v(1) [symmetric] x by (simp add: v(1))
qed

text \<open>The lengths of the interval formats are those of the largest useful interval.\<close>

lemma max_char_length_digits:
  "unat max_useful_hour div 24 = 3652058 \<and> unat max_int_part_char_length = length ''+3652058 23:59:59'' \<and>
   unat (max_char_length 6) = length ''+3652058 23:59:59.999999''"
  by (simp add: max_useful_hour_def TIME_MAX_INTERVAL_HOUR_def max_char_length_def max_int_part_char_length_def
      TIME_MAX_INTERVAL_DAY_CHAR_LENGTH_def)

section \<open>Examples\<close>

definition demo_time :: "uint \<Rightarrow> bool \<Rightarrow> mysql_time" where
  "demo_time h n = \<lparr>year = 0, month = 0, day = 0, hour = h, minute = 59, second = 59, second_part = 999999,
     neg = n, time_type = TIMESTAMP_TIME\<rparr>"

lemma demo_time_valid: "has_valid_mmssff (demo_time h n)"
  by (simp add: demo_time_def has_valid_mmssff_iff)

theorem add_nanoseconds_carry_witness:
  "add_nanoseconds_mmssff (demo_time 5 False) 600 = ((demo_time 5 False)\<lparr>minute := 0, second := 0, second_part := 0\<rparr>, True) \<and>
   mmssff ((demo_time 5 False)\<lparr>minute := 0, second := 0, second_part := 0\<rparr>) + 3600000000 =
     mmssff (demo_time 5 False) + (unat (600 :: uint) + 500) div 1000"
proof -
  have "add_nanoseconds_mmssff (demo_time 5 False) 600 =
      ((demo_time 5 False)\<lparr>minute := 0, second := 0, second_part := 0\<rparr>, True)"
    by (simp add: demo_time_def add_nanoseconds_mmssff_def add_nanoseconds_ssff_def Let_def)
  with add_nanoseconds_carry [OF demo_time_valid, of 600, OF _ this] show ?thesis by simp
qed

theorem extract_source_digits_witness:
  "of_digits (sint (day_microsecond (extract_source (demo_time 49 True)))) = - hms (demo_time 49 True) \<and>
   hms (demo_time 49 True) = 179999999999"
proof -
  have t: "time_type (demo_time 49 True) = TIMESTAMP_TIME" "neg (demo_time 49 True)" by (simp_all add: demo_time_def)
  have h: "hour (demo_time 49 True) \<le> max_useful_hour"
    by (simp add: demo_time_def max_useful_hour_def TIME_MAX_INTERVAL_HOUR_def)
  show ?thesis
    using extract_source_digits [OF t(1) demo_time_valid h] t(2) by (simp add: signed_value_def demo_time_def hms_def)
qed

end
