(* ===== verification/Temporal_Values.thy ===== *)
theory Temporal_Values
  imports Temporal "HOL-Library.Monad_Syntax" "HOL-Library.Option_ord" "HOL-Library.Product_Lexorder"
begin

text \<open>
  The SQL values TIME, DATE, DATETIME and TIMESTAMP as the classes \<open>Time\<close>, \<open>Date\<close>, \<open>Datetime\<close>,
  \<open>Timestamp\<close> and \<open>Timestamp_or_zero_datetime\<close> of \<^verbatim>\<open>sql_type.h\<close>: the conversions between them, and
  truncation, rounding and comparison.

  The functions without a body in the headers (the range check, the difference of two times,
  the rounding routines, the parsers of numbers and strings, the calendar) are the fields of a record of
  functions that every operation receives. A value and a set of warnings are returned
  together; \<open>None\<close> is the undefined access of the table of powers of ten.
\<close>

record 'thd time_env =
  e_log_10_int :: log_table
  e_set_zero_time :: zero_time
  e_set_current_date :: "'thd \<Rightarrow> mysql_time"
  e_calc_time_diff :: "mysql_time \<Rightarrow> mysql_time \<Rightarrow> int \<Rightarrow> 64 word \<Rightarrow> bool \<times> mysql_time"
  e_check_time_range :: "mysql_time \<Rightarrow> uint \<Rightarrow> int \<Rightarrow> bool \<times> mysql_time \<times> int"
  e_round_or_set_max_nsec :: "mysql_time \<Rightarrow> uint \<Rightarrow> int \<Rightarrow> uint32 \<Rightarrow> mysql_time \<times> int"
  e_round_or_set_max :: "mysql_time \<Rightarrow> uint \<Rightarrow> int \<Rightarrow> mysql_time \<times> int"
  e_number_to_time :: number_to_time
  e_number_to_date :: number_to_date
  e_default_round_mode :: "'thd \<Rightarrow> 64 word"

section \<open>The class Time\<close>

(* @sql_type.h 1522-1529 Time::datetime_to_time_mode_t *)
datatype datetime_to_time_mode =
    DATETIME_TO_TIME_DISALLOW
  | DATETIME_TO_TIME_YYYYMMDD_000000DD_MIX_TO_HOURS
  | DATETIME_TO_TIME_YYYYMMDD_TRUNCATE
  | DATETIME_TO_TIME_YYYYMMDD_00000000_ONLY
  | DATETIME_TO_TIME_MINUS_CURRENT_DATE

(* @sql_type.h 1530-1532 Time::Options *)
record time_options =
  opt_mode :: "64 word"
  m_datetime_to_time_mode :: datetime_to_time_mode

(* @sql_type.h 1555-1558 Time::Options::default_datetime_to_time_mode *)
definition default_datetime_to_time_mode :: datetime_to_time_mode where
  "default_datetime_to_time_mode = DATETIME_TO_TIME_YYYYMMDD_000000DD_MIX_TO_HOURS"

(* @sql_type.h 1858-1859 Time::default_flags_for_get_date *)
definition time_default_flags :: "64 word" where
  "time_default_flags = TIME_ONLY OR INVALID_DATES"

(* @sql_type.h 1860-1861 Time::comparison_flags_for_get_date *)
definition time_comparison_flags :: "64 word" where
  "time_comparison_flags = TIME_ONLY OR INVALID_DATES OR FUZZY_DATES"

(* @sql_type.h 1534-1537 Time::Options::Options(THD ptr) *)
definition time_options_thd :: "'thd time_env \<Rightarrow> 'thd \<Rightarrow> time_options" where
  "time_options_thd env thd =
     \<lparr>opt_mode = temporal_options time_default_flags (e_default_round_mode env thd),
      m_datetime_to_time_mode = default_datetime_to_time_mode\<rparr>"

(* @sql_type.h 1538-1541 Time::Options::Options(date_conv_mode_t, THD ptr) *)
definition time_options_flags :: "'thd time_env \<Rightarrow> 64 word \<Rightarrow> 'thd \<Rightarrow> time_options" where
  "time_options_flags env flags thd =
     \<lparr>opt_mode = temporal_options flags (e_default_round_mode env thd),
      m_datetime_to_time_mode = default_datetime_to_time_mode\<rparr>"

(* @sql_type.h 1546-1550 Time::Options::Options(date_conv_mode_t, time_round_mode_t, datetime_to_time_mode_t) *)
definition time_options_new :: "64 word \<Rightarrow> 64 word \<Rightarrow> datetime_to_time_mode \<Rightarrow> time_options" where
  "time_options_new fuzzydate rmode dtmode =
     \<lparr>opt_mode = temporal_options fuzzydate rmode, m_datetime_to_time_mode = dtmode\<rparr>"

(* @sql_type.h 1568-1571 Time::Options_for_cast::Options_for_cast(THD ptr) *)
definition time_options_for_cast :: "'thd time_env \<Rightarrow> 'thd \<Rightarrow> time_options" where
  "time_options_for_cast env thd =
     time_options_new time_default_flags (e_default_round_mode env thd) DATETIME_TO_TIME_YYYYMMDD_TRUNCATE"

(* @sql_type.h 1572-1576 Time::Options_for_cast::Options_for_cast(date_mode_t, THD ptr) *)
definition time_options_for_cast_mode :: "'thd time_env \<Rightarrow> 64 word \<Rightarrow> 'thd \<Rightarrow> time_options" where
  "time_options_for_cast_mode env mode thd =
     time_options_new (time_default_flags OR (mode AND FUZZY_DATES)) (e_default_round_mode env thd)
       DATETIME_TO_TIME_YYYYMMDD_TRUNCATE"

(* @sql_type.h 1582-1585 Time::Options_for_round::Options_for_round *)
definition time_options_for_round :: "64 word \<Rightarrow> time_options" where
  "time_options_for_round rmode = time_options_new time_default_flags rmode DATETIME_TO_TIME_DISALLOW"

(* @sql_type.h 1590-1592 Time::Options_cmp::Options_cmp *)
definition time_options_cmp :: "'thd time_env \<Rightarrow> 'thd \<Rightarrow> time_options" where
  "time_options_cmp env thd = time_options_flags env time_comparison_flags thd"

(* @sql_type.h 1603-1607 Time::is_valid_time_slow *)
definition is_valid_time_slow :: "mysql_time \<Rightarrow> bool" where
  "is_valid_time_slow t \<longleftrightarrow> time_type t = TIMESTAMP_TIME \<and> has_zero_YYYYMMDD t \<and> has_valid_mmssff t"

(* @sql_type.h 1599-1602 Time::is_valid_value_slow *)
definition time_is_valid_value_slow :: "mysql_time \<Rightarrow> bool" where
  "time_is_valid_value_slow t \<longleftrightarrow> time_type t = TIMESTAMP_NONE \<or> is_valid_time_slow t"

(* @sql_type.h 1862-1866 Time::is_valid_time *)
definition is_valid_time :: "mysql_time \<Rightarrow> bool" where
  "is_valid_time t \<longleftrightarrow> time_type t = TIMESTAMP_TIME"

(* @sql_type.h 1608-1614 Time::hhmmssff_copy *)
definition hhmmssff_copy :: "mysql_time \<Rightarrow> mysql_time \<Rightarrow> mysql_time" where
  "hhmmssff_copy t from =
     t\<lparr>hour := hour from, minute := minute from, second := second from, second_part := second_part from\<rparr>"

(* @sql_type.h 1615-1624 Time::datetime_to_time_YYYYMMDD_000000DD_mix_to_hours *)
definition datetime_to_time_YYYYMMDD_000000DD_mix_to_hours ::
  "mysql_time \<Rightarrow> int \<Rightarrow> uint \<Rightarrow> uint \<Rightarrow> uint \<Rightarrow> mysql_time \<times> int" where
  "datetime_to_time_YYYYMMDD_000000DD_mix_to_hours t warn from_year from_month from_day =
     (if from_year \<noteq> 0 \<or> from_month \<noteq> 0 then (t, warn OR NOTE_TRUNCATED)
      else (t\<lparr>hour := hour t + from_day * 24\<rparr>, warn))"

(* @sql_type.h 1630-1639 Time::datetime_to_time_minus_current_date *)
definition datetime_to_time_minus_current_date :: "'thd time_env \<Rightarrow> 'thd \<Rightarrow> mysql_time \<Rightarrow> mysql_time" where
  "datetime_to_time_minus_current_date env thd t =
     (let current_date = e_set_current_date env thd;
          tmp = snd (e_calc_time_diff env t current_date 1 0)
      in fst (snd (e_check_time_range env tmp TIME_SECOND_PART_DIGITS 0)))"

(* @sql_type.h 1646-1674 Time::valid_datetime_to_valid_time *)
definition valid_datetime_to_valid_time ::
  "'thd time_env \<Rightarrow> 'thd \<Rightarrow> int \<Rightarrow> time_options \<Rightarrow> mysql_time \<Rightarrow> mysql_time \<times> int" where
  "valid_datetime_to_valid_time env thd warn opt t =
     (if m_datetime_to_time_mode opt = DATETIME_TO_TIME_MINUS_CURRENT_DATE
      then (datetime_to_time_minus_current_date env thd t, warn)
      else case (if m_datetime_to_time_mode opt = DATETIME_TO_TIME_YYYYMMDD_000000DD_MIX_TO_HOURS
                 then datetime_to_time_YYYYMMDD_000000DD_mix_to_hours t warn (year t) (month t) (day t)
                 else (t, warn)) of (t1, w1) \<Rightarrow>
        (t1\<lparr>year := 0, month := 0, day := 0, time_type := TIMESTAMP_TIME\<rparr>, w1))"

(* @sql_type.h 1688-1711 Time::valid_MYSQL_TIME_to_valid_value *)
definition valid_MYSQL_TIME_to_valid_value ::
  "'thd time_env \<Rightarrow> 'thd \<Rightarrow> int \<Rightarrow> time_options \<Rightarrow> mysql_time \<Rightarrow> mysql_time \<times> int" where
  "valid_MYSQL_TIME_to_valid_value env thd warn opt t =
     (if time_type t = TIMESTAMP_DATE \<or> time_type t = TIMESTAMP_DATETIME
      then if m_datetime_to_time_mode opt = DATETIME_TO_TIME_YYYYMMDD_00000000_ONLY \<and>
              (year t \<noteq> 0 \<or> month t \<noteq> 0 \<or> day t \<noteq> 0)
           then make_from_out_of_range t
           else if m_datetime_to_time_mode opt = DATETIME_TO_TIME_DISALLOW then make_from_out_of_range t
           else valid_datetime_to_valid_time env thd warn opt t
      else if time_type t = TIMESTAMP_ERROR then (e_set_zero_time env t TIMESTAMP_TIME, warn)
      else (t, warn))"

(* @sql_type.h 1719-1724 Time::xxx_to_time_result_to_valid_value *)
definition xxx_to_time_result_to_valid_value ::
  "'thd time_env \<Rightarrow> 'thd \<Rightarrow> int \<Rightarrow> time_options \<Rightarrow> mysql_time \<Rightarrow> mysql_time \<times> int" where
  "xxx_to_time_result_to_valid_value env thd warn opt t = valid_MYSQL_TIME_to_valid_value env thd warn opt t"

(* @sql_type.h 1725-1730 Time::adjust_time_range_or_invalidate *)
definition adjust_time_range_or_invalidate :: "'thd time_env \<Rightarrow> mysql_time \<Rightarrow> int \<Rightarrow> mysql_time \<times> int" where
  "adjust_time_range_or_invalidate env t warn =
     (case e_check_time_range env t TIME_SECOND_PART_DIGITS warn of (fail, t1, w1) \<Rightarrow>
        (if fail then t1\<lparr>time_type := TIMESTAMP_NONE\<rparr> else t1, w1))"

(* @sql_type.h 1752-1752 Time::Time *)
definition time_null :: "mysql_time \<Rightarrow> mysql_time" where
  "time_null u = u\<lparr>time_type := TIMESTAMP_NONE\<rparr>"

(* @sql_type.h 1754-1760 Time::Time(THD ptr, const MYSQL_TIME ptr, Options) *)
definition time_of_mysql_time :: "'thd time_env \<Rightarrow> 'thd \<Rightarrow> mysql_time \<Rightarrow> time_options \<Rightarrow> mysql_time" where
  "time_of_mysql_time env thd ltime opt = fst (valid_MYSQL_TIME_to_valid_value env thd 0 opt ltime)"

text \<open>\<open>parse\<close> is \<open>str_to_datetime_or_date_or_time\<close> applied to the string, the flags of \<open>opt\<close> and the status.\<close>

(* @sql_type.h 1773-1782 Time::Time(THD ptr, MYSQL_TIME_STATUS ptr, const char ptr, size_t, CHARSET_INFO ptr, Options) *)
definition time_of_str ::
  "'thd time_env \<Rightarrow> 'thd \<Rightarrow> (64 word \<Rightarrow> mysql_time_status \<Rightarrow> parsed) \<Rightarrow> mysql_time_status \<Rightarrow> time_options \<Rightarrow>
   mysql_time \<times> mysql_time_status" where
  "time_of_str env thd parse st opt =
     (case parse (opt_mode opt) st of (fail, t, st1) \<Rightarrow>
        if fail then (t\<lparr>time_type := TIMESTAMP_NONE\<rparr>, st1)
        else case xxx_to_time_result_to_valid_value env thd (st_warnings st1) opt t of (t1, w) \<Rightarrow>
          (t1, st1\<lparr>st_warnings := w\<rparr>))"

(* @sql_type.h 1785-1790 Time::Time(THD ptr, int ptr, const Sec6 ref, Options) *)
definition time_of_sec6 :: "'thd time_env \<Rightarrow> 'thd \<Rightarrow> sec6 \<Rightarrow> time_options \<Rightarrow> mysql_time \<times> int" where
  "time_of_sec6 env thd nr opt =
     (case to_datetime_or_time (e_number_to_time env) (e_number_to_date env) nr INVALID_DATES of (fail, t, w) \<Rightarrow>
        xxx_to_time_result_to_valid_value env thd w opt (if fail then t\<lparr>time_type := TIMESTAMP_NONE\<rparr> else t))"

(* @sql_type.h 1791-1796 Time::Time(THD ptr, int ptr, const Sec9 ref, Options) *)
definition time_of_sec9 :: "'thd time_env \<Rightarrow> 'thd \<Rightarrow> sec9 \<Rightarrow> time_options \<Rightarrow> mysql_time \<times> int" where
  "time_of_sec9 env thd nr opt =
     (case time_of_sec6 env thd (sec6.truncate nr) opt of (t, w) \<Rightarrow>
        if is_valid_time t \<and> round_mode (opt_mode opt) = FRAC_ROUND
        then e_round_or_set_max_nsec env t 6 w (m_nsec nr) else (t, w))"

(* @sql_type.h 1799-1801 Time::Time(THD ptr, int ptr, const Longlong_hybrid ref, Options) *)
definition time_of_longlong :: "'thd time_env \<Rightarrow> 'thd \<Rightarrow> longlong_hybrid \<Rightarrow> time_options \<Rightarrow> mysql_time \<times> int" where
  "time_of_longlong env thd nr opt = time_of_sec6 env thd (make_from_int nr) opt"

(* @sql_type.h 1872-1882 Time::copy_to_mysql_time *)
definition time_copy_to_mysql_time :: "mysql_time \<Rightarrow> mysql_time \<Rightarrow> mysql_time \<times> bool" where
  "time_copy_to_mysql_time t ltime =
     (if time_type t = TIMESTAMP_NONE then (ltime\<lparr>time_type := TIMESTAMP_NONE\<rparr>, True) else (t, False))"

text \<open>The packed format of \<^verbatim>\<open>sql_time.cc\<close> is an argument.\<close>

(* @sql_type.h 1930-1933 Time::to_packed *)
definition time_to_packed :: "(mysql_time \<Rightarrow> 64 word) \<Rightarrow> mysql_time \<Rightarrow> 64 word" where
  "time_to_packed pack_time t = (if is_valid_time t then pack_time t else 0)"

(* @sql_type.h 1883-1894 Time::cmp *)
definition time_cmp :: "(mysql_time \<Rightarrow> 64 word) \<Rightarrow> mysql_time \<Rightarrow> mysql_time \<Rightarrow> int" where
  "time_cmp pack_time t other =
     (let p0 = sint (time_to_packed pack_time t); p1 = sint (time_to_packed pack_time other)
      in if p0 < p1 then - 1 else if p0 > p1 then 1 else 0)"

text \<open>\<open>hour * 3600L\<close> is computed in \<open>unsigned long\<close>, 32 bits, and then converted.\<close>

(* @sql_type.h 1895-1899 Time::to_seconds_abs *)
definition to_seconds_abs :: "mysql_time \<Rightarrow> 64 word" where
  "to_seconds_abs t = ucast (hour t * 3600 + minute t * 60 + second t)"

(* @sql_type.h 1900-1903 Time::to_seconds *)
definition time_to_seconds :: "mysql_time \<Rightarrow> 64 word" where
  "time_to_seconds t = (if neg t then - to_seconds_abs t else to_seconds_abs t)"

(* @sql_type.h 1904-1910 Time::to_longlong *)
definition time_to_longlong :: "(mysql_time \<Rightarrow> ulonglong) \<Rightarrow> mysql_time \<Rightarrow> 64 word" where
  "time_to_longlong TIME_to_ulonglong_time t =
     (if \<not> is_valid_time t then 0
      else let v = TIME_to_ulonglong_time t in if neg t then - v else v)"

(* @sql_type.h 1945-1951 Time::trunc *)
definition time_trunc :: "'thd time_env \<Rightarrow> mysql_time \<Rightarrow> uint \<Rightarrow> mysql_time option" where
  "time_trunc env t dec = (if is_valid_time t then my_time_trunc (e_log_10_int env) t dec else Some t)"

(* @sql_type.h 1952-1963 Time::ceiling(int ptr) *)
definition time_ceiling :: "'thd time_env \<Rightarrow> mysql_time \<Rightarrow> int \<Rightarrow> (mysql_time \<times> int) option" where
  "time_ceiling env t warn =
     (if is_valid_time t
      then if neg t then do { t1 \<leftarrow> my_time_trunc (e_log_10_int env) t 0; Some (t1, warn) }
           else if second_part t \<noteq> 0 then Some (e_round_or_set_max_nsec env t 0 warn 999999999)
           else Some (t, warn)
      else Some (t, warn))"

(* @sql_type.h 1969-1980 Time::floor(int ptr) *)
definition time_floor :: "'thd time_env \<Rightarrow> mysql_time \<Rightarrow> int \<Rightarrow> (mysql_time \<times> int) option" where
  "time_floor env t warn =
     (if is_valid_time t
      then if \<not> neg t then do { t1 \<leftarrow> my_time_trunc (e_log_10_int env) t 0; Some (t1, warn) }
           else if second_part t \<noteq> 0 then Some (e_round_or_set_max_nsec env t 0 warn 999999999)
           else Some (t, warn)
      else Some (t, warn))"

(* @sql_type.h 1986-1992 Time::round(uint, int ptr) *)
definition time_round :: "'thd time_env \<Rightarrow> mysql_time \<Rightarrow> uint \<Rightarrow> int \<Rightarrow> mysql_time \<times> int" where
  "time_round env t dec warn = (if is_valid_time t then e_round_or_set_max env t dec warn else (t, warn))"

(* @sql_type.h 1993-2005 Time::round(uint, time_round_mode_t, int ptr) *)
definition time_round_mode :: "'thd time_env \<Rightarrow> mysql_time \<Rightarrow> uint \<Rightarrow> 64 word \<Rightarrow> int \<Rightarrow> (mysql_time \<times> int) option" where
  "time_round_mode env t dec mode warn =
     (if mode = FRAC_NONE then do { t1 \<leftarrow> time_trunc env t dec; Some (t1, warn) }
      else if mode = FRAC_TRUNCATE then do { t1 \<leftarrow> time_trunc env t dec; Some (t1, warn) }
      else if mode = FRAC_ROUND then Some (time_round env t dec warn)
      else Some (t, warn))"

(* @sql_type.h 1829-1835 Time::Time(THD ptr, MYSQL_TIME_STATUS ptr, const char ptr, size_t, CHARSET_INFO ptr, Options, uint) *)
definition time_of_str_dec ::
  "'thd time_env \<Rightarrow> 'thd \<Rightarrow> (64 word \<Rightarrow> mysql_time_status \<Rightarrow> parsed) \<Rightarrow> mysql_time_status \<Rightarrow> time_options \<Rightarrow> uint \<Rightarrow>
   (mysql_time \<times> mysql_time_status) option" where
  "time_of_str_dec env thd parse st opt dec =
     (case time_of_str env thd parse st opt of (t, st1) \<Rightarrow>
        do { (t1, w) \<leftarrow> time_round_mode env t dec (round_mode (opt_mode opt)) (st_warnings st1);
             Some (t1, st1\<lparr>st_warnings := w\<rparr>) })"

(* @sql_type.h 1836-1846 Time::Time(THD ptr, int ptr, const Longlong_hybrid ref, Options, uint) *)
definition time_of_longlong_dec ::
  "'thd time_env \<Rightarrow> 'thd \<Rightarrow> longlong_hybrid \<Rightarrow> time_options \<Rightarrow> uint \<Rightarrow> (mysql_time \<times> int) option" where
  "time_of_longlong_dec env thd nr opt dec =
     (case time_of_longlong env thd nr opt of (t, w) \<Rightarrow> do { t1 \<leftarrow> time_trunc env t dec; Some (t1, w) })"

text \<open>The constructors from \<open>double\<close> and from \<open>my_decimal\<close> first convert the number to \<open>Sec9\<close>, \<open>nr\<close> here.\<close>

(* @sql_type.h 1847-1856 Time::Time(THD ptr, int ptr, double, Options, uint) *)
definition time_of_sec9_dec ::
  "'thd time_env \<Rightarrow> 'thd \<Rightarrow> sec9 \<Rightarrow> time_options \<Rightarrow> uint \<Rightarrow> (mysql_time \<times> int) option" where
  "time_of_sec9_dec env thd nr opt dec =
     (case time_of_sec9 env thd nr opt of (t, w) \<Rightarrow> time_round_mode env t dec (round_mode (opt_mode opt)) w)"

section \<open>Values with a date\<close>

text \<open>The calendar functions are arguments.\<close>

(* @sql_type.h 2058-2061 Temporal_with_date::daynr *)
definition daynr :: "(uint \<Rightarrow> uint \<Rightarrow> uint \<Rightarrow> 32 word) \<Rightarrow> mysql_time \<Rightarrow> uint32" where
  "daynr calc_daynr t = calc_daynr (year t) (month t) (day t)"

(* @sql_type.h 2062-2065 Temporal_with_date::weekday *)
definition weekday :: "(uint \<Rightarrow> uint \<Rightarrow> uint \<Rightarrow> 32 word) \<Rightarrow> (32 word \<Rightarrow> bool \<Rightarrow> 32 word) \<Rightarrow> mysql_time \<Rightarrow> bool \<Rightarrow> 32 word" where
  "weekday calc_daynr calc_weekday t sunday_first = calc_weekday (daynr calc_daynr t) sunday_first"

(* @sql_type.h 2066-2069 Temporal_with_date::dayofyear *)
definition dayofyear :: "(uint \<Rightarrow> uint \<Rightarrow> uint \<Rightarrow> 32 word) \<Rightarrow> mysql_time \<Rightarrow> uint32" where
  "dayofyear calc_daynr t = daynr calc_daynr t - calc_daynr (year t) 1 1 + 1"

(* @sql_type.h 2070-2073 Temporal_with_date::quarter *)
definition quarter :: "mysql_time \<Rightarrow> uint" where
  "quarter t = (month t + 2) div 3"

text \<open>\<open>calc_week\<close> returns the week and the year it belongs to.\<close>

(* @sql_type.h 2074-2078 Temporal_with_date::week *)
definition week :: "(mysql_time \<Rightarrow> uint \<Rightarrow> uint \<times> uint) \<Rightarrow> mysql_time \<Rightarrow> uint \<Rightarrow> uint" where
  "week calc_week t week_behaviour = fst (calc_week t week_behaviour)"

(* @sql_type.h 2079-2084 Temporal_with_date::yearweek *)
definition yearweek :: "(mysql_time \<Rightarrow> uint \<Rightarrow> uint \<times> uint) \<Rightarrow> mysql_time \<Rightarrow> uint \<Rightarrow> uint" where
  "yearweek calc_week t week_behaviour =
     (case calc_week t week_behaviour of (w, y) \<Rightarrow> w + y * 100)"

(* @sql_type.h 2094-2099 Temporal_with_date::Temporal_with_date(int ptr, const Sec6 ref, date_mode_t) *)
definition with_date_of_sec6 :: "'thd time_env \<Rightarrow> mysql_time \<Rightarrow> sec6 \<Rightarrow> 64 word \<Rightarrow> mysql_time \<times> int" where
  "with_date_of_sec6 env u nr flags =
     (case to_datetime_or_date (e_number_to_date env) nr u (conv_mode flags) of (fail, t, w) \<Rightarrow>
        (if fail then t\<lparr>time_type := TIMESTAMP_NONE\<rparr> else t, w))"

(* @sql_type.h 2118-2119 Temporal_with_date::comparison_flags_for_get_date *)
definition with_date_comparison_flags :: "64 word" where
  "with_date_comparison_flags = INVALID_DATES OR FUZZY_DATES"

subsection \<open>The class Date\<close>

text \<open>\<open>t\<close> is the value of the item as \<open>Temporal_with_date\<close>.\<close>

(* @sql_type.h 2164-2170 Date::Date(THD ptr, Item ptr, date_mode_t) *)
definition date_of_item :: "mysql_time \<Rightarrow> mysql_time" where
  "date_of_item t = (if time_type t = TIMESTAMP_DATETIME then datetime_to_date t else t)"

(* @sql_type.h 2180-2185 Date::Date(const Temporal_with_date ptr) *)
definition date_of_temporal :: "mysql_time \<Rightarrow> mysql_time" where
  "date_of_temporal t = datetime_to_date t"

(* @sql_type.h 2191-2195 Date::is_valid_date *)
definition is_valid_date :: "mysql_time \<Rightarrow> bool" where
  "is_valid_date t \<longleftrightarrow> time_type t = TIMESTAMP_DATE"

(* @sql_type.h 2196-2202 Date::check_date(date_conv_mode_t, int ptr) *)
definition date_check_date :: "date_check \<Rightarrow> mysql_time \<Rightarrow> 64 word \<Rightarrow> bool \<times> int" where
  "date_check_date chk t flags =
     chk t (year t \<noteq> 0 \<or> month t \<noteq> 0 \<or> day t \<noteq> 0) (flags AND TIME_MODE_FOR_XXX_TO_DATE)"

(* @sql_type.h 2222-2232 Date::copy_to_mysql_time *)
definition date_copy_to_mysql_time :: "mysql_time \<Rightarrow> mysql_time \<Rightarrow> mysql_time \<times> bool" where
  "date_copy_to_mysql_time t ltime =
     (if time_type t = TIMESTAMP_NONE then (ltime\<lparr>time_type := TIMESTAMP_NONE\<rparr>, True) else (t, False))"

(* @sql_type.h 2264-2267 Date::to_longlong *)
definition date_to_longlong :: "(mysql_time \<Rightarrow> ulonglong) \<Rightarrow> mysql_time \<Rightarrow> 64 word" where
  "date_to_longlong TIME_to_ulonglong_date t = (if is_valid_date t then TIME_to_ulonglong_date t else 0)"

subsection \<open>The class Datetime\<close>

(* @sql_type.h 2316-2320 Datetime::date_to_datetime_if_needed *)
definition date_to_datetime_if_needed :: "mysql_time \<Rightarrow> mysql_time" where
  "date_to_datetime_if_needed t = (if time_type t = TIMESTAMP_DATE then date_to_datetime t else t)"

(* @sql_type.h 2463-2471 Datetime::is_valid_datetime *)
definition is_valid_datetime :: "mysql_time \<Rightarrow> bool" where
  "is_valid_datetime t \<longleftrightarrow> time_type t = TIMESTAMP_DATETIME"

(* @sql_type.h 2394-2399 Datetime::Datetime(int ptr, const Sec6 ref, date_mode_t) *)
definition datetime_of_sec6 :: "'thd time_env \<Rightarrow> mysql_time \<Rightarrow> sec6 \<Rightarrow> 64 word \<Rightarrow> mysql_time \<times> int" where
  "datetime_of_sec6 env u nr flags =
     (case with_date_of_sec6 env u nr flags of (t, w) \<Rightarrow> (date_to_datetime_if_needed t, w))"

text \<open>The rounding of a \<open>Datetime\<close> is out of line: \<open>round_nsec\<close> and \<open>round_dec\<close> return the new value, valid or
  \<open>NONE\<close>, with the warnings.\<close>

(* @sql_type.h 2400-2407 Datetime::Datetime(THD ptr, int ptr, const Sec9 ref, date_mode_t) *)
definition datetime_of_sec9 ::
  "'thd time_env \<Rightarrow> (mysql_time \<Rightarrow> uint \<Rightarrow> int \<Rightarrow> uint32 \<Rightarrow> mysql_time \<times> int) \<Rightarrow> mysql_time \<Rightarrow> sec9 \<Rightarrow> 64 word \<Rightarrow> mysql_time \<times> int" where
  "datetime_of_sec9 env round_nsec u nr fuzzydate =
     (case datetime_of_sec6 env u (sec6.truncate nr) fuzzydate of (t, w) \<Rightarrow>
        if is_valid_datetime t \<and> round_mode fuzzydate = FRAC_ROUND then round_nsec t 6 w (m_nsec nr) else (t, w))"

(* @sql_type.h 2410-2412 Datetime::Datetime(int ptr, const Longlong_hybrid ref, date_mode_t) *)
definition datetime_of_longlong :: "'thd time_env \<Rightarrow> mysql_time \<Rightarrow> longlong_hybrid \<Rightarrow> 64 word \<Rightarrow> mysql_time \<times> int" where
  "datetime_of_longlong env u nr mode = datetime_of_sec6 env u (make_from_int nr) mode"

(* @sql_type.h 2360-2365 Datetime::zero *)
definition datetime_zero :: "'thd time_env \<Rightarrow> mysql_time \<Rightarrow> mysql_time" where
  "datetime_zero env u = fst (datetime_of_longlong env u \<lparr>m_value = 0, m_unsigned = False\<rparr> 0)"

(* @sql_type.h 2472-2478 Datetime::check_date(date_conv_mode_t, int ptr) *)
definition datetime_check_date :: "date_check \<Rightarrow> mysql_time \<Rightarrow> 64 word \<Rightarrow> bool \<times> int" where
  "datetime_check_date chk t flags =
     chk t (year t \<noteq> 0 \<or> month t \<noteq> 0 \<or> day t \<noteq> 0) (flags AND TIME_MODE_FOR_XXX_TO_DATE)"

(* @sql_type.h 2488-2492 Datetime::hhmmssff_is_zero *)
definition hhmmssff_is_zero :: "mysql_time \<Rightarrow> bool" where
  "hhmmssff_is_zero t \<longleftrightarrow> hour t = 0 \<and> minute t = 0 \<and> second t = 0 \<and> second_part t = 0"

(* @sql_type.h 2524-2528 Datetime::hhmmss_to_seconds_abs *)
definition hhmmss_to_seconds_abs :: "mysql_time \<Rightarrow> 64 word" where
  "hhmmss_to_seconds_abs t = ucast (hour t * 3600 + minute t * 60 + second t)"

(* @sql_type.h 2529-2532 Datetime::hhmmss_to_seconds *)
definition hhmmss_to_seconds :: "mysql_time \<Rightarrow> 64 word" where
  "hhmmss_to_seconds t = (if neg t then - hhmmss_to_seconds_abs t else hhmmss_to_seconds_abs t)"

(* @sql_type.h 2533-2536 Datetime::to_seconds *)
definition datetime_to_seconds :: "(uint \<Rightarrow> uint \<Rightarrow> uint \<Rightarrow> 32 word) \<Rightarrow> mysql_time \<Rightarrow> 64 word" where
  "datetime_to_seconds calc_daynr t = hhmmss_to_seconds t + ucast (daynr calc_daynr t) * 24 * 3600"

(* @sql_type.h 2543-2553 Datetime::copy_to_mysql_time *)
definition datetime_copy_to_mysql_time :: "mysql_time \<Rightarrow> mysql_time \<Rightarrow> mysql_time \<times> bool" where
  "datetime_copy_to_mysql_time t ltime =
     (if time_type t = TIMESTAMP_NONE then (ltime\<lparr>time_type := TIMESTAMP_NONE\<rparr>, True) else (t, False))"

(* @sql_type.h 2559-2568 Datetime::copy_to_mysql_time(MYSQL_TIME ptr, timestamp_type) *)
definition datetime_copy_as :: "mysql_time \<Rightarrow> mysql_time \<Rightarrow> timestamp_type \<Rightarrow> mysql_time \<times> bool" where
  "datetime_copy_as t ltime ty =
     (case datetime_copy_to_mysql_time t ltime of (l, fail) \<Rightarrow>
        if fail then (l, True) else (l\<lparr>time_type := ty\<rparr>, False))"

(* @sql_type.h 2569-2573 Datetime::to_longlong *)
definition datetime_to_longlong :: "(mysql_time \<Rightarrow> ulonglong) \<Rightarrow> mysql_time \<Rightarrow> 64 word" where
  "datetime_to_longlong TIME_to_ulonglong_datetime t =
     (if is_valid_datetime t then TIME_to_ulonglong_datetime t else 0)"

(* @sql_type.h 2592-2595 Datetime::to_packed *)
definition datetime_to_packed :: "(mysql_time \<Rightarrow> 64 word) \<Rightarrow> mysql_time \<Rightarrow> 64 word" where
  "datetime_to_packed pack_time t = (if is_valid_datetime t then pack_time t else 0)"

(* @sql_type.h 2607-2613 Datetime::trunc *)
definition datetime_trunc :: "'thd time_env \<Rightarrow> mysql_time \<Rightarrow> uint \<Rightarrow> mysql_time option" where
  "datetime_trunc env t dec = (if is_valid_datetime t then my_datetime_trunc (e_log_10_int env) t dec else Some t)"

(* @sql_type.h 2614-2620 Datetime::ceiling(THD ptr, int ptr) *)
definition datetime_ceiling ::
  "(mysql_time \<Rightarrow> uint \<Rightarrow> int \<Rightarrow> uint32 \<Rightarrow> mysql_time \<times> int) \<Rightarrow> mysql_time \<Rightarrow> int \<Rightarrow> mysql_time \<times> int" where
  "datetime_ceiling round_nsec t warn =
     (if is_valid_datetime t \<and> second_part t \<noteq> 0 then round_nsec t 0 warn 999999999 else (t, warn))"

(* @sql_type.h 2626-2632 Datetime::round(THD ptr, uint, int ptr) *)
definition datetime_round ::
  "(mysql_time \<Rightarrow> uint \<Rightarrow> int \<Rightarrow> mysql_time \<times> int) \<Rightarrow> mysql_time \<Rightarrow> uint \<Rightarrow> int \<Rightarrow> mysql_time \<times> int" where
  "datetime_round round_dec t dec warn = (if is_valid_datetime t then round_dec t dec warn else (t, warn))"

(* @sql_type.h 2633-2645 Datetime::round(THD ptr, uint, time_round_mode_t, int ptr) *)
definition datetime_round_mode ::
  "'thd time_env \<Rightarrow> (mysql_time \<Rightarrow> uint \<Rightarrow> int \<Rightarrow> mysql_time \<times> int) \<Rightarrow> mysql_time \<Rightarrow> uint \<Rightarrow> 64 word \<Rightarrow> int \<Rightarrow>
   (mysql_time \<times> int) option" where
  "datetime_round_mode env round_dec t dec mode warn =
     (if mode = FRAC_NONE then do { t1 \<leftarrow> datetime_trunc env t dec; Some (t1, warn) }
      else if mode = FRAC_TRUNCATE then do { t1 \<leftarrow> datetime_trunc env t dec; Some (t1, warn) }
      else if mode = FRAC_ROUND then Some (datetime_round round_dec t dec warn)
      else Some (t, warn))"

section \<open>Timestamps\<close>

text \<open>A \<open>timeval\<close> has the seconds and the microseconds, both of type \<open>long\<close>.\<close>

type_synonym timeval = "32 word \<times> 32 word"

(* @sql_type.h 2689-2699 Timestamp::add_nanoseconds_usec *)
definition add_nanoseconds_usec :: "timeval \<Rightarrow> uint \<Rightarrow> timeval \<times> bool" where
  "add_nanoseconds_usec tv nanoseconds =
     (if nanoseconds < 500 then (tv, False)
      else let u = snd tv + (nanoseconds + 500) div 1000
           in if sint u < 1000000 then ((fst tv, u), False)
              else ((fst tv, word_of_int (sint u smod 1000000)), True))"

(* @sql_type.h 2714-2716 Timestamp::Timestamp *)
definition timestamp_new :: "32 word \<Rightarrow> uint32 \<Rightarrow> timeval" where
  "timestamp_new timestamp sec_part = (timestamp, sec_part)"

(* @sql_type.h 2723-2729 Timestamp::cmp *)
definition timestamp_cmp :: "timeval \<Rightarrow> timeval \<Rightarrow> int" where
  "timestamp_cmp tv other =
     (if sint (fst tv) < sint (fst other) then - 1
      else if sint (fst tv) > sint (fst other) then 1
      else if sint (snd tv) < sint (snd other) then - 1
      else if sint (snd tv) > sint (snd other) then 1 else 0)"

(* @sql_type.h 2736-2739 Timestamp::fraction_remainder *)
definition timestamp_fraction_remainder :: "log_table \<Rightarrow> timeval \<Rightarrow> uint \<Rightarrow> uint32 option" where
  "timestamp_fraction_remainder log_10_int tv dec = my_time_fraction_remainder log_10_int (snd tv) dec"

(* @sql_type.h 2740-2744 Timestamp::trunc *)
definition timestamp_trunc :: "log_table \<Rightarrow> timeval \<Rightarrow> uint \<Rightarrow> timeval option" where
  "timestamp_trunc log_10_int tv dec = my_timeval_trunc log_10_int tv dec"

(* @sql_type.h 2750-2762 Timestamp::round(uint, time_round_mode_t, int ptr) *)
definition timestamp_round_mode ::
  "log_table \<Rightarrow> (timeval \<Rightarrow> uint \<Rightarrow> int \<Rightarrow> timeval \<times> int) \<Rightarrow> timeval \<Rightarrow> uint \<Rightarrow> 64 word \<Rightarrow> int \<Rightarrow> (timeval \<times> int) option" where
  "timestamp_round_mode log_10_int round_or_set_max tv dec mode warn =
     (if mode = FRAC_NONE then do { tv1 \<leftarrow> timestamp_trunc log_10_int tv dec; Some (tv1, warn) }
      else if mode = FRAC_TRUNCATE then do { tv1 \<leftarrow> timestamp_trunc log_10_int tv dec; Some (tv1, warn) }
      else if mode = FRAC_ROUND then Some (round_or_set_max tv dec warn)
      else Some (tv, warn))"

(* @sql_type.h 2776-2778 Timestamp_or_zero_datetime *)
record timestamp_or_zero =
  tz_timestamp :: timeval
  m_is_zero_datetime :: bool

(* @sql_type.h 2780-2782 Timestamp_or_zero_datetime::Timestamp_or_zero_datetime *)
definition tz_new :: timestamp_or_zero where
  "tz_new = \<lparr>tz_timestamp = timestamp_new 0 0, m_is_zero_datetime = True\<rparr>"

text \<open>The decoding of the native format is out of line.\<close>

(* @sql_type.h 2783-2786 Timestamp_or_zero_datetime::Timestamp_or_zero_datetime(const Native ref) *)
definition tz_of_native :: "(uchar list \<Rightarrow> timeval) \<Rightarrow> uchar list \<Rightarrow> timestamp_or_zero" where
  "tz_of_native timestamp_of_native native =
     \<lparr>tz_timestamp = (if length native \<noteq> 0 then timestamp_of_native native else timestamp_new 0 0),
      m_is_zero_datetime = (length native = 0)\<rparr>"

(* @sql_type.h 2787-2789 Timestamp_or_zero_datetime::Timestamp_or_zero_datetime(const Timestamp ref, bool) *)
definition tz_of_timestamp :: "timeval \<Rightarrow> bool \<Rightarrow> timestamp_or_zero" where
  "tz_of_timestamp tm is_zero = \<lparr>tz_timestamp = tm, m_is_zero_datetime = is_zero\<rparr>"

text \<open>\<open>of_timeval\<close> is the constructor \<open>Datetime(THD ptr, const timeval ref)\<close>.\<close>

(* @sql_type.h 2791-2796 Timestamp_or_zero_datetime::to_datetime *)
definition tz_to_datetime :: "'thd time_env \<Rightarrow> (timeval \<Rightarrow> mysql_time) \<Rightarrow> mysql_time \<Rightarrow> timestamp_or_zero \<Rightarrow> mysql_time" where
  "tz_to_datetime env of_timeval u z =
     (if m_is_zero_datetime z then datetime_zero env u else of_timeval (tz_timestamp z))"

(* @sql_type.h 2798-2802 Timestamp_or_zero_datetime::trunc *)
definition tz_trunc :: "log_table \<Rightarrow> timestamp_or_zero \<Rightarrow> uint \<Rightarrow> timestamp_or_zero option" where
  "tz_trunc log_10_int z decimals =
     (if \<not> m_is_zero_datetime z
      then do { tv \<leftarrow> timestamp_trunc log_10_int (tz_timestamp z) decimals; Some (z\<lparr>tz_timestamp := tv\<rparr>) }
      else Some z)"

(* @sql_type.h 2803-2810 Timestamp_or_zero_datetime::cmp *)
definition tz_cmp :: "timestamp_or_zero \<Rightarrow> timestamp_or_zero \<Rightarrow> int" where
  "tz_cmp z other =
     (if m_is_zero_datetime z then (if m_is_zero_datetime other then 0 else - 1)
      else if m_is_zero_datetime other then 1
      else timestamp_cmp (tz_timestamp z) (tz_timestamp other))"

section \<open>The values of the class Time\<close>

text \<open>A value of the class is a TIME in the supported range or \<open>NONE\<close>.\<close>

definition time_ok :: "mysql_time \<Rightarrow> bool" where
  "time_ok t \<longleftrightarrow> time_is_valid_value_slow t \<and> (is_valid_time t \<longrightarrow> unat (hour t) \<le> 838)"

definition zero_value :: "timestamp_type \<Rightarrow> mysql_time" where
  "zero_value ty = \<lparr>year = 0, month = 0, day = 0, hour = 0, minute = 0, second = 0, second_part = 0,
     neg = False, time_type = ty\<rparr>"

lemma time_ok_iff:
  "time_ok t \<longleftrightarrow> time_type t = TIMESTAMP_NONE \<or> is_valid_time_slow t \<and> unat (hour t) \<le> 838"
  by (auto simp: time_ok_def time_is_valid_value_slow_def is_valid_time_def is_valid_time_slow_def)

lemma valid_time_fields:
  "is_valid_time_slow t \<longleftrightarrow> time_type t = TIMESTAMP_TIME \<and> has_zero_YYYYMMDD t \<and>
     unat (minute t) \<le> 59 \<and> unat (second t) \<le> 59 \<and> unat (second_part t) \<le> 999999"
  by (simp add: is_valid_time_slow_def has_valid_mmssff_iff)

lemma my_time_trunc_valid:
  assumes "powers_of_ten tbl" and "dec \<le> 6" and "is_valid_time_slow t"
  shows "\<exists>t'. my_time_trunc tbl t dec = Some t' \<and> is_valid_time_slow t' \<and> hour t' = hour t"
proof -
  have sp: "unat (second_part t) < 2 ^ 31" "unat (second_part t) \<le> 999999"
    using assms(3) by (simp_all add: valid_time_fields)
  define m where "m = (10 :: nat) ^ (6 - unat dec)"
  have "unat (second_part t - of_nat (unat (second_part t) mod m)) \<le> 999999"
    using sub_remainder [OF sp(1), of m] sp(2) by (metis div_times_less_eq_dividend order.trans)
  then show ?thesis
    using assms(3) fraction_remainder [OF assms(1,2) sp(1)]
    by (auto simp: my_time_trunc_def Let_def valid_time_fields has_zero_YYYYMMDD_def m_def)
qed

lemma time_trunc_ok:
  assumes "powers_of_ten (e_log_10_int env)" and "dec \<le> 6" and "time_ok t"
  shows "\<exists>t'. time_trunc env t dec = Some t' \<and> time_ok t'"
  using assms(3) my_time_trunc_valid [OF assms(1,2), of t]
  by (auto simp: time_trunc_def time_ok_iff is_valid_time_def)

lemma mix_to_hours:
  assumes "unat (day t) < 32" and "unat (hour t) < 24"
  shows "unat (hour t + day t * 24) = unat (hour t) + unat (day t) * 24"
proof -
  have d: "unat (day t * 24) = unat (day t) * 24" using assms(1) by (simp add: unat_word_ariths)
  then show ?thesis using assms by (subst unat_plus_small) simp_all
qed

lemma converted_time:
  fixes env :: "'thd time_env" and thd :: 'thd and warn :: int
  assumes "unat (day t) < 32" "unat (hour t) < 24" "has_valid_mmssff t"
    and "time_type t = TIMESTAMP_DATE \<or> time_type t = TIMESTAMP_DATETIME" "m_datetime_to_time_mode opt = mode"
  defines "r \<equiv> valid_MYSQL_TIME_to_valid_value env thd warn opt t"
  shows "if mode = DATETIME_TO_TIME_MINUS_CURRENT_DATE
         then snd r = warn \<and>
           (\<exists>diff. diff = snd (e_calc_time_diff env t (e_set_current_date env thd) 1 0) \<and>
              fst r = fst (snd (e_check_time_range env diff TIME_SECOND_PART_DIGITS 0)))
         else if mode = DATETIME_TO_TIME_DISALLOW \<or>
            mode = DATETIME_TO_TIME_YYYYMMDD_00000000_ONLY \<and> \<not> has_zero_YYYYMMDD t
         then time_type (fst r) = TIMESTAMP_NONE \<and> snd r = WARN_OUT_OF_RANGE
         else is_valid_time_slow (fst r) \<and> unat (hour (fst r)) \<le> 767 \<and> neg (fst r) = neg t \<and>
           (if mode = DATETIME_TO_TIME_YYYYMMDD_000000DD_MIX_TO_HOURS \<and> has_zero_YYYYMM t
            then hms (fst r) = hms t + int (unat (day t)) * 86400 * 10 ^ 6 \<and> snd r = warn
            else hms (fst r) = hms t \<and>
              snd r = (if mode = DATETIME_TO_TIME_YYYYMMDD_000000DD_MIX_TO_HOURS then warn OR NOTE_TRUNCATED else warn))"
proof -
  consider "mode = DATETIME_TO_TIME_MINUS_CURRENT_DATE"
    | "mode = DATETIME_TO_TIME_DISALLOW \<or> mode = DATETIME_TO_TIME_YYYYMMDD_00000000_ONLY \<and> \<not> has_zero_YYYYMMDD t"
    | "mode \<noteq> DATETIME_TO_TIME_MINUS_CURRENT_DATE" "mode \<noteq> DATETIME_TO_TIME_DISALLOW"
      "mode = DATETIME_TO_TIME_YYYYMMDD_00000000_ONLY \<longrightarrow> has_zero_YYYYMMDD t"
    by blast
  then show ?thesis
  proof cases
    case 1
    then have "r = (datetime_to_time_minus_current_date env thd t, warn)"
      using assms(4,5) by (auto simp: r_def valid_MYSQL_TIME_to_valid_value_def valid_datetime_to_valid_time_def)
    then show ?thesis using 1 by (simp add: datetime_to_time_minus_current_date_def)
  next
    case 2
    then have "r = make_from_out_of_range t"
      using assms(4,5) by (auto simp: r_def valid_MYSQL_TIME_to_valid_value_def has_zero_YYYYMMDD_def)
    moreover have "mode \<noteq> DATETIME_TO_TIME_MINUS_CURRENT_DATE" using 2 by auto
    ultimately show ?thesis using 2 by (simp add: make_from_out_of_range_def)
  next
    case 3
    then have r: "r = valid_datetime_to_valid_time env thd warn opt t"
      using assms(4,5) by (auto simp: r_def valid_MYSQL_TIME_to_valid_value_def has_zero_YYYYMMDD_def)
    note h = mix_to_hours [OF assms(1,2)]
    have "unat (hour t + day t * 24) \<le> 767" using assms(1,2) h by simp
    moreover have "hms (t\<lparr>hour := hour t + day t * 24\<rparr>) = hms t + int (unat (day t)) * 86400 * 10 ^ 6"
      unfolding hms_def using h by simp
    ultimately show ?thesis
      using 3 assms(1-3,5) unfolding r
      by (auto simp: valid_datetime_to_valid_time_def datetime_to_time_YYYYMMDD_000000DD_mix_to_hours_def
          is_valid_time_slow_def has_zero_YYYYMM_def has_zero_YYYYMMDD_def has_valid_mmssff_def hms_def)
  qed
qed

text \<open>C12: Converting a DATE or DATETIME with fields in range to TIME, in each mode of the options. The mode that
  subtracts the current date returns the difference to it that \<open>calc_time_diff\<close> computes, brought into the
  range of TIME by \<open>check_time_range\<close>, and leaves the warnings alone. Without a date part being allowed the
  result is \<open>NONE\<close> and the warning is out of range; the mode for zero dates only refuses a non-zero date in
  the same way. Otherwise the result is a valid TIME below 768 hours: mixing turns the days of a
  date without year and month into hours, and drops any other date with a note, while
  truncation drops every date silently.\<close>

theorem datetime_to_time_modes:
  fixes env :: "'thd time_env" and thd :: 'thd and warn :: int
  assumes "unat (day t) < 32" "unat (hour t) < 24" "has_valid_mmssff t"
    and "time_type t = TIMESTAMP_DATE \<or> time_type t = TIMESTAMP_DATETIME" "m_datetime_to_time_mode opt = mode"
  defines "r \<equiv> valid_MYSQL_TIME_to_valid_value env thd warn opt t"
  shows "if mode = DATETIME_TO_TIME_MINUS_CURRENT_DATE
         then snd r = warn \<and>
           (\<exists>diff. diff = snd (e_calc_time_diff env t (e_set_current_date env thd) 1 0) \<and>
              fst r = fst (snd (e_check_time_range env diff TIME_SECOND_PART_DIGITS 0)))
         else if mode = DATETIME_TO_TIME_DISALLOW \<or>
            mode = DATETIME_TO_TIME_YYYYMMDD_00000000_ONLY \<and> \<not> has_zero_YYYYMMDD t
         then time_type (fst r) = TIMESTAMP_NONE \<and> snd r = WARN_OUT_OF_RANGE
         else is_valid_time_slow (fst r) \<and> unat (hour (fst r)) \<le> 767 \<and> neg (fst r) = neg t \<and>
           (if mode = DATETIME_TO_TIME_YYYYMMDD_000000DD_MIX_TO_HOURS \<and> has_zero_YYYYMM t
            then hms (fst r) = hms t + int (unat (day t)) * 86400 * 10 ^ 6 \<and> snd r = warn
            else hms (fst r) = hms t \<and>
              snd r = (if mode = DATETIME_TO_TIME_YYYYMMDD_000000DD_MIX_TO_HOURS then warn OR NOTE_TRUNCATED else warn))"
  unfolding r_def by (rule converted_time [OF assms(1-5)])

text \<open>The seconds of a value of the class, without overflow.\<close>

lemma time_to_seconds_value:
  assumes "time_ok t" and "is_valid_time t"
  shows "sint (time_to_seconds t) =
     signed_value (neg t) (int (unat (hour t) * 3600 + unat (minute t) * 60 + unat (second t)))"
proof -
  define n where "n = unat (hour t) * 3600 + unat (minute t) * 60 + unat (second t)"
  have b: "unat (hour t) \<le> 838" "unat (minute t) \<le> 59" "unat (second t) \<le> 59"
    using assms by (auto simp: time_ok_iff is_valid_time_def valid_time_fields)
  then have "n \<le> 3020399" by (simp add: n_def)
  have "hour t * 3600 + minute t * 60 + second t = of_nat n" by (simp add: n_def)
  moreover have "unat (of_nat n :: 32 word) = n" using \<open>n \<le> 3020399\<close> by (simp add: unat_of_nat)
  ultimately have "unat (to_seconds_abs t) = n" by (simp add: to_seconds_abs_def unat_widen)
  then have "to_seconds_abs t = of_int (int n)" using \<open>n \<le> 3020399\<close> by (simp add: word_unat_eq_iff unat_of_nat)
  then show ?thesis
    using \<open>n \<le> 3020399\<close> sint_of_int [of "int n", where 'a = 64] sint_of_int [of "- int n", where 'a = 64]
    by (simp add: time_to_seconds_def signed_value_def n_def [symmetric])
qed

section \<open>The order of timestamps\<close>

text \<open>A zero date comes first, then the timestamps by their seconds and microseconds.\<close>

definition tz_key :: "timestamp_or_zero \<Rightarrow> (int \<times> int) option" where
  "tz_key z = (if m_is_zero_datetime z then None
     else Some (sint (fst (tz_timestamp z)), sint (snd (tz_timestamp z))))"

definition timeval_usec :: "timeval \<Rightarrow> int" where
  "timeval_usec tv = sint (fst tv) * 1000000 + sint (snd tv)"

lemma tz_cmp_key:
  "tz_cmp a b = (if tz_key a < tz_key b then - 1 else if tz_key b < tz_key a then 1 else 0)"
  by (auto simp: tz_cmp_def tz_key_def timestamp_cmp_def less_prod_def)

lemma lex_usec:
  fixes s s' u u' :: int
  assumes "0 \<le> u" "u < 1000000" "0 \<le> u'" "u' < 1000000"
  shows "(s, u) < (s', u') \<longleftrightarrow> s * 1000000 + u < s' * 1000000 + u'"
  using assms by (cases s s' rule: linorder_cases) (auto simp: less_prod_def)

lemma unat_of_nat_self: "unat (w :: 'a::len word) = n \<Longrightarrow> w = of_nat n"
  by auto

lemma add_usec:
  assumes u: "0 \<le> sint (snd tv)" "sint (snd tv) < 1000000" and ns: "unat ns \<le> 1000000000"
  shows "case add_nanoseconds_usec tv ns of (tv', carry) \<Rightarrow>
     timeval_usec tv' + (if carry then 1000000 else 0) = timeval_usec tv + int ((unat ns + 500) div 1000) \<and>
     0 \<le> sint (snd tv') \<and> sint (snd tv') < 1000000"
proof (cases "ns < 500")
  case True
  then have "(unat ns + 500) div 1000 = 0" by (simp add: word_less_nat_alt)
  then show ?thesis using True u by (simp add: add_nanoseconds_usec_def)
next
  case False
  define i q where "i = sint (snd tv)" and "q = int ((unat ns + 500) div 1000)"
  have "(unat ns + 500) div 1000 \<le> (1000000000 + 500) div 1000" using ns by (intro div_le_mono) simp
  then have q: "0 \<le> q" "q \<le> 1000000" by (simp_all add: q_def)
  have p: "unat (ns + 500) = unat ns + 500" using ns by (subst unat_plus_small) simp_all
  have "unat ((ns + 500) div 1000) = (unat ns + 500) div 1000" using p by (simp add: unat_div_distrib)
  then have "(ns + 500) div 1000 = of_int q" unfolding q_def by (metis of_int_of_nat_eq unat_of_nat_self)
  moreover have "snd tv = of_int i" by (simp add: i_def)
  ultimately have w: "snd tv + (ns + 500) div 1000 = of_int (i + q)" by simp
  have s: "sint (of_int (i + q) :: 32 word) = i + q"
    using u q unfolding i_def [symmetric] by (intro sint_of_int) simp_all
  show ?thesis
  proof (cases "i + q < 1000000")
    case True
    then show ?thesis using False u q w s by (simp add: add_nanoseconds_usec_def timeval_usec_def i_def q_def)
  next
    case ge: False
    have "(i + q) smod 1000000 = (i + q) mod 1000000"
      using u q unfolding i_def [symmetric] by (intro smod_mod_positive) simp_all
    also have "\<dots> = (i + q - 1000000) mod 1000000" by (rule minus_mod_self2 [symmetric])
    also have "\<dots> = i + q - 1000000"
      using ge u q unfolding i_def [symmetric] by (intro mod_pos_pos_trivial) simp_all
    finally have m: "(i + q) smod 1000000 = i + q - 1000000" .
    have "sint (of_int (i + q - 1000000) :: 32 word) = i + q - 1000000"
      using ge u q unfolding i_def [symmetric] by (intro sint_of_int) simp_all
    then show ?thesis
      using False ge u q w s m by (simp add: add_nanoseconds_usec_def timeval_usec_def i_def [symmetric] q_def [symmetric])
  qed
qed

text \<open>The comparison of TIMESTAMP values is that of a linear order: zero dates are equal to each other
  and before every timestamp, and timestamps compare by their seconds and then their microseconds,
  which is the order of the instants in microseconds when the microseconds are below a million. Adding up to a
  second of nanoseconds moves the instant by the rounded number of microseconds.\<close>

theorem timestamp_order:
  assumes "\<forall>z \<in> {a, b}. 0 \<le> sint (snd (tz_timestamp z)) \<and> sint (snd (tz_timestamp z)) < 1000000"
    and "unat ns \<le> 1000000000"
  shows "tz_cmp a b = (if tz_key a < tz_key b then - 1 else if tz_key b < tz_key a then 1 else 0) \<and>
     (tz_key a < tz_key b \<longleftrightarrow> \<not> m_is_zero_datetime b \<and>
       (m_is_zero_datetime a \<or> timeval_usec (tz_timestamp a) < timeval_usec (tz_timestamp b))) \<and>
     (case add_nanoseconds_usec (tz_timestamp a) ns of (tv, carry) \<Rightarrow>
        timeval_usec tv + (if carry then 1000000 else 0) =
          timeval_usec (tz_timestamp a) + int ((unat ns + 500) div 1000) \<and> 0 \<le> sint (snd tv) \<and> sint (snd tv) < 1000000)"
proof -
  have "tz_key a < tz_key b \<longleftrightarrow> \<not> m_is_zero_datetime b \<and>
       (m_is_zero_datetime a \<or> timeval_usec (tz_timestamp a) < timeval_usec (tz_timestamp b))"
    using assms(1) lex_usec by (auto simp: tz_key_def timeval_usec_def)
  moreover have "case add_nanoseconds_usec (tz_timestamp a) ns of (tv, carry) \<Rightarrow>
        timeval_usec tv + (if carry then 1000000 else 0) =
          timeval_usec (tz_timestamp a) + int ((unat ns + 500) div 1000) \<and> 0 \<le> sint (snd tv) \<and> sint (snd tv) < 1000000"
    using assms by (intro add_usec) simp_all
  ultimately show ?thesis using tz_cmp_key by blast
qed

section \<open>Examples\<close>

definition demo_env :: "unit time_env" where
  "demo_env = \<lparr>e_log_10_int = (\<lambda>i. 10 ^ i), e_set_zero_time = (\<lambda>t ty. zero_value ty),
     e_set_current_date = (\<lambda>_. zero_value TIMESTAMP_DATE),
     e_calc_time_diff = (\<lambda>_ _ _ _. (False, zero_value TIMESTAMP_TIME)),
     e_check_time_range = (\<lambda>t dec w. (False, if hour t \<le> 838 then t else time_hhmmssff_set_max t TIME_MAX_HOUR, w)),
     e_round_or_set_max_nsec = (\<lambda>t dec w n. (t, w)), e_round_or_set_max = (\<lambda>t dec w. (t, w)),
     e_number_to_time = (\<lambda>n s u m. (0, zero_value TIMESTAMP_TIME, 0)),
     e_number_to_date = (\<lambda>s u f. (0, zero_value TIMESTAMP_DATETIME, 0)),
     e_default_round_mode = (\<lambda>_. FRAC_ROUND)\<rparr>"

definition demo_datetime :: mysql_time where
  "demo_datetime = \<lparr>year = 0, month = 0, day = 2, hour = 5, minute = 6, second = 7, second_part = 123456,
     neg = False, time_type = TIMESTAMP_DATETIME\<rparr>"

definition demo_options :: time_options where
  "demo_options = time_options_thd demo_env ()"

lemma demo_source: "unat (day demo_datetime) < 32" "unat (hour demo_datetime) < 24" "has_valid_mmssff demo_datetime" "time_type demo_datetime = TIMESTAMP_DATETIME"
  "m_datetime_to_time_mode demo_options = DATETIME_TO_TIME_YYYYMMDD_000000DD_MIX_TO_HOURS"
  by (simp_all add: demo_datetime_def has_valid_mmssff_iff demo_options_def time_options_thd_def
      default_datetime_to_time_mode_def)

theorem datetime_to_time_modes_witness:
  "hms (fst (valid_MYSQL_TIME_to_valid_value demo_env () 0 demo_options demo_datetime)) =
     hms demo_datetime + 2 * 86400 * 10 ^ 6 \<and>
   snd (valid_MYSQL_TIME_to_valid_value demo_env () 0 demo_options demo_datetime) = 0"
proof -
  have "has_zero_YYYYMM demo_datetime" "unat (day demo_datetime) = 2"
    by (simp_all add: demo_datetime_def has_zero_YYYYMM_def)
  then show ?thesis
    using datetime_to_time_modes [OF demo_source(1-3) disjI2 [OF demo_source(4)] demo_source(5), of demo_env "()" 0]
    by simp
qed

theorem timestamp_order_witness:
  "tz_cmp (tz_of_timestamp (5, 999999) False) (tz_of_timestamp (6, 0) False) = - 1 \<and>
   tz_cmp tz_new (tz_of_timestamp (- 1, 0) False) = - 1 \<and>
   (case add_nanoseconds_usec (5, 999999) 600 of (tv, carry) \<Rightarrow>
      timeval_usec tv + (if carry then 1000000 else 0) = 6000000)"
proof -
  have 1: "\<forall>z \<in> {tz_of_timestamp (5, 999999) False, tz_of_timestamp (6, 0) False}.
      0 \<le> sint (snd (tz_timestamp z)) \<and> sint (snd (tz_timestamp z)) < 1000000"
    by (simp add: tz_of_timestamp_def)
  have 2: "\<forall>z \<in> {tz_new, tz_of_timestamp (- 1, 0) False}.
      0 \<le> sint (snd (tz_timestamp z)) \<and> sint (snd (tz_timestamp z)) < 1000000"
    by (simp add: tz_of_timestamp_def tz_new_def timestamp_new_def)
  have ns: "unat (600 :: uint) \<le> 1000000000" by simp
  show ?thesis
    using timestamp_order [OF 1 ns] timestamp_order [OF 2 ns]
    by (auto simp: tz_of_timestamp_def tz_new_def timeval_usec_def split: prod.splits if_splits)
qed

end
