(* ===== verification/Json_Writer.thy ===== *)
theory Json_Writer
  imports Prelude "HOL-Library.Monad_Syntax"
begin

text \<open>
  The JSON writer of the optimizer trace (\<^verbatim>\<open>my_json_writer.h\<close>): the output string with a size
  limit, and the guard objects \<open>Json_writer_object\<close> and \<open>Json_writer_array\<close>, which open a JSON
  structure in their constructor and close it in \<open>end\<close> or in their destructor.

  The methods of \<open>Json_writer\<close> itself have no body in the header. A writer is modelled by the
  sequence of method calls it has received, so that whatever the writer does with them is a function
  of that sequence. A call on a null writer is undefined: \<open>None\<close>. \<open>String::append\<close>, which the output
  string relies on, has no body in the headers either and is an argument with the contract \<open>string_law\<close>.
\<close>

section \<open>The output string\<close>

(* @my_global.h 808-808 SIZE_T_MAX *)
definition SIZE_T_MAX :: ulonglong where
  "SIZE_T_MAX = NOT 0"

(* @my_json_writer.h 198-205 String_with_limit *)
record 'str string_with_limit =
  swl_str :: 'str
  size_limit :: ulonglong
  truncated_len :: ulonglong

text \<open>\<open>s0\<close> is the string after \<open>str.length(0)\<close>.\<close>

(* @my_json_writer.h 145-148 String_with_limit::String_with_limit *)
definition swl_new :: "'str \<Rightarrow> 'str string_with_limit" where
  "swl_new s0 = \<lparr>swl_str = s0, size_limit = SIZE_T_MAX, truncated_len = 0\<rparr>"

(* @my_json_writer.h 150-150 String_with_limit::get_truncated_bytes *)
definition get_truncated_bytes :: "'str string_with_limit \<Rightarrow> ulonglong" where
  "get_truncated_bytes s = truncated_len s"

(* @my_json_writer.h 151-151 String_with_limit::get_size_limit *)
definition get_size_limit :: "'str string_with_limit \<Rightarrow> ulonglong" where
  "get_size_limit s = size_limit s"

(* @my_json_writer.h 153-159 String_with_limit::set_size_limit *)
definition set_size_limit :: "'str string_with_limit \<Rightarrow> ulonglong \<Rightarrow> 'str string_with_limit" where
  "set_size_limit s limit_arg = s\<lparr>size_limit := limit_arg\<rparr>"

text \<open>
  \<open>len\<close> is \<open>String::length\<close>, of type \<open>uint32\<close>, and \<open>app\<close> is \<open>String::append\<close>, which returns true
  when it could not allocate; the caller ignores that result. The bytes that can be read at \<open>s\<close> are
  the argument \<open>s\<close>.
\<close>

(* @my_json_writer.h 161-181 String_with_limit::append(const char ptr, size_t) *)
definition swl_append ::
  "('str \<Rightarrow> uint32) \<Rightarrow> ('str \<Rightarrow> uchar list \<Rightarrow> 'str \<times> bool) \<Rightarrow>
   'str string_with_limit \<Rightarrow> uchar list \<Rightarrow> ulonglong \<Rightarrow> 'str string_with_limit" where
  "swl_append len app w s sz =
     (if ucast (len (swl_str w)) + sz \<le> size_limit w
      then w\<lparr>swl_str := fst (app (swl_str w) (take (unat sz) s))\<rparr>
      else if ucast (len (swl_str w)) < size_limit w
      then (let bytes_to_add = size_limit w - ucast (len (swl_str w))
            in w\<lparr>swl_str := fst (app (swl_str w) (take (unat bytes_to_add) s)),
                 truncated_len := truncated_len w + (sz - bytes_to_add)\<rparr>)
      else w\<lparr>truncated_len := truncated_len w + sz\<rparr>)"

(* @my_json_writer.h 183-186 String_with_limit::append(const char ptr) *)
definition swl_append_cstr ::
  "('str \<Rightarrow> uint32) \<Rightarrow> ('str \<Rightarrow> uchar list \<Rightarrow> 'str \<times> bool) \<Rightarrow>
   'str string_with_limit \<Rightarrow> uchar list \<Rightarrow> 'str string_with_limit" where
  "swl_append_cstr len app w s = swl_append len app w s (of_nat (length (takeWhile (\<lambda>c. c \<noteq> 0) s)))"

(* @my_json_writer.h 188-194 String_with_limit::append(char) *)
definition swl_append_char ::
  "('str \<Rightarrow> uint32) \<Rightarrow> ('str \<Rightarrow> uchar list \<Rightarrow> 'str \<times> bool) \<Rightarrow>
   'str string_with_limit \<Rightarrow> uchar \<Rightarrow> 'str string_with_limit" where
  "swl_append_char len app w c =
     (if ucast (len (swl_str w) + 1) > size_limit w
      then w\<lparr>truncated_len := truncated_len w + 1\<rparr>
      else w\<lparr>swl_str := fst (app (swl_str w) [c])\<rparr>)"

(* @my_json_writer.h 196-196 String_with_limit::get_string *)
definition swl_get_string :: "'str string_with_limit \<Rightarrow> 'str" where
  "swl_get_string w = swl_str w"

(* @my_json_writer.h 197-197 String_with_limit::length *)
definition swl_length :: "('str \<Rightarrow> uint32) \<Rightarrow> 'str string_with_limit \<Rightarrow> ulonglong" where
  "swl_length len w = ucast (len (swl_str w))"

section \<open>The writer\<close>

(* @my_json_writer.h 70-76 Single_line_formatting_helper::enum_state *)
datatype fmt_state = INACTIVE | ADD_MEMBER | IN_ARRAY | DISABLED

text \<open>The buffer is given by the bytes between \<open>buffer\<close> and \<open>buf_ptr\<close>; \<open>line_len\<close> is not initialized.\<close>

(* @my_json_writer.h 96-105 Single_line_formatting_helper *)
record fmt_helper =
  fmt_state :: fmt_state
  fmt_buffer :: "uchar list"
  fmt_owner :: "nat option"

(* @my_json_writer.h 107-107 Single_line_formatting_helper::Single_line_formatting_helper *)
definition fmt_new :: fmt_helper where
  "fmt_new = \<lparr>fmt_state = INACTIVE, fmt_buffer = [], fmt_owner = None\<rparr>"

(* @my_json_writer.h 109-109 Single_line_formatting_helper::init *)
definition fmt_init :: "fmt_helper \<Rightarrow> nat \<Rightarrow> fmt_helper" where
  "fmt_init f owner_arg = f\<lparr>fmt_owner := Some owner_arg\<rparr>"

(* @my_json_writer.h 126-126 Single_line_formatting_helper::is_making_writer_calls *)
definition is_making_writer_calls :: "fmt_helper \<Rightarrow> bool" where
  "is_making_writer_calls f \<longleftrightarrow> fmt_state f = DISABLED"

(* @my_json_writer.h 291-307 Json_writer *)
record 'str json_writer =
  indent_level :: int
  document_start :: bool
  element_started :: bool
  first_child :: bool
  writer_fmt_helper :: fmt_helper
  writer_output :: "'str string_with_limit"

(* @my_json_writer.h 280-288 Json_writer::Json_writer *)
definition json_writer_new :: "nat \<Rightarrow> 'str \<Rightarrow> 'str json_writer" where
  "json_writer_new this s0 =
     \<lparr>indent_level = 0, document_start = True, element_started = False, first_child = True,
      writer_fmt_helper = fmt_init fmt_new this, writer_output = swl_new s0\<rparr>"

(* @my_json_writer.h 276-276 Json_writer::set_size_limit *)
definition writer_set_size_limit :: "'str json_writer \<Rightarrow> ulonglong \<Rightarrow> 'str json_writer" where
  "writer_set_size_limit w mem_size = w\<lparr>writer_output := set_size_limit (writer_output w) mem_size\<rparr>"

(* @my_json_writer.h 278-278 Json_writer::get_truncated_bytes *)
definition writer_get_truncated_bytes :: "'str json_writer \<Rightarrow> ulonglong" where
  "writer_get_truncated_bytes w = get_truncated_bytes (writer_output w)"

text \<open>
  The calls that the guards make on a writer. Strings are the bytes at the pointer, doubles their bit
  pattern, \<open>Item\<close>, \<open>JOIN_TAB\<close> and \<open>TABLE\<close> objects their address.
\<close>

(* @my_json_writer.h 237-270 Json_writer *)
datatype wcall =
    W_add_member "uchar list"
  | W_add_str "uchar list"
  | W_add_str_len "uchar list" ulonglong
  | W_add_str_item nat
  | W_add_table_name_tab nat
  | W_add_table_name nat
  | W_add_ll "64 word"
  | W_add_ull ulonglong
  | W_add_size "64 word"
  | W_add_double "64 word"
  | W_add_bool bool
  | W_add_null
  | W_start_object
  | W_start_array
  | W_end_object
  | W_end_array

text \<open>What every writer has been called with so far, by the address of the writer.\<close>

type_synonym writers = "nat \<Rightarrow> wcall list"

definition wcall :: "writers \<Rightarrow> nat option \<Rightarrow> wcall \<Rightarrow> writers option" where
  "wcall h w c = (case w of None \<Rightarrow> None | Some a \<Rightarrow> Some (h(a := h a @ [c])))"

section \<open>The value helper\<close>

(* @my_json_writer.h 311-313 Json_value_helper *)
record value_helper =
  vh_writer :: "nat option"

(* @my_json_writer.h 316-316 Json_value_helper::init *)
definition vh_init :: "value_helper \<Rightarrow> nat option \<Rightarrow> value_helper" where
  "vh_init c my_writer = c\<lparr>vh_writer := my_writer\<rparr>"

(* @my_json_writer.h 317-320 Json_value_helper::add_str(const char ptr) *)
definition vh_add_str :: "writers \<Rightarrow> value_helper \<Rightarrow> uchar list \<Rightarrow> writers option" where
  "vh_add_str h c v = wcall h (vh_writer c) (W_add_str v)"

(* @my_json_writer.h 321-324 Json_value_helper::add_str(const char ptr, size_t) *)
definition vh_add_str_len :: "writers \<Rightarrow> value_helper \<Rightarrow> uchar list \<Rightarrow> ulonglong \<Rightarrow> writers option" where
  "vh_add_str_len h c v len = wcall h (vh_writer c) (W_add_str_len v len)"

(* @my_json_writer.h 325-328 Json_value_helper::add_str(const String ref) *)
definition vh_add_string :: "writers \<Rightarrow> value_helper \<Rightarrow> uchar list \<times> uint32 \<Rightarrow> writers option" where
  "vh_add_string h c str = wcall h (vh_writer c) (W_add_str_len (fst str) (ucast (snd str)))"

(* @my_json_writer.h 329-332 Json_value_helper::add_str(const LEX_CSTRING ref) *)
definition vh_add_lex :: "writers \<Rightarrow> value_helper \<Rightarrow> uchar list \<times> ulonglong \<Rightarrow> writers option" where
  "vh_add_lex h c str = wcall h (vh_writer c) (W_add_str_len (fst str) (snd str))"

(* @my_json_writer.h 333-336 Json_value_helper::add_str(Item ptr) *)
definition vh_add_item :: "writers \<Rightarrow> value_helper \<Rightarrow> nat \<Rightarrow> writers option" where
  "vh_add_item h c item = wcall h (vh_writer c) (W_add_str_item item)"

(* @my_json_writer.h 338-341 Json_value_helper::add_ll *)
definition vh_add_ll :: "writers \<Rightarrow> value_helper \<Rightarrow> 64 word \<Rightarrow> writers option" where
  "vh_add_ll h c v = wcall h (vh_writer c) (W_add_ll v)"

(* @my_json_writer.h 342-345 Json_value_helper::add_size *)
definition vh_add_size :: "writers \<Rightarrow> value_helper \<Rightarrow> 64 word \<Rightarrow> writers option" where
  "vh_add_size h c v = wcall h (vh_writer c) (W_add_size v)"

(* @my_json_writer.h 346-349 Json_value_helper::add_double *)
definition vh_add_double :: "writers \<Rightarrow> value_helper \<Rightarrow> 64 word \<Rightarrow> writers option" where
  "vh_add_double h c v = wcall h (vh_writer c) (W_add_double v)"

(* @my_json_writer.h 350-353 Json_value_helper::add_bool *)
definition vh_add_bool :: "writers \<Rightarrow> value_helper \<Rightarrow> bool \<Rightarrow> writers option" where
  "vh_add_bool h c v = wcall h (vh_writer c) (W_add_bool v)"

(* @my_json_writer.h 354-357 Json_value_helper::add_null *)
definition vh_add_null :: "writers \<Rightarrow> value_helper \<Rightarrow> writers option" where
  "vh_add_null h c = wcall h (vh_writer c) W_add_null"

(* @my_json_writer.h 358-361 Json_value_helper::add_table_name(const JOIN_TAB ptr) *)
definition vh_add_table_name_tab :: "writers \<Rightarrow> value_helper \<Rightarrow> nat \<Rightarrow> writers option" where
  "vh_add_table_name_tab h c tab = wcall h (vh_writer c) (W_add_table_name_tab tab)"

(* @my_json_writer.h 362-365 Json_value_helper::add_table_name(const TABLE ptr) *)
definition vh_add_table_name :: "writers \<Rightarrow> value_helper \<Rightarrow> nat \<Rightarrow> writers option" where
  "vh_add_table_name h c table = wcall h (vh_writer c) (W_add_table_name table)"

section \<open>The guards\<close>

(* @my_json_writer.h 378-383 Json_writer_struct *)
record json_struct =
  my_writer :: "nat option"
  struct_context :: value_helper
  struct_closed :: bool

(* @my_json_writer.h 385-393 Json_writer_struct::Json_writer_struct *)
definition struct_new :: "nat option \<Rightarrow> json_struct" where
  "struct_new writer =
     \<lparr>my_writer = writer, struct_context = vh_init \<lparr>vh_writer = None\<rparr> writer, struct_closed = False\<rparr>"

(* @my_json_writer.h 408-411 Json_writer_struct::trace_started *)
definition trace_started :: "json_struct \<Rightarrow> bool" where
  "trace_started s \<longleftrightarrow> my_writer s \<noteq> None"

(* @my_json_writer.h 434-437 Json_writer_object::add_member *)
definition obj_add_member :: "writers \<Rightarrow> json_struct \<Rightarrow> uchar list \<Rightarrow> writers option" where
  "obj_add_member h s name = wcall h (my_writer s) (W_add_member name)"

(* @my_json_writer.h 439-451 Json_writer_object::Json_writer_object(Json_writer ptr, const char ptr) *)
definition obj_new :: "writers \<Rightarrow> nat option \<Rightarrow> uchar list option \<Rightarrow> (writers \<times> json_struct) option" where
  "obj_new h writer str =
     (let s = struct_new writer
      in if my_writer s \<noteq> None
         then do {
           h1 \<leftarrow> (case str of Some n \<Rightarrow> wcall h (my_writer s) (W_add_member n) | None \<Rightarrow> Some h);
           h2 \<leftarrow> wcall h1 (my_writer s) W_start_object;
           Some (h2, s)
         }
         else Some (h, s))"

text \<open>\<open>get_current_json\<close> is \<open>thd->opt_trace.get_current_json()\<close>.\<close>

(* @my_json_writer.h 453-456 Json_writer_object::Json_writer_object(THD ptr, const char ptr) *)
definition obj_new_thd ::
  "('thd \<Rightarrow> nat option) \<Rightarrow> writers \<Rightarrow> 'thd \<Rightarrow> uchar list option \<Rightarrow> (writers \<times> json_struct) option" where
  "obj_new_thd get_current_json h thd str = obj_new h (get_current_json thd) str"

(* @my_json_writer.h 458-463 Json_writer_object::destructor *)
definition obj_delete :: "writers \<Rightarrow> json_struct \<Rightarrow> (writers \<times> json_struct) option" where
  "obj_delete h s = do {
     h1 \<leftarrow> (if my_writer s \<noteq> None \<and> \<not> struct_closed s then wcall h (my_writer s) W_end_object else Some h);
     Some (h1, s\<lparr>struct_closed := True\<rparr>)
   }"

(* @my_json_writer.h 465-474 Json_writer_object::add(const char ptr, bool) *)
definition obj_add_bool :: "writers \<Rightarrow> json_struct \<Rightarrow> uchar list \<Rightarrow> bool \<Rightarrow> (writers \<times> json_struct) option" where
  "obj_add_bool h s name v =
     (if my_writer s \<noteq> None
      then do { h1 \<leftarrow> obj_add_member h s name; h2 \<leftarrow> vh_add_bool h1 (struct_context s) v; Some (h2, s) }
      else Some (h, s))"

(* @my_json_writer.h 476-485 Json_writer_object::add(const char ptr, ulonglong) *)
definition obj_add_ull :: "writers \<Rightarrow> json_struct \<Rightarrow> uchar list \<Rightarrow> ulonglong \<Rightarrow> (writers \<times> json_struct) option" where
  "obj_add_ull h s name v =
     (if my_writer s \<noteq> None
      then do { h1 \<leftarrow> obj_add_member h s name; h2 \<leftarrow> wcall h1 (my_writer s) (W_add_ull v); Some (h2, s) }
      else Some (h, s))"

text \<open>The value of an integral type \<open>IntT\<close> is converted to \<open>longlong\<close>, modulo \<open>2 ^ 64\<close>.\<close>

(* @my_json_writer.h 487-499 Json_writer_object::add(const char ptr, IntT) *)
definition obj_add_int :: "writers \<Rightarrow> json_struct \<Rightarrow> uchar list \<Rightarrow> int \<Rightarrow> (writers \<times> json_struct) option" where
  "obj_add_int h s name v =
     (if my_writer s \<noteq> None
      then do { h1 \<leftarrow> obj_add_member h s name; h2 \<leftarrow> vh_add_ll h1 (struct_context s) (of_int v); Some (h2, s) }
      else Some (h, s))"

(* @my_json_writer.h 501-510 Json_writer_object::add(const char ptr, double) *)
definition obj_add_double :: "writers \<Rightarrow> json_struct \<Rightarrow> uchar list \<Rightarrow> 64 word \<Rightarrow> (writers \<times> json_struct) option" where
  "obj_add_double h s name v =
     (if my_writer s \<noteq> None
      then do { h1 \<leftarrow> obj_add_member h s name; h2 \<leftarrow> vh_add_double h1 (struct_context s) v; Some (h2, s) }
      else Some (h, s))"

(* @my_json_writer.h 512-521 Json_writer_object::add(const char ptr, const char ptr) *)
definition obj_add_cstr :: "writers \<Rightarrow> json_struct \<Rightarrow> uchar list \<Rightarrow> uchar list \<Rightarrow> (writers \<times> json_struct) option" where
  "obj_add_cstr h s name v =
     (if my_writer s \<noteq> None
      then do { h1 \<leftarrow> obj_add_member h s name; h2 \<leftarrow> vh_add_str h1 (struct_context s) v; Some (h2, s) }
      else Some (h, s))"

text \<open>This overload does not test \<open>my_writer\<close>.\<close>

(* @my_json_writer.h 522-527 Json_writer_object::add(const char ptr, const char ptr, size_t) *)
definition obj_add_len :: "writers \<Rightarrow> json_struct \<Rightarrow> uchar list \<Rightarrow> uchar list \<Rightarrow> ulonglong \<Rightarrow> (writers \<times> json_struct) option" where
  "obj_add_len h s name v num_bytes =
     do { h1 \<leftarrow> obj_add_member h s name; h2 \<leftarrow> vh_add_str_len h1 (struct_context s) v num_bytes; Some (h2, s) }"

(* @my_json_writer.h 528-537 Json_writer_object::add(const char ptr, const LEX_CSTRING ref) *)
definition obj_add_lex :: "writers \<Rightarrow> json_struct \<Rightarrow> uchar list \<Rightarrow> uchar list \<times> ulonglong \<Rightarrow> (writers \<times> json_struct) option" where
  "obj_add_lex h s name v =
     (if my_writer s \<noteq> None
      then do { h1 \<leftarrow> obj_add_member h s name; h2 \<leftarrow> vh_add_str_len h1 (struct_context s) (fst v) (snd v); Some (h2, s) }
      else Some (h, s))"

(* @my_json_writer.h 538-547 Json_writer_object::add(const char ptr, Item ptr) *)
definition obj_add_item :: "writers \<Rightarrow> json_struct \<Rightarrow> uchar list \<Rightarrow> nat \<Rightarrow> (writers \<times> json_struct) option" where
  "obj_add_item h s name v =
     (if my_writer s \<noteq> None
      then do { h1 \<leftarrow> obj_add_member h s name; h2 \<leftarrow> vh_add_item h1 (struct_context s) v; Some (h2, s) }
      else Some (h, s))"

(* @my_json_writer.h 548-557 Json_writer_object::add_null *)
definition obj_add_null :: "writers \<Rightarrow> json_struct \<Rightarrow> uchar list \<Rightarrow> (writers \<times> json_struct) option" where
  "obj_add_null h s name =
     (if my_writer s \<noteq> None
      then do { h1 \<leftarrow> obj_add_member h s name; h2 \<leftarrow> vh_add_null h1 (struct_context s); Some (h2, s) }
      else Some (h, s))"

text \<open>The literals that the code passes as member names and values, as bytes.\<close>

definition bytes_of :: "string \<Rightarrow> uchar list" where
  "bytes_of cs = map of_char cs"

(* @my_json_writer.h 558-567 Json_writer_object::add_table_name(const JOIN_TAB ptr) *)
definition obj_add_table_name_tab :: "writers \<Rightarrow> json_struct \<Rightarrow> nat \<Rightarrow> (writers \<times> json_struct) option" where
  "obj_add_table_name_tab h s tab =
     (if my_writer s \<noteq> None
      then do { h1 \<leftarrow> obj_add_member h s (bytes_of ''table''); h2 \<leftarrow> vh_add_table_name_tab h1 (struct_context s) tab; Some (h2, s) }
      else Some (h, s))"

(* @my_json_writer.h 568-577 Json_writer_object::add_table_name(const TABLE ptr) *)
definition obj_add_table_name :: "writers \<Rightarrow> json_struct \<Rightarrow> nat \<Rightarrow> (writers \<times> json_struct) option" where
  "obj_add_table_name h s table =
     (if my_writer s \<noteq> None
      then do { h1 \<leftarrow> obj_add_member h s (bytes_of ''table''); h2 \<leftarrow> vh_add_table_name h1 (struct_context s) table; Some (h2, s) }
      else Some (h, s))"

(* @sql_priv.h 337-337 FAKE_SELECT_LEX_ID *)
definition FAKE_SELECT_LEX_ID :: uint where
  "FAKE_SELECT_LEX_ID = NOT 0"

(* @my_json_writer.h 578-590 Json_writer_object::add_select_number *)
definition obj_add_select_number :: "writers \<Rightarrow> json_struct \<Rightarrow> uint \<Rightarrow> (writers \<times> json_struct) option" where
  "obj_add_select_number h s select_number =
     (if my_writer s \<noteq> None
      then do { h1 \<leftarrow> obj_add_member h s (bytes_of ''select_id''); h2 \<leftarrow> (if select_number = FAKE_SELECT_LEX_ID then vh_add_str h1 (struct_context s) (bytes_of ''fake'')
        else vh_add_ll h1 (struct_context s) (ucast select_number)); Some (h2, s) }
      else Some (h, s))"

(* @my_json_writer.h 591-597 Json_writer_object::end *)
definition obj_end :: "writers \<Rightarrow> json_struct \<Rightarrow> (writers \<times> json_struct) option" where
  "obj_end h s = do {
     h1 \<leftarrow> (if my_writer s \<noteq> None then wcall h (my_writer s) W_end_object else Some h);
     Some (h1, s\<lparr>struct_closed := True\<rparr>)
   }"

(* @my_json_writer.h 612-624 Json_writer_array::Json_writer_array(Json_writer ptr, const char ptr) *)
definition arr_new :: "writers \<Rightarrow> nat option \<Rightarrow> uchar list option \<Rightarrow> (writers \<times> json_struct) option" where
  "arr_new h writer str =
     (let s = struct_new writer
      in if my_writer s \<noteq> None
         then do {
           h1 \<leftarrow> (case str of Some n \<Rightarrow> wcall h (my_writer s) (W_add_member n) | None \<Rightarrow> Some h);
           h2 \<leftarrow> wcall h1 (my_writer s) W_start_array;
           Some (h2, s)
         }
         else Some (h, s))"

(* @my_json_writer.h 626-629 Json_writer_array::Json_writer_array(THD ptr, const char ptr) *)
definition arr_new_thd ::
  "('thd \<Rightarrow> nat option) \<Rightarrow> writers \<Rightarrow> 'thd \<Rightarrow> uchar list option \<Rightarrow> (writers \<times> json_struct) option" where
  "arr_new_thd get_current_json h thd str = arr_new h (get_current_json thd) str"

(* @my_json_writer.h 631-638 Json_writer_array::destructor *)
definition arr_delete :: "writers \<Rightarrow> json_struct \<Rightarrow> (writers \<times> json_struct) option" where
  "arr_delete h s =
     (if my_writer s \<noteq> None \<and> \<not> struct_closed s
      then do { h1 \<leftarrow> wcall h (my_writer s) W_end_array; Some (h1, s\<lparr>struct_closed := True\<rparr>) }
      else Some (h, s))"

(* @my_json_writer.h 640-646 Json_writer_array::end *)
definition arr_end :: "writers \<Rightarrow> json_struct \<Rightarrow> (writers \<times> json_struct) option" where
  "arr_end h s = do {
     h1 \<leftarrow> (if my_writer s \<noteq> None then wcall h (my_writer s) W_end_array else Some h);
     Some (h1, s\<lparr>struct_closed := True\<rparr>)
   }"

(* @my_json_writer.h 648-654 Json_writer_array::add(bool) *)
definition arr_add_bool :: "writers \<Rightarrow> json_struct \<Rightarrow> bool \<Rightarrow> (writers \<times> json_struct) option" where
  "arr_add_bool h s v =
     (if my_writer s \<noteq> None then do { h1 \<leftarrow> vh_add_bool h (struct_context s) v; Some (h1, s) } else Some (h, s))"

(* @my_json_writer.h 655-661 Json_writer_array::add(ulonglong) *)
definition arr_add_ull :: "writers \<Rightarrow> json_struct \<Rightarrow> ulonglong \<Rightarrow> (writers \<times> json_struct) option" where
  "arr_add_ull h s v =
     (if my_writer s \<noteq> None then do { h1 \<leftarrow> vh_add_ll h (struct_context s) v; Some (h1, s) } else Some (h, s))"

(* @my_json_writer.h 662-668 Json_writer_array::add(longlong) *)
definition arr_add_ll :: "writers \<Rightarrow> json_struct \<Rightarrow> 64 word \<Rightarrow> (writers \<times> json_struct) option" where
  "arr_add_ll h s v =
     (if my_writer s \<noteq> None then do { h1 \<leftarrow> vh_add_ll h (struct_context s) v; Some (h1, s) } else Some (h, s))"

(* @my_json_writer.h 669-675 Json_writer_array::add(double) *)
definition arr_add_double :: "writers \<Rightarrow> json_struct \<Rightarrow> 64 word \<Rightarrow> (writers \<times> json_struct) option" where
  "arr_add_double h s v =
     (if my_writer s \<noteq> None then do { h1 \<leftarrow> vh_add_double h (struct_context s) v; Some (h1, s) } else Some (h, s))"

(* @my_json_writer.h 677-683 Json_writer_array::add(size_t) *)
definition arr_add_size :: "writers \<Rightarrow> json_struct \<Rightarrow> ulonglong \<Rightarrow> (writers \<times> json_struct) option" where
  "arr_add_size h s v =
     (if my_writer s \<noteq> None then do { h1 \<leftarrow> vh_add_ll h (struct_context s) v; Some (h1, s) } else Some (h, s))"

(* @my_json_writer.h 685-691 Json_writer_array::add(const char ptr) *)
definition arr_add_cstr :: "writers \<Rightarrow> json_struct \<Rightarrow> uchar list \<Rightarrow> (writers \<times> json_struct) option" where
  "arr_add_cstr h s v =
     (if my_writer s \<noteq> None then do { h1 \<leftarrow> vh_add_str h (struct_context s) v; Some (h1, s) } else Some (h, s))"

(* @my_json_writer.h 692-698 Json_writer_array::add(const char ptr, size_t) *)
definition arr_add_len :: "writers \<Rightarrow> json_struct \<Rightarrow> uchar list \<Rightarrow> ulonglong \<Rightarrow> (writers \<times> json_struct) option" where
  "arr_add_len h s v num_bytes =
     (if my_writer s \<noteq> None then do { h1 \<leftarrow> vh_add_str_len h (struct_context s) v num_bytes; Some (h1, s) } else Some (h, s))"

(* @my_json_writer.h 699-705 Json_writer_array::add(const LEX_CSTRING ref) *)
definition arr_add_lex :: "writers \<Rightarrow> json_struct \<Rightarrow> uchar list \<times> ulonglong \<Rightarrow> (writers \<times> json_struct) option" where
  "arr_add_lex h s v =
     (if my_writer s \<noteq> None then do { h1 \<leftarrow> vh_add_str_len h (struct_context s) (fst v) (snd v); Some (h1, s) } else Some (h, s))"

(* @my_json_writer.h 706-712 Json_writer_array::add(Item ptr) *)
definition arr_add_item :: "writers \<Rightarrow> json_struct \<Rightarrow> nat \<Rightarrow> (writers \<times> json_struct) option" where
  "arr_add_item h s v =
     (if my_writer s \<noteq> None then do { h1 \<leftarrow> vh_add_item h (struct_context s) v; Some (h1, s) } else Some (h, s))"

(* @my_json_writer.h 713-719 Json_writer_array::add_null *)
definition arr_add_null :: "writers \<Rightarrow> json_struct \<Rightarrow> (writers \<times> json_struct) option" where
  "arr_add_null h s =
     (if my_writer s \<noteq> None then do { h1 \<leftarrow> vh_add_null h (struct_context s); Some (h1, s) } else Some (h, s))"

(* @my_json_writer.h 720-726 Json_writer_array::add_table_name(const JOIN_TAB ptr) *)
definition arr_add_table_name_tab :: "writers \<Rightarrow> json_struct \<Rightarrow> nat \<Rightarrow> (writers \<times> json_struct) option" where
  "arr_add_table_name_tab h s tab =
     (if my_writer s \<noteq> None then do { h1 \<leftarrow> vh_add_table_name_tab h (struct_context s) tab; Some (h1, s) } else Some (h, s))"

(* @my_json_writer.h 727-733 Json_writer_array::add_table_name(const TABLE ptr) *)
definition arr_add_table_name :: "writers \<Rightarrow> json_struct \<Rightarrow> nat \<Rightarrow> (writers \<times> json_struct) option" where
  "arr_add_table_name h s table =
     (if my_writer s \<noteq> None then do { h1 \<leftarrow> vh_add_table_name h (struct_context s) table; Some (h1, s) } else Some (h, s))"

section \<open>The output string keeps a prefix\<close>

text \<open>
  The contract of \<open>String\<close>: the length is that of the contents, and an append that succeeds adds
  the bytes at the end while one that fails leaves the contents.
\<close>

definition string_law ::
  "('str \<Rightarrow> uint32) \<Rightarrow> ('str \<Rightarrow> uchar list \<Rightarrow> 'str \<times> bool) \<Rightarrow> ('str \<Rightarrow> uchar list) \<Rightarrow> bool" where
  "string_law len app bytes \<longleftrightarrow>
     (\<forall>s. len s = of_nat (length (bytes s))) \<and>
     (\<forall>s b. length (bytes s) + length b < 2 ^ 32 \<longrightarrow>
        bytes (fst (app s b)) = (if snd (app s b) then bytes s else bytes s @ b))"

text \<open>The appends that a client makes, and the bytes each of them is given.\<close>

datatype piece = Block "uchar list" ulonglong | Cstr "uchar list" | Chr uchar

fun piece_bytes :: "piece \<Rightarrow> uchar list" where
  "piece_bytes (Block s sz) = take (unat sz) s"
| "piece_bytes (Cstr s) = takeWhile (\<lambda>c. c \<noteq> 0) s"
| "piece_bytes (Chr c) = [c]"

fun piece_ok :: "piece \<Rightarrow> bool" where
  "piece_ok (Block s sz) \<longleftrightarrow> unat sz \<le> length s"
| "piece_ok (Cstr s) \<longleftrightarrow> 0 \<in> set s"
| "piece_ok (Chr c) \<longleftrightarrow> True"

fun append_piece ::
  "('str \<Rightarrow> uint32) \<Rightarrow> ('str \<Rightarrow> uchar list \<Rightarrow> 'str \<times> bool) \<Rightarrow> piece \<Rightarrow>
   'str string_with_limit \<Rightarrow> 'str string_with_limit" where
  "append_piece len app (Block s sz) w = swl_append len app w s sz"
| "append_piece len app (Cstr s) w = swl_append_cstr len app w s"
| "append_piece len app (Chr c) w = swl_append_char len app w c"

definition pieces_bytes :: "piece list \<Rightarrow> uchar list" where
  "pieces_bytes ps = concat (map piece_bytes ps)"

definition room :: "('str \<Rightarrow> uchar list) \<Rightarrow> 'str string_with_limit \<Rightarrow> nat" where
  "room bytes w = unat (size_limit w) - length (bytes (swl_str w))"

text \<open>What an append of \<open>b\<close> does when nothing fails.\<close>

definition keeps_prefix ::
  "('str \<Rightarrow> uchar list) \<Rightarrow> 'str string_with_limit \<Rightarrow> uchar list \<Rightarrow> 'str string_with_limit \<Rightarrow> bool" where
  "keeps_prefix bytes w b w' \<longleftrightarrow>
     size_limit w' = size_limit w \<and>
     bytes (swl_str w') = bytes (swl_str w) @ take (room bytes w) b \<and>
     unat (truncated_len w') = unat (truncated_len w) + (length b - room bytes w)"

lemma string_law_len:
  assumes "string_law len app bytes" and "length (bytes s) < 2 ^ 32"
  shows "unat (len s) = length (bytes s)"
proof -
  have "len s = of_nat (length (bytes s))" using assms(1) unfolding string_law_def by blast
  then show ?thesis using assms(2) by (simp add: unsigned_of_nat take_bit_nat_eq_self)
qed

lemma string_law_append:
  assumes "string_law len app bytes" and "\<forall>s b. \<not> snd (app s b)" and "length (bytes s) + length b < 2 ^ 32"
  shows "bytes (fst (app s b)) = bytes s @ b"
  using assms unfolding string_law_def by metis

lemma unat_ucast_up: "unat (ucast (v :: uint32) :: ulonglong) = unat v"
  using unsigned_less [of v, where 'a = nat] by (intro unat_ucast_small) simp

lemma swl_append_prefix:
  assumes law: "string_law len app bytes" "\<forall>s b. \<not> snd (app s b)"
    and s: "unat sz \<le> length s"
    and fit: "length (bytes (swl_str w)) + min (unat sz) (room bytes w) < 2 ^ 32"
    and small: "unat (truncated_len w) + unat sz + 2 ^ 32 \<le> 2 ^ 64"
  shows "keeps_prefix bytes w (take (unat sz) s) (swl_append len app w s sz)"
proof -
  define n where "n = length (bytes (swl_str w))"
  have n: "unat (len (swl_str w)) = n" "n < 2 ^ 32"
    using string_law_len [OF law(1), of "swl_str w"] fit by (simp_all add: n_def)
  have len: "unat (ucast (len (swl_str w)) :: ulonglong) = n" using n(1) by (simp add: unat_ucast_up)
  have sum: "unat (ucast (len (swl_str w)) + sz) = n + unat sz"
    using unat_plus_small [of "ucast (len (swl_str w))" sz] len n(2) small by simp
  have room: "room bytes w = unat (size_limit w) - n" by (simp add: room_def n_def)
  note put = string_law_append [OF law, of "swl_str w"]
  consider "n + unat sz \<le> unat (size_limit w)"
    | "\<not> n + unat sz \<le> unat (size_limit w)" "n < unat (size_limit w)"
    | "\<not> n + unat sz \<le> unat (size_limit w)" "\<not> n < unat (size_limit w)" by blast
  then show ?thesis
  proof cases
    case 1
    then have "swl_append len app w s sz = w\<lparr>swl_str := fst (app (swl_str w) (take (unat sz) s))\<rparr>"
      by (simp add: swl_append_def word_le_nat_alt sum)
    moreover have "min (unat sz) (room bytes w) = unat sz" using 1 room by simp
    ultimately show ?thesis
      using 1 s fit put [of "take (unat sz) s"] by (simp add: keeps_prefix_def room n_def)
  next
    case 2
    define k where "k = size_limit w - ucast (len (swl_str w))"
    have k: "unat k = room bytes w"
      using 2(2) len unfolding k_def room by (subst unat_sub) (simp_all add: word_le_nat_alt)
    have ks: "unat k < unat sz" using 2 k room by simp
    then have rest: "unat (sz - k) = unat sz - unat k" by (subst unat_sub) (simp_all add: word_le_nat_alt)
    have "unat (truncated_len w + (sz - k)) = unat (truncated_len w) + (unat sz - unat k)"
      using small rest by (subst unat_plus_small) simp_all
    moreover have "swl_append len app w s sz =
        w\<lparr>swl_str := fst (app (swl_str w) (take (unat k) s)), truncated_len := truncated_len w + (sz - k)\<rparr>"
      using 2 by (simp add: swl_append_def word_le_nat_alt word_less_nat_alt sum len k_def Let_def)
    moreover have "min (unat sz) (room bytes w) = unat k" using ks k by simp
    ultimately show ?thesis
      using s fit ks put [of "take (unat k) s"] by (simp add: keeps_prefix_def k min_def)
  next
    case 3
    then have "swl_append len app w s sz = w\<lparr>truncated_len := truncated_len w + sz\<rparr>"
      by (simp add: swl_append_def word_le_nat_alt word_less_nat_alt sum len)
    moreover have "unat (truncated_len w + sz) = unat (truncated_len w) + unat sz"
      using small by (subst unat_plus_small) simp_all
    ultimately show ?thesis using 3 s room by (simp add: keeps_prefix_def)
  qed
qed

lemma swl_append_char_prefix:
  assumes law: "string_law len app bytes" "\<forall>s b. \<not> snd (app s b)"
    and fit: "length (bytes (swl_str w)) + min 1 (room bytes w) < 2 ^ 32 - 1"
    and small: "unat (truncated_len w) + 1 < 2 ^ 64"
  shows "keeps_prefix bytes w [c] (swl_append_char len app w c)"
proof -
  define n where "n = length (bytes (swl_str w))"
  have n: "unat (len (swl_str w)) = n" "n < 2 ^ 32 - 1"
    using string_law_len [OF law(1), of "swl_str w"] fit by (simp_all add: n_def)
  have "unat (len (swl_str w) + 1) = n + 1"
    using unat_plus_small [of "len (swl_str w)" 1] n by simp
  then have len: "unat (ucast (len (swl_str w) + 1) :: ulonglong) = n + 1" by (simp only: unat_ucast_up)
  have room: "room bytes w = unat (size_limit w) - n" by (simp add: room_def n_def)
  show ?thesis
  proof (cases "n + 1 \<le> unat (size_limit w)")
    case True
    then have "swl_append_char len app w c = w\<lparr>swl_str := fst (app (swl_str w) [c])\<rparr>"
      by (simp add: swl_append_char_def word_less_nat_alt len)
    moreover have "1 \<le> room bytes w" using True room by simp
    ultimately show ?thesis
      using n(2) string_law_append [OF law, of "swl_str w" "[c]"] by (simp add: keeps_prefix_def n_def)
  next
    case False
    then have "swl_append_char len app w c = w\<lparr>truncated_len := truncated_len w + 1\<rparr>"
      by (simp add: swl_append_char_def word_less_nat_alt len)
    moreover have "unat (truncated_len w + 1) = unat (truncated_len w) + 1"
      using small unat_plus_small [of "truncated_len w" 1] by simp
    ultimately show ?thesis using False room by (simp add: keeps_prefix_def)
  qed
qed

lemma append_piece_prefix:
  assumes law: "string_law len app bytes" "\<forall>s b. \<not> snd (app s b)" and ok: "piece_ok p"
    and fit: "length (bytes (swl_str w)) + min (length (piece_bytes p)) (room bytes w) < 2 ^ 32 - 1"
    and small: "unat (truncated_len w) + length (piece_bytes p) + 2 ^ 32 \<le> 2 ^ 64"
  shows "keeps_prefix bytes w (piece_bytes p) (append_piece len app p w)"
proof (cases p)
  case (Block s sz)
  then have "length (piece_bytes p) = unat sz" using ok by simp
  then show ?thesis using Block ok fit small swl_append_prefix [OF law, of sz s w] by simp
next
  case (Cstr s)
  let ?b = "takeWhile (\<lambda>c. c \<noteq> 0) s"
  have "length ?b < 2 ^ 64" using small Cstr by simp
  then have szl: "unat (of_nat (length ?b) :: ulonglong) = length ?b"
    by (simp add: unsigned_of_nat take_bit_nat_eq_self)
  have "keeps_prefix bytes w (take (length ?b) s) (swl_append len app w s (of_nat (length ?b)))"
    using swl_append_prefix [OF law, of "of_nat (length ?b)" s w, unfolded szl] fit small Cstr
    by (simp add: length_takeWhile_le)
  then show ?thesis using Cstr by (simp add: swl_append_cstr_def flip: takeWhile_eq_take)
next
  case (Chr c)
  then show ?thesis using fit small swl_append_char_prefix [OF law, of w c] by simp
qed

text \<open>C24: Whatever is appended to the output string, in whatever pieces: the string holds what it held before
  followed by the longest prefix of the new bytes that the size limit leaves room for, and the count of
  truncated bytes grows by exactly the bytes that were left out.\<close>

theorem string_with_limit_prefix:
  assumes "string_law len app bytes" and "\<forall>s b. \<not> snd (app s b)" and "\<forall>p \<in> set ps. piece_ok p"
    and "length (bytes (swl_str w)) + min (length (pieces_bytes ps)) (room bytes w) < 2 ^ 32 - 1"
    and "unat (truncated_len w) + length (pieces_bytes ps) + 2 ^ 32 \<le> 2 ^ 64"
  shows "keeps_prefix bytes w (pieces_bytes ps) (fold (append_piece len app) ps w)"
  using assms(3-5)
proof (induction ps arbitrary: w)
  case Nil
  then show ?case by (simp add: keeps_prefix_def pieces_bytes_def)
next
  case (Cons p ps)
  define b where "b = piece_bytes p"
  define w1 where "w1 = append_piece len app p w"
  have bs: "pieces_bytes (p # ps) = b @ pieces_bytes ps" by (simp add: pieces_bytes_def b_def)
  have 1: "keeps_prefix bytes w b w1"
    using append_piece_prefix [OF assms(1,2), of p w] Cons.prems bs by (simp add: b_def w1_def)
  have room: "room bytes w1 = room bytes w - length b" using 1 by (auto simp: keeps_prefix_def room_def)
  have len: "length (bytes (swl_str w1)) = length (bytes (swl_str w)) + min (room bytes w) (length b)"
    and tr: "unat (truncated_len w1) = unat (truncated_len w) + (length b - room bytes w)"
    using 1 by (simp_all add: keeps_prefix_def min.commute)
  have "keeps_prefix bytes w1 (pieces_bytes ps) (fold (append_piece len app) ps w1)"
  proof (rule Cons.IH)
    show "\<forall>p \<in> set ps. piece_ok p" using Cons.prems by simp
    show "length (bytes (swl_str w1)) + min (length (pieces_bytes ps)) (room bytes w1) < 2 ^ 32 - 1"
      using Cons.prems(2) bs len room by simp
    show "unat (truncated_len w1) + length (pieces_bytes ps) + 2 ^ 32 \<le> 2 ^ 64"
      using Cons.prems(3) bs tr by simp
  qed
  then show ?case using 1 bs room by (auto simp: keeps_prefix_def w1_def)
qed

section \<open>Balanced documents\<close>

text \<open>
  The values a client adds, one constructor per overload, and the dispatch to the overloads of the
  object and of the array guard.
\<close>

datatype jvalue =
    V_bool bool | V_ull ulonglong | V_int int | V_double "64 word" | V_cstr "uchar list"
  | V_len "uchar list" ulonglong | V_lex "uchar list" ulonglong | V_item nat | V_null

fun obj_add :: "writers \<Rightarrow> json_struct \<Rightarrow> uchar list \<Rightarrow> jvalue \<Rightarrow> (writers \<times> json_struct) option" where
  "obj_add h s n (V_bool b) = obj_add_bool h s n b"
| "obj_add h s n (V_ull v) = obj_add_ull h s n v"
| "obj_add h s n (V_int v) = obj_add_int h s n v"
| "obj_add h s n (V_double v) = obj_add_double h s n v"
| "obj_add h s n (V_cstr v) = obj_add_cstr h s n v"
| "obj_add h s n (V_len v l) = obj_add_len h s n v l"
| "obj_add h s n (V_lex v l) = obj_add_lex h s n (v, l)"
| "obj_add h s n (V_item v) = obj_add_item h s n v"
| "obj_add h s n V_null = obj_add_null h s n"

fun arr_add :: "writers \<Rightarrow> json_struct \<Rightarrow> jvalue \<Rightarrow> (writers \<times> json_struct) option" where
  "arr_add h s (V_bool b) = arr_add_bool h s b"
| "arr_add h s (V_ull v) = arr_add_ull h s v"
| "arr_add h s (V_int v) = arr_add_ll h s (of_int v)"
| "arr_add h s (V_double v) = arr_add_double h s v"
| "arr_add h s (V_cstr v) = arr_add_cstr h s v"
| "arr_add h s (V_len v l) = arr_add_len h s v l"
| "arr_add h s (V_lex v l) = arr_add_lex h s (v, l)"
| "arr_add h s (V_item v) = arr_add_item h s v"
| "arr_add h s V_null = arr_add_null h s"

text \<open>
  A block-structured client: it adds members to the innermost object, elements to the innermost
  array, and opens nested guards whose scope is a block. The last argument of a scope says whether
  the block calls \<open>end\<close> before the guard is destroyed.
\<close>

datatype stmt =
    Add_member "uchar list" jvalue
  | Add_table "nat"
  | Add_select uint
  | Add_element jvalue
  | Add_table_element nat
  | Obj_scope "uchar list option" "stmt list" bool
  | Arr_scope "uchar list option" "stmt list" bool

fun exec_stmt :: "nat option \<Rightarrow> stmt \<Rightarrow> writers \<times> json_struct \<Rightarrow> (writers \<times> json_struct) option"
  and exec :: "nat option \<Rightarrow> stmt list \<Rightarrow> writers \<times> json_struct \<Rightarrow> (writers \<times> json_struct) option" where
  "exec_stmt w (Add_member n v) (h, s) = obj_add h s n v"
| "exec_stmt w (Add_table t) (h, s) = obj_add_table_name h s t"
| "exec_stmt w (Add_select k) (h, s) = obj_add_select_number h s k"
| "exec_stmt w (Add_element v) (h, s) = arr_add h s v"
| "exec_stmt w (Add_table_element t) (h, s) = arr_add_table_name h s t"
| "exec_stmt w (Obj_scope n body e) (h, s) = do {
     r1 \<leftarrow> obj_new h w n;
     r2 \<leftarrow> exec w body r1;
     r3 \<leftarrow> (if e then obj_end (fst r2) (snd r2) else Some r2);
     r4 \<leftarrow> obj_delete (fst r3) (snd r3);
     Some (fst r4, s)
   }"
| "exec_stmt w (Arr_scope n body e) (h, s) = do {
     r1 \<leftarrow> arr_new h w n;
     r2 \<leftarrow> exec w body r1;
     r3 \<leftarrow> (if e then arr_end (fst r2) (snd r2) else Some r2);
     r4 \<leftarrow> arr_delete (fst r3) (snd r3);
     Some (fst r4, s)
   }"
| "exec w [] hs = Some hs"
| "exec w (p # ps) hs = do { hs' \<leftarrow> exec_stmt w p hs; exec w ps hs' }"

text \<open>The client respects the kind of the structure it writes into: members are named, elements are not.\<close>

fun well_placed :: "bool \<Rightarrow> stmt \<Rightarrow> bool" where
  "well_placed in_obj (Add_member n v) \<longleftrightarrow> in_obj"
| "well_placed in_obj (Add_table t) \<longleftrightarrow> in_obj"
| "well_placed in_obj (Add_select k) \<longleftrightarrow> in_obj"
| "well_placed in_obj (Add_element v) \<longleftrightarrow> \<not> in_obj"
| "well_placed in_obj (Add_table_element t) \<longleftrightarrow> \<not> in_obj"
| "well_placed in_obj (Obj_scope n body e) \<longleftrightarrow> (in_obj \<longleftrightarrow> n \<noteq> None) \<and> list_all (well_placed True) body"
| "well_placed in_obj (Arr_scope n body e) \<longleftrightarrow> (in_obj \<longleftrightarrow> n \<noteq> None) \<and> list_all (well_placed False) body"

text \<open>
  The grammar of the documents that a writer accepts, as a checker with the stack of open structures
  (true for an object) and the flag that a member name has just been given.
\<close>

fun is_value :: "wcall \<Rightarrow> bool" where
  "is_value (W_add_member n) \<longleftrightarrow> False"
| "is_value W_start_object \<longleftrightarrow> False"
| "is_value W_start_array \<longleftrightarrow> False"
| "is_value W_end_object \<longleftrightarrow> False"
| "is_value W_end_array \<longleftrightarrow> False"
| "is_value _ \<longleftrightarrow> True"

definition value_allowed :: "bool list \<Rightarrow> bool \<Rightarrow> bool" where
  "value_allowed stack named \<longleftrightarrow> (case stack of [] \<Rightarrow> False | in_obj # _ \<Rightarrow> named = in_obj)"

fun check1 :: "wcall \<Rightarrow> bool list \<times> bool \<Rightarrow> (bool list \<times> bool) option" where
  "check1 (W_add_member n) (stack, named) =
     (case stack of True # _ \<Rightarrow> if named then None else Some (stack, True) | _ \<Rightarrow> None)"
| "check1 W_start_object (stack, named) = (if value_allowed stack named then Some (True # stack, False) else None)"
| "check1 W_start_array (stack, named) = (if value_allowed stack named then Some (False # stack, False) else None)"
| "check1 W_end_object (stack, named) =
     (case stack of True # rest \<Rightarrow> if named then None else Some (rest, False) | _ \<Rightarrow> None)"
| "check1 W_end_array (stack, named) =
     (case stack of False # rest \<Rightarrow> if named then None else Some (rest, False) | _ \<Rightarrow> None)"
| "check1 c (stack, named) = (if value_allowed stack named then Some (stack, False) else None)"

fun check :: "wcall list \<Rightarrow> bool list \<times> bool \<Rightarrow> (bool list \<times> bool) option" where
  "check [] st = Some st"
| "check (c # cs) st = Option.bind (check1 c st) (check cs)"

text \<open>The calls that a statement is meant to make: those of the document it denotes.\<close>

fun obj_value_call :: "jvalue \<Rightarrow> wcall" where
  "obj_value_call (V_bool b) = W_add_bool b"
| "obj_value_call (V_ull v) = W_add_ull v"
| "obj_value_call (V_int v) = W_add_ll (of_int v)"
| "obj_value_call (V_double v) = W_add_double v"
| "obj_value_call (V_cstr v) = W_add_str v"
| "obj_value_call (V_len v l) = W_add_str_len v l"
| "obj_value_call (V_lex v l) = W_add_str_len v l"
| "obj_value_call (V_item v) = W_add_str_item v"
| "obj_value_call V_null = W_add_null"

fun arr_value_call :: "jvalue \<Rightarrow> wcall" where
  "arr_value_call (V_ull v) = W_add_ll v"
| "arr_value_call v = obj_value_call v"

definition name_calls :: "uchar list option \<Rightarrow> wcall list" where
  "name_calls n = (case n of None \<Rightarrow> [] | Some s \<Rightarrow> [W_add_member s])"

fun document :: "stmt \<Rightarrow> wcall list" where
  "document (Add_member n v) = [W_add_member n, obj_value_call v]"
| "document (Add_table t) = [W_add_member (bytes_of ''table''), W_add_table_name t]"
| "document (Add_select k) = [W_add_member (bytes_of ''select_id''),
     if k = FAKE_SELECT_LEX_ID then W_add_str (bytes_of ''fake'') else W_add_ll (ucast k)]"
| "document (Add_element v) = [arr_value_call v]"
| "document (Add_table_element t) = [W_add_table_name t]"
| "document (Obj_scope n body e) = name_calls n @ [W_start_object] @ concat (map document body) @ [W_end_object]"
| "document (Arr_scope n body e) = name_calls n @ [W_start_array] @ concat (map document body) @ [W_end_array]"

text \<open>Where a statement dereferences the writer without testing it.\<close>

fun untested :: "stmt \<Rightarrow> bool" where
  "untested (Add_member n (V_len v l)) \<longleftrightarrow> True"
| "untested (Obj_scope n body e) \<longleftrightarrow> list_ex untested body"
| "untested (Arr_scope n body e) \<longleftrightarrow> list_ex untested body"
| "untested _ \<longleftrightarrow> False"

lemmas guard_defs = wcall_def struct_new_def vh_init_def obj_add_member_def
  obj_new_def obj_delete_def obj_end_def arr_new_def arr_delete_def arr_end_def Let_def
lemmas value_defs =
  vh_add_str_def vh_add_str_len_def vh_add_item_def vh_add_ll_def vh_add_double_def vh_add_bool_def
  vh_add_null_def vh_add_table_name_def
  obj_add_bool_def obj_add_ull_def obj_add_int_def obj_add_double_def obj_add_cstr_def obj_add_len_def
  obj_add_lex_def obj_add_item_def obj_add_null_def obj_add_table_name_def obj_add_select_number_def
  arr_add_bool_def arr_add_ull_def arr_add_ll_def arr_add_double_def arr_add_cstr_def arr_add_len_def
  arr_add_lex_def arr_add_item_def arr_add_null_def arr_add_table_name_def

text \<open>A guard that is open on the writer \<open>w\<close>.\<close>

definition guard_on :: "nat option \<Rightarrow> json_struct \<Rightarrow> bool" where
  "guard_on w s \<longleftrightarrow> my_writer s = w \<and> vh_writer (struct_context s) = w \<and> \<not> struct_closed s"

lemma guard_on_new: "guard_on w (struct_new w)"
  by (simp add: guard_on_def struct_new_def vh_init_def)

lemma add_calls:
  assumes "guard_on (Some a) s"
  shows "obj_add h s n v = Some (h(a := h a @ [W_add_member n, obj_value_call v]), s)"
    and "arr_add h s v = Some (h(a := h a @ [arr_value_call v]), s)"
  using assms by (cases v; simp add: guard_on_def guard_defs value_defs)+

lemma add_ignored:
  assumes "guard_on None s"
  shows "obj_add h s n v = (if \<exists>x l. v = V_len x l then None else Some (h, s))"
    and "arr_add h s v = Some (h, s)"
  using assms by (cases v; simp add: guard_on_def guard_defs value_defs)+

lemma new_calls:
  "obj_new h (Some a) n = Some (h(a := h a @ name_calls n @ [W_start_object]), struct_new (Some a))"
  "arr_new h (Some a) n = Some (h(a := h a @ name_calls n @ [W_start_array]), struct_new (Some a))"
  by (cases n; simp add: guard_defs name_calls_def)+

lemma close_calls:
  assumes "guard_on (Some a) s"
  shows "obj_end h s = Some (h(a := h a @ [W_end_object]), s\<lparr>struct_closed := True\<rparr>)"
    and "arr_end h s = Some (h(a := h a @ [W_end_array]), s\<lparr>struct_closed := True\<rparr>)"
    and "obj_delete h s = Some (h(a := h a @ [W_end_object]), s\<lparr>struct_closed := True\<rparr>)"
    and "arr_delete h s = Some (h(a := h a @ [W_end_array]), s\<lparr>struct_closed := True\<rparr>)"
    and "obj_delete h (s\<lparr>struct_closed := True\<rparr>) = Some (h, s\<lparr>struct_closed := True\<rparr>)"
    and "arr_delete h (s\<lparr>struct_closed := True\<rparr>) = Some (h, s\<lparr>struct_closed := True\<rparr>)"
  using assms by (simp_all add: guard_on_def guard_defs)

lemma named_add_calls:
  assumes "guard_on (Some a) s"
  shows "obj_add_table_name h s t = Some (h(a := h a @ document (Add_table t)), s)"
    and "obj_add_select_number h s k = Some (h(a := h a @ document (Add_select k)), s)"
    and "arr_add_table_name h s t = Some (h(a := h a @ document (Add_table_element t)), s)"
  using assms by (simp_all add: guard_on_def guard_defs value_defs)

lemma ignored_calls:
  assumes "guard_on None s"
  shows "obj_new h None n = Some (h, struct_new None)" and "arr_new h None n = Some (h, struct_new None)"
    and "obj_end h s = Some (h, s\<lparr>struct_closed := True\<rparr>)" and "arr_end h s = Some (h, s\<lparr>struct_closed := True\<rparr>)"
    and "obj_delete h s = Some (h, s\<lparr>struct_closed := True\<rparr>)" and "arr_delete h s = Some (h, s)"
    and "obj_delete h (s\<lparr>struct_closed := True\<rparr>) = Some (h, s\<lparr>struct_closed := True\<rparr>)"
    and "arr_delete h (s\<lparr>struct_closed := True\<rparr>) = Some (h, s\<lparr>struct_closed := True\<rparr>)"
    and "obj_add_table_name h s t = Some (h, s)" and "obj_add_select_number h s k = Some (h, s)"
    and "arr_add_table_name h s t = Some (h, s)"
  using assms by (simp_all add: guard_on_def guard_defs value_defs)

lemmas closing = close_calls [OF guard_on_new] ignored_calls [OF guard_on_new]

lemma untested_member: "untested (Add_member n v) \<longleftrightarrow> (\<exists>x l. v = V_len x l)"
  by (cases v) simp_all

lemma exec_document:
  "guard_on (Some a) s \<Longrightarrow> exec_stmt (Some a) p (h, s) = Some (h(a := h a @ document p), s)"
  "guard_on (Some a) s \<Longrightarrow> exec (Some a) ps (h, s) = Some (h(a := h a @ concat (map document ps)), s)"
proof (induction "Some a" p "(h, s)" and "Some a" ps "(h, s)" arbitrary: h s and h s rule: exec_stmt_exec.induct)
qed (simp_all add: add_calls new_calls closing named_add_calls guard_on_new del: document.simps(2,3,5))

lemma exec_ignored:
  "guard_on None s \<Longrightarrow> exec_stmt None p (h, s) = (if untested p then None else Some (h, s))"
  "guard_on None s \<Longrightarrow> exec None ps (h, s) = (if list_ex untested ps then None else Some (h, s))"
proof (induction "None :: nat option" p "(h, s)" and "None :: nat option" ps "(h, s)" arbitrary: h s and h s rule: exec_stmt_exec.induct)
  case (1 n v h s)
  then show ?case by (simp only: exec_stmt.simps add_ignored untested_member)
next
  case (6 n body e h s)
  then show ?case by (cases e) (auto simp: closing guard_on_new)
next
  case (7 n body e h s)
  then show ?case by (cases e) (auto simp: closing guard_on_new)
qed (simp_all add: add_ignored ignored_calls)

lemma check_append: "check (xs @ ys) st = Option.bind (check xs st) (check ys)"
  by (induction xs arbitrary: st) (auto split: Option.bind_split)

lemma check_value: "is_value c \<Longrightarrow> value_allowed stack named \<Longrightarrow> check1 c (stack, named) = Some (stack, False)"
  by (cases c) simp_all

lemma value_calls: "is_value (obj_value_call v)" "is_value (arr_value_call v)"
  by (cases v; simp)+

lemma check_name: "in_obj = (n \<noteq> None) \<Longrightarrow> check (name_calls n) (in_obj # stack, False) = Some (in_obj # stack, in_obj)"
  by (cases n) (simp_all add: name_calls_def)

lemma check_document:
  "well_placed in_obj p \<Longrightarrow> check (document p) (in_obj # stack, False) = Some (in_obj # stack, False)"
proof (induction p arbitrary: in_obj stack)
  case (Obj_scope n body e)
  have "check (concat (map document ps)) (True # st, False) = Some (True # st, False)" if "set ps \<subseteq> set body" for ps st
    using that Obj_scope by (induction ps) (auto simp: check_append list_all_iff)
  then show ?case using Obj_scope.prems by (simp add: check_append check_name value_allowed_def)
next
  case (Arr_scope n body e)
  have "check (concat (map document ps)) (False # st, False) = Some (False # st, False)" if "set ps \<subseteq> set body" for ps st
    using that Arr_scope by (induction ps) (auto simp: check_append list_all_iff)
  then show ?case using Arr_scope.prems by (simp add: check_append check_name value_allowed_def)
qed (simp_all add: check_value value_calls value_allowed_def)

text \<open>C13: A client that nests guards by block and names exactly the members of objects gives the writer a
  well-formed document, whether its blocks call \<open>end\<close> or leave the closing to the destructor: every structure that is
  opened is closed once, in the order of nesting, names and values alternate inside objects and no
  name stands inside an array. No other writer receives a call.\<close>

theorem json_guards_balanced:
  assumes "guard_on (Some a) s" and "list_all (well_placed in_obj) ps"
  shows "\<exists>doc. exec (Some a) ps (h, s) = Some (h(a := h a @ doc), s) \<and>
     doc = concat (map document ps) \<and> check doc (in_obj # stack, False) = Some (in_obj # stack, False)"
proof -
  have "check (concat (map document ps)) (in_obj # stack, False) = Some (in_obj # stack, False)"
    using assms(2) by (induction ps) (auto simp: check_append check_document)
  then show ?thesis using exec_document(2) [OF assms(1), of ps h] by auto
qed

text \<open>With a null writer a client's calls do nothing, as the comment of the guards promises, except for one: a client that
  reaches the overload of \<open>Json_writer_object::add\<close> with a length dereferences the null pointer.\<close>

theorem json_ignore_mode:
  assumes "guard_on None s"
  shows "exec None ps (h, s) = (if list_ex untested ps then None else Some (h, s))"
  using exec_ignored(2) [OF assms] .

text \<open>The number that a call hands to the writer.\<close>

fun written_number :: "wcall \<Rightarrow> int option" where
  "written_number (W_add_ll v) = Some (sint v)"
| "written_number (W_add_ull v) = Some (uint v)"
| "written_number _ = None"

text \<open>An \<open>ulonglong\<close> is written as it is into an object, and into an array as the signed number with
  the same bits, which is another number from \<open>2 ^ 63\<close> on.\<close>

lemma unat_lt_63: "uint (v :: ulonglong) < 9223372036854775808 \<longleftrightarrow> unat v < 9223372036854775808"
  using uint_nat [of v] by linarith

lemma array_ulonglong_sign:
  "written_number (obj_value_call (V_ull v)) = Some (uint v) \<and>
   (written_number (arr_value_call (V_ull v)) = Some (uint v) \<longleftrightarrow> unat v < 2 ^ 63)"
  by (auto simp: sint_uint_64 unat_lt_63)

section \<open>Examples\<close>

text \<open>A string that is its contents and whose appends succeed.\<close>

definition list_append :: "uchar list \<Rightarrow> uchar list \<Rightarrow> uchar list \<times> bool" where
  "list_append s b = (s @ b, False)"

definition list_len :: "uchar list \<Rightarrow> uint32" where
  "list_len s = of_nat (length s)"

lemma list_string_law: "string_law list_len list_append (\<lambda>s. s)"
  by (simp add: string_law_def list_len_def list_append_def)

theorem string_with_limit_prefix_witness:
  "swl_str (fold (append_piece list_len list_append) [Cstr [1, 2, 0, 9], Chr 3, Block [4, 5, 6] 2]
     (set_size_limit (swl_new []) 4)) = [1, 2, 3, 4] \<and>
   get_truncated_bytes (fold (append_piece list_len list_append) [Cstr [1, 2, 0, 9], Chr 3, Block [4, 5, 6] 2]
     (set_size_limit (swl_new []) 4)) = 1"
proof -
  let ?w = "set_size_limit (swl_new ([] :: uchar list)) 4"
  let ?ps = "[Cstr [1, 2, 0, 9], Chr 3, Block [4, 5, 6] 2]"
  have "keeps_prefix (\<lambda>s. s) ?w (pieces_bytes ?ps) (fold (append_piece list_len list_append) ?ps ?w)"
    by (rule string_with_limit_prefix [OF list_string_law])
      (simp_all add: list_append_def pieces_bytes_def set_size_limit_def swl_new_def room_def)
  moreover have "pieces_bytes ?ps = [1, 2, 3, 4, 5]" by (simp add: pieces_bytes_def)
  ultimately show ?thesis
    by (simp add: keeps_prefix_def room_def set_size_limit_def swl_new_def get_truncated_bytes_def word_unat_eq_iff)
qed

definition demo_client :: "stmt list" where
  "demo_client = [Obj_scope (Some [97]) [Add_member [98] (V_ull 7),
     Arr_scope (Some [99]) [Add_element (V_bool True), Obj_scope None [Add_table 5] True] False] False]"

theorem json_guards_balanced_witness:
  "exec (Some 1) demo_client (\<lambda>_. [], struct_new (Some 1)) =
     Some ((\<lambda>_. [])(1 := concat (map document demo_client)), struct_new (Some 1)) \<and>
   check (concat (map document demo_client)) ([True], False) = Some ([True], False)"
proof -
  have "list_all (well_placed True) demo_client" by (simp add: demo_client_def)
  from json_guards_balanced [OF guard_on_new this, of 1 "\<lambda>_. []" "[]"] show ?thesis by auto
qed

theorem json_ignore_mode_witness:
  "exec None demo_client (\<lambda>_. [], struct_new None) = Some (\<lambda>_. [], struct_new None) \<and>
   exec None [Add_member [98] (V_len [104, 105] 2)] (\<lambda>_. [], struct_new None) = None"
  using json_ignore_mode [OF guard_on_new, of demo_client "\<lambda>_. []"]
    json_ignore_mode [OF guard_on_new, of "[Add_member [98] (V_len [104, 105] 2)]" "\<lambda>_. []"]
  by (simp add: demo_client_def)

end
