(* ===== verification/Diagnostics.thy ===== *)
theory Diagnostics
  imports Temporal Sql_Plist "HOL-Library.Monad_Syntax"
begin

text \<open>
  The diagnostics area of a connection (\<^verbatim>\<open>sql_error.h\<close>): SQL states and the classification of
  conditions, the warning information with its counters, and the stack of warning informations,
  which is an \<open>I_P_List\<close> and uses the list operations of \<open>Sql_Plist\<close> on their heap.

  A character array is its list of bytes, a \<open>String\<close> its contents. Conditions and warning informations are given by their
  addresses. The methods of \<open>Warning_info\<close> that \<^verbatim>\<open>sql_error.cc\<close> defines (clearing, pushing and removing
  conditions) are arguments. The result \<open>None\<close> is an access through a null pointer or past the
  end of an array.
\<close>

section \<open>SQL states\<close>

(* @mysql_com.h 66-66 SQLSTATE_LENGTH *)
definition SQLSTATE_LENGTH :: nat where "SQLSTATE_LENGTH = 5"

(* @sql_error.h 34-40 Sql_state *)
record sql_state =
  m_sqlstate :: "uchar list"

(* @sql_error.h 42-45 Sql_state::Sql_state *)
definition sql_state_new :: sql_state where
  "sql_state_new = \<lparr>m_sqlstate = replicate (SQLSTATE_LENGTH + 1) 0\<rparr>"

(* @sql_error.h 59-63 Sql_state::set_sqlstate(const char ptr) *)
definition set_sqlstate :: "'a sql_state_scheme \<Rightarrow> uchar list \<Rightarrow> 'a sql_state_scheme option" where
  "set_sqlstate s str =
     (if length str < SQLSTATE_LENGTH then None
      else Some (s\<lparr>m_sqlstate := (take SQLSTATE_LENGTH str @ drop SQLSTATE_LENGTH (m_sqlstate s))[SQLSTATE_LENGTH := 0]\<rparr>))"

(* @sql_error.h 47-50 Sql_state::Sql_state(const char ptr) *)
definition sql_state_of :: "uchar list \<Rightarrow> sql_state option" where
  "sql_state_of str = set_sqlstate sql_state_new str"

(* @sql_error.h 55-58 Sql_state::set_sqlstate(const Sql_state ptr) *)
definition set_sqlstate_from :: "'a sql_state_scheme \<Rightarrow> 'b sql_state_scheme \<Rightarrow> 'a sql_state_scheme" where
  "set_sqlstate_from s other = s\<lparr>m_sqlstate := m_sqlstate other\<rparr>"

(* @sql_error.h 64-67 Sql_state::eq *)
definition sql_state_eq :: "'a sql_state_scheme \<Rightarrow> 'b sql_state_scheme \<Rightarrow> bool" where
  "sql_state_eq s other \<longleftrightarrow>
     takeWhile (\<lambda>c. c \<noteq> 0) (m_sqlstate s) = takeWhile (\<lambda>c. c \<noteq> 0) (m_sqlstate other)"

(* @sql_error.h 69-69 Sql_state::has_sql_state *)
definition has_sql_state :: "'a sql_state_scheme \<Rightarrow> bool" where
  "has_sql_state s \<longleftrightarrow> m_sqlstate s ! 0 \<noteq> 0"

text \<open>The characters \<open>'0'\<close>, \<open>'1'\<close> and \<open>'2'\<close> are 48, 49 and 50; \<open>char\<close> is signed.\<close>

(* @sql_error.h 78-79 Sql_state::is_warning *)
definition is_warning :: "'a sql_state_scheme \<Rightarrow> bool" where
  "is_warning s \<longleftrightarrow> m_sqlstate s ! 0 = 48 \<and> m_sqlstate s ! 1 = 49"

(* @sql_error.h 89-90 Sql_state::is_not_found *)
definition is_not_found :: "'a sql_state_scheme \<Rightarrow> bool" where
  "is_not_found s \<longleftrightarrow> m_sqlstate s ! 0 = 48 \<and> m_sqlstate s ! 1 = 50"

(* @sql_error.h 100-101 Sql_state::is_exception *)
definition is_exception :: "'a sql_state_scheme \<Rightarrow> bool" where
  "is_exception s \<longleftrightarrow> m_sqlstate s ! 0 \<noteq> 48 \<or> sint (m_sqlstate s ! 1) > sint (50 :: uchar)"

(* @sql_error.h 1298-1299 is_sqlstate_completion *)
definition is_sqlstate_completion :: "uchar list \<Rightarrow> bool" where
  "is_sqlstate_completion s \<longleftrightarrow> s ! 0 = 48 \<and> s ! 1 = 48"

section \<open>Conditions\<close>

(* @sql_error.h 106-114 Sql_state_errno *)
record sql_state_errno = sql_state +
  m_sql_errno :: uint

(* @sql_error.h 117-119 Sql_state_errno::Sql_state_errno *)
definition sse_new :: sql_state_errno where
  "sse_new = sql_state.extend sql_state_new (sql_state_errno.fields 0)"

(* @sql_error.h 123-126 Sql_state_errno::Sql_state_errno(uint, const char ptr) *)
definition sse_of :: "uint \<Rightarrow> uchar list \<Rightarrow> sql_state_errno option" where
  "sse_of sql_errno str = do { s \<leftarrow> sql_state_of str; Some (sql_state.extend s (sql_state_errno.fields sql_errno)) }"

(* @sql_error.h 134-138 Sql_state_errno::set *)
definition sse_set :: "'a sql_state_errno_scheme \<Rightarrow> uint \<Rightarrow> uchar list \<Rightarrow> 'a sql_state_errno_scheme option" where
  "sse_set s sql_errno str = set_sqlstate (s\<lparr>m_sql_errno := sql_errno\<rparr>) str"

(* @sql_error.h 139-142 Sql_state_errno::clear *)
definition sse_clear :: "'a sql_state_errno_scheme \<Rightarrow> 'a sql_state_errno_scheme" where
  "sse_clear s = s\<lparr>m_sql_errno := 0\<rparr>"

(* @sql_error.h 155-156 Sql_state_errno_level::enum_warning_level *)
datatype warning_level = WARN_LEVEL_NOTE | WARN_LEVEL_WARN | WARN_LEVEL_ERROR

text \<open>The identity of a condition adds the level and the user-defined condition, an address.\<close>

(* @sql_error.h 146-160 Sql_state_errno_level *)
record condition_identity = sql_state_errno +
  m_level :: warning_level
  m_user_condition_value :: "nat option"

(* @sql_error.h 261-267 Sql_condition_identity::Sql_condition_identity(uint, const char ptr, enum_warning_level, const Sql_user_condition_identity ref) *)
definition identity_of :: "uint \<Rightarrow> uchar list \<Rightarrow> warning_level \<Rightarrow> nat option \<Rightarrow> condition_identity option" where
  "identity_of sqlerrno str level ucid = do {
     s \<leftarrow> sse_of sqlerrno str;
     Some (sql_state_errno.extend s (condition_identity.fields level ucid))
   }"

(* @sql_error.h 255-260 Sql_condition_identity::Sql_condition_identity(const Sql_state_errno ref, enum_warning_level, const Sql_user_condition_identity ref) *)
definition identity_of_errno :: "sql_state_errno \<Rightarrow> warning_level \<Rightarrow> nat option \<Rightarrow> condition_identity" where
  "identity_of_errno st level ucid = sql_state_errno.extend st (condition_identity.fields level ucid)"

(* @sql_error.h 186-190 Sql_state_errno_level::clear *)
definition level_clear :: "'a condition_identity_scheme \<Rightarrow> 'a condition_identity_scheme" where
  "level_clear s = sse_clear (s\<lparr>m_level := WARN_LEVEL_ERROR\<rparr>)"

(* @sql_error.h 230-233 Sql_user_condition_identity::clear *)
definition user_condition_clear :: "'a condition_identity_scheme \<Rightarrow> 'a condition_identity_scheme" where
  "user_condition_clear s = s\<lparr>m_user_condition_value := None\<rparr>"

(* @sql_error.h 268-272 Sql_condition_identity::clear *)
definition identity_clear :: "'a condition_identity_scheme \<Rightarrow> 'a condition_identity_scheme" where
  "identity_clear s = user_condition_clear (level_clear s)"

(* @sql_error.h 276-310 Sql_condition_items *)
record condition_items =
  m_class_origin :: "uchar list"
  m_subclass_origin :: "uchar list"
  m_constraint_catalog :: "uchar list"
  m_constraint_schema :: "uchar list"
  m_constraint_name :: "uchar list"
  m_catalog_name :: "uchar list"
  m_schema_name :: "uchar list"
  m_table_name :: "uchar list"
  m_column_name :: "uchar list"
  m_cursor_name :: "uchar list"
  m_row_number :: uint32

(* @sql_error.h 312-324 Sql_condition_items::Sql_condition_items *)
definition items_new :: condition_items where
  "items_new = \<lparr>m_class_origin = [], m_subclass_origin = [], m_constraint_catalog = [], m_constraint_schema = [],
     m_constraint_name = [], m_catalog_name = [], m_schema_name = [], m_table_name = [], m_column_name = [],
     m_cursor_name = [], m_row_number = 0\<rparr>"

(* @sql_error.h 326-339 Sql_condition_items::clear *)
definition items_clear :: "condition_items \<Rightarrow> condition_items" where
  "items_clear s = s\<lparr>m_class_origin := [], m_subclass_origin := [], m_constraint_catalog := [],
     m_constraint_schema := [], m_constraint_name := [], m_catalog_name := [], m_schema_name := [],
     m_table_name := [], m_column_name := [], m_cursor_name := [], m_row_number := 0\<rparr>"

(* @sql_error.h 348-350 Sql_condition *)
record sql_condition = condition_identity +
  cond_items :: condition_items
  m_message_text :: "uchar list"

text \<open>The message text is converted by \<open>set_builtin_message_text\<close>, an argument.\<close>

(* @sql_error.h 442-450 Sql_condition::Sql_condition(MEM_ROOT ptr, const Sql_condition_identity ref, const char ptr, ulong) *)
definition condition_new :: "(uchar list \<Rightarrow> uchar list) \<Rightarrow> condition_identity \<Rightarrow> uchar list \<Rightarrow> uint32 \<Rightarrow> sql_condition" where
  "condition_new set_builtin_message_text v msg current_row_for_warning =
     condition_identity.extend v
       (sql_condition.fields (items_new\<lparr>m_row_number := current_row_for_warning\<rparr>) (set_builtin_message_text msg))"

(* @sql_error.h 486-491 Sql_condition::clear *)
definition condition_clear :: "sql_condition \<Rightarrow> sql_condition" where
  "condition_clear s =
     (let s1 = identity_clear s in s1\<lparr>cond_items := items_clear (cond_items s1), m_message_text := []\<rparr>)"

(* @sql_error.h 358-362 Sql_condition::time_warn_level *)
definition time_warn_level :: "int \<Rightarrow> warning_level" where
  "time_warn_level warnings = (if have_warnings warnings then WARN_LEVEL_WARN else WARN_LEVEL_NOTE)"

section \<open>Warning information\<close>

(* @sql_error.h 510-574 Warning_info *)
record warning_info =
  m_warn_list :: "nat list"
  m_warn_count :: "warning_level \<Rightarrow> uint"
  m_current_statement_warn_count :: uint
  m_current_row_for_warning :: uint32
  m_warn_id :: ulonglong
  m_error_condition :: "nat option"
  m_allow_unlimited_warnings :: bool
  wi_initialized :: bool
  m_read_only :: bool
  m_marked_sql_conditions :: "nat list"

text \<open>\<open>clear\<close> is \<open>Warning_info::clear\<close>.\<close>

(* @sql_error.h 620-624 Warning_info::opt_clear *)
definition wi_opt_clear :: "(ulonglong \<Rightarrow> warning_info \<Rightarrow> warning_info) \<Rightarrow> ulonglong \<Rightarrow> warning_info \<Rightarrow> warning_info" where
  "wi_opt_clear clear query_id w = (if query_id \<noteq> m_warn_id w then clear query_id w else w)"

(* @sql_error.h 642-643 Warning_info::reset_for_next_command *)
definition wi_reset_for_next_command :: "warning_info \<Rightarrow> warning_info" where
  "wi_reset_for_next_command w = w\<lparr>m_current_statement_warn_count := 0\<rparr>"

(* @sql_error.h 655-656 Warning_info::unmark_sql_conditions_from_removal *)
definition wi_unmark :: "warning_info \<Rightarrow> warning_info" where
  "wi_unmark w = w\<lparr>m_marked_sql_conditions := []\<rparr>"

text \<open>\<open>alloc\<close> says whether the list node could be allocated; the result of \<open>push_back\<close> is ignored.\<close>

(* @sql_error.h 680-681 Warning_info::mark_condition_for_removal *)
definition wi_mark_condition :: "bool \<Rightarrow> nat \<Rightarrow> warning_info \<Rightarrow> warning_info" where
  "wi_mark_condition alloc cond w =
     (if alloc then w\<lparr>m_marked_sql_conditions := m_marked_sql_conditions w @ [cond]\<rparr> else w)"

(* @sql_error.h 687-696 Warning_info::warn_count *)
definition wi_warn_count :: "warning_info \<Rightarrow> uint" where
  "wi_warn_count w = m_warn_count w WARN_LEVEL_NOTE + m_warn_count w WARN_LEVEL_ERROR + m_warn_count w WARN_LEVEL_WARN"

(* @sql_error.h 702-703 Warning_info::error_count *)
definition wi_error_count :: "warning_info \<Rightarrow> uint" where
  "wi_error_count w = m_warn_count w WARN_LEVEL_ERROR"

(* @sql_error.h 708-711 Warning_info::cond_count *)
definition wi_cond_count :: "warning_info \<Rightarrow> uint" where
  "wi_cond_count w = of_nat (length (m_warn_list w))"

(* @sql_error.h 717-717 Warning_info::id *)
definition wi_set_id :: "ulonglong \<Rightarrow> warning_info \<Rightarrow> warning_info" where
  "wi_set_id id_arg w = w\<lparr>m_warn_id := id_arg\<rparr>"

(* @sql_error.h 720-720 Warning_info::is_empty *)
definition wi_is_empty :: "warning_info \<Rightarrow> bool" where
  "wi_is_empty w \<longleftrightarrow> m_warn_list w = []"

(* @sql_error.h 723-723 Warning_info::inc_current_row_for_warning *)
definition wi_inc_row :: "warning_info \<Rightarrow> warning_info" where
  "wi_inc_row w = w\<lparr>m_current_row_for_warning := m_current_row_for_warning w + 1\<rparr>"

(* @sql_error.h 726-726 Warning_info::reset_current_row_for_warning *)
definition wi_reset_row :: "32 word \<Rightarrow> warning_info \<Rightarrow> warning_info" where
  "wi_reset_row n w = w\<lparr>m_current_row_for_warning := n\<rparr>"

(* @sql_error.h 773-774 Warning_info::set_read_only *)
definition wi_set_read_only :: "bool \<Rightarrow> warning_info \<Rightarrow> warning_info" where
  "wi_set_read_only b w = w\<lparr>m_read_only := b\<rparr>"

(* @sql_error.h 797-798 Warning_info::set_error_condition *)
definition wi_set_error_condition :: "nat option \<Rightarrow> warning_info \<Rightarrow> warning_info" where
  "wi_set_error_condition c w = w\<lparr>m_error_condition := c\<rparr>"

(* @sql_error.h 806-807 Warning_info::clear_error_condition *)
definition wi_clear_error_condition :: "warning_info \<Rightarrow> warning_info" where
  "wi_clear_error_condition w = w\<lparr>m_error_condition := None\<rparr>"

section \<open>The diagnostics area\<close>

(* @sql_error.h 965-981 Diagnostics_area::enum_diagnostics_status *)
datatype da_status = DA_EMPTY | DA_OK | DA_EOF | DA_OK_BULK | DA_EOF_BULK | DA_ERROR | DA_DISABLED

text \<open>The area with the objects it refers to: the warning informations by address and the links of the
  stack, the \<open>I_P_List\<close> with address 0.\<close>

(* @sql_error.h 1222-1267 Diagnostics_area *)
record diagnostics_area =
  da_state :: sql_state_errno
  da_user_condition :: "nat option"
  m_is_sent :: bool
  m_can_overwrite_status :: bool
  m_message :: "uchar list"
  m_affected_rows :: ulonglong
  m_last_insert_id :: ulonglong
  m_statement_warn_count :: uint
  m_status :: da_status
  is_bulk_execution :: bool
  wi_objects :: "nat \<Rightarrow> warning_info"
  wi_links :: pheap

(* @sql_error.h 983-984 Diagnostics_area::set_overwrite_status *)
definition set_overwrite_status :: "diagnostics_area \<Rightarrow> bool \<Rightarrow> diagnostics_area" where
  "set_overwrite_status da b = da\<lparr>m_can_overwrite_status := b\<rparr>"

(* @sql_error.h 989-989 Diagnostics_area::set_is_sent *)
definition set_is_sent :: "diagnostics_area \<Rightarrow> bool \<Rightarrow> diagnostics_area" where
  "set_is_sent da b = da\<lparr>m_is_sent := b\<rparr>"

(* @sql_error.h 1019-1019 Diagnostics_area::is_set *)
definition da_is_set :: "diagnostics_area \<Rightarrow> bool" where
  "da_is_set da \<longleftrightarrow> m_status da \<noteq> DA_EMPTY"

(* @sql_error.h 1021-1021 Diagnostics_area::is_error *)
definition da_is_error :: "diagnostics_area \<Rightarrow> bool" where
  "da_is_error da \<longleftrightarrow> m_status da = DA_ERROR"

(* @sql_error.h 1023-1023 Diagnostics_area::is_eof *)
definition da_is_eof :: "diagnostics_area \<Rightarrow> bool" where
  "da_is_eof da \<longleftrightarrow> m_status da = DA_EOF"

(* @sql_error.h 1025-1025 Diagnostics_area::is_ok *)
definition da_is_ok :: "diagnostics_area \<Rightarrow> bool" where
  "da_is_ok da \<longleftrightarrow> m_status da = DA_OK"

(* @sql_error.h 1029-1029 Diagnostics_area::set_bulk_execution *)
definition set_bulk_execution :: "diagnostics_area \<Rightarrow> bool \<Rightarrow> diagnostics_area" where
  "set_bulk_execution da bulk = da\<lparr>is_bulk_execution := bulk\<rparr>"

(* @sql_error.h 1075-1081 Diagnostics_area::get_error_condition_identity *)
definition get_error_condition_identity :: "diagnostics_area \<Rightarrow> condition_identity" where
  "get_error_condition_identity da = identity_of_errno (da_state da) WARN_LEVEL_ERROR (da_user_condition da)"

(* @sql_error.h 1084-1088 Diagnostics_area::increment_warning *)
definition increment_warning :: "diagnostics_area \<Rightarrow> diagnostics_area" where
  "increment_warning da =
     (if m_status da \<noteq> DA_EMPTY then da\<lparr>m_statement_warn_count := m_statement_warn_count da + 1\<rparr> else da)"

(* @sql_error.h 1096-1097 Diagnostics_area::push_warning_info *)
definition push_warning_info :: "diagnostics_area \<Rightarrow> nat \<Rightarrow> diagnostics_area" where
  "push_warning_info da wi = da\<lparr>wi_links := ipl_push_front (wi_links da) 0 wi\<rparr>"

(* @sql_error.h 1218-1218 Diagnostics_area::get_warning_info *)
definition get_warning_info :: "diagnostics_area \<Rightarrow> nat option" where
  "get_warning_info da = ipl_front (wi_links da) 0"

(* @sql_error.h 1099-1103 Diagnostics_area::pop_warning_info *)
definition pop_warning_info :: "diagnostics_area \<Rightarrow> diagnostics_area option" where
  "pop_warning_info da =
     (case ipl_front (wi_links da) 0 of None \<Rightarrow> None
      | Some wi \<Rightarrow> Some (da\<lparr>wi_links := ipl_remove (wi_links da) 0 wi\<rparr>))"

text \<open>A call of a method through \<open>get_warning_info()\<close>.\<close>

definition on_warning_info :: "(warning_info \<Rightarrow> warning_info) \<Rightarrow> diagnostics_area \<Rightarrow> diagnostics_area option" where
  "on_warning_info f da =
     (case get_warning_info da of None \<Rightarrow> None
      | Some wi \<Rightarrow> Some (da\<lparr>wi_objects := (wi_objects da)(wi := f (wi_objects da wi))\<rparr>))"

definition of_warning_info :: "(warning_info \<Rightarrow> 'a) \<Rightarrow> diagnostics_area \<Rightarrow> 'a option" where
  "of_warning_info f da = map_option (\<lambda>wi. f (wi_objects da wi)) (get_warning_info da)"

(* @sql_error.h 1105-1106 Diagnostics_area::set_warning_info_id *)
definition set_warning_info_id :: "ulonglong \<Rightarrow> diagnostics_area \<Rightarrow> diagnostics_area option" where
  "set_warning_info_id i = on_warning_info (wi_set_id i)"

(* @sql_error.h 1108-1109 Diagnostics_area::warning_info_id *)
definition warning_info_id :: "diagnostics_area \<Rightarrow> ulonglong option" where
  "warning_info_id = of_warning_info m_warn_id"

(* @sql_error.h 1121-1122 Diagnostics_area::warning_info_changed *)
definition warning_info_changed :: "diagnostics_area \<Rightarrow> nat \<Rightarrow> bool option" where
  "warning_info_changed da wi = of_warning_info (\<lambda>w. m_warn_id w \<noteq> m_warn_id (wi_objects da wi)) da"

(* @sql_error.h 1124-1125 Diagnostics_area::is_warning_info_empty *)
definition is_warning_info_empty :: "diagnostics_area \<Rightarrow> bool option" where
  "is_warning_info_empty = of_warning_info wi_is_empty"

(* @sql_error.h 1127-1128 Diagnostics_area::current_statement_warn_count *)
definition current_statement_warn_count :: "diagnostics_area \<Rightarrow> uint option" where
  "current_statement_warn_count = of_warning_info m_current_statement_warn_count"

(* @sql_error.h 1133-1134 Diagnostics_area::reset_for_next_command *)
definition reset_for_next_command :: "diagnostics_area \<Rightarrow> diagnostics_area option" where
  "reset_for_next_command = on_warning_info wi_reset_for_next_command"

(* @sql_error.h 1136-1137 Diagnostics_area::clear_warning_info *)
definition clear_warning_info ::
  "(ulonglong \<Rightarrow> warning_info \<Rightarrow> warning_info) \<Rightarrow> ulonglong \<Rightarrow> diagnostics_area \<Rightarrow> diagnostics_area option" where
  "clear_warning_info clear i = on_warning_info (clear i)"

(* @sql_error.h 1139-1140 Diagnostics_area::opt_clear_warning_info *)
definition opt_clear_warning_info ::
  "(ulonglong \<Rightarrow> warning_info \<Rightarrow> warning_info) \<Rightarrow> ulonglong \<Rightarrow> diagnostics_area \<Rightarrow> diagnostics_area option" where
  "opt_clear_warning_info clear query_id = on_warning_info (wi_opt_clear clear query_id)"

(* @sql_error.h 1145-1146 Diagnostics_area::inc_current_row_for_warning *)
definition inc_current_row_for_warning :: "diagnostics_area \<Rightarrow> diagnostics_area option" where
  "inc_current_row_for_warning = on_warning_info wi_inc_row"

(* @sql_error.h 1148-1149 Diagnostics_area::reset_current_row_for_warning *)
definition reset_current_row_for_warning :: "32 word \<Rightarrow> diagnostics_area \<Rightarrow> diagnostics_area option" where
  "reset_current_row_for_warning n = on_warning_info (wi_reset_row n)"

(* @sql_error.h 1154-1155 Diagnostics_area::set_warning_info_read_only *)
definition set_warning_info_read_only :: "bool \<Rightarrow> diagnostics_area \<Rightarrow> diagnostics_area option" where
  "set_warning_info_read_only b = on_warning_info (wi_set_read_only b)"

(* @sql_error.h 1157-1158 Diagnostics_area::error_count *)
definition da_error_count :: "diagnostics_area \<Rightarrow> uint option" where
  "da_error_count = of_warning_info wi_error_count"

(* @sql_error.h 1160-1161 Diagnostics_area::warn_count *)
definition da_warn_count :: "diagnostics_area \<Rightarrow> uint option" where
  "da_warn_count = of_warning_info wi_warn_count"

(* @sql_error.h 1163-1164 Diagnostics_area::cond_count *)
definition da_cond_count :: "diagnostics_area \<Rightarrow> uint option" where
  "da_cond_count = of_warning_info wi_cond_count"

text \<open>\<open>push\<close> is \<open>Warning_info::push_warning\<close> for an identity, a message and a row.\<close>

type_synonym warning_push = "condition_identity \<Rightarrow> uchar list \<Rightarrow> uint32 \<Rightarrow> warning_info \<Rightarrow> warning_info"

(* @sql_error.h 1175-1186 Diagnostics_area::push_warning(THD ptr, uint, const char ptr, enum_warning_level, const Sql_user_condition_identity ref, const char ptr, ulong) *)
definition push_warning ::
  "warning_push \<Rightarrow> uint \<Rightarrow> uchar list \<Rightarrow> warning_level \<Rightarrow> nat option \<Rightarrow> uchar list \<Rightarrow> uint32 \<Rightarrow>
   diagnostics_area \<Rightarrow> diagnostics_area option" where
  "push_warning push sql_errno str level ucid msg current_row_number da = do {
     tmp \<leftarrow> identity_of sql_errno str level ucid;
     on_warning_info (push tmp msg current_row_number) da
   }"

(* @sql_error.h 1188-1196 Diagnostics_area::push_warning(THD ptr, uint, const char ptr, enum_warning_level, const char ptr) *)
definition push_warning_simple ::
  "warning_push \<Rightarrow> uint \<Rightarrow> uchar list \<Rightarrow> warning_level \<Rightarrow> uchar list \<Rightarrow> diagnostics_area \<Rightarrow> diagnostics_area option" where
  "push_warning_simple push sqlerrno str level msg da = push_warning push sqlerrno str level None msg 0 da"

(* @sql_error.h 1200-1201 Diagnostics_area::unmark_sql_conditions_from_removal *)
definition unmark_sql_conditions_from_removal :: "diagnostics_area \<Rightarrow> diagnostics_area option" where
  "unmark_sql_conditions_from_removal = on_warning_info wi_unmark"

section \<open>The classes of SQL states\<close>

lemma sql_state_of_bytes:
  assumes "sql_state_of a = Some s"
  shows "m_sqlstate s = take 5 a @ [0]" and "5 \<le> length a"
proof -
  have "\<not> length a < SQLSTATE_LENGTH" using assms by (auto simp: sql_state_of_def set_sqlstate_def split: if_splits)
  then show len: "5 \<le> length a" by (simp add: SQLSTATE_LENGTH_def)
  have "m_sqlstate s = (take 5 a @ drop 5 (replicate 6 0))[5 := 0]"
    using assms len by (auto simp: sql_state_of_def set_sqlstate_def sql_state_new_def SQLSTATE_LENGTH_def split: if_splits)
  then show "m_sqlstate s = take 5 a @ [0]" using len by (simp add: list_update_append)
qed

lemma take_while_state: "0 \<notin> set x \<Longrightarrow> takeWhile (\<lambda>c. c \<noteq> (0 :: uchar)) (x @ [0]) = x"
  by (induction x) auto

text \<open>A valid SQL state, one whose second character is a digit or a letter, belongs to exactly one of the classes
  completion, warning, not found and exception. It counts as set, and two states are equal exactly when their five
  characters are.\<close>

theorem sqlstate_classes:
  assumes "sql_state_of a = Some s" and "sql_state_of b = Some t"
    and "0 \<notin> set (take 5 a)" and "0 \<notin> set (take 5 b)" and "48 \<le> unat (a ! 1)" and "unat (a ! 1) < 128"
  shows "length (filter id [is_sqlstate_completion (m_sqlstate s), is_warning s, is_not_found s, is_exception s]) = 1 \<and>
     has_sql_state s \<and> (sql_state_eq s t \<longleftrightarrow> take 5 a = take 5 b)"
proof -
  note s = sql_state_of_bytes [OF assms(1)] and t = sql_state_of_bytes [OF assms(2)]
  have 0: "m_sqlstate s ! 0 = a ! 0" and 1: "m_sqlstate s ! 1 = a ! 1" using s by (simp_all add: nth_append)
  have "sint (a ! 1) = int (unat (a ! 1))" using assms(6) by (intro sint_small) simp
  moreover have "sint (50 :: uchar) = 50" by simp
  ultimately have gt: "sint (a ! 1) > sint (50 :: uchar) \<longleftrightarrow> unat (a ! 1) > 50" by linarith
  have "length (filter id [is_sqlstate_completion (m_sqlstate s), is_warning s, is_not_found s, is_exception s]) = 1"
  proof (cases "a ! 0 = 48")
    case True
    consider "unat (a ! 1) = 48" | "unat (a ! 1) = 49" | "unat (a ! 1) = 50" | "unat (a ! 1) > 50"
      using assms(5) by linarith
    then show ?thesis
      unfolding is_sqlstate_completion_def is_warning_def is_not_found_def is_exception_def 0 1 gt
      by cases (use True in \<open>auto simp: word_unat_eq_iff\<close>)
  next
    case False
    then show ?thesis
      unfolding is_sqlstate_completion_def is_warning_def is_not_found_def is_exception_def 0 1 by simp
  qed
  moreover have "a ! 0 \<in> set (take 5 a)" using s(2) by (metis in_set_conv_nth length_take min.absorb2 nth_take zero_less_numeral)
  then have "has_sql_state s" using assms(3) unfolding has_sql_state_def 0 by metis
  moreover have "sql_state_eq s t \<longleftrightarrow> take 5 a = take 5 b"
    unfolding sql_state_eq_def s(1) t(1) take_while_state [OF assms(3)] take_while_state [OF assms(4)] ..
  ultimately show ?thesis by blast
qed

text \<open>Clearing a condition empties its number, level, items and message, and leaves its SQL state.\<close>

lemma condition_clear_keeps_state:
  "m_sqlstate (condition_clear c) = m_sqlstate c \<and> m_sql_errno (condition_clear c) = 0 \<and>
   m_level (condition_clear c) = WARN_LEVEL_ERROR \<and> cond_items (condition_clear c) = items_new \<and>
   m_message_text (condition_clear c) = []"
  by (simp add: condition_clear_def Let_def identity_clear_def user_condition_clear_def level_clear_def sse_clear_def
      items_clear_def items_new_def)

section \<open>Warnings in scopes\<close>

text \<open>
  What the code of a statement does with the area: calls on the current warning information, and blocks that run
  with a warning information of their own.
\<close>

datatype da_op =
    Set_id ulonglong | Reset_for_next_command | Clear ulonglong | Opt_clear ulonglong | Inc_row | Reset_row "32 word"
  | Set_read_only bool | Unmark | Push_warning condition_identity "uchar list" uint32
  | Scope nat "da_op list"

text \<open>The functions of \<^verbatim>\<open>sql_error.cc\<close> that the calls reach.\<close>

record wi_env =
  env_clear :: "ulonglong \<Rightarrow> warning_info \<Rightarrow> warning_info"
  env_push :: warning_push

fun wi_effect :: "wi_env \<Rightarrow> da_op \<Rightarrow> warning_info \<Rightarrow> warning_info" where
  "wi_effect env (Set_id i) = wi_set_id i"
| "wi_effect env Reset_for_next_command = wi_reset_for_next_command"
| "wi_effect env (Clear i) = env_clear env i"
| "wi_effect env (Opt_clear q) = wi_opt_clear (env_clear env) q"
| "wi_effect env Inc_row = wi_inc_row"
| "wi_effect env (Reset_row n) = wi_reset_row n"
| "wi_effect env (Set_read_only b) = wi_set_read_only b"
| "wi_effect env Unmark = wi_unmark"
| "wi_effect env (Push_warning c msg row) = env_push env c msg row"
| "wi_effect env (Scope wi ops) = (\<lambda>w. w)"

fun da_exec :: "wi_env \<Rightarrow> da_op \<Rightarrow> diagnostics_area \<Rightarrow> diagnostics_area option"
  and da_execs :: "wi_env \<Rightarrow> da_op list \<Rightarrow> diagnostics_area \<Rightarrow> diagnostics_area option" where
  "da_exec env (Set_id i) da = set_warning_info_id i da"
| "da_exec env Reset_for_next_command da = reset_for_next_command da"
| "da_exec env (Clear i) da = clear_warning_info (env_clear env) i da"
| "da_exec env (Opt_clear q) da = opt_clear_warning_info (env_clear env) q da"
| "da_exec env Inc_row da = inc_current_row_for_warning da"
| "da_exec env (Reset_row n) da = reset_current_row_for_warning n da"
| "da_exec env (Set_read_only b) da = set_warning_info_read_only b da"
| "da_exec env Unmark da = unmark_sql_conditions_from_removal da"
| "da_exec env (Push_warning c msg row) da = on_warning_info (env_push env c msg row) da"
| "da_exec env (Scope wi ops) da = do { da1 \<leftarrow> da_execs env ops (push_warning_info da wi); pop_warning_info da1 }"
| "da_execs env [] da = Some da"
| "da_execs env (p # ps) da = do { da1 \<leftarrow> da_exec env p da; da_execs env ps da1 }"

text \<open>A block's warning information is not already on the stack.\<close>

fun scopes_ok :: "nat set \<Rightarrow> da_op \<Rightarrow> bool" where
  "scopes_ok S (Scope wi ops) \<longleftrightarrow> wi \<notin> S \<and> list_all (scopes_ok (insert wi S)) ops"
| "scopes_ok S _ \<longleftrightarrow> True"

text \<open>Only the warning informations and the links differ.\<close>

definition framed :: "diagnostics_area \<Rightarrow> diagnostics_area \<Rightarrow> bool" where
  "framed da da' \<longleftrightarrow> da'\<lparr>wi_objects := wi_objects da, wi_links := wi_links da\<rparr> = da"

lemma framed_trans: "framed a b \<Longrightarrow> framed b c \<Longrightarrow> framed a c"
  by (cases a; cases b; cases c) (simp add: framed_def)

lemma framed_simps [simp]: "framed a a" "framed a (b\<lparr>wi_links := l\<rparr>) \<longleftrightarrow> framed a b"
  "framed a (b\<lparr>wi_objects := h\<rparr>) \<longleftrightarrow> framed a b" "framed (a\<lparr>wi_links := l\<rparr>) b \<longleftrightarrow> framed a b"
  by (cases a; cases b; auto simp: framed_def)+

lemma framed_status: "framed a b \<Longrightarrow> m_status b = m_status a \<and> m_statement_warn_count b = m_statement_warn_count a"
  by (cases a; cases b) (simp add: framed_def)

text \<open>The area after operations in which the top of the stack has gone through \<open>f\<close>.\<close>

definition ran :: "nat \<Rightarrow> nat list \<Rightarrow> (warning_info \<Rightarrow> warning_info) \<Rightarrow> diagnostics_area \<Rightarrow> diagnostics_area \<Rightarrow> bool" where
  "ran cur below f da da' \<longleftrightarrow>
     prep (wi_links da') 0 (cur # below) \<and> wi_objects da' cur = f (wi_objects da cur) \<and>
     (\<forall>a \<in> set below. wi_objects da' a = wi_objects da a) \<and>
     framed da da'"

lemma prep_front: "prep h 0 (cur # below) \<Longrightarrow> ipl_front h 0 = Some cur \<and> cur \<notin> set below"
  by (auto simp: prep_def ipl_front_def)

lemma on_warning_info_ran:
  assumes "prep (wi_links da) 0 (cur # below)"
  shows "\<exists>da'. on_warning_info f da = Some da' \<and> ran cur below f da da'"
  using assms prep_front [OF assms] by (auto simp: on_warning_info_def get_warning_info_def ran_def)

lemmas through_front = set_warning_info_id_def reset_for_next_command_def clear_warning_info_def
  opt_clear_warning_info_def inc_current_row_for_warning_def reset_current_row_for_warning_def
  set_warning_info_read_only_def unmark_sql_conditions_from_removal_def

lemma scope_ran:
  assumes "prep (wi_links da) 0 (cur # below)" and "wi \<notin> set (cur # below)"
    and "ran wi (cur # below) f (push_warning_info da wi) da1"
  shows "\<exists>da'. pop_warning_info da1 = Some da' \<and> ran cur below (\<lambda>w. w) da da'"
proof -
  have p: "prep (wi_links da1) 0 (wi # cur # below)" using assms(3) by (simp add: ran_def)
  have "prep (ipl_remove (wi_links da1) 0 wi) 0 (cur # below)"
    using ipl_remove_rep [of "wi_links da1" 0 "[]" wi "cur # below"] p by simp
  then show ?thesis
    using assms(3) prep_front [OF p] by (auto simp: pop_warning_info_def ran_def push_warning_info_def)
qed

lemma da_exec_ran:
  "prep (wi_links da) 0 (cur # below) \<Longrightarrow> scopes_ok (set (cur # below)) p \<Longrightarrow>
     \<exists>da'. da_exec env p da = Some da' \<and> ran cur below (wi_effect env p) da da'"
  "prep (wi_links da) 0 (cur # below) \<Longrightarrow> list_all (scopes_ok (set (cur # below))) ps \<Longrightarrow>
     \<exists>da'. da_execs env ps da = Some da' \<and> ran cur below (fold (wi_effect env) ps) da da'"
proof (induction env p da and env ps da arbitrary: cur below and cur below rule: da_exec_da_execs.induct)
  case (10 env wi ops da)
  have wi: "wi \<notin> set (cur # below)" and ok: "list_all (scopes_ok (set (wi # cur # below))) ops"
    using "10.prems"(2) by simp_all
  have "prep (wi_links (push_warning_info da wi)) 0 (wi # cur # below)"
    using ipl_push_front_rep [OF "10.prems"(1) wi] by (simp add: push_warning_info_def)
  from "10.IH" [OF this ok] obtain da1 where
    "da_execs env ops (push_warning_info da wi) = Some da1" "ran wi (cur # below) (fold (wi_effect env) ops) (push_warning_info da wi) da1"
    by blast
  then show ?case using scope_ran [OF "10.prems"(1) wi] by simp
next
  case (11 env da)
  then show ?case by (simp add: ran_def)
next
  case (12 env p ps da)
  from "12.IH"(1) [OF "12.prems"(1)] "12.prems"(2) obtain da1 where
    1: "da_exec env p da = Some da1" "ran cur below (wi_effect env p) da da1" by auto
  then have "prep (wi_links da1) 0 (cur # below)" by (simp add: ran_def)
  from "12.IH"(2) [OF 1(1) this] "12.prems"(2) obtain da2 where
    "da_execs env ps da1 = Some da2" "ran cur below (fold (wi_effect env) ps) da1 da2" by auto
  with 1 show ?case by (auto simp: ran_def intro: framed_trans)
qed (simp_all add: on_warning_info_ran through_front)

text \<open>C14: Blocks that run with a warning information of their own do not disturb the warnings of their surroundings:
  after any well-nested sequence of operations the stack, a linked list with a count, is again
  what it was, every warning information below the current one is unchanged, and the
  current one is what the operations outside the blocks make of it. No operation follows a null pointer,
  and the status of the statement is not touched.\<close>

theorem diagnostics_scopes:
  assumes "prep (wi_links da) 0 (cur # below)" and "list_all (scopes_ok (set (cur # below))) ops"
  shows "\<exists>da'. da_execs env ops da = Some da' \<and> prep (wi_links da') 0 (cur # below) \<and>
     get_warning_info da' = Some cur \<and>
     wi_objects da' cur = fold (wi_effect env) ops (wi_objects da cur) \<and>
     (\<forall>a \<in> set below. wi_objects da' a = wi_objects da a) \<and>
     m_status da' = m_status da \<and> m_statement_warn_count da' = m_statement_warn_count da"
proof -
  from da_exec_ran(2) [OF assms] obtain da' where
    1: "da_execs env ops da = Some da'" and 2: "ran cur below (fold (wi_effect env) ops) da da'" by blast
  have "prep (wi_links da') 0 (cur # below)" using 2 by (simp add: ran_def)
  then have "get_warning_info da' = Some cur" using prep_front by (simp add: get_warning_info_def)
  then show ?thesis using 1 2 framed_status [of da da'] by (auto simp: ran_def)
qed

text \<open>The contract of clearing: it sets the id. Pushing keeps it.\<close>

definition wi_env_law :: "wi_env \<Rightarrow> bool" where
  "wi_env_law env \<longleftrightarrow> (\<forall>i w. m_warn_id (env_clear env i w) = i) \<and>
     (\<forall>c msg row w. m_warn_id (env_push env c msg row w) = m_warn_id w)"

fun keeps_id :: "ulonglong \<Rightarrow> da_op \<Rightarrow> bool" where
  "keeps_id q (Set_id i) \<longleftrightarrow> i = q"
| "keeps_id q (Clear i) \<longleftrightarrow> i = q"
| "keeps_id q (Opt_clear i) \<longleftrightarrow> i = q"
| "keeps_id q _ \<longleftrightarrow> True"

lemma effects_keep_id:
  assumes "wi_env_law env" and "list_all (keeps_id q) ops" and "m_warn_id w = q"
  shows "m_warn_id (fold (wi_effect env) ops w) = q"
  using assms(2,3)
proof (induction ops arbitrary: w)
  case (Cons p ops)
  have "m_warn_id (wi_effect env p w) = q"
    using assms(1) Cons.prems
    by (cases p) (auto simp: wi_env_law_def wi_set_id_def wi_reset_for_next_command_def wi_opt_clear_def wi_inc_row_def
        wi_reset_row_def wi_set_read_only_def wi_unmark_def)
  then show ?case using Cons by simp
qed simp

text \<open>Once a statement has cleared its warnings with its query id, a later call with the same id clears
  nothing, whatever warnings were pushed in between.\<close>

lemma opt_clear_once:
  assumes "wi_env_law env" and "list_all (keeps_id q) ops"
  shows "fold (wi_effect env) (Opt_clear q # ops @ [Opt_clear q]) w = fold (wi_effect env) (Opt_clear q # ops) w"
proof -
  have "m_warn_id (wi_opt_clear (env_clear env) q w) = q"
    using assms(1) by (simp add: wi_opt_clear_def wi_env_law_def)
  from effects_keep_id [OF assms this] show ?thesis by (simp add: wi_opt_clear_def [of _ _ "fold _ _ _"])
qed

section \<open>Examples\<close>

theorem sqlstate_classes_witness:
  "is_not_found \<lparr>m_sqlstate = [48, 50, 48, 48, 48, 0]\<rparr> \<and> \<not> is_exception \<lparr>m_sqlstate = [48, 50, 48, 48, 48, 0]\<rparr> \<and>
   length (filter id [is_sqlstate_completion [48, 50, 48, 48, 48, 0], is_warning \<lparr>m_sqlstate = [48, 50, 48, 48, 48, 0]\<rparr>,
     is_not_found \<lparr>m_sqlstate = [48, 50, 48, 48, 48, 0]\<rparr>, is_exception \<lparr>m_sqlstate = [48, 50, 48, 48, 48, 0]\<rparr>]) = 1"
proof -
  have s: "sql_state_of [48, 50, 48, 48, 48] = Some \<lparr>m_sqlstate = [48, 50, 48, 48, 48, 0]\<rparr>"
    by (simp add: sql_state_of_def set_sqlstate_def sql_state_new_def SQLSTATE_LENGTH_def)
  have "is_not_found \<lparr>m_sqlstate = [48, 50, 48, 48, 48, 0]\<rparr>" "\<not> is_exception \<lparr>m_sqlstate = [48, 50, 48, 48, 48, 0]\<rparr>"
    by (simp_all add: is_not_found_def is_exception_def)
  then show ?thesis using sqlstate_classes [OF s s] by simp
qed

definition demo_wi_env :: wi_env where
  "demo_wi_env = \<lparr>env_clear = (\<lambda>i w. w\<lparr>m_warn_id := i, m_warn_list := []\<rparr>),
     env_push = (\<lambda>c msg row w. w\<lparr>m_warn_list := m_warn_list w @ [unat row]\<rparr>)\<rparr>"

definition demo_wi :: warning_info where
  "demo_wi = \<lparr>m_warn_list = [], m_warn_count = (\<lambda>_. 0), m_current_statement_warn_count = 0, m_current_row_for_warning = 1,
     m_warn_id = 0, m_error_condition = None, m_allow_unlimited_warnings = False, wi_initialized = True,
     m_read_only = False, m_marked_sql_conditions = []\<rparr>"

definition demo_area :: diagnostics_area where
  "demo_area = \<lparr>da_state = sse_new, da_user_condition = None, m_is_sent = False, m_can_overwrite_status = False,
     m_message = [], m_affected_rows = 0, m_last_insert_id = 0, m_statement_warn_count = 0, m_status = DA_EMPTY,
     is_bulk_execution = False, wi_objects = (\<lambda>_. demo_wi), wi_links = ex_pheap\<rparr>"

definition demo_warning :: condition_identity where
  "demo_warning = identity_of_errno sse_new WARN_LEVEL_WARN None"

theorem diagnostics_scopes_witness:
  "\<exists>da'. da_execs demo_wi_env [Inc_row, Scope 9 [Push_warning demo_warning [] 3, Clear 7], Push_warning demo_warning [] 4] demo_area = Some da' \<and>
     get_warning_info da' = Some 1 \<and> m_warn_list (wi_objects da' 1) = [4] \<and> wi_objects da' 2 = demo_wi"
proof -
  have "prep (wi_links demo_area) 0 (1 # [2])" using ex_prep(1) by (simp add: demo_area_def)
  from diagnostics_scopes [OF this, of "[Inc_row, Scope 9 [Push_warning demo_warning [] 3, Clear 7], Push_warning demo_warning [] 4]" demo_wi_env]
  show ?thesis by (auto simp: demo_wi_env_def demo_area_def demo_wi_def wi_inc_row_def)
qed

end
