(* ===== verification/Filesort_Buffer.thy ===== *)
theory Filesort_Buffer
  imports Array_View
begin

text \<open>
  The sort buffer of filesort, \<open>Filesort_buffer\<close> of \<^verbatim>\<open>filesort_utils.h\<close>: one block of memory in which the records grow
  from the left and the array of pointers to them grows from the right.

  An address is an integer, \<open>0\<close> is the null pointer, and the addresses inside the block do not wrap around. Of the
  memory only the pointers to records matter: a map from the address of a pointer to the address it holds; a pointer has
  eight bytes. \<open>m_idx\<close>, a \<open>longlong\<close> that counts the records in the block, is an integer. Sizes are machine words.
  Allocation and the sort itself are defined outside the header; what the comment of
  \<open>alloc_sort_buffer\<close> says of the block is the predicate \<open>allocated\<close>.
\<close>

section \<open>The class\<close>

type_synonym addr = int
type_synonym cells = "addr \<Rightarrow> addr"

(* @filesort_utils.h 262-279 Filesort_buffer *)
record filesort_buffer =
  m_next_rec_ptr :: addr
  m_rawmem :: addr
  m_record_pointers :: addr
  fb_sort_keys :: addr
  m_num_records :: uint
  m_record_length :: uint
  m_sort_length :: uint
  m_size_in_bytes :: ulonglong
  m_idx :: int

(* @filesort_utils.h 76-82 Filesort_buffer::Filesort_buffer *)
definition fb_new :: filesort_buffer where
  "fb_new = \<lparr>m_next_rec_ptr = 0, m_rawmem = 0, m_record_pointers = 0, fb_sort_keys = 0, m_num_records = 0,
     m_record_length = 0, m_sort_length = 0, m_size_in_bytes = 0, m_idx = 0\<rparr>"

text \<open>The address of \<open>p[i]\<close> for a pointer to pointers.\<close>

definition cell :: "addr \<Rightarrow> int \<Rightarrow> addr" where
  "cell p i = p + 8 * i"

(* @filesort_utils.h 213-218 Filesort_buffer::get_sort_keys *)
definition get_sort_keys :: "filesort_buffer \<Rightarrow> addr" where
  "get_sort_keys b = (if m_idx b = 0 then 0 else cell (m_record_pointers b) (1 - m_idx b))"

(* @filesort_utils.h 97-102 Filesort_buffer::reverse_record_pointers *)
function reverse_loop :: "addr \<Rightarrow> int \<Rightarrow> int \<Rightarrow> cells \<Rightarrow> cells" where
  "reverse_loop keys count ix c =
     (if ix \<le> count div 2
      then let tmp = c (cell keys (count - ix));
               c1 = c(cell keys (count - ix) := c (cell keys ix));
               c2 = c1(cell keys ix := tmp)
           in reverse_loop keys count (ix + 1) c2
      else c)"
  by pat_completeness auto
termination by (relation "measure (\<lambda>(keys, count, ix, c). nat (count div 2 + 1 - ix))") auto

(* @filesort_utils.h 91-103 Filesort_buffer::reverse_record_pointers *)
definition reverse_record_pointers :: "filesort_buffer \<Rightarrow> cells \<Rightarrow> cells" where
  "reverse_record_pointers b c = (if m_idx b < 2 then c else reverse_loop (get_sort_keys b) (m_idx b - 1) 0 c)"

(* @filesort_utils.h 119-124 Filesort_buffer::init_next_record_pointer *)
definition init_next_record_pointer :: "filesort_buffer \<Rightarrow> filesort_buffer" where
  "init_next_record_pointer b = b\<lparr>m_idx := 0, m_next_rec_ptr := m_rawmem b, fb_sort_keys := 0\<rparr>"

text \<open>Writing through a null array of pointers is undefined.\<close>

(* @filesort_utils.h 159-168 Filesort_buffer::get_next_record_pointer *)
definition get_next_record_pointer :: "filesort_buffer \<Rightarrow> cells \<Rightarrow> (filesort_buffer \<times> cells \<times> addr) option" where
  "get_next_record_pointer b c =
     (if m_record_pointers b = 0 then None
      else let retval = m_next_rec_ptr b;
               c1 = c(cell (m_record_pointers b) (- m_idx b) := m_next_rec_ptr b);
               b1 = b\<lparr>m_idx := m_idx b + 1\<rparr>;
               b2 = b1\<lparr>m_next_rec_ptr := m_next_rec_ptr b1 + uint (m_record_length b1)\<rparr>
           in Some (b2, c1, retval))"

(* @filesort_utils.h 111-112 Filesort_buffer::init_record_pointers *)
function init_pointers_loop :: "filesort_buffer \<Rightarrow> cells \<Rightarrow> (filesort_buffer \<times> cells) option" where
  "init_pointers_loop b c =
     (if m_idx b < uint (m_num_records b)
      then case get_next_record_pointer b c of None \<Rightarrow> None | Some (b1, c1, _) \<Rightarrow> init_pointers_loop b1 c1
      else Some (b, c))"
  by pat_completeness auto
termination
  by (relation "measure (\<lambda>(b, c). nat (uint (m_num_records b) - m_idx b))")
    (auto simp: get_next_record_pointer_def Let_def split: if_splits)

(* @filesort_utils.h 108-114 Filesort_buffer::init_record_pointers *)
definition init_record_pointers :: "filesort_buffer \<Rightarrow> cells \<Rightarrow> (filesort_buffer \<times> cells) option" where
  "init_record_pointers b c =
     (case init_pointers_loop (init_next_record_pointer b) c of None \<Rightarrow> None
      | Some (b1, c1) \<Rightarrow> Some (b1, reverse_record_pointers b1 c1))"

(* @filesort_utils.h 129-132 Filesort_buffer::space_used_for_data *)
definition space_used_for_data :: "filesort_buffer \<Rightarrow> ulonglong" where
  "space_used_for_data b = (if m_next_rec_ptr b \<noteq> 0 then of_int (m_next_rec_ptr b - m_rawmem b) else 0)"

(* @filesort_utils.h 137-144 Filesort_buffer::spaceleft *)
definition spaceleft :: "filesort_buffer \<Rightarrow> ulonglong" where
  "spaceleft b =
     (let spaceused = of_int (m_next_rec_ptr b - m_rawmem b) + of_int (m_idx b) * 8
      in m_size_in_bytes b - spaceused)"

(* @filesort_utils.h 149-154 Filesort_buffer::isfull *)
definition isfull :: "filesort_buffer \<Rightarrow> bool" where
  "isfull b = (if m_idx b < uint (m_num_records b) then False else spaceleft b < ucast (m_record_length b) + 8)"

(* @filesort_utils.h 174-177 Filesort_buffer::adjust_next_record_pointer *)
definition adjust_next_record_pointer :: "filesort_buffer \<Rightarrow> uint \<Rightarrow> filesort_buffer" where
  "adjust_next_record_pointer b val = b\<lparr>m_next_rec_ptr := m_next_rec_ptr b - uint (m_record_length b - val)\<rparr>"

(* @filesort_utils.h 180-183 Filesort_buffer::sort_buffer_size *)
definition sort_buffer_size :: "filesort_buffer \<Rightarrow> ulonglong" where
  "sort_buffer_size b = m_size_in_bytes b"

(* @filesort_utils.h 185-188 Filesort_buffer::is_allocated *)
definition is_allocated :: "filesort_buffer \<Rightarrow> bool" where
  "is_allocated b \<longleftrightarrow> m_rawmem b \<noteq> 0"

(* @filesort_utils.h 205-208 Filesort_buffer::reset *)
definition fb_reset :: "filesort_buffer \<Rightarrow> filesort_buffer" where
  "fb_reset b = b\<lparr>m_rawmem := 0\<rparr>"

(* @filesort_utils.h 224-227 Filesort_buffer::get_sorted_record *)
definition get_sorted_record :: "filesort_buffer \<Rightarrow> cells \<Rightarrow> uint \<Rightarrow> addr option" where
  "get_sorted_record b c ix = (if fb_sort_keys b = 0 then None else Some (c (cell (fb_sort_keys b) (uint ix))))"

(* @filesort_utils.h 233-236 Filesort_buffer::get_raw_buf *)
definition get_raw_buf :: "filesort_buffer \<Rightarrow> bounds_checked_array" where
  "get_raw_buf b = bca_reset_to (if m_rawmem b = 0 then None else Some (nat (m_rawmem b))) (m_size_in_bytes b)"

(* @filesort_utils.h 244-256 Filesort_buffer::operator= *)
definition fb_assign :: "filesort_buffer \<Rightarrow> filesort_buffer \<Rightarrow> filesort_buffer" where
  "fb_assign b rhs = b\<lparr>m_next_rec_ptr := m_next_rec_ptr rhs, m_rawmem := m_rawmem rhs,
     m_record_pointers := m_record_pointers rhs, fb_sort_keys := fb_sort_keys rhs, m_num_records := m_num_records rhs,
     m_record_length := m_record_length rhs, m_sort_length := m_sort_length rhs,
     m_size_in_bytes := m_size_in_bytes rhs, m_idx := m_idx rhs\<rparr>"

(* @filesort_utils.h 258-258 Filesort_buffer::get_sort_length *)
definition fb_get_sort_length :: "filesort_buffer \<Rightarrow> uint" where
  "fb_get_sort_length b = m_sort_length b"

(* @filesort_utils.h 259-259 Filesort_buffer::set_sort_length *)
definition fb_set_sort_length :: "filesort_buffer \<Rightarrow> uint \<Rightarrow> filesort_buffer" where
  "fb_set_sort_length b val = b\<lparr>m_sort_length := val\<rparr>"

declare reverse_loop.simps [simp del] init_pointers_loop.simps [simp del]

text \<open>What the allocation promises: a block with room for the given number of records of full length and their
  pointers, with the array of pointers at its end.\<close>

definition block_end :: "filesort_buffer \<Rightarrow> addr" where
  "block_end b = m_rawmem b + uint (m_size_in_bytes b)"

definition allocated :: "filesort_buffer \<Rightarrow> bool" where
  "allocated b \<longleftrightarrow> 0 < m_rawmem b \<and> m_record_pointers b = block_end b - 8 \<and> 0 < m_record_pointers b \<and>
     uint (m_num_records b) * (uint (m_record_length b) + 8) \<le> uint (m_size_in_bytes b)"

section \<open>Filling the buffer\<close>

text \<open>A client that stores records of packed lengths \<open>vs\<close> while the buffer is not full: it asks for the place of a record of
  full length, writes the record there and reports the length it has used.\<close>

fun fill :: "filesort_buffer \<Rightarrow> cells \<Rightarrow> uint list \<Rightarrow> (filesort_buffer \<times> cells) option" where
  "fill b c [] = Some (b, c)"
| "fill b c (v # vs) =
     (if isfull b then Some (b, c)
      else case get_next_record_pointer b c of None \<Rightarrow> None
        | Some (b1, c1, _) \<Rightarrow> fill (adjust_next_record_pointer b1 v) c1 vs)"

definition lengths :: "uint list \<Rightarrow> int" where
  "lengths vs = (\<Sum>v \<leftarrow> vs. uint v)"

lemma lengths_simps [simp]: "lengths [] = 0" "lengths (v # vs) = uint v + lengths vs" "lengths (us @ vs) = lengths us + lengths vs"
  by (simp_all add: lengths_def)

lemma lengths_nonneg: "0 \<le> lengths vs"
  by (induction vs) auto

lemma lengths_bound: "\<forall>v \<in> set vs. v \<le> l \<Longrightarrow> lengths vs \<le> int (length vs) * uint l"
  by (induction vs) (auto simp: word_le_def algebra_simps)

lemma lengths_take_Suc: "i < length vs \<Longrightarrow> lengths (take (Suc i) vs) = lengths (take i vs) + uint (vs ! i)"
  by (simp add: take_Suc_conv_app_nth)

text \<open>The buffer \<open>b\<close> holds records of the lengths \<open>vs\<close>, in this order and without gaps.\<close>

definition holds :: "filesort_buffer \<Rightarrow> cells \<Rightarrow> uint list \<Rightarrow> bool" where
  "holds b c vs \<longleftrightarrow> allocated b \<and> m_idx b = int (length vs) \<and> (\<forall>v \<in> set vs. v \<le> m_record_length b) \<and>
     m_next_rec_ptr b = m_rawmem b + lengths vs \<and>
     lengths vs + 8 * int (length vs) \<le> uint (m_size_in_bytes b) \<and>
     (\<forall>i < length vs. c (cell (m_record_pointers b) (- int i)) = m_rawmem b + lengths (take i vs) \<and>
        m_rawmem b + lengths (take i vs) + uint (m_record_length b) \<le> cell (m_record_pointers b) (- int i))"

lemma holds_init: "allocated b \<Longrightarrow> holds (init_next_record_pointer b) c []"
  by (simp add: holds_def allocated_def block_end_def init_next_record_pointer_def)

lemma spaceleft_value:
  assumes "holds b c vs"
  shows "uint (spaceleft b) = uint (m_size_in_bytes b) - lengths vs - 8 * int (length vs)"
proof -
  define x where "x = uint (m_size_in_bytes b) - lengths vs - 8 * int (length vs)"
  have "spaceleft b = word_of_int x"
    using assms by (simp add: spaceleft_def Let_def holds_def x_def algebra_simps)
  moreover have "uint (m_size_in_bytes b) < 2 ^ 64" using uint_lt2p [of "m_size_in_bytes b"] by simp
  then have "0 \<le> x" "x < 2 ^ 64" using assms lengths_nonneg [of vs] by (auto simp: holds_def x_def)
  then have "uint (word_of_int x :: ulonglong) = x" by (simp add: uint_word_of_int)
  ultimately show ?thesis by (simp add: x_def)
qed

text \<open>A buffer that is not full has room for a record of full length and its pointer.\<close>

lemma not_full_room:
  assumes "holds b c vs" and "\<not> isfull b"
  shows "lengths vs + 8 * int (length vs) + uint (m_record_length b) + 8 \<le> uint (m_size_in_bytes b)"
proof (cases "m_idx b < uint (m_num_records b)")
  case True
  define r n where "r = uint (m_record_length b)" and "n = int (length vs)"
  have "lengths vs + 8 * n + r + 8 \<le> (n + 1) * (r + 8)"
    using lengths_bound [of vs "m_record_length b"] assms(1) by (simp add: holds_def r_def n_def algebra_simps)
  also have "\<dots> \<le> uint (m_num_records b) * (r + 8)"
    using True assms(1) by (intro mult_right_mono) (simp_all add: holds_def n_def r_def)
  also have "\<dots> \<le> uint (m_size_in_bytes b)" using assms(1) by (simp add: holds_def allocated_def r_def)
  finally show ?thesis by (simp add: r_def n_def)
next
  case False
  have "uint (m_record_length b) < 2 ^ 32" using uint_lt2p [of "m_record_length b"] by simp
  then have "uint (ucast (m_record_length b) + 8 :: ulonglong) = uint (m_record_length b) + 8"
    by (simp add: uint_word_ariths unsigned_ucast_eq take_bit_eq_mod)
  then show ?thesis using False assms(2) spaceleft_value [OF assms(1)] by (simp add: isfull_def word_less_def)
qed

lemma store_one:
  assumes "holds b c vs" and "\<not> isfull b" and "v \<le> m_record_length b"
  obtains b1 c1 where "get_next_record_pointer b c = Some (b1, c1, m_rawmem b + lengths vs)"
    and "holds (adjust_next_record_pointer b1 v) c1 (vs @ [v])"
    and "c1 = c(cell (m_record_pointers b) (- int (length vs)) := m_rawmem b + lengths vs)"
    and "adjust_next_record_pointer b1 v = b\<lparr>m_idx := m_idx b + 1, m_next_rec_ptr := m_next_rec_ptr b + uint v\<rparr>"
proof -
  define b' where "b' = b\<lparr>m_idx := m_idx b + 1, m_next_rec_ptr := m_next_rec_ptr b + uint v\<rparr>"
  define b1 where "b1 = b\<lparr>m_idx := m_idx b + 1, m_next_rec_ptr := m_next_rec_ptr b + uint (m_record_length b)\<rparr>"
  define c1 where "c1 = c(cell (m_record_pointers b) (- int (length vs)) := m_rawmem b + lengths vs)"
  have v: "uint (m_record_length b - v) = uint (m_record_length b) - uint v" "uint v \<le> uint (m_record_length b)"
    using assms(3) by (simp_all add: uint_minus_simple_alt [symmetric] word_le_def [symmetric])
  have g: "get_next_record_pointer b c = Some (b1, c1, m_rawmem b + lengths vs)"
    using assms(1) by (simp add: get_next_record_pointer_def holds_def allocated_def b1_def c1_def Let_def)
  have a: "adjust_next_record_pointer b1 v = b'" using v by (simp add: adjust_next_record_pointer_def b1_def b'_def)
  have room: "m_rawmem b + lengths vs + uint (m_record_length b) \<le> cell (m_record_pointers b) (- int (length vs))"
    using not_full_room [OF assms(1,2)] assms(1) by (simp add: holds_def allocated_def block_end_def cell_def)
  have fresh: "cell (m_record_pointers b) (- int i) \<noteq> cell (m_record_pointers b) (- int (length vs))" if "i < length vs" for i
    using that by (simp add: cell_def)
  have "holds b' c1 (vs @ [v])"
    using assms(1,3) room fresh not_full_room [OF assms(1,2)] v(2)
    by (auto simp: holds_def b'_def c1_def allocated_def block_end_def less_Suc_eq)
  with g a show ?thesis using that c1_def b'_def by simp
qed

text \<open>The block is the same and the memory outside the pointers from \<open>lo\<close> on to \<open>hi\<close> is not touched.\<close>

definition same_block :: "filesort_buffer \<Rightarrow> filesort_buffer \<Rightarrow> bool" where
  "same_block b b' \<longleftrightarrow> b' = b\<lparr>m_idx := m_idx b', m_next_rec_ptr := m_next_rec_ptr b', fb_sort_keys := fb_sort_keys b'\<rparr>"

lemma same_block_refl [simp]: "same_block b b"
  by (simp add: same_block_def)

lemma same_block_trans: "same_block a b \<Longrightarrow> same_block b c \<Longrightarrow> same_block a c"
  by (cases a; cases b; cases c) (simp add: same_block_def)

lemma same_block_fields:
  "same_block b b' \<Longrightarrow> m_rawmem b' = m_rawmem b \<and> m_record_pointers b' = m_record_pointers b \<and>
     m_num_records b' = m_num_records b \<and> m_record_length b' = m_record_length b \<and>
     m_size_in_bytes b' = m_size_in_bytes b \<and> block_end b' = block_end b"
  by (cases b; cases b') (simp add: same_block_def block_end_def)

lemma fill_holds:
  assumes "holds b c us" and "\<forall>v \<in> set vs. v \<le> m_record_length b"
  shows "\<exists>b' c' n. fill b c vs = Some (b', c') \<and> n \<le> length vs \<and> holds b' c' (us @ take n vs) \<and>
     (n < length vs \<longrightarrow> isfull b') \<and> same_block b b' \<and>
     (\<forall>a. a < cell (m_record_pointers b) (1 - m_idx b') \<or> m_record_pointers b < a \<longrightarrow> c' a = c a)"
  using assms
proof (induction vs arbitrary: b c us)
  case Nil
  then show ?case by auto
next
  case (Cons v vs)
  show ?case
  proof (cases "isfull b")
    case True
    then have "fill b c (v # vs) = Some (b, c) \<and> 0 \<le> length (v # vs) \<and> holds b c (us @ take 0 (v # vs)) \<and>
      (0 < length (v # vs) \<longrightarrow> isfull b) \<and> same_block b b"
      using Cons.prems by simp
    then show ?thesis by blast
  next
    case False
    obtain b1 c1 where 1: "get_next_record_pointer b c = Some (b1, c1, m_rawmem b + lengths us)"
      "holds (adjust_next_record_pointer b1 v) c1 (us @ [v])"
      "c1 = c(cell (m_record_pointers b) (- int (length us)) := m_rawmem b + lengths us)"
      "adjust_next_record_pointer b1 v = b\<lparr>m_idx := m_idx b + 1, m_next_rec_ptr := m_next_rec_ptr b + uint v\<rparr>"
      using store_one [OF Cons.prems(1) False, of v] Cons.prems(2) by auto
    define b2 where "b2 = adjust_next_record_pointer b1 v"
    have s: "same_block b b2" using 1(4) by (cases b) (simp add: b2_def same_block_def)
    then have f: "m_record_length b2 = m_record_length b" "m_record_pointers b2 = m_record_pointers b"
      by (simp_all add: same_block_fields)
    from Cons.IH [OF 1(2), folded b2_def] Cons.prems(2) f obtain b' c' n where
      2: "fill b2 c1 vs = Some (b', c')" "n \<le> length vs" "holds b' c' (us @ [v] @ take n vs)"
        "n < length vs \<longrightarrow> isfull b'" "same_block b2 b'"
        "\<forall>a. a < cell (m_record_pointers b) (1 - m_idx b') \<or> m_record_pointers b < a \<longrightarrow> c' a = c1 a"
      by fastforce
    have idx: "m_idx b' = int (length us + 1 + n)" using 2(2,3) by (simp add: holds_def)
    have "c' a = c a" if "a < cell (m_record_pointers b) (1 - m_idx b') \<or> m_record_pointers b < a" for a
      using that 2(6) 1(3) idx by (auto simp: cell_def)
    moreover have "fill b c (v # vs) = Some (b', c')" using False 1(1) 2(1) by (simp add: b2_def)
    moreover have "holds b' c' (us @ take (Suc n) (v # vs))" using 2(3) by simp
    moreover have "same_block b b'" using s 2(5) by (rule same_block_trans)
    ultimately show ?thesis using 2(2,4) by (intro exI [of _ b'] exI [of _ c'] exI [of _ "Suc n"]) simp
  qed
qed

text \<open>The array of pointers, read from its lower end, lists the records from the last to the first.\<close>

lemma sort_keys_reversed:
  assumes "holds b c vs" and "j < length vs"
  shows "c (cell (get_sort_keys b) (int j)) = m_rawmem b + lengths (take (length vs - 1 - j) vs)"
proof -
  have "get_sort_keys b = cell (m_record_pointers b) (1 - int (length vs))"
    using assms by (auto simp: get_sort_keys_def holds_def)
  then have "cell (get_sort_keys b) (int j) = cell (m_record_pointers b) (- int (length vs - 1 - j))"
    using assms(2) by (simp add: cell_def of_nat_diff)
  moreover have "c (cell (m_record_pointers b) (- int (length vs - 1 - j))) = m_rawmem b + lengths (take (length vs - 1 - j) vs)"
    using assms by (auto simp only: holds_def)
  ultimately show ?thesis by (simp only:)
qed

text \<open>C16: Filling the sort buffer. As long as the client asks before each record and packs no record beyond the full length, the
  places it is given lie one after the other from the start of the block, each with room for a record of full
  length below the pointer stored for it, so that records and pointers never overlap. The pointers list
  the records from the last to the first. At least the number of records that was asked for fits; the client is
  stopped only by a full buffer. No memory but the pointers is written.\<close>

theorem filesort_buffer_layout:
  assumes "allocated b" and "\<forall>v \<in> set vs. v \<le> m_record_length b"
  shows "\<exists>b' c' n. fill (init_next_record_pointer b) c vs = Some (b', c') \<and> m_idx b' = int n \<and> n \<le> length vs \<and>
     (n < length vs \<longrightarrow> isfull b' \<and> unat (m_num_records b) \<le> n) \<and>
     (\<forall>i<n. m_rawmem b + lengths (take i vs) + uint (m_record_length b) \<le> block_end b - 8 * (int i + 1)) \<and>
     (\<forall>j<n. c' (cell (get_sort_keys b') (int j)) = m_rawmem b + lengths (take (n - 1 - j) vs)) \<and>
     m_next_rec_ptr b' = m_rawmem b + lengths (take n vs) \<and> m_next_rec_ptr b' \<le> block_end b - 8 * int n \<and>
     (\<forall>a. a < block_end b - 8 * int n \<or> block_end b \<le> a \<longrightarrow> c' a = c a)"
proof -
  define b0 where "b0 = init_next_record_pointer b"
  have s0: "same_block b b0" by (cases b) (simp add: b0_def init_next_record_pointer_def same_block_def)
  note f0 = same_block_fields [OF s0]
  have "holds b0 c []" unfolding b0_def by (rule holds_init [OF assms(1)])
  from fill_holds [OF this, of vs] assms(2) f0 obtain b' c' n where
    1: "fill b0 c vs = Some (b', c')" "n \<le> length vs" "holds b' c' (take n vs)" "n < length vs \<longrightarrow> isfull b'"
      "same_block b0 b'" "\<forall>a. a < cell (m_record_pointers b) (1 - m_idx b') \<or> m_record_pointers b < a \<longrightarrow> c' a = c a"
    by auto
  note f = same_block_fields [OF same_block_trans [OF s0 1(5)]]
  have idx: "m_idx b' = int n" and rp: "m_record_pointers b = block_end b - 8"
    using 1(2,3) assms(1) by (simp_all add: holds_def allocated_def)
  have "unat (m_num_records b) \<le> n" if "n < length vs"
  proof -
    have "\<not> int n < uint (m_num_records b)" using that 1(4) idx f by (auto simp: isfull_def)
    then show ?thesis using uint_nat [of "m_num_records b"] by linarith
  qed
  moreover have "c' (cell (get_sort_keys b') (int j)) = m_rawmem b + lengths (take (n - 1 - j) vs)" if "j < n" for j
    using sort_keys_reversed [OF 1(3), of j] 1(2) f that by (simp add: min_absorb1 min_absorb2)
  moreover have "m_rawmem b + lengths (take i vs) + uint (m_record_length b) \<le> block_end b - 8 * (int i + 1)" if "i < n" for i
  proof -
    have "m_rawmem b' + lengths (take i (take n vs)) + uint (m_record_length b') \<le> cell (m_record_pointers b') (- int i)"
      using 1(2,3) that by (simp add: holds_def)
    then show ?thesis using f rp that by (simp add: cell_def min_absorb1)
  qed
  moreover have "m_next_rec_ptr b' = m_rawmem b + lengths (take n vs)" "m_next_rec_ptr b' \<le> block_end b - 8 * int n"
    using 1(2,3) f by (simp_all add: holds_def block_end_def)
  moreover have "c' a = c a" if "a < block_end b - 8 * int n \<or> block_end b \<le> a" for a
    using 1(6) that rp idx by (auto simp: cell_def)
  ultimately show ?thesis using 1(1,2,4) idx unfolding b0_def by blast
qed

section \<open>Pointers for records of full length\<close>

lemma reverse_loop_cell:
  "reverse_loop keys count ix c (cell keys i) =
     (if ix \<le> i \<and> i \<le> count - ix then c (cell keys (count - i)) else c (cell keys i))"
proof (induction keys count ix c rule: reverse_loop.induct)
  case (1 keys count ix c)
  have eq: "cell keys x = cell keys y \<longleftrightarrow> x = y" for x y by (simp add: cell_def)
  show ?case
  proof (cases "ix \<le> count div 2")
    case True
    define c2 where "c2 = c(cell keys (count - ix) := c (cell keys ix), cell keys ix := c (cell keys (count - ix)))"
    have c2: "c2 (cell keys k) = (if k = ix then c (cell keys (count - ix)) else if k = count - ix then c (cell keys ix) else c (cell keys k))" for k
      by (simp add: c2_def eq)
    have "reverse_loop keys count ix c = reverse_loop keys count (ix + 1) c2"
      using True by (subst reverse_loop.simps) (simp add: Let_def c2_def)
    then show ?thesis using "1.IH" [OF True refl refl refl, folded c2_def] c2 True by auto
  next
    case False
    then show ?thesis by (subst reverse_loop.simps) auto
  qed
qed

lemma init_pointers_fill:
  "init_pointers_loop b c = fill b c (replicate (nat (uint (m_num_records b) - m_idx b)) (m_record_length b))"
proof (induction b c rule: init_pointers_loop.induct)
  case (1 b c)
  show ?case
  proof (cases "m_idx b < uint (m_num_records b)")
    case True
    then have n: "nat (uint (m_num_records b) - m_idx b) = Suc (nat (uint (m_num_records b) - (m_idx b + 1)))" by simp
    show ?thesis
    proof (cases "get_next_record_pointer b c")
      case None
      then show ?thesis using True n by (subst init_pointers_loop.simps) (simp add: isfull_def)
    next
      case (Some r)
      obtain b1 c1 p where r: "r = (b1, c1, p)" by (cases r)
      have f: "m_num_records b1 = m_num_records b" "m_record_length b1 = m_record_length b" "m_idx b1 = m_idx b + 1"
        using Some r by (auto simp: get_next_record_pointer_def Let_def split: if_splits)
      have "adjust_next_record_pointer b1 (m_record_length b) = b1" using f by (simp add: adjust_next_record_pointer_def)
      then show ?thesis
        using True n Some r f "1.IH" [OF True Some, of b1 "(c1, p)" c1 p] by (subst init_pointers_loop.simps) (simp add: isfull_def)
    qed
  next
    case False
    then show ?thesis by (subst init_pointers_loop.simps) simp
  qed
qed

lemma lengths_replicate: "lengths (replicate n v) = int n * uint v"
  by (induction n) (simp_all add: algebra_simps)

lemma reverse_cell:
  assumes "0 \<le> i" and "i < m_idx b"
  shows "reverse_record_pointers b c (cell (get_sort_keys b) i) = c (cell (get_sort_keys b) (m_idx b - 1 - i))"
proof (cases "m_idx b < 2")
  case True
  then have "i = 0" "m_idx b = 1" using assms by simp_all
  then show ?thesis by (simp add: reverse_record_pointers_def)
qed (use assms in \<open>simp add: reverse_record_pointers_def reverse_loop_cell\<close>)

text \<open>After \<open>init_record_pointers\<close> the array of pointers lists the places for records of full length from left to right.\<close>

lemma init_record_pointers_places:
  assumes "allocated b"
  obtains b' c' where "init_record_pointers b c = Some (b', c')" and "m_idx b' = uint (m_num_records b)"
    and "\<And>i. i < unat (m_num_records b) \<Longrightarrow>
      c' (cell (get_sort_keys b') (int i)) = m_rawmem b + int i * uint (m_record_length b)"
    and "uint (m_num_records b) * uint (m_record_length b) + m_rawmem b \<le> block_end b - 8 * uint (m_num_records b)"
proof -
  define N l where "N = unat (m_num_records b)" and "l = m_record_length b"
  define vs where "vs = replicate N l"
  define b0 where "b0 = init_next_record_pointer b"
  have s0: "same_block b b0" by (cases b) (simp add: b0_def init_next_record_pointer_def same_block_def)
  note f0 = same_block_fields [OF s0]
  have "holds b0 c []" unfolding b0_def by (rule holds_init [OF assms])
  moreover have "\<forall>v \<in> set vs. v \<le> m_record_length b0" using f0 by (simp add: vs_def l_def)
  ultimately obtain b1 c1 n where
    1: "fill b0 c vs = Some (b1, c1)" "n \<le> length vs" "holds b1 c1 (take n vs)" "n < length vs \<longrightarrow> isfull b1" "same_block b0 b1"
    using fill_holds [of b0 c "[]" vs] by (auto simp only: append_Nil)
  note f = same_block_fields [OF same_block_trans [OF s0 1(5)]]
  have u: "uint (m_num_records b) = int N" using uint_nat [of "m_num_records b"] by (simp only: N_def)
  have idx: "m_idx b1 = int n" using 1(2,3) by (simp add: holds_def)
  have n: "n = N" using 1(2,4) idx f u by (cases "n < N") (auto simp: isfull_def vs_def)
  have h: "holds b1 c1 vs" using 1(3) n by (simp add: vs_def)
  have "nat (uint (m_num_records b0) - m_idx b0) = N" using f0 u by (simp add: b0_def init_next_record_pointer_def)
  then have "init_pointers_loop b0 c = Some (b1, c1)" using 1(1) f0 by (simp add: init_pointers_fill vs_def l_def)
  then have 2: "init_record_pointers b c = Some (b1, reverse_record_pointers b1 c1)"
    by (simp add: init_record_pointers_def b0_def)
  show ?thesis
  proof (rule that [OF 2])
    show "m_idx b1 = uint (m_num_records b)" using idx n u by simp
    fix i assume "i < unat (m_num_records b)"
    then have i: "i < N" by (simp add: N_def)
    then have "reverse_record_pointers b1 c1 (cell (get_sort_keys b1) (int i)) = c1 (cell (get_sort_keys b1) (int (N - 1 - i)))"
      using reverse_cell [of "int i" b1 c1] idx n by (simp add: of_nat_diff algebra_simps)
    also have "\<dots> = m_rawmem b + lengths (take i vs)"
      using sort_keys_reversed [OF h, of "N - 1 - i"] i f by (simp add: vs_def)
    finally show "reverse_record_pointers b1 c1 (cell (get_sort_keys b1) (int i)) = m_rawmem b + int i * uint (m_record_length b)"
      using i by (simp add: vs_def lengths_replicate min_absorb1 l_def)
  next
    show "uint (m_num_records b) * uint (m_record_length b) + m_rawmem b \<le> block_end b - 8 * uint (m_num_records b)"
      using assms by (simp add: allocated_def block_end_def algebra_simps)
  qed
qed

section \<open>Example\<close>

text \<open>A block of 70 bytes at address 1000 for two records of 20 bytes.\<close>

definition demo_buffer :: filesort_buffer where
  "demo_buffer = fb_new\<lparr>m_rawmem := 1000, m_record_pointers := 1062, m_num_records := 2, m_record_length := 20, m_size_in_bytes := 70\<rparr>"

theorem filesort_buffer_layout_witness:
  "allocated demo_buffer \<and>
   (\<exists>b' c'. fill (init_next_record_pointer demo_buffer) (\<lambda>_. 0) [5, 20, 7] = Some (b', c') \<and>
      (m_idx b' < 3 \<longrightarrow> isfull b') \<and> 2 \<le> m_idx b' \<and> c' 70 = 0)"
proof -
  have a: "allocated demo_buffer" by (simp add: demo_buffer_def fb_new_def allocated_def block_end_def)
  have v: "\<forall>v \<in> set [5, 20, 7]. v \<le> m_record_length demo_buffer" by (simp add: demo_buffer_def fb_new_def)
  obtain b' c' n where 1: "fill (init_next_record_pointer demo_buffer) (\<lambda>_. 0) [5, 20, 7] = Some (b', c')" "m_idx b' = int n"
    "n \<le> length [5, 20, 7 :: uint]" "n < length [5, 20, 7 :: uint] \<longrightarrow> isfull b' \<and> unat (m_num_records demo_buffer) \<le> n"
    "\<forall>a. a < block_end demo_buffer - 8 * int n \<or> block_end demo_buffer \<le> a \<longrightarrow> c' a = 0"
    using filesort_buffer_layout [OF a v, of "\<lambda>_. 0"] by blast
  have "c' 70 = 0" using 1(3) 1(5) by (auto simp: demo_buffer_def block_end_def fb_new_def)
  moreover have "2 \<le> n" using 1(3,4) by (cases "n < 3") (auto simp: demo_buffer_def fb_new_def)
  ultimately show ?thesis using a 1 by auto
qed

end
