(* ===== verification/Bounded_Queue.thy ===== *)
theory Bounded_Queue
  imports Filesort_Buffer "HOL-Library.Multiset"
begin

text \<open>
  The queue that keeps the first rows of an ORDER BY with LIMIT: \<open>Bounded_queue\<close> of \<^verbatim>\<open>bounded_queue.h\<close> on the priority queue
  of \<^verbatim>\<open>queues.h\<close>. Its elements are the addresses of the pointers in the array \<open>m_sort_keys\<close>, which in filesort is the array of
  the sort buffer in \<open>Filesort_Buffer\<close>; the keys lie where these pointers point to.

  \<open>cells\<close> holds the pointers, \<open>keys\<close> the keys by their addresses. The comparison and the function that makes a
  key are members, as in the code. The functions on the priority queue are defined outside the repository: they are
  the record \<open>queue_env\<close>, and \<open>queue_law\<close> is what the header says of them, a heap in an array with indices from 1 in
  which no key is above its parent.
\<close>

section \<open>The priority queue\<close>

type_synonym 'k queue_compare = "ulonglong \<Rightarrow> 'k \<Rightarrow> 'k \<Rightarrow> int"

text \<open>The first argument of the comparison is a pointer to a length, here the length.\<close>

(* @queues.h 38-48 st_queue *)
record 'k st_queue =
  q_root :: "nat \<Rightarrow> addr"
  first_cmp_arg :: ulonglong
  elements :: uint
  max_elements :: uint
  offset_to_key :: uint
  offset_to_queue_pos :: uint
  auto_extent :: uint
  max_at_top :: int
  q_compare :: "'k queue_compare"

record 'k queue_env =
  q_init :: "'k st_queue \<Rightarrow> uint \<Rightarrow> uint \<Rightarrow> bool \<Rightarrow> 'k queue_compare \<Rightarrow> ulonglong \<Rightarrow> uint \<Rightarrow> uint \<Rightarrow> 'k st_queue \<times> int"
  q_delete :: "'k st_queue \<Rightarrow> 'k st_queue"
  q_insert :: "(addr \<Rightarrow> 'k) \<Rightarrow> 'k st_queue \<Rightarrow> addr \<Rightarrow> 'k st_queue"
  q_remove :: "(addr \<Rightarrow> 'k) \<Rightarrow> 'k st_queue \<Rightarrow> uint \<Rightarrow> 'k st_queue \<times> addr"
  q_downheap :: "(addr \<Rightarrow> 'k) \<Rightarrow> 'k st_queue \<Rightarrow> uint \<Rightarrow> 'k st_queue"
  q_ptr_compare :: "ulonglong \<Rightarrow> 'k queue_compare"

(* @queues.h 50-50 queue_first_element *)
definition queue_first_element :: "'k st_queue \<Rightarrow> uint" where
  "queue_first_element q = 1"

(* @queues.h 51-51 queue_last_element *)
definition queue_last_element :: "'k st_queue \<Rightarrow> uint" where
  "queue_last_element q = elements q"

(* @queues.h 52-52 queue_empty *)
definition queue_empty :: "'k st_queue \<Rightarrow> bool" where
  "queue_empty q \<longleftrightarrow> elements q = 0"

(* @queues.h 53-53 queue_top *)
definition queue_top :: "'k st_queue \<Rightarrow> addr" where
  "queue_top q = q_root q 1"

(* @queues.h 54-54 queue_element *)
definition queue_element :: "'k st_queue \<Rightarrow> uint \<Rightarrow> addr" where
  "queue_element q index = q_root q (unat index)"

(* @queues.h 55-55 queue_end *)
definition queue_end :: "'k st_queue \<Rightarrow> addr" where
  "queue_end q = q_root q (unat (elements q))"

(* @queues.h 56-56 queue_replace_top *)
definition queue_replace_top :: "'k queue_env \<Rightarrow> (addr \<Rightarrow> 'k) \<Rightarrow> 'k st_queue \<Rightarrow> 'k st_queue" where
  "queue_replace_top env key q = q_downheap env key q 1"

(* @queues.h 57-57 queue_set_cmp_arg *)
definition queue_set_cmp_arg :: "'k st_queue \<Rightarrow> ulonglong \<Rightarrow> 'k st_queue" where
  "queue_set_cmp_arg q set_arg = q\<lparr>first_cmp_arg := set_arg\<rparr>"

(* @queues.h 58-59 queue_set_max_at_top *)
definition queue_set_max_at_top :: "'k st_queue \<Rightarrow> bool \<Rightarrow> 'k st_queue" where
  "queue_set_max_at_top q set_arg = q\<lparr>max_at_top := (if set_arg then -1 else 1)\<rparr>"

(* @queues.h 60-60 queue_remove_top *)
definition queue_remove_top :: "'k queue_env \<Rightarrow> (addr \<Rightarrow> 'k) \<Rightarrow> 'k st_queue \<Rightarrow> 'k st_queue \<times> addr" where
  "queue_remove_top env key q = q_remove env key q (queue_first_element q)"

(* @queues.h 78-78 queue_remove_all *)
definition queue_remove_all :: "'k st_queue \<Rightarrow> 'k st_queue" where
  "queue_remove_all q = q\<lparr>elements := 0\<rparr>"

(* @queues.h 79-79 queue_is_full *)
definition queue_is_full :: "'k st_queue \<Rightarrow> bool" where
  "queue_is_full q \<longleftrightarrow> elements q = max_elements q"

section \<open>The bounded queue\<close>

(* @bounded_queue.h 140-144 Bounded_queue *)
record ('e, 'k, 'p) bounded_queue =
  bq_sort_keys :: addr
  m_compare_length :: ulonglong
  m_keymaker :: "'p \<Rightarrow> 'e \<Rightarrow> bool \<Rightarrow> 'k"
  m_sort_param :: 'p
  m_queue :: "'k st_queue"

(* @bounded_queue.h 44-47 Bounded_queue::Bounded_queue *)
definition bq_new :: "('e, 'k, 'p) bounded_queue \<Rightarrow> ('e, 'k, 'p) bounded_queue" where
  "bq_new b = b\<lparr>m_queue := \<lparr>q_root = (\<lambda>_. 0), first_cmp_arg = 0, elements = 0, max_elements = 0, offset_to_key = 0,
     offset_to_queue_pos = 0, auto_extent = 0, max_at_top = 0, q_compare = (\<lambda>_ _ _. 0)\<rparr>\<rparr>"

(* @bounded_queue.h 49-52 Bounded_queue::destructor *)
definition bq_delete :: "'k queue_env \<Rightarrow> ('e, 'k, 'p) bounded_queue \<Rightarrow> ('e, 'k, 'p) bounded_queue" where
  "bq_delete env b = b\<lparr>m_queue := q_delete env (m_queue b)\<rparr>"

text \<open>The arguments are in the order of the code; a null comparison is \<open>None\<close>. The result is \<open>0\<close> on success.\<close>

(* @bounded_queue.h 148-174 Bounded_queue::init *)
definition bq_init ::
  "'k queue_env \<Rightarrow> ('e, 'k, 'p) bounded_queue \<Rightarrow> ulonglong \<Rightarrow> bool \<Rightarrow> 'k queue_compare option \<Rightarrow> ulonglong \<Rightarrow>
   ('p \<Rightarrow> 'e \<Rightarrow> bool \<Rightarrow> 'k) \<Rightarrow> 'p \<Rightarrow> addr \<Rightarrow> ('e, 'k, 'p) bounded_queue \<times> int" where
  "bq_init env b max_elems max_top cmp compare_length keymaker sort_param sort_keys =
     (let b1 = b\<lparr>bq_sort_keys := sort_keys, m_compare_length := compare_length, m_keymaker := keymaker,
                 m_sort_param := sort_param\<rparr>
      in if max_elems \<ge> 4294967295 - 1 then (b1, 1)
         else let cmp1 = (case cmp of None \<Rightarrow> q_ptr_compare env compare_length | Some f \<Rightarrow> f);
                  (q, err) = q_init env (m_queue b1) (ucast max_elems + 1) 0 max_top cmp1 compare_length 0 0
              in (b1\<lparr>m_queue := q\<rparr>, err))"

(* @bounded_queue.h 177-194 Bounded_queue::push *)
definition bq_push ::
  "'k queue_env \<Rightarrow> cells \<Rightarrow> 'e \<Rightarrow> ('e, 'k, 'p) bounded_queue \<times> (addr \<Rightarrow> 'k) \<Rightarrow> ('e, 'k, 'p) bounded_queue \<times> (addr \<Rightarrow> 'k)" where
  "bq_push env c element = (\<lambda>(b, keys).
     if queue_is_full (m_queue b)
     then let pq_top = queue_top (m_queue b);
              keys1 = keys(c pq_top := m_keymaker b (m_sort_param b) element False)
          in (b\<lparr>m_queue := queue_replace_top env (\<lambda>s. keys1 (c s)) (m_queue b)\<rparr>, keys1)
     else let slot = cell (bq_sort_keys b) (uint (elements (m_queue b)));
              keys1 = keys(c slot := m_keymaker b (m_sort_param b) element False)
          in (b\<lparr>m_queue := q_insert env (\<lambda>s. keys1 (c s)) (m_queue b) slot\<rparr>, keys1))"

text \<open>\<open>pop\<close> removes the element with index 0, where the first element of a queue has index 1.\<close>

(* @bounded_queue.h 118-127 Bounded_queue::pop *)
definition bq_pop ::
  "'k queue_env \<Rightarrow> (addr \<Rightarrow> 'k) \<Rightarrow> ('e, 'k, 'p) bounded_queue \<Rightarrow> ('e, 'k, 'p) bounded_queue \<times> addr" where
  "bq_pop env key b =
     (let b1 = (if queue_is_full (m_queue b) then b\<lparr>m_queue := fst (q_remove env key (m_queue b) 0)\<rparr> else b)
      in if elements (m_queue b1) = 0 then (b1, 0)
         else let (q, e) = q_remove env key (m_queue b1) 0 in (b1\<lparr>m_queue := q\<rparr>, e))"

(* @bounded_queue.h 132-132 Bounded_queue::num_elements *)
definition bq_num_elements :: "('e, 'k, 'p) bounded_queue \<Rightarrow> uint" where
  "bq_num_elements b = elements (m_queue b)"

(* @bounded_queue.h 137-137 Bounded_queue::is_initialized *)
definition bq_is_initialized :: "('e, 'k, 'p) bounded_queue \<Rightarrow> bool" where
  "bq_is_initialized b \<longleftrightarrow> max_elements (m_queue b) > 0"

section \<open>What the priority queue promises\<close>

definition slots :: "'k st_queue \<Rightarrow> addr list" where
  "slots q = map (q_root q) [1..<Suc (unat (elements q))]"

text \<open>A key that may stand above another one: the larger one if the queue has its maximum at the top, else the smaller one.\<close>

definition above :: "'k st_queue \<Rightarrow> 'k \<Rightarrow> 'k \<Rightarrow> bool" where
  "above q x y \<longleftrightarrow> q_compare q (first_cmp_arg q) x y * max_at_top q \<le> 0"

text \<open>The keys from index \<open>lo\<close> on are below their parents.\<close>

definition heap_from :: "nat \<Rightarrow> (addr \<Rightarrow> 'k) \<Rightarrow> 'k st_queue \<Rightarrow> bool" where
  "heap_from lo key q \<longleftrightarrow> (\<forall>i \<in> {lo..unat (elements q)}. above q (key (q_root q (i div 2))) (key (q_root q i)))"

definition preorder_of :: "'k st_queue \<Rightarrow> bool" where
  "preorder_of q \<longleftrightarrow> (\<forall>x y. above q x y \<or> above q y x) \<and> (\<forall>x y z. above q x y \<longrightarrow> above q y z \<longrightarrow> above q x z)"

definition same_config :: "'k st_queue \<Rightarrow> 'k st_queue \<Rightarrow> bool" where
  "same_config q q' \<longleftrightarrow> max_elements q' = max_elements q \<and> max_at_top q' = max_at_top q \<and> q_compare q' = q_compare q \<and>
     first_cmp_arg q' = first_cmp_arg q"

text \<open>A new queue is empty and has the given size and order. Insertion adds the element and keeps the heap. Moving
  down the element at index 1 repairs a heap in which only this element may be at the wrong place.\<close>

definition queue_law :: "'k queue_env \<Rightarrow> bool" where
  "queue_law env \<longleftrightarrow>
     (\<forall>q mx off mtop cmp arg pos ext q'. q_init env q mx off mtop cmp arg pos ext = (q', 0) \<longrightarrow>
        elements q' = 0 \<and> max_elements q' = mx \<and> max_at_top q' = (if mtop then -1 else 1) \<and> q_compare q' = cmp \<and>
        first_cmp_arg q' = arg) \<and>
     (\<forall>key q s. preorder_of q \<longrightarrow> heap_from 2 key q \<longrightarrow> elements q < max_elements q \<longrightarrow>
        same_config q (q_insert env key q s) \<and> heap_from 2 key (q_insert env key q s) \<and>
        mset (slots (q_insert env key q s)) = add_mset s (mset (slots q))) \<and>
     (\<forall>key q. preorder_of q \<longrightarrow> heap_from 4 key q \<longrightarrow> 0 < elements q \<longrightarrow>
        same_config q (q_downheap env key q 1) \<and> heap_from 2 key (q_downheap env key q 1) \<and>
        mset (slots (q_downheap env key q 1)) = mset (slots q))"

lemma queue_law_parts:
  assumes "queue_law env"
  shows "q_init env q mx off mtop cmp arg pos ext = (q', 0) \<Longrightarrow>
      elements q' = 0 \<and> max_elements q' = mx \<and> max_at_top q' = (if mtop then -1 else 1) \<and> q_compare q' = cmp \<and> first_cmp_arg q' = arg"
    and "preorder_of q \<Longrightarrow> heap_from 2 key q \<Longrightarrow> elements q < max_elements q \<Longrightarrow>
      same_config q (q_insert env key q s) \<and> heap_from 2 key (q_insert env key q s) \<and>
      mset (slots (q_insert env key q s)) = add_mset s (mset (slots q))"
    and "preorder_of q \<Longrightarrow> heap_from 4 key q \<Longrightarrow> 0 < elements q \<Longrightarrow>
      same_config q (q_downheap env key q 1) \<and> heap_from 2 key (q_downheap env key q 1) \<and>
      mset (slots (q_downheap env key q 1)) = mset (slots q)"
  using assms unfolding queue_law_def by blast+

lemma same_config_refl: "same_config q q"
  by (simp add: same_config_def)

lemma same_config_trans: "same_config q r \<Longrightarrow> same_config r s \<Longrightarrow> same_config q s"
  by (simp add: same_config_def)

lemma same_config_above: "same_config q q' \<Longrightarrow> above q' = above q"
  by (intro ext) (simp add: same_config_def above_def)

lemma length_slots [simp]: "length (slots q) = unat (elements q)"
  by (simp add: slots_def)

lemma root_in_slots: "1 \<le> i \<Longrightarrow> i \<le> unat (elements q) \<Longrightarrow> q_root q i \<in> set (slots q)"
  by (simp add: slots_def del: upt_Suc)

text \<open>The element at the top and the others.\<close>

definition below_top :: "'k st_queue \<Rightarrow> addr list" where
  "below_top q = map (q_root q) [2..<Suc (unat (elements q))]"

lemma slots_top: "0 < unat (elements q) \<Longrightarrow> slots q = queue_top q # below_top q"
proof -
  assume "0 < unat (elements q)"
  then have "[1..<Suc (unat (elements q))] = 1 # [2..<Suc (unat (elements q))]"
    by (simp add: upt_conv_Cons numeral_2_eq_2)
  then show ?thesis by (simp add: slots_def below_top_def queue_top_def)
qed

lemma heap_top:
  assumes "preorder_of q" and "heap_from 2 key q" and "1 \<le> i" and "i \<le> unat (elements q)"
  shows "above q (key (queue_top q)) (key (q_root q i))"
  using assms(3,4)
proof (induction i rule: less_induct)
  case (less i)
  show ?case
  proof (cases "i = 1")
    case True
    then show ?thesis using assms(1) by (auto simp: queue_top_def preorder_of_def)
  next
    case False
    then have "above q (key (queue_top q)) (key (q_root q (i div 2)))" using less by simp
    moreover have "above q (key (q_root q (i div 2))) (key (q_root q i))"
      using assms(2) less.prems False by (simp add: heap_from_def)
    ultimately show ?thesis using assms(1) by (auto simp: preorder_of_def)
  qed
qed

lemma top_above:
  assumes "preorder_of q" and "heap_from 2 key q" and "x \<in> set (slots q)"
  shows "above q (key (queue_top q)) (key x)"
  using heap_top [OF assms(1,2)] assms(3) by (auto simp: slots_def)

lemma heap_cong:
  assumes "\<And>i. lo div 2 \<le> i \<Longrightarrow> i \<le> unat (elements q) \<Longrightarrow> key' (q_root q i) = key (q_root q i)"
  shows "heap_from lo key' q = heap_from lo key q"
proof -
  have "key' (q_root q (i div 2)) = key (q_root q (i div 2))" "key' (q_root q i) = key (q_root q i)"
    if "i \<in> {lo..unat (elements q)}" for i
    using that by (auto intro!: assms intro: div_le_mono order.trans [OF div_le_dividend])
  then show ?thesis by (simp add: heap_from_def)
qed

section \<open>The first rows\<close>

text \<open>The keys in the queue, by the pointers and the memory of keys.\<close>

definition queue_keys :: "(addr \<Rightarrow> 'k) \<Rightarrow> 'k st_queue \<Rightarrow> 'k multiset" where
  "queue_keys key q = image_mset key (mset (slots q))"

definition lower_keys :: "(addr \<Rightarrow> 'k) \<Rightarrow> 'k st_queue \<Rightarrow> 'k multiset" where
  "lower_keys key q = image_mset key (mset (below_top q))"

lemma queue_keys_top:
  "0 < unat (elements q) \<Longrightarrow> queue_keys key q = add_mset (key (queue_top q)) (lower_keys key q)"
  by (simp add: queue_keys_def lower_keys_def slots_top)

text \<open>The invariant after keys \<open>ks\<close> were pushed into a queue for \<open>N\<close> rows: the elements are the first pointers of the array, each once,
  the heap is in order, and a key that was given up is above every key but the top one.\<close>

definition keeps_first :: "nat \<Rightarrow> addr \<Rightarrow> 'k list \<Rightarrow> (addr \<Rightarrow> 'k) \<Rightarrow> 'k st_queue \<Rightarrow> bool" where
  "keeps_first N sk ks key q \<longleftrightarrow> preorder_of q \<and> heap_from 2 key q \<and> unat (max_elements q) = N + 1 \<and>
     unat (elements q) = min (N + 1) (length ks) \<and>
     mset (slots q) = mset (map (\<lambda>i. cell sk (int i)) [0..<unat (elements q)]) \<and>
     (\<exists>gone. mset ks = queue_keys key q + gone \<and> (gone \<noteq> {#} \<longrightarrow> unat (elements q) = N + 1) \<and>
        (\<forall>d \<in># gone. \<forall>y \<in># lower_keys key q. above q d y))"

text \<open>What is kept: all keys, or all but the top one if the extra place is in use.\<close>

definition kept_keys :: "(addr \<Rightarrow> 'k) \<Rightarrow> 'k st_queue \<Rightarrow> 'k multiset" where
  "kept_keys key q = (if queue_is_full q then lower_keys key q else queue_keys key q)"

lemma insert_keeps_first:
  assumes law: "queue_law env" and inv: "keeps_first N sk ks key q" and "\<not> queue_is_full q"
    and same: "\<And>i. i < unat (elements q) \<Longrightarrow> key' (cell sk (int i)) = key (cell sk (int i))"
    and new: "key' (cell sk (uint (elements q))) = k"
  shows "keeps_first N sk (ks @ [k]) key' (q_insert env key' q (cell sk (uint (elements q)))) \<and>
     same_config q (q_insert env key' q (cell sk (uint (elements q))))"
proof -
  define n where "n = unat (elements q)"
  have u: "uint (elements q) = int n" using uint_nat [of "elements q"] by (simp only: n_def)
  note i = inv [unfolded keeps_first_def, folded n_def]
  have "n \<noteq> N + 1" using assms(3) i by (auto simp: queue_is_full_def n_def word_unat_eq_iff)
  then have n: "n = length ks" "n < N + 1" using i by auto
  have set: "set (slots q) = (\<lambda>i. cell sk (int i)) ` {0..<n}" using i by (metis mset_eq_setD set_map set_upt)
  have k: "\<forall>x \<in> set (slots q). key' x = key x" unfolding set using same by (auto simp: n_def)
  then have "heap_from 2 key' q = heap_from 2 key q" by (intro heap_cong) (simp add: root_in_slots)
  moreover have "elements q < max_elements q" using n i by (simp add: word_less_nat_alt n_def)
  ultimately have 1: "same_config q (q_insert env key' q (cell sk (int n)))" "heap_from 2 key' (q_insert env key' q (cell sk (int n)))"
    "mset (slots (q_insert env key' q (cell sk (int n)))) = add_mset (cell sk (int n)) (mset (slots q))"
    using queue_law_parts(2) [OF law] i by blast+
  define q' where "q' = q_insert env key' q (cell sk (int n))"
  note 2 = 1 [folded q'_def]
  have e: "unat (elements q') = Suc n" using 2(3) by (metis length_slots n_def size_add_mset size_mset)
  have "image_mset key' (mset (slots q)) = image_mset key (mset (slots q))" using k by (intro image_mset_cong) simp
  then have "queue_keys key' q' = add_mset k (queue_keys key q)" using 2(3) new u by (simp add: queue_keys_def)
  moreover have "mset ks = queue_keys key q" using i n(2) by auto
  ultimately have "mset (ks @ [k]) = queue_keys key' q' + {#}" by simp
  moreover have "preorder_of q'" "unat (max_elements q') = N + 1"
    using i 2(1) same_config_above [OF 2(1)] by (simp_all add: preorder_of_def same_config_def)
  moreover have "mset (slots q') = mset (map (\<lambda>i. cell sk (int i)) [0..<unat (elements q')])"
    using 2(3) i e by simp
  ultimately show ?thesis using 2(1,2) e n unfolding keeps_first_def u q'_def [symmetric] by auto
qed

text \<open>If \<open>x\<close> joins the keys \<open>L\<close>, which are all below \<open>d\<close>, the keys under the new top are all below \<open>d\<close>.\<close>

lemma lower_after_join:
  assumes "preorder_of q" and "add_mset t R = add_mset x L" and "\<forall>y \<in># R. above q t y" and "\<forall>y \<in># L. above q d y"
  shows "\<forall>y \<in># R. above q d y"
proof
  fix y assume y: "y \<in># R"
  show "above q d y"
  proof (cases "y \<in># L")
    case False
    have "y \<in># add_mset x L" using y assms(2) by (metis union_single_eq_member add_mset_commute insert_iff set_mset_add_mset_insert)
    then have x: "y = x" using False by simp
    then have "t \<noteq> x" using assms(2) y False by auto
    then have "t \<in># L" using assms(2) by (metis insert_iff set_mset_add_mset_insert)
    then have "above q d t" "above q t y" using assms(3,4) y by blast+
    then show ?thesis using assms(1) unfolding preorder_of_def by blast
  qed (use assms(4) in blast)
qed

lemma replace_keeps_first:
  assumes law: "queue_law env" and inv: "keeps_first N sk ks key q" and full: "queue_is_full q"
    and same: "\<And>x. x \<in> set (below_top q) \<Longrightarrow> key' x = key x" and new: "key' (queue_top q) = k"
  shows "keeps_first N sk (ks @ [k]) key' (queue_replace_top env key' q) \<and> same_config q (queue_replace_top env key' q)"
proof -
  note i = inv [unfolded keeps_first_def]
  have n: "unat (elements q) = N + 1" using full i by (simp add: queue_is_full_def)
  define q' where "q' = q_downheap env key' q 1"
  have r: "q_root q j \<in> set (below_top q)" if "2 \<le> j" "j \<le> unat (elements q)" for j
    using that by (simp add: below_top_def del: upt_Suc)
  have "heap_from 4 key' q = heap_from 4 key q" by (intro heap_cong same r) auto
  moreover have "heap_from 4 key q" using i by (auto simp: heap_from_def)
  moreover have "0 < elements q" using n by (simp add: word_less_nat_alt)
  ultimately have 1: "same_config q q'" "heap_from 2 key' q'" "mset (slots q') = mset (slots q)"
    using queue_law_parts(3) [OF law] i unfolding q'_def by blast+
  have e: "unat (elements q') = N + 1" using 1(3) n by (metis length_slots size_mset)
  define L t where "L = lower_keys key q" and "t = key (queue_top q)"
  have L: "lower_keys key' q = L" unfolding L_def lower_keys_def by (intro image_mset_cong) (simp add: same)
  have old: "queue_keys key q = add_mset t L" using queue_keys_top [of q key] n by (simp add: L_def t_def)
  have Q: "queue_keys key' q' = add_mset k L"
    using queue_keys_top [of q key'] n 1(3) L new by (simp add: queue_keys_def)
  obtain gone where g: "mset ks = queue_keys key q + gone" "\<forall>d \<in># gone. \<forall>y \<in># L. above q d y"
    using i by (auto simp: L_def)
  have p': "preorder_of q'" using i same_config_above [OF 1(1)] by (simp add: preorder_of_def)
  have top: "\<forall>y \<in># L. above q t y"
    using i top_above [of q key] n by (auto simp: L_def t_def lower_keys_def slots_top)
  have R: "add_mset (key' (queue_top q')) (lower_keys key' q') = add_mset k L"
    using Q queue_keys_top [of q' key'] e by simp
  have "\<forall>y \<in># lower_keys key' q'. above q' (key' (queue_top q')) y"
    using top_above [OF p' 1(2)] e by (auto simp: lower_keys_def slots_top)
  then have "\<forall>y \<in># lower_keys key' q'. above q d y" if "d \<in># add_mset t gone" for d
    using lower_after_join [of q "key' (queue_top q')" "lower_keys key' q'" k L d] i R g(2) top that same_config_above [OF 1(1)]
    by auto
  moreover have "mset (ks @ [k]) = queue_keys key' q' + add_mset t gone" using g(1) old Q by simp
  moreover have "unat (max_elements q') = N + 1" using i 1(1) by (simp add: same_config_def)
  moreover have "min (N + 1) (length (ks @ [k])) = N + 1" using i n by (auto simp: min_def split: if_splits)
  moreover have "mset (slots q') = mset (map (\<lambda>i. cell sk (int i)) [0..<unat (elements q')])"
    using 1(3) i unfolding e n by (simp only:)
  ultimately show ?thesis
    using p' 1(1,2) e same_config_above [OF 1(1)] unfolding keeps_first_def queue_replace_top_def q'_def [symmetric]
    by (intro conjI exI [of _ "add_mset t gone"]) simp_all
qed

text \<open>The pointers of the array lead to different places.\<close>

definition separate_keys :: "cells \<Rightarrow> addr \<Rightarrow> nat \<Rightarrow> bool" where
  "separate_keys c sk n \<longleftrightarrow> inj_on (\<lambda>i. c (cell sk (int i))) {0..<n}"

lemma push_keeps_first:
  assumes "queue_law env" and "keeps_first N (bq_sort_keys b) ks (\<lambda>s. keys (c s)) (m_queue b)"
    and sep: "separate_keys c (bq_sort_keys b) (N + 1)" and push: "bq_push env c e (b, keys) = (b', keys')"
  shows "keeps_first N (bq_sort_keys b) (ks @ [m_keymaker b (m_sort_param b) e False]) (\<lambda>s. keys' (c s)) (m_queue b') \<and>
     same_config (m_queue b) (m_queue b') \<and> b' = b\<lparr>m_queue := m_queue b'\<rparr>"
proof -
  define q sk k where "q = m_queue b" and "sk = bq_sort_keys b" and "k = m_keymaker b (m_sort_param b) e False"
  note inv = assms(2) [folded q_def sk_def] and sep = sep [folded sk_def]
  note i = inv [unfolded keeps_first_def]
  show ?thesis
  proof (cases "queue_is_full q")
    case True
    then have n: "unat (elements q) = N + 1" using i by (simp add: queue_is_full_def)
    have ms: "mset (slots q) = mset (map (\<lambda>i. cell sk (int i)) [0..<N + 1])" using i n by simp
    have "distinct (map (\<lambda>i. cell sk (int i)) [0..<N + 1])" by (auto simp: distinct_map inj_on_def cell_def)
    then have "distinct (slots q)" using ms mset_eq_imp_distinct_iff by blast
    then have nt: "queue_top q \<notin> set (below_top q)" using n by (simp add: slots_top)
    have "set (slots q) = (\<lambda>i. cell sk (int i)) ` {0..<N + 1}" using ms by (metis mset_eq_setD set_map set_upt)
    then have "inj_on c (set (slots q))" using sep by (auto simp: separate_keys_def inj_on_def)
    then have "c x \<noteq> c (queue_top q)" if "x \<in> set (below_top q)" for x
      using that nt n by (auto simp: slots_top inj_on_def)
    then have "keeps_first N sk (ks @ [k]) (\<lambda>s. (keys(c (queue_top q) := k)) (c s))
        (queue_replace_top env (\<lambda>s. (keys(c (queue_top q) := k)) (c s)) q) \<and>
        same_config q (queue_replace_top env (\<lambda>s. (keys(c (queue_top q) := k)) (c s)) q)"
      by (intro replace_keeps_first [OF assms(1) inv True]) simp_all
    then show ?thesis using push True by (auto simp: bq_push_def Let_def q_def sk_def k_def)
  next
    case False
    define slot where "slot = cell sk (uint (elements q))"
    have u: "uint (elements q) = int (unat (elements q))" by (rule uint_nat)
    have "unat (elements q) \<noteq> N + 1" using False i by (auto simp: queue_is_full_def word_unat_eq_iff)
    then have "unat (elements q) < N + 1" using i by auto
    then have "c (cell sk (int j)) \<noteq> c slot" if "j < unat (elements q)" for j
      using that inj_onD [OF sep [unfolded separate_keys_def], of j "unat (elements q)"] unfolding slot_def u by force
    then have "keeps_first N sk (ks @ [k]) (\<lambda>s. (keys(c slot := k)) (c s)) (q_insert env (\<lambda>s. (keys(c slot := k)) (c s)) q slot) \<and>
        same_config q (q_insert env (\<lambda>s. (keys(c slot := k)) (c s)) q slot)"
      unfolding slot_def by (intro insert_keeps_first [OF assms(1) inv False]) simp_all
    then show ?thesis using push False by (auto simp: bq_push_def Let_def q_def sk_def k_def slot_def)
  qed
qed

lemma pushes_keep_first:
  assumes "queue_law env" and "keeps_first N (bq_sort_keys b) ks (\<lambda>s. keys (c s)) (m_queue b)"
    and "separate_keys c (bq_sort_keys b) (N + 1)" and "fold (bq_push env c) es (b, keys) = (b', keys')"
  shows "keeps_first N (bq_sort_keys b) (ks @ map (\<lambda>e. m_keymaker b (m_sort_param b) e False) es) (\<lambda>s. keys' (c s)) (m_queue b') \<and>
     same_config (m_queue b) (m_queue b')"
  using assms(2-4)
proof (induction es arbitrary: b keys ks)
  case (Cons e es)
  obtain b1 keys1 where p: "bq_push env c e (b, keys) = (b1, keys1)" by fastforce
  note 1 = push_keeps_first [OF assms(1) Cons.prems(1,2) p]
  then have f: "bq_sort_keys b1 = bq_sort_keys b" "m_keymaker b1 = m_keymaker b" "m_sort_param b1 = m_sort_param b"
    by (metis bounded_queue.select_convs bounded_queue.surjective bounded_queue.update_convs(5))+
  show ?case
    using Cons.IH [of b1 "ks @ [m_keymaker b (m_sort_param b) e False]" keys1] 1 Cons.prems p f
      same_config_trans [of "m_queue b" "m_queue b1" "m_queue b'"] by simp
qed (simp add: same_config_refl)

text \<open>A comparison in the sense of the C library: a total preorder by the sign of its result.\<close>

definition compare_law :: "('k \<Rightarrow> 'k \<Rightarrow> int) \<Rightarrow> bool" where
  "compare_law f \<longleftrightarrow> (\<forall>x y. f x y > 0 \<longleftrightarrow> f y x < 0) \<and> (\<forall>x y z. f x y \<le> 0 \<longrightarrow> f y z \<le> 0 \<longrightarrow> f x z \<le> 0)"

lemma compare_preorder:
  assumes "compare_law (q_compare q (first_cmp_arg q))" and "max_at_top q = 1 \<or> max_at_top q = -1"
  shows "preorder_of q" and "above q x y \<longleftrightarrow> (if max_at_top q = 1 then 0 \<le> q_compare q (first_cmp_arg q) y x
      else q_compare q (first_cmp_arg q) y x \<le> 0)"
proof -
  define f where "f = q_compare q (first_cmp_arg q)"
  have a: "f x y > 0 \<longleftrightarrow> f y x < 0" and t: "f x y \<le> 0 \<Longrightarrow> f y z \<le> 0 \<Longrightarrow> f x z \<le> 0" for x y z
    using assms(1) unfolding compare_law_def f_def by blast+
  have ab: "above q x y \<longleftrightarrow> (if max_at_top q = 1 then f x y \<le> 0 else f y x \<le> 0)" for x y
    using assms(2) a [of x y] a [of y x] by (auto simp: above_def f_def)
  have tot: "f x y \<le> 0 \<or> f y x \<le> 0" for x y using a [of x y] by linarith
  show "preorder_of q"
  proof (cases "max_at_top q = 1")
    case True
    then show ?thesis unfolding preorder_of_def ab if_P [OF True] using tot t by blast
  next
    case False
    then show ?thesis unfolding preorder_of_def ab if_not_P [OF False] using tot t by blast
  qed
  show "above q x y \<longleftrightarrow> (if max_at_top q = 1 then 0 \<le> q_compare q (first_cmp_arg q) y x
      else q_compare q (first_cmp_arg q) y x \<le> 0)"
    using ab [of x y] a [of x y] a [of y x] by (auto simp: f_def)
qed

text \<open>C15: After any number of pushes, a queue that was set up for \<open>N\<close> rows has kept the first \<open>N\<close> of all keys it was given,
  by the order of the comparison: as many as there were, up to \<open>N\<close>, and each of them before or equal to
  each of the others. With the maximum at the top these are the smallest keys, otherwise the largest. The
  one key more that a full queue holds is at its top.\<close>

theorem bounded_queue_first_rows:
  fixes keys :: "addr \<Rightarrow> 'k" and b0 :: "('e, 'k, 'p) bounded_queue"
  assumes "queue_law env" and "compare_law (cmp len)" and "separate_keys c sk (unat N + 1)"
    and "bq_init env b0 N mtop (Some cmp) len mk sp sk = (b, 0)"
    and "fold (bq_push env c) es (b, keys) = (b', keys')"
  shows "\<exists>rest. mset (map (\<lambda>e. mk sp e False) es) = kept_keys (\<lambda>s. keys' (c s)) (m_queue b') + rest \<and>
     size (kept_keys (\<lambda>s. keys' (c s)) (m_queue b')) = min (unat N) (length es) \<and>
     (\<forall>k \<in># kept_keys (\<lambda>s. keys' (c s)) (m_queue b'). \<forall>r \<in># rest. if mtop then cmp len k r \<le> 0 else 0 \<le> cmp len k r) \<and>
     unat (bq_num_elements b') = min (unat N + 1) (length es)"
proof -
  define n key q where "n = unat N" and "key = (\<lambda>s. keys' (c s))" and "q = m_queue b'"
  have small: "n < 4294967294" using assms(4) by (auto simp: bq_init_def Let_def n_def word_le_nat_alt split: if_splits)
  then obtain qi where qi: "q_init env (m_queue b0) (ucast N + 1) 0 mtop cmp len 0 0 = (qi, 0)" "m_queue b = qi"
    and b: "bq_sort_keys b = sk" "m_keymaker b = mk" "m_sort_param b = sp"
    using assms(4) by (auto simp: bq_init_def Let_def split: if_splits prod.splits)
  note law = queue_law_parts(1) [OF assms(1) qi(1)]
  have "unat (ucast N :: uint) = n" unfolding n_def by (rule unat_ucast_small) (use small in \<open>simp add: n_def\<close>)
  then have mx: "unat (max_elements qi) = n + 1"
    using law small unat_plus_small [of "ucast N :: uint" 1] by simp
  have ord: "preorder_of qi" using law assms(2) by (intro compare_preorder) auto
  have "keeps_first n sk [] (\<lambda>s. keys (c s)) qi"
    using law mx ord by (simp add: keeps_first_def heap_from_def slots_def queue_keys_def)
  then have 1: "keeps_first n sk (map (\<lambda>e. mk sp e False) es) key q" and cf: "same_config qi q"
    using pushes_keep_first [OF assms(1), of n b "[]" keys c es b' keys'] assms(3,5) b qi(2) by (simp_all add: n_def key_def q_def)
  note i = 1 [unfolded keeps_first_def]
  have conf: "q_compare q = cmp" "first_cmp_arg q = len" "max_at_top q = (if mtop then -1 else 1)"
    using cf law by (simp_all add: same_config_def)
  have ab: "above q x y \<longleftrightarrow> (if mtop then cmp len y x \<le> 0 else 0 \<le> cmp len y x)" for x y
    using compare_preorder(2) [of q x y] conf assms(2) by simp
  obtain gone where g: "mset (map (\<lambda>e. mk sp e False) es) = queue_keys key q + gone"
    "gone \<noteq> {#} \<longrightarrow> unat (elements q) = n + 1" "\<forall>d \<in># gone. \<forall>y \<in># lower_keys key q. above q d y" using i by blast
  have e: "unat (elements q) = min (n + 1) (length es)" using i by simp
  have "\<exists>rest. mset (map (\<lambda>e. mk sp e False) es) = kept_keys key q + rest \<and> size (kept_keys key q) = min n (length es) \<and>
     (\<forall>k \<in># kept_keys key q. \<forall>r \<in># rest. above q r k)"
  proof (cases "queue_is_full q")
    case True
    then have n: "unat (elements q) = n + 1" using i by (simp add: queue_is_full_def)
    then have "length (below_top q) = n" using length_slots [of q] slots_top [of q] by simp
    then have "size (lower_keys key q) = n" by (simp add: lower_keys_def)
    moreover have "\<forall>k \<in># lower_keys key q. above q (key (queue_top q)) k"
      using i top_above [of q key] n by (auto simp: lower_keys_def slots_top)
    moreover have "min n (length es) = n" using e n by (auto simp: min_def split: if_splits)
    ultimately show ?thesis
      using True g(1,3) queue_keys_top [of q key] n
      by (intro exI [of _ "add_mset (key (queue_top q)) gone"]) (simp add: kept_keys_def)
  next
    case False
    then have "unat (elements q) \<noteq> n + 1" using i by (auto simp: queue_is_full_def word_unat_eq_iff)
    then have "gone = {#}" "unat (elements q) = min n (length es)" using g(2) e by auto
    then show ?thesis using False g(1) by (intro exI [of _ "{#}"]) (simp add: kept_keys_def queue_keys_def)
  qed
  then show ?thesis using e unfolding ab unfolding key_def q_def n_def bq_num_elements_def by simp
qed

section \<open>On the sort buffer\<close>

text \<open>The pointers that \<open>init_record_pointers\<close> sets up lead to different places, as the queue needs it.\<close>

lemma filesort_separate_keys:
  assumes "allocated fb" and "0 < m_record_length fb" and "n \<le> unat (m_num_records fb)"
    and "init_record_pointers fb c0 = Some (fb', c)"
  shows "separate_keys c (get_sort_keys fb') n"
proof -
  have at: "c (cell (get_sort_keys fb') (int i)) = m_rawmem fb + int i * uint (m_record_length fb)" if "i < n" for i
    using init_record_pointers_places [OF assms(1), of c0] assms(3,4) that by (metis order_less_le_trans option.inject prod.inject)
  have "uint (m_record_length fb) \<noteq> 0" using assms(2) by (simp add: word_less_def)
  then show ?thesis using at by (auto simp: separate_keys_def inj_on_def)
qed

section \<open>Example\<close>

text \<open>A priority queue that keeps its array sorted: a sorted array is a heap.\<close>

fun put_in :: "('a \<Rightarrow> 'a \<Rightarrow> bool) \<Rightarrow> 'a \<Rightarrow> 'a list \<Rightarrow> 'a list" where
  "put_in le x [] = [x]"
| "put_in le x (y # ys) = (if le x y then x # y # ys else y # put_in le x ys)"

definition sorted_slots :: "(addr \<Rightarrow> 'k) \<Rightarrow> 'k st_queue \<Rightarrow> addr list \<Rightarrow> addr list" where
  "sorted_slots key q xs = foldr (put_in (\<lambda>s t. above q (key s) (key t))) xs []"

definition set_slots :: "'k st_queue \<Rightarrow> addr list \<Rightarrow> 'k st_queue" where
  "set_slots q xs = q\<lparr>q_root := (\<lambda>i. if 1 \<le> i \<and> i \<le> length xs then xs ! (i - 1) else 0), elements := of_nat (length xs)\<rparr>"

definition sorted_env :: "'k queue_env" where
  "sorted_env = \<lparr>
     q_init = (\<lambda>q mx off mtop cmp arg pos ext. (q\<lparr>first_cmp_arg := arg, elements := 0, max_elements := mx, offset_to_key := off,
        offset_to_queue_pos := pos, auto_extent := ext, max_at_top := (if mtop then -1 else 1), q_compare := cmp\<rparr>, 0)),
     q_delete = (\<lambda>q. q\<lparr>max_elements := 0\<rparr>),
     q_insert = (\<lambda>key q s. set_slots q (sorted_slots key q (s # slots q))),
     q_remove = (\<lambda>key q idx. (set_slots q (remove1 (q_root q (unat idx)) (slots q)), q_root q (unat idx))),
     q_downheap = (\<lambda>key q idx. set_slots q (sorted_slots key q (slots q))),
     q_ptr_compare = (\<lambda>n m x y. 0)\<rparr>"

lemma put_in_mset: "mset (put_in le x ys) = add_mset x (mset ys)"
  by (induction ys) auto

lemma put_in_sorted:
  assumes "\<forall>a b. le a b \<or> le b a" and "\<forall>a b c. le a b \<longrightarrow> le b c \<longrightarrow> le a c" and "sorted_wrt le ys"
  shows "sorted_wrt le (put_in le x ys)"
  using assms(3)
proof (induction ys)
  case (Cons y ys)
  have set: "set (put_in le x ys) = insert x (set ys)" by (metis put_in_mset set_mset_add_mset_insert set_mset_mset)
  show ?case
  proof (cases "le x y")
    case True
    then show ?thesis using Cons.prems assms(2) by auto
  next
    case False
    then have "le y x" using assms(1) by blast
    then show ?thesis using False Cons set by auto
  qed
qed simp

lemma sorted_slots_ok:
  assumes "preorder_of q"
  shows "mset (sorted_slots key q xs) = mset xs" and "sorted_wrt (\<lambda>s t. above q (key s) (key t)) (sorted_slots key q xs)"
proof -
  have o: "\<forall>a b. above q (key a) (key b) \<or> above q (key b) (key a)"
    "\<forall>a b c. above q (key a) (key b) \<longrightarrow> above q (key b) (key c) \<longrightarrow> above q (key a) (key c)"
    using assms unfolding preorder_of_def by blast+
  show "mset (sorted_slots key q xs) = mset xs" by (induction xs) (simp_all add: sorted_slots_def put_in_mset)
  show "sorted_wrt (\<lambda>s t. above q (key s) (key t)) (sorted_slots key q xs)"
    using put_in_sorted [OF o] by (induction xs) (simp_all add: sorted_slots_def)
qed

lemma set_slots_ok:
  assumes "preorder_of q" and "length xs < 2 ^ 32"
  shows "same_config q (set_slots q (sorted_slots key q xs)) \<and> heap_from 2 key (set_slots q (sorted_slots key q xs)) \<and>
     mset (slots (set_slots q (sorted_slots key q xs))) = mset xs"
proof -
  define ys q' where "ys = sorted_slots key q xs" and "q' = set_slots q ys"
  note ok = sorted_slots_ok [OF assms(1), where key = key and xs = xs, folded ys_def]
  have len: "length ys = length xs" using ok(1) by (metis size_mset)
  then have e: "unat (elements q') = length ys" using assms(2) by (simp add: q'_def set_slots_def unat_of_nat)
  have "q_root q' (Suc i) = ys ! i" if "i < length ys" for i using that by (simp add: q'_def set_slots_def)
  then have "slots q' = ys" by (intro nth_equalityI) (simp_all add: slots_def e del: upt_Suc)
  moreover have c: "same_config q q'" by (simp add: same_config_def q'_def set_slots_def)
  moreover have "above q (key (ys ! (i div 2 - 1))) (key (ys ! (i - 1)))" if "2 \<le> i" "i \<le> length ys" for i
    using sorted_wrt_nth_less [OF ok(2), of "i div 2 - 1" "i - 1"] that by fastforce
  then have "heap_from 2 key q'"
    using same_config_above [OF c] by (auto simp: heap_from_def e) (auto simp: q'_def set_slots_def)
  ultimately show ?thesis using ok(1) by (simp add: q'_def ys_def)
qed

lemma sorted_env_law: "queue_law sorted_env"
proof -
  have "length (slots q) < 2 ^ 32" for q :: "'a st_queue" using unsigned_less [of "elements q", where 'a = nat] by simp
  moreover have "length (s # slots q) < 2 ^ 32" if "elements q < max_elements q" for q :: "'a st_queue" and s
    using that unsigned_less [of "max_elements q", where 'a = nat] by (simp add: word_less_nat_alt)
  ultimately show ?thesis
    unfolding queue_law_def using set_slots_ok by (fastforce simp: sorted_env_def)
qed

text \<open>The two smallest of four keys, in a sort buffer for three.\<close>

definition demo_keys :: filesort_buffer where
  "demo_keys = fb_new\<lparr>m_rawmem := 1000, m_record_pointers := 1028, m_num_records := 3, m_record_length := 4, m_size_in_bytes := 36\<rparr>"

definition demo_queue :: "addr \<Rightarrow> (int, int, unit) bounded_queue \<times> int" where
  "demo_queue sk = bq_init sorted_env
     (bq_new \<lparr>bq_sort_keys = 0, m_compare_length = 0, m_keymaker = (\<lambda>_ e _. e), m_sort_param = (), m_queue = undefined\<rparr>)
     2 True (Some (\<lambda>_ x y. x - y)) 4 (\<lambda>_ e _. e) () sk"

theorem bounded_queue_first_rows_witness:
  "\<exists>fb c b b' keys'. init_record_pointers demo_keys (\<lambda>_. 0) = Some (fb, c) \<and> demo_queue (get_sort_keys fb) = (b, 0) \<and>
     fold (bq_push sorted_env c) [5, 3, 9, 1] (b, \<lambda>_. 0) = (b', keys') \<and>
     size (kept_keys (\<lambda>s. keys' (c s)) (m_queue b')) = 2 \<and> unat (bq_num_elements b') = 3"
proof -
  have a: "allocated demo_keys" by (simp add: demo_keys_def allocated_def block_end_def fb_new_def)
  obtain fb c where 1: "init_record_pointers demo_keys (\<lambda>_. 0) = Some (fb, c)"
    using init_record_pointers_places [OF a, of "\<lambda>_. 0"] by metis
  have sep: "separate_keys c (get_sort_keys fb) (unat (2 :: ulonglong) + 1)"
    using filesort_separate_keys [OF a _ _ 1] by (simp add: demo_keys_def fb_new_def)
  obtain b where 2: "demo_queue (get_sort_keys fb) = (b, 0)"
    by (simp add: demo_queue_def bq_init_def sorted_env_def Let_def)
  obtain b' keys' where 3: "fold (bq_push sorted_env c) [5, 3, 9, 1] (b, \<lambda>_. 0) = (b', keys')"
    by (metis surj_pair)
  have law: "compare_law ((\<lambda>_ x y. x - y) (4 :: ulonglong) :: int \<Rightarrow> int \<Rightarrow> int)" by (auto simp: compare_law_def)
  show ?thesis
    using bounded_queue_first_rows [where cmp = "\<lambda>_ x y. x - y" and len = 4, OF sorted_env_law law sep 2 [unfolded demo_queue_def] 3] 1 2 3 by auto
qed

end
