(* ===== verification/Sort_Record.thy ===== *)
theory Sort_Record
  imports Byte_Order Array_View
begin

text \<open>
  The records of filesort, from \<^verbatim>\<open>sql_sort.h\<close>: \<open>Merge_chunk\<close>, the place of a sorted run in the file and in memory,
  \<open>Addon_fields\<close> and \<open>Sort_keys\<close> with their length prefixes, and the lengths of records in \<open>Sort_param\<close> for fixed and
  packed formats. Records lie in the byte memory of \<open>Byte_Order\<close>, whose macros store the prefixes. Addresses of
  buffers in \<open>Merge_chunk\<close> are integers, with \<open>0\<close> for null. The comparison functions and the allocator are
  defined elsewhere and are arguments.
\<close>

section \<open>Merge chunks\<close>

(* @sql_sort.h 142-155 Merge_chunk *)
record merge_chunk =
  m_current_key :: int
  m_file_position :: ulonglong
  m_buffer_start :: int
  m_buffer_end :: int
  m_rowcount :: ulonglong
  m_mem_count :: ulonglong
  m_max_keys :: ulonglong

(* @sql_sort.h 142-155 Merge_chunk (initial values) *)
definition chunk_new :: merge_chunk where
  "chunk_new = \<lparr>m_current_key = 0, m_file_position = 0, m_buffer_start = 0, m_buffer_end = 0, m_rowcount = 0,
     m_mem_count = 0, m_max_keys = 0\<rparr>"

(* @sql_sort.h 81-81 Merge_chunk::set_file_position *)
definition set_file_position :: "merge_chunk \<Rightarrow> ulonglong \<Rightarrow> merge_chunk" where
  "set_file_position m val = m\<lparr>m_file_position := val\<rparr>"

(* @sql_sort.h 82-82 Merge_chunk::advance_file_position *)
definition advance_file_position :: "merge_chunk \<Rightarrow> ulonglong \<Rightarrow> merge_chunk" where
  "advance_file_position m val = m\<lparr>m_file_position := m_file_position m + val\<rparr>"

(* @sql_sort.h 87-91 Merge_chunk::set_buffer *)
definition set_buffer :: "merge_chunk \<Rightarrow> int \<Rightarrow> int \<Rightarrow> merge_chunk" where
  "set_buffer m start stop = m\<lparr>m_buffer_start := start, m_buffer_end := stop\<rparr>"

(* @sql_sort.h 92-95 Merge_chunk::set_buffer_start *)
definition set_buffer_start :: "merge_chunk \<Rightarrow> int \<Rightarrow> merge_chunk" where
  "set_buffer_start m start = m\<lparr>m_buffer_start := start\<rparr>"

(* @sql_sort.h 96-100 Merge_chunk::set_buffer_end *)
definition set_buffer_end :: "merge_chunk \<Rightarrow> int \<Rightarrow> merge_chunk" where
  "set_buffer_end m stop = m\<lparr>m_buffer_end := stop\<rparr>"

(* @sql_sort.h 102-102 Merge_chunk::init_current_key *)
definition init_current_key :: "merge_chunk \<Rightarrow> merge_chunk" where
  "init_current_key m = m\<lparr>m_current_key := m_buffer_start m\<rparr>"

(* @sql_sort.h 104-104 Merge_chunk::advance_current_key *)
definition advance_current_key :: "merge_chunk \<Rightarrow> uint \<Rightarrow> merge_chunk" where
  "advance_current_key m val = m\<lparr>m_current_key := m_current_key m + uint val\<rparr>"

(* @sql_sort.h 106-106 Merge_chunk::decrement_rowcount *)
definition decrement_rowcount :: "merge_chunk \<Rightarrow> ulonglong \<Rightarrow> merge_chunk" where
  "decrement_rowcount m val = m\<lparr>m_rowcount := m_rowcount m - val\<rparr>"

(* @sql_sort.h 107-107 Merge_chunk::set_rowcount *)
definition set_rowcount :: "merge_chunk \<Rightarrow> ulonglong \<Rightarrow> merge_chunk" where
  "set_rowcount m val = m\<lparr>m_rowcount := val\<rparr>"

(* @sql_sort.h 111-111 Merge_chunk::set_mem_count *)
definition set_mem_count :: "merge_chunk \<Rightarrow> ulonglong \<Rightarrow> merge_chunk" where
  "set_mem_count m val = m\<lparr>m_mem_count := val\<rparr>"

(* @sql_sort.h 112-112 Merge_chunk::decrement_mem_count *)
definition decrement_mem_count :: "merge_chunk \<Rightarrow> merge_chunk \<times> ulonglong" where
  "decrement_mem_count m = (let n = m_mem_count m - 1 in (m\<lparr>m_mem_count := n\<rparr>, n))"

(* @sql_sort.h 115-115 Merge_chunk::set_max_keys *)
definition set_max_keys :: "merge_chunk \<Rightarrow> ulonglong \<Rightarrow> merge_chunk" where
  "set_max_keys m val = m\<lparr>m_max_keys := val\<rparr>"

(* @sql_sort.h 117-117 Merge_chunk::buffer_size *)
definition buffer_size :: "merge_chunk \<Rightarrow> ulonglong" where
  "buffer_size m = of_int (m_buffer_end m - m_buffer_start m)"

text \<open>The result is the chunk \<open>mc\<close> after the call.\<close>

(* @sql_sort.h 125-140 Merge_chunk::merge_freed_buff *)
definition merge_freed_buff :: "merge_chunk \<Rightarrow> merge_chunk \<Rightarrow> merge_chunk \<times> bool" where
  "merge_freed_buff m mc =
     (if m_buffer_end mc = m_buffer_start m
      then (mc\<lparr>m_buffer_end := m_buffer_end m, m_max_keys := m_max_keys mc + m_max_keys m\<rparr>, True)
      else if m_buffer_start mc = m_buffer_end m
      then (mc\<lparr>m_buffer_start := m_buffer_start m, m_max_keys := m_max_keys mc + m_max_keys m\<rparr>, True)
      else (mc, False))"

section \<open>Addon fields and sort keys\<close>

(* @sql_sort.h 49-57 SORT_ADDON_FIELD *)
record 'field sort_addon_field =
  saf_field :: 'field
  saf_offset :: uint
  saf_null_offset :: uint
  saf_length :: uint
  saf_null_bit :: uint8

(* @sql_sort.h 238-242 Addon_fields *)
record addon_fields =
  m_field_descriptors :: bounds_checked_array
  m_addon_buf :: "nat option"
  m_addon_buf_length :: uint
  af_using_packed_addons :: bool

(* @sql_sort.h 171-178 Addon_fields::Addon_fields *)
definition addon_fields_new :: "bounds_checked_array \<Rightarrow> addon_fields" where
  "addon_fields_new arr = \<lparr>m_field_descriptors = arr, m_addon_buf = None, m_addon_buf_length = 0, af_using_packed_addons = False\<rparr>"

(* @sql_sort.h 184-190 Addon_fields::allocate_addon_buf *)
definition allocate_addon_buf :: "(uint \<Rightarrow> nat option) \<Rightarrow> addon_fields \<Rightarrow> uint \<Rightarrow> addon_fields \<times> nat option" where
  "allocate_addon_buf my_malloc f sz =
     (let f1 = f\<lparr>m_addon_buf := my_malloc sz\<rparr>;
          f2 = (if m_addon_buf f1 \<noteq> None then f1\<lparr>m_addon_buf_length := sz\<rparr> else f1)
      in (f2, m_addon_buf f2))"

text \<open>The second component is the block that is handed to \<open>my_free\<close>.\<close>

(* @sql_sort.h 192-197 Addon_fields::free_addon_buff *)
definition free_addon_buff :: "addon_fields \<Rightarrow> addon_fields \<times> nat option" where
  "free_addon_buff f = (f\<lparr>m_addon_buf := None, m_addon_buf_length := 0\<rparr>, m_addon_buf f)"

(* @sql_sort.h 202-205 Addon_fields::set_using_packed_addons *)
definition set_using_packed_addons :: "addon_fields \<Rightarrow> bool \<Rightarrow> addon_fields" where
  "set_using_packed_addons f val = f\<lparr>af_using_packed_addons := val\<rparr>"

(* @sql_sort.h 212-215 Addon_fields::can_pack_addon_fields *)
definition can_pack_addon_fields :: "uint \<Rightarrow> bool" where
  "can_pack_addon_fields rec_len \<longleftrightarrow> rec_len \<le> 0xFFFF"

(* @sql_sort.h 235-235 Addon_fields::size_of_length_field *)
definition addon_length_field :: uint where
  "addon_length_field = 2"

(* @sql_sort.h 221-224 Addon_fields::read_addon_length *)
definition read_addon_length :: "memory \<Rightarrow> nat \<Rightarrow> uint" where
  "read_addon_length m p = addon_length_field + ucast (uint2korr m p)"

(* @sql_sort.h 229-233 Addon_fields::store_addon_length *)
definition store_addon_length :: "memory \<Rightarrow> nat \<Rightarrow> uint \<Rightarrow> memory" where
  "store_addon_length m p sz = int2store m p (sz - addon_length_field)"

(* @sql_sort.h 330-350 Sort_keys *)
record sort_keys =
  sk_array :: bounds_checked_array
  sk_using_packed_sortkeys :: bool
  size_of_packable_fields :: uint
  sort_length_with_original_values :: uint
  sort_length_with_memcmp_values :: uint
  parameters_computed :: bool

(* @sql_sort.h 257-266 Sort_keys::Sort_keys *)
definition sort_keys_new :: "ptr \<Rightarrow> ulonglong \<Rightarrow> sort_keys" where
  "sort_keys_new arr count = \<lparr>sk_array = bca_reset_to arr count, sk_using_packed_sortkeys = False, size_of_packable_fields = 0,
     sort_length_with_original_values = 0, sort_length_with_memcmp_values = 0, parameters_computed = False\<rparr>"

(* @sql_sort.h 271-274 Sort_keys::set_using_packed_sortkeys *)
definition set_using_packed_sortkeys :: "sort_keys \<Rightarrow> bool \<Rightarrow> sort_keys" where
  "set_using_packed_sortkeys k val = k\<lparr>sk_using_packed_sortkeys := val\<rparr>"

(* @sql_sort.h 275-278 Sort_keys::set_size_of_packable_fields *)
definition set_size_of_packable_fields :: "sort_keys \<Rightarrow> uint \<Rightarrow> sort_keys" where
  "set_size_of_packable_fields k len = k\<lparr>size_of_packable_fields := len\<rparr>"

(* @sql_sort.h 285-288 Sort_keys::set_sort_length_with_original_values *)
definition set_sort_length_with_original_values :: "sort_keys \<Rightarrow> uint \<Rightarrow> sort_keys" where
  "set_sort_length_with_original_values k len = k\<lparr>sort_length_with_original_values := len\<rparr>"

(* @sql_sort.h 295-298 Sort_keys::set_sort_length_with_memcmp_values *)
definition set_sort_length_with_memcmp_values :: "sort_keys \<Rightarrow> uint \<Rightarrow> sort_keys" where
  "set_sort_length_with_memcmp_values k len = k\<lparr>sort_length_with_memcmp_values := len\<rparr>"

(* @sql_sort.h 328-328 Sort_keys::size_of_length_field *)
definition sortkey_length_field :: uint where
  "sortkey_length_field = 4"

(* @sql_sort.h 305-308 Sort_keys::store_sortkey_length *)
definition store_sortkey_length :: "memory \<Rightarrow> nat \<Rightarrow> uint \<Rightarrow> memory" where
  "store_sortkey_length m p sz = int4store m p (sz - sortkey_length_field)"

(* @sql_sort.h 310-313 Sort_keys::read_sortkey_length *)
definition read_sortkey_length :: "memory \<Rightarrow> nat \<Rightarrow> uint" where
  "read_sortkey_length m p = sortkey_length_field + uint4korr m p"

(* @sql_sort.h 315-318 Sort_keys::increment_size_of_packable_fields *)
definition increment_size_of_packable_fields :: "sort_keys \<Rightarrow> uint \<Rightarrow> sort_keys" where
  "increment_size_of_packable_fields k len = k\<lparr>size_of_packable_fields := size_of_packable_fields k + len\<rparr>"

(* @sql_sort.h 320-323 Sort_keys::increment_original_sort_length *)
definition increment_original_sort_length :: "sort_keys \<Rightarrow> uint \<Rightarrow> sort_keys" where
  "increment_original_sort_length k len = k\<lparr>sort_length_with_original_values := sort_length_with_original_values k + len\<rparr>"

(* @sql_sort.h 326-326 Sort_keys::set_parameters_computed *)
definition set_parameters_computed :: "sort_keys \<Rightarrow> bool \<Rightarrow> sort_keys" where
  "set_parameters_computed k val = k\<lparr>parameters_computed := val\<rparr>"

section \<open>Lengths of records\<close>

text \<open>The members up to the limits of the sort and the private ones. A table and a counter that are only passed on are addresses.\<close>

(* @sql_sort.h 544-561 Sort_param *)
record sort_param =
  rec_length :: uint
  sort_length :: uint
  ref_length :: uint
  addon_length :: uint
  res_length :: uint
  max_keys_per_buffer :: uint
  min_dupl_count :: uint
  max_rows :: ulonglong
  examined_rows :: ulonglong
  sort_form :: ptr
  local_sortorder :: bounds_checked_array
  sp_addon_fields :: "addon_fields option"
  sp_sort_keys :: "sort_keys option"
  accepted_rows :: ptr
  m_packable_length :: uint
  m_using_packed_addons :: bool
  m_using_packed_sortkeys :: bool
  m_packed_format :: bool

(* @sql_sort.h 590-596 Sort_param::using_packed_addons *)
definition using_packed_addons :: "sort_param \<Rightarrow> bool" where
  "using_packed_addons p = m_using_packed_addons p"

(* @sql_sort.h 598-603 Sort_param::using_packed_sortkeys *)
definition using_packed_sortkeys :: "sort_param \<Rightarrow> bool" where
  "using_packed_sortkeys p = m_using_packed_sortkeys p"

(* @sql_sort.h 606-609 Sort_param::using_addon_fields *)
definition using_addon_fields :: "sort_param \<Rightarrow> bool" where
  "using_addon_fields p \<longleftrightarrow> sp_addon_fields p \<noteq> None"

(* @sql_sort.h 611-616 Sort_param::get_result_length *)
definition get_result_length :: "sort_param \<Rightarrow> memory \<Rightarrow> nat \<Rightarrow> uint" where
  "get_result_length p m plen = (if \<not> m_using_packed_addons p then res_length p else read_addon_length m plen)"

(* @sql_sort.h 618-624 Sort_param::get_addon_length *)
definition get_addon_length :: "sort_param \<Rightarrow> memory \<Rightarrow> nat \<Rightarrow> uint" where
  "get_addon_length p m plen = (if using_packed_addons p then read_addon_length m plen else addon_length p)"

(* @sql_sort.h 626-638 Sort_param::get_sort_length *)
definition get_sort_length :: "sort_param \<Rightarrow> memory \<Rightarrow> nat \<Rightarrow> uint" where
  "get_sort_length p m plen =
     (if using_packed_sortkeys p
      then read_sortkey_length m plen + (if using_addon_fields p then 0 else res_length p)
      else sort_length p)"

(* @sql_sort.h 640-649 Sort_param::get_record_length *)
definition get_record_length :: "sort_param \<Rightarrow> memory \<Rightarrow> nat \<Rightarrow> uint" where
  "get_record_length p m plen =
     (if m_packed_format p
      then let sort_len = get_sort_length p m plen in sort_len + get_addon_length p m (plen + unat sort_len)
      else rec_length p)"

(* @sql_sort.h 657-671 Sort_param::get_rec_and_res_len *)
definition get_rec_and_res_len :: "sort_param \<Rightarrow> memory \<Rightarrow> nat \<Rightarrow> uint \<times> uint" where
  "get_rec_and_res_len p m record_start =
     (if m_packed_format p
      then let sort_len = get_sort_length p m record_start;
               addon_len = get_addon_length p m (record_start + unat sort_len)
           in (sort_len + addon_len, if using_addon_fields p then addon_len else res_length p)
      else (rec_length p, res_length p))"

(* @sql_sort.h 675-680 Sort_param::get_compare_function *)
definition get_compare_function :: "'cmp \<Rightarrow> (uint \<Rightarrow> 'cmp) \<Rightarrow> sort_param \<Rightarrow> 'cmp" where
  "get_compare_function packed_keys_compare ptr_compare p =
     (if using_packed_sortkeys p then packed_keys_compare else ptr_compare (sort_length p))"

text \<open>The argument of the comparison: the parameters themselves or the length of the keys.\<close>

(* @sql_sort.h 681-686 Sort_param::get_compare_argument *)
definition get_compare_argument :: "sort_param \<Rightarrow> ulonglong \<Rightarrow> sort_param + ulonglong" where
  "get_compare_argument p sort_len = (if using_packed_sortkeys p then Inl p else Inr sort_len)"

(* @sql_sort.h 688-691 Sort_param::is_packed_format *)
definition is_packed_format :: "sort_param \<Rightarrow> bool" where
  "is_packed_format p = m_packed_format p"

section \<open>Freed buffers\<close>

text \<open>The buffer of a chunk as a set of addresses, and a chunk whose buffer is where it should be.\<close>

definition buffer :: "merge_chunk \<Rightarrow> int set" where
  "buffer m = {m_buffer_start m..<m_buffer_end m}"

text \<open>Handing a freed buffer to a neighbour: if the call succeeds, the neighbour has exactly the memory of both and no more, and
  its number of keys grows by that of the freed one; if it fails, the buffers are not adjacent and nothing changes.\<close>

lemma merge_freed_buff_spec:
  assumes "m_buffer_start m \<le> m_buffer_end m" and "m_buffer_start mc \<le> m_buffer_end mc" and "merge_freed_buff m mc = (mc', ok)"
  shows "if ok then buffer mc' = buffer m \<union> buffer mc \<and> buffer_size mc' = buffer_size m + buffer_size mc \<and>
       m_max_keys mc' = m_max_keys mc + m_max_keys m \<and> m_buffer_start mc' \<le> m_buffer_end mc' \<and>
       buffer m \<inter> buffer mc = {}
     else mc' = mc \<and> m_buffer_end mc \<noteq> m_buffer_start m \<and> m_buffer_start mc \<noteq> m_buffer_end m"
  using assms by (auto simp: merge_freed_buff_def buffer_def buffer_size_def split: if_splits)

section \<open>Walking over records\<close>

text \<open>A record before it is written: the values of the sort key, the reference to the row and the addon fields.\<close>

record sort_rec =
  r_key :: "uchar list"
  r_ref :: "uchar list"
  r_addons :: "uchar list"

definition put :: "memory \<Rightarrow> nat \<Rightarrow> uchar list \<Rightarrow> memory" where
  "put m a bs = (\<lambda>x. if a \<le> x \<and> x < a + length bs then bs ! (x - a) else m x)"

definition key_size :: "sort_param \<Rightarrow> sort_rec \<Rightarrow> nat" where
  "key_size p r = (if using_packed_sortkeys p then 4 else 0) + length (r_key r)"

definition payload :: "sort_param \<Rightarrow> sort_rec \<Rightarrow> uchar list" where
  "payload p r = (if using_addon_fields p then r_addons r else r_ref r)"

definition result_size :: "sort_param \<Rightarrow> sort_rec \<Rightarrow> nat" where
  "result_size p r = (if using_packed_addons p then 2 else 0) + length (payload p r)"

definition record_size :: "sort_param \<Rightarrow> sort_rec \<Rightarrow> nat" where
  "record_size p r = key_size p r + result_size p r"

text \<open>Writing a record in the format of the parameters, with the length prefixes of the code.\<close>

definition write_record :: "sort_param \<Rightarrow> memory \<Rightarrow> nat \<Rightarrow> sort_rec \<Rightarrow> memory" where
  "write_record p m a r =
     (let m1 = (if using_packed_sortkeys p then store_sortkey_length m a (of_nat (key_size p r)) else m);
          m2 = put m1 (a + (if using_packed_sortkeys p then 4 else 0)) (r_key r);
          b = a + key_size p r;
          m3 = (if using_packed_addons p then store_addon_length m2 b (of_nat (result_size p r)) else m2)
      in put m3 (b + (if using_packed_addons p then 2 else 0)) (payload p r))"

fun write_records :: "sort_param \<Rightarrow> memory \<Rightarrow> nat \<Rightarrow> sort_rec list \<Rightarrow> memory" where
  "write_records p m a [] = m"
| "write_records p m a (r # rs) = write_records p (write_record p m a r) (a + record_size p r) rs"

text \<open>Reading \<open>n\<close> records: the bytes of the row reference or the addon fields of each, with the place found by the lengths.\<close>

fun walk :: "sort_param \<Rightarrow> memory \<Rightarrow> nat \<Rightarrow> nat \<Rightarrow> (nat \<times> nat \<times> uchar list) list" where
  "walk p m a 0 = []"
| "walk p m a (Suc n) =
     (case get_rec_and_res_len p m a of (recl, resl) \<Rightarrow>
        (a, unat recl, map m [a + unat recl - unat resl + (if using_packed_addons p then 2 else 0)..<a + unat recl])
        # walk p m (a + unat (get_record_length p m a)) n)"

fun places :: "sort_param \<Rightarrow> nat \<Rightarrow> sort_rec list \<Rightarrow> (nat \<times> nat \<times> uchar list) list" where
  "places p a [] = []"
| "places p a (r # rs) = (a, record_size p r, payload p r) # places p (a + record_size p r) rs"

text \<open>What the comment on the format says of the lengths: the packed format is that of packed keys or packed addon fields;
  without addon fields the sort length includes the row reference; fixed parts have their fixed lengths.\<close>

definition param_ok :: "sort_param \<Rightarrow> bool" where
  "param_ok p \<longleftrightarrow> (m_packed_format p \<longleftrightarrow> using_packed_addons p \<or> using_packed_sortkeys p) \<and>
     (using_packed_addons p \<longrightarrow> using_addon_fields p) \<and> (\<not> using_addon_fields p \<longrightarrow> addon_length p = 0) \<and>
     (using_addon_fields p \<and> \<not> using_packed_addons p \<longrightarrow> res_length p = addon_length p) \<and>
     rec_length p = sort_length p + addon_length p"

definition rec_ok :: "sort_param \<Rightarrow> sort_rec \<Rightarrow> bool" where
  "rec_ok p r \<longleftrightarrow> record_size p r < 2 ^ 32 \<and>
     (\<not> using_packed_sortkeys p \<longrightarrow>
        key_size p r + (if using_addon_fields p then 0 else result_size p r) = unat (sort_length p)) \<and>
     (if using_packed_addons p then length (r_addons r) \<le> 65535 else length (payload p r) = unat (res_length p))"

lemma put_outside: "x < a \<or> a + length bs \<le> x \<Longrightarrow> put m a bs x = m x"
  by (auto simp: put_def)

lemma put_inside: "i < length bs \<Longrightarrow> put m a bs (a + i) = bs ! i"
  by (simp add: put_def)

lemma stores_outside:
  "x < a \<or> a + 4 \<le> x \<Longrightarrow> store_sortkey_length m a v x = m x" "x < a \<or> a + 2 \<le> x \<Longrightarrow> store_addon_length m a v x = m x"
  by (simp_all add: store_sortkey_length_def store_addon_length_def le4.le_frame le2.le_frame)

lemma write_record_outside: "x < a \<or> a + record_size p r \<le> x \<Longrightarrow> write_record p m a r x = m x"
  by (auto simp: write_record_def Let_def put_outside stores_outside record_size_def key_size_def result_size_def)

lemma write_records_before: "x < a \<Longrightarrow> write_records p m a rs x = m x"
  by (induction rs arbitrary: m a) (simp_all add: write_record_outside)

text \<open>Memory that holds the record \<open>r\<close> at the address \<open>a\<close>.\<close>

definition record_at :: "sort_param \<Rightarrow> memory \<Rightarrow> nat \<Rightarrow> sort_rec \<Rightarrow> bool" where
  "record_at p x a r \<longleftrightarrow> (\<exists>m. \<forall>i < record_size p r. x (a + i) = write_record p m a r (a + i))"

lemma record_at_write: "record_at p (write_records p m a (r # rs)) a r"
  by (auto simp: record_at_def write_records_before intro!: exI [of _ m])

lemma read_key_at:
  assumes "record_at p x a r" and "using_packed_sortkeys p"
  shows "read_sortkey_length x a = of_nat (key_size p r)"
proof -
  obtain m where m: "\<And>i. i < record_size p r \<Longrightarrow> x (a + i) = write_record p m a r (a + i)"
    using assms(1) by (auto simp: record_at_def)
  define v :: uint where "v = of_nat (key_size p r) - 4"
  have "x (a + i) = int4store m a v (a + i)" if "i < 4" for i
    using m [of i] that assms(2)
    by (auto simp: write_record_def Let_def put_outside stores_outside record_size_def key_size_def
        store_sortkey_length_def sortkey_length_field_def v_def)
  then have "uint4korr x a = uint4korr (int4store m a v) a" by (simp add: le4.korr_eq_iff)
  then have "uint4korr x a = v" by (simp add: le4.round_trip take_bit_word_eq_self)
  then show ?thesis by (simp add: read_sortkey_length_def sortkey_length_field_def v_def)
qed

lemma read_addon_at:
  assumes "record_at p x a r" and "using_packed_addons p" and "length (payload p r) \<le> 65535"
  shows "read_addon_length x (a + key_size p r) = of_nat (result_size p r)"
proof -
  obtain m where m: "\<And>i. i < record_size p r \<Longrightarrow> x (a + i) = write_record p m a r (a + i)"
    using assms(1) by (auto simp: record_at_def)
  define b n where "b = a + key_size p r" and "n = length (payload p r)"
  define v :: uint where "v = of_nat n"
  have v: "v = of_nat (result_size p r) - 2" using assms(2) by (simp add: v_def result_size_def n_def)
  obtain m2 where "x (b + i) = int2store m2 b v (b + i)" if "i < 2" for i
  proof
    fix i :: nat assume "i < 2"
    then have "key_size p r + i < record_size p r" using assms(2) by (simp add: record_size_def result_size_def)
    from m [OF this] show "x (b + i) = int2store
        (put (if using_packed_sortkeys p then store_sortkey_length m a (of_nat (key_size p r)) else m)
          (a + (if using_packed_sortkeys p then 4 else 0)) (r_key r)) b v (b + i)"
      using \<open>i < 2\<close> assms(2)
      by (simp add: write_record_def Let_def put_outside store_addon_length_def addon_length_field_def v b_def add.assoc)
  qed
  then have "uint2korr x b = uint2korr (int2store m2 b v) b" by (simp add: le2.korr_eq_iff)
  also have "\<dots> = ucast (take_bit 16 v)" by (simp add: le2.round_trip)
  also have "\<dots> = of_nat n" by (rule bit_word_eqI) (auto simp: v_def bit_simps)
  finally have "uint2korr x b = of_nat n" .
  moreover have "unat (of_nat n :: uint16) = n" using assms(3) by (simp add: unat_of_nat n_def)
  moreover have "(of_nat (unat (uint2korr x b)) :: uint) = ucast (uint2korr x b)" by (rule of_nat_unat)
  ultimately have "ucast (uint2korr x b) = v" unfolding v_def by simp
  then show ?thesis by (simp add: read_addon_length_def addon_length_field_def v b_def)
qed

lemma sort_param_lengths:
  assumes "param_ok p" and "rec_ok p r" and "record_at p x a r"
  shows "get_rec_and_res_len p x a = (of_nat (record_size p r), of_nat (result_size p r))"
    and "get_record_length p x a = of_nat (record_size p r)"
proof -
  define ks rs where "ks = key_size p r" and "rs = result_size p r"
  have small: "ks + rs < 2 ^ 32" and sz: "record_size p r = ks + rs"
    using assms(2) by (simp_all add: rec_ok_def record_size_def ks_def rs_def)
  have un: "of_nat (unat w) = w" for w :: uint by simp
  have res: "res_length p = of_nat rs" if "\<not> using_packed_addons p"
    using that assms(2) un [of "res_length p"] by (auto simp: rec_ok_def rs_def result_size_def)
  have srt: "sort_length p = of_nat (ks + (if using_addon_fields p then 0 else rs))" if "\<not> using_packed_sortkeys p"
    using that assms(2) un [of "sort_length p"] by (auto simp: rec_ok_def ks_def rs_def simp del: of_nat_add)
  have sl: "get_sort_length p x a = of_nat (ks + (if using_addon_fields p then 0 else rs))"
    using read_key_at [OF assms(3)] srt res assms(1)
    by (auto simp: get_sort_length_def ks_def param_ok_def)
  have key: "unat (of_nat ks :: uint) = ks" using small by (simp add: unat_of_nat)
  have ad: "get_addon_length p x (a + ks) = of_nat rs" if "using_addon_fields p"
    using that read_addon_at [OF assms(3)] res assms(1,2)
    by (auto simp: get_addon_length_def ks_def rs_def param_ok_def rec_ok_def payload_def)
  have no: "get_addon_length p x b = 0" if "\<not> using_addon_fields p" for b
    using that assms(1) by (auto simp: get_addon_length_def param_ok_def)
  have fixed: "rec_length p = of_nat (ks + rs)" if "\<not> m_packed_format p"
    using that assms(1) srt res by (auto simp: param_ok_def)
  show "get_record_length p x a = of_nat (record_size p r)"
    unfolding get_record_length_def sz using sl key ad no fixed by (auto simp: Let_def)
  show "get_rec_and_res_len p x a = (of_nat (record_size p r), of_nat (result_size p r))"
    unfolding get_rec_and_res_len_def sz rs_def [symmetric] using sl key ad no fixed res assms(1) by (auto simp: Let_def param_ok_def)
qed

lemma payload_at:
  assumes "record_at p x a r"
  shows "map x [a + record_size p r - result_size p r + (if using_packed_addons p then 2 else 0)..<a + record_size p r] = payload p r"
proof -
  obtain m where m: "\<And>i. i < record_size p r \<Longrightarrow> x (a + i) = write_record p m a r (a + i)"
    using assms by (auto simp: record_at_def)
  define off where "off = key_size p r + (if using_packed_addons p then 2 else 0)"
  have o: "record_size p r = off + length (payload p r)" by (simp add: off_def record_size_def result_size_def)
  have lo: "a + record_size p r - result_size p r + (if using_packed_addons p then 2 else 0) = a + off"
    by (simp add: off_def record_size_def)
  have "x (a + off + i) = payload p r ! i" if "i < length (payload p r)" for i
    using m [of "off + i"] that o put_inside [of i "payload p r" _ "a + off"]
    by (simp add: write_record_def Let_def off_def add.assoc)
  then show ?thesis unfolding lo unfolding o by (intro nth_equalityI) (simp_all add: add.assoc)
qed

text \<open>C17: Records that are written one after the other in any of the formats of filesort, with fixed or packed sort keys and with row
  references, fixed or packed addon fields, are found again by their lengths alone: walking from the first record
  with \<open>get_record_length\<close> visits the start of each record, and the last bytes that
  \<open>get_rec_and_res_len\<close> attributes to the result are the row reference or the addon fields that were written.\<close>

theorem sort_records_walk:
  assumes "param_ok p" and "\<forall>r \<in> set rs. rec_ok p r"
  shows "walk p (write_records p m a rs) a (length rs) = places p a rs"
  using assms(2)
proof (induction rs arbitrary: m a)
  case (Cons r rs)
  define x where "x = write_records p m a (r # rs)"
  have at: "record_at p x a r" unfolding x_def by (rule record_at_write)
  have ok: "rec_ok p r" using Cons.prems by simp
  note l = sort_param_lengths [OF assms(1) ok at]
  have u: "unat (of_nat (record_size p r) :: uint) = record_size p r" "unat (of_nat (result_size p r) :: uint) = result_size p r"
  proof -
    have "record_size p r < 2 ^ 32" using ok by (simp add: rec_ok_def)
    moreover from this have "result_size p r < 2 ^ 32" by (simp add: record_size_def)
    ultimately show "unat (of_nat (record_size p r) :: uint) = record_size p r" "unat (of_nat (result_size p r) :: uint) = result_size p r"
      by (simp_all add: unat_of_nat)
  qed
  have "walk p x (a + record_size p r) (length rs) = places p (a + record_size p r) rs"
    using Cons.IH [of "write_record p m a r" "a + record_size p r"] Cons.prems by (simp add: x_def)
  then show ?case using l u payload_at [OF at] by (simp add: x_def [symmetric] del: write_records.simps)
qed simp

section \<open>Example\<close>

text \<open>Packed sort keys and packed addon fields.\<close>

definition demo_param :: sort_param where
  "demo_param = \<lparr>rec_length = 40, sort_length = 20, ref_length = 6, addon_length = 20, res_length = 20, max_keys_per_buffer = 10,
     min_dupl_count = 0, max_rows = 10, examined_rows = 0, sort_form = None, local_sortorder = bca_reset,
     sp_addon_fields = Some (set_using_packed_addons (addon_fields_new bca_reset) True),
     sp_sort_keys = Some (set_using_packed_sortkeys (sort_keys_new None 0) True), accepted_rows = None, m_packable_length = 0,
     m_using_packed_addons = True, m_using_packed_sortkeys = True, m_packed_format = True\<rparr>"

definition demo_recs :: "sort_rec list" where
  "demo_recs = [\<lparr>r_key = [1, 2, 3], r_ref = [], r_addons = [7, 8]\<rparr>, \<lparr>r_key = [4], r_ref = [], r_addons = [9]\<rparr>]"

theorem sort_records_walk_witness:
  "walk demo_param (write_records demo_param (\<lambda>_. 0) 100 demo_recs) 100 2 = [(100, 11, [7, 8]), (111, 8, [9])]"
proof -
  have p: "param_ok demo_param"
    by (simp add: param_ok_def demo_param_def using_packed_addons_def using_packed_sortkeys_def using_addon_fields_def)
  have r: "\<forall>r \<in> set demo_recs. rec_ok demo_param r"
    by (simp add: rec_ok_def demo_recs_def demo_param_def record_size_def key_size_def result_size_def payload_def
        using_packed_addons_def using_packed_sortkeys_def using_addon_fields_def)
  show ?thesis
    using sort_records_walk [OF p r, of "\<lambda>_. 0" 100]
    by (simp add: demo_recs_def demo_param_def record_size_def key_size_def result_size_def payload_def
        using_packed_addons_def using_packed_sortkeys_def using_addon_fields_def numeral_2_eq_2)
qed

end
