(* ===== verification/Bibliotheque.thy ===== *)
theory Bibliotheque
  imports Complex_Main Prelude "HOL-Library.Multiset"
begin

text \<open>
  The rules of the library application, from the Symfony back end in \<^verbatim>\<open>backend_biblio/src\<close>: members
  reserve books through \<^verbatim>\<open>ReservationController\<close>, the staff lends them through
  \<^verbatim>\<open>EmpruntCrudController\<close>, reservations expire after seven days (\<^verbatim>\<open>ExpireReservationsCommand\<close> and
  the purge at the start of every request), members edit their own profile, and
  \<^verbatim>\<open>security.yaml\<close> says who may call what.

  The database is a record of tables; a table is the list of its rows. Dates are seconds of the
  local clock, so that \<open>modify('-7 days')\<close> subtracts 7 * 86400; two readings of the clock in one
  handler are two arguments. What Doctrine and the database leave open is an argument of the
  definitions: \<open>pick\<close> is the row that a query limited to one result returns, \<open>ordre\<close> the order
  in which the database reads the rows that \<open>ORDER BY\<close> sorts (and so the order of rows with the same
  date), and \<open>cle\<close> what \<open>find\<close> makes of a decoded JSON value: an exception (of Doctrine, for an array
  for instance), or the primary key the value is compared with, if any. An exception ends a request,
  which the framework answers with the status 500. A removal or an insertion takes effect when the entity manager is
  flushed, which the inherited \<open>persistEntity\<close> and \<open>updateEntity\<close> do.
\<close>

section \<open>Values\<close>

type_synonym date = int
type_synonym ident = nat

text \<open>The result of \<open>json_decode(\<dots>, true)\<close>; the keys of a JSON list are its decimal indices.\<close>

datatype json = JNull | JBool bool | JInt int | JFloat real | JString string
  | JArray "(string \<times> json) list"

text \<open>The conversion of a value to bool, as \<open>!\<close> and \<open>if\<close> do it.\<close>

fun truthy :: "json \<Rightarrow> bool" where
  "truthy JNull = False"
| "truthy (JBool b) = b"
| "truthy (JInt i) = (i \<noteq> 0)"
| "truthy (JFloat x) = (x \<noteq> 0)"
| "truthy (JString s) = (s \<noteq> '''' \<and> s \<noteq> ''0'')"
| "truthy (JArray kvs) = (kvs \<noteq> [])"

text \<open>\<open>$data[k] ?? null\<close>.\<close>

fun get_or_null :: "json \<Rightarrow> string \<Rightarrow> json" where
  "get_or_null (JArray kvs) k = (case map_of kvs k of None \<Rightarrow> JNull | Some v \<Rightarrow> v)"
| "get_or_null _ k = JNull"

text \<open>What ends a request with an exception.\<close>

datatype php_error = Exception string | Member_of_null | Type_error | Constraint_violation

text \<open>\<open>$data[k]\<close>: a string has no such offset; other values read as null, with a warning.\<close>

fun get_offset :: "json \<Rightarrow> string \<Rightarrow> php_error + json" where
  "get_offset (JString s) k = Inl Type_error"
| "get_offset v k = Inr (get_or_null v k)"

section \<open>Tables\<close>

(* @Entity/Reservations.php 12-30 Reservations *)
record reservation =
  res_id :: ident
  dateResa :: date
  res_utilisateur :: ident
  res_livre :: ident

(* @Entity/Emprunt.php 12-33 Emprunt *)
record emprunt =
  emp_id :: ident
  dateEmprunt :: date
  dateRetour :: "date option"
  emp_utilisateur :: ident
  emp_livre :: ident

text \<open>\<open>livres\<close> maps the key of a book to its column \<open>emprunt_id\<close>; the other columns of a book take no
  part in the rules. The two counters are the next values of the generated keys.\<close>

record base =
  reservations :: "reservation list"
  emprunts :: "emprunt list"
  livres :: "ident \<rightharpoonup> ident option"
  next_res :: ident
  next_emp :: ident

(* @Entity/Livre.php 142-145 Livre::getEmprunt *)
definition getEmprunt :: "base \<Rightarrow> ident \<Rightarrow> ident option" where
  "getEmprunt s l = (case livres s l of None \<Rightarrow> None | Some e \<Rightarrow> e)"

(* @Entity/Livre.php 147-152 Livre::setEmprunt *)
definition setEmprunt :: "base \<Rightarrow> ident \<Rightarrow> ident option \<Rightarrow> base" where
  "setEmprunt s l e = s\<lparr>livres := (livres s)(l \<mapsto> e)\<rparr>"

(* @Entity/Livre.php 182-185 Livre::isDisponible *)
definition isDisponible :: "base \<Rightarrow> ident \<Rightarrow> bool" where
  "isDisponible s l = (getEmprunt s l = None)"

(* @Entity/Emprunt.php 95-102 Emprunt::estEnRetard *)
definition estEnRetard :: "date \<Rightarrow> emprunt \<Rightarrow> bool" where
  "estEnRetard now e =
     (if dateRetour e \<noteq> None then False
      else (let dateLimite = dateEmprunt e + 15 * 86400 in now > dateLimite))"

(* @Entity/Emprunt.php 103-106 Emprunt::getStatut *)
definition getStatut :: "date \<Rightarrow> emprunt \<Rightarrow> string" where
  "getStatut now e = (if estEnRetard now e then ''EN RETARD'' else CHR 0xC3 # CHR 0x80 # '' JOUR'')"

(* @DashboardController.php 22-55 DashboardController::index *)
definition dashboard_counts :: "date \<Rightarrow> base \<Rightarrow> nat \<times> nat" where
  "dashboard_counts now s =
     (let empruntsEnCours = filter (\<lambda>e. dateRetour e = None) (emprunts s);
          nbRetards = foldl (\<lambda>n e. if estEnRetard now e then n + 1 else n) 0 empruntsEnCours
      in (length empruntsEnCours, nbRetards))"

section \<open>Queries on reservations\<close>

(* @ReservationsRepository.php 31-39 ReservationsRepository::purgeExpired *)
definition purgeExpired :: "base \<Rightarrow> date \<Rightarrow> base \<times> nat" where
  "purgeExpired s cutoff =
     (s\<lparr>reservations := filter (\<lambda>r. \<not> dateResa r < cutoff) (reservations s)\<rparr>,
      length (filter (\<lambda>r. dateResa r < cutoff) (reservations s)))"

(* @ReservationsRepository.php 41-51 ReservationsRepository::countActiveForUser *)
definition countActiveForUser :: "base \<Rightarrow> ident \<Rightarrow> date \<Rightarrow> nat" where
  "countActiveForUser s user cutoff =
     length (filter (\<lambda>r. res_utilisateur r = user \<and> dateResa r \<ge> cutoff) (reservations s))"

(* @ReservationsRepository.php 53-63 ReservationsRepository::findActiveByLivre *)
definition findActiveByLivre ::
  "(reservation list \<Rightarrow> reservation option) \<Rightarrow> base \<Rightarrow> ident \<Rightarrow> date \<Rightarrow> reservation option" where
  "findActiveByLivre pick s livre cutoff =
     pick (filter (\<lambda>r. res_livre r = livre \<and> dateResa r \<ge> cutoff) (reservations s))"

(* @ReservationsRepository.php 68-78 ReservationsRepository::findActiveByUser *)
definition findActiveByUser ::
  "(reservation list \<Rightarrow> reservation list) \<Rightarrow> base \<Rightarrow> ident \<Rightarrow> date \<Rightarrow> reservation list" where
  "findActiveByUser ordre s user cutoff =
     sort_key (\<lambda>r. - dateResa r)
       (ordre (filter (\<lambda>r. res_utilisateur r = user \<and> dateResa r \<ge> cutoff) (reservations s)))"

section \<open>Requests of members\<close>

text \<open>A response is its status with a message or with the entity it carries.\<close>

type_synonym 'a response = "int \<times> (string + 'a)"

definition seven_days :: date where
  "seven_days = 7 * 86400"

(* @ExpireReservationsCommand.php 22-30 ExpireReservationsCommand::execute *)
definition expire_execute :: "date \<Rightarrow> base \<Rightarrow> base \<times> nat" where
  "expire_execute now s = (let cutoff = now - seven_days in purgeExpired s cutoff)"

(* @ReservationController.php 20-26 ReservationController::index *)
definition reservation_index ::
  "(reservation list \<Rightarrow> reservation list) \<Rightarrow> date \<Rightarrow> ident \<Rightarrow> base \<Rightarrow> base \<times> reservation list response" where
  "reservation_index ordre now user s =
     (let cutoff = now - seven_days;
          s1 = fst (purgeExpired s cutoff);
          rs = findActiveByUser ordre s1 user cutoff
      in (s1, 200, Inr rs))"

text \<open>The argument resolver looks the reservation up by the key in the route, 404 without it.\<close>

definition find_reservation :: "base \<Rightarrow> ident \<Rightarrow> reservation option" where
  "find_reservation s i = find (\<lambda>r. res_id r = i) (reservations s)"

(* @ReservationController.php 28-37 ReservationController::show *)
definition reservation_show :: "ident \<Rightarrow> base \<Rightarrow> ident \<Rightarrow> reservation response" where
  "reservation_show user s i =
     (case find_reservation s i of
        None \<Rightarrow> (404, Inl ''Not Found'')
      | Some r \<Rightarrow>
         if res_utilisateur r \<noteq> user then (403, Inl ''Acces refuse'') else (200, Inr r))"

text \<open>\<open>create\<close> up to its last query: every check, with the reservations purged on the way.\<close>

(* @ReservationController.php 47-76 ReservationController::create (checks) *)
definition create_checks ::
  "(reservation list \<Rightarrow> reservation option) \<Rightarrow> (json \<Rightarrow> php_error + ident option) \<Rightarrow> date \<Rightarrow> ident \<Rightarrow> json \<Rightarrow> base
    \<Rightarrow> base \<times> (reservation response + ident)" where
  "create_checks pick cle now user data s =
     (let idDuLivre = get_or_null data ''livreId'' in
      if \<not> truthy idDuLivre then (s, Inl (400, Inl ''ID du livre manquant''))
      else case cle idDuLivre of
        Inl _ \<Rightarrow> (s, Inl (500, Inl ''Internal Server Error''))
      | Inr k \<Rightarrow>
      case Option.bind k (\<lambda>l. if livres s l = None then None else Some l) of
        None \<Rightarrow> (s, Inl (404, Inl ''Livre non trouve''))
      | Some livre \<Rightarrow>
         let cutoff = now - seven_days;
             s1 = fst (purgeExpired s cutoff)
         in if countActiveForUser s1 user cutoff \<ge> 3
            then (s1, Inl (409, Inl ''Limite de 3 reservations atteinte''))
            else if getEmprunt s1 livre \<noteq> None
            then (s1, Inl (409, Inl ''Livre deja emprunte''))
            else if findActiveByLivre pick s1 livre cutoff \<noteq> None
            then (s1, Inl (409, Inl ''Livre deja reserve''))
            else (s1, Inr livre))"

(* @ReservationController.php 78-86 ReservationController::create (insertion) *)
definition create_insert :: "date \<Rightarrow> ident \<Rightarrow> ident \<Rightarrow> base \<Rightarrow> base \<times> reservation response" where
  "create_insert now user livre s =
     (let r = \<lparr>res_id = next_res s, dateResa = now, res_utilisateur = user, res_livre = livre\<rparr>
      in (s\<lparr>reservations := reservations s @ [r], next_res := next_res s + 1\<rparr>, 201, Inr r))"

(* @ReservationController.php 41-87 ReservationController::create *)
definition reservation_create ::
  "(reservation list \<Rightarrow> reservation option) \<Rightarrow> (json \<Rightarrow> php_error + ident option) \<Rightarrow> date \<Rightarrow> date \<Rightarrow> ident \<Rightarrow> json \<Rightarrow> base
    \<Rightarrow> base \<times> reservation response" where
  "reservation_create pick cle now now' user data s =
     (case create_checks pick cle now user data s of
        (s1, Inl resp) \<Rightarrow> (s1, resp)
      | (s1, Inr livre) \<Rightarrow> create_insert now' user livre s1)"

(* @ReservationController.php 89-101 ReservationController::delete *)
definition reservation_delete :: "ident \<Rightarrow> ident \<Rightarrow> base \<Rightarrow> base \<times> unit response" where
  "reservation_delete user i s =
     (case find_reservation s i of
        None \<Rightarrow> (s, 404, Inl ''Not Found'')
      | Some r \<Rightarrow>
         if res_utilisateur r \<noteq> user
         then (s, 403, Inl ''Vous ne pouvez pas supprimer cette reservation'')
         else (s\<lparr>reservations := filter (\<lambda>r. res_id r \<noteq> i) (reservations s)\<rparr>,
               200, Inl ''Reservation supprimee avec succes''))"

section \<open>Loans, as the staff enters them\<close>

text \<open>The entity that the form fills in; every property is nullable.\<close>

(* @EmpruntCrudController.php 21-31 EmpruntCrudController::configureFields *)
record formulaire =
  f_dateEmprunt :: "date option"
  f_dateRetour :: "date option"
  f_utilisateur :: "ident option"
  f_livre :: "ident option"

definition emprunts_actifs :: "base \<Rightarrow> ident \<Rightarrow> emprunt list" where
  "emprunts_actifs s user = filter (\<lambda>e. emp_utilisateur e = user \<and> dateRetour e = None) (emprunts s)"

text \<open>The messages that the page shows instead of saving; the second names the borrower.\<close>

datatype flash = Limite_de_5_emprunts | Deja_emprunte_par ident

text \<open>The result is an exception, or the message of the page, if any, and the database. An early
  return flushes nothing, so the reservation marked for removal stays.\<close>

(* @EmpruntCrudController.php 33-79 EmpruntCrudController::persistEntity *)
definition persistEntity ::
  "(reservation list \<Rightarrow> reservation option) \<Rightarrow> (emprunt list \<Rightarrow> emprunt option) \<Rightarrow> date \<Rightarrow> formulaire \<Rightarrow> base
    \<Rightarrow> php_error + (flash option \<times> base)" where
  "persistEntity pick pick_emp now f s =
     (let reservation = pick (filter (\<lambda>r. Some (res_livre r) = f_livre f) (reservations s)) in
      if reservation \<noteq> None \<and> Some (res_utilisateur (the reservation)) \<noteq> f_utilisateur f
      then Inl (Exception ''Ce livre est reserve par un autre adherent !'')
      else case f_utilisateur f of
        None \<Rightarrow> Inl Member_of_null
      | Some user \<Rightarrow>
         if length (emprunts_actifs s user) \<ge> 5 then Inr (Some Limite_de_5_emprunts, s)
         else
           let removed = (case reservation of None \<Rightarrow> reservations s
                          | Some r \<Rightarrow> filter (\<lambda>x. res_id x \<noteq> res_id r) (reservations s));
               d = (case f_dateEmprunt f of None \<Rightarrow> now | Some d \<Rightarrow> d);
               empruntEnCours = pick_emp (filter (\<lambda>e. Some (emp_livre e) = f_livre f \<and> dateRetour e = None) (emprunts s))
           in case empruntEnCours of Some e \<Rightarrow> Inr (Some (Deja_emprunte_par (emp_utilisateur e)), s)
            | None \<Rightarrow>
             (case f_livre f of
                None \<Rightarrow> Inl (if f_dateRetour f = None then Member_of_null else Constraint_violation)
              | Some livre \<Rightarrow>
                 let e = \<lparr>emp_id = next_emp s, dateEmprunt = d, dateRetour = f_dateRetour f,
                          emp_utilisateur = user, emp_livre = livre\<rparr>;
                     s1 = s\<lparr>reservations := removed, emprunts := emprunts s @ [e], next_emp := next_emp s + 1\<rparr>
                 in Inr (None, if f_dateRetour f = None then setEmprunt s1 livre (Some (emp_id e)) else s1)))"

text \<open>The edit form writes the properties into the loan \<open>i\<close> before \<open>updateEntity\<close> runs.\<close>

(* @EmpruntCrudController.php 81-95 EmpruntCrudController::updateEntity *)
definition updateEntity :: "ident \<Rightarrow> formulaire \<Rightarrow> base \<Rightarrow> php_error + base" where
  "updateEntity i f s =
     (case f_livre f of
        None \<Rightarrow> Inl Member_of_null
      | Some livre \<Rightarrow>
         let s1 = (if f_dateRetour f = None then setEmprunt s livre (Some i)
                   else if getEmprunt s livre = Some i then setEmprunt s livre None else s)
         in case (f_utilisateur f, f_dateEmprunt f) of
              (Some user, Some d) \<Rightarrow>
                Inr (s1\<lparr>emprunts := map (\<lambda>e. if emp_id e = i
                     then \<lparr>emp_id = i, dateEmprunt = d, dateRetour = f_dateRetour f,
                           emp_utilisateur = user, emp_livre = livre\<rparr> else e) (emprunts s1)\<rparr>)
            | _ \<Rightarrow> Inl Constraint_violation)"

text \<open>Deleting a loan: the column of the book is declared \<open>onDelete: 'SET NULL'\<close>.\<close>

(* @Entity/Livre.php 43-46 Livre::$emprunt *)
definition delete_emprunt :: "ident \<Rightarrow> base \<Rightarrow> base" where
  "delete_emprunt i s =
     s\<lparr>emprunts := filter (\<lambda>e. emp_id e \<noteq> i) (emprunts s),
       livres := (\<lambda>l. case livres s l of Some (Some e) \<Rightarrow> Some (if e = i then None else Some e) | c \<Rightarrow> c)\<rparr>"

text \<open>The loan endpoint of the API hands decoded JSON to setters that take an entity or null.\<close>

(* @Entity/Emprunt.php 74-78 Emprunt::setLivre *)
fun set_entity :: "json \<Rightarrow> php_error + ident option" where
  "set_entity JNull = Inr None"
| "set_entity _ = Inl Type_error"

(* @Api/EmpruntController.php 31-44 EmpruntController::create *)
definition api_emprunt_create :: "date \<Rightarrow> json \<Rightarrow> base \<Rightarrow> php_error + base" where
  "api_emprunt_create now data s =
     (case get_offset data ''livre'' of Inl x \<Rightarrow> Inl x | Inr v \<Rightarrow>
      (case set_entity v of Inl x \<Rightarrow> Inl x | Inr livre \<Rightarrow>
       (case get_offset data ''utilisateur'' of Inl x \<Rightarrow> Inl x | Inr w \<Rightarrow>
        (case set_entity w of Inl x \<Rightarrow> Inl x | Inr user \<Rightarrow>
         (case (livre, user) of
            (Some l, Some u) \<Rightarrow>
              Inr (s\<lparr>emprunts := emprunts s @ [\<lparr>emp_id = next_emp s, dateEmprunt = now, dateRetour = None,
                       emp_utilisateur = u, emp_livre = l\<rparr>], next_emp := next_emp s + 1\<rparr>)
          | _ \<Rightarrow> Inl Constraint_violation)))))"

section \<open>Profiles and roles\<close>

(* @Entity/Utilisateur.php 17-79 Utilisateur *)
record utilisateur =
  uti_id :: ident
  dateAdhesion :: date
  nom :: string
  prenom :: string
  dateNaiss :: date
  email :: string
  adressePostale :: string
  numTel :: string
  photo :: "string option"
  enabled :: bool
  roles :: "string list"
  password :: string

text \<open>\<open>array_unique\<close> keeps the first of equal entries.\<close>

(* @Entity/Utilisateur.php 213-220 Utilisateur::getRoles *)
definition getRoles :: "utilisateur \<Rightarrow> string list" where
  "getRoles u = rev (remdups (rev (roles u @ [''ROLE_USER''])))"

text \<open>\<open>array_key_exists(k, $data) && is_string($data[k])\<close>, with the string.\<close>

fun string_at :: "(string \<times> json) list \<Rightarrow> string \<Rightarrow> string option" where
  "string_at kvs k = (case map_of kvs k of Some (JString v) \<Rightarrow> Some v | _ \<Rightarrow> None)"

text \<open>\<open>accepts\<close> says whether the constraints of the table (the unique e-mail address, the column
  widths) admit the row when it is flushed.\<close>

(* @AuthController.php 36-63 AuthController::update *)
definition profile_update ::
  "(utilisateur \<Rightarrow> bool) \<Rightarrow> utilisateur option \<Rightarrow> json \<Rightarrow> php_error + utilisateur response" where
  "profile_update accepts user data =
     (case user of
        None \<Rightarrow> Inr (401, Inl ''Not authenticated'')
      | Some u \<Rightarrow>
         (case data of
            JArray kvs \<Rightarrow>
              let u1 = (case string_at kvs ''email'' of Some v \<Rightarrow> u\<lparr>email := v\<rparr> | None \<Rightarrow> u);
                  u2 = (case string_at kvs ''numTel'' of Some v \<Rightarrow> u1\<lparr>numTel := v\<rparr> | None \<Rightarrow> u1);
                  u3 = (case string_at kvs ''adressePostale'' of Some v \<Rightarrow> u2\<lparr>adressePostale := v\<rparr> | None \<Rightarrow> u2)
              in if accepts u3 then Inr (200, Inr u3) else Inl Constraint_violation
          | _ \<Rightarrow> Inr (400, Inl ''Invalid payload'')))"

section \<open>Access control\<close>

text \<open>A rule is a path prefix and the attributes of which one has to be granted.\<close>

(* @packages/security.yaml 56-64 access_control *)
definition access_control :: "(string \<times> string list) list" where
  "access_control =
    [(''/api/login'', [''PUBLIC_ACCESS'']),
     (''/api'', [''PUBLIC_ACCESS'']),
     (''/admin'', [''ROLE_BIBLIOTHECAIRE'', ''ROLE_RESPONSABLE'']),
     (''/api/user/me'', [''IS_AUTHENTICATED_FULLY'']),
     (''/api/emprunts'', [''IS_AUTHENTICATED_FULLY'']),
     (''/api/livres/recherche'', [''PUBLIC_ACCESS'']),
     (''/api/reservations'', [''IS_AUTHENTICATED_FULLY''])]"

(* @packages/security.yaml 50-54 role_hierarchy *)
definition role_hierarchy :: "string \<Rightarrow> string list" where
  "role_hierarchy r =
    (if r = ''ROLE_BIBLIOTHECAIRE'' then [''ROLE_ADHERENT'']
     else if r = ''ROLE_RESPONSABLE'' then [''ROLE_BIBLIOTHECAIRE'', ''ROLE_ADHERENT''] else [])"

definition reachable_roles :: "string list \<Rightarrow> string list" where
  "reachable_roles rs = concat (map (\<lambda>r. r # role_hierarchy r) rs)"

text \<open>\<open>None\<close> is a visitor without a token.\<close>

fun grants :: "string list option \<Rightarrow> string \<Rightarrow> bool" where
  "grants who a =
     (if a = ''PUBLIC_ACCESS'' then True
      else case who of None \<Rightarrow> False
           | Some rs \<Rightarrow> a = ''IS_AUTHENTICATED_FULLY'' \<or> a \<in> set (reachable_roles rs))"

fun access_rule :: "(string \<times> string list) list \<Rightarrow> string \<Rightarrow> string list option" where
  "access_rule [] path = None"
| "access_rule ((p, as) # rules) path =
     (if take (length p) path = p then Some as else access_rule rules path)"

definition access_allowed :: "string list option \<Rightarrow> string \<Rightarrow> bool" where
  "access_allowed who path =
     (case access_rule access_control path of
        None \<Rightarrow> True
      | Some as \<Rightarrow> list_ex (grants who) as)"

text \<open>The attributes \<open>#[IsGranted]\<close> of the controllers of reservations and loans.\<close>

(* @Api/EmpruntController.php 17-31 EmpruntController attributes *)
fun emprunt_is_granted :: "string \<Rightarrow> string option" where
  "emprunt_is_granted m =
     (if m = ''create'' then Some ''ROLE_ADHERENT'' else None)"

definition emprunt_endpoint_allowed :: "string list option \<Rightarrow> string \<Rightarrow> string \<Rightarrow> bool" where
  "emprunt_endpoint_allowed who path m =
     (access_allowed who path \<and> (case emprunt_is_granted m of None \<Rightarrow> True | Some a \<Rightarrow> grants who a))"

section \<open>Histories\<close>

text \<open>What a query limited to one result returns: nothing on no rows, otherwise one of the rows.\<close>

definition one_result :: "('a list \<Rightarrow> 'a option) \<Rightarrow> bool" where
  "one_result pick \<longleftrightarrow> pick [] = None \<and> (\<forall>xs. xs \<noteq> [] \<longrightarrow> (\<exists>x \<in> set xs. pick xs = Some x))"

text \<open>
  One request of the modelled handlers at a time. The staff registers books, lends and takes back, and
  edits loans; \<open>edits e f\<close> says which forms may be submitted for a loan \<open>e\<close>. The books of a form are
  chosen from a list of the registered ones.
\<close>

inductive requete :: "(emprunt \<Rightarrow> formulaire \<Rightarrow> bool) \<Rightarrow> (reservation list \<Rightarrow> reservation option)
    \<Rightarrow> (emprunt list \<Rightarrow> emprunt option) \<Rightarrow> base \<Rightarrow> base \<Rightarrow> bool"
  for edits pick pick_emp where
  req_index: "requete edits pick pick_emp s (fst (reservation_index ordre now user s))"
| req_create: "requete edits pick pick_emp s (fst (reservation_create pick cle now now' user data s))"
| req_delete: "requete edits pick pick_emp s (fst (reservation_delete user i s))"
| req_expire: "requete edits pick pick_emp s (fst (expire_execute now s))"
| req_livre: "livres s l = None \<Longrightarrow> requete edits pick pick_emp s (s\<lparr>livres := (livres s)(l \<mapsto> None)\<rparr>)"
| req_persist: "persistEntity pick pick_emp now f s = Inr (m, s') \<Longrightarrow>
    \<forall>l. f_livre f = Some l \<longrightarrow> livres s l \<noteq> None \<Longrightarrow> requete edits pick pick_emp s s'"
| req_update: "e \<in> set (emprunts s) \<Longrightarrow> edits e f \<Longrightarrow> \<forall>l. f_livre f = Some l \<longrightarrow> livres s l \<noteq> None \<Longrightarrow>
    updateEntity (emp_id e) f s = Inr s' \<Longrightarrow> requete edits pick pick_emp s s'"
| req_delete_emprunt: "requete edits pick pick_emp s (delete_emprunt i s)"

text \<open>Any form, and the forms that keep the book and the member of the loan and do not reopen a loan that
  was returned.\<close>

definition any_edit :: "emprunt \<Rightarrow> formulaire \<Rightarrow> bool" where
  "any_edit e f \<longleftrightarrow> True"

definition date_edit :: "emprunt \<Rightarrow> formulaire \<Rightarrow> bool" where
  "date_edit e f \<longleftrightarrow> f_livre f = Some (emp_livre e) \<and> f_utilisateur f = Some (emp_utilisateur e) \<and>
     (dateRetour e \<noteq> None \<longrightarrow> f_dateRetour f \<noteq> None)"

definition base_vide :: base where
  "base_vide = \<lparr>reservations = [], emprunts = [], livres = Map.empty, next_res = 1, next_emp = 1\<rparr>"

definition reservations_ok :: "base \<Rightarrow> bool" where
  "reservations_ok s \<longleftrightarrow>
     distinct (map res_id (reservations s)) \<and> (\<forall>r \<in> set (reservations s). res_id r < next_res s) \<and>
     distinct (map res_livre (reservations s)) \<and>
     (\<forall>u. length (filter (\<lambda>r. res_utilisateur r = u) (reservations s)) \<le> 3) \<and>
     (\<forall>r \<in> set (reservations s). livres s (res_livre r) = Some None)"

text \<open>The part of it that speaks of the table of reservations alone.\<close>

definition limites_ok :: "base \<Rightarrow> bool" where
  "limites_ok s \<longleftrightarrow>
     distinct (map res_id (reservations s)) \<and> (\<forall>r \<in> set (reservations s). res_id r < next_res s) \<and>
     distinct (map res_livre (reservations s)) \<and>
     (\<forall>u. length (filter (\<lambda>r. res_utilisateur r = u) (reservations s)) \<le> 3)"

definition emprunts_ok :: "base \<Rightarrow> bool" where
  "emprunts_ok s \<longleftrightarrow>
     distinct (map emp_id (emprunts s)) \<and> (\<forall>e \<in> set (emprunts s). emp_id e < next_emp s) \<and>
     (\<forall>e \<in> set (emprunts s). livres s (emp_livre e) \<noteq> None) \<and>
     (\<forall>e \<in> set (emprunts s). dateRetour e = None \<longrightarrow> livres s (emp_livre e) = Some (Some (emp_id e))) \<and>
     (\<forall>l i. livres s l = Some (Some i) \<longrightarrow>
        (\<exists>e \<in> set (emprunts s). emp_id e = i \<and> emp_livre e = l \<and> dateRetour e = None)) \<and>
     (\<forall>u. length (emprunts_actifs s u) \<le> 5)"

section \<open>Lemmas on the queries\<close>

lemma one_result_None: "one_result pick \<Longrightarrow> pick xs = None \<longleftrightarrow> xs = []"
  by (metis one_result_def option.distinct(1))

lemma one_result_Some: "one_result pick \<Longrightarrow> pick xs = Some x \<Longrightarrow> x \<in> set xs"
  by (metis one_result_def option.distinct(1) option.inject)

lemma one_result_nonempty:
  assumes "one_result pick" "y \<in> set xs" obtains x where "pick xs = Some x" "x \<in> set xs"
  using assms unfolding one_result_def by (metis list.set_cases list.distinct(1))

lemma one_result_first: "one_result (\<lambda>xs. case xs of [] \<Rightarrow> None | x # _ \<Rightarrow> Some x)"
  by (auto simp: one_result_def neq_Nil_conv)

lemma purge_fields [simp]:
  "reservations (fst (purgeExpired s c)) = filter (\<lambda>r. c \<le> dateResa r) (reservations s)"
  "emprunts (fst (purgeExpired s c)) = emprunts s"
  "livres (fst (purgeExpired s c)) = livres s"
  "next_res (fst (purgeExpired s c)) = next_res s"
  "next_emp (fst (purgeExpired s c)) = next_emp s"
  by (simp_all add: purgeExpired_def not_less)

lemma getEmprunt_purge [simp]: "getEmprunt (fst (purgeExpired s c)) l = getEmprunt s l"
  by (simp add: getEmprunt_def)

text \<open>After the purge every remaining reservation is active.\<close>

lemma count_after_purge:
  "countActiveForUser (fst (purgeExpired s c)) user c =
     length (filter (\<lambda>r. res_utilisateur r = user) (reservations (fst (purgeExpired s c))))"
  by (auto simp: countActiveForUser_def intro!: arg_cong [of _ _ length] filter_cong)

lemma find_after_purge:
  "one_result pick \<Longrightarrow> findActiveByLivre pick (fst (purgeExpired s c)) l c = None \<longleftrightarrow>
     (\<forall>r \<in> set (reservations (fst (purgeExpired s c))). res_livre r \<noteq> l)"
  by (auto simp: findActiveByLivre_def one_result_None filter_empty_conv)

text \<open>Removing reservations keeps both halves of the invariant.\<close>

lemma length_filter_filter_le: "length (filter Q (filter P xs)) \<le> length (filter Q xs)"
  by (induction xs) auto

lemma reservations_ok_filter:
  assumes "reservations_ok s"
  shows "reservations_ok (s\<lparr>reservations := filter P (reservations s)\<rparr>)"
proof -
  have "length (filter (\<lambda>r. res_utilisateur r = u) (filter P (reservations s))) \<le> 3" for u
    using length_filter_filter_le [of "\<lambda>r. res_utilisateur r = u" P "reservations s"] assms
    unfolding reservations_ok_def by (meson order.trans)
  then show ?thesis
    using assms by (auto simp: reservations_ok_def distinct_map_filter)
qed

lemma emprunts_ok_cong:
  "emprunts_ok s \<Longrightarrow> emprunts s' = emprunts s \<Longrightarrow> livres s' = livres s \<Longrightarrow> next_emp s' = next_emp s
    \<Longrightarrow> emprunts_ok s'"
  by (simp add: emprunts_ok_def emprunts_actifs_def)

lemma purge_ok:
  "reservations_ok s \<Longrightarrow> reservations_ok (fst (purgeExpired s c))"
  "emprunts_ok s \<Longrightarrow> emprunts_ok (fst (purgeExpired s c))"
  by (simp add: purgeExpired_def reservations_ok_filter)
    (rule emprunts_ok_cong [of s], simp_all)

section \<open>The handlers keep the rules\<close>

text \<open>What the checks of \<open>create\<close> establish for the insertion.\<close>

lemma create_checks_Inr:
  assumes "one_result pick" and "create_checks pick cle now user data s = (s1, Inr l)"
  shows "s1 = fst (purgeExpired s (now - seven_days))" and "livres s l = Some None"
    and "length (filter (\<lambda>r. res_utilisateur r = user) (reservations s1)) < 3"
    and "\<forall>r \<in> set (reservations s1). res_livre r \<noteq> l"
  using assms
  by (auto simp: create_checks_def Let_def count_after_purge find_after_purge getEmprunt_def bind_eq_Some_conv
      simp del: purge_fields(1) split: if_splits option.splits sum.splits)

lemma create_checks_Inl:
  "create_checks pick cle now user data s = (s1, Inl resp) \<Longrightarrow> s1 = s \<or> s1 = fst (purgeExpired s (now - seven_days))"
  by (auto simp: create_checks_def Let_def split: if_splits option.splits sum.splits)

lemma create_insert_ok:
  assumes "reservations_ok s" and "livres s l = Some None"
    and "length (filter (\<lambda>r. res_utilisateur r = user) (reservations s)) < 3"
    and "\<forall>r \<in> set (reservations s). res_livre r \<noteq> l"
  shows "reservations_ok (fst (create_insert now user l s))"
  using assms by (auto simp: reservations_ok_def create_insert_def Let_def less_Suc_eq)

text \<open>What lending the book \<open>l\<close> to \<open>u\<close> does: the reservation of the book goes, a loan is added, and an
  open loan makes the book unavailable.\<close>

definition preter :: "date \<Rightarrow> date option \<Rightarrow> ident \<Rightarrow> ident \<Rightarrow> base \<Rightarrow> base" where
  "preter d ret u l s =
     s\<lparr>reservations := filter (\<lambda>r. res_livre r \<noteq> l) (reservations s),
       emprunts := emprunts s @ [\<lparr>emp_id = next_emp s, dateEmprunt = d, dateRetour = ret,
                                  emp_utilisateur = u, emp_livre = l\<rparr>],
       next_emp := next_emp s + 1,
       livres := (if ret = None then (livres s)(l \<mapsto> Some (next_emp s)) else livres s)\<rparr>"

lemma remove_reservation_of_book:
  assumes "reservations_ok s" and "r \<in> set (reservations s)"
  shows "filter (\<lambda>x. res_id x \<noteq> res_id r) (reservations s) = filter (\<lambda>x. res_livre x \<noteq> res_livre r) (reservations s)"
proof (rule filter_cong [OF refl])
  fix x assume x: "x \<in> set (reservations s)"
  have "inj_on res_id (set (reservations s))" "inj_on res_livre (set (reservations s))"
    using assms(1) by (simp_all add: reservations_ok_def distinct_map)
  then have "res_id x = res_id r \<longleftrightarrow> x = r" "res_livre x = res_livre r \<longleftrightarrow> x = r"
    using x assms(2) by (simp_all add: inj_on_eq_iff)
  then show "(res_id x \<noteq> res_id r) = (res_livre x \<noteq> res_livre r)" by simp
qed

lemma no_reservation_of_book: "\<forall>r \<in> set rs. res_livre r \<noteq> l \<Longrightarrow> filter (\<lambda>x. res_livre x \<noteq> l) rs = rs"
  by simp

lemma reservation_of_book_unique:
  "reservations_ok s \<Longrightarrow> r \<in> set (reservations s) \<Longrightarrow> r' \<in> set (reservations s) \<Longrightarrow> res_livre r = res_livre r' \<Longrightarrow> r = r'"
  by (auto simp: reservations_ok_def distinct_map inj_on_def)

lemma loan_of_book_unique:
  "emprunts_ok s \<Longrightarrow> e \<in> set (emprunts s) \<Longrightarrow> e' \<in> set (emprunts s) \<Longrightarrow> emp_livre e = emp_livre e'
    \<Longrightarrow> dateRetour e = None \<Longrightarrow> dateRetour e' = None \<Longrightarrow> e = e'"
  unfolding emprunts_ok_def distinct_map by (metis inj_on_def option.inject)

text \<open>The branches of \<open>persistEntity\<close>, for a form that names a book and a member.\<close>

lemma persistEntity_reserved:
  assumes "one_result pick" "reservations_ok s" and f: "f_livre f = Some l" "f_utilisateur f = Some u"
    and r: "r \<in> set (reservations s)" "res_livre r = l" "res_utilisateur r \<noteq> u"
  shows "persistEntity pick pick_emp now f s = Inl (Exception ''Ce livre est reserve par un autre adherent !'')"
proof -
  let ?rs = "filter (\<lambda>r. Some (res_livre r) = f_livre f) (reservations s)"
  have "r \<in> set ?rs" using r f by simp
  then obtain r' where r': "pick ?rs = Some r'" "r' \<in> set ?rs"
    using one_result_nonempty [OF assms(1)] by blast
  then have "r' = r" using reservation_of_book_unique [OF assms(2)] r f by auto
  then show ?thesis using r' r f by (simp add: persistEntity_def)
qed

lemma persistEntity_other:
  assumes "one_result pick" "one_result pick_emp" "reservations_ok s"
    and f: "f_livre f = Some l" "f_utilisateur f = Some u"
    and nr: "\<forall>r \<in> set (reservations s). res_livre r = l \<longrightarrow> res_utilisateur r = u"
  shows "persistEntity pick pick_emp now f s =
     (if length (emprunts_actifs s u) \<ge> 5 then Inr (Some Limite_de_5_emprunts, s)
      else case pick_emp (filter (\<lambda>e. emp_livre e = l \<and> dateRetour e = None) (emprunts s)) of
        Some e \<Rightarrow> Inr (Some (Deja_emprunte_par (emp_utilisateur e)), s)
      | None \<Rightarrow> Inr (None, preter (case f_dateEmprunt f of None \<Rightarrow> now | Some d \<Rightarrow> d) (f_dateRetour f) u l s))"
proof (cases "pick (filter (\<lambda>r. res_livre r = l) (reservations s))")
  case None
  then have "\<forall>r \<in> set (reservations s). res_livre r \<noteq> l"
    using assms(1) by (auto simp: one_result_None filter_empty_conv)
  then show ?thesis using None f
    by (auto simp: persistEntity_def Let_def preter_def setEmprunt_def no_reservation_of_book split: option.splits)
next
  case (Some r)
  then have r: "r \<in> set (reservations s)" "res_livre r = l"
    using one_result_Some [OF assms(1) Some] by auto
  then have "res_utilisateur r = u" using nr by blast
  then show ?thesis using Some f remove_reservation_of_book [OF assms(3) r(1)] r(2)
    by (auto simp: persistEntity_def Let_def preter_def setEmprunt_def split: option.splits)
qed

text \<open>The result of \<open>persistEntity\<close> for such a form in general: the picked reservation decides and goes.\<close>

lemma persistEntity_both:
  assumes "one_result pick" "one_result pick_emp" "distinct (map res_id (reservations s))"
    and f: "f_livre f = Some l" "f_utilisateur f = Some u"
  shows "persistEntity pick pick_emp now f s =
     (let R = filter (\<lambda>r. res_livre r = l) (reservations s);
          E = filter (\<lambda>e. emp_livre e = l \<and> dateRetour e = None) (emprunts s) in
      if \<exists>r. pick R = Some r \<and> res_utilisateur r \<noteq> u
      then Inl (Exception ''Ce livre est reserve par un autre adherent !'')
      else if 5 \<le> length (emprunts_actifs s u) then Inr (Some Limite_de_5_emprunts, s)
      else if E \<noteq> [] then Inr (Some (Deja_emprunte_par (emp_utilisateur (the (pick_emp E)))), s)
      else Inr (None, (preter (case f_dateEmprunt f of None \<Rightarrow> now | Some d \<Rightarrow> d) (f_dateRetour f) u l s)
             \<lparr>reservations := filter (\<lambda>x. pick R \<noteq> Some x) (reservations s)\<rparr>))"
proof -
  let ?R = "filter (\<lambda>r. res_livre r = l) (reservations s)"
  let ?E = "filter (\<lambda>e. emp_livre e = l \<and> dateRetour e = None) (emprunts s)"
  define eo where "eo = pick_emp ?E"
  have e: "pick_emp ?E = eo" "?E = [] \<longleftrightarrow> eo = None"
    using one_result_None [OF assms(2), of ?E] unfolding eo_def by blast+
  show ?thesis
  proof (cases "pick ?R")
    case None
    show ?thesis
      by (cases eo) (simp_all add: persistEntity_def f None Let_def preter_def setEmprunt_def e del: filter_empty_conv)
  next
    case (Some r)
    then have "r \<in> set (reservations s)" using one_result_Some [OF assms(1) Some] by simp
    then have "filter (\<lambda>x. res_id x \<noteq> res_id r) (reservations s) = filter (\<lambda>x. x \<noteq> r) (reservations s)"
      using assms(3) by (intro filter_cong) (auto simp: distinct_map inj_on_def)
    moreover have "filter (\<lambda>x. pick ?R \<noteq> Some x) (reservations s) = filter (\<lambda>x. x \<noteq> r) (reservations s)"
      using Some by (intro filter_cong) auto
    ultimately show ?thesis
      by (cases eo) (simp_all add: persistEntity_def f Some Let_def preter_def setEmprunt_def e del: filter_empty_conv)
  qed
qed

lemma pick_single:
  assumes "one_result pick" "length R \<le> 1"
  shows "pick R = Some x \<longleftrightarrow> x \<in> set R"
proof (cases R)
  case Nil
  then show ?thesis using assms(1) by (simp add: one_result_def)
next
  case (Cons a as)
  then have "R = [a]" using assms(2) by simp
  moreover have "\<exists>x \<in> set [a]. pick [a] = Some x" using assms(1) unfolding one_result_def by blast
  ultimately show ?thesis by auto
qed

text \<open>Whatever is saved keeps the rules.\<close>

lemma preter_actifs:
  "emprunts_actifs (preter d ret u l s) v = emprunts_actifs s v @
     (if v = u \<and> ret = None then [\<lparr>emp_id = next_emp s, dateEmprunt = d, dateRetour = ret, emp_utilisateur = u, emp_livre = l\<rparr>] else [])"
  by (auto simp: emprunts_actifs_def preter_def)

lemma preter_ok:
  assumes "reservations_ok s" "emprunts_ok s" "livres s l \<noteq> None" "length (emprunts_actifs s u) < 5"
    and free: "\<forall>e \<in> set (emprunts s). emp_livre e = l \<longrightarrow> dateRetour e \<noteq> None"
  shows "reservations_ok (preter d ret u l s)" "emprunts_ok (preter d ret u l s)"
proof -
  have "reservations_ok (s\<lparr>reservations := filter (\<lambda>r. res_livre r \<noteq> l) (reservations s)\<rparr>)"
    by (rule reservations_ok_filter [OF assms(1)])
  then show "reservations_ok (preter d ret u l s)"
    by (auto simp: reservations_ok_def preter_def)
  have "livres s l = Some None"
    using assms(2,3) free unfolding emprunts_ok_def by (metis not_Some_eq)
  moreover have "length (emprunts_actifs (preter d ret u l s) v) \<le> 5" for v
    using assms(2,4) unfolding preter_actifs emprunts_ok_def by (auto simp: Suc_le_eq)
  ultimately show "emprunts_ok (preter d ret u l s)"
    using assms(2) unfolding emprunts_ok_def
    by (auto simp: preter_def less_Suc_eq fun_upd_def split: if_splits)
qed

lemma persistEntity_ok:
  assumes "one_result pick" "one_result pick_emp" "reservations_ok s" "emprunts_ok s"
    and "persistEntity pick pick_emp now f s = Inr (m, s')" and known: "\<forall>l. f_livre f = Some l \<longrightarrow> livres s l \<noteq> None"
  shows "reservations_ok s' \<and> emprunts_ok s'"
proof (cases "f_utilisateur f = None \<or> f_livre f = None")
  case True
  then have "s' = s" using assms(5)
    by (auto simp: persistEntity_def Let_def split: if_splits option.splits)
  then show ?thesis using assms by simp
next
  case False
  then obtain u l where f: "f_livre f = Some l" "f_utilisateur f = Some u" by auto
  have nr: "\<forall>r \<in> set (reservations s). res_livre r = l \<longrightarrow> res_utilisateur r = u"
    using persistEntity_reserved [OF assms(1,3) f] assms(5) by fastforce
  have free: "pick_emp (filter (\<lambda>e. emp_livre e = l \<and> dateRetour e = None) (emprunts s)) = None \<longleftrightarrow>
      (\<forall>e \<in> set (emprunts s). emp_livre e = l \<longrightarrow> dateRetour e \<noteq> None)"
    using assms(2) by (auto simp: one_result_None filter_empty_conv)
  have lk: "livres s l \<noteq> None" using known f by blast
  note ok = preter_ok [OF assms(3,4) lk]
  show ?thesis
    using assms(3-5) ok free unfolding persistEntity_other [OF assms(1-3) f nr]
    by (auto split: if_splits option.splits)
qed

text \<open>An edit of dates of a loan, or its return.\<close>

lemma update_actifs_le:
  assumes "e \<in> set es" and "distinct (map emp_id es)" and "emp_utilisateur e' = emp_utilisateur e"
    and "dateRetour e' = None \<longrightarrow> dateRetour e = None"
  shows "length (filter (\<lambda>x. emp_utilisateur x = u \<and> dateRetour x = None) (map (\<lambda>x. if emp_id x = emp_id e then e' else x) es))
     \<le> length (filter (\<lambda>x. emp_utilisateur x = u \<and> dateRetour x = None) es)"
proof -
  have eq: "map (\<lambda>x. if emp_id x = emp_id e then e' else x) es = map (\<lambda>x. if x = e then e' else x) es"
    using assms(1,2) by (fastforce simp: distinct_map inj_on_def)
  have "length (filter (\<lambda>x. emp_utilisateur x = u \<and> dateRetour x = None) (map (\<lambda>x. if x = e then e' else x) xs))
     \<le> length (filter (\<lambda>x. emp_utilisateur x = u \<and> dateRetour x = None) xs)" for xs
    using assms(3,4) by (induction xs) auto
  then show ?thesis unfolding eq .
qed

lemma updateEntity_ok:
  assumes "reservations_ok s" "emprunts_ok s" and e: "e \<in> set (emprunts s)"
    and f: "f_livre f = Some (emp_livre e)" "f_utilisateur f = Some (emp_utilisateur e)"
    and open_: "dateRetour e \<noteq> None \<longrightarrow> f_dateRetour f \<noteq> None"
    and "updateEntity (emp_id e) f s = Inr s'"
  shows "reservations_ok s'" "emprunts_ok s'"
proof -
  obtain d where d: "f_dateEmprunt f = Some d"
    using assms(7) f by (auto simp: updateEntity_def Let_def split: option.splits)
  define e' where "e' = \<lparr>emp_id = emp_id e, dateEmprunt = d, dateRetour = f_dateRetour f,
      emp_utilisateur = emp_utilisateur e, emp_livre = emp_livre e\<rparr>"
  let ?es = "map (\<lambda>x. if emp_id x = emp_id e then e' else x) (emprunts s)"
  let ?l = "emp_livre e"
  have s': "reservations s' = reservations s" "next_res s' = next_res s" "next_emp s' = next_emp s" "emprunts s' = ?es"
    "livres s' = (if f_dateRetour f = None then (livres s)(?l \<mapsto> Some (emp_id e))
       else if getEmprunt s ?l = Some (emp_id e) then (livres s)(?l \<mapsto> None) else livres s)"
    using assms(7) f d by (auto simp: updateEntity_def Let_def setEmprunt_def e'_def)
  have inj: "x \<in> set (emprunts s) \<Longrightarrow> emp_id x = emp_id e \<Longrightarrow> x = e" for x
    using assms(2) e by (auto simp: emprunts_ok_def distinct_map inj_on_def)
  have livre_e: "livres s ?l = Some (Some (emp_id e))" if "f_dateRetour f = None"
    using that open_ e assms(2) by (auto simp: emprunts_ok_def)
  have livres': "livres s' = (if dateRetour e = None \<and> f_dateRetour f \<noteq> None then (livres s)(?l \<mapsto> None) else livres s)"
  proof (cases "dateRetour e")
    case None
    then have "livres s ?l = Some (Some (emp_id e))" using e assms(2) by (auto simp: emprunts_ok_def)
    then show ?thesis using None by (auto simp: s' getEmprunt_def fun_upd_idem)
  next
    case (Some t)
    then have "getEmprunt s ?l \<noteq> Some (emp_id e)"
      using assms(2) inj unfolding emprunts_ok_def getEmprunt_def by (metis option.case_eq_if option.collapse option.distinct(1))
    then show ?thesis using Some open_ by (auto simp: s')
  qed
  show "reservations_ok s'"
    using assms(1) by (auto simp: reservations_ok_def s'(1,2) livres')
  have "map emp_id ?es = map emp_id (emprunts s)" by (auto simp: e'_def)
  then have ids: "distinct (map emp_id ?es)" using assms(2) unfolding emprunts_ok_def by metis
  have "length (emprunts_actifs s' u) \<le> length (emprunts_actifs s u)" for u
    using update_actifs_le [of e "emprunts s" e' u] e assms(2) open_
    unfolding emprunts_actifs_def s'(4) by (auto simp: emprunts_ok_def e'_def)
  then have actifs: "length (emprunts_actifs s' u) \<le> 5" for u
    using assms(2) unfolding emprunts_ok_def by (meson order.trans)
  have old: "\<forall>x \<in> set (emprunts s). dateRetour x = None \<longrightarrow> livres s (emp_livre x) = Some (Some (emp_id x))"
    "\<forall>l i. livres s l = Some (Some i) \<longrightarrow>
        (\<exists>e \<in> set (emprunts s). emp_id e = i \<and> emp_livre e = l \<and> dateRetour e = None)"
    using assms(2) by (simp_all add: emprunts_ok_def)
  have new: "x \<in> set ?es \<longleftrightarrow> x = e' \<or> x \<in> set (emprunts s) \<and> x \<noteq> e" for x
    using e inj by (auto simp: e'_def)
  have a: "\<forall>x \<in> set ?es. dateRetour x = None \<longrightarrow> livres s' (emp_livre x) = Some (Some (emp_id x))"
    using old(1) livre_e loan_of_book_unique [OF assms(2) e] unfolding new livres'
    by (auto simp: e'_def) (metis option.exhaust)
  have b: "\<exists>x \<in> set ?es. emp_id x = i \<and> emp_livre x = l \<and> dateRetour x = None"
    if li: "livres s' l = Some (Some i)" for l i
  proof -
    have "livres s l = Some (Some i)" using li unfolding livres' by (auto split: if_splits)
    then obtain x where x: "x \<in> set (emprunts s)" "emp_id x = i" "emp_livre x = l" "dateRetour x = None"
      using old(2) by blast
    show ?thesis
    proof (cases "x = e")
      case True
      then have "f_dateRetour f = None" using li x unfolding livres' by (auto split: if_splits)
      then show ?thesis using True x unfolding Bex_def new by (intro exI [of _ e']) (simp add: e'_def)
    next
      case False
      then show ?thesis using x unfolding Bex_def new by blast
    qed
  qed
  have c: "\<forall>x \<in> set ?es. emp_id x < next_emp s \<and> livres s' (emp_livre x) \<noteq> None"
    using assms(2) e unfolding new livres' emprunts_ok_def by (auto simp: e'_def)
  show "emprunts_ok s'"
    unfolding emprunts_ok_def s'(3,4) using a b c actifs ids by blast
qed

lemma delete_emprunt_ok:
  assumes "reservations_ok s" "emprunts_ok s"
  shows "reservations_ok (delete_emprunt i s)" "emprunts_ok (delete_emprunt i s)"
proof -
  show "reservations_ok (delete_emprunt i s)"
    using assms(1) by (auto simp: reservations_ok_def delete_emprunt_def)
  have "length (emprunts_actifs (delete_emprunt i s) u) \<le> 5" for u
    using length_filter_filter_le [of "\<lambda>e. emp_utilisateur e = u \<and> dateRetour e = None" "\<lambda>e. emp_id e \<noteq> i" "emprunts s"]
      assms(2) by (auto simp: emprunts_ok_def emprunts_actifs_def delete_emprunt_def simp del: filter_filter intro: order.trans)
  moreover have "\<exists>e \<in> set (emprunts (delete_emprunt i s)). emp_id e = j \<and> emp_livre e = l \<and> dateRetour e = None"
    if "livres (delete_emprunt i s) l = Some (Some j)" for l j
  proof -
    have "livres s l = Some (Some j)" "j \<noteq> i"
      using that by (auto simp: delete_emprunt_def split: option.splits if_splits)
    then show ?thesis using assms(2) unfolding emprunts_ok_def by (fastforce simp: delete_emprunt_def)
  qed
  ultimately show "emprunts_ok (delete_emprunt i s)"
    using assms(2) unfolding emprunts_ok_def
    by (auto simp: delete_emprunt_def distinct_map_filter split: option.splits)
qed

lemma requete_ok:
  assumes "requete date_edit pick pick_emp s s'" and "one_result pick" "one_result pick_emp" "reservations_ok s" "emprunts_ok s"
  shows "reservations_ok s' \<and> emprunts_ok s'"
  using assms
proof (cases rule: requete.cases)
  case (req_create cle now now' user data)
  obtain s1 res where c: "create_checks pick cle now user data s = (s1, res)" by fastforce
  show ?thesis
  proof (cases res)
    case (Inl resp)
    then show ?thesis using create_checks_Inl [of pick cle now user data s s1 resp] c assms(4,5) purge_ok
      by (auto simp: req_create reservation_create_def)
  next
    case (Inr l)
    note chk = create_checks_Inr [OF assms(2) c [unfolded Inr]]
    have "reservations_ok s1" "emprunts_ok s1" using purge_ok assms(4,5) unfolding chk(1) by blast+
    moreover have "emprunts_ok (fst (create_insert now' user l s1))"
      using \<open>emprunts_ok s1\<close> by (rule emprunts_ok_cong) (simp_all add: create_insert_def Let_def)
    moreover have "livres s1 l = Some None" using chk(1,2) by simp
    ultimately show ?thesis
      using create_insert_ok [of s1 l user now'] chk(3,4) c Inr by (simp add: req_create reservation_create_def)
  qed
next
  case (req_delete user i)
  then show ?thesis
    using assms(4,5) reservations_ok_filter emprunts_ok_cong [OF assms(5)]
    by (auto simp: reservation_delete_def split: option.splits)
next
  case (req_persist now f m)
  then show ?thesis using persistEntity_ok [OF assms(2-5)] by blast
next
  case (req_update e f)
  then show ?thesis using updateEntity_ok [OF assms(4,5), of e f s'] by (auto simp: date_edit_def)
next
  case (req_livre l)
  then show ?thesis using assms(4,5) by (auto simp: reservations_ok_def emprunts_ok_def emprunts_actifs_def)
qed (use purge_ok delete_emprunt_ok in \<open>auto simp: reservation_index_def expire_execute_def Let_def\<close>)

lemma histoire_ok:
  assumes "(requete date_edit pick pick_emp)\<^sup>*\<^sup>* base_vide s" and "one_result pick" "one_result pick_emp"
  shows "reservations_ok s \<and> emprunts_ok s"
  using assms(1)
proof (induction rule: rtranclp_induct)
  case base
  show ?case by (simp add: reservations_ok_def emprunts_ok_def emprunts_actifs_def base_vide_def)
next
  case (step s s')
  then show ?case using requete_ok assms(2,3) by blast
qed

text \<open>Whatever loans are edited, the handlers keep the rules on reservations.\<close>

lemma limites_ok_filter:
  assumes "limites_ok s" "reservations s' = filter P (reservations s)" "next_res s' = next_res s"
  shows "limites_ok s'"
proof -
  have "length (filter (\<lambda>r. res_utilisateur r = u) (filter P (reservations s))) \<le> 3" for u
    using length_filter_filter_le [of "\<lambda>r. res_utilisateur r = u" P "reservations s"] assms(1)
    unfolding limites_ok_def by (meson order.trans)
  then show ?thesis using assms by (auto simp: limites_ok_def distinct_map_filter)
qed

lemma limites_ok_cong: "limites_ok s \<Longrightarrow> reservations s' = reservations s \<Longrightarrow> next_res s' = next_res s \<Longrightarrow> limites_ok s'"
  by (simp add: limites_ok_def)

lemma persistEntity_reservations:
  assumes "persistEntity pick pick_emp now f s = Inr (m, s')"
  shows "\<exists>P. reservations s' = filter P (reservations s) \<and> next_res s' = next_res s"
proof -
  have "\<exists>P. xs = filter P xs" for xs :: "reservation list" by (intro exI [of _ "\<lambda>_. True"]) simp
  then show ?thesis
    using assms by (auto simp: persistEntity_def Let_def setEmprunt_def split: if_splits option.splits)
qed

lemma requete_limites:
  assumes "requete edits pick pick_emp s s'" "one_result pick" "limites_ok s"
  shows "limites_ok s'"
  using assms(1)
proof (cases rule: requete.cases)
  case (req_create cle now now' user data)
  obtain s1 res where c: "create_checks pick cle now user data s = (s1, res)" by fastforce
  have p: "limites_ok (fst (purgeExpired s t))" for t by (rule limites_ok_filter [OF assms(3)]) simp_all
  show ?thesis
  proof (cases res)
    case (Inl resp)
    then have "s' = s \<or> s' = fst (purgeExpired s (now - seven_days))"
      using create_checks_Inl c by (simp add: req_create reservation_create_def)
    then show ?thesis using p assms(3) by blast
  next
    case (Inr l)
    note chk = create_checks_Inr [OF assms(2) c [unfolded Inr]]
    have "limites_ok s1" unfolding chk(1) by (rule p)
    then show ?thesis using chk(3,4) c Inr
      by (auto simp: req_create reservation_create_def limites_ok_def create_insert_def Let_def less_Suc_eq)
  qed
next
  case (req_delete user i)
  then show ?thesis using assms(3) limites_ok_filter [OF assms(3)]
    by (auto simp: reservation_delete_def split: option.splits)
next
  case (req_persist now f m)
  then show ?thesis using persistEntity_reservations limites_ok_filter [OF assms(3)] by blast
next
  case (req_update e f)
  have "reservations s' = reservations s" "next_res s' = next_res s"
    using req_update(4) by (auto simp: updateEntity_def Let_def setEmprunt_def split: option.splits if_splits)
  then show ?thesis by (rule limites_ok_cong [OF assms(3)])
qed (auto intro: limites_ok_cong [OF assms(3)] limites_ok_filter [OF assms(3)]
    simp: reservation_index_def expire_execute_def delete_emprunt_def Let_def)

lemma histoire_limites:
  assumes "(requete edits pick pick_emp)\<^sup>*\<^sup>* base_vide s" "one_result pick"
  shows "limites_ok s"
  using assms(1)
proof (induction rule: rtranclp_induct)
  case base
  show ?case by (simp add: limites_ok_def base_vide_def)
next
  case (step s s')
  then show ?case using requete_limites assms(2) by blast
qed

text \<open>A history in which an edit reopens a loan: book 1 is entered as lent and returned, lent again, and
  then the date of the first return is cleared.\<close>

definition emprunt_1 :: "ident \<Rightarrow> ident \<Rightarrow> date option \<Rightarrow> emprunt" where
  "emprunt_1 i u ret = \<lparr>emp_id = i, dateEmprunt = 0, dateRetour = ret, emp_utilisateur = u, emp_livre = 1\<rparr>"

lemma histoire_rouverte:
  assumes "one_result pick" "one_result pick_emp"
  shows "\<exists>s. (requete any_edit pick pick_emp)\<^sup>*\<^sup>* base_vide s \<and> emprunts s = [emprunt_1 1 7 None, emprunt_1 2 8 None]"
proof -
  have p: "pick [] = None" "pick_emp [] = None" using assms by (simp_all add: one_result_None)
  let ?f = "\<lambda>u ret. \<lparr>f_dateEmprunt = Some 0, f_dateRetour = ret, f_utilisateur = Some u, f_livre = Some 1\<rparr>"
  define s1 where "s1 = base_vide\<lparr>livres := [1 \<mapsto> None]\<rparr>"
  define s2 where "s2 = s1\<lparr>emprunts := [emprunt_1 1 7 (Some 5)], next_emp := 2\<rparr>"
  define s3 where "s3 = s2\<lparr>emprunts := [emprunt_1 1 7 (Some 5), emprunt_1 2 8 None], next_emp := 3, livres := [1 \<mapsto> Some 2]\<rparr>"
  define s4 where "s4 = s3\<lparr>emprunts := [emprunt_1 1 7 None, emprunt_1 2 8 None], livres := [1 \<mapsto> Some 1]\<rparr>"
  note d = s1_def s2_def s3_def s4_def base_vide_def emprunt_1_def
  have "requete any_edit pick pick_emp base_vide s1"
    using req_livre [of base_vide 1] by (simp add: d)
  moreover have "persistEntity pick pick_emp 0 (?f 7 (Some 5)) s1 = Inr (None, s2)"
    using p by (simp add: persistEntity_def Let_def d emprunts_actifs_def numeral_2_eq_2)
  then have "requete any_edit pick pick_emp s1 s2" by (rule req_persist) (simp add: d)
  moreover have "persistEntity pick pick_emp 0 (?f 8 None) s2 = Inr (None, s3)"
    using p by (simp add: persistEntity_def Let_def d emprunts_actifs_def setEmprunt_def numeral_2_eq_2 numeral_3_eq_3)
  then have "requete any_edit pick pick_emp s2 s3" by (rule req_persist) (simp add: d)
  moreover have "updateEntity (emp_id (emprunt_1 1 7 (Some 5))) (?f 7 None) s3 = Inr s4"
    by (simp add: updateEntity_def d setEmprunt_def)
  then have "requete any_edit pick pick_emp s3 s4"
    by (rule req_update [rotated 3]) (simp_all add: d any_edit_def)
  ultimately have "(requete any_edit pick pick_emp)\<^sup>*\<^sup>* base_vide s4"
    by (meson rtranclp.rtrancl_refl rtranclp.rtrancl_into_rtrancl)
  then show ?thesis by (intro exI [of _ s4]) (simp add: d)
qed

lemma getEmprunt_None_iff:
  assumes "emprunts_ok s" and "livres s l = Some c"
  shows "getEmprunt s l = None \<longleftrightarrow> (\<forall>e \<in> set (emprunts s). emp_livre e = l \<longrightarrow> dateRetour e \<noteq> None)"
proof (cases c)
  case None
  then show ?thesis using assms by (auto simp: emprunts_ok_def getEmprunt_def)
next
  case (Some i)
  then have "\<exists>e \<in> set (emprunts s). emp_livre e = l \<and> dateRetour e = None"
    using assms unfolding emprunts_ok_def by blast
  then show ?thesis using assms(2) Some by (auto simp: getEmprunt_def)
qed

lemma create_checks_Some:
  assumes "one_result pick" and "truthy (get_or_null data ''livreId'')" and "cle (get_or_null data ''livreId'') = Inr (Some l)"
    and "livres s l = Some c"
  shows "create_checks pick cle now user data s =
     (let s1 = fst (purgeExpired s (now - seven_days)) in
      if length (filter (\<lambda>r. res_utilisateur r = user) (reservations s1)) \<ge> 3
      then (s1, Inl (409, Inl ''Limite de 3 reservations atteinte''))
      else if c \<noteq> None then (s1, Inl (409, Inl ''Livre deja emprunte''))
      else if \<exists>r \<in> set (reservations s1). res_livre r = l then (s1, Inl (409, Inl ''Livre deja reserve''))
      else (s1, Inr l))"
  using assms find_after_purge [OF assms(1), of s "now - seven_days" l]
  by (simp add: create_checks_def Let_def count_after_purge getEmprunt_def bind_eq_Some_conv del: purge_fields(1))

text \<open>The counters of the dashboard: the open loans, and those of them older than fifteen days.\<close>

lemma dashboard_counts_spec:
  "dashboard_counts now s =
     (length (filter (\<lambda>e. dateRetour e = None) (emprunts s)),
      length (filter (\<lambda>e. dateRetour e = None \<and> dateEmprunt e + 15 * 86400 < now) (emprunts s)))"
proof -
  have "foldl (\<lambda>n e. if estEnRetard now e then n + 1 else n) k (filter (\<lambda>e. dateRetour e = None) es) =
      k + length (filter (\<lambda>e. dateRetour e = None \<and> dateEmprunt e + 15 * 86400 < now) es)" for k es
    by (induction es arbitrary: k) (auto simp: estEnRetard_def)
  then show ?thesis by (simp add: dashboard_counts_def Let_def)
qed

section \<open>Properties\<close>

text \<open>C1: The rules of the library over the histories of the modelled requests, handled one after the other.
  Whatever loans the staff edits, a book has at most one reservation and a member at most three. As
  long as the edits of loans only change dates and enter returns, a member has at most five open
  loans, a reserved book is available, and a book has at most one open loan and is marked unavailable
  exactly while it has one. The restriction is needed, since the edit form checks nothing: some history
  with other edits leads to two open loans of one book.\<close>

theorem bibliotheque_invariant:
  assumes "one_result pick" "one_result pick_emp"
  shows "((requete any_edit pick pick_emp)\<^sup>*\<^sup>* base_vide s \<longrightarrow>
      (\<forall>r \<in> set (reservations s). \<forall>r' \<in> set (reservations s). res_livre r = res_livre r' \<longrightarrow> r = r') \<and>
      (\<forall>u. length (filter (\<lambda>r. res_utilisateur r = u) (reservations s)) \<le> 3)) \<and>
    ((requete date_edit pick pick_emp)\<^sup>*\<^sup>* base_vide s \<longrightarrow>
      (\<forall>r \<in> set (reservations s). \<forall>r' \<in> set (reservations s). res_livre r = res_livre r' \<longrightarrow> r = r') \<and>
      (\<forall>u. length (filter (\<lambda>r. res_utilisateur r = u) (reservations s)) \<le> 3) \<and>
      (\<forall>u. length (emprunts_actifs s u) \<le> 5) \<and>
      (\<forall>r \<in> set (reservations s). isDisponible s (res_livre r)) \<and>
      (\<forall>e \<in> set (emprunts s). \<forall>e' \<in> set (emprunts s).
           emp_livre e = emp_livre e' \<and> dateRetour e = None \<and> dateRetour e' = None \<longrightarrow> e = e') \<and>
      (\<forall>l. livres s l \<noteq> None \<longrightarrow>
           isDisponible s l = (\<forall>e \<in> set (emprunts s). emp_livre e = l \<longrightarrow> dateRetour e \<noteq> None))) \<and>
    (\<exists>t. (requete any_edit pick pick_emp)\<^sup>*\<^sup>* base_vide t \<and>
      (\<exists>e \<in> set (emprunts t). \<exists>e' \<in> set (emprunts t). e \<noteq> e' \<and> emp_livre e = emp_livre e' \<and>
         dateRetour e = None \<and> dateRetour e' = None))"
proof (intro conjI impI)
  show "\<forall>r \<in> set (reservations s). \<forall>r' \<in> set (reservations s). res_livre r = res_livre r' \<longrightarrow> r = r'"
    and "\<forall>u. length (filter (\<lambda>r. res_utilisateur r = u) (reservations s)) \<le> 3"
    if "(requete any_edit pick pick_emp)\<^sup>*\<^sup>* base_vide s"
    using histoire_limites [OF that assms(1)] by (auto simp: limites_ok_def distinct_map inj_on_def)
  obtain t where t: "(requete any_edit pick pick_emp)\<^sup>*\<^sup>* base_vide t" "emprunts t = [emprunt_1 1 7 None, emprunt_1 2 8 None]"
    using histoire_rouverte [OF assms] by blast
  show "\<exists>t. (requete any_edit pick pick_emp)\<^sup>*\<^sup>* base_vide t \<and>
      (\<exists>e \<in> set (emprunts t). \<exists>e' \<in> set (emprunts t). e \<noteq> e' \<and> emp_livre e = emp_livre e' \<and>
         dateRetour e = None \<and> dateRetour e' = None)"
    using t by (intro exI [of _ t] conjI) (simp_all add: emprunt_1_def)
  assume "(requete date_edit pick pick_emp)\<^sup>*\<^sup>* base_vide s"
  then have ok: "reservations_ok s" "emprunts_ok s" using histoire_ok assms by blast+
  show "\<forall>r \<in> set (reservations s). \<forall>r' \<in> set (reservations s). res_livre r = res_livre r' \<longrightarrow> r = r'"
    using reservation_of_book_unique [OF ok(1)] by blast
  show "\<forall>u. length (filter (\<lambda>r. res_utilisateur r = u) (reservations s)) \<le> 3"
    and "\<forall>r \<in> set (reservations s). isDisponible s (res_livre r)"
    using ok(1) by (simp_all add: reservations_ok_def isDisponible_def getEmprunt_def)
  show "\<forall>u. length (emprunts_actifs s u) \<le> 5" using ok(2) by (simp add: emprunts_ok_def)
  show "\<forall>e \<in> set (emprunts s). \<forall>e' \<in> set (emprunts s).
           emp_livre e = emp_livre e' \<and> dateRetour e = None \<and> dateRetour e' = None \<longrightarrow> e = e'"
    using loan_of_book_unique [OF ok(2)] by blast
  show "\<forall>l. livres s l \<noteq> None \<longrightarrow>
           isDisponible s l = (\<forall>e \<in> set (emprunts s). emp_livre e = l \<longrightarrow> dateRetour e \<noteq> None)"
    using getEmprunt_None_iff [OF ok(2)] by (auto simp: isDisponible_def)
qed

text \<open>C2: \<open>POST /api/reservation\<close> on every input: a missing key is refused with 400, a key that makes the lookup
  of the book raise an exception ends with 500, and an unknown book with 404, all without any effect;
  otherwise the expired reservations are deleted, and the request is refused with 409 when the member
  has three active reservations, when the book is lent and when it has an active reservation, in this
  order. Only else a reservation of the book, dated now, is added for the member.\<close>

theorem reservation_create_spec:
  assumes "one_result pick"
  shows "let v = get_or_null data ''livreId'';
             actives = filter (\<lambda>r. now - 7 * 86400 \<le> dateResa r) (reservations s);
             s1 = s\<lparr>reservations := actives\<rparr>
         in reservation_create pick cle now now' user data s =
           (if \<not> truthy v then (s, 400, Inl ''ID du livre manquant'')
            else case cle v of
              Inl _ \<Rightarrow> (s, 500, Inl ''Internal Server Error'')
            | Inr None \<Rightarrow> (s, 404, Inl ''Livre non trouve'')
            | Inr (Some l) \<Rightarrow>
               let r = \<lparr>res_id = next_res s, dateResa = now', res_utilisateur = user, res_livre = l\<rparr>
               in if livres s l = None then (s, 404, Inl ''Livre non trouve'')
                  else if length (filter (\<lambda>r. res_utilisateur r = user) actives) \<ge> 3
                    then (s1, 409, Inl ''Limite de 3 reservations atteinte'')
                  else if \<not> isDisponible s l then (s1, 409, Inl ''Livre deja emprunte'')
                  else if \<exists>r \<in> set actives. res_livre r = l then (s1, 409, Inl ''Livre deja reserve'')
                  else (s1\<lparr>reservations := actives @ [r], next_res := next_res s + 1\<rparr>, 201, Inr r))"
proof -
  let ?v = "get_or_null data ''livreId''"
  have s1: "fst (purgeExpired s (now - seven_days)) = s\<lparr>reservations := filter (\<lambda>r. now - 7 * 86400 \<le> dateResa r) (reservations s)\<rparr>"
    by (simp add: purgeExpired_def seven_days_def not_less)
  consider "\<not> truthy ?v \<or> (\<exists>x. cle ?v = Inl x) \<or> cle ?v = Inr None"
    | l where "truthy ?v" "cle ?v = Inr (Some l)" "livres s l = None"
    | l c where "truthy ?v" "cle ?v = Inr (Some l)" "livres s l = Some c"
    by (metis option.exhaust sum.exhaust)
  then show ?thesis
  proof cases
    case 1
    then show ?thesis by (auto simp: reservation_create_def create_checks_def Let_def)
  next
    case 2
    then show ?thesis by (simp add: reservation_create_def create_checks_def Let_def)
  next
    case 3
    have gE: "isDisponible s l \<longleftrightarrow> c = None" using 3 by (simp add: isDisponible_def getEmprunt_def)
    show ?thesis
      using 3 unfolding reservation_create_def create_checks_Some [where cle = cle, OF assms 3] s1
      by (auto simp: Let_def create_insert_def gE)
  qed
qed

text \<open>C28: The checks of \<open>create\<close> and its insertion are not atomic: if a request of member \<open>u\<close> has passed
  its checks and a request of \<open>u'\<close> for the same book is handled before the insertion, the second
  one passes too (unless \<open>u'\<close> is at the limit) and the book gets two reservations. After the
  insertion it would have been refused with 409.\<close>

theorem reservation_create_race:
  assumes "one_result pick" and "create_checks pick cle now u data s = (s1, Inr l)"
    and "length (filter (\<lambda>r. res_utilisateur r = u') (reservations s1)) < 3" and "u' \<noteq> u" and "now \<le> now'"
  shows "(create_checks pick cle now u' data s1 = (s1, Inr l)) \<and>
    (length (filter (\<lambda>r. res_livre r = l)
           (reservations (fst (create_insert now' u' l (fst (create_insert now' u l s1)))))) = 2) \<and>
    (\<exists>s2. create_checks pick cle now u' data (fst (create_insert now' u l s1)) =
           (s2, Inl (409, Inl ''Livre deja reserve'')))"
proof (intro conjI impI)
  note chk = create_checks_Inr [OF assms(1,2)]
  have v: "truthy (get_or_null data ''livreId'')" "cle (get_or_null data ''livreId'') = Inr (Some l)"
    using assms(2) by (auto simp: create_checks_def Let_def bind_eq_Some_conv split: if_splits option.splits sum.splits)
  have s1: "fst (purgeExpired s1 (now - seven_days)) = s1" unfolding chk(1) by (simp add: purgeExpired_def)
  have l: "livres s1 l = Some None" using chk(1,2) by simp
  show "create_checks pick cle now u' data s1 = (s1, Inr l)"
    using chk(4) assms(3) unfolding create_checks_Some [where cle = cle, OF assms(1) v l] s1 by auto
  show "length (filter (\<lambda>r. res_livre r = l)
           (reservations (fst (create_insert now' u' l (fst (create_insert now' u l s1)))))) = 2"
    using chk(4) by (simp add: create_insert_def Let_def)
  let ?s2 = "fst (create_insert now' u l s1)"
  have p: "\<forall>r \<in> set (reservations s1). now - seven_days \<le> dateResa r" unfolding chk(1) by simp
  have "fst (purgeExpired ?s2 (now - seven_days)) = ?s2"
    using p assms(5) by (simp add: purgeExpired_def create_insert_def Let_def seven_days_def not_less)
  moreover have "livres ?s2 l = Some None" using l by (simp add: create_insert_def Let_def)
  ultimately show "\<exists>s2. create_checks pick cle now u' data ?s2 = (s2, Inl (409, Inl ''Livre deja reserve''))"
    using create_checks_Some [where cle = cle, OF assms(1) v, of ?s2 None now u'] assms(3,4)
    by (auto simp: create_insert_def Let_def)
qed

text \<open>C30: A member sees and removes only own reservations: the list is exactly the member's active
  reservations, newest first (rows of the same date in the order the database reads them); a single reservation is shown, and removed, only to its owner, and a
  refused request changes nothing.\<close>

theorem reservation_ownership:
  assumes ordre: "\<And>rs. mset (ordre rs) = mset rs"
  shows "(\<exists>s1 rs. reservation_index ordre now user s = (s1, 200, Inr rs) \<and>
           mset rs = mset (filter (\<lambda>r. res_utilisateur r = user \<and> now - 7 * 86400 \<le> dateResa r) (reservations s)) \<and>
           sorted_wrt (\<lambda>r r'. dateResa r \<ge> dateResa r') rs) \<and>
    (reservation_show user s i = (200, Inr r) \<longrightarrow>
           r \<in> set (reservations s) \<and> res_id r = i \<and> res_utilisateur r = user) \<and>
    (reservation_delete user i s = (s', st, m) \<longrightarrow>
           (if \<exists>r. find_reservation s i = Some r \<and> res_utilisateur r = user
            then st = 200 \<and> reservations s' = filter (\<lambda>r. res_id r \<noteq> i) (reservations s)
            else st \<in> {403, 404} \<and> s' = s))"
proof (intro conjI)
  have "filter (\<lambda>r. res_utilisateur r = user \<and> now - seven_days \<le> dateResa r)
      (filter (\<lambda>r. now - seven_days \<le> dateResa r) (reservations s)) =
    filter (\<lambda>r. res_utilisateur r = user \<and> now - seven_days \<le> dateResa r) (reservations s)"
    by (auto intro: filter_cong)
  moreover have "sorted (map (\<lambda>r. - dateResa r) (sort_key (\<lambda>r. - dateResa r) rs))" for rs by simp
  then have "sorted_wrt (\<lambda>r r'. dateResa r \<ge> dateResa r') (sort_key (\<lambda>r. - dateResa r) rs)" for rs
    by (simp add: sorted_map)
  ultimately show "\<exists>s1 rs. reservation_index ordre now user s = (s1, 200, Inr rs) \<and>
           mset rs = mset (filter (\<lambda>r. res_utilisateur r = user \<and> now - 7 * 86400 \<le> dateResa r) (reservations s)) \<and>
           sorted_wrt (\<lambda>r r'. dateResa r \<ge> dateResa r') rs"
    using ordre by (simp add: reservation_index_def findActiveByUser_def Let_def seven_days_def del: filter_filter mset_filter)
  show "reservation_show user s i = (200, Inr r) \<longrightarrow>
      r \<in> set (reservations s) \<and> res_id r = i \<and> res_utilisateur r = user"
    by (auto simp: reservation_show_def find_reservation_def find_Some_iff split: option.splits if_splits)
  show "reservation_delete user i s = (s', st, m) \<longrightarrow>
           (if \<exists>r. find_reservation s i = Some r \<and> res_utilisateur r = user
            then st = 200 \<and> reservations s' = filter (\<lambda>r. res_id r \<noteq> i) (reservations s)
            else st \<in> {403, 404} \<and> s' = s)"
    by (auto simp: reservation_delete_def split: option.splits if_splits)
qed

text \<open>C3: Saving a new loan, for every form (the primary keys of the reservations are distinct). Without a member the request ends with the exception that the
  book is reserved, or else with an error; without a book with the message of the limit or else with an
  error. With both, the reservation of the book that \<open>findOneBy\<close> returns decides: if another member
  made it, the exception is raised; five open loans of the member and an open loan of the book each
  show a message and save nothing; otherwise that reservation is removed, the loan is added with the
  entered or the current date, and an open loan is recorded at the book. When the book has at most one
  reservation, this means that a reservation of another member is always respected and no reservation
  of the book is left; with a second one, by another member, the loan may be saved in spite of it.\<close>

theorem persistEntity_spec:
  assumes "one_result pick" "one_result pick_emp" "distinct (map res_id (reservations s))"
  shows "let d = (case f_dateEmprunt f of None \<Rightarrow> now | Some d \<Rightarrow> d);
      resas = (\<lambda>l. filter (\<lambda>r. res_livre r = l) (reservations s));
      ouverts = (\<lambda>l. filter (\<lambda>e. emp_livre e = l \<and> dateRetour e = None) (emprunts s));
      refus = Exception ''Ce livre est reserve par un autre adherent !'';
      resultat = persistEntity pick pick_emp now f s
    in (f_utilisateur f = None \<longrightarrow>
          resultat = Inl (if \<exists>l. f_livre f = Some l \<and> resas l \<noteq> [] then refus else Member_of_null)) \<and>
       (\<forall>u. f_utilisateur f = Some u \<and> f_livre f = None \<longrightarrow>
          resultat = (if 5 \<le> length (emprunts_actifs s u) then Inr (Some Limite_de_5_emprunts, s)
                      else Inl (if f_dateRetour f = None then Member_of_null else Constraint_violation))) \<and>
       (\<forall>u l. f_utilisateur f = Some u \<and> f_livre f = Some l \<longrightarrow>
          resultat = (if \<exists>r. pick (resas l) = Some r \<and> res_utilisateur r \<noteq> u then Inl refus
                      else if 5 \<le> length (emprunts_actifs s u) then Inr (Some Limite_de_5_emprunts, s)
                      else if ouverts l \<noteq> []
                      then Inr (Some (Deja_emprunte_par (emp_utilisateur (the (pick_emp (ouverts l))))), s)
                      else Inr (None, (preter d (f_dateRetour f) u l s)
                             \<lparr>reservations := filter (\<lambda>x. pick (resas l) \<noteq> Some x) (reservations s)\<rparr>)) \<and>
          (length (resas l) \<le> 1 \<longrightarrow>
             ((\<exists>r. pick (resas l) = Some r \<and> res_utilisateur r \<noteq> u) \<longleftrightarrow> (\<exists>r \<in> set (resas l). res_utilisateur r \<noteq> u)) \<and>
             filter (\<lambda>x. pick (resas l) \<noteq> Some x) (reservations s) = filter (\<lambda>x. res_livre x \<noteq> l) (reservations s)) \<and>
          (\<forall>r r'. pick (resas l) = Some r \<and> res_utilisateur r = u \<and> r' \<in> set (resas l) \<and> res_utilisateur r' \<noteq> u \<and>
             length (emprunts_actifs s u) < 5 \<and> ouverts l = [] \<longrightarrow>
             (\<exists>s'. resultat = Inr (None, s') \<and> r' \<in> set (reservations s'))))"
proof -
  have member: "persistEntity pick pick_emp now f s = Inl (if \<exists>l. f_livre f = Some l \<and> filter (\<lambda>r. res_livre r = l) (reservations s) \<noteq> []
      then Exception ''Ce livre est reserve par un autre adherent !'' else Member_of_null)" if "f_utilisateur f = None"
    using that assms(1) by (cases "f_livre f") (auto simp: persistEntity_def Let_def one_result_None split: option.splits)
  have book: "persistEntity pick pick_emp now f s =
      (if 5 \<le> length (emprunts_actifs s u) then Inr (Some Limite_de_5_emprunts, s)
       else Inl (if f_dateRetour f = None then Member_of_null else Constraint_violation))"
    if "f_utilisateur f = Some u \<and> f_livre f = None" for u
    using that one_result_None [OF assms(1), of "[]"] one_result_None [OF assms(2), of "[]"]
    by (simp add: persistEntity_def Let_def)
  note both = persistEntity_both [OF assms, unfolded Let_def]
  show ?thesis unfolding Let_def
  proof (intro conjI allI impI)
    fix u l assume f: "f_utilisateur f = Some u \<and> f_livre f = Some l"
    let ?R = "filter (\<lambda>r. res_livre r = l) (reservations s)"
    show "(\<exists>r. pick ?R = Some r \<and> res_utilisateur r \<noteq> u) \<longleftrightarrow> (\<exists>r \<in> set ?R. res_utilisateur r \<noteq> u)"
      and "filter (\<lambda>x. pick ?R \<noteq> Some x) (reservations s) = filter (\<lambda>x. res_livre x \<noteq> l) (reservations s)"
      if "length ?R \<le> 1"
      using that pick_single [OF assms(1) that] by (auto intro: filter_cong)
    fix r r'
    assume h: "pick ?R = Some r \<and> res_utilisateur r = u \<and> r' \<in> set ?R \<and> res_utilisateur r' \<noteq> u \<and>
      length (emprunts_actifs s u) < 5 \<and> filter (\<lambda>e. emp_livre e = l \<and> dateRetour e = None) (emprunts s) = []"
    then show "\<exists>s'. persistEntity pick pick_emp now f s = Inr (None, s') \<and> r' \<in> set (reservations s')"
      using both [OF conjunct2 [OF f] conjunct1 [OF f], of now] by auto
  qed (use member book both in auto)
qed

text \<open>C29: The loan form looks for a reservation without regard to its age: a reservation that expired more
  than seven days ago, but has not been purged, still refuses the book to every other member. Once
  the command that deletes expired reservations has run, the same form saves the loan.\<close>

theorem expired_reservation_blocks_loan:
  assumes "one_result pick" "one_result pick_emp" "reservations_ok s" "emprunts_ok s"
    and f: "f_livre f = Some l" "f_utilisateur f = Some u"
    and r: "r \<in> set (reservations s)" "res_livre r = l" "res_utilisateur r \<noteq> u" "dateResa r < now - 7 * 86400"
    and "length (emprunts_actifs s u) < 5"
  shows "(persistEntity pick pick_emp now f s = Inl (Exception ''Ce livre est reserve par un autre adherent !'')) \<and>
    (\<exists>s'. persistEntity pick pick_emp now f (fst (expire_execute now s)) = Inr (None, s') \<and>
           (\<exists>e \<in> set (emprunts s'). emp_utilisateur e = u \<and> emp_livre e = l \<and> e \<notin> set (emprunts s)))"
proof (intro conjI impI)
  show "persistEntity pick pick_emp now f s = Inl (Exception ''Ce livre est reserve par un autre adherent !'')"
    by (rule persistEntity_reserved [OF assms(1,3) f r(1-3)])
  let ?s = "fst (expire_execute now s)"
  have ok: "reservations_ok ?s" "emprunts_ok ?s"
    using purge_ok assms(3,4) by (simp_all add: expire_execute_def Let_def)
  have same: "emprunts ?s = emprunts s" "livres ?s = livres s" "next_emp ?s = next_emp s"
    by (simp_all add: expire_execute_def Let_def)
  have nr: "\<forall>x \<in> set (reservations ?s). res_livre x = l \<longrightarrow> res_utilisateur x = u"
  proof (intro ballI impI)
    fix x assume x: "x \<in> set (reservations ?s)" "res_livre x = l"
    then have "x \<in> set (reservations s)" "now - 7 * 86400 \<le> dateResa x"
      by (simp_all add: expire_execute_def Let_def seven_days_def)
    then show "res_utilisateur x = u"
      using reservation_of_book_unique [OF assms(3) r(1), of x] x(2) r(2,4) by auto
  qed
  have "livres s l = Some None" using assms(3) r by (auto simp: reservations_ok_def)
  then have free: "\<forall>e \<in> set (emprunts s). emp_livre e = l \<longrightarrow> dateRetour e \<noteq> None"
    using assms(4) by (auto simp: emprunts_ok_def)
  then have "pick_emp (filter (\<lambda>e. emp_livre e = l \<and> dateRetour e = None) (emprunts ?s)) = None"
    using assms(2) by (auto simp: one_result_None filter_empty_conv same)
  moreover have "length (emprunts_actifs ?s u) < 5" using assms(11) by (simp add: emprunts_actifs_def same)
  ultimately have "persistEntity pick pick_emp now f ?s =
      Inr (None, preter (case f_dateEmprunt f of None \<Rightarrow> now | Some d \<Rightarrow> d) (f_dateRetour f) u l ?s)"
    using persistEntity_other [OF assms(1,2) ok(1) f nr, of now] by simp
  moreover have "\<exists>e \<in> set (emprunts (preter t ret u l ?s)). emp_utilisateur e = u \<and> emp_livre e = l \<and> e \<notin> set (emprunts s)" for t ret
    using assms(4) by (auto simp: emprunts_ok_def preter_def same)
  ultimately show "\<exists>s'. persistEntity pick pick_emp now f ?s = Inr (None, s') \<and>
           (\<exists>e \<in> set (emprunts s'). emp_utilisateur e = u \<and> emp_livre e = l \<and> e \<notin> set (emprunts s))"
    by blast
qed

text \<open>Editing a loan is not checked. Clearing the return date of a returned loan reopens it although
  the book has been lent to someone else since: the book has two open loans. Changing the book of
  an open loan leaves the old book marked as lent although it has no open loan any more.\<close>

theorem updateEntity_unchecked:
  assumes "emprunts_ok s" and "e \<in> set (emprunts s)"
    and f: "f_utilisateur f = Some u" "f_dateEmprunt f = Some d" "f_dateRetour f = None"
  shows "(e' \<in> set (emprunts s) \<longrightarrow> emp_id e' \<noteq> emp_id e \<longrightarrow> emp_livre e' = emp_livre e \<longrightarrow>
           dateRetour e' = None \<longrightarrow> f_livre f = Some (emp_livre e) \<longrightarrow>
           (\<exists>s'. updateEntity (emp_id e) f s = Inr s' \<and>
             (\<exists>x \<in> set (emprunts s'). \<exists>y \<in> set (emprunts s'). x \<noteq> y \<and> emp_livre x = emp_livre y \<and>
                dateRetour x = None \<and> dateRetour y = None))) \<and>
    (dateRetour e = None \<longrightarrow> f_livre f = Some l \<longrightarrow> l \<noteq> emp_livre e \<longrightarrow>
           (\<exists>s'. updateEntity (emp_id e) f s = Inr s' \<and> \<not> isDisponible s' (emp_livre e) \<and>
             (\<forall>x \<in> set (emprunts s'). emp_livre x = emp_livre e \<longrightarrow> dateRetour x \<noteq> None)))"
proof (intro conjI impI)
  show "\<exists>s'. updateEntity (emp_id e) f s = Inr s' \<and>
             (\<exists>x \<in> set (emprunts s'). \<exists>y \<in> set (emprunts s'). x \<noteq> y \<and> emp_livre x = emp_livre y \<and>
                dateRetour x = None \<and> dateRetour y = None)"
    if r: "e' \<in> set (emprunts s)" "emp_id e' \<noteq> emp_id e" "emp_livre e' = emp_livre e" "dateRetour e' = None"
      "f_livre f = Some (emp_livre e)"
  proof -
    let ?x = "\<lparr>emp_id = emp_id e, dateEmprunt = d, dateRetour = None, emp_utilisateur = u, emp_livre = emp_livre e\<rparr>"
    obtain s' where s': "updateEntity (emp_id e) f s = Inr s'"
      "emprunts s' = map (\<lambda>x. if emp_id x = emp_id e then ?x else x) (emprunts s)"
      using f r(5) by (simp add: updateEntity_def Let_def setEmprunt_def)
    have "?x \<in> set (emprunts s')" "e' \<in> set (emprunts s')" using s'(2) assms(2) r(1,2) by force+
    moreover have "?x \<noteq> e'" using r(2) by auto
    ultimately show ?thesis using s'(1) r(3,4) by fastforce
  qed
  assume o: "dateRetour e = None" and fl: "f_livre f = Some l" and l: "l \<noteq> emp_livre e"
  have "livres s (emp_livre e) = Some (Some (emp_id e))" using assms(1,2) o by (auto simp: emprunts_ok_def)
  moreover have "emp_id x = emp_id e" if "x \<in> set (emprunts s)" "emp_livre x = emp_livre e" "dateRetour x = None" for x
    using loan_of_book_unique [OF assms(1,2) that(1)] that o by simp
  ultimately show "\<exists>s'. updateEntity (emp_id e) f s = Inr s' \<and> \<not> isDisponible s' (emp_livre e) \<and>
             (\<forall>x \<in> set (emprunts s'). emp_livre x = emp_livre e \<longrightarrow> dateRetour x \<noteq> None)"
    using f fl l by (auto simp: updateEntity_def Let_def setEmprunt_def isDisponible_def getEmprunt_def)
qed

text \<open>The loan endpoint of the API never creates a loan: whatever JSON is sent, the request ends with an
  exception, because decoded values are never the entities that the setters require.\<close>

theorem api_emprunt_create_fails:
  "\<exists>x. api_emprunt_create now data s = Inl x"
proof -
  have "get_offset data k = Inr v \<Longrightarrow> set_entity v = Inr y \<Longrightarrow> y = None" for k v y
    by (cases v) auto
  then show ?thesis
    by (auto simp: api_emprunt_create_def split: sum.splits option.splits)
qed

text \<open>C31: Of the access rules only the first that matches counts: every path under \<^verbatim>\<open>/api\<close> is open
  to visitors without a token, so the rules for \<^verbatim>\<open>/api/user/me\<close>, \<^verbatim>\<open>/api/emprunts\<close> and
  \<^verbatim>\<open>/api/reservations\<close> never apply, and the list of all loans, whose controller asks for no
  role, is public. The administration needs a librarian or a person in charge.\<close>

theorem access_control_first_rule:
  "access_allowed who (''/api'' @ rest) \<and>
   emprunt_endpoint_allowed None ''/api/emprunts'' ''index'' \<and>
   (access_allowed who (''/admin'' @ rest) \<longleftrightarrow>
     (\<exists>rs. who = Some rs \<and> (''ROLE_BIBLIOTHECAIRE'' \<in> set rs \<or> ''ROLE_RESPONSABLE'' \<in> set rs)))"
proof (intro conjI)
  have api: "access_allowed who (''/api'' @ rest)" for who rest
    by (simp add: access_allowed_def access_control_def)
  then show "access_allowed who (''/api'' @ rest)" .
  show "emprunt_endpoint_allowed None ''/api/emprunts'' ''index''"
    using api [of None "''/emprunts''"] by (simp add: emprunt_endpoint_allowed_def)
  have rule: "access_rule access_control (''/admin'' @ rest) = Some [''ROLE_BIBLIOTHECAIRE'', ''ROLE_RESPONSABLE'']"
    by (simp add: access_control_def)
  have rel: "''ROLE_BIBLIOTHECAIRE'' \<in> set (role_hierarchy r) \<longleftrightarrow> r = ''ROLE_RESPONSABLE''"
    "''ROLE_RESPONSABLE'' \<notin> set (role_hierarchy r)" for r
    by (simp_all add: role_hierarchy_def)
  have reach: "a \<in> set (reachable_roles rs) \<longleftrightarrow> a \<in> set rs \<or> (\<exists>r \<in> set rs. a \<in> set (role_hierarchy r))" for a rs
    by (auto simp: reachable_roles_def)
  show "access_allowed who (''/admin'' @ rest) \<longleftrightarrow>
     (\<exists>rs. who = Some rs \<and> (''ROLE_BIBLIOTHECAIRE'' \<in> set rs \<or> ''ROLE_RESPONSABLE'' \<in> set rs))"
    unfolding access_allowed_def rule by (cases who) (auto simp: reach rel)
qed

text \<open>A profile update changes the e-mail address, the telephone number and the postal address and
  nothing else, each only by a string under its own key; in particular roles, password, key and the
  activation of the account cannot be set through the request.\<close>

theorem profile_update_fields:
  assumes "profile_update accepts user data = Inr (st, Inr u')"
  shows "\<exists>u kvs. user = Some u \<and> data = JArray kvs \<and> st = 200 \<and> accepts u' \<and>
     u' = u\<lparr>email := (case string_at kvs ''email'' of None \<Rightarrow> email u | Some v \<Rightarrow> v),
            numTel := (case string_at kvs ''numTel'' of None \<Rightarrow> numTel u | Some v \<Rightarrow> v),
            adressePostale := (case string_at kvs ''adressePostale'' of None \<Rightarrow> adressePostale u | Some v \<Rightarrow> v)\<rparr> \<and>
     getRoles u' = getRoles u \<and> enabled u' = enabled u \<and> password u' = password u"
proof -
  obtain u where u: "user = Some u" using assms by (auto simp: profile_update_def split: option.splits)
  obtain kvs where d: "data = JArray kvs" using assms u by (auto simp: profile_update_def split: json.splits)
  show ?thesis
    using assms u d unfolding profile_update_def
    by (cases "string_at kvs ''email''"; cases "string_at kvs ''numTel''"; cases "string_at kvs ''adressePostale''")
      (simp_all add: Let_def getRoles_def del: string_at.simps split: if_splits, auto)
qed

section \<open>Concrete instances\<close>

text \<open>A database that returns the first row; keys that are JSON integers, and exceptions for arrays.\<close>

definition premier :: "'a list \<Rightarrow> 'a option" where
  "premier xs = (case xs of [] \<Rightarrow> None | x # _ \<Rightarrow> Some x)"

definition cle_int :: "json \<Rightarrow> php_error + ident option" where
  "cle_int v = (case v of JInt i \<Rightarrow> Inr (Some (nat i)) | JArray _ \<Rightarrow> Inl (Exception ''Cannot convert'') | _ \<Rightarrow> Inr None)"

definition demande :: "int \<Rightarrow> json" where
  "demande l = JArray [(''livreId'', JInt l)]"

text \<open>Book 1 registered; reserved by member 7 on day 10; lent to member 7.\<close>

definition base_1 :: base where
  "base_1 = base_vide\<lparr>livres := [1 \<mapsto> None]\<rparr>"

definition base_2 :: base where
  "base_2 = base_1\<lparr>reservations := [\<lparr>res_id = 1, dateResa = 864000, res_utilisateur = 7, res_livre = 1\<rparr>], next_res := 2\<rparr>"

definition base_3 :: base where
  "base_3 = base_1\<lparr>emprunts := [\<lparr>emp_id = 1, dateEmprunt = 864100, dateRetour = None, emp_utilisateur = 7, emp_livre = 1\<rparr>],
     next_emp := 2, next_res := 2, livres := [1 \<mapsto> Some 1]\<rparr>"

lemma one_result_premier: "one_result premier"
  by (auto simp: one_result_def premier_def neq_Nil_conv)

lemmas exemple_defs = base_1_def base_2_def base_3_def base_vide_def premier_def cle_int_def demande_def
  seven_days_def purgeExpired_def getEmprunt_def emprunts_actifs_def Let_def numeral_2_eq_2

lemma histoire_2: "(requete edits premier pick_emp)\<^sup>*\<^sup>* base_vide base_2"
proof -
  have "requete edits premier pick_emp base_vide base_1"
    unfolding base_1_def using req_livre [of base_vide 1] by (simp add: base_vide_def)
  moreover have "base_2 = fst (reservation_create premier cle_int 864000 864000 7 (demande 1) base_1)"
    by (simp add: exemple_defs reservation_create_def create_checks_def create_insert_def countActiveForUser_def
        findActiveByLivre_def)
  then have "requete edits premier pick_emp base_1 base_2" by (metis req_create)
  ultimately show ?thesis by (meson rtranclp.rtrancl_refl rtranclp.rtrancl_into_rtrancl)
qed

lemma histoire_3: "(requete edits premier premier)\<^sup>*\<^sup>* base_vide base_3"
proof -
  have "persistEntity premier premier 864100 \<lparr>f_dateEmprunt = None, f_dateRetour = None, f_utilisateur = Some 7, f_livre = Some 1\<rparr> base_2
      = Inr (None, base_3)"
    by (simp add: persistEntity_def exemple_defs setEmprunt_def)
  then have "requete edits premier premier base_2 base_3"
    by (rule req_persist) (simp add: exemple_defs)
  then show ?thesis using histoire_2 by (meson rtranclp.rtrancl_into_rtrancl)
qed

lemma base_2_ok: "reservations_ok base_2" "emprunts_ok base_2"
  using histoire_ok [OF histoire_2 one_result_premier one_result_premier] by simp_all

lemma base_3_ok: "reservations_ok base_3" "emprunts_ok base_3"
  using histoire_ok [OF histoire_3 one_result_premier one_result_premier] by simp_all

theorem bibliotheque_invariant_witness:
  "(requete date_edit premier premier)\<^sup>*\<^sup>* base_vide base_3 \<and> \<not> isDisponible base_3 1 \<and>
   (\<forall>u. length (emprunts_actifs base_3 u) \<le> 5) \<and>
   (\<exists>e \<in> set (emprunts base_3). emp_livre e = 1 \<and> dateRetour e = None)"
proof -
  have d: "\<not> isDisponible base_3 1" "livres base_3 1 \<noteq> None" by (simp_all add: isDisponible_def exemple_defs)
  note inv = bibliotheque_invariant [OF one_result_premier one_result_premier, of base_3, THEN conjunct2, THEN conjunct1,
      rule_format, OF histoire_3]
  have "isDisponible base_3 1 = (\<forall>e \<in> set (emprunts base_3). emp_livre e = 1 \<longrightarrow> dateRetour e \<noteq> None)"
    using inv d(2) by blast
  then have "\<exists>e \<in> set (emprunts base_3). emp_livre e = 1 \<and> dateRetour e = None" using d(1) by auto
  moreover have "\<forall>u. length (emprunts_actifs base_3 u) \<le> 5" using inv by blast
  ultimately show ?thesis using d(1) histoire_3 by (intro conjI)
qed

theorem reservation_create_spec_witness:
  "reservation_create premier cle_int 864000 864000 7 (demande 1) base_1 =
     (base_2, 201, Inr \<lparr>res_id = 1, dateResa = 864000, res_utilisateur = 7, res_livre = 1\<rparr>) \<and>
   reservation_create premier cle_int 864000 864000 7 (JArray [(''livreId'', JArray [(''0'', JInt 1)])]) base_1 =
     (base_1, 500, Inl ''Internal Server Error'')"
proof (intro conjI)
  show "reservation_create premier cle_int 864000 864000 7 (demande 1) base_1 =
     (base_2, 201, Inr \<lparr>res_id = 1, dateResa = 864000, res_utilisateur = 7, res_livre = 1\<rparr>)"
    using reservation_create_spec [OF one_result_premier, of "demande 1" 864000 base_1 cle_int 864000 7]
    by (simp add: Let_def exemple_defs isDisponible_def)
  show "reservation_create premier cle_int 864000 864000 7 (JArray [(''livreId'', JArray [(''0'', JInt 1)])]) base_1 =
     (base_1, 500, Inl ''Internal Server Error'')"
    using reservation_create_spec [OF one_result_premier, of "JArray [(''livreId'', JArray [(''0'', JInt 1)])]" 864000 base_1 cle_int 864000 7]
    by (simp add: Let_def exemple_defs)
qed

theorem reservation_create_race_witness:
  "create_checks premier cle_int 864000 7 (demande 1) base_1 = (base_1, Inr 1) \<and>
   length (filter (\<lambda>r. res_livre r = 1)
     (reservations (fst (create_insert 864000 8 1 (fst (create_insert 864000 7 1 base_1)))))) = 2"
proof -
  have c: "create_checks premier cle_int 864000 7 (demande 1) base_1 = (base_1, Inr 1)"
    by (simp add: exemple_defs create_checks_def countActiveForUser_def findActiveByLivre_def)
  then show ?thesis
    using reservation_create_race [OF one_result_premier c, of 8 864000] by (simp add: exemple_defs)
qed

theorem reservation_ownership_witness:
  "\<exists>ordre. reservation_delete 8 1 base_2 = (base_2, 403, Inl ''Vous ne pouvez pas supprimer cette reservation'') \<and>
     (\<exists>s1 rs. reservation_index ordre 864000 7 base_2 = (s1, 200, Inr rs) \<and> length rs = 1)"
proof -
  have o: "mset (rev rs) = mset rs" for rs :: "reservation list" by simp
  have d: "reservation_delete 8 1 base_2 = (base_2, 403, Inl ''Vous ne pouvez pas supprimer cette reservation'')"
    by (simp add: reservation_delete_def find_reservation_def exemple_defs)
  from reservation_ownership [OF o, of 864000 7 base_2, THEN conjunct1] obtain s1 rs where
    i: "reservation_index rev 864000 7 base_2 = (s1, 200, Inr rs)"
    and m: "mset rs = mset (filter (\<lambda>r. res_utilisateur r = 7 \<and> 864000 - 7 * 86400 \<le> dateResa r) (reservations base_2))"
    by blast
  have "length rs = 1" using arg_cong [OF m, of size] by (simp add: exemple_defs)
  with d i show ?thesis by blast
qed

text \<open>Member 7 lends the book 1 with a reservation of its own, and of its own beside one of member 8.\<close>

theorem persistEntity_spec_witness:
  "persistEntity premier premier 864100 \<lparr>f_dateEmprunt = None, f_dateRetour = None, f_utilisateur = Some 7, f_livre = Some 1\<rparr> base_2
     = Inr (None, base_3) \<and>
   (\<exists>s'. persistEntity premier premier 864100 \<lparr>f_dateEmprunt = None, f_dateRetour = None, f_utilisateur = Some 7, f_livre = Some 1\<rparr>
       (fst (create_insert 864000 8 1 base_2)) = Inr (None, s') \<and>
     \<lparr>res_id = 2, dateResa = 864000, res_utilisateur = 8, res_livre = 1\<rparr> \<in> set (reservations s'))"
proof (intro conjI)
  let ?f = "\<lparr>f_dateEmprunt = None, f_dateRetour = None, f_utilisateur = Some 7, f_livre = Some 1\<rparr>"
  have "distinct (map res_id (reservations base_2))" by (simp add: exemple_defs)
  from persistEntity_spec [OF one_result_premier one_result_premier this, of 864100 ?f, unfolded Let_def,
      THEN conjunct2, THEN conjunct2, rule_format, of 7 1]
  show "persistEntity premier premier 864100 ?f base_2 = Inr (None, base_3)"
    by (simp add: exemple_defs preter_def)
  let ?s = "fst (create_insert 864000 8 1 base_2)"
  have "distinct (map res_id (reservations ?s))" by (simp add: exemple_defs create_insert_def)
  from persistEntity_spec [OF one_result_premier one_result_premier this, of 864100 ?f, unfolded Let_def,
      THEN conjunct2, THEN conjunct2, rule_format, of 7 1]
  show "\<exists>s'. persistEntity premier premier 864100 ?f ?s = Inr (None, s') \<and>
     \<lparr>res_id = 2, dateResa = 864000, res_utilisateur = 8, res_livre = 1\<rparr> \<in> set (reservations s')"
    by (simp add: exemple_defs preter_def create_insert_def)
qed

theorem expired_reservation_blocks_loan_witness:
  "persistEntity premier premier 1728000 \<lparr>f_dateEmprunt = None, f_dateRetour = None, f_utilisateur = Some 8, f_livre = Some 1\<rparr> base_2
     = Inl (Exception ''Ce livre est reserve par un autre adherent !'')"
  using expired_reservation_blocks_loan [OF one_result_premier one_result_premier base_2_ok, of
    "\<lparr>f_dateEmprunt = None, f_dateRetour = None, f_utilisateur = Some 8, f_livre = Some 1\<rparr>" 1 8
    "\<lparr>res_id = 1, dateResa = 864000, res_utilisateur = 7, res_livre = 1\<rparr>" 1728000]
  by (simp add: exemple_defs)

text \<open>Member 7 still has book 1 and is given book 2 instead.\<close>

theorem updateEntity_unchecked_witness:
  "\<exists>s'. updateEntity 1 \<lparr>f_dateEmprunt = Some 864100, f_dateRetour = None, f_utilisateur = Some 7, f_livre = Some 2\<rparr> base_3 = Inr s' \<and>
     \<not> isDisponible s' 1 \<and> (\<forall>x \<in> set (emprunts s'). emp_livre x = 1 \<longrightarrow> dateRetour x \<noteq> None)"
proof -
  let ?e = "\<lparr>emp_id = 1, dateEmprunt = 864100, dateRetour = None, emp_utilisateur = 7, emp_livre = 1\<rparr>"
  have e: "?e \<in> set (emprunts base_3)" by (simp add: exemple_defs)
  show ?thesis
    using updateEntity_unchecked [OF base_3_ok(2) e, of
      "\<lparr>f_dateEmprunt = Some 864100, f_dateRetour = None, f_utilisateur = Some 7, f_livre = Some 2\<rparr>" 7 864100 ?e 2] by simp
qed

theorem profile_update_fields_witness:
  "\<exists>u'. profile_update (\<lambda>_. True) (Some \<lparr>uti_id = 7, dateAdhesion = 0, nom = ''N'', prenom = ''P'', dateNaiss = 0,
      email = ''a'', adressePostale = ''r'', numTel = ''1'', photo = None, enabled = True, roles = [''ROLE_ADHERENT''],
      password = ''h''\<rparr>) (JArray [(''email'', JString ''b''), (''roles'', JArray [(''0'', JString ''ROLE_RESPONSABLE'')])]) = Inr (200, Inr u') \<and>
     email u' = ''b'' \<and> getRoles u' = [''ROLE_ADHERENT'', ''ROLE_USER'']"
proof -
  let ?u = "\<lparr>uti_id = 7, dateAdhesion = 0, nom = ''N'', prenom = ''P'', dateNaiss = 0,
      email = ''a'', adressePostale = ''r'', numTel = ''1'', photo = None, enabled = True, roles = [''ROLE_ADHERENT''],
      password = ''h''\<rparr>"
  let ?d = "JArray [(''email'', JString ''b''), (''roles'', JArray [(''0'', JString ''ROLE_RESPONSABLE'')])]"
  have e: "profile_update (\<lambda>_. True) (Some ?u) ?d = Inr (200, Inr (?u\<lparr>email := ''b''\<rparr>))"
    by (simp add: profile_update_def)
  from profile_update_fields [OF e] have "getRoles (?u\<lparr>email := ''b''\<rparr>) = getRoles ?u" by (auto simp: getRoles_def)
  with e show ?thesis by (intro exI [of _ "?u\<lparr>email := ''b''\<rparr>"]) (simp add: getRoles_def)
qed

end
