(* ===== verification/Spec2Isabelle.thy ===== *)
theory Spec2Isabelle
  imports My_Bit Sql_Bitmap Float_Order Sql_List I_List Sql_Plist Ilist Hash_Filo Lifo_Buffer Window_Funcs
    Privilege Thread_Cache Sql_Limit Mem_Root_Array Bin_String Longlong_Int My_Time Sel_Arg Histogram Mbr Array_View
    Temporal_Values Json_Writer Diagnostics Bounded_Queue Sort_Record Bibliotheque
begin

text \<open>
  \<^bold>\<open>Verification of the library application's rules and of the inline code of the MariaDB server headers\<close>

  The repository is a library reservation application: a PHP back end (\<^verbatim>\<open>src/backend_biblio\<close>), an Angular front
  end and the MariaDB distribution it runs on, whose C and C++ headers are under
  \<^verbatim>\<open>src/mariadb-fp/include/mysql\<close>. The headers hold the data structures and conversions that the server inlines
  everywhere; they are the C code of the repository and the larger part of this development. The rules for
  reservations and loans of the back end are its other part. Every definition that models code is preceded by a
  comment with the file, the lines and the symbol it translates.

  \<^bold>\<open>Components.\<close> One theory per component, on top of three theories that hold no code of the program:
  \<open>Prelude\<close> (machine types, rule collections, facts on words and lists), \<open>Containers\<close> (the interfaces \<open>fifo\<close>
  and \<open>lifo\<close> as locales, with the lemmas their clients use) and \<open>Dlist_Heap\<close> (chains of nodes with back
  references).

  \<^item> \<open>My_Bit\<close> (\<^verbatim>\<open>my_bit.h\<close>): logarithm, bit count, rounding to powers of two, bit reversal, search for the
    lowest bit.
  \<^item> \<open>Sql_Bitmap\<close> (\<^verbatim>\<open>sql_bitmap.h\<close>): the fixed-width bitmap as a set, its iterator and its printing.
  \<^item> \<open>Byte_Order\<close>, \<open>Myisampack\<close>, \<open>Float_Order\<close> (\<^verbatim>\<open>byte_order_generic*.h\<close>, \<^verbatim>\<open>myisampack.h\<close>,
    \<^verbatim>\<open>little_endian.h\<close>, \<^verbatim>\<open>big_endian.h\<close>): reading and storing numbers in both byte orders.
  \<^item> \<open>Sql_List\<close>, \<open>I_List\<close> (\<^verbatim>\<open>sql_list.h\<close>), \<open>Sql_Plist\<close> (\<^verbatim>\<open>sql_plist.h\<close>), \<open>Ilist\<close> (\<^verbatim>\<open>ilist.h\<close>): the five linked
    lists of the server, each on an explicit heap in which the state of a list is its cells and the
    back references are addresses of cells or nodes.
  \<^item> \<open>Hash_Filo\<close> (\<^verbatim>\<open>hash_filo.h\<close>): the cache with least-recently-used eviction and its mutex, and the rules its
    clients have to follow.
  \<^item> \<open>Lifo_Buffer\<close> (\<^verbatim>\<open>sql_lifo_buffer.h\<close>): the stacks of fixed-size elements in caller memory.
  \<^item> \<open>Mem_Root_Array\<close> (\<^verbatim>\<open>mem_root_array.h\<close>): the growing array, on blocks of memory with their sizes.
  \<^item> \<open>Window_Funcs\<close> (\<^verbatim>\<open>item_windowfunc.h\<close>): the accumulators of the window functions.
  \<^item> \<open>Privilege\<close> (\<^verbatim>\<open>privilege.h\<close>): privilege bits and their stored forms; uses \<open>My_Bit\<close>.
  \<^item> \<open>Thread_Cache\<close> (\<^verbatim>\<open>thread_cache.h\<close>): the cache of connection threads as a concurrent system of any number of
    threads below $2^{32}$, with timeouts, spurious wakeups and the one variable that is changed without the mutex; its queue of
    connections is an intrusive list of \<open>I_List\<close> (last section of this theory).
  \<^item> \<open>Sql_Limit\<close> (\<^verbatim>\<open>sql_limit.h\<close>): the LIMIT and OFFSET counters.
  \<^item> \<open>Bin_String\<close> (\<^verbatim>\<open>sql_string.h\<close>): the growing byte strings on a memory of blocks, with ownership of the buffers;
    uses \<open>Byte_Order\<close> for numbers in strings.
  \<^item> \<open>Longlong_Int\<close> (\<^verbatim>\<open>sql_type_int.h\<close>): 64-bit values with null and signedness flags, and the limits of the
    integer types.
  \<^item> \<open>My_Time\<close> (\<^verbatim>\<open>my_time.h\<close>, \<^verbatim>\<open>mysql_time.h\<close>, \<^verbatim>\<open>sql_basic_types.h\<close>, \<open>Sec6\<close>, \<open>Sec9\<close> and \<open>Sec6_add\<close> of
    \<^verbatim>\<open>sql_type.h\<close>): truncation, conversion of numbers and addition of times; uses \<open>Longlong_Int\<close>.
  \<^item> \<open>Temporal\<close>, \<open>Temporal_Values\<close> (\<^verbatim>\<open>sql_type.h\<close>, \<^verbatim>\<open>sql_time.h\<close>): the value classes \<open>Time\<close>, \<open>Date\<close>, \<open>Datetime\<close>
    and \<open>Timestamp\<close> over \<open>MYSQL_TIME\<close>, with their warnings, conversions, truncation and rounding, and the
    intervals and groups of digits of EXTRACT; on top of \<open>My_Time\<close>.
  \<^item> \<open>Json_Writer\<close> (\<^verbatim>\<open>my_json_writer.h\<close>): the output string with a size limit and the guards that open and close
    the objects and arrays of the optimizer trace; a writer is the log of the calls it receives.
  \<^item> \<open>Diagnostics\<close> (\<^verbatim>\<open>sql_error.h\<close>): SQL states, conditions, the warnings of a statement and the stack of
    warning informations, which is an \<open>I_P_List\<close> and uses the operations of \<open>Sql_Plist\<close>.
  \<^item> \<open>Sel_Arg\<close> (\<^verbatim>\<open>opt_range.h\<close>): the intervals of the range optimizer and the keys it builds from them.
  \<^item> \<open>Histogram\<close> (\<^verbatim>\<open>sql_statistics.h\<close>): column histograms and the search in them; uses \<open>Byte_Order\<close>.
  \<^item> \<open>Mbr\<close> (\<^verbatim>\<open>spatial.h\<close>): minimum bounding rectangles.
  \<^item> \<open>Array_View\<close> (\<^verbatim>\<open>span.h\<close>, \<^verbatim>\<open>sql_array.h\<close>): views of arrays, with the interface \<open>array_view\<close>, and the dynamic array.
  \<^item> \<open>Filesort_Buffer\<close> (\<^verbatim>\<open>filesort_utils.h\<close>), \<open>Bounded_Queue\<close> (\<^verbatim>\<open>bounded_queue.h\<close>, \<^verbatim>\<open>queues.h\<close>), \<open>Sort_Record\<close>
    (\<^verbatim>\<open>sql_sort.h\<close>): the memory of a sort, the queue that keeps the first rows and takes its keys from that memory, and the
    formats of the records; \<open>Sort_Record\<close> uses the macros of \<open>Byte_Order\<close>.
  \<^item> \<open>Bibliotheque\<close> (\<^verbatim>\<open>backend_biblio/src\<close> and \<^verbatim>\<open>config/packages/security.yaml\<close>): reservations, loans, expiry,
    profiles and access rules of the application, with the database as a record of tables and the requests as
    steps of a relation.

  \<^bold>\<open>Conventions.\<close> The release build is modelled: \<open>DBUG_ASSERT\<close> does nothing. \<open>int\<close> and \<open>uint\<close> have 32 bits,
  \<open>long\<close> 32 bits, \<open>size_t\<close> and \<open>longlong\<close> 64 bits, as on the x86-64 Windows platform of the distribution;
  other branches of the preprocessor are modelled where the byte order differs. An operation that may have
  undefined behaviour, such as following a null pointer, returns an option, and \<open>None\<close> is that case. Code that
  the repository does not contain is a parameter: the bit-reversal table, the hash table functions of
  \<open>Hash_Filo\<close> with the predicate \<open>hash_laws\<close>, the sort routine of the buffers, the rounding of floating-point
  operations in \<open>Window_Funcs\<close> and \<open>Histogram\<close>, the allocator of \<open>Bin_String\<close> (\<open>realloc_law\<close>), the table of powers
  of ten and the calendar functions of \<open>My_Time\<close>, the endpoint comparison and tree functions of \<open>Sel_Arg\<close>
  (\<open>sel_cmp_law\<close>, \<open>tree_laws\<close>), the functions of \<^verbatim>\<open>my_sys.h\<close> behind \<open>Array_View\<close>, the parsing, rounding and session functions of
  \<open>Temporal_Values\<close> (the record \<open>time_env\<close>), \<open>MBR::within\<close> in \<open>Mbr\<close>, the string under the output of \<open>Json_Writer\<close>
  (\<open>string_law\<close>), the functions that store and clear warnings in \<open>Diagnostics\<close> (\<open>wi_env_law\<close>), the functions of the priority
  queue under \<open>Bounded_Queue\<close> (\<open>queue_law\<close>), and what Doctrine and the
  database leave open in \<open>Bibliotheque\<close>.

  \<^bold>\<open>What is shown.\<close> The lists refine sequences, through representation predicates that every operation is
  shown to keep, and those used as queues interpret \<open>fifo\<close>. The buffers interpret \<open>lifo\<close>. The bitmaps refine
  finite sets. The byte order macros are inverse to each other, agree between platforms, and the
  high-byte-first forms order like the numbers. The cache of \<open>Hash_Filo\<close> refines a list in the order of last
  use, and no sequence of client calls that follows the rules of the cache leads to an undefined operation, while breaking
  them does. The thread cache keeps its count in all interleavings. The growing array destroys exactly the elements it
  moves or removes. The window functions return what the standard asks for up to the rounding of the
  arithmetic. The conversions of privileges are inverse on each level. The strings refine byte sequences and never
  free a buffer twice. Times add like signed numbers of microseconds,
  the conversions from dates do in each mode what the
  mode says, and the digits of EXTRACT read back as the time. The guards give the JSON writer balanced documents, and the
  limited output holds a prefix of them. Warnings of inner blocks never reach the outer ones. In a
  sort the records and the pointers to them never overlap, a queue for the first rows keeps exactly these, and records
  of every format are found again by their lengths. The intervals of the optimizer refine sets of
  values, and the keys built from them, over key parts of one order, enclose every row of the range. The search in a
  histogram ends with the right bucket, but for one case in histograms of two values. The predicates of rectangles, except
  \<open>touches\<close>, are relations of their point sets. In the application every sequential history of the modelled requests keeps the
  limits on reservations, and those on loans as well as long as loans are edited only in their dates; and each request
  does on every branch what its rules say.

  Where the code does not do what it means to, the theorem states what it does: the logarithm of
  \<^verbatim>\<open>my_bit.h\<close>, the printing of bitmaps, the failing allocation and \<open>check_list\<close> of \<^verbatim>\<open>sql_list.h\<close>,
  \<open>move_elements_to\<close>, \<open>pop_back\<close> of \<^verbatim>\<open>ilist.h\<close>, appending an own element in \<^verbatim>\<open>mem_root_array.h\<close>, two flushes of
  the thread cache at the same time and the unlocked increment of \<open>final_flush\<close>, \<open>chop\<close> and \<open>append_with_step\<close> of \<^verbatim>\<open>sql_string.h\<close>, shift counts above 32 bits in
  \<^verbatim>\<open>sql_type_int.h\<close>, range keys over parts of mixed order and full ranges in \<^verbatim>\<open>opt_range.h\<close>, histograms of two
  values, the calls of the JSON guards without a writer and large numbers in JSON arrays, conditions that are cleared,
  touching rectangles, the ends of spans and the growth of dynamic arrays, and in the application simultaneous reservations, expired and doubled reservations at the loan
  desk, edited loans, the loan endpoint and the order of the access rules.

  \<^bold>\<open>Loops and fuel.\<close> Loops whose end depends on the heap are \<open>partial_function (option)\<close>, and the properties
  show that they return on well-formed lists; the scan for the lowest bit is total by its measure; the
  iterator of \<open>I_List\<close> collects with fuel one more than the length of the list, which the property shows to be
  enough. Walks over \<open>ilist\<close> are stated for every number of steps. The keys of \<open>Sel_Arg\<close> are built with fuel 256, one
  more than the largest number of a key part, which grows with every step. Step relations are inductive, and their
  invariants are proved by rule induction.

  \<^bold>\<open>Not modelled.\<close> The front end; of the back end registration and login, the search queries, the catalogue endpoints
  and the generic administration pages (those of reservations, for instance, and the deletion of books), which hand their work to Symfony, Doctrine and EasyAdmin. The
  server classes whose bodies are not in the headers: items, fields, the parser, handlers, sessions, replication
  events and the geometry classes; what their headers hold inline is dispatch through virtual methods to that code, so that
  a model of it would be a model of its parameters. For the same reason the type handlers of \<^verbatim>\<open>sql_type.h\<close> and
  \<^verbatim>\<open>sql_type_fixedbin.h\<close>, the status methods and error texts of \<^verbatim>\<open>sql_error.h\<close>, the methods of \<open>Json_writer\<close>, and
  the red-black tree of \<open>SEL_ARG\<close> are left out. The constructors that only copy fields, typed wrappers that
  only cast, deleted operators, instrumentation for the performance schema and debug-only code of the modelled headers
  have no definitions of their own.
\<close>

section \<open>The queue of the thread cache\<close>

text \<open>
  The list of connections in \<open>Thread_Cache\<close> is a sequence there and an \<open>I_List\<close> in the code. The operations of
  the intrusive list do to the represented sequence what the pieces of \<open>enqueue\<close> and \<open>park\<close> do to theirs.
\<close>

lemma enqueue_queue:
  assumes "irep h l (conns c)" "connect \<notin> set (conns c)" "tc_enqueue c connect = (c', True)"
  shows "\<exists>h'. il_push_back h l connect = Some h' \<and> irep h' l (conns c')"
  using il_push_back_rep [OF assms(1,2)] assms(3) by (auto simp: tc_enqueue_def split: if_splits)

lemma park_queue:
  assumes "irep h l (conns c)" "tc_park sz c = (c', Return (Some connect) f) \<or> tc_park_loop c timeout = (c', Return (Some connect) f)"
  shows "\<exists>h'. il_get h l = Some (h', Link connect) \<and> irep h' l (conns c')"
proof -
  have "conns c = connect # conns c'"
    using assms(2) by (auto simp: tc_park_def tc_park_loop_def Let_def split: list.splits if_splits)
  then show ?thesis using il_get_rep [of h l connect "conns c'"] assms(1) by simp
qed

end
